(* ===== verification/Kernel_Prelude.thy ===== *)
theory Kernel_Prelude
  imports Main "HOL-Library.Word"
begin

unbundle bit_operations_syntax

text \<open>
  Shared vocabulary of the development: machine words and wrapped signed
  arithmetic, the outcome of a kernel path, error numbers, and the generic
  lemmas on words, functions and counting that the component theories use.
\<close>

named_theorems kernel_defs \<open>definitions of kernel operations, for unfolding\<close>
named_theorems frame_simps \<open>fields an operation leaves unchanged\<close>
named_theorems outcome_simps \<open>simplification of sequenced kernel paths\<close>

section \<open>Machine integers\<close>

type_synonym u8 = "8 word"
type_synonym u16 = "16 word"
type_synonym u32 = "32 word"

text \<open>
  A C \<open>int\<close> or \<open>long\<close> that is only counted and compared is an \<^typ>\<open>int\<close>
  kept in the range of 32-bit two's complement: every addition or subtraction
  of the source is followed by \<open>s32\<close>, the wrap-around of the machine.
\<close>

definition s32 :: "int \<Rightarrow> int" where
  "s32 i = (i + 2 ^ 31) mod 2 ^ 32 - 2 ^ 31"

definition in_s32 :: "int \<Rightarrow> bool" where
  "in_s32 i \<longleftrightarrow> - (2 ^ 31) \<le> i \<and> i < 2 ^ 31"

lemma s32_id [simp]: "in_s32 i \<Longrightarrow> s32 i = i"
  by (simp add: in_s32_def s32_def)

lemma in_s32_s32 [simp, intro]: "in_s32 (s32 i)"
  by (simp add: in_s32_def s32_def)

lemma s32_small: "0 \<le> i \<Longrightarrow> i < 2147483648 \<Longrightarrow> s32 i = i"
  by (rule s32_id) (simp add: in_s32_def)

lemma unat_drop_div: "unat (drop_bit n (x :: u32)) = unat x div 2 ^ n"
  by (metis unat_drop_bit_eq drop_bit_eq_div)

lemma unat_u32: "unat (x :: u32) < 4294967296"
proof -
  have "unat x < 2 ^ LENGTH(32)" by (rule unsigned_less)
  then show ?thesis by simp
qed

lemma unat_u8_inc: "unat (x :: u8) < 255 \<Longrightarrow> unat (x + 1) = unat x + 1"
  by (simp add: unat_word_ariths)

lemma unat_u8_dec: "(x :: u8) \<noteq> 0 \<Longrightarrow> unat (x - 1) = unat x - 1"
  by (rule unat_minus_one)

text \<open>A sum of counters in which a single summand changes.\<close>

lemma sum_change:
  fixes f g :: "'a \<Rightarrow> nat"
  assumes "finite A" "a \<in> A" "\<And>x. x \<in> A \<Longrightarrow> x \<noteq> a \<Longrightarrow> g x = f x"
  shows "sum g A + f a = sum f A + g a"
proof -
  have "sum g (A - {a}) = sum f (A - {a})" using assms(3) by (intro sum.cong) auto
  then show ?thesis
    using sum.remove [OF assms(1,2), of f] sum.remove [OF assms(1,2), of g] by simp
qed

section \<open>Outcomes of a kernel path\<close>

text \<open>
  A kernel function takes the state and ends in one of five ways: it returns a
  value and the new state; it calls \<open>panic\<close>, which never returns; it does
  something C leaves undefined, such as indexing past an array; it calls
  \<open>do_exit\<close>, which never returns to the caller (the exit code and the state at
  the call are kept); or it is still asleep when the modelled run ends.
\<close>

datatype ('s, 'a) outcome =
    Ret 'a 's
  | Panic string
  | Undefined string
  | Exits int 's
  | Blocked

primrec bindO :: "('s, 'a) outcome \<Rightarrow> ('a \<Rightarrow> 's \<Rightarrow> ('s, 'b) outcome) \<Rightarrow> ('s, 'b) outcome" where
  "bindO (Ret a s) f = f a s"
| "bindO (Panic m) f = Panic m"
| "bindO (Undefined m) f = Undefined m"
| "bindO (Exits c s) f = Exits c s"
| "bindO Blocked f = Blocked"

lemma bindO_Ret [simp]: "bindO m Ret = m"
  by (cases m) simp_all

lemma bindO_assoc [outcome_simps]: "bindO (bindO m f) g = bindO m (\<lambda>a s. bindO (f a s) g)"
  by (cases m) simp_all

lemma bindO_eq_Ret: "bindO m f = Ret b t \<longleftrightarrow> (\<exists>a s. m = Ret a s \<and> f a s = Ret b t)"
  by (cases m) simp_all

lemma bindO_RetE:
  assumes "bindO m f = Ret b t"
  obtains a s where "m = Ret a s" and "f a s = Ret b t"
  using assms by (auto simp: bindO_eq_Ret)

lemma bindO_cong [fundef_cong]:
  "m = m' \<Longrightarrow> (\<And>a s. m' = Ret a s \<Longrightarrow> f a s = g a s) \<Longrightarrow> bindO m f = bindO m' g"
  by (cases m') simp_all

text \<open>
  \<open>retains P m\<close>: wherever the path \<open>m\<close> hands a state on (by returning or by
  leaving through \<open>do_exit\<close>), that state satisfies \<open>P\<close>.
\<close>

fun retains :: "('s \<Rightarrow> bool) \<Rightarrow> ('s, 'a) outcome \<Rightarrow> bool" where
  "retains P (Ret a s) = P s"
| "retains P (Exits c s) = P s"
| "retains P _ = True"

lemma retains_bindO:
  assumes "retains P m" and "\<And>a s. P s \<Longrightarrow> m = Ret a s \<Longrightarrow> retains P (f a s)"
  shows "retains P (bindO m f)"
  using assms by (cases m) simp_all

lemma retains_mono: "retains P m \<Longrightarrow> (\<And>s. P s \<Longrightarrow> Q s) \<Longrightarrow> retains Q m"
  by (cases m) simp_all

section \<open>Error numbers (\<open>include/errno.h\<close>)\<close>

abbreviation (input) ERROR :: int where "ERROR \<equiv> 99"
abbreviation (input) EPERM :: int where "EPERM \<equiv> 1"
abbreviation (input) ENOENT :: int where "ENOENT \<equiv> 2"
abbreviation (input) ESRCH :: int where "ESRCH \<equiv> 3"
abbreviation (input) EINTR :: int where "EINTR \<equiv> 4"
abbreviation (input) EIO :: int where "EIO \<equiv> 5"
abbreviation (input) ENOEXEC :: int where "ENOEXEC \<equiv> 8"
abbreviation (input) EBADF :: int where "EBADF \<equiv> 9"
abbreviation (input) ECHILD :: int where "ECHILD \<equiv> 10"
abbreviation (input) EAGAIN :: int where "EAGAIN \<equiv> 11"
abbreviation (input) ENOMEM :: int where "ENOMEM \<equiv> 12"
abbreviation (input) EACCES :: int where "EACCES \<equiv> 13"
abbreviation (input) ENOTBLK :: int where "ENOTBLK \<equiv> 15"
abbreviation (input) EBUSY :: int where "EBUSY \<equiv> 16"
abbreviation (input) EEXIST :: int where "EEXIST \<equiv> 17"
abbreviation (input) EXDEV :: int where "EXDEV \<equiv> 18"
abbreviation (input) ENODEV :: int where "ENODEV \<equiv> 19"
abbreviation (input) ENOTDIR :: int where "ENOTDIR \<equiv> 20"
abbreviation (input) EISDIR :: int where "EISDIR \<equiv> 21"
abbreviation (input) EINVAL :: int where "EINVAL \<equiv> 22"
abbreviation (input) EMFILE :: int where "EMFILE \<equiv> 24"
abbreviation (input) ENOTTY :: int where "ENOTTY \<equiv> 25"
abbreviation (input) ENOSPC :: int where "ENOSPC \<equiv> 28"
abbreviation (input) ESPIPE :: int where "ESPIPE \<equiv> 29"
abbreviation (input) ENOSYS :: int where "ENOSYS \<equiv> 38"
abbreviation (input) ENOTEMPTY :: int where "ENOTEMPTY \<equiv> 39"

section \<open>Signals (\<open>include/signal.h\<close>)\<close>

abbreviation (input) SIGHUP :: nat where "SIGHUP \<equiv> 1"
abbreviation (input) SIGINT :: nat where "SIGINT \<equiv> 2"
abbreviation (input) SIGQUIT :: nat where "SIGQUIT \<equiv> 3"
abbreviation (input) SIGKILL :: nat where "SIGKILL \<equiv> 9"
abbreviation (input) SIGSEGV :: nat where "SIGSEGV \<equiv> 11"
abbreviation (input) SIGPIPE :: nat where "SIGPIPE \<equiv> 13"
abbreviation (input) SIGALRM :: nat where "SIGALRM \<equiv> 14"
abbreviation (input) SIGCHLD :: nat where "SIGCHLD \<equiv> 17"
abbreviation (input) SIGSTOP :: nat where "SIGSTOP \<equiv> 19"

text \<open>The bit of a signal in a signal bitmap, \<open>1<<(nr-1)\<close>.\<close>

definition sigbit :: "nat \<Rightarrow> u32" where
  "sigbit nr = push_bit (nr - 1) 1"

end
