(* ===== verification/Memory.thy ===== *)
theory Memory
  imports Kernel_Prelude
begin

unbundle bit_operations_syntax

text \<open>
  Physical page allocation and two-level paging, from \<open>src/mm/memory.c\<close>.

  The state is the byte map \<open>mem_map\<close>, the limit \<open>HIGH_MEMORY\<close> and physical
  memory \<open>pmem\<close>, a 32-bit word for every word-aligned address (the kernel runs
  on an identity mapping, so the pointers of this file are physical addresses
  and every one it dereferences is word-aligned; the page directory starts at
  address 0).  The record is extensible: the state of the whole kernel extends
  it, and every operation below works on any extension.

  Not modelled: the text that \<open>printk\<close> writes, and \<open>invalidate()\<close>, which
  flushes the translation cache of the processor and has no effect on memory.
\<close>

record mm =
  mem_map :: "nat \<Rightarrow> u8"
  HIGH_MEMORY :: u32
  pmem :: "u32 \<Rightarrow> u32"

abbreviation LOW_MEM :: u32 where "LOW_MEM \<equiv> 0x100000"
abbreviation PAGING_PAGES :: nat where "PAGING_PAGES \<equiv> 3840"
abbreviation USED :: u8 where "USED \<equiv> 100"

definition MAP_NR :: "u32 \<Rightarrow> nat" where
  "MAP_NR addr = unat (drop_bit 12 (addr - LOW_MEM))"

text \<open>The page number, as an address, of a page-table or directory entry, and its present bit.\<close>

definition frame :: "u32 \<Rightarrow> u32" where
  "frame x = 0xfffff000 AND x"

definition present :: "u32 \<Rightarrow> bool" where
  "present x \<longleftrightarrow> 1 AND x \<noteq> 0"

definition poke :: "u32 \<Rightarrow> u32 \<Rightarrow> 'z mm_scheme \<Rightarrow> 'z mm_scheme" where
  "poke a v s = s\<lparr>pmem := (pmem s)(a := v)\<rparr>"

definition set_map :: "nat \<Rightarrow> u8 \<Rightarrow> 'z mm_scheme \<Rightarrow> 'z mm_scheme" where
  "set_map n v s = s\<lparr>mem_map := (mem_map s)(n := v)\<rparr>"

section \<open>Allocation\<close>

text \<open>\<open>repne scasb\<close> with the direction flag set: the last free byte of the map.\<close>

primrec scan_free :: "(nat \<Rightarrow> u8) \<Rightarrow> nat \<Rightarrow> nat option" where
  "scan_free m 0 = None"
| "scan_free m (Suc n) = (if m n = 0 then Some n else scan_free m n)"

definition get_free_page :: "'z mm_scheme \<Rightarrow> u32 \<times> 'z mm_scheme" where
  "get_free_page s =
     (case scan_free (mem_map s) PAGING_PAGES of
        None \<Rightarrow> (0, s)
      | Some i \<Rightarrow>
          (let page = push_bit 12 (of_nat i) + LOW_MEM in
           (page, s\<lparr>mem_map := (mem_map s)(i := 1),
                   pmem := (\<lambda>a. if frame a = page then 0 else pmem s a)\<rparr>)))"

definition free_page :: "u32 \<Rightarrow> 'z mm_scheme \<Rightarrow> ('z mm_scheme, unit) outcome" where
  "free_page addr s =
     (if addr < LOW_MEM then Ret () s
      else if addr \<ge> HIGH_MEMORY s then Panic ''trying to free nonexistent page''
      else let n = unat (drop_bit 12 (addr - LOW_MEM)) in
        if n \<ge> PAGING_PAGES then Undefined ''mem_map''
        else if mem_map s n \<noteq> 0 then Ret () (set_map n (mem_map s n - 1) s)
        else Panic ''trying to free free page'')"

text \<open>The loop of \<open>free_page_tables\<close> over the \<open>n\<close> remaining entries of one page table.\<close>

primrec free_ptes :: "nat \<Rightarrow> u32 \<Rightarrow> 'z mm_scheme \<Rightarrow> ('z mm_scheme, unit) outcome" where
  "free_ptes 0 pg_table s = Ret () s"
| "free_ptes (Suc n) pg_table s =
     bindO (if present (pmem s pg_table) then free_page (frame (pmem s pg_table)) s else Ret () s)
       (\<lambda>_ s. free_ptes n (pg_table + 4) (poke pg_table 0 s))"

primrec free_dirs :: "nat \<Rightarrow> u32 \<Rightarrow> 'z mm_scheme \<Rightarrow> ('z mm_scheme, unit) outcome" where
  "free_dirs 0 dir s = Ret () s"
| "free_dirs (Suc n) dir s =
     (if \<not> present (pmem s dir) then free_dirs n (dir + 4) s
      else bindO (free_ptes 1024 (frame (pmem s dir)) s) (\<lambda>_ s.
           bindO (free_page (frame (pmem s dir)) s) (\<lambda>_ s.
           free_dirs n (dir + 4) (poke dir 0 s))))"

definition free_page_tables :: "u32 \<Rightarrow> u32 \<Rightarrow> 'z mm_scheme \<Rightarrow> ('z mm_scheme, int) outcome" where
  "free_page_tables from sz s =
     (if from AND 0x3fffff \<noteq> 0 then Panic ''free_page_tables called with wrong alignment''
      else if from = 0 then Panic ''Trying to free up swapper memory space''
      else bindO (free_dirs (unat (drop_bit 22 (sz + 0x3fffff))) (drop_bit 20 from AND 0xffc) s)
             (\<lambda>_ s. Ret 0 s))"

section \<open>Copying an address space\<close>

primrec copy_ptes :: "nat \<Rightarrow> u32 \<Rightarrow> u32 \<Rightarrow> 'z mm_scheme \<Rightarrow> ('z mm_scheme, unit) outcome" where
  "copy_ptes 0 from_page_table to_page_table s = Ret () s"
| "copy_ptes (Suc nr) from_page_table to_page_table s =
     (if \<not> present (pmem s from_page_table)
      then copy_ptes nr (from_page_table + 4) (to_page_table + 4) s
      else let this_page = pmem s from_page_table AND NOT 2;
               s1 = poke to_page_table this_page s
           in if this_page > LOW_MEM
              then let n = unat (drop_bit 12 (this_page - LOW_MEM));
                       s2 = poke from_page_table this_page s1
                   in if n \<ge> PAGING_PAGES then Undefined ''mem_map''
                      else copy_ptes nr (from_page_table + 4) (to_page_table + 4)
                             (set_map n (mem_map s2 n + 1) s2)
              else copy_ptes nr (from_page_table + 4) (to_page_table + 4) s1)"

primrec copy_dirs ::
  "nat \<Rightarrow> u32 \<Rightarrow> u32 \<Rightarrow> u32 \<Rightarrow> 'z mm_scheme \<Rightarrow> ('z mm_scheme, int) outcome" where
  "copy_dirs 0 from from_dir to_dir s = Ret 0 s"
| "copy_dirs (Suc sz) from from_dir to_dir s =
     (if present (pmem s to_dir) then Panic ''copy_page_tables: already exist''
      else if \<not> present (pmem s from_dir) then copy_dirs sz from (from_dir + 4) (to_dir + 4) s
      else let from_page_table = frame (pmem s from_dir);
               (to_page_table, s1) = get_free_page s
           in if to_page_table = 0 then Ret (- 1) s1
              else bindO (copy_ptes (if from = 0 then 0xA0 else 1024) from_page_table to_page_table
                            (poke to_dir (to_page_table OR 7) s1))
                     (\<lambda>_ s. copy_dirs sz from (from_dir + 4) (to_dir + 4) s))"

definition copy_page_tables ::
  "u32 \<Rightarrow> u32 \<Rightarrow> u32 \<Rightarrow> 'z mm_scheme \<Rightarrow> ('z mm_scheme, int) outcome" where
  "copy_page_tables from to sz s =
     (if from AND 0x3fffff \<noteq> 0 \<or> to AND 0x3fffff \<noteq> 0
      then Panic ''copy_page_tables called with wrong alignment''
      else copy_dirs (unat (drop_bit 22 (sz + 0x3fffff))) from
             (drop_bit 20 from AND 0xffc) (drop_bit 20 to AND 0xffc) s)"

section \<open>Page faults\<close>

definition put_page :: "u32 \<Rightarrow> u32 \<Rightarrow> 'z mm_scheme \<Rightarrow> ('z mm_scheme, u32) outcome" where
  "put_page page address s =
     (if MAP_NR page \<ge> PAGING_PAGES then Undefined ''mem_map''
      else let dir = drop_bit 20 address AND 0xffc;
               slot = (\<lambda>page_table. page_table + 4 * (drop_bit 12 address AND 0x3ff))
           in if present (pmem s dir)
              then Ret page (poke (slot (frame (pmem s dir))) (page OR 7) s)
              else let (tmp, s1) = get_free_page s
                   in if tmp = 0 then Ret 0 s1
                      else Ret page (poke (slot tmp) (page OR 7) (poke dir (tmp OR 7) s1)))"

definition copy_page :: "u32 \<Rightarrow> u32 \<Rightarrow> 'z mm_scheme \<Rightarrow> 'z mm_scheme" where
  "copy_page from to s =
     s\<lparr>pmem := (\<lambda>a. if frame a = to then pmem s (from + (a AND 0xfff)) else pmem s a)\<rparr>"

definition un_wp_page :: "u32 \<Rightarrow> 'z mm_scheme \<Rightarrow> ('z mm_scheme, unit) outcome" where
  "un_wp_page table_entry s =
     (let old_page = frame (pmem s table_entry) in
      if old_page \<ge> LOW_MEM \<and> MAP_NR old_page \<ge> PAGING_PAGES then Undefined ''mem_map''
      else if old_page \<ge> LOW_MEM \<and> mem_map s (MAP_NR old_page) = 1
      then Ret () (poke table_entry (pmem s table_entry OR 2) s)
      else let (new_page, s1) = get_free_page s
           in if new_page = 0 then Exits (int SIGSEGV) s1
              else let s2 = (if old_page \<ge> LOW_MEM
                             then set_map (MAP_NR old_page) (mem_map s1 (MAP_NR old_page) - 1) s1
                             else s1)
                   in Ret () (copy_page old_page new_page (poke table_entry (new_page OR 7) s2)))"

definition do_wp_page :: "u32 \<Rightarrow> u32 \<Rightarrow> 'z mm_scheme \<Rightarrow> ('z mm_scheme, unit) outcome" where
  "do_wp_page error_code address s =
     un_wp_page ((drop_bit 10 address AND 0xffc) +
                 frame (pmem s (drop_bit 20 address AND 0xffc))) s"

definition write_verify :: "u32 \<Rightarrow> 'z mm_scheme \<Rightarrow> ('z mm_scheme, unit) outcome" where
  "write_verify address s =
     (let page = pmem s (drop_bit 20 address AND 0xffc) in
      if \<not> present page then Ret () s
      else let page = (page AND 0xfffff000) + (drop_bit 10 address AND 0xffc)
           in if 3 AND pmem s page = 1 then un_wp_page page s else Ret () s)"

definition get_empty_page :: "u32 \<Rightarrow> 'z mm_scheme \<Rightarrow> ('z mm_scheme, unit) outcome" where
  "get_empty_page address s =
     (let (tmp, s1) = get_free_page s;
          fail = (\<lambda>s. bindO (free_page tmp s) (\<lambda>_ s. Exits (int SIGSEGV) s))
      in if tmp = 0 then fail s1
         else bindO (put_page tmp address s1) (\<lambda>r s. if r = 0 then fail s else Ret () s))"

text \<open>
  \<open>try_to_share\<close>, with the code bases \<open>p->start_code\<close> and
  \<open>current->start_code\<close> of the two tasks as arguments.
\<close>

definition try_to_share ::
  "u32 \<Rightarrow> u32 \<Rightarrow> u32 \<Rightarrow> 'z mm_scheme \<Rightarrow> ('z mm_scheme, int) outcome" where
  "try_to_share address p_start_code current_start_code s =
     (let from_page = (drop_bit 20 address AND 0xffc) + (drop_bit 20 p_start_code AND 0xffc);
          to_page = (drop_bit 20 address AND 0xffc) + (drop_bit 20 current_start_code AND 0xffc);
          from = pmem s from_page
      in if \<not> present from then Ret 0 s
         else let from_page = (from AND 0xfffff000) + (drop_bit 10 address AND 0xffc);
                  phys_addr = pmem s from_page
              in if phys_addr AND 0x41 \<noteq> 0x01 then Ret 0 s
                 else let phys_addr = phys_addr AND 0xfffff000 in
                   if phys_addr \<ge> HIGH_MEMORY s \<or> phys_addr < LOW_MEM then Ret 0 s
                   else let to = pmem s to_page;
                     share = (\<lambda>to s.
                       let to_page = (to AND 0xfffff000) + (drop_bit 10 address AND 0xffc) in
                       if present (pmem s to_page)
                       then Panic ''try_to_share: to_page already exists''
                       else let s1 = poke from_page (pmem s from_page AND NOT 2) s;
                                s2 = poke to_page (pmem s1 from_page) s1;
                                n = unat (drop_bit 12 (phys_addr - LOW_MEM))
                            in if n \<ge> PAGING_PAGES then Undefined ''mem_map''
                               else Ret 1 (set_map n (mem_map s2 n + 1) s2))
                   in if present to then share to s
                      else let (to, s1) = get_free_page s
                           in if to \<noteq> 0 then share to (poke to_page (to OR 7) s1)
                              else Exits (int SIGSEGV) s1)"

section \<open>Initialisation and statistics\<close>

primrec clear_map :: "nat \<Rightarrow> int \<Rightarrow> 'z mm_scheme \<Rightarrow> ('z mm_scheme, unit) outcome" where
  "clear_map 0 i s = Ret () s"
| "clear_map (Suc n) i s =
     (if i < 0 \<or> i \<ge> int PAGING_PAGES then Undefined ''mem_map''
      else clear_map n (i + 1) (set_map (nat i) 0 s))"

definition mem_init :: "int \<Rightarrow> int \<Rightarrow> 'z mm_scheme \<Rightarrow> ('z mm_scheme, unit) outcome" where
  "mem_init start_mem end_mem s =
     (let s1 = s\<lparr>HIGH_MEMORY := of_int end_mem,
                 mem_map := (\<lambda>i. if i < PAGING_PAGES then USED else mem_map s i)\<rparr>;
          i = s32 (start_mem - 0x100000) div 2 ^ 12;
          pages = s32 (end_mem - start_mem) div 2 ^ 12
      in clear_map (nat pages) i s1)"

text \<open>The numbers \<open>calc_mem\<close> prints: free pages, and present pages per used directory entry.\<close>

definition calc_mem :: "'z mm_scheme \<Rightarrow> nat \<times> (nat \<times> nat) list" where
  "calc_mem s =
     (length (filter (\<lambda>i. mem_map s i = 0) [0..<PAGING_PAGES]),
      [(i, length (filter (\<lambda>j. present (pmem s (frame (pmem s (4 * of_nat i)) + 4 * of_nat j)))
                     [0..<1024])).
         i \<leftarrow> [2..<1024], present (pmem s (4 * of_nat i))])"

section \<open>Lemmas on the definitions\<close>

lemma scan_free_Some: "scan_free m n = Some i \<Longrightarrow> i < n \<and> m i = 0"
  by (induction n) (auto split: if_splits)

end
