(* ===== verification/Memory_Inv.thy ===== *)
theory Memory_Inv
  imports Memory
begin

unbundle bit_operations_syntax

text \<open>
  The reference-count invariant of \<open>mem_map\<close> and the proof that allocation and
  \<open>copy_page_tables\<close> keep it.  Every page has as many users in its byte of the map
  as there are directory entries, page-table entries and kernel holders of it.
\<close>

section \<open>Page addresses\<close>

definition pg :: "nat \<Rightarrow> u32" where
  "pg i = push_bit 12 (of_nat i) + LOW_MEM"

lemma page_mask: "(0xfffff000 :: u32) = NOT (mask 12)"
  by (simp add: mask_eq_exp_minus_1)

lemma low_mask: "(0xfff :: u32) = mask 12"
  by (simp add: mask_eq_exp_minus_1)

lemma frame_mask: "frame x = x AND NOT (mask 12)"
  by (simp only: frame_def page_mask and.commute)

lemma frame_drop: "frame x = push_bit 12 (drop_bit 12 x)"
  unfolding frame_mask by (rule bit_word_eqI) (auto simp: bit_simps)

lemma frame_frame [simp]: "frame (frame x) = frame x"
  by (simp add: frame_mask and.assoc)

lemma and_page_mask [simp]: "x AND 0xfffff000 = frame x" "0xfffff000 AND x = frame x"
  by (simp_all add: frame_def and.commute)

lemma present_bit: "present x \<longleftrightarrow> bit x 0"
  by (simp add: present_def one_and_eq odd_iff_mod_2_eq_one bit_0)

lemma unat_frame: "unat (frame x) = unat x div 4096 * 4096"
proof -
  have "frame x = 4096 * drop_bit 12 x" by (simp add: frame_drop push_bit_eq_mult mult.commute)
  moreover have "4096 * (unat x div 4096) < 2 ^ 32"
    using unat_u32 [of x] by simp
  ultimately show ?thesis
    by (simp only: unat_word_ariths unat_drop_div) simp
qed

lemma alignedE:
  assumes "frame t = t"
  obtains q where "unat t = 4096 * q" "q < 1048576"
proof -
  have "unat t = 4096 * (unat t div 4096)" using unat_frame [of t] assms by simp
  moreover have "unat t div 4096 < 1048576" using unat_u32 [of t] by linarith
  ultimately show thesis by (rule that)
qed

lemma frame_present_or7:
  assumes "frame p = p"
  shows "frame (p OR 7) = p" "present (p OR 7)"
proof -
  have 7: "(7 :: u32) = mask 3" by (simp add: mask_eq_exp_minus_1)
  have "frame (p OR 7) = frame p"
    unfolding frame_mask 7 by (rule bit_word_eqI) (auto simp: bit_simps)
  then show "frame (p OR 7) = p" by (simp add: assms)
  show "present (p OR 7)" unfolding present_bit 7 by (simp add: bit_simps)
qed

lemma frame_present_and_not2 [simp]:
  "frame (x AND NOT 2) = frame x" "present (x AND NOT 2) = present x"
  "frame (x OR 2) = frame x" "present (x OR 2) = present x"
proof -
  have 2: "(2 :: u32) = push_bit 1 1" by simp
  show "frame (x AND NOT 2) = frame x" "frame (x OR 2) = frame x"
    unfolding frame_mask 2 by (rule bit_word_eqI, auto simp: bit_simps)+
  show "present (x AND NOT 2) = present x" "present (x OR 2) = present x"
    unfolding present_bit 2 by (simp_all add: bit_simps)
qed

lemmas frame_present_and_not2_norm [simp] = frame_present_and_not2 [simplified]

lemma unat_pg: "i < PAGING_PAGES \<Longrightarrow> unat (pg i) = 4096 * i + 0x100000"
proof -
  assume i: "i < PAGING_PAGES"
  have e: "pg i = of_nat (4096 * i + 0x100000)"
    by (simp add: pg_def push_bit_of_nat push_bit_eq_mult)
  have "4096 * i + 0x100000 < 2 ^ 32" using i by simp
  then show ?thesis unfolding e by (simp only: unat_of_nat) simp
qed

lemma pg_props:
  assumes "i < PAGING_PAGES"
  shows "frame (pg i) = pg i" "MAP_NR (pg i) = i" "LOW_MEM \<le> pg i" "pg i \<noteq> 0"
    "pg i < 0x1000000"
proof -
  note u = unat_pg [OF assms]
  show "frame (pg i) = pg i" by (rule word_unat_eq_iff [THEN iffD2]) (simp add: unat_frame u)
  show "LOW_MEM \<le> pg i" by (simp add: word_le_nat_alt u)
  show "pg i \<noteq> 0" using u by (auto simp: unat_eq_0)
  show "pg i < 0x1000000" using assms by (simp add: word_less_nat_alt u)
  have "unat (pg i - LOW_MEM) = 4096 * i"
    using u by (simp add: unat_sub word_le_nat_alt)
  then show "MAP_NR (pg i) = i"
    by (simp add: MAP_NR_def unat_drop_div)
qed

lemma pg_eq_iff: "i < PAGING_PAGES \<Longrightarrow> j < PAGING_PAGES \<Longrightarrow> pg i = pg j \<longleftrightarrow> i = j"
  using pg_props(2) by metis

lemma pg_MAP_NR:
  assumes "LOW_MEM \<le> p" 
  shows "pg (MAP_NR p) = frame p"
proof -
  have l: "unat (LOW_MEM) \<le> unat p" using assms by (simp add: word_le_nat_alt)
  have "unat (p - LOW_MEM) = unat p - 0x100000" using assms by (simp add: unat_sub)
  then have n: "MAP_NR p = (unat p - 0x100000) div 4096"
    by (simp add: MAP_NR_def unat_drop_div)
  have "pg (MAP_NR p) = of_nat (4096 * ((unat p - 0x100000) div 4096) + 0x100000)"
    by (simp add: pg_def n push_bit_of_nat push_bit_eq_mult)
  also have "4096 * ((unat p - 0x100000) div 4096) + 0x100000 = unat p div 4096 * 4096"
  proof -
    obtain k where k: "unat p = 0x100000 + k" using l by (auto simp: le_iff_add)
    show ?thesis by (simp add: k div_add1_eq)
  qed
  also have "(of_nat \<dots> :: u32) = frame p"
    by (simp only: unat_frame [symmetric]) simp
  finally show ?thesis .
qed

lemma MAP_NR_less: "LOW_MEM \<le> p \<Longrightarrow> p < 0x1000000 \<Longrightarrow> MAP_NR p < PAGING_PAGES"
proof -
  assume a: "LOW_MEM \<le> p" "p < 0x1000000"
  then have "unat (p - LOW_MEM) = unat p - 0x100000" "unat p < 0x1000000" "0x100000 \<le> unat p"
    by (simp_all add: unat_sub word_less_nat_alt word_le_nat_alt)
  then show ?thesis
    by (simp only: MAP_NR_def unat_drop_div) simp
qed

text \<open>The address of entry \<open>j\<close> of the page table in frame \<open>t\<close>.\<close>

definition slot :: "u32 \<Rightarrow> nat \<Rightarrow> u32" where
  "slot t j = t + of_nat (4 * j)"

lemma unat_slot:
  assumes "frame t = t" "j < 1024"
  shows "unat (slot t j) = unat t + 4 * j"
proof -
  obtain q where q: "unat t = 4096 * q" "q < 1048576" using assms(1) by (rule alignedE)
  have e: "slot t j = of_nat (unat t + 4 * j)" by (simp add: slot_def)
  have "unat t + 4 * j < 2 ^ 32" using q assms(2) by simp
  then show ?thesis unfolding e by (simp only: unat_of_nat) simp
qed

lemma frame_slot: "frame t = t \<Longrightarrow> j < 1024 \<Longrightarrow> frame (slot t j) = t"
proof -
  assume a: "frame t = t" "j < 1024"
  obtain q where q: "unat t = 4096 * q" using a(1) by (rule alignedE)
  have "(4096 * q + 4 * j) div 4096 = q" using a(2) by (intro div_nat_eqI) simp_all
  then show ?thesis by (simp add: word_unat_eq_iff unat_frame unat_slot a q)
qed

lemma slot_eq_iff:
  assumes "frame t = t" "frame t' = t'" "j < 1024" "j' < 1024"
  shows "slot t j = slot t' j' \<longleftrightarrow> t = t' \<and> j = j'"
proof
  assume e: "slot t j = slot t' j'"
  then have "t = t'" using frame_slot [OF assms(1,3)] frame_slot [OF assms(2,4)] by simp
  moreover have "unat t + 4 * j = unat t' + 4 * j'"
    using unat_slot [OF assms(1,3)] unat_slot [OF assms(2,4)] arg_cong [OF e, of unat] by linarith
  ultimately show "t = t' \<and> j = j'" by simp
qed simp

lemma slot_Suc: "slot t j + 4 = slot t (Suc j)"
  by (simp add: slot_def algebra_simps)

section \<open>References to page frames\<close>

text \<open>
  Page-directory entries 0 to 15 map the kernel and task 0; the entries from 16
  on belong to the address spaces of tasks 1 to 63 (64MB each).
\<close>

definition user_dirs :: "nat set" where
  "user_dirs = {16..<1024}"

definition de :: "'z mm_scheme \<Rightarrow> nat \<Rightarrow> u32" where
  "de s i = pmem s (slot 0 i)"

definition tbl :: "'z mm_scheme \<Rightarrow> nat \<Rightarrow> u32" where
  "tbl s i = frame (de s i)"

definition pte :: "'z mm_scheme \<Rightarrow> nat \<Rightarrow> nat \<Rightarrow> u32" where
  "pte s i j = pmem s (slot (tbl s i) j)"

definition maps :: "u32 \<Rightarrow> u32 \<Rightarrow> bool" where
  "maps e p \<longleftrightarrow> present e \<and> frame e = p"

definition tcount :: "'z mm_scheme \<Rightarrow> nat \<Rightarrow> u32 \<Rightarrow> nat" where
  "tcount s i p = (\<Sum>j<1024. of_bool (maps (pte s i j) p))"

definition dcount :: "'z mm_scheme \<Rightarrow> nat \<Rightarrow> u32 \<Rightarrow> nat" where
  "dcount s i p = (if present (de s i) then of_bool (tbl s i = p) + tcount s i p else 0)"

definition refs :: "'z mm_scheme \<Rightarrow> u32 \<Rightarrow> nat" where
  "refs s p = (\<Sum>i\<in>user_dirs. dcount s i p)"

text \<open>
  The invariant of the allocator.  \<open>held n\<close> counts the uses of page \<open>n\<close> that are
  not in a page table (a task structure, a pipe buffer, a reserved page, a page
  about to be mapped).  The byte of every page is the number of its uses; pages
  above \<open>HIGH_MEMORY\<close> are never free; a page table has a single user, its
  directory entry; and no entry points above \<open>HIGH_MEMORY\<close>.
\<close>

definition mm_inv :: "(nat \<Rightarrow> nat) \<Rightarrow> 'z mm_scheme \<Rightarrow> bool" where
  "mm_inv held s \<longleftrightarrow>
     HIGH_MEMORY s \<le> 0x1000000 \<and>
     (\<forall>n<PAGING_PAGES. unat (mem_map s n) = refs s (pg n) + held n) \<and>
     (\<forall>n<PAGING_PAGES. HIGH_MEMORY s \<le> pg n \<longrightarrow> 0 < held n) \<and>
     (\<forall>i\<in>user_dirs. present (de s i) \<longrightarrow>
        (\<exists>n<PAGING_PAGES. tbl s i = pg n \<and> refs s (pg n) = 1 \<and> held n = 0)) \<and>
     (\<forall>i\<in>user_dirs. present (de s i) \<longrightarrow>
        (\<forall>j<1024. present (pte s i j) \<longrightarrow> frame (pte s i j) < HIGH_MEMORY s))"

lemma finite_user_dirs [simp]: "finite user_dirs"
  by (simp add: user_dirs_def)

lemma user_dir_less: "i \<in> user_dirs \<Longrightarrow> i < 1024"
  by (simp add: user_dirs_def)

lemma frame_0 [simp]: "frame 0 = 0"
  by (simp add: frame_def)

lemma frame_tbl [simp]: "frame (tbl s i) = tbl s i"
  by (simp add: tbl_def)

lemma not_present_0 [simp]: "\<not> present 0"
  by (simp add: present_def)

lemma maps_0 [simp]: "\<not> maps 0 p"
  by (simp add: maps_def)

lemma mm_invD:
  assumes "mm_inv held s"
  shows "HIGH_MEMORY s \<le> 0x1000000"
    and "n < PAGING_PAGES \<Longrightarrow> unat (mem_map s n) = refs s (pg n) + held n"
    and "n < PAGING_PAGES \<Longrightarrow> HIGH_MEMORY s \<le> pg n \<Longrightarrow> 0 < held n"
    and "i \<in> user_dirs \<Longrightarrow> present (de s i) \<Longrightarrow> j < 1024 \<Longrightarrow> present (pte s i j)
      \<Longrightarrow> frame (pte s i j) < HIGH_MEMORY s"
  using assms by (auto simp: mm_inv_def)

lemma mm_inv_table:
  assumes "mm_inv held s" "i \<in> user_dirs" "present (de s i)"
  obtains n where "n < PAGING_PAGES" "tbl s i = pg n" "refs s (pg n) = 1" "held n = 0"
  using assms unfolding mm_inv_def by metis

lemma refs_ge:
  assumes "i \<in> user_dirs" shows "dcount s i p \<le> refs s p"
  unfolding refs_def using assms by (intro member_le_sum) auto

lemma tbl_refs: "i \<in> user_dirs \<Longrightarrow> present (de s i) \<Longrightarrow> 1 \<le> dcount s i (tbl s i)"
  by (simp add: dcount_def)

lemma tcount_ge:
  assumes "j < 1024" "maps (pte s i j) p" shows "1 \<le> tcount s i p"
proof -
  have "of_bool (maps (pte s i j) p) \<le> tcount s i p"
    unfolding tcount_def using assms by (intro member_le_sum) auto
  then show ?thesis using assms by simp
qed

lemma tables_distinct:
  assumes "mm_inv held s" "i \<in> user_dirs" "i' \<in> user_dirs" "present (de s i)" "present (de s i')"
    "tbl s i = tbl s i'"
  shows "i = i'"
proof (rule ccontr)
  assume ne: "i \<noteq> i'"
  obtain n where n: "tbl s i = pg n" "refs s (pg n) = 1"
    using mm_inv_table [OF assms(1,2,4)] by metis
  have "dcount s i (pg n) + dcount s i' (pg n) = (\<Sum>x\<in>{i, i'}. dcount s x (pg n))"
    using ne by simp
  also have "\<dots> \<le> refs s (pg n)"
    unfolding refs_def using assms(2,3) by (intro sum_mono2) auto
  finally show False
    using n assms tbl_refs [of i s] tbl_refs [of i' s] by simp
qed

lemma pte_not_table:
  assumes "mm_inv held s" "i \<in> user_dirs" "i' \<in> user_dirs" "present (de s i)" "present (de s i')"
    "j < 1024" "present (pte s i' j)"
  shows "frame (pte s i' j) \<noteq> tbl s i"
proof
  assume e: "frame (pte s i' j) = tbl s i"
  obtain n where n: "tbl s i = pg n" "refs s (pg n) = 1"
    using mm_inv_table [OF assms(1,2,4)] by metis
  have t: "1 \<le> tcount s i' (pg n)"
    using e n assms by (intro tcount_ge [of j]) (auto simp: maps_def)
  show False
  proof (cases "i = i'")
    case True
    then have "2 \<le> dcount s i (pg n)" using t n assms by (simp add: dcount_def)
    then show False using refs_ge [OF assms(2), of s "pg n"] n by simp
  next
    case False
    have "dcount s i (pg n) + dcount s i' (pg n) = (\<Sum>x\<in>{i, i'}. dcount s x (pg n))"
      using False by simp
    also have "\<dots> \<le> refs s (pg n)"
      unfolding refs_def using assms(2,3) by (intro sum_mono2) auto
    finally show False using n t assms by (simp add: dcount_def)
  qed
qed

lemma free_not_table:
  assumes "mm_inv held s" "n < PAGING_PAGES" "refs s (pg n) = 0" "i \<in> user_dirs" "present (de s i)"
  shows "tbl s i \<noteq> pg n"
  using mm_inv_table [OF assms(1,4,5)] assms(3) by force

lemma table_not_dir: "mm_inv held s \<Longrightarrow> i \<in> user_dirs \<Longrightarrow> present (de s i) \<Longrightarrow> tbl s i \<noteq> 0"
  by (erule mm_inv_table) (auto simp: pg_props)

section \<open>Frame rules\<close>

text \<open>
  Two memories that agree on the page directory and on the page tables have the
  same entries, hence the same reference counts.
\<close>

lemma same_entries:
  assumes "\<And>i. i < 1024 \<Longrightarrow> de s' i = de s i"
    and "\<And>i j. i \<in> user_dirs \<Longrightarrow> present (de s i) \<Longrightarrow> j < 1024 \<Longrightarrow> pte s' i j = pte s i j"
  shows "refs s' p = refs s p"
proof -
  have "dcount s' i p = dcount s i p" if "i \<in> user_dirs" for i
    using that assms user_dir_less [OF that] by (simp add: dcount_def tcount_def tbl_def)
  then show ?thesis by (simp add: refs_def)
qed

lemma pmem_poke [simp]: "pmem (poke a v s) = (pmem s)(a := v)"
  and mem_map_poke [simp]: "mem_map (poke a v s) = mem_map s"
  and HIGH_poke [simp]: "HIGH_MEMORY (poke a v s) = HIGH_MEMORY s"
  and pmem_set_map [simp]: "pmem (set_map n x s) = pmem s"
  and mem_map_set_map [simp]: "mem_map (set_map n x s) = (mem_map s)(n := x)"
  and HIGH_set_map [simp]: "HIGH_MEMORY (set_map n x s) = HIGH_MEMORY s"
  by (simp_all add: poke_def set_map_def)

lemma entries_set_map [simp]:
  "de (set_map n x s) i = de s i" "tbl (set_map n x s) i = tbl s i"
  "pte (set_map n x s) i j = pte s i j"
  by (simp_all add: de_def tbl_def pte_def)

lemma refs_set_map [simp]: "refs (set_map n x s) p = refs s p"
  by (rule same_entries) simp_all

text \<open>Writing one entry of a page table changes that entry and no other.\<close>

lemma entries_poke_pte:
  assumes "mm_inv held s" "i \<in> user_dirs" "present (de s i)" "j < 1024"
  shows "i' < 1024 \<Longrightarrow> de (poke (slot (tbl s i) j) v s) i' = de s i'"
    and "i' < 1024 \<Longrightarrow> tbl (poke (slot (tbl s i) j) v s) i' = tbl s i'"
    and "i' \<in> user_dirs \<Longrightarrow> present (de s i') \<Longrightarrow> j' < 1024 \<Longrightarrow>
      pte (poke (slot (tbl s i) j) v s) i' j' = (if i' = i \<and> j' = j then v else pte s i' j')"
proof -
  have t: "tbl s i \<noteq> 0" using table_not_dir assms by blast
  show d: "de (poke (slot (tbl s i) j) v s) i' = de s i'" if "i' < 1024" for i'
    using that t assms(4) by (simp add: de_def slot_eq_iff)
  then show d': "tbl (poke (slot (tbl s i) j) v s) i' = tbl s i'" if "i' < 1024" for i'
    using that by (simp add: tbl_def)
  show "pte (poke (slot (tbl s i) j) v s) i' j' = (if i' = i \<and> j' = j then v else pte s i' j')"
    if i': "i' \<in> user_dirs" "present (de s i')" "j' < 1024"
  proof -
    have "slot (tbl s i') j' = slot (tbl s i) j \<longleftrightarrow> i' = i \<and> j' = j"
      using tables_distinct [OF assms(1) i'(1) assms(2) i'(2) assms(3)] i' assms
      by (auto simp: slot_eq_iff)
    then show ?thesis
      using d' [OF user_dir_less [OF i'(1)]] by (simp add: pte_def)
  qed
qed

lemma refs_poke_pte:
  assumes "mm_inv held s" "i \<in> user_dirs" "present (de s i)" "j < 1024"
  shows "refs (poke (slot (tbl s i) j) v s) p + of_bool (maps (pte s i j) p)
    = refs s p + of_bool (maps v p)"
proof -
  let ?s = "poke (slot (tbl s i) j) v s"
  note e = entries_poke_pte [OF assms, where v = v]
  have o: "dcount ?s i' p = dcount s i' p" if "i' \<in> user_dirs" "i' \<noteq> i" for i'
    using that e user_dir_less [OF that(1)] by (simp add: dcount_def tcount_def)
  have "tcount ?s i p + of_bool (maps (pte s i j) p) = tcount s i p + of_bool (maps (pte ?s i j) p)"
    unfolding tcount_def by (rule sum_change) (use assms e in auto)
  then have "dcount ?s i p + of_bool (maps (pte s i j) p) = dcount s i p + of_bool (maps v p)"
    using e assms user_dir_less [OF assms(2)] by (simp add: dcount_def)
  moreover have "refs ?s p + dcount s i p = refs s p + dcount ?s i p"
    unfolding refs_def by (rule sum_change) (use assms(2) o in auto)
  ultimately show ?thesis by linarith
qed

text \<open>
  The invariant after one entry is rewritten and the map and the held pages are
  adjusted by the difference.
\<close>

lemma mm_inv_pte:
  assumes inv: "mm_inv held s" and i: "i \<in> user_dirs" "present (de s i)" and j: "j < 1024"
    and v: "present v \<Longrightarrow> frame v < HIGH_MEMORY s"
      "\<And>i'. present v \<Longrightarrow> i' \<in> user_dirs \<Longrightarrow> present (de s i') \<Longrightarrow> tbl s i' \<noteq> frame v"
    and s': "pmem s' = (pmem s)(slot (tbl s i) j := v)" "HIGH_MEMORY s' = HIGH_MEMORY s"
    and cnt: "\<And>n. n < PAGING_PAGES \<Longrightarrow>
      unat (mem_map s' n) + of_bool (maps (pte s i j) (pg n)) + held n =
      unat (mem_map s n) + of_bool (maps v (pg n)) + held' n"
    and h: "\<And>n. n < PAGING_PAGES \<Longrightarrow> HIGH_MEMORY s \<le> pg n \<Longrightarrow> 0 < held' n"
      "\<And>i' n. i' \<in> user_dirs \<Longrightarrow> present (de s i') \<Longrightarrow> n < PAGING_PAGES \<Longrightarrow>
         tbl s i' = pg n \<Longrightarrow> held' n = held n"
  shows "mm_inv held' s'"
proof -
  let ?s = "poke (slot (tbl s i) j) v s"
  have same: "de s' k = de ?s k" "tbl s' k = tbl ?s k" "pte s' k l = pte ?s k l" for k l
    by (simp_all add: de_def tbl_def pte_def s')
  have rs: "refs s' p = refs ?s p" for p by (rule same_entries) (simp_all add: same)
  note e = entries_poke_pte [OF inv i j, where v = v]
  note r = refs_poke_pte [OF inv i j, where v = v]
  have c1: "unat (mem_map s' n) = refs s' (pg n) + held' n" if "n < PAGING_PAGES" for n
    using cnt [OF that] r [of "pg n"] mm_invD(2) [OF inv that] by (simp add: rs)
  have c2: "\<exists>n<PAGING_PAGES. tbl s' k = pg n \<and> refs s' (pg n) = 1 \<and> held' n = 0"
    if k: "k \<in> user_dirs" "present (de s' k)" for k
  proof -
    have pk: "present (de s k)" using k e user_dir_less by (simp add: same)
    obtain n where n: "n < PAGING_PAGES" "tbl s k = pg n" "refs s (pg n) = 1" "held n = 0"
      using mm_inv_table [OF inv k(1) pk] .
    have "\<not> maps v (pg n)" using v(2) [OF _ k(1) pk] n by (auto simp: maps_def)
    moreover have "\<not> maps (pte s i j) (pg n)"
      using pte_not_table [OF inv k(1) i(1) pk i(2) j] n by (auto simp: maps_def)
    ultimately have "refs s' (pg n) = 1" using r [of "pg n"] n by (simp add: rs)
    then show ?thesis
      using n e(2) [OF user_dir_less [OF k(1)]] h(2) [OF k(1) pk n(1,2)] by (auto simp: same)
  qed
  have c3: "frame (pte s' k l) < HIGH_MEMORY s'"
    if k: "k \<in> user_dirs" "present (de s' k)" "l < 1024" "present (pte s' k l)" for k l
  proof -
    have pk: "present (de s k)" using k e user_dir_less by (simp add: same)
    show ?thesis
      using k e(3) [OF k(1) pk k(3)] v(1) mm_invD(4) [OF inv k(1) pk k(3)]
      by (auto simp: same s' split: if_splits)
  qed
  show ?thesis
    unfolding mm_inv_def using mm_invD(1) [OF inv] c1 c2 c3 h(1) by (auto simp: s')
qed

section \<open>Allocation and release\<close>

lemma scan_free_None: "scan_free m n = None \<longleftrightarrow> (\<forall>i<n. m i \<noteq> 0)"
  by (induction n) (auto simp: less_Suc_eq)

lemma scan_free_last:
  "scan_free m n = Some i \<Longrightarrow> i < k \<Longrightarrow> k < n \<Longrightarrow> m k \<noteq> 0"
  by (induction n) (auto simp: less_Suc_eq split: if_splits)

lemma get_free_page_cases:
  obtains (full) "get_free_page s = (0, s)" "\<And>n. n < PAGING_PAGES \<Longrightarrow> mem_map s n \<noteq> 0"
  | (page) n where "n < PAGING_PAGES" "mem_map s n = 0"
      "get_free_page s = (pg n, s\<lparr>mem_map := (mem_map s)(n := 1),
         pmem := (\<lambda>a. if frame a = pg n then 0 else pmem s a)\<rparr>)"
proof (cases "scan_free (mem_map s) PAGING_PAGES")
  case None
  then have "get_free_page s = (0, s)" by (simp add: get_free_page_def)
  then show thesis using None by (intro full) (auto simp: scan_free_None)
next
  case (Some n)
  then show thesis
    using scan_free_Some [OF Some] by (intro page [of n]) (auto simp: get_free_page_def pg_def Let_def)
qed

lemma mm_inv_alloc:
  assumes inv: "mm_inv held s" and n: "n < PAGING_PAGES" "mem_map s n = 0"
    and s': "s' = s\<lparr>mem_map := (mem_map s)(n := 1),
      pmem := (\<lambda>a. if frame a = pg n then 0 else pmem s a)\<rparr>"
  shows "refs s (pg n) = 0" "held n = 0" "pg n < HIGH_MEMORY s"
    "\<And>i. i < 1024 \<Longrightarrow> de s' i = de s i"
    "\<And>i j. i \<in> user_dirs \<Longrightarrow> present (de s i) \<Longrightarrow> j < 1024 \<Longrightarrow> pte s' i j = pte s i j"
    "refs s' p = refs s p" "mm_inv (held(n := 1)) s'"
proof -
  show r: "refs s (pg n) = 0" "held n = 0" using mm_invD(2) [OF inv n(1)] n(2) by simp_all
  then show hi: "pg n < HIGH_MEMORY s" using mm_invD(3) [OF inv n(1)] by force
  show d: "de s' i = de s i" if "i < 1024" for i
    using that n(1) by (simp add: de_def s' frame_slot pg_props)
  show q: "pte s' i j = pte s i j" if "i \<in> user_dirs" "present (de s i)" "j < 1024" for i j
    using that free_not_table [OF inv n(1) r(1) that(1,2)] d [OF user_dir_less [OF that(1)]]
    by (simp add: pte_def tbl_def s' frame_slot)
  show rs: "refs s' p = refs s p" for p by (rule same_entries) (use d q in auto)
  have c1: "unat (mem_map s' k) = refs s' (pg k) + (held(n := 1)) k" if "k < PAGING_PAGES" for k
    using mm_invD(2) [OF inv that] n r by (auto simp: s' rs [unfolded s'])
  have c2: "\<exists>k<PAGING_PAGES. tbl s' i = pg k \<and> refs s' (pg k) = 1 \<and> (held(n := 1)) k = 0"
    if i: "i \<in> user_dirs" "present (de s' i)" for i
  proof -
    have pi: "present (de s i)" using i d user_dir_less by simp
    obtain k where k: "k < PAGING_PAGES" "tbl s i = pg k" "refs s (pg k) = 1" "held k = 0"
      using mm_inv_table [OF inv i(1) pi] .
    then have "k \<noteq> n" using r by auto
    then show ?thesis
      using k d [OF user_dir_less [OF i(1)]] by (intro exI [of _ k]) (simp add: tbl_def rs)
  qed
  show "mm_inv (held(n := 1)) s'"
    unfolding mm_inv_def
    using mm_invD(1,3) [OF inv] c1 c2 mm_invD(4) [OF inv] d q user_dir_less
    by (auto simp: s')
qed

lemma free_page_ok:
  assumes inv: "mm_inv held s" and "LOW_MEM \<le> p" "p < HIGH_MEMORY s" "mem_map s (MAP_NR p) \<noteq> 0"
  shows "free_page p s = Ret () (set_map (MAP_NR p) (mem_map s (MAP_NR p) - 1) s)"
    "MAP_NR p < PAGING_PAGES"
proof -
  have "p < 0x1000000" using mm_invD(1) [OF inv] assms(3) by simp
  then show n: "MAP_NR p < PAGING_PAGES" using MAP_NR_less assms by blast
  show "free_page p s = Ret () (set_map (MAP_NR p) (mem_map s (MAP_NR p) - 1) s)"
    using assms n by (auto simp: free_page_def MAP_NR_def Let_def)
qed

text \<open>A zeroed page that is held becomes the page table of an empty directory entry.\<close>

lemma mm_inv_new_table:
  assumes inv: "mm_inv held s" and n: "n < PAGING_PAGES" "held n = 1" "refs s (pg n) = 0"
      "pg n < HIGH_MEMORY s"
    and zero: "\<And>a. frame a = pg n \<Longrightarrow> pmem s a = 0"
    and i: "i \<in> user_dirs" "\<not> present (de s i)"
    and s': "s' = poke (slot 0 i) (pg n OR 7) s"
  shows "k < 1024 \<Longrightarrow> de s' k = (if k = i then pg n OR 7 else de s k)"
    "tbl s' i = pg n" "present (de s' i)"
    "l < 1024 \<Longrightarrow> pte s' i l = 0"
    "k \<in> user_dirs \<Longrightarrow> present (de s k) \<Longrightarrow> l < 1024 \<Longrightarrow> pte s' k l = pte s k l"
    "refs s' p = refs s p + of_bool (p = pg n)"
    "mm_inv (held(n := 0)) s'"
proof -
  note f7 = frame_present_or7 [OF pg_props(1) [OF n(1)]]
  show d: "de s' k = (if k = i then pg n OR 7 else de s k)" if "k < 1024" for k
    using that user_dir_less [OF i(1)] by (simp add: de_def s' slot_eq_iff)
  have di: "de s' i = pg n OR 7" using d [OF user_dir_less [OF i(1)]] by simp
  show t: "tbl s' i = pg n" and pr: "present (de s' i)" by (simp_all add: tbl_def di f7)
  have ne: "slot (pg n) l \<noteq> slot 0 i" if "l < 1024" for l
    using that n user_dir_less [OF i(1)] by (simp add: slot_eq_iff pg_props)
  show z: "pte s' i l = 0" if "l < 1024" for l
    using that ne zero n by (simp add: pte_def t, simp add: s' frame_slot pg_props)
  have tk: "tbl s' k = tbl s k" if "k \<in> user_dirs" "present (de s k)" for k
    using that i d user_dir_less by (auto simp: tbl_def)
  show q: "pte s' k l = pte s k l" if "k \<in> user_dirs" "present (de s k)" "l < 1024" for k l
    using that table_not_dir [OF inv that(1,2)] user_dir_less [OF i(1)]
    by (simp add: pte_def tk, simp add: s' slot_eq_iff)
  have "dcount s' i p = of_bool (p = pg n)" for p
    using pr z by (auto simp: dcount_def t tcount_def)
  moreover have "dcount s i p = 0" for p using i by (simp add: dcount_def)
  moreover have "dcount s' k p = dcount s k p" if "k \<in> user_dirs" "k \<noteq> i" for k p
    using that d user_dir_less [OF that(1)] q tk by (auto simp: dcount_def tcount_def)
  then have "refs s' p + dcount s i p = refs s p + dcount s' i p" for p
    unfolding refs_def by (intro sum_change) (use i in auto)
  ultimately show rs: "refs s' p = refs s p + of_bool (p = pg n)" for p by (metis add_0_right)
  have "unat (mem_map s' k) = refs s' (pg k) + (held(n := 0)) k" if "k < PAGING_PAGES" for k
    using mm_invD(2) [OF inv that] n that by (auto simp: s' rs [unfolded s'] pg_eq_iff)
  moreover have "\<exists>m<PAGING_PAGES. tbl s' k = pg m \<and> refs s' (pg m) = 1 \<and> (held(n := 0)) m = 0"
    if k: "k \<in> user_dirs" "present (de s' k)" for k
  proof (cases "k = i")
    case True
    then show ?thesis using n t by (intro exI [of _ n]) (simp add: rs)
  next
    case False
    then have pk: "present (de s k)" using k d user_dir_less by simp
    obtain m where m: "m < PAGING_PAGES" "tbl s k = pg m" "refs s (pg m) = 1" "held m = 0"
      using mm_inv_table [OF inv k(1) pk] .
    then have "m \<noteq> n" using n by auto
    then show ?thesis
      using m n tk [OF k(1) pk] by (intro exI [of _ m]) (simp add: rs pg_eq_iff)
  qed
  moreover have "frame (pte s' k l) < HIGH_MEMORY s'"
    if k: "k \<in> user_dirs" "present (de s' k)" "l < 1024" "present (pte s' k l)" for k l
  proof (cases "k = i")
    case True
    then show ?thesis using z k by simp
  next
    case False
    then have pk: "present (de s k)" using k d user_dir_less by simp
    then show ?thesis using q [OF k(1) pk k(3)] mm_invD(4) [OF inv k(1) pk k(3)] k by (simp add: s')
  qed
  moreover have "\<forall>k<PAGING_PAGES. HIGH_MEMORY s' \<le> pg k \<longrightarrow> 0 < (held(n := 0)) k"
    using mm_invD(3) [OF inv] n(4) by (auto simp: s' linorder_not_less [symmetric])
  ultimately show "mm_inv (held(n := 0)) s'"
    unfolding mm_inv_def using mm_invD(1) [OF inv] by (auto simp: s')
qed

section \<open>Copying page tables\<close>

lemma frame_le: "frame x \<le> x"
  using div_times_less_eq_dividend [of "unat x" 4096] by (simp add: word_le_nat_alt unat_frame)

lemma frame_below: "frame x < 0x1000000 \<Longrightarrow> x < 0x1000000"
proof -
  assume "frame x < 0x1000000"
  then have "unat x div 4096 < 4096" by (simp add: word_less_nat_alt unat_frame)
  then have "unat x < 4096 * 4096" by (simp add: div_less_iff_less_mult)
  then show ?thesis by (simp add: word_less_nat_alt)
qed

lemma frame_low:
  assumes "present x" "\<not> LOW_MEM < x"
  shows "frame x < LOW_MEM"
proof -
  have "x \<noteq> LOW_MEM" using assms(1) by (auto simp: present_def)
  then show ?thesis using assms(2) frame_le [of x] by (simp add: linorder_not_less)
qed

lemma entry_page:
  assumes "LOW_MEM \<le> x" "frame x < HIGH_MEMORY s" "HIGH_MEMORY s \<le> 0x1000000"
  shows "MAP_NR x < PAGING_PAGES" "pg (MAP_NR x) = frame x"
  using assms MAP_NR_less [of x] frame_below [of x] pg_MAP_NR [of x] by auto

lemma maps_low: "frame x < LOW_MEM \<Longrightarrow> n < PAGING_PAGES \<Longrightarrow> \<not> maps x (pg n)"
  using pg_props(3) [of n] by (auto simp: maps_def)

text \<open>The number of entries \<open>k\<close> to \<open>m - 1\<close> of table \<open>i\<close> that map a page.\<close>

definition mcount :: "'z mm_scheme \<Rightarrow> nat \<Rightarrow> nat \<Rightarrow> nat \<Rightarrow> u32 \<Rightarrow> nat" where
  "mcount s i k m p = (\<Sum>j=k..<m. of_bool (maps (pte s i j) p))"

lemma mcount_empty [simp]: "mcount s i k k p = 0"
  by (simp add: mcount_def)

lemma mcount_head: "k < m \<Longrightarrow> mcount s i k m p = of_bool (maps (pte s i k) p) + mcount s i (Suc k) m p"
  unfolding mcount_def by (rule sum.atLeast_Suc_lessThan)

lemma mcount_concat: "k \<le> l \<Longrightarrow> l \<le> m \<Longrightarrow> mcount s i k l p + mcount s i l m p = mcount s i k m p"
  unfolding mcount_def by (rule sum.atLeastLessThan_concat)

lemma mcount_cong:
  "(\<And>j. k \<le> j \<Longrightarrow> j < m \<Longrightarrow> maps (pte s' i j) p = maps (pte s i j) p) \<Longrightarrow> mcount s' i k m p = mcount s i k m p"
  unfolding mcount_def by (intro sum.cong) auto

lemma mcount_tcount: "mcount s i 0 1024 p = tcount s i p"
  by (simp add: mcount_def tcount_def lessThan_atLeast0)

text \<open>What happens to a shared entry: write-protected unless it is in the low megabyte.\<close>

definition cow :: "u32 \<Rightarrow> u32" where
  "cow e = (if LOW_MEM < e AND NOT 2 then e AND NOT 2 else e)"

lemma cow_simps [simp]: "present (cow e) = present e" "frame (cow e) = frame e"
  by (simp_all add: cow_def)

definition copied :: "nat \<Rightarrow> nat \<Rightarrow> nat \<Rightarrow> nat \<Rightarrow> 'z mm_scheme \<Rightarrow> 'z mm_scheme \<Rightarrow> bool" where
  "copied i i' k m s s' \<longleftrightarrow>
     HIGH_MEMORY s' = HIGH_MEMORY s \<and>
     (\<forall>d<1024. de s' d = de s d) \<and>
     (\<forall>d\<in>user_dirs. \<forall>j<1024. present (de s d) \<longrightarrow>
        pte s' d j = (if k \<le> j \<and> j < m \<and> present (pte s i j)
                      then if d = i' then pte s i j AND NOT 2
                           else if d = i then cow (pte s i j) else pte s d j
                      else pte s d j)) \<and>
     (\<forall>a. frame a \<noteq> tbl s i \<and> frame a \<noteq> tbl s i' \<longrightarrow> pmem s' a = pmem s a) \<and>
     (\<forall>n<PAGING_PAGES. unat (mem_map s' n) =
        unat (mem_map s n) + mcount s i k m (pg n))"

lemma copiedI:
  assumes "HIGH_MEMORY s' = HIGH_MEMORY s" "\<And>d. d < 1024 \<Longrightarrow> de s' d = de s d"
    "\<And>d j. d \<in> user_dirs \<Longrightarrow> j < 1024 \<Longrightarrow> present (de s d) \<Longrightarrow>
        pte s' d j = (if k \<le> j \<and> j < m \<and> present (pte s i j)
                      then if d = i' then pte s i j AND NOT 2
                           else if d = i then cow (pte s i j) else pte s d j
                      else pte s d j)"
    "\<And>a. frame a \<noteq> tbl s i \<Longrightarrow> frame a \<noteq> tbl s i' \<Longrightarrow> pmem s' a = pmem s a"
    "\<And>n. n < PAGING_PAGES \<Longrightarrow> unat (mem_map s' n) =
        unat (mem_map s n) + mcount s i k m (pg n)"
  shows "copied i i' k m s s'"
  using assms unfolding copied_def by blast

lemma copiedD:
  assumes "copied i i' k m s s'"
  shows "HIGH_MEMORY s' = HIGH_MEMORY s" "d < 1024 \<Longrightarrow> de s' d = de s d"
    "d < 1024 \<Longrightarrow> tbl s' d = tbl s d"
    "d \<in> user_dirs \<Longrightarrow> j < 1024 \<Longrightarrow> present (de s d) \<Longrightarrow>
        pte s' d j = (if k \<le> j \<and> j < m \<and> present (pte s i j)
                      then if d = i' then pte s i j AND NOT 2
                           else if d = i then cow (pte s i j) else pte s d j
                      else pte s d j)"
    "frame a \<noteq> tbl s i \<Longrightarrow> frame a \<noteq> tbl s i' \<Longrightarrow> pmem s' a = pmem s a"
    "n < PAGING_PAGES \<Longrightarrow> unat (mem_map s' n) =
        unat (mem_map s n) + mcount s i k m (pg n)"
  using assms unfolding copied_def tbl_def by (simp_all)

lemma copy_entry:
  assumes inv: "mm_inv held s" and i: "i \<in> user_dirs" "present (de s i)"
    and i': "i' \<in> user_dirs" "present (de s i')" "i \<noteq> i'" and k: "k < 1024"
    and e: "e = pte s i k" "present e" "\<not> present (pte s i' k)" and e': "e' = e AND NOT 2"
    and room: "\<And>n. n < PAGING_PAGES \<Longrightarrow> maps e (pg n) \<Longrightarrow> unat (mem_map s n) < 255"
  defines "s1 \<equiv> poke (slot (tbl s i') k) e' s"
  defines "s2 \<equiv> set_map (MAP_NR e') (mem_map s1 (MAP_NR e') + 1) (poke (slot (tbl s i) k) e' s1)"
  shows "LOW_MEM < e' \<Longrightarrow> MAP_NR e' < PAGING_PAGES"
    "LOW_MEM < e' \<Longrightarrow> mm_inv held s2 \<and> copied i i' k (Suc k) s s2"
    "\<not> LOW_MEM < e' \<Longrightarrow> mm_inv held s1 \<and> copied i i' k (Suc k) s s1"
proof -
  have fe: "frame e' = frame e" "present e'" using e e' by simp_all
  have hi: "frame e < HIGH_MEMORY s" using mm_invD(4) [OF inv i k] e by simp
  have nt: "tbl s d \<noteq> frame e'" if "d \<in> user_dirs" "present (de s d)" for d
    using pte_not_table [OF inv that(1) i(1) that(2) i(2) k] e fe by auto
  have ml: "maps e p \<longleftrightarrow> frame e = p" for p using e by (simp add: maps_def)
  have ml': "maps e' p \<longleftrightarrow> frame e = p" for p using fe by (simp add: maps_def)
  note p1 = entries_poke_pte [OF inv i' (1,2) k, where v = e', folded s1_def]
  have pa: "pmem s1 a = pmem s a" if "frame a \<noteq> tbl s i'" for a
    using that k by (auto simp: s1_def frame_slot)
  {
    assume lo: "\<not> LOW_MEM < e'"
    then have low: "frame e < LOW_MEM" using frame_low [OF fe(2)] fe by simp
    have nm: "\<not> maps e (pg n)" "\<not> maps e' (pg n)" if "n < PAGING_PAGES" for n
      using maps_low [OF _ that] low fe by auto
    have "mm_inv held s1"
      by (rule mm_inv_pte [OF inv i'(1,2) k, where v = e'])
        (use fe hi nt nm e mm_invD(3) [OF inv] in \<open>auto simp: s1_def maps_def\<close>)
    moreover have "copied i i' k (Suc k) s s1"
    proof (rule copiedI)
      show "pte s1 d j = (if k \<le> j \<and> j < Suc k \<and> present (pte s i j)
                          then if d = i' then pte s i j AND NOT 2
                               else if d = i then cow (pte s i j) else pte s d j
                          else pte s d j)"
        if "d \<in> user_dirs" "j < 1024" "present (de s d)" for d j
        using p1(3) [OF that(1,3,2)] lo e e' i'(3) by (cases "j = k") (auto simp: cow_def)
    qed (use p1 pa nm e in \<open>simp_all add: s1_def mcount_head\<close>)
    ultimately show "mm_inv held s1 \<and> copied i i' k (Suc k) s s1" by blast
  next
    assume up: "LOW_MEM < e'"
    have n: "MAP_NR e' < PAGING_PAGES" "pg (MAP_NR e') = frame e"
      using entry_page [of e' s] up hi fe mm_invD(1) [OF inv] by simp_all
    then show "MAP_NR e' < PAGING_PAGES" by simp
    have eq: "frame e = pg m \<longleftrightarrow> m = MAP_NR e'" if "m < PAGING_PAGES" for m
      using pg_eq_iff [OF that n(1)] n(2) by auto
    have inc: "unat (mem_map s (MAP_NR e') + 1) = Suc (unat (mem_map s (MAP_NR e')))"
      using room [OF n(1)] n(2) ml by (simp add: unat_u8_inc)
    let ?t = "set_map (MAP_NR e') (mem_map s (MAP_NR e') + 1) s1"
    have "unat (mem_map ?t m) + of_bool (maps (pte s i' k) (pg m)) + held m
        = unat (mem_map s m) + of_bool (maps e' (pg m)) + held m" if "m < PAGING_PAGES" for m
      using e(3) eq [OF that] inc ml' by (simp add: s1_def maps_def [of "pte s i' k"])
    then have t: "mm_inv held ?t"
      by (intro mm_inv_pte [OF inv i'(1,2) k, where v = e'])
        (use fe hi nt mm_invD(3) [OF inv] in \<open>simp_all add: s1_def\<close>)
    have it: "present (de ?t i)" "tbl ?t i = tbl s i" "pte ?t i k = e"
      using p1 i i' k e user_dir_less [OF i(1)] by simp_all
    have s2: "s2 = poke (slot (tbl ?t i) k) e' ?t"
      unfolding it(2) by (rule mm.equality) (simp_all add: s2_def s1_def poke_def set_map_def)
    have "mm_inv held s2"
      unfolding s2
      by (rule mm_inv_pte [OF t i(1) it(1) k, where v = e'])
        (use fe hi nt e it mm_invD(3) [OF inv] p1 user_dir_less in \<open>auto simp: s1_def maps_def\<close>)
    moreover have "copied i i' k (Suc k) s s2"
    proof -
      note p2 = entries_poke_pte [OF t i(1) it(1) k, where v = e', folded s2]
      have "pmem s2 a = pmem s a" if "frame a \<noteq> tbl s i" "frame a \<noteq> tbl s i'" for a
        using that k pa [OF that(2)] p1(2) [OF user_dir_less [OF i(1)]] by (auto simp: s2 frame_slot)
      moreover have "unat (mem_map s2 m) = unat (mem_map s m) + of_bool (maps e (pg m))"
        if "m < PAGING_PAGES" for m
        using eq [OF that] inc ml by (auto simp: s2 s1_def)
      moreover have "pte s2 d j = (if k \<le> j \<and> j < Suc k \<and> present (pte s i j)
                          then if d = i' then pte s i j AND NOT 2
                               else if d = i then cow (pte s i j) else pte s d j
                          else pte s d j)"
        if d: "d \<in> user_dirs" "j < 1024" "present (de s d)" for d j
      proof -
        have "pte s2 d j = (if d = i \<and> j = k then e' else if d = i' \<and> j = k then e' else pte s d j)"
          using p2(3) [OF d(1) _ d(2)] p1(3) [OF d(1,3,2)] p1(1) [OF user_dir_less [OF d(1)]] d(3)
          by auto
        then show ?thesis using up e e' i'(3) by (cases "j = k") (auto simp: cow_def)
      qed
      moreover have "HIGH_MEMORY s2 = HIGH_MEMORY s" by (simp add: s2 s1_def)
      moreover have "de s2 d = de s d" if "d < 1024" for d using p1 p2 that by simp
      ultimately show ?thesis using e by (intro copiedI) (simp_all add: mcount_head)
    qed
    ultimately show "mm_inv held s2 \<and> copied i i' k (Suc k) s s2" by blast
  }
qed

lemma copied_refl: "copied i i' k k s s"
  by (rule copiedI) auto

lemma copied_skip: "\<not> present (pte s i k) \<Longrightarrow> copied i i' k (Suc k) s s"
  by (rule copiedI) (auto simp: less_Suc_eq_le mcount_head maps_def dest: le_antisym)

lemma copied_trans:
  assumes "copied i i' k l s s1" "copied i i' l m s1 s2" "k \<le> l" "l \<le> m" "m \<le> 1024"
    and i: "i \<in> user_dirs" "present (de s i)" "i' \<in> user_dirs" "i \<noteq> i'"
  shows "copied i i' k m s s2"
proof -
  note c1 = copiedD [OF assms(1)] and c2 = copiedD [OF assms(2)]
  have d1: "present (de s1 d) = present (de s d)" if "d \<in> user_dirs" for d
    using c1 user_dir_less that by simp
  have pi: "pte s1 i j = (if k \<le> j \<and> j < l \<and> present (pte s i j) then cow (pte s i j) else pte s i j)"
    if "j < 1024" for j using c1(4) [OF i(1) that i(2)] i(4) by simp
  have "mcount s1 i l m (pg n) = mcount s i l m (pg n)" for n
    by (rule mcount_cong) (use assms(5) pi in simp)
  then have cnt: "mcount s i k l (pg n) + mcount s1 i l m (pg n) = mcount s i k m (pg n)" for n
    using mcount_concat [OF assms(3,4)] by simp
  show ?thesis
  proof (rule copiedI)
    show "pte s2 d j = (if k \<le> j \<and> j < m \<and> present (pte s i j)
                      then if d = i' then pte s i j AND NOT 2
                           else if d = i then cow (pte s i j) else pte s d j
                      else pte s d j)"
      if d: "d \<in> user_dirs" "j < 1024" "present (de s d)" for d j
      using c2(4) [OF d(1,2)] c1(4) [OF d] d1 [OF d(1)] d(3) pi [OF d(2)] assms(3,4)
      by (cases "j < l") auto
    show "pmem s2 a = pmem s a" if "frame a \<noteq> tbl s i" "frame a \<noteq> tbl s i'" for a
      using that c1(3,5) c2(5) user_dir_less i by simp
    show "unat (mem_map s2 n) = unat (mem_map s n) + mcount s i k m (pg n)"
      if "n < PAGING_PAGES" for n using c1(6) [OF that] c2(6) [OF that] cnt [of n] by linarith
  qed (use c1 c2 in simp_all)
qed

lemma copy_ptes_ok:
  assumes "mm_inv held s" "i \<in> user_dirs" "present (de s i)" "i' \<in> user_dirs" "present (de s i')"
    "i \<noteq> i'" "k + nr \<le> 1024"
    "\<And>j. k \<le> j \<Longrightarrow> j < k + nr \<Longrightarrow> \<not> present (pte s i' j)"
    "\<And>n. n < PAGING_PAGES \<Longrightarrow>
      unat (mem_map s n) + mcount s i k (k + nr) (pg n) \<le> 255"
  shows "\<exists>s'. copy_ptes nr (slot (tbl s i) k) (slot (tbl s i') k) s = Ret () s'
     \<and> mm_inv held s' \<and> copied i i' k (k + nr) s s'"
  using assms
proof (induction nr arbitrary: k s)
  case 0
  then show ?case by (simp add: copied_refl)
next
  case (Suc nr)
  note inv = Suc.prems(1) and i = Suc.prems(2,3) and i' = Suc.prems(4,5,6)
  have k: "k < 1024" using Suc.prems(7) by simp
  let ?e = "pte s i k" and ?e' = "pte s i k AND NOT 2"
  have room: "unat (mem_map s n) < 255" if "n < PAGING_PAGES" "maps ?e (pg n)" for n
    using Suc.prems(9) [OF that(1)] that(2) by (simp add: mcount_head)
  have goon: ?case
    if step: "copy_ptes (Suc nr) (slot (tbl s i) k) (slot (tbl s i') k) s
        = copy_ptes nr (slot (tbl s i) k + 4) (slot (tbl s i') k + 4) s1"
      and s1: "mm_inv held s1" "copied i i' k (Suc k) s s1" for s1
  proof -
    note c = copiedD [OF s1(2)]
    have d: "present (de s1 i)" "present (de s1 i')" "tbl s1 i = tbl s i" "tbl s1 i' = tbl s i'"
      using c i i' user_dir_less by simp_all
    have p: "pte s1 x j = pte s x j" if "x \<in> {i, i'}" "Suc k \<le> j" "j < 1024" for x j
      using that c(4) i i' by auto
    have cap: "unat (mem_map s1 n) + mcount s1 i (Suc k) (Suc k + nr) (pg n) \<le> 255"
      if n: "n < PAGING_PAGES" for n
    proof -
      have "mcount s1 i (Suc k) (Suc k + nr) (pg n) = mcount s i (Suc k) (Suc k + nr) (pg n)"
        by (rule mcount_cong) (use p Suc.prems(7) in simp)
      then show ?thesis using Suc.prems(9) [OF n] c(6) [OF n] by (simp add: mcount_head)
    qed
    obtain s' where s': "copy_ptes nr (slot (tbl s1 i) (Suc k)) (slot (tbl s1 i') (Suc k)) s1 = Ret () s'"
      "mm_inv held s'" "copied i i' (Suc k) (Suc k + nr) s1 s'"
      using Suc.IH [OF s1(1) i(1) d(1) i'(1) d(2) i'(3), of "Suc k"] Suc.prems(7,8) p cap by force
    have "copied i i' k (k + Suc nr) s s'"
      using copied_trans [OF s1(2) s'(3)] i i' Suc.prems(7) by simp
    then show ?thesis using s' step d by (auto simp: slot_Suc)
  qed
  show ?case
  proof (cases "present ?e")
    case False
    then show ?thesis
      by (intro goon [of s]) (simp_all add: inv copied_skip pte_def [symmetric])
  next
    case True
    have np: "\<not> present (pte s i' k)" using Suc.prems(8) by simp
    note ce = copy_entry [OF inv i i' k refl True np refl] room
    show ?thesis
    proof (cases "LOW_MEM < ?e'")
      case True
      have n: "MAP_NR ?e' < PAGING_PAGES" by (rule ce(1)) (use True room in auto)
      have c: "mm_inv held s2 \<and> copied i i' k (Suc k) s s2"
        if "s2 = set_map (MAP_NR ?e') (mem_map s (MAP_NR ?e') + 1)
             (poke (slot (tbl s i) k) ?e' (poke (slot (tbl s i') k) ?e' s))" for s2
        using ce(2) True room unfolding that by auto
      show ?thesis
        by (rule goon [OF _ conjunct1 [OF c [OF refl]] conjunct2 [OF c [OF refl]]])
          (use \<open>present ?e\<close> True n in \<open>simp add: pte_def [symmetric] Let_def MAP_NR_def [symmetric]\<close>)
    next
      case False
      have c: "mm_inv held (poke (slot (tbl s i') k) ?e' s)
          \<and> copied i i' k (Suc k) s (poke (slot (tbl s i') k) ?e' s)"
        using ce(3) False room by auto
      show ?thesis
        by (rule goon [OF _ conjunct1 [OF c] conjunct2 [OF c]])
          (use \<open>present ?e\<close> False in \<open>simp add: pte_def [symmetric] Let_def\<close>)
    qed
  qed
qed

text \<open>
  \<open>forked f t m s s'\<close>: directory entries \<open>t, \<dots>, t + m - 1\<close> now hold copies of
  entries \<open>f, \<dots>, f + m - 1\<close>, whose own pages became read-only; nothing else that
  was in use changed.
\<close>

definition forked :: "nat \<Rightarrow> nat \<Rightarrow> nat \<Rightarrow> 'z mm_scheme \<Rightarrow> 'z mm_scheme \<Rightarrow> bool" where
  "forked f t m s s' \<longleftrightarrow>
     HIGH_MEMORY s' = HIGH_MEMORY s \<and>
     (\<forall>d\<in>user_dirs. if t \<le> d \<and> d < t + m then present (de s' d) = present (de s (d - t + f))
                    else de s' d = de s d) \<and>
     (\<forall>d\<in>user_dirs. \<forall>j<1024. present (de s' d) \<longrightarrow>
        pte s' d j =
          (if t \<le> d \<and> d < t + m
           then if present (pte s (d - t + f) j) then pte s (d - t + f) j AND NOT 2 else 0
           else if f \<le> d \<and> d < f + m \<and> present (pte s d j) then cow (pte s d j)
           else pte s d j)) \<and>
     (\<forall>a. frame a \<noteq> 0 \<longrightarrow> (\<forall>d. f \<le> d \<and> d < f + m \<and> present (de s d) \<longrightarrow> frame a \<noteq> tbl s d) \<longrightarrow>
        (\<forall>n<PAGING_PAGES. frame a = pg n \<longrightarrow> mem_map s n \<noteq> 0) \<longrightarrow> pmem s' a = pmem s a) \<and>
     (\<forall>n<PAGING_PAGES. mem_map s n \<noteq> 0 \<longrightarrow> mem_map s' n \<noteq> 0)"

lemma forkedD:
  assumes "forked f t m s s'"
  shows "HIGH_MEMORY s' = HIGH_MEMORY s"
    "d \<in> user_dirs \<Longrightarrow> t \<le> d \<Longrightarrow> d < t + m \<Longrightarrow> present (de s' d) = present (de s (d - t + f))"
    "d \<in> user_dirs \<Longrightarrow> \<not> (t \<le> d \<and> d < t + m) \<Longrightarrow> de s' d = de s d"
    "d \<in> user_dirs \<Longrightarrow> j < 1024 \<Longrightarrow> present (de s' d) \<Longrightarrow>
        pte s' d j =
          (if t \<le> d \<and> d < t + m
           then if present (pte s (d - t + f) j) then pte s (d - t + f) j AND NOT 2 else 0
           else if f \<le> d \<and> d < f + m \<and> present (pte s d j) then cow (pte s d j)
           else pte s d j)"
    "frame a \<noteq> 0 \<Longrightarrow> (\<And>d. f \<le> d \<Longrightarrow> d < f + m \<Longrightarrow> present (de s d) \<Longrightarrow> frame a \<noteq> tbl s d) \<Longrightarrow>
        (\<And>n. n < PAGING_PAGES \<Longrightarrow> frame a = pg n \<Longrightarrow> mem_map s n \<noteq> 0) \<Longrightarrow> pmem s' a = pmem s a"
    "n < PAGING_PAGES \<Longrightarrow> mem_map s n \<noteq> 0 \<Longrightarrow> mem_map s' n \<noteq> 0"
  using assms unfolding forked_def by (simp_all split: if_splits)

lemma forkedI:
  assumes "HIGH_MEMORY s' = HIGH_MEMORY s"
    "\<And>d. d \<in> user_dirs \<Longrightarrow> t \<le> d \<Longrightarrow> d < t + m \<Longrightarrow> present (de s' d) = present (de s (d - t + f))"
    "\<And>d. d \<in> user_dirs \<Longrightarrow> \<not> (t \<le> d \<and> d < t + m) \<Longrightarrow> de s' d = de s d"
    "\<And>d j. d \<in> user_dirs \<Longrightarrow> j < 1024 \<Longrightarrow> present (de s' d) \<Longrightarrow>
        pte s' d j =
          (if t \<le> d \<and> d < t + m
           then if present (pte s (d - t + f) j) then pte s (d - t + f) j AND NOT 2 else 0
           else if f \<le> d \<and> d < f + m \<and> present (pte s d j) then cow (pte s d j)
           else pte s d j)"
    "\<And>a. frame a \<noteq> 0 \<Longrightarrow> (\<And>d. f \<le> d \<Longrightarrow> d < f + m \<Longrightarrow> present (de s d) \<Longrightarrow> frame a \<noteq> tbl s d) \<Longrightarrow>
        (\<And>n. n < PAGING_PAGES \<Longrightarrow> frame a = pg n \<Longrightarrow> mem_map s n \<noteq> 0) \<Longrightarrow> pmem s' a = pmem s a"
    "\<And>n. n < PAGING_PAGES \<Longrightarrow> mem_map s n \<noteq> 0 \<Longrightarrow> mem_map s' n \<noteq> 0"
  shows "forked f t m s s'"
  using assms unfolding forked_def by (simp split: if_splits)

lemma forked_0: "forked f t 0 s s"
  by (rule forkedI) auto

lemma forked_skip: "\<not> present (de s f) \<Longrightarrow> \<not> present (de s t) \<Longrightarrow> forked f t 1 s s"
  by (rule forkedI) (auto simp: less_Suc_eq_le dest!: le_antisym)

lemma forked_Suc:
  assumes "forked f t 1 s s1" "forked (Suc f) (Suc t) m s1 s2"
    and r: "16 \<le> f" "f + Suc m \<le> 1024" "16 \<le> t" "t + Suc m \<le> 1024"
      "f + Suc m \<le> t \<or> t + Suc m \<le> f"
  shows "forked f t (Suc m) s s2"
proof -
  note f1 = forkedD [OF assms(1)] and f2 = forkedD [OF assms(2)]
  have src1: "d - Suc t + Suc f \<in> user_dirs" "\<not> (t \<le> d - Suc t + Suc f \<and> d - Suc t + Suc f < t + 1)"
    "d - t + f = d - Suc t + Suc f" "\<not> (f \<le> d - Suc t + Suc f \<and> d - Suc t + Suc f < f + 1)"
    if "Suc t \<le> d" "d < Suc t + m" for d
    using that r by (auto simp: user_dirs_def)
  have de1: "de s1 d = de s d" if "d \<in> user_dirs" "d \<noteq> t" for d
    using f1(3) [OF that(1)] that(2) by simp
  show ?thesis
  proof (rule forkedI)
    show "present (de s2 d) = present (de s (d - t + f))"
      if d: "d \<in> user_dirs" "t \<le> d" "d < t + Suc m" for d
    proof (cases "d = t")
      case True
      then show ?thesis using f1(2) [OF d(1,2)] f2(3) [OF d(1)] by simp
    next
      case False
      then have d': "Suc t \<le> d" "d < Suc t + m" using d by simp_all
      show ?thesis using f2(2) [OF d(1) d'] f1(3) [OF src1(1,2) [OF d']] src1(3) [OF d'] by simp
    qed
    show "de s2 d = de s d" if "d \<in> user_dirs" "\<not> (t \<le> d \<and> d < t + Suc m)" for d
      using that de1 [OF that(1)] f2(3) [OF that(1)] by (cases "d = t") auto
    show "pte s2 d j =
          (if t \<le> d \<and> d < t + Suc m
           then if present (pte s (d - t + f) j) then pte s (d - t + f) j AND NOT 2 else 0
           else if f \<le> d \<and> d < f + Suc m \<and> present (pte s d j) then cow (pte s d j)
           else pte s d j)"
      if d: "d \<in> user_dirs" "j < 1024" "present (de s2 d)" for d j
    proof (cases "Suc t \<le> d \<and> d < Suc t + m")
      case True
      then obtain e where e: "d = Suc t + e" "e < m" by (auto simp: le_iff_add)
      then have u: "Suc f + e \<in> user_dirs" "Suc f + e \<noteq> t" using r by (auto simp: user_dirs_def)
      have ps: "present (de s1 (Suc f + e))" using f2(2) [OF d(1)] d(3) True e by (simp add: add.commute)
      have "pte s1 (Suc f + e) j = pte s (Suc f + e) j"
        using f1(4) [OF u(1) d(2) ps] u(2) by auto
      moreover have "pte s2 d j = (if present (pte s1 (Suc f + e) j)
          then pte s1 (Suc f + e) j AND NOT 2 else 0)"
        using f2(4) [OF d] e by (simp add: add.commute)
      ultimately show ?thesis using e by (simp add: add.commute)
    next
      case False
      then have p1: "present (de s1 d)" using f2(3) [OF d(1)] d(3) by simp
      have g2: "pte s2 d j = (if Suc f \<le> d \<and> d < Suc f + m \<and> present (pte s1 d j)
          then cow (pte s1 d j) else pte s1 d j)" using f2(4) [OF d] False by auto
      show ?thesis
      proof (cases "d = t")
        case True
        then have "\<not> (Suc f \<le> d \<and> d < Suc f + m)" using r by auto
        then show ?thesis using g2 f1(4) [OF d(1,2) p1] True by auto
      next
        case False
        then have g1: "pte s1 d j = (if d = f \<and> present (pte s d j) then cow (pte s d j) else pte s d j)"
          using f1(4) [OF d(1,2) p1] by (auto simp: less_Suc_eq_le dest: le_antisym)
        have "\<not> (t \<le> d \<and> d < t + Suc m)" using False \<open>\<not> (Suc t \<le> d \<and> d < Suc t + m)\<close> by auto
        moreover have "(f \<le> d \<and> d < f + Suc m) = (d = f \<or> Suc f \<le> d \<and> d < Suc f + m)" by auto
        ultimately show ?thesis using g2 g1 by (cases "d = f") auto
      qed
    qed
    show "pmem s2 a = pmem s a"
      if a: "frame a \<noteq> 0" "\<And>d. f \<le> d \<Longrightarrow> d < f + Suc m \<Longrightarrow> present (de s d) \<Longrightarrow> frame a \<noteq> tbl s d"
        "\<And>n. n < PAGING_PAGES \<Longrightarrow> frame a = pg n \<Longrightarrow> mem_map s n \<noteq> 0" for a
    proof -
      have "pmem s1 a = pmem s a" by (rule f1(5)) (use a in auto)
      moreover have "pmem s2 a = pmem s1 a"
      proof (rule f2(5) [OF a(1)])
        fix d assume d: "Suc f \<le> d" "d < Suc f + m" "present (de s1 d)"
        then have "de s1 d = de s d" using r by (intro de1) (auto simp: user_dirs_def)
        then show "frame a \<noteq> tbl s1 d" using a(2) [of d] d by (simp add: tbl_def)
      qed (use a(3) f1(6) in blast)
      ultimately show ?thesis by simp
    qed
  qed (use f1 f2 in auto)
qed

text \<open>One round of the outer loop: a fresh table, then the copy of its entries.\<close>

lemma copy_dir_ok:
  assumes inv: "mm_inv held s" and f: "f \<in> user_dirs" "present (de s f)"
    and t: "t \<in> user_dirs" "\<not> present (de s t)"
    and n: "n < PAGING_PAGES" "mem_map s n = 0"
    and s1: "s1 = s\<lparr>mem_map := (mem_map s)(n := 1),
      pmem := (\<lambda>a. if frame a = pg n then 0 else pmem s a)\<rparr>"
    and room: "\<And>n. n < PAGING_PAGES \<Longrightarrow> unat (mem_map s n) + tcount s f (pg n) \<le> 255"
  shows "\<exists>s'. copy_ptes 1024 (tbl s f) (pg n) (poke (slot 0 t) (pg n OR 7) s1) = Ret () s'
      \<and> mm_inv held s' \<and> forked f t 1 s s'
      \<and> (\<forall>m<PAGING_PAGES. unat (mem_map s' m) = unat (mem_map s m) + of_bool (m = n) + tcount s f (pg m))"
proof -
  note al = mm_inv_alloc [OF inv n s1]
  let ?s2 = "poke (slot 0 t) (pg n OR 7) s1"
  have ft: "f \<noteq> t" using f t by auto
  have z: "pmem s1 a = 0" if "frame a = pg n" for a using that by (simp add: s1)
  have t1: "\<not> present (de s1 t)" using al(4) t user_dir_less by simp
  have hi: "pg n < HIGH_MEMORY s1" using al(3) by (simp add: s1)
  have r1: "refs s1 (pg n) = 0" using al(1,6) by simp
  note nt = mm_inv_new_table [OF al(7) n(1) _ r1 hi z t(1) t1 refl, simplified]
  have inv2: "mm_inv held ?s2" using nt(7) al(2) by (simp add: fun_upd_idem)
  have de2: "de ?s2 k = (if k = t then pg n OR 7 else de s k)" if "k < 1024" for k
    using nt(1) [OF that] al(4) [OF that] by simp
  have pte2: "pte ?s2 k j = pte s k j" if "k \<in> user_dirs" "present (de s k)" "j < 1024" for k j
    using nt(5) [OF that(1) _ that(3)] al(4,5) that user_dir_less by simp
  have f2: "present (de ?s2 f)" "tbl ?s2 f = tbl s f"
    using de2 [OF user_dir_less [OF f(1)]] ft f(2) by (simp_all add: tbl_def)
  have mc: "mcount ?s2 f 0 1024 p = tcount s f p" for p
    unfolding mcount_tcount [symmetric] by (rule mcount_cong) (use pte2 f in simp)
  have tn: "tcount s f (pg n) = 0"
    using refs_ge [OF f(1), of s "pg n"] al(1) f(2) by (simp add: dcount_def)
  have mm2: "mem_map ?s2 = (mem_map s)(n := 1)" by (simp add: s1)
  have cap: "unat (mem_map ?s2 m) + mcount ?s2 f 0 (0 + 1024) (pg m) \<le> 255" if "m < PAGING_PAGES" for m
    using room [OF that] tn by (simp add: mm2 mc [simplified] del: mem_map_poke)
  obtain s' where s': "copy_ptes 1024 (slot (tbl ?s2 f) 0) (slot (tbl ?s2 t) 0) ?s2 = Ret () s'"
    "mm_inv held s'" "copied f t 0 (0 + 1024) ?s2 s'"
    using copy_ptes_ok [OF inv2 f(1) f2(1) t(1) nt(3) ft _ _ cap] nt(4) by auto
  note c = copiedD [OF s'(3)]
  have cnt: "unat (mem_map s' m) = unat (mem_map s m) + of_bool (m = n) + tcount s f (pg m)"
    if "m < PAGING_PAGES" for m
    using c(6) [OF that] mc mm2 n(2) by simp
  moreover have "forked f t 1 s s'"
  proof (rule forkedI)
    show "HIGH_MEMORY s' = HIGH_MEMORY s" using c(1) by (simp add: s1)
    show "present (de s' d) = present (de s (d - t + f))" if "d \<in> user_dirs" "t \<le> d" "d < t + 1" for d
      using that c(2) nt(3) user_dir_less f(2) by (simp add: less_Suc_eq_le)
    show "de s' d = de s d" if "d \<in> user_dirs" "\<not> (t \<le> d \<and> d < t + 1)" for d
      using that c(2) de2 user_dir_less by auto
    show "pte s' d j =
          (if t \<le> d \<and> d < t + 1
           then if present (pte s (d - t + f) j) then pte s (d - t + f) j AND NOT 2 else 0
           else if f \<le> d \<and> d < f + 1 \<and> present (pte s d j) then cow (pte s d j)
           else pte s d j)"
      if d: "d \<in> user_dirs" "j < 1024" "present (de s' d)" for d j
    proof -
      have p2: "present (de ?s2 d)" using d c(2) user_dir_less by simp
      have "d = t \<or> present (de s d)" using p2 de2 user_dir_less d(1) by (auto split: if_splits)
      then show ?thesis
        using c(4) [OF d(1,2) p2] d(2) pte2 [OF f d(2)] pte2 [OF d(1) _ d(2)] nt(4) [OF d(2)] ft
        by (auto simp: less_Suc_eq_le dest: le_antisym)
    qed
    show "pmem s' a = pmem s a"
      if a: "frame a \<noteq> 0" "\<And>d. f \<le> d \<Longrightarrow> d < f + 1 \<Longrightarrow> present (de s d) \<Longrightarrow> frame a \<noteq> tbl s d"
        "\<And>n. n < PAGING_PAGES \<Longrightarrow> frame a = pg n \<Longrightarrow> mem_map s n \<noteq> 0" for a
    proof -
      have "frame a \<noteq> pg n" using a(3) n by auto
      then have "pmem s' a = pmem ?s2 a" using c(5) [of a] f2 nt(2) a(2) [of f] f(2) by simp
      also have "\<dots> = pmem s a"
        using a(1) \<open>frame a \<noteq> pg n\<close> user_dir_less [OF t(1)] by (auto simp: s1 frame_slot)
      finally show ?thesis .
    qed
    show "mem_map s' m \<noteq> 0" if "m < PAGING_PAGES" "mem_map s m \<noteq> 0" for m
      using cnt [OF that(1)] that(2) by (auto simp: unat_eq_0 [symmetric] simp del: unat_eq_0)
  qed
  ultimately show ?thesis
    using s' f2 nt(2) by (auto simp: slot_def)
qed

lemma copy_dirs_ok:
  assumes "mm_inv held s" "from \<noteq> 0" "16 \<le> f" "f + n \<le> 1024" "16 \<le> t" "t + n \<le> 1024"
    "f + n \<le> t \<or> t + n \<le> f" "\<And>d. d < n \<Longrightarrow> \<not> present (de s (t + d))"
    "\<And>k. k < PAGING_PAGES \<Longrightarrow> unat (mem_map s k) + (\<Sum>d=f..<f + n. dcount s d (pg k)) \<le> 255"
  shows "\<exists>m s'. copy_dirs n from (slot 0 f) (slot 0 t) s = Ret (if m = n then 0 else - 1) s'
     \<and> m \<le> n \<and> mm_inv held s' \<and> forked f t m s s' \<and> (m < n \<longrightarrow> (\<forall>k<PAGING_PAGES. mem_map s' k \<noteq> 0))"
  using assms
proof (induction n arbitrary: f t s)
  case 0
  then show ?case using forked_0 by fastforce
next
  case (Suc n)
  note inv = Suc.prems(1)
  have f: "f \<in> user_dirs" and t: "t \<in> user_dirs" using Suc.prems by (auto simp: user_dirs_def)
  have np: "\<not> present (de s t)" using Suc.prems(8) [of 0] by simp
  have goon: ?case
    if step: "copy_dirs (Suc n) from (slot 0 f) (slot 0 t) s
        = copy_dirs n from (slot 0 f + 4) (slot 0 t + 4) s1"
      and s1: "mm_inv held s1" "forked f t 1 s s1"
      and c1: "\<And>k. k < PAGING_PAGES \<Longrightarrow>
        unat (mem_map s1 k) + (\<Sum>d=Suc f..<Suc f + n. dcount s d (pg k)) \<le> 255" for s1
  proof -
    note fk = forkedD [OF s1(2)]
    have dc: "dcount s1 d p = dcount s d p" if d: "d \<in> user_dirs" "d \<noteq> f" "d \<noteq> t" for d p
    proof -
      have de: "de s1 d = de s d" using fk(3) d by simp
      then have "pte s1 d j = pte s d j" if "j < 1024" "present (de s d)" for j
        using fk(4) [OF d(1) that(1)] that(2) d by auto
      then show ?thesis by (simp add: dcount_def tcount_def tbl_def de)
    qed
    have "(\<Sum>d=Suc f..<Suc f + n. dcount s1 d p) = (\<Sum>d=Suc f..<Suc f + n. dcount s d p)" for p
      by (rule sum.cong) (use dc Suc.prems in \<open>auto simp: user_dirs_def\<close>)
    then have c2: "unat (mem_map s1 k) + (\<Sum>d=Suc f..<Suc f + n. dcount s1 d (pg k)) \<le> 255"
      if "k < PAGING_PAGES" for k using c1 [OF that] by (simp only:)
    have np1: "\<not> present (de s1 (Suc t + d))" if "d < n" for d
      using fk(3) [of "Suc t + d"] Suc.prems(8) [of "Suc d"] Suc.prems that by (simp add: user_dirs_def)
    have "\<exists>m s'. copy_dirs n from (slot 0 (Suc f)) (slot 0 (Suc t)) s1 = Ret (if m = n then 0 else - 1) s'
      \<and> m \<le> n \<and> mm_inv held s' \<and> forked (Suc f) (Suc t) m s1 s'
      \<and> (m < n \<longrightarrow> (\<forall>k<PAGING_PAGES. mem_map s' k \<noteq> 0))"
      by (rule Suc.IH [OF s1(1) Suc.prems(2) _ _ _ _ _ np1 c2]) (use Suc.prems in auto)
    then obtain m s' where s': "m \<le> n" "mm_inv held s'" "forked (Suc f) (Suc t) m s1 s'"
      "copy_dirs n from (slot 0 (Suc f)) (slot 0 (Suc t)) s1 = Ret (if m = n then 0 else - 1) s'"
      "m < n \<longrightarrow> (\<forall>k<PAGING_PAGES. mem_map s' k \<noteq> 0)"
      by blast
    have "forked f t (Suc m) s s'"
      by (rule forked_Suc [OF s1(2) s'(3)]) (use Suc.prems s'(1) in auto)
    then show ?thesis
      using s' step by (intro exI [of _ "Suc m"] exI [of _ s']) (simp add: slot_Suc)
  qed
  show ?case
  proof (cases "present (de s f)")
    case False
    have "unat (mem_map s k) + (\<Sum>d=Suc f..<Suc f + n. dcount s d (pg k)) \<le> 255"
      if "k < PAGING_PAGES" for k
      using Suc.prems(9) [OF that] by (simp add: sum.atLeast_Suc_lessThan del: sum.op_ivl_Suc)
    then show ?thesis
      using goon [of s] inv forked_skip [OF False np] False np by (simp add: de_def [symmetric])
  next
    case True
    have room: "unat (mem_map s k) + tcount s f (pg k) \<le> 255"
      and room': "unat (mem_map s k) + tcount s f (pg k) + (\<Sum>d=Suc f..<Suc f + n. dcount s d (pg k)) \<le> 255"
      if "k < PAGING_PAGES" for k
      using Suc.prems(9) [OF that] True
      by (simp_all add: sum.atLeast_Suc_lessThan dcount_def [of s f] del: sum.op_ivl_Suc)
    show ?thesis
    proof (cases rule: get_free_page_cases [of s])
      case full
      then have "copy_dirs (Suc n) from (slot 0 f) (slot 0 t) s = Ret (- 1) s"
        using True np by (simp add: de_def [symmetric] Let_def)
      then show ?thesis using inv forked_0 [of f t s] full(2) by (intro exI [of _ 0]) auto
    next
      case (page k)
      obtain s1 where s1: "copy_ptes 1024 (tbl s f) (pg k) (poke (slot 0 t) (pg k OR 7)
          (snd (get_free_page s))) = Ret () s1" "mm_inv held s1" "forked f t 1 s s1"
        "\<forall>m<PAGING_PAGES. unat (mem_map s1 m) = unat (mem_map s m) + of_bool (m = k) + tcount s f (pg m)"
        using copy_dir_ok [OF inv f True t np page(1,2) _ room] page(3) by auto
      have "refs s (pg k) = 0" using mm_invD(2) [OF inv page(1)] page(2) by simp
      then have z: "dcount s d (pg k) = 0" if "d \<in> user_dirs" for d
        using refs_ge [OF that, of s "pg k"] by simp
      have "unat (mem_map s1 m) + (\<Sum>d=Suc f..<Suc f + n. dcount s d (pg m)) \<le> 255"
        if m: "m < PAGING_PAGES" for m
      proof (cases "m = k")
        case True
        have "(\<Sum>d=Suc f..<Suc f + n. dcount s d (pg k)) = 0"
          by (rule sum.neutral) (use z Suc.prems in \<open>auto simp: user_dirs_def\<close>)
        moreover have "tcount s f (pg k) = 0" using z [OF f] \<open>present (de s f)\<close> by (simp add: dcount_def)
        ultimately show ?thesis using True s1(4) m page(2) by simp
      qed (use s1(4) m room' [OF m] in simp)
      moreover have "copy_dirs (Suc n) from (slot 0 f) (slot 0 t) s
        = copy_dirs n from (slot 0 f + 4) (slot 0 t + 4) s1"
        using True np page s1(1) Suc.prems(2) pg_props(4)
        by (simp add: de_def [symmetric] tbl_def [symmetric] Let_def)
      ultimately show ?thesis using goon s1 by blast
    qed
  qed
qed

end
