(* ===== verification/Memory_Free.thy ===== *)
theory Memory_Free
  imports Memory_Inv
begin

unbundle bit_operations_syntax

text \<open>
  \<open>free_page_tables\<close>, \<open>put_page\<close> and \<open>un_wp_page\<close> keep the invariant of the
  allocator, and what they do to the address spaces.
\<close>

section \<open>Freeing page tables\<close>

definition cleared :: "nat \<Rightarrow> nat \<Rightarrow> nat \<Rightarrow> 'z mm_scheme \<Rightarrow> 'z mm_scheme \<Rightarrow> bool" where
  "cleared i k m s s' \<longleftrightarrow>
     HIGH_MEMORY s' = HIGH_MEMORY s \<and>
     (\<forall>d<1024. de s' d = de s d) \<and>
     (\<forall>d\<in>user_dirs. \<forall>j<1024. present (de s d) \<longrightarrow>
        pte s' d j = (if d = i \<and> k \<le> j \<and> j < m then 0 else pte s d j)) \<and>
     (\<forall>a. frame a \<noteq> tbl s i \<longrightarrow> pmem s' a = pmem s a)"

lemma poke_set_map: "poke a v (set_map n x s) = set_map n x (poke a v s)"
  by (rule mm.equality) (simp_all add: poke_def set_map_def)

lemma mapped_used:
  assumes inv: "mm_inv held s" and i: "i \<in> user_dirs" "present (de s i)" and k: "k < 1024"
    and n: "n < PAGING_PAGES" "maps (pte s i k) (pg n)"
  shows "mem_map s n \<noteq> 0"
proof -
  have "1 \<le> dcount s i (pg n)" using tcount_ge [OF k n(2)] i by (simp add: dcount_def)
  then have "1 \<le> refs s (pg n)" using refs_ge [OF i(1), of s "pg n"] by simp
  then show ?thesis using mm_invD(2) [OF inv n(1)] by auto
qed

lemma free_entry:
  assumes inv: "mm_inv held s" and i: "i \<in> user_dirs" "present (de s i)" and k: "k < 1024"
  shows "\<exists>s1. (if present (pte s i k) then free_page (frame (pte s i k)) s else Ret () s) = Ret () s1
    \<and> mm_inv held (poke (slot (tbl s i) k) 0 s1)
    \<and> cleared i k (Suc k) s (poke (slot (tbl s i) k) 0 s1)"
proof -
  let ?e = "pte s i k"
  have cl: "cleared i k (Suc k) s (poke (slot (tbl s i) k) 0 (set_map n x s))" for n x
    unfolding cleared_def poke_set_map using k
    by (auto simp: entries_poke_pte [OF inv i k] frame_slot)
  have id: "s = set_map 0 (mem_map s 0) s" by (simp add: set_map_def)
  show ?thesis
  proof (cases "present ?e \<and> LOW_MEM \<le> frame ?e")
    case False
    have nm: "\<not> maps ?e (pg n)" if "n < PAGING_PAGES" for n
      using False maps_low [OF _ that] by (auto simp: maps_def linorder_not_le)
    have "mm_inv held (poke (slot (tbl s i) k) 0 s)"
      by (rule mm_inv_pte [OF inv i k, where v = 0])
        (use nm mm_invD(3) [OF inv] in \<open>simp_all\<close>)
    moreover have "cleared i k (Suc k) s (poke (slot (tbl s i) k) 0 s)"
      using cl [of 0 "mem_map s 0"] id by simp
    ultimately show ?thesis using False by (auto simp: free_page_def)
  next
    case True
    let ?n = "MAP_NR (frame ?e)"
    have hi: "frame ?e < HIGH_MEMORY s" using mm_invD(4) [OF inv i k] True by simp
    have n: "?n < PAGING_PAGES" "pg ?n = frame ?e"
      using entry_page [of "frame ?e" s] True hi mm_invD(1) [OF inv] by simp_all
    have eq: "maps ?e (pg m) \<longleftrightarrow> m = ?n" if "m < PAGING_PAGES" for m
      using pg_eq_iff [OF that n(1)] n(2) True by (auto simp: maps_def)
    have nz: "mem_map s ?n \<noteq> 0" using mapped_used [OF inv i k n(1)] eq n(1) by simp
    let ?s1 = "set_map ?n (mem_map s ?n - 1) s"
    have fp: "free_page (frame ?e) s = Ret () ?s1"
      using free_page_ok [OF inv _ hi nz] True by simp
    have "0 < unat (mem_map s ?n)" using nz by (simp add: unat_gt_0)
    then have "unat (mem_map ?s1 m) + of_bool (maps ?e (pg m)) + held m
        = unat (mem_map s m) + of_bool (maps 0 (pg m)) + held m" if "m < PAGING_PAGES" for m
      using eq [OF that] unat_u8_dec [OF nz] by auto
    then have "mm_inv held (poke (slot (tbl s i) k) 0 ?s1)"
      by (intro mm_inv_pte [OF inv i k, where v = 0]) (use mm_invD(3) [OF inv] in simp_all)
    then show ?thesis using fp True cl by auto
  qed
qed

lemma cleared_trans:
  assumes "cleared i k l s s1" "cleared i l m s1 s2" "k \<le> l" "l \<le> m" "i \<in> user_dirs"
  shows "cleared i k m s s2"
proof -
  have "tbl s1 i = tbl s i" using assms(1,5) user_dir_less by (simp add: cleared_def tbl_def)
  then show ?thesis
    using assms user_dir_less unfolding cleared_def by auto
qed

lemma free_ptes_ok:
  assumes "mm_inv held s" "i \<in> user_dirs" "present (de s i)" "k + nr \<le> 1024"
  shows "\<exists>s'. free_ptes nr (slot (tbl s i) k) s = Ret () s' \<and> mm_inv held s' \<and> cleared i k (k + nr) s s'"
  using assms
proof (induction nr arbitrary: k s)
  case 0
  then show ?case by (auto simp: cleared_def)
next
  case (Suc nr)
  obtain s1 where s1: "(if present (pte s i k) then free_page (frame (pte s i k)) s else Ret () s) = Ret () s1"
    "mm_inv held (poke (slot (tbl s i) k) 0 s1)" "cleared i k (Suc k) s (poke (slot (tbl s i) k) 0 s1)"
    using free_entry [OF Suc.prems(1,2,3), of k] Suc.prems(4) by auto
  let ?s = "poke (slot (tbl s i) k) 0 s1"
  have d: "present (de ?s i)" "tbl ?s i = tbl s i"
    using s1(3) Suc.prems(2,3) user_dir_less by (simp_all add: cleared_def tbl_def)
  obtain s' where s': "free_ptes nr (slot (tbl ?s i) (Suc k)) ?s = Ret () s'" "mm_inv held s'"
    "cleared i (Suc k) (Suc k + nr) ?s s'"
    using Suc.IH [OF s1(2) Suc.prems(2) d(1), of "Suc k"] Suc.prems(4) by auto
  have "free_ptes (Suc nr) (slot (tbl s i) k) s = Ret () s'"
    using s1(1) s'(1) d(2) by (cases "present (pte s i k)") (simp_all add: pte_def [symmetric] slot_Suc)
  then show ?case
    using s' cleared_trans [OF s1(3) s'(3)] Suc.prems by auto
qed

lemma mm_inv_drop_table:
  assumes inv: "mm_inv held s" and i: "i \<in> user_dirs" "present (de s i)"
    and z: "\<And>j. j < 1024 \<Longrightarrow> pte s i j = 0"
    and n: "n < PAGING_PAGES" "tbl s i = pg n"
    and s': "s' = poke (slot 0 i) 0 (set_map n (mem_map s n - 1) s)"
  shows "k < 1024 \<Longrightarrow> de s' k = (if k = i then 0 else de s k)"
    "k \<in> user_dirs \<Longrightarrow> k \<noteq> i \<Longrightarrow> present (de s k) \<Longrightarrow> l < 1024 \<Longrightarrow> pte s' k l = pte s k l"
    "mm_inv held s'" "mem_map s n = 1"
proof -
  have r: "refs s (pg n) = 1" "held n = 0"
    using mm_inv_table [OF inv i] n pg_eq_iff by metis+
  then have "unat (mem_map s n) = 1" using mm_invD(2) [OF inv n(1)] by simp
  then show one: "mem_map s n = 1" by (metis unat_1 word_unat_eq_iff)
  show d: "de s' k = (if k = i then 0 else de s k)" if "k < 1024" for k
    using that user_dir_less [OF i(1)] by (simp add: de_def s' slot_eq_iff)
  have tk: "tbl s' k = tbl s k" if "k \<in> user_dirs" "k \<noteq> i" for k
    using that d user_dir_less by (simp add: tbl_def)
  show q: "pte s' k l = pte s k l" if "k \<in> user_dirs" "k \<noteq> i" "present (de s k)" "l < 1024" for k l
    using that table_not_dir [OF inv that(1,3)] user_dir_less [OF i(1)]
    by (simp add: pte_def tk, simp add: s' slot_eq_iff)
  have "dcount s' i p = 0" for p using d [OF user_dir_less [OF i(1)]] by (simp add: dcount_def)
  moreover have "dcount s i p = of_bool (p = pg n)" for p
    using i z n by (auto simp: dcount_def tcount_def)
  moreover have "dcount s' k p = dcount s k p" if "k \<in> user_dirs" "k \<noteq> i" for k p
    using that d user_dir_less [OF that(1)] q tk by (auto simp: dcount_def tcount_def)
  then have "refs s' p + dcount s i p = refs s p + dcount s' i p" for p
    unfolding refs_def by (intro sum_change) (use i in auto)
  ultimately have rs: "refs s' p + of_bool (p = pg n) = refs s p" for p by simp
  have "unat (mem_map s' k) = refs s' (pg k) + held k" if k: "k < PAGING_PAGES" for k
    using mm_invD(2) [OF inv k] r rs [of "pg k"] one pg_eq_iff [OF k n(1)] by (auto simp: s')
  moreover have "\<exists>m<PAGING_PAGES. tbl s' k = pg m \<and> refs s' (pg m) = 1 \<and> held m = 0"
    if k: "k \<in> user_dirs" "present (de s' k)" for k
  proof -
    have ne: "k \<noteq> i" using k d [OF user_dir_less [OF i(1)]] by auto
    then have pk: "present (de s k)" using k d user_dir_less by simp
    obtain m where m: "m < PAGING_PAGES" "tbl s k = pg m" "refs s (pg m) = 1" "held m = 0"
      using mm_inv_table [OF inv k(1) pk] .
    have "pg m \<noteq> pg n" using tables_distinct [OF inv k(1) i(1) pk i(2)] ne m n by auto
    then show ?thesis
      using m rs [of "pg m"] tk [OF k(1) ne] by (intro exI [of _ m]) simp
  qed
  moreover have "frame (pte s' k l) < HIGH_MEMORY s'"
    if k: "k \<in> user_dirs" "present (de s' k)" "l < 1024" "present (pte s' k l)" for k l
  proof -
    have ne: "k \<noteq> i" using k d [OF user_dir_less [OF i(1)]] by auto
    then have pk: "present (de s k)" using k d user_dir_less by simp
    then show ?thesis using q [OF k(1) ne pk k(3)] mm_invD(4) [OF inv k(1) pk k(3)] k by (simp add: s')
  qed
  ultimately show "mm_inv held s'"
    unfolding mm_inv_def using mm_invD(1,3) [OF inv] by (auto simp: s')
qed

text \<open>
  \<open>unmapped f m s s'\<close>: directory entries \<open>f, \<dots>, f + m - 1\<close> are empty in \<open>s'\<close>, and
  the other address spaces and all pages but the freed tables are as in \<open>s\<close>.
\<close>

definition unmapped :: "nat \<Rightarrow> nat \<Rightarrow> 'z mm_scheme \<Rightarrow> 'z mm_scheme \<Rightarrow> bool" where
  "unmapped f m s s' \<longleftrightarrow>
     HIGH_MEMORY s' = HIGH_MEMORY s \<and>
     (\<forall>d\<in>user_dirs. if f \<le> d \<and> d < f + m then \<not> present (de s' d) else de s' d = de s d) \<and>
     (\<forall>d\<in>user_dirs. \<forall>j<1024. \<not> (f \<le> d \<and> d < f + m) \<longrightarrow> present (de s d) \<longrightarrow> pte s' d j = pte s d j) \<and>
     (\<forall>a. frame a \<noteq> 0 \<longrightarrow> (\<forall>d. f \<le> d \<and> d < f + m \<and> present (de s d) \<longrightarrow> frame a \<noteq> tbl s d) \<longrightarrow>
        pmem s' a = pmem s a)"

lemma unmapped_Suc:
  assumes "unmapped f 1 s s1" "unmapped (Suc f) m s1 s2" "16 \<le> f" "f + Suc m \<le> 1024"
  shows "unmapped f (Suc m) s s2"
proof -
  have u1: "HIGH_MEMORY s1 = HIGH_MEMORY s" "\<And>d. d \<in> user_dirs \<Longrightarrow> d \<noteq> f \<Longrightarrow> de s1 d = de s d"
    "f \<in> user_dirs \<Longrightarrow> \<not> present (de s1 f)"
    "\<And>d j. d \<in> user_dirs \<Longrightarrow> j < 1024 \<Longrightarrow> d \<noteq> f \<Longrightarrow> present (de s d) \<Longrightarrow> pte s1 d j = pte s d j"
    "\<And>a. frame a \<noteq> 0 \<Longrightarrow> (present (de s f) \<Longrightarrow> frame a \<noteq> tbl s f) \<Longrightarrow> pmem s1 a = pmem s a"
    using assms(1) unfolding unmapped_def by (auto simp: less_Suc_eq_le split: if_splits dest: le_antisym)
  have u2: "HIGH_MEMORY s2 = HIGH_MEMORY s1"
    "\<And>d. d \<in> user_dirs \<Longrightarrow> Suc f \<le> d \<Longrightarrow> d < Suc f + m \<Longrightarrow> \<not> present (de s2 d)"
    "\<And>d. d \<in> user_dirs \<Longrightarrow> \<not> (Suc f \<le> d \<and> d < Suc f + m) \<Longrightarrow> de s2 d = de s1 d"
    "\<And>d j. d \<in> user_dirs \<Longrightarrow> j < 1024 \<Longrightarrow> \<not> (Suc f \<le> d \<and> d < Suc f + m) \<Longrightarrow> present (de s1 d)
      \<Longrightarrow> pte s2 d j = pte s1 d j"
    "\<And>a. frame a \<noteq> 0 \<Longrightarrow> (\<And>d. Suc f \<le> d \<Longrightarrow> d < Suc f + m \<Longrightarrow> present (de s1 d) \<Longrightarrow> frame a \<noteq> tbl s1 d)
      \<Longrightarrow> pmem s2 a = pmem s1 a"
    using assms(2) unfolding unmapped_def by (auto split: if_splits)
  have mem: "pmem s2 a = pmem s a"
    if a: "frame a \<noteq> 0" "\<And>d. f \<le> d \<Longrightarrow> d < f + Suc m \<Longrightarrow> present (de s d) \<Longrightarrow> frame a \<noteq> tbl s d" for a
  proof -
    have "pmem s2 a = pmem s1 a"
    proof (rule u2(5) [OF a(1)])
      fix d assume d: "Suc f \<le> d" "d < Suc f + m" "present (de s1 d)"
      then have "de s1 d = de s d" using assms(3,4) by (intro u1(2)) (auto simp: user_dirs_def)
      then show "frame a \<noteq> tbl s1 d" using a(2) [of d] d by (simp add: tbl_def)
    qed
    also have "\<dots> = pmem s a" by (rule u1(5)) (use a in auto)
    finally show ?thesis .
  qed
  have "\<not> present (de s2 d)" if "d \<in> user_dirs" "f \<le> d" "d < f + Suc m" for d
    using u1(3) u2(2,3) [OF that(1)] that by (cases "d = f") auto
  moreover have "de s2 d = de s d" if "d \<in> user_dirs" "\<not> (f \<le> d \<and> d < f + Suc m)" for d
    using u1(2) [OF that(1)] u2(3) [OF that(1)] that(2) by (cases "d = f") auto
  moreover have "pte s2 d j = pte s d j"
    if "d \<in> user_dirs" "j < 1024" "\<not> (f \<le> d \<and> d < f + Suc m)" "present (de s d)" for d j
    using u1(2,4) u2(4) that by (cases "d = f") auto
  ultimately show ?thesis
    unfolding unmapped_def using u1(1) u2(1) mem by auto
qed

lemma free_dir_ok:
  assumes inv: "mm_inv held s" and f: "f \<in> user_dirs" "present (de s f)"
  shows "\<exists>s1 s2. free_ptes 1024 (tbl s f) s = Ret () s1 \<and> tbl s1 f = tbl s f \<and>
    free_page (tbl s1 f) s1 = Ret () s2 \<and>
    mm_inv held (poke (slot 0 f) 0 s2) \<and> unmapped f 1 s (poke (slot 0 f) 0 s2)"
proof -
  obtain s1 where s1: "free_ptes 1024 (slot (tbl s f) 0) s = Ret () s1" "mm_inv held s1"
    "cleared f 0 (0 + 1024) s s1"
    using free_ptes_ok [OF inv f, of 0 1024] by auto
  have c: "de s1 d = de s d" "tbl s1 d = tbl s d" if "d < 1024" for d
    using s1(3) that by (simp_all add: cleared_def tbl_def)
  have p1: "present (de s1 f)" "tbl s1 f = tbl s f" using c f user_dir_less by simp_all
  obtain n where n: "n < PAGING_PAGES" "tbl s1 f = pg n" "refs s1 (pg n) = 1" "held n = 0"
    using mm_inv_table [OF s1(2) f(1) p1(1)] .
  have z: "pte s1 f j = 0" if "j < 1024" for j using s1(3) f that by (simp add: cleared_def)
  let ?s2 = "set_map n (mem_map s1 n - 1) s1"
  note dt = mm_inv_drop_table [OF s1(2) f(1) p1(1) z n(1,2) refl, simplified]
  have "pg n < HIGH_MEMORY s1" using mm_invD(3) [OF s1(2) n(1)] n(4) by force
  then have fp: "free_page (tbl s1 f) s1 = Ret () ?s2"
    using free_page_ok [OF s1(2), of "pg n"] pg_props [OF n(1)] dt(4) n(2) by simp
  have "unmapped f 1 s (poke (slot 0 f) 0 ?s2)"
    unfolding unmapped_def
  proof (intro conjI ballI allI impI)
    show "HIGH_MEMORY (poke (slot 0 f) 0 ?s2) = HIGH_MEMORY s" using s1(3) by (simp add: cleared_def)
    show "if f \<le> d \<and> d < f + 1 then \<not> present (de (poke (slot 0 f) 0 ?s2) d)
        else de (poke (slot 0 f) 0 ?s2) d = de s d" if "d \<in> user_dirs" for d
      using dt(1) c user_dir_less [OF that] by auto
    show "pte (poke (slot 0 f) 0 ?s2) d j = pte s d j"
      if "d \<in> user_dirs" "j < 1024" "\<not> (f \<le> d \<and> d < f + 1)" "present (de s d)" for d j
      using that dt(2) [OF that(1) _ _ that(2)] c user_dir_less s1(3) by (auto simp: cleared_def)
    show "pmem (poke (slot 0 f) 0 ?s2) a = pmem s a"
      if "frame a \<noteq> 0" "\<forall>d. f \<le> d \<and> d < f + 1 \<and> present (de s d) \<longrightarrow> frame a \<noteq> tbl s d" for a
      using that s1(3) f user_dir_less by (auto simp: cleared_def frame_slot)
  qed
  then show ?thesis using s1(1) p1 fp dt(3) by (auto simp: slot_def)
qed

lemma free_dirs_ok:
  assumes "mm_inv held s" "16 \<le> f" "f + n \<le> 1024"
  shows "\<exists>s'. free_dirs n (slot 0 f) s = Ret () s' \<and> mm_inv held s' \<and> unmapped f n s s'"
  using assms
proof (induction n arbitrary: f s)
  case 0
  then show ?case by (auto simp: unmapped_def)
next
  case (Suc n)
  have f: "f \<in> user_dirs" using Suc.prems by (simp add: user_dirs_def)
  show ?case
  proof (cases "present (de s f)")
    case True
    obtain s1 s2 where s1: "free_ptes 1024 (tbl s f) s = Ret () s1" "tbl s1 f = tbl s f"
      "free_page (tbl s1 f) s1 = Ret () s2" "mm_inv held (poke (slot 0 f) 0 s2)"
      "unmapped f 1 s (poke (slot 0 f) 0 s2)"
      using free_dir_ok [OF Suc.prems(1) f True] by blast
    obtain s' where s': "free_dirs n (slot 0 (Suc f)) (poke (slot 0 f) 0 s2) = Ret () s'"
      "mm_inv held s'" "unmapped (Suc f) n (poke (slot 0 f) 0 s2) s'"
      using Suc.IH [OF s1(4), of "Suc f"] Suc.prems by auto
    have "unmapped f (Suc n) s s'"
      by (rule unmapped_Suc [OF s1(5) s'(3)]) (use Suc.prems in auto)
    then show ?thesis
      using s' s1(1,2,3) True by (simp add: de_def [symmetric] tbl_def [symmetric] slot_Suc)
  next
    case False
    obtain s' where s': "free_dirs n (slot 0 (Suc f)) s = Ret () s'"
      "mm_inv held s'" "unmapped (Suc f) n s s'"
      using Suc.IH [OF Suc.prems(1), of "Suc f"] Suc.prems by auto
    have "unmapped f 1 s s" using False by (auto simp: unmapped_def less_Suc_eq_le dest!: le_antisym)
    then have "unmapped f (Suc n) s s'"
      by (rule unmapped_Suc [OF _ s'(3)]) (use Suc.prems in auto)
    then show ?thesis using s' False by (simp add: de_def [symmetric] slot_Suc)
  qed
qed

end
