(* ===== verification/Memory_Fault.thy ===== *)
theory Memory_Fault
  imports Memory_Free
begin

unbundle bit_operations_syntax

text \<open>
  The page-fault handlers of \<open>src/mm/memory.c\<close> keep the invariant of the
  allocator: \<open>put_page\<close>, \<open>get_empty_page\<close>, \<open>un_wp_page\<close>, \<open>try_to_share\<close>.
\<close>

section \<open>Linear addresses\<close>

definition dirno :: "u32 \<Rightarrow> nat" where
  "dirno a = unat a div 4194304"

definition pteno :: "u32 \<Rightarrow> nat" where
  "pteno a = unat a div 4096 mod 1024"

lemma unat_and_mask: "unat (x AND mask n :: u32) = unat x mod 2 ^ n"
  by (metis take_bit_eq_mask unsigned_take_bit_eq take_bit_eq_mod)

lemma and_ffc: "(x :: u32) AND 0xffc = 4 * (drop_bit 2 x AND 0x3ff)"
proof -
  have m: "(0xffc :: u32) = push_bit 2 (mask 10)" "(0x3ff :: u32) = mask 10"
    by (simp_all add: mask_eq_exp_minus_1 push_bit_eq_mult)
  have "x AND 0xffc = push_bit 2 (drop_bit 2 x AND 0x3ff)"
    unfolding m by (rule bit_word_eqI) (auto simp: bit_simps le_iff_add)
  then show ?thesis by (simp add: push_bit_eq_mult)
qed

lemma and_3ff: "(x :: u32) AND 0x3ff = of_nat (unat x mod 1024)"
proof -
  have "(0x3ff :: u32) = mask 10" by (simp add: mask_eq_exp_minus_1)
  then have "unat (x AND 0x3ff) = unat x mod 1024" using unat_and_mask [of x 10] by simp
  then have "of_nat (unat (x AND 0x3ff)) = (of_nat (unat x mod 1024) :: u32)" by simp
  then show ?thesis by simp
qed

lemma dir_slot: "drop_bit 20 a AND 0xffc = slot 0 (dirno a)"
proof -
  have "unat a div 4194304 < 1024" using unat_u32 [of a] by (simp add: div_less_iff_less_mult)
  then show ?thesis
    by (simp add: and_ffc and_3ff slot_def dirno_def drop_bit_drop_bit unat_drop_div)
qed

lemma pte_slot:
  "t + 4 * (drop_bit 12 a AND 0x3ff) = slot t (pteno a)"
  "(drop_bit 10 a AND 0xffc) + t = slot t (pteno a)"
  "t + (drop_bit 10 a AND 0xffc) = slot t (pteno a)"
  by (simp_all add: and_ffc and_3ff slot_def pteno_def drop_bit_drop_bit unat_drop_div add.commute)

lemma dirno_less [simp]: "dirno a < 1024"
  using unat_u32 [of a] by (simp add: dirno_def div_less_iff_less_mult)

lemma pteno_less [simp]: "pteno a < 1024"
  by (simp add: pteno_def)

lemma user_address: "0x4000000 \<le> a \<Longrightarrow> dirno a \<in> user_dirs"
proof -
  assume "0x4000000 \<le> a"
  then have "0x4000000 \<le> unat a" by (simp add: word_le_nat_alt)
  then have "16 \<le> unat a div 4194304" by (simp add: less_eq_div_iff_mult_less_eq)
  then show ?thesis using dirno_less [of a] by (simp add: user_dirs_def dirno_def)
qed

section \<open>Mapping a page\<close>

text \<open>Memories that agree outside one page that is no page table have the same entries.\<close>

lemma mm_inv_fill:
  assumes inv: "mm_inv held s" and n: "n < PAGING_PAGES"
    "\<And>i. i \<in> user_dirs \<Longrightarrow> present (de s i) \<Longrightarrow> tbl s i \<noteq> pg n"
    and s': "\<And>a. frame a \<noteq> pg n \<Longrightarrow> pmem s' a = pmem s a" "mem_map s' = mem_map s"
      "HIGH_MEMORY s' = HIGH_MEMORY s"
  shows "i < 1024 \<Longrightarrow> de s' i = de s i"
    "i \<in> user_dirs \<Longrightarrow> present (de s i) \<Longrightarrow> j < 1024 \<Longrightarrow> pte s' i j = pte s i j"
    "refs s' p = refs s p" "mm_inv held s'"
proof -
  show d: "de s' i = de s i" if "i < 1024" for i
    using that s'(1) [of "slot 0 i"] pg_props(4) [OF n(1)] by (simp add: de_def frame_slot)
  then have t: "tbl s' i = tbl s i" if "i < 1024" for i using that by (simp add: tbl_def)
  show q: "pte s' i j = pte s i j" if "i \<in> user_dirs" "present (de s i)" "j < 1024" for i j
    using that s'(1) [of "slot (tbl s i) j"] n(2) [OF that(1,2)] t [OF user_dir_less [OF that(1)]]
    by (simp add: pte_def frame_slot)
  show r: "refs s' p = refs s p" for p by (rule same_entries) (use d q in auto)
  show "mm_inv held s'"
    using inv unfolding mm_inv_def r s' by (auto simp: d t q user_dir_less)
qed

text \<open>The number of free pages.\<close>

definition free_pages :: "'z mm_scheme \<Rightarrow> nat" where
  "free_pages s = card {n. n < PAGING_PAGES \<and> mem_map s n = 0}"

lemma free_pages_0: "free_pages s = 0 \<longleftrightarrow> (\<forall>n<PAGING_PAGES. mem_map s n \<noteq> 0)"
  by (auto simp: free_pages_def)

lemma free_pages_taken:
  assumes "m < PAGING_PAGES" "mem_map s m = 0" "mem_map t = (mem_map s)(m := 1)"
  shows "free_pages s = Suc (free_pages t)"
proof -
  have "{n. n < PAGING_PAGES \<and> mem_map s n = 0} = insert m {n. n < PAGING_PAGES \<and> mem_map t n = 0}"
    using assms by auto
  then show ?thesis using assms(3) by (simp add: free_pages_def)
qed

lemma put_page_ok:
  assumes inv: "mm_inv held s" and n: "n < PAGING_PAGES" "0 < held n" "pg n < HIGH_MEMORY s"
    and a: "0x4000000 \<le> address" "\<not> (present (de s (dirno address)) \<and>
      present (pte s (dirno address) (pteno address)))"
  obtains (ok) s' where "put_page (pg n) address s = Ret (pg n) s'"
      "mm_inv (held(n := held n - 1)) s'" "present (de s' (dirno address))"
      "pte s' (dirno address) (pteno address) = pg n OR 7" "mem_map s' n = mem_map s n"
      "\<And>d j. d \<in> user_dirs \<Longrightarrow> present (de s d) \<Longrightarrow> j < 1024 \<Longrightarrow> (d, j) \<noteq> (dirno address, pteno address)
        \<Longrightarrow> pte s' d j = pte s d j"
      "\<And>b. frame b = pg n \<Longrightarrow> pmem s' b = pmem s b" "HIGH_MEMORY s' = HIGH_MEMORY s"
      "\<And>d. d < 1024 \<Longrightarrow> d \<noteq> dirno address \<Longrightarrow> de s' d = de s d"
      "\<And>l. \<not> present (de s (dirno address)) \<Longrightarrow> l < 1024 \<Longrightarrow> l \<noteq> pteno address \<Longrightarrow> pte s' (dirno address) l = 0"
      "\<And>b. frame b \<noteq> 0 \<Longrightarrow> (present (de s (dirno address)) \<Longrightarrow> frame b \<noteq> tbl s (dirno address)) \<Longrightarrow>
        (\<And>k. k < PAGING_PAGES \<Longrightarrow> mem_map s k = 0 \<Longrightarrow> frame b \<noteq> pg k) \<Longrightarrow> pmem s' b = pmem s b"
      "present (de s (dirno address)) \<or> free_pages s \<noteq> 0"
  | (full) "put_page (pg n) address s = Ret 0 s" "\<And>k. k < PAGING_PAGES \<Longrightarrow> mem_map s k \<noteq> 0" "\<not> present (de s (dirno address))"
proof -
  let ?i = "dirno address" and ?j = "pteno address" and ?v = "pg n OR 7"
  note i = user_address [OF a(1)] and j = pteno_less [of address]
  note v = frame_present_or7 [OF pg_props(1) [OF n(1)]]
  have mv: "maps ?v p \<longleftrightarrow> p = pg n" for p using v by (auto simp: maps_def)
  have step: "mm_inv (held(n := held n - 1)) (poke (slot (tbl t ?i) ?j) ?v t)"
    if t: "mm_inv held t" "present (de t ?i)" "\<not> present (pte t ?i ?j)" "HIGH_MEMORY t = HIGH_MEMORY s"
    for t
  proof (rule mm_inv_pte [OF t(1) i t(2) j, where v = ?v])
    show "tbl t k \<noteq> frame ?v" if "present ?v" "k \<in> user_dirs" "present (de t k)" for k
      using mm_inv_table [OF t(1) that(2,3)] n v(1) pg_eq_iff by (metis less_numeral_extra(3))
    show "unat (mem_map (poke (slot (tbl t ?i) ?j) ?v t) m) + of_bool (maps (pte t ?i ?j) (pg m)) + held m
       = unat (mem_map t m) + of_bool (maps ?v (pg m)) + (held(n := held n - 1)) m"
      if "m < PAGING_PAGES" for m
      using that n t(3) by (auto simp: mv pg_eq_iff maps_def [of "pte t ?i ?j"])
    show "0 < (held(n := held n - 1)) m" if "m < PAGING_PAGES" "HIGH_MEMORY t \<le> pg m" for m
      using that n(3) t(4) mm_invD(3) [OF t(1) that] by (auto simp: linorder_not_less [symmetric])
    show "(held(n := held n - 1)) m = held m"
      if "k \<in> user_dirs" "present (de t k)" "m < PAGING_PAGES" "tbl t k = pg m" for k m
      using mm_inv_table [OF t(1) that(1,2)] that n pg_eq_iff by (metis fun_upd_other less_numeral_extra(3))
  qed (use v t n in simp_all)
  have nr: "\<not> PAGING_PAGES \<le> MAP_NR (pg n)" using pg_props(2) [OF n(1)] n(1) by simp
  show thesis
  proof (cases "present (de s ?i)")
    case True
    note e = entries_poke_pte [OF inv i True j, where v = ?v]
    have nt: "frame (slot (tbl s ?i) ?j) \<noteq> pg n"
      using mm_inv_table [OF inv i True] n pg_eq_iff frame_slot [OF frame_tbl j]
      by (metis less_numeral_extra(3))
    have np: "\<not> present (pte s ?i ?j)" using a(2) True by simp
    show thesis
      by (rule ok [OF _ step [OF inv True np refl]])
        (use True nr nt e i frame_slot [OF frame_tbl j, of s ?i] in \<open>auto simp: put_page_def dir_slot pte_slot Let_def
          de_def [symmetric] tbl_def [symmetric]\<close>)
  next
    case False
    show thesis
    proof (cases rule: get_free_page_cases [of s])
      case full
      show thesis
        by (rule that(2)) (use full nr False in \<open>auto simp: put_page_def dir_slot pte_slot Let_def de_def [symmetric]\<close>)
    next
      case (page k)
      let ?s1 = "s\<lparr>mem_map := (mem_map s)(k := 1),
        pmem := (\<lambda>a. if frame a = pg k then 0 else pmem s a)\<rparr>"
      let ?s2 = "poke (slot 0 ?i) (pg k OR 7) ?s1"
      note al = mm_inv_alloc [OF inv page(1,2) refl]
      have kn: "k \<noteq> n" using al(2) n by auto
      have r1: "refs ?s1 (pg k) = 0" using al(1,6) by simp
      note nt = mm_inv_new_table [OF al(7) page(1) _ r1, OF _ _ _ i _ refl, simplified]
      have np: "\<not> present (de ?s1 ?i)" using al(4) False by simp
      note nt = nt [OF al(3) np]
      have inv2: "mm_inv held ?s2" using nt(7) al(2) by (simp add: fun_upd_idem)
      have p2: "\<not> present (pte ?s2 ?i ?j)" using nt(4) [OF j] by simp
      note e = entries_poke_pte [OF inv2 i nt(3) j, where v = ?v]
      have eqs: "put_page (pg n) address s = Ret (pg n) (poke (slot (tbl ?s2 ?i) ?j) ?v ?s2)"
        using page nr False nt(2) pg_props(4) [OF page(1)]
        by (simp add: put_page_def dir_slot pte_slot Let_def de_def [symmetric])
      have others: "pte (poke (slot (tbl ?s2 ?i) ?j) ?v ?s2) d l = pte s d l"
        if d: "d \<in> user_dirs" "present (de s d)" "l < 1024" "(d, l) \<noteq> (?i, ?j)" for d l
      proof -
        have p1: "present (de ?s1 d)" using al(4) [OF user_dir_less [OF d(1)]] d(2) by simp
        have "d \<noteq> ?i" using d(2) False by auto
        then have "present (de ?s2 d)" using nt(1) [OF user_dir_less [OF d(1)]] p1 by simp
        then show ?thesis
          using e(3) [OF d(1) _ d(3)] d(4) nt(5) [OF d(1) p1 d(3)] al(5) [OF d(1,2,3)] by auto
      qed
      have mem: "pmem (poke (slot (tbl ?s2 ?i) ?j) ?v ?s2) b = pmem s b" if b: "frame b = pg n" for b
      proof -
        have "pg n \<noteq> pg k" using kn pg_eq_iff n(1) page(1) by simp
        then have "b \<noteq> slot (tbl ?s2 ?i) ?j" "b \<noteq> slot 0 ?i" "frame b \<noteq> pg k"
          using b frame_slot [OF frame_tbl j, of ?s2 ?i] nt(2) frame_slot [of 0 ?i] pg_props(4) [OF n(1)]
          by auto
        then show ?thesis by simp
      qed
      let ?s3 = "poke (slot (tbl ?s2 ?i) ?j) ?v ?s2"
      have dirs: "de ?s3 d = de s d" if "d < 1024" "d \<noteq> ?i" for d
        using that e(1) [OF that(1)] nt(1) [OF that(1)] al(4) [OF that(1)] by simp
      have rest: "pte ?s3 ?i l = 0" if "l < 1024" "l \<noteq> ?j" for l
        using that e(3) [OF i nt(3) that(1)] nt(4) [OF that(1)] by simp
      have out: "pmem ?s3 b = pmem s b"
        if b: "frame b \<noteq> 0" "\<And>k. k < PAGING_PAGES \<Longrightarrow> mem_map s k = 0 \<Longrightarrow> frame b \<noteq> pg k" for b
      proof -
        have "frame b \<noteq> pg k" by (rule b(2) [OF page(1,2)])
        then have "b \<noteq> slot (tbl ?s2 ?i) ?j" "b \<noteq> slot 0 ?i" "frame b \<noteq> pg k"
          using b(1) frame_slot [OF frame_tbl j, of ?s2 ?i] nt(2) frame_slot [of 0 ?i] by auto
        then show ?thesis by simp
      qed
      have some: "free_pages s \<noteq> 0" using page(1,2) by (auto simp: free_pages_0)
      show thesis
        by (rule ok [OF eqs step [OF inv2 nt(3) p2]])
          (use e i nt(3) kn others mem dirs rest out some in auto)
    qed
  qed
qed

text \<open>
  \<open>sole_new i j s s'\<close>: of the entries of the user page tables only \<open>j\<close> of table \<open>i\<close> differs, a table that is new is empty but for
  it, and only that table, the directory and free pages change their contents.
\<close>

definition sole_new :: "nat \<Rightarrow> nat \<Rightarrow> 'z mm_scheme \<Rightarrow> 'z mm_scheme \<Rightarrow> bool" where
  "sole_new i j s s' \<longleftrightarrow>
     (\<forall>d<1024. d \<noteq> i \<longrightarrow> de s' d = de s d) \<and>
     (\<forall>d\<in>user_dirs. \<forall>l<1024. present (de s d) \<longrightarrow> (d, l) \<noteq> (i, j) \<longrightarrow> pte s' d l = pte s d l) \<and>
     (\<not> present (de s i) \<longrightarrow> (\<forall>l<1024. l \<noteq> j \<longrightarrow> pte s' i l = 0)) \<and>
     (\<forall>b. frame b \<noteq> 0 \<longrightarrow> (present (de s i) \<longrightarrow> frame b \<noteq> tbl s i) \<longrightarrow>
        (\<forall>k<PAGING_PAGES. mem_map s k = 0 \<longrightarrow> frame b \<noteq> pg k) \<longrightarrow> pmem s' b = pmem s b)"

lemma get_empty_page_ok:
  assumes inv: "mm_inv held s"
    and a: "0x4000000 \<le> address" "\<not> (present (de s (dirno address)) \<and>
      present (pte s (dirno address) (pteno address)))"
  obtains (ok) n s' where "get_empty_page address s = Ret () s'" "mm_inv held s'" "n < PAGING_PAGES"
      "mem_map s n = 0" "mem_map s' n = 1" "present (de s' (dirno address))"
      "pte s' (dirno address) (pteno address) = pg n OR 7"
      "\<And>b. frame b = pg n \<Longrightarrow> pmem s' b = 0" "sole_new (dirno address) (pteno address) s s'"
      "(if present (de s (dirno address)) then 1 else 2) \<le> free_pages s"
  | (oom) s' where "get_empty_page address s = Exits 11 s'" "mm_inv held s'" "mem_map s' = mem_map s"
      "\<And>d. d < 1024 \<Longrightarrow> de s' d = de s d"
      "\<And>d l. d \<in> user_dirs \<Longrightarrow> present (de s d) \<Longrightarrow> l < 1024 \<Longrightarrow> pte s' d l = pte s d l"
      "free_pages s < (if present (de s (dirno address)) then 1 else 2)"
proof (cases rule: get_free_page_cases [of s])
  case full
  then have "free_pages s = 0" by (simp add: free_pages_0)
  then show thesis
    using full inv by (intro oom [of s]) (simp_all add: get_empty_page_def Let_def free_page_def)
next
  case (page n)
  let ?s1 = "s\<lparr>mem_map := (mem_map s)(n := 1),
    pmem := (\<lambda>a. if frame a = pg n then 0 else pmem s a)\<rparr>"
  let ?i = "dirno address" and ?j = "pteno address"
  note al = mm_inv_alloc [OF inv page(1,2) refl]
  have a1: "\<not> (present (de ?s1 ?i) \<and> present (pte ?s1 ?i ?j))"
    using al(4) al(5) [OF user_address [OF a(1)]] a(2) by auto
  have h: "0 < (held(n := 1)) n" and hi: "pg n < HIGH_MEMORY ?s1" using al(3) by simp_all
  have d1: "de ?s1 ?i = de s ?i" "tbl ?s1 ?i = tbl s ?i" using al(4) by (simp_all add: tbl_def)
  have fr: "free_pages s = Suc (free_pages ?s1)" by (rule free_pages_taken [OF page(1,2)]) simp
  show thesis
  proof (cases rule: put_page_ok [OF al(7) page(1) h hi a(1) a1])
    case (1 s')
    have "(held(n := 1))(n := (held(n := 1)) n - 1) = held" using al(2) by auto
    then have "mm_inv held s'" using 1(2) by (simp only:)
    moreover have "sole_new ?i ?j s s'" unfolding sole_new_def
    proof (intro conjI allI impI ballI)
      show "pte s' d l = pte s d l" if "d \<in> user_dirs" "l < 1024" "present (de s d)" "(d, l) \<noteq> (?i, ?j)" for d l
      proof -
        have "present (de ?s1 d)" using al(4) [OF user_dir_less [OF that(1)]] that(3) by simp
        then show ?thesis using 1(6) [OF that(1) _ that(2,4)] al(5) [OF that(1,3,2)] by simp
      qed
      show "pmem s' b = pmem s b" if b: "frame b \<noteq> 0" "present (de s ?i) \<longrightarrow> frame b \<noteq> tbl s ?i"
        "\<forall>k<PAGING_PAGES. mem_map s k = 0 \<longrightarrow> frame b \<noteq> pg k" for b
      proof -
        have "pmem s' b = pmem ?s1 b"
          by (rule 1(11)) (use b d1 in \<open>auto split: if_splits\<close>)
        moreover have "frame b \<noteq> pg n" using b(3) page(1,2) by blast
        ultimately show ?thesis by simp
      qed
    qed (use 1(9,10) al(4) d1 in auto)
    moreover have "(if present (de s ?i) then 1 else 2) \<le> free_pages s" using 1(12) fr d1 by auto
    ultimately show thesis
      using 1 page pg_props(4) [OF page(1)] by (intro that(1) [of s' n]) (simp_all add: get_empty_page_def Let_def)
  next
    case 2
    let ?s2 = "set_map n 0 ?s1"
    have "free_page (pg n) ?s1 = Ret () ?s2"
      using free_page_ok [OF al(7), of "pg n"] pg_props [OF page(1)] hi by simp
    then have e: "get_empty_page address s = Exits 11 ?s2"
      using page 2 pg_props(4) [OF page(1)] by (simp add: get_empty_page_def Let_def)
    let ?t = "s\<lparr>pmem := (\<lambda>a. if frame a = pg n then 0 else pmem s a)\<rparr>"
    have "?s2 = ?t"
      using page(2) by (simp add: set_map_def fun_upd_idem)
    moreover note fill = mm_inv_fill [OF inv page(1) free_not_table [OF inv page(1) al(1)], of ?t, simplified]
    moreover have "free_pages ?s1 = 0" using 2(2) by (auto simp: free_pages_0)
    then have "free_pages s < (if present (de s ?i) then 1 else 2)" using fr d1(1) 2(3) by simp
    ultimately show thesis using e by (intro that(2) [of ?t]) simp_all
  qed
qed

section \<open>Write faults\<close>

lemma refs_one:
  assumes inv: "mm_inv held s" and i: "i \<in> user_dirs" "present (de s i)" and j: "j < 1024"
    and n: "n < PAGING_PAGES" "maps (pte s i j) (pg n)" "mem_map s n = 1"
  shows "refs s (pg n) = 1"
proof -
  have "1 \<le> dcount s i (pg n)" using tcount_ge [OF j n(2)] i by (simp add: dcount_def)
  then have "1 \<le> refs s (pg n)" using refs_ge [OF i(1), of s "pg n"] by simp
  then show ?thesis using mm_invD(2) [OF inv n(1)] n(3) by simp
qed

text \<open>What the writer gets: a private, writable page with the old contents.\<close>

definition own_copy :: "nat \<Rightarrow> nat \<Rightarrow> 'z mm_scheme \<Rightarrow> 'z mm_scheme \<Rightarrow> bool" where
  "own_copy i j s s' \<longleftrightarrow>
     present (pte s' i j) \<and> bit (pte s' i j) 1 \<and>
     refs s' (frame (pte s' i j)) = 1 \<and>
     (\<forall>k<1024. pmem s' (slot (frame (pte s' i j)) k) = pmem s (slot (frame (pte s i j)) k)) \<and>
     (\<forall>d<1024. de s' d = de s d) \<and>
     (\<forall>d\<in>user_dirs. \<forall>l<1024. present (de s d) \<longrightarrow> (d, l) \<noteq> (i, j) \<longrightarrow> pte s' d l = pte s d l)"

lemma bit_or_1: "bit (x OR 2 :: u32) 1" "bit (x OR 7 :: u32) 1"
proof -
  have "(2 :: u32) = push_bit 1 1" "(7 :: u32) = mask 3" by (simp_all add: mask_eq_exp_minus_1)
  then show "bit (x OR 2 :: u32) 1" "bit (x OR 7 :: u32) 1" by (simp_all add: bit_simps)
qed

lemma slot_low: "frame t = t \<Longrightarrow> k < 1024 \<Longrightarrow> slot t k AND 0xfff = of_nat (4 * k)"
proof -
  assume a: "frame t = t" "k < 1024"
  obtain q where q: "unat t = 4096 * q" using a(1) by (rule alignedE)
  have "unat (slot t k AND 0xfff) = unat (slot t k) mod 4096"
    using unat_and_mask [of "slot t k" 12] by (simp add: low_mask)
  also have "\<dots> = 4 * k" using a(2) by (simp add: unat_slot a q)
  finally have "(of_nat (unat (slot t k AND 0xfff)) :: u32) = of_nat (4 * k)" by simp
  then show ?thesis by simp
qed

lemma copy_page_slot: "frame q = q \<Longrightarrow> k < 1024 \<Longrightarrow> pmem (copy_page p q t) (slot q k) = pmem t (slot p k)"
  by (simp add: copy_page_def frame_slot slot_low) (simp add: slot_def)

lemma un_wp_page_ok:
  assumes inv: "mm_inv held s" and i: "i \<in> user_dirs" "present (de s i)" and j: "j < 1024"
    and e: "present (pte s i j)"
  obtains (ok) s' where "un_wp_page (slot (tbl s i) j) s = Ret () s'" "mm_inv held s'" "own_copy i j s s'"
  | (oom) "un_wp_page (slot (tbl s i) j) s = Exits 11 s" "\<And>k. k < PAGING_PAGES \<Longrightarrow> mem_map s k \<noteq> 0"
proof -
  let ?e = "pte s i j" and ?p = "frame (pte s i j)" and ?a = "slot (tbl s i) j"
  have hi: "?p < HIGH_MEMORY s" using mm_invD(4) [OF inv i j e] .
  have nt: "tbl s d \<noteq> ?p" if "d \<in> user_dirs" "present (de s d)" for d
    using pte_not_table [OF inv that(1) i(1) that(2) i(2) j e] by simp
  have pe: "pmem s ?a = ?e" by (simp add: pte_def)
  have nr: "MAP_NR ?p < PAGING_PAGES" "pg (MAP_NR ?p) = ?p" if "LOW_MEM \<le> ?p"
    using entry_page [of ?p s] that hi mm_invD(1) [OF inv] by simp_all
  show thesis
  proof (cases "LOW_MEM \<le> ?p \<and> mem_map s (MAP_NR ?p) = 1")
    case True
    let ?s' = "poke ?a (?e OR 2) s"
    note en = entries_poke_pte [OF inv i j, where v = "?e OR 2"]
    have mm: "maps (?e OR 2) q = maps ?e q" for q
      by (simp add: maps_def)
    have "mm_inv held ?s'"
      by (rule mm_inv_pte [OF inv i j, where v = "?e OR 2"])
        (use nt hi e mm mm_invD(3) [OF inv] in simp_all)
    moreover have "own_copy i j s ?s'"
    proof -
      have r: "refs s ?p = 1"
        using refs_one [OF inv i j nr(1)] nr(2) True e by (simp add: maps_def)
      have "refs ?s' ?p = 1"
        using refs_poke_pte [OF inv i j, where v = "?e OR 2" and p = ?p] r by (simp add: mm)
      moreover have "slot ?p k \<noteq> ?a" if "k < 1024" for k
        using nt [OF i] that j by (auto simp: slot_eq_iff)
      moreover have "pte ?s' i j = ?e OR 2" using en(3) [OF i j] by simp
      ultimately show ?thesis
        unfolding own_copy_def using en e bit_or_1 by simp
    qed
    moreover have "un_wp_page ?a s = Ret () ?s'"
      using True nr pe by (simp add: un_wp_page_def Let_def)
    ultimately show thesis by (rule ok [rotated])
  next
    case shared: False
    have uw: "un_wp_page ?a s = (let (new_page, s1) = get_free_page s
           in if new_page = 0 then Exits (int SIGSEGV) s1
              else let s2 = (if ?p \<ge> LOW_MEM
                             then set_map (MAP_NR ?p) (mem_map s1 (MAP_NR ?p) - 1) s1 else s1)
                   in Ret () (copy_page ?p new_page (poke ?a (new_page OR 7) s2)))"
      using shared nr pe by (auto simp: un_wp_page_def Let_def)
    show thesis
    proof (cases rule: get_free_page_cases [of s])
      case full
      show thesis by (rule oom) (use full uw in simp_all)
    next
      case (page n)
      let ?s1 = "s\<lparr>mem_map := (mem_map s)(n := 1),
        pmem := (\<lambda>a. if frame a = pg n then 0 else pmem s a)\<rparr>"
      let ?v = "pg n OR 7"
      let ?s2 = "if ?p \<ge> LOW_MEM then set_map (MAP_NR ?p) (mem_map ?s1 (MAP_NR ?p) - 1) ?s1 else ?s1"
      let ?s3 = "poke ?a ?v ?s2"
      let ?s' = "copy_page ?p (pg n) ?s3"
      note al = mm_inv_alloc [OF inv page(1,2) refl]
      note v = frame_present_or7 [OF pg_props(1) [OF page(1)]]
      have d1: "present (de ?s1 i)" "pte ?s1 i j = ?e" "tbl ?s1 i = tbl s i"
        using al(4) [OF user_dir_less [OF i(1)]] al(5) [OF i j] i(2) by (simp_all add: tbl_def)
      have ntn: "tbl s d \<noteq> pg n" if "d \<in> user_dirs" "present (de s d)" for d
        using free_not_table [OF inv page(1) al(1) that] .
      have ntn1: "tbl ?s1 d \<noteq> pg n" if "d \<in> user_dirs" "present (de ?s1 d)" for d
        using ntn [OF that(1)] that(2) al(4) [OF user_dir_less [OF that(1)]] by (simp add: tbl_def)
      have new: "?p \<noteq> pg n"
        using mapped_used [OF inv i j page(1)] page(2) e by (auto simp: maps_def)
      have cnt: "unat (mem_map ?s3 m) + of_bool (maps (pte ?s1 i j) (pg m)) + (held(n := 1)) m
          = unat (mem_map ?s1 m) + of_bool (maps ?v (pg m)) + held m" if m: "m < PAGING_PAGES" for m
      proof -
        have 1: "maps ?v (pg m) \<longleftrightarrow> m = n" using v page(1) m by (auto simp: maps_def pg_eq_iff)
        have 2: "maps ?e (pg m) \<longleftrightarrow> LOW_MEM \<le> ?p \<and> m = MAP_NR ?p"
          using e nr m pg_props(2,3) by (auto simp: maps_def)
        have 3: "mem_map s m \<noteq> 0" if "maps ?e (pg m)" using mapped_used [OF inv i j m that] .
        have 4: "m \<noteq> n" if "maps ?e (pg m)" using that new page(1) by (auto simp: maps_def)
        show ?thesis
        proof (cases "maps ?e (pg m)")
          case True
          then show ?thesis
            using 1 2 3 4 unat_u8_dec [OF 3] unat_gt_0 [of "mem_map s m"] d1(2) by simp
        next
          case False
          then show ?thesis using 1 2 al(2) d1(2) by (auto simp: set_map_def poke_def)
        qed
      qed
      have "mm_inv held ?s3"
        by (rule mm_inv_pte [OF al(7) i(1) d1(1) j, where v = ?v])
          (use v al(3) ntn1 cnt mm_invD(3) [OF inv] al(2) d1(3) in auto)
      note inv3 = this
      have e3: "de ?s3 d = de s d" "tbl ?s3 d = tbl s d" if "d < 1024" for d
      proof -
        show "de ?s3 d = de s d"
          using al(4) [OF that] table_not_dir [OF inv i] that j by (auto simp: de_def slot_eq_iff)
        then show "tbl ?s3 d = tbl s d" by (simp add: tbl_def)
      qed
      have q3: "pte ?s3 d l = (if (d, l) = (i, j) then ?v else pte s d l)"
        if "d \<in> user_dirs" "present (de s d)" "l < 1024" for d l
      proof -
        have "pte ?s3 d l = (if (d, l) = (i, j) then ?v else pmem ?s1 (slot (tbl s d) l))"
          using tables_distinct [OF inv that(1) i(1) that(2) i(2)] that(3) j e3 [OF user_dir_less [OF that(1)]]
          by (auto simp: pte_def slot_eq_iff)
        also have "pmem ?s1 (slot (tbl s d) l) = pte s d l"
          using ntn [OF that(1,2)] that(3) by (simp add: pte_def frame_slot)
        finally show ?thesis .
      qed
      have ntn3: "tbl ?s3 d \<noteq> pg n" if "d \<in> user_dirs" "present (de ?s3 d)" for d
        using ntn [OF that(1)] that(2) e3 user_dir_less [OF that(1)] by simp
      note fill = mm_inv_fill [OF inv3 page(1) ntn3, where s' = ?s',
          unfolded copy_page_def, simplified, folded copy_page_def]
      have r3: "refs ?s3 (pg n) = 1"
        using mm_invD(2) [OF inv3 page(1)] al(2) new nr pg_eq_iff page(1) by (auto simp: pg_props)
      have fe: "pte ?s' i j = ?v"
        using fill(2) [OF i(1) _ j] e3(1) [OF user_dir_less [OF i(1)]] i(2) q3 [OF i j] by simp
      have "own_copy i j s ?s'"
        unfolding own_copy_def fe
      proof (intro conjI allI ballI impI)
        show "pmem ?s' (slot (frame ?v) k) = pmem s (slot ?p k)" if k: "k < 1024" for k
        proof -
          have "pmem ?s' (slot (frame ?v) k) = pmem ?s3 (slot ?p k)"
            unfolding v(1) by (rule copy_page_slot [OF pg_props(1) [OF page(1)] k])
          also have "\<dots> = pmem s (slot ?p k)"
            using k new nt [OF i] j by (auto simp: slot_eq_iff frame_slot)
          finally show ?thesis .
        qed
        show "pte ?s' d l = pte s d l"
          if "d \<in> user_dirs" "l < 1024" "present (de s d)" "(d, l) \<noteq> (i, j)" for d l
          using fill(2) [OF that(1) _ that(2)] that q3 e3 user_dir_less by auto
      qed (use v bit_or_1 fill(1,3) r3 e3 in simp_all)
      moreover have "un_wp_page ?a s = Ret () ?s'"
        using uw page(3) pg_props(4) [OF page(1)] by (simp add: Let_def)
      ultimately show thesis using fill(4) ok by blast
    qed
  qed
qed

end
