(* ===== verification/Paging.thy ===== *)
theory Paging
  imports Memory_Fault
begin

unbundle bit_operations_syntax

text \<open>
  The theorems on \<open>src/mm/memory.c\<close>: the page allocator as an interface, and the
  behaviour of fork, exit and page faults on address spaces.
\<close>

section \<open>The page allocator as an interface\<close>

text \<open>
  What fork, exec, pipes and the fault handlers rely on: a page handed out was
  free and is now used once, nothing else changes hands, and releasing a used
  page drops one use and never fails.
\<close>

primrec alloc_many :: "('s \<Rightarrow> u32 \<times> 's) \<Rightarrow> nat \<Rightarrow> 's \<Rightarrow> u32 list \<times> 's" where
  "alloc_many alloc 0 s = ([], s)"
| "alloc_many alloc (Suc n) s =
     (let (p, s1) = alloc s; (ps, s2) = alloc_many alloc n s1 in (p # ps, s2))"

locale page_pool =
  fixes alloc :: "'s \<Rightarrow> u32 \<times> 's"
    and release :: "u32 \<Rightarrow> 's \<Rightarrow> ('s, unit) outcome"
    and users :: "'s \<Rightarrow> u32 \<Rightarrow> nat"
    and ok :: "'s \<Rightarrow> bool"
  assumes alloc_page: "ok s \<Longrightarrow> alloc s = (p, s') \<Longrightarrow> p \<noteq> 0 \<Longrightarrow>
      users s p = 0 \<and> users s' = (users s)(p := 1) \<and> ok s'"
    and alloc_none: "ok s \<Longrightarrow> alloc s = (0, s') \<Longrightarrow> s' = s"
    and release_page: "ok s \<Longrightarrow> 0 < users s p \<Longrightarrow>
      \<exists>s'. release p s = Ret () s' \<and> users s' = (users s)(p := users s p - 1) \<and> ok s'"
begin

lemma alloc_release:
  assumes "ok s" "alloc s = (p, s1)" "p \<noteq> 0"
  shows "\<exists>s2. release p s1 = Ret () s2 \<and> users s2 = users s \<and> ok s2"
proof -
  note a = alloc_page [OF assms]
  obtain s2 where s2: "release p s1 = Ret () s2" "users s2 = (users s1)(p := users s1 p - 1)" "ok s2"
    using release_page [of s1 p] a by auto
  have "users s2 = users s" using a s2(2) by auto
  then show ?thesis using s2 by blast
qed

lemma alloc_many_distinct:
  assumes "ok s" "alloc_many alloc n s = (ps, s')" "0 \<notin> set ps"
  shows "distinct ps \<and> length ps = n \<and> ok s' \<and>
    (\<forall>p. users s' p = (if p \<in> set ps then 1 else users s p)) \<and> (\<forall>p\<in>set ps. users s p = 0)"
  using assms
proof (induction n arbitrary: s ps)
  case (Suc n)
  obtain p s1 where p: "alloc s = (p, s1)" by force
  obtain qs where q: "alloc_many alloc n s1 = (qs, s')" "ps = p # qs"
    using Suc.prems(2) p by (auto split: prod.splits)
  note a = alloc_page [OF Suc.prems(1) p]
  have ih: "distinct qs \<and> length qs = n \<and> ok s' \<and>
    (\<forall>p. users s' p = (if p \<in> set qs then 1 else users s1 p)) \<and> (\<forall>p\<in>set qs. users s1 p = 0)"
    using Suc.IH [OF _ q(1)] a Suc.prems(3) q(2) by auto
  then have "p \<notin> set qs" using a Suc.prems(3) q(2) by auto
  then show ?case using ih a Suc.prems(3) q(2) by (auto split: if_splits)
qed simp

end

definition page_users :: "'z mm_scheme \<Rightarrow> u32 \<Rightarrow> nat" where
  "page_users s p =
     (if LOW_MEM \<le> p \<and> p < HIGH_MEMORY s \<and> frame p = p then unat (mem_map s (MAP_NR p)) else 0)"

definition map_ok :: "'z mm_scheme \<Rightarrow> bool" where
  "map_ok s \<longleftrightarrow> HIGH_MEMORY s \<le> 0x1000000 \<and>
     (\<forall>n<PAGING_PAGES. HIGH_MEMORY s \<le> pg n \<longrightarrow> mem_map s n \<noteq> 0)"

lemma page_users_pg:
  "n < PAGING_PAGES \<Longrightarrow> page_users s (pg n) = (if pg n < HIGH_MEMORY s then unat (mem_map s n) else 0)"
  by (simp add: page_users_def pg_props)

lemma page_users_upd:
  assumes "map_ok s" "n < PAGING_PAGES" "pg n < HIGH_MEMORY s"
    "HIGH_MEMORY s' = HIGH_MEMORY s" "mem_map s' = (mem_map s)(n := x)"
  shows "page_users s' = (page_users s)(pg n := unat x)"
proof (rule ext)
  fix p show "page_users s' p = ((page_users s)(pg n := unat x)) p"
  proof (cases "LOW_MEM \<le> p \<and> p < HIGH_MEMORY s \<and> frame p = p")
    case True
    then have "MAP_NR p = n \<longleftrightarrow> p = pg n" using pg_MAP_NR [of p] pg_props(2) [OF assms(2)] by auto
    then show ?thesis using True assms by (auto simp: page_users_def)
  next
    case False
    then show ?thesis using assms pg_props [OF assms(2)] by (auto simp: page_users_def)
  qed
qed

interpretation frames: page_pool get_free_page free_page page_users map_ok
proof unfold_locales
  fix s s' :: "'a mm_scheme" and p
  assume ok: "map_ok s" and al: "get_free_page s = (p, s')" and nz: "p \<noteq> 0"
  show "page_users s p = 0 \<and> page_users s' = (page_users s)(p := 1) \<and> map_ok s'"
  proof (cases rule: get_free_page_cases [of s])
    case full
    then show ?thesis using al nz by simp
  next
    case (page n)
    have hi: "pg n < HIGH_MEMORY s" using ok page by (force simp: map_ok_def linorder_not_le [symmetric])
    have "page_users s' = (page_users s)(pg n := unat (1 :: u8))"
      by (rule page_users_upd [OF ok page(1) hi]) (use al page in auto)
    then show ?thesis using al page ok hi by (auto simp: page_users_pg map_ok_def split: if_splits)
  qed
next
  fix s s' :: "'a mm_scheme"
  assume "map_ok s" "get_free_page s = (0, s')"
  then show "s' = s" by (cases rule: get_free_page_cases [of s]) (auto simp: pg_props)
next
  fix s :: "'a mm_scheme" and p
  assume ok: "map_ok s" and u: "0 < page_users s p"
  then have p: "LOW_MEM \<le> p" "p < HIGH_MEMORY s" "frame p = p" "mem_map s (MAP_NR p) \<noteq> 0"
    by (auto simp: page_users_def split: if_splits)
  have n: "MAP_NR p < PAGING_PAGES" using MAP_NR_less [OF p(1)] p(2) ok by (auto simp: map_ok_def)
  have e: "pg (MAP_NR p) = p" using pg_MAP_NR [OF p(1)] p(3) by simp
  let ?s = "set_map (MAP_NR p) (mem_map s (MAP_NR p) - 1) s"
  have "free_page p s = Ret () ?s" using p n by (auto simp: free_page_def Let_def MAP_NR_def)
  moreover have "page_users ?s = (page_users s)(pg (MAP_NR p) := unat (mem_map s (MAP_NR p) - 1))"
    by (rule page_users_upd [OF ok n]) (use p e in simp_all)
  moreover have "map_ok ?s" using ok n p(2) e by (auto simp: map_ok_def)
  ultimately show "\<exists>s'. free_page p s = Ret () s' \<and> page_users s' = (page_users s)(p := page_users s p - 1) \<and> map_ok s'"
    using p e unat_u8_dec [OF p(4)] by (simp add: page_users_def)
qed

section \<open>Address spaces\<close>

text \<open>The page that directory entry \<open>i\<close>, table entry \<open>j\<close> maps, and whether it is writable.\<close>

definition lookup :: "'z mm_scheme \<Rightarrow> nat \<Rightarrow> nat \<Rightarrow> u32 option" where
  "lookup s i j = (if present (de s i) \<and> present (pte s i j) then Some (frame (pte s i j)) else None)"

definition writable :: "'z mm_scheme \<Rightarrow> nat \<Rightarrow> nat \<Rightarrow> bool" where
  "writable s i j \<longleftrightarrow> bit (pte s i j) 1"

definition dirs_of :: "u32 \<Rightarrow> nat" where
  "dirs_of sz = unat (drop_bit 22 (sz + 0x3fffff))"

text \<open>
  What \<open>copy_page_tables\<close> may assume of its caller, \<open>copy_mem\<close>: both ranges are
  in user space, whole 4MB blocks, disjoint, the destination is unmapped, and no
  page has so many users that its byte could overflow.
\<close>

definition copy_ready :: "u32 \<Rightarrow> u32 \<Rightarrow> u32 \<Rightarrow> 'z mm_scheme \<Rightarrow> bool" where
  "copy_ready from to sz s \<longleftrightarrow>
     from AND 0x3fffff = 0 \<and> to AND 0x3fffff = 0 \<and> 0x4000000 \<le> from \<and> 0x4000000 \<le> to \<and>
     dirno from + dirs_of sz \<le> 1024 \<and> dirno to + dirs_of sz \<le> 1024 \<and>
     (dirno from + dirs_of sz \<le> dirno to \<or> dirno to + dirs_of sz \<le> dirno from) \<and>
     (\<forall>d<dirs_of sz. \<not> present (de s (dirno to + d))) \<and>
     (\<forall>n<PAGING_PAGES. unat (mem_map s n) \<le> 127)"

lemma user_dir16: "0x4000000 \<le> a \<Longrightarrow> 16 \<le> dirno a"
  using user_address [of a] by (simp add: user_dirs_def)

lemma copy_page_tables_forked:
  assumes inv: "mm_inv held s" and r: "copy_ready from to sz s"
  shows "\<exists>m s'. copy_page_tables from to sz s = Ret (if m = dirs_of sz then 0 else - 1) s'
     \<and> m \<le> dirs_of sz \<and> mm_inv held s' \<and> forked (dirno from) (dirno to) m s s'
     \<and> (m < dirs_of sz \<longrightarrow> (\<forall>k<PAGING_PAGES. mem_map s' k \<noteq> 0))"
proof -
  have nz: "from \<noteq> 0" using r by (auto simp: copy_ready_def)
  have cap: "unat (mem_map s k) + (\<Sum>d=dirno from..<dirno from + dirs_of sz. dcount s d (pg k)) \<le> 255"
    if k: "k < PAGING_PAGES" for k
  proof -
    have "(\<Sum>d=dirno from..<dirno from + dirs_of sz. dcount s d (pg k)) \<le> refs s (pg k)"
      unfolding refs_def
      by (rule sum_mono2) (use r user_dir16 [of "from"] in \<open>auto simp: user_dirs_def copy_ready_def\<close>)
    also have "\<dots> \<le> unat (mem_map s k)" using mm_invD(2) [OF inv k] by simp
    finally show ?thesis using r k by (auto simp: copy_ready_def dest!: spec [of _ k])
  qed
  have "copy_page_tables from to sz s = copy_dirs (dirs_of sz) from (slot 0 (dirno from)) (slot 0 (dirno to)) s"
    using r by (simp add: copy_page_tables_def copy_ready_def dirs_of_def dir_slot)
  then show ?thesis
    using copy_dirs_ok [OF inv nz _ _ _ _ _ _ cap] r user_dir16 by (auto simp: copy_ready_def)
qed

lemma lookup_forked:
  assumes fk: "forked f t m s s'" and d: "d \<in> user_dirs" "j < 1024"
  shows "t \<le> d \<Longrightarrow> d < t + m \<Longrightarrow> lookup s' d j = lookup s (d - t + f) j"
    "\<not> (t \<le> d \<and> d < t + m) \<Longrightarrow> lookup s' d j = lookup s d j"
  using forkedD(2,3) [OF fk d(1)] forkedD(4) [OF fk d] by (auto simp: lookup_def split: if_splits)

lemma bit_and_not2: "\<not> bit (x AND NOT 2 :: u32) 1"
proof -
  have "(2 :: u32) = push_bit 1 1" by simp
  then show ?thesis by (simp only:) (simp add: bit_simps)
qed

lemma writable_forked:
  assumes fk: "forked f t m s s'" and d: "t + e \<in> user_dirs" "f + e \<in> user_dirs" "e < m" "j < 1024"
    and disj: "f + m \<le> t \<or> t + m \<le> f" and l: "lookup s (f + e) j = Some p" "LOW_MEM \<le> p"
  shows "\<not> writable s' (t + e) j" "\<not> writable s' (f + e) j"
proof -
  have p: "present (de s (f + e))" "present (pte s (f + e) j)" "frame (pte s (f + e) j) = p"
    using l(1) by (auto simp: lookup_def split: if_splits)
  have up: "LOW_MEM < pte s (f + e) j AND NOT 2"
    using frame_low [of "pte s (f + e) j AND NOT 2"] p l(2) by (auto simp: linorder_not_le [symmetric])
  have out: "\<not> (t \<le> f + e \<and> f + e < t + m)" using disj d(3) by auto
  have "present (de s' (t + e))" using forkedD(2) [OF fk d(1)] d(3) p(1) by (simp add: add.commute)
  then have "pte s' (t + e) j = pte s (f + e) j AND NOT 2"
    using forkedD(4) [OF fk d(1,4)] d(3) p(2) by (simp add: add.commute)
  then show "\<not> writable s' (t + e) j" using bit_and_not2 by (simp only: writable_def) simp
  have "present (de s' (f + e))" using forkedD(3) [OF fk d(2)] p(1) out by simp
  then have "pte s' (f + e) j = cow (pte s (f + e) j)"
    using forkedD(4) [OF fk d(2,4)] d(3) p(2) out by auto
  then show "\<not> writable s' (f + e) j" using bit_and_not2 up by (simp only: writable_def cow_def if_True) simp
qed

lemma contents_forked:
  assumes inv: "mm_inv held s" and fk: "forked f t m s s'"
    and r: "16 \<le> f" "f + m \<le> 1024" and d: "d \<in> user_dirs" "j < 1024"
    and l: "lookup s d j = Some p" "LOW_MEM \<le> p" and a: "frame a = p"
  shows "pmem s' a = pmem s a"
proof (rule forkedD(5) [OF fk])
  have p: "present (de s d)" "present (pte s d j)" "frame (pte s d j) = p"
    using l(1) by (auto simp: lookup_def split: if_splits)
  show "frame a \<noteq> 0" using a l(2) by auto
  show "frame a \<noteq> tbl s e" if "f \<le> e" "e < f + m" "present (de s e)" for e
    using pte_not_table [OF inv _ d(1) that(3) p(1) d(2) p(2)] that r a p(3)
    by (auto simp: user_dirs_def)
  show "mem_map s n \<noteq> 0" if "n < PAGING_PAGES" "frame a = pg n" for n
    using mapped_used [OF inv d(1) p(1) d(2) that(1)] p a that(2) by (simp add: maps_def)
qed

lemma free_page_tables_unmapped:
  assumes "mm_inv held s" "from AND 0x3fffff = 0" "0x4000000 \<le> from" "dirno from + dirs_of sz \<le> 1024"
  shows "\<exists>s'. free_page_tables from sz s = Ret 0 s' \<and> mm_inv held s' \<and>
    unmapped (dirno from) (dirs_of sz) s s'"
proof -
  have "from \<noteq> 0" using assms(3) by auto
  then have "free_page_tables from sz s = bindO (free_dirs (dirs_of sz) (slot 0 (dirno from)) s) (\<lambda>_ s. Ret 0 s)"
    using assms(2) by (simp add: free_page_tables_def dirs_of_def dir_slot)
  then show ?thesis
    using free_dirs_ok [OF assms(1) user_dir16 [OF assms(3)] assms(4)] by auto
qed

lemma unmappedD:
  assumes "unmapped f m s s'"
  shows "d \<in> user_dirs \<Longrightarrow> f \<le> d \<Longrightarrow> d < f + m \<Longrightarrow> \<not> present (de s' d)"
    "d \<in> user_dirs \<Longrightarrow> \<not> (f \<le> d \<and> d < f + m) \<Longrightarrow> de s' d = de s d"
    "d \<in> user_dirs \<Longrightarrow> j < 1024 \<Longrightarrow> \<not> (f \<le> d \<and> d < f + m) \<Longrightarrow> present (de s d) \<Longrightarrow> pte s' d j = pte s d j"
    "frame a \<noteq> 0 \<Longrightarrow> (\<And>d. f \<le> d \<Longrightarrow> d < f + m \<Longrightarrow> present (de s d) \<Longrightarrow> frame a \<noteq> tbl s d) \<Longrightarrow> pmem s' a = pmem s a"
    "HIGH_MEMORY s' = HIGH_MEMORY s"
  using assms unfolding unmapped_def by (auto split: if_splits)

lemma lookup_unmapped:
  assumes "unmapped f m s s'" "d \<in> user_dirs" "j < 1024"
  shows "lookup s' d j = (if f \<le> d \<and> d < f + m then None else lookup s d j)"
  using unmappedD(1,2,3) [OF assms(1,2)] assms(3)
  by (cases "f \<le> d \<and> d < f + m") (auto simp: lookup_def)

lemma refs_forked_unmapped:
  assumes fk: "forked f t m s s1" and un: "unmapped t n s1 s2" and mn: "m \<le> n"
    and np: "\<And>d. d < n \<Longrightarrow> \<not> present (de s (t + d))"
  shows "refs s2 p = refs s p"
proof -
  have "dcount s2 d p = dcount s d p" if d: "d \<in> user_dirs" for d
  proof (cases "t \<le> d \<and> d < t + n")
    case True
    then have "\<not> present (de s d)" using np [of "d - t"] by (simp add: less_diff_conv2)
    then show ?thesis using unmappedD(1) [OF un d] True by (simp add: dcount_def)
  next
    case False
    then have e: "de s2 d = de s d" "de s1 d = de s d"
      using unmappedD(2) [OF un d] forkedD(3) [OF fk d] mn by auto
    have "maps (pte s2 d j) p = maps (pte s d j) p" if "j < 1024" "present (de s d)" for j
      using unmappedD(3) [OF un d that(1) False] forkedD(4) [OF fk d that(1)] e that(2) False mn
      by (auto simp: maps_def)
    then show ?thesis using e by (simp add: dcount_def tcount_def tbl_def)
  qed
  then show ?thesis by (simp add: refs_def)
qed

section \<open>A small concrete memory\<close>

text \<open>16MB of free memory, and the same after the first page of task 1 was faulted in.\<close>

definition empty_mm :: mm where
  "empty_mm = \<lparr>mem_map = (\<lambda>_. 0), HIGH_MEMORY = 0x1000000, pmem = (\<lambda>_. 0)\<rparr>"

definition demo_mm :: mm where
  "demo_mm = (case get_empty_page 0x4000000 empty_mm of Ret _ s \<Rightarrow> s | _ \<Rightarrow> empty_mm)"

lemma empty_mm_inv: "mm_inv (\<lambda>_. 0) empty_mm"
proof -
  have "refs empty_mm p = 0" for p
    by (simp add: refs_def dcount_def de_def empty_mm_def)
  then show ?thesis
    unfolding mm_inv_def using pg_props(5)
    by (auto simp: empty_mm_def de_def linorder_not_less [symmetric])
qed

lemma scan_free_top: "0 < n \<Longrightarrow> m (n - 1) = 0 \<Longrightarrow> scan_free m n = Some (n - 1)"
  by (cases n) simp_all

lemma empty_page_demo:
  "get_empty_page 0x4000000 empty_mm = Ret () demo_mm \<and> mm_inv (\<lambda>_. 0) demo_mm \<and>
   mem_map demo_mm = (\<lambda>_. 0)(3839 := 1, 3838 := 1) \<and> HIGH_MEMORY demo_mm = 0x1000000 \<and>
   (\<forall>i<1024. present (de demo_mm i) = (i = 16)) \<and> lookup demo_mm 16 0 = Some (pg 3839)"
proof -
  let ?s1 = "empty_mm\<lparr>mem_map := (\<lambda>_. 0)(3839 := 1), pmem := (\<lambda>_. 0)\<rparr>"
  let ?s2 = "empty_mm\<lparr>mem_map := (\<lambda>_. 0)(3839 := 1, 3838 := 1), pmem := (\<lambda>_. 0)\<rparr>"
  have 1: "get_free_page empty_mm = (0xfff000, ?s1)"
    by (simp add: get_free_page_def scan_free_top empty_mm_def push_bit_eq_mult cong: if_cong)
  have "scan_free ((\<lambda>_. 0)(3839 := 1)) 3840 = Some 3838"
    using scan_free.simps(2) [of "(\<lambda>_. 0)(3839 := 1)" 3839] scan_free_top [of 3839 "(\<lambda>_. 0)(3839 := 1)"]
    by simp
  then have 2: "get_free_page ?s1 = (0xffe000, ?s2)"
    by (simp add: get_free_page_def empty_mm_def push_bit_eq_mult cong: if_cong)
  let ?s3 = "poke (slot (pg 3838) 0) (pg 3839 OR 7) (poke (slot 0 16) (pg 3838 OR 7) ?s2)"
  have pgs: "pg 3838 = 0xffe000" "pg 3839 = 0xfff000" by (simp_all add: pg_def push_bit_eq_mult)
  have 3: "put_page 0xfff000 0x4000000 ?s1 = Ret 0xfff000 ?s3"
    using 2 by (simp add: put_page_def Let_def MAP_NR_def drop_bit_eq_div pgs slot_def empty_mm_def)
  have ex: "get_empty_page 0x4000000 empty_mm = Ret () ?s3"
    using 1 3 by (simp add: get_empty_page_def Let_def)
  then have d: "demo_mm = ?s3" by (simp add: demo_mm_def)
  have inv: "mm_inv (\<lambda>_. 0) ?s3"
  proof (rule get_empty_page_ok [OF empty_mm_inv, of "0x4000000"])
    show "\<not> (present (de empty_mm (dirno 0x4000000)) \<and> present (pte empty_mm (dirno 0x4000000) (pteno 0x4000000)))"
      by (simp add: de_def empty_mm_def)
  qed (use ex in auto)
  have p: "present (de ?s3 i) = (i = 16)" if "i < 1024" for i
    using that frame_present_or7 [of "pg 3838"] pg_props(1,4) [of 3838]
    by (auto simp: de_def slot_eq_iff empty_mm_def)
  have t: "tbl ?s3 16 = pg 3838"
    using frame_present_or7 [of "pg 3838"] pg_props(1,4) [of 3838]
    by (simp add: tbl_def de_def slot_eq_iff)
  have "lookup ?s3 16 0 = Some (pg 3839)"
    using p [of 16] frame_present_or7 [of "pg 3839"] pg_props(1) [of 3839] by (simp add: lookup_def pte_def t)
  moreover have "mem_map ?s3 = (\<lambda>_. 0)(3839 := 1, 3838 := 1)" "HIGH_MEMORY ?s3 = 0x1000000"
    by (simp_all add: empty_mm_def)
  ultimately show ?thesis unfolding d using ex inv p by (intro conjI allI impI)
qed

lemmas demo_mm_facts =
  empty_page_demo [THEN conjunct2, THEN conjunct1]
  empty_page_demo [THEN conjunct2, THEN conjunct2, THEN conjunct1]
  empty_page_demo [THEN conjunct2, THEN conjunct2, THEN conjunct2, THEN conjunct2, THEN conjunct1]
  empty_page_demo [THEN conjunct2, THEN conjunct2, THEN conjunct2, THEN conjunct2, THEN conjunct2]

lemma dirno_demo: "dirno 0x4000000 = 16" "dirno 0x8000000 = 32" "dirs_of 0x400000 = 1"
  by (simp_all add: dirno_def dirs_of_def drop_bit_eq_div)

lemma copy_ready_demo: "copy_ready 0x4000000 0x8000000 0x400000 demo_mm"
proof -
  have "unat (mem_map demo_mm n) \<le> 127" for n by (simp add: demo_mm_facts(2))
  moreover have "(0x4000000 :: u32) AND 0x3fffff = 0" "(0x8000000 :: u32) AND 0x3fffff = 0" by simp_all
  ultimately show ?thesis
    using demo_mm_facts(3) by (simp add: copy_ready_def dirno_demo)
qed

section \<open>Theorems\<close>

text \<open>C1: \<open>copy_page_tables\<close> gives the child the parent's pages, read-only on both
  sides, and changes no byte of any mapped page.  It returns 0 or -1 (never
  panics or runs outside \<open>mem_map\<close>), and -1 only when no page is left; every
  address space other than the child's keeps its mapping, also after a failure.\<close>

theorem copy_page_tables_cow:
  assumes "mm_inv held s" and "copy_ready from to sz s"
  shows "\<exists>r s'. copy_page_tables from to sz s = Ret r s' \<and>
    (r = 0 \<or> r = - 1 \<and> (\<forall>n<PAGING_PAGES. mem_map s' n \<noteq> 0)) \<and>
    (r = 0 \<longrightarrow> (\<forall>e<dirs_of sz. \<forall>j<1024.
       lookup s' (dirno to + e) j = lookup s (dirno from + e) j \<and>
       (\<forall>p. lookup s (dirno from + e) j = Some p \<and> LOW_MEM \<le> p \<longrightarrow>
          \<not> writable s' (dirno to + e) j \<and> \<not> writable s' (dirno from + e) j))) \<and>
    (\<forall>d\<in>user_dirs. \<forall>j<1024. \<not> (dirno to \<le> d \<and> d < dirno to + dirs_of sz) \<longrightarrow>
       lookup s' d j = lookup s d j) \<and>
    (\<forall>d\<in>user_dirs. \<forall>j<1024. \<forall>p. lookup s d j = Some p \<and> LOW_MEM \<le> p \<longrightarrow>
       (\<forall>a. frame a = p \<longrightarrow> pmem s' a = pmem s a))"
proof -
  let ?n = "dirs_of sz" and ?f = "dirno from" and ?t = "dirno to"
  obtain m s' where m: "copy_page_tables from to sz s = Ret (if m = ?n then 0 else - 1) s'" "m \<le> ?n"
    "mm_inv held s'" "forked ?f ?t m s s'" "m < ?n \<longrightarrow> (\<forall>k<PAGING_PAGES. mem_map s' k \<noteq> 0)"
    using copy_page_tables_forked [OF assms] by blast
  have r: "16 \<le> ?f" "16 \<le> ?t" "?f + ?n \<le> 1024" "?t + ?n \<le> 1024" "?f + ?n \<le> ?t \<or> ?t + ?n \<le> ?f"
    using assms(2) user_dir16 by (auto simp: copy_ready_def)
  have u: "?t + e \<in> user_dirs" "?f + e \<in> user_dirs" if "e < ?n" for e
    using r that by (auto simp: user_dirs_def)
  have "lookup s' (?t + e) j = lookup s (?f + e) j" if "m = ?n" "e < ?n" "j < 1024" for e j
    using lookup_forked(1) [OF m(4) u(1) [OF that(2)] that(3)] that by (simp add: add.commute)
  moreover have "\<not> writable s' (?t + e) j \<and> \<not> writable s' (?f + e) j"
    if "m = ?n" "e < ?n" "j < 1024" "lookup s (?f + e) j = Some p" "LOW_MEM \<le> p" for e j p
    using writable_forked [OF m(4) u [OF that(2)]] that r(5) by simp
  moreover have "lookup s' d j = lookup s d j"
    if "d \<in> user_dirs" "j < 1024" "\<not> (?t \<le> d \<and> d < ?t + ?n)" for d j
    using lookup_forked(2) [OF m(4) that(1,2)] that(3) m(2) by auto
  moreover have "pmem s' a = pmem s a"
    if "d \<in> user_dirs" "j < 1024" "lookup s d j = Some p" "LOW_MEM \<le> p" "frame a = p" for d j p a
    by (rule contents_forked [OF assms(1) m(4) r(1) _ that]) (use m(2) r in simp)
  moreover have "m = ?n \<or> m < ?n" using m(2) by auto
  ultimately show ?thesis
    using m(1,5) by (intro exI [of _ "if m = ?n then 0 else - 1"] exI [of _ s']) auto
qed

theorem copy_page_tables_cow_witness:
  "\<exists>r s'. copy_page_tables 0x4000000 0x8000000 0x400000 demo_mm = Ret r s' \<and>
     lookup s' 16 0 = Some (pg 3839) \<and>
     (r = 0 \<longrightarrow> lookup s' 32 0 = Some (pg 3839) \<and> \<not> writable s' 32 0 \<and> \<not> writable s' 16 0)"
proof -
  have "LOW_MEM \<le> pg 3839" by (simp add: pg_props)
  then show ?thesis
    using copy_page_tables_cow [OF demo_mm_facts(1) copy_ready_demo] demo_mm_facts(4)
    unfolding dirno_demo by (fastforce simp: user_dirs_def)
qed

text \<open>C2: a fork followed by the release of the child's address space (on exit, or
  as \<open>copy_mem\<close> does when the copy ran out of memory) gives every page its old
  number of users back and leaves every address space as it was.\<close>

theorem fork_then_free_restores:
  assumes "mm_inv held s" and "copy_ready from to sz s"
    and "copy_page_tables from to sz s = Ret r s1"
  shows "\<exists>s2. free_page_tables to sz s1 = Ret 0 s2 \<and> mm_inv held s2 \<and>
    (\<forall>n<PAGING_PAGES. mem_map s2 n = mem_map s n) \<and>
    (\<forall>d\<in>user_dirs. \<forall>j<1024. lookup s2 d j = lookup s d j)"
proof -
  obtain m where m: "m \<le> dirs_of sz" "mm_inv held s1" "forked (dirno from) (dirno to) m s s1"
    using copy_page_tables_forked [OF assms(1,2)] assms(3) by auto
  have to: "to AND 0x3fffff = 0" "0x4000000 \<le> to" "dirno to + dirs_of sz \<le> 1024"
    and np: "\<And>d. d < dirs_of sz \<Longrightarrow> \<not> present (de s (dirno to + d))"
    using assms(2) by (simp_all add: copy_ready_def)
  obtain s2 where s2: "free_page_tables to sz s1 = Ret 0 s2" "mm_inv held s2"
    "unmapped (dirno to) (dirs_of sz) s1 s2"
    using free_page_tables_unmapped [OF m(2) to] by blast
  have "unat (mem_map s2 n) = unat (mem_map s n)" if "n < PAGING_PAGES" for n
    using mm_invD(2) [OF s2(2) that] mm_invD(2) [OF assms(1) that]
      refs_forked_unmapped [OF m(3) s2(3) m(1) np] by simp
  moreover have "lookup s2 d j = lookup s d j" if d: "d \<in> user_dirs" "j < 1024" for d j
  proof (cases "dirno to \<le> d \<and> d < dirno to + dirs_of sz")
    case True
    then have "\<not> present (de s d)" using np [of "d - dirno to"] by (simp add: less_diff_conv2)
    then show ?thesis using lookup_unmapped [OF s2(3) d] True by (simp add: lookup_def)
  next
    case False
    then show ?thesis
      using lookup_unmapped [OF s2(3) d] lookup_forked(2) [OF m(3) d] m(1) by auto
  qed
  ultimately show ?thesis using s2 by (auto simp: word_unat_eq_iff)
qed

theorem fork_then_free_restores_witness:
  "\<exists>r s1 s2. copy_page_tables 0x4000000 0x8000000 0x400000 demo_mm = Ret r s1 \<and>
     free_page_tables 0x8000000 0x400000 s1 = Ret 0 s2 \<and> mem_map s2 3839 = 1"
proof -
  obtain r s1 where s1: "copy_page_tables 0x4000000 0x8000000 0x400000 demo_mm = Ret r s1"
    using copy_page_tables_forked [OF demo_mm_facts(1) copy_ready_demo] by blast
  then show ?thesis
    using fork_then_free_restores [OF demo_mm_facts(1) copy_ready_demo s1] demo_mm_facts(2) by force
qed

text \<open>C3: \<open>free_page_tables\<close> on a user range always succeeds: it never frees a free
  or nonexistent page, it empties the range, keeps the page counts exact, and
  leaves every other address space and the contents of its pages alone.\<close>

theorem free_page_tables_exact:
  assumes "mm_inv held s" "from AND 0x3fffff = 0" "0x4000000 \<le> from"
    "dirno from + dirs_of sz \<le> 1024"
  shows "\<exists>s'. free_page_tables from sz s = Ret 0 s' \<and> mm_inv held s' \<and>
    (\<forall>d\<in>user_dirs. \<forall>j<1024. lookup s' d j =
       (if dirno from \<le> d \<and> d < dirno from + dirs_of sz then None else lookup s d j)) \<and>
    (\<forall>d\<in>user_dirs. \<forall>j<1024. \<forall>p. lookup s d j = Some p \<and> LOW_MEM \<le> p \<longrightarrow>
       (\<forall>a. frame a = p \<longrightarrow> pmem s' a = pmem s a))"
proof -
  obtain s' where s': "free_page_tables from sz s = Ret 0 s'" "mm_inv held s'"
    "unmapped (dirno from) (dirs_of sz) s s'"
    using free_page_tables_unmapped [OF assms] by blast
  have "pmem s' a = pmem s a"
    if d: "d \<in> user_dirs" "j < 1024" and l: "lookup s d j = Some p" "LOW_MEM \<le> p" "frame a = p" for d j p a
  proof (rule unmappedD(4) [OF s'(3)])
    have p: "present (de s d)" "present (pte s d j)" "frame (pte s d j) = p"
      using l(1) by (auto simp: lookup_def split: if_splits)
    show "frame a \<noteq> 0" using l by auto
    show "frame a \<noteq> tbl s e" if "dirno from \<le> e" "e < dirno from + dirs_of sz" "present (de s e)" for e
      using pte_not_table [OF assms(1) _ d(1) that(3) p(1) d(2) p(2)] that l p(3) user_dir16 [OF assms(3)] assms(4)
      by (auto simp: user_dirs_def)
  qed
  then show ?thesis using s' lookup_unmapped [OF s'(3)] by auto
qed

theorem free_page_tables_exact_witness:
  "\<exists>s'. free_page_tables 0x4000000 0x400000 demo_mm = Ret 0 s' \<and> lookup s' 16 0 = None"
proof -
  have "(0x4000000 :: u32) AND 0x3fffff = 0" by simp
  then show ?thesis
    using free_page_tables_exact [OF demo_mm_facts(1), of "0x4000000" "0x400000"]
    by (auto simp: dirno_demo user_dirs_def)
qed

text \<open>A page with a count is used by one entry only.\<close>

definition sole_user :: "'z mm_scheme \<Rightarrow> u32 \<Rightarrow> bool" where
  "sole_user s p \<longleftrightarrow> LOW_MEM \<le> p \<and> mem_map s (MAP_NR p) = 1"

lemma un_wp_page_exits:
  assumes inv: "mm_inv held s" and i: "i \<in> user_dirs" "present (de s i)" and j: "j < 1024" and e: "present (pte s i j)"
  shows "un_wp_page (slot (tbl s i) j) s = Exits 11 s \<longleftrightarrow>
    (\<forall>n<PAGING_PAGES. mem_map s n \<noteq> 0) \<and> \<not> sole_user s (frame (pte s i j))"
proof -
  let ?p = "frame (pte s i j)"
  have nr: "MAP_NR ?p < PAGING_PAGES" if "LOW_MEM \<le> ?p"
    using entry_page(1) [of ?p s] that mm_invD(4) [OF inv i j e] mm_invD(1) [OF inv] by simp
  have pe: "pmem s (slot (tbl s i) j) = pte s i j" by (simp add: pte_def)
  show ?thesis
    by (cases rule: get_free_page_cases [of s])
      (use nr pg_props(4) in \<open>auto simp: un_wp_page_def Let_def pe sole_user_def\<close>)
qed

text \<open>C4: a write fault on a present user page.  \<open>do_wp_page\<close> ends the task with \<open>SIGSEGV\<close>
  exactly when no page is left and the page must be copied, because the writer is not
  its only user; nothing has changed then.  Otherwise it gives the writer a writable page that
  nobody else maps, with the contents of the old one, changes no other entry of any address
  space and keeps the counts exact.\<close>

theorem do_wp_page_private:
  assumes "mm_inv held s" "0x4000000 \<le> address"
    and "lookup s (dirno address) (pteno address) = Some p"
  shows "if (\<forall>n<PAGING_PAGES. mem_map s n \<noteq> 0) \<and> \<not> sole_user s p
    then do_wp_page error_code address s = Exits 11 s
    else \<exists>s'. do_wp_page error_code address s = Ret () s' \<and> mm_inv held s' \<and>
      own_copy (dirno address) (pteno address) s s'"
proof -
  let ?i = "dirno address" and ?j = "pteno address"
  have p: "present (de s ?i)" "present (pte s ?i ?j)" "frame (pte s ?i ?j) = p"
    using assms(3) by (auto simp: lookup_def split: if_splits)
  have w: "do_wp_page error_code address s = un_wp_page (slot (tbl s ?i) ?j) s"
    by (simp add: do_wp_page_def dir_slot pte_slot de_def [symmetric] tbl_def [symmetric])
  note c = un_wp_page_exits [OF assms(1) user_address [OF assms(2)] p(1) pteno_less p(2), unfolded p(3)]
  show ?thesis
    by (cases rule: un_wp_page_ok [OF assms(1) user_address [OF assms(2)] p(1) pteno_less p(2)]) (use c w in auto)
qed

theorem do_wp_page_private_witness:
  "\<exists>s'. do_wp_page 7 0x4000000 demo_mm = Ret () s' \<and> mm_inv (\<lambda>_. 0) s' \<and> own_copy 16 0 demo_mm s'"
proof -
  have "pteno 0x4000000 = 0" by (simp add: pteno_def)
  moreover have f: "\<not> ((\<forall>n<PAGING_PAGES. mem_map demo_mm n \<noteq> 0) \<and> \<not> sole_user demo_mm (pg 3839))"
    by (auto simp: demo_mm_facts(2) intro!: exI [of _ 0])
  ultimately show ?thesis
    using do_wp_page_private [OF demo_mm_facts(1), of "0x4000000" "pg 3839" 7, unfolded if_not_P [OF f]] demo_mm_facts(4)
    by (simp add: dirno_demo)
qed

text \<open>The allocator as its clients see it.  Allocating \<open>k\<close> pages without running
  out yields \<open>k\<close> different pages that were all free, each now used once, and no
  other page changes its number of users; an allocated page can be freed again,
  which restores the counts.\<close>

theorem get_free_page_fresh:
  assumes "map_ok s" "alloc_many get_free_page k s = (ps, s')" "0 \<notin> set ps"
  shows "distinct ps \<and> length ps = k \<and> (\<forall>p\<in>set ps. page_users s p = 0) \<and>
    (\<forall>p. page_users s' p = (if p \<in> set ps then 1 else page_users s p)) \<and>
    (\<forall>p s1. get_free_page s' = (p, s1) \<and> p \<noteq> 0 \<longrightarrow>
       (\<exists>s2. free_page p s1 = Ret () s2 \<and> page_users s2 = page_users s'))"
proof -
  note d = frames.alloc_many_distinct [OF assms]
  then have "map_ok s'" by blast
  then show ?thesis using d frames.alloc_release by blast
qed

theorem get_free_page_fresh_witness:
  "alloc_many get_free_page 1 empty_mm = ([0xfff000], snd (get_free_page empty_mm)) \<and>
   page_users (snd (get_free_page empty_mm)) 0xfff000 = 1"
proof -
  have m: "map_ok empty_mm"
    using pg_props(5) by (auto simp: map_ok_def empty_mm_def linorder_not_less [symmetric])
  have a: "alloc_many get_free_page 1 empty_mm = ([0xfff000], snd (get_free_page empty_mm))"
    by (simp add: get_free_page_def scan_free_top empty_mm_def push_bit_eq_mult)
  then show ?thesis using get_free_page_fresh [OF m a] by simp
qed

end
