(* ===== verification/Mktime.thy ===== *)
theory Mktime
  imports Kernel_Prelude "HOL-Library.Signed_Division"
begin

text \<open>
  Seconds since 1970, from \<open>src/kernel/mktime.c\<close>, against the Gregorian calendar.
  The C arithmetic is 32-bit and signed; the division and remainder truncate.
  Of \<open>struct tm\<close> only the fields the function reads are kept.
\<close>

record tm =
  tm_sec :: int
  tm_min :: int
  tm_hour :: int
  tm_mday :: int
  tm_mon :: int
  tm_year :: int

abbreviation MINUTE :: int where "MINUTE \<equiv> 60"
abbreviation HOUR :: int where "HOUR \<equiv> 3600"
abbreviation DAY :: int where "DAY \<equiv> 86400"
abbreviation YEAR :: int where "YEAR \<equiv> 31536000"

definition month :: "int list" where
  "month = [0,
     DAY * 31,
     DAY * (31+29),
     DAY * (31+29+31),
     DAY * (31+29+31+30),
     DAY * (31+29+31+30+31),
     DAY * (31+29+31+30+31+30),
     DAY * (31+29+31+30+31+30+31),
     DAY * (31+29+31+30+31+30+31+31),
     DAY * (31+29+31+30+31+30+31+31+30),
     DAY * (31+29+31+30+31+30+31+31+30+31),
     DAY * (31+29+31+30+31+30+31+31+30+31+30)]"

text \<open>\<open>None\<close> stands for a read past the end of \<open>month\<close>.\<close>

definition kernel_mktime :: "tm \<Rightarrow> int option" where
  "kernel_mktime t =
     (if tm_mon t < 0 \<or> tm_mon t \<ge> 12 then None
      else let year = s32 (tm_year t - 70);
               res = s32 (s32 (YEAR * year) + s32 (DAY * (s32 (year + 1) sdiv 4)));
               res = s32 (res + month ! nat (tm_mon t));
               res = (if tm_mon t > 1 \<and> s32 (year + 2) smod 4 \<noteq> 0 then s32 (res - DAY) else res);
               res = s32 (res + s32 (DAY * s32 (tm_mday t - 1)));
               res = s32 (res + s32 (HOUR * tm_hour t));
               res = s32 (res + s32 (MINUTE * tm_min t));
               res = s32 (res + tm_sec t)
           in Some res)"

section \<open>The calendar\<close>

definition leap :: "nat \<Rightarrow> bool" where
  "leap y \<longleftrightarrow> y mod 4 = 0 \<and> (y mod 100 \<noteq> 0 \<or> y mod 400 = 0)"

definition month_length :: "nat \<Rightarrow> nat \<Rightarrow> nat" where
  "month_length y m = (if m = 1 then (if leap y then 29 else 28)
     else if m \<in> {3, 5, 8, 10} then 30 else 31)"

text \<open>Days from 1 January 1970 to 1 January of year \<open>1970 + n\<close>, counted year by year.\<close>

primrec days_to_year :: "nat \<Rightarrow> nat" where
  "days_to_year 0 = 0"
| "days_to_year (Suc n) = days_to_year n + (if leap (1970 + n) then 366 else 365)"

primrec days_to_month :: "nat \<Rightarrow> nat \<Rightarrow> nat" where
  "days_to_month y 0 = 0"
| "days_to_month y (Suc m) = days_to_month y m + month_length y m"

definition epoch_seconds :: "nat \<Rightarrow> nat \<Rightarrow> nat \<Rightarrow> nat \<Rightarrow> nat \<Rightarrow> nat \<Rightarrow> nat" where
  "epoch_seconds n mon mday hour minute sec =
     86400 * (days_to_year n + days_to_month (1970 + n) mon + (mday - 1)) + 3600 * hour + 60 * minute + sec"

lemma leap_near: "n < 130 \<Longrightarrow> leap (1970 + n) \<longleftrightarrow> (n + 2) mod 4 = 0"
proof -
  assume n: "n < 130"
  have "(1970 + n) mod 100 \<noteq> 0 \<or> n = 30" using n by presburger
  moreover have "(1970 + n) mod 4 = (n + 2) mod 4" by presburger
  ultimately show ?thesis by (auto simp: leap_def)
qed

lemma days_to_year_closed: "n \<le> 130 \<Longrightarrow> days_to_year n = 365 * n + (n + 1) div 4"
proof (induction n)
  case (Suc n)
  then have "leap (1970 + n) \<longleftrightarrow> (n + 2) mod 4 = 0" by (intro leap_near) simp
  moreover have "(Suc n + 1) div 4 = (n + 1) div 4 + (if (n + 2) mod 4 = 0 then 1 else 0)" by presburger
  ultimately show ?case using Suc by simp
qed simp

lemma month_table:
  assumes "m < 12"
  shows "month ! m = 86400 * int (days_to_month y m) + (if 1 < m \<and> \<not> leap y then 86400 else 0)"
proof -
  have "m \<in> {0, 1, 2, 3, 4, 5, 6, 7, 8, 9, 10, 11}" using assms by (simp only: insert_iff empty_iff) presburger
  then show ?thesis
    by (elim insertE emptyE) (simp_all add: month_def month_length_def numeral_nat)
qed

lemma days_to_month_bound: "m < 12 \<Longrightarrow> days_to_month y m \<le> 31 * m"
  by (induction m) (auto simp: month_length_def)

lemma kernel_mktime_date:
  assumes "n \<le> 67" "mon < 12" "1 \<le> mday" "mday \<le> 31" "hour < 24" "minute < 60" "sec \<le> 60"
  shows "kernel_mktime \<lparr>tm_sec = int sec, tm_min = int minute, tm_hour = int hour, tm_mday = int mday,
      tm_mon = int mon, tm_year = 70 + int n\<rparr>
    = Some (int (epoch_seconds n mon mday hour minute sec))"
proof -
  let ?y = "int n" and ?m = "month ! mon" and ?adj = "if 1 < mon \<and> \<not> leap (1970 + n) then 86400 else 0 :: int"
  let ?dm = "int (days_to_month (1970 + n) mon)"
  have m: "?m = 86400 * ?dm + ?adj" by (rule month_table [OF assms(2)])
  have dm: "0 \<le> ?dm" "?dm \<le> 341" using days_to_month_bound [OF assms(2), of "1970 + n"] assms(2) by simp_all
  have l: "(?y + 2) smod 4 \<noteq> 0 \<longleftrightarrow> \<not> leap (1970 + n)"
    using leap_near [of n] assms(1) by (simp add: signed_modulo_int_def) presburger
  have q: "(?y + 1) sdiv 4 = int ((n + 1) div 4)" by (simp add: signed_divide_int_def zdiv_int)
  have qb: "int ((n + 1) div 4) \<le> 17" using assms(1) by simp
  have y: "s32 ?y = ?y" "s32 (?y + 1) = ?y + 1" "s32 (?y + 2) = ?y + 2"
    "s32 (int mday - 1) = int mday - 1"
    "s32 (31536000 * ?y) = 31536000 * ?y" "s32 (86400 * int ((n + 1) div 4)) = 86400 * int ((n + 1) div 4)"
    "s32 (86400 * (int mday - 1)) = 86400 * (int mday - 1)" "s32 (3600 * int hour) = 3600 * int hour"
    "s32 (60 * int minute) = 60 * int minute"
    using assms qb by (intro s32_small; simp)+
  let ?a = "31536000 * ?y + 86400 * int ((n + 1) div 4)"
  have a: "0 \<le> ?a" "?a \<le> 2114380800" using assms(1) qb by simp_all
  have r1: "s32 ?a = ?a" using a by (intro s32_small) simp_all
  have r2: "s32 (?a + ?m) = ?a + ?m" using a dm m by (intro s32_small) simp_all
  have r3: "s32 (?a + ?m - 86400) = ?a + ?m - 86400" if "?adj \<noteq> 0"
    using that a dm m by (intro s32_small) (simp_all split: if_splits)
  let ?b = "?a + 86400 * ?dm"
  have r5: "(if int mon > 1 \<and> (?y + 2) smod 4 \<noteq> 0 then s32 (?a + ?m - 86400) else ?a + ?m) = ?b"
    using r3 m l by auto
  have ty: "70 + int n - 70 = int n" by simp
  have b: "?b = 86400 * (int (days_to_year n) + ?dm)" using days_to_year_closed [of n] assms(1) by simp
  have bb: "0 \<le> ?b" "?b \<le> 2143843200" using a dm by simp_all
  have r4: "s32 (?b + 86400 * (int mday - 1)) = ?b + 86400 * (int mday - 1)"
    "s32 (?b + 86400 * (int mday - 1) + 3600 * int hour) = ?b + 86400 * (int mday - 1) + 3600 * int hour"
    "s32 (?b + 86400 * (int mday - 1) + 3600 * int hour + 60 * int minute) =
       ?b + 86400 * (int mday - 1) + 3600 * int hour + 60 * int minute"
    "s32 (?b + 86400 * (int mday - 1) + 3600 * int hour + 60 * int minute + int sec) =
       ?b + 86400 * (int mday - 1) + 3600 * int hour + 60 * int minute + int sec"
    using bb assms by (intro s32_small; simp)+
  have "kernel_mktime \<lparr>tm_sec = int sec, tm_min = int minute, tm_hour = int hour, tm_mday = int mday,
      tm_mon = int mon, tm_year = 70 + int n\<rparr>
    = Some (?b + 86400 * (int mday - 1) + 3600 * int hour + 60 * int minute + int sec)"
    unfolding kernel_mktime_def Let_def tm.simps ty y q r1 nat_int r2 r5 r4 using assms(2) by simp
  also have "\<dots> = Some (int (epoch_seconds n mon mday hour minute sec))"
    using assms(3) unfolding b by (simp add: epoch_seconds_def of_nat_diff algebra_simps)
  finally show ?thesis .
qed

text \<open>C9: for every date from 1970 to 2037 \<open>kernel_mktime\<close> is the number of seconds
  since the epoch in the Gregorian calendar, with no overflow on the way.\<close>

theorem kernel_mktime_gregorian:
  assumes "n \<le> 67" "mon < 12" "1 \<le> mday" "mday \<le> 31" "hour < 24" "minute < 60" "sec \<le> 60"
  shows "kernel_mktime \<lparr>tm_sec = int sec, tm_min = int minute, tm_hour = int hour, tm_mday = int mday,
      tm_mon = int mon, tm_year = 70 + int n\<rparr>
    = Some (int (epoch_seconds n mon mday hour minute sec))"
  using assms by (rule kernel_mktime_date)

theorem kernel_mktime_gregorian_witness:
  "kernel_mktime \<lparr>tm_sec = 0, tm_min = 0, tm_hour = 12, tm_mday = 29, tm_mon = 1, tm_year = 92\<rparr>
    = Some (int (epoch_seconds 22 1 29 12 0 0))"
  using kernel_mktime_gregorian [of 22 1 29 12 0 0] by simp

end
