(* ===== verification/Vsprintf.thy ===== *)
theory Vsprintf
  imports Kernel_Prelude
begin

unbundle bit_operations_syntax

text \<open>
  Formatted output, from \<open>src/kernel/vsprintf.c\<close>.

  The buffer is the list of characters written so far, the format string the
  list of the characters that remain (its terminating zero is the end of the
  list), and the argument list a list of tagged machine values.  A conversion
  that reads past the arguments, or reads one as something it is not, is
  undefined in C and gives \<open>None\<close>.
\<close>

abbreviation ZEROPAD :: u32 where "ZEROPAD \<equiv> 1"
abbreviation SIGN :: u32 where "SIGN \<equiv> 2"
abbreviation PLUS :: u32 where "PLUS \<equiv> 4"
abbreviation SPACE :: u32 where "SPACE \<equiv> 8"
abbreviation LEFT :: u32 where "LEFT \<equiv> 16"
abbreviation SPECIAL :: u32 where "SPECIAL \<equiv> 32"
abbreviation SMALL :: u32 where "SMALL \<equiv> 64"

definition is_digit :: "char \<Rightarrow> bool" where
  "is_digit c \<longleftrightarrow> of_char c \<ge> (48 :: nat) \<and> of_char c \<le> (57 :: nat)"

text \<open>\<open>skip_atoi\<close>: the number and the rest of the string.\<close>

fun skip_atoi_loop :: "int \<Rightarrow> string \<Rightarrow> int \<times> string" where
  "skip_atoi_loop i [] = (i, [])"
| "skip_atoi_loop i (c # s) =
     (if is_digit c then skip_atoi_loop (s32 (i * 10 + of_char c - 48)) s else (i, c # s))"

definition skip_atoi :: "string \<Rightarrow> int \<times> string" where
  "skip_atoi s = skip_atoi_loop 0 s"

text \<open>\<open>tmp[i++]=digits[do_div(num,base)]\<close> until \<open>num\<close> is 0: least significant digit first.\<close>

function digits_of :: "string \<Rightarrow> nat \<Rightarrow> nat \<Rightarrow> string" where
  "digits_of digits base num =
     (if num = 0 \<or> base < 2 then [] else digits ! (num mod base) # digits_of digits base (num div base))"
  by auto
termination
  by (relation "measure (\<lambda>(_, _, num). num)") auto

declare digits_of.simps [simp del]

text \<open>\<open>while (n-- > 0) *str++ = c\<close>: what is written and the final value of the counter.\<close>

definition pad :: "char \<Rightarrow> int \<Rightarrow> string \<times> int" where
  "pad c n = (replicate (nat n) c, min n 0 - 1)"

abbreviation upper_digits :: string where
  "upper_digits \<equiv> ''0123456789ABCDEFGHIJKLMNOPQRSTUVWXYZ''"
abbreviation lower_digits :: string where
  "lower_digits \<equiv> ''0123456789abcdefghijklmnopqrstuvwxyz''"

text \<open>\<open>number\<close>: the characters it appends, or \<open>None\<close> where it returns the null pointer.\<close>

definition number :: "u32 \<Rightarrow> int \<Rightarrow> int \<Rightarrow> int \<Rightarrow> u32 \<Rightarrow> string option" where
  "number num base sz precision type =
     (let digits = (if type AND SMALL \<noteq> 0 then lower_digits else upper_digits);
          type = (if type AND LEFT \<noteq> 0 then type AND NOT ZEROPAD else type)
      in if base < 2 \<or> base > 36 then None
      else let c = (if type AND ZEROPAD \<noteq> 0 then CHR ''0'' else CHR '' '');
        neg = (type AND SIGN \<noteq> 0 \<and> sint num < 0);
        num = (if neg then - num else num);
        sign = (if neg then ''-'' else if type AND PLUS \<noteq> 0 then ''+''
                else if type AND SPACE \<noteq> 0 then '' '' else '''');
        sz = (if sign \<noteq> '''' then sz - 1 else sz);
        sz = (if type AND SPECIAL \<noteq> 0 then if base = 16 then sz - 2 else if base = 8 then sz - 1 else sz
              else sz);
        tmp = (if num = 0 then ''0'' else digits_of digits (nat base) (unat num));
        i = int (length tmp);
        precision = (if i > precision then i else precision);
        sz = sz - precision;
        (out1, sz) = (if type AND (ZEROPAD + LEFT) = 0 then pad CHR '' '' sz else ('''', sz));
        out2 = sign;
        out3 = (if type AND SPECIAL \<noteq> 0
                then if base = 8 then ''0'' else if base = 16 then [CHR ''0'', digits ! 33] else ''''
                else '''');
        (out4, sz) = (if type AND LEFT = 0 then pad c sz else ('''', sz));
        out5 = replicate (nat (precision - i)) CHR ''0'';
        out6 = rev tmp;
        (out7, sz) = pad CHR '' '' sz
      in Some (out1 @ out2 @ out3 @ out4 @ out5 @ out6 @ out7))"

datatype varg = Long u32 | Str string | Int_Ptr u32

text \<open>The state of the conversion: output so far, arguments left, values stored by \<open>%n\<close>.\<close>

record vs =
  out :: string
  args :: "varg list"
  stored :: "(u32 \<times> int) list"

definition emit :: "string \<Rightarrow> vs \<Rightarrow> vs" where
  "emit t v = v\<lparr>out := out v @ t\<rparr>"

text \<open>\<open>va_arg(args, int)\<close> and \<open>va_arg(args, unsigned long)\<close>.\<close>

fun va_long :: "vs \<Rightarrow> (u32 \<times> vs) option" where
  "va_long v = (case args v of Long x # r \<Rightarrow> Some (x, v\<lparr>args := r\<rparr>) | _ \<Rightarrow> None)"

text \<open>The flags, after the \<open>%\<close>.\<close>

fun vs_flags :: "u32 \<Rightarrow> string \<Rightarrow> u32 \<times> string" where
  "vs_flags flags [] = (flags, [])"
| "vs_flags flags (c # f) =
     (if c = CHR ''-'' then vs_flags (flags OR LEFT) f
      else if c = CHR ''+'' then vs_flags (flags OR PLUS) f
      else if c = CHR '' '' then vs_flags (flags OR SPACE) f
      else if c = CHR ''#'' then vs_flags (flags OR SPECIAL) f
      else if c = CHR ''0'' then vs_flags (flags OR ZEROPAD) f
      else (flags, c # f))"

text \<open>The field width.  After a \<open>*\<close> the code does not advance \<open>fmt\<close>.\<close>

definition vs_width :: "u32 \<Rightarrow> string \<Rightarrow> vs \<Rightarrow> (int \<times> u32 \<times> string \<times> vs) option" where
  "vs_width flags f v =
     (case f of
        c # _ \<Rightarrow>
          if is_digit c then let (w, f) = skip_atoi f in Some (w, flags, f, v)
          else if c = CHR ''*''
          then (case va_long v of
                  None \<Rightarrow> None
                | Some (x, v) \<Rightarrow>
                    if sint x < 0 then Some (s32 (- sint x), flags OR LEFT, f, v)
                    else Some (sint x, flags, f, v))
          else Some (- 1, flags, f, v)
      | [] \<Rightarrow> Some (- 1, flags, f, v))"

definition vs_precision :: "string \<Rightarrow> vs \<Rightarrow> (int \<times> string \<times> vs) option" where
  "vs_precision f v =
     (if f = [] \<or> hd f \<noteq> CHR ''.'' then Some (- 1, f, v)
      else let f = tl f in
        if f \<noteq> [] \<and> is_digit (hd f)
        then let (p, f) = skip_atoi f in Some (if p < 0 then 0 else p, f, v)
        else if f \<noteq> [] \<and> hd f = CHR ''*''
        then (case va_long v of
                None \<Rightarrow> None
              | Some (x, v) \<Rightarrow> Some (if sint x < 0 then 0 else sint x, f, v))
        else Some (0, f, v))"

fun vs_qualifier :: "string \<Rightarrow> string" where
  "vs_qualifier [] = []"
| "vs_qualifier (c # f) = (if c = CHR ''h'' \<or> c = CHR ''l'' \<or> c = CHR ''L'' then f else c # f)"

definition vs_number :: "int \<Rightarrow> u32 \<Rightarrow> int \<Rightarrow> int \<Rightarrow> vs \<Rightarrow> vs option" where
  "vs_number base flags field_width precision v =
     (case va_long v of
        None \<Rightarrow> None
      | Some (x, v) \<Rightarrow> (case number x base field_width precision flags of
                          None \<Rightarrow> None | Some t \<Rightarrow> Some (emit t v)))"

text \<open>
  The conversion character: the text it produces and the rest of the format.
  With \<open>while (--n > 0)\<close> the pads of \<open>%c\<close> are \<open>n - 1\<close> long, with
  \<open>while (len < n--)\<close> those of \<open>%s\<close> are \<open>n - len\<close> long.
\<close>

definition vs_convert :: "u32 \<Rightarrow> int \<Rightarrow> int \<Rightarrow> string \<Rightarrow> vs \<Rightarrow> (string \<times> vs) option" where
  "vs_convert flags field_width precision f v =
     (case f of
        [] \<Rightarrow> Some ([], emit ''%'' v)
      | c # f \<Rightarrow>
        (if c = CHR ''c'' then
           (case va_long v of
              None \<Rightarrow> None
            | Some (x, v) \<Rightarrow>
               let padding = replicate (nat (field_width - 1)) CHR '' '' in
               Some (f, emit (if flags AND LEFT = 0 then padding @ [char_of (unat x)]
                              else char_of (unat x) # padding) v))
         else if c = CHR ''s'' then
           (case args v of
              Str s # r \<Rightarrow>
                let len = int (length s);
                    len = (if precision < 0 then len else if len > precision then precision else len);
                    padding = replicate (nat (field_width - len)) CHR '' '';
                    body = take (nat len) s
                in Some (f, emit (if flags AND LEFT = 0 then padding @ body else body @ padding)
                              (v\<lparr>args := r\<rparr>))
            | _ \<Rightarrow> None)
         else if c = CHR ''o'' then map_option (Pair f) (vs_number 8 flags field_width precision v)
         else if c = CHR ''p'' then
           (if field_width = - 1 then map_option (Pair f) (vs_number 16 (flags OR ZEROPAD) 8 precision v)
            else map_option (Pair f) (vs_number 16 flags field_width precision v))
         else if c = CHR ''x'' then
           map_option (Pair f) (vs_number 16 (flags OR SMALL) field_width precision v)
         else if c = CHR ''X'' then map_option (Pair f) (vs_number 16 flags field_width precision v)
         else if c = CHR ''d'' \<or> c = CHR ''i'' then
           map_option (Pair f) (vs_number 10 (flags OR SIGN) field_width precision v)
         else if c = CHR ''u'' then map_option (Pair f) (vs_number 10 flags field_width precision v)
         else if c = CHR ''n'' then
           (case args v of
              Int_Ptr p # r \<Rightarrow> Some (f, v\<lparr>args := r, stored := stored v @ [(p, int (length (out v)))]\<rparr>)
            | _ \<Rightarrow> None)
         else Some (f, emit (if c = CHR ''%'' then [c] else [CHR ''%'', c]) v)))"

text \<open>Everything between a \<open>%\<close> and the end of its conversion.\<close>

definition vs_directive :: "string \<Rightarrow> vs \<Rightarrow> (string \<times> vs) option" where
  "vs_directive f v =
     (let (flags, f) = vs_flags 0 f in
      case vs_width flags f v of
        None \<Rightarrow> None
      | Some (field_width, flags, f, v) \<Rightarrow>
          (case vs_precision f v of
             None \<Rightarrow> None
           | Some (precision, f, v) \<Rightarrow> vs_convert flags field_width precision (vs_qualifier f) v))"

lemma skip_atoi_loop_length: "length (snd (skip_atoi_loop i f)) \<le> length f"
  by (induction i f rule: skip_atoi_loop.induct) auto

lemma vs_flags_length: "length (snd (vs_flags fl f)) \<le> length f"
  by (induction fl f rule: vs_flags.induct) auto

lemma vs_width_length: "vs_width fl f v = Some (w, fl', f', v') \<Longrightarrow> length f' \<le> length f"
  using skip_atoi_loop_length [of 0 f]
  by (auto simp: vs_width_def skip_atoi_def split: list.splits if_splits option.splits prod.splits)

lemma vs_precision_length: "vs_precision f v = Some (p, f', v') \<Longrightarrow> length f' \<le> length f"
  using skip_atoi_loop_length [of 0 "tl f"]
  by (auto simp: vs_precision_def skip_atoi_def Let_def split: if_splits option.splits prod.splits)

lemma vs_qualifier_length: "length (vs_qualifier f) \<le> length f"
  by (induction f rule: vs_qualifier.induct) auto

lemma vs_convert_length: "vs_convert fl w p f v = Some (f', v') \<Longrightarrow> length f' \<le> length f"
  by (auto simp: vs_convert_def Let_def split: list.splits if_splits option.splits varg.splits)

lemma vs_directive_length:
  assumes "vs_directive f v = Some (f', v')"
  shows "length f' \<le> length f"
proof -
  obtain fl g where g: "vs_flags 0 f = (fl, g)" by force
  obtain w fl' h v1 where h: "vs_width fl g v = Some (w, fl', h, v1)"
    using assms g by (auto simp: vs_directive_def split: option.splits)
  obtain p k v2 where k: "vs_precision h v1 = Some (p, k, v2)"
    using assms g h by (auto simp: vs_directive_def split: option.splits)
  have "vs_convert fl' w p (vs_qualifier k) v2 = Some (f', v')"
    using assms g h k by (simp add: vs_directive_def)
  then have "length f' \<le> length (vs_qualifier k)" by (rule vs_convert_length)
  also have "\<dots> \<le> length k" by (rule vs_qualifier_length)
  also have "\<dots> \<le> length h" using k by (rule vs_precision_length)
  also have "\<dots> \<le> length g" using h by (rule vs_width_length)
  also have "\<dots> \<le> length f" using vs_flags_length [of 0 f] g by simp
  finally show ?thesis .
qed

function vsprintf_loop :: "string \<Rightarrow> vs \<Rightarrow> vs option" where
  "vsprintf_loop [] v = Some v"
| "vsprintf_loop (c # f) v =
     (if c \<noteq> CHR ''%'' then vsprintf_loop f (emit [c] v)
      else case vs_directive f v of
             None \<Rightarrow> None
           | Some (f', v') \<Rightarrow> vsprintf_loop f' v')"
  by pat_completeness auto
termination
  by (relation "measure (\<lambda>(f, _). length f)") (auto dest!: vs_directive_length)

text \<open>\<open>vsprintf\<close>: the text in the buffer, the return value, the values stored by \<open>%n\<close>.\<close>

definition vsprintf :: "string \<Rightarrow> varg list \<Rightarrow> (string \<times> int \<times> (u32 \<times> int) list) option" where
  "vsprintf fmt as =
     (case vsprintf_loop fmt \<lparr>out = [], args = as, stored = []\<rparr> of
        None \<Rightarrow> None
      | Some v \<Rightarrow> Some (out v, int (length (out v)), stored v))"

section \<open>Printing and reading decimal numbers\<close>

lemma upper_digit: "k < 10 \<Longrightarrow> is_digit (upper_digits ! k) \<and> (of_char (upper_digits ! k) :: int) = 48 + int k"
proof -
  assume "k < 10"
  then have "k \<in> {0, 1, 2, 3, 4, 5, 6, 7, 8, 9}" by (simp only: insert_iff empty_iff) presburger
  then show ?thesis by (elim insertE emptyE) (simp_all add: is_digit_def)
qed

lemma skip_atoi_snoc:
  assumes "\<forall>d\<in>set s. is_digit d" "is_digit c"
  shows "skip_atoi_loop i (s @ [c]) = (s32 (fst (skip_atoi_loop i s) * 10 + of_char c - 48), [])"
  using assms by (induction s arbitrary: i) simp_all

lemma digits_of_read:
  "int n < 2 ^ 31 \<Longrightarrow> (\<forall>d\<in>set (digits_of upper_digits 10 n). is_digit d) \<and>
     skip_atoi_loop 0 (rev (digits_of upper_digits 10 n)) = (int n, [])"
proof (induction n rule: less_induct)
  case (less n)
  show ?case
  proof (cases "n = 0")
    case True
    then show ?thesis by (simp add: digits_of.simps)
  next
    case False
    define D where "D = upper_digits"
    let ?ds = "digits_of D 10 (n div 10)"
    have e: "digits_of D 10 n = D ! (n mod 10) # ?ds"
      using False by (subst digits_of.simps) simp
    have ih: "(\<forall>d\<in>set ?ds. is_digit d) \<and> skip_atoi_loop 0 (rev ?ds) = (int (n div 10), [])"
      using less.IH [of "n div 10"] less.prems False by (simp add: D_def)
    have u: "is_digit (D ! (n mod 10))" "(of_char (D ! (n mod 10)) :: int) = 48 + int (n mod 10)"
      using upper_digit [of "n mod 10"] unfolding D_def by simp_all
    have v: "int (n div 10) * 10 + (48 + int (n mod 10)) - 48 = int n" by presburger
    have s1: "\<forall>d\<in>set (rev ?ds). is_digit d" using ih by simp
    have "skip_atoi_loop 0 (rev ?ds @ [D ! (n mod 10)]) = (s32 (int n), [])"
      using skip_atoi_snoc [OF s1 u(1), of 0] by (simp only: ih [THEN conjunct2] u(2) fst_conv v)
    then show ?thesis using e ih u(1) s32_small [of "int n"] less.prems by (simp add: D_def)
  qed
qed

lemma vsprintf_d:
  "vsprintf ''%d'' [Long x] =
     (case number x 10 (- 1) (- 1) SIGN of None \<Rightarrow> None | Some t \<Rightarrow> Some (t, int (length t), []))"
  by (simp add: vsprintf_def vs_directive_def vs_width_def vs_precision_def vs_convert_def
      vs_number_def is_digit_def emit_def split: option.splits)

lemma number_plain:
  "number x 10 (- 1) (- 1) SIGN =
     (let y = (if sint x < 0 then - x else x) in
      Some ((if sint x < 0 then ''-'' else []) @ (if y = 0 then ''0'' else rev (digits_of upper_digits 10 (unat y)))))"
  by (simp add: number_def Let_def pad_def)

lemma unat_abs:
  assumes "sint (x :: u32) \<noteq> - (2 ^ 31)"
  shows "int (unat (if sint x < 0 then - x else x)) = \<bar>sint x\<bar>" "\<bar>sint x\<bar> < 2 ^ 31"
proof -
  have r: "- (2 ^ 31) \<le> sint x" "sint x < 2 ^ 31"
    using sint_greater_eq [of x] sint_less [of x] by simp_all
  then show b: "\<bar>sint x\<bar> < 2 ^ 31" using assms by auto
  have "int (unat (word_of_int \<bar>sint x\<bar> :: u32)) = \<bar>sint x\<bar>"
    using b by (simp add: unsigned_of_int take_bit_eq_mod)
  moreover have "(if sint x < 0 then - x else x) = word_of_int \<bar>sint x\<bar>"
    by (cases "sint x < 0") (simp_all add: abs_if)
  ultimately show "int (unat (if sint x < 0 then - x else x)) = \<bar>sint x\<bar>" by simp
qed

text \<open>C10: what \<open>%d\<close> prints for any 32-bit value other than the smallest reads back,
  with \<open>skip_atoi\<close>, as that value: a minus sign exactly for negative values, then
  digits whose value is the absolute value.\<close>

theorem vsprintf_decimal_roundtrip:
  assumes "sint x \<noteq> - (2 ^ 31)"
  shows "\<exists>t. vsprintf ''%d'' [Long x] = Some ((if sint x < 0 then ''-'' else []) @ t,
        int (length ((if sint x < 0 then ''-'' else []) @ t)), []) \<and>
      t \<noteq> [] \<and> (\<forall>c\<in>set t. is_digit c) \<and> skip_atoi t = (\<bar>sint x\<bar>, [])"
proof -
  define y where "y = (if sint x < 0 then - x else x)"
  let ?t = "if y = 0 then ''0'' else rev (digits_of upper_digits 10 (unat y))"
  have y: "int (unat y) = \<bar>sint x\<bar>" "\<bar>sint x\<bar> < 2 ^ 31" using unat_abs [OF assms] by (simp_all add: y_def)
  have r: "(\<forall>d\<in>set (digits_of upper_digits 10 (unat y)). is_digit d) \<and>
     skip_atoi_loop 0 (rev (digits_of upper_digits 10 (unat y))) = (int (unat y), [])"
    using y by (intro digits_of_read) simp
  have "digits_of upper_digits 10 (unat y) \<noteq> []" if "y \<noteq> 0"
    using that by (subst digits_of.simps) (simp add: unat_eq_0)
  then have "?t \<noteq> [] \<and> (\<forall>c\<in>set ?t. is_digit c) \<and> skip_atoi ?t = (\<bar>sint x\<bar>, [])"
    using r y(1) by (cases "y = 0") (simp_all add: skip_atoi_def is_digit_def s32_small)
  moreover have "number x 10 (- 1) (- 1) SIGN = Some ((if sint x < 0 then ''-'' else []) @ ?t)"
    by (simp only: number_plain Let_def y_def [symmetric])
  then have "vsprintf ''%d'' [Long x] = Some ((if sint x < 0 then ''-'' else []) @ ?t,
        int (length ((if sint x < 0 then ''-'' else []) @ ?t)), [])"
    by (simp only: vsprintf_d option.case)
  ultimately show ?thesis by blast
qed

theorem vsprintf_decimal_roundtrip_witness:
  "\<exists>t. vsprintf ''%d'' [Long (- 1991)] = Some (''-'' @ t, int (length (''-'' @ t)), []) \<and> skip_atoi t = (1991, [])"
  using vsprintf_decimal_roundtrip [of "- 1991"] by auto

end
