(* ===== verification/Tasks.thy ===== *)
theory Tasks
  imports Memory "HOL-Library.Signed_Division"
begin

unbundle bit_operations_syntax

text \<open>
  The data of \<open>src/include/linux/sched.h\<close>: task structures, segment descriptors,
  and the part of the kernel state the scheduler owns.

  A task is named by the address of its structure, as in C (0 is the null
  pointer); \<open>tstruct\<close> gives the structure at an address.  Inodes and open files
  are entries of fixed tables and named by their index.  The fields of the task
  state segment that no C code touches (\<open>esp1\<close> to \<open>cr3\<close>) are left out.

  Four fields are not variables of the program: \<open>umem\<close> is the data segment of a
  task as the task sees it (the paging below it is the subject of \<open>Memory\<close>; the
  accesses through \<open>fs\<close> work on it), \<open>inb_val\<close> is what reading an
  I/O port yields, \<open>ports\<close> the list of bytes written to I/O ports, and \<open>budget\<close>
  the number of times the modelled path may still be switched out.
\<close>

record sigaction =
  sa_handler :: u32
  sa_mask :: u32
  sa_flags :: u32
  sa_restorer :: u32

record tss_struct =
  back_link :: u32
  esp0 :: u32
  ss0 :: u32
  eip :: u32
  eflags :: u32
  eax :: u32
  ecx :: u32
  edx :: u32
  ebx :: u32
  esp :: u32
  ebp :: u32
  esi :: u32
  edi :: u32
  es_reg :: u32
  cs_reg :: u32
  ss_reg :: u32
  ds_reg :: u32
  fs_reg :: u32
  gs_reg :: u32
  ldt_sel :: u32
  trace_bitmap :: u32
  i387 :: "u32 list"

type_synonym desc = "u32 \<times> u32"

record task_struct =
  state :: int
  counter :: int
  priority :: int
  signal :: u32
  sigactions :: "nat \<Rightarrow> sigaction"
  blocked :: u32
  exit_code :: int
  start_code :: u32
  end_code :: u32
  end_data :: u32
  brk :: u32
  start_stack :: u32
  pid :: int
  father :: int
  pgrp :: int
  session :: int
  leader :: int
  uid :: u16
  euid :: u16
  suid :: u16
  gid :: u16
  egid :: u16
  sgid :: u16
  alarm :: int
  utime :: int
  stime :: int
  cutime :: int
  cstime :: int
  start_time :: int
  used_math :: u16
  tty :: int
  umask :: u16
  pwd :: "nat option"
  root :: "nat option"
  executable :: "nat option"
  close_on_exec :: u32
  filp :: "nat \<Rightarrow> nat option"
  ldt :: "nat \<Rightarrow> desc"
  tss :: tss_struct

abbreviation (input) NR_TASKS :: nat where "NR_TASKS \<equiv> 64"
abbreviation (input) NR_OPEN :: nat where "NR_OPEN \<equiv> 20"
abbreviation (input) HZ :: int where "HZ \<equiv> 100"
abbreviation (input) TASK_RUNNING :: int where "TASK_RUNNING \<equiv> 0"
abbreviation (input) TASK_INTERRUPTIBLE :: int where "TASK_INTERRUPTIBLE \<equiv> 1"
abbreviation (input) TASK_UNINTERRUPTIBLE :: int where "TASK_UNINTERRUPTIBLE \<equiv> 2"
abbreviation (input) TASK_ZOMBIE :: int where "TASK_ZOMBIE \<equiv> 3"
abbreviation (input) TASK_STOPPED :: int where "TASK_STOPPED \<equiv> 4"

record timer =
  t_jiffies :: int
  t_fn :: nat
  t_next :: "nat option"

record sched = mm +
  task :: "nat \<Rightarrow> u32"
  tstruct :: "u32 \<Rightarrow> task_struct"
  current :: u32
  init_task :: u32
  jiffies :: int
  startup_time :: int
  last_pid :: int
  last_task_used_math :: u32
  wait_motor :: "nat \<Rightarrow> u32"
  mon_timer :: "nat \<Rightarrow> int"
  moff_timer :: "nat \<Rightarrow> int"
  current_DOR :: u8
  selected :: u8
  timer_list :: "nat \<Rightarrow> timer"
  next_timer :: "nat option"
  beepcount :: int
  gdt :: "nat \<Rightarrow> desc"
  fpu :: "u32 list"
  umem :: "u32 \<Rightarrow> u32 \<Rightarrow> u8"
  inb_val :: "u16 \<Rightarrow> u8"
  ports :: "(u16 \<times> u8) list"
  budget :: nat

section \<open>Access to tasks\<close>

definition cur :: "'z sched_scheme \<Rightarrow> task_struct" where
  "cur s = tstruct s (current s)"

definition upd_task :: "u32 \<Rightarrow> (task_struct \<Rightarrow> task_struct) \<Rightarrow> 'z sched_scheme \<Rightarrow> 'z sched_scheme" where
  "upd_task p f s = s\<lparr>tstruct := (tstruct s)(p := f (tstruct s p))\<rparr>"

abbreviation upd_cur :: "(task_struct \<Rightarrow> task_struct) \<Rightarrow> 'z sched_scheme \<Rightarrow> 'z sched_scheme" where
  "upd_cur f s \<equiv> upd_task (current s) f s"

definition outb :: "u8 \<Rightarrow> u16 \<Rightarrow> 'z sched_scheme \<Rightarrow> 'z sched_scheme" where
  "outb v port s = s\<lparr>ports := ports s @ [(port, v)]\<rparr>"

definition CURRENT_TIME :: "'z sched_scheme \<Rightarrow> int" where
  "CURRENT_TIME s = s32 (startup_time s + jiffies s sdiv HZ)"

section \<open>User memory (\<open>include/asm/segment.h\<close>)\<close>

definition get_fs_byte :: "u32 \<Rightarrow> 'z sched_scheme \<Rightarrow> u8" where
  "get_fs_byte a s = umem s (current s) a"

definition put_fs_byte :: "u8 \<Rightarrow> u32 \<Rightarrow> 'z sched_scheme \<Rightarrow> 'z sched_scheme" where
  "put_fs_byte v a s = s\<lparr>umem := (umem s)(current s := (umem s (current s))(a := v))\<rparr>"

text \<open>Little-endian words.\<close>

definition byte_of :: "u32 \<Rightarrow> nat \<Rightarrow> u8" where
  "byte_of v k = ucast (drop_bit (8 * k) v)"

definition get_fs_long :: "u32 \<Rightarrow> 'z sched_scheme \<Rightarrow> u32" where
  "get_fs_long a s = (ucast (get_fs_byte a s) :: u32) OR push_bit 8 (ucast (get_fs_byte (a + 1) s))
     OR push_bit 16 (ucast (get_fs_byte (a + 2) s)) OR push_bit 24 (ucast (get_fs_byte (a + 3) s))"

definition put_fs_long :: "u32 \<Rightarrow> u32 \<Rightarrow> 'z sched_scheme \<Rightarrow> 'z sched_scheme" where
  "put_fs_long v a s = put_fs_byte (byte_of v 3) (a + 3) (put_fs_byte (byte_of v 2) (a + 2)
     (put_fs_byte (byte_of v 1) (a + 1) (put_fs_byte (byte_of v 0) a s)))"

definition put_fs_bytes :: "u8 list \<Rightarrow> u32 \<Rightarrow> 'z sched_scheme \<Rightarrow> 'z sched_scheme" where
  "put_fs_bytes bs a s = fold (\<lambda>(i, b) s. put_fs_byte b (a + of_nat i) s) (enumerate 0 bs) s"

definition get_fs_bytes :: "nat \<Rightarrow> u32 \<Rightarrow> 'z sched_scheme \<Rightarrow> u8 list" where
  "get_fs_bytes n a s = map (\<lambda>i. get_fs_byte (a + of_nat i) s) [0..<n]"

definition suser :: "'z sched_scheme \<Rightarrow> bool" where
  "suser s \<longleftrightarrow> euid (cur s) = 0"

section \<open>Segment descriptors\<close>

text \<open>A descriptor is a pair of words; the macros store into single bytes of them.\<close>

definition set_base :: "desc \<Rightarrow> u32 \<Rightarrow> desc" where
  "set_base d base =
     ((fst d AND 0xffff) OR push_bit 16 base,
      (snd d AND 0x00ffff00) OR (drop_bit 16 base AND 0xff) OR (base AND 0xff000000))"

definition get_base :: "desc \<Rightarrow> u32" where
  "get_base d =
     (snd d AND 0xff000000) OR push_bit 16 (snd d AND 0xff) OR drop_bit 16 (fst d)"

definition set_limit :: "desc \<Rightarrow> u32 \<Rightarrow> desc" where
  "set_limit d limit =
     (let l = drop_bit 12 (limit - 1) in
      ((fst d AND 0xffff0000) OR (l AND 0xffff),
       (snd d AND 0xff00ffff) OR (snd d AND 0x00f00000) OR (l AND 0x00ff0000)))"

text \<open>The \<open>lsl\<close> instruction, plus one: the limit in bytes, counted in pages if bit 23 is set.\<close>

definition get_limit :: "desc \<Rightarrow> u32" where
  "get_limit d =
     (let l = (fst d AND 0xffff) OR (snd d AND 0xf0000) in
      (if bit (snd d) 23 then push_bit 12 l OR 0xfff else l) + 1)"

abbreviation (input) FIRST_TSS_ENTRY :: nat where "FIRST_TSS_ENTRY \<equiv> 4"
abbreviation (input) FIRST_LDT_ENTRY :: nat where "FIRST_LDT_ENTRY \<equiv> 5"

definition LDT_SEL :: "nat \<Rightarrow> u32" where
  "LDT_SEL n = push_bit 4 (of_nat n) + push_bit 3 (of_nat FIRST_LDT_ENTRY)"

text \<open>\<open>_set_tssldt_desc\<close>: limit 104, the base in three pieces, the type byte.\<close>

definition tssldt_desc :: "u32 \<Rightarrow> u32 \<Rightarrow> desc" where
  "tssldt_desc addr type =
     (push_bit 16 addr OR 104,
      (addr AND 0xff000000) OR push_bit 8 type OR (drop_bit 16 addr AND 0xff))"

text \<open>Offsets of \<open>ldt\<close> and \<open>tss\<close> in \<open>struct task_struct\<close>.\<close>

abbreviation (input) LDT_OFFSET :: u32 where "LDT_OFFSET \<equiv> 720"
abbreviation (input) TSS_OFFSET :: u32 where "TSS_OFFSET \<equiv> 744"

definition set_tss_desc :: "nat \<Rightarrow> u32 \<Rightarrow> 'z sched_scheme \<Rightarrow> 'z sched_scheme" where
  "set_tss_desc n addr s = s\<lparr>gdt := (gdt s)(n := tssldt_desc addr 0x89)\<rparr>"

definition set_ldt_desc :: "nat \<Rightarrow> u32 \<Rightarrow> 'z sched_scheme \<Rightarrow> 'z sched_scheme" where
  "set_ldt_desc n addr s = s\<lparr>gdt := (gdt s)(n := tssldt_desc addr 0x82)\<rparr>"

lemma get_set_base: "get_base (set_base d x) = x"
proof (rule bit_word_eqI)
  fix n assume n: "n < LENGTH(32)"
  have m: "(0xff000000 :: u32) = push_bit 24 (mask 8)" "(0xff :: u32) = mask 8" "(0xffff :: u32) = mask 16"
    "(0x00ffff00 :: u32) = push_bit 8 (mask 16)"
    by (simp_all add: mask_eq_exp_minus_1 push_bit_eq_mult)
  consider (low) "n < 16" | (mid) k where "n = 16 + k" "k < 8" | (high) k where "n = 24 + k" "k < 8"
  proof -
    have "n < 16 \<or> (\<exists>k<8. n = 16 + k) \<or> (\<exists>k<8. n = 24 + k)" using n by simp presburger
    then show thesis using that by blast
  qed
  then show "bit (get_base (set_base d x)) n = bit x n"
    by cases (simp_all add: get_base_def set_base_def m bit_simps)
qed

lemma get_put_long: "get_fs_long a (put_fs_long v a s) = v"
proof -
  have b: "get_fs_byte c (put_fs_byte x b s) = (if c = b then x else get_fs_byte c s)" for c x b and s :: "'a sched_scheme"
    by (simp add: get_fs_byte_def put_fs_byte_def)
  have e: "get_fs_long a (put_fs_long v a s) = (ucast (byte_of v 0) :: u32) OR push_bit 8 (ucast (byte_of v 1))
     OR push_bit 16 (ucast (byte_of v 2)) OR push_bit 24 (ucast (byte_of v 3))"
    unfolding get_fs_long_def put_fs_long_def b by simp
  show ?thesis
  proof (rule bit_word_eqI)
    fix n assume n: "n < LENGTH(32)"
    consider (a) "n < 8" | (b) k where "n = 8 + k" "k < 8" | (c) k where "n = 16 + k" "k < 8" | (d) k where "n = 24 + k" "k < 8"
    proof -
      have "n < 8 \<or> (\<exists>k<8. n = 8 + k) \<or> (\<exists>k<8. n = 16 + k) \<or> (\<exists>k<8. n = 24 + k)" using n by simp presburger
      then show thesis using that by blast
    qed
    then show "bit (get_fs_long a (put_fs_long v a s)) n = bit v n"
      unfolding e by cases (simp_all add: byte_of_def bit_simps)
  qed
qed

end
