(* ===== verification/Sched.thy ===== *)
theory Sched
  imports Tasks
begin

unbundle bit_operations_syntax

text \<open>
  The scheduler and its neighbours, from \<open>src/kernel/sched.c\<close>: choosing the next
  task, sleeping and waking, the floppy motor timers, the timer list, the clock
  tick, and the simple system calls of the file.

  A path that calls \<open>schedule\<close> is left while other tasks and interrupts run.  The
  parameter \<open>env\<close> is what they do: \<open>env n\<close> transforms the state during the
  switch after which \<open>n\<close> more switches are allowed.  With no switch left the
  path is \<open>Blocked\<close>; so is one that spins in the scheduler's loop for ever.
\<close>

definition SIG_BLOCKABLE :: u32 where
  "SIG_BLOCKABLE = NOT (sigbit SIGKILL OR sigbit SIGSTOP)"

section \<open>The scheduler\<close>

definition sched_signal :: "nat \<Rightarrow> 'z sched_scheme \<Rightarrow> 'z sched_scheme" where
  "sched_signal i s =
     (let p = task s i in
      if p = 0 then s
      else let s1 = (if alarm (tstruct s p) \<noteq> 0 \<and> alarm (tstruct s p) < jiffies s
                     then upd_task p (\<lambda>t. t\<lparr>signal := signal t OR sigbit SIGALRM, alarm := 0\<rparr>) s
                     else s);
               t = tstruct s1 p
           in if signal t AND NOT (SIG_BLOCKABLE AND blocked t) \<noteq> 0 \<and> state t = TASK_INTERRUPTIBLE
              then upd_task p (\<lambda>t. t\<lparr>state := TASK_RUNNING\<rparr>) s1
              else s1)"

text \<open>The slots from \<open>LAST_TASK\<close> down to, but not including, \<open>FIRST_TASK\<close>.\<close>

definition slots_down :: "nat list" where
  "slots_down = rev [1..<NR_TASKS]"

definition sched_signals :: "'z sched_scheme \<Rightarrow> 'z sched_scheme" where
  "sched_signals s = foldl (\<lambda>s i. sched_signal i s) s slots_down"

definition pick_step :: "'z sched_scheme \<Rightarrow> int \<times> nat \<Rightarrow> nat \<Rightarrow> int \<times> nat" where
  "pick_step s cn i =
     (let p = task s i in
      if p \<noteq> 0 \<and> state (tstruct s p) = TASK_RUNNING \<and> counter (tstruct s p) > fst cn
      then (counter (tstruct s p), i) else cn)"

definition pick :: "'z sched_scheme \<Rightarrow> int \<times> nat" where
  "pick s = foldl (pick_step s) (- 1, 0) slots_down"

definition recalc_one :: "nat \<Rightarrow> 'z sched_scheme \<Rightarrow> 'z sched_scheme" where
  "recalc_one i s =
     (let p = task s i in
      if p = 0 then s
      else upd_task p (\<lambda>t. t\<lparr>counter := s32 (counter t div 2 + priority t)\<rparr>) s)"

definition recalc :: "'z sched_scheme \<Rightarrow> 'z sched_scheme" where
  "recalc s = foldl (\<lambda>s i. recalc_one i s) s slots_down"

partial_function (option) sched_loop :: "'z sched_scheme \<Rightarrow> (nat \<times> 'z sched_scheme) option" where
  "sched_loop s =
     (let (c, next) = pick s in if c \<noteq> 0 then Some (next, s) else sched_loop (recalc s))"

definition switch_to :: "nat \<Rightarrow> 'z sched_scheme \<Rightarrow> 'z sched_scheme" where
  "switch_to n s = (if current s = task s n then s else s\<lparr>current := task s n\<rparr>)"

definition schedule ::
  "(nat \<Rightarrow> 'z sched_scheme \<Rightarrow> 'z sched_scheme) \<Rightarrow> 'z sched_scheme \<Rightarrow> ('z sched_scheme, unit) outcome" where
  "schedule env s =
     (case sched_loop (sched_signals s) of
        None \<Rightarrow> Blocked
      | Some (next, s1) \<Rightarrow>
          (case budget s1 of
             0 \<Rightarrow> Blocked
           | Suc n \<Rightarrow> Ret () ((env n (switch_to next s1))\<lparr>budget := n, current := current s\<rparr>)))"

definition sys_pause ::
  "(nat \<Rightarrow> 'z sched_scheme \<Rightarrow> 'z sched_scheme) \<Rightarrow> 'z sched_scheme \<Rightarrow> ('z sched_scheme, int) outcome" where
  "sys_pause env s =
     bindO (schedule env (upd_cur (\<lambda>t. t\<lparr>state := TASK_INTERRUPTIBLE\<rparr>) s)) (\<lambda>_ s. Ret 0 s)"

section \<open>Sleeping and waking\<close>

text \<open>
  A wait queue is one pointer to a task somewhere in the kernel's data; it is
  given by the function that reads it and the function that writes it.  \<open>sleep_enter\<close> and
  \<open>sleep_leave\<close> are what \<open>sleep_on\<close> does before and after other tasks run.
\<close>

definition sleep_enter :: "(u32 \<Rightarrow> 'z sched_scheme \<Rightarrow> 'z sched_scheme) \<Rightarrow> 'z sched_scheme \<Rightarrow> 'z sched_scheme" where
  "sleep_enter put s = (let s1 = put (current s) s in upd_cur (\<lambda>t. t\<lparr>state := TASK_UNINTERRUPTIBLE\<rparr>) s1)"

definition sleep_leave :: "u32 \<Rightarrow> 'z sched_scheme \<Rightarrow> 'z sched_scheme" where
  "sleep_leave tmp s = (if tmp \<noteq> 0 then upd_task tmp (\<lambda>t. t\<lparr>state := 0\<rparr>) s else s)"

definition sleep_on ::
  "(nat \<Rightarrow> 'z sched_scheme \<Rightarrow> 'z sched_scheme) \<Rightarrow> ('z sched_scheme \<Rightarrow> u32)
   \<Rightarrow> (u32 \<Rightarrow> 'z sched_scheme \<Rightarrow> 'z sched_scheme) \<Rightarrow> 'z sched_scheme \<Rightarrow> ('z sched_scheme, unit) outcome" where
  "sleep_on env get put s =
     (if current s = init_task s then Panic ''task[0] trying to sleep''
      else let tmp = get s
           in bindO (schedule env (sleep_enter put s)) (\<lambda>_ s. Ret () (sleep_leave tmp s)))"

lemma upd_task_simps [simp]:
  "task (upd_task p f s) = task s" "current (upd_task p f s) = current s"
  "budget (upd_task p f s) = budget s" "init_task (upd_task p f s) = init_task s"
  "jiffies (upd_task p f s) = jiffies s" "tstruct (upd_task p f s) = (tstruct s)(p := f (tstruct s p))"
  "mem_map (upd_task p f s) = mem_map s" "pmem (upd_task p f s) = pmem s"
  "HIGH_MEMORY (upd_task p f s) = HIGH_MEMORY s"
  by (simp_all add: upd_task_def)

lemma sched_signal_simps [simp]:
  "task (sched_signal i s) = task s" "current (sched_signal i s) = current s"
  "budget (sched_signal i s) = budget s"
  by (simp_all add: sched_signal_def Let_def)

lemma foldl_keeps: "(\<And>s i. g (f s i) = g s) \<Longrightarrow> g (foldl f s xs) = g s"
  by (induction xs arbitrary: s) auto

lemma sched_signals_simps [simp]:
  "task (sched_signals s) = task s" "current (sched_signals s) = current s"
  "budget (sched_signals s) = budget s"
  unfolding sched_signals_def by (rule foldl_keeps, simp)+

lemma recalc_simps [simp]:
  "task (recalc s) = task s" "current (recalc s) = current s" "budget (recalc s) = budget s"
  unfolding recalc_def by (rule foldl_keeps, simp add: recalc_one_def Let_def)+

text \<open>Every switch uses up one unit of the budget.\<close>

lemma sched_loop_keeps:
  "sched_loop s = Some r \<Longrightarrow> budget (snd r) = budget s \<and> task (snd r) = task s \<and> current (snd r) = current s"
proof (rule sched_loop.raw_induct, goal_cases)
  case (1 f s r)
  show ?case
  proof (cases "fst (pick s) = 0")
    case True
    then have "f (recalc s) = Some r" using 1(3) by (simp add: case_prod_beta)
    from 1(2) [OF this] show ?thesis by simp
  qed (use 1(3) in \<open>auto simp: case_prod_beta\<close>)
qed

lemma schedule_Ret:
  assumes "schedule env s = Ret u s'"
  shows "budget s' < budget s" "current s' = current s"
  using assms sched_loop_keeps [of "sched_signals s"]
  by (auto simp: schedule_def split: option.splits nat.splits)

lemma sleep_on_Ret:
  assumes "sleep_on env get put s = Ret u s'" "\<And>v s. budget (put v s) = budget s"
    "\<And>v s. current (put v s) = current s"
  shows "budget s' < budget s" "current s' = current s"
proof -
  let ?s2 = "upd_cur (\<lambda>t. t\<lparr>state := TASK_UNINTERRUPTIBLE\<rparr>) (put (current s) s)"
  obtain s1 where s1: "schedule env ?s2 = Ret () s1"
    "s' = (if get s \<noteq> 0 then upd_task (get s) (\<lambda>t. t\<lparr>state := 0\<rparr>) s1 else s1)"
    using assms(1) by (auto simp: sleep_on_def sleep_enter_def sleep_leave_def Let_def bindO_eq_Ret split: if_splits)
  show "budget s' < budget s" "current s' = current s"
    using schedule_Ret [OF s1(1)] s1(2) assms(2,3) by auto
qed

function isleep_loop ::
  "(nat \<Rightarrow> 'z sched_scheme \<Rightarrow> 'z sched_scheme) \<Rightarrow> ('z sched_scheme \<Rightarrow> u32) \<Rightarrow> 'z sched_scheme
   \<Rightarrow> ('z sched_scheme, unit) outcome" where
  "isleep_loop env get s =
     bindO (schedule env (upd_cur (\<lambda>t. t\<lparr>state := TASK_INTERRUPTIBLE\<rparr>) s)) (\<lambda>_ s.
       if get s \<noteq> 0 \<and> get s \<noteq> current s
       then isleep_loop env get (upd_task (get s) (\<lambda>t. t\<lparr>state := 0\<rparr>) s)
       else Ret () s)"
  by auto
termination
  by (relation "measure (\<lambda>(_, _, s). budget s)") (auto dest: schedule_Ret)

declare isleep_loop.simps [simp del]

definition interruptible_sleep_on ::
  "(nat \<Rightarrow> 'z sched_scheme \<Rightarrow> 'z sched_scheme) \<Rightarrow> ('z sched_scheme \<Rightarrow> u32)
   \<Rightarrow> (u32 \<Rightarrow> 'z sched_scheme \<Rightarrow> 'z sched_scheme) \<Rightarrow> 'z sched_scheme \<Rightarrow> ('z sched_scheme, unit) outcome" where
  "interruptible_sleep_on env get put s =
     (if current s = init_task s then Panic ''task[0] trying to sleep''
      else let tmp = get s
           in bindO (isleep_loop env get (put (current s) s)) (\<lambda>_ s.
              let s1 = put tmp s in
              Ret () (if tmp \<noteq> 0 then upd_task tmp (\<lambda>t. t\<lparr>state := 0\<rparr>) s1 else s1)))"

definition wake_up :: "('z sched_scheme \<Rightarrow> u32) \<Rightarrow> 'z sched_scheme \<Rightarrow> 'z sched_scheme" where
  "wake_up get s = (if get s \<noteq> 0 then upd_task (get s) (\<lambda>t. t\<lparr>state := 0\<rparr>) s else s)"

lemma isleep_loop_Ret: "isleep_loop env get s = Ret u s' \<Longrightarrow> budget s' < budget s \<and> current s' = current s"
proof (induction env get s rule: isleep_loop.induct)
  case (1 env get s)
  from 1(2) obtain s1 where s1: "schedule env (upd_cur (\<lambda>t. t\<lparr>state := TASK_INTERRUPTIBLE\<rparr>) s) = Ret () s1"
    "(if get s1 \<noteq> 0 \<and> get s1 \<noteq> current s1
      then isleep_loop env get (upd_task (get s1) (\<lambda>t. t\<lparr>state := 0\<rparr>) s1) else Ret () s1) = Ret u s'"
    by (subst (asm) isleep_loop.simps) (auto elim!: bindO_RetE)
  note b = schedule_Ret [OF s1(1)]
  show ?case
  proof (cases "get s1 \<noteq> 0 \<and> get s1 \<noteq> current s1")
    case True
    then show ?thesis using 1(1) [OF s1(1) True] s1(2) b by auto
  qed (use s1(2) b in auto)
qed

section \<open>Floppy motors\<close>

abbreviation (input) FD_DOR :: u16 where "FD_DOR \<equiv> 0x3f2"

definition ticks_to_floppy_on :: "nat \<Rightarrow> 'z sched_scheme \<Rightarrow> ('z sched_scheme, int) outcome" where
  "ticks_to_floppy_on nr s =
     (if nr > 3 then Panic ''floppy_on: nr>3''
      else let mask = push_bit nr (0x10 :: u8) OR current_DOR s;
               s1 = s\<lparr>moff_timer := (moff_timer s)(nr := 10000)\<rparr>;
               mask = (if selected s = 0 then (mask AND 0xFC) OR of_nat nr else mask);
               s2 = (if mask \<noteq> current_DOR s
                     then let s2 = outb mask FD_DOR s1;
                              s3 = (if (mask XOR current_DOR s) AND 0xf0 \<noteq> 0
                                    then s2\<lparr>mon_timer := (mon_timer s2)(nr := HZ div 2)\<rparr>
                                    else if mon_timer s2 nr < 2
                                    then s2\<lparr>mon_timer := (mon_timer s2)(nr := 2)\<rparr>
                                    else s2)
                          in s3\<lparr>current_DOR := mask\<rparr>
                     else s1)
           in Ret (mon_timer s2 nr) s2)"

lemma ticks_Ret: "ticks_to_floppy_on nr s = Ret v s' \<Longrightarrow> budget s' = budget s"
  by (auto simp: ticks_to_floppy_on_def Let_def outb_def split: if_splits)

function floppy_on ::
  "(nat \<Rightarrow> 'z sched_scheme \<Rightarrow> 'z sched_scheme) \<Rightarrow> nat \<Rightarrow> 'z sched_scheme \<Rightarrow> ('z sched_scheme, unit) outcome" where
  "floppy_on env nr s =
     bindO (ticks_to_floppy_on nr s) (\<lambda>v s.
       if v \<noteq> 0
       then bindO (sleep_on env (\<lambda>s. wait_motor s nr) (\<lambda>p s. s\<lparr>wait_motor := (wait_motor s)(nr := p)\<rparr>) s)
              (\<lambda>_ s. floppy_on env nr s)
       else Ret () s)"
  by auto
termination
  by (relation "measure (\<lambda>(_, _, s). budget s)") (auto dest!: ticks_Ret sleep_on_Ret(1))

declare floppy_on.simps [simp del]

definition floppy_off :: "nat \<Rightarrow> 'z sched_scheme \<Rightarrow> ('z sched_scheme, unit) outcome" where
  "floppy_off nr s =
     (if nr > 3 then Undefined ''moff_timer''
      else Ret () (s\<lparr>moff_timer := (moff_timer s)(nr := 3 * HZ)\<rparr>))"

definition floppy_timer_one :: "nat \<Rightarrow> 'z sched_scheme \<Rightarrow> 'z sched_scheme" where
  "floppy_timer_one i s =
     (let mask = push_bit i (0x10 :: u8) in
      if mask AND current_DOR s = 0 then s
      else if mon_timer s i \<noteq> 0
      then let s1 = s\<lparr>mon_timer := (mon_timer s)(i := s32 (mon_timer s i - 1))\<rparr>
           in if mon_timer s1 i = 0 then wake_up (\<lambda>s. wait_motor s i) s1 else s1
      else if moff_timer s i = 0
      then let s1 = s\<lparr>current_DOR := current_DOR s AND NOT mask\<rparr> in outb (current_DOR s1) FD_DOR s1
      else s\<lparr>moff_timer := (moff_timer s)(i := s32 (moff_timer s i - 1))\<rparr>)"

definition do_floppy_timer :: "'z sched_scheme \<Rightarrow> 'z sched_scheme" where
  "do_floppy_timer s = foldl (\<lambda>s i. floppy_timer_one i s) s [0..<4]"

section \<open>Timers\<close>

abbreviation (input) TIME_REQUESTS :: nat where "TIME_REQUESTS \<equiv> 64"

definition set_timer :: "nat \<Rightarrow> timer \<Rightarrow> 'z sched_scheme \<Rightarrow> 'z sched_scheme" where
  "set_timer p t s = s\<lparr>timer_list := (timer_list s)(p := t)\<rparr>"

definition free_timer :: "'z sched_scheme \<Rightarrow> nat option" where
  "free_timer s = List.find (\<lambda>p. t_fn (timer_list s p) = 0) [0..<TIME_REQUESTS]"

text \<open>
  The loop that moves a new timer, put at the head of the list, to its place: the
  contents of \<open>p\<close> and of the next entry are exchanged.  The fuel bounds the
  length of the list, which has at most \<open>TIME_REQUESTS\<close> entries.
\<close>

primrec timer_insert :: "nat \<Rightarrow> nat \<Rightarrow> 'z sched_scheme \<Rightarrow> ('z sched_scheme, unit) outcome" where
  "timer_insert 0 p s = Blocked"
| "timer_insert (Suc fuel) p s =
     (case t_next (timer_list s p) of
        None \<Rightarrow> Ret () s
      | Some q \<Rightarrow>
          let P = timer_list s p; Q = timer_list s q in
          if t_jiffies Q < t_jiffies P
          then timer_insert fuel q
                 (set_timer q (Q\<lparr>t_jiffies := s32 (t_jiffies P - t_jiffies Q), t_fn := t_fn P\<rparr>)
                   (set_timer p (P\<lparr>t_jiffies := t_jiffies Q, t_fn := t_fn Q\<rparr>) s))
          else Ret () s)"

definition add_timer ::
  "(nat \<Rightarrow> 'z sched_scheme \<Rightarrow> ('z sched_scheme, unit) outcome) \<Rightarrow> int \<Rightarrow> nat \<Rightarrow> 'z sched_scheme
   \<Rightarrow> ('z sched_scheme, unit) outcome" where
  "add_timer run jiff fn s =
     (if fn = 0 then Ret () s
      else if jiff \<le> 0 then run fn s
      else case free_timer s of
             None \<Rightarrow> Panic ''No more time requests free''
           | Some p \<Rightarrow>
               timer_insert (TIME_REQUESTS + 1) p
                 ((set_timer p \<lparr>t_jiffies = jiff, t_fn = fn, t_next = next_timer s\<rparr> s)\<lparr>next_timer := Some p\<rparr>))"

text \<open>The loop of \<open>do_timer\<close> over the timers that are due.\<close>

primrec run_timers :: "nat \<Rightarrow> (nat \<Rightarrow> 'z sched_scheme \<Rightarrow> ('z sched_scheme, unit) outcome) \<Rightarrow> 'z sched_scheme
   \<Rightarrow> ('z sched_scheme, unit) outcome" where
  "run_timers 0 run s = Blocked"
| "run_timers (Suc fuel) run s =
     (case next_timer s of
        None \<Rightarrow> Ret () s
      | Some p \<Rightarrow>
          let t = timer_list s p in
          if t_jiffies t \<le> 0
          then bindO (run (t_fn t) ((set_timer p (t\<lparr>t_fn := 0\<rparr>) s)\<lparr>next_timer := t_next t\<rparr>))
                 (\<lambda>_ s. run_timers fuel run s)
          else Ret () s)"

definition sysbeepstop :: "'z sched_scheme \<Rightarrow> 'z sched_scheme" where
  "sysbeepstop s = outb (inb_val s 0x61 AND 0xFC) 0x61 s"

definition do_timer ::
  "(nat \<Rightarrow> 'z sched_scheme \<Rightarrow> ('z sched_scheme, unit) outcome) \<Rightarrow> nat \<Rightarrow> (nat \<Rightarrow> 'z sched_scheme \<Rightarrow> 'z sched_scheme)
   \<Rightarrow> int \<Rightarrow> 'z sched_scheme \<Rightarrow> ('z sched_scheme, unit) outcome" where
  "do_timer run fuel env cpl s =
     (let s1 = (if beepcount s \<noteq> 0
                then let s1 = s\<lparr>beepcount := s32 (beepcount s - 1)\<rparr>
                     in if beepcount s1 = 0 then sysbeepstop s1 else s1
                else s);
          s2 = (if cpl \<noteq> 0 then upd_cur (\<lambda>t. t\<lparr>utime := s32 (utime t + 1)\<rparr>) s1
                else upd_cur (\<lambda>t. t\<lparr>stime := s32 (stime t + 1)\<rparr>) s1)
      in bindO (case next_timer s2 of
                  None \<Rightarrow> Ret () s2
                | Some p \<Rightarrow>
                    run_timers fuel run
                      (set_timer p ((timer_list s2 p)\<lparr>t_jiffies := s32 (t_jiffies (timer_list s2 p) - 1)\<rparr>) s2))
           (\<lambda>_ s3.
             let s4 = (if current_DOR s3 AND 0xf0 \<noteq> 0 then do_floppy_timer s3 else s3);
                 s5 = upd_cur (\<lambda>t. t\<lparr>counter := s32 (counter t - 1)\<rparr>) s4
             in if counter (cur s5) > 0 then Ret () s5
                else let s6 = upd_cur (\<lambda>t. t\<lparr>counter := 0\<rparr>) s5
                     in if cpl = 0 then Ret () s6 else schedule env s6))"

section \<open>Simple system calls\<close>

definition sys_alarm :: "int \<Rightarrow> 'z sched_scheme \<Rightarrow> int \<times> 'z sched_scheme" where
  "sys_alarm seconds s =
     (let old = alarm (cur s);
          old = (if old \<noteq> 0 then s32 (old - jiffies s) sdiv HZ else old)
      in (old, upd_cur (\<lambda>t. t\<lparr>alarm := (if seconds > 0 then s32 (jiffies s + s32 (HZ * seconds)) else 0)\<rparr>) s))"

definition sys_getpid :: "'z sched_scheme \<Rightarrow> int" where
  "sys_getpid s = pid (cur s)"

definition sys_getppid :: "'z sched_scheme \<Rightarrow> int" where
  "sys_getppid s = father (cur s)"

definition sys_getuid :: "'z sched_scheme \<Rightarrow> int" where
  "sys_getuid s = uint (uid (cur s))"

definition sys_geteuid :: "'z sched_scheme \<Rightarrow> int" where
  "sys_geteuid s = uint (euid (cur s))"

definition sys_getgid :: "'z sched_scheme \<Rightarrow> int" where
  "sys_getgid s = uint (gid (cur s))"

definition sys_getegid :: "'z sched_scheme \<Rightarrow> int" where
  "sys_getegid s = uint (egid (cur s))"

definition sys_nice :: "int \<Rightarrow> 'z sched_scheme \<Rightarrow> int \<times> 'z sched_scheme" where
  "sys_nice increment s =
     (0, if s32 (priority (cur s) - increment) > 0
         then upd_cur (\<lambda>t. t\<lparr>priority := s32 (priority t - increment)\<rparr>) s else s)"

text \<open>The coprocessor registers follow the task that uses them; \<open>[]\<close> is the state after \<open>fninit\<close>.\<close>

definition math_state_restore :: "'z sched_scheme \<Rightarrow> 'z sched_scheme" where
  "math_state_restore s =
     (if last_task_used_math s = current s then s
      else let s1 = (if last_task_used_math s \<noteq> 0
                     then (upd_task (last_task_used_math s) (\<lambda>t. t\<lparr>tss := (tss t)\<lparr>i387 := fpu s\<rparr>\<rparr>) s)\<lparr>fpu := []\<rparr>
                     else s);
               s2 = s1\<lparr>last_task_used_math := current s1\<rparr>
           in if used_math (cur s2) \<noteq> 0 then s2\<lparr>fpu := i387 (tss (cur s2))\<rparr>
              else upd_cur (\<lambda>t. t\<lparr>used_math := 1\<rparr>) (s2\<lparr>fpu := []\<rparr>))"

text \<open>
  \<open>sched_init\<close>: descriptors and slot table, and the bytes sent to the timer and
  the interrupt controller.  Loading \<open>tr\<close> and \<open>ldtr\<close> and the interrupt gates are
  not part of the model.
\<close>

definition sched_init :: "'z sched_scheme \<Rightarrow> 'z sched_scheme" where
  "sched_init s =
     (let s1 = set_ldt_desc FIRST_LDT_ENTRY (init_task s + LDT_OFFSET)
                 (set_tss_desc FIRST_TSS_ENTRY (init_task s + TSS_OFFSET) s);
          s2 = s1\<lparr>task := (\<lambda>i. if 1 \<le> i \<and> i < NR_TASKS then 0 else task s1 i),
                  gdt := (\<lambda>i. if 2 + FIRST_TSS_ENTRY \<le> i \<and> i < FIRST_TSS_ENTRY + 2 * NR_TASKS
                              then (0, 0) else gdt s1 i)\<rparr>;
          s3 = outb 0x36 0x43 s2;
          s4 = outb (of_int (11931 mod 256)) 0x40 s3;
          s5 = outb (of_int (11931 div 256)) 0x40 s4
      in outb (inb_val s5 0x21 AND NOT 0x01) 0x21 s5)"

end
