(* ===== verification/Sched_Props.thy ===== *)
theory Sched_Props
  imports Sched
begin

unbundle bit_operations_syntax

text \<open>
  What the scheduler chooses and that its loop ends; the list of timers as a list
  of differences; sleeping and waking.
\<close>

section \<open>Choosing a task\<close>

definition runnable :: "'z sched_scheme \<Rightarrow> nat \<Rightarrow> bool" where
  "runnable s i \<longleftrightarrow> task s i \<noteq> 0 \<and> state (tstruct s (task s i)) = TASK_RUNNING"

abbreviation ctr :: "'z sched_scheme \<Rightarrow> nat \<Rightarrow> int" where
  "ctr s i \<equiv> counter (tstruct s (task s i))"

abbreviation prio :: "'z sched_scheme \<Rightarrow> nat \<Rightarrow> int" where
  "prio s i \<equiv> priority (tstruct s (task s i))"

text \<open>
  The state the scheduler works on: slots name different tasks, and every task
  has a positive priority and a counter between 0 and twice its priority.
\<close>

definition sched_ok :: "'z sched_scheme \<Rightarrow> bool" where
  "sched_ok s \<longleftrightarrow>
     (\<forall>i j. 1 \<le> i \<and> i < NR_TASKS \<and> 1 \<le> j \<and> j < NR_TASKS \<and> task s i \<noteq> 0 \<and> task s i = task s j \<longrightarrow> i = j) \<and>
     (\<forall>i. 1 \<le> i \<and> i < NR_TASKS \<and> task s i \<noteq> 0 \<longrightarrow>
        0 < prio s i \<and> prio s i \<le> 2 ^ 29 \<and> 0 \<le> ctr s i \<and> ctr s i \<le> 2 * prio s i)"

lemma set_slots_down [simp]: "set slots_down = {1..<NR_TASKS}"
  by (simp add: slots_down_def)

lemma distinct_slots_down [simp]: "distinct slots_down"
  by (simp add: slots_down_def)

lemma pick_fold:
  assumes "foldl (pick_step s) (c0, n0) xs = (c, n)"
  shows "((c, n) = (c0, n0) \<or> n \<in> set xs \<and> runnable s n \<and> ctr s n = c \<and> c0 < c) \<and>
    (\<forall>i\<in>set xs. runnable s i \<longrightarrow> ctr s i \<le> c) \<and> c0 \<le> c"
  using assms
proof (induction xs arbitrary: c0 n0)
  case (Cons x xs)
  define c1 n1 where "c1 = fst (pick_step s (c0, n0) x)" and "n1 = snd (pick_step s (c0, n0) x)"
  have "foldl (pick_step s) (c1, n1) xs = (c, n)" using Cons.prems by (simp add: c1_def n1_def)
  note ih = Cons.IH [OF this]
  have "runnable s x \<and> ctr s x > c0 \<and> c1 = ctr s x \<and> n1 = x \<or>
      (runnable s x \<longrightarrow> ctr s x \<le> c0) \<and> c1 = c0 \<and> n1 = n0"
    by (auto simp: c1_def n1_def pick_step_def runnable_def Let_def)
  then show ?case using ih by auto
qed simp

lemma pick_cases:
  obtains (idle) "pick s = (- 1, 0)" "\<And>i. 1 \<le> i \<Longrightarrow> i < NR_TASKS \<Longrightarrow> runnable s i \<Longrightarrow> ctr s i \<le> - 1"
  | (found) n where "pick s = (ctr s n, n)" "1 \<le> n" "n < NR_TASKS" "runnable s n" "- 1 < ctr s n"
      "\<And>i. 1 \<le> i \<Longrightarrow> i < NR_TASKS \<Longrightarrow> runnable s i \<Longrightarrow> ctr s i \<le> ctr s n"
proof -
  obtain c n where p: "pick s = (c, n)" by force
  note f = pick_fold [of s "- 1" 0 slots_down c n, folded pick_def, OF p]
  show thesis
  proof (cases "(c, n) = (- 1, 0)")
    case True
    then show thesis using f p by (intro idle) auto
  next
    case False
    then show thesis using f p by (intro found [of n]) auto
  qed
qed

definition recalced :: "task_struct \<Rightarrow> task_struct" where
  "recalced t = t\<lparr>counter := s32 (counter t div 2 + priority t)\<rparr>"

lemma recalc_fold:
  assumes "distinct xs" "\<And>i j. i \<in> set xs \<Longrightarrow> j \<in> set xs \<Longrightarrow> task s i \<noteq> 0 \<Longrightarrow> task s i = task s j \<Longrightarrow> i = j"
  shows "tstruct (foldl (\<lambda>s i. recalc_one i s) s xs) p =
    (if p \<noteq> 0 \<and> p \<in> task s ` set xs then recalced (tstruct s p) else tstruct s p)"
  using assms
proof (induction xs arbitrary: s)
  case (Cons x xs)
  let ?s = "recalc_one x s"
  have t: "task ?s = task s" by (simp add: recalc_one_def Let_def)
  have ih: "tstruct (foldl (\<lambda>s i. recalc_one i s) ?s xs) p =
    (if p \<noteq> 0 \<and> p \<in> task s ` set xs then recalced (tstruct ?s p) else tstruct ?s p)"
    using Cons.IH [of ?s] Cons.prems t by auto
  have one: "tstruct ?s p = (if p \<noteq> 0 \<and> p = task s x then recalced (tstruct s p) else tstruct s p)"
    by (auto simp: recalc_one_def recalced_def Let_def)
  have "task s x \<notin> task s ` set xs \<or> task s x = 0"
    using Cons.prems by force
  then show ?case using ih one by auto
qed simp

lemma recalc_tstruct:
  assumes "sched_ok s"
  shows "tstruct (recalc s) p =
    (if p \<noteq> 0 \<and> p \<in> task s ` {1..<NR_TASKS} then recalced (tstruct s p) else tstruct s p)"
  unfolding recalc_def
  by (subst recalc_fold) (use assms in \<open>auto simp: sched_ok_def\<close>)

lemma recalc_slot:
  assumes "sched_ok s" "1 \<le> i" "i < NR_TASKS" "task s i \<noteq> 0"
  shows "ctr (recalc s) i = ctr s i div 2 + prio s i" "prio (recalc s) i = prio s i"
    "runnable (recalc s) i = runnable s i"
proof -
  have "tstruct (recalc s) (task s i) = recalced (tstruct s (task s i))"
    using recalc_tstruct [OF assms(1)] assms(2-) by auto
  moreover have "s32 (ctr s i div 2 + prio s i) = ctr s i div 2 + prio s i"
    using assms by (intro s32_small) (auto simp: sched_ok_def dest!: spec [of _ i])
  ultimately show "ctr (recalc s) i = ctr s i div 2 + prio s i" "prio (recalc s) i = prio s i"
    "runnable (recalc s) i = runnable s i"
    by (simp_all add: recalced_def runnable_def)
qed

lemma sched_ok_recalc: "sched_ok s \<Longrightarrow> sched_ok (recalc s)"
proof -
  assume ok: "sched_ok s"
  have "0 < prio s i \<and> prio s i \<le> 2 ^ 29 \<and> 0 \<le> ctr s i div 2 + prio s i \<and> ctr s i div 2 + prio s i \<le> 2 * prio s i"
    if "1 \<le> i" "i < NR_TASKS" "task s i \<noteq> 0" for i
    using ok that by (auto simp: sched_ok_def dest!: spec [of _ i])
  then have "0 < prio (recalc s) i \<and> prio (recalc s) i \<le> 2 ^ 29 \<and> 0 \<le> ctr (recalc s) i \<and>
      ctr (recalc s) i \<le> 2 * prio (recalc s) i" if "1 \<le> i" "i < NR_TASKS" "task s i \<noteq> 0" for i
    using recalc_slot(1,2) [OF ok that] that by simp
  then show ?thesis
    using ok unfolding sched_ok_def recalc_simps by blast
qed

text \<open>Some task is runnable, but none has time left.\<close>

definition used_up :: "'z sched_scheme \<Rightarrow> bool" where
  "used_up s \<longleftrightarrow> (\<exists>i. 1 \<le> i \<and> i < NR_TASKS \<and> runnable s i) \<and>
     (\<forall>i. 1 \<le> i \<and> i < NR_TASKS \<and> runnable s i \<longrightarrow> ctr s i = 0)"

text \<open>C5: \<open>schedule\<close> always chooses.  Its loop ends; it recomputes the counters, once, exactly
  when some task is runnable and all runnable ones have used up theirs.  The slot it switches to is a runnable task
  with time left and with the largest counter of all runnable tasks, or slot 0
  exactly when no task is runnable.  The counters stay between 0 and twice the
  priority.\<close>

theorem schedule_picks_best:
  assumes "sched_ok s"
  shows "\<exists>n s'. sched_loop s = Some (n, s') \<and> s' = (if used_up s then recalc s else s) \<and> sched_ok s' \<and>
    ((\<forall>i. 1 \<le> i \<and> i < NR_TASKS \<longrightarrow> \<not> runnable s i) \<and> n = 0 \<or>
     1 \<le> n \<and> n < NR_TASKS \<and> runnable s n \<and> 0 < ctr s' n \<and>
     (\<forall>i. 1 \<le> i \<and> i < NR_TASKS \<and> runnable s i \<longrightarrow> ctr s' i \<le> ctr s' n))"
proof -
  have nn: "0 \<le> ctr s i" if "1 \<le> i" "i < NR_TASKS" "runnable s i" for i
    using assms that by (auto simp: sched_ok_def runnable_def)
  show ?thesis
  proof (cases rule: pick_cases [of s])
    case idle
    then have none: "\<not> runnable s i" if "1 \<le> i" "i < NR_TASKS" for i using nn that by force
    moreover have "sched_loop s = Some (0, s)" using idle by (subst sched_loop.simps) simp
    moreover have "\<not> used_up s" using none by (auto simp: used_up_def)
    ultimately show ?thesis using assms by simp
  next
    case (found n)
    show ?thesis
    proof (cases "ctr s n = 0")
      case False
      then have "sched_loop s = Some (n, s)" using found(1) by (subst sched_loop.simps) simp
      moreover have "0 < ctr s n" using False nn found by force
      moreover have "\<not> used_up s" using False found by (auto simp: used_up_def)
      ultimately show ?thesis using assms found by auto
    next
      case True
      let ?r = "recalc s"
      have ok: "sched_ok ?r" using assms by (rule sched_ok_recalc)
      have run: "runnable ?r i = runnable s i" if "1 \<le> i" "i < NR_TASKS" for i
        by (cases "task s i = 0") (use recalc_slot(3) [OF assms that] in \<open>auto simp: runnable_def\<close>)
      have pos: "0 < ctr ?r i" if "1 \<le> i" "i < NR_TASKS" "runnable s i" for i
        using assms that recalc_slot(1) [OF assms that(1,2)] by (auto simp: sched_ok_def runnable_def)
      have u: "used_up s" using True found nn unfolding used_up_def by force
      have step: "sched_loop s = sched_loop ?r" using found(1) True by (subst sched_loop.simps) simp
      show ?thesis
      proof (cases rule: pick_cases [of ?r])
        case idle
        then show ?thesis using pos [OF found(2,3,4)] run [OF found(2,3)] found by force
      next
        case f2: (found m)
        have p: "0 < ctr ?r m" using pos [OF f2(2,3)] run [OF f2(2,3)] f2(4) by simp
        then have "sched_loop ?r = Some (m, ?r)" using f2(1) by (subst sched_loop.simps) simp
        then show ?thesis using step ok f2 p run u by auto
      qed
    qed
  qed
qed

theorem schedule_picks_best_witness:
  "\<exists>s :: sched. sched_ok s \<and> runnable s 1 \<and> (\<exists>s'. sched_loop s = Some (1, s') \<and> ctr s' 1 = 15)"
proof -
  let ?t = "(undefined :: task_struct)\<lparr>state := 0, counter := 0, priority := 15\<rparr>"
  let ?s = "(undefined :: sched)\<lparr>task := (\<lambda>i. if i = 1 then 0xfff000 else 0), tstruct := (\<lambda>_. ?t)\<rparr>"
  have ok: "sched_ok ?s" by (simp add: sched_ok_def)
  have r: "runnable ?s i \<longleftrightarrow> i = 1" for i by (simp add: runnable_def)
  have u: "used_up ?s" unfolding used_up_def r by simp
  obtain n s' where s': "sched_loop ?s = Some (n, s')" "s' = recalc ?s"
    and d: "(\<forall>i. 1 \<le> i \<and> i < NR_TASKS \<longrightarrow> \<not> runnable ?s i) \<and> n = 0 \<or> runnable ?s n \<and> 0 < ctr s' n"
    using schedule_picks_best [OF ok] unfolding if_P [OF u] by blast
  have "runnable ?s 1" by (simp only: r)
  then have "n = 1" "0 < ctr s' n" using d r by auto
  then have "n = 1" "s' = recalc ?s" using s'(2) by auto
  moreover have "ctr (recalc ?s) 1 = 15" using recalc_slot(1) [OF ok, of 1] by simp
  ultimately show ?thesis using s' ok r by blast
qed

section \<open>The timer list\<close>

text \<open>The entries on the list, in order, and the list of differences they stand for.\<close>

fun tchain :: "(nat \<Rightarrow> timer) \<Rightarrow> nat option \<Rightarrow> nat list \<Rightarrow> bool" where
  "tchain T start [] \<longleftrightarrow> start = None"
| "tchain T start (p # ps) \<longleftrightarrow> start = Some p \<and> tchain T (t_next (T p)) ps"

definition deltas :: "(nat \<Rightarrow> timer) \<Rightarrow> nat list \<Rightarrow> (int \<times> nat) list" where
  "deltas T ps = map (\<lambda>p. (t_jiffies (T p), t_fn (T p))) ps"

text \<open>What the code inserts: the entries behind the new one keep their difference.\<close>

fun insert_delta :: "int \<Rightarrow> nat \<Rightarrow> (int \<times> nat) list \<Rightarrow> (int \<times> nat) list" where
  "insert_delta J f [] = [(J, f)]"
| "insert_delta J f ((d, g) # r) =
     (if d < J then (d, g) # insert_delta (J - d) f r else (J, f) # (d, g) # r)"

text \<open>The number of ticks after which each timer on the list fires.\<close>

fun expiry :: "int \<Rightarrow> (int \<times> nat) list \<Rightarrow> (int \<times> nat) list" where
  "expiry now [] = []"
| "expiry now ((d, f) # r) = (now + d, f) # expiry (now + d) r"

lemma tchain_upd: "p \<notin> set ps \<Longrightarrow> tchain (T(p := t)) start ps = tchain T start ps"
  by (induction ps arbitrary: start) auto

lemma deltas_upd: "p \<notin> set ps \<Longrightarrow> deltas (T(p := t)) ps = deltas T ps"
  by (auto simp: deltas_def)

lemma timer_insert_ok:
  assumes "tchain (timer_list s) (t_next (timer_list s p)) ps" "distinct (p # ps)" "length ps < fuel"
    "\<And>q. q \<in> set ps \<Longrightarrow> 0 \<le> t_jiffies (timer_list s q)"
    "0 \<le> t_jiffies (timer_list s p)" "t_jiffies (timer_list s p) < 2 ^ 31"
  shows "\<exists>s'. timer_insert fuel p s = Ret () s' \<and> next_timer s' = next_timer s \<and>
    tchain (timer_list s') (Some p) (p # ps) \<and>
    deltas (timer_list s') (p # ps) =
      insert_delta (t_jiffies (timer_list s p)) (t_fn (timer_list s p)) (deltas (timer_list s) ps) \<and>
    (\<forall>q. q \<notin> set (p # ps) \<longrightarrow> timer_list s' q = timer_list s q)"
  using assms
proof (induction ps arbitrary: s p fuel)
  case Nil
  then obtain k where "fuel = Suc k" by (cases fuel) auto
  then show ?case using Nil by (simp add: deltas_def)
next
  case (Cons q ps)
  then obtain k where k: "fuel = Suc k" by (cases fuel) auto
  let ?P = "timer_list s p" and ?Q = "timer_list s q"
  have nx: "t_next ?P = Some q" and ch: "tchain (timer_list s) (t_next ?Q) ps"
    using Cons.prems(1) by simp_all
  have ne: "p \<noteq> q" "p \<notin> set ps" "q \<notin> set ps" "distinct ps" using Cons.prems(2) by auto
  show ?case
  proof (cases "t_jiffies ?Q < t_jiffies ?P")
    case False
    then have "timer_insert fuel p s = Ret () s" by (simp add: k nx Let_def)
    then show ?thesis using False Cons.prems(1) nx by (simp add: deltas_def)
  next
    case True
    let ?d = "t_jiffies ?P - t_jiffies ?Q"
    let ?P' = "?P\<lparr>t_jiffies := t_jiffies ?Q, t_fn := t_fn ?Q\<rparr>"
    let ?Q' = "?Q\<lparr>t_jiffies := s32 ?d, t_fn := t_fn ?P\<rparr>"
    define s1 where "s1 = set_timer q ?Q' (set_timer p ?P' s)"
    have "0 \<le> t_jiffies ?Q" using Cons.prems(4) [of q] by simp
    then have d: "s32 ?d = ?d" using True Cons.prems(5,6) by (intro s32_small) auto
    have T: "timer_list s1 = (timer_list s)(p := ?P', q := ?Q\<lparr>t_jiffies := ?d, t_fn := t_fn ?P\<rparr>)"
      by (simp add: s1_def set_timer_def d)
    have "\<exists>s'. timer_insert k q s1 = Ret () s' \<and> next_timer s' = next_timer s1 \<and>
      tchain (timer_list s') (Some q) (q # ps) \<and>
      deltas (timer_list s') (q # ps) =
        insert_delta (t_jiffies (timer_list s1 q)) (t_fn (timer_list s1 q)) (deltas (timer_list s1) ps) \<and>
      (\<forall>r. r \<notin> set (q # ps) \<longrightarrow> timer_list s' r = timer_list s1 r)"
    proof (rule Cons.IH)
      show "tchain (timer_list s1) (t_next (timer_list s1 q)) ps"
        using ch ne by (simp add: T tchain_upd)
      show "distinct (q # ps)" "length ps < k" using ne Cons.prems(3) k by simp_all
      show "0 \<le> t_jiffies (timer_list s1 r)" if "r \<in> set ps" for r
        using Cons.prems(4) [of r] that ne by (auto simp: T)
      show "0 \<le> t_jiffies (timer_list s1 q)" "t_jiffies (timer_list s1 q) < 2 ^ 31"
        using True Cons.prems(6) \<open>0 \<le> t_jiffies ?Q\<close> by (simp_all add: T)
    qed
    then obtain s' where s': "timer_insert k q s1 = Ret () s'" "next_timer s' = next_timer s1"
      "tchain (timer_list s') (Some q) (q # ps)"
      "deltas (timer_list s') (q # ps) = insert_delta ?d (t_fn ?P) (deltas (timer_list s) ps)"
      "\<forall>r. r \<notin> set (q # ps) \<longrightarrow> timer_list s' r = timer_list s1 r"
      using ne by (auto simp: T deltas_upd)
    have p': "timer_list s' p = ?P'" using s'(5) ne T by simp
    have "timer_insert fuel p s = Ret () s'" using True s'(1) by (simp add: k nx Let_def s1_def)
    moreover have "next_timer s' = next_timer s" using s'(2) by (simp add: s1_def set_timer_def)
    moreover have "tchain (timer_list s') (Some p) (p # q # ps)" using s'(3) p' nx by simp
    moreover have "deltas (timer_list s') (p # q # ps) =
        insert_delta (t_jiffies ?P) (t_fn ?P) (deltas (timer_list s) (q # ps))"
      using s'(4) p' True by (simp add: deltas_def)
    ultimately show ?thesis using s'(5) T by auto
  qed
qed

lemma find_Some_set: "List.find P xs = Some x \<Longrightarrow> P x \<and> x \<in> set xs"
  by (induction xs) (auto split: if_splits)

text \<open>
  A well-formed timer list: a chain of different entries, exactly those with a
  function to call, with differences of at least 0.
\<close>

definition timers_ok :: "'z sched_scheme \<Rightarrow> nat list \<Rightarrow> bool" where
  "timers_ok s ps \<longleftrightarrow> tchain (timer_list s) (next_timer s) ps \<and> distinct ps \<and>
     (\<forall>p<TIME_REQUESTS. t_fn (timer_list s p) \<noteq> 0 \<longleftrightarrow> p \<in> set ps) \<and> set ps \<subseteq> {..<TIME_REQUESTS} \<and>
     (\<forall>p\<in>set ps. 0 \<le> t_jiffies (timer_list s p))"

lemma timers_length: "timers_ok s ps \<Longrightarrow> length ps \<le> TIME_REQUESTS"
  using card_mono [of "{..<TIME_REQUESTS}" "set ps"] by (auto simp: timers_ok_def distinct_card)

lemma expiry_shift: "expiry (now + e) r = map (\<lambda>(t, f). (t + e, f)) (expiry now r)"
  by (induction now r rule: expiry.induct) (auto simp: algebra_simps)

lemma insert_delta_split:
  assumes "\<forall>x\<in>set ds. 0 \<le> fst x" "0 < J"
  shows "\<exists>a b. ds = a @ b \<and>
    expiry now (insert_delta J f ds) = expiry now a @ (now + J, f) #
      map (\<lambda>(t, g). (t + (J - sum_list (map fst a)), g)) (expiry (now + sum_list (map fst a)) b) \<and>
    sum_list (map fst a) < J \<and> (\<forall>x\<in>set (expiry now a). fst x < now + J) \<and>
    (\<forall>x\<in>set (expiry (now + sum_list (map fst a)) b). now + J \<le> fst x)"
  using assms
proof (induction J f ds arbitrary: now rule: insert_delta.induct)
  case (1 J f)
  then show ?case by (intro exI [of _ "[]"]) simp
next
  case (2 J f d g r)
  show ?case
  proof (cases "d < J")
    case True
    obtain a b where ab: "r = a @ b"
      "expiry (now + d) (insert_delta (J - d) f r) = expiry (now + d) a @ (now + d + (J - d), f) #
        map (\<lambda>(t, g). (t + (J - d - sum_list (map fst a)), g)) (expiry (now + d + sum_list (map fst a)) b)"
      "sum_list (map fst a) < J - d" "\<forall>x\<in>set (expiry (now + d) a). fst x < now + d + (J - d)"
      "\<forall>x\<in>set (expiry (now + d + sum_list (map fst a)) b). now + d + (J - d) \<le> fst x"
      using 2(1) [OF True, of "now + d"] 2(2,3) True by auto
    show ?thesis
      using True ab by - (rule exI [of _ "(d, g) # a"], rule exI [of _ b], simp add: add.assoc diff_diff_eq)
  next
    case False
    have ge: "\<forall>x\<in>set (expiry m xs). m \<le> fst x" if "\<forall>x\<in>set xs. 0 \<le> fst x" for m xs
      using that by (induction m xs rule: expiry.induct) force+
    have "\<forall>x\<in>set (expiry now ((d, g) # r)). now + J \<le> fst x"
      using ge [of r "now + d"] 2(2) False by force
    then show ?thesis
      using False 2(3) expiry_shift [of "now + d" J r] 
      by - (rule exI [of _ "[]"], rule exI [of _ "(d, g) # r"], simp add: algebra_simps)
  qed
qed

text \<open>C6: adding a timer for \<open>J\<close> ticks.  As long as an entry is free \<open>add_timer\<close>
  succeeds, the new timer fires after exactly \<open>J\<close> ticks and the timers due before
  it are not affected; but every timer due later fires too late, by the
  difference stored in the new entry, because the code does not subtract that
  difference from the entry that follows.\<close>

theorem add_timer_expiry:
  assumes "timers_ok s ps" "0 < J" "J < 2 ^ 31" "fn \<noteq> 0" "free_timer s = Some p"
  shows "\<exists>s' a b. add_timer run J fn s = Ret () s' \<and>
    tchain (timer_list s') (next_timer s') (p # ps) \<and>
    deltas (timer_list s) ps = a @ b \<and>
    expiry 0 (deltas (timer_list s) ps) = expiry 0 a @ expiry (sum_list (map fst a)) b \<and>
    expiry 0 (deltas (timer_list s') (p # ps)) = expiry 0 a @ (J, fn) #
      map (\<lambda>(t, g). (t + (J - sum_list (map fst a)), g)) (expiry (sum_list (map fst a)) b) \<and>
    sum_list (map fst a) < J \<and> (\<forall>x\<in>set (expiry 0 a). fst x < J)"
proof -
  let ?s = "(set_timer p \<lparr>t_jiffies = J, t_fn = fn, t_next = next_timer s\<rparr> s)\<lparr>next_timer := Some p\<rparr>"
  have p: "t_fn (timer_list s p) = 0" "p < TIME_REQUESTS"
    using find_Some_set [OF assms(5) [unfolded free_timer_def]] by auto
  then have np: "p \<notin> set ps" using assms(1) by (auto simp: timers_ok_def)
  have T: "timer_list ?s = (timer_list s)(p := \<lparr>t_jiffies = J, t_fn = fn, t_next = next_timer s\<rparr>)"
    by (simp add: set_timer_def)
  have ch: "tchain (timer_list s) (next_timer s) ps" "distinct ps"
    and nn: "\<And>q. q \<in> set ps \<Longrightarrow> 0 \<le> t_jiffies (timer_list s q)"
    using assms(1) by (auto simp: timers_ok_def)
  have nn': "0 \<le> t_jiffies (timer_list ?s q)" if "q \<in> set ps" for q
    using nn [OF that] assms(2) by (auto simp: T)
  obtain s' where s': "timer_insert (TIME_REQUESTS + 1) p ?s = Ret () s'" "next_timer s' = Some p"
    "tchain (timer_list s') (Some p) (p # ps)"
    "deltas (timer_list s') (p # ps) = insert_delta J fn (deltas (timer_list s) ps)"
    using timer_insert_ok [of ?s p ps "TIME_REQUESTS + 1"] nn' ch np assms(2,3) timers_length [OF assms(1)]
    by (auto simp: T tchain_upd deltas_upd)
  have "\<forall>x\<in>set (deltas (timer_list s) ps). 0 \<le> fst x" using nn by (auto simp: deltas_def)
  then obtain a b where ab: "deltas (timer_list s) ps = a @ b"
    "expiry 0 (insert_delta J fn (deltas (timer_list s) ps)) = expiry 0 a @ (J, fn) #
      map (\<lambda>(t, g). (t + (J - sum_list (map fst a)), g)) (expiry (sum_list (map fst a)) b)"
    "sum_list (map fst a) < J" "\<forall>x\<in>set (expiry 0 a). fst x < J"
    using insert_delta_split [of "deltas (timer_list s) ps" J 0 fn] assms(2) by auto
  have app: "expiry m (x @ y) = expiry m x @ expiry (m + sum_list (map fst x)) y" for m x y
    by (induction m x rule: expiry.induct) (auto simp: add.assoc)
  have "add_timer run J fn s = Ret () s'" using assms s'(1) by (simp add: add_timer_def)
  then show ?thesis using s' ab app [of 0 a b] by (intro exI [of _ s'] exI [of _ a] exI [of _ b]) simp
qed

theorem add_timer_expiry_witness:
  "\<exists>(s :: sched) ps p. timers_ok s ps \<and> free_timer s = Some p \<and>
     expiry 0 (deltas (timer_list s) ps) = [(10, 7)] \<and>
     (\<exists>s'. add_timer (\<lambda>_. Ret ()) 5 8 s = Ret () s' \<and>
        expiry 0 (deltas (timer_list s') (p # ps)) = [(5, 8), (15, 7)])"
proof -
  let ?s = "(undefined :: sched)\<lparr>timer_list := (\<lambda>p. \<lparr>t_jiffies = 10, t_fn = (if p = 0 then 7 else 0), t_next = None\<rparr>),
    next_timer := Some 0\<rparr>"
  have ok: "timers_ok ?s [0]" by (auto simp: timers_ok_def)
  have fr: "free_timer ?s = Some 1" by (simp add: free_timer_def upt_rec)
  have d: "deltas (timer_list ?s) [0] = [(10, 7)]" by (simp add: deltas_def)
  obtain s' a b where h: "add_timer (\<lambda>_. Ret ()) 5 8 ?s = Ret () s'" "[(10, 7)] = a @ b"
    "expiry 0 (deltas (timer_list s') [1, 0]) = expiry 0 a @ (5, 8) #
      map (\<lambda>(t, g). (t + (5 - sum_list (map fst a)), g)) (expiry (sum_list (map fst a)) b)"
    "sum_list (map fst a) < 5"
    using add_timer_expiry [OF ok, of 5 8 1 "\<lambda>_. Ret ()"] fr unfolding d by auto
  then have "a = []" "b = [(10, 7)]" by (auto simp: Cons_eq_append_conv)
  then have "expiry 0 (deltas (timer_list s') [1, 0]) = [(5, 8), (15, 7)]" using h(3) by simp
  then show ?thesis using ok fr h(1) d
    by (intro exI [of _ ?s] exI [of _ "[0]"] exI [of _ 1]) auto
qed

end
