(* ===== verification/Tty_Queue.thy ===== *)
theory Tty_Queue
  imports Tasks
begin

unbundle bit_operations_syntax

text \<open>
  The character queues of \<open>src/include/linux/tty.h\<close>: rings of 1024 bytes, with the
  macros that fill and drain them, as an implementation of a bounded first-in
  first-out queue.
\<close>

abbreviation (input) TTY_BUF_SIZE :: nat where "TTY_BUF_SIZE \<equiv> 1024"

record tty_queue =
  q_data :: u32
  q_head :: u32
  q_tail :: u32
  proc_list :: u32
  q_buf :: "nat \<Rightarrow> u8"

definition INC :: "u32 \<Rightarrow> u32" where
  "INC a = (a + 1) AND 1023"

definition DEC :: "u32 \<Rightarrow> u32" where
  "DEC a = (a - 1) AND 1023"

definition EMPTY :: "tty_queue \<Rightarrow> bool" where
  "EMPTY a \<longleftrightarrow> q_head a = q_tail a"

definition LEFT_OF :: "tty_queue \<Rightarrow> u32" where
  "LEFT_OF a = (q_tail a - q_head a - 1) AND 1023"

definition LAST :: "tty_queue \<Rightarrow> u8" where
  "LAST a = q_buf a (unat (1023 AND (q_head a - 1)))"

definition FULL :: "tty_queue \<Rightarrow> bool" where
  "FULL a \<longleftrightarrow> LEFT_OF a = 0"

definition CHARS :: "tty_queue \<Rightarrow> u32" where
  "CHARS a = (q_head a - q_tail a) AND 1023"

definition GETCH :: "tty_queue \<Rightarrow> u8 \<times> tty_queue" where
  "GETCH q = (q_buf q (unat (q_tail q)), q\<lparr>q_tail := INC (q_tail q)\<rparr>)"

definition PUTCH :: "u8 \<Rightarrow> tty_queue \<Rightarrow> tty_queue" where
  "PUTCH c q = q\<lparr>q_buf := (q_buf q)(unat (q_head q) := c), q_head := INC (q_head q)\<rparr>"

text \<open>\<open>DEC(queue.head)\<close>, which takes back the last character.\<close>

definition UNPUT :: "tty_queue \<Rightarrow> tty_queue" where
  "UNPUT q = q\<lparr>q_head := DEC (q_head q)\<rparr>"

definition flush :: "tty_queue \<Rightarrow> tty_queue" where
  "flush q = q\<lparr>q_head := q_tail q\<rparr>"

section \<open>Rings as queues\<close>

text \<open>A ring is well formed when both indices are inside the buffer.\<close>

definition q_ok :: "tty_queue \<Rightarrow> bool" where
  "q_ok q \<longleftrightarrow> unat (q_head q) < TTY_BUF_SIZE \<and> unat (q_tail q) < TTY_BUF_SIZE"

definition q_len :: "tty_queue \<Rightarrow> nat" where
  "q_len q = (unat (q_head q) + TTY_BUF_SIZE - unat (q_tail q)) mod TTY_BUF_SIZE"

definition q_list :: "tty_queue \<Rightarrow> u8 list" where
  "q_list q = map (\<lambda>i. q_buf q ((unat (q_tail q) + i) mod TTY_BUF_SIZE)) [0..<q_len q]"

lemma unat_and_1023: "unat (a AND 1023 :: u32) = unat a mod 1024"
proof -
  have "a AND 1023 = take_bit 10 a" by (simp add: take_bit_eq_mask mask_eq_exp_minus_1)
  then have "unat (a AND 1023) = take_bit 10 (unat a)" by (simp only: unsigned_take_bit_eq)
  then show ?thesis by (simp add: take_bit_eq_mod)
qed

lemma unat_sub_mod: "unat (a - b :: u32) mod 1024 = (unat a + 1024 - unat b mod 1024) mod 1024"
proof -
  define k r where "k = unat b div 1024" and "r = unat b mod 1024"
  have b: "unat b = 1024 * k + r" "r < 1024" by (simp_all add: k_def r_def)
  have "unat a + 4294967296 - unat b = (unat a + 1024 - r) + 1024 * (4194303 - k)"
    using unat_u32 [of b] b by linarith
  then have m: "(unat a + 4294967296 - unat b) mod 1024 = (unat a + 1024 - r) mod 1024" by simp
  have "unat (a - b) = (unat a + 4294967296 - unat b) mod 4294967296"
  proof (cases "unat b \<le> unat a")
    case True
    then have "unat a + 4294967296 - unat b = (unat a - unat b) + 4294967296" by simp
    then show ?thesis
      using unat_sub_if' [of a b] unat_u32 [of a] True by (metis less_imp_diff_less mod_add_self2 mod_less)
  next
    case False
    then show ?thesis using unat_sub_if' [of a b] unat_u32 [of b] by simp
  qed
  then show ?thesis using m by (simp add: mod_mod_cancel r_def)
qed

lemma q_len_CHARS: "q_ok q \<Longrightarrow> unat (CHARS q) = q_len q"
  using unat_sub_mod [of "q_head q" "q_tail q"] by (simp add: CHARS_def unat_and_1023 q_len_def q_ok_def)

lemma q_len_less: "q_len q < TTY_BUF_SIZE"
  by (simp add: q_len_def)

lemma length_q_list [simp]: "length (q_list q) = q_len q"
  by (simp add: q_list_def)

lemma q_len_cases:
  assumes "q_ok q"
  shows "q_len q = (if unat (q_tail q) \<le> unat (q_head q) then unat (q_head q) - unat (q_tail q)
    else unat (q_head q) + 1024 - unat (q_tail q))"
proof (cases "unat (q_tail q) \<le> unat (q_head q)")
  case True
  then have e: "unat (q_head q) + 1024 - unat (q_tail q) = unat (q_head q) - unat (q_tail q) + 1024" by simp
  have "unat (q_head q) - unat (q_tail q) < 1024" using assms unfolding q_ok_def by linarith
  then have "(unat (q_head q) - unat (q_tail q) + 1024) mod 1024 = unat (q_head q) - unat (q_tail q)"
    by (metis mod_add_self2 mod_less)
  then show ?thesis unfolding q_len_def e using True by metis
next
  case False
  then show ?thesis using assms by (simp add: q_len_def q_ok_def)
qed

lemma EMPTY_iff: "q_ok q \<Longrightarrow> EMPTY q \<longleftrightarrow> q_list q = []"
proof -
  assume ok: "q_ok q"
  have "q_len q = 0 \<longleftrightarrow> unat (q_head q) = unat (q_tail q)"
    using ok q_len_cases [OF ok] by (auto simp: q_ok_def)
  then show ?thesis by (simp add: EMPTY_def q_list_def word_unat_eq_iff)
qed

lemma unat_LEFT: "q_ok q \<Longrightarrow> unat (LEFT_OF q) = 1023 - q_len q"
proof -
  assume ok: "q_ok q"
  let ?h = "unat (q_head q)" and ?t = "unat (q_tail q)"
  have "unat (LEFT_OF q) = unat (q_tail q - (q_head q + 1)) mod 1024"
    by (simp add: LEFT_OF_def unat_and_1023 diff_diff_eq)
  also have "\<dots> = (?t + 1024 - (unat (q_head q + 1)) mod 1024) mod 1024"
    by (rule unat_sub_mod)
  also have "unat (q_head q + 1) = ?h + 1" using ok by (simp add: q_ok_def unat_word_ariths)
  finally have e: "unat (LEFT_OF q) = (?t + 1024 - (?h + 1) mod 1024) mod 1024" .
  show ?thesis
  proof (cases "?t \<le> ?h")
    case True
    then have l: "q_len q = ?h - ?t" using q_len_cases [OF ok] by simp
    show ?thesis
    proof (cases "?h = 1023")
      case True
      then show ?thesis using e l ok by (simp add: q_ok_def)
    next
      case False
      have h: "?h < 1024" using ok by (simp add: q_ok_def)
      then have h1: "(?h + 1) mod 1024 = ?h + 1" using False by simp
      have d: "?t + 1024 - (?h + 1) = 1023 - (?h - ?t)" using True h by linarith
      show ?thesis unfolding e h1 d l by simp
    qed
  next
    case False
    have t: "?t < 1024" using ok by (simp add: q_ok_def)
    then have h: "(?h + 1) mod 1024 = ?h + 1" using False by simp
    have d: "?t + 1024 - (?h + 1) = (?t - ?h - 1) + 1024" using False by simp
    have "((?t - ?h - 1) + 1024) mod 1024 = ?t - ?h - 1" using t by (metis less_imp_diff_less mod_add_self2 mod_less)
    then have "unat (LEFT_OF q) = ?t - ?h - 1" unfolding e h d .
    moreover have "q_len q = ?h + 1024 - ?t" using False q_len_cases [OF ok] by simp
    ultimately show ?thesis using False t by simp
  qed
qed

lemma FULL_iff: "q_ok q \<Longrightarrow> FULL q \<longleftrightarrow> q_len q = 1023"
proof -
  assume ok: "q_ok q"
  have "FULL q \<longleftrightarrow> unat (LEFT_OF q) = 0" by (simp add: FULL_def unat_eq_0)
  then show ?thesis using unat_LEFT [OF ok] q_len_less [of q] by auto
qed

lemma unat_INC: "unat a < 1024 \<Longrightarrow> unat (INC a) = (unat a + 1) mod 1024"
  by (simp add: INC_def unat_and_1023 unat_word_ariths)

lemma unat_DEC:
  assumes "unat a < 1024"
  shows "unat (DEC a) = (if unat a = 0 then 1023 else unat a - 1)"
proof -
  have e: "unat (DEC a) = (unat a + 1023) mod 1024"
    using unat_sub_mod [of a 1] by (simp add: DEC_def unat_and_1023 add.commute)
  show ?thesis
  proof (cases "unat a = 0")
    case False
    then have "unat a + 1023 = (unat a - 1) + 1024" by simp
    then show ?thesis using e False assms by (metis less_imp_diff_less mod_add_self2 mod_less)
  qed (use e in simp)
qed

lemma PUTCH_list:
  assumes ok: "q_ok q" and nf: "\<not> FULL q"
  shows "q_ok (PUTCH c q)" "q_list (PUTCH c q) = q_list q @ [c]"
proof -
  let ?h = "unat (q_head q)" and ?t = "unat (q_tail q)"
  have b: "?h < 1024" "?t < 1024" using ok by (simp_all add: q_ok_def)
  have n: "q_len q < 1023" using nf FULL_iff [OF ok] q_len_less [of q] by linarith
  have h': "unat (q_head (PUTCH c q)) = (?h + 1) mod 1024" using b by (simp add: PUTCH_def unat_INC)
  show ok': "q_ok (PUTCH c q)" using b h' by (simp add: q_ok_def) (simp add: PUTCH_def)
  have l: "q_len (PUTCH c q) = q_len q + 1"
    using q_len_cases [OF ok] q_len_cases [OF ok'] n b h'
    by (cases "?h = 1023") (auto simp: PUTCH_def split: if_splits)
  have last: "(?t + q_len q) mod 1024 = ?h"
    using q_len_cases [OF ok] b by (auto simp: split: if_splits)
  have old: "(?t + i) mod 1024 \<noteq> ?h" if "i < q_len q" for i
  proof
    assume "(?t + i) mod 1024 = ?h"
    then have "(?t + q_len q) mod 1024 = (?t + i) mod 1024" using last by simp
    then have "1024 dvd q_len q - i" using that mod_eq_dvd_iff_nat [of "?t + i" "?t + q_len q" 1024] by simp
    then show False using that n by (auto dest: dvd_imp_le)
  qed
  have "q_list (PUTCH c q) = map (\<lambda>i. ((q_buf q)(?h := c)) ((?t + i) mod 1024)) [0..<q_len q + 1]"
    unfolding q_list_def l by (simp add: PUTCH_def)
  also have "\<dots> = q_list q @ [c]"
    using old last by (simp add: q_list_def)
  finally show "q_list (PUTCH c q) = q_list q @ [c]" .
qed

lemma GETCH_list:
  assumes ok: "q_ok q" and ne: "\<not> EMPTY q"
  shows "q_ok (snd (GETCH q))" "q_list q = fst (GETCH q) # q_list (snd (GETCH q))"
proof -
  let ?h = "unat (q_head q)" and ?t = "unat (q_tail q)"
  have b: "?h < 1024" "?t < 1024" using ok by (simp_all add: q_ok_def)
  have n: "0 < q_len q" using ne EMPTY_iff [OF ok] by (metis length_q_list length_greater_0_conv)
  have t': "unat (q_tail (snd (GETCH q))) = (?t + 1) mod 1024" using b by (simp add: GETCH_def unat_INC)
  show ok': "q_ok (snd (GETCH q))" using b t' by (simp add: q_ok_def) (simp add: GETCH_def)
  have l: "q_len q = Suc (q_len (snd (GETCH q)))"
    using q_len_cases [OF ok] q_len_cases [OF ok'] n b t'
    by (cases "?t = 1023") (auto simp: GETCH_def split: if_splits)
  have "q_list q = map (\<lambda>i. q_buf q ((?t + i) mod 1024)) (0 # map Suc [0..<q_len (snd (GETCH q))])"
    unfolding q_list_def l by (simp add: upt_conv_Cons map_Suc_upt del: upt_Suc)
  also have "\<dots> = fst (GETCH q) # q_list (snd (GETCH q))"
    using b by (simp add: q_list_def t' mod_add_left_eq) (simp add: GETCH_def)
  finally show "q_list q = fst (GETCH q) # q_list (snd (GETCH q))" .
qed

lemma UNPUT_list:
  assumes ok: "q_ok q" and ne: "\<not> EMPTY q"
  shows "q_ok (UNPUT q)" "q_list q = q_list (UNPUT q) @ [LAST q]"
proof -
  let ?h = "unat (q_head q)" and ?t = "unat (q_tail q)"
  have b: "?h < 1024" "?t < 1024" using ok by (simp_all add: q_ok_def)
  have n: "0 < q_len q" using ne EMPTY_iff [OF ok] by (metis length_q_list length_greater_0_conv)
  have h': "unat (q_head (UNPUT q)) = (if ?h = 0 then 1023 else ?h - 1)" using b by (simp add: UNPUT_def unat_DEC)
  show ok': "q_ok (UNPUT q)" using b h' by (simp add: q_ok_def) (auto simp: UNPUT_def)
  have l: "q_len q = Suc (q_len (UNPUT q))"
    using q_len_cases [OF ok] q_len_cases [OF ok'] n b h'
    by (cases "?h = 0") (auto simp: UNPUT_def split: if_splits)
  have "LAST q = q_buf q ((?t + q_len (UNPUT q)) mod 1024)"
  proof -
    have "unat (1023 AND (q_head q - 1)) = (if ?h = 0 then 1023 else ?h - 1)"
      using unat_DEC [OF b(1)] by (simp add: DEC_def and.commute)
    moreover have "(?t + q_len (UNPUT q)) mod 1024 = (if ?h = 0 then 1023 else ?h - 1)"
    proof (cases "?t \<le> ?h")
      case True
      then show ?thesis using q_len_cases [OF ok] l n b by simp
    next
      case False
      then have "?t + q_len (UNPUT q) = ?h + 1023" using q_len_cases [OF ok] l b by simp
      then show ?thesis using b by (cases "?h = 0") (simp_all add: mod_if)
    qed
    ultimately show ?thesis by (simp add: LAST_def)
  qed
  then show "q_list q = q_list (UNPUT q) @ [LAST q]"
    unfolding q_list_def l by (simp add: UNPUT_def)
qed

section \<open>The contract of a bounded queue\<close>

text \<open>Taking \<open>n\<close> characters out of a queue, one \<open>get\<close> after the other.\<close>

primrec drain :: "('q \<Rightarrow> 'c \<times> 'q) \<Rightarrow> nat \<Rightarrow> 'q \<Rightarrow> 'c list \<times> 'q" where
  "drain get 0 q = ([], q)"
| "drain get (Suc n) q = (let (c, q1) = get q; (cs, q2) = drain get n q1 in (c # cs, q2))"

locale bounded_fifo =
  fixes ok :: "'q \<Rightarrow> bool" and items :: "'q \<Rightarrow> 'c list" and cap :: nat
    and put :: "'c \<Rightarrow> 'q \<Rightarrow> 'q" and get :: "'q \<Rightarrow> 'c \<times> 'q" and unput :: "'q \<Rightarrow> 'q"
    and is_empty :: "'q \<Rightarrow> bool" and is_full :: "'q \<Rightarrow> bool"
  assumes items_le: "ok q \<Longrightarrow> length (items q) \<le> cap"
    and empty_items: "ok q \<Longrightarrow> is_empty q \<longleftrightarrow> items q = []"
    and full_items: "ok q \<Longrightarrow> is_full q \<longleftrightarrow> length (items q) = cap"
    and put_items: "ok q \<Longrightarrow> \<not> is_full q \<Longrightarrow> ok (put c q) \<and> items (put c q) = items q @ [c]"
    and get_items: "ok q \<Longrightarrow> \<not> is_empty q \<Longrightarrow> ok (snd (get q)) \<and> items q = fst (get q) # items (snd (get q))"
    and unput_items: "ok q \<Longrightarrow> \<not> is_empty q \<Longrightarrow> ok (unput q) \<and> items (unput q) = butlast (items q)"
begin

lemma put_all:
  "ok q \<Longrightarrow> length (items q) + length cs \<le> cap \<Longrightarrow>
     ok (fold put cs q) \<and> items (fold put cs q) = items q @ cs"
proof (induction cs arbitrary: q)
  case (Cons c cs)
  then have "\<not> is_full q" using full_items by auto
  then show ?case using put_items [OF Cons.prems(1), of c] Cons by simp
qed simp

lemma get_all:
  "ok q \<Longrightarrow> n \<le> length (items q) \<Longrightarrow>
     fst (drain get n q) = take n (items q) \<and> ok (snd (drain get n q)) \<and>
     items (snd (drain get n q)) = drop n (items q)"
proof (induction n arbitrary: q)
  case (Suc n)
  have ne: "\<not> is_empty q" using Suc.prems empty_items by auto
  obtain c q1 where g: "get q = (c, q1)" by (cases "get q")
  have q1: "ok q1" "items q = c # items q1" using get_items [OF Suc.prems(1) ne] g by simp_all
  show ?case using Suc.IH [OF q1(1)] Suc.prems(2) q1(2) g by (simp add: case_prod_beta Let_def)
qed simp

lemma put_get_all:
  assumes "ok q" "length (items q) + length cs \<le> cap"
  shows "fst (drain get (length (items q) + length cs) (fold put cs q)) = items q @ cs \<and>
    is_empty (snd (drain get (length (items q) + length cs) (fold put cs q)))"
  using get_all [of "fold put cs q" "length (items q) + length cs"] put_all [OF assms] empty_items by simp

lemma unput_put: "ok q \<Longrightarrow> \<not> is_full q \<Longrightarrow> ok (unput (put c q)) \<and> items (unput (put c q)) = items q"
  using put_items [of q c] unput_items [of "put c q"] empty_items [of "put c q"] by auto

end

interpretation ring: bounded_fifo q_ok q_list 1023 PUTCH GETCH UNPUT EMPTY FULL
proof
  fix q c
  show "q_ok q \<Longrightarrow> length (q_list q) \<le> 1023" using q_len_less [of q] by simp
  show "q_ok q \<Longrightarrow> EMPTY q \<longleftrightarrow> q_list q = []" by (rule EMPTY_iff)
  show "q_ok q \<Longrightarrow> FULL q \<longleftrightarrow> length (q_list q) = 1023" by (simp add: FULL_iff)
  show "q_ok q \<Longrightarrow> \<not> FULL q \<Longrightarrow> q_ok (PUTCH c q) \<and> q_list (PUTCH c q) = q_list q @ [c]"
    using PUTCH_list [of q c] by blast
  show "q_ok q \<Longrightarrow> \<not> EMPTY q \<Longrightarrow> q_ok (snd (GETCH q)) \<and> q_list q = fst (GETCH q) # q_list (snd (GETCH q))"
    using GETCH_list [of q] by blast
  show "q_ok q \<Longrightarrow> \<not> EMPTY q \<Longrightarrow> q_ok (UNPUT q) \<and> q_list (UNPUT q) = butlast (q_list q)"
    using UNPUT_list [of q] by simp
qed

text \<open>C16: the ring is a first-in first-out queue of 1023 characters.  Characters
  put while there is room come out in order, behind those already waiting, and
  leave the ring empty; taking back the last character undoes a \<open>PUTCH\<close>.\<close>

theorem ring_fifo:
  assumes "q_ok q" "length (q_list q) + length cs \<le> 1023"
  shows "fst (drain GETCH (length (q_list q) + length cs) (fold PUTCH cs q)) = q_list q @ cs \<and>
    EMPTY (snd (drain GETCH (length (q_list q) + length cs) (fold PUTCH cs q))) \<and>
    (length (q_list q) < 1023 \<longrightarrow> q_list (UNPUT (PUTCH c q)) = q_list q)"
  using ring.put_get_all [OF assms] ring.unput_put [OF assms(1), of c] FULL_iff [OF assms(1)] by auto

theorem ring_fifo_witness:
  "q_ok \<lparr>q_data = 0, q_head = 1023, q_tail = 1023, proc_list = 0, q_buf = (\<lambda>_. 0)\<rparr> \<and>
   fst (drain GETCH 3 (fold PUTCH [65, 66, 67] \<lparr>q_data = 0, q_head = 1023, q_tail = 1023, proc_list = 0, q_buf = (\<lambda>_. 0)\<rparr>))
     = [65, 66, 67]"
proof -
  let ?q = "\<lparr>q_data = 0, q_head = 1023, q_tail = 1023, proc_list = 0, q_buf = (\<lambda>_. 0)\<rparr>"
  have ok: "q_ok ?q" and "q_list ?q = []" by (simp_all add: q_ok_def q_list_def q_len_def)
  then show ?thesis using ring_fifo [OF ok, of "[65, 66, 67]"] by (simp add: numeral_3_eq_3)
qed

end
