(* ===== verification/Console.thy ===== *)
theory Console
  imports Kernel_Prelude
begin

unbundle bit_operations_syntax

text \<open>
  The screen half of \<open>src/kernel/chr_drv/console.c\<close>: the variables of the
  driver, the video memory, scrolling, and the editing operations.  The
  interpretation of the characters is in \<open>Tty\<close>.

  Video memory is a function from the address of a character cell to its
  16 bits.  The string instructions work on it one unit at a time, in the
  direction the code sets.  \<open>con_ports\<close> lists what was sent to the video
  controller.
\<close>

abbreviation (input) VIDEO_TYPE_MDA :: u8 where "VIDEO_TYPE_MDA \<equiv> 0x10"
abbreviation (input) VIDEO_TYPE_CGA :: u8 where "VIDEO_TYPE_CGA \<equiv> 0x11"
abbreviation (input) VIDEO_TYPE_EGAM :: u8 where "VIDEO_TYPE_EGAM \<equiv> 0x20"
abbreviation (input) VIDEO_TYPE_EGAC :: u8 where "VIDEO_TYPE_EGAC \<equiv> 0x21"
abbreviation (input) NPAR :: nat where "NPAR \<equiv> 16"

record console =
  video_type :: u8
  video_num_columns :: u32
  video_size_row :: u32
  video_num_lines :: u32
  video_page :: u8
  video_mem_start :: u32
  video_mem_end :: u32
  video_port_reg :: u16
  video_port_val :: u16
  video_erase_char :: u16
  origin :: u32
  scr_end :: u32
  con_pos :: u32
  con_x :: u32
  con_y :: u32
  con_top :: u32
  con_bottom :: u32
  con_state :: u32
  con_npar :: nat
  con_par :: "nat \<Rightarrow> u32"
  con_ques :: u32
  con_attr :: u8
  saved_x :: u32
  saved_y :: u32
  vram :: "u32 \<Rightarrow> u16"
  con_ports :: "(u16 \<times> u8) list"

section \<open>String instructions\<close>

primrec stosw_up :: "nat \<Rightarrow> u32 \<Rightarrow> u16 \<Rightarrow> (u32 \<Rightarrow> u16) \<Rightarrow> u32 \<Rightarrow> u16" where
  "stosw_up 0 di v m = m"
| "stosw_up (Suc n) di v m = stosw_up n (di + 2) v (m(di := v))"

primrec stosw_down :: "nat \<Rightarrow> u32 \<Rightarrow> u16 \<Rightarrow> (u32 \<Rightarrow> u16) \<Rightarrow> u32 \<Rightarrow> u16" where
  "stosw_down 0 di v m = m"
| "stosw_down (Suc n) di v m = stosw_down n (di - 2) v (m(di := v))"

primrec movsl_up :: "nat \<Rightarrow> u32 \<Rightarrow> u32 \<Rightarrow> (u32 \<Rightarrow> u16) \<Rightarrow> u32 \<Rightarrow> u16" where
  "movsl_up 0 si di m = m"
| "movsl_up (Suc n) si di m = movsl_up n (si + 4) (di + 4) (m(di := m si, di + 2 := m (si + 2)))"

primrec movsl_down :: "nat \<Rightarrow> u32 \<Rightarrow> u32 \<Rightarrow> (u32 \<Rightarrow> u16) \<Rightarrow> u32 \<Rightarrow> u16" where
  "movsl_down 0 si di m = m"
| "movsl_down (Suc n) si di m = movsl_down n (si - 4) (di - 4) (m(di := m si, di + 2 := m (si + 2)))"

section \<open>The cursor\<close>

definition gotoxy :: "u32 \<Rightarrow> u32 \<Rightarrow> console \<Rightarrow> console" where
  "gotoxy new_x new_y t =
     (if new_x > video_num_columns t \<or> new_y \<ge> video_num_lines t then t
      else t\<lparr>con_x := new_x, con_y := new_y,
             con_pos := origin t + new_y * video_size_row t + push_bit 1 new_x\<rparr>)"

definition vout :: "u8 \<Rightarrow> u16 \<Rightarrow> console \<Rightarrow> console" where
  "vout v port t = t\<lparr>con_ports := con_ports t @ [(port, v)]\<rparr>"

definition set_origin :: "console \<Rightarrow> console" where
  "set_origin t =
     vout (ucast (0xff AND drop_bit 1 (origin t - video_mem_start t))) (video_port_val t)
       (vout 13 (video_port_reg t)
         (vout (ucast (0xff AND drop_bit 9 (origin t - video_mem_start t))) (video_port_val t)
           (vout 12 (video_port_reg t) t)))"

definition set_cursor :: "console \<Rightarrow> console" where
  "set_cursor t =
     vout (ucast (0xff AND drop_bit 1 (con_pos t - video_mem_start t))) (video_port_val t)
       (vout 15 (video_port_reg t)
         (vout (ucast (0xff AND drop_bit 9 (con_pos t - video_mem_start t))) (video_port_val t)
           (vout 14 (video_port_reg t) t)))"

section \<open>Scrolling\<close>

text \<open>The copy both branches without hardware scrolling perform.\<close>

definition scroll_copy :: "console \<Rightarrow> console" where
  "scroll_copy t =
     (let n = unat (drop_bit 1 ((con_bottom t - con_top t - 1) * video_num_columns t));
          di = origin t + video_size_row t * con_top t;
          m = movsl_up n (origin t + video_size_row t * (con_top t + 1)) di (vram t)
      in t\<lparr>vram := stosw_up (unat (video_num_columns t)) (di + 4 * of_nat n) (video_erase_char t) m\<rparr>)"

definition scrup :: "console \<Rightarrow> console" where
  "scrup t =
     (if video_type t = VIDEO_TYPE_EGAC \<or> video_type t = VIDEO_TYPE_EGAM
      then if con_top t = 0 \<and> con_bottom t = video_num_lines t
           then let t1 = t\<lparr>origin := origin t + video_size_row t, con_pos := con_pos t + video_size_row t,
                           scr_end := scr_end t + video_size_row t\<rparr>
                in set_origin
                     (if scr_end t1 > video_mem_end t1
                      then let n = unat (drop_bit 1 ((video_num_lines t1 - 1) * video_num_columns t1));
                               m = movsl_up n (origin t1) (video_mem_start t1) (vram t1)
                           in t1\<lparr>vram := stosw_up (unat (video_num_columns t1)) (video_mem_start t1 + 4 * of_nat n)
                                            (video_erase_char t1) m,
                                 scr_end := scr_end t1 - (origin t1 - video_mem_start t1),
                                 con_pos := con_pos t1 - (origin t1 - video_mem_start t1),
                                 origin := video_mem_start t1\<rparr>
                      else t1\<lparr>vram := stosw_up (unat (video_num_columns t1)) (scr_end t1 - video_size_row t1)
                                        (video_erase_char t1) (vram t1)\<rparr>)
           else scroll_copy t
      else scroll_copy t)"

text \<open>Both branches of \<open>scrdown\<close> are the same code.\<close>

definition scrdown :: "console \<Rightarrow> console" where
  "scrdown t =
     (let n = unat (drop_bit 1 ((con_bottom t - con_top t - 1) * video_num_columns t));
          di = origin t + video_size_row t * con_bottom t - 4;
          m = movsl_down n (origin t + video_size_row t * (con_bottom t - 1) - 4) di (vram t)
      in t\<lparr>vram := stosw_down (unat (video_num_columns t)) (di - 4 * of_nat n + 2) (video_erase_char t) m\<rparr>)"

definition lf :: "console \<Rightarrow> console" where
  "lf t = (if con_y t + 1 < con_bottom t
           then t\<lparr>con_y := con_y t + 1, con_pos := con_pos t + video_size_row t\<rparr>
           else scrup t)"

definition ri :: "console \<Rightarrow> console" where
  "ri t = (if con_y t > con_top t
           then t\<lparr>con_y := con_y t - 1, con_pos := con_pos t - video_size_row t\<rparr>
           else scrdown t)"

definition cr :: "console \<Rightarrow> console" where
  "cr t = t\<lparr>con_pos := con_pos t - push_bit 1 (con_x t), con_x := 0\<rparr>"

definition del :: "console \<Rightarrow> console" where
  "del t = (if con_x t \<noteq> 0
            then t\<lparr>con_pos := con_pos t - 2, con_x := con_x t - 1,
                   vram := (vram t)(con_pos t - 2 := video_erase_char t)\<rparr>
            else t)"

section \<open>Erasing and attributes\<close>

definition erase :: "u32 \<Rightarrow> u32 \<Rightarrow> console \<Rightarrow> console" where
  "erase count start t = t\<lparr>vram := stosw_up (unat count) start (video_erase_char t) (vram t)\<rparr>"

definition csi_J :: "u32 \<Rightarrow> console \<Rightarrow> console" where
  "csi_J p t =
     (if p = 0 then erase (drop_bit 1 (scr_end t - con_pos t)) (con_pos t) t
      else if p = 1 then erase (drop_bit 1 (con_pos t - origin t)) (origin t) t
      else if p = 2 then erase (video_num_columns t * video_num_lines t) (origin t) t
      else t)"

definition csi_K :: "u32 \<Rightarrow> console \<Rightarrow> console" where
  "csi_K p t =
     (if p = 0
      then if con_x t \<ge> video_num_columns t then t
           else erase (video_num_columns t - con_x t) (con_pos t) t
      else if p = 1
      then erase (if con_x t < video_num_columns t then con_x t else video_num_columns t)
             (con_pos t - push_bit 1 (con_x t)) t
      else if p = 2 then erase (video_num_columns t) (con_pos t - push_bit 1 (con_x t)) t
      else t)"

definition set_attr :: "u32 \<Rightarrow> u8 \<Rightarrow> u8" where
  "set_attr p a = (if p = 0 then 0x07 else if p = 1 then 0x0f else if p = 4 then 0x0f
     else if p = 7 then 0x70 else if p = 27 then 0x07 else a)"

definition csi_m :: "console \<Rightarrow> console" where
  "csi_m t = t\<lparr>con_attr := fold (\<lambda>i. set_attr (con_par t i)) [0..<con_npar t + 1] (con_attr t)\<rparr>"

section \<open>Inserting and deleting\<close>

primrec shift_right :: "nat \<Rightarrow> u32 \<Rightarrow> u16 \<Rightarrow> (u32 \<Rightarrow> u16) \<Rightarrow> u32 \<Rightarrow> u16" where
  "shift_right 0 p old m = m"
| "shift_right (Suc n) p old m = shift_right n (p + 2) (m p) (m(p := old))"

text \<open>The loop runs for \<open>i = x, \<dots>, video_num_columns - 1\<close>.\<close>

definition insert_char :: "console \<Rightarrow> console" where
  "insert_char t =
     t\<lparr>vram := shift_right (unat (video_num_columns t) - unat (con_x t)) (con_pos t) (video_erase_char t) (vram t)\<rparr>"

primrec shift_left :: "nat \<Rightarrow> u32 \<Rightarrow> u16 \<Rightarrow> (u32 \<Rightarrow> u16) \<Rightarrow> u32 \<Rightarrow> u16" where
  "shift_left 0 p v m = m(p := v)"
| "shift_left (Suc n) p v m = shift_left n (p + 2) v (m(p := m (p + 2)))"

definition delete_char :: "console \<Rightarrow> console" where
  "delete_char t =
     (if con_x t \<ge> video_num_columns t then t
      else t\<lparr>vram := shift_left (unat (video_num_columns t) - unat (con_x t) - 1) (con_pos t)
                      (video_erase_char t) (vram t)\<rparr>)"

definition insert_line :: "console \<Rightarrow> console" where
  "insert_line t =
     (scrdown (t\<lparr>con_top := con_y t, con_bottom := video_num_lines t\<rparr>))
       \<lparr>con_top := con_top t, con_bottom := con_bottom t\<rparr>"

definition delete_line :: "console \<Rightarrow> console" where
  "delete_line t =
     (scrup (t\<lparr>con_top := con_y t, con_bottom := video_num_lines t\<rparr>))
       \<lparr>con_top := con_top t, con_bottom := con_bottom t\<rparr>"

definition clamp_count :: "u32 \<Rightarrow> u32 \<Rightarrow> nat" where
  "clamp_count nr most = unat (if nr > most then most else if nr = 0 then 1 else nr)"

definition csi_at :: "u32 \<Rightarrow> console \<Rightarrow> console" where
  "csi_at nr t = (insert_char ^^ clamp_count nr (video_num_columns t)) t"

definition csi_L :: "u32 \<Rightarrow> console \<Rightarrow> console" where
  "csi_L nr t = (insert_line ^^ clamp_count nr (video_num_lines t)) t"

definition csi_P :: "u32 \<Rightarrow> console \<Rightarrow> console" where
  "csi_P nr t = (delete_char ^^ clamp_count nr (video_num_columns t)) t"

definition csi_M :: "u32 \<Rightarrow> console \<Rightarrow> console" where
  "csi_M nr t = (delete_line ^^ clamp_count nr (video_num_lines t)) t"

definition save_cur :: "console \<Rightarrow> console" where
  "save_cur t = t\<lparr>saved_x := con_x t, saved_y := con_y t\<rparr>"

definition restore_cur :: "console \<Rightarrow> console" where
  "restore_cur t = gotoxy (saved_x t) (saved_y t) t"

section \<open>Initialisation\<close>

text \<open>
  The values \<open>setup.s\<close> left at 0x90000, as \<open>con_init\<close> reads them; \<open>con_setup\<close> is its part on the screen.  The name of the
  display goes into the low bytes of four cells of the first row.
\<close>

record boot_video =
  ORIG_X :: u8
  ORIG_Y :: u8
  ORIG_VIDEO_PAGE :: u16
  ORIG_VIDEO_MODE :: u16
  ORIG_VIDEO_COLS :: u16
  ORIG_VIDEO_EGA_BX :: u16

definition put_desc :: "string \<Rightarrow> u32 \<Rightarrow> (u32 \<Rightarrow> u16) \<Rightarrow> u32 \<Rightarrow> u16" where
  "put_desc desc p m =
     fold (\<lambda>(i, ch) m. m(p + 2 * of_nat i := (m (p + 2 * of_nat i) AND 0xff00) OR of_char ch)) (enumerate 0 desc) m"

definition con_setup :: "boot_video \<Rightarrow> console \<Rightarrow> console" where
  "con_setup b t =
     (let cols = ucast (ORIG_VIDEO_COLS b);
          mono = (ORIG_VIDEO_MODE b = 7);
          ega = (ORIG_VIDEO_EGA_BX b AND 0xff \<noteq> 0x10);
          start = (if mono then 0xb0000 else 0xb8000);
          desc = (if mono then if ega then ''EGAm'' else ''*MDA'' else if ega then ''EGAc'' else ''*CGA'')
      in gotoxy (ucast (ORIG_X b)) (ucast (ORIG_Y b))
           (t\<lparr>video_num_columns := cols, video_size_row := cols * 2, video_num_lines := 25,
              video_page := ucast (ORIG_VIDEO_PAGE b), video_erase_char := 0x0720,
              video_mem_start := start,
              video_port_reg := (if mono then 0x3b4 else 0x3d4), video_port_val := (if mono then 0x3b5 else 0x3d5),
              video_type := (if mono then if ega then VIDEO_TYPE_EGAM else VIDEO_TYPE_MDA
                             else if ega then VIDEO_TYPE_EGAC else VIDEO_TYPE_CGA),
              video_mem_end := (if mono then if ega then 0xb8000 else 0xb2000 else if ega then 0xbc000 else 0xba000),
              vram := put_desc desc (start + cols * 2 - 8) (vram t),
              origin := start, scr_end := start + 25 * (cols * 2), con_top := 0, con_bottom := 25\<rparr>))"

end
