(* ===== verification/Syscalls.thy ===== *)
theory Syscalls
  imports Sched
begin

unbundle bit_operations_syntax

text \<open>
  \<open>verify_area\<close> (\<open>src/kernel/fork.c\<close>), the signal calls and the set-up of signal
  handlers (\<open>src/kernel/signal.c\<close>), and the identity and time calls of
  \<open>src/kernel/sys.c\<close>.
\<close>

section \<open>Checking a user area before it is written\<close>

text \<open>
  The 386 ignores the write protection of pages in kernel mode, so the kernel
  unshares the pages of a user buffer before it writes to it.
\<close>

function verify_loop :: "int \<Rightarrow> u32 \<Rightarrow> 'z sched_scheme \<Rightarrow> ('z sched_scheme, unit) outcome" where
  "verify_loop sz start s =
     (if sz > 0 then bindO (write_verify start s) (\<lambda>_ s. verify_loop (sz - 4096) (start + 4096) s)
      else Ret () s)"
  by auto
termination
  by (relation "measure (\<lambda>(sz, _, _). nat sz)") auto

declare verify_loop.simps [simp del]

definition verify_area :: "u32 \<Rightarrow> int \<Rightarrow> 'z sched_scheme \<Rightarrow> ('z sched_scheme, unit) outcome" where
  "verify_area addr sz s =
     verify_loop (s32 (sz + uint (addr AND 0xfff)))
       ((addr AND 0xfffff000) + get_base (ldt (cur s) 2)) s"

section \<open>Signals\<close>

abbreviation (input) SA_ONESHOT :: u32 where "SA_ONESHOT \<equiv> 0x80000000"
abbreviation (input) SA_NOMASK :: u32 where "SA_NOMASK \<equiv> 0x40000000"

definition sys_sgetmask :: "'z sched_scheme \<Rightarrow> int" where
  "sys_sgetmask s = sint (blocked (cur s))"

definition sys_ssetmask :: "u32 \<Rightarrow> 'z sched_scheme \<Rightarrow> int \<times> 'z sched_scheme" where
  "sys_ssetmask newmask s =
     (sint (blocked (cur s)), upd_cur (\<lambda>t. t\<lparr>blocked := newmask AND NOT (sigbit SIGKILL)\<rparr>) s)"

text \<open>The 16 bytes of a \<open>struct sigaction\<close>, in memory order.\<close>

definition sigaction_bytes :: "sigaction \<Rightarrow> u8 list" where
  "sigaction_bytes a =
     concat (map (\<lambda>w. map (byte_of w) [0..<4]) [sa_handler a, sa_mask a, sa_flags a, sa_restorer a])"

definition save_old :: "sigaction \<Rightarrow> u32 \<Rightarrow> 'z sched_scheme \<Rightarrow> ('z sched_scheme, unit) outcome" where
  "save_old from to s =
     bindO (verify_area to 16 s) (\<lambda>_ s. Ret () (put_fs_bytes (sigaction_bytes from) to s))"

definition get_new :: "u32 \<Rightarrow> 'z sched_scheme \<Rightarrow> sigaction" where
  "get_new from s = \<lparr>sa_handler = get_fs_long from s, sa_mask = get_fs_long (from + 4) s,
     sa_flags = get_fs_long (from + 8) s, sa_restorer = get_fs_long (from + 12) s\<rparr>"

definition set_sigaction :: "nat \<Rightarrow> sigaction \<Rightarrow> 'z sched_scheme \<Rightarrow> 'z sched_scheme" where
  "set_sigaction i a s = upd_cur (\<lambda>t. t\<lparr>sigactions := (sigactions t)(i := a)\<rparr>) s"

definition sys_signal :: "int \<Rightarrow> u32 \<Rightarrow> u32 \<Rightarrow> 'z sched_scheme \<Rightarrow> int \<times> 'z sched_scheme" where
  "sys_signal signum handler restorer s =
     (if signum < 1 \<or> signum > 32 \<or> signum = int SIGKILL then (- 1, s)
      else let i = nat (signum - 1);
               tmp = \<lparr>sa_handler = handler, sa_mask = 0, sa_flags = SA_ONESHOT OR SA_NOMASK,
                      sa_restorer = restorer\<rparr>
           in (sint (sa_handler (sigactions (cur s) i)), set_sigaction i tmp s))"

definition sys_sigaction :: "int \<Rightarrow> u32 \<Rightarrow> u32 \<Rightarrow> 'z sched_scheme \<Rightarrow> ('z sched_scheme, int) outcome" where
  "sys_sigaction signum action oldaction s =
     (if signum < 1 \<or> signum > 32 \<or> signum = int SIGKILL then Ret (- 1) s
      else let i = nat (signum - 1);
               tmp = sigactions (cur s) i;
               s1 = set_sigaction i (get_new action s) s
           in bindO (if oldaction \<noteq> 0 then save_old tmp oldaction s1 else Ret () s1) (\<lambda>_ s2.
              let a = sigactions (cur s2) i
              in Ret 0 (if sa_flags a AND SA_NOMASK \<noteq> 0 then set_sigaction i (a\<lparr>sa_mask := 0\<rparr>) s2
                        else set_sigaction i (a\<lparr>sa_mask := sa_mask a OR sigbit (nat signum)\<rparr>) s2)))"

text \<open>
  \<open>do_signal\<close> runs before the return to user mode and rewrites the saved program
  counter and stack pointer, which it is given by reference; \<open>None\<close> means the
  frame is left as it was.
\<close>

record trapframe =
  f_eax :: u32
  f_ecx :: u32
  f_edx :: u32
  f_eip :: u32
  f_eflags :: u32
  f_esp :: u32

definition put_longs :: "u32 list \<Rightarrow> u32 \<Rightarrow> 'z sched_scheme \<Rightarrow> 'z sched_scheme" where
  "put_longs vs a s = fold (\<lambda>(i, v) s. put_fs_long v (a + 4 * of_nat i) s) (enumerate 0 vs) s"

definition do_signal :: "nat \<Rightarrow> trapframe \<Rightarrow> 'z sched_scheme \<Rightarrow> ('z sched_scheme, trapframe) outcome" where
  "do_signal signr fr s =
     (if signr < 1 \<or> signr > 32 then Undefined ''sigaction''
      else let i = signr - 1; sa = sigactions (cur s) i; handler = sa_handler sa in
        if handler = 1 then Ret fr s
        else if handler = 0
        then if signr = SIGCHLD then Ret fr s else Exits (sint (sigbit signr)) s
        else let s1 = (if sa_flags sa AND SA_ONESHOT \<noteq> 0 then set_sigaction i (sa\<lparr>sa_handler := 0\<rparr>) s else s);
                 longs = (if sa_flags sa AND SA_NOMASK \<noteq> 0 then 7 else 8);
                 esp = f_esp fr - 4 * of_nat longs
             in bindO (verify_area esp (int (longs * 4)) s1) (\<lambda>_ s2.
                let s3 = put_longs
                     ([sa_restorer sa, of_nat signr] @
                      (if sa_flags sa AND SA_NOMASK = 0 then [blocked (cur s2)] else []) @
                      [f_eax fr, f_ecx fr, f_edx fr, f_eflags fr, f_eip fr]) esp s2
                in Ret (fr\<lparr>f_eip := handler, f_esp := esp\<rparr>)
                     (upd_cur (\<lambda>t. t\<lparr>blocked := blocked t OR sa_mask sa\<rparr>) s3)))"

section \<open>Identity, time and memory limits\<close>

text \<open>\<open>sys_ftime\<close>, \<open>sys_break\<close>, \<open>sys_ptrace\<close>, \<open>sys_stty\<close>, \<open>sys_gtty\<close>, \<open>sys_rename\<close> and \<open>sys_prof\<close>.\<close>

definition not_implemented :: int where
  "not_implemented = - ENOSYS"

definition sys_setregid :: "int \<Rightarrow> int \<Rightarrow> 'z sched_scheme \<Rightarrow> int \<times> 'z sched_scheme" where
  "sys_setregid rgid egid' s =
     (let (ok, s1) =
        (if rgid > 0
         then if uint (gid (cur s)) = rgid \<or> suser s
              then (True, upd_cur (\<lambda>t. t\<lparr>gid := of_int rgid\<rparr>) s) else (False, s)
         else (True, s))
      in if \<not> ok then (- EPERM, s1)
         else if egid' > 0
         then if uint (gid (cur s1)) = egid' \<or> uint (egid (cur s1)) = egid' \<or> uint (sgid (cur s1)) = egid' \<or> suser s1
              then (0, upd_cur (\<lambda>t. t\<lparr>egid := of_int egid'\<rparr>) s1) else (- EPERM, s1)
         else (0, s1))"

definition sys_setgid :: "int \<Rightarrow> 'z sched_scheme \<Rightarrow> int \<times> 'z sched_scheme" where
  "sys_setgid g s = sys_setregid g g s"

definition sys_time :: "u32 \<Rightarrow> 'z sched_scheme \<Rightarrow> ('z sched_scheme, int) outcome" where
  "sys_time tloc s =
     (let i = CURRENT_TIME s in
      if tloc \<noteq> 0 then bindO (verify_area tloc 4 s) (\<lambda>_ s. Ret i (put_fs_long (of_int i) tloc s))
      else Ret i s)"

definition sys_setreuid :: "int \<Rightarrow> int \<Rightarrow> 'z sched_scheme \<Rightarrow> int \<times> 'z sched_scheme" where
  "sys_setreuid ruid euid' s =
     (let old_ruid = uid (cur s);
          (ok, s1) =
        (if ruid > 0
         then if uint (euid (cur s)) = ruid \<or> uint old_ruid = ruid \<or> suser s
              then (True, upd_cur (\<lambda>t. t\<lparr>uid := of_int ruid\<rparr>) s) else (False, s)
         else (True, s))
      in if \<not> ok then (- EPERM, s1)
         else if euid' > 0
         then if uint old_ruid = euid' \<or> uint (euid (cur s1)) = euid' \<or> suser s1
              then (0, upd_cur (\<lambda>t. t\<lparr>euid := of_int euid'\<rparr>) s1)
              else (- EPERM, upd_cur (\<lambda>t. t\<lparr>uid := old_ruid\<rparr>) s1)
         else (0, s1))"

definition sys_setuid :: "int \<Rightarrow> 'z sched_scheme \<Rightarrow> int \<times> 'z sched_scheme" where
  "sys_setuid u s = sys_setreuid u u s"

definition sys_stime :: "u32 \<Rightarrow> 'z sched_scheme \<Rightarrow> int \<times> 'z sched_scheme" where
  "sys_stime tptr s =
     (if \<not> suser s then (- EPERM, s)
      else (0, s\<lparr>startup_time := sint (get_fs_long tptr s - of_int (jiffies s sdiv HZ))\<rparr>))"

definition sys_times :: "u32 \<Rightarrow> 'z sched_scheme \<Rightarrow> ('z sched_scheme, int) outcome" where
  "sys_times tbuf s =
     (if tbuf \<noteq> 0
      then bindO (verify_area tbuf 16 s) (\<lambda>_ s.
           Ret (jiffies s) (put_longs (map of_int [utime (cur s), stime (cur s), cutime (cur s), cstime (cur s)]) tbuf s))
      else Ret (jiffies s) s)"

definition sys_brk :: "u32 \<Rightarrow> 'z sched_scheme \<Rightarrow> int \<times> 'z sched_scheme" where
  "sys_brk end_data_seg s =
     (let s1 = (if end_data_seg \<ge> end_code (cur s) \<and> end_data_seg < start_stack (cur s) - 16384
                then upd_cur (\<lambda>t. t\<lparr>brk := end_data_seg\<rparr>) s else s)
      in (sint (brk (cur s1)), s1))"

definition find_pid :: "int \<Rightarrow> 'z sched_scheme \<Rightarrow> nat option" where
  "find_pid p s = List.find (\<lambda>i. task s i \<noteq> 0 \<and> pid (tstruct s (task s i)) = p) [0..<NR_TASKS]"

definition sys_setpgid :: "int \<Rightarrow> int \<Rightarrow> 'z sched_scheme \<Rightarrow> int \<times> 'z sched_scheme" where
  "sys_setpgid p pgid s =
     (let p = (if p = 0 then pid (cur s) else p);
          pgid = (if pgid = 0 then pid (cur s) else pgid)
      in case find_pid p s of
           None \<Rightarrow> (- ESRCH, s)
         | Some i \<Rightarrow>
             let t = tstruct s (task s i) in
             if leader t \<noteq> 0 then (- EPERM, s)
             else if session t \<noteq> session (cur s) then (- EPERM, s)
             else (0, upd_task (task s i) (\<lambda>t. t\<lparr>pgrp := pgid\<rparr>) s))"

definition sys_getpgrp :: "'z sched_scheme \<Rightarrow> int" where
  "sys_getpgrp s = pgrp (cur s)"

definition sys_setsid :: "'z sched_scheme \<Rightarrow> int \<times> 'z sched_scheme" where
  "sys_setsid s =
     (if leader (cur s) \<noteq> 0 \<and> \<not> suser s then (- EPERM, s)
      else let s1 = upd_cur (\<lambda>t. t\<lparr>leader := 1, session := pid t, pgrp := pid t, tty := - 1\<rparr>) s
           in (pgrp (cur s1), s1))"

text \<open>The five names of \<open>thisname\<close>, each in 9 bytes with its terminating zero.\<close>

definition thisname :: "u8 list" where
  "thisname = concat (map (\<lambda>n. map of_char n @ replicate (9 - length n) 0)
     [''linux .0'', ''nodename'', ''release '', ''version '', ''machine ''])"

definition sys_uname :: "u32 \<Rightarrow> 'z sched_scheme \<Rightarrow> ('z sched_scheme, int) outcome" where
  "sys_uname name s =
     (if name = 0 then Ret (- ERROR) s
      else bindO (verify_area name 45 s) (\<lambda>_ s. Ret 0 (put_fs_bytes thisname name s)))"

definition sys_umask :: "u32 \<Rightarrow> 'z sched_scheme \<Rightarrow> int \<times> 'z sched_scheme" where
  "sys_umask m s = (uint (umask (cur s)), upd_cur (\<lambda>t. t\<lparr>umask := ucast (m AND 0x1ff)\<rparr>) s)"

end
