(* ===== verification/Wait.thy ===== *)
theory Wait
  imports Sched
begin

text \<open>
  The loops \<open>while (condition) sleep_on(&queue)\<close> of the drivers and the file
  system.  Every round is switched out at least once, so \<open>budget s + 1\<close> rounds
  are enough: a run that needs more is still asleep (\<open>Blocked\<close>) anyway.
\<close>

primrec sleep_rounds ::
  "nat \<Rightarrow> (nat \<Rightarrow> 'z sched_scheme \<Rightarrow> 'z sched_scheme) \<Rightarrow> ('z sched_scheme \<Rightarrow> bool) \<Rightarrow> ('z sched_scheme \<Rightarrow> u32)
   \<Rightarrow> (u32 \<Rightarrow> 'z sched_scheme \<Rightarrow> 'z sched_scheme) \<Rightarrow> 'z sched_scheme \<Rightarrow> ('z sched_scheme, unit) outcome" where
  "sleep_rounds 0 env c get put s = Blocked"
| "sleep_rounds (Suc n) env c get put s =
     (if c s then bindO (sleep_on env get put s) (\<lambda>_ s. sleep_rounds n env c get put s) else Ret () s)"

definition sleep_while ::
  "(nat \<Rightarrow> 'z sched_scheme \<Rightarrow> 'z sched_scheme) \<Rightarrow> ('z sched_scheme \<Rightarrow> bool) \<Rightarrow> ('z sched_scheme \<Rightarrow> u32)
   \<Rightarrow> (u32 \<Rightarrow> 'z sched_scheme \<Rightarrow> 'z sched_scheme) \<Rightarrow> 'z sched_scheme \<Rightarrow> ('z sched_scheme, unit) outcome" where
  "sleep_while env c get put s = sleep_rounds (budget s + 1) env c get put s"

primrec isleep_rounds ::
  "nat \<Rightarrow> (nat \<Rightarrow> 'z sched_scheme \<Rightarrow> 'z sched_scheme) \<Rightarrow> ('z sched_scheme \<Rightarrow> bool) \<Rightarrow> ('z sched_scheme \<Rightarrow> u32)
   \<Rightarrow> (u32 \<Rightarrow> 'z sched_scheme \<Rightarrow> 'z sched_scheme) \<Rightarrow> 'z sched_scheme \<Rightarrow> ('z sched_scheme, unit) outcome" where
  "isleep_rounds 0 env c get put s = Blocked"
| "isleep_rounds (Suc n) env c get put s =
     (if c s then bindO (interruptible_sleep_on env get put s) (\<lambda>_ s. isleep_rounds n env c get put s) else Ret () s)"

definition isleep_while ::
  "(nat \<Rightarrow> 'z sched_scheme \<Rightarrow> 'z sched_scheme) \<Rightarrow> ('z sched_scheme \<Rightarrow> bool) \<Rightarrow> ('z sched_scheme \<Rightarrow> u32)
   \<Rightarrow> (u32 \<Rightarrow> 'z sched_scheme \<Rightarrow> 'z sched_scheme) \<Rightarrow> 'z sched_scheme \<Rightarrow> ('z sched_scheme, unit) outcome" where
  "isleep_while env c get put s = isleep_rounds (budget s + 1) env c get put s"

lemma sleep_rounds_post: "sleep_rounds n env c get put s = Ret u s' \<Longrightarrow> \<not> c s'"
  by (induction n arbitrary: s) (auto simp: bindO_eq_Ret split: if_splits)

lemma sleep_while_post: "sleep_while env c get put s = Ret u s' \<Longrightarrow> \<not> c s'"
  unfolding sleep_while_def by (rule sleep_rounds_post)

lemma sleep_while_skip [simp]: "\<not> c s \<Longrightarrow> sleep_while env c get put s = Ret () s"
  by (simp add: sleep_while_def)

lemma isleep_rounds_post: "isleep_rounds n env c get put s = Ret u s' \<Longrightarrow> \<not> c s'"
  by (induction n arbitrary: s) (auto simp: bindO_eq_Ret split: if_splits)

lemma isleep_while_post: "isleep_while env c get put s = Ret u s' \<Longrightarrow> \<not> c s'"
  unfolding isleep_while_def by (rule isleep_rounds_post)

lemma isleep_while_skip [simp]: "\<not> c s \<Longrightarrow> isleep_while env c get put s = Ret () s"
  by (simp add: isleep_while_def)

text \<open>The bound on the rounds is never what stops the loop.\<close>

lemma sleep_rounds_enough:
  assumes put: "\<And>v s. budget (put v s) = budget s" "\<And>v s. current (put v s) = current s"
  shows "budget s < n \<Longrightarrow> sleep_rounds n env c get put s = sleep_rounds (budget s + 1) env c get put s"
proof (induction "budget s" arbitrary: s n rule: less_induct)
  case less
  obtain m where m: "n = Suc m" "budget s \<le> m" using less.prems by (cases n) auto
  show ?case
  proof (cases "sleep_on env get put s")
    case (Ret u s1)
    have b: "budget s1 < budget s" using sleep_on_Ret(1) [OF Ret put] .
    have "sleep_rounds m env c get put s1 = sleep_rounds (budget s1 + 1) env c get put s1"
      "sleep_rounds (budget s) env c get put s1 = sleep_rounds (budget s1 + 1) env c get put s1"
      using less.hyps [OF b, of m] less.hyps [OF b, of "budget s"] b m(2) by simp_all
    then show ?thesis using m(1) Ret by simp
  qed (use m(1) in auto)
qed

end
