(* ===== verification/Tty.thy ===== *)
theory Tty
  imports Tty_Queue Console Syscalls Wait
begin

unbundle bit_operations_syntax

text \<open>
  Terminals: \<open>src/kernel/chr_drv/tty_io.c\<close>, \<open>tty_ioctl.c\<close>, the interpretation of
  characters by \<open>con_write\<close> in \<open>console.c\<close>, and \<open>rs_write\<close> of \<open>serial.c\<close>.

  Three things call each other in a circle: \<open>copy_to_cooked\<close> echoes through
  \<open>tty->write\<close>, which for the console is \<open>con_write\<close>, which answers \<open>ESC Z\<close> by
  calling \<open>copy_to_cooked\<close>.  Each is written over the next one as an argument,
  and \<open>tty_out\<close> closes the circle up to a given nesting depth.

  A \<open>char\<close> is signed on this machine: a byte \<open>b\<close> is compared as \<open>sint b\<close>, and an
  entry of \<open>c_cc\<close>, which is unsigned, as \<open>uint\<close>.
\<close>

record termios =
  c_iflag :: u32
  c_oflag :: u32
  c_cflag :: u32
  c_lflag :: u32
  c_line :: u8
  c_cc :: "nat \<Rightarrow> u8"
  c_pad :: "u8 \<times> u8"

datatype write_fn = Con_write | Rs_write

record tty_struct =
  t_termios :: termios
  t_pgrp :: int
  t_stopped :: int
  t_write :: write_fn
  read_q :: tty_queue
  write_q :: tty_queue
  secondary :: tty_queue

record chr = sched +
  tty_table :: "nat \<Rightarrow> tty_struct"
  cr_flag :: bool
  con :: console

definition upd_tty :: "nat \<Rightarrow> (tty_struct \<Rightarrow> tty_struct) \<Rightarrow> 'z chr_scheme \<Rightarrow> 'z chr_scheme" where
  "upd_tty n f s = s\<lparr>tty_table := (tty_table s)(n := f (tty_table s n))\<rparr>"

definition upd_con :: "(console \<Rightarrow> console) \<Rightarrow> 'z chr_scheme \<Rightarrow> 'z chr_scheme" where
  "upd_con f s = s\<lparr>con := f (con s)\<rparr>"

definition put_write :: "nat \<Rightarrow> u8 \<Rightarrow> 'z chr_scheme \<Rightarrow> 'z chr_scheme" where
  "put_write n c s = upd_tty n (\<lambda>t. t\<lparr>write_q := PUTCH c (write_q t)\<rparr>) s"

definition L_FLAG :: "tty_struct \<Rightarrow> u32 \<Rightarrow> bool" where
  "L_FLAG t f \<longleftrightarrow> c_lflag (t_termios t) AND f \<noteq> 0"

definition I_FLAG :: "tty_struct \<Rightarrow> u32 \<Rightarrow> bool" where
  "I_FLAG t f \<longleftrightarrow> c_iflag (t_termios t) AND f \<noteq> 0"

definition O_FLAG :: "tty_struct \<Rightarrow> u32 \<Rightarrow> bool" where
  "O_FLAG t f \<longleftrightarrow> c_oflag (t_termios t) AND f \<noteq> 0"

abbreviation (input) INLCR :: u32 where "INLCR \<equiv> 0x40"
abbreviation (input) IGNCR :: u32 where "IGNCR \<equiv> 0x80"
abbreviation (input) ICRNL :: u32 where "ICRNL \<equiv> 0x100"
abbreviation (input) IUCLC :: u32 where "IUCLC \<equiv> 0x200"
abbreviation (input) OPOST :: u32 where "OPOST \<equiv> 1"
abbreviation (input) OLCUC :: u32 where "OLCUC \<equiv> 2"
abbreviation (input) ONLCR :: u32 where "ONLCR \<equiv> 4"
abbreviation (input) OCRNL :: u32 where "OCRNL \<equiv> 8"
abbreviation (input) ONLRET :: u32 where "ONLRET \<equiv> 0x20"
abbreviation (input) ISIG :: u32 where "ISIG \<equiv> 1"
abbreviation (input) ICANON :: u32 where "ICANON \<equiv> 2"
abbreviation (input) ECHO :: u32 where "ECHO \<equiv> 8"
abbreviation (input) ECHOCTL :: u32 where "ECHOCTL \<equiv> 0x200"

abbreviation (input) VINTR :: nat where "VINTR \<equiv> 0"
abbreviation (input) VQUIT :: nat where "VQUIT \<equiv> 1"
abbreviation (input) VERASE :: nat where "VERASE \<equiv> 2"
abbreviation (input) VKILL :: nat where "VKILL \<equiv> 3"
abbreviation (input) VEOF :: nat where "VEOF \<equiv> 4"
abbreviation (input) VTIME :: nat where "VTIME \<equiv> 5"
abbreviation (input) VMIN :: nat where "VMIN \<equiv> 6"
abbreviation (input) VSTART :: nat where "VSTART \<equiv> 8"
abbreviation (input) VSTOP :: nat where "VSTOP \<equiv> 9"

definition CC :: "nat \<Rightarrow> tty_struct \<Rightarrow> int" where
  "CC i t = uint (c_cc (t_termios t) i)"

section \<open>Signals, speakers and serial lines\<close>

definition tty_intr_one :: "int \<Rightarrow> u32 \<Rightarrow> nat \<Rightarrow> 'z chr_scheme \<Rightarrow> 'z chr_scheme" where
  "tty_intr_one g m i s =
     (if task s i \<noteq> 0 \<and> pgrp (tstruct s (task s i)) = g
      then upd_task (task s i) (\<lambda>t. t\<lparr>signal := signal t OR m\<rparr>) s else s)"

definition tty_intr :: "nat \<Rightarrow> u32 \<Rightarrow> 'z chr_scheme \<Rightarrow> 'z chr_scheme" where
  "tty_intr n m s =
     (let g = t_pgrp (tty_table s n) in
      if g \<le> 0 then s else fold (tty_intr_one g m) [0..<NR_TASKS] s)"

definition sysbeep :: "'z chr_scheme \<Rightarrow> 'z chr_scheme" where
  "sysbeep s = (outb 0x06 0x42 (outb 0x37 0x42 (outb 0xB6 0x43 (outb (inb_val s 0x61 OR 3) 0x61 s))))
     \<lparr>beepcount := HZ div 8\<rparr>"

definition rs_write :: "nat \<Rightarrow> 'z chr_scheme \<Rightarrow> 'z chr_scheme" where
  "rs_write n s =
     (let q = write_q (tty_table s n); p = ucast (q_data q + 1) in
      if EMPTY q then s else outb (inb_val s p OR 0x02) p s)"

section \<open>The console as a state machine\<close>

definition put_cell :: "u8 \<Rightarrow> console \<Rightarrow> console" where
  "put_cell c t =
     t\<lparr>vram := (vram t)(con_pos t := push_bit 8 (ucast (con_attr t)) OR ucast c),
       con_pos := con_pos t + 2, con_x := con_x t + 1\<rparr>"

text \<open>Past the last column: back to the start of this line, then down one.\<close>

definition wrap_line :: "console \<Rightarrow> console" where
  "wrap_line t = lf (t\<lparr>con_x := con_x t - video_num_columns t, con_pos := con_pos t - video_size_row t\<rparr>)"

definition con_tab :: "console \<Rightarrow> console" where
  "con_tab t =
     (let c = 8 - (con_x t AND 7);
          t1 = t\<lparr>con_x := con_x t + c, con_pos := con_pos t + push_bit 1 c\<rparr>
      in if con_x t1 > video_num_columns t1 then wrap_line t1 else t1)"

definition con_plain :: "nat \<Rightarrow> u8 \<Rightarrow> 'z chr_scheme \<Rightarrow> 'z chr_scheme" where
  "con_plain n b s =
     (let c = sint b; t = con s in
      if c > 31 \<and> c < 127
      then upd_con (\<lambda>t. put_cell b (if con_x t \<ge> video_num_columns t then wrap_line t else t)) s
      else if c = 27 then upd_con (\<lambda>t. t\<lparr>con_state := 1\<rparr>) s
      else if c = 10 \<or> c = 11 \<or> c = 12 then upd_con lf s
      else if c = 13 then upd_con cr s
      else if c = CC VERASE (tty_table s n) then upd_con del s
      else if c = 8
      then upd_con (\<lambda>t. if con_x t \<noteq> 0 then t\<lparr>con_x := con_x t - 1, con_pos := con_pos t - 2\<rparr> else t) s
      else if c = 9 then upd_con con_tab s
      else if c = 7 then sysbeep s
      else s)"

text \<open>\<open>RESPONSE\<close> is \<open>ESC [ ? 1 ; 2 c\<close>.\<close>

definition RESPONSE :: "u8 list" where
  "RESPONSE = 27 # map of_char ''[?1;2c''"

definition respond :: "(nat \<Rightarrow> 'z chr_scheme \<Rightarrow> ('z chr_scheme, unit) outcome) \<Rightarrow> nat \<Rightarrow> 'z chr_scheme
    \<Rightarrow> ('z chr_scheme, unit) outcome" where
  "respond cooked n s = cooked n (upd_tty n (\<lambda>t. t\<lparr>read_q := fold PUTCH RESPONSE (read_q t)\<rparr>) s)"

text \<open>After \<open>ESC\<close>.  The tests for \<open>ESC 7\<close> and \<open>ESC 8\<close> look at \<open>x\<close>, the column, not at \<open>c\<close>.\<close>

definition con_esc :: "(nat \<Rightarrow> 'z chr_scheme \<Rightarrow> ('z chr_scheme, unit) outcome) \<Rightarrow> nat \<Rightarrow> u8 \<Rightarrow> 'z chr_scheme
    \<Rightarrow> ('z chr_scheme, unit) outcome" where
  "con_esc cooked n c s =
     (let s1 = upd_con (\<lambda>t. t\<lparr>con_state := 0\<rparr>) s in
      if c = of_char CHR ''['' then Ret () (upd_con (\<lambda>t. t\<lparr>con_state := 2\<rparr>) s1)
      else if c = of_char CHR ''E'' then Ret () (upd_con (\<lambda>t. gotoxy 0 (con_y t + 1) t) s1)
      else if c = of_char CHR ''M'' then Ret () (upd_con ri s1)
      else if c = of_char CHR ''D'' then Ret () (upd_con lf s1)
      else if c = of_char CHR ''Z'' then respond cooked n s1
      else if con_x (con s1) = 55 then Ret () (upd_con save_cur s1)
      else if con_x (con s1) = 56 then Ret () (upd_con restore_cur s1)
      else Ret () s1)"

definition par_dec :: "nat \<Rightarrow> console \<Rightarrow> console" where
  "par_dec i t = (if con_par t i \<noteq> 0 then t\<lparr>con_par := (con_par t)(i := con_par t i - 1)\<rparr> else t)"

definition par_min1 :: "console \<Rightarrow> console" where
  "par_min1 t = (if con_par t 0 = 0 then t\<lparr>con_par := (con_par t)(0 := 1)\<rparr> else t)"

definition csi_r :: "console \<Rightarrow> console" where
  "csi_r t =
     (let t1 = par_dec 0 t;
          t2 = (if con_par t1 1 = 0 then t1\<lparr>con_par := (con_par t1)(1 := video_num_lines t1)\<rparr> else t1)
      in if con_par t2 0 < con_par t2 1 \<and> con_par t2 1 \<le> video_num_lines t2
         then t2\<lparr>con_top := con_par t2 0, con_bottom := con_par t2 1\<rparr> else t2)"

text \<open>The final character of a control sequence.\<close>

definition con_csi :: "u8 \<Rightarrow> console \<Rightarrow> console" where
  "con_csi b t =
     (let c = (of_char :: char \<Rightarrow> u8) in
      if b = c CHR ''G'' \<or> b = c CHR 0x60 then let t = par_dec 0 t in gotoxy (con_par t 0) (con_y t) t
      else if b = c CHR ''A'' then let t = par_min1 t in gotoxy (con_x t) (con_y t - con_par t 0) t
      else if b = c CHR ''B'' \<or> b = c CHR ''e'' then let t = par_min1 t in gotoxy (con_x t) (con_y t + con_par t 0) t
      else if b = c CHR ''C'' \<or> b = c CHR ''a'' then let t = par_min1 t in gotoxy (con_x t + con_par t 0) (con_y t) t
      else if b = c CHR ''D'' then let t = par_min1 t in gotoxy (con_x t - con_par t 0) (con_y t) t
      else if b = c CHR ''E'' then let t = par_min1 t in gotoxy 0 (con_y t + con_par t 0) t
      else if b = c CHR ''F'' then let t = par_min1 t in gotoxy 0 (con_y t - con_par t 0) t
      else if b = c CHR ''d'' then let t = par_dec 0 t in gotoxy (con_x t) (con_par t 0) t
      else if b = c CHR ''H'' \<or> b = c CHR ''f''
      then let t = par_dec 1 (par_dec 0 t) in gotoxy (con_par t 1) (con_par t 0) t
      else if b = c CHR ''J'' then csi_J (con_par t 0) t
      else if b = c CHR ''K'' then csi_K (con_par t 0) t
      else if b = c CHR ''L'' then csi_L (con_par t 0) t
      else if b = c CHR ''M'' then csi_M (con_par t 0) t
      else if b = c CHR ''P'' then csi_P (con_par t 0) t
      else if b = c CHR ''@'' then csi_at (con_par t 0) t
      else if b = c CHR ''m'' then csi_m t
      else if b = c CHR ''r'' then csi_r t
      else if b = c CHR ''s'' then save_cur t
      else if b = c CHR ''u'' then restore_cur t
      else t)"

definition con_params :: "u8 \<Rightarrow> console \<Rightarrow> console" where
  "con_params b t =
     (let c = sint b in
      if c = 59 \<and> con_npar t < NPAR - 1 then t\<lparr>con_npar := con_npar t + 1\<rparr>
      else if c \<ge> 48 \<and> c \<le> 57
      then t\<lparr>con_par := (con_par t)(con_npar t := 10 * con_par t (con_npar t) + ucast b - 48)\<rparr>
      else con_csi b (t\<lparr>con_state := 0\<rparr>))"

definition con_bracket :: "u8 \<Rightarrow> console \<Rightarrow> console" where
  "con_bracket b t =
     (let q = (b = of_char CHR ''?'');
          t1 = t\<lparr>con_par := (\<lambda>i. if i < NPAR then 0 else con_par t i), con_npar := 0, con_state := 3,
                 con_ques := of_bool q\<rparr>
      in if q then t1 else con_params b t1)"

definition con_char :: "(nat \<Rightarrow> 'z chr_scheme \<Rightarrow> ('z chr_scheme, unit) outcome) \<Rightarrow> nat \<Rightarrow> u8 \<Rightarrow> 'z chr_scheme
    \<Rightarrow> ('z chr_scheme, unit) outcome" where
  "con_char cooked n b s =
     (let st = con_state (con s) in
      if st = 0 then Ret () (con_plain n b s)
      else if st = 1 then con_esc cooked n b s
      else if st = 2 then Ret () (upd_con (con_bracket b) s)
      else if st = 3 then Ret () (upd_con (con_params b) s)
      else if st = 4 then Ret () (upd_con (\<lambda>t. con_csi b (t\<lparr>con_state := 0\<rparr>)) s)
      else Ret () s)"

primrec con_loop :: "nat \<Rightarrow> (nat \<Rightarrow> 'z chr_scheme \<Rightarrow> ('z chr_scheme, unit) outcome) \<Rightarrow> nat \<Rightarrow> 'z chr_scheme
    \<Rightarrow> ('z chr_scheme, unit) outcome" where
  "con_loop 0 cooked n s = Ret () s"
| "con_loop (Suc nr) cooked n s =
     (let (c, q) = GETCH (write_q (tty_table s n))
      in bindO (con_char cooked n c (upd_tty n (\<lambda>t. t\<lparr>write_q := q\<rparr>) s)) (\<lambda>_ s. con_loop nr cooked n s))"

definition con_write :: "(nat \<Rightarrow> 'z chr_scheme \<Rightarrow> ('z chr_scheme, unit) outcome) \<Rightarrow> nat \<Rightarrow> 'z chr_scheme
    \<Rightarrow> ('z chr_scheme, unit) outcome" where
  "con_write cooked n s =
     bindO (con_loop (unat (CHARS (write_q (tty_table s n)))) cooked n s) (\<lambda>_ s. Ret () (upd_con set_cursor s))"

definition con_init :: "boot_video \<Rightarrow> 'z chr_scheme \<Rightarrow> 'z chr_scheme" where
  "con_init b s =
     (let s1 = upd_con (con_setup b) s;
          s2 = outb (inb_val s1 0x21 AND 0xfd) 0x21 s1;
          a = inb_val s2 0x61
      in outb a 0x61 (outb (a OR 0x80) 0x61 s2))"

text \<open>\<open>init\<close> of \<open>serial.c\<close> for one port, and \<open>rs_init\<close>; the interrupt gates are set in the table of the processor.\<close>

definition rs_init_port :: "u16 \<Rightarrow> 'z chr_scheme \<Rightarrow> 'z chr_scheme" where
  "rs_init_port port s =
     outb 0x0d (port + 1) (outb 0x0b (port + 4) (outb 0x03 (port + 3) (outb 0x00 (port + 1)
       (outb 0x30 port (outb 0x80 (port + 3) s)))))"

definition rs_init :: "'z chr_scheme \<Rightarrow> 'z chr_scheme" where
  "rs_init s =
     (let s1 = rs_init_port (ucast (q_data (read_q (tty_table s 1)))) s;
          s2 = rs_init_port (ucast (q_data (read_q (tty_table s1 2)))) s1
      in outb (inb_val s2 0x21 AND 0xE7) 0x21 s2)"

definition tty_init :: "boot_video \<Rightarrow> 'z chr_scheme \<Rightarrow> 'z chr_scheme" where
  "tty_init b s = con_init b (rs_init s)"

section \<open>Cooked input\<close>

text \<open>\<open>tolower\<close> and \<open>toupper\<close> index the class table with the signed character; below \<open>- 1\<close> they read outside it.\<close>

definition tolower :: "int \<Rightarrow> int option" where
  "tolower c = (if c < - 1 then None else if 65 \<le> c \<and> c \<le> 90 then Some (c + 32) else Some c)"

definition toupper :: "int \<Rightarrow> int option" where
  "toupper c = (if c < - 1 then None else if 97 \<le> c \<and> c \<le> 122 then Some (c - 32) else Some c)"

definition echo_erase :: "(nat \<Rightarrow> 'z chr_scheme \<Rightarrow> ('z chr_scheme, unit) outcome) \<Rightarrow> nat \<Rightarrow> int \<Rightarrow> 'z chr_scheme
    \<Rightarrow> ('z chr_scheme, unit) outcome" where
  "echo_erase wr n c s =
     (if L_FLAG (tty_table s n) ECHO
      then wr n (put_write n 127 (if c < 32 then put_write n 127 s else s))
      else Ret () s)"

text \<open>Nothing left to erase: the line is empty, or starts after a newline or an end-of-file character.\<close>

definition line_start :: "tty_struct \<Rightarrow> bool" where
  "line_start t \<longleftrightarrow> EMPTY (secondary t) \<or> sint (LAST (secondary t)) = 10 \<or> sint (LAST (secondary t)) = CC VEOF t"

definition erase_last :: "(nat \<Rightarrow> 'z chr_scheme \<Rightarrow> ('z chr_scheme, unit) outcome) \<Rightarrow> nat \<Rightarrow> 'z chr_scheme
    \<Rightarrow> ('z chr_scheme, unit) outcome" where
  "erase_last wr n s =
     bindO (echo_erase wr n (sint (LAST (secondary (tty_table s n)))) s) (\<lambda>_ s.
       Ret () (upd_tty n (\<lambda>t. t\<lparr>secondary := UNPUT (secondary t)\<rparr>) s))"

primrec kill_line :: "nat \<Rightarrow> (nat \<Rightarrow> 'z chr_scheme \<Rightarrow> ('z chr_scheme, unit) outcome) \<Rightarrow> nat \<Rightarrow> 'z chr_scheme
    \<Rightarrow> ('z chr_scheme, unit) outcome" where
  "kill_line 0 wr n s = Blocked"
| "kill_line (Suc k) wr n s =
     (if line_start (tty_table s n) then Ret () s
      else bindO (erase_last wr n s) (\<lambda>_ s. kill_line k wr n s))"

definition map_input :: "tty_struct \<Rightarrow> int \<Rightarrow> int option" where
  "map_input t c =
     (if c = 13 then if I_FLAG t ICRNL then Some 10 else if I_FLAG t IGNCR then None else Some 13
      else if c = 10 \<and> I_FLAG t INLCR then Some 13 else Some c)"

definition echo_char :: "(nat \<Rightarrow> 'z chr_scheme \<Rightarrow> ('z chr_scheme, unit) outcome) \<Rightarrow> nat \<Rightarrow> int \<Rightarrow> 'z chr_scheme
    \<Rightarrow> ('z chr_scheme, unit) outcome" where
  "echo_char wr n c s =
     (if L_FLAG (tty_table s n) ECHO
      then wr n
        (if c = 10 then put_write n 13 (put_write n 10 s)
         else if c < 32
         then if L_FLAG (tty_table s n) ECHOCTL then put_write n (of_int (c + 64)) (put_write n 94 s) else s
         else put_write n (of_int c) s)
      else Ret () s)"

text \<open>What becomes of one character once it is translated.\<close>

definition cook_char :: "nat \<Rightarrow> (nat \<Rightarrow> 'z chr_scheme \<Rightarrow> ('z chr_scheme, unit) outcome) \<Rightarrow> nat \<Rightarrow> int \<Rightarrow> 'z chr_scheme
    \<Rightarrow> ('z chr_scheme, unit) outcome" where
  "cook_char fuel wr n c s =
     (let t = tty_table s n in
      if L_FLAG t ICANON \<and> c = CC VKILL t then kill_line fuel wr n s
      else if L_FLAG t ICANON \<and> c = CC VERASE t
      then if line_start t then Ret () s else erase_last wr n s
      else if L_FLAG t ICANON \<and> c = CC VSTOP t then Ret () (upd_tty n (\<lambda>t. t\<lparr>t_stopped := 1\<rparr>) s)
      else if L_FLAG t ICANON \<and> c = CC VSTART t then Ret () (upd_tty n (\<lambda>t. t\<lparr>t_stopped := 0\<rparr>) s)
      else if L_FLAG t ISIG \<and> c = CC VINTR t then Ret () (tty_intr n (sigbit SIGINT) s)
      else if L_FLAG t ISIG \<and> c = CC VQUIT t then Ret () (tty_intr n (sigbit SIGQUIT) s)
      else let s1 = (if c = 10 \<or> c = CC VEOF t
                     then upd_tty n (\<lambda>t. t\<lparr>secondary := (secondary t)\<lparr>q_data := q_data (secondary t) + 1\<rparr>\<rparr>) s
                     else s)
           in bindO (echo_char wr n c s1) (\<lambda>_ s.
                Ret () (upd_tty n (\<lambda>t. t\<lparr>secondary := PUTCH (of_int c) (secondary t)\<rparr>) s)))"

primrec cooked_loop :: "nat \<Rightarrow> (nat \<Rightarrow> 'z chr_scheme \<Rightarrow> ('z chr_scheme, unit) outcome) \<Rightarrow> nat \<Rightarrow> 'z chr_scheme
    \<Rightarrow> ('z chr_scheme, unit) outcome" where
  "cooked_loop 0 wr n s = Blocked"
| "cooked_loop (Suc k) wr n s =
     (let t = tty_table s n in
      if EMPTY (read_q t) \<or> FULL (secondary t) then Ret () s
      else let (b, q) = GETCH (read_q t);
               s1 = upd_tty n (\<lambda>t. t\<lparr>read_q := q\<rparr>) s
           in case map_input t (sint b) of
                None \<Rightarrow> cooked_loop k wr n s1
              | Some c \<Rightarrow>
                  (case (if I_FLAG t IUCLC then tolower c else Some c) of
                     None \<Rightarrow> Undefined ''_ctype''
                   | Some c \<Rightarrow> bindO (cook_char TTY_BUF_SIZE wr n c s1) (\<lambda>_ s. cooked_loop k wr n s)))"

text \<open>
  One round per character: a write that puts nothing into the read queue leaves
  at most 1023 rounds.
\<close>

definition copy_to_cooked :: "(nat \<Rightarrow> 'z chr_scheme \<Rightarrow> ('z chr_scheme, unit) outcome) \<Rightarrow> nat \<Rightarrow> 'z chr_scheme
    \<Rightarrow> ('z chr_scheme, unit) outcome" where
  "copy_to_cooked wr n s =
     bindO (cooked_loop TTY_BUF_SIZE wr n s) (\<lambda>_ s.
       Ret () (wake_up (\<lambda>s. proc_list (secondary (tty_table s n))) s))"

text \<open>\<open>tty->write(tty)\<close>, with calls nested at most \<open>d\<close> deep.\<close>

primrec tty_out :: "nat \<Rightarrow> nat \<Rightarrow> 'z chr_scheme \<Rightarrow> ('z chr_scheme, unit) outcome" where
  "tty_out 0 n s = Blocked"
| "tty_out (Suc d) n s =
     (case t_write (tty_table s n) of
        Con_write \<Rightarrow> con_write (copy_to_cooked (tty_out d)) n s
      | Rs_write \<Rightarrow> Ret () (rs_write n s))"

abbreviation (input) NESTING :: nat where "NESTING \<equiv> 1024"

definition do_tty_interrupt :: "nat \<Rightarrow> 'z chr_scheme \<Rightarrow> ('z chr_scheme, unit) outcome" where
  "do_tty_interrupt n s =
     (if n \<ge> 3 then Undefined ''tty_table'' else copy_to_cooked (tty_out NESTING) n s)"

section \<open>Reading and writing terminals\<close>

definition put_proc :: "nat \<Rightarrow> ((tty_queue \<Rightarrow> tty_queue) \<Rightarrow> tty_struct \<Rightarrow> tty_struct) \<Rightarrow> u32 \<Rightarrow> 'z chr_scheme \<Rightarrow> 'z chr_scheme" where
  "put_proc n upd p s = upd_tty n (upd (\<lambda>q. q\<lparr>proc_list := p\<rparr>)) s"

definition sleep_if_empty :: "(nat \<Rightarrow> 'z chr_scheme \<Rightarrow> 'z chr_scheme) \<Rightarrow> nat \<Rightarrow> 'z chr_scheme
    \<Rightarrow> ('z chr_scheme, unit) outcome" where
  "sleep_if_empty env n s =
     isleep_while env (\<lambda>s. signal (cur s) = 0 \<and> EMPTY (secondary (tty_table s n)))
       (\<lambda>s. proc_list (secondary (tty_table s n))) (put_proc n secondary_update) s"

definition sleep_if_full :: "(nat \<Rightarrow> 'z chr_scheme \<Rightarrow> 'z chr_scheme) \<Rightarrow> nat \<Rightarrow> 'z chr_scheme
    \<Rightarrow> ('z chr_scheme, unit) outcome" where
  "sleep_if_full env n s =
     (if \<not> FULL (write_q (tty_table s n)) then Ret () s
      else isleep_while env (\<lambda>s. signal (cur s) = 0 \<and> LEFT_OF (write_q (tty_table s n)) < 128)
             (\<lambda>s. proc_list (write_q (tty_table s n))) (put_proc n write_q_update) s)"

definition wait_for_keypress :: "(nat \<Rightarrow> 'z chr_scheme \<Rightarrow> 'z chr_scheme) \<Rightarrow> 'z chr_scheme
    \<Rightarrow> ('z chr_scheme, unit) outcome" where
  "wait_for_keypress env s = sleep_if_empty env 0 s"

text \<open>
  The inner loop of \<open>tty_read\<close>.  \<open>nr\<close> counts down, \<open>b\<close> is \<open>b - buf\<close>; \<open>Inl\<close> is a
  \<open>return\<close>, \<open>Inr\<close> the values with which the loop is left.
\<close>

primrec read_chars :: "nat \<Rightarrow> nat \<Rightarrow> u32 \<Rightarrow> nat \<Rightarrow> 'z chr_scheme \<Rightarrow> (nat + nat \<times> nat) \<times> 'z chr_scheme" where
  "read_chars 0 n buf b s = (Inr (b, 0), s)"
| "read_chars (Suc nr) n buf b s =
     (let t = tty_table s n;
          (c, q) = GETCH (secondary t);
          s1 = upd_tty n (\<lambda>t. t\<lparr>secondary := q\<rparr>) s;
          s2 = (if sint c = CC VEOF t \<or> sint c = 10
                then upd_tty n (\<lambda>t. t\<lparr>secondary := (secondary t)\<lparr>q_data := q_data (secondary t) - 1\<rparr>\<rparr>) s1
                else s1)
      in if sint c = CC VEOF t \<and> L_FLAG t ICANON then (Inl b, s2)
         else let s3 = put_fs_byte c (buf + of_nat b) s2
              in if nr = 0 \<or> EMPTY (secondary (tty_table s3 n)) then (Inr (b + 1, nr), s3)
                 else read_chars nr n buf (b + 1) s3)"

text \<open>
  A round of the outer loop that neither sleeps nor reads spins with interrupts
  enabled: others run, as in a switch.
\<close>

definition spin :: "(nat \<Rightarrow> 'z sched_scheme \<Rightarrow> 'z sched_scheme) \<Rightarrow> 'z sched_scheme \<Rightarrow> ('z sched_scheme, unit) outcome" where
  "spin env s = (case budget s of 0 \<Rightarrow> Blocked | Suc k \<Rightarrow> Ret () ((env k s)\<lparr>budget := k, current := current s\<rparr>))"

primrec tty_read_loop :: "nat \<Rightarrow> (nat \<Rightarrow> 'z chr_scheme \<Rightarrow> 'z chr_scheme) \<Rightarrow> nat \<Rightarrow> u32 \<Rightarrow> int \<Rightarrow> int \<Rightarrow> nat
    \<Rightarrow> nat \<Rightarrow> nat \<Rightarrow> bool \<Rightarrow> 'z chr_scheme \<Rightarrow> ('z chr_scheme, nat + nat) outcome" where
  "tty_read_loop 0 env n buf oldalarm time minimum nr b flag s = Blocked"
| "tty_read_loop (Suc k) env n buf oldalarm time minimum nr b flag s =
     (if nr = 0 then Ret (Inr b) s
      else if flag \<and> signal (cur s) AND sigbit SIGALRM \<noteq> 0
      then Ret (Inr b) (upd_cur (\<lambda>t. t\<lparr>signal := signal t AND NOT (sigbit SIGALRM)\<rparr>) s)
      else if signal (cur s) \<noteq> 0 then Ret (Inr b) s
      else let t = tty_table s n in
        if EMPTY (secondary t) \<or> (L_FLAG t ICANON \<and> q_data (secondary t) = 0 \<and> LEFT_OF (secondary t) > 20)
        then bindO (if EMPTY (secondary t) then sleep_if_empty env n s else spin env s) (\<lambda>_ s.
               tty_read_loop k env n buf oldalarm time minimum nr b flag s)
        else case read_chars nr n buf b s of
               (Inl b', s1) \<Rightarrow> Ret (Inl b') s1
             | (Inr (b', nr'), s1) \<Rightarrow>
                 (let canon = L_FLAG (tty_table s1 n) ICANON;
                      timed = (time \<noteq> 0 \<and> \<not> canon);
                      flag' = (if timed then oldalarm = 0 \<or> s32 (time + jiffies s1) < oldalarm else flag);
                      s2 = (if timed
                            then upd_cur (\<lambda>t. t\<lparr>alarm := if flag' then s32 (time + jiffies s1) else oldalarm\<rparr>) s1
                            else s1)
                  in if (if canon then b' \<noteq> 0 else b' \<ge> minimum) then Ret (Inr b') s2
                     else tty_read_loop k env n buf oldalarm time minimum nr' b' flag' s2))"

definition tty_read :: "(nat \<Rightarrow> 'z chr_scheme \<Rightarrow> 'z chr_scheme) \<Rightarrow> nat \<Rightarrow> u32 \<Rightarrow> int \<Rightarrow> 'z chr_scheme
    \<Rightarrow> ('z chr_scheme, int) outcome" where
  "tty_read env n buf nr s =
     (if n > 2 \<or> nr < 0 then Ret (- 1) s
      else let t = tty_table s n;
               oldalarm = alarm (cur s);
               time = 10 * CC VTIME t;
               minimum = CC VMIN t;
               timed = (time \<noteq> 0 \<and> minimum = 0);
               flag = (timed \<and> (oldalarm = 0 \<or> s32 (time + jiffies s) < oldalarm));
               s1 = (if flag then upd_cur (\<lambda>t. t\<lparr>alarm := s32 (time + jiffies s)\<rparr>) s else s);
               minimum = (if timed then 1 else minimum);
               minimum = (if minimum > nr then nr else minimum)
           in bindO (tty_read_loop (budget s + nat nr + 1) env n buf oldalarm time (nat minimum) (nat nr) 0 flag s1) (\<lambda>r s.
                case r of
                  Inl b \<Rightarrow> Ret (int b) s
                | Inr b \<Rightarrow>
                    let s2 = upd_cur (\<lambda>t. t\<lparr>alarm := oldalarm\<rparr>) s
                    in Ret (if signal (cur s2) \<noteq> 0 \<and> b = 0 then - EINTR else int b) s2))"

text \<open>
  The inner loop of \<open>tty_write\<close>: \<open>nr\<close> characters at \<open>buf + b\<close> go to the write queue
  while it has room.  A newline is preceded by a carriage return in a round of
  its own, which \<open>cr_flag\<close> remembers across calls.
\<close>

definition post_char :: "tty_struct \<Rightarrow> int \<Rightarrow> int" where
  "post_char t c =
     (if c = 13 \<and> O_FLAG t OCRNL then 10 else if c = 10 \<and> O_FLAG t ONLRET then 13 else c)"

function write_chars :: "nat \<Rightarrow> nat \<Rightarrow> u32 \<Rightarrow> nat \<Rightarrow> 'z chr_scheme \<Rightarrow> ('z chr_scheme, nat \<times> nat) outcome" where
  "write_chars nr n buf b s =
     (let t = tty_table s n; c0 = get_fs_byte (buf + of_nat b) s; c = sint c0 in
      if nr = 0 \<or> FULL (write_q t) then Ret (b, nr) s
      else if O_FLAG t OPOST
      then if post_char t c = 10 \<and> \<not> cr_flag s \<and> O_FLAG t ONLCR
           then write_chars nr n buf b ((put_write n 13 s)\<lparr>cr_flag := True\<rparr>)
           else case (if O_FLAG t OLCUC then toupper (post_char t c) else Some (post_char t c)) of
                  None \<Rightarrow> Undefined ''_ctype''
                | Some c' \<Rightarrow> write_chars (nr - 1) n buf (b + 1) (put_write n (of_int c') (s\<lparr>cr_flag := False\<rparr>))
      else write_chars (nr - 1) n buf (b + 1) (put_write n c0 (s\<lparr>cr_flag := False\<rparr>)))"
  by auto
termination
  by (relation "measure (\<lambda>(nr, _, _, _, s). 2 * nr + of_bool (\<not> cr_flag s))")
     (auto simp: put_write_def upd_tty_def)

declare write_chars.simps [simp del]

primrec tty_write_loop :: "nat \<Rightarrow> (nat \<Rightarrow> 'z chr_scheme \<Rightarrow> 'z chr_scheme) \<Rightarrow> nat \<Rightarrow> u32 \<Rightarrow> nat \<Rightarrow> nat
    \<Rightarrow> 'z chr_scheme \<Rightarrow> ('z chr_scheme, nat) outcome" where
  "tty_write_loop 0 env n buf b nr s = Blocked"
| "tty_write_loop (Suc k) env n buf b nr s =
     (if nr = 0 then Ret b s
      else bindO (sleep_if_full env n s) (\<lambda>_ s.
        if signal (cur s) \<noteq> 0 then Ret b s
        else bindO (write_chars nr n buf b s) (\<lambda>(b, nr) s.
             bindO (tty_out NESTING n s) (\<lambda>_ s.
             bindO (if nr > 0 then schedule env s else Ret () s) (\<lambda>_ s.
             tty_write_loop k env n buf b nr s)))))"

text \<open>Every round but the last calls \<open>schedule\<close>, so the budget bounds the rounds.\<close>

definition tty_write :: "(nat \<Rightarrow> 'z chr_scheme \<Rightarrow> 'z chr_scheme) \<Rightarrow> nat \<Rightarrow> u32 \<Rightarrow> int \<Rightarrow> 'z chr_scheme
    \<Rightarrow> ('z chr_scheme, int) outcome" where
  "tty_write env n buf nr s =
     (if n > 2 \<or> nr < 0 then Ret (- 1) s
      else bindO (tty_write_loop (budget s + 2) env n buf 0 (nat nr) s) (\<lambda>b s. Ret (int b) s))"

section \<open>Terminal control\<close>

definition quotient :: "nat list" where
  "quotient = [0, 2304, 1536, 1047, 857, 768, 576, 384, 192, 96, 64, 48, 24, 12, 6, 3]"

abbreviation (input) CBAUD :: u32 where "CBAUD \<equiv> 0xf"

definition change_speed :: "nat \<Rightarrow> 'z chr_scheme \<Rightarrow> 'z chr_scheme" where
  "change_speed n s =
     (let t = tty_table s n;
          port = (ucast (q_data (read_q t)) :: u16);
          quot = (of_nat (quotient ! unat (c_cflag (t_termios t) AND CBAUD)) :: u16)
      in if port = 0 then s
         else outb 0x03 (port + 3) (outb (ucast (drop_bit 8 quot)) (port + 1)
                (outb (ucast (quot AND 0xff)) port (outb 0x80 (port + 3) s))))"

text \<open>
  The 36 bytes of a \<open>struct termios\<close>, two of them padding, which \<open>c_pad\<close> keeps,
  and the 18 of a \<open>struct termio\<close>, whose last is an uninitialised byte of the
  kernel stack, written here as 0.
\<close>

definition long_bytes :: "u32 \<Rightarrow> u8 list" where
  "long_bytes w = map (byte_of w) [0..<4]"

definition termios_bytes :: "termios \<Rightarrow> u8 list" where
  "termios_bytes t =
     long_bytes (c_iflag t) @ long_bytes (c_oflag t) @ long_bytes (c_cflag t) @ long_bytes (c_lflag t) @
     [c_line t] @ map (c_cc t) [0..<17] @ [fst (c_pad t), snd (c_pad t)]"

definition get_termios :: "nat \<Rightarrow> u32 \<Rightarrow> 'z chr_scheme \<Rightarrow> ('z chr_scheme, int) outcome" where
  "get_termios n a s =
     bindO (verify_area a 36 s) (\<lambda>_ s. Ret 0 (put_fs_bytes (termios_bytes (t_termios (tty_table s n))) a s))"

definition set_termios :: "nat \<Rightarrow> u32 \<Rightarrow> 'z chr_scheme \<Rightarrow> 'z chr_scheme" where
  "set_termios n a s =
     (let v = \<lparr>c_iflag = get_fs_long a s, c_oflag = get_fs_long (a + 4) s, c_cflag = get_fs_long (a + 8) s,
               c_lflag = get_fs_long (a + 12) s, c_line = get_fs_byte (a + 16) s,
               c_cc = (\<lambda>i. if i < 17 then get_fs_byte (a + 17 + of_nat i) s else c_cc (t_termios (tty_table s n)) i),
               c_pad = (get_fs_byte (a + 34) s, get_fs_byte (a + 35) s)\<rparr>
      in change_speed n (upd_tty n (\<lambda>t. t\<lparr>t_termios := v\<rparr>) s))"

definition short_bytes :: "u32 \<Rightarrow> u8 list" where
  "short_bytes w = map (byte_of w) [0..<2]"

definition termio_bytes :: "termios \<Rightarrow> u8 list" where
  "termio_bytes t =
     short_bytes (c_iflag t) @ short_bytes (c_oflag t) @ short_bytes (c_cflag t) @ short_bytes (c_lflag t) @
     [c_line t] @ map (c_cc t) [0..<8] @ [0]"

definition get_termio :: "nat \<Rightarrow> u32 \<Rightarrow> 'z chr_scheme \<Rightarrow> ('z chr_scheme, int) outcome" where
  "get_termio n a s =
     bindO (verify_area a 18 s) (\<lambda>_ s. Ret 0 (put_fs_bytes (termio_bytes (t_termios (tty_table s n))) a s))"

text \<open>\<open>set_termio\<close> replaces the low halves of the flag words only.\<close>

definition low_half :: "u32 \<Rightarrow> u32 \<Rightarrow> 'z chr_scheme \<Rightarrow> u32" where
  "low_half old a s = (old AND 0xffff0000) OR ucast (get_fs_byte a s) OR push_bit 8 (ucast (get_fs_byte (a + 1) s))"

definition set_termio :: "nat \<Rightarrow> u32 \<Rightarrow> 'z chr_scheme \<Rightarrow> 'z chr_scheme" where
  "set_termio n a s =
     (let old = t_termios (tty_table s n);
          v = \<lparr>c_iflag = low_half (c_iflag old) a s, c_oflag = low_half (c_oflag old) (a + 2) s,
               c_cflag = low_half (c_cflag old) (a + 4) s, c_lflag = low_half (c_lflag old) (a + 6) s,
               c_line = get_fs_byte (a + 8) s,
               c_cc = (\<lambda>i. if i < 8 then get_fs_byte (a + 9 + of_nat i) s else c_cc old i), c_pad = c_pad old\<rparr>
      in change_speed n (upd_tty n (\<lambda>t. t\<lparr>t_termios := v\<rparr>) s))"

definition MAJOR :: "u32 \<Rightarrow> u32" where
  "MAJOR a = drop_bit 8 a"

definition MINOR :: "u32 \<Rightarrow> u32" where
  "MINOR a = a AND 0xff"

definition put_user_long :: "u32 \<Rightarrow> u32 \<Rightarrow> 'z chr_scheme \<Rightarrow> ('z chr_scheme, int) outcome" where
  "put_user_long v a s = bindO (verify_area a 4 s) (\<lambda>_ s. Ret 0 (put_fs_long v a s))"

definition flush_read :: "nat \<Rightarrow> 'z chr_scheme \<Rightarrow> 'z chr_scheme" where
  "flush_read n s = upd_tty n (\<lambda>t. t\<lparr>read_q := flush (read_q t)\<rparr>) s"

definition flush_write :: "nat \<Rightarrow> 'z chr_scheme \<Rightarrow> 'z chr_scheme" where
  "flush_write n s = upd_tty n (\<lambda>t. t\<lparr>write_q := flush (write_q t)\<rparr>) s"

text \<open>The command after the terminal is found; the commands the code lists as not implemented give \<open>EINVAL\<close>.\<close>

definition ioctl_cmd :: "nat \<Rightarrow> u32 \<Rightarrow> u32 \<Rightarrow> 'z chr_scheme \<Rightarrow> ('z chr_scheme, int) outcome" where
  "ioctl_cmd n cmd arg s =
     (if n \<ge> 3 then Undefined ''tty_table''
      else if cmd = 0x5401 then get_termios n arg s
      else if cmd = 0x5404 then Ret 0 (set_termios n arg (flush_read n s))
      else if cmd = 0x5403 \<or> cmd = 0x5402 then Ret 0 (set_termios n arg s)
      else if cmd = 0x5405 then get_termio n arg s
      else if cmd = 0x5408 then Ret 0 (set_termio n arg (flush_read n s))
      else if cmd = 0x5407 \<or> cmd = 0x5406 then Ret 0 (set_termio n arg s)
      else if cmd = 0x5409 then Ret 0 s
      else if cmd = 0x540B
      then if arg = 0 then Ret 0 (flush_read n s)
           else if arg = 1 then Ret 0 (flush_write n s)
           else if arg = 2 then Ret 0 (flush_write n (flush_read n s))
           else Ret (- EINVAL) s
      else if cmd = 0x540F then put_user_long (of_int (t_pgrp (tty_table s n))) arg s
      else if cmd = 0x5410 then Ret 0 (upd_tty n (\<lambda>t. t\<lparr>t_pgrp := sint (get_fs_long arg s)\<rparr>) s)
      else if cmd = 0x5411 then bindO (verify_area arg 4 s) (\<lambda>_ s. Ret 0 (put_fs_long (CHARS (write_q (tty_table s n))) arg s))
      else if cmd = 0x541B then bindO (verify_area arg 4 s) (\<lambda>_ s. Ret 0 (put_fs_long (CHARS (secondary (tty_table s n))) arg s))
      else Ret (- EINVAL) s)"

definition tty_ioctl :: "u32 \<Rightarrow> u32 \<Rightarrow> u32 \<Rightarrow> 'z chr_scheme \<Rightarrow> ('z chr_scheme, int) outcome" where
  "tty_ioctl dev cmd arg s =
     (if MAJOR dev = 5
      then if tty (cur s) < 0 then Panic ''tty_ioctl: dev<0'' else ioctl_cmd (nat (tty (cur s))) cmd arg s
      else ioctl_cmd (unat (MINOR dev)) cmd arg s)"

end
