(* ===== verification/Fs_Data.thy ===== *)
theory Fs_Data
  imports Tty
begin

unbundle bit_operations_syntax

text \<open>
  The data of the file system and of the block devices: \<open>src/include/linux/fs.h\<close>
  and \<open>src/kernel/blk_drv/blk.h\<close>.

  Buffer heads, inodes, open files, super blocks and requests live in fixed
  tables and are named by their index; \<open>None\<close> is the null pointer.  The 1024
  bytes a buffer head points to are part of its record, with their address \<open>b_addr\<close>.

  The state \<open>fs\<close> is the whole kernel state.  The record \<open>kenv\<close> stands for what a
  path of the kernel does not control: \<open>k_env\<close> is what other tasks and
  interrupts do while the path is switched out, and \<open>k_dev\<close> the strategy
  routines of the block devices, called when a request is put on an empty
  queue.
\<close>

record buffer_head =
  b_addr :: u32
  b_data :: "nat \<Rightarrow> u8"
  b_blocknr :: u32
  b_dev :: u16
  b_uptodate :: u8
  b_dirt :: u8
  b_count :: u8
  b_lock :: u8
  b_wait :: u32
  b_prev :: "nat option"
  b_next :: "nat option"
  b_prev_free :: "nat option"
  b_next_free :: "nat option"

record m_inode =
  i_mode :: u16
  i_uid :: u16
  i_size :: u32
  i_mtime :: u32
  i_gid :: u8
  i_nlinks :: u8
  i_zone :: "nat \<Rightarrow> u16"
  i_wait :: u32
  i_atime :: u32
  i_ctime :: u32
  i_dev :: u16
  i_num :: u16
  i_count :: u16
  i_lock :: u8
  i_dirt :: u8
  i_pipe :: u8
  i_mount :: u8
  i_seek :: u8
  i_update :: u8

record file_struct =
  f_mode :: u16
  f_flags :: u16
  f_count :: u16
  f_inode :: "nat option"
  f_pos :: int

record super_block =
  s_ninodes :: u16
  s_nzones :: u16
  s_imap_blocks :: u16
  s_zmap_blocks :: u16
  s_firstdatazone :: u16
  s_log_zone_size :: u16
  s_max_size :: u32
  s_magic :: u16
  s_imap :: "nat \<Rightarrow> nat option"
  s_zmap :: "nat \<Rightarrow> nat option"
  s_dev :: u16
  s_isup :: "nat option"
  s_imount :: "nat option"
  s_time :: u32
  s_wait :: u32
  s_lock :: u8
  s_rd_only :: u8
  s_dirt :: u8

text \<open>\<open>r_buffer\<close> is a pointer into the data of a buffer head: its index and an offset.\<close>

record request =
  r_dev :: int
  r_cmd :: int
  r_errors :: int
  r_sector :: u32
  r_nr_sectors :: u32
  r_buffer :: "nat \<times> nat"
  r_waiting :: u32
  r_bh :: "nat option"
  r_next :: "nat option"

text \<open>
  The variables of the hard disk driver (\<open>src/kernel/blk_drv/hd.c\<close>): \<open>do_hd\<close> names the routine the
  next interrupt calls.  \<open>port_in\<close> is what the controller answers: the value of the \<open>n\<close>-th read of a port
  (a byte, or a word for the data port), \<open>port_pos\<close> how often each port has been read.
\<close>

datatype hd_handler = no_handler | read_intr_handler | write_intr_handler | recal_intr_handler

record hd_i_struct =
  head :: int
  sect :: int
  cyl :: int
  wpcom :: int
  lzone :: int
  ctl :: int

record hd_struct =
  start_sect :: int
  nr_sects :: int

record hd_driver =
  callable :: bool
  recalibrate :: bool
  hd_reset :: bool
  NR_HD :: nat
  hd_info :: "nat \<Rightarrow> hd_i_struct"
  hd_tab :: "nat \<Rightarrow> hd_struct"
  do_hd :: hd_handler
  port_in :: "u16 \<Rightarrow> nat \<Rightarrow> u16"
  port_pos :: "u16 \<Rightarrow> nat"

text \<open>
  The variables of the floppy driver (\<open>src/kernel/blk_drv/floppy.c\<close>): \<open>do_floppy\<close> names the routine of the
  next interrupt, \<open>floppy\<close> is the index in \<open>floppy_type\<close> the pointer of that name stands for.
\<close>

datatype fd_handler =
    no_floppy_handler | rw_interrupt_handler | seek_interrupt_handler | recal_interrupt_handler | reset_interrupt_handler

record fd_driver =
  fd_recalibrate :: bool
  fd_reset :: bool
  fd_seek :: bool
  reply_buffer :: "nat \<Rightarrow> u8"
  cur_spec1 :: int
  cur_rate :: int
  floppy :: nat
  current_drive :: u8
  fd_sector :: u8
  fd_head :: u8
  fd_track :: u8
  seek_track :: u8
  current_track :: u8
  fd_command :: u8
  do_floppy :: fd_handler
  tmp_floppy_area :: "nat \<Rightarrow> u8"

record fs = chr +
  start_buffer :: u32
  nr_buffers :: nat
  buffers :: "nat \<Rightarrow> buffer_head"
  hash_table :: "nat \<Rightarrow> nat option"
  free_list :: "nat option"
  buffer_wait :: u32
  request_tab :: "nat \<Rightarrow> request"
  wait_for_request :: u32
  request_fn :: "nat \<Rightarrow> bool"
  current_request :: "nat \<Rightarrow> nat option"
  inode_table :: "nat \<Rightarrow> m_inode"
  last_inode :: nat
  file_table :: "nat \<Rightarrow> file_struct"
  super_table :: "nat \<Rightarrow> super_block"
  ROOT_DEV :: u32
  rd_start :: u32
  rd_length :: u32
  rd_mem :: "nat \<Rightarrow> u8"
  wait_on_floppy_select :: u32
  hdd :: hd_driver
  fdd :: fd_driver

record kenv =
  k_env :: "nat \<Rightarrow> fs \<Rightarrow> fs"
  k_dev :: "nat \<Rightarrow> fs \<Rightarrow> (fs, unit) outcome"

abbreviation (input) NR_INODE :: nat where "NR_INODE \<equiv> 32"
abbreviation (input) NR_FILE :: nat where "NR_FILE \<equiv> 64"
abbreviation (input) NR_SUPER :: nat where "NR_SUPER \<equiv> 8"
abbreviation (input) NR_HASH :: nat where "NR_HASH \<equiv> 307"
abbreviation (input) NR_REQUEST :: nat where "NR_REQUEST \<equiv> 32"
abbreviation (input) NR_BLK_DEV :: nat where "NR_BLK_DEV \<equiv> 7"
abbreviation (input) BLOCK_SIZE :: nat where "BLOCK_SIZE \<equiv> 1024"
abbreviation (input) READ :: int where "READ \<equiv> 0"
abbreviation (input) WRITE :: int where "WRITE \<equiv> 1"
abbreviation (input) READA :: int where "READA \<equiv> 2"
abbreviation (input) WRITEA :: int where "WRITEA \<equiv> 3"

definition upd_bh :: "nat \<Rightarrow> (buffer_head \<Rightarrow> buffer_head) \<Rightarrow> fs \<Rightarrow> fs" where
  "upd_bh b f s = s\<lparr>buffers := (buffers s)(b := f (buffers s b))\<rparr>"

definition upd_req :: "nat \<Rightarrow> (request \<Rightarrow> request) \<Rightarrow> fs \<Rightarrow> fs" where
  "upd_req r f s = s\<lparr>request_tab := (request_tab s)(r := f (request_tab s r))\<rparr>"

definition upd_inode :: "nat \<Rightarrow> (m_inode \<Rightarrow> m_inode) \<Rightarrow> fs \<Rightarrow> fs" where
  "upd_inode i f s = s\<lparr>inode_table := (inode_table s)(i := f (inode_table s i))\<rparr>"

definition upd_file :: "nat \<Rightarrow> (file_struct \<Rightarrow> file_struct) \<Rightarrow> fs \<Rightarrow> fs" where
  "upd_file i f s = s\<lparr>file_table := (file_table s)(i := f (file_table s i))\<rparr>"

definition upd_super :: "nat \<Rightarrow> (super_block \<Rightarrow> super_block) \<Rightarrow> fs \<Rightarrow> fs" where
  "upd_super i f s = s\<lparr>super_table := (super_table s)(i := f (super_table s i))\<rparr>"

text \<open>Little-endian half words in the data of a buffer.\<close>

definition get_u16 :: "(nat \<Rightarrow> u8) \<Rightarrow> nat \<Rightarrow> u16" where
  "get_u16 d k = ucast (d k) OR push_bit 8 (ucast (d (k + 1)))"

definition put_u16 :: "nat \<Rightarrow> u16 \<Rightarrow> (nat \<Rightarrow> u8) \<Rightarrow> nat \<Rightarrow> u8" where
  "put_u16 k v d = d(k := ucast v, k + 1 := ucast (drop_bit 8 v))"

definition get_u32 :: "(nat \<Rightarrow> u8) \<Rightarrow> nat \<Rightarrow> u32" where
  "get_u32 d k = ucast (get_u16 d k) OR push_bit 16 (ucast (get_u16 d (k + 2)))"

definition put_u32 :: "nat \<Rightarrow> u32 \<Rightarrow> (nat \<Rightarrow> u8) \<Rightarrow> nat \<Rightarrow> u8" where
  "put_u32 k v d = put_u16 (k + 2) (ucast (drop_bit 16 v)) (put_u16 k (ucast v) d)"

text \<open>Bytes of physical memory, which \<open>pmem\<close> holds as words.\<close>

definition get_pbyte :: "u32 \<Rightarrow> 'z mm_scheme \<Rightarrow> u8" where
  "get_pbyte a s = byte_of (pmem s (a AND NOT 3)) (unat (a AND 3))"

definition put_pbyte :: "u8 \<Rightarrow> u32 \<Rightarrow> 'z mm_scheme \<Rightarrow> 'z mm_scheme" where
  "put_pbyte v a s =
     (let w = a AND NOT 3; k = 8 * unat (a AND 3)
      in poke w ((pmem s w AND NOT (push_bit k 0xff)) OR push_bit k (ucast v)) s)"

lemma get_put_u16: "get_u16 (put_u16 k v d) k = v"
proof (rule bit_word_eqI)
  fix n assume "n < LENGTH(16)"
  then have "n < 8 \<or> (\<exists>j<8. n = 8 + j)" by simp presburger
  then show "bit (get_u16 (put_u16 k v d) k) n = bit v n"
    by (auto simp: get_u16_def put_u16_def bit_simps)
qed

lemma get_put_u16_other: "j + 1 < k \<or> k + 1 < j \<Longrightarrow> get_u16 (put_u16 k v d) j = get_u16 d j"
  by (auto simp: get_u16_def put_u16_def)

lemma get_put_u32: "get_u32 (put_u32 k v d) k = v"
proof -
  have "get_u16 (put_u32 k v d) k = ucast v" "get_u16 (put_u32 k v d) (k + 2) = ucast (drop_bit 16 v)"
    unfolding put_u32_def by (simp_all add: get_put_u16 get_put_u16_other)
  then have e: "get_u32 (put_u32 k v d) k = ucast (ucast v :: u16) OR push_bit 16 (ucast (ucast (drop_bit 16 v) :: u16))"
    by (simp add: get_u32_def)
  show ?thesis
  proof (rule bit_word_eqI)
    fix n assume "n < LENGTH(32)"
    then have "n < 16 \<or> (\<exists>j<16. n = 16 + j)" by simp presburger
    then show "bit (get_u32 (put_u32 k v d) k) n = bit v n" unfolding e by (auto simp: bit_simps)
  qed
qed

section \<open>What an update of one table entry changes\<close>

lemma upd_bh_simps [simp]:
  "buffers (upd_bh b f s) = (buffers s)(b := f (buffers s b))"
  "start_buffer (upd_bh b f s) = start_buffer s" "nr_buffers (upd_bh b f s) = nr_buffers s"
  "hash_table (upd_bh b f s) = hash_table s" "free_list (upd_bh b f s) = free_list s"
  "buffer_wait (upd_bh b f s) = buffer_wait s" "request_tab (upd_bh b f s) = request_tab s"
  "wait_for_request (upd_bh b f s) = wait_for_request s" "request_fn (upd_bh b f s) = request_fn s"
  "current_request (upd_bh b f s) = current_request s" "inode_table (upd_bh b f s) = inode_table s"
  "last_inode (upd_bh b f s) = last_inode s" "file_table (upd_bh b f s) = file_table s"
  "super_table (upd_bh b f s) = super_table s" "ROOT_DEV (upd_bh b f s) = ROOT_DEV s"
  "rd_start (upd_bh b f s) = rd_start s" "rd_length (upd_bh b f s) = rd_length s"
  "rd_mem (upd_bh b f s) = rd_mem s" "wait_on_floppy_select (upd_bh b f s) = wait_on_floppy_select s" "hdd (upd_bh b f s) = hdd s" "fdd (upd_bh b f s) = fdd s"
  "task (upd_bh b f s) = task s" "tstruct (upd_bh b f s) = tstruct s" "current (upd_bh b f s) = current s"
  "init_task (upd_bh b f s) = init_task s" "budget (upd_bh b f s) = budget s"
  "jiffies (upd_bh b f s) = jiffies s" "startup_time (upd_bh b f s) = startup_time s"
  "umem (upd_bh b f s) = umem s" "pmem (upd_bh b f s) = pmem s" "mem_map (upd_bh b f s) = mem_map s"
  "HIGH_MEMORY (upd_bh b f s) = HIGH_MEMORY s"
  by (simp_all add: upd_bh_def)

lemma upd_req_simps [simp]:
  "request_tab (upd_req b f s) = (request_tab s)(b := f (request_tab s b))"
  "start_buffer (upd_req b f s) = start_buffer s" "nr_buffers (upd_req b f s) = nr_buffers s"
  "buffers (upd_req b f s) = buffers s" "hash_table (upd_req b f s) = hash_table s"
  "free_list (upd_req b f s) = free_list s" "buffer_wait (upd_req b f s) = buffer_wait s"
  "wait_for_request (upd_req b f s) = wait_for_request s" "request_fn (upd_req b f s) = request_fn s"
  "current_request (upd_req b f s) = current_request s" "inode_table (upd_req b f s) = inode_table s"
  "last_inode (upd_req b f s) = last_inode s" "file_table (upd_req b f s) = file_table s"
  "super_table (upd_req b f s) = super_table s" "ROOT_DEV (upd_req b f s) = ROOT_DEV s"
  "rd_start (upd_req b f s) = rd_start s" "rd_length (upd_req b f s) = rd_length s"
  "rd_mem (upd_req b f s) = rd_mem s" "wait_on_floppy_select (upd_req b f s) = wait_on_floppy_select s" "hdd (upd_req b f s) = hdd s" "fdd (upd_req b f s) = fdd s"
  "task (upd_req b f s) = task s" "tstruct (upd_req b f s) = tstruct s" "current (upd_req b f s) = current s"
  "init_task (upd_req b f s) = init_task s" "budget (upd_req b f s) = budget s"
  "jiffies (upd_req b f s) = jiffies s" "startup_time (upd_req b f s) = startup_time s"
  "umem (upd_req b f s) = umem s" "pmem (upd_req b f s) = pmem s" "mem_map (upd_req b f s) = mem_map s"
  "HIGH_MEMORY (upd_req b f s) = HIGH_MEMORY s"
  by (simp_all add: upd_req_def)

lemma upd_inode_simps [simp]:
  "inode_table (upd_inode b f s) = (inode_table s)(b := f (inode_table s b))"
  "start_buffer (upd_inode b f s) = start_buffer s" "nr_buffers (upd_inode b f s) = nr_buffers s"
  "buffers (upd_inode b f s) = buffers s" "hash_table (upd_inode b f s) = hash_table s"
  "free_list (upd_inode b f s) = free_list s" "buffer_wait (upd_inode b f s) = buffer_wait s"
  "request_tab (upd_inode b f s) = request_tab s" "wait_for_request (upd_inode b f s) = wait_for_request s"
  "request_fn (upd_inode b f s) = request_fn s" "current_request (upd_inode b f s) = current_request s"
  "last_inode (upd_inode b f s) = last_inode s" "file_table (upd_inode b f s) = file_table s"
  "super_table (upd_inode b f s) = super_table s" "ROOT_DEV (upd_inode b f s) = ROOT_DEV s"
  "rd_start (upd_inode b f s) = rd_start s" "rd_length (upd_inode b f s) = rd_length s"
  "rd_mem (upd_inode b f s) = rd_mem s" "wait_on_floppy_select (upd_inode b f s) = wait_on_floppy_select s" "hdd (upd_inode b f s) = hdd s" "fdd (upd_inode b f s) = fdd s"
  "task (upd_inode b f s) = task s" "tstruct (upd_inode b f s) = tstruct s"
  "current (upd_inode b f s) = current s" "init_task (upd_inode b f s) = init_task s"
  "budget (upd_inode b f s) = budget s" "jiffies (upd_inode b f s) = jiffies s"
  "startup_time (upd_inode b f s) = startup_time s" "umem (upd_inode b f s) = umem s"
  "pmem (upd_inode b f s) = pmem s" "mem_map (upd_inode b f s) = mem_map s"
  "HIGH_MEMORY (upd_inode b f s) = HIGH_MEMORY s"
  by (simp_all add: upd_inode_def)

lemma upd_file_simps [simp]:
  "file_table (upd_file b f s) = (file_table s)(b := f (file_table s b))"
  "start_buffer (upd_file b f s) = start_buffer s" "nr_buffers (upd_file b f s) = nr_buffers s"
  "buffers (upd_file b f s) = buffers s" "hash_table (upd_file b f s) = hash_table s"
  "free_list (upd_file b f s) = free_list s" "buffer_wait (upd_file b f s) = buffer_wait s"
  "request_tab (upd_file b f s) = request_tab s" "wait_for_request (upd_file b f s) = wait_for_request s"
  "request_fn (upd_file b f s) = request_fn s" "current_request (upd_file b f s) = current_request s"
  "inode_table (upd_file b f s) = inode_table s" "last_inode (upd_file b f s) = last_inode s"
  "super_table (upd_file b f s) = super_table s" "ROOT_DEV (upd_file b f s) = ROOT_DEV s"
  "rd_start (upd_file b f s) = rd_start s" "rd_length (upd_file b f s) = rd_length s"
  "rd_mem (upd_file b f s) = rd_mem s" "wait_on_floppy_select (upd_file b f s) = wait_on_floppy_select s" "hdd (upd_file b f s) = hdd s" "fdd (upd_file b f s) = fdd s"
  "task (upd_file b f s) = task s" "tstruct (upd_file b f s) = tstruct s"
  "current (upd_file b f s) = current s" "init_task (upd_file b f s) = init_task s"
  "budget (upd_file b f s) = budget s" "jiffies (upd_file b f s) = jiffies s"
  "startup_time (upd_file b f s) = startup_time s" "umem (upd_file b f s) = umem s"
  "pmem (upd_file b f s) = pmem s" "mem_map (upd_file b f s) = mem_map s"
  "HIGH_MEMORY (upd_file b f s) = HIGH_MEMORY s"
  by (simp_all add: upd_file_def)

lemma upd_super_simps [simp]:
  "super_table (upd_super b f s) = (super_table s)(b := f (super_table s b))"
  "start_buffer (upd_super b f s) = start_buffer s" "nr_buffers (upd_super b f s) = nr_buffers s"
  "buffers (upd_super b f s) = buffers s" "hash_table (upd_super b f s) = hash_table s"
  "free_list (upd_super b f s) = free_list s" "buffer_wait (upd_super b f s) = buffer_wait s"
  "request_tab (upd_super b f s) = request_tab s" "wait_for_request (upd_super b f s) = wait_for_request s"
  "request_fn (upd_super b f s) = request_fn s" "current_request (upd_super b f s) = current_request s"
  "inode_table (upd_super b f s) = inode_table s" "last_inode (upd_super b f s) = last_inode s"
  "file_table (upd_super b f s) = file_table s" "ROOT_DEV (upd_super b f s) = ROOT_DEV s"
  "rd_start (upd_super b f s) = rd_start s" "rd_length (upd_super b f s) = rd_length s"
  "rd_mem (upd_super b f s) = rd_mem s" "wait_on_floppy_select (upd_super b f s) = wait_on_floppy_select s" "hdd (upd_super b f s) = hdd s" "fdd (upd_super b f s) = fdd s"
  "task (upd_super b f s) = task s" "tstruct (upd_super b f s) = tstruct s"
  "current (upd_super b f s) = current s" "init_task (upd_super b f s) = init_task s"
  "budget (upd_super b f s) = budget s" "jiffies (upd_super b f s) = jiffies s"
  "startup_time (upd_super b f s) = startup_time s" "umem (upd_super b f s) = umem s"
  "pmem (upd_super b f s) = pmem s" "mem_map (upd_super b f s) = mem_map s"
  "HIGH_MEMORY (upd_super b f s) = HIGH_MEMORY s"
  by (simp_all add: upd_super_def)

lemma upd_task_fs_simps [simp]:
  "start_buffer (upd_task p f s) = start_buffer s" "nr_buffers (upd_task p f s) = nr_buffers s"
  "buffers (upd_task p f s) = buffers s" "hash_table (upd_task p f s) = hash_table s"
  "free_list (upd_task p f s) = free_list s" "buffer_wait (upd_task p f s) = buffer_wait s"
  "request_tab (upd_task p f s) = request_tab s" "wait_for_request (upd_task p f s) = wait_for_request s"
  "request_fn (upd_task p f s) = request_fn s" "current_request (upd_task p f s) = current_request s"
  "inode_table (upd_task p f s) = inode_table s" "last_inode (upd_task p f s) = last_inode s"
  "file_table (upd_task p f s) = file_table s" "super_table (upd_task p f s) = super_table s"
  "ROOT_DEV (upd_task p f s) = ROOT_DEV s" "rd_start (upd_task p f s) = rd_start s"
  "rd_length (upd_task p f s) = rd_length s" "rd_mem (upd_task p f s) = rd_mem s"
  "wait_on_floppy_select (upd_task p f s) = wait_on_floppy_select s" "hdd (upd_task p f s) = hdd s" "fdd (upd_task p f s) = fdd s"
  by (simp_all add: upd_task_def)

lemma wake_up_fs_simps [simp]:
  "start_buffer (wake_up get s) = start_buffer s" "nr_buffers (wake_up get s) = nr_buffers s"
  "buffers (wake_up get s) = buffers s" "hash_table (wake_up get s) = hash_table s"
  "free_list (wake_up get s) = free_list s" "buffer_wait (wake_up get s) = buffer_wait s"
  "request_tab (wake_up get s) = request_tab s" "wait_for_request (wake_up get s) = wait_for_request s"
  "request_fn (wake_up get s) = request_fn s" "current_request (wake_up get s) = current_request s"
  "inode_table (wake_up get s) = inode_table s" "last_inode (wake_up get s) = last_inode s"
  "file_table (wake_up get s) = file_table s" "super_table (wake_up get s) = super_table s"
  "ROOT_DEV (wake_up get s) = ROOT_DEV s" "rd_start (wake_up get s) = rd_start s"
  "rd_length (wake_up get s) = rd_length s" "rd_mem (wake_up get s) = rd_mem s"
  "wait_on_floppy_select (wake_up get s) = wait_on_floppy_select s" "hdd (wake_up get s) = hdd s" "fdd (wake_up get s) = fdd s" "task (wake_up get s) = task s"
  "current (wake_up get s) = current s" "init_task (wake_up get s) = init_task s"
  "budget (wake_up get s) = budget s" "jiffies (wake_up get s) = jiffies s"
  "startup_time (wake_up get s) = startup_time s" "umem (wake_up get s) = umem s"
  "pmem (wake_up get s) = pmem s" "mem_map (wake_up get s) = mem_map s"
  "HIGH_MEMORY (wake_up get s) = HIGH_MEMORY s"
  by (simp_all add: wake_up_def upd_task_def)

end
