(* ===== verification/Blk_Dev.thy ===== *)
theory Blk_Dev
  imports Fs_Data
begin

unbundle bit_operations_syntax

text \<open>
  Requests to block devices, from \<open>src/kernel/blk_drv/ll_rw_blk.c\<close>, the shared part
  of the drivers in \<open>blk.h\<close>, and the RAM disk, \<open>ramdisk.c\<close>.  Messages printed
  on the console are left out.
\<close>

section \<open>Locking buffers\<close>

definition put_b_wait :: "nat \<Rightarrow> u32 \<Rightarrow> fs \<Rightarrow> fs" where
  "put_b_wait b p s = upd_bh b (\<lambda>h. h\<lparr>b_wait := p\<rparr>) s"

definition wait_on_buffer :: "kenv \<Rightarrow> nat \<Rightarrow> fs \<Rightarrow> (fs, unit) outcome" where
  "wait_on_buffer E b s =
     sleep_while (k_env E) (\<lambda>s. b_lock (buffers s b) \<noteq> 0) (\<lambda>s. b_wait (buffers s b)) (put_b_wait b) s"

definition lock_buffer :: "kenv \<Rightarrow> nat \<Rightarrow> fs \<Rightarrow> (fs, unit) outcome" where
  "lock_buffer E b s =
     bindO (wait_on_buffer E b s) (\<lambda>_ s. Ret () (upd_bh b (\<lambda>h. h\<lparr>b_lock := 1\<rparr>) s))"

definition unlock_buffer :: "nat \<Rightarrow> fs \<Rightarrow> fs" where
  "unlock_buffer b s = wake_up (\<lambda>s. b_wait (buffers s b)) (upd_bh b (\<lambda>h. h\<lparr>b_lock := 0\<rparr>) s)"

section \<open>The request queue\<close>

text \<open>Reads before writes, then by device, then by sector.\<close>

definition IN_ORDER :: "request \<Rightarrow> request \<Rightarrow> bool" where
  "IN_ORDER s1 s2 \<longleftrightarrow> r_cmd s1 < r_cmd s2 \<or> (r_cmd s1 = r_cmd s2 \<and>
     (r_dev s1 < r_dev s2 \<or> (r_dev s1 = r_dev s2 \<and> r_sector s1 < r_sector s2)))"

text \<open>
  The search of the elevator for the request behind which \<open>req\<close> goes.  A queue
  holds at most the 32 requests of the table, which bounds the search.
\<close>

primrec elevator :: "nat \<Rightarrow> nat \<Rightarrow> nat \<Rightarrow> fs \<Rightarrow> nat option" where
  "elevator 0 tmp req s = None"
| "elevator (Suc k) tmp req s =
     (case r_next (request_tab s tmp) of
        None \<Rightarrow> Some tmp
      | Some nx \<Rightarrow>
          if (IN_ORDER (request_tab s tmp) (request_tab s req) \<or>
              \<not> IN_ORDER (request_tab s tmp) (request_tab s nx)) \<and>
             IN_ORDER (request_tab s req) (request_tab s nx)
          then Some tmp else elevator k nx req s)"

definition add_request :: "kenv \<Rightarrow> nat \<Rightarrow> nat \<Rightarrow> fs \<Rightarrow> (fs, unit) outcome" where
  "add_request E major req s =
     (let s1 = upd_req req (\<lambda>r. r\<lparr>r_next := None\<rparr>) s;
          s2 = (case r_bh (request_tab s1 req) of
                  Some b \<Rightarrow> upd_bh b (\<lambda>h. h\<lparr>b_dirt := 0\<rparr>) s1
                | None \<Rightarrow> s1)
      in case current_request s2 major of
           None \<Rightarrow> k_dev E major (s2\<lparr>current_request := (current_request s2)(major := Some req)\<rparr>)
         | Some tmp \<Rightarrow>
             (case elevator (NR_REQUEST + 1) tmp req s2 of
                None \<Rightarrow> Blocked
              | Some p \<Rightarrow>
                  Ret () (upd_req p (\<lambda>r. r\<lparr>r_next := Some req\<rparr>)
                           (upd_req req (\<lambda>r. r\<lparr>r_next := r_next (request_tab s2 p)\<rparr>) s2))))"

text \<open>The search for a free request runs downwards, for writes only over the lower two thirds.\<close>

definition find_request :: "int \<Rightarrow> fs \<Rightarrow> nat option" where
  "find_request rw s =
     List.find (\<lambda>r. r_dev (request_tab s r) < 0) (rev [0..<if rw = READ then NR_REQUEST else NR_REQUEST * 2 div 3])"

primrec get_request :: "nat \<Rightarrow> kenv \<Rightarrow> int \<Rightarrow> bool \<Rightarrow> fs \<Rightarrow> (fs, nat option) outcome" where
  "get_request 0 E rw ahead s = Blocked"
| "get_request (Suc k) E rw ahead s =
     (case find_request rw s of
        Some r \<Rightarrow> Ret (Some r) s
      | None \<Rightarrow>
          if ahead then Ret None s
          else bindO (sleep_on (k_env E) wait_for_request (\<lambda>p s. s\<lparr>wait_for_request := p\<rparr>) s)
                 (\<lambda>_ s. get_request k E rw ahead s))"

definition fill_request :: "nat \<Rightarrow> int \<Rightarrow> nat \<Rightarrow> fs \<Rightarrow> fs" where
  "fill_request req rw b s =
     upd_req req (\<lambda>r. \<lparr>r_dev = uint (b_dev (buffers s b)), r_cmd = rw, r_errors = 0,
       r_sector = push_bit 1 (b_blocknr (buffers s b)), r_nr_sectors = 2, r_buffer = (b, 0),
       r_waiting = 0, r_bh = Some b, r_next = None\<rparr>) s"

definition make_request :: "kenv \<Rightarrow> nat \<Rightarrow> int \<Rightarrow> nat \<Rightarrow> fs \<Rightarrow> (fs, unit) outcome" where
  "make_request E major rw0 b s =
     (let ahead = (rw0 = READA \<or> rw0 = WRITEA);
          rw = (if rw0 = READA then READ else if rw0 = WRITEA then WRITE else rw0)
      in if ahead \<and> b_lock (buffers s b) \<noteq> 0 then Ret () s
         else if rw \<noteq> READ \<and> rw \<noteq> WRITE then Panic ''Bad block dev command, must be R/W/RA/WA''
         else bindO (lock_buffer E b s) (\<lambda>_ s.
           if (rw = WRITE \<and> b_dirt (buffers s b) = 0) \<or> (rw = READ \<and> b_uptodate (buffers s b) \<noteq> 0)
           then Ret () (unlock_buffer b s)
           else bindO (get_request (budget s + 1) E rw ahead s) (\<lambda>r s.
                  case r of
                    None \<Rightarrow> Ret () (unlock_buffer b s)
                  | Some req \<Rightarrow> add_request E major req (fill_request req rw b s))))"

definition ll_rw_block :: "kenv \<Rightarrow> int \<Rightarrow> nat \<Rightarrow> fs \<Rightarrow> (fs, unit) outcome" where
  "ll_rw_block E rw b s =
     (let major = unat (MAJOR (ucast (b_dev (buffers s b)))) in
      if major \<ge> NR_BLK_DEV \<or> \<not> request_fn s major then Ret () s
      else make_request E major rw b s)"

definition blk_dev_init :: "fs \<Rightarrow> fs" where
  "blk_dev_init s = s\<lparr>request_tab := (\<lambda>i. if i < NR_REQUEST
     then (request_tab s i)\<lparr>r_dev := - 1, r_next := None\<rparr> else request_tab s i)\<rparr>"

section \<open>The end of a request\<close>

text \<open>
  \<open>end_request\<close> for the device \<open>major\<close>; \<open>off\<close> is its \<open>DEVICE_OFF\<close>.  The error
  message reads \<open>CURRENT->bh->b_blocknr\<close>; with no buffer that is a read through
  the null pointer, which only affects what is printed.
\<close>

definition end_request :: "nat \<Rightarrow> (int \<Rightarrow> fs \<Rightarrow> (fs, unit) outcome) \<Rightarrow> u8 \<Rightarrow> fs \<Rightarrow> (fs, unit) outcome" where
  "end_request major off uptodate s =
     (case current_request s major of
        None \<Rightarrow> Undefined ''CURRENT''
      | Some c \<Rightarrow>
          bindO (off (r_dev (request_tab s c)) s) (\<lambda>_ s.
          let s1 = (case r_bh (request_tab s c) of
                      Some b \<Rightarrow> unlock_buffer b (upd_bh b (\<lambda>h. h\<lparr>b_uptodate := uptodate\<rparr>) s)
                    | None \<Rightarrow> s);
              s2 = wake_up (\<lambda>s. r_waiting (request_tab s c)) s1;
              s3 = wake_up wait_for_request s2;
              s4 = upd_req c (\<lambda>r. r\<lparr>r_dev := - 1\<rparr>) s3
          in Ret () (s4\<lparr>current_request := (current_request s4)(major := r_next (request_tab s4 c))\<rparr>)))"

text \<open>The checks of \<open>INIT_REQUEST\<close>; \<open>None\<close> is its \<open>return\<close>.\<close>

definition INIT_REQUEST :: "nat \<Rightarrow> fs \<Rightarrow> (fs, nat option) outcome" where
  "INIT_REQUEST major s =
     (case current_request s major of
        None \<Rightarrow> Ret None s
      | Some c \<Rightarrow>
          if MAJOR (of_int (r_dev (request_tab s c))) \<noteq> of_nat major then Panic ''request list destroyed''
          else case r_bh (request_tab s c) of
                 Some b \<Rightarrow> if b_lock (buffers s b) = 0 then Panic ''block not locked'' else Ret (Some c) s
               | None \<Rightarrow> Ret (Some c) s)"

section \<open>The RAM disk\<close>

text \<open>
  The memory of the RAM disk is \<open>rd_mem\<close>, indexed from \<open>rd_start\<close>; addresses are
  computed and compared as machine words, as the source does.  A \<open>memcpy\<close> that
  would leave the RAM disk or the 1024 bytes of the buffer is undefined.
\<close>

definition rd_write :: "nat \<Rightarrow> nat \<times> nat \<Rightarrow> nat \<Rightarrow> fs \<Rightarrow> fs" where
  "rd_write off p len s =
     s\<lparr>rd_mem := (\<lambda>i. if off \<le> i \<and> i < off + len then b_data (buffers s (fst p)) (snd p + (i - off)) else rd_mem s i)\<rparr>"

definition rd_read :: "nat \<times> nat \<Rightarrow> nat \<Rightarrow> nat \<Rightarrow> fs \<Rightarrow> fs" where
  "rd_read p off len s =
     upd_bh (fst p) (\<lambda>h. h\<lparr>b_data := (\<lambda>i. if snd p \<le> i \<and> i < snd p + len then rd_mem s (off + (i - snd p)) else b_data h i)\<rparr>) s"

text \<open>One request; the \<open>goto repeat\<close> behind it is the loop below.\<close>

definition rd_transfer :: "request \<Rightarrow> fs \<Rightarrow> (fs, unit) outcome" where
  "rd_transfer r s =
     (let addr = rd_start s + push_bit 9 (r_sector r);
          len = push_bit 9 (r_nr_sectors r);
          off = unat (addr - rd_start s)
      in if MINOR (of_int (r_dev r)) \<noteq> 1 \<or> addr + len > rd_start s + rd_length s
         then end_request 1 (\<lambda>_ s. Ret () s) 0 s
         else if r_cmd r \<noteq> WRITE \<and> r_cmd r \<noteq> READ then Panic ''unknown ramdisk-command''
         else if unat len > BLOCK_SIZE - snd (r_buffer r) \<or> off + unat len > unat (rd_length s)
         then Undefined ''memcpy outside of the RAM disk or the buffer''
         else end_request 1 (\<lambda>_ s. Ret () s) 1
                (if r_cmd r = WRITE then rd_write off (r_buffer r) (unat len) s
                 else rd_read (r_buffer r) off (unat len) s))"

primrec do_rd_request_loop :: "nat \<Rightarrow> fs \<Rightarrow> (fs, unit) outcome" where
  "do_rd_request_loop 0 s = Blocked"
| "do_rd_request_loop (Suc k) s =
     bindO (INIT_REQUEST 1 s) (\<lambda>c s.
       case c of
         None \<Rightarrow> Ret () s
       | Some c \<Rightarrow> bindO (rd_transfer (request_tab s c) s) (\<lambda>_ s. do_rd_request_loop k s))"

text \<open>Every round takes one request off a queue of at most 32.\<close>

definition do_rd_request :: "fs \<Rightarrow> (fs, unit) outcome" where
  "do_rd_request s = do_rd_request_loop (NR_REQUEST + 1) s"

definition rd_init :: "u32 \<Rightarrow> u32 \<Rightarrow> fs \<Rightarrow> u32 \<times> fs" where
  "rd_init mem_start len s =
     (len, s\<lparr>request_fn := (request_fn s)(1 := True), rd_start := mem_start, rd_length := len,
             rd_mem := (\<lambda>i. if i < unat len then 0 else rd_mem s i)\<rparr>)"

end
