(* ===== verification/Loops.thy ===== *)
theory Loops
  imports Kernel_Prelude
begin

text \<open>
  Loops that may run forever.  \<open>loopO f v s\<close> runs the body \<open>f\<close> on the loop variable
  \<open>v\<close> and the state \<open>s\<close>: \<open>Inl v'\<close> goes round again with \<open>v'\<close> (a \<open>goto repeat\<close>, the
  end of a \<open>while\<close> body), \<open>Inr a\<close> leaves the loop with \<open>a\<close>.  A loop that never
  ends is \<open>Blocked\<close>: the path does not return.

  The rules: unfolding, an invariant for partial correctness, and an invariant
  with a measure for total correctness.  \<open>eachO\<close> is a \<open>for\<close> loop over a list.
\<close>

partial_function (option) loop_opt ::
  "('v \<Rightarrow> 's \<Rightarrow> ('s, 'v + 'a) outcome) \<Rightarrow> 'v \<Rightarrow> 's \<Rightarrow> ('s, 'a) outcome option" where
  "loop_opt f v s =
     (case f v s of
        Ret r t \<Rightarrow> (case r of Inl w \<Rightarrow> loop_opt f w t | Inr a \<Rightarrow> Some (Ret a t))
      | Panic m \<Rightarrow> Some (Panic m)
      | Undefined m \<Rightarrow> Some (Undefined m)
      | Exits c t \<Rightarrow> Some (Exits c t)
      | Blocked \<Rightarrow> Some Blocked)"

definition loopO :: "('v \<Rightarrow> 's \<Rightarrow> ('s, 'v + 'a) outcome) \<Rightarrow> 'v \<Rightarrow> 's \<Rightarrow> ('s, 'a) outcome" where
  "loopO f v s = (case loop_opt f v s of None \<Rightarrow> Blocked | Some r \<Rightarrow> r)"

primrec eachO :: "('a \<Rightarrow> 's \<Rightarrow> ('s, unit) outcome) \<Rightarrow> 'a list \<Rightarrow> 's \<Rightarrow> ('s, unit) outcome" where
  "eachO f [] s = Ret () s"
| "eachO f (x # xs) s = bindO (f x s) (\<lambda>_ s. eachO f xs s)"

lemma loopO_unfold:
  "loopO f v s = bindO (f v s) (\<lambda>r t. case r of Inl w \<Rightarrow> loopO f w t | Inr a \<Rightarrow> Ret a t)"
  unfolding loopO_def by (subst loop_opt.simps) (cases "f v s"; auto split: sum.splits)

lemma loopO_done: "f v s = Ret (Inr a) t \<Longrightarrow> loopO f v s = Ret a t"
  by (simp add: loopO_unfold)

lemma loopO_again: "f v s = Ret (Inl w) t \<Longrightarrow> loopO f v s = loopO f w t"
  by (subst loopO_unfold) simp

lemma loop_opt_rule:
  assumes "loop_opt f v s = Some r" "I v s"
    and step: "\<And>v s w t. I v s \<Longrightarrow> f v s = Ret (Inl w) t \<Longrightarrow> I w t"
    and out: "\<And>v s a t. I v s \<Longrightarrow> f v s = Ret (Inr a) t \<Longrightarrow> Q a t"
    and ex: "\<And>v s c t. I v s \<Longrightarrow> f v s = Exits c t \<Longrightarrow> X t"
  shows "(\<forall>a t. r = Ret a t \<longrightarrow> Q a t) \<and> (\<forall>c t. r = Exits c t \<longrightarrow> X t)"
proof -
  define P where "P g v s r \<longleftrightarrow> (g = f \<longrightarrow> I v s \<longrightarrow>
    (\<forall>a t. r = Ret a t \<longrightarrow> Q a t) \<and> (\<forall>c t. r = Exits c t \<longrightarrow> X t))" for g v s r
  have "P f v s r"
  proof (rule loop_opt.raw_induct [of P, OF _ assms(1)], goal_cases)
    case (1 loop g v s r)
    show ?case
      using 1 step [of v s] out [of v s] ex [of v s] unfolding P_def
      by (cases "g v s") (auto split: sum.splits)
  qed
  then show ?thesis using assms(2) by (simp add: P_def)
qed

lemma loopO_rule:
  assumes "loopO f v s = Ret a t" "I v s"
    and "\<And>v s w t. I v s \<Longrightarrow> f v s = Ret (Inl w) t \<Longrightarrow> I w t"
    and "\<And>v s a t. I v s \<Longrightarrow> f v s = Ret (Inr a) t \<Longrightarrow> Q a t"
  shows "Q a t"
proof -
  have "loop_opt f v s = Some (Ret a t)" using assms(1) by (simp add: loopO_def split: option.splits)
  then show ?thesis using loop_opt_rule [of f v s "Ret a t" I Q "\<lambda>_. True"] assms(2-4) by blast
qed

lemma loopO_retains:
  assumes "P s" and "\<And>v s. P s \<Longrightarrow> retains P (f v s)"
  shows "retains P (loopO f v s)"
proof (cases "loop_opt f v s")
  case (Some r)
  have "(\<forall>a t. r = Ret a t \<longrightarrow> P t) \<and> (\<forall>c t. r = Exits c t \<longrightarrow> P t)"
    by (rule loop_opt_rule [of f v s r "\<lambda>_. P"]) (use Some assms in \<open>auto dest: assms(2)\<close>, (metis assms(2) retains.simps)+)
  then show ?thesis using Some by (cases r) (simp_all add: loopO_def)
qed (simp add: loopO_def)

lemma loopO_total:
  assumes "I v s"
    and "\<And>v s. I v s \<Longrightarrow> \<exists>r t. f v s = Ret r t \<and>
           (case r of Inl w \<Rightarrow> I w t \<and> (m w t :: nat) < m v s | Inr a \<Rightarrow> Q a t)"
  shows "\<exists>a t. loopO f v s = Ret a t \<and> Q a t"
  using assms(1)
proof (induction "m v s" arbitrary: v s rule: less_induct)
  case less
  obtain r t where r: "f v s = Ret r t" "case r of Inl w \<Rightarrow> I w t \<and> m w t < m v s | Inr a \<Rightarrow> Q a t"
    using assms(2) [OF less.prems] by blast
  show ?case
  proof (cases r)
    case (Inl w)
    then show ?thesis using less.hyps [of w t] r loopO_again [of f v s w t] by simp
  next
    case (Inr a)
    then show ?thesis using r loopO_done [of f v s a t] by simp
  qed
qed

lemma eachO_append: "eachO f (xs @ ys) s = bindO (eachO f xs s) (\<lambda>_ s. eachO f ys s)"
  by (induction xs arbitrary: s) (simp_all add: bindO_assoc)

lemma eachO_retains:
  "P s \<Longrightarrow> (\<And>x s. x \<in> set xs \<Longrightarrow> P s \<Longrightarrow> retains P (f x s)) \<Longrightarrow> retains P (eachO f xs s)"
  by (induction xs arbitrary: s) (auto intro!: retains_bindO)

lemma eachO_skip: "(\<And>x. x \<in> set xs \<Longrightarrow> f x s = Ret () s) \<Longrightarrow> eachO f xs s = Ret () s"
  by (induction xs) auto

text \<open>Searches of a table from its first to its last slot, and back.\<close>

lemma find_upt_Some:
  assumes "List.find P [a..<b] = Some i"
  shows "a \<le> i" "i < b" "P i" "\<And>j. a \<le> j \<Longrightarrow> j < i \<Longrightarrow> \<not> P j"
proof -
  obtain k where k: "k < b - a" "P (a + k)" "i = a + k" "\<forall>j<k. \<not> P (a + j)"
    using assms by (auto simp: find_Some_iff)
  then show "a \<le> i" "i < b" "P i" by auto
  fix j assume "a \<le> j" "j < i"
  then show "\<not> P j" using k(3,4) by (metis add_diff_inverse_nat less_diff_conv2 not_le add.commute)
qed

lemma find_upt_None: "List.find P [a..<b] = None \<longleftrightarrow> (\<forall>i. a \<le> i \<longrightarrow> i < b \<longrightarrow> \<not> P i)"
  by (auto simp: find_None_iff)

lemma find_upt_first:
  assumes "a \<le> i" "i < b" "P i" "\<And>j. a \<le> j \<Longrightarrow> j < i \<Longrightarrow> \<not> P j"
  shows "List.find P [a..<b] = Some i"
proof (cases "List.find P [a..<b]")
  case (Some k)
  note k = find_upt_Some [OF Some]
  have "k = i" using k assms by (metis linorder_neqE_nat)
  then show ?thesis using Some by simp
qed (use assms in \<open>auto simp: find_upt_None\<close>)

end
