(* ===== verification/Buffer.thy ===== *)
theory Buffer
  imports Blk_Dev Loops
begin

unbundle bit_operations_syntax

text \<open>
  The buffer cache, \<open>src/fs/buffer.c\<close>, with what it calls of \<open>src/fs/inode.c\<close>
  and \<open>src/fs/super.c\<close> to write inodes back.

  \<open>getblk\<close> writes dirty buffers out with \<open>sync_dev\<close>, which writes inodes with
  \<open>write_inode\<close>, which reads the block of the inode with \<open>bread\<close> and so calls
  \<open>getblk\<close> again.  The functions on this cycle are written with the inner \<open>getblk\<close>
  as a parameter \<open>gb\<close> (their names end in \<open>_body\<close>), and \<open>getblk_n d\<close> allows \<open>d\<close> nested
  calls.  Every nested call needs five C stack frames; 64 of them would overflow
  the kernel stack, which is less than a page, so a deeper call is undefined.
\<close>

type_synonym getblk_fn = "u32 \<Rightarrow> u32 \<Rightarrow> fs \<Rightarrow> (fs, nat) outcome"

section \<open>Hash queues and the free list\<close>

definition hashfn :: "u32 \<Rightarrow> u32 \<Rightarrow> nat" where
  "hashfn dev block = unat (dev XOR block) mod NR_HASH"

abbreviation hash_of :: "buffer_head \<Rightarrow> nat" where
  "hash_of h \<equiv> hashfn (ucast (b_dev h)) (b_blocknr h)"

definition unhash :: "nat \<Rightarrow> fs \<Rightarrow> fs" where
  "unhash b s =
     (let s1 = (case b_next (buffers s b) of
                  Some n \<Rightarrow> upd_bh n (\<lambda>h. h\<lparr>b_prev := b_prev (buffers s b)\<rparr>) s
                | None \<Rightarrow> s);
          s2 = (case b_prev (buffers s1 b) of
                  Some p \<Rightarrow> upd_bh p (\<lambda>h. h\<lparr>b_next := b_next (buffers s1 b)\<rparr>) s1
                | None \<Rightarrow> s1);
          k = hash_of (buffers s2 b)
      in if hash_table s2 k = Some b
         then s2\<lparr>hash_table := (hash_table s2)(k := b_next (buffers s2 b))\<rparr>
         else s2)"

definition unfree :: "nat \<Rightarrow> fs \<Rightarrow> (fs, unit) outcome" where
  "unfree b s =
     (case (b_prev_free (buffers s b), b_next_free (buffers s b)) of
        (Some p, Some n) \<Rightarrow>
          (let s1 = upd_bh p (\<lambda>h. h\<lparr>b_next_free := Some n\<rparr>) s;
               s2 = upd_bh n (\<lambda>h. h\<lparr>b_prev_free := b_prev_free (buffers s1 b)\<rparr>) s1
           in Ret () (if free_list s2 = Some b then s2\<lparr>free_list := b_next_free (buffers s2 b)\<rparr> else s2))
      | _ \<Rightarrow> Panic ''Free block list corrupted'')"

definition remove_from_queues :: "nat \<Rightarrow> fs \<Rightarrow> (fs, unit) outcome" where
  "remove_from_queues b s = unfree b (unhash b s)"

definition enfree :: "nat \<Rightarrow> fs \<Rightarrow> (fs, unit) outcome" where
  "enfree b s =
     (case free_list s of
        None \<Rightarrow> Undefined ''free_list''
      | Some f \<Rightarrow>
          (let s1 = upd_bh b (\<lambda>h. h\<lparr>b_next_free := Some f\<rparr>) s;
               s2 = upd_bh b (\<lambda>h. h\<lparr>b_prev_free := b_prev_free (buffers s1 f)\<rparr>) s1
           in case b_prev_free (buffers s2 f) of
                None \<Rightarrow> Undefined ''free_list->b_prev_free''
              | Some p \<Rightarrow>
                  Ret () (upd_bh f (\<lambda>h. h\<lparr>b_prev_free := Some b\<rparr>)
                           (upd_bh p (\<lambda>h. h\<lparr>b_next_free := Some b\<rparr>) s2))))"

text \<open>
  Putting the buffer at the head of its hash queue writes \<open>bh->b_next->b_prev\<close> also
  when \<open>b_next\<close> is null.  Kernel data is mapped at its physical address, so
  that is a store of the address of the buffer head (36 bytes each, from
  \<open>start_buffer\<close>) to address 20, the offset of \<open>b_prev\<close>: the sixth entry of the page directory.
\<close>

definition enhash :: "nat \<Rightarrow> fs \<Rightarrow> fs" where
  "enhash b s =
     (let s1 = upd_bh b (\<lambda>h. h\<lparr>b_prev := None, b_next := None\<rparr>) s in
      if b_dev (buffers s1 b) = 0 then s1
      else let k = hash_of (buffers s1 b);
               q = hash_table s1 k;
               s2 = (upd_bh b (\<lambda>h. h\<lparr>b_next := q\<rparr>) s1)\<lparr>hash_table := (hash_table s1)(k := Some b)\<rparr>
           in case q of
                Some n \<Rightarrow> upd_bh n (\<lambda>h. h\<lparr>b_prev := Some b\<rparr>) s2
              | None \<Rightarrow> poke 20 (start_buffer s2 + 36 * of_nat b) s2)"

definition insert_into_queues :: "nat \<Rightarrow> fs \<Rightarrow> (fs, unit) outcome" where
  "insert_into_queues b s = bindO (enfree b s) (\<lambda>_ s. Ret () (enhash b s))"

section \<open>Looking up a block\<close>

definition holds :: "u32 \<Rightarrow> u32 \<Rightarrow> buffer_head \<Rightarrow> bool" where
  "holds dev block h \<longleftrightarrow> ucast (b_dev h) = dev \<and> b_blocknr h = block"

definition find_buffer :: "u32 \<Rightarrow> u32 \<Rightarrow> fs \<Rightarrow> (fs, nat option) outcome" where
  "find_buffer dev block s =
     loopO (\<lambda>tmp s. case tmp of
              None \<Rightarrow> Ret (Inr None) s
            | Some b \<Rightarrow> if holds dev block (buffers s b) then Ret (Inr (Some b)) s
                        else Ret (Inl (b_next (buffers s b))) s)
       (hash_table s (hashfn dev block)) s"

definition get_hash_table :: "kenv \<Rightarrow> u32 \<Rightarrow> u32 \<Rightarrow> fs \<Rightarrow> (fs, nat option) outcome" where
  "get_hash_table E dev block s =
     loopO (\<lambda>_ s. bindO (find_buffer dev block s) (\<lambda>r s.
              case r of
                None \<Rightarrow> Ret (Inr None) s
              | Some b \<Rightarrow>
                  bindO (wait_on_buffer E b (upd_bh b (\<lambda>h. h\<lparr>b_count := b_count h + 1\<rparr>) s)) (\<lambda>_ s.
                  if holds dev block (buffers s b) then Ret (Inr (Some b)) s
                  else Ret (Inl ()) (upd_bh b (\<lambda>h. h\<lparr>b_count := b_count h - 1\<rparr>) s)))) () s"

definition BADNESS :: "buffer_head \<Rightarrow> int" where
  "BADNESS h = 2 * uint (b_dirt h) + uint (b_lock h)"

text \<open>The search for the best unused buffer, once round the free list.\<close>

definition scan_free_list :: "fs \<Rightarrow> (fs, nat option) outcome" where
  "scan_free_list s =
     loopO (\<lambda>(tmp, bh) s.
       case tmp of
         None \<Rightarrow> Undefined ''free list''
       | Some t \<Rightarrow>
           let h = buffers s t;
               better = (b_count h = 0 \<and> (case bh of None \<Rightarrow> True | Some b \<Rightarrow> BADNESS h < BADNESS (buffers s b)));
               bh' = (if better then Some t else bh)
           in if better \<and> BADNESS h = 0 then Ret (Inr bh') s
              else if b_next_free h = free_list s then Ret (Inr bh') s
              else Ret (Inl (b_next_free h, bh')) s)
       (free_list s, None) s"

section \<open>Getting a buffer for a block\<close>

text \<open>\<open>while (bh->b_dirt) { sync_dev ...; if (bh->b_count) goto repeat; }\<close>: the value tells whether to repeat.\<close>

definition clean_buffer :: "(u32 \<Rightarrow> fs \<Rightarrow> (fs, unit) outcome) \<Rightarrow> kenv \<Rightarrow> nat \<Rightarrow> fs \<Rightarrow> (fs, bool) outcome" where
  "clean_buffer sync E b s =
     loopO (\<lambda>_ s.
       if b_dirt (buffers s b) = 0 then Ret (Inr False) s
       else bindO (sync (ucast (b_dev (buffers s b))) s) (\<lambda>_ s.
            bindO (wait_on_buffer E b s) (\<lambda>_ s.
            if b_count (buffers s b) \<noteq> 0 then Ret (Inr True) s else Ret (Inl ()) s))) () s"

definition claim_buffer :: "u32 \<Rightarrow> u32 \<Rightarrow> nat \<Rightarrow> fs \<Rightarrow> (fs, unit) outcome" where
  "claim_buffer dev block b s =
     bindO (remove_from_queues b (upd_bh b (\<lambda>h. h\<lparr>b_count := 1, b_dirt := 0, b_uptodate := 0\<rparr>) s)) (\<lambda>_ s.
     insert_into_queues b (upd_bh b (\<lambda>h. h\<lparr>b_dev := ucast dev, b_blocknr := block\<rparr>) s))"

definition getblk_round ::
  "(u32 \<Rightarrow> fs \<Rightarrow> (fs, unit) outcome) \<Rightarrow> kenv \<Rightarrow> u32 \<Rightarrow> u32 \<Rightarrow> fs \<Rightarrow> (fs, unit + nat) outcome" where
  "getblk_round sync E dev block s =
     bindO (get_hash_table E dev block s) (\<lambda>r s.
     case r of
       Some b \<Rightarrow> Ret (Inr b) s
     | None \<Rightarrow>
         bindO (scan_free_list s) (\<lambda>r s.
         case r of
           None \<Rightarrow> bindO (sleep_on (k_env E) buffer_wait (\<lambda>p s. s\<lparr>buffer_wait := p\<rparr>) s) (\<lambda>_ s. Ret (Inl ()) s)
         | Some b \<Rightarrow>
             bindO (wait_on_buffer E b s) (\<lambda>_ s.
             if b_count (buffers s b) \<noteq> 0 then Ret (Inl ()) s
             else bindO (clean_buffer sync E b s) (\<lambda>again s.
                  if again then Ret (Inl ()) s
                  else bindO (find_buffer dev block s) (\<lambda>r s.
                       case r of
                         Some _ \<Rightarrow> Ret (Inl ()) s
                       | None \<Rightarrow> bindO (claim_buffer dev block b s) (\<lambda>_ s. Ret (Inr b) s))))))"

definition getblk_body :: "(u32 \<Rightarrow> fs \<Rightarrow> (fs, unit) outcome) \<Rightarrow> kenv \<Rightarrow> getblk_fn" where
  "getblk_body sync E dev block s = loopO (\<lambda>_. getblk_round sync E dev block) () s"

definition brelse :: "kenv \<Rightarrow> nat option \<Rightarrow> fs \<Rightarrow> (fs, unit) outcome" where
  "brelse E buf s =
     (case buf of
        None \<Rightarrow> Ret () s
      | Some b \<Rightarrow>
          bindO (wait_on_buffer E b s) (\<lambda>_ s.
          let s1 = upd_bh b (\<lambda>h. h\<lparr>b_count := b_count h - 1\<rparr>) s in
          if b_count (buffers s b) = 0 then Panic ''Trying to free free buffer''
          else Ret () (wake_up buffer_wait s1)))"

text \<open>What \<open>bread\<close> does once it has the buffer.\<close>

definition fetch :: "kenv \<Rightarrow> nat \<Rightarrow> fs \<Rightarrow> (fs, nat option) outcome" where
  "fetch E b s =
     bindO (wait_on_buffer E b s) (\<lambda>_ s.
     if b_uptodate (buffers s b) \<noteq> 0 then Ret (Some b) s
     else bindO (brelse E (Some b) s) (\<lambda>_ s. Ret None s))"

definition bread_body :: "getblk_fn \<Rightarrow> kenv \<Rightarrow> u32 \<Rightarrow> u32 \<Rightarrow> fs \<Rightarrow> (fs, nat option) outcome" where
  "bread_body gb E dev block s =
     bindO (gb dev block s) (\<lambda>b s.
     if b_uptodate (buffers s b) \<noteq> 0 then Ret (Some b) s
     else bindO (ll_rw_block E READ b s) (\<lambda>_ s. fetch E b s))"

end
