(* ===== verification/Buffer_Sync.thy ===== *)
theory Buffer_Sync
  imports Buffer
begin

unbundle bit_operations_syntax

text \<open>
  Super blocks and inodes as far as writing them back goes (\<open>src/fs/super.c\<close>,
  \<open>src/fs/inode.c\<close>), the synchronisation of devices, and with it the knot of
  \<open>getblk\<close>; then the functions of \<open>src/fs/buffer.c\<close> that use it.
\<close>

section \<open>Locks of super blocks and inodes\<close>

definition put_s_wait :: "nat \<Rightarrow> u32 \<Rightarrow> fs \<Rightarrow> fs" where
  "put_s_wait i p s = upd_super i (\<lambda>b. b\<lparr>s_wait := p\<rparr>) s"

definition wait_on_super :: "kenv \<Rightarrow> nat \<Rightarrow> fs \<Rightarrow> (fs, unit) outcome" where
  "wait_on_super E i s =
     sleep_while (k_env E) (\<lambda>s. s_lock (super_table s i) \<noteq> 0) (\<lambda>s. s_wait (super_table s i)) (put_s_wait i) s"

definition lock_super :: "kenv \<Rightarrow> nat \<Rightarrow> fs \<Rightarrow> (fs, unit) outcome" where
  "lock_super E i s = bindO (wait_on_super E i s) (\<lambda>_ s. Ret () (upd_super i (\<lambda>b. b\<lparr>s_lock := 1\<rparr>) s))"

definition free_super :: "nat \<Rightarrow> fs \<Rightarrow> fs" where
  "free_super i s = wake_up (\<lambda>s. s_wait (super_table s i)) (upd_super i (\<lambda>b. b\<lparr>s_lock := 0\<rparr>) s)"

text \<open>The scan starts over when the super block changed hands while it was locked.\<close>

definition get_super :: "kenv \<Rightarrow> u32 \<Rightarrow> fs \<Rightarrow> (fs, nat option) outcome" where
  "get_super E dev s =
     (if dev = 0 then Ret None s
      else loopO (\<lambda>_ s.
             case List.find (\<lambda>i. ucast (s_dev (super_table s i)) = dev) [0..<NR_SUPER] of
               None \<Rightarrow> Ret (Inr None) s
             | Some i \<Rightarrow>
                 bindO (wait_on_super E i s) (\<lambda>_ s.
                 if ucast (s_dev (super_table s i)) = dev then Ret (Inr (Some i)) s else Ret (Inl ()) s)) () s)"

definition put_i_wait :: "nat \<Rightarrow> u32 \<Rightarrow> fs \<Rightarrow> fs" where
  "put_i_wait i p s = upd_inode i (\<lambda>m. m\<lparr>i_wait := p\<rparr>) s"

definition wait_on_inode :: "kenv \<Rightarrow> nat \<Rightarrow> fs \<Rightarrow> (fs, unit) outcome" where
  "wait_on_inode E i s =
     sleep_while (k_env E) (\<lambda>s. i_lock (inode_table s i) \<noteq> 0) (\<lambda>s. i_wait (inode_table s i)) (put_i_wait i) s"

definition lock_inode :: "kenv \<Rightarrow> nat \<Rightarrow> fs \<Rightarrow> (fs, unit) outcome" where
  "lock_inode E i s = bindO (wait_on_inode E i s) (\<lambda>_ s. Ret () (upd_inode i (\<lambda>m. m\<lparr>i_lock := 1\<rparr>) s))"

definition unlock_inode :: "nat \<Rightarrow> fs \<Rightarrow> fs" where
  "unlock_inode i s = wake_up (\<lambda>s. i_wait (inode_table s i)) (upd_inode i (\<lambda>m. m\<lparr>i_lock := 0\<rparr>) s)"

section \<open>Inodes on disk\<close>

text \<open>
  \<open>struct d_inode\<close>: 32 bytes, the mode, the owner, the size and the time, the
  group and the number of links, and nine zone numbers; it is also the head of \<open>struct m_inode\<close>.
\<close>

definition put_d_inode :: "nat \<Rightarrow> m_inode \<Rightarrow> (nat \<Rightarrow> u8) \<Rightarrow> nat \<Rightarrow> u8" where
  "put_d_inode k m d =
     foldl (\<lambda>d z. put_u16 (k + 14 + 2 * z) (i_zone m z) d)
       ((put_u32 (k + 8) (i_mtime m) (put_u32 (k + 4) (i_size m)
           (put_u16 (k + 2) (i_uid m) (put_u16 k (i_mode m) d))))(k + 12 := i_gid m, k + 13 := i_nlinks m))
       [0..<9]"

definition get_d_inode :: "(nat \<Rightarrow> u8) \<Rightarrow> nat \<Rightarrow> m_inode \<Rightarrow> m_inode" where
  "get_d_inode d k m =
     m\<lparr>i_mode := get_u16 d k, i_uid := get_u16 d (k + 2), i_size := get_u32 d (k + 4), i_mtime := get_u32 d (k + 8),
       i_gid := d (k + 12), i_nlinks := d (k + 13),
       i_zone := (\<lambda>z. if z < 9 then get_u16 d (k + 14 + 2 * z) else i_zone m z)\<rparr>"

definition inode_block :: "super_block \<Rightarrow> u16 \<Rightarrow> u32" where
  "inode_block sb nr = 2 + ucast (s_imap_blocks sb) + ucast (s_zmap_blocks sb) + (ucast nr - 1) div 32"

definition inode_offset :: "u16 \<Rightarrow> nat" where
  "inode_offset nr = 32 * unat ((ucast nr - 1 :: u32) mod 32)"

definition write_inode_body :: "getblk_fn \<Rightarrow> kenv \<Rightarrow> nat \<Rightarrow> fs \<Rightarrow> (fs, unit) outcome" where
  "write_inode_body gb E i s =
     bindO (lock_inode E i s) (\<lambda>_ s.
     if i_dirt (inode_table s i) = 0 \<or> i_dev (inode_table s i) = 0 then Ret () (unlock_inode i s)
     else bindO (get_super E (ucast (i_dev (inode_table s i))) s) (\<lambda>r s.
     case r of
       None \<Rightarrow> Panic ''trying to write inode without device''
     | Some sb \<Rightarrow>
         bindO (bread_body gb E (ucast (i_dev (inode_table s i)))
                  (inode_block (super_table s sb) (i_num (inode_table s i))) s) (\<lambda>r s.
         case r of
           None \<Rightarrow> Panic ''unable to read i-node block''
         | Some b \<Rightarrow>
             let m = inode_table s i;
                 s1 = upd_bh b (\<lambda>h. h\<lparr>b_data := put_d_inode (inode_offset (i_num m)) m (b_data h), b_dirt := 1\<rparr>) s;
                 s2 = upd_inode i (\<lambda>m. m\<lparr>i_dirt := 0\<rparr>) s1
             in bindO (brelse E (Some b) s2) (\<lambda>_ s. Ret () (unlock_inode i s)))))"

definition sync_inodes_body :: "getblk_fn \<Rightarrow> kenv \<Rightarrow> fs \<Rightarrow> (fs, unit) outcome" where
  "sync_inodes_body gb E s =
     eachO (\<lambda>i s. bindO (wait_on_inode E i s) (\<lambda>_ s.
              if i_dirt (inode_table s i) \<noteq> 0 \<and> i_pipe (inode_table s i) = 0
              then write_inode_body gb E i s else Ret () s)) [0..<NR_INODE] s"

definition sync_pass :: "kenv \<Rightarrow> u32 \<Rightarrow> fs \<Rightarrow> (fs, unit) outcome" where
  "sync_pass E dev s =
     eachO (\<lambda>b s. if ucast (b_dev (buffers s b)) \<noteq> dev then Ret () s
              else bindO (wait_on_buffer E b s) (\<lambda>_ s.
                   if ucast (b_dev (buffers s b)) = dev \<and> b_dirt (buffers s b) \<noteq> 0
                   then ll_rw_block E WRITE b s else Ret () s)) [0..<nr_buffers s] s"

definition sync_dev_body :: "getblk_fn \<Rightarrow> kenv \<Rightarrow> u32 \<Rightarrow> fs \<Rightarrow> (fs, unit) outcome" where
  "sync_dev_body gb E dev s =
     bindO (sync_pass E dev s) (\<lambda>_ s. bindO (sync_inodes_body gb E s) (\<lambda>_ s. sync_pass E dev s))"

section \<open>The knot\<close>

primrec getblk_n :: "nat \<Rightarrow> kenv \<Rightarrow> getblk_fn" where
  "getblk_n 0 E = (\<lambda>dev block s. Undefined ''kernel stack overflow'')"
| "getblk_n (Suc d) E = getblk_body (sync_dev_body (getblk_n d E) E) E"

definition getblk :: "kenv \<Rightarrow> getblk_fn" where
  "getblk E = getblk_n 64 E"

definition bread :: "kenv \<Rightarrow> u32 \<Rightarrow> u32 \<Rightarrow> fs \<Rightarrow> (fs, nat option) outcome" where
  "bread E = bread_body (getblk E) E"

definition write_inode :: "kenv \<Rightarrow> nat \<Rightarrow> fs \<Rightarrow> (fs, unit) outcome" where
  "write_inode E = write_inode_body (getblk E) E"

definition sync_inodes :: "kenv \<Rightarrow> fs \<Rightarrow> (fs, unit) outcome" where
  "sync_inodes E = sync_inodes_body (getblk E) E"

definition sync_dev :: "kenv \<Rightarrow> u32 \<Rightarrow> fs \<Rightarrow> (fs, unit) outcome" where
  "sync_dev E = sync_dev_body (getblk E) E"

definition sys_sync :: "kenv \<Rightarrow> fs \<Rightarrow> (fs, int) outcome" where
  "sys_sync E s =
     bindO (sync_inodes E s) (\<lambda>_ s.
     bindO (eachO (\<lambda>b s. bindO (wait_on_buffer E b s) (\<lambda>_ s.
              if b_dirt (buffers s b) \<noteq> 0 then ll_rw_block E WRITE b s else Ret () s)) [0..<nr_buffers s] s)
       (\<lambda>_ s. Ret 0 s))"

definition read_inode :: "kenv \<Rightarrow> nat \<Rightarrow> fs \<Rightarrow> (fs, unit) outcome" where
  "read_inode E i s =
     bindO (lock_inode E i s) (\<lambda>_ s.
     bindO (get_super E (ucast (i_dev (inode_table s i))) s) (\<lambda>r s.
     case r of
       None \<Rightarrow> Panic ''trying to read inode without dev''
     | Some sb \<Rightarrow>
         bindO (bread E (ucast (i_dev (inode_table s i)))
                  (inode_block (super_table s sb) (i_num (inode_table s i))) s) (\<lambda>r s.
         case r of
           None \<Rightarrow> Panic ''unable to read i-node block''
         | Some b \<Rightarrow>
             let s1 = upd_inode i (\<lambda>m. get_d_inode (b_data (buffers s b)) (inode_offset (i_num m)) m) s
             in bindO (brelse E (Some b) s1) (\<lambda>_ s. Ret () (unlock_inode i s)))))"

section \<open>Changed disks\<close>

definition invalidate_buffers :: "kenv \<Rightarrow> u32 \<Rightarrow> fs \<Rightarrow> (fs, unit) outcome" where
  "invalidate_buffers E dev s =
     eachO (\<lambda>b s. if ucast (b_dev (buffers s b)) \<noteq> dev then Ret () s
              else bindO (wait_on_buffer E b s) (\<lambda>_ s.
                   Ret () (if ucast (b_dev (buffers s b)) = dev
                           then upd_bh b (\<lambda>h. h\<lparr>b_uptodate := 0, b_dirt := 0\<rparr>) s else s))) [0..<nr_buffers s] s"

definition invalidate_inodes :: "kenv \<Rightarrow> u32 \<Rightarrow> fs \<Rightarrow> (fs, unit) outcome" where
  "invalidate_inodes E dev s =
     eachO (\<lambda>i s. bindO (wait_on_inode E i s) (\<lambda>_ s.
              Ret () (if ucast (i_dev (inode_table s i)) = dev
                      then upd_inode i (\<lambda>m. m\<lparr>i_dev := 0, i_dirt := 0\<rparr>) s else s))) [0..<NR_INODE] s"

definition put_super :: "kenv \<Rightarrow> u32 \<Rightarrow> fs \<Rightarrow> (fs, unit) outcome" where
  "put_super E dev s =
     (if dev = ROOT_DEV s then Ret () s
      else bindO (get_super E dev s) (\<lambda>r s.
        case r of
          None \<Rightarrow> Ret () s
        | Some sb \<Rightarrow>
            if s_imount (super_table s sb) \<noteq> None then Ret () s
            else bindO (lock_super E sb s) (\<lambda>_ s.
                 let s1 = upd_super sb (\<lambda>b. b\<lparr>s_dev := 0\<rparr>) s in
                 bindO (eachO (\<lambda>i s. brelse E (s_imap (super_table s sb) i) s) [0..<8] s1) (\<lambda>_ s.
                 bindO (eachO (\<lambda>i s. brelse E (s_zmap (super_table s sb) i) s) [0..<8] s) (\<lambda>_ s.
                 Ret () (free_super sb s))))))"

definition floppy_change :: "kenv \<Rightarrow> nat \<Rightarrow> fs \<Rightarrow> (fs, bool) outcome" where
  "floppy_change E nr s =
     loopO (\<lambda>_ s.
       bindO (floppy_on (k_env E) nr s) (\<lambda>_ s.
       bindO (isleep_while (k_env E) (\<lambda>s. unat (current_DOR s AND 3) \<noteq> nr \<and> selected s \<noteq> 0)
                wait_on_floppy_select (\<lambda>p s. s\<lparr>wait_on_floppy_select := p\<rparr>) s) (\<lambda>_ s.
       if unat (current_DOR s AND 3) \<noteq> nr then Ret (Inl ()) s
       else bindO (floppy_off nr s) (\<lambda>_ s'. Ret (Inr (inb_val s 0x3f7 AND 0x80 \<noteq> 0)) s')))) () s"

definition check_disk_change :: "kenv \<Rightarrow> u32 \<Rightarrow> fs \<Rightarrow> (fs, unit) outcome" where
  "check_disk_change E dev s =
     (if MAJOR dev \<noteq> 2 then Ret () s
      else bindO (floppy_change E (unat (dev AND 3)) s) (\<lambda>changed s.
        if \<not> changed then Ret () s
        else bindO (eachO (\<lambda>i s. if ucast (s_dev (super_table s i)) = dev
                              then put_super E (ucast (s_dev (super_table s i))) s else Ret () s) [0..<NR_SUPER] s) (\<lambda>_ s.
             bindO (invalidate_inodes E dev s) (\<lambda>_ s. invalidate_buffers E dev s))))"

section \<open>Reading several blocks\<close>

definition COPYBLK :: "(nat \<Rightarrow> u8) \<Rightarrow> u32 \<Rightarrow> fs \<Rightarrow> fs" where
  "COPYBLK d addr s = foldl (\<lambda>s k. poke (addr + of_nat (4 * k)) (get_u32 d (4 * k)) s) s [0..<256]"

definition start_page_read :: "kenv \<Rightarrow> u32 \<Rightarrow> u32 \<Rightarrow> fs \<Rightarrow> (fs, nat option) outcome" where
  "start_page_read E dev block s =
     (if block = 0 then Ret None s
      else bindO (getblk E dev block s) (\<lambda>b s.
           if b_uptodate (buffers s b) = 0 then bindO (ll_rw_block E READ b s) (\<lambda>_ s. Ret (Some b) s)
           else Ret (Some b) s))"

primrec start_page_reads :: "kenv \<Rightarrow> u32 \<Rightarrow> u32 list \<Rightarrow> fs \<Rightarrow> (fs, nat option list) outcome" where
  "start_page_reads E dev [] s = Ret [] s"
| "start_page_reads E dev (x # xs) s =
     bindO (start_page_read E dev x s) (\<lambda>b s. bindO (start_page_reads E dev xs s) (\<lambda>bs s. Ret (b # bs) s))"

primrec copy_page_blocks :: "kenv \<Rightarrow> u32 \<Rightarrow> nat option list \<Rightarrow> fs \<Rightarrow> (fs, unit) outcome" where
  "copy_page_blocks E addr [] s = Ret () s"
| "copy_page_blocks E addr (x # xs) s =
     bindO (case x of
              None \<Rightarrow> Ret () s
            | Some b \<Rightarrow> bindO (wait_on_buffer E b s) (\<lambda>_ s.
                brelse E (Some b) (if b_uptodate (buffers s b) \<noteq> 0 then COPYBLK (b_data (buffers s b)) addr s else s)))
       (\<lambda>_ s. copy_page_blocks E (addr + 1024) xs s)"

text \<open>\<open>b\<close> is the array of four block numbers.\<close>

definition bread_page :: "kenv \<Rightarrow> u32 \<Rightarrow> u32 \<Rightarrow> u32 list \<Rightarrow> fs \<Rightarrow> (fs, unit) outcome" where
  "bread_page E addr dev b s =
     bindO (start_page_reads E dev b s) (\<lambda>bhs s. copy_page_blocks E addr bhs s)"

text \<open>\<open>rest\<close> are the further arguments before the negative one that ends the list.\<close>

definition breada :: "kenv \<Rightarrow> u32 \<Rightarrow> u32 \<Rightarrow> u32 list \<Rightarrow> fs \<Rightarrow> (fs, nat option) outcome" where
  "breada E dev first rest s =
     bindO (getblk E dev first s) (\<lambda>bh s.
     bindO (if b_uptodate (buffers s bh) = 0 then ll_rw_block E READ bh s else Ret () s) (\<lambda>_ s.
     bindO (eachO (\<lambda>blk s. bindO (getblk E dev blk s) (\<lambda>tmp s.
              bindO (if b_uptodate (buffers s tmp) = 0 then ll_rw_block E READA bh s else Ret () s) (\<lambda>_ s.
              Ret () (upd_bh tmp (\<lambda>h. h\<lparr>b_count := b_count h - 1\<rparr>) s)))) rest s) (\<lambda>_ s.
     fetch E bh s)))"

section \<open>Setting up the cache\<close>

text \<open>
  The heads grow upwards from \<open>start_buffer\<close>, 36 bytes each, the blocks downwards
  from \<open>buffer_end\<close>, leaving out the video memory and the BIOS between 640KB and 1MB.
  The loop variables are the address of the last block and the number of heads.
\<close>

definition init_bh :: "u32 \<Rightarrow> nat \<Rightarrow> buffer_head \<Rightarrow> buffer_head" where
  "init_bh b n h = h\<lparr>b_addr := b, b_dev := 0, b_dirt := 0, b_count := 0, b_lock := 0, b_uptodate := 0, b_wait := 0,
     b_next := None, b_prev := None, b_prev_free := (if n = 0 then None else Some (n - 1)),
     b_next_free := Some (n + 1)\<rparr>"

definition buffer_init :: "u32 \<Rightarrow> fs \<Rightarrow> (fs, unit) outcome" where
  "buffer_init buffer_end s =
     bindO (loopO (\<lambda>(b, n) s.
              let b = b - 1024 in
              if b \<ge> start_buffer s + 36 * (of_nat n + 1)
              then Ret (Inl (if b = 0x100000 then 0xA0000 else b, n + 1))
                     ((upd_bh n (init_bh b n) s)\<lparr>nr_buffers := nr_buffers s + 1\<rparr>)
              else Ret (Inr n) s)
            (if buffer_end = 0x100000 then 640 * 1024 else buffer_end, 0) s)
       (\<lambda>n s. if n = 0 then Undefined ''no buffers''
              else let s1 = upd_bh 0 (\<lambda>h. h\<lparr>b_prev_free := Some (n - 1)\<rparr>) (s\<lparr>free_list := Some 0\<rparr>);
                       s2 = upd_bh (n - 1) (\<lambda>h. h\<lparr>b_next_free := Some 0\<rparr>) s1
                   in Ret () (s2\<lparr>hash_table := (\<lambda>k. if k < NR_HASH then None else hash_table s2 k)\<rparr>))"

end
