(* ===== verification/Wait_Queue.thy ===== *)
theory Wait_Queue
  imports Sched_Props Buffer_Sync
begin

text \<open>
  What the wait queues of the kernel promise.  A queue is one pointer: the tasks asleep on it are linked
  through the local variable \<open>tmp\<close> of \<open>sleep_on\<close> on their stacks, and \<open>wake_up\<close> does not empty the queue, so that the
  pointer may name a task that sleeps there no more.  The theory follows any number of tasks
  through the two halves of \<open>sleep_on\<close> and \<open>wake_up\<close>, in any order.
\<close>

section \<open>The contract of a queue\<close>

locale wait_queue =
  fixes get :: "'z sched_scheme \<Rightarrow> u32" and put :: "u32 \<Rightarrow> 'z sched_scheme \<Rightarrow> 'z sched_scheme"
  assumes get_put: "get (put p s) = p"
    and get_upd: "get (upd_task p f s) = get s"
    and put_keeps: "tstruct (put p s) = tstruct s" "current (put p s) = current s"
    and get_switch: "get (s\<lparr>current := c\<rparr>) = get s" "get (s\<lparr>budget := n\<rparr>) = get s"
begin

lemma enter_simps:
  "get (sleep_enter put s) = current s"
  "tstruct (sleep_enter put s) = (tstruct s)(current s := (tstruct s (current s))\<lparr>state := 2\<rparr>)"
  "current (sleep_enter put s) = current s"
  by (simp_all add: sleep_enter_def get_put get_upd put_keeps)

lemma leave_simps:
  "get (sleep_leave tmp s) = get s"
  "state (tstruct (sleep_leave tmp s) c) = (if c = tmp \<and> tmp \<noteq> 0 then 0 else state (tstruct s c))"
  by (simp_all add: sleep_leave_def get_upd)

lemma wake_simps:
  "get (wake_up get s) = get s"
  "state (tstruct (wake_up get s) c) = (if c = get s \<and> get s \<noteq> 0 then 0 else state (tstruct s c))"
  by (simp_all add: wake_up_def get_upd)

lemma get_signals: "get (sched_signals s) = get s"
  unfolding sched_signals_def by (rule foldl_keeps) (simp add: sched_signal_def Let_def get_upd)

lemma get_recalc: "get (recalc s) = get s"
  unfolding recalc_def by (rule foldl_keeps) (simp add: recalc_one_def Let_def get_upd)

lemma get_sched_loop: "sched_loop s = Some r \<Longrightarrow> get (snd r) = get s"
proof (rule sched_loop.raw_induct, goal_cases)
  case (1 f s r)
  show ?case
    by (cases "fst (pick s) = 0") (use 1(2) [of "recalc s" r] 1(3) get_recalc [of s] in \<open>auto simp: case_prod_beta\<close>)
qed

end

interpretation motor: wait_queue "\<lambda>s. wait_motor s nr" "\<lambda>p s. s\<lparr>wait_motor := (wait_motor s)(nr := p)\<rparr>"
  by unfold_locales (simp_all add: upd_task_def)

interpretation buf: wait_queue "\<lambda>s. b_wait (buffers s b)" "put_b_wait b"
  by unfold_locales (simp_all add: put_b_wait_def upd_bh_def upd_task_def)

interpretation inode: wait_queue "\<lambda>s. i_wait (inode_table s i)" "put_i_wait i"
  by unfold_locales (simp_all add: put_i_wait_def upd_inode_def upd_task_def)

interpretation super: wait_queue "\<lambda>s. s_wait (super_table s i)" "put_s_wait i"
  by unfold_locales (simp_all add: put_s_wait_def upd_super_def upd_task_def)

interpretation free_buf: wait_queue buffer_wait "\<lambda>p s. s\<lparr>buffer_wait := p\<rparr>"
  by unfold_locales (simp_all add: upd_task_def)

interpretation req: wait_queue wait_for_request "\<lambda>p s. s\<lparr>wait_for_request := p\<rparr>"
  by unfold_locales (simp_all add: upd_task_def)

section \<open>Tasks that use one queue\<close>

text \<open>
  \<open>m c\<close> is the variable \<open>tmp\<close> of a task \<open>c\<close> inside \<open>sleep_on\<close>, \<open>W\<close> are the tasks that have been inside since before the last
  \<open>wake_up\<close> of the queue.  A task inside goes on when it is running and not asleep, as the scheduler only picks such
  tasks.  Between these steps anything may happen that does not write the queue and does not put a task inside to sleep.
\<close>

inductive queue_run ::
    "('z sched_scheme \<Rightarrow> u32) \<Rightarrow> (u32 \<Rightarrow> 'z sched_scheme \<Rightarrow> 'z sched_scheme) \<Rightarrow> 'z sched_scheme \<Rightarrow> (u32 \<Rightarrow> u32 option) \<Rightarrow> u32 set \<Rightarrow> bool"
  for get put where
  none: "queue_run get put s Map.empty {}"
| enter: "queue_run get put s m W \<Longrightarrow> current s \<noteq> 0 \<Longrightarrow> m (current s) = None \<Longrightarrow>
    queue_run get put (sleep_enter put s) (m(current s \<mapsto> get s)) W"
| leave: "queue_run get put s m W \<Longrightarrow> m (current s) = Some tmp \<Longrightarrow> state (tstruct s (current s)) = TASK_RUNNING \<Longrightarrow>
    queue_run get put (sleep_leave tmp s) (m(current s := None)) (W - {current s})"
| wake: "queue_run get put s m W \<Longrightarrow> queue_run get put (wake_up get s) m (dom m)"
| other: "queue_run get put s m W \<Longrightarrow> get s' = get s \<Longrightarrow>
    (\<And>c. c \<in> dom m \<Longrightarrow> state (tstruct s' c) = state (tstruct s c) \<or> state (tstruct s' c) = TASK_RUNNING) \<Longrightarrow>
    queue_run get put s' m W"

text \<open>Behind the pointer \<open>h\<close>: each task of the list is named by the one before it, or is awake.\<close>

primrec linked :: "(u32 \<Rightarrow> bool) \<Rightarrow> (u32 \<Rightarrow> u32 option) \<Rightarrow> u32 \<Rightarrow> u32 list \<Rightarrow> bool" where
  "linked up m h [] = True"
| "linked up m h (c # cs) = ((h = c \<or> up c) \<and> (\<exists>p. m c = Some p \<and> linked up m p cs))"

abbreviation awake :: "'z sched_scheme \<Rightarrow> u32 \<Rightarrow> bool" where
  "awake s c \<equiv> state (tstruct s c) = TASK_RUNNING"

lemma linked_mono: "linked up m h cs \<Longrightarrow> (\<And>c. c \<in> set cs \<Longrightarrow> up c \<Longrightarrow> up' c) \<Longrightarrow> (\<And>c. c \<in> set cs \<Longrightarrow> m' c = m c) \<Longrightarrow> linked up' m' h cs"
  by (induction cs arbitrary: h) fastforce+

text \<open>The task that leaves wakes the one behind it.\<close>

lemma linked_leave:
  assumes "linked up m h (xs @ c # ys)" "m c = Some p" "distinct (xs @ c # ys)" "0 \<notin> set ys"
    and "\<And>d. up d \<Longrightarrow> up' d" "p \<noteq> 0 \<Longrightarrow> up' p" "\<And>d. d \<noteq> c \<Longrightarrow> m' d = m d"
  shows "linked up' m' h (xs @ ys)" "ys \<noteq> [] \<Longrightarrow> up' (hd ys)"
proof -
  have tl: "(ys \<noteq> [] \<longrightarrow> up' (hd ys)) \<and> (\<forall>q. linked up' m' q ys)" if "linked up m q (c # ys)" for q
  proof (cases ys)
    case (Cons e zs)
    have "p = e \<or> up e" and z: "\<exists>r. m e = Some r \<and> linked up m r zs" using that assms(2) Cons by auto
    then have "up' e" using assms(4,5,6) Cons by auto
    moreover have "linked up' m' r zs" if "linked up m r zs" for r
    proof (rule linked_mono [OF that])
      fix d assume "d \<in> set zs"
      then have "d \<noteq> c" using assms(3) Cons by auto
      then show "m' d = m d" by (rule assms(7))
    qed (rule assms(5))
    moreover have "m' e = m e" using assms(3,7) Cons by auto
    ultimately show ?thesis using z Cons by auto
  qed simp
  have "linked up' m' h (xs @ ys) \<and> (ys \<noteq> [] \<longrightarrow> up' (hd ys))" using assms(1,3)
  proof (induction xs arbitrary: h)
    case Nil then show ?case using tl [of h] by (simp del: linked.simps)
  next
    case (Cons x xs)
    then have "m' x = m x" using assms(7) by auto
    then show ?case using Cons assms(5) by auto
  qed
  then show "linked up' m' h (xs @ ys)" "ys \<noteq> [] \<Longrightarrow> up' (hd ys)" by auto
qed

text \<open>The tasks inside, newest first; those inside since before the last \<open>wake_up\<close> are at the end, and the first of them is awake.\<close>

definition lined_up :: "('z sched_scheme \<Rightarrow> u32) \<Rightarrow> 'z sched_scheme \<Rightarrow> (u32 \<Rightarrow> u32 option) \<Rightarrow> u32 list \<Rightarrow> u32 list \<Rightarrow> bool" where
  "lined_up get s m new old \<longleftrightarrow> distinct (new @ old) \<and> set (new @ old) = dom m \<and> 0 \<notin> dom m \<and>
     linked (awake s) m (get s) (new @ old) \<and> (old \<noteq> [] \<longrightarrow> awake s (hd old))"

lemma lined_up_mono:
  assumes "lined_up get s m new old" "get s' = get s" "\<And>c. c \<in> dom m \<Longrightarrow> awake s c \<Longrightarrow> awake s' c"
  shows "lined_up get s' m new old"
proof -
  have l: "linked (awake s) m (get s) (new @ old)" and d: "set (new @ old) = dom m" using assms(1) by (simp_all add: lined_up_def)
  have "linked (awake s') m (get s) (new @ old)"
    by (rule linked_mono [OF l]) (use assms(3) d in blast)+
  moreover have "awake s' (hd old)" if "old \<noteq> []"
  proof -
    have "hd old \<in> dom m" using d hd_in_set [OF that] by auto
    then show ?thesis using assms(1,3) that by (simp add: lined_up_def)
  qed
  ultimately show ?thesis using assms(1,2) by (simp add: lined_up_def)
qed

lemma lined_up_leave:
  assumes q: "lined_up get s m new old" and c: "m c = Some p"
    and g: "get s' = get s" "\<And>d. awake s d \<Longrightarrow> awake s' d" "p \<noteq> 0 \<Longrightarrow> awake s' p"
  shows "\<exists>n. lined_up get s' (m(c := None)) n (filter (\<lambda>d. d \<noteq> c) old)"
proof -
  let ?m = "m(c := None)" and ?f = "filter (\<lambda>d. d \<noteq> c)"
  have d: "distinct (new @ old)" "set (new @ old) = dom m" "0 \<notin> dom m" "linked (awake s) m (get s) (new @ old)"
    "old \<noteq> [] \<longrightarrow> awake s (hd old)" using q by (simp_all add: lined_up_def)
  have "c \<in> set (new @ old)" using c d(2) by blast
  then obtain xs ys where xy: "new @ old = xs @ c # ys" by (meson split_list)
  have dx: "distinct (xs @ c # ys)" "0 \<notin> set ys" using d(1-3) unfolding xy [symmetric] by (auto simp: xy)
  note L = linked_leave [OF d(4) [unfolded xy] c dx, of "awake s'" ?m, OF g(2,3), simplified]
  have "?f xs = xs" "?f ys = ys" using dx(1) by (auto intro!: filter_True)
  then have f: "?f (new @ old) = xs @ ys" unfolding xy by simp
  have hd: "awake s' (hd (?f old))" if ne: "?f old \<noteq> []"
  proof (cases "hd old = c")
    case True
    then obtain zs where z: "old = c # zs" using ne by (cases old) auto
    have "c \<notin> set new" "c \<notin> set zs" using d(1) z by auto
    then have "ys = zs" using xy z append_Cons_eq_iff [of c new zs xs ys] by simp
    moreover have "zs \<noteq> []" "?f old = zs" using ne z d(1) by (auto simp: filter_id_conv)
    ultimately show ?thesis using L(2) by simp
  next
    case False
    then have "hd (?f old) = hd old" using ne by (cases old) auto
    then show ?thesis using d(5) g(2) ne by auto
  qed
  have "set (?f new @ ?f old) = dom ?m" using d(2) by auto
  moreover have "linked (awake s') ?m (get s') (?f new @ ?f old)" using L(1) f g(1) by simp
  ultimately show ?thesis using d(1,3) hd by (intro exI [of _ "?f new"]) (auto simp: lined_up_def)
qed

text \<open>The invariant of all runs.\<close>

lemma queue_run_lined_up:
  assumes "wait_queue get put" "queue_run get put s m W"
  shows "\<exists>new old. lined_up get s m new old \<and> set old = W"
  using assms(2)
proof induction
  case none
  show ?case by (intro exI [of _ "[]"]) (simp add: lined_up_def)
next
  case (enter s m W)
  note e = wait_queue.enter_simps [OF assms(1)]
  obtain new old where q: "lined_up get s m new old" and W: "set old = W" using enter.IH by blast
  let ?c = "current s" and ?s = "sleep_enter put s" and ?m = "m(current s \<mapsto> get s)"
  have n: "?c \<notin> set (new @ old)" using q enter.hyps(3) by (auto simp: lined_up_def)
  have l: "linked (awake ?s) ?m (get s) (new @ old)"
    by (rule linked_mono [of "awake s" m]) (use q n in \<open>auto simp: lined_up_def e\<close>)
  have "awake ?s (hd old)" if "old \<noteq> []"
  proof -
    have "hd old \<noteq> ?c" using n hd_in_set [OF that] by auto
    then show ?thesis using q that by (simp add: lined_up_def e)
  qed
  moreover have "distinct ((?c # new) @ old)" "set ((?c # new) @ old) = dom ?m" "0 \<notin> dom ?m"
    using q n enter.hyps(2) by (auto simp: lined_up_def)
  moreover have "linked (awake ?s) ?m (get ?s) ((?c # new) @ old)" using l by (simp add: e(1))
  ultimately show ?case using W unfolding lined_up_def by blast
next
  case (leave s m W tmp)
  note e = wait_queue.leave_simps [OF assms(1)]
  obtain new old where q: "lined_up get s m new old" and W: "set old = W" using leave.IH by blast
  have "\<exists>n. lined_up get (sleep_leave tmp s) (m(current s := None)) n (filter (\<lambda>d. d \<noteq> current s) old)"
    by (rule lined_up_leave [OF q leave.hyps(2)]) (simp_all add: e)
  moreover have "set (filter (\<lambda>d. d \<noteq> current s) old) = W - {current s}" using W by auto
  ultimately show ?case by blast
next
  case (wake s m W)
  note e = wait_queue.wake_simps [OF assms(1)]
  obtain new old where q: "lined_up get s m new old" using wake.IH by blast
  have k: "lined_up get (wake_up get s) m new old" by (rule lined_up_mono [OF q]) (simp_all add: e)
  have "awake (wake_up get s) (hd (new @ old))" if ne: "new @ old \<noteq> []"
  proof -
    obtain c cs where c: "new @ old = c # cs" using ne by (cases "new @ old") auto
    have "c \<in> dom m" "get s = c \<or> awake s c" "0 \<notin> dom m" using q unfolding lined_up_def c by auto
    then show ?thesis unfolding c by (auto simp: e)
  qed
  then have "lined_up get (wake_up get s) m [] (new @ old)" using k by (simp add: lined_up_def)
  moreover have "set (new @ old) = dom m" using q by (simp add: lined_up_def)
  ultimately show ?case by blast
next
  case (other s m W s')
  then obtain new old where q: "lined_up get s m new old" and W: "set old = W" by blast
  have "awake s' c" if "c \<in> dom m" "awake s c" for c using other.hyps(3) [OF that(1)] that(2) by simp
  then have "lined_up get s' m new old" by (rule lined_up_mono [OF q other.hyps(2)])
  then show ?case using W by blast
qed

section \<open>\<open>sleep_on\<close> is such a run\<close>

text \<open>The scheduler itself only makes tasks runnable.\<close>

lemma sched_signals_state: "state (tstruct (sched_signals s) c) = state (tstruct s c) \<or> state (tstruct (sched_signals s) c) = 0"
proof -
  have "state (tstruct (foldl (\<lambda>s i. sched_signal i s) s xs) c) = state (tstruct s c) \<or>
      state (tstruct (foldl (\<lambda>s i. sched_signal i s) s xs) c) = 0" for xs and s :: "'a sched_scheme"
  proof (induction xs arbitrary: s)
    case (Cons i xs)
    have "state (tstruct (sched_signal i s) c) = state (tstruct s c) \<or> state (tstruct (sched_signal i s) c) = 0"
      by (auto simp: sched_signal_def Let_def)
    then show ?case using Cons.IH [of "sched_signal i s"] by auto
  qed simp
  then show ?thesis by (simp add: sched_signals_def)
qed

lemma recalc_state: "state (tstruct (recalc s) c) = state (tstruct s c)"
  unfolding recalc_def by (rule foldl_keeps) (simp add: recalc_one_def Let_def)

lemma sched_loop_state: "sched_loop s = Some r \<Longrightarrow> state (tstruct (snd r) c) = state (tstruct s c)"
proof (rule sched_loop.raw_induct, goal_cases)
  case (1 f s r)
  show ?case
    by (cases "fst (pick s) = 0") (use 1(2) [of "recalc s" r] 1(3) recalc_state [of s c] in \<open>auto simp: case_prod_beta\<close>)
qed

text \<open>
  A task that calls \<open>sleep_on\<close> while the others are in the middle of any run: what runs while it sleeps may be any continuation
  after which the task is still inside and running.
\<close>

lemma sleep_on_run:
  assumes L: "wait_queue get put" and r: "queue_run get put s m W" "current s = c" "c \<noteq> 0" "m c = None"
    and ret: "sleep_on env get put s = Ret u s'"
    and env: "\<And>k x. queue_run get put x (m(c \<mapsto> get s)) W \<Longrightarrow>
      \<exists>m' W'. queue_run get put (env k x) m' W' \<and> m' c = Some (get s) \<and> awake (env k x) c"
  shows "\<exists>m' W'. queue_run get put s' m' W' \<and> m' c = None"
proof -
  note laws = wait_queue.get_switch [OF L]
  let ?m = "m(c \<mapsto> get s)" and ?s1 = "sleep_enter put s"
  obtain s2 where s2: "schedule env ?s1 = Ret () s2" "s' = sleep_leave (get s) s2"
    using ret by (auto simp: sleep_on_def Let_def bindO_eq_Ret split: if_splits)
  obtain nx s3 k where s3: "sched_loop (sched_signals ?s1) = Some (nx, s3)" "s2 = (env k (switch_to nx s3))\<lparr>budget := k, current := c\<rparr>"
    using s2(1) r(2) by (auto simp: schedule_def wait_queue.enter_simps [OF L] split: option.splits nat.splits)
  have in_run: "queue_run get put ?s1 ?m W" using queue_run.enter [OF r(1)] r(2-4) by simp
  have "queue_run get put (switch_to nx s3) ?m W"
  proof (rule queue_run.other [OF in_run])
    show "get (switch_to nx s3) = get ?s1"
      using wait_queue.get_sched_loop [OF L s3(1)] wait_queue.get_signals [OF L, of ?s1] by (simp add: switch_to_def laws)
    show "state (tstruct (switch_to nx s3) d) = state (tstruct ?s1 d) \<or> awake (switch_to nx s3) d" for d
      using sched_loop_state [OF s3(1), of d] sched_signals_state [of ?s1 d] by (auto simp: switch_to_def)
  qed
  then obtain m' W' where e: "queue_run get put (env k (switch_to nx s3)) m' W'" "m' c = Some (get s)"
    "awake (env k (switch_to nx s3)) c" using env by blast
  have "queue_run get put s2 m' W'" by (rule queue_run.other [OF e(1)]) (simp_all add: s3(2) laws)
  then have "queue_run get put s' (m'(c := None)) (W' - {c})"
    using queue_run.leave [of get put s2 m' W' "get s"] e(2,3) by (simp add: s3(2) s2(2))
  then show ?thesis by (metis fun_upd_same)
qed

section \<open>No sleeper is lost\<close>

lemma linked_named: "linked up m h cs \<Longrightarrow> c \<in> set cs \<Longrightarrow> up c \<or> c = h \<or> (\<exists>d. m d = Some c)"
  by (induction cs arbitrary: h) auto

text \<open>C7: Sleeping and waking on one queue, by any number of tasks in any order.  A task asleep in \<open>sleep_on\<close> is named by the queue or by
  the \<open>tmp\<close> of another task still inside, so that a later \<open>wake_up\<close> or that task can wake it.  After a \<open>wake_up\<close>, as long as
  any of the tasks that were inside then has not left, one of these is runnable: each task that leaves
  wakes the next, and neither tasks that queue up later nor the pointer that \<open>wake_up\<close> leaves standing can break the chain.\<close>

theorem sleepers_woken:
  assumes "wait_queue get put" "queue_run get put s m W"
  shows "(\<forall>c. c \<in> dom m \<and> state (tstruct s c) \<noteq> TASK_RUNNING \<longrightarrow> c = get s \<or> (\<exists>d. m d = Some c)) \<and>
    finite W \<and> W \<subseteq> dom m \<and> (W \<noteq> {} \<longrightarrow> (\<exists>c\<in>W. state (tstruct s c) = TASK_RUNNING))"
proof -
  obtain new old where q: "lined_up get s m new old" and W: "set old = W" using queue_run_lined_up [OF assms] by blast
  have l: "linked (awake s) m (get s) (new @ old)" and d: "set (new @ old) = dom m" and h: "old \<noteq> [] \<longrightarrow> awake s (hd old)"
    using q by (simp_all add: lined_up_def)
  have "c = get s \<or> (\<exists>d. m d = Some c)" if "c \<in> dom m" "\<not> awake s c" for c
    using linked_named [OF l, of c] d that by auto
  moreover have "\<exists>c\<in>W. awake s c" if "W \<noteq> {}" using h that W hd_in_set [of old] by auto
  moreover have "W \<subseteq> dom m" "finite W" using W d by auto
  ultimately show ?thesis by blast
qed

text \<open>Two tasks go to sleep, the queue is woken.\<close>

theorem sleepers_woken_witness:
  "\<exists>(s :: sched) m W. W = {0x1000, 0x2000} \<and> queue_run (\<lambda>s. wait_motor s 0) (\<lambda>p s. s\<lparr>wait_motor := (wait_motor s)(0 := p)\<rparr>) s m W \<and>
    (\<exists>c\<in>W. state (tstruct s c) = TASK_RUNNING)"
proof -
  let ?g = "\<lambda>s :: sched. wait_motor s 0" and ?p = "\<lambda>p s :: sched. s\<lparr>wait_motor := (wait_motor s)(0 := p)\<rparr>"
  let ?s0 = "(undefined :: sched)\<lparr>current := 0x1000\<rparr>"
  let ?s1 = "sleep_enter ?p ?s0"
  let ?m1 = "Map.empty(0x1000 \<mapsto> ?g ?s0)"
  have r1: "queue_run ?g ?p ?s1 ?m1 {}" using queue_run.enter [OF queue_run.none [of ?g ?p ?s0]] by simp
  let ?s2 = "?s1\<lparr>current := 0x2000\<rparr>"
  have r2: "queue_run ?g ?p ?s2 ?m1 {}" by (rule queue_run.other [OF r1]) simp_all
  have r3: "queue_run ?g ?p (sleep_enter ?p ?s2) (?m1(0x2000 \<mapsto> ?g ?s2)) {}" using queue_run.enter [OF r2] by simp
  let ?s3 = "wake_up ?g (sleep_enter ?p ?s2)" and ?m3 = "?m1(0x2000 \<mapsto> ?g ?s2)"
  have r4: "queue_run ?g ?p ?s3 ?m3 (dom ?m3)" by (rule queue_run.wake [OF r3])
  have d: "dom ?m3 = {0x1000, 0x2000}" by auto
  note t = sleepers_woken [OF motor.wait_queue_axioms r4, unfolded d, THEN conjunct2, THEN conjunct2, THEN conjunct2]
  have "\<exists>c\<in>{0x1000, 0x2000}. state (tstruct ?s3 c) = TASK_RUNNING" by (rule mp [OF t insert_not_empty])
  then show ?thesis using r4 unfolding d by (intro exI [of _ ?s3] exI [of _ ?m3] exI [of _ "{0x1000, 0x2000}"] conjI refl)
qed

end
