(* ===== verification/Syscalls_Props.thy ===== *)
theory Syscalls_Props
  imports Syscalls Paging
begin

unbundle bit_operations_syntax

text \<open>
  Theorems on the calls of \<open>Syscalls\<close>: user buffers are unshared before the kernel
  writes to them, signal frames, and that identities cannot be raised.
\<close>

section \<open>verify\_area\<close>

lemma and_3_eq_1: "(3 :: u32) AND x = 1 \<longleftrightarrow> bit x 0 \<and> \<not> bit x 1"
proof -
  have 3: "(3 :: u32) = mask 2" by (simp add: mask_eq_exp_minus_1)
  have b: "bit (3 AND x) n = (n < 2 \<and> bit x n)" for n unfolding 3 by (auto simp: bit_simps)
  show ?thesis
  proof
    assume "3 AND x = 1"
    then have "bit (3 AND x) 0" "\<not> bit (3 AND x) 1" by (simp_all add: bit_simps)
    then show "bit x 0 \<and> \<not> bit x 1" by (simp add: b)
  next
    assume h: "bit x 0 \<and> \<not> bit x 1"
    show "3 AND x = 1"
    proof (rule bit_word_eqI)
      fix n assume "n < LENGTH(32)"
      have "n < 2 \<longleftrightarrow> n = 0 \<or> n = 1" by auto
      then show "bit (3 AND x) n = bit (1 :: u32) n" unfolding b using h by (auto simp: bit_simps)
    qed
  qed
qed

text \<open>All entries but the one of address \<open>a\<close> are the same, and that one is writable if present.\<close>

definition unshared_at :: "u32 \<Rightarrow> 'z mm_scheme \<Rightarrow> 'z mm_scheme \<Rightarrow> bool" where
  "unshared_at a s s' \<longleftrightarrow>
     (\<forall>d<1024. de s' d = de s d) \<and>
     (\<forall>d\<in>user_dirs. \<forall>l<1024. present (de s d) \<longrightarrow> (d, l) \<noteq> (dirno a, pteno a) \<longrightarrow> pte s' d l = pte s d l) \<and>
     (present (de s (dirno a)) \<longrightarrow> present (pte s' (dirno a) (pteno a)) \<longrightarrow> writable s' (dirno a) (pteno a))"

lemma write_verify_ok:
  assumes inv: "mm_inv held s" and a: "0x4000000 \<le> a"
  shows "(\<exists>s'. write_verify a s = Ret () s' \<and> mm_inv held s' \<and> unshared_at a s s') \<or>
    write_verify a s = Exits 11 s"
proof -
  let ?i = "dirno a" and ?j = "pteno a"
  have wv: "write_verify a s = (if \<not> present (de s ?i) then Ret () s
      else if 3 AND pte s ?i ?j = 1 then un_wp_page (slot (tbl s ?i) ?j) s else Ret () s)"
    by (simp add: write_verify_def Let_def dir_slot pte_slot de_def tbl_def pte_def)
  show ?thesis
  proof (cases "present (de s ?i) \<and> 3 AND pte s ?i ?j = 1")
    case True
    then have p: "present (pte s ?i ?j)" by (simp add: and_3_eq_1 present_bit)
    show ?thesis
    proof (cases rule: un_wp_page_ok [OF inv user_address [OF a] _ pteno_less p])
      case 1
      then show ?case using True by simp
    next
      case (2 s')
      then have "unshared_at a s s'" by (auto simp: unshared_at_def own_copy_def writable_def)
      then show ?thesis using 2 True wv by auto
    next
      case 3
      then show ?thesis using True wv by auto
    qed
  next
    case False
    then have "unshared_at a s s" by (auto simp: unshared_at_def and_3_eq_1 present_bit writable_def)
    then show ?thesis using False wv inv by auto
  qed
qed

lemma page_index: "dirno a = dirno b \<and> pteno a = pteno b \<longleftrightarrow> unat a div 4096 = unat b div 4096"
proof -
  have "dirno x = (unat x div 4096) div 1024" for x by (simp add: dirno_def div_mult2_eq [symmetric])
  then show ?thesis
    unfolding pteno_def by (metis div_mult_mod_eq)
qed

definition pages_between :: "nat \<Rightarrow> nat \<Rightarrow> u32 \<Rightarrow> bool" where
  "pages_between lo hi b \<longleftrightarrow> lo \<le> unat b div 4096 \<and> unat b div 4096 < hi"

lemma verify_loop_ok:
  assumes "mm_inv held s" "0x4000000 \<le> start" "int (unat start) + sz \<le> 0xfffff000"
    "unat start mod 4096 = 0"
  shows "(\<exists>s'. verify_loop sz start s = Ret () s' \<and> mm_inv held s' \<and>
      (\<forall>d<1024. de s' d = de s d) \<and>
      (\<forall>b. 0x4000000 \<le> b \<longrightarrow> unat b div 4096 < unat start div 4096 \<longrightarrow> present (de s (dirno b)) \<longrightarrow>
         pte s' (dirno b) (pteno b) = pte s (dirno b) (pteno b)) \<and>
      (\<forall>b. unat start \<le> unat b \<longrightarrow> int (unat b) < int (unat start) + sz \<longrightarrow> present (de s (dirno b)) \<longrightarrow>
         present (pte s' (dirno b) (pteno b)) \<longrightarrow> writable s' (dirno b) (pteno b))) \<or>
    (\<exists>s'. verify_loop sz start s = Exits 11 s')"
  using assms
proof (induction sz start s rule: verify_loop.induct)
  case (1 sz start s)
  show ?case
  proof (cases "sz > 0")
    case False
    then have "verify_loop sz start s = Ret () s" by (subst verify_loop.simps) simp
    moreover have "\<not> int (unat b) < int (unat start) + sz" if "unat start \<le> unat b" for b :: u32
      using that False by linarith
    ultimately show ?thesis using 1(2) by blast
  next
    case True
    have vl: "verify_loop sz start s = bindO (write_verify start s) (\<lambda>_ s. verify_loop (sz - 4096) (start + 4096) s)"
      using True by (subst verify_loop.simps) simp
    consider (ex) "write_verify start s = Exits 11 s"
      | (ok) s1 where "write_verify start s = Ret () s1" "mm_inv held s1" "unshared_at start s s1"
      using write_verify_ok [OF 1(2,3)] by blast
    then show ?thesis
    proof cases
      case ex
      then show ?thesis using vl by simp
    next
      case ok
      have big: "unat start + 4096 < 4294967296" using 1(4) True by linarith
      have nx: "unat (start + 4096) = unat start + 4096"
        using big by (simp add: unat_word_ariths)
      have a1: "0x4000000 \<le> start + 4096" using 1(3) nx by (simp add: word_le_nat_alt)
      have a2: "int (unat (start + 4096)) + (sz - 4096) \<le> 0xfffff000" using 1(4) nx by simp
      have a3: "unat (start + 4096) mod 4096 = 0" using 1(5) nx by simp
      consider (ret) s' where "verify_loop (sz - 4096) (start + 4096) s1 = Ret () s'" "mm_inv held s'"
          "\<forall>d<1024. de s' d = de s1 d"
          "\<forall>b. 0x4000000 \<le> b \<longrightarrow> unat b div 4096 < unat (start + 4096) div 4096 \<longrightarrow> present (de s1 (dirno b)) \<longrightarrow>
             pte s' (dirno b) (pteno b) = pte s1 (dirno b) (pteno b)"
          "\<forall>b. unat (start + 4096) \<le> unat b \<longrightarrow> int (unat b) < int (unat (start + 4096)) + (sz - 4096) \<longrightarrow>
             present (de s1 (dirno b)) \<longrightarrow>
             present (pte s' (dirno b) (pteno b)) \<longrightarrow> writable s' (dirno b) (pteno b)"
        | (die) s' where "verify_loop (sz - 4096) (start + 4096) s1 = Exits 11 s'"
        using 1(1) [OF True ok(1) ok(2) a1 a2 a3] by (elim disjE exE conjE)
      then show ?thesis
      proof cases
        case die
        then show ?thesis using vl ok(1) by auto
      next
        case ret
        have d1: "de s1 d = de s d" if "d < 1024" for d using ok(3) that by (simp add: unshared_at_def)
        have q: "unat (start + 4096) div 4096 = unat start div 4096 + 1" using nx by simp
        have low: "pte s' (dirno b) (pteno b) = pte s (dirno b) (pteno b)"
          if b: "0x4000000 \<le> b" "unat b div 4096 < unat start div 4096" "present (de s (dirno b))" for b
        proof -
          have "(dirno b, pteno b) \<noteq> (dirno start, pteno start)" using page_index [of b start] b(2) by auto
          then have "pte s1 (dirno b) (pteno b) = pte s (dirno b) (pteno b)"
            using ok(3) user_address [OF b(1)] b(3) by (simp add: unshared_at_def)
          then show ?thesis using ret(4) b q d1 by simp
        qed
        have wr: "writable s' (dirno b) (pteno b)"
          if b: "unat start \<le> unat b" "int (unat b) < int (unat start) + sz" "present (de s (dirno b))"
            "present (pte s' (dirno b) (pteno b))" for b
        proof (cases "unat b < unat start + 4096")
          case True
          have ub: "0x4000000 \<le> b" using b(1) 1(3) by (simp add: word_le_nat_alt)
          obtain k where k: "unat start = 4096 * k" using 1(5) by auto
          have "unat b div 4096 = k" using True b(1) k by (intro div_nat_eqI) auto
          then have same: "dirno b = dirno start" "pteno b = pteno start" using page_index [of b start] k by auto
          have "pte s' (dirno b) (pteno b) = pte s1 (dirno b) (pteno b)"
            using ret(4) ub q b(3) d1 k \<open>unat b div 4096 = k\<close> by simp
          then show ?thesis
            using ok(3) b(3,4) same by (simp add: unshared_at_def writable_def)
        next
          case False
          then show ?thesis using ret(5) b nx d1 by auto
        qed
        show ?thesis
          using vl ok(1) ret low wr d1 by (intro disjI1 exI [of _ s']) auto
      qed
    qed
  qed
qed

lemma verify_area_loop:
  assumes "0x4000000 \<le> get_base (ldt (cur s) 2)" "get_base (ldt (cur s) 2) AND 0xfff = 0"
    "int (unat (get_base (ldt (cur s) 2))) + int (unat addr) + sz \<le> 0xfffff000" "0 \<le> sz" "sz < 2 ^ 30"
  defines "start \<equiv> (addr AND 0xfffff000) + get_base (ldt (cur s) 2)"
  shows "verify_area addr sz s = verify_loop (sz + int (unat addr mod 4096)) start s"
    "unat start = unat addr div 4096 * 4096 + unat (get_base (ldt (cur s) 2))"
    "0x4000000 \<le> start" "unat start mod 4096 = 0"
    "int (unat start) + (sz + int (unat addr mod 4096)) \<le> 0xfffff000"
proof -
  let ?b = "get_base (ldt (cur s) 2)"
  have low: "unat (addr AND 0xfff) = unat addr mod 4096"
    using unat_and_mask [of addr 12] by (simp add: low_mask)
  have "uint (addr AND 0xfff) = int (unat addr mod 4096)" using low by (metis uint_nat)
  moreover have "s32 (sz + int (unat addr mod 4096)) = sz + int (unat addr mod 4096)"
    using assms(4,5) by (intro s32_small) auto
  ultimately show "verify_area addr sz s = verify_loop (sz + int (unat addr mod 4096)) start s"
    by (simp add: verify_area_def start_def)
  have dm: "unat addr div 4096 * 4096 + unat addr mod 4096 = unat addr" by simp
  have st: "start = frame addr + ?b" by (simp add: start_def)
  have "unat addr div 4096 * 4096 + unat ?b < 4294967296"
    using assms(3,4) dm by linarith
  then show u: "unat start = unat addr div 4096 * 4096 + unat ?b"
    unfolding st by (simp add: unat_word_ariths unat_frame)
  show "0x4000000 \<le> start" using assms(1) u by (simp add: word_le_nat_alt)
  have "unat ?b mod 4096 = 0"
    using assms(2) unat_and_mask [of ?b 12] by (simp add: low_mask [symmetric])
  then show "unat start mod 4096 = 0" using u by simp
  show "int (unat start) + (sz + int (unat addr mod 4096)) \<le> 0xfffff000"
    using assms(3) u dm by linarith
qed

lemma verify_area_ok:
  assumes "mm_inv held s" "0x4000000 \<le> get_base (ldt (cur s) 2)" "get_base (ldt (cur s) 2) AND 0xfff = 0"
    "int (unat (get_base (ldt (cur s) 2))) + int (unat addr) + sz \<le> 0xfffff000" "0 \<le> sz" "sz < 2 ^ 30"
  shows "(\<exists>s'. verify_area addr sz s = Ret () s' \<and> mm_inv held s' \<and>
      (\<forall>b p. unat (get_base (ldt (cur s) 2)) + unat addr \<le> unat b \<and>
         int (unat b) < int (unat (get_base (ldt (cur s) 2))) + int (unat addr) + sz \<and>
         lookup s' (dirno b) (pteno b) = Some p \<longrightarrow> writable s' (dirno b) (pteno b))) \<or>
    (\<exists>s'. verify_area addr sz s = Exits 11 s')"
proof -
  let ?b = "get_base (ldt (cur s) 2)"
  let ?start = "(addr AND 0xfffff000) + ?b" and ?sz = "sz + int (unat addr mod 4096)"
  note l = verify_area_loop [OF assms(2-)]
  have dm: "unat addr div 4096 * 4096 + unat addr mod 4096 = unat addr" by simp
  consider (ret) s' where "verify_loop ?sz ?start s = Ret () s'" "mm_inv held s'" "\<forall>d<1024. de s' d = de s d"
      "\<forall>b. unat ?start \<le> unat b \<longrightarrow> int (unat b) < int (unat ?start) + ?sz \<longrightarrow> present (de s (dirno b)) \<longrightarrow>
         present (pte s' (dirno b) (pteno b)) \<longrightarrow> writable s' (dirno b) (pteno b)"
    | (die) s' where "verify_loop ?sz ?start s = Exits 11 s'"
    using verify_loop_ok [OF assms(1) l(3,5,4)] by blast
  then show ?thesis
  proof cases
    case ret
    have "writable s' (dirno b) (pteno b)"
      if b: "unat ?b + unat addr \<le> unat b" "int (unat b) < int (unat ?b) + int (unat addr) + sz"
        "lookup s' (dirno b) (pteno b) = Some p" for b p
    proof -
      have "unat ?start \<le> unat b" using b(1) l(2) dm by linarith
      moreover have "int (unat b) < int (unat ?start) + ?sz" using b(2) l(2) dm by linarith
      moreover have "present (de s' (dirno b)) \<and> present (pte s' (dirno b) (pteno b))"
        using b(3) by (auto simp: lookup_def split: if_splits)
      ultimately show ?thesis using ret(3,4) dirno_less [of b] by metis
    qed
    then show ?thesis using l(1) ret(1,2) by auto
  next
    case die
    then show ?thesis using l(1) by auto
  qed
qed

lemma verify_area_returns:
  assumes "mm_inv held s" "0x4000000 \<le> get_base (ldt (cur s) 2)" "get_base (ldt (cur s) 2) AND 0xfff = 0"
    "int (unat (get_base (ldt (cur s) 2))) + int (unat addr) + sz \<le> 0xfffff000" "0 \<le> sz" "sz < 2 ^ 30"
  shows "(\<exists>s'. verify_area addr sz s = Ret () s' \<and> mm_inv held s') \<or> (\<exists>s'. verify_area addr sz s = Exits 11 s')"
  using verify_area_ok [OF assms] by blast

text \<open>C8: \<open>verify_area\<close> on a buffer in the data segment of a task: when it returns,
  every page of the buffer that is mapped is writable, so that the kernel's
  stores, which the processor does not check, cannot reach a page shared with
  another task by copy-on-write.  The page counts stay exact; the only other
  outcome is that the task exits because memory ran out.\<close>

theorem verify_area_writable:
  assumes "mm_inv held s" "0x4000000 \<le> get_base (ldt (cur s) 2)" "get_base (ldt (cur s) 2) AND 0xfff = 0"
    "int (unat (get_base (ldt (cur s) 2))) + int (unat addr) + sz \<le> 0xfffff000" "0 \<le> sz" "sz < 2 ^ 30"
  shows "(\<exists>s'. verify_area addr sz s = Ret () s' \<and> mm_inv held s' \<and>
      (\<forall>b p. unat (get_base (ldt (cur s) 2)) + unat addr \<le> unat b \<and>
         int (unat b) < int (unat (get_base (ldt (cur s) 2))) + int (unat addr) + sz \<and>
         lookup s' (dirno b) (pteno b) = Some p \<longrightarrow> writable s' (dirno b) (pteno b))) \<or>
    (\<exists>s'. verify_area addr sz s = Exits 11 s')"
  using assms by (rule verify_area_ok)

lemma mm_inv_cong:
  assumes "mem_map s = mem_map t" "HIGH_MEMORY s = HIGH_MEMORY t" "pmem s = pmem t"
  shows "mm_inv held s = mm_inv held t"
proof -
  have d: "de s = de t" by (simp add: de_def assms fun_eq_iff)
  have tb: "tbl s = tbl t" by (simp add: tbl_def d fun_eq_iff)
  have "pte s = pte t" by (simp add: pte_def tb assms fun_eq_iff)
  then have "tcount s = tcount t" by (simp add: tcount_def fun_eq_iff)
  then have "refs s = refs t" by (simp add: refs_def dcount_def d tb fun_eq_iff cong: if_cong)
  then show ?thesis using \<open>pte s = pte t\<close> by (simp add: mm_inv_def assms d tb)
qed

theorem verify_area_writable_witness:
  "\<exists>(s :: sched). mm_inv (\<lambda>_. 0) s \<and> lookup s 16 0 = Some (pg 3839) \<and>
     ((\<exists>s'. verify_area 0 64 s = Ret () s' \<and> mm_inv (\<lambda>_. 0) s') \<or> (\<exists>s'. verify_area 0 64 s = Exits 11 s'))"
proof -
  let ?s = "(undefined :: sched)\<lparr>mem_map := mem_map demo_mm, HIGH_MEMORY := HIGH_MEMORY demo_mm, pmem := pmem demo_mm,
    current := 0xfff000, tstruct := (\<lambda>_. undefined\<lparr>ldt := (\<lambda>_. set_base (0, 0) 0x4000000)\<rparr>)\<rparr>"
  have b: "get_base (ldt (cur ?s) 2) = 0x4000000" by (simp add: cur_def get_set_base)
  have i: "mm_inv (\<lambda>_. 0) ?s" using demo_mm_facts(1) by (subst mm_inv_cong [of _ demo_mm]) simp_all
  have l: "lookup ?s 16 0 = Some (pg 3839)"
    using demo_mm_facts(4) unfolding lookup_def de_def pte_def tbl_def by (simp split: if_splits)
  show ?thesis
    using verify_area_writable [OF i, of 0 64] i l unfolding b by (intro exI [of _ ?s]) auto
qed

section \<open>What a memory operation leaves alone\<close>

text \<open>The memory manager only writes its own fields: the rest of the kernel state is the part \<open>mm.more\<close>.\<close>

lemma sched_more:
  assumes "mm.more s' = mm.more s"
  shows "current s' = current s" "tstruct s' = tstruct s" "umem s' = umem s" "task s' = task s"
  using assms by (cases s; cases s'; simp)+

lemma poke_more [frame_simps]: "mm.more (poke a v s) = mm.more s"
  by (simp add: poke_def)

lemma get_free_page_more [frame_simps]: "mm.more (snd (get_free_page s)) = mm.more s"
  by (simp add: get_free_page_def Let_def split: option.splits)

lemma un_wp_page_more: "retains (\<lambda>s'. mm.more s' = mm.more s) (un_wp_page e s)"
  using get_free_page_more [of s]
  by (cases "get_free_page s")
     (simp add: un_wp_page_def Let_def copy_page_def set_map_def frame_simps)

lemma write_verify_more: "retains (\<lambda>s'. mm.more s' = mm.more s) (write_verify a s)"
  by (auto simp: write_verify_def Let_def un_wp_page_more)

lemma verify_loop_more: "retains (\<lambda>s'. mm.more s' = mm.more s) (verify_loop sz a s)"
proof (induction sz a s rule: verify_loop.induct)
  case (1 sz a s)
  show ?case
    by (subst verify_loop.simps, cases "sz > 0")
       (auto intro!: retains_bindO write_verify_more dest: 1)
qed

lemma verify_area_more: "verify_area a n s = Ret u s' \<Longrightarrow> mm.more s' = mm.more s"
  using verify_loop_more [of s "s32 (n + uint (a AND 0xfff))" "(a AND 0xfffff000) + get_base (ldt (cur s) 2)"]
  by (simp add: verify_area_def)

section \<open>Signal frames\<close>

lemma get_put_byte [simp]:
  "get_fs_byte c (put_fs_byte x b s) = (if c = b then x else get_fs_byte c s)"
  by (simp add: get_fs_byte_def put_fs_byte_def)

lemma put_long_keeps [simp]:
  "current (put_fs_long v a s) = current s" "tstruct (put_fs_long v a s) = tstruct s"
  by (simp_all add: put_fs_long_def put_fs_byte_def)

lemma get_put_long_other:
  assumes "a - b \<ge> 4" "b - a \<ge> 4"
  shows "get_fs_long a (put_fs_long v b s) = get_fs_long a s"
proof -
  have ne: "a + i \<noteq> b + j" if "i \<in> {0, 1, 2, 3}" "j \<in> {0, 1, 2, 3}" for i j
  proof
    assume "a + i = b + j"
    then have "a - b = j - i" "b - a = i - j" by (simp_all add: algebra_simps)
    then show False using assms that by (auto simp: word_le_nat_alt)
  qed
  show ?thesis
    using ne [of 0 0] ne [of 0 1] ne [of 0 2] ne [of 0 3] ne [of 1 0] ne [of 1 1] ne [of 1 2] ne [of 1 3]
      ne [of 2 0] ne [of 2 1] ne [of 2 2] ne [of 2 3] ne [of 3 0] ne [of 3 1] ne [of 3 2] ne [of 3 3]
    by (simp add: get_fs_long_def put_fs_long_def)
qed

lemma put_longs_Nil [simp]: "put_longs [] a s = s"
  by (simp add: put_longs_def)

lemma put_longs_snoc: "put_longs (vs @ [v]) a s = put_fs_long v (a + 4 * of_nat (length vs)) (put_longs vs a s)"
  by (simp add: put_longs_def enumerate_append_eq)

lemma put_longs_keeps [simp]:
  "current (put_longs vs a s) = current s" "tstruct (put_longs vs a s) = tstruct s"
  by (induction vs rule: rev_induct) (simp_all add: put_longs_snoc)

lemma put_longs_mm [simp]:
  "mem_map (put_longs vs a s) = mem_map s" "HIGH_MEMORY (put_longs vs a s) = HIGH_MEMORY s"
  "pmem (put_longs vs a s) = pmem s"
  by (induction vs rule: rev_induct) (simp_all add: put_longs_snoc put_fs_long_def put_fs_byte_def)

lemma slots_apart:
  fixes a :: u32
  assumes "i < j" "j < 1000"
  shows "(a + 4 * of_nat i) - (a + 4 * of_nat j) \<ge> 4" "(a + 4 * of_nat j) - (a + 4 * of_nat i) \<ge> 4"
proof -
  define d where "d = j - i"
  have j: "j = i + d" "0 < d" "d < 1000" using assms by (auto simp: d_def)
  have e: "(a + 4 * of_nat j) - (a + 4 * of_nat i) = (of_nat (4 * d) :: u32)"
    "(a + 4 * of_nat i) - (a + 4 * of_nat j) = - (of_nat (4 * d) :: u32)"
    unfolding j by (simp_all add: algebra_simps)
  have u: "unat (of_nat (4 * d) :: u32) = 4 * d" using j unat_of_nat [of "4 * d", where ?'a = 32] by (simp del: of_nat_mult)
  show "(a + 4 * of_nat j) - (a + 4 * of_nat i) \<ge> 4" unfolding e using j u by (simp add: word_le_nat_alt)
  have "unat (- (of_nat (4 * d) :: u32)) = 2 ^ 32 - 4 * d"
    using j u unat_sub_if' [of 0 "of_nat (4 * d) :: u32"] by (simp del: of_nat_mult)
  then show "(a + 4 * of_nat i) - (a + 4 * of_nat j) \<ge> 4" unfolding e using j by (simp add: word_le_nat_alt)
qed

lemma get_put_longs:
  assumes "length vs < 1000" "k < length vs"
  shows "get_fs_long (a + 4 * of_nat k) (put_longs vs a s) = vs ! k"
  using assms
proof (induction vs rule: rev_induct)
  case (snoc v vs)
  show ?case
  proof (cases "k = length vs")
    case True
    then show ?thesis by (simp add: put_longs_snoc get_put_long)
  next
    case False
    then have k: "k < length vs" using snoc.prems by simp
    have "get_fs_long (a + 4 * of_nat k) (put_longs (vs @ [v]) a s) = get_fs_long (a + 4 * of_nat k) (put_longs vs a s)"
      unfolding put_longs_snoc
      by (rule get_put_long_other) (use slots_apart [OF k] snoc.prems in auto)
    then show ?thesis using snoc.IH k snoc.prems by (simp add: nth_append)
  qed
qed simp

lemma get_fs_long_cong:
  "umem s' (current s') = umem s (current s) \<Longrightarrow> get_fs_long a s' = get_fs_long a s"
  by (simp add: get_fs_long_def get_fs_byte_def)

text \<open>The words \<open>do_signal\<close> pushes for the restorer to pop again.\<close>

definition signal_frame :: "sigaction \<Rightarrow> nat \<Rightarrow> trapframe \<Rightarrow> u32 \<Rightarrow> u32 list" where
  "signal_frame sa signr fr old_mask =
     [sa_restorer sa, of_nat signr] @ (if sa_flags sa AND SA_NOMASK = 0 then [old_mask] else []) @
     [f_eax fr, f_ecx fr, f_edx fr, f_eflags fr, f_eip fr]"

lemma do_signal_catch:
  assumes "1 \<le> signr" "signr \<le> 32" "sa_handler sa \<notin> {0, 1}"
    and sa: "sa = sigactions (cur s) (signr - 1)"
  shows "do_signal signr fr s =
    bindO (verify_area (f_esp fr - 4 * of_nat (length (signal_frame sa signr fr 0)))
        (int (length (signal_frame sa signr fr 0) * 4))
        (if sa_flags sa AND SA_ONESHOT \<noteq> 0 then set_sigaction (signr - 1) (sa\<lparr>sa_handler := 0\<rparr>) s else s))
      (\<lambda>_ s2. Ret (fr\<lparr>f_eip := sa_handler sa, f_esp := f_esp fr - 4 * of_nat (length (signal_frame sa signr fr 0))\<rparr>)
         (upd_cur (\<lambda>t. t\<lparr>blocked := blocked t OR sa_mask sa\<rparr>)
            (put_longs (signal_frame sa signr fr (blocked (cur s2)))
              (f_esp fr - 4 * of_nat (length (signal_frame sa signr fr 0))) s2)))"
  using assms(1-3) unfolding do_signal_def Let_def sa [symmetric] signal_frame_def by simp

lemma set_sigaction_cur:
  "cur (set_sigaction i a s) = (cur s)\<lparr>sigactions := (sigactions (cur s))(i := a)\<rparr>"
  "mem_map (set_sigaction i a s) = mem_map s" "HIGH_MEMORY (set_sigaction i a s) = HIGH_MEMORY s"
  "pmem (set_sigaction i a s) = pmem s"
  by (simp_all add: set_sigaction_def upd_task_def cur_def)

lemma do_signal_returns:
  assumes "mm_inv held s" "0x4000000 \<le> get_base (ldt (cur s) 2)" "get_base (ldt (cur s) 2) AND 0xfff = 0"
    and "1 \<le> signr" "signr \<le> 32" "sa_handler sa \<notin> {0, 1}" "sa = sigactions (cur s) (signr - 1)"
    and "sp = f_esp fr - 4 * of_nat (length (signal_frame sa signr fr 0))"
    and "int (unat (get_base (ldt (cur s) 2))) + int (unat sp) + 32 \<le> 0xfffff000"
  shows "(\<exists>s'. do_signal signr fr s = Ret (fr\<lparr>f_eip := sa_handler sa, f_esp := sp\<rparr>) s' \<and> mm_inv held s' \<and>
      (\<forall>k<length (signal_frame sa signr fr (blocked (cur s))).
         get_fs_long (sp + 4 * of_nat k) s' = signal_frame sa signr fr (blocked (cur s)) ! k) \<and>
      blocked (cur s') = blocked (cur s) OR sa_mask sa \<and> signal (cur s') = signal (cur s) \<and>
      sa_handler (sigactions (cur s') (signr - 1)) =
        (if sa_flags sa AND SA_ONESHOT \<noteq> 0 then 0 else sa_handler sa)) \<or>
    (\<exists>s'. do_signal signr fr s = Exits 11 s')"
proof -
  define s1 where "s1 = (if sa_flags sa AND SA_ONESHOT \<noteq> 0 then set_sigaction (signr - 1) (sa\<lparr>sa_handler := 0\<rparr>) s else s)"
  let ?L = "\<lambda>m. signal_frame sa signr fr m"
  note eq = do_signal_catch [OF assms(4-7), of fr, folded s1_def assms(8)]
  have len: "length (?L m) = length (?L 0)" "length (?L m) \<le> 8" for m by (simp_all add: signal_frame_def)
  have c1: "ldt (cur s1) = ldt (cur s)" "blocked (cur s1) = blocked (cur s)" "signal (cur s1) = signal (cur s)"
    "sa_handler (sigactions (cur s1) (signr - 1)) = (if sa_flags sa AND SA_ONESHOT \<noteq> 0 then 0 else sa_handler sa)"
    using assms(7) by (simp_all add: s1_def set_sigaction_cur)
  have i1: "mm_inv held s1"
    using assms(1) by (subst mm_inv_cong [of _ s]) (simp_all add: s1_def set_sigaction_cur)
  have "int (unat (get_base (ldt (cur s1) 2))) + int (unat sp) + int (length (?L 0) * 4) \<le> 0xfffff000"
    using assms(9) len(2) [of 0] c1(1) by simp
  then consider (ret) s2 where "verify_area sp (int (length (?L 0) * 4)) s1 = Ret () s2" "mm_inv held s2"
    | (die) s2 where "verify_area sp (int (length (?L 0) * 4)) s1 = Exits 11 s2"
    using verify_area_returns [OF i1, of sp "int (length (?L 0) * 4)"] assms(2,3) c1(1) len(2) [of 0] by auto
  then show ?thesis
  proof cases
    case die
    then show ?thesis using eq by simp
  next
    case ret
    note m = sched_more [OF verify_area_more [OF ret(1)]]
    let ?s3 = "put_longs (?L (blocked (cur s2))) sp s2"
    let ?s4 = "upd_cur (\<lambda>t. t\<lparr>blocked := blocked t OR sa_mask sa\<rparr>) ?s3"
    have c2: "cur s2 = cur s1" by (simp add: cur_def m)
    have g: "get_fs_long (sp + 4 * of_nat k) ?s4 = ?L (blocked (cur s)) ! k" if "k < length (?L (blocked (cur s)))" for k
    proof -
      have "get_fs_long (sp + 4 * of_nat k) ?s4 = get_fs_long (sp + 4 * of_nat k) ?s3"
        by (rule get_fs_long_cong) (simp add: upd_task_def)
      also have "\<dots> = ?L (blocked (cur s2)) ! k"
        by (rule get_put_longs) (use that len in \<open>auto simp: signal_frame_def\<close>)
      finally show ?thesis using c1(2) c2 by simp
    qed
    have i4: "mm_inv held ?s4"
      using ret(2) by (subst mm_inv_cong [of _ s2]) (simp_all add: upd_task_def put_longs_mm)
    have c4: "cur ?s4 = (cur s1)\<lparr>blocked := blocked (cur s1) OR sa_mask sa\<rparr>"
      using c2 by (simp add: cur_def upd_task_def)
    have "do_signal signr fr s = Ret (fr\<lparr>f_eip := sa_handler sa, f_esp := sp\<rparr>) ?s4"
      using eq ret(1) by simp
    then show ?thesis using g i4 c1 c4 by (intro disjI1 exI [of _ ?s4]) simp
  qed
qed

text \<open>Catching a signal.  With a handler installed, \<open>do_signal\<close> lets the
  task continue in the handler, on a stack that holds, from the top: the
  restorer, the signal number, the old mask unless \<open>SA_NOMASK\<close> is set, the four
  saved registers and the interrupted program counter.  The mask of the
  handler is added to the blocked signals, and the handler is reset exactly
  when \<open>SA_ONESHOT\<close> is set.  The only other outcome is that memory runs out
  while the stack is unshared.\<close>

theorem do_signal_frame:
  assumes "mm_inv held s" "0x4000000 \<le> get_base (ldt (cur s) 2)" "get_base (ldt (cur s) 2) AND 0xfff = 0"
    and "1 \<le> signr" "signr \<le> 32" "sa_handler sa \<notin> {0, 1}" "sa = sigactions (cur s) (signr - 1)"
    and "sp = f_esp fr - 4 * of_nat (length (signal_frame sa signr fr 0))"
    and "int (unat (get_base (ldt (cur s) 2))) + int (unat sp) + 32 \<le> 0xfffff000"
  shows "(\<exists>s'. do_signal signr fr s = Ret (fr\<lparr>f_eip := sa_handler sa, f_esp := sp\<rparr>) s' \<and> mm_inv held s' \<and>
      (\<forall>k<length (signal_frame sa signr fr (blocked (cur s))).
         get_fs_long (sp + 4 * of_nat k) s' = signal_frame sa signr fr (blocked (cur s)) ! k) \<and>
      blocked (cur s') = blocked (cur s) OR sa_mask sa \<and>
      sa_handler (sigactions (cur s') (signr - 1)) =
        (if sa_flags sa AND SA_ONESHOT \<noteq> 0 then 0 else sa_handler sa)) \<or>
    (\<exists>s'. do_signal signr fr s = Exits 11 s')"
  using do_signal_returns [OF assms] by blast

theorem do_signal_frame_witness:
  "\<exists>(s :: sched) fr. f_eip fr = 0x1234 \<and>
     ((\<exists>fr' s'. do_signal 2 fr s = Ret fr' s' \<and> f_eip fr' = 0x100 \<and> get_fs_long (f_esp fr' + 24) s' = 0x1234) \<or>
      (\<exists>s'. do_signal 2 fr s = Exits 11 s'))"
proof -
  let ?sa = "\<lparr>sa_handler = 0x100, sa_mask = 2, sa_flags = 0xc0000000, sa_restorer = 0x200\<rparr>"
  let ?s = "(undefined :: sched)\<lparr>mem_map := mem_map demo_mm, HIGH_MEMORY := HIGH_MEMORY demo_mm, pmem := pmem demo_mm,
    current := 0xfff000, tstruct := (\<lambda>_. undefined\<lparr>ldt := (\<lambda>_. set_base (0, 0) 0x4000000), sigactions := (\<lambda>_. ?sa)\<rparr>)\<rparr>"
  let ?fr = "\<lparr>f_eax = 1, f_ecx = 2, f_edx = 3, f_eip = 0x1234, f_eflags = 5, f_esp = 0x800\<rparr>"
  have b: "get_base (ldt (cur ?s) 2) = 0x4000000" by (simp add: cur_def get_set_base)
  have i: "mm_inv (\<lambda>_. 0) ?s" using demo_mm_facts(1) by (subst mm_inv_cong [of _ demo_mm]) simp_all
  have sa: "?sa = sigactions (cur ?s) (2 - 1)" by (simp add: cur_def)
  have l: "length (signal_frame ?sa 2 ?fr 0) = 7" by (simp add: signal_frame_def)
  have fr: "signal_frame ?sa 2 ?fr m ! 6 = 0x1234" "length (signal_frame ?sa 2 ?fr m) = 7" for m
    by (simp_all add: signal_frame_def)
  have h: "0x4000000 \<le> get_base (ldt (cur ?s) 2)" "get_base (ldt (cur ?s) 2) AND 0xfff = 0"
    "(1 :: nat) \<le> 2" "(2 :: nat) \<le> 32" "sa_handler ?sa \<notin> {0, 1}"
    "0x7e4 = f_esp ?fr - 4 * of_nat (length (signal_frame ?sa 2 ?fr 0))"
    "int (unat (get_base (ldt (cur ?s) 2))) + int (unat (0x7e4 :: u32)) + 32 \<le> 0xfffff000"
    unfolding b l by simp_all
  show ?thesis
    using do_signal_frame [OF i h(1-5) sa h(6,7)]
  proof (elim disjE exE conjE)
    fix s'
    assume r: "do_signal 2 ?fr ?s = Ret (?fr\<lparr>f_eip := sa_handler ?sa, f_esp := 0x7e4\<rparr>) s'"
      and k: "\<forall>k<length (signal_frame ?sa 2 ?fr (blocked (cur ?s))).
         get_fs_long (0x7e4 + 4 * of_nat k) s' = signal_frame ?sa 2 ?fr (blocked (cur ?s)) ! k"
    have "get_fs_long (0x7e4 + 4 * of_nat 6) s' = 0x1234"
      using k [rule_format, of 6] unfolding fr by simp
    then show ?thesis using r by (intro exI [of _ ?s] exI [of _ ?fr]) simp
  qed (intro exI [of _ ?s] exI [of _ ?fr], simp)
qed

section \<open>Credentials\<close>

text \<open>A process without privilege gains none.  Whatever it passes to
  \<open>setreuid\<close>, each of its two user ids afterwards is one of the two it had, so
  it is not the superuser; and a refused call leaves the task as it was.\<close>

theorem sys_setreuid_no_escalation:
  assumes "\<not> suser s" "sys_setreuid ruid euid' s = (r, s')"
  shows "uid (cur s') \<in> {uid (cur s), euid (cur s)} \<and> euid (cur s') \<in> {uid (cur s), euid (cur s)} \<and>
    \<not> suser s' \<and> (r = - EPERM \<longrightarrow> s' = s) \<and> r \<in> {0, - EPERM}"
proof -
  have same: "of_int (uint x) = x" for x :: u16 by simp
  have id: "upd_cur (\<lambda>t. t\<lparr>uid := uid (cur s)\<rparr>) (upd_cur (\<lambda>t. t\<lparr>uid := v\<rparr>) s) = s"
    "upd_cur (\<lambda>t. t\<lparr>uid := uid (cur s)\<rparr>) s = s" for v
    by (simp_all add: upd_task_def cur_def)
  have nz: "euid' > 0 \<Longrightarrow> uint (x :: u16) = euid' \<Longrightarrow> x \<noteq> 0" for x by auto
  show ?thesis
    using assms(2) assms(1) id
    by (auto simp: sys_setreuid_def Let_def suser_def cur_def upd_task_def split: if_splits dest!: nz)
qed

theorem sys_setreuid_no_escalation_witness:
  "\<exists>(s :: sched) s'. uid (cur s) = 7 \<and> euid (cur s) = 5 \<and> sys_setreuid 5 7 s = (0, s') \<and>
     uid (cur s') = 5 \<and> euid (cur s') = 7 \<and> \<not> suser s' \<and> sys_setreuid 5 8 s = (- EPERM, s)"
proof -
  let ?s = "(undefined :: sched)\<lparr>current := 1, tstruct := (\<lambda>_. undefined\<lparr>uid := 7, euid := 5\<rparr>)\<rparr>"
  have n: "\<not> suser ?s" "uid (cur ?s) = 7" "euid (cur ?s) = 5" by (simp_all add: suser_def cur_def)
  obtain r s' where e: "sys_setreuid 5 7 ?s = (r, s')" by (meson surj_pair)
  obtain q t where e2: "sys_setreuid 5 8 ?s = (q, t)" by (meson surj_pair)
  have v: "r = 0" "uid (cur s') = 5" "euid (cur s') = 7"
    using e by (auto simp: sys_setreuid_def Let_def suser_def cur_def upd_task_def)
  have "q = - EPERM"
    using e2 by (auto simp: sys_setreuid_def Let_def suser_def cur_def upd_task_def)
  then have "t = ?s" using sys_setreuid_no_escalation [OF n(1) e2] by simp
  then show ?thesis
    using sys_setreuid_no_escalation [OF n(1) e] n v e e2 \<open>q = - EPERM\<close> by (intro exI [of _ ?s] exI [of _ s']) simp
qed

end
