(* ===== verification/Console_Props.thy ===== *)
theory Console_Props
  imports Console
begin

unbundle bit_operations_syntax

text \<open>
  The screen stays inside video memory, and what scrolling does to it.
\<close>

section \<open>The string instructions in closed form\<close>

lemma offset_ne:
  fixes b :: u32
  assumes "0 < k" "k < 4294967296"
  shows "b + of_nat k \<noteq> b"
proof
  assume "b + of_nat k = b"
  then have "unat (of_nat k :: u32) = 0" by simp
  then show False using assms by (simp add: unat_of_nat)
qed

lemma stosw_up_eq: "stosw_up n di v m a = (if \<exists>i<n. a = di + of_nat (2 * i) then v else m a)"
proof (induction n arbitrary: di m)
  case (Suc n)
  have ex: "(\<exists>i<Suc n. a = di + of_nat (2 * i)) \<longleftrightarrow> a = di \<or> (\<exists>i<n. a = di + 2 + of_nat (2 * i))"
    by (simp add: Ex_less_Suc2 algebra_simps)
  show ?case unfolding stosw_up.simps Suc.IH ex by auto
qed simp

lemma stosw_down_eq: "stosw_down n di v m a = (if \<exists>i<n. a = di - of_nat (2 * i) then v else m a)"
proof (induction n arbitrary: di m)
  case (Suc n)
  have ex: "(\<exists>i<Suc n. a = di - of_nat (2 * i)) \<longleftrightarrow> a = di \<or> (\<exists>i<n. a = di - 2 - of_nat (2 * i))"
    by (simp add: Ex_less_Suc2 algebra_simps)
  show ?case unfolding stosw_down.simps Suc.IH ex by auto
qed simp

lemma ex_pair: "(\<exists>i<2 * Suc n. P i) \<longleftrightarrow> P 0 \<or> P 1 \<or> (\<exists>i<2 * n. P (i + 2))"
proof -
  have "2 * Suc n = Suc (Suc (2 * n))" by simp
  then show ?thesis by (simp add: Ex_less_Suc2)
qed

lemma upd2: "x \<noteq> p \<Longrightarrow> x \<noteq> q \<Longrightarrow> (m(p := u, q := v)) x = m x"
  by simp

lemma movsl_up_eq:
  "4 * n + d < 4294967296 \<Longrightarrow>
   movsl_up n (di + of_nat d) di m a = (if \<exists>i<2 * n. a = di + of_nat (2 * i) then m (a + of_nat d) else m a)"
proof (induction n arbitrary: di m)
  case (Suc n)
  let ?m = "m(di := m (di + of_nat d), di + 2 := m (di + of_nat d + 2))"
  have e: "movsl_up (Suc n) (di + of_nat d) di m a = movsl_up n ((di + 4) + of_nat d) (di + 4) ?m a"
    by (simp add: ac_simps)
  have ih: "movsl_up n ((di + 4) + of_nat d) (di + 4) ?m a =
      (if \<exists>i<2 * n. a = di + 4 + of_nat (2 * i) then ?m (a + of_nat d) else ?m a)"
    by (rule Suc.IH) (use Suc.prems in simp)
  have later: "?m (a + of_nat d) = m (a + of_nat d)"
    if i: "i < 2 * n" "a = di + 4 + of_nat (2 * i)" for i
  proof (rule upd2)
    have "a + of_nat d = di + of_nat (4 + 2 * i + d)" using i(2) by simp
    then show "a + of_nat d \<noteq> di" using i(1) Suc.prems by (simp only:) (rule offset_ne, auto)
    have "a + of_nat d = di + 2 + of_nat (2 + 2 * i + d)" using i(2) by simp
    then show "a + of_nat d \<noteq> di + 2" using i(1) Suc.prems by (simp only:) (rule offset_ne, auto)
  qed
  have ex: "(\<exists>i<2 * Suc n. a = di + of_nat (2 * i)) \<longleftrightarrow>
      a = di \<or> a = di + 2 \<or> (\<exists>i<2 * n. a = di + 4 + of_nat (2 * i))"
    unfolding ex_pair by (simp add: algebra_simps)
  have c: "di + 2 + of_nat d = di + of_nat d + 2" by (simp add: ac_simps)
  show ?case
  proof (cases "\<exists>i<2 * n. a = di + 4 + of_nat (2 * i)")
    case True
    then obtain i where i: "i < 2 * n" "a = di + 4 + of_nat (2 * i)" by blast
    have "a = di \<or> a = di + 2 \<or> (\<exists>i<2 * n. a = di + 4 + of_nat (2 * i))" using True by blast
    then show ?thesis unfolding e ih ex if_P [OF True] later [OF i] by (simp only: if_True)
  next
    case False
    then show ?thesis unfolding e ih ex if_not_P [OF False] by (auto simp: c)
  qed
qed simp

lemma movsl_down_eq:
  "4 * n + d + 4 < 4294967296 \<Longrightarrow>
   movsl_down n (di - of_nat d) di m a =
     (if \<exists>i<2 * n. a = di + 2 - of_nat (2 * i) then m (a - of_nat d) else m a)"
proof (induction n arbitrary: di m)
  case (Suc n)
  let ?m = "m(di := m (di - of_nat d), di + 2 := m (di - of_nat d + 2))"
  have e: "movsl_down (Suc n) (di - of_nat d) di m a = movsl_down n ((di - 4) - of_nat d) (di - 4) ?m a"
    by (simp add: algebra_simps)
  have ih: "movsl_down n ((di - 4) - of_nat d) (di - 4) ?m a =
      (if \<exists>i<2 * n. a = di - 4 + 2 - of_nat (2 * i) then ?m (a - of_nat d) else ?m a)"
    by (rule Suc.IH) (use Suc.prems in simp)
  have later: "?m (a - of_nat d) = m (a - of_nat d)"
    if i: "i < 2 * n" "a = di - 4 + 2 - of_nat (2 * i)" for i
  proof (rule upd2)
    have "(a - of_nat d) + of_nat (2 + 2 * i + d) = di" using i(2) by simp
    then show "a - of_nat d \<noteq> di" using i(1) Suc.prems offset_ne [of "2 + 2 * i + d" "a - of_nat d"] by auto
    have "(a - of_nat d) + of_nat (4 + 2 * i + d) = di + 2" using i(2) by simp
    then show "a - of_nat d \<noteq> di + 2" using i(1) Suc.prems offset_ne [of "4 + 2 * i + d" "a - of_nat d"] by auto
  qed
  have ex: "(\<exists>i<2 * Suc n. a = di + 2 - of_nat (2 * i)) \<longleftrightarrow>
      a = di + 2 \<or> a = di \<or> (\<exists>i<2 * n. a = di - 4 + 2 - of_nat (2 * i))"
    unfolding ex_pair by (simp add: algebra_simps)
  have c: "di + 2 - of_nat d = di - of_nat d + 2" by (simp add: algebra_simps)
  show ?case
  proof (cases "\<exists>i<2 * n. a = di - 4 + 2 - of_nat (2 * i)")
    case True
    then obtain i where i: "i < 2 * n" "a = di - 4 + 2 - of_nat (2 * i)" by blast
    have "a = di + 2 \<or> a = di \<or> (\<exists>i<2 * n. a = di - 4 + 2 - of_nat (2 * i))" using True by blast
    then show ?thesis unfolding e ih ex if_P [OF True] later [OF i] by (simp only: if_True)
  next
    case False
    then show ?thesis unfolding e ih ex if_not_P [OF False] by (auto simp: c)
  qed
qed simp

lemma shift_right_only: "(\<And>i. i < n \<Longrightarrow> a \<noteq> p + of_nat (2 * i)) \<Longrightarrow> shift_right n p old m a = m a"
proof (induction n arbitrary: p old m)
  case (Suc n)
  have a: "a \<noteq> p + 2 + of_nat (2 * i)" if "i < n" for i
    using Suc.prems [of "Suc i"] that by (simp add: algebra_simps)
  have "a \<noteq> p" using Suc.prems [of 0] by simp
  moreover have "shift_right n (p + 2) (m p) (m(p := old)) a = (m(p := old)) a" by (rule Suc.IH) (rule a)
  ultimately show ?case by (simp only: shift_right.simps fun_upd_other not_False_eq_True)
qed simp

lemma shift_left_only: "(\<And>i. i < Suc n \<Longrightarrow> a \<noteq> p + of_nat (2 * i)) \<Longrightarrow> shift_left n p v m a = m a"
proof (induction n arbitrary: p m)
  case 0
  then show ?case using 0 [of 0] by simp
next
  case (Suc n)
  have a: "a \<noteq> p + 2 + of_nat (2 * i)" if "i < Suc n" for i
    using Suc.prems [of "Suc i"] that by (simp add: algebra_simps)
  have "a \<noteq> p" using Suc.prems [of 0] by simp
  moreover have "shift_left n (p + 2) v (m(p := m (p + 2))) a = (m(p := m (p + 2))) a" by (rule Suc.IH) (rule a)
  ultimately show ?case by (simp only: shift_left.simps fun_upd_other not_False_eq_True)
qed

section \<open>The invariant of the console\<close>

abbreviation cols :: "console \<Rightarrow> nat" where "cols t \<equiv> unat (video_num_columns t)"
abbreviation lns :: "console \<Rightarrow> nat" where "lns t \<equiv> unat (video_num_lines t)"

text \<open>Size of the screen in bytes, and the offset of a cell from the origin.\<close>

definition screen_size :: "console \<Rightarrow> nat" where
  "screen_size t = lns t * (2 * cols t)"

definition off :: "console \<Rightarrow> nat \<Rightarrow> nat \<Rightarrow> nat" where
  "off t r k = r * (2 * cols t) + 2 * k"

text \<open>The part that does not depend on where the cursor is.\<close>

definition geom_ok :: "console \<Rightarrow> bool" where
  "geom_ok t \<longleftrightarrow> 8 \<le> cols t \<and> 0 < lns t \<and> video_size_row t = 2 * video_num_columns t \<and>
     unat (video_mem_end t) \<le> 0x100000 \<and> unat (video_mem_start t) \<le> unat (origin t) \<and>
     unat (origin t) + screen_size t \<le> unat (video_mem_end t) \<and>
     scr_end t = origin t + of_nat (screen_size t) \<and>
     unat (con_top t) < unat (con_bottom t) \<and> unat (con_bottom t) \<le> lns t \<and> con_npar t < NPAR"

definition con_ok :: "console \<Rightarrow> bool" where
  "con_ok t \<longleftrightarrow> geom_ok t \<and> unat (con_x t) \<le> cols t \<and> unat (con_y t) < lns t \<and>
     con_pos t = origin t + of_nat (off t (unat (con_y t)) (unat (con_x t)))"

definition in_mem :: "console \<Rightarrow> u32 \<Rightarrow> bool" where
  "in_mem t a \<longleftrightarrow> unat (video_mem_start t) \<le> unat a \<and> unat a < unat (video_mem_end t)"

definition same_display :: "console \<Rightarrow> console \<Rightarrow> bool" where
  "same_display t t' \<longleftrightarrow> video_num_columns t' = video_num_columns t \<and> video_num_lines t' = video_num_lines t \<and>
     video_mem_start t' = video_mem_start t \<and> video_mem_end t' = video_mem_end t \<and>
     video_type t' = video_type t \<and> video_erase_char t' = video_erase_char t"

definition confined :: "console \<Rightarrow> console \<Rightarrow> bool" where
  "confined t t' \<longleftrightarrow> same_display t t' \<and> (\<forall>a. \<not> in_mem t a \<longrightarrow> vram t' a = vram t a)"

lemma confined_refl [simp]: "confined t t"
  by (simp add: confined_def same_display_def)

lemma confined_trans: "confined t u \<Longrightarrow> confined u v \<Longrightarrow> confined t v"
  by (auto simp: confined_def same_display_def in_mem_def)

text \<open>A step that keeps the invariant and touches only video memory.\<close>

definition con_step :: "(console \<Rightarrow> console) \<Rightarrow> bool" where
  "con_step f \<longleftrightarrow> (\<forall>t. con_ok t \<longrightarrow> con_ok (f t) \<and> confined t (f t))"

lemma con_stepI: "(\<And>t. con_ok t \<Longrightarrow> con_ok (f t) \<and> confined t (f t)) \<Longrightarrow> con_step f"
  by (simp add: con_step_def)

lemma con_stepD: "con_step f \<Longrightarrow> con_ok t \<Longrightarrow> con_ok (f t)" "con_step f \<Longrightarrow> con_ok t \<Longrightarrow> confined t (f t)"
  by (simp_all add: con_step_def)

lemma con_step_comp: "con_step f \<Longrightarrow> con_step g \<Longrightarrow> con_step (\<lambda>t. f (g t))"
  by (auto simp: con_step_def intro: confined_trans)

lemma con_step_if: "con_step f \<Longrightarrow> con_step g \<Longrightarrow> con_step (\<lambda>t. if b t then f t else g t)"
  by (auto simp: con_step_def)

lemma con_step_id: "con_step (\<lambda>t. t)"
  by (simp add: con_step_def)

lemma con_step_funpow: "con_step f \<Longrightarrow> con_step (\<lambda>t. (f ^^ n t) t)"
proof (rule con_stepI)
  fix t assume f: "con_step f" and t: "con_ok t"
  have "con_ok ((f ^^ k) t) \<and> confined t ((f ^^ k) t)" for k
    by (induction k) (use f t in \<open>auto dest: con_stepD intro: confined_trans\<close>)
  then show "con_ok ((f ^^ n t) t) \<and> confined t ((f ^^ n t) t)" .
qed

lemma size_bound: "geom_ok t \<Longrightarrow> screen_size t \<le> 0x100000"
  by (simp add: geom_ok_def)

lemma on_screen:
  assumes "geom_ok t" "k < screen_size t"
  shows "unat (origin t + of_nat k) = unat (origin t) + k" "in_mem t (origin t + of_nat k)"
proof -
  have "unat (origin t) + k < 4294967296" "k < 4294967296" using assms by (auto simp: geom_ok_def)
  then show "unat (origin t + of_nat k) = unat (origin t) + k" by (simp add: unat_word_ariths unat_of_nat)
  then show "in_mem t (origin t + of_nat k)" using assms by (auto simp: in_mem_def geom_ok_def)
qed

lemma off_less: "r < lns t \<Longrightarrow> k < cols t \<Longrightarrow> off t r k < screen_size t"
proof -
  assume "r < lns t" "k < cols t"
  then have "off t r k < r * (2 * cols t) + 2 * cols t" by (simp add: off_def)
  also have "\<dots> = Suc r * (2 * cols t)" by simp
  also have "\<dots> \<le> screen_size t" unfolding screen_size_def using \<open>r < lns t\<close> by (intro mult_le_mono1) simp
  finally show ?thesis .
qed

lemma row_word: "geom_ok t \<Longrightarrow> video_size_row t * w = of_nat (unat w * (2 * cols t))"
  by (simp add: geom_ok_def)

lemma stosw_confined:
  assumes "geom_ok t" "k + 2 * n \<le> screen_size t" "\<not> in_mem t a"
  shows "stosw_up n (origin t + of_nat k) v m a = m a"
proof -
  have "a \<noteq> origin t + of_nat k + of_nat (2 * i)" if "i < n" for i
    using on_screen(2) [OF assms(1), of "k + 2 * i"] assms(2,3) that by (auto simp: add.assoc)
  then show ?thesis unfolding stosw_up_eq by auto
qed

lemma confined_vram:
  "(\<And>a. \<not> in_mem t a \<Longrightarrow> m a = vram t a) \<Longrightarrow> confined t (t\<lparr>vram := m\<rparr>)"
  by (simp add: confined_def same_display_def)

lemma con_ok_vram [simp]: "con_ok (t\<lparr>vram := m\<rparr>) = con_ok t"
  by (simp add: con_ok_def geom_ok_def screen_size_def off_def)

section \<open>Scrolling\<close>

abbreviation height :: "console \<Rightarrow> nat" where
  "height t \<equiv> unat (con_bottom t) - unat (con_top t) - 1"

lemma rect_word:
  assumes "geom_ok t"
  shows "unat ((con_bottom t - con_top t - 1) * video_num_columns t) = height t * cols t"
    "Suc (height t) * (2 * cols t) + unat (con_top t) * (2 * cols t) \<le> screen_size t"
proof -
  have tb: "unat (con_top t) < unat (con_bottom t)" "unat (con_bottom t) \<le> lns t"
    using assms by (auto simp: geom_ok_def)
  have d: "unat (con_bottom t - con_top t) = unat (con_bottom t) - unat (con_top t)"
    using tb by (simp add: unat_sub word_le_nat_alt)
  then have "con_bottom t - con_top t \<noteq> 0" using tb by (metis unat_0 zero_less_diff less_numeral_extra(3))
  then have h: "unat (con_bottom t - con_top t - 1) = height t" using d by (simp add: unat_minus_one)
  have e: "Suc (height t) + unat (con_top t) = unat (con_bottom t)" using tb by simp
  have "Suc (height t) * (2 * cols t) + unat (con_top t) * (2 * cols t) =
      (Suc (height t) + unat (con_top t)) * (2 * cols t)"
    by (rule add_mult_distrib [symmetric])
  also have "\<dots> = unat (con_bottom t) * (2 * cols t)" by (simp only: e)
  also have "\<dots> \<le> screen_size t" unfolding screen_size_def using tb(2) by (rule mult_le_mono1)
  finally show le: "Suc (height t) * (2 * cols t) + unat (con_top t) * (2 * cols t) \<le> screen_size t" .
  have "height t * cols t < 4294967296" using le size_bound [OF assms] by (simp add: algebra_simps)
  then show "unat ((con_bottom t - con_top t - 1) * video_num_columns t) = height t * cols t"
    by (simp add: unat_word_ariths h)
qed

lemma screen_addr_inj:
  assumes "geom_ok t" "i < screen_size t" "j < screen_size t"
  shows "origin t + of_nat i = origin t + of_nat j \<longleftrightarrow> i = j"
  using on_screen(1) [OF assms(1,2)] on_screen(1) [OF assms(1,3)] by (metis add_left_cancel)

text \<open>The contents of the cell in row \<open>r\<close> and column \<open>k\<close> of the visible screen.\<close>

definition cell :: "console \<Rightarrow> nat \<Rightarrow> nat \<Rightarrow> u16" where
  "cell t r k = vram t (origin t + of_nat (off t r k))"

text \<open>Which cells of the screen a run of cells starting at the beginning of row \<open>r0\<close> covers.\<close>

lemma run_iff:
  assumes g: "geom_ok t" and r: "r < lns t" "k < cols t"
    and n: "r0 * (2 * cols t) + 2 * (h * cols t) \<le> screen_size t"
  shows "(\<exists>i<h * cols t. origin t + of_nat (off t r k) = origin t + of_nat (r0 * (2 * cols t)) + of_nat (2 * i)) \<longleftrightarrow>
    r0 \<le> r \<and> r < r0 + h"
proof -
  have c: "0 < cols t" using g by (simp add: geom_ok_def)
  have "(origin t + of_nat (off t r k) = origin t + of_nat (r0 * (2 * cols t)) + of_nat (2 * i)) \<longleftrightarrow>
      r * cols t + k = r0 * cols t + i" if "i < h * cols t" for i
  proof -
    have "r0 * (2 * cols t) + 2 * i < screen_size t" using that n by linarith
    then have "origin t + of_nat (off t r k) = origin t + of_nat (r0 * (2 * cols t) + 2 * i) \<longleftrightarrow>
        off t r k = r0 * (2 * cols t) + 2 * i"
      by (rule screen_addr_inj [OF g off_less [OF r]])
    then show ?thesis by (simp add: off_def add.assoc) linarith
  qed
  then have "(\<exists>i<h * cols t. origin t + of_nat (off t r k) = origin t + of_nat (r0 * (2 * cols t)) + of_nat (2 * i)) \<longleftrightarrow>
      (\<exists>i<h * cols t. r * cols t + k = r0 * cols t + i)" by blast
  also have "\<dots> \<longleftrightarrow> r0 * cols t \<le> r * cols t + k \<and> r * cols t + k < r0 * cols t + h * cols t"
    by (auto intro: exI [of _ "r * cols t + k - r0 * cols t"])
  also have "\<dots> \<longleftrightarrow> r0 \<le> r \<and> r < r0 + h"
  proof -
    have q: "(r * cols t + k) div cols t = r" using c r(2) by simp
    have "r0 * cols t \<le> r * cols t + k \<longleftrightarrow> r0 \<le> r"
      using less_eq_div_iff_mult_less_eq [OF c, of r0 "r * cols t + k"] q by simp
    moreover have "r * cols t + k < (r0 + h) * cols t \<longleftrightarrow> r < r0 + h"
      using div_less_iff_less_mult [OF c, of "r * cols t + k" "r0 + h"] q by simp
    ultimately show ?thesis by (simp add: add_mult_distrib)
  qed
  finally show ?thesis .
qed

lemma scroll_copy_vram:
  assumes g: "geom_ok t"
  defines "base \<equiv> origin t + of_nat (unat (con_top t) * (2 * cols t))" and "n \<equiv> height t * cols t div 2"
  shows "vram (scroll_copy t) a =
    (if \<exists>i<cols t. a = base + of_nat (4 * n) + of_nat (2 * i) then video_erase_char t
     else if \<exists>i<2 * n. a = base + of_nat (2 * i) then vram t (a + of_nat (2 * cols t)) else vram t a)"
    "scroll_copy t = t\<lparr>vram := vram (scroll_copy t)\<rparr>"
proof -
  have n: "unat (drop_bit 1 ((con_bottom t - con_top t - 1) * video_num_columns t)) = n"
    by (simp add: unat_drop_div rect_word(1) [OF g] n_def)
  have b: "origin t + video_size_row t * con_top t = base"
    "origin t + video_size_row t * (con_top t + 1) = base + of_nat (2 * cols t)"
    using g by (simp_all add: base_def geom_ok_def algebra_simps)
  have "2 * n \<le> height t * cols t" unfolding n_def by (rule times_div_less_eq_dividend)
  then have "4 * n \<le> 2 * (height t * cols t)" by linarith
  then have "4 * n + 2 * cols t < 4294967296"
    using rect_word(2) [OF g] size_bound [OF g] by (simp add: algebra_simps)
  note mv = movsl_up_eq [OF this]
  have f: "4 * of_nat n = (of_nat (4 * n) :: u32)" by simp
  have "vram (scroll_copy t) a = stosw_up (cols t) (base + of_nat (4 * n)) (video_erase_char t)
      (movsl_up n (base + of_nat (2 * cols t)) base (vram t)) a"
    unfolding scroll_copy_def Let_def n b f by simp
  then show "vram (scroll_copy t) a =
    (if \<exists>i<cols t. a = base + of_nat (4 * n) + of_nat (2 * i) then video_erase_char t
     else if \<exists>i<2 * n. a = base + of_nat (2 * i) then vram t (a + of_nat (2 * cols t)) else vram t a)"
    unfolding stosw_up_eq mv .
  show "scroll_copy t = t\<lparr>vram := vram (scroll_copy t)\<rparr>"
    by (simp add: scroll_copy_def Let_def)
qed

lemma scroll_copy_confined:
  assumes g: "geom_ok t"
  shows "confined t (scroll_copy t)"
proof (subst scroll_copy_vram(2) [OF g], rule confined_vram)
  fix a assume a: "\<not> in_mem t a"
  let ?o = "unat (con_top t) * (2 * cols t)" and ?n = "height t * cols t div 2"
  have "2 * ?n \<le> height t * cols t" by (rule times_div_less_eq_dividend)
  then have le: "?o + 4 * ?n + 2 * cols t \<le> screen_size t"
    using rect_word(2) [OF g] by (simp add: algebra_simps)
  have w: "a \<noteq> origin t + of_nat ?o + of_nat j" if "j < 4 * ?n + 2 * cols t" for j
    using on_screen(2) [OF g, of "?o + j"] a le that by (auto simp: add.assoc)
  have "a \<noteq> origin t + of_nat ?o + of_nat (4 * ?n) + of_nat (2 * i)" if "i < cols t" for i
    using w [of "4 * ?n + 2 * i"] that by (simp only: of_nat_add add.assoc) simp
  moreover have "a \<noteq> origin t + of_nat ?o + of_nat (2 * i)" if "i < 2 * ?n" for i
    using w [of "2 * i"] that by simp
  ultimately show "vram (scroll_copy t) a = vram t a"
    unfolding scroll_copy_vram(1) [OF g] by auto
qed

text \<open>What scrolling up means for the visible screen.\<close>

definition scrolled_up :: "console \<Rightarrow> console \<Rightarrow> bool" where
  "scrolled_up t t' \<longleftrightarrow> (\<forall>r<lns t. \<forall>k<cols t. cell t' r k =
     (if unat (con_top t) \<le> r \<and> r + 1 < unat (con_bottom t) then cell t (r + 1) k
      else if r + 1 = unat (con_bottom t) then video_erase_char t else cell t r k))"

lemma scroll_copy_scrolls:
  assumes g: "geom_ok t" and ev: "even (cols t)"
  shows "scrolled_up t (scroll_copy t)"
  unfolding scrolled_up_def
proof (intro allI impI)
  fix r k assume r: "r < lns t" "k < cols t"
  let ?a = "origin t + of_nat (off t r k)" and ?h = "height t"
  have two: "2 * (?h * cols t div 2) = ?h * cols t" "4 * (?h * cols t div 2) = 2 * (?h * cols t)" using ev by auto
  have tb: "unat (con_top t) < unat (con_bottom t)" "unat (con_bottom t) \<le> lns t" using g by (auto simp: geom_ok_def)
  have le: "unat (con_top t) * (2 * cols t) + 2 * (?h * cols t) \<le> screen_size t"
    "(unat (con_top t) + ?h) * (2 * cols t) + 2 * (1 * cols t) \<le> screen_size t"
    using rect_word(2) [OF g] by (simp_all add: algebra_simps)
  have mid: "(\<exists>i<?h * cols t. ?a = origin t + of_nat (unat (con_top t) * (2 * cols t)) + of_nat (2 * i)) \<longleftrightarrow>
      unat (con_top t) \<le> r \<and> r < unat (con_top t) + ?h"
    by (rule run_iff [OF g r le(1)])
  have "origin t + of_nat (unat (con_top t) * (2 * cols t)) + of_nat (2 * (?h * cols t)) =
      origin t + of_nat ((unat (con_top t) + ?h) * (2 * cols t))"
    by (simp add: add_mult_distrib algebra_simps)
  then have bot: "(\<exists>i<cols t. ?a = origin t + of_nat (unat (con_top t) * (2 * cols t)) + of_nat (2 * (?h * cols t)) + of_nat (2 * i)) \<longleftrightarrow>
      r = unat (con_top t) + ?h"
    using run_iff [OF g r le(2)] by auto
  have nx: "?a + of_nat (2 * cols t) = origin t + of_nat (off t (r + 1) k)" by (simp add: off_def algebra_simps)
  have o: "origin (scroll_copy t) = origin t" "off (scroll_copy t) = off t"
    by (simp_all add: scroll_copy_def Let_def off_def fun_eq_iff)
  have "cell (scroll_copy t) r k = (if r = unat (con_top t) + ?h then video_erase_char t
      else if unat (con_top t) \<le> r \<and> r < unat (con_top t) + ?h then cell t (r + 1) k else cell t r k)"
    unfolding cell_def o scroll_copy_vram(1) [OF g] two mid bot nx ..
  then show "cell (scroll_copy t) r k =
     (if unat (con_top t) \<le> r \<and> r + 1 < unat (con_bottom t) then cell t (r + 1) k
      else if r + 1 = unat (con_bottom t) then video_erase_char t else cell t r k)"
    using tb(1) by auto
qed

lemma set_origin_ports: "\<exists>ps. set_origin t = t\<lparr>con_ports := ps\<rparr>"
  by (rule exI [of _ "con_ports (set_origin t)"]) (simp add: set_origin_def vout_def)

lemma ports_irrelevant [simp]:
  "con_ok (t\<lparr>con_ports := ps\<rparr>) = con_ok t" "geom_ok (t\<lparr>con_ports := ps\<rparr>) = geom_ok t"
  "confined t0 (t\<lparr>con_ports := ps\<rparr>) = confined t0 t" "scrolled_up t0 (t\<lparr>con_ports := ps\<rparr>) = scrolled_up t0 t"
  by (simp_all add: con_ok_def geom_ok_def screen_size_def off_def confined_def same_display_def scrolled_up_def cell_def)

text \<open>The two ways of the hardware scroll, before the controller is told.\<close>

definition slide :: "console \<Rightarrow> console" where
  "slide t = t\<lparr>origin := origin t + video_size_row t, con_pos := con_pos t + video_size_row t,
     scr_end := scr_end t + video_size_row t,
     vram := stosw_up (cols t) (scr_end t) (video_erase_char t) (vram t)\<rparr>"

definition rewind :: "console \<Rightarrow> console" where
  "rewind t =
     (let n = unat (drop_bit 1 ((video_num_lines t - 1) * video_num_columns t)); o1 = origin t + video_size_row t
      in t\<lparr>vram := stosw_up (cols t) (video_mem_start t + 4 * of_nat n) (video_erase_char t)
                     (movsl_up n o1 (video_mem_start t) (vram t)),
           scr_end := scr_end t + video_size_row t - (o1 - video_mem_start t),
           con_pos := con_pos t + video_size_row t - (o1 - video_mem_start t),
           origin := video_mem_start t\<rparr>)"

lemma scrup_cases:
  obtains (hard) "con_top t = 0" "con_bottom t = video_num_lines t"
      "scr_end t + video_size_row t \<le> video_mem_end t" "\<exists>ps. scrup t = (slide t)\<lparr>con_ports := ps\<rparr>"
    | (wrap) "con_top t = 0" "con_bottom t = video_num_lines t"
      "\<not> scr_end t + video_size_row t \<le> video_mem_end t" "\<exists>ps. scrup t = (rewind t)\<lparr>con_ports := ps\<rparr>"
    | (soft) "scrup t = scroll_copy t"
proof (cases "(video_type t = VIDEO_TYPE_EGAC \<or> video_type t = VIDEO_TYPE_EGAM) \<and> con_top t = 0 \<and> con_bottom t = video_num_lines t")
  case True
  show thesis
  proof (cases "scr_end t + video_size_row t \<le> video_mem_end t")
    case fits: True
    have "scrup t = set_origin (slide t)"
      using True fits by (auto simp: scrup_def slide_def Let_def linorder_not_le [symmetric])
    then show thesis using hard True fits set_origin_ports [of "slide t"] by metis
  next
    case over: False
    have "scrup t = set_origin (rewind t)"
      using True over by (auto simp: scrup_def rewind_def Let_def linorder_not_le)
    then show thesis using wrap True over set_origin_ports [of "rewind t"] by metis
  qed
next
  case False
  then show thesis using soft by (auto simp: scrup_def)
qed

lemma row_bound: "geom_ok t \<Longrightarrow> 2 * cols t \<le> screen_size t"
  by (auto simp: geom_ok_def screen_size_def)

lemma last_row:
  assumes "geom_ok t"
  shows "(lns t - 1) * (2 * cols t) + 2 * (1 * cols t) = screen_size t"
  using assms by (cases "lns t") (auto simp: geom_ok_def screen_size_def)

lemma slide_geom:
  assumes g: "geom_ok t" and fits: "scr_end t + video_size_row t \<le> video_mem_end t"
  shows "geom_ok (slide t)" "con_ok t \<Longrightarrow> con_ok (slide t)" "confined t (slide t)"
proof -
  have r: "video_size_row t = of_nat (2 * cols t)" using g by (simp add: geom_ok_def)
  have se: "scr_end t + video_size_row t = origin t + of_nat (screen_size t + 2 * cols t)"
    using g r by (simp add: geom_ok_def algebra_simps)
  have lt: "unat (origin t) + screen_size t + 2 * cols t < 4294967296"
    using g row_bound [OF g] by (simp add: geom_ok_def)
  then have u: "unat (origin t + of_nat (screen_size t + 2 * cols t)) = unat (origin t) + screen_size t + 2 * cols t"
    "unat (origin t + of_nat (2 * cols t)) = unat (origin t) + 2 * cols t"
    by (simp_all add: unat_word_ariths unat_of_nat del: of_nat_add of_nat_mult)
  have me: "unat (origin t) + screen_size t + 2 * cols t \<le> unat (video_mem_end t)"
    using fits u(1) unfolding se by (simp add: word_le_nat_alt)
  have o: "origin (slide t) = origin t + of_nat (2 * cols t)" by (simp add: slide_def r)
  show g': "geom_ok (slide t)"
    using g me u(2) o r by (auto simp: geom_ok_def slide_def screen_size_def algebra_simps)
  show "con_ok (slide t)" if "con_ok t"
    using that g' by (auto simp: con_ok_def slide_def off_def algebra_simps)
  have "vram (slide t) a = vram t a" if "\<not> in_mem t a" for a
  proof -
    have "in_mem t (origin t + of_nat (screen_size t + 2 * i))" if "i < cols t" for i
    proof -
      have "unat (origin t) + (screen_size t + 2 * i) < 4294967296" "screen_size t + 2 * i < 4294967296"
        using lt that by simp_all
      then have "unat (origin t + of_nat (screen_size t + 2 * i)) = unat (origin t) + (screen_size t + 2 * i)"
        by (simp add: unat_word_ariths unat_of_nat del: of_nat_add of_nat_mult)
      then show ?thesis using g me that by (simp add: in_mem_def geom_ok_def)
    qed
    then have "\<not> (\<exists>i<cols t. a = scr_end t + of_nat (2 * i))"
      using that g by (auto simp: geom_ok_def add.assoc)
    then show ?thesis by (auto simp: slide_def stosw_up_eq)
  qed
  then show "confined t (slide t)" by (simp add: confined_def same_display_def slide_def)
qed

lemma full_region:
  assumes "geom_ok t" "con_top t = 0" "con_bottom t = video_num_lines t"
  shows "scrolled_up t t' \<longleftrightarrow> (\<forall>r<lns t. \<forall>k<cols t. cell t' r k = (if r + 1 < lns t then cell t (r + 1) k else video_erase_char t))"
  using assms by (auto simp: scrolled_up_def)

lemma slide_scrolls:
  assumes g: "geom_ok t" and fits: "scr_end t + video_size_row t \<le> video_mem_end t"
    and full: "con_top t = 0" "con_bottom t = video_num_lines t"
  shows "scrolled_up t (slide t)"
  unfolding full_region [OF g full]
proof (intro allI impI)
  fix r k assume rk: "r < lns t" "k < cols t"
  let ?t = "slide t"
  have g': "geom_ok ?t" by (rule slide_geom(1) [OF g fits])
  have r: "video_size_row t = of_nat (2 * cols t)" using g by (simp add: geom_ok_def)
  have same: "lns ?t = lns t" "cols ?t = cols t" "off ?t = off t" "screen_size ?t = screen_size t"
    by (simp_all add: slide_def off_def screen_size_def fun_eq_iff)
  have se: "scr_end t = origin ?t + of_nat ((lns t - 1) * (2 * cols t))"
  proof -
    have "scr_end t = origin t + of_nat ((lns t - 1) * (2 * cols t) + 2 * (1 * cols t))"
      unfolding last_row [OF g] using g by (simp add: geom_ok_def)
    then show ?thesis by (simp add: slide_def r algebra_simps)
  qed
  have run: "(\<exists>i<cols t. origin ?t + of_nat (off t r k) = scr_end t + of_nat (2 * i)) \<longleftrightarrow> r + 1 = lns t"
    using run_iff [OF g', of r k "lns t - 1" 1] rk last_row [OF g] unfolding same se by auto
  have nx: "origin ?t + of_nat (off t r k) = origin t + of_nat (off t (r + 1) k)"
    by (simp add: slide_def r off_def algebra_simps)
  have "cell ?t r k = (if r + 1 = lns t then video_erase_char t else vram t (origin ?t + of_nat (off t r k)))"
    unfolding cell_def same using run by (simp add: slide_def stosw_up_eq)
  then show "cell ?t r k = (if r + 1 < lns t then cell t (r + 1) k else video_erase_char t)"
    using rk(1) by (simp add: nx cell_def)
qed

lemma rewind_vram:
  assumes g: "geom_ok t"
  defines "n \<equiv> (lns t - 1) * cols t div 2"
    and "d \<equiv> unat (origin t) + 2 * cols t - unat (video_mem_start t)"
  shows "vram (rewind t) a =
    (if \<exists>i<cols t. a = video_mem_start t + of_nat (4 * n) + of_nat (2 * i) then video_erase_char t
     else if \<exists>i<2 * n. a = video_mem_start t + of_nat (2 * i) then vram t (a + of_nat d) else vram t a)"
    "origin t + video_size_row t = video_mem_start t + of_nat d"
    "2 * n \<le> (lns t - 1) * cols t"
proof -
  have w: "unat (video_mem_start t) \<le> unat (origin t)" using g by (simp add: geom_ok_def)
  have l0: "0 < lns t" using g by (simp add: geom_ok_def)
  show two: "2 * n \<le> (lns t - 1) * cols t" unfolding n_def by (rule times_div_less_eq_dividend)
  have sz: "(lns t - 1) * (2 * cols t) + 2 * (1 * cols t) \<le> 0x100000"
    using last_row [OF g] size_bound [OF g] by simp
  have "video_num_lines t \<noteq> 0" using l0 by (metis unat_0 less_numeral_extra(3))
  then have h: "unat (video_num_lines t - 1) = lns t - 1" by (rule unat_minus_one)
  have "(lns t - 1) * cols t < 4294967296" using sz by linarith
  then have "unat ((video_num_lines t - 1) * video_num_columns t) = (lns t - 1) * cols t"
    unfolding unat_word_ariths h by simp
  then have n: "unat (drop_bit 1 ((video_num_lines t - 1) * video_num_columns t)) = n"
    by (simp add: unat_drop_div n_def)
  have "(of_nat (unat (origin t) + 2 * cols t - unat (video_mem_start t)) :: u32) = origin t + 2 * video_num_columns t - video_mem_start t"
    using w by (simp add: of_nat_diff)
  then show o: "origin t + video_size_row t = video_mem_start t + of_nat d"
    using g by (simp add: d_def geom_ok_def)
  have "4 * n + d < 4294967296"
  proof -
    have "unat (origin t) \<le> 0x100000" using g by (simp add: geom_ok_def)
    then show ?thesis using two sz unfolding d_def by linarith
  qed
  note mv = movsl_up_eq [OF this]
  have "vram (rewind t) a = stosw_up (cols t) (video_mem_start t + of_nat (4 * n)) (video_erase_char t)
      (movsl_up n (video_mem_start t + of_nat d) (video_mem_start t) (vram t)) a"
    unfolding rewind_def Let_def n o by simp
  then show "vram (rewind t) a =
    (if \<exists>i<cols t. a = video_mem_start t + of_nat (4 * n) + of_nat (2 * i) then video_erase_char t
     else if \<exists>i<2 * n. a = video_mem_start t + of_nat (2 * i) then vram t (a + of_nat d) else vram t a)"
    unfolding stosw_up_eq mv .
qed

lemma rewind_geom:
  assumes g: "geom_ok t"
  shows "geom_ok (rewind t)" "con_ok t \<Longrightarrow> con_ok (rewind t)" "confined t (rewind t)"
proof -
  show g': "geom_ok (rewind t)"
    using g by (auto simp: geom_ok_def rewind_def Let_def screen_size_def algebra_simps)
  show "con_ok (rewind t)" if "con_ok t"
    using that g' by (auto simp: con_ok_def rewind_def Let_def off_def algebra_simps)
  let ?n = "(lns t - 1) * cols t div 2"
  have same: "origin (rewind t) = video_mem_start t" "screen_size (rewind t) = screen_size t" "in_mem (rewind t) = in_mem t"
    by (simp_all add: rewind_def Let_def screen_size_def in_mem_def fun_eq_iff)
  have le: "4 * ?n + 2 * cols t \<le> screen_size t"
    using rewind_vram(3) [OF g] last_row [OF g] by linarith
  have "vram (rewind t) a = vram t a" if a: "\<not> in_mem t a" for a
  proof -
    have w: "a \<noteq> video_mem_start t + of_nat j" if "j < 4 * ?n + 2 * cols t" for j
      using on_screen(2) [OF g', of j] a le that unfolding same by auto
    have "a \<noteq> video_mem_start t + of_nat (4 * ?n) + of_nat (2 * i)" if "i < cols t" for i
      using w [of "4 * ?n + 2 * i"] that by (simp only: of_nat_add add.assoc) simp
    moreover have "a \<noteq> video_mem_start t + of_nat (2 * i)" if "i < 2 * ?n" for i
      using w [of "2 * i"] that by simp
    ultimately show ?thesis unfolding rewind_vram(1) [OF g] by auto
  qed
  then show "confined t (rewind t)" by (simp add: confined_def same_display_def) (simp add: rewind_def Let_def)
qed

lemma rewind_scrolls:
  assumes g: "geom_ok t" and ev: "even (cols t)"
    and full: "con_top t = 0" "con_bottom t = video_num_lines t"
  shows "scrolled_up t (rewind t)"
  unfolding full_region [OF g full]
proof (intro allI impI)
  fix r k assume rk: "r < lns t" "k < cols t"
  let ?t = "rewind t" and ?d = "unat (origin t) + 2 * cols t - unat (video_mem_start t)"
  let ?h = "lns t - 1"
  have g': "geom_ok ?t" by (rule rewind_geom(1) [OF g])
  have same: "lns ?t = lns t" "cols ?t = cols t" "off ?t = off t" "screen_size ?t = screen_size t"
    "origin ?t = video_mem_start t"
    by (simp_all add: rewind_def Let_def off_def screen_size_def fun_eq_iff)
  have two: "2 * (?h * cols t div 2) = ?h * cols t" "4 * (?h * cols t div 2) = 2 * (?h * cols t)" using ev by auto
  let ?a = "video_mem_start t + of_nat (off t r k)"
  have lst: "?h * (2 * cols t) + 2 * (1 * cols t) = screen_size t" by (rule last_row [OF g])
  have c4: "video_mem_start t + of_nat (2 * (?h * cols t)) = video_mem_start t + of_nat (?h * (2 * cols t))"
    by (simp add: ac_simps)
  have bot: "(\<exists>i<cols t. ?a = video_mem_start t + of_nat (2 * (?h * cols t)) + of_nat (2 * i)) \<longleftrightarrow> r + 1 = lns t"
    using run_iff [OF g', of r k ?h 1] rk lst unfolding same c4 by auto
  have "0 * (2 * cols t) + 2 * (?h * cols t) \<le> screen_size t" using lst by simp
  then have mid: "(\<exists>i<?h * cols t. ?a = video_mem_start t + of_nat (2 * i)) \<longleftrightarrow> r < ?h"
    using run_iff [OF g', of r k 0 ?h] rk unfolding same by simp
  have nx: "?a + of_nat ?d = origin t + of_nat (off t (r + 1) k)"
  proof -
    have "?a + of_nat ?d = (video_mem_start t + of_nat ?d) + of_nat (off t r k)" by (simp only: ac_simps)
    also have "\<dots> = origin t + video_size_row t + of_nat (off t r k)" using rewind_vram(2) [OF g] by simp
    also have "\<dots> = origin t + of_nat (off t (r + 1) k)" using g by (simp add: geom_ok_def off_def algebra_simps)
    finally show ?thesis .
  qed
  have "cell ?t r k = (if r + 1 = lns t then video_erase_char t else if r < ?h then cell t (r + 1) k else vram t ?a)"
    unfolding cell_def same rewind_vram(1) [OF g] two bot mid nx ..
  then show "cell ?t r k = (if r + 1 < lns t then cell t (r + 1) k else video_erase_char t)"
    using rk(1) by auto
qed

lemma scrup_step: "con_step scrup"
proof (rule con_stepI)
  fix t assume c: "con_ok t"
  then have g: "geom_ok t" by (simp add: con_ok_def)
  show "con_ok (scrup t) \<and> confined t (scrup t)"
  proof (cases rule: scrup_cases [of t])
    case hard
    then show ?thesis using slide_geom [OF g hard(3)] c by auto
  next
    case wrap
    then show ?thesis using rewind_geom [OF g] c by auto
  next
    case soft
    then show ?thesis using scroll_copy_confined [OF g] scroll_copy_vram(2) [OF g] c
      by (metis con_ok_vram)
  qed
qed

lemma scrup_scrolls:
  assumes g: "geom_ok t" and ev: "even (cols t)"
  shows "scrolled_up t (scrup t)"
proof (cases rule: scrup_cases [of t])
  case hard
  then show ?thesis using slide_scrolls [OF g hard(3,1,2)] by auto
next
  case wrap
  then show ?thesis using rewind_scrolls [OF g ev wrap(1,2)] by auto
next
  case soft
  then show ?thesis using scroll_copy_scrolls [OF g ev] by simp
qed

lemma down_run:
  fixes a e :: u32
  shows "(\<exists>i<m. a = e - 2 - of_nat (2 * i)) \<longleftrightarrow> (\<exists>j<m. a = e - of_nat (2 * m) + of_nat (2 * j))"
proof -
  have eq: "e - 2 - of_nat (2 * i) = e - of_nat (2 * m) + of_nat (2 * (m - 1 - i))" if "i < m" for i
  proof -
    have "2 * m = 2 + 2 * i + 2 * (m - 1 - i)" using that by simp
    then have "(of_nat (2 * m) :: u32) = 2 + of_nat (2 * i) + of_nat (2 * (m - 1 - i))"
      by (metis of_nat_add of_nat_numeral)
    then show ?thesis by simp
  qed
  show ?thesis
  proof
    assume "\<exists>i<m. a = e - 2 - of_nat (2 * i)"
    then obtain i where "i < m" "a = e - 2 - of_nat (2 * i)" by blast
    then show "\<exists>j<m. a = e - of_nat (2 * m) + of_nat (2 * j)"
      using eq [of i] by (intro exI [of _ "m - 1 - i"]) simp
  next
    assume "\<exists>j<m. a = e - of_nat (2 * m) + of_nat (2 * j)"
    then obtain j where "j < m" "a = e - of_nat (2 * m) + of_nat (2 * j)" by blast
    then show "\<exists>i<m. a = e - 2 - of_nat (2 * i)"
      using eq [of "m - 1 - j"] by (intro exI [of _ "m - 1 - j"]) simp
  qed
qed

lemma scrdown_vram:
  assumes g: "geom_ok t"
  defines "n \<equiv> height t * cols t div 2"
    and "k \<equiv> unat (con_bottom t) * (2 * cols t) - 4 * (height t * cols t div 2)"
  shows "vram (scrdown t) a =
    (if \<exists>i<cols t. a = origin t + of_nat (k - 2 * cols t) + of_nat (2 * i) then video_erase_char t
     else if \<exists>i<2 * n. a = origin t + of_nat k + of_nat (2 * i) then vram t (a - of_nat (2 * cols t)) else vram t a)"
    "scrdown t = t\<lparr>vram := vram (scrdown t)\<rparr>"
    "2 * cols t \<le> k" "k + 4 * n \<le> screen_size t"
proof -
  let ?b = "unat (con_bottom t) * (2 * cols t)"
  have n: "unat (drop_bit 1 ((con_bottom t - con_top t - 1) * video_num_columns t)) = n"
    by (simp add: unat_drop_div rect_word(1) [OF g] n_def)
  have "2 * n \<le> height t * cols t" unfolding n_def by (rule times_div_less_eq_dividend)
  then have n4: "4 * n \<le> 2 * (height t * cols t)" by linarith
  have tb: "unat (con_top t) < unat (con_bottom t)" "unat (con_bottom t) \<le> lns t" using g by (auto simp: geom_ok_def)
  have bs: "?b \<le> screen_size t" unfolding screen_size_def using tb(2) by (rule mult_le_mono1)
  have "Suc (height t) * (2 * cols t) \<le> ?b" using tb(1) by (intro mult_le_mono1) simp
  then have hb: "2 * (height t * cols t) + 2 * cols t \<le> ?b" by (simp add: algebra_simps)
  have kn: "k + 4 * n = ?b" using hb n4 unfolding k_def n_def by linarith
  show "k + 4 * n \<le> screen_size t" using kn bs by simp
  show k2: "2 * cols t \<le> k" using kn hb n4 by linarith
  have e: "origin t + of_nat k = origin t + of_nat ?b - of_nat (4 * n)"
    unfolding kn [symmetric] by simp
  have e2: "origin t + of_nat (k - 2 * cols t) = origin t + of_nat ?b - of_nat (4 * n) - of_nat (2 * cols t)"
    using e k2 by (simp add: of_nat_diff)
  have b: "origin t + video_size_row t * con_bottom t - 4 = origin t + of_nat ?b - 4"
    "origin t + video_size_row t * (con_bottom t - 1) - 4 = origin t + of_nat ?b - 4 - of_nat (2 * cols t)"
    using g by (simp_all add: geom_ok_def algebra_simps)
  have "4 * n + 2 * cols t + 4 < 4294967296"
    using n4 hb bs size_bound [OF g] by linarith
  note mv = movsl_down_eq [OF this]
  have f: "origin t + of_nat ?b - 4 - 4 * of_nat n + 2 = (origin t + of_nat ?b - of_nat (4 * n)) - 2"
    "origin t + of_nat ?b - 4 + 2 = (origin t + of_nat ?b) - 2"
    by (simp_all add: algebra_simps)
  have "vram (scrdown t) a = stosw_down (cols t) (origin t + of_nat ?b - of_nat (4 * n) - 2) (video_erase_char t)
      (movsl_down n (origin t + of_nat ?b - 4 - of_nat (2 * cols t)) (origin t + of_nat ?b - 4) (vram t)) a"
    unfolding scrdown_def Let_def n b f by simp
  then have v: "vram (scrdown t) a =
    (if \<exists>i<cols t. a = origin t + of_nat ?b - of_nat (4 * n) - 2 - of_nat (2 * i) then video_erase_char t
     else if \<exists>i<2 * n. a = origin t + of_nat ?b - 2 - of_nat (2 * i) then vram t (a - of_nat (2 * cols t)) else vram t a)"
    unfolding stosw_down_eq mv f .
  have f2: "2 * (2 * n) = 4 * n" by simp
  show "vram (scrdown t) a =
    (if \<exists>i<cols t. a = origin t + of_nat (k - 2 * cols t) + of_nat (2 * i) then video_erase_char t
     else if \<exists>i<2 * n. a = origin t + of_nat k + of_nat (2 * i) then vram t (a - of_nat (2 * cols t)) else vram t a)"
    using v unfolding down_run e e2 f2 .
  show "scrdown t = t\<lparr>vram := vram (scrdown t)\<rparr>" by (simp add: scrdown_def Let_def)
qed

lemma scrdown_step: "con_step scrdown"
proof (rule con_stepI)
  fix t assume c: "con_ok t"
  then have g: "geom_ok t" by (simp add: con_ok_def)
  let ?n = "height t * cols t div 2"
  let ?k = "unat (con_bottom t) * (2 * cols t) - 4 * ?n"
  note v = scrdown_vram [OF g]
  have "confined t (scrdown t)"
  proof (subst v(2), rule confined_vram)
    fix a assume a: "\<not> in_mem t a"
    have w: "a \<noteq> origin t + of_nat j" if "j < ?k + 4 * ?n" for j
      using on_screen(2) [OF g, of j] a v(4) that by auto
    have "a \<noteq> origin t + of_nat (?k - 2 * cols t) + of_nat (2 * i)" if "i < cols t" for i
      using w [of "?k - 2 * cols t + 2 * i"] that v(3) by (simp only: of_nat_add add.assoc) linarith
    moreover have "a \<noteq> origin t + of_nat ?k + of_nat (2 * i)" if "i < 2 * ?n" for i
    proof -
      have "?k + 2 * i < ?k + 4 * ?n" using that by linarith
      from w [OF this] show ?thesis by (simp only: of_nat_add add.assoc not_False_eq_True)
    qed
    ultimately show "vram (scrdown t) a = vram t a" unfolding v(1) by auto
  qed
  then show "con_ok (scrdown t) \<and> confined t (scrdown t)" using v(2) c by (metis con_ok_vram)
qed

section \<open>The other operations\<close>

lemma unat_1 [simp]: "unat (1 :: u32) = 1"
  by simp

lemma gotoxy_step: "con_step (gotoxy u v)"
  by (auto simp: con_step_def gotoxy_def con_ok_def geom_ok_def screen_size_def off_def confined_def same_display_def
      word_le_nat_alt word_less_nat_alt push_bit_eq_mult algebra_simps)

lemma lf_step: "con_step lf"
proof (rule con_stepI)
  fix t assume c: "con_ok t"
  show "con_ok (lf t) \<and> confined t (lf t)"
  proof (cases "con_y t + 1 < con_bottom t")
    case True
    have b: "unat (con_y t) < lns t" "unat (con_bottom t) \<le> lns t" using c by (auto simp: con_ok_def geom_ok_def)
    then have "unat (con_y t) + 1 < 4294967296" using unat_u32 [of "video_num_lines t"] by simp
    then have "unat (con_y t + 1) = unat (con_y t) + 1" by (simp add: unat_word_ariths)
    then show ?thesis using c True b
      by (auto simp: lf_def con_ok_def geom_ok_def screen_size_def off_def confined_def same_display_def word_less_nat_alt algebra_simps)
  next
    case False
    then show ?thesis using con_stepD [OF scrup_step c] by (simp add: lf_def)
  qed
qed

lemma ri_step: "con_step ri"
proof (rule con_stepI)
  fix t assume c: "con_ok t"
  show "con_ok (ri t) \<and> confined t (ri t)"
  proof (cases "con_y t > con_top t")
    case True
    then have "con_y t \<noteq> 0" by auto
    then have y: "unat (con_y t - 1) = unat (con_y t) - 1" "0 < unat (con_y t)" by (simp_all add: unat_minus_one unat_gt_0)
    have "off t (unat (con_y t)) k = off t (unat (con_y t) - 1) k + 2 * cols t" for k
      using y(2) by (cases "unat (con_y t)") (simp_all add: off_def)
    then show ?thesis using c True y
      by (auto simp: ri_def con_ok_def geom_ok_def screen_size_def confined_def same_display_def algebra_simps)
         (simp add: off_def)
  next
    case False
    then show ?thesis using con_stepD [OF scrdown_step c] by (simp add: ri_def)
  qed
qed

lemma cr_step: "con_step cr"
  by (auto simp: con_step_def cr_def con_ok_def geom_ok_def screen_size_def off_def confined_def same_display_def push_bit_eq_mult)

lemma con_ok_geom: "con_ok t \<Longrightarrow> geom_ok t"
  by (simp add: con_ok_def)

lemma erase_ok:
  assumes "con_ok t" "start = origin t + of_nat k" "k + 2 * unat count \<le> screen_size t"
  shows "con_ok (erase count start t) \<and> confined t (erase count start t)"
  using stosw_confined [OF con_ok_geom [OF assms(1)] assms(3)] assms(1,2)
  by (auto simp: erase_def intro: confined_vram)

lemma cursor_row:
  assumes "con_ok t"
  shows "off t (unat (con_y t)) (cols t) \<le> screen_size t" "off t (unat (con_y t)) 0 + 2 * cols t \<le> screen_size t"
    "con_pos t - push_bit 1 (con_x t) = origin t + of_nat (off t (unat (con_y t)) 0)"
    "off t (unat (con_y t)) (unat (con_x t)) \<le> off t (unat (con_y t)) (cols t)"
proof -
  have "Suc (unat (con_y t)) * (2 * cols t) \<le> screen_size t"
    unfolding screen_size_def using assms by (intro mult_le_mono1) (simp add: con_ok_def)
  then show "off t (unat (con_y t)) (cols t) \<le> screen_size t" "off t (unat (con_y t)) 0 + 2 * cols t \<le> screen_size t"
    by (simp_all add: off_def)
  show "con_pos t - push_bit 1 (con_x t) = origin t + of_nat (off t (unat (con_y t)) 0)"
    using assms by (simp add: con_ok_def off_def push_bit_eq_mult)
  show "off t (unat (con_y t)) (unat (con_x t)) \<le> off t (unat (con_y t)) (cols t)"
    using assms by (simp add: con_ok_def off_def)
qed

lemma csi_J_step: "con_step (csi_J p)"
proof (rule con_stepI)
  fix t assume c: "con_ok t"
  let ?o = "off t (unat (con_y t)) (unat (con_x t))"
  have o: "?o \<le> screen_size t" "?o < 4294967296"
    using cursor_row [OF c] size_bound [OF con_ok_geom [OF c]] by linarith+
  have pos: "con_pos t = origin t + of_nat ?o" using c by (simp add: con_ok_def)
  have "scr_end t - con_pos t = of_nat (screen_size t - ?o)"
    using pos o(1) con_ok_geom [OF c] by (simp add: geom_ok_def of_nat_diff)
  then have u: "unat (drop_bit 1 (scr_end t - con_pos t)) = (screen_size t - ?o) div 2"
    using size_bound [OF con_ok_geom [OF c]] by (simp add: unat_drop_div unat_of_nat)
  have u2: "unat (drop_bit 1 (con_pos t - origin t)) = ?o div 2"
    unfolding pos using o(2) by (simp add: unat_drop_div unat_of_nat)
  have "unat (video_num_columns t * video_num_lines t) = cols t * lns t"
    using size_bound [OF con_ok_geom [OF c]] unfolding screen_size_def unat_word_ariths by (simp add: mult.commute)
  then have "0 + 2 * unat (video_num_columns t * video_num_lines t) \<le> screen_size t"
    by (simp add: screen_size_def mult.commute)
  moreover have "?o + 2 * unat (drop_bit 1 (scr_end t - con_pos t)) \<le> screen_size t"
    "0 + 2 * unat (drop_bit 1 (con_pos t - origin t)) \<le> screen_size t"
    unfolding u u2 using o(1) by linarith+
  ultimately show "con_ok (csi_J p t) \<and> confined t (csi_J p t)"
    using erase_ok [OF c pos] erase_ok [OF c, of "origin t" 0] c by (simp add: csi_J_def)
qed

lemma csi_K_step: "con_step (csi_K p)"
proof (rule con_stepI)
  fix t assume c: "con_ok t"
  let ?o = "off t (unat (con_y t)) (unat (con_x t))"
  note r = cursor_row [OF c]
  have pos: "con_pos t = origin t + of_nat ?o" using c by (simp add: con_ok_def)
  have "?o + 2 * unat (video_num_columns t - con_x t) \<le> screen_size t" if "\<not> con_x t \<ge> video_num_columns t"
    using that r(1) c by (simp add: off_def unat_sub word_le_nat_alt con_ok_def)
  moreover have "off t (unat (con_y t)) 0 + 2 * unat (if con_x t < video_num_columns t then con_x t else video_num_columns t)
      \<le> screen_size t"
    using r(2) c by (auto simp: con_ok_def)
  ultimately show "con_ok (csi_K p t) \<and> confined t (csi_K p t)"
    using erase_ok [OF c pos] erase_ok [OF c r(3)] r(2) c by (simp add: csi_K_def)
qed

lemma row_write:
  assumes c: "con_ok t" and "k \<le> cols t - unat (con_x t)"
    and m: "\<And>a. (\<And>i. i < k \<Longrightarrow> a \<noteq> con_pos t + of_nat (2 * i)) \<Longrightarrow> m a = vram t a"
  shows "con_ok (t\<lparr>vram := m\<rparr>) \<and> confined t (t\<lparr>vram := m\<rparr>)"
proof -
  have "m a = vram t a" if a: "\<not> in_mem t a" for a
  proof (rule m)
    fix i assume i: "i < k"
    let ?o = "off t (unat (con_y t)) (unat (con_x t)) + 2 * i"
    have "?o < screen_size t" using i assms(2) cursor_row(1) [OF c] by (simp add: off_def)
    then have "in_mem t (con_pos t + of_nat (2 * i))"
      using on_screen(2) [OF con_ok_geom [OF c], of ?o] c by (simp add: con_ok_def add.assoc)
    then show "a \<noteq> con_pos t + of_nat (2 * i)" using a by auto
  qed
  then show ?thesis using c by (auto intro: confined_vram)
qed

lemma insert_char_step: "con_step insert_char"
  unfolding con_step_def insert_char_def
  by (intro allI impI row_write [OF _ order_refl] shift_right_only)

lemma delete_char_step: "con_step delete_char"
proof (rule con_stepI)
  fix t assume c: "con_ok t"
  show "con_ok (delete_char t) \<and> confined t (delete_char t)"
  proof (cases "con_x t \<ge> video_num_columns t")
    case False
    then have x: "unat (con_x t) < cols t" by (simp add: word_le_nat_alt)
    let ?m = "shift_left (cols t - unat (con_x t) - 1) (con_pos t) (video_erase_char t) (vram t)"
    have n: "Suc (cols t - unat (con_x t) - 1) = cols t - unat (con_x t)" using x by simp
    have "con_ok (t\<lparr>vram := ?m\<rparr>) \<and> confined t (t\<lparr>vram := ?m\<rparr>)"
      by (rule row_write [OF c order_refl], rule shift_left_only) (simp only: n not_False_eq_True)
    then show ?thesis using False by (simp add: delete_char_def)
  qed (use c in \<open>simp add: delete_char_def\<close>)
qed

lemma del_step: "con_step del"
proof (rule con_stepI)
  fix t assume c: "con_ok t"
  show "con_ok (del t) \<and> confined t (del t)"
  proof (cases "con_x t = 0")
    case False
    then have x: "unat (con_x t - 1) = unat (con_x t) - 1" "0 < unat (con_x t)" by (simp_all add: unat_minus_one unat_gt_0)
    let ?o = "off t (unat (con_y t)) (unat (con_x t) - 1)"
    have o: "off t (unat (con_y t)) (unat (con_x t)) = ?o + 2" using x(2) by (simp add: off_def)
    have p: "con_pos t - 2 = origin t + of_nat ?o" using c o by (simp add: con_ok_def)
    have "?o < screen_size t" using o cursor_row(1,4) [OF c] by linarith
    then have "in_mem t (con_pos t - 2)" using on_screen(2) [OF con_ok_geom [OF c]] p by simp
    moreover have "con_ok (del t)"
      using c False x p by (auto simp: del_def con_ok_def geom_ok_def screen_size_def) (simp add: off_def)
    ultimately show ?thesis using False by (auto simp: del_def confined_def same_display_def)
  qed (use c in \<open>simp add: del_def\<close>)
qed

lemma region_ok:
  "con_ok t \<Longrightarrow> unat u < unat v \<Longrightarrow> unat v \<le> lns t \<Longrightarrow>
     con_ok (t\<lparr>con_top := u, con_bottom := v\<rparr>) \<and> confined t (t\<lparr>con_top := u, con_bottom := v\<rparr>)"
  by (auto simp: con_ok_def geom_ok_def screen_size_def off_def confined_def same_display_def)

lemma with_region:
  assumes f: "con_step f" and keep: "\<And>t. con_ok t \<Longrightarrow> con_top (f t) = con_top t \<and> con_bottom (f t) = con_bottom t"
  shows "con_step (\<lambda>t. (f (t\<lparr>con_top := con_y t, con_bottom := video_num_lines t\<rparr>))
    \<lparr>con_top := con_top t, con_bottom := con_bottom t\<rparr>)"
proof (rule con_stepI)
  fix t assume c: "con_ok t"
  let ?t1 = "t\<lparr>con_top := con_y t, con_bottom := video_num_lines t\<rparr>"
  let ?t2 = "f ?t1"
  have 1: "con_ok ?t1 \<and> confined t ?t1" by (rule region_ok [OF c]) (use c in \<open>auto simp: con_ok_def\<close>)
  then have 2: "con_ok ?t2" "confined ?t1 ?t2" using con_stepD [OF f] by blast+
  have l: "lns ?t2 = lns t" using 2(2) by (simp add: confined_def same_display_def)
  have "con_ok (?t2\<lparr>con_top := con_top t, con_bottom := con_bottom t\<rparr>) \<and>
      confined ?t2 (?t2\<lparr>con_top := con_top t, con_bottom := con_bottom t\<rparr>)"
    by (rule region_ok [OF 2(1)]) (use c l in \<open>auto simp: con_ok_def geom_ok_def\<close>)
  then show "con_ok (?t2\<lparr>con_top := con_top t, con_bottom := con_bottom t\<rparr>) \<and>
      confined t (?t2\<lparr>con_top := con_top t, con_bottom := con_bottom t\<rparr>)"
    using 1 2 confined_trans by blast
qed

lemma insert_line_step: "con_step insert_line"
  unfolding insert_line_def [abs_def]
  by (rule with_region [OF scrdown_step]) (simp add: scrdown_def Let_def)

lemma delete_line_step: "con_step delete_line"
  unfolding delete_line_def [abs_def]
  by (rule with_region [OF scrup_step])
     (simp add: scrup_def scroll_copy_def set_origin_def vout_def Let_def)

lemma csi_line_steps: "con_step (csi_at nr)" "con_step (csi_L nr)" "con_step (csi_P nr)" "con_step (csi_M nr)"
  unfolding csi_at_def [abs_def] csi_L_def [abs_def] csi_P_def [abs_def] csi_M_def [abs_def]
  by (intro con_step_funpow insert_char_step insert_line_step delete_char_step delete_line_step)+

lemma csi_m_step: "con_step csi_m"
  by (simp add: con_step_def csi_m_def con_ok_def geom_ok_def screen_size_def off_def confined_def same_display_def)

lemma save_cur_step: "con_step save_cur"
  by (simp add: con_step_def save_cur_def con_ok_def geom_ok_def screen_size_def off_def confined_def same_display_def)

lemma restore_cur_step: "con_step restore_cur"
  using gotoxy_step by (simp add: con_step_def restore_cur_def)

lemma set_cursor_step: "con_step set_cursor"
proof (rule con_stepI)
  fix t assume c: "con_ok t"
  have "\<exists>ps. set_cursor t = t\<lparr>con_ports := ps\<rparr>"
    by (rule exI [of _ "con_ports (set_cursor t)"]) (simp add: set_cursor_def vout_def)
  then show "con_ok (set_cursor t) \<and> confined t (set_cursor t)" using c by auto
qed

lemmas con_steps = scrup_step scrdown_step gotoxy_step lf_step ri_step cr_step csi_J_step csi_K_step
  csi_line_steps csi_m_step save_cur_step restore_cur_step set_cursor_step del_step con_step_id

end
