(* ===== verification/Tty_Props.thy ===== *)
theory Tty_Props
  imports Tty Console_Props
begin

unbundle bit_operations_syntax

text \<open>
  Console output stays inside video memory whatever is written, scrolling does
  the same on every adapter, and printable text appears where the cursor is.
\<close>

section \<open>Every character keeps the console in order\<close>

lemma field_steps:
  "con_step (\<lambda>t. t\<lparr>con_state := v\<rparr>)" "con_step (\<lambda>t. t\<lparr>con_par := p t\<rparr>)" "con_step (\<lambda>t. t\<lparr>con_ques := q\<rparr>)"
  by (simp_all add: con_step_def con_ok_def geom_ok_def screen_size_def off_def confined_def same_display_def)

lemma con_step_at: "(\<And>u. con_step (f u)) \<Longrightarrow> con_step (\<lambda>t. f (g t) t)"
  by (simp add: con_step_def)

lemma con_step_at2: "(\<And>u v. con_step (f u v)) \<Longrightarrow> con_step (\<lambda>t. f (g t) (h t) t)"
  by (simp add: con_step_def)

lemma par_steps: "con_step (par_dec i)" "con_step par_min1"
  unfolding par_dec_def [abs_def] par_min1_def [abs_def]
  by (intro con_step_if field_steps con_step_id)+

lemma csi_r_step: "con_step csi_r"
proof (rule con_stepI)
  fix t assume c: "con_ok t"
  define fill where "fill u = (if con_par u 1 = 0 then u\<lparr>con_par := (con_par u)(1 := video_num_lines u)\<rparr> else u)"
    for u :: console
  define u where "u = fill (par_dec 0 t)"
  have e: "csi_r t = (if con_par u 0 < con_par u 1 \<and> con_par u 1 \<le> video_num_lines u
      then u\<lparr>con_top := con_par u 0, con_bottom := con_par u 1\<rparr> else u)"
    unfolding csi_r_def Let_def u_def fill_def ..
  have "con_step fill"
    unfolding fill_def [abs_def] by (intro con_step_if field_steps con_step_id)
  then have 2: "con_ok u \<and> confined t u"
    unfolding u_def using con_stepD [OF par_steps(1) c, of 0] con_stepD confined_trans by blast
  then show "con_ok (csi_r t) \<and> confined t (csi_r t)"
    unfolding e using region_ok [of u "con_par u 0" "con_par u 1"] confined_trans
    by (auto simp: word_less_nat_alt word_le_nat_alt)
qed

lemma goto_steps:
  "con_step f \<Longrightarrow> con_step (\<lambda>t. let t = f t in gotoxy (g t) (h t) t)"
  unfolding Let_def by (rule con_step_comp [of "\<lambda>t. gotoxy (g t) (h t) t"]) (rule con_step_at2, rule gotoxy_step)

lemma con_csi_step: "con_step (con_csi b)"
  unfolding con_csi_def [abs_def] Let_def [of "of_char"]
  by (intro con_step_if goto_steps par_steps con_step_comp [of "par_dec 1"] con_steps csi_r_step
      con_step_at [of csi_J] con_step_at [of csi_K] con_step_at [of csi_L] con_step_at [of csi_M]
      con_step_at [of csi_P] con_step_at [of csi_at])

lemma con_params_step: "con_step (con_params b)"
proof (rule con_stepI)
  fix t assume c: "con_ok t"
  have "con_ok (con_csi b (t\<lparr>con_state := 0\<rparr>)) \<and> confined t (con_csi b (t\<lparr>con_state := 0\<rparr>))"
    using con_stepD [OF con_step_comp [OF con_csi_step field_steps(1)] c] by simp
  then show "con_ok (con_params b t) \<and> confined t (con_params b t)"
    using c by (auto simp: con_params_def Let_def con_ok_def geom_ok_def screen_size_def off_def confined_def same_display_def)
qed

lemma con_bracket_step: "con_step (con_bracket b)"
proof (rule con_stepI)
  fix t assume c: "con_ok t"
  define u where "u = t\<lparr>con_par := (\<lambda>i. if i < NPAR then 0 else con_par t i), con_npar := 0, con_state := 3,
                 con_ques := of_bool (b = of_char CHR ''?'')\<rparr>"
  have "con_ok u \<and> confined t u"
    using c by (simp add: u_def con_ok_def geom_ok_def screen_size_def off_def confined_def same_display_def)
  moreover have "con_bracket b t = (if b = of_char CHR ''?'' then u else con_params b u)"
    unfolding con_bracket_def Let_def u_def ..
  ultimately show "con_ok (con_bracket b t) \<and> confined t (con_bracket b t)"
    using con_stepD [OF con_params_step] confined_trans by metis
qed

lemma put_cell_ok:
  assumes c: "con_ok t" and x: "con_x t < video_num_columns t"
  shows "con_ok (put_cell b t) \<and> confined t (put_cell b t)"
proof -
  have lt: "unat (con_x t) < cols t" using x by (simp add: word_less_nat_alt)
  then have "unat (con_x t) + 1 < 4294967296" using unat_u32 [of "video_num_columns t"] by simp
  then have x1: "unat (con_x t + 1) = unat (con_x t) + 1" by (simp add: unat_word_ariths)
  have "off t (unat (con_y t)) (unat (con_x t)) < screen_size t"
    using lt c by (intro off_less) (simp_all add: con_ok_def)
  then have "in_mem t (con_pos t)" using on_screen(2) [OF con_ok_geom [OF c]] c by (simp add: con_ok_def)
  moreover have "con_ok (put_cell b t)"
    using c lt x1 by (auto simp: put_cell_def con_ok_def geom_ok_def screen_size_def off_def)
  ultimately show ?thesis by (auto simp: put_cell_def confined_def same_display_def)
qed

text \<open>The state between the move past the last column and the line feed: the column counts on from \<open>cols\<close>.\<close>

lemma wrap_line_ok:
  assumes g: "geom_ok t" and y: "unat (con_y t) < lns t"
    and x: "cols t \<le> unat (con_x t)" "unat (con_x t) \<le> 2 * cols t"
    and p: "con_pos t = origin t + of_nat (off t (unat (con_y t)) (unat (con_x t)))"
  shows "con_ok (wrap_line t) \<and> confined t (wrap_line t)"
proof -
  let ?u = "t\<lparr>con_x := con_x t - video_num_columns t, con_pos := con_pos t - video_size_row t\<rparr>"
  have x1: "unat (con_x t - video_num_columns t) = unat (con_x t) - cols t"
    using x(1) by (simp add: unat_sub word_le_nat_alt)
  have "off t (unat (con_y t)) (unat (con_x t)) = off t (unat (con_y t)) (unat (con_x t) - cols t) + 2 * cols t"
    using x(1) by (simp add: off_def)
  then have "con_pos t - video_size_row t = origin t + of_nat (off t (unat (con_y t)) (unat (con_x t) - cols t))"
    using p g by (simp add: geom_ok_def)
  then have u: "con_ok ?u"
    using g y x x1 by (simp add: con_ok_def geom_ok_def screen_size_def off_def)
  moreover have "confined t ?u" by (simp add: confined_def same_display_def)
  ultimately show ?thesis
    unfolding wrap_line_def using con_stepD [OF lf_step u] confined_trans by blast
qed

lemma wrap_step:
  assumes c: "con_ok t" and x: "\<not> con_x t < video_num_columns t"
  shows "con_ok (wrap_line t) \<and> confined t (wrap_line t) \<and> con_x (wrap_line t) = 0"
proof -
  have e: "con_x t = video_num_columns t"
    using c x by (intro antisym) (simp_all add: con_ok_def word_le_nat_alt linorder_not_less [symmetric] word_less_nat_alt)
  have "con_ok (wrap_line t) \<and> confined t (wrap_line t)"
    by (rule wrap_line_ok) (use c e in \<open>auto simp: con_ok_def\<close>)
  moreover have "con_x (wrap_line t) = 0"
    using e by (simp add: wrap_line_def lf_def scrup_def scroll_copy_def set_origin_def vout_def Let_def)
  ultimately show ?thesis by simp
qed

lemma con_tab_step: "con_step con_tab"
proof (rule con_stepI)
  fix t assume c: "con_ok t"
  define k where "k = 8 - unat (con_x t) mod 8"
  have k: "1 \<le> k" "k \<le> 8" by (simp_all add: k_def)
  have "unat (con_x t AND 7) = unat (con_x t) mod 8"
  proof -
    have "con_x t AND 7 = take_bit 3 (con_x t)" by (simp add: take_bit_eq_mask mask_eq_exp_minus_1)
    then have "unat (con_x t AND 7) = take_bit 3 (unat (con_x t))" by (simp only: unsigned_take_bit_eq)
    then show ?thesis by (simp add: take_bit_eq_mod)
  qed
  then have "unat (8 - (con_x t AND 7)) = k"
    by (simp add: unat_sub word_le_nat_alt k_def)
  then have ck: "8 - (con_x t AND 7) = (of_nat k :: u32)" by (metis of_nat_unat ucast_id)
  have cb: "8 \<le> cols t" "2 * cols t \<le> 0x100000" "unat (con_x t) \<le> cols t"
    using c row_bound [OF con_ok_geom [OF c]] size_bound [OF con_ok_geom [OF c]] by (auto simp: con_ok_def geom_ok_def)
  define u where "u = t\<lparr>con_x := con_x t + of_nat k, con_pos := con_pos t + push_bit 1 (of_nat k)\<rparr>"
  have xu: "unat (con_x u) = unat (con_x t) + k"
    using cb k by (simp add: u_def unat_word_ariths unat_of_nat)
  have pu: "con_pos u = origin u + of_nat (off u (unat (con_y u)) (unat (con_x u)))"
    unfolding xu using c by (simp add: u_def con_ok_def off_def push_bit_eq_mult algebra_simps)
  have gu: "geom_ok u" "unat (con_y u) < lns u" "confined t u" "cols u = cols t"
    using c by (auto simp: u_def con_ok_def geom_ok_def screen_size_def confined_def same_display_def)
  have e: "con_tab t = (if con_x u > video_num_columns u then wrap_line u else u)"
    by (simp add: con_tab_def Let_def ck u_def)
  show "con_ok (con_tab t) \<and> confined t (con_tab t)"
  proof (cases "con_x u > video_num_columns u")
    case True
    then have "con_ok (wrap_line u) \<and> confined u (wrap_line u)"
      by (intro wrap_line_ok gu pu) (use xu cb k gu in \<open>auto simp: word_less_nat_alt\<close>)
    then show ?thesis using e True gu(3) confined_trans by auto
  next
    case False
    then have "con_ok u" using gu pu by (simp add: con_ok_def word_less_nat_alt)
    then show ?thesis using e False gu(3) by simp
  qed
qed

section \<open>The terminal layer around the console\<close>

text \<open>The console after a path, relative to the console before it.\<close>

definition con_good :: "console \<Rightarrow> 'z chr_scheme \<Rightarrow> bool" where
  "con_good t s \<longleftrightarrow> con_ok (con s) \<and> confined t (con s)"

lemma con_good_start: "con_ok (con s) \<Longrightarrow> con_good (con s) s"
  by (simp add: con_good_def)

lemma con_good_upd: "con_good t s \<Longrightarrow> con_step f \<Longrightarrow> con_good t (upd_con f s)"
  by (auto simp: con_good_def upd_con_def con_step_def intro: confined_trans)

lemma con_keeps [simp]:
  "con (upd_tty n f s) = con s" "con (put_write n c s) = con s" "con (sysbeep s) = con s" "con (outb v p s) = con s"
  "con (rs_write n s) = con s" "con (upd_task q g s) = con s" "con (wake_up get s) = con s"
  "con (s\<lparr>cr_flag := r\<rparr>) = con s"
  by (simp_all add: upd_tty_def put_write_def sysbeep_def outb_def rs_write_def upd_task_def wake_up_def Let_def)

lemma con_tty_intr [simp]: "con (tty_intr n m s) = con s"
proof -
  have "con (fold (tty_intr_one g m) xs s) = con s" for g xs and s :: "'a chr_scheme"
    by (induction xs arbitrary: s) (simp_all add: tty_intr_one_def)
  then show ?thesis by (simp add: tty_intr_def Let_def)
qed

lemma con_good_other: "con s' = con s \<Longrightarrow> con_good t s' = con_good t s"
  by (simp add: con_good_def)

lemma con_plain_good: "con_good t s \<Longrightarrow> con_good t (con_plain n b s)"
proof -
  assume g: "con_good t s"
  have cell: "con_step (\<lambda>t. put_cell b (if con_x t \<ge> video_num_columns t then wrap_line t else t))"
  proof (rule con_stepI)
    fix u assume c: "con_ok u"
    show "con_ok (put_cell b (if con_x u \<ge> video_num_columns u then wrap_line u else u)) \<and>
        confined u (put_cell b (if con_x u \<ge> video_num_columns u then wrap_line u else u))"
    proof (cases "con_x u < video_num_columns u")
      case True
      then show ?thesis using put_cell_ok [OF c True] by (simp add: linorder_not_less [symmetric])
    next
      case False
      note w = wrap_step [OF c False]
      have "8 \<le> cols u" "video_num_columns (wrap_line u) = video_num_columns u"
        using c w by (auto simp: con_ok_def geom_ok_def confined_def same_display_def)
      then have "con_x (wrap_line u) < video_num_columns (wrap_line u)"
        using w by (simp add: word_less_nat_alt)
      then show ?thesis
        using put_cell_ok w False confined_trans by (auto simp: linorder_not_less [symmetric])
    qed
  qed
  have bs: "con_step (\<lambda>t. if con_x t \<noteq> 0 then t\<lparr>con_x := con_x t - 1, con_pos := con_pos t - 2\<rparr> else t)"
  proof (rule con_stepI)
    fix u assume c: "con_ok u"
    have "unat (con_x u - 1) = unat (con_x u) - 1 \<and> 0 < unat (con_x u)" if "con_x u \<noteq> 0"
      using that by (simp add: unat_minus_one unat_gt_0)
    moreover have "off u (unat (con_y u)) (unat (con_x u)) = off u (unat (con_y u)) (unat (con_x u) - 1) + 2"
      if "0 < unat (con_x u)"
      using that by (simp add: off_def)
    ultimately show "con_ok (if con_x u \<noteq> 0 then u\<lparr>con_x := con_x u - 1, con_pos := con_pos u - 2\<rparr> else u) \<and>
        confined u (if con_x u \<noteq> 0 then u\<lparr>con_x := con_x u - 1, con_pos := con_pos u - 2\<rparr> else u)"
      using c by (auto simp: con_ok_def geom_ok_def screen_size_def confined_def same_display_def) (simp add: off_def)
  qed
  show ?thesis
    using con_good_upd [OF g] cell bs con_steps field_steps(1) con_tab_step g
    by (simp add: con_plain_def Let_def con_good_other [of "sysbeep s" s])
qed

lemma con_char_good:
  assumes cooked: "\<And>n s. con_good t s \<Longrightarrow> retains (con_good t) (cooked n s)" and g: "con_good t s"
  shows "retains (con_good t) (con_char cooked n b s)"
proof -
  have 0: "con_good t (upd_con (\<lambda>t. t\<lparr>con_state := v\<rparr>) s)" for v by (rule con_good_upd [OF g field_steps(1)])
  have next_line: "con_step (\<lambda>t. gotoxy 0 (con_y t + 1) t)" by (rule con_step_at, rule gotoxy_step)
  have r: "retains (con_good t) (respond cooked n (upd_con (\<lambda>t. t\<lparr>con_state := 0\<rparr>) s))"
    unfolding respond_def by (rule cooked) (use 0 in \<open>simp add: con_good_other [of "upd_tty _ _ _"]\<close>)
  have "con_good t (upd_con f (upd_con (\<lambda>t. t\<lparr>con_state := 0\<rparr>) s))" if "con_step f" for f
    by (rule con_good_upd [OF 0 that])
  then have esc: "retains (con_good t) (con_esc cooked n b s)"
    using r 0 next_line con_steps field_steps(1) by (simp add: con_esc_def Let_def)
  have csi: "con_step (\<lambda>t. con_csi b (t\<lparr>con_state := 0\<rparr>))"
    by (rule con_step_comp [OF con_csi_step field_steps(1)])
  show ?thesis
    using esc con_plain_good [OF g] con_good_upd [OF g] con_bracket_step con_params_step csi g
    by (simp add: con_char_def Let_def)
qed

lemma con_write_good:
  assumes cooked: "\<And>n s. con_good t s \<Longrightarrow> retains (con_good t) (cooked n s)" and g: "con_good t s"
  shows "retains (con_good t) (con_write cooked n s)"
proof -
  have loop: "con_good t s \<Longrightarrow> retains (con_good t) (con_loop k cooked n s)" for k s
  proof (induction k arbitrary: s)
    case (Suc k)
    have "con_good t (upd_tty n (\<lambda>t. t\<lparr>write_q := q\<rparr>) s)" for q
      using Suc.prems by (simp add: con_good_other [of "upd_tty _ _ _"])
    then show ?case
      using Suc.IH by (auto simp: case_prod_beta Let_def intro!: retains_bindO con_char_good [OF cooked])
  qed simp
  show ?thesis
    unfolding con_write_def
    by (rule retains_bindO [OF loop [OF g]]) (simp add: con_good_upd set_cursor_step)
qed

lemma cook_char_good:
  assumes wr: "\<And>n s. con_good t s \<Longrightarrow> retains (con_good t) (wr n s)" and g: "con_good t s"
  shows "retains (con_good t) (cook_char k wr n c s)"
proof -
  have echo: "con_good t s \<Longrightarrow> retains (con_good t) (echo_erase wr n c s)" for c s
    by (auto simp: echo_erase_def con_good_other [of "put_write _ _ _"] intro!: wr)
  have erl: "con_good t s \<Longrightarrow> retains (con_good t) (erase_last wr n s)" for s
    by (auto simp: erase_last_def con_good_other [of "upd_tty _ _ _"] intro!: retains_bindO echo)
  have kill: "con_good t s \<Longrightarrow> retains (con_good t) (kill_line k wr n s)" for k s
    by (induction k arbitrary: s) (auto intro!: retains_bindO erl)
  have ec: "con_good t s \<Longrightarrow> retains (con_good t) (echo_char wr n c s)" for c s
    by (auto simp: echo_char_def con_good_other [of "put_write _ _ _"] intro!: wr)
  have u: "con_good t (upd_tty n f s)" for f using g by (simp add: con_good_other [of "upd_tty _ _ _"])
  have i: "con_good t (tty_intr n m s)" for m using g by (simp add: con_good_other [of "tty_intr _ _ _"])
  have fin: "con_good t s1 \<Longrightarrow> retains (con_good t) (bindO (echo_char wr n c s1) (\<lambda>_ s. Ret () (upd_tty n f s)))" for s1 f
    by (rule retains_bindO [OF ec]) (simp_all add: con_good_other [of "upd_tty _ _ _"])
  have "con_good t (if b then upd_tty n f s else s)" for b f using u g by simp
  note last = fin [OF this]
  show ?thesis
    unfolding cook_char_def Let_def
    by (simp add: kill [OF g] erl [OF g] g u i last split del: if_split cong: if_cong) (simp add: erl [OF g] kill [OF g] g u i last)
qed

lemma copy_to_cooked_good:
  assumes wr: "\<And>n s. con_good t s \<Longrightarrow> retains (con_good t) (wr n s)" and g: "con_good t s"
  shows "retains (con_good t) (copy_to_cooked wr n s)"
proof -
  have loop: "con_good t s \<Longrightarrow> retains (con_good t) (cooked_loop k wr n s)" for k s
  proof (induction k arbitrary: s)
    case (Suc k)
    have "con_good t (upd_tty n (\<lambda>t. t\<lparr>read_q := q\<rparr>) s)" for q
      using Suc.prems by (simp add: con_good_other [of "upd_tty _ _ _"])
    then show ?case
      using Suc.IH Suc.prems
      by (auto simp: case_prod_beta Let_def split: option.splits intro!: retains_bindO cook_char_good [OF wr])
  qed simp
  show ?thesis
    unfolding copy_to_cooked_def
    by (rule retains_bindO [OF loop [OF g]]) (simp add: con_good_other [of "wake_up _ _"])
qed

lemma tty_out_good: "con_good t s \<Longrightarrow> retains (con_good t) (tty_out d n s)"
  by (induction d arbitrary: n s)
     (auto split: write_fn.splits simp: con_good_other [of "rs_write _ _"] intro!: con_write_good copy_to_cooked_good)

section \<open>What the screen shows\<close>

text \<open>The state \<open>con_init\<close> sets up.\<close>

lemma unat_16: "unat (w :: u16) < 65536"
proof -
  have "unat w < 2 ^ LENGTH(16)" by (rule unsigned_less)
  then show ?thesis by simp
qed

lemma unat_8: "unat (w :: u8) < 256"
proof -
  have "unat w < 2 ^ LENGTH(8)" by (rule unsigned_less)
  then show ?thesis by simp
qed

lemma goto_ok:
  assumes "geom_ok u" "unat a \<le> cols u" "unat r < lns u"
  shows "con_ok (gotoxy a r u)"
  using assms
  by (auto simp: gotoxy_def con_ok_def geom_ok_def screen_size_def off_def word_le_nat_alt word_less_nat_alt
      push_bit_eq_mult algebra_simps)

lemma con_setup_ok:
  assumes "8 \<le> ORIG_VIDEO_COLS b" "ORIG_VIDEO_COLS b \<le> 160" "unat (ORIG_X b) \<le> unat (ORIG_VIDEO_COLS b)"
    "ORIG_Y b < 25" "con_npar t < NPAR"
  shows "con_ok (con_setup b t)"
proof -
  let ?c = "ucast (ORIG_VIDEO_COLS b) :: u32"
  have u: "unat ?c = unat (ORIG_VIDEO_COLS b)" "unat (ucast (ORIG_X b) :: u32) = unat (ORIG_X b)"
    "unat (ucast (ORIG_Y b) :: u32) = unat (ORIG_Y b)"
    using unat_16 [of "ORIG_VIDEO_COLS b"] unat_8 [of "ORIG_X b"] unat_8 [of "ORIG_Y b"]
    by (simp_all add: unsigned_ucast_eq take_bit_nat_eq_self)
  have c: "8 \<le> unat ?c" "unat ?c \<le> 160"
    using assms(1,2) by (simp_all add: word_le_nat_alt u)
  have x: "unat (ucast (ORIG_X b) :: u32) \<le> unat ?c" "unat (ucast (ORIG_Y b) :: u32) < 25"
    using assms(3,4) by (simp_all add: word_less_nat_alt u)
  define u where "u = (t\<lparr>video_num_columns := ?c, video_size_row := ?c * 2, video_num_lines := 25,
    video_page := ucast (ORIG_VIDEO_PAGE b), video_erase_char := 0x0720,
    video_mem_start := (if ORIG_VIDEO_MODE b = 7 then 0xb0000 else 0xb8000),
    video_port_reg := (if ORIG_VIDEO_MODE b = 7 then 0x3b4 else 0x3d4), video_port_val := (if ORIG_VIDEO_MODE b = 7 then 0x3b5 else 0x3d5),
    video_type := (if ORIG_VIDEO_MODE b = 7 then if ORIG_VIDEO_EGA_BX b AND 0xff \<noteq> 0x10 then VIDEO_TYPE_EGAM else VIDEO_TYPE_MDA
                   else if ORIG_VIDEO_EGA_BX b AND 0xff \<noteq> 0x10 then VIDEO_TYPE_EGAC else VIDEO_TYPE_CGA),
    video_mem_end := (if ORIG_VIDEO_MODE b = 7 then if ORIG_VIDEO_EGA_BX b AND 0xff \<noteq> 0x10 then 0xb8000 else 0xb2000
                      else if ORIG_VIDEO_EGA_BX b AND 0xff \<noteq> 0x10 then 0xbc000 else 0xba000),
    vram := put_desc (if ORIG_VIDEO_MODE b = 7 then if ORIG_VIDEO_EGA_BX b AND 0xff \<noteq> 0x10 then ''EGAm'' else ''*MDA''
        else if ORIG_VIDEO_EGA_BX b AND 0xff \<noteq> 0x10 then ''EGAc'' else ''*CGA'')
      ((if ORIG_VIDEO_MODE b = 7 then 0xb0000 else 0xb8000) + ?c * 2 - 8) (vram t),
    origin := (if ORIG_VIDEO_MODE b = 7 then 0xb0000 else 0xb8000),
    scr_end := (if ORIG_VIDEO_MODE b = 7 then 0xb0000 else 0xb8000) + 25 * (?c * 2), con_top := 0, con_bottom := 25\<rparr>)"
  have f: "video_num_columns u = ?c" "video_size_row u = 2 * ?c" "video_num_lines u = 25" "con_top u = 0" "con_bottom u = 25"
    "scr_end u = origin u + of_nat (25 * (2 * unat ?c))" "con_npar u = con_npar t" "video_mem_start u = origin u"
    by (simp_all add: u_def)
  have m: "(origin u, video_mem_end u) \<in> {(0xb0000, 0xb8000), (0xb0000, 0xb2000), (0xb8000, 0xbc000), (0xb8000, 0xba000)}"
    by (simp add: u_def)
  have "25 * (2 * unat ?c) \<le> 8000" using c(2) by simp
  then have "unat (video_mem_end u) \<le> 0x100000 \<and> unat (origin u) + 25 * (2 * unat ?c) \<le> unat (video_mem_end u)"
    using m by (elim insertE) auto
  then have "geom_ok u" unfolding geom_ok_def screen_size_def f using c(1) assms(5) by simp
  moreover have "con_setup b t = gotoxy (ucast (ORIG_X b)) (ucast (ORIG_Y b)) u"
    unfolding con_setup_def Let_def u_def ..
  moreover have "unat (ucast (ORIG_X b) :: u32) \<le> cols u" "unat (ucast (ORIG_Y b) :: u32) < lns u"
    using x by (simp_all add: u_def)
  ultimately show ?thesis by (simp add: goto_ok)
qed

definition printable :: "u8 \<Rightarrow> bool" where
  "printable c \<longleftrightarrow> 32 \<le> unat c \<and> unat c < 127"

lemma printable_sint: "printable c \<Longrightarrow> sint c > 31 \<and> sint c < 127"
proof -
  assume p: "printable c"
  have "sint (of_nat (unat c) :: u8) = signed_take_bit 7 (int (unat c))" by (simp only: signed_of_nat) simp
  also have "\<dots> = int (unat c)"
  proof (rule signed_take_bit_int_eq_self)
    have "0 \<le> int (unat c)" "int (unat c) < 128" using p unfolding printable_def by linarith+
    moreover have "(2 :: int) ^ 7 = 128" by simp
    ultimately show "- (2 ^ 7) \<le> int (unat c)" "int (unat c) < 2 ^ 7" by linarith+
  qed
  finally have "sint c = int (unat c)" by simp
  then show ?thesis using p unfolding printable_def by linarith
qed

lemma off_inj:
  assumes "geom_ok t" "k < cols t" "k' < cols t" "off t r k = off t r' k'"
  shows "r = r' \<and> k = k'"
proof -
  have e: "r * cols t + k = r' * cols t + k'" using assms(4) unfolding off_def by linarith
  have "(r * cols t + k) div cols t = r" "(r' * cols t + k') div cols t = r'"
    using assms(2,3) by simp_all
  then show ?thesis using e by auto
qed

lemma put_cell_cell:
  assumes c: "con_ok t" and x: "unat (con_x t) < cols t" and rk: "r < lns t" "k < cols t"
  shows "cell (put_cell b t) r k =
    (if r = unat (con_y t) \<and> k = unat (con_x t) then push_bit 8 (ucast (con_attr t)) OR ucast b else cell t r k)"
proof -
  have g: "geom_ok t" and y: "unat (con_y t) < lns t"
    and p: "con_pos t = origin t + of_nat (off t (unat (con_y t)) (unat (con_x t)))"
    using c by (simp_all add: con_ok_def)
  have "origin t + of_nat (off t r k) = con_pos t \<longleftrightarrow> r = unat (con_y t) \<and> k = unat (con_x t)"
    unfolding p using screen_addr_inj [OF g off_less [OF rk] off_less [OF y x]] off_inj [OF g rk(2) x] by auto
  then show ?thesis by (auto simp: cell_def put_cell_def off_def)
qed

lemma con_loop_text:
  assumes "con_ok (con s)" "con_state (con s) = 0" "q_ok (write_q (tty_table s n))"
    "q_list (write_q (tty_table s n)) = cs" "\<forall>c\<in>set cs. printable c" "unat (con_x (con s)) + length cs \<le> cols (con s)"
  shows "\<exists>s'. con_loop (length cs) cooked n s = Ret () s' \<and> EMPTY (write_q (tty_table s' n)) \<and> con_ok (con s') \<and>
    unat (con_x (con s')) = unat (con_x (con s)) + length cs \<and> con_y (con s') = con_y (con s) \<and>
    (\<forall>r<lns (con s). \<forall>k<cols (con s). cell (con s') r k =
       (if r = unat (con_y (con s)) \<and> unat (con_x (con s)) \<le> k \<and> k < unat (con_x (con s)) + length cs
        then push_bit 8 (ucast (con_attr (con s))) OR ucast (cs ! (k - unat (con_x (con s)))) else cell (con s) r k))"
  using assms
proof (induction cs arbitrary: s)
  case Nil
  then show ?case using EMPTY_iff by auto
next
  case (Cons c cs)
  let ?q = "write_q (tty_table s n)" and ?t = "con s"
  obtain q' where q': "GETCH ?q = (c, q')" "q_ok q'" "q_list q' = cs"
  proof -
    have "\<not> EMPTY ?q" using EMPTY_iff [OF Cons.prems(3)] Cons.prems(4) by simp
    then show thesis using GETCH_list [OF Cons.prems(3)] Cons.prems(4) that by (cases "GETCH ?q") auto
  qed
  have x: "unat (con_x ?t) < cols ?t" using Cons.prems(6) by simp
  then have xw: "con_x ?t < video_num_columns ?t" by (simp add: word_less_nat_alt)
  let ?u = "upd_con (put_cell c) (upd_tty n (\<lambda>t. t\<lparr>write_q := q'\<rparr>) s)"
  have pl: "con_plain n c s0 = upd_con (put_cell c) s0" if "con s0 = ?t" for s0 :: "'a chr_scheme"
    using printable_sint [of c] Cons.prems(5) xw that by (simp add: con_plain_def Let_def upd_con_def)
  have step: "con_loop (length (c # cs)) cooked n s = con_loop (length cs) cooked n ?u"
    using q'(1) pl Cons.prems(2) by (simp add: con_char_def)
  have cu: "con ?u = put_cell c ?t" "write_q (tty_table ?u n) = q'"
    by (simp_all add: upd_con_def upd_tty_def)
  have ok: "con_ok (put_cell c ?t)" using put_cell_ok [OF Cons.prems(1) xw] by simp
  have f: "cols (put_cell c ?t) = cols ?t" "lns (put_cell c ?t) = lns ?t" "con_y (put_cell c ?t) = con_y ?t"
    "con_attr (put_cell c ?t) = con_attr ?t" "con_state (put_cell c ?t) = 0"
    using Cons.prems(2) by (simp_all add: put_cell_def)
  have x1: "unat (con_x (put_cell c ?t)) = unat (con_x ?t) + 1"
  proof -
    have "unat (con_x ?t) + 1 < 4294967296" using x unat_u32 [of "video_num_columns ?t"] by simp
    then show ?thesis by (simp add: put_cell_def unat_word_ariths)
  qed
  obtain s' where s': "con_loop (length cs) cooked n ?u = Ret () s'" "EMPTY (write_q (tty_table s' n))" "con_ok (con s')"
    "unat (con_x (con s')) = unat (con_x ?t) + 1 + length cs" "con_y (con s') = con_y ?t"
    "\<forall>r<lns ?t. \<forall>k<cols ?t. cell (con s') r k =
       (if r = unat (con_y ?t) \<and> unat (con_x ?t) + 1 \<le> k \<and> k < unat (con_x ?t) + 1 + length cs
        then push_bit 8 (ucast (con_attr ?t)) OR ucast (cs ! (k - (unat (con_x ?t) + 1))) else cell (put_cell c ?t) r k)"
    using Cons.IH [of ?u] ok q' Cons.prems(5,6) unfolding cu f x1 by auto
  have "cell (con s') r k =
       (if r = unat (con_y ?t) \<and> unat (con_x ?t) \<le> k \<and> k < unat (con_x ?t) + length (c # cs)
        then push_bit 8 (ucast (con_attr ?t)) OR ucast ((c # cs) ! (k - unat (con_x ?t))) else cell ?t r k)"
    if rk: "r < lns ?t" "k < cols ?t" for r k
    using s'(6) rk put_cell_cell [OF Cons.prems(1) x rk, of c]
    by (cases "k = unat (con_x ?t)") (auto simp: nth_Cons')
  then show ?case using step s' by (intro exI [of _ s']) simp
qed

definition demo_boot :: boot_video where
  "demo_boot = \<lparr>ORIG_X = 0, ORIG_Y = 3, ORIG_VIDEO_PAGE = 0, ORIG_VIDEO_MODE = 3, ORIG_VIDEO_COLS = 80, ORIG_VIDEO_EGA_BX = 0\<rparr>"

definition demo_con :: console where
  "demo_con = con_setup demo_boot ((undefined :: console)\<lparr>con_npar := 0, con_state := 0\<rparr>)"

lemma demo_con_ok:
  "con_ok demo_con" "video_num_columns demo_con = 80" "con_x demo_con = 0" "con_y demo_con = 3" "con_state demo_con = 0"
  "video_num_lines demo_con = 25" "con_top demo_con = 0" "con_bottom demo_con = 25" "video_erase_char demo_con = 0x0720"
  unfolding demo_con_def
  by (rule con_setup_ok, simp_all add: demo_boot_def) (simp_all add: con_setup_def gotoxy_def Let_def)

definition demo_chr :: chr where
  "demo_chr = (undefined :: chr)\<lparr>con := demo_con, tty_table := (\<lambda>_. (undefined :: tty_struct)\<lparr>t_write := Con_write,
     write_q := fold PUTCH [72, 105] \<lparr>q_data = 0, q_head = 0, q_tail = 0, proc_list = 0, q_buf = (\<lambda>_. 0)\<rparr>\<rparr>)\<rparr>"

lemma demo_queue: "q_ok (write_q (tty_table demo_chr 0))" "q_list (write_q (tty_table demo_chr 0)) = [72, 105]"
proof -
  let ?q = "\<lparr>q_data = 0, q_head = 0, q_tail = 0, proc_list = 0, q_buf = (\<lambda>_. 0)\<rparr>"
  have "q_ok ?q" "q_list ?q = []" by (simp_all add: q_ok_def q_list_def q_len_def)
  then show "q_ok (write_q (tty_table demo_chr 0))" "q_list (write_q (tty_table demo_chr 0)) = [72, 105]"
    using ring.put_all [of ?q "[72, 105]"] by (simp_all add: demo_chr_def)
qed

lemma con_demo: "con demo_chr = demo_con" "t_write (tty_table demo_chr n) = Con_write"
  by (simp_all add: demo_chr_def)

lemma con_write_shows:
  assumes "con_ok (con s)" "con_state (con s) = 0" "q_ok (write_q (tty_table s n))"
    "cs = q_list (write_q (tty_table s n))" "\<forall>c\<in>set cs. printable c"
    "unat (con_x (con s)) + length cs \<le> unat (video_num_columns (con s))"
  shows "\<exists>s'. con_write cooked n s = Ret () s' \<and> EMPTY (write_q (tty_table s' n)) \<and> con_ok (con s') \<and>
    unat (con_x (con s')) = unat (con_x (con s)) + length cs \<and> con_y (con s') = con_y (con s) \<and>
    (\<forall>r<unat (video_num_lines (con s)). \<forall>k<unat (video_num_columns (con s)). cell (con s') r k =
       (if r = unat (con_y (con s)) \<and> unat (con_x (con s)) \<le> k \<and> k < unat (con_x (con s)) + length cs
        then push_bit 8 (ucast (con_attr (con s))) OR ucast (cs ! (k - unat (con_x (con s)))) else cell (con s) r k))"
proof -
  have l: "unat (CHARS (write_q (tty_table s n))) = length cs"
    using q_len_CHARS [OF assms(3)] assms(4) by simp
  obtain s' where s': "con_loop (length cs) cooked n s = Ret () s'" "EMPTY (write_q (tty_table s' n))" "con_ok (con s')"
    "unat (con_x (con s')) = unat (con_x (con s)) + length cs" "con_y (con s') = con_y (con s)"
    "\<forall>r<lns (con s). \<forall>k<cols (con s). cell (con s') r k =
       (if r = unat (con_y (con s)) \<and> unat (con_x (con s)) \<le> k \<and> k < unat (con_x (con s)) + length cs
        then push_bit 8 (ucast (con_attr (con s))) OR ucast (cs ! (k - unat (con_x (con s)))) else cell (con s) r k)"
    using con_loop_text [OF assms(1-3) assms(4) [symmetric] assms(5,6), of cooked] by blast
  have same: "con_x (set_cursor t) = con_x t" "con_y (set_cursor t) = con_y t" "cell (set_cursor t) = cell t" for t
    by (simp_all add: set_cursor_def vout_def cell_def off_def fun_eq_iff)
  have "con_ok (set_cursor (con s'))" using con_stepD(1) [OF set_cursor_step s'(3)] .
  then show ?thesis
    unfolding con_write_def l using s' by (intro exI [of _ "upd_con set_cursor s'"]) (simp add: upd_con_def same)
qed

text \<open>C12: console output never leaves video memory.  Whatever characters are in
  the write queue, control sequences with any parameters included, and however
  deep echoes and answers nest: if the console is in order when its \<open>write\<close>
  routine starts, it is in order afterwards (the cursor on the screen, the
  scrolling region inside it, the screen inside video memory) and no byte
  outside video memory has changed.\<close>

theorem console_confined:
  assumes "con_ok (con s)" "tty_out d n s = Ret () s'"
  shows "con_ok (con s') \<and> (\<forall>a. unat a < unat (video_mem_start (con s)) \<or> unat (video_mem_end (con s)) \<le> unat a
    \<longrightarrow> vram (con s') a = vram (con s) a)"
proof -
  have "con_good (con s) s'" using tty_out_good [OF con_good_start [OF assms(1)], of d n] assms(2) by simp
  then show ?thesis by (auto simp: con_good_def confined_def in_mem_def)
qed

theorem console_confined_witness:
  "\<exists>s'. tty_out 1 0 demo_chr = Ret () s' \<and> con_ok (con s') \<and> vram (con s') 0x1000 = vram demo_con 0x1000"
proof -
  have "con_state (con demo_chr) = 0" "unat (con_x (con demo_chr)) + length [72, 105 :: u8] \<le> cols (con demo_chr)"
    "\<forall>c\<in>set [72, 105]. printable c"
    by (simp_all add: con_demo demo_con_ok printable_def)
  then obtain s' where "con_write (copy_to_cooked (tty_out 0)) 0 demo_chr = Ret () s'"
    using con_write_shows [of demo_chr 0 "[72, 105]"] demo_queue demo_con_ok(1) con_demo by metis
  then have s': "tty_out 1 0 demo_chr = Ret () s'" by (simp add: con_demo)
  have "video_mem_start demo_con = 0xb8000" by (simp add: demo_con_def con_setup_def gotoxy_def demo_boot_def Let_def)
  then show ?thesis
    using console_confined [OF _ s'] s' demo_con_ok(1) by (simp add: con_demo)
qed

text \<open>C13: scrolling looks the same on every adapter.  Whether the rows are moved by
  the processor, the display start is moved, or the display start has to be
  moved back to the beginning of video memory: each row of the region shows
  what the row below showed, the last one is blank, and the rows outside the
  region are as they were.\<close>

theorem scrup_uniform:
  assumes "con_ok t" "even (unat (video_num_columns t))" "r < unat (video_num_lines t)" "k < unat (video_num_columns t)"
  shows "cell (scrup t) r k =
    (if unat (con_top t) \<le> r \<and> r + 1 < unat (con_bottom t) then cell t (r + 1) k
     else if r + 1 = unat (con_bottom t) then video_erase_char t else cell t r k)"
  using scrup_scrolls [OF con_ok_geom [OF assms(1)] assms(2)] assms(3,4) unfolding scrolled_up_def by blast

theorem scrup_uniform_witness:
  "cell (scrup demo_con) 7 5 = cell demo_con 8 5 \<and> cell (scrup demo_con) 24 5 = 0x0720"
  using scrup_uniform [OF demo_con_ok(1), of 7 5] scrup_uniform [OF demo_con_ok(1), of 24 5]
  by (simp add: demo_con_ok)

text \<open>C14: printable text appears at the cursor.  With the console waiting for plain
  characters and room on the line, \<open>con_write\<close> empties the queue, shows each
  character in its cell with the current attribute, moves the cursor behind
  the text and leaves every other cell of the screen alone.\<close>

theorem con_write_text:
  assumes "con_ok (con s)" "con_state (con s) = 0" "q_ok (write_q (tty_table s n))"
    "cs = q_list (write_q (tty_table s n))" "\<forall>c\<in>set cs. printable c"
    "unat (con_x (con s)) + length cs \<le> unat (video_num_columns (con s))"
  shows "\<exists>s'. con_write cooked n s = Ret () s' \<and> EMPTY (write_q (tty_table s' n)) \<and> con_ok (con s') \<and>
    unat (con_x (con s')) = unat (con_x (con s)) + length cs \<and> con_y (con s') = con_y (con s) \<and>
    (\<forall>r<unat (video_num_lines (con s)). \<forall>k<unat (video_num_columns (con s)). cell (con s') r k =
       (if r = unat (con_y (con s)) \<and> unat (con_x (con s)) \<le> k \<and> k < unat (con_x (con s)) + length cs
        then push_bit 8 (ucast (con_attr (con s))) OR ucast (cs ! (k - unat (con_x (con s)))) else cell (con s) r k))"
  using assms by (rule con_write_shows)

theorem con_write_text_witness:
  "\<exists>s'. con_write (copy_to_cooked (tty_out 0)) 0 demo_chr = Ret () s' \<and> con_x (con s') = 2 \<and>
     cell (con s') 3 0 = push_bit 8 (ucast (con_attr demo_con)) OR 72 \<and> cell (con s') 4 0 = cell demo_con 4 0"
proof -
  have h: "con_state (con demo_chr) = 0" "unat (con_x (con demo_chr)) + length [72, 105 :: u8] \<le> cols (con demo_chr)"
    "\<forall>c\<in>set [72, 105]. printable c" "con_ok (con demo_chr)"
    by (simp_all add: con_demo demo_con_ok printable_def)
  obtain s' where s': "con_write (copy_to_cooked (tty_out 0)) 0 demo_chr = Ret () s'"
    "unat (con_x (con s')) = unat (con_x (con demo_chr)) + length [72, 105 :: u8]"
    "\<forall>r<lns (con demo_chr). \<forall>k<cols (con demo_chr). cell (con s') r k =
       (if r = unat (con_y (con demo_chr)) \<and> unat (con_x (con demo_chr)) \<le> k \<and> k < unat (con_x (con demo_chr)) + length [72, 105 :: u8]
        then push_bit 8 (ucast (con_attr (con demo_chr))) OR ucast ([72, 105 :: u8] ! (k - unat (con_x (con demo_chr))))
        else cell (con demo_chr) r k)"
    using con_write_text [OF h(4,1) demo_queue(1) demo_queue(2) [symmetric] h(3,2), of "copy_to_cooked (tty_out 0)"]
    by blast
  have "con_x (con s') = 2" using s'(2) by (simp add: con_demo demo_con_ok word_unat_eq_iff)
  moreover have "cell (con s') 3 0 = push_bit 8 (ucast (con_attr demo_con)) OR 72" "cell (con s') 4 0 = cell demo_con 4 0"
    using s'(3) by (simp_all add: con_demo demo_con_ok)
  ultimately show ?thesis using s'(1) by blast
qed

end
