(* ===== verification/Tty_Edit.thy ===== *)
theory Tty_Edit
  imports Tty
begin

unbundle bit_operations_syntax

text \<open>
  Canonical input: \<open>copy_to_cooked\<close> on the two rings implements a line editor on
  lists of characters.
\<close>

section \<open>The specification\<close>

text \<open>A line starts after a newline or an end-of-file character.\<close>

definition line_end :: "tty_struct \<Rightarrow> u8 \<Rightarrow> bool" where
  "line_end t c \<longleftrightarrow> sint c = 10 \<or> sint c = CC VEOF t"

text \<open>What the kill character leaves: everything up to the end of the last finished line.\<close>

definition kill_spec :: "tty_struct \<Rightarrow> u8 list \<Rightarrow> u8 list" where
  "kill_spec t L = rev (dropWhile (\<lambda>c. \<not> line_end t c) (rev L))"

definition erase_spec :: "tty_struct \<Rightarrow> u8 list \<Rightarrow> u8 list" where
  "erase_spec t L = (if L = [] \<or> line_end t (last L) then L else butlast L)"

text \<open>Upper case is folded to lower case on request.\<close>

definition fold_case :: "tty_struct \<Rightarrow> int \<Rightarrow> int" where
  "fold_case t c = (if I_FLAG t IUCLC \<and> 65 \<le> c \<and> c \<le> 90 then c + 32 else c)"

definition cook_spec :: "tty_struct \<Rightarrow> int \<Rightarrow> u8 list \<Rightarrow> u8 list" where
  "cook_spec t c L =
     (if L_FLAG t ICANON \<and> c = CC VKILL t then kill_spec t L
      else if L_FLAG t ICANON \<and> c = CC VERASE t then erase_spec t L
      else if L_FLAG t ICANON \<and> (c = CC VSTOP t \<or> c = CC VSTART t) then L
      else if L_FLAG t ISIG \<and> (c = CC VINTR t \<or> c = CC VQUIT t) then L
      else L @ [of_int c])"

definition edit_spec :: "tty_struct \<Rightarrow> u8 \<Rightarrow> u8 list \<Rightarrow> u8 list" where
  "edit_spec t b L = (case map_input t (sint b) of None \<Rightarrow> L | Some c \<Rightarrow> cook_spec t (fold_case t c) L)"

section \<open>The implementation\<close>

definition sec :: "nat \<Rightarrow> 'z chr_scheme \<Rightarrow> tty_queue" where
  "sec n s = secondary (tty_table s n)"

text \<open>Same terminal, apart from its queues and the stop flag.\<close>

definition same_tty :: "tty_struct \<Rightarrow> tty_struct \<Rightarrow> bool" where
  "same_tty t t' \<longleftrightarrow> t_termios t' = t_termios t"

lemma same_tty_simps:
  assumes "same_tty t t'"
  shows "L_FLAG t' f = L_FLAG t f" "I_FLAG t' f = I_FLAG t f" "CC i t' = CC i t" "map_input t' = map_input t"
    "line_end t' = line_end t" "kill_spec t' = kill_spec t" "erase_spec t' = erase_spec t" "edit_spec t' = edit_spec t"
    "cook_spec t' = cook_spec t" "fold_case t' = fold_case t"
  using assms by (simp_all add: same_tty_def L_FLAG_def I_FLAG_def CC_def map_input_def line_end_def kill_spec_def
      erase_spec_def edit_spec_def cook_spec_def fold_case_def fun_eq_iff cong: option.case_cong)

lemma line_start_iff:
  assumes "q_ok (secondary t)"
  shows "line_start t \<longleftrightarrow> q_list (secondary t) = [] \<or> line_end t (last (q_list (secondary t)))"
proof (cases "EMPTY (secondary t)")
  case True
  then show ?thesis using EMPTY_iff [OF assms] by (simp add: line_start_def)
next
  case False
  then show ?thesis using EMPTY_iff [OF assms] UNPUT_list(2) [OF assms False] by (simp add: line_start_def line_end_def)
qed

text \<open>What a step of the cooked loop keeps: the rings are well formed, the settings are the same.\<close>

definition edits :: "nat \<Rightarrow> 'z chr_scheme \<Rightarrow> 'z chr_scheme \<Rightarrow> u8 list \<Rightarrow> bool" where
  "edits n s s' L \<longleftrightarrow> same_tty (tty_table s n) (tty_table s' n) \<and> read_q (tty_table s' n) = read_q (tty_table s n) \<and>
     q_ok (sec n s') \<and> q_list (sec n s') = L"

text \<open>
  Two kinds of characters get out of the editor's hands: with case folding \<open>tolower\<close> reads outside its table for a character below -1, and
  the echo of the character \<open>0xDB\<close> as \<open>^\<close> and a letter puts an \<open>ESC\<close> on the screen.
\<close>

definition harmless :: "tty_struct \<Rightarrow> u8 \<Rightarrow> bool" where
  "harmless t b \<longleftrightarrow> (I_FLAG t IUCLC \<longrightarrow> -1 \<le> sint b) \<and> (L_FLAG t ECHO \<and> L_FLAG t ECHOCTL \<longrightarrow> b \<noteq> 0xDB)"

lemma tty_intr_keeps [simp]: "tty_table (tty_intr n m s) = tty_table s" "con (tty_intr n m s) = con s"
proof -
  have "tty_table (fold (tty_intr_one g m) xs s) = tty_table s \<and> con (fold (tty_intr_one g m) xs s) = con s" for g xs and s :: "'a chr_scheme"
    by (induction xs arbitrary: s) (simp_all add: tty_intr_one_def upd_task_def)
  then show "tty_table (tty_intr n m s) = tty_table s" "con (tty_intr n m s) = con s" by (simp_all add: tty_intr_def Let_def)
qed

lemma edit_spec_length: "length (edit_spec t b L) \<le> length L + 1"
proof -
  have "length (kill_spec t L) \<le> length L"
    by (simp add: kill_spec_def length_dropWhile_le [of _ "rev L", simplified])
  then show ?thesis by (auto simp: edit_spec_def cook_spec_def erase_spec_def split: option.split)
qed

text \<open>The character that reaches the editor.\<close>

lemma edit_char:
  fixes b :: u8
  assumes "map_input t (sint b) = Some c"
  shows "-128 \<le> fold_case t c" "fold_case t c \<le> 127" "b \<noteq> 0xDB \<Longrightarrow> fold_case t c \<noteq> -37"
    "(I_FLAG t IUCLC \<longrightarrow> -1 \<le> sint b) \<Longrightarrow> (if I_FLAG t IUCLC then tolower c else Some c) = Some (fold_case t c)"
proof -
  have c: "c = 13 \<or> c = 10 \<or> c = sint b" using assms by (auto simp: map_input_def split: if_splits)
  have r: "-128 \<le> sint b" "sint b \<le> 127" using sint_ge [of b] sint_lt [of b] by simp_all
  have "b = 0xDB" if "sint b = -37"
    using signed_word_eqI [of b "0xDB"] that by auto
  then show "-128 \<le> fold_case t c" "fold_case t c \<le> 127" "b \<noteq> 0xDB \<Longrightarrow> fold_case t c \<noteq> -37"
    using c r by (auto simp: fold_case_def)
  show "(I_FLAG t IUCLC \<longrightarrow> -1 \<le> sint b) \<Longrightarrow> (if I_FLAG t IUCLC then tolower c else Some c) = Some (fold_case t c)"
    using c by (auto simp: fold_case_def tolower_def)
qed

text \<open>
  What the echo relies on: as long as no \<open>ESC\<close> is written, the \<open>write\<close> routine of the terminal returns and changes nothing of the
  terminal but the queue it takes the characters from.
\<close>

locale line_echo =
  fixes wr :: "nat \<Rightarrow> 'z chr_scheme \<Rightarrow> ('z chr_scheme, unit) outcome" and n :: nat and quiet :: "'z chr_scheme \<Rightarrow> bool"
  assumes writes: "quiet s \<Longrightarrow> L_FLAG (tty_table s n) ECHO \<Longrightarrow>
      \<exists>s' q. wr n s = Ret () s' \<and> quiet s' \<and> tty_table s' n = (tty_table s n)\<lparr>write_q := q\<rparr>"
    and put: "quiet s \<Longrightarrow> c \<noteq> 27 \<Longrightarrow> quiet (put_write n c s)"
    and keep: "quiet s \<Longrightarrow> con s' = con s \<Longrightarrow> write_q (tty_table s' n) = write_q (tty_table s n) \<Longrightarrow>
      t_write (tty_table s' n) = t_write (tty_table s n) \<Longrightarrow> t_termios (tty_table s' n) = t_termios (tty_table s n) \<Longrightarrow> quiet s'"
begin

lemma keep_upd: "quiet s \<Longrightarrow> (\<And>t. write_q (f t) = write_q t \<and> t_write (f t) = t_write t \<and> t_termios (f t) = t_termios t) \<Longrightarrow> quiet (upd_tty n f s)"
  by (rule keep) (simp_all add: upd_tty_def)

lemma put_flags: "L_FLAG (tty_table (put_write n c s) n) f = L_FLAG (tty_table s n) f"
  "\<exists>q. tty_table (put_write n c s) n = (tty_table s n)\<lparr>write_q := q\<rparr>"
  by (auto simp: put_write_def upd_tty_def L_FLAG_def)

text \<open>Any echo of harmless characters.\<close>

lemma write_all_quiet:
  assumes "quiet s" "L_FLAG (tty_table s n) ECHO" "27 \<notin> set cs"
  shows "\<exists>s' q. wr n (fold (put_write n) cs s) = Ret () s' \<and> quiet s' \<and> tty_table s' n = (tty_table s n)\<lparr>write_q := q\<rparr>"
  using assms
proof (induction cs arbitrary: s)
  case Nil then show ?case using writes by simp
next
  case (Cons c cs)
  then have "quiet (put_write n c s)" using put by auto
  from Cons.IH [OF this] Cons.prems(2,3) put_flags(1) [of c s ECHO] put_flags(2) [of c s] show ?case by auto
qed

lemma echo_erase_ok:
  assumes "quiet s"
  shows "\<exists>s' q. echo_erase wr n c s = Ret () s' \<and> quiet s' \<and> tty_table s' n = (tty_table s n)\<lparr>write_q := q\<rparr>"
proof (cases "L_FLAG (tty_table s n) ECHO")
  case True
  have "echo_erase wr n c s = wr n (fold (put_write n) (if c < 32 then [127, 127] else [127]) s)"
    using True by (simp add: echo_erase_def)
  then show ?thesis using write_all_quiet [OF assms True, of "if c < 32 then [127, 127] else [127]"] by auto
next
  case False
  then have "echo_erase wr n c s = Ret () s \<and> tty_table s n = (tty_table s n)\<lparr>write_q := write_q (tty_table s n)\<rparr>"
    by (simp add: echo_erase_def)
  then show ?thesis using assms by blast
qed

lemma echo_char_ok:
  assumes "quiet s" "-128 \<le> c" "c \<le> 127" "L_FLAG (tty_table s n) ECHO \<and> L_FLAG (tty_table s n) ECHOCTL \<longrightarrow> c \<noteq> - 37"
  shows "\<exists>s' q. echo_char wr n c s = Ret () s' \<and> quiet s' \<and> tty_table s' n = (tty_table s n)\<lparr>write_q := q\<rparr>"
proof (cases "L_FLAG (tty_table s n) ECHO")
  case True
  let ?cs = "if c = 10 then [10, 13] else if c < 32 then if L_FLAG (tty_table s n) ECHOCTL then [94, of_int (c + 64)] else []
    else [of_int c] :: u8 list"
  have b: "x mod 256 = 27 \<Longrightarrow> -64 \<le> x \<Longrightarrow> x < 128 \<Longrightarrow> x = 27" for x :: int
    using mod_pos_pos_trivial [of x 256] mod_pos_pos_trivial [of "x + 256" 256] by (cases "0 \<le> x") auto
  have w: "(of_int x :: u8) = 27 \<Longrightarrow> -64 \<le> x \<Longrightarrow> x < 128 \<Longrightarrow> x = 27" for x
  proof -
    assume x: "(of_int x :: u8) = 27" "-64 \<le> x" "x < 128"
    have "uint (of_int x :: u8) = x mod 256" by (simp add: unsigned_of_int take_bit_eq_mod)
    then show "x = 27" using x b [of x] by simp
  qed
  have "27 \<notin> set ?cs" using w [of "c + 64"] w [of c] assms(2-4) True by auto
  moreover have "echo_char wr n c s = wr n (fold (put_write n) ?cs s)" using True by (simp add: echo_char_def)
  ultimately show ?thesis using write_all_quiet [OF assms(1) True, of ?cs] by auto
next
  case False
  then have "echo_char wr n c s = Ret () s \<and> tty_table s n = (tty_table s n)\<lparr>write_q := write_q (tty_table s n)\<rparr>"
    by (simp add: echo_char_def)
  then show ?thesis using assms by blast
qed

lemma erase_last_ok:
  assumes q: "q_ok (sec n s)" and k: "quiet s" and l: "\<not> line_start (tty_table s n)"
  shows "\<exists>s'. erase_last wr n s = Ret () s' \<and> quiet s' \<and> edits n s s' (butlast (q_list (sec n s)))"
proof -
  have ne: "\<not> EMPTY (sec n s)" using l by (simp add: line_start_def sec_def)
  obtain s1 r where e: "echo_erase wr n (sint (LAST (secondary (tty_table s n)))) s = Ret () s1" "quiet s1"
    "tty_table s1 n = (tty_table s n)\<lparr>write_q := r\<rparr>" using echo_erase_ok [OF k] by blast
  let ?s2 = "upd_tty n (\<lambda>t. t\<lparr>secondary := UNPUT (secondary t)\<rparr>) s1"
  have "quiet ?s2" by (rule keep_upd [OF e(2)]) simp
  moreover have "edits n s ?s2 (butlast (q_list (sec n s)))"
    using UNPUT_list [OF q ne] e(3) by (simp add: edits_def same_tty_def sec_def upd_tty_def)
  ultimately show ?thesis using e(1) by (simp add: erase_last_def)
qed

lemma kill_line_ok:
  assumes "q_ok (sec n s)" "quiet s" "length (q_list (sec n s)) < k"
  shows "\<exists>s'. kill_line k wr n s = Ret () s' \<and> quiet s' \<and> edits n s s' (kill_spec (tty_table s n) (q_list (sec n s)))"
  using assms
proof (induction k arbitrary: s)
  case (Suc k)
  let ?t = "tty_table s n" and ?L = "q_list (sec n s)"
  show ?case
  proof (cases "line_start ?t")
    case True
    then have "?L = [] \<or> line_end ?t (last ?L)" using line_start_iff Suc.prems(1) by (auto simp: sec_def)
    then have "kill_spec ?t ?L = ?L" by (cases ?L rule: rev_cases) (auto simp: kill_spec_def)
    then show ?thesis using True Suc.prems(1,2) by (simp add: edits_def same_tty_def sec_def)
  next
    case False
    then have ne: "?L \<noteq> []" "\<not> line_end ?t (last ?L)" using line_start_iff Suc.prems(1) by (auto simp: sec_def)
    obtain s1 where s1: "erase_last wr n s = Ret () s1" "quiet s1" "edits n s s1 (butlast ?L)"
      using erase_last_ok [OF Suc.prems(1,2) False] by blast
    note e = s1(3) [unfolded edits_def]
    have pos: "0 < q_len (sec n s)" using ne(1) by (metis length_q_list length_greater_0_conv)
    have "q_ok (sec n s1)" "length (q_list (sec n s1)) < k" using e Suc.prems pos by auto
    from Suc.IH [OF this(1) s1(2) this(2)] obtain s2 where s2: "kill_line k wr n s1 = Ret () s2" "quiet s2"
      "edits n s1 s2 (kill_spec ?t (butlast ?L))"
      using e same_tty_simps(6) [of ?t "tty_table s1 n"] by auto
    have "kill_spec ?t ?L = kill_spec ?t (butlast ?L)"
      using ne by (cases ?L rule: rev_cases) (auto simp: kill_spec_def)
    then show ?thesis using False s1 s2 by (auto simp: edits_def same_tty_def)
  qed
qed simp

lemma cook_char_ok:
  assumes q: "q_ok (sec n s)" and ok: "quiet s" and room: "\<not> FULL (sec n s)"
    and c: "-128 \<le> c" "c \<le> 127" "L_FLAG (tty_table s n) ECHO \<and> L_FLAG (tty_table s n) ECHOCTL \<longrightarrow> c \<noteq> - 37"
  shows "\<exists>s'. cook_char 1024 wr n c s = Ret () s' \<and> quiet s' \<and> edits n s s' (cook_spec (tty_table s n) c (q_list (sec n s)))"
proof -
  let ?t = "tty_table s n" and ?L = "q_list (sec n s)"
  have len: "length ?L < 1024" using q_len_less [of "sec n s"] by simp
  have stay: "edits n s s' ?L" if "tty_table s' n = ?t \<or> tty_table s' n = ?t\<lparr>t_stopped := v\<rparr>" for s' :: "'z chr_scheme" and v
    using that q by (auto simp: edits_def same_tty_def sec_def)
  consider (kill) "L_FLAG ?t ICANON" "c = CC VKILL ?t"
    | (erase) "L_FLAG ?t ICANON" "c = CC VERASE ?t" "c \<noteq> CC VKILL ?t"
    | (stop) "L_FLAG ?t ICANON" "c = CC VSTOP ?t \<or> c = CC VSTART ?t" "c \<noteq> CC VKILL ?t" "c \<noteq> CC VERASE ?t"
    | (intr) "L_FLAG ?t ICANON \<longrightarrow> c \<notin> {CC VKILL ?t, CC VERASE ?t, CC VSTOP ?t, CC VSTART ?t}"
        "L_FLAG ?t ISIG" "c = CC VINTR ?t \<or> c = CC VQUIT ?t"
    | (plain) "L_FLAG ?t ICANON \<longrightarrow> c \<notin> {CC VKILL ?t, CC VERASE ?t, CC VSTOP ?t, CC VSTART ?t}"
        "L_FLAG ?t ISIG \<longrightarrow> c \<notin> {CC VINTR ?t, CC VQUIT ?t}"
    by blast
  then show ?thesis
  proof cases
    case kill
    then show ?thesis using kill_line_ok [OF q ok len] by (simp add: cook_char_def cook_spec_def)
  next
    case erase
    have "line_start ?t \<longleftrightarrow> ?L = [] \<or> line_end ?t (last ?L)" using line_start_iff q by (auto simp: sec_def)
    then show ?thesis
      using erase erase_last_ok [OF q ok] stay [of s 0] ok
      by (cases "line_start ?t") (auto simp: cook_char_def cook_spec_def erase_spec_def)
  next
    case stop
    then have "cook_char 1024 wr n c s = Ret () (upd_tty n (\<lambda>t. t\<lparr>t_stopped := (if c = CC VSTOP ?t then 1 else 0)\<rparr>) s)"
      by (auto simp: cook_char_def Let_def)
    moreover have "cook_spec ?t c ?L = ?L" using stop by (auto simp: cook_spec_def)
    moreover have "edits n s (upd_tty n (\<lambda>t. t\<lparr>t_stopped := v\<rparr>) s) ?L" for v
      by (rule stay [of _ v]) (simp add: upd_tty_def)
    moreover have "quiet (upd_tty n (\<lambda>t. t\<lparr>t_stopped := v\<rparr>) s)" for v by (rule keep_upd [OF ok]) simp
    ultimately show ?thesis by simp
  next
    case intr
    then have "cook_char 1024 wr n c s = Ret () (tty_intr n (if c = CC VINTR ?t then sigbit SIGINT else sigbit SIGQUIT) s)"
      by (cases "L_FLAG ?t ICANON"; cases "c = CC VINTR ?t") (simp_all add: cook_char_def Let_def)
    moreover have "cook_spec ?t c ?L = ?L" using intr by (auto simp: cook_spec_def)
    moreover have "edits n s (tty_intr n v s) ?L" for v by (rule stay) simp
    moreover have "quiet (tty_intr n v s)" for v by (rule keep [OF ok]) simp_all
    ultimately show ?thesis by simp
  next
    case plain
    let ?q = "if c = 10 \<or> c = CC VEOF ?t then (sec n s)\<lparr>q_data := q_data (sec n s) + 1\<rparr> else sec n s"
    let ?s1 = "if c = 10 \<or> c = CC VEOF ?t
      then upd_tty n (\<lambda>t. t\<lparr>secondary := (secondary t)\<lparr>q_data := q_data (secondary t) + 1\<rparr>\<rparr>) s else s"
    have q': "q_ok ?q" "\<not> FULL ?q" "q_list ?q = ?L"
      using q room by (auto simp: q_ok_def FULL_def LEFT_OF_def q_list_def q_len_def)
    have t1: "tty_table ?s1 n = ?t\<lparr>secondary := ?q\<rparr>" by (simp add: upd_tty_def sec_def)
    have k1: "quiet ?s1" using keep_upd [OF ok, of "\<lambda>t. t\<lparr>secondary := (secondary t)\<lparr>q_data := q_data (secondary t) + 1\<rparr>\<rparr>"] ok by simp
    have f1: "L_FLAG (tty_table ?s1 n) f = L_FLAG ?t f" for f unfolding t1 by (simp add: L_FLAG_def)
    obtain s2 r where e: "echo_char wr n c ?s1 = Ret () s2" "quiet s2" "tty_table s2 n = (tty_table ?s1 n)\<lparr>write_q := r\<rparr>"
      using echo_char_ok [OF k1 c(1,2)] c(3) unfolding f1 by blast
    let ?s3 = "upd_tty n (\<lambda>t. t\<lparr>secondary := PUTCH (of_int c) (secondary t)\<rparr>) s2"
    have "cook_spec ?t c ?L = ?L @ [of_int c]" using plain by (auto simp: cook_spec_def)
    moreover have "cook_char 1024 wr n c s = bindO (echo_char wr n c ?s1)
        (\<lambda>_ s. Ret () (upd_tty n (\<lambda>t. t\<lparr>secondary := PUTCH (of_int c) (secondary t)\<rparr>) s))"
    proof -
      have "\<not> (L_FLAG ?t ICANON \<and> c = CC VKILL ?t)" "\<not> (L_FLAG ?t ICANON \<and> c = CC VERASE ?t)"
        "\<not> (L_FLAG ?t ICANON \<and> c = CC VSTOP ?t)" "\<not> (L_FLAG ?t ICANON \<and> c = CC VSTART ?t)"
        "\<not> (L_FLAG ?t ISIG \<and> c = CC VINTR ?t)" "\<not> (L_FLAG ?t ISIG \<and> c = CC VQUIT ?t)"
        using plain by simp_all
      then show ?thesis by (simp only: cook_char_def Let_def if_False)
    qed
    moreover have "quiet ?s3" by (rule keep_upd [OF e(2)]) simp
    moreover have "edits n s ?s3 (?L @ [of_int c])"
    proof -
      have "tty_table s2 n = (?t\<lparr>write_q := r\<rparr>)\<lparr>secondary := ?q\<rparr>" using e(3) t1 by simp
      then show ?thesis
        using PUTCH_list [OF q'(1,2), of "of_int c"] q'(3) by (simp add: edits_def same_tty_def sec_def upd_tty_def)
    qed
    ultimately show ?thesis using e(1) by simp
  qed
qed

lemma cooked_loop_ok:
  assumes "q_ok (sec n s)" "q_ok (read_q (tty_table s n))" "q_list (read_q (tty_table s n)) = R" "quiet s"
    "\<forall>b\<in>set R. harmless (tty_table s n) b" "q_len (sec n s) + length R \<le> 1023" "length R < k"
  shows "\<exists>s'. cooked_loop k wr n s = Ret () s' \<and> EMPTY (read_q (tty_table s' n)) \<and> quiet s' \<and>
    q_ok (sec n s') \<and> q_list (sec n s') = fold (edit_spec (tty_table s n)) R (q_list (sec n s))"
  using assms
proof (induction R arbitrary: s k)
  case Nil
  then have e: "EMPTY (read_q (tty_table s n))" using EMPTY_iff by blast
  then show ?case using Nil.prems by (cases k) auto
next
  case (Cons b R)
  let ?t = "tty_table s n"
  obtain j where k: "k = Suc j" "length R < j" using Cons.prems(7) by (cases k) auto
  have ne: "\<not> EMPTY (read_q ?t)" using EMPTY_iff [OF Cons.prems(2)] Cons.prems(3) by simp
  obtain q where q: "GETCH (read_q ?t) = (b, q)" "q_ok q" "q_list q = R"
    using GETCH_list [OF Cons.prems(2) ne] Cons.prems(3) by (cases "GETCH (read_q ?t)") auto
  have nf: "\<not> FULL (secondary ?t)" using FULL_iff [OF Cons.prems(1)] Cons.prems(6) by (simp add: sec_def)
  let ?s1 = "upd_tty n (\<lambda>t. t\<lparr>read_q := q\<rparr>) s"
  have t1: "tty_table ?s1 n = ?t\<lparr>read_q := q\<rparr>" by (simp add: upd_tty_def)
  have same: "same_tty ?t (tty_table ?s1 n)" "sec n ?s1 = sec n s" by (simp_all add: t1 same_tty_def sec_def)
  have q1: "quiet ?s1" by (rule keep_upd [OF Cons.prems(4)]) simp
  note f = same_tty_simps [OF same(1)]
  have "\<exists>s2. cooked_loop k wr n s = cooked_loop j wr n s2 \<and> quiet s2 \<and> edits n ?s1 s2 (edit_spec ?t b (q_list (sec n s)))"
  proof (cases "map_input ?t (sint b)")
    case None
    then have "cooked_loop k wr n s = cooked_loop j wr n ?s1" using k(1) ne nf q(1) by simp
    then show ?thesis using None Cons.prems(1) same(2) q1 by (auto simp: edits_def same_tty_def edit_spec_def)
  next
    case (Some c)
    have h: "harmless ?t b" using Cons.prems(5) by simp
    note e = edit_char [OF Some]
    have "q_ok (sec n ?s1)" "\<not> FULL (sec n ?s1)" "L_FLAG (tty_table ?s1 n) ECHO \<and> L_FLAG (tty_table ?s1 n) ECHOCTL \<longrightarrow> fold_case ?t c \<noteq> -37"
      using Cons.prems(1) nf h e(3) same f by (auto simp: sec_def harmless_def)
    from cook_char_ok [OF this(1) q1 this(2) e(1,2) this(3)] obtain s2 where s2: "cook_char 1024 wr n (fold_case ?t c) ?s1 = Ret () s2"
      "quiet s2" "edits n ?s1 s2 (cook_spec ?t (fold_case ?t c) (q_list (sec n s)))" unfolding f same(2) by blast
    moreover have "cooked_loop k wr n s = cooked_loop j wr n s2"
      using k(1) ne nf q(1) Some s2(1) e(4) h by (simp add: harmless_def)
    ultimately show ?thesis using Some by (auto simp: edit_spec_def)
  qed
  then obtain s2 where s2: "cooked_loop k wr n s = cooked_loop j wr n s2" "quiet s2" "edits n ?s1 s2 (edit_spec ?t b (q_list (sec n s)))"
    by blast
  have st: "same_tty ?t (tty_table s2 n)" "read_q (tty_table s2 n) = q" "q_ok (sec n s2)"
    "q_list (sec n s2) = edit_spec ?t b (q_list (sec n s))"
    using s2(3) same(1) t1 by (auto simp: edits_def same_tty_def)
  note g = same_tty_simps [OF st(1)]
  have hs: "\<forall>b\<in>set R. harmless (tty_table s2 n) b" using Cons.prems(5) by (simp add: harmless_def g)
  have "q_len (sec n s2) = length (edit_spec ?t b (q_list (sec n s)))" using st(4) length_q_list by metis
  then have "q_len (sec n s2) + length R \<le> 1023"
    using Cons.prems(6) edit_spec_length [of ?t b "q_list (sec n s)"] by simp
  from Cons.IH [OF st(3) _ _ s2(2) hs this k(2), unfolded st(2) g, OF q(2,3)] show ?case
    using s2(1) st(4) by simp
qed

end

section \<open>The terminals of the kernel\<close>

text \<open>With echo on, the console waits for plain characters and none of those it has still to print is an \<open>ESC\<close>.\<close>

definition echo_quiet :: "nat \<Rightarrow> 'z chr_scheme \<Rightarrow> bool" where
  "echo_quiet n s \<longleftrightarrow> (L_FLAG (tty_table s n) ECHO \<and> t_write (tty_table s n) = Con_write \<longrightarrow>
     con_state (con s) = 0 \<and> q_ok (write_q (tty_table s n)) \<and> 27 \<notin> set (q_list (write_q (tty_table s n))))"

text \<open>A character put into a full ring empties it.\<close>

lemma PUTCH_any:
  assumes "q_ok q"
  shows "q_ok (PUTCH c q)" "set (q_list (PUTCH c q)) \<subseteq> insert c (set (q_list q))"
proof -
  have b: "unat (q_head q) < 1024" "unat (q_tail q) < 1024" using assms by (simp_all add: q_ok_def)
  have h: "unat (q_head (PUTCH c q)) = (unat (q_head q) + 1) mod 1024" "q_tail (PUTCH c q) = q_tail q"
    using b by (simp_all add: PUTCH_def unat_INC)
  show ok: "q_ok (PUTCH c q)" using b by (simp add: q_ok_def h)
  show "set (q_list (PUTCH c q)) \<subseteq> insert c (set (q_list q))"
  proof (cases "FULL q")
    case True
    then have "q_len q = 1023" using FULL_iff [OF assms] by simp
    then have "q_len (PUTCH c q) = 0"
      using q_len_cases [OF assms] q_len_cases [OF ok] b unfolding h by (cases "unat (q_head q) = 1023") (auto split: if_splits)
    then show ?thesis by (simp add: q_list_def)
  next
    case False
    then show ?thesis using PUTCH_list [OF assms False] by auto
  qed
qed

lemma con_state_keeps [simp]:
  "con_state (scrup t) = con_state t" "con_state (lf t) = con_state t" "con_state (cr t) = con_state t" "con_state (del t) = con_state t"
  "con_state (put_cell b t) = con_state t" "con_state (wrap_line t) = con_state t" "con_state (con_tab t) = con_state t"
proof -
  show s: "con_state (scrup t) = con_state t" for t by (simp add: scrup_def scroll_copy_def Let_def set_origin_def vout_def)
  show l: "con_state (lf t) = con_state t" for t by (simp add: lf_def s)
  show "con_state (cr t) = con_state t" "con_state (del t) = con_state t" "con_state (put_cell b t) = con_state t"
    by (simp_all add: cr_def del_def put_cell_def)
  show w: "con_state (wrap_line t) = con_state t" for t by (simp add: wrap_line_def l)
  show "con_state (con_tab t) = con_state t" by (simp add: con_tab_def Let_def w)
qed

lemma con_plain_quiet:
  "b \<noteq> 27 \<Longrightarrow> con_state (con (con_plain n b s)) = con_state (con s)"
  "tty_table (con_plain n b s) = tty_table s"
proof -
  assume "b \<noteq> 27"
  then have "sint b \<noteq> 27" using signed_word_eqI [of b 27] by auto
  then show "con_state (con (con_plain n b s)) = con_state (con s)"
    by (simp add: con_plain_def Let_def upd_con_def sysbeep_def outb_def)
qed (simp add: con_plain_def Let_def upd_con_def sysbeep_def outb_def)

lemma con_loop_quiet:
  assumes "con_state (con s) = 0" "q_ok (write_q (tty_table s n))" "q_list (write_q (tty_table s n)) = cs" "27 \<notin> set cs"
  shows "\<exists>s' q. con_loop (length cs) cooked n s = Ret () s' \<and> con_state (con s') = 0 \<and>
    tty_table s' n = (tty_table s n)\<lparr>write_q := q\<rparr> \<and> q_ok q \<and> q_list q = []"
  using assms
proof (induction cs arbitrary: s)
  case Nil
  then show ?case by (intro exI [of _ s] exI [of _ "write_q (tty_table s n)"]) simp
next
  case (Cons c cs)
  let ?w = "write_q (tty_table s n)"
  have "\<not> EMPTY ?w" using EMPTY_iff [OF Cons.prems(2)] Cons.prems(3) by simp
  then obtain q where q: "GETCH ?w = (c, q)" "q_ok q" "q_list q = cs"
    using GETCH_list [OF Cons.prems(2)] Cons.prems(3) by (cases "GETCH ?w") auto
  let ?s1 = "con_plain n c (upd_tty n (\<lambda>t. t\<lparr>write_q := q\<rparr>) s)"
  have t: "tty_table ?s1 n = (tty_table s n)\<lparr>write_q := q\<rparr>" "con_state (con ?s1) = 0"
    using con_plain_quiet [where b = c and n = n and s = "upd_tty n (\<lambda>t. t\<lparr>write_q := q\<rparr>) s"] Cons.prems(1,4) by (simp_all add: upd_tty_def)
  have "con_loop (length (c # cs)) cooked n s = con_loop (length cs) cooked n ?s1"
    using q(1) Cons.prems(1) by (simp add: con_char_def upd_tty_def)
  moreover obtain s' r where "con_loop (length cs) cooked n ?s1 = Ret () s'" "con_state (con s') = 0"
    "tty_table s' n = (tty_table ?s1 n)\<lparr>write_q := r\<rparr>" "q_ok r" "q_list r = []"
    using Cons.IH [of ?s1] t q Cons.prems(4) by auto
  ultimately show ?case using t(1) by auto
qed

lemma tty_out_quiet:
  assumes "echo_quiet n s" "L_FLAG (tty_table s n) ECHO"
  shows "\<exists>s' q. tty_out (Suc d) n s = Ret () s' \<and> echo_quiet n s' \<and> tty_table s' n = (tty_table s n)\<lparr>write_q := q\<rparr>"
proof (cases "t_write (tty_table s n)")
  case Con_write
  let ?w = "write_q (tty_table s n)"
  have w: "con_state (con s) = 0" "q_ok ?w" "27 \<notin> set (q_list ?w)" using assms Con_write by (simp_all add: echo_quiet_def)
  obtain s' q where l: "con_loop (length (q_list ?w)) (copy_to_cooked (tty_out d)) n s = Ret () s'" "con_state (con s') = 0"
    "tty_table s' n = (tty_table s n)\<lparr>write_q := q\<rparr>" "q_ok q" "q_list q = []" using con_loop_quiet [OF w(1,2) refl w(3)] by blast
  have "con_state (con (upd_con set_cursor s')) = 0" "tty_table (upd_con set_cursor s') = tty_table s'"
    using l(2) by (simp_all add: upd_con_def set_cursor_def vout_def)
  moreover have "tty_out (Suc d) n s = Ret () (upd_con set_cursor s')"
    using l(1) Con_write q_len_CHARS [OF w(2)] by (simp add: con_write_def)
  ultimately show ?thesis using l by (intro exI [of _ "upd_con set_cursor s'"] exI [of _ q]) (simp add: echo_quiet_def)
next
  case Rs_write
  have "tty_table (rs_write n s) n = (tty_table s n)\<lparr>write_q := write_q (tty_table s n)\<rparr>"
    by (simp add: rs_write_def Let_def outb_def)
  moreover have "echo_quiet n (rs_write n s)" using Rs_write calculation by (simp add: echo_quiet_def)
  ultimately show ?thesis using Rs_write by (intro exI [of _ "rs_write n s"] exI [of _ "write_q (tty_table s n)"]) simp
qed

interpretation tty: line_echo "tty_out (Suc d)" n "echo_quiet n"
proof
  fix s s' :: "'a chr_scheme" and c :: u8
  show "\<exists>s' q. tty_out (Suc d) n s = Ret () s' \<and> echo_quiet n s' \<and> tty_table s' n = (tty_table s n)\<lparr>write_q := q\<rparr>"
    if "echo_quiet n s" "L_FLAG (tty_table s n) ECHO" using tty_out_quiet that by blast
  show "echo_quiet n (put_write n c s)" if "echo_quiet n s" "c \<noteq> 27"
    using that PUTCH_any [of "write_q (tty_table s n)" c] by (auto simp: echo_quiet_def put_write_def upd_tty_def L_FLAG_def)
  show "echo_quiet n s'" if "echo_quiet n s" "con s' = con s" "write_q (tty_table s' n) = write_q (tty_table s n)"
    "t_write (tty_table s' n) = t_write (tty_table s n)" "t_termios (tty_table s' n) = t_termios (tty_table s n)"
    using that by (simp add: echo_quiet_def L_FLAG_def)
qed

text \<open>C15: The input of a terminal is a line editor, with and without echo.  With room for the input, the keyboard or serial interrupt takes
  every waiting character, and what readers then find is the result of editing: carriage returns translated
  or dropped, upper case folded on request, the last character or the whole unfinished line erased on request, control
  characters acted upon and not stored, the rest appended.  With echo on a console it must be waiting for plain characters, and
  two kinds of input are excluded: \<open>0xDB\<close>, whose echo would put it into an escape sequence, and with case folding the
  characters below -1, for which \<open>tolower\<close> reads outside its table.\<close>

theorem copy_to_cooked_edits:
  assumes "n < 3" "q_ok (secondary (tty_table s n))" "q_ok (read_q (tty_table s n))" "echo_quiet n s"
    "\<forall>b\<in>set (q_list (read_q (tty_table s n))). harmless (tty_table s n) b"
    "length (q_list (secondary (tty_table s n))) + length (q_list (read_q (tty_table s n))) \<le> 1023"
  shows "\<exists>s'. do_tty_interrupt n s = Ret () s' \<and> EMPTY (read_q (tty_table s' n)) \<and> echo_quiet n s' \<and>
    q_list (secondary (tty_table s' n)) =
      fold (edit_spec (tty_table s n)) (q_list (read_q (tty_table s n))) (q_list (secondary (tty_table s n)))"
proof -
  have "length (q_list (read_q (tty_table s n))) < 1024" using q_len_less [of "read_q (tty_table s n)"] by simp
  then obtain s' where "cooked_loop 1024 (tty_out (Suc 1023)) n s = Ret () s'" "EMPTY (read_q (tty_table s' n))" "echo_quiet n s'"
    "q_list (sec n s') = fold (edit_spec (tty_table s n)) (q_list (read_q (tty_table s n))) (q_list (sec n s))"
    using tty.cooked_loop_ok [of n s "q_list (read_q (tty_table s n))" 1024 1023] assms by (auto simp: sec_def)
  moreover have "tty_table (wake_up get u) = tty_table u" "con (wake_up get u) = con u" for get and u :: "'a chr_scheme"
    by (simp_all add: wake_up_def upd_task_def)
  ultimately show ?thesis using assms(1) by (simp add: do_tty_interrupt_def copy_to_cooked_def sec_def echo_quiet_def)
qed

text \<open>A console with the settings of \<open>tty_table\<close>, echo on.\<close>

theorem copy_to_cooked_edits_witness:
  "\<exists>(s :: chr) s'. q_list (read_q (tty_table s 0)) = [97, 98, 127, 99, 13] \<and> L_FLAG (tty_table s 0) ECHO \<and>
     do_tty_interrupt 0 s = Ret () s' \<and> q_list (secondary (tty_table s' 0)) = [97, 99, 10]"
proof -
  let ?e = "\<lparr>q_data = 0, q_head = 0, q_tail = 0, proc_list = 0, q_buf = (\<lambda>_. 0)\<rparr>"
  let ?cc = "(\<lambda>_. 0)(VINTR := 3, VQUIT := 28, VERASE := 127, VKILL := 21, VEOF := 4, VSTART := 17, VSTOP := 19) :: nat \<Rightarrow> u8"
  let ?t = "(undefined :: tty_struct)\<lparr>t_termios := \<lparr>c_iflag = ICRNL, c_oflag = 0, c_cflag = 0, c_lflag = ISIG OR ICANON OR ECHO OR ECHOCTL,
    c_line = 0, c_cc = ?cc, c_pad = (0, 0)\<rparr>, t_write := Con_write, secondary := ?e, write_q := ?e, read_q := fold PUTCH [97, 98, 127, 99, 13] ?e\<rparr>"
  let ?s = "(undefined :: chr)\<lparr>con := (undefined :: console)\<lparr>con_state := 0\<rparr>, tty_table := (\<lambda>_. ?t)\<rparr>"
  have e: "q_ok ?e" "q_list ?e = []" by (simp_all add: q_ok_def q_list_def q_len_def)
  then have r: "q_ok (fold PUTCH [97, 98, 127, 99, 13] ?e)" "q_list (fold PUTCH [97, 98, 127, 99, 13] ?e) = [97, 98, 127, 99, 13]"
    using ring.put_all [of ?e "[97, 98, 127, 99, 13]"] by simp_all
  have f: "L_FLAG ?t ECHO" "\<not> I_FLAG ?t IUCLC" by (simp_all add: L_FLAG_def I_FLAG_def)
  have spec: "fold (edit_spec ?t) [97, 98, 127, 99, 13] [] = [97, 99, 10]"
    by (simp add: edit_spec_def cook_spec_def fold_case_def map_input_def erase_spec_def kill_spec_def line_end_def L_FLAG_def I_FLAG_def CC_def)
  have h: "\<forall>b\<in>set [97, 98, 127, 99, 13 :: u8]. harmless ?t b" using f(2) by (simp add: harmless_def)
  have q: "echo_quiet 0 ?s" using e by (simp add: echo_quiet_def)
  have "\<exists>s'. do_tty_interrupt 0 ?s = Ret () s' \<and> q_list (secondary (tty_table s' 0)) = [97, 99, 10]"
  proof -
    have t: "tty_table ?s 0 = ?t" "secondary ?t = ?e" "read_q ?t = fold PUTCH [97, 98, 127, 99, 13] ?e" by simp_all
    have "length (q_list ?e) + length (q_list (fold PUTCH [97, 98, 127, 99, 13] ?e)) \<le> 1023" unfolding r(2) e(2) by simp
    then have "\<exists>s'. do_tty_interrupt 0 ?s = Ret () s' \<and> EMPTY (read_q (tty_table s' 0)) \<and> echo_quiet 0 s' \<and>
        q_list (secondary (tty_table s' 0)) = fold (edit_spec ?t) [97, 98, 127, 99, 13] []"
      using copy_to_cooked_edits [of 0 ?s, OF _ _ _ q] e r h unfolding t by (simp only: simp_thms)
    then show ?thesis unfolding spec by blast
  qed
  moreover have "q_list (read_q (tty_table ?s 0)) = [97, 98, 127, 99, 13]" "L_FLAG (tty_table ?s 0) ECHO" using r(2) f(1) by simp_all
  ultimately show ?thesis by blast
qed

end
