(* ===== verification/Blk_Props.thy ===== *)
theory Blk_Props
  imports Blk_Dev
begin

unbundle bit_operations_syntax

text \<open>
  The elevator of \<open>add_request\<close> and the RAM disk as a store.

  A request queue is a list linked through \<open>r_next\<close>.  A queue in \<open>two sweeps\<close> is
  the concatenation of two ascending runs: the rest of the pass the device is on
  and the next pass.
\<close>

section \<open>Queues of requests\<close>

fun linked :: "fs \<Rightarrow> nat option \<Rightarrow> nat list \<Rightarrow> bool" where
  "linked s p [] \<longleftrightarrow> p = None"
| "linked s p (x # xs) \<longleftrightarrow> p = Some x \<and> linked s (r_next (request_tab s x)) xs"

definition before :: "fs \<Rightarrow> nat \<Rightarrow> nat \<Rightarrow> bool" where
  "before s x y \<longleftrightarrow> IN_ORDER (request_tab s x) (request_tab s y)"

definition two_sweeps :: "fs \<Rightarrow> nat list \<Rightarrow> bool" where
  "two_sweeps s xs \<longleftrightarrow> (\<exists>A B. xs = A @ B \<and> sorted_wrt (before s) A \<and> sorted_wrt (before s) B)"

text \<open>The elevator on lists: the position behind the first element is found by the test of the source.\<close>

fun elevate :: "fs \<Rightarrow> nat \<Rightarrow> nat list \<Rightarrow> nat list" where
  "elevate s r [] = [r]"
| "elevate s r [x] = [x, r]"
| "elevate s r (x # y # ys) =
     (if (before s x r \<or> \<not> before s x y) \<and> before s r y then x # r # y # ys
      else x # elevate s r (y # ys))"

lemma linked_cong:
  "(\<And>x. x \<in> set xs \<Longrightarrow> r_next (request_tab s x) = r_next (request_tab t x)) \<Longrightarrow> linked s p xs \<longleftrightarrow> linked t p xs"
  by (induction xs arbitrary: p) auto

lemma elevate_split: "xs \<noteq> [] \<Longrightarrow> \<exists>A B. xs = A @ B \<and> A \<noteq> [] \<and> elevate s r xs = A @ r # B"
proof (induction s r xs rule: elevate.induct)
  case (3 s r x y ys)
  show ?case
  proof (cases "(before s x r \<or> \<not> before s x y) \<and> before s r y")
    case True
    then show ?thesis by - (rule exI [of _ "[x]"], rule exI [of _ "y # ys"], simp)
  next
    case False
    obtain A B where "y # ys = A @ B" "A \<noteq> []" "elevate s r (y # ys) = A @ r # B"
      using 3 False by auto
    moreover have "elevate s r (x # y # ys) = x # elevate s r (y # ys)" by (simp only: elevate.simps(3) False if_False)
    ultimately have "x # y # ys = (x # A) @ B \<and> x # A \<noteq> [] \<and> elevate s r (x # y # ys) = (x # A) @ r # B"
      by (metis append_Cons list.distinct(1))
    then show ?thesis by blast
  qed
next
  case (2 s r x)
  show ?case by (rule exI [of _ "[x]"], rule exI [of _ "[]"], simp)
qed simp

lemma hd_elevate: "xs \<noteq> [] \<Longrightarrow> hd (elevate s r xs) = hd xs"
  using elevate_split [of xs s r] by auto

section \<open>The order of requests\<close>

lemma before_irrefl [simp]: "\<not> before s x x"
  by (simp add: before_def IN_ORDER_def)

lemma before_trans: "before s x y \<Longrightarrow> before s y z \<Longrightarrow> before s x z"
  unfolding before_def IN_ORDER_def by (elim disjE conjE) (simp_all, fastforce?)

definition same_key :: "fs \<Rightarrow> nat \<Rightarrow> nat \<Rightarrow> bool" where
  "same_key s x y \<longleftrightarrow> r_cmd (request_tab s x) = r_cmd (request_tab s y) \<and>
     r_dev (request_tab s x) = r_dev (request_tab s y) \<and> r_sector (request_tab s x) = r_sector (request_tab s y)"

lemma before_linear: "\<not> same_key s x y \<Longrightarrow> before s x y \<or> before s y x"
  unfolding same_key_def before_def IN_ORDER_def by (meson linorder_neqE)

lemma before_asym: "before s x y \<Longrightarrow> \<not> before s y x"
  using before_trans before_irrefl by blast

section \<open>Insertion keeps two sweeps\<close>

lemma set_elevate: "set (elevate s r xs) = insert r (set xs)"
  by (cases "xs = []") (use elevate_split [of xs s r] in auto)

lemma sorted_Cons_hd:
  "sorted_wrt (before s) A \<Longrightarrow> A = [] \<or> before s x (hd A) \<Longrightarrow> sorted_wrt (before s) (x # A)"
  by (cases A) (auto intro: before_trans)

lemma elevate_run:
  assumes "sorted_wrt (before s) (x # xs)" "before s x r" "\<forall>z\<in>set xs. \<not> same_key s z r"
  shows "sorted_wrt (before s) (elevate s r (x # xs))"
  using assms
proof (induction xs arbitrary: x)
  case (Cons y ys)
  show ?case
  proof (cases "before s r y")
    case True
    with Cons.prems show ?thesis by (auto intro: before_trans)
  next
    case False
    then have "before s y r" using before_linear [of s y r] Cons.prems(3) by auto
    then have "sorted_wrt (before s) (elevate s r (y # ys))" using Cons by simp
    moreover have "hd (elevate s r (y # ys)) = y" by (simp add: hd_elevate del: elevate.simps)
    ultimately have "sorted_wrt (before s) (x # elevate s r (y # ys))"
      using Cons.prems(1) by (intro sorted_Cons_hd) simp_all
    then show ?thesis using False by simp
  qed
qed simp

lemma elevate_behind:
  "sorted_wrt (before s) (x # xs) \<Longrightarrow> \<not> before s x r \<Longrightarrow> elevate s r (x # xs) = x # xs @ [r]"
proof (induction xs arbitrary: x)
  case (Cons y ys)
  then have "\<not> before s y r" using before_trans by (meson list.set_intros(1) sorted_wrt.simps(2))
  then have "elevate s r (y # ys) = y # ys @ [r]" using Cons by simp
  then show ?case using Cons.prems by simp
qed simp

lemma elevate_two_runs:
  assumes "sorted_wrt (before s) A" "A \<noteq> []" "sorted_wrt (before s) (y # B)" "\<not> before s (last A) y"
    "\<forall>z\<in>set (A @ y # B). \<not> same_key s z r"
  shows "\<exists>A1 B1. elevate s r (A @ y # B) = A1 @ B1 \<and> A1 \<noteq> [] \<and> hd A1 = hd A \<and>
           sorted_wrt (before s) A1 \<and> sorted_wrt (before s) B1"
  using assms
proof (induction A)
  case (Cons x A')
  show ?case
  proof (cases A')
    case Nil
    have x: "\<not> before s x y" using Cons.prems(4) Nil by simp
    show ?thesis
    proof (cases "before s r y")
      case True
      have "sorted_wrt (before s) (r # y # B)"
        using True Cons.prems(3) by (subst sorted_wrt.simps) (auto intro: before_trans)
      then show ?thesis using True x Nil by - (rule exI [of _ "[x]"], rule exI [of _ "r # y # B"], simp)
    next
      case False
      then have "before s y r" using before_linear [of s y r] Cons.prems(5) by auto
      then have "sorted_wrt (before s) (elevate s r (y # B))" using Cons.prems by (intro elevate_run) auto
      then show ?thesis using False Nil by - (rule exI [of _ "[x]"], rule exI [of _ "elevate s r (y # B)"], simp)
    qed
  next
    case (Cons x' A'')
    have xx: "before s x x'" using Cons.prems(1) Cons by simp
    show ?thesis
    proof (cases "before s x r \<and> before s r x'")
      case True
      have "sorted_wrt (before s) (x # r # x' # A'')"
        using True Cons.prems(1) \<open>A' = x' # A''\<close> by (auto intro: before_trans)
      then show ?thesis using True Cons.prems(3) \<open>A' = x' # A''\<close>
        by - (rule exI [of _ "x # r # x' # A''"], rule exI [of _ "y # B"], simp)
    next
      case False
      obtain A1 B1 where IH: "elevate s r (A' @ y # B) = A1 @ B1" "A1 \<noteq> []" "hd A1 = hd A'"
        "sorted_wrt (before s) A1" "sorted_wrt (before s) B1"
        using Cons.IH Cons.prems \<open>A' = x' # A''\<close> by auto
      have "sorted_wrt (before s) (x # A1)"
        using IH(2,3,4) xx \<open>A' = x' # A''\<close> by (intro sorted_Cons_hd) simp_all
      moreover have "elevate s r (x # A' @ y # B) = x # elevate s r (A' @ y # B)"
        using False xx \<open>A' = x' # A''\<close> by auto
      ultimately show ?thesis using IH
        by - (rule exI [of _ "x # A1"], rule exI [of _ B1], simp)
    qed
  qed
qed simp

lemma two_sweeps_run: "sorted_wrt (before s) A \<Longrightarrow> two_sweeps s A"
  unfolding two_sweeps_def by - (rule exI [of _ A], rule exI [of _ "[]"], simp)

lemma two_sweeps_elevate:
  assumes "two_sweeps s xs" "\<forall>z\<in>set xs. \<not> same_key s z r"
  shows "two_sweeps s (elevate s r xs)"
proof -
  obtain A B where AB: "xs = A @ B" "sorted_wrt (before s) A" "sorted_wrt (before s) B"
    using assms(1) unfolding two_sweeps_def by blast
  have run: "two_sweeps s (elevate s r xs)" if "sorted_wrt (before s) xs"
  proof (cases xs)
    case (Cons x ys)
    show ?thesis
    proof (cases "before s x r")
      case True
      then show ?thesis using that assms(2) Cons by (intro two_sweeps_run) (auto intro: elevate_run)
    next
      case False
      then have "elevate s r xs = xs @ [r]" using that Cons elevate_behind by simp
      then show ?thesis using that unfolding two_sweeps_def by - (rule exI [of _ xs], rule exI [of _ "[r]"], simp)
    qed
  qed (simp add: two_sweeps_run)
  show ?thesis
  proof (cases "A = [] \<or> B = [] \<or> before s (last A) (hd B)")
    case True
    then have "sorted_wrt (before s) xs"
    proof (elim disjE)
      assume l: "before s (last A) (hd B)"
      show ?thesis
      proof (cases "A = [] \<or> B = []")
        case False
        have "before s a b" if "a \<in> set A" "b \<in> set B" for a b
        proof -
          have "a = last A \<or> before s a (last A)"
            using that(1) AB(2) False by (metis append_butlast_last_id in_set_conv_decomp_last list.set_intros(1) set_ConsD sorted_wrt_append append_Nil2 rotate1.simps(2) set_rotate1)
          moreover have "b = hd B \<or> before s (hd B) b"
            using that(2) AB(3) False by (cases B) auto
          ultimately show ?thesis using l before_trans by metis
        qed
        then show ?thesis using AB by (simp add: sorted_wrt_append)
      qed (use AB in auto)
    qed (use AB in auto)
    then show ?thesis by (rule run)
  next
    case False
    then obtain y B' where B: "B = y # B'" by (cases B) auto
    show ?thesis
      using elevate_two_runs [of s A y B' r] False AB B assms(2) unfolding two_sweeps_def by (simp, blast)
  qed
qed

section \<open>The search of the source\<close>

lemma elevator_elevate:
  assumes "linked s (Some c) xs" "length xs \<le> k"
  shows "\<exists>A p B. xs = A @ p # B \<and> elevator k c r s = Some p \<and> elevate s r xs = A @ p # r # B"
  using assms
proof (induction xs arbitrary: c k)
  case (Cons x xs)
  obtain k' where k: "k = Suc k'" "length xs \<le> k'" using Cons.prems(2) by (cases k) auto
  have c: "c = x" using Cons.prems(1) by simp
  show ?case
  proof (cases xs)
    case Nil
    then show ?thesis using Cons.prems(1) k c by - (rule exI [of _ "[]"], rule exI [of _ x], rule exI [of _ "[]"], simp)
  next
    case (Cons y ys)
    have n: "r_next (request_tab s x) = Some y" and l: "linked s (Some y) xs"
      using Cons.prems(1) \<open>xs = y # ys\<close> by simp_all
    show ?thesis
    proof (cases "(before s x r \<or> \<not> before s x y) \<and> before s r y")
      case True
      then have "elevator k c r s = Some x" "elevate s r (x # xs) = x # r # xs"
        using k(1) c n \<open>xs = y # ys\<close> by (simp_all add: before_def)
      then show ?thesis by - (rule exI [of _ "[]"], rule exI [of _ x], rule exI [of _ xs], simp)
    next
      case False
      obtain A p B where IH: "xs = A @ p # B" "elevator k' y r s = Some p" "elevate s r xs = A @ p # r # B"
        using Cons.IH [OF l k(2)] by blast
      have "elevator k c r s = elevator k' y r s"
        using False k(1) c n by (auto simp: before_def)
      moreover have "elevate s r (x # xs) = x # elevate s r xs"
        by (simp only: \<open>xs = y # ys\<close> elevate.simps(3) False if_False)
      ultimately show ?thesis using IH by - (rule exI [of _ "x # A"], rule exI [of _ p], rule exI [of _ B], simp)
    qed
  qed
qed simp

lemma linked_insert:
  assumes "linked s p (A @ x # B)" "distinct (A @ x # B)" "r \<notin> set (A @ x # B)"
    and t: "r_next (request_tab t r) = r_next (request_tab s x)" "r_next (request_tab t x) = Some r"
      "\<And>y. y \<noteq> r \<Longrightarrow> y \<noteq> x \<Longrightarrow> r_next (request_tab t y) = r_next (request_tab s y)"
  shows "linked t p (A @ x # r # B)"
  using assms(1-3)
proof (induction A arbitrary: p)
  case Nil
  have "linked t (r_next (request_tab s x)) B \<longleftrightarrow> linked s (r_next (request_tab s x)) B"
    using Nil t(3) by (intro linked_cong) (metis append_Nil distinct.simps(2) list.set_intros(2))
  then show ?case using Nil t by simp
qed (use t(3) in auto)

lemma before_cong:
  "(\<And>z. r_cmd (request_tab t z) = r_cmd (request_tab s z) \<and> r_dev (request_tab t z) = r_dev (request_tab s z) \<and>
        r_sector (request_tab t z) = r_sector (request_tab s z)) \<Longrightarrow> before t = before s"
  by (intro ext) (simp add: before_def IN_ORDER_def)

lemma card_queue: "distinct xs \<Longrightarrow> set xs \<subseteq> {..<n} \<Longrightarrow> length xs \<le> n"
  by (metis card_lessThan card_mono distinct_card finite_lessThan)

text \<open>C17: A request that finds its device busy is put into the queue behind the
  request in service and never in front of it; the other requests keep their
  order; and when the queue is made of two ascending sweeps over the disk (reads
  before writes, then by device and sector) and no queued request is for the same
  transfer, it still is.\<close>

theorem add_request_elevator:
  assumes "linked s (current_request s major) xs" "xs \<noteq> []" "distinct xs" "set xs \<subseteq> {..<NR_REQUEST}"
    "req \<notin> set xs" "two_sweeps s xs" "\<forall>z\<in>set xs. \<not> same_key s z req"
  shows "\<exists>s' A B. add_request E major req s = Ret () s' \<and> xs = A @ B \<and> A \<noteq> [] \<and>
           linked s' (current_request s' major) (A @ req # B) \<and>
           current_request s' = current_request s \<and> two_sweeps s' (A @ req # B)"
proof -
  define s1 where "s1 = upd_req req (\<lambda>r. r\<lparr>r_next := None\<rparr>) s"
  define s2 where "s2 = (case r_bh (request_tab s1 req) of
                  Some b \<Rightarrow> upd_bh b (\<lambda>h. h\<lparr>b_dirt := 0\<rparr>) s1 | None \<Rightarrow> s1)"
  have s2: "request_tab s2 = request_tab s1" "current_request s2 = current_request s"
    by (auto simp: s2_def s1_def split: option.splits)
  obtain c where c: "current_request s major = Some c" using assms(1,2) by (cases xs) auto
  have bef: "before s2 = before s" by (rule before_cong) (simp add: s2 s1_def)
  have "linked s2 (Some c) xs \<longleftrightarrow> linked s (Some c) xs"
    using assms(5) by (intro linked_cong) (auto simp: s2 s1_def)
  then have l: "linked s2 (Some c) xs" using assms(1) c by simp
  have "length xs \<le> NR_REQUEST + 1" using card_queue [OF assms(3,4)] by simp
  from elevator_elevate [OF l this, of req] obtain A p B where
    e: "xs = A @ p # B" "elevator (NR_REQUEST + 1) c req s2 = Some p" "elevate s2 req xs = A @ p # req # B"
    by blast
  define s' where "s' = upd_req p (\<lambda>r. r\<lparr>r_next := Some req\<rparr>)
                         (upd_req req (\<lambda>r. r\<lparr>r_next := r_next (request_tab s2 p)\<rparr>) s2)"
  have ret: "add_request E major req s = Ret () s'"
    using c e(2) s2(2) unfolding add_request_def Let_def s1_def [symmetric] s2_def [symmetric] s'_def
    by simp
  have "linked s' (Some c) (A @ p # req # B)"
    using l assms(3,5) unfolding e(1) by (rule linked_insert) (use assms(5) e(1) in \<open>auto simp: s'_def\<close>)
  moreover have bef': "before s' = before s2" by (rule before_cong) (simp add: s'_def)
  have "two_sweeps s2 (elevate s2 req xs)"
    using assms(6,7) s2 bef by (intro two_sweeps_elevate) (auto simp: two_sweeps_def same_key_def s1_def)
  then have "two_sweeps s' (A @ p # req # B)" unfolding e(3) two_sweeps_def bef' .
  moreover have "current_request s' = current_request s" by (simp add: s'_def s2)
  ultimately show ?thesis using ret e(1) c
    by - (rule exI [of _ s'], rule exI [of _ "A @ [p]"], rule exI [of _ B], simp)
qed

definition demo_rq :: fs where
  "demo_rq = (undefined :: fs)\<lparr>request_tab := (\<lambda>i. \<lparr>r_dev = 0x301, r_cmd = READ, r_errors = 0,
       r_sector = (if i = 0 then 40 else if i = 1 then 60 else 50), r_nr_sectors = 2, r_buffer = (i, 0),
       r_waiting = 0, r_bh = Some i, r_next = (if i = 0 then Some 1 else None)\<rparr>),
     current_request := (\<lambda>_. Some 0)\<rparr>"

theorem add_request_elevator_witness:
  "\<exists>s' A B. add_request \<lparr>k_env = \<lambda>_ s. s, k_dev = \<lambda>_. Ret ()\<rparr> 3 2 demo_rq = Ret () s' \<and> [0, 1] = A @ B \<and> A \<noteq> [] \<and>
     linked s' (current_request s' 3) (A @ 2 # B) \<and> current_request s' = current_request demo_rq \<and>
     two_sweeps s' (A @ 2 # B)"
proof (rule add_request_elevator)
  show "two_sweeps demo_rq [0, 1]"
    by (rule two_sweeps_run) (simp add: demo_rq_def before_def IN_ORDER_def)
qed (auto simp: demo_rq_def same_key_def)

section \<open>The RAM disk as a store\<close>

lemma find_request_free:
  "find_request rw s = Some r \<Longrightarrow> r < NR_REQUEST"
  by (auto simp: find_request_def find_Some_iff rev_nth split: if_splits)

lemma find_request_READ:
  assumes "r < NR_REQUEST" "r_dev (request_tab s r) < 0"
  shows "\<exists>r'. find_request READ s = Some r'"
proof -
  have "find_request READ s \<noteq> None" using assms by (auto simp: find_request_def find_None_iff)
  then show ?thesis by blast
qed

text \<open>The byte range of a block of the RAM disk, when it lies inside.\<close>

definition rd_block_ok :: "u32 \<Rightarrow> fs \<Rightarrow> bool" where
  "rd_block_ok blk s \<longleftrightarrow> unat blk * BLOCK_SIZE + BLOCK_SIZE \<le> unat (rd_length s) \<and>
     unat (rd_start s) + unat (rd_length s) < 2 ^ 32"

lemma rd_addr:
  assumes "rd_block_ok blk s"
  shows "unat (push_bit 9 (push_bit 1 blk)) = unat blk * 1024"
    and "\<not> rd_start s + push_bit 9 (push_bit 1 blk) + 1024 > rd_start s + rd_length s"
proof -
  have b: "unat blk * 1024 + 1024 \<le> unat (rd_length s)" "unat (rd_start s) + unat (rd_length s) < 4294967296"
    using assms by (simp_all add: rd_block_ok_def)
  have "push_bit 9 (push_bit 1 blk) = blk * 1024" by (simp add: push_bit_eq_mult)
  then show u: "unat (push_bit 9 (push_bit 1 blk)) = unat blk * 1024"
    using b by (simp add: unat_word_ariths)
  have "unat (rd_start s + push_bit 9 (push_bit 1 blk) + 1024) = unat (rd_start s) + (unat blk * 1024 + 1024)"
    "unat (rd_start s + rd_length s) = unat (rd_start s) + unat (rd_length s)"
    using b u by (simp_all add: unat_word_ariths)
  then show "\<not> rd_start s + push_bit 9 (push_bit 1 blk) + 1024 > rd_start s + rd_length s"
    using b by (simp add: word_less_nat_alt)
qed

text \<open>What one block transfer leaves behind.\<close>

definition rd_done :: "int \<Rightarrow> nat \<Rightarrow> fs \<Rightarrow> fs \<Rightarrow> bool" where
  "rd_done rw b s s' \<longleftrightarrow>
     (let k = unat (b_blocknr (buffers s b)) * BLOCK_SIZE; d = b_data (buffers s b) in
      rd_mem s' = (\<lambda>i. if rw = WRITE \<and> k \<le> i \<and> i < k + BLOCK_SIZE then d (i - k) else rd_mem s i) \<and>
      buffers s' = (buffers s)(b := (buffers s b)\<lparr>b_lock := 0, b_dirt := 0, b_uptodate := 1,
        b_data := (\<lambda>i. if rw = READ \<and> i < BLOCK_SIZE then rd_mem s (k + i) else d i)\<rparr>))"

lemma rd_transfer_block:
  assumes "current_request s 1 = Some r" "r_bh (request_tab s r) = Some b" "r_buffer (request_tab s r) = (b, 0)"
    "r_sector (request_tab s r) = push_bit 1 (b_blocknr (buffers s b))" "r_nr_sectors (request_tab s r) = 2"
    "r_dev (request_tab s r) = 0x101" "rd_block_ok (b_blocknr (buffers s b)) s" "b_dirt (buffers s b) = 0"
    "r_cmd (request_tab s r) = rw" "rw = WRITE \<or> rw = READ" "r_next (request_tab s r) = None"
  shows "\<exists>s'. rd_transfer (request_tab s r) s = Ret () s' \<and> rd_done rw b s s' \<and> current_request s' 1 = None \<and>
           request_fn s' = request_fn s \<and> rd_start s' = rd_start s \<and> rd_length s' = rd_length s \<and>
           r_dev (request_tab s' r) < 0"
proof -
  let ?blk = "b_blocknr (buffers s b)"
  define t where "t = (if rw = WRITE then rd_write (unat ?blk * 1024) (b, 0) 1024 s else rd_read (b, 0) (unat ?blk * 1024) 1024 s)"
  have "rd_transfer (request_tab s r) s = end_request 1 (\<lambda>_ s. Ret () s) 1 t"
    using assms rd_addr [OF assms(7)] unfolding rd_transfer_def Let_def t_def
    by (auto simp: MINOR_def rd_block_ok_def push_bit_eq_mult)
  moreover have "current_request t = current_request s" "request_tab t = request_tab s" "request_fn t = request_fn s"
    "rd_start t = rd_start s" "rd_length t = rd_length s"
    by (simp_all add: t_def rd_write_def rd_read_def)
  ultimately show ?thesis using assms
    by (auto simp: end_request_def unlock_buffer_def rd_done_def t_def rd_write_def rd_read_def Let_def fun_eq_iff)
qed

lemma rd_op:
  assumes E: "k_dev E 1 = do_rd_request" and q: "current_request s 1 = None" and fn: "request_fn s 1"
    and b: "b_dev (buffers s b) = 0x101" "b_lock (buffers s b) = 0" "rd_block_ok (b_blocknr (buffers s b)) s"
    and rw: "rw = WRITE \<and> b_dirt (buffers s b) \<noteq> 0 \<or> rw = READ \<and> b_uptodate (buffers s b) = 0"
    and r: "find_request rw s = Some r"
  shows "\<exists>s'. ll_rw_block E rw b s = Ret () s' \<and> rd_done rw b s s' \<and> current_request s' 1 = None \<and>
           request_fn s' = request_fn s \<and> rd_start s' = rd_start s \<and> rd_length s' = rd_length s \<and>
           (\<exists>r'. find_request READ s' = Some r')"
proof -
  define s1 where "s1 = upd_bh b (\<lambda>h. h\<lparr>b_lock := 1\<rparr>) s"
  define s2 where "s2 = fill_request r rw b s1"
  define s3 where "s3 = (upd_bh b (\<lambda>h. h\<lparr>b_dirt := 0\<rparr>) (upd_req r (\<lambda>r. r\<lparr>r_next := None\<rparr>) s2))
                          \<lparr>current_request := (current_request s)(1 := Some r)\<rparr>"
  have f: "find_request rw s1 = Some r" using r by (simp add: s1_def find_request_def)
  have "ll_rw_block E rw b s = make_request E 1 rw b s"
    using fn b(1) by (simp add: ll_rw_block_def MAJOR_def)
  also have "\<dots> = add_request E 1 r s2"
    using rw b(2) f unfolding make_request_def lock_buffer_def wait_on_buffer_def s2_def s1_def Let_def by auto
  also have "\<dots> = do_rd_request s3"
    using q E by (simp add: add_request_def s3_def s2_def fill_request_def s1_def)
  finally have call: "ll_rw_block E rw b s = do_rd_request s3" .
  have "\<exists>s'. rd_transfer (request_tab s3 r) s3 = Ret () s' \<and> rd_done rw b s3 s' \<and> current_request s' 1 = None \<and>
           request_fn s' = request_fn s3 \<and> rd_start s' = rd_start s3 \<and> rd_length s' = rd_length s3 \<and>
           r_dev (request_tab s' r) < 0"
    by (rule rd_transfer_block) (use b rw in \<open>auto simp: s3_def s2_def s1_def fill_request_def rd_block_ok_def\<close>)
  then obtain s' where s': "rd_transfer (request_tab s3 r) s3 = Ret () s'" "rd_done rw b s3 s'"
    "current_request s' 1 = None" "request_fn s' = request_fn s3" "rd_start s' = rd_start s3"
    "rd_length s' = rd_length s3" "r_dev (request_tab s' r) < 0" by blast
  have "INIT_REQUEST 1 s3 = Ret (Some r) s3"
    by (simp add: INIT_REQUEST_def s3_def s2_def s1_def fill_request_def MAJOR_def b)
  then have "do_rd_request s3 = Ret () s'"
    using s'(1,3) by (simp add: do_rd_request_def numeral_eq_Suc INIT_REQUEST_def)
  moreover have m: "rd_mem s3 = rd_mem s" "buffers s3 = (buffers s)(b := (buffers s b)\<lparr>b_lock := 1, b_dirt := 0\<rparr>)"
    by (simp_all add: s3_def s2_def s1_def fill_request_def)
  have "rd_done rw b s s'" using s'(2) by (simp add: rd_done_def Let_def m cong: if_cong)
  ultimately show ?thesis
    using call s' find_request_READ [OF find_request_free [OF r] s'(7)]
    by (simp add: s3_def s2_def s1_def fill_request_def)
qed

text \<open>C18: A block written to the RAM disk from one buffer and read back into
  another is the same 1024 bytes; the read buffer is up to date and unlocked, the
  written one clean, and no byte of the RAM disk outside the block has changed.\<close>

theorem ramdisk_roundtrip:
  assumes "k_dev E 1 = do_rd_request" "current_request s 1 = None" "request_fn s 1"
    "b_dev (buffers s b) = 0x101" "b_lock (buffers s b) = 0" "b_dirt (buffers s b) \<noteq> 0"
    "rd_block_ok (b_blocknr (buffers s b)) s" "find_request WRITE s = Some r"
    "b' \<noteq> b" "b_dev (buffers s b') = 0x101" "b_blocknr (buffers s b') = b_blocknr (buffers s b)"
    "b_lock (buffers s b') = 0" "b_uptodate (buffers s b') = 0"
  shows "\<exists>s1 s2. ll_rw_block E WRITE b s = Ret () s1 \<and> ll_rw_block E READ b' s1 = Ret () s2 \<and>
     (\<forall>i<BLOCK_SIZE. b_data (buffers s2 b') i = b_data (buffers s b) i) \<and>
     b_uptodate (buffers s2 b') = 1 \<and> b_lock (buffers s2 b') = 0 \<and> b_dirt (buffers s2 b) = 0 \<and>
     (\<forall>i. i div BLOCK_SIZE \<noteq> unat (b_blocknr (buffers s b)) \<longrightarrow> rd_mem s2 i = rd_mem s i)"
proof -
  obtain s1 r1 where s1: "ll_rw_block E WRITE b s = Ret () s1" "rd_done WRITE b s s1"
    "current_request s1 1 = None" "request_fn s1 = request_fn s" "rd_start s1 = rd_start s"
    "rd_length s1 = rd_length s" "find_request READ s1 = Some r1"
    using rd_op [of E s b WRITE r] assms by auto
  have b': "buffers s1 b' = buffers s b'" using s1(2) assms(9) by (simp add: rd_done_def Let_def)
  obtain s2 where s2: "ll_rw_block E READ b' s1 = Ret () s2" "rd_done READ b' s1 s2"
    using rd_op [of E s1 b' READ r1] assms s1 b' by (auto simp: rd_block_ok_def)
  have "rd_mem s2 i = rd_mem s i" if "i div BLOCK_SIZE \<noteq> unat (b_blocknr (buffers s b))" for i
  proof -
    have "\<not> (unat (b_blocknr (buffers s b)) * 1024 \<le> i \<and> i < unat (b_blocknr (buffers s b)) * 1024 + 1024)"
      using that by (auto simp: div_nat_eqI algebra_simps)
    then have "rd_mem s1 i = rd_mem s i" using s1(2) by (auto simp: rd_done_def Let_def)
    then show ?thesis using s2(2) by (simp add: rd_done_def Let_def)
  qed
  then show ?thesis using s1(1,2) s2 assms(9,11) b' by (auto simp: rd_done_def Let_def)
qed

definition demo_rd :: fs where
  "demo_rd = (undefined :: fs)\<lparr>request_tab := (\<lambda>i. \<lparr>r_dev = - 1, r_cmd = READ, r_errors = 0, r_sector = 0,
       r_nr_sectors = 0, r_buffer = (0, 0), r_waiting = 0, r_bh = None, r_next = None\<rparr>),
     current_request := (\<lambda>_. None), request_fn := (\<lambda>_. True), rd_start := 0x100000, rd_length := 0x10000,
     buffers := (\<lambda>b. \<lparr>b_addr = 0, b_data = (\<lambda>i. of_nat (i + b)), b_blocknr = 7, b_dev = 0x101, b_uptodate = of_bool (b = 0),
       b_dirt = of_bool (b = 0), b_count = 1, b_lock = 0, b_wait = 0, b_prev = None, b_next = None,
       b_prev_free = None, b_next_free = None\<rparr>)\<rparr>"

theorem ramdisk_roundtrip_witness:
  "\<exists>s1 s2. ll_rw_block \<lparr>k_env = \<lambda>_ s. s, k_dev = \<lambda>_. do_rd_request\<rparr> WRITE 0 demo_rd = Ret () s1 \<and>
     ll_rw_block \<lparr>k_env = \<lambda>_ s. s, k_dev = \<lambda>_. do_rd_request\<rparr> READ 1 s1 = Ret () s2 \<and>
     (\<forall>i<BLOCK_SIZE. b_data (buffers s2 1) i = b_data (buffers demo_rd 0) i) \<and>
     b_uptodate (buffers s2 1) = 1 \<and> b_lock (buffers s2 1) = 0 \<and> b_dirt (buffers s2 0) = 0 \<and>
     (\<forall>i. i div BLOCK_SIZE \<noteq> unat (b_blocknr (buffers demo_rd 0)) \<longrightarrow> rd_mem s2 i = rd_mem demo_rd i)"
proof (rule ramdisk_roundtrip)
  show "find_request WRITE demo_rd = Some 20"
    using upt_Suc [of 0 20] by (simp add: find_request_def demo_rd_def)
qed (simp_all add: demo_rd_def rd_block_ok_def)

end
