(* ===== verification/Blk_Live.thy ===== *)
theory Blk_Live
  imports Blk_Props
begin

unbundle bit_operations_syntax

text \<open>
  Progress of the RAM disk: a run of \<open>do_rd_request\<close> serves every request of the queue,
  good or bad, and makes every task that waits for one runnable.
\<close>

section \<open>One request\<close>

definition rd_fits :: "fs \<Rightarrow> request \<Rightarrow> bool" where
  "rd_fits s q \<longleftrightarrow> unat (push_bit 9 (r_sector q)) + 1024 \<le> unat (rd_length s)"

text \<open>A request as \<open>make_request\<close> fills it, for a locked buffer; addresses do not wrap around.\<close>

definition rd_request_ok :: "fs \<Rightarrow> nat \<Rightarrow> bool" where
  "rd_request_ok s r \<longleftrightarrow>
     (let q = request_tab s r in
      r_dev q = 0x101 \<and> (r_cmd q = READ \<or> r_cmd q = WRITE) \<and> r_nr_sectors q = 2 \<and>
      unat (rd_start s) + unat (push_bit 9 (r_sector q)) + 1024 < 2 ^ 32 \<and> unat (rd_start s) + unat (rd_length s) < 2 ^ 32 \<and>
      (\<exists>b. r_bh q = Some b \<and> r_buffer q = (b, 0) \<and> b_lock (buffers s b) \<noteq> 0))"

definition rd_buf :: "fs \<Rightarrow> nat \<Rightarrow> nat" where
  "rd_buf s r = the (r_bh (request_tab s r))"

text \<open>What serving the request \<open>r\<close> leaves behind.\<close>

definition rd_served :: "nat \<Rightarrow> fs \<Rightarrow> fs \<Rightarrow> bool" where
  "rd_served r s t \<longleftrightarrow>
     (let b = rd_buf s r in
      r_dev (request_tab t r) = - 1 \<and> b_lock (buffers t b) = 0 \<and>
      b_uptodate (buffers t b) = of_bool (rd_fits s (request_tab s r)) \<and>
      (b_wait (buffers s b) \<noteq> 0 \<longrightarrow> state (tstruct t (b_wait (buffers s b))) = TASK_RUNNING) \<and>
      (wait_for_request s \<noteq> 0 \<longrightarrow> state (tstruct t (wait_for_request s)) = TASK_RUNNING))"

text \<open>What it leaves alone: other requests and buffers; running tasks go on running.\<close>

definition rd_apart :: "nat \<Rightarrow> fs \<Rightarrow> fs \<Rightarrow> bool" where
  "rd_apart r s t \<longleftrightarrow>
     (\<forall>q. q \<noteq> r \<longrightarrow> request_tab t q = request_tab s q) \<and>
     (\<forall>c. c \<noteq> rd_buf s r \<longrightarrow> buffers t c = buffers s c) \<and>
     (\<forall>p. state (tstruct s p) = TASK_RUNNING \<longrightarrow> state (tstruct t p) = TASK_RUNNING) \<and>
     wait_for_request t = wait_for_request s \<and> rd_start t = rd_start s \<and> rd_length t = rd_length s"

lemma end_request_steps:
  assumes "current_request s 1 = Some r" "r_bh (request_tab s r) = Some b"
  shows "\<exists>t. end_request 1 (\<lambda>_ s. Ret () s) u s = Ret () t \<and>
    current_request t 1 = r_next (request_tab s r) \<and> request_tab t = (request_tab s)(r := (request_tab s r)\<lparr>r_dev := - 1\<rparr>) \<and>
    buffers t = (buffers s)(b := (buffers s b)\<lparr>b_uptodate := u, b_lock := 0\<rparr>) \<and>
    wait_for_request t = wait_for_request s \<and> rd_start t = rd_start s \<and> rd_length t = rd_length s \<and>
    (\<forall>p. state (tstruct s p) = TASK_RUNNING \<longrightarrow> state (tstruct t p) = TASK_RUNNING) \<and>
    (b_wait (buffers s b) \<noteq> 0 \<longrightarrow> state (tstruct t (b_wait (buffers s b))) = TASK_RUNNING) \<and>
    (wait_for_request s \<noteq> 0 \<longrightarrow> state (tstruct t (wait_for_request s)) = TASK_RUNNING)"
  using assms by (simp add: end_request_def Let_def unlock_buffer_def wake_up_def)

lemma rd_range:
  assumes "rd_request_ok s r"
  defines "q \<equiv> request_tab s r"
  shows "(rd_start s + push_bit 9 (r_sector q) + push_bit 9 (r_nr_sectors q) > rd_start s + rd_length s) = (\<not> rd_fits s q)"
proof -
  have b: "r_nr_sectors q = 2" "unat (rd_start s) + unat (push_bit 9 (r_sector q)) + 1024 < 4294967296"
    "unat (rd_start s) + unat (rd_length s) < 4294967296" using assms by (auto simp: rd_request_ok_def Let_def)
  have "unat (rd_start s + push_bit 9 (r_sector q) + 1024) = unat (rd_start s) + unat (push_bit 9 (r_sector q)) + 1024"
    "unat (rd_start s + rd_length s) = unat (rd_start s) + unat (rd_length s)"
    using b by (simp_all add: unat_word_ariths)
  then show ?thesis using b(1) by (auto simp: word_less_nat_alt rd_fits_def)
qed

lemma rd_step:
  assumes ok: "rd_request_ok s r" and cr: "current_request s 1 = Some r"
  shows "\<exists>t. rd_transfer (request_tab s r) s = Ret () t \<and> rd_served r s t \<and> rd_apart r s t \<and>
    current_request t 1 = r_next (request_tab s r)"
proof -
  let ?q = "request_tab s r"
  obtain b where b: "r_bh ?q = Some b" "r_buffer ?q = (b, 0)" and q: "r_dev ?q = 0x101" "r_cmd ?q = READ \<or> r_cmd ?q = WRITE" "r_nr_sectors ?q = 2"
    using ok by (auto simp: rd_request_ok_def Let_def)
  have rb: "rd_buf s r = b" using b(1) by (simp add: rd_buf_def)
  let ?off = "unat (push_bit 9 (r_sector ?q))"
  define u where "u = (if \<not> rd_fits s ?q then s else if r_cmd ?q = WRITE then rd_write ?off (b, 0) 1024 s else rd_read (b, 0) ?off 1024 s)"
  have e: "rd_transfer ?q s = end_request 1 (\<lambda>_ s. Ret () s) (of_bool (rd_fits s ?q)) u"
    using rd_range [OF ok] q b(2) unfolding rd_transfer_def Let_def u_def by (auto simp: MINOR_def rd_fits_def)
  have f: "current_request u 1 = Some r" "request_tab u = request_tab s" "wait_for_request u = wait_for_request s"
    "rd_start u = rd_start s" "rd_length u = rd_length s" "tstruct u = tstruct s" "b_wait (buffers u b) = b_wait (buffers s b)"
    "c \<noteq> b \<Longrightarrow> buffers u c = buffers s c" for c
    using cr by (auto simp: u_def rd_write_def rd_read_def)
  have "r_bh (request_tab u r) = Some b" using f(2) b(1) by simp
  from end_request_steps [OF f(1) this, of "of_bool (rd_fits s ?q)"] obtain t where
    t: "end_request 1 (\<lambda>_ s. Ret () s) (of_bool (rd_fits s ?q)) u = Ret () t" "current_request t 1 = r_next ?q"
      "request_tab t = (request_tab s)(r := (request_tab s r)\<lparr>r_dev := - 1\<rparr>)"
      "buffers t = (buffers u)(b := (buffers u b)\<lparr>b_uptodate := of_bool (rd_fits s ?q), b_lock := 0\<rparr>)"
      "wait_for_request t = wait_for_request s" "rd_start t = rd_start s" "rd_length t = rd_length s"
      "\<And>p. state (tstruct s p) = TASK_RUNNING \<Longrightarrow> state (tstruct t p) = TASK_RUNNING"
      "b_wait (buffers s b) \<noteq> 0 \<Longrightarrow> state (tstruct t (b_wait (buffers s b))) = TASK_RUNNING"
      "wait_for_request s \<noteq> 0 \<Longrightarrow> state (tstruct t (wait_for_request s)) = TASK_RUNNING"
    unfolding f(2-7) by blast
  have "rd_served r s t" "rd_apart r s t" using t f rb by (auto simp: rd_served_def rd_apart_def Let_def)
  then show ?thesis using e t(1,2) by auto
qed

section \<open>The whole queue\<close>

definition rd_queue :: "nat list \<Rightarrow> fs \<Rightarrow> bool" where
  "rd_queue rs s \<longleftrightarrow> linked s (current_request s 1) rs \<and> distinct rs \<and> distinct (map (rd_buf s) rs) \<and>
     (\<forall>r\<in>set rs. rd_request_ok s r)"

lemma rd_queue_tl:
  assumes "rd_queue (r # rs) s" "rd_apart r s t" "current_request t 1 = r_next (request_tab s r)"
  shows "rd_queue rs t" "\<And>q. q \<in> set rs \<Longrightarrow> rd_served q t u \<Longrightarrow> rd_served q s u"
proof -
  have q: "linked s (r_next (request_tab s r)) rs" "r \<notin> set rs" "distinct rs" "rd_buf s r \<notin> rd_buf s ` set rs"
    "distinct (map (rd_buf s) rs)" "\<And>q. q \<in> set rs \<Longrightarrow> rd_request_ok s q"
    using assms(1) by (auto simp: rd_queue_def)
  have a: "\<And>q. q \<noteq> r \<Longrightarrow> request_tab t q = request_tab s q" "\<And>c. c \<noteq> rd_buf s r \<Longrightarrow> buffers t c = buffers s c"
    "wait_for_request t = wait_for_request s" "rd_start t = rd_start s" "rd_length t = rd_length s"
    using assms(2) by (auto simp: rd_apart_def)
  have rt: "request_tab t x = request_tab s x" "rd_buf t x = rd_buf s x" "buffers t (rd_buf s x) = buffers s (rd_buf s x)"
    if "x \<in> set rs" for x
  proof -
    have "x \<noteq> r" using that q(2) by blast
    moreover have "rd_buf s x \<noteq> rd_buf s r" using imageI [OF that, of "rd_buf s"] q(4) by metis
    ultimately have "x \<noteq> r" "rd_buf s x \<noteq> rd_buf s r" by simp_all
    then show "request_tab t x = request_tab s x" "buffers t (rd_buf s x) = buffers s (rd_buf s x)" "rd_buf t x = rd_buf s x"
      using a(1,2) by (simp_all add: rd_buf_def)
  qed
  have "rd_request_ok t x" if "x \<in> set rs" for x
    using q(6) [OF that] rt [OF that] a(4,5) by (auto simp: rd_request_ok_def Let_def rd_buf_def)
  moreover have "linked t (r_next (request_tab s r)) rs" using q(1) linked_cong [of rs s t] rt(1) by simp
  moreover have "map (rd_buf t) rs = map (rd_buf s) rs" using rt(2) by simp
  then have "distinct (map (rd_buf t) rs)" using q(5) by (simp only:)
  ultimately show "rd_queue rs t" using q(3) assms(3) \<open>distinct (map (rd_buf t) rs)\<close> by (simp add: rd_queue_def)
  show "rd_served x s u" if "x \<in> set rs" "rd_served x t u" for x
    using that(2) rt [OF that(1)] a(3,5) by (simp add: rd_served_def rd_fits_def Let_def)
qed

lemma rd_drain:
  assumes "rd_queue rs s" "length rs < n"
  shows "\<exists>t. do_rd_request_loop n s = Ret () t \<and> current_request t 1 = None \<and> (\<forall>r\<in>set rs. rd_served r s t) \<and>
    (\<forall>q. q \<notin> set rs \<longrightarrow> request_tab t q = request_tab s q) \<and>
    (\<forall>c. c \<notin> rd_buf s ` set rs \<longrightarrow> buffers t c = buffers s c) \<and>
    (\<forall>p. state (tstruct s p) = TASK_RUNNING \<longrightarrow> state (tstruct t p) = TASK_RUNNING)"
  using assms
proof (induction rs arbitrary: s n)
  case Nil
  then obtain k where "n = Suc k" by (cases n) auto
  then show ?case using Nil.prems(1) by (simp add: rd_queue_def INIT_REQUEST_def)
next
  case (Cons r rs)
  then obtain k where n: "n = Suc k" "length rs < k" by (cases n) auto
  have r: "rd_request_ok s r" "current_request s 1 = Some r" "r \<notin> set rs" "rd_buf s r \<notin> rd_buf s ` set rs"
    using Cons.prems(1) by (auto simp: rd_queue_def)
  obtain u where u: "rd_transfer (request_tab s r) s = Ret () u" "rd_served r s u" "rd_apart r s u"
    "current_request u 1 = r_next (request_tab s r)" using rd_step [OF r(1,2)] by blast
  note tl = rd_queue_tl [OF Cons.prems(1) u(3,4)]
  obtain t where t: "do_rd_request_loop k u = Ret () t" "current_request t 1 = None" "\<forall>r\<in>set rs. rd_served r u t"
    "\<forall>q. q \<notin> set rs \<longrightarrow> request_tab t q = request_tab u q" "\<forall>c. c \<notin> rd_buf u ` set rs \<longrightarrow> buffers t c = buffers u c"
    "\<forall>p. state (tstruct u p) = TASK_RUNNING \<longrightarrow> state (tstruct t p) = TASK_RUNNING"
    using Cons.IH [OF tl(1) n(2)] by blast
  have ap: "\<And>q. q \<noteq> r \<Longrightarrow> request_tab u q = request_tab s q" "\<And>c. c \<noteq> rd_buf s r \<Longrightarrow> buffers u c = buffers s c"
    "\<And>p. state (tstruct s p) = TASK_RUNNING \<Longrightarrow> state (tstruct u p) = TASK_RUNNING"
    using u(3) by (auto simp: rd_apart_def)
  have bu: "rd_buf u ` set rs = rd_buf s ` set rs"
  proof (rule image_cong [OF refl])
    fix x assume "x \<in> set rs"
    then have "x \<noteq> r" using r(3) by blast
    then show "rd_buf u x = rd_buf s x" using ap(1) by (simp add: rd_buf_def)
  qed
  have init: "INIT_REQUEST 1 s = Ret (Some r) s"
    using r(1,2) by (auto simp: INIT_REQUEST_def rd_request_ok_def Let_def MAJOR_def)
  have "rd_served r s t"
    using u(2) t(4-6) r(3,4) bu by (simp add: rd_served_def Let_def)
  then show ?case using n(1) init u(1) t tl(2) ap bu by (auto simp: rd_buf_def)
qed

text \<open>C26: A run of the RAM disk driver always comes to an end: every request of a well-formed queue
  is served, whatever its length, and freed; its buffer is unlocked, valid exactly when the
  request was inside the disk, the tasks that wait for the buffer and for a free request are runnable,
  and the queue is empty.\<close>

theorem do_rd_request_serves:
  assumes "rd_queue rs s" "length rs \<le> NR_REQUEST"
  shows "\<exists>t. do_rd_request s = Ret () t \<and> current_request t 1 = None \<and> (\<forall>r\<in>set rs. rd_served r s t) \<and>
    (\<forall>q. q \<notin> set rs \<longrightarrow> request_tab t q = request_tab s q) \<and> (\<forall>c. c \<notin> rd_buf s ` set rs \<longrightarrow> buffers t c = buffers s c)"
  using rd_drain [OF assms(1), of "NR_REQUEST + 1"] assms(2) unfolding do_rd_request_def by auto

text \<open>Two requests, the second one past the end of the disk, and a task waiting for each buffer.\<close>

definition demo_rdq :: fs where
  "demo_rdq = (undefined :: fs)\<lparr>
     request_tab := (\<lambda>i. \<lparr>r_dev = 0x101, r_cmd = (if i = 3 then READ else WRITE), r_errors = 0,
       r_sector = (if i = 3 then 6 else 4000), r_nr_sectors = 2, r_buffer = (i, 0), r_waiting = 0, r_bh = Some i,
       r_next = (if i = 3 then Some 5 else None)\<rparr>),
     current_request := (\<lambda>_. Some 3), rd_start := 0x100000, rd_length := 0x10000, wait_for_request := 0x4000,
     buffers := (\<lambda>b. (undefined :: buffer_head)\<lparr>b_lock := 1, b_wait := of_nat (0x1000 * b)\<rparr>)\<rparr>"

lemma demo_rdq_queue: "rd_queue [3, 5] demo_rdq"
  by (simp add: rd_queue_def rd_request_ok_def rd_buf_def demo_rdq_def Let_def)

theorem do_rd_request_serves_witness:
  "\<exists>t. do_rd_request demo_rdq = Ret () t \<and> current_request t 1 = None \<and> rd_served 3 demo_rdq t \<and> rd_served 5 demo_rdq t \<and>
    b_uptodate (buffers t 3) = 1 \<and> b_uptodate (buffers t 5) = 0 \<and> state (tstruct t 0x3000) = TASK_RUNNING"
proof -
  obtain t where t: "do_rd_request demo_rdq = Ret () t" "current_request t 1 = None" "rd_served 3 demo_rdq t" "rd_served 5 demo_rdq t"
    using do_rd_request_serves [OF demo_rdq_queue] by auto
  then show ?thesis by (auto simp: rd_served_def rd_buf_def rd_fits_def demo_rdq_def Let_def)
qed

end
