(* ===== verification/Bitmap.thy ===== *)
theory Bitmap
  imports Buffer_Sync
begin

unbundle bit_operations_syntax

text \<open>
  Allocation of zones and inodes, \<open>src/fs/bitmap.c\<close> (\<open>new_inode\<close>, which needs
  \<open>get_empty_inode\<close>, is in \<open>Inode\<close>).  The string instructions work on the bytes of
  a bitmap block as little-endian 32-bit words; bit \<open>n\<close> of the block is bit
  \<open>n mod 8\<close> of byte \<open>n div 8\<close>.
\<close>

section \<open>Bits of a block\<close>

definition test_bit :: "nat \<Rightarrow> (nat \<Rightarrow> u8) \<Rightarrow> bool" where
  "test_bit n d \<longleftrightarrow> bit (d (n div 8)) (n mod 8)"

definition set_bit_in :: "nat \<Rightarrow> (nat \<Rightarrow> u8) \<Rightarrow> nat \<Rightarrow> u8" where
  "set_bit_in n d = d(n div 8 := d (n div 8) OR push_bit (n mod 8) 1)"

definition clear_bit_in :: "nat \<Rightarrow> (nat \<Rightarrow> u8) \<Rightarrow> nat \<Rightarrow> u8" where
  "clear_bit_in n d = d(n div 8 := d (n div 8) AND NOT (push_bit (n mod 8) 1))"

text \<open>\<open>bsfl\<close>: the lowest set bit; \<open>None\<close> when there is none (the zero flag).\<close>

definition bsfl :: "u32 \<Rightarrow> nat option" where
  "bsfl w = List.find (bit w) [0..<32]"

primrec ffz_from :: "nat \<Rightarrow> nat \<Rightarrow> (nat \<Rightarrow> u8) \<Rightarrow> nat" where
  "ffz_from 0 n d = n"
| "ffz_from (Suc k) n d =
     (case bsfl (NOT (get_u32 d (n div 8))) of
        Some j \<Rightarrow> n + j
      | None \<Rightarrow> ffz_from k (n + 32) d)"

text \<open>The 256 words of a block; all bits set gives 8192.\<close>

definition find_first_zero :: "(nat \<Rightarrow> u8) \<Rightarrow> nat" where
  "find_first_zero d = ffz_from 256 0 d"

section \<open>Zones\<close>

definition clear_zone_bit :: "nat \<Rightarrow> u32 \<Rightarrow> fs \<Rightarrow> (fs, unit) outcome" where
  "clear_zone_bit sb block s =
     (let n = nat (sint block - (uint (s_firstdatazone (super_table s sb)) - 1)) in
      case s_zmap (super_table s sb) (n div 8192) of
        None \<Rightarrow> Undefined ''s_zmap''
      | Some z \<Rightarrow>
          if \<not> test_bit (n mod 8192) (b_data (buffers s z)) then Panic ''free_block: bit already cleared''
          else Ret () (upd_bh z (\<lambda>h. h\<lparr>b_data := clear_bit_in (n mod 8192) (b_data h), b_dirt := 1\<rparr>) s))"

definition free_block :: "kenv \<Rightarrow> u32 \<Rightarrow> u32 \<Rightarrow> fs \<Rightarrow> (fs, unit) outcome" where
  "free_block E dev block s =
     bindO (get_super E dev s) (\<lambda>r s.
     case r of
       None \<Rightarrow> Panic ''trying to free block on nonexistent device''
     | Some sb \<Rightarrow>
         if sint block < uint (s_firstdatazone (super_table s sb)) \<or> sint block \<ge> uint (s_nzones (super_table s sb))
         then Panic ''trying to free block not in datazone''
         else bindO (get_hash_table E dev block s) (\<lambda>r s.
              case r of
                None \<Rightarrow> clear_zone_bit sb block s
              | Some b \<Rightarrow>
                  if b_count (buffers s b) \<noteq> 1 then Ret () s
                  else bindO (brelse E (Some b) (upd_bh b (\<lambda>h. h\<lparr>b_dirt := 0, b_uptodate := 0\<rparr>) s))
                         (\<lambda>_ s. clear_zone_bit sb block s)))"

text \<open>The first bitmap block with a clear bit, and the number of that bit.\<close>

definition find_bitmap :: "(nat \<Rightarrow> nat option) \<Rightarrow> fs \<Rightarrow> (nat \<times> nat \<times> nat) option" where
  "find_bitmap maps s =
     (case List.find (\<lambda>i. case maps i of None \<Rightarrow> False | Some b \<Rightarrow> find_first_zero (b_data (buffers s b)) < 8192) [0..<8] of
        None \<Rightarrow> None
      | Some i \<Rightarrow> (case maps i of None \<Rightarrow> None | Some b \<Rightarrow> Some (i, b, find_first_zero (b_data (buffers s b)))))"

text \<open>\<open>set_bit\<close> with the check of the callers, and marking the bitmap block dirty.\<close>

definition take_bit_of :: "nat \<Rightarrow> nat \<Rightarrow> string \<Rightarrow> fs \<Rightarrow> (fs, unit) outcome" where
  "take_bit_of b j msg s =
     (if test_bit j (b_data (buffers s b)) then Panic msg
      else Ret () (upd_bh b (\<lambda>h. h\<lparr>b_data := set_bit_in j (b_data h), b_dirt := 1\<rparr>) s))"

definition new_block :: "kenv \<Rightarrow> u32 \<Rightarrow> fs \<Rightarrow> (fs, int) outcome" where
  "new_block E dev s =
     bindO (get_super E dev s) (\<lambda>r s.
     case r of
       None \<Rightarrow> Panic ''trying to get new block from nonexistant device''
     | Some sb \<Rightarrow>
         (case find_bitmap (s_zmap (super_table s sb)) s of
            None \<Rightarrow> Ret 0 s
          | Some (i, z, j0) \<Rightarrow>
              bindO (take_bit_of z j0 ''new_block: bit already set'' s) (\<lambda>_ s.
              let j = int j0 + int i * 8192 + uint (s_firstdatazone (super_table s sb)) - 1 in
              if j \<ge> uint (s_nzones (super_table s sb)) then Ret 0 s
              else bindO (getblk E dev (of_int j) s) (\<lambda>b s.
                   if b_count (buffers s b) \<noteq> 1 then Panic ''new block: count is != 1''
                   else let s1 = upd_bh b (\<lambda>h. h\<lparr>b_data := (\<lambda>k. if k < BLOCK_SIZE then 0 else b_data h k),
                                                 b_uptodate := 1, b_dirt := 1\<rparr>) s
                        in bindO (brelse E (Some b) s1) (\<lambda>_ s. Ret j s)))))"

section \<open>Inodes\<close>

definition zero_inode :: m_inode where
  "zero_inode = \<lparr>i_mode = 0, i_uid = 0, i_size = 0, i_mtime = 0, i_gid = 0, i_nlinks = 0, i_zone = (\<lambda>_. 0),
     i_wait = 0, i_atime = 0, i_ctime = 0, i_dev = 0, i_num = 0, i_count = 0, i_lock = 0, i_dirt = 0, i_pipe = 0,
     i_mount = 0, i_seek = 0, i_update = 0\<rparr>"

definition free_inode :: "kenv \<Rightarrow> nat option \<Rightarrow> fs \<Rightarrow> (fs, unit) outcome" where
  "free_inode E ip s =
     (case ip of
        None \<Rightarrow> Ret () s
      | Some i \<Rightarrow>
          if i_dev (inode_table s i) = 0 then Ret () (upd_inode i (\<lambda>_. zero_inode) s)
          else if i_count (inode_table s i) > 1 then Panic ''free_inode''
          else if i_nlinks (inode_table s i) \<noteq> 0 then Panic ''trying to free inode with links''
          else bindO (get_super E (ucast (i_dev (inode_table s i))) s) (\<lambda>r s.
               case r of
                 None \<Rightarrow> Panic ''trying to free inode on nonexistent device''
               | Some sb \<Rightarrow>
                   let nr = unat (i_num (inode_table s i)) in
                   if nr < 1 \<or> nr > unat (s_ninodes (super_table s sb))
                   then Panic ''trying to free inode 0 or nonexistant inode''
                   else case s_imap (super_table s sb) (nr div 8192) of
                          None \<Rightarrow> Panic ''nonexistent imap in superblock''
                        | Some b \<Rightarrow>
                            Ret () (upd_inode i (\<lambda>_. zero_inode)
                              (upd_bh b (\<lambda>h. h\<lparr>b_data := clear_bit_in (nr mod 8192) (b_data h), b_dirt := 1\<rparr>) s))))"

section \<open>What the instructions compute\<close>

lemma test_set_bit: "test_bit m (set_bit_in n d) \<longleftrightarrow> m = n \<or> test_bit m d"
proof (cases "m = n")
  case False
  then have "m div 8 = n div 8 \<Longrightarrow> m mod 8 \<noteq> n mod 8" by (metis div_mult_mod_eq)
  moreover have "m mod 8 < 8" by simp
  ultimately show ?thesis using False
    by (auto simp: test_bit_def set_bit_in_def bit_simps)
qed (simp add: test_bit_def set_bit_in_def bit_simps)

lemma test_clear_bit: "test_bit m (clear_bit_in n d) \<longleftrightarrow> m \<noteq> n \<and> test_bit m d"
proof (cases "m = n")
  case False
  then have "m div 8 = n div 8 \<Longrightarrow> m mod 8 \<noteq> n mod 8" by (metis div_mult_mod_eq)
  moreover have "m mod 8 < 8" by simp
  ultimately show ?thesis using False
    by (auto simp: test_bit_def clear_bit_in_def bit_simps)
qed (simp add: test_bit_def clear_bit_in_def bit_simps)

lemma clear_set_bit: "\<not> test_bit n d \<Longrightarrow> clear_bit_in n (set_bit_in n d) = d"
  unfolding clear_bit_in_def set_bit_in_def test_bit_def
  by (auto intro!: ext bit_word_eqI simp: bit_simps split: if_splits)

lemma bit_get_u32:
  assumes "n < 32"
  shows "bit (get_u32 d k) n \<longleftrightarrow> bit (d (k + n div 8)) (n mod 8)"
proof -
  consider "n < 8" | j where "n = 8 + j" "j < 8" | j where "n = 16 + j" "j < 8" | j where "n = 24 + j" "j < 8"
  proof -
    have "n < 8 \<or> 8 \<le> n \<and> n < 16 \<or> 16 \<le> n \<and> n < 24 \<or> 24 \<le> n \<and> n < 32" using assms by linarith
    then show thesis
      using that(1) that(2) [of "n - 8"] that(3) [of "n - 16"] that(4) [of "n - 24"] by fastforce
  qed
  note split4 = this
  have no: "\<not> bit (w :: u8) (8 + j)" for w j using bit_imp_le_length [of w "8 + j"] by auto
  have dm: "j < 8 \<Longrightarrow> (8 * q + j) div 8 = q" "j < 8 \<Longrightarrow> (8 * q + j) mod 8 = j" for j q :: nat by auto
  from split4 show ?thesis
    using dm [where q = 1] dm [where q = 2] dm [where q = 3]
    by cases (auto simp: get_u32_def get_u16_def bit_simps no numeral_3_eq_3)
qed

lemma bsfl_Some: "bsfl w = Some j \<Longrightarrow> j < 32 \<and> bit w j \<and> (\<forall>i<j. \<not> bit w i)"
  by (auto simp: bsfl_def find_Some_iff)

lemma bsfl_None: "bsfl w = None \<Longrightarrow> i < 32 \<Longrightarrow> \<not> bit w i"
  by (auto simp: bsfl_def find_None_iff)

lemma word_of_bitmap:
  assumes "n mod 32 = 0" "j < 32"
  shows "bit (NOT (get_u32 d (n div 8))) j \<longleftrightarrow> \<not> test_bit (n + j) d"
proof -
  obtain q where q: "n = 32 * q" using assms(1) by auto
  have "(32 * q + j) div 8 = 4 * q + j div 8" "(32 * q + j) mod 8 = j mod 8"
    using div_mult_self2 [of 8 j "4 * q"] mod_mult_self2 [of j 8 "4 * q"] by (simp_all add: ac_simps)
  then show ?thesis using assms(2) q by (simp add: bit_simps bit_get_u32 test_bit_def)
qed

lemma ffz_from_spec:
  assumes "n mod 32 = 0" "\<And>i. i < n \<Longrightarrow> test_bit i d"
  shows "ffz_from k n d \<le> n + 32 * k \<and> (\<forall>i<ffz_from k n d. test_bit i d) \<and>
         (ffz_from k n d < n + 32 * k \<longrightarrow> \<not> test_bit (ffz_from k n d) d)"
  using assms
proof (induction k arbitrary: n)
  case (Suc k)
  let ?w = "NOT (get_u32 d (n div 8))"
  show ?case
  proof (cases "bsfl ?w")
    case (Some j)
    note j = bsfl_Some [OF Some]
    have "test_bit i d" if "i < n + j" for i
    proof (cases "i < n")
      case False
      then have "i - n < j" "i - n < 32" "n + (i - n) = i" using that j by auto
      then show ?thesis using word_of_bitmap [OF Suc.prems(1), of "i - n" d] j by auto
    qed (rule Suc.prems(2))
    moreover have "\<not> test_bit (n + j) d" using word_of_bitmap [OF Suc.prems(1), of j d] j by simp
    ultimately show ?thesis using Some j by simp
  next
    case None
    have "(n + 32) mod 32 = 0" using Suc.prems(1) by simp
    moreover have "test_bit i d" if "i < n + 32" for i
    proof (cases "i < n")
      case False
      then have "i - n < 32" "n + (i - n) = i" using that by auto
      then show ?thesis using word_of_bitmap [OF Suc.prems(1), of "i - n" d] bsfl_None [OF None] by simp
    qed (rule Suc.prems(2))
    ultimately show ?thesis using Suc.IH [of "n + 32"] None by (simp add: algebra_simps)
  qed
qed simp

lemma find_first_zero_spec:
  "find_first_zero d \<le> 8192" "i < find_first_zero d \<Longrightarrow> test_bit i d"
  "find_first_zero d < 8192 \<Longrightarrow> \<not> test_bit (find_first_zero d) d"
  using ffz_from_spec [of 0 d 256] by (auto simp: find_first_zero_def)

text \<open>C19: The string-instruction search over the 256 words of a bitmap block finds
  the least number of a clear bit, and 8192 exactly when every bit is set.\<close>

theorem find_first_zero_least:
  "find_first_zero d = (LEAST n. n \<in> insert 8192 {k. \<not> test_bit k d})"
proof (rule Least_equality [symmetric])
  show "find_first_zero d \<in> insert 8192 {k. \<not> test_bit k d}"
    using find_first_zero_spec(1,3) [of d] by (auto simp: le_less)
next
  fix n assume "n \<in> insert 8192 {k. \<not> test_bit k d}"
  then have n: "n = 8192 \<or> \<not> test_bit n d" by simp
  show "find_first_zero d \<le> n"
    using n find_first_zero_spec(1,2) [where d = d] by (meson linorder_not_le)
qed

end
