(* ===== verification/Inode.thy ===== *)
theory Inode
  imports Bitmap
begin

unbundle bit_operations_syntax

text \<open>
  Inodes in memory: \<open>src/fs/inode.c\<close>, \<open>src/fs/truncate.c\<close>, and \<open>new_inode\<close> of
  \<open>src/fs/bitmap.c\<close>.
\<close>

section \<open>File types (\<open>include/sys/stat.h\<close>)\<close>

abbreviation (input) S_IFMT :: u16 where "S_IFMT \<equiv> 0xF000"
abbreviation (input) S_IFREG :: u16 where "S_IFREG \<equiv> 0x8000"
abbreviation (input) S_IFBLK :: u16 where "S_IFBLK \<equiv> 0x6000"
abbreviation (input) S_IFDIR :: u16 where "S_IFDIR \<equiv> 0x4000"
abbreviation (input) S_IFCHR :: u16 where "S_IFCHR \<equiv> 0x2000"
abbreviation (input) S_IFIFO :: u16 where "S_IFIFO \<equiv> 0x1000"

definition S_ISREG :: "u16 \<Rightarrow> bool" where "S_ISREG m \<longleftrightarrow> m AND S_IFMT = S_IFREG"
definition S_ISDIR :: "u16 \<Rightarrow> bool" where "S_ISDIR m \<longleftrightarrow> m AND S_IFMT = S_IFDIR"
definition S_ISCHR :: "u16 \<Rightarrow> bool" where "S_ISCHR m \<longleftrightarrow> m AND S_IFMT = S_IFCHR"
definition S_ISBLK :: "u16 \<Rightarrow> bool" where "S_ISBLK m \<longleftrightarrow> m AND S_IFMT = S_IFBLK"
definition S_ISFIFO :: "u16 \<Rightarrow> bool" where "S_ISFIFO m \<longleftrightarrow> m AND S_IFMT = S_IFIFO"

definition time_u32 :: "fs \<Rightarrow> u32" where
  "time_u32 s = of_int (CURRENT_TIME s)"

section \<open>Truncation\<close>

definition free_ind :: "kenv \<Rightarrow> u32 \<Rightarrow> u32 \<Rightarrow> fs \<Rightarrow> (fs, unit) outcome" where
  "free_ind E dev block s =
     (if block = 0 then Ret () s
      else bindO (bread E dev block s) (\<lambda>r s.
           bindO (case r of
                    None \<Rightarrow> Ret () s
                  | Some b \<Rightarrow>
                      bindO (eachO (\<lambda>k s. let p = get_u16 (b_data (buffers s b)) (2 * k) in
                               if p \<noteq> 0 then free_block E dev (ucast p) s else Ret () s) [0..<512] s)
                        (\<lambda>_ s. brelse E (Some b) s))
             (\<lambda>_ s. free_block E dev block s)))"

definition free_dind :: "kenv \<Rightarrow> u32 \<Rightarrow> u32 \<Rightarrow> fs \<Rightarrow> (fs, unit) outcome" where
  "free_dind E dev block s =
     (if block = 0 then Ret () s
      else bindO (bread E dev block s) (\<lambda>r s.
           bindO (case r of
                    None \<Rightarrow> Ret () s
                  | Some b \<Rightarrow>
                      bindO (eachO (\<lambda>k s. let p = get_u16 (b_data (buffers s b)) (2 * k) in
                               if p \<noteq> 0 then free_ind E dev (ucast p) s else Ret () s) [0..<512] s)
                        (\<lambda>_ s. brelse E (Some b) s))
             (\<lambda>_ s. free_block E dev block s)))"

abbreviation zone_of :: "nat \<Rightarrow> nat \<Rightarrow> fs \<Rightarrow> u16" where
  "zone_of i z s \<equiv> i_zone (inode_table s i) z"

abbreviation dev_of :: "nat \<Rightarrow> fs \<Rightarrow> u32" where
  "dev_of i s \<equiv> ucast (i_dev (inode_table s i))"

definition set_zone :: "nat \<Rightarrow> nat \<Rightarrow> u16 \<Rightarrow> fs \<Rightarrow> fs" where
  "set_zone i z v s = upd_inode i (\<lambda>m. m\<lparr>i_zone := (i_zone m)(z := v)\<rparr>) s"

definition truncate :: "kenv \<Rightarrow> nat \<Rightarrow> fs \<Rightarrow> (fs, unit) outcome" where
  "truncate E i s =
     (if \<not> (S_ISREG (i_mode (inode_table s i)) \<or> S_ISDIR (i_mode (inode_table s i))) then Ret () s
      else bindO (eachO (\<lambda>z s. if zone_of i z s \<noteq> 0
                           then bindO (free_block E (dev_of i s) (ucast (zone_of i z s)) s) (\<lambda>_ s. Ret () (set_zone i z 0 s))
                           else Ret () s) [0..<7] s) (\<lambda>_ s.
           bindO (free_ind E (dev_of i s) (ucast (zone_of i 7 s)) s) (\<lambda>_ s.
           bindO (free_dind E (dev_of i s) (ucast (zone_of i 8 s)) s) (\<lambda>_ s.
           let s1 = set_zone i 7 0 (set_zone i 8 0 s) in
           Ret () (upd_inode i (\<lambda>m. m\<lparr>i_size := 0, i_dirt := 1, i_mtime := time_u32 s1, i_ctime := time_u32 s1\<rparr>) s1)))))"

section \<open>From blocks of a file to zones of the disk\<close>

text \<open>\<open>if (create && !inode->i_zone[z]) if (inode->i_zone[z] = new_block(...)) ...\<close>\<close>

definition zone_alloc :: "kenv \<Rightarrow> bool \<Rightarrow> nat \<Rightarrow> nat \<Rightarrow> fs \<Rightarrow> (fs, unit) outcome" where
  "zone_alloc E create i z s =
     (if create \<and> zone_of i z s = 0
      then bindO (new_block E (dev_of i s) s) (\<lambda>j s.
           let s1 = set_zone i z (of_int j) s in
           Ret () (if zone_of i z s1 \<noteq> 0
                   then upd_inode i (\<lambda>m. m\<lparr>i_ctime := time_u32 s1, i_dirt := 1\<rparr>) s1 else s1))
      else Ret () s)"

text \<open>The entry \<open>k\<close> of the indirect block in buffer \<open>b\<close>, allocated on demand; the buffer is released.\<close>

definition ind_entry :: "kenv \<Rightarrow> bool \<Rightarrow> nat \<Rightarrow> nat \<Rightarrow> nat \<Rightarrow> fs \<Rightarrow> (fs, int) outcome" where
  "ind_entry E create i b k s =
     (let v = get_u16 (b_data (buffers s b)) (2 * k) in
      bindO (if create \<and> v = 0
             then bindO (new_block E (dev_of i s) s) (\<lambda>j s.
                  Ret j (if j \<noteq> 0 then upd_bh b (\<lambda>h. h\<lparr>b_data := put_u16 (2 * k) (of_int j) (b_data h), b_dirt := 1\<rparr>) s
                         else s))
             else Ret (uint v) s) (\<lambda>j s.
      bindO (brelse E (Some b) s) (\<lambda>_ s. Ret j s)))"

definition bmap_indirect :: "kenv \<Rightarrow> bool \<Rightarrow> nat \<Rightarrow> int \<Rightarrow> nat \<Rightarrow> fs \<Rightarrow> (fs, int) outcome" where
  "bmap_indirect E create i zone k s =
     bindO (bread E (dev_of i s) (of_int zone) s) (\<lambda>r s.
     case r of None \<Rightarrow> Ret 0 s | Some b \<Rightarrow> ind_entry E create i b k s)"

definition bmap_gen :: "kenv \<Rightarrow> nat \<Rightarrow> int \<Rightarrow> bool \<Rightarrow> fs \<Rightarrow> (fs, int) outcome" where
  "bmap_gen E i block create s =
     (if block < 0 then Panic ''_bmap: block<0''
      else if block \<ge> 7 + 512 + 512 * 512 then Panic ''_bmap: block>big''
      else if block < 7
      then bindO (zone_alloc E create i (nat block) s) (\<lambda>_ s. Ret (uint (zone_of i (nat block) s)) s)
      else let block = block - 7 in
        if block < 512
        then bindO (zone_alloc E create i 7 s) (\<lambda>_ s.
             if zone_of i 7 s = 0 then Ret 0 s
             else bmap_indirect E create i (uint (zone_of i 7 s)) (nat block) s)
        else let block = block - 512 in
             bindO (zone_alloc E create i 8 s) (\<lambda>_ s.
             if zone_of i 8 s = 0 then Ret 0 s
             else bindO (bmap_indirect E create i (uint (zone_of i 8 s)) (nat block div 512) s) (\<lambda>j s.
                  if j = 0 then Ret 0 s
                  else bmap_indirect E create i j (nat block mod 512) s)))"

definition bmap :: "kenv \<Rightarrow> nat \<Rightarrow> int \<Rightarrow> fs \<Rightarrow> (fs, int) outcome" where
  "bmap E i block s = bmap_gen E i block False s"

definition create_block :: "kenv \<Rightarrow> nat \<Rightarrow> int \<Rightarrow> fs \<Rightarrow> (fs, int) outcome" where
  "create_block E i block s = bmap_gen E i block True s"

section \<open>Releasing and getting inodes\<close>

definition iput :: "kenv \<Rightarrow> nat option \<Rightarrow> fs \<Rightarrow> (fs, unit) outcome" where
  "iput E ip s =
     (case ip of
        None \<Rightarrow> Ret () s
      | Some i \<Rightarrow>
          let dec = upd_inode i (\<lambda>m. m\<lparr>i_count := i_count m - 1\<rparr>) in
          bindO (wait_on_inode E i s) (\<lambda>_ s.
          if i_count (inode_table s i) = 0 then Panic ''iput: trying to free free inode''
          else if i_pipe (inode_table s i) \<noteq> 0
          then let s1 = dec (wake_up (\<lambda>s. i_wait (inode_table s i)) s) in
               if i_count (inode_table s1 i) \<noteq> 0 then Ret () s1
               else bindO (free_page (i_size (inode_table s1 i)) s1) (\<lambda>_ s.
                    Ret () (upd_inode i (\<lambda>m. m\<lparr>i_count := 0, i_dirt := 0, i_pipe := 0\<rparr>) s))
          else if i_dev (inode_table s i) = 0 then Ret () (dec s)
          else bindO (if S_ISBLK (i_mode (inode_table s i))
                      then bindO (sync_dev E (ucast (zone_of i 0 s)) s) (\<lambda>_ s. wait_on_inode E i s)
                      else Ret () s) (\<lambda>_ s.
               loopO (\<lambda>_ s.
                 if i_count (inode_table s i) > 1 then Ret (Inr ()) (dec s)
                 else if i_nlinks (inode_table s i) = 0
                 then bindO (truncate E i s) (\<lambda>_ s. bindO (free_inode E (Some i) s) (\<lambda>_ s. Ret (Inr ()) s))
                 else if i_dirt (inode_table s i) \<noteq> 0
                 then bindO (write_inode E i s) (\<lambda>_ s. bindO (wait_on_inode E i s) (\<lambda>_ s. Ret (Inl ()) s))
                 else Ret (Inr ()) (dec s)) () s)))"

text \<open>The scan of \<open>get_empty_inode\<close>: at most 32 steps of the roving pointer \<open>last_inode\<close>.\<close>

primrec scan_inodes :: "nat \<Rightarrow> nat option \<Rightarrow> fs \<Rightarrow> nat option \<times> fs" where
  "scan_inodes 0 ip s = (ip, s)"
| "scan_inodes (Suc k) ip s =
     (let l = (if last_inode s + 1 \<ge> NR_INODE then 0 else last_inode s + 1);
          s1 = s\<lparr>last_inode := l\<rparr>
      in if i_count (inode_table s l) = 0
         then if i_dirt (inode_table s l) = 0 \<and> i_lock (inode_table s l) = 0 then (Some l, s1)
              else scan_inodes k (Some l) s1
         else scan_inodes k ip s1)"

definition get_empty_inode :: "kenv \<Rightarrow> fs \<Rightarrow> (fs, nat) outcome" where
  "get_empty_inode E s =
     loopO (\<lambda>_ s.
       case scan_inodes NR_INODE None s of
         (None, s) \<Rightarrow> Panic ''No free inodes in mem''
       | (Some i, s) \<Rightarrow>
           bindO (wait_on_inode E i s) (\<lambda>_ s.
           bindO (loopO (\<lambda>_ s. if i_dirt (inode_table s i) = 0 then Ret (Inr ()) s
                           else bindO (write_inode E i s) (\<lambda>_ s. bindO (wait_on_inode E i s) (\<lambda>_ s. Ret (Inl ()) s))) () s) (\<lambda>_ s.
           if i_count (inode_table s i) \<noteq> 0 then Ret (Inl ()) s
           else Ret (Inr i) (upd_inode i (\<lambda>_. zero_inode\<lparr>i_count := 1\<rparr>) s)))) () s"

text \<open>\<open>PIPE_HEAD\<close> and \<open>PIPE_TAIL\<close> are the first two zones.\<close>

definition get_pipe_inode :: "kenv \<Rightarrow> fs \<Rightarrow> (fs, nat option) outcome" where
  "get_pipe_inode E s =
     bindO (get_empty_inode E s) (\<lambda>i s.
     case get_free_page s of
       (page, s) \<Rightarrow>
         let s1 = upd_inode i (\<lambda>m. m\<lparr>i_size := page\<rparr>) s in
         if page = 0 then Ret None (upd_inode i (\<lambda>m. m\<lparr>i_count := 0\<rparr>) s1)
         else Ret (Some i) (upd_inode i (\<lambda>m. m\<lparr>i_count := 2, i_zone := (i_zone m)(0 := 0, 1 := 0), i_pipe := 1\<rparr>) s1))"

text \<open>
  \<open>iget\<close>: the loop variable is the pair of device and number looked for, which
  changes when the inode found is a mount point.
\<close>

definition iget_found :: "kenv \<Rightarrow> nat \<Rightarrow> nat \<Rightarrow> fs \<Rightarrow> (fs, (u32 \<times> u16) + nat) outcome" where
  "iget_found E emp i s =
     (let s1 = upd_inode i (\<lambda>m. m\<lparr>i_count := i_count m + 1\<rparr>) s in
      if i_mount (inode_table s1 i) \<noteq> 0
      then case List.find (\<lambda>k. s_imount (super_table s1 k) = Some i) [0..<NR_SUPER] of
             None \<Rightarrow> bindO (iput E (Some emp) s1) (\<lambda>_ s. Ret (Inr i) s)
           | Some k \<Rightarrow> bindO (iput E (Some i) s1) (\<lambda>_ s. Ret (Inl (ucast (s_dev (super_table s k)), 1)) s)
      else bindO (iput E (Some emp) s1) (\<lambda>_ s. Ret (Inr i) s))"

definition iget :: "kenv \<Rightarrow> u32 \<Rightarrow> u16 \<Rightarrow> fs \<Rightarrow> (fs, nat) outcome" where
  "iget E dev nr s =
     (if dev = 0 then Panic ''iget with dev==0''
      else bindO (get_empty_inode E s) (\<lambda>emp s.
        loopO (\<lambda>(dev, nr) s.
          let here = (\<lambda>s i. ucast (i_dev (inode_table s i)) = dev \<and> i_num (inode_table s i) = nr) in
          case List.find (here s) [0..<NR_INODE] of
            None \<Rightarrow>
              let s1 = upd_inode emp (\<lambda>m. m\<lparr>i_dev := ucast dev, i_num := nr\<rparr>) s
              in bindO (read_inode E emp s1) (\<lambda>_ s. Ret (Inr emp) s)
          | Some i \<Rightarrow>
              bindO (wait_on_inode E i s) (\<lambda>_ s.
              if here s i then iget_found E emp i s else Ret (Inl (dev, nr)) s)) (dev, nr) s))"

definition new_inode :: "kenv \<Rightarrow> u32 \<Rightarrow> fs \<Rightarrow> (fs, nat option) outcome" where
  "new_inode E dev s =
     bindO (get_empty_inode E s) (\<lambda>i s.
     bindO (get_super E dev s) (\<lambda>r s.
     case r of
       None \<Rightarrow> Panic ''new_inode with unknown device''
     | Some sb \<Rightarrow>
         (case find_bitmap (s_imap (super_table s sb)) s of
            None \<Rightarrow> bindO (iput E (Some i) s) (\<lambda>_ s. Ret None s)
          | Some (k, b, j) \<Rightarrow>
              if j + k * 8192 > unat (s_ninodes (super_table s sb)) then bindO (iput E (Some i) s) (\<lambda>_ s. Ret None s)
              else bindO (take_bit_of b j ''new_inode: bit already set'' s) (\<lambda>_ s.
                   Ret (Some i) (upd_inode i (\<lambda>m. m\<lparr>i_count := 1, i_nlinks := 1, i_dev := ucast dev,
                     i_uid := euid (cur s), i_gid := ucast (egid (cur s)), i_dirt := 1, i_num := of_nat (j + k * 8192),
                     i_mtime := time_u32 s, i_atime := time_u32 s, i_ctime := time_u32 s\<rparr>) s)))))"

end
