(* ===== verification/Files.thy ===== *)
theory Files
  imports Inode Syscalls
begin

unbundle bit_operations_syntax

text \<open>
  Open files: \<open>src/fs/file_dev.c\<close>, \<open>block_dev.c\<close>, \<open>pipe.c\<close>, \<open>char_dev.c\<close>,
  \<open>read_write.c\<close>, \<open>fcntl.c\<close>, \<open>ioctl.c\<close>, \<open>sys_fstat\<close> of \<open>stat.c\<close> and \<open>sys_close\<close> of
  \<open>open.c\<close>.  A file is named by its index in \<open>file_table\<close>, a position is a
  signed 32-bit integer.  Reading a pointer that is null is undefined.
\<close>

abbreviation (input) O_APPEND :: u16 where "O_APPEND \<equiv> 0x400"
abbreviation (input) O_NONBLOCK :: u16 where "O_NONBLOCK \<equiv> 0x800"

abbreviation pos_of :: "nat \<Rightarrow> fs \<Rightarrow> int" where
  "pos_of f s \<equiv> f_pos (file_table s f)"

definition add_pos :: "nat \<Rightarrow> int \<Rightarrow> fs \<Rightarrow> fs" where
  "add_pos f n s = upd_file f (\<lambda>p. p\<lparr>f_pos := s32 (f_pos p + n)\<rparr>) s"

text \<open>The byte loops between a buffer and the user: \<open>n\<close> bytes from offset \<open>c\<close> of buffer \<open>b\<close>.\<close>

definition buf_to_user :: "nat \<Rightarrow> nat \<Rightarrow> nat \<Rightarrow> u32 \<Rightarrow> fs \<Rightarrow> fs" where
  "buf_to_user b c n addr s = put_fs_bytes (map (b_data (buffers s b)) [c..<c + n]) addr s"

definition user_to_buf :: "u32 \<Rightarrow> nat \<Rightarrow> nat \<Rightarrow> nat \<Rightarrow> fs \<Rightarrow> fs" where
  "user_to_buf addr b c n s =
     upd_bh b (\<lambda>h. h\<lparr>b_data := (\<lambda>k. if c \<le> k \<and> k < c + n then get_fs_byte (addr + of_nat (k - c)) s else b_data h k)\<rparr>) s"

section \<open>Regular files and directories\<close>

text \<open>The block a position of the file lies in: \<open>None\<close> when it cannot be read, \<open>Some None\<close> for a hole.\<close>

definition file_block :: "kenv \<Rightarrow> nat \<Rightarrow> int \<Rightarrow> fs \<Rightarrow> (fs, nat option option) outcome" where
  "file_block E i pos s =
     bindO (bmap E i (pos sdiv 1024) s) (\<lambda>nr s.
     if nr = 0 then Ret (Some None) s
     else bindO (bread E (dev_of i s) (of_int nr) s) (\<lambda>r s. Ret (map_option Some r) s))"

definition file_read_step :: "kenv \<Rightarrow> nat \<Rightarrow> nat \<Rightarrow> int \<times> u32 \<Rightarrow> fs \<Rightarrow> (fs, (int \<times> u32) + int) outcome" where
  "file_read_step E i f = (\<lambda>(left, buf) s.
     if left = 0 then Ret (Inr left) s
     else bindO (file_block E i (pos_of f s) s) (\<lambda>r s.
          case r of
            None \<Rightarrow> Ret (Inr left) s
          | Some bh \<Rightarrow>
              let nr = pos_of f s smod 1024;
                  chars = min (1024 - nr) left;
                  s1 = add_pos f chars s
              in if nr < 0 then Undefined ''negative position''
                 else bindO (case bh of
                               Some b \<Rightarrow> brelse E (Some b) (buf_to_user b (nat nr) (nat chars) buf s1)
                             | None \<Rightarrow> Ret () (put_fs_bytes (replicate (nat chars) 0) buf s1))
                        (\<lambda>_ s. Ret (Inl (left - chars, buf + of_int chars)) s)))"

definition file_read :: "kenv \<Rightarrow> nat \<Rightarrow> nat \<Rightarrow> u32 \<Rightarrow> int \<Rightarrow> fs \<Rightarrow> (fs, int) outcome" where
  "file_read E i f buf count s =
     (if count \<le> 0 then Ret 0 s
      else bindO (loopO (file_read_step E i f) (count, buf) s) (\<lambda>left s.
           Ret (if count - left \<noteq> 0 then count - left else - ERROR)
             (upd_inode i (\<lambda>m. m\<lparr>i_atime := time_u32 s\<rparr>) s)))"

text \<open>The loop variables of \<open>file_write\<close>: \<open>i\<close> (here \<open>n\<close>), \<open>pos\<close> and \<open>buf\<close>.\<close>

definition file_write_step ::
  "kenv \<Rightarrow> nat \<Rightarrow> int \<Rightarrow> int \<times> int \<times> u32 \<Rightarrow> fs \<Rightarrow> (fs, (int \<times> int \<times> u32) + (int \<times> int)) outcome" where
  "file_write_step E i count = (\<lambda>(n, pos, buf) s.
     if n \<ge> count then Ret (Inr (n, pos)) s
     else bindO (create_block E i (pos sdiv 1024) s) (\<lambda>block s.
          if block = 0 then Ret (Inr (n, pos)) s
          else bindO (bread E (dev_of i s) (of_int block) s) (\<lambda>r s.
               case r of
                 None \<Rightarrow> Ret (Inr (n, pos)) s
               | Some b \<Rightarrow>
                   let p = pos smod 1024;
                       c = min (1024 - p) (count - n);
                       pos' = s32 (pos + c);
                       s1 = upd_bh b (\<lambda>h. h\<lparr>b_dirt := 1\<rparr>) s;
                       s2 = (if of_int pos' > i_size (inode_table s1 i)
                             then upd_inode i (\<lambda>m. m\<lparr>i_size := of_int pos', i_dirt := 1\<rparr>) s1 else s1)
                   in if p < 0 then Undefined ''negative position''
                      else bindO (brelse E (Some b) (user_to_buf buf b (nat p) (nat c) s2))
                             (\<lambda>_ s. Ret (Inl (n + c, pos', buf + of_int c)) s))))"

definition file_write :: "kenv \<Rightarrow> nat \<Rightarrow> nat \<Rightarrow> u32 \<Rightarrow> int \<Rightarrow> fs \<Rightarrow> (fs, int) outcome" where
  "file_write E i f buf count s =
     (let pos = (if f_flags (file_table s f) AND O_APPEND \<noteq> 0 then sint (i_size (inode_table s i)) else pos_of f s)
      in bindO (loopO (file_write_step E i count) (0, pos, buf) s) (\<lambda>(n, pos) s.
         let s1 = upd_inode i (\<lambda>m. m\<lparr>i_mtime := time_u32 s\<rparr>) s;
             s2 = (if f_flags (file_table s1 f) AND O_APPEND = 0
                   then upd_inode i (\<lambda>m. m\<lparr>i_ctime := time_u32 s1\<rparr>) (upd_file f (\<lambda>p. p\<lparr>f_pos := pos\<rparr>) s1) else s1)
         in Ret (if n \<noteq> 0 then n else - 1) s2))"

section \<open>Block devices\<close>

text \<open>The read-ahead arguments of \<open>breada\<close> end at the first negative one.\<close>

definition read_ahead :: "u32 \<Rightarrow> u32 list" where
  "read_ahead block = takeWhile (\<lambda>b. 0 \<le> sint b) [block + 1, block + 2]"

definition block_write_step ::
  "kenv \<Rightarrow> u32 \<Rightarrow> nat \<Rightarrow> int \<times> u32 \<times> nat \<times> int \<times> u32 \<Rightarrow> fs
   \<Rightarrow> (fs, (int \<times> u32 \<times> nat \<times> int \<times> u32) + int) outcome" where
  "block_write_step E dev f = (\<lambda>(count, block, offset, written, buf) s.
     if count \<le> 0 then Ret (Inr written) s
     else let chars = min (1024 - int offset) count in
       bindO (if chars = 1024 then bindO (getblk E dev block s) (\<lambda>b s. Ret (Some b) s)
              else breada E dev block (read_ahead block) s) (\<lambda>r s.
       case r of
         None \<Rightarrow> Ret (Inr (if written \<noteq> 0 then written else - EIO)) s
       | Some b \<Rightarrow>
           let s1 = user_to_buf buf b offset (nat chars) (add_pos f chars s);
               s2 = upd_bh b (\<lambda>h. h\<lparr>b_dirt := 1\<rparr>) s1
           in bindO (brelse E (Some b) s2)
                (\<lambda>_ s. Ret (Inl (count - chars, block + 1, 0, written + chars, buf + of_int chars)) s)))"

definition block_write :: "kenv \<Rightarrow> u32 \<Rightarrow> nat \<Rightarrow> u32 \<Rightarrow> int \<Rightarrow> fs \<Rightarrow> (fs, int) outcome" where
  "block_write E dev f buf count s =
     loopO (block_write_step E dev f)
       (count, of_int (pos_of f s div 1024), nat (pos_of f s mod 1024), 0, buf) s"

definition block_read_step ::
  "kenv \<Rightarrow> u32 \<Rightarrow> nat \<Rightarrow> int \<times> u32 \<times> nat \<times> int \<times> u32 \<Rightarrow> fs
   \<Rightarrow> (fs, (int \<times> u32 \<times> nat \<times> int \<times> u32) + int) outcome" where
  "block_read_step E dev f = (\<lambda>(count, block, offset, done, buf) s.
     if count \<le> 0 then Ret (Inr done) s
     else let chars = min (1024 - int offset) count in
       bindO (breada E dev block (read_ahead block) s) (\<lambda>r s.
       case r of
         None \<Rightarrow> Ret (Inr (if done \<noteq> 0 then done else - EIO)) s
       | Some b \<Rightarrow>
           bindO (brelse E (Some b) (buf_to_user b offset (nat chars) buf (add_pos f chars s)))
             (\<lambda>_ s. Ret (Inl (count - chars, block + 1, 0, done + chars, buf + of_int chars)) s)))"

text \<open>Here \<open>*pos\<close> is unsigned, so its shift brings in zeros.\<close>

definition block_read :: "kenv \<Rightarrow> u32 \<Rightarrow> nat \<Rightarrow> u32 \<Rightarrow> int \<Rightarrow> fs \<Rightarrow> (fs, int) outcome" where
  "block_read E dev f buf count s =
     loopO (block_read_step E dev f)
       (count, drop_bit 10 (of_int (pos_of f s)), nat (pos_of f s mod 1024), 0, buf) s"

section \<open>Pipes\<close>

definition PIPE_SIZE :: "m_inode \<Rightarrow> int" where
  "PIPE_SIZE m = (uint (i_zone m 0) - uint (i_zone m 1)) mod 4096"

definition wake_inode :: "nat \<Rightarrow> fs \<Rightarrow> fs" where
  "wake_inode i s = wake_up (\<lambda>s. i_wait (inode_table s i)) s"

definition sleep_inode :: "kenv \<Rightarrow> nat \<Rightarrow> fs \<Rightarrow> (fs, unit) outcome" where
  "sleep_inode E i s = sleep_on (k_env E) (\<lambda>s. i_wait (inode_table s i)) (put_i_wait i) s"

definition pipe_chars :: "u16 \<Rightarrow> int \<Rightarrow> int \<Rightarrow> int" where
  "pipe_chars p count sz = min (min (4096 - uint p) count) sz"

definition adv_pipe :: "nat \<Rightarrow> nat \<Rightarrow> int \<Rightarrow> fs \<Rightarrow> fs" where
  "adv_pipe i z n s = set_zone i z ((zone_of i z s + of_int n) AND 0xfff) s"

definition read_pipe_step :: "kenv \<Rightarrow> nat \<Rightarrow> int \<times> u32 \<times> int \<Rightarrow> fs \<Rightarrow> (fs, (int \<times> u32 \<times> int) + int) outcome" where
  "read_pipe_step E i = (\<lambda>(count, buf, done) s.
     if count \<le> 0 then Ret (Inr done) (wake_inode i s)
     else let sz = PIPE_SIZE (inode_table s i) in
       if sz = 0
       then let s1 = wake_inode i s in
            if i_count (inode_table s1 i) \<noteq> 2 then Ret (Inr done) s1
            else bindO (sleep_inode E i s1) (\<lambda>_ s. Ret (Inl (count, buf, done)) s)
       else let tail = zone_of i 1 s;
                chars = pipe_chars tail count sz;
                s1 = adv_pipe i 1 chars s;
                bytes = map (\<lambda>k. get_pbyte (i_size (inode_table s1 i) + ucast tail + of_nat k) s1) [0..<nat chars]
            in Ret (Inl (count - chars, buf + of_nat (nat chars), done + chars)) (put_fs_bytes bytes buf s1))"

definition read_pipe :: "kenv \<Rightarrow> nat \<Rightarrow> u32 \<Rightarrow> int \<Rightarrow> fs \<Rightarrow> (fs, int) outcome" where
  "read_pipe E i buf count s = loopO (read_pipe_step E i) (count, buf, 0) s"

definition write_pipe_step :: "kenv \<Rightarrow> nat \<Rightarrow> int \<times> u32 \<times> int \<Rightarrow> fs \<Rightarrow> (fs, (int \<times> u32 \<times> int) + int) outcome" where
  "write_pipe_step E i = (\<lambda>(count, buf, written) s.
     if count \<le> 0 then Ret (Inr written) (wake_inode i s)
     else let sz = 4095 - PIPE_SIZE (inode_table s i) in
       if sz = 0
       then let s1 = wake_inode i s in
            if i_count (inode_table s1 i) \<noteq> 2
            then Ret (Inr (if written \<noteq> 0 then written else - 1))
                   (upd_cur (\<lambda>t. t\<lparr>signal := signal t OR sigbit SIGPIPE\<rparr>) s1)
            else bindO (sleep_inode E i s1) (\<lambda>_ s. Ret (Inl (count, buf, written)) s)
       else let head = zone_of i 0 s;
                chars = pipe_chars head count sz;
                s1 = adv_pipe i 0 chars s;
                s2 = foldl (\<lambda>s k. put_pbyte (get_fs_byte (buf + of_nat k) s)
                                (i_size (inode_table s i) + ucast head + of_nat k) s) s1 [0..<nat chars]
            in Ret (Inl (count - chars, buf + of_nat (nat chars), written + chars)) s2)"

definition write_pipe :: "kenv \<Rightarrow> nat \<Rightarrow> u32 \<Rightarrow> int \<Rightarrow> fs \<Rightarrow> (fs, int) outcome" where
  "write_pipe E i buf count s = loopO (write_pipe_step E i) (count, buf, 0) s"

definition set_filp :: "nat \<Rightarrow> nat option \<Rightarrow> fs \<Rightarrow> fs" where
  "set_filp fd f s = upd_cur (\<lambda>t. t\<lparr>filp := (filp t)(fd := f)\<rparr>) s"

definition set_f_count :: "nat \<Rightarrow> u16 \<Rightarrow> fs \<Rightarrow> fs" where
  "set_f_count f n s = upd_file f (\<lambda>p. p\<lparr>f_count := n\<rparr>) s"

definition sys_pipe :: "kenv \<Rightarrow> u32 \<Rightarrow> fs \<Rightarrow> (fs, int) outcome" where
  "sys_pipe E fildes s =
     (case take 2 (filter (\<lambda>i. f_count (file_table s i) = 0) [0..<NR_FILE]) of
        [f0, f1] \<Rightarrow>
          (let s1 = set_f_count f1 1 (set_f_count f0 1 s);
               drop_files = (\<lambda>s. set_f_count f0 0 (set_f_count f1 0 s))
           in case take 2 (filter (\<lambda>fd. filp (cur s1) fd = None) [0..<NR_OPEN]) of
                [d0, d1] \<Rightarrow>
                  bindO (get_pipe_inode E (set_filp d1 (Some f1) (set_filp d0 (Some f0) s1))) (\<lambda>r s.
                  case r of
                    None \<Rightarrow> Ret (- 1) (drop_files (set_filp d0 None (set_filp d1 None s)))
                  | Some i \<Rightarrow>
                      let s2 = upd_file f0 (\<lambda>p. p\<lparr>f_inode := Some i, f_pos := 0, f_mode := 1\<rparr>) s;
                          s3 = upd_file f1 (\<lambda>p. p\<lparr>f_inode := Some i, f_pos := 0, f_mode := 2\<rparr>) s2
                      in Ret 0 (put_fs_long (of_nat d1) (fildes + 4) (put_fs_long (of_nat d0) fildes s3)))
              | [d0] \<Rightarrow> Ret (- 1) (drop_files (set_filp d0 None s1))
              | _ \<Rightarrow> Ret (- 1) (drop_files s1))
      | [f0] \<Rightarrow> Ret (- 1) (set_f_count f0 0 s)
      | _ \<Rightarrow> Ret (- 1) s)"

section \<open>Character devices\<close>

definition rw_ttyx :: "kenv \<Rightarrow> int \<Rightarrow> nat \<Rightarrow> u32 \<Rightarrow> int \<Rightarrow> fs \<Rightarrow> (fs, int) outcome" where
  "rw_ttyx E rw minor buf count s =
     (if rw = READ then tty_read (k_env E) minor buf count s else tty_write (k_env E) minor buf count s)"

definition rw_tty :: "kenv \<Rightarrow> int \<Rightarrow> nat \<Rightarrow> u32 \<Rightarrow> int \<Rightarrow> fs \<Rightarrow> (fs, int) outcome" where
  "rw_tty E rw minor buf count s =
     (if tty (cur s) < 0 then Ret (- EPERM) s else rw_ttyx E rw (nat (tty (cur s))) buf count s)"

text \<open>\<open>n\<close> is the rest of the count; the value is the port where the loop stopped.\<close>

primrec rw_port_loop :: "nat \<Rightarrow> int \<Rightarrow> u32 \<Rightarrow> int \<Rightarrow> fs \<Rightarrow> int \<times> fs" where
  "rw_port_loop 0 rw buf i s = (i, s)"
| "rw_port_loop (Suc n) rw buf i s =
     (if i < 65536
      then rw_port_loop n rw (buf + 1) (i + 1)
             (if rw = READ then put_fs_byte (inb_val s (of_int i)) buf s else outb (get_fs_byte buf s) (of_int i) s)
      else (i, s))"

definition rw_port :: "int \<Rightarrow> u32 \<Rightarrow> int \<Rightarrow> nat \<Rightarrow> fs \<Rightarrow> (fs, int) outcome" where
  "rw_port rw buf count f s =
     (case rw_port_loop (nat count) rw buf (pos_of f s) s of
        (i, s1) \<Rightarrow> let n = s32 (i - pos_of f s1) in Ret n (add_pos f n s1))"

definition rw_memory :: "int \<Rightarrow> nat \<Rightarrow> u32 \<Rightarrow> int \<Rightarrow> nat \<Rightarrow> fs \<Rightarrow> (fs, int) outcome" where
  "rw_memory rw minor buf count f s =
     (if minor = 3 then Ret (if rw = READ then 0 else count) s
      else if minor = 4 then rw_port rw buf count f s
      else Ret (- EIO) s)"

text \<open>The table has entries for the majors 1 (memory), 4 (terminals) and 5 (the controlling terminal).\<close>

definition rw_char :: "kenv \<Rightarrow> int \<Rightarrow> u32 \<Rightarrow> u32 \<Rightarrow> int \<Rightarrow> nat \<Rightarrow> fs \<Rightarrow> (fs, int) outcome" where
  "rw_char E rw dev buf count f s =
     (let minor = unat (MINOR dev) in
      if MAJOR dev = 1 then rw_memory rw minor buf count f s
      else if MAJOR dev = 4 then rw_ttyx E rw minor buf count s
      else if MAJOR dev = 5 then rw_tty E rw minor buf count s
      else Ret (- ENODEV) s)"

section \<open>Reading, writing and seeking\<close>

definition fd_file :: "nat \<Rightarrow> fs \<Rightarrow> nat option" where
  "fd_file fd s = (if fd \<ge> NR_OPEN then None else filp (cur s) fd)"

definition IS_SEEKABLE :: "u32 \<Rightarrow> bool" where
  "IS_SEEKABLE x \<longleftrightarrow> 1 \<le> x \<and> x \<le> 3"

definition sys_lseek :: "nat \<Rightarrow> int \<Rightarrow> int \<Rightarrow> fs \<Rightarrow> int \<times> fs" where
  "sys_lseek fd offset whence s =
     (case fd_file fd s of
        None \<Rightarrow> (- EBADF, s)
      | Some f \<Rightarrow>
          (case f_inode (file_table s f) of
             None \<Rightarrow> (- EBADF, s)
           | Some i \<Rightarrow>
               let seek = (\<lambda>p. (p, upd_file f (\<lambda>h. h\<lparr>f_pos := p\<rparr>) s));
                   tmp = (if whence = 0 then offset
                          else if whence = 1 then s32 (pos_of f s + offset)
                          else s32 (uint (i_size (inode_table s i)) + offset))
               in if \<not> IS_SEEKABLE (MAJOR (dev_of i s)) then (- EBADF, s)
                  else if i_pipe (inode_table s i) \<noteq> 0 then (- ESPIPE, s)
                  else if whence \<notin> {0, 1, 2} \<or> tmp < 0 then (- EINVAL, s)
                  else seek tmp))"

definition sys_read :: "kenv \<Rightarrow> nat \<Rightarrow> u32 \<Rightarrow> int \<Rightarrow> fs \<Rightarrow> (fs, int) outcome" where
  "sys_read E fd buf count s =
     (case fd_file fd s of
        None \<Rightarrow> Ret (- EINVAL) s
      | Some f \<Rightarrow>
          if count < 0 then Ret (- EINVAL) s
          else if count = 0 then Ret 0 s
          else bindO (verify_area buf count s) (\<lambda>_ s.
            case f_inode (file_table s f) of
              None \<Rightarrow> Undefined ''f_inode''
            | Some i \<Rightarrow>
                let m = inode_table s i in
                if i_pipe m \<noteq> 0
                then if f_mode (file_table s f) AND 1 \<noteq> 0 then read_pipe E i buf count s else Ret (- EIO) s
                else if S_ISCHR (i_mode m) then rw_char E READ (ucast (i_zone m 0)) buf count f s
                else if S_ISBLK (i_mode m) then block_read E (ucast (i_zone m 0)) f buf count s
                else if S_ISDIR (i_mode m) \<or> S_ISREG (i_mode m)
                then let n = (if of_int (count + pos_of f s) > i_size m
                              then s32 (uint (i_size m) - pos_of f s) else count)
                     in if n \<le> 0 then Ret 0 s else file_read E i f buf n s
                else Ret (- EINVAL) s))"

definition sys_write :: "kenv \<Rightarrow> nat \<Rightarrow> u32 \<Rightarrow> int \<Rightarrow> fs \<Rightarrow> (fs, int) outcome" where
  "sys_write E fd buf count s =
     (case fd_file fd s of
        None \<Rightarrow> Ret (- EINVAL) s
      | Some f \<Rightarrow>
          if count < 0 then Ret (- EINVAL) s
          else if count = 0 then Ret 0 s
          else case f_inode (file_table s f) of
              None \<Rightarrow> Undefined ''f_inode''
            | Some i \<Rightarrow>
                let m = inode_table s i in
                if i_pipe m \<noteq> 0
                then if f_mode (file_table s f) AND 2 \<noteq> 0 then write_pipe E i buf count s else Ret (- EIO) s
                else if S_ISCHR (i_mode m) then rw_char E WRITE (ucast (i_zone m 0)) buf count f s
                else if S_ISBLK (i_mode m) then block_write E (ucast (i_zone m 0)) f buf count s
                else if S_ISREG (i_mode m) then file_write E i f buf count s
                else Ret (- EINVAL) s)"

section \<open>File descriptors\<close>

definition clear_cloexec :: "nat \<Rightarrow> fs \<Rightarrow> fs" where
  "clear_cloexec fd s = upd_cur (\<lambda>t. t\<lparr>close_on_exec := close_on_exec t AND NOT (push_bit fd 1)\<rparr>) s"

definition dupfd :: "nat \<Rightarrow> nat \<Rightarrow> fs \<Rightarrow> int \<times> fs" where
  "dupfd fd arg s =
     (case fd_file fd s of
        None \<Rightarrow> (- EBADF, s)
      | Some f \<Rightarrow>
          if arg \<ge> NR_OPEN then (- EINVAL, s)
          else case List.find (\<lambda>a. filp (cur s) a = None) [arg..<NR_OPEN] of
                 None \<Rightarrow> (- EMFILE, s)
               | Some a \<Rightarrow> (int a, upd_file f (\<lambda>p. p\<lparr>f_count := f_count p + 1\<rparr>) (set_filp a (Some f) (clear_cloexec a s))))"

definition sys_close :: "kenv \<Rightarrow> nat \<Rightarrow> fs \<Rightarrow> (fs, int) outcome" where
  "sys_close E fd s =
     (if fd \<ge> NR_OPEN then Ret (- EINVAL) s
      else let s1 = clear_cloexec fd s in
        case filp (cur s1) fd of
          None \<Rightarrow> Ret (- EINVAL) s1
        | Some f \<Rightarrow>
            if f_count (file_table s1 f) = 0 then Panic ''Close: file count is 0''
            else let s2 = upd_file f (\<lambda>p. p\<lparr>f_count := f_count p - 1\<rparr>) (set_filp fd None s1) in
              if f_count (file_table s2 f) \<noteq> 0 then Ret 0 s2
              else bindO (iput E (f_inode (file_table s2 f)) s2) (\<lambda>_ s. Ret 0 s))"

definition sys_dup2 :: "kenv \<Rightarrow> nat \<Rightarrow> nat \<Rightarrow> fs \<Rightarrow> (fs, int) outcome" where
  "sys_dup2 E oldfd newfd s =
     bindO (sys_close E newfd s) (\<lambda>_ s. case dupfd oldfd newfd s of (r, s) \<Rightarrow> Ret r s)"

definition sys_dup :: "nat \<Rightarrow> fs \<Rightarrow> int \<times> fs" where
  "sys_dup fildes s = dupfd fildes 0 s"

definition sys_fcntl :: "nat \<Rightarrow> nat \<Rightarrow> u32 \<Rightarrow> fs \<Rightarrow> int \<times> fs" where
  "sys_fcntl fd cmd arg s =
     (case fd_file fd s of
        None \<Rightarrow> (- EBADF, s)
      | Some f \<Rightarrow>
          if cmd = 0 then dupfd fd (unat arg) s
          else if cmd = 1 then (of_bool (bit (close_on_exec (cur s)) fd), s)
          else if cmd = 2
          then (0, if arg AND 1 \<noteq> 0 then upd_cur (\<lambda>t. t\<lparr>close_on_exec := close_on_exec t OR push_bit fd 1\<rparr>) s
                   else clear_cloexec fd s)
          else if cmd = 3 then (uint (f_flags (file_table s f)), s)
          else if cmd = 4
          then (0, upd_file f (\<lambda>p. p\<lparr>f_flags := (f_flags p AND NOT (O_APPEND OR O_NONBLOCK)) OR
                     (ucast arg AND (O_APPEND OR O_NONBLOCK))\<rparr>) s)
          else (- 1, s))"

section \<open>Status and control\<close>

text \<open>
  \<open>struct stat\<close> with its padding (bytes 7, 11, 14 and 15), which the source leaves
  at what the kernel stack held: \<open>junk\<close>.
\<close>

definition stat_bytes :: "(nat \<Rightarrow> u8) \<Rightarrow> m_inode \<Rightarrow> u8 list" where
  "stat_bytes junk m =
     map (put_u32 28 (i_ctime m) (put_u32 24 (i_mtime m) (put_u32 20 (i_atime m) (put_u32 16 (i_size m)
       (put_u16 12 (i_zone m 0) ((put_u16 8 (i_uid m) ((put_u16 4 (i_mode m) (put_u16 2 (i_num m)
         (put_u16 0 (i_dev m) junk)))(6 := i_nlinks m)))(10 := i_gid m))))))) [0..<32]"

definition cp_stat :: "(nat \<Rightarrow> u8) \<Rightarrow> nat \<Rightarrow> u32 \<Rightarrow> fs \<Rightarrow> (fs, unit) outcome" where
  "cp_stat junk i statbuf s =
     bindO (verify_area statbuf 32 s) (\<lambda>_ s.
     Ret () (put_fs_bytes (stat_bytes junk (inode_table s i)) statbuf s))"

definition sys_fstat :: "(nat \<Rightarrow> u8) \<Rightarrow> nat \<Rightarrow> u32 \<Rightarrow> fs \<Rightarrow> (fs, int) outcome" where
  "sys_fstat junk fd statbuf s =
     (case fd_file fd s of
        None \<Rightarrow> Ret (- EBADF) s
      | Some f \<Rightarrow>
          (case f_inode (file_table s f) of
             None \<Rightarrow> Ret (- EBADF) s
           | Some i \<Rightarrow> bindO (cp_stat junk i statbuf s) (\<lambda>_ s. Ret 0 s)))"

definition sys_ioctl :: "nat \<Rightarrow> u32 \<Rightarrow> u32 \<Rightarrow> fs \<Rightarrow> (fs, int) outcome" where
  "sys_ioctl fd cmd arg s =
     (case fd_file fd s of
        None \<Rightarrow> Ret (- EBADF) s
      | Some f \<Rightarrow>
          (case f_inode (file_table s f) of
             None \<Rightarrow> Undefined ''f_inode''
           | Some i \<Rightarrow>
               let mode = i_mode (inode_table s i); dev = ucast (zone_of i 0 s) in
               if \<not> S_ISCHR mode \<and> \<not> S_ISBLK mode then Ret (- EINVAL) s
               else if MAJOR dev \<ge> 8 then Ret (- ENODEV) s
               else if MAJOR dev = 4 \<or> MAJOR dev = 5 then tty_ioctl dev cmd arg s
               else Ret (- ENOTTY) s))"

end
