(* ===== verification/Process.thy ===== *)
theory Process
  imports Files
begin

unbundle bit_operations_syntax

text \<open>
  Creating and ending processes: \<open>src/kernel/fork.c\<close> (but \<open>verify_area\<close>, which is in
  \<open>Syscalls\<close>) and \<open>src/kernel/exit.c\<close>.

  \<open>do_exit\<close> does not come back: it ends as \<open>Exits\<close> with the state at its last call of \<open>schedule\<close>.
\<close>

section \<open>Fork\<close>

definition copy_mem :: "nat \<Rightarrow> u32 \<Rightarrow> fs \<Rightarrow> (fs, int) outcome" where
  "copy_mem nr p s =
     (let code_limit = get_limit (ldt (cur s) 1);
          data_limit = get_limit (ldt (cur s) 2);
          old_code_base = get_base (ldt (cur s) 1);
          old_data_base = get_base (ldt (cur s) 2);
          new_base = of_nat nr * 0x4000000
      in if old_data_base \<noteq> old_code_base then Panic ''We don't support separate I&D''
         else if data_limit < code_limit then Panic ''Bad data_limit''
         else let s1 = upd_task p (\<lambda>t. t\<lparr>start_code := new_base,
                         ldt := (ldt t)(1 := set_base (ldt t 1) new_base, 2 := set_base (ldt t 2) new_base)\<rparr>) s
              in bindO (copy_page_tables old_data_base new_base data_limit s1) (\<lambda>r s.
                 if r \<noteq> 0 then bindO (free_page_tables new_base data_limit s) (\<lambda>_ s. Ret (- ENOMEM) s)
                 else Ret 0 s))"

text \<open>The registers of the parent that \<open>copy_process\<close> finds on the stack.\<close>

record saved_regs =
  r_ebp :: u32
  r_edi :: u32
  r_esi :: u32
  r_gs :: u32
  r_ebx :: u32
  r_ecx :: u32
  r_edx :: u32
  r_fs :: u32
  r_es :: u32
  r_ds :: u32
  r_eip :: u32
  r_cs :: u32
  r_eflags :: u32
  r_esp :: u32
  r_ss :: u32

definition child_tss :: "nat \<Rightarrow> u32 \<Rightarrow> saved_regs \<Rightarrow> tss_struct \<Rightarrow> tss_struct" where
  "child_tss nr p r t = t\<lparr>back_link := 0, esp0 := 4096 + p, ss0 := 0x10, eip := r_eip r, eflags := r_eflags r,
     eax := 0, ecx := r_ecx r, edx := r_edx r, ebx := r_ebx r, esp := r_esp r, ebp := r_ebp r, esi := r_esi r,
     edi := r_edi r, es_reg := r_es r AND 0xffff, cs_reg := r_cs r AND 0xffff, ss_reg := r_ss r AND 0xffff,
     ds_reg := r_ds r AND 0xffff, fs_reg := r_fs r AND 0xffff, gs_reg := r_gs r AND 0xffff,
     ldt_sel := LDT_SEL nr, trace_bitmap := 0x80000000\<rparr>"

definition child_task :: "nat \<Rightarrow> u32 \<Rightarrow> saved_regs \<Rightarrow> fs \<Rightarrow> task_struct" where
  "child_task nr p r s =
     (cur s)\<lparr>state := TASK_UNINTERRUPTIBLE, pid := last_pid s, father := pid (cur s), counter := priority (cur s),
       signal := 0, alarm := 0, leader := 0, utime := 0, stime := 0, cutime := 0, cstime := 0,
       start_time := jiffies s, tss := child_tss nr p r (tss (cur s))\<rparr>"

text \<open>\<open>fnsave\<close> stores the coprocessor in the child and leaves it initialised.\<close>

definition save_fpu :: "u32 \<Rightarrow> fs \<Rightarrow> fs" where
  "save_fpu p s =
     (if last_task_used_math s = current s
      then (upd_task p (\<lambda>t. t\<lparr>tss := (tss t)\<lparr>i387 := fpu s\<rparr>\<rparr>) s)\<lparr>fpu := []\<rparr> else s)"

definition count_inode :: "nat option \<Rightarrow> fs \<Rightarrow> fs" where
  "count_inode ip s = (case ip of None \<Rightarrow> s | Some i \<Rightarrow> upd_inode i (\<lambda>m. m\<lparr>i_count := i_count m + 1\<rparr>) s)"

definition count_file :: "nat option \<Rightarrow> fs \<Rightarrow> fs" where
  "count_file fp s = (case fp of None \<Rightarrow> s | Some f \<Rightarrow> upd_file f (\<lambda>h. h\<lparr>f_count := f_count h + 1\<rparr>) s)"

text \<open>
  The page at \<open>p\<close> becomes the task structure of the child.  The memory the child
  sees, \<open>umem\<close>, is that of the parent: the page tables were copied.
\<close>

definition copy_process :: "nat \<Rightarrow> saved_regs \<Rightarrow> fs \<Rightarrow> (fs, int) outcome" where
  "copy_process nr regs s =
     (case get_free_page s of
        (p, s) \<Rightarrow>
          if p = 0 then Ret (- EAGAIN) s
          else let s1 = s\<lparr>task := (task s)(nr := p)\<rparr>;
                   s2 = upd_task p (\<lambda>_. child_task nr p regs s1) s1;
                   s3 = save_fpu p s2
               in bindO (copy_mem nr p s3) (\<lambda>r s.
                  if r \<noteq> 0
                  then bindO (free_page p (s\<lparr>task := (task s)(nr := 0)\<rparr>)) (\<lambda>_ s. Ret (- EAGAIN) s)
                  else let s4 = s\<lparr>umem := (umem s)(p := umem s (current s))\<rparr>;
                           s5 = fold (\<lambda>fd s. count_file (filp (tstruct s p) fd) s) [0..<NR_OPEN] s4;
                           s6 = count_inode (executable (cur s5)) (count_inode (root (cur s5)) (count_inode (pwd (cur s5)) s5));
                           s7 = set_ldt_desc (2 * nr + FIRST_LDT_ENTRY) (p + LDT_OFFSET)
                                  (set_tss_desc (2 * nr + FIRST_TSS_ENTRY) (p + TSS_OFFSET) s6)
                       in Ret (last_pid s7) (upd_task p (\<lambda>t. t\<lparr>state := TASK_RUNNING\<rparr>) s7)))"

definition pid_taken :: "fs \<Rightarrow> bool" where
  "pid_taken s \<longleftrightarrow> list_ex (\<lambda>i. task s i \<noteq> 0 \<and> pid (tstruct s (task s i)) = last_pid s) [0..<NR_TASKS]"

definition next_pid :: "int \<Rightarrow> int" where
  "next_pid l = (let l = s32 (l + 1) in if l < 0 then 1 else l)"

definition find_empty_process :: "fs \<Rightarrow> (fs, int) outcome" where
  "find_empty_process s =
     bindO (loopO (\<lambda>_ s. let s1 = s\<lparr>last_pid := next_pid (last_pid s)\<rparr> in
              if pid_taken s1 then Ret (Inl ()) s1 else Ret (Inr ()) s1) () s) (\<lambda>_ s.
     case List.find (\<lambda>i. task s i = 0) [1..<NR_TASKS] of
       Some i \<Rightarrow> Ret (int i) s
     | None \<Rightarrow> Ret (- EAGAIN) s)"

section \<open>Signals to processes\<close>

definition send_sig :: "int \<Rightarrow> u32 \<Rightarrow> bool \<Rightarrow> fs \<Rightarrow> int \<times> fs" where
  "send_sig sig p priv s =
     (if p = 0 \<or> sig < 1 \<or> sig > 32 then (- EINVAL, s)
      else if priv \<or> euid (cur s) = euid (tstruct s p) \<or> suser s
      then (0, upd_task p (\<lambda>t. t\<lparr>signal := signal t OR sigbit (nat sig)\<rparr>) s)
      else (- EPERM, s))"

definition kill_session :: "fs \<Rightarrow> fs" where
  "kill_session s =
     fold (\<lambda>i s. if task s i \<noteq> 0 \<and> session (tstruct s (task s i)) = session (cur s)
                 then upd_task (task s i) (\<lambda>t. t\<lparr>signal := signal t OR sigbit SIGHUP\<rparr>) s else s) (rev [1..<NR_TASKS]) s"

text \<open>One of the loops of \<open>sys_kill\<close>: the slots of \<open>ps\<close> that satisfy \<open>sel\<close>; the last error is kept.\<close>

primrec kill_loop :: "nat list \<Rightarrow> (fs \<Rightarrow> u32 \<Rightarrow> bool) \<Rightarrow> int \<Rightarrow> bool \<Rightarrow> int \<Rightarrow> fs \<Rightarrow> int \<times> fs" where
  "kill_loop [] sel sig priv retval s = (retval, s)"
| "kill_loop (i # is) sel sig priv retval s =
     (if task s i \<noteq> 0 \<and> sel s (task s i)
      then case send_sig sig (task s i) priv s of (err, s) \<Rightarrow> kill_loop is sel sig priv (if err \<noteq> 0 then err else retval) s
      else kill_loop is sel sig priv retval s)"

text \<open>
  The branch for \<open>pid == -1\<close>.  The last \<open>else\<close> of the source belongs to the inner
  \<open>if\<close>: as soon as one signal has been sent, the loop for a process
  group runs over the rest of the slots.
\<close>

primrec kill_all :: "nat list \<Rightarrow> int \<Rightarrow> int \<Rightarrow> fs \<Rightarrow> int \<times> fs" where
  "kill_all [] sig retval s = (retval, s)"
| "kill_all (i # is) sig retval s =
     (case send_sig sig (task s i) False s of
        (err, s) \<Rightarrow> if err \<noteq> 0 then kill_all is sig err s
                    else kill_loop is (\<lambda>s p. pgrp (tstruct s p) = 1) sig False retval s)"

definition sys_kill :: "int \<Rightarrow> int \<Rightarrow> fs \<Rightarrow> int \<times> fs" where
  "sys_kill target sig s =
     (let ps = rev [1..<NR_TASKS] in
      if target = 0 then kill_loop ps (\<lambda>s p. pgrp (tstruct s p) = pid (cur s)) sig True 0 s
      else if target > 0 then kill_loop ps (\<lambda>s p. pid (tstruct s p) = target) sig False 0 s
      else if target = - 1 then kill_all ps sig 0 s
      else (0, s))"

section \<open>Exit\<close>

definition release :: "kenv \<Rightarrow> u32 \<Rightarrow> fs \<Rightarrow> (fs, unit) outcome" where
  "release E p s =
     (if p = 0 then Ret () s
      else case List.find (\<lambda>i. task s i = p) [1..<NR_TASKS] of
             None \<Rightarrow> Panic ''trying to release non-existent task''
           | Some i \<Rightarrow> bindO (free_page p (s\<lparr>task := (task s)(i := 0)\<rparr>)) (\<lambda>_ s. schedule (k_env E) s))"

definition tell_father :: "kenv \<Rightarrow> int \<Rightarrow> fs \<Rightarrow> (fs, unit) outcome" where
  "tell_father E ppid s =
     (case (if ppid = 0 then None
            else List.find (\<lambda>i. task s i \<noteq> 0 \<and> pid (tstruct s (task s i)) = ppid) [0..<NR_TASKS]) of
        Some i \<Rightarrow> Ret () (upd_task (task s i) (\<lambda>t. t\<lparr>signal := signal t OR sigbit SIGCHLD\<rparr>) s)
      | None \<Rightarrow> release E (current s) s)"

definition orphan :: "nat \<Rightarrow> fs \<Rightarrow> fs" where
  "orphan i s =
     (if task s i \<noteq> 0 \<and> father (tstruct s (task s i)) = pid (cur s)
      then let s1 = upd_task (task s i) (\<lambda>t. t\<lparr>father := 1\<rparr>) s in
           if state (tstruct s1 (task s1 i)) = TASK_ZOMBIE then snd (send_sig (int SIGCHLD) (task s1 1) True s1) else s1
      else s)"

definition put_dirs :: "kenv \<Rightarrow> fs \<Rightarrow> (fs, unit) outcome" where
  "put_dirs E s =
     bindO (iput E (pwd (cur s)) s) (\<lambda>_ s.
     let s = upd_cur (\<lambda>t. t\<lparr>pwd := None\<rparr>) s in
     bindO (iput E (root (cur s)) s) (\<lambda>_ s.
     let s = upd_cur (\<lambda>t. t\<lparr>root := None\<rparr>) s in
     bindO (iput E (executable (cur s)) s) (\<lambda>_ s.
     Ret () (upd_cur (\<lambda>t. t\<lparr>executable := None\<rparr>) s))))"

definition do_exit :: "kenv \<Rightarrow> int \<Rightarrow> fs \<Rightarrow> (fs, unit) outcome" where
  "do_exit E code s =
     bindO (free_page_tables (get_base (ldt (cur s) 1)) (get_limit (ldt (cur s) 1)) s) (\<lambda>_ s.
     bindO (free_page_tables (get_base (ldt (cur s) 2)) (get_limit (ldt (cur s) 2)) s) (\<lambda>_ s.
     bindO (eachO (\<lambda>fd s. if filp (cur s) fd \<noteq> None then bindO (sys_close E fd s) (\<lambda>_ s. Ret () s) else Ret () s)
              [0..<NR_OPEN] (fold orphan [0..<NR_TASKS] s)) (\<lambda>_ s.
     bindO (put_dirs E s) (\<lambda>_ s.
     bindO (if leader (cur s) \<noteq> 0 \<and> tty (cur s) \<ge> 0
            then if tty (cur s) > 2 then Undefined ''tty_table''
                 else Ret () (upd_tty (nat (tty (cur s))) (\<lambda>t. t\<lparr>t_pgrp := 0\<rparr>) s)
            else Ret () s) (\<lambda>_ s.
     let s1 = (if last_task_used_math s = current s then s\<lparr>last_task_used_math := 0\<rparr> else s);
         s2 = (if leader (cur s1) \<noteq> 0 then kill_session s1 else s1);
         s3 = upd_cur (\<lambda>t. t\<lparr>state := TASK_ZOMBIE, exit_code := code\<rparr>) s2
     in bindO (tell_father E (father (cur s3)) s3) (\<lambda>_ s. Exits code s))))))"

definition sys_exit :: "kenv \<Rightarrow> int \<Rightarrow> fs \<Rightarrow> (fs, unit) outcome" where
  "sys_exit E error_code s = do_exit E ((error_code mod 256) * 256) s"

section \<open>Waiting for children\<close>

definition wait_for :: "int \<Rightarrow> fs \<Rightarrow> nat \<Rightarrow> bool" where
  "wait_for target s i \<longleftrightarrow>
     (let p = task s i; t = tstruct s p in
      p \<noteq> 0 \<and> p \<noteq> current s \<and> father t = pid (cur s) \<and>
      (if target > 0 then pid t = target else if target = 0 then pgrp t = pgrp (cur s)
       else target = - 1 \<or> pgrp t = - target))"

definition sys_waitpid :: "kenv \<Rightarrow> int \<Rightarrow> u32 \<Rightarrow> u32 \<Rightarrow> fs \<Rightarrow> (fs, int) outcome" where
  "sys_waitpid E target stat_addr options s =
     bindO (verify_area stat_addr 4 s) (\<lambda>_ s.
     loopO (\<lambda>_ s.
       let st = (\<lambda>i. state (tstruct s (task s i)));
           mine = filter (wait_for target s) (rev [1..<NR_TASKS])
       in case List.find (\<lambda>i. st i = TASK_ZOMBIE \<or> st i = TASK_STOPPED \<and> options AND 2 \<noteq> 0) mine of
            Some i \<Rightarrow>
              let t = tstruct s (task s i) in
              if st i = TASK_STOPPED then Ret (Inr (pid t)) (put_fs_long 0x7f stat_addr s)
              else let s1 = upd_cur (\<lambda>c. c\<lparr>cutime := s32 (cutime c + utime t), cstime := s32 (cstime c + stime t)\<rparr>) s
                   in bindO (release E (task s i) s1) (\<lambda>_ s.
                      Ret (Inr (pid t)) (put_fs_long (of_int (exit_code t)) stat_addr s))
          | None \<Rightarrow>
              if list_ex (\<lambda>i. st i \<noteq> TASK_STOPPED) mine
              then if options AND 1 \<noteq> 0 then Ret (Inr 0) s
                   else bindO (schedule (k_env E) (upd_cur (\<lambda>c. c\<lparr>state := TASK_INTERRUPTIBLE\<rparr>) s)) (\<lambda>_ s.
                        let s1 = upd_cur (\<lambda>c. c\<lparr>signal := signal c AND NOT (sigbit SIGCHLD)\<rparr>) s in
                        if signal (cur s1) = 0 then Ret (Inl ()) s1 else Ret (Inr (- EINTR)) s1)
              else Ret (Inr (- ECHILD)) s) () s)"

end
