(* ===== verification/Process_Props.thy ===== *)
theory Process_Props
  imports Process
begin

unbundle bit_operations_syntax

text \<open>
  Process numbers, signals and waiting: the properties of \<open>Process\<close>.
\<close>

section \<open>The search for a free process number\<close>

text \<open>Process numbers run from 1 to the largest positive \<open>long\<close> and start over.\<close>

lemma next_pid_cases:
  assumes "0 \<le> l" "in_s32 l"
  shows "next_pid l = (if l = 2147483647 then 1 else l + 1)"
  using assms by (auto simp: next_pid_def in_s32_def Let_def s32_def)

lemma next_pid_range: "in_s32 l \<Longrightarrow> 0 \<le> l \<Longrightarrow> 0 < next_pid l \<and> in_s32 (next_pid l)"
  by (auto simp: next_pid_cases in_s32_def)

primrec pid_after :: "nat \<Rightarrow> int \<Rightarrow> int" where
  "pid_after 0 l = l"
| "pid_after (Suc n) l = pid_after n (next_pid l)"

lemma pid_after_mod:
  assumes "0 \<le> l" "in_s32 l"
  shows "pid_after (Suc n) l = (l + int n) mod 2147483647 + 1"
  using assms
proof (induction n arbitrary: l)
  case 0
  then show ?case using next_pid_cases [of l] by (auto simp: in_s32_def)
next
  case (Suc n)
  have r: "0 \<le> next_pid l" "in_s32 (next_pid l)" using next_pid_range Suc.prems by (auto intro: less_imp_le)
  have "pid_after (Suc (Suc n)) l = (next_pid l + int n) mod 2147483647 + 1"
    using Suc.IH [OF r] by simp
  also have "next_pid l mod 2147483647 = (l + 1) mod 2147483647"
    using next_pid_cases [OF Suc.prems] by auto
  then have "(next_pid l + int n) mod 2147483647 = (l + int (Suc n)) mod 2147483647"
    using mod_add_cong [of "next_pid l" 2147483647 "l + 1" "int n" "int n"] by (simp add: algebra_simps)
  finally show ?case .
qed

lemma pid_after_inj:
  assumes "0 \<le> l" "in_s32 l"
  shows "inj_on (\<lambda>n. pid_after (Suc n) l) {..64}"
proof (rule inj_onI)
  fix x y :: nat assume xy: "x \<in> {..64}" "y \<in> {..64}" "pid_after (Suc x) l = pid_after (Suc y) l"
  then have "(l + int x) mod 2147483647 = (l + int y) mod 2147483647"
    using pid_after_mod [OF assms] by simp
  then have "2147483647 dvd (int x - int y)" by (simp add: mod_eq_dvd_iff)
  then obtain k where k: "int x - int y = 2147483647 * k" by (elim dvdE)
  have "int x - int y \<le> 64" "- 64 \<le> int x - int y" using xy(1,2) by auto
  then have "k < 1" "- 1 < k" using k by linarith+
  then show "x = y" using k by simp
qed

definition pids :: "fs \<Rightarrow> int set" where
  "pids s = {pid (tstruct s (task s i)) |i. i < NR_TASKS \<and> task s i \<noteq> 0}"

lemma pid_taken_iff: "pid_taken s \<longleftrightarrow> last_pid s \<in> pids s"
  by (simp add: pid_taken_def pids_def list_ex_iff atLeast0LessThan) (metis lessThan_iff)

lemma pids_last_pid [simp]: "pids (s\<lparr>last_pid := l\<rparr>) = pids s"
  by (simp add: pids_def)

lemma card_pids: "finite (pids s)" "card (pids s) \<le> 64"
proof -
  have sub: "pids s \<subseteq> (\<lambda>i. pid (tstruct s (task s i))) ` {..<64}" by (auto simp: pids_def)
  then show "finite (pids s)" by (rule finite_subset) simp
  show "card (pids s) \<le> 64"
    using card_mono [OF _ sub] card_image_le [of "{..<64::nat}" "\<lambda>i. pid (tstruct s (task s i))"] by simp
qed

lemma free_pid_near:
  assumes "0 \<le> l" "in_s32 l"
  shows "\<exists>n\<le>64. pid_after (Suc n) l \<notin> pids s"
proof (rule ccontr)
  assume "\<not> ?thesis"
  then have "(\<lambda>n. pid_after (Suc n) l) ` {..64} \<subseteq> pids s" by auto
  then have "card ((\<lambda>n. pid_after (Suc n) l) ` {..64::nat}) \<le> 64"
    using card_mono card_pids by (meson le_trans)
  then show False using card_image [OF pid_after_inj [OF assms]] by (simp del: pid_after.simps)
qed

definition pid_loop :: "unit \<Rightarrow> fs \<Rightarrow> (fs, unit + unit) outcome" where
  "pid_loop = (\<lambda>_ s. let s1 = s\<lparr>last_pid := next_pid (last_pid s)\<rparr> in
     if pid_taken s1 then Ret (Inl ()) s1 else Ret (Inr ()) s1)"

lemma pid_loop_ends:
  assumes "\<forall>m<n. pid_after (Suc m) (last_pid s) \<in> pids s" "pid_after (Suc n) (last_pid s) \<notin> pids s"
  shows "loopO pid_loop () s = Ret () (s\<lparr>last_pid := pid_after (Suc n) (last_pid s)\<rparr>)"
  using assms
proof (induction n arbitrary: s)
  case 0
  then have "pid_loop () s = Ret (Inr ()) (s\<lparr>last_pid := next_pid (last_pid s)\<rparr>)"
    by (simp add: pid_loop_def Let_def pid_taken_iff)
  then show ?case by (simp add: loopO_done)
next
  case (Suc n)
  let ?t = "s\<lparr>last_pid := next_pid (last_pid s)\<rparr>"
  have "next_pid (last_pid s) \<in> pids s" using Suc.prems(1) by (metis pid_after.simps zero_less_Suc)
  then have "pid_loop () s = Ret (Inl ()) ?t" by (simp add: pid_loop_def Let_def pid_taken_iff)
  then have "loopO pid_loop () s = loopO pid_loop () ?t" by (rule loopO_again)
  also have "\<dots> = Ret () (?t\<lparr>last_pid := pid_after (Suc n) (last_pid ?t)\<rparr>)"
    by (rule Suc.IH) (use Suc.prems in auto)
  finally show ?case by simp
qed

text \<open>C20: The search for a process number always ends, whatever numbers are in use: it
  leaves a positive number no process has in \<open>last_pid\<close>, changes nothing else, and
  returns the lowest free slot of the task table, or \<open>-EAGAIN\<close> when there is none.\<close>

theorem find_empty_process_total:
  assumes "0 \<le> last_pid s" "in_s32 (last_pid s)"
  shows "\<exists>r l. find_empty_process s = Ret r (s\<lparr>last_pid := l\<rparr>) \<and> 0 < l \<and> in_s32 l \<and>
     (\<forall>i<NR_TASKS. task s i \<noteq> 0 \<longrightarrow> pid (tstruct s (task s i)) \<noteq> l) \<and>
     (if \<exists>i\<in>{1..<NR_TASKS}. task s i = 0
      then \<exists>i\<in>{1..<NR_TASKS}. r = int i \<and> task s i = 0 \<and> (\<forall>j\<in>{1..<i}. task s j \<noteq> 0)
      else r = - EAGAIN)"
proof -
  obtain n0 where "pid_after (Suc n0) (last_pid s) \<notin> pids s" using free_pid_near [OF assms] by blast
  then obtain n where n: "\<forall>m<n. pid_after (Suc m) (last_pid s) \<in> pids s" "pid_after (Suc n) (last_pid s) \<notin> pids s"
    using exists_least_iff [of "\<lambda>n. pid_after (Suc n) (last_pid s) \<notin> pids s"] by auto
  define l where "l = pid_after (Suc n) (last_pid s)"
  have l: "0 < l" "in_s32 l"
    using pid_after_mod [OF assms, of n] pos_mod_bound [of 2147483647 "last_pid s + int n"]
      pos_mod_sign [of 2147483647 "last_pid s + int n"]
    by (simp_all add: l_def in_s32_def)
  have free: "\<forall>i<NR_TASKS. task s i \<noteq> 0 \<longrightarrow> pid (tstruct s (task s i)) \<noteq> l"
    using n(2) by (auto simp: pids_def l_def)
  have "loopO pid_loop () s = Ret () (s\<lparr>last_pid := l\<rparr>)"
    unfolding l_def by (rule pid_loop_ends [OF n])
  then have e: "find_empty_process s =
      (case List.find (\<lambda>i. task s i = 0) [1..<NR_TASKS] of
         Some i \<Rightarrow> Ret (int i) (s\<lparr>last_pid := l\<rparr>) | None \<Rightarrow> Ret (- EAGAIN) (s\<lparr>last_pid := l\<rparr>))"
    by (simp add: find_empty_process_def pid_loop_def)
  show ?thesis
  proof (cases "List.find (\<lambda>i. task s i = 0) [1..<NR_TASKS]")
    case None
    then have none: "\<not> (\<exists>i\<in>{1..<NR_TASKS}. task s i = 0)" by (simp add: find_None_iff)
    have "find_empty_process s = Ret (- EAGAIN) (s\<lparr>last_pid := l\<rparr>)" using e None by simp
    then show ?thesis using l free none by (intro exI [of _ "- EAGAIN"] exI [of _ l]) simp
  next
    case (Some i)
    then have i: "i \<in> {1..<NR_TASKS}" "task s i = 0" "\<forall>j\<in>{1..<i}. task s j \<noteq> 0"
      using find_upt_Some [of "\<lambda>i. task s i = 0" 1 NR_TASKS i] by auto
    have "find_empty_process s = Ret (int i) (s\<lparr>last_pid := l\<rparr>)" using e Some by simp
    moreover have ex: "\<exists>i\<in>{1..<NR_TASKS}. task s i = 0" using i by blast
    moreover have "\<exists>k\<in>{1..<NR_TASKS}. int i = int k \<and> task s k = 0 \<and> (\<forall>j\<in>{1..<k}. task s j \<noteq> 0)" using i by blast
    ultimately show ?thesis unfolding if_P [OF ex] using l free by blast
  qed
qed

definition demo_procs :: fs where
  "demo_procs = (undefined :: fs)\<lparr>last_pid := 2147483646, task := (\<lambda>i. if i < 3 then of_nat (4096 * (i + 1)) else 0),
     tstruct := (\<lambda>p. (undefined :: task_struct)\<lparr>pid := (if p = 4096 then 0 else if p = 8192 then 1 else 2147483647)\<rparr>)\<rparr>"

theorem find_empty_process_total_witness:
  "\<exists>r l. find_empty_process demo_procs = Ret r (demo_procs\<lparr>last_pid := l\<rparr>) \<and> 0 < l \<and> in_s32 l \<and>
     (\<forall>i<NR_TASKS. task demo_procs i \<noteq> 0 \<longrightarrow> pid (tstruct demo_procs (task demo_procs i)) \<noteq> l) \<and>
     (if \<exists>i\<in>{1..<NR_TASKS}. task demo_procs i = 0
      then \<exists>i\<in>{1..<NR_TASKS}. r = int i \<and> task demo_procs i = 0 \<and> (\<forall>j\<in>{1..<i}. task demo_procs j \<noteq> 0)
      else r = - EAGAIN)"
  by (rule find_empty_process_total) (simp_all add: demo_procs_def in_s32_def)

section \<open>Signals\<close>

definition may_signal :: "fs \<Rightarrow> u32 \<Rightarrow> bool" where
  "may_signal s p \<longleftrightarrow> euid (cur s) = euid (tstruct s p) \<or> suser s"

text \<open>The state in which the tasks of the set \<open>P\<close> have the signal pending.\<close>

definition signalled :: "int \<Rightarrow> u32 set \<Rightarrow> fs \<Rightarrow> fs" where
  "signalled sig P s = s\<lparr>tstruct := (\<lambda>p. if p \<in> P then (tstruct s p)\<lparr>signal := signal (tstruct s p) OR sigbit (nat sig)\<rparr>
                                      else tstruct s p)\<rparr>"

lemma signalled_simps [simp]:
  "task (signalled sig P s) = task s" "current (signalled sig P s) = current s"
  "euid (tstruct (signalled sig P s) p) = euid (tstruct s p)" "pid (tstruct (signalled sig P s) p) = pid (tstruct s p)"
  "pgrp (tstruct (signalled sig P s) p) = pgrp (tstruct s p)"
  by (simp_all add: signalled_def)

lemma may_signalled [simp]: "may_signal (signalled sig P s) p = may_signal s p"
  by (simp add: may_signal_def suser_def cur_def)

lemma signalled_signalled: "signalled sig P (signalled sig Q s) = signalled sig (P \<union> Q) s"
  by (auto simp: signalled_def fun_eq_iff or.assoc or.left_commute intro!: sched.surjective)

lemma signalled_empty [simp]: "signalled sig {} s = s"
  by (simp add: signalled_def)

lemma send_sig_cases:
  assumes "1 \<le> sig" "sig \<le> 32" "p \<noteq> 0"
  shows "send_sig sig p False s = (if may_signal s p then (0, signalled sig {p} s) else (- EPERM, s))"
  using assms by (auto simp: send_sig_def may_signal_def signalled_def upd_task_def fun_eq_iff
      intro!: arg_cong [where f = "\<lambda>t. s\<lparr>tstruct := t\<rparr>"])

definition hits :: "(fs \<Rightarrow> u32 \<Rightarrow> bool) \<Rightarrow> nat set \<Rightarrow> fs \<Rightarrow> u32 set" where
  "hits sel I s = {p. \<exists>i\<in>I. task s i = p \<and> p \<noteq> 0 \<and> sel s p}"

lemma kill_loop_exact:
  assumes "1 \<le> sig" "sig \<le> 32" "\<And>s P p. sel (signalled sig P s) p = sel s p"
  shows "kill_loop is sel sig False retval s =
    (if \<exists>p\<in>hits sel (set is) s. \<not> may_signal s p then - EPERM else retval,
     signalled sig {p \<in> hits sel (set is) s. may_signal s p} s)"
proof (induction "is" arbitrary: retval s)
  case Nil
  then show ?case by (simp add: hits_def)
next
  case (Cons i "is")
  let ?p = "task s i"
  have h: "hits sel (set (i # is)) s = (if ?p \<noteq> 0 \<and> sel s ?p then {?p} else {}) \<union> hits sel (set is) s"
    by (auto simp: hits_def)
  have hs: "hits sel J (signalled sig P s) = hits sel J s" for J P by (simp add: hits_def assms(3))
  show ?case
  proof (cases "?p \<noteq> 0 \<and> sel s ?p")
    case True
    show ?thesis
    proof (cases "may_signal s ?p")
      case may: True
      have "{p \<in> hits sel (set is) s. may_signal s p} \<union> {?p} = {p \<in> hits sel (set (i # is)) s. may_signal s p}"
        using True may h by auto
      then show ?thesis
        using True may h Cons.IH [of retval "signalled sig {?p} s"]
        by (simp add: send_sig_cases [OF assms(1,2)] hs signalled_signalled)
    next
      case no: False
      have "{p \<in> hits sel (set is) s. may_signal s p} = {p \<in> hits sel (set (i # is)) s. may_signal s p}"
        using True no h by auto
      then show ?thesis using True no h Cons.IH [of "- EPERM" s] by (simp add: send_sig_cases [OF assms(1,2)])
    qed
  next
    case False
    then show ?thesis using h Cons.IH [of retval s] by auto
  qed
qed

text \<open>C21: \<open>kill\<close> with a positive process number and a valid signal makes the signal
  pending for exactly the processes with that number that the caller may signal (the
  same effective user, or the super user), changes nothing else, and returns
  \<open>-EPERM\<close> exactly when one of them was refused; with a number below -1, which should address
  a process group, it does nothing and reports success.\<close>

theorem sys_kill_exact:
  assumes "1 \<le> sig" "sig \<le> 32"
  shows "(0 < target \<longrightarrow> sys_kill target sig s =
     (if \<exists>p\<in>hits (\<lambda>s p. pid (tstruct s p) = target) {1..<NR_TASKS} s. \<not> may_signal s p then - EPERM else 0,
      signalled sig {p \<in> hits (\<lambda>s p. pid (tstruct s p) = target) {1..<NR_TASKS} s. may_signal s p} s)) \<and>
    (target < - 1 \<longrightarrow> sys_kill target sig s = (0, s))"
  using kill_loop_exact [OF assms, of "\<lambda>s p. pid (tstruct s p) = target" "rev [1..<NR_TASKS]" 0 s]
  by (simp add: sys_kill_def)

lemma demo_procs_hits:
  "{p \<in> hits (\<lambda>s p. pid (tstruct s p) = 1) {1..<NR_TASKS} demo_procs. may_signal demo_procs p} = {8192}"
  "(\<exists>p\<in>hits (\<lambda>s p. pid (tstruct s p) = 1) {1..<NR_TASKS} demo_procs. \<not> may_signal demo_procs p) = False"
proof -
  have may: "may_signal demo_procs p" for p by (simp add: may_signal_def demo_procs_def cur_def)
  have "hits (\<lambda>s p. pid (tstruct s p) = 1) {1..<NR_TASKS} demo_procs = {8192}"
    by (auto simp: hits_def demo_procs_def intro!: bexI [of _ 1] split: if_splits)
  then show "{p \<in> hits (\<lambda>s p. pid (tstruct s p) = 1) {1..<NR_TASKS} demo_procs. may_signal demo_procs p} = {8192}"
    "(\<exists>p\<in>hits (\<lambda>s p. pid (tstruct s p) = 1) {1..<NR_TASKS} demo_procs. \<not> may_signal demo_procs p) = False"
    using may by auto
qed

theorem sys_kill_exact_witness:
  "sys_kill 1 9 demo_procs = (0, signalled 9 {8192} demo_procs) \<and> sys_kill (- 7) 9 demo_procs = (0, demo_procs)"
  using sys_kill_exact [of 9 1 demo_procs] sys_kill_exact [of 9 "- 7" demo_procs]
  unfolding demo_procs_hits by simp

end
