(* ===== verification/Namei.thy ===== *)
theory Namei
  imports Files
begin

unbundle bit_operations_syntax

text \<open>
  Path names and directories, \<open>src/fs/namei.c\<close>.  Names are strings in the memory of
  the current task, given by their address.  A directory entry is 16 bytes, the
  number of the inode and 14 characters; a pointer to one is a buffer
  and an offset into its data.

  \<open>iget\<close> never returns null (\<open>get_empty_inode\<close> panics instead), so the branches of
  the source for that case are left out.
\<close>

abbreviation (input) MAY_EXEC :: u32 where "MAY_EXEC \<equiv> 1"
abbreviation (input) MAY_WRITE :: u32 where "MAY_WRITE \<equiv> 2"
abbreviation (input) MAY_READ :: u32 where "MAY_READ \<equiv> 4"
abbreviation (input) NAME_LEN :: nat where "NAME_LEN \<equiv> 14"
abbreviation (input) ROOT_INO :: u16 where "ROOT_INO \<equiv> 1"
abbreviation (input) O_ACCMODE :: u32 where "O_ACCMODE \<equiv> 3"
abbreviation (input) O_WRONLY :: u32 where "O_WRONLY \<equiv> 1"
abbreviation (input) O_CREAT :: u32 where "O_CREAT \<equiv> 0x40"
abbreviation (input) O_EXCL :: u32 where "O_EXCL \<equiv> 0x80"
abbreviation (input) O_TRUNC :: u32 where "O_TRUNC \<equiv> 0x200"
abbreviation (input) S_ISVTX :: u16 where "S_ISVTX \<equiv> 0x200"
abbreviation (input) SLASH :: u8 where "SLASH \<equiv> 0x2f"
abbreviation (input) DOT :: u8 where "DOT \<equiv> 0x2e"

text \<open>The access asked for by the flags of \<open>open\<close>; the last entry is the character -1.\<close>

definition ACC_MODE :: "u32 \<Rightarrow> u32" where
  "ACC_MODE f = (let x = f AND O_ACCMODE in if x = 0 then 4 else if x = 1 then 2 else if x = 2 then 6 else - 1)"

definition permission :: "nat \<Rightarrow> u32 \<Rightarrow> fs \<Rightarrow> bool" where
  "permission i msk s =
     (let m = inode_table s i;
          mode = (ucast (i_mode m) :: u32);
          mode' = (if euid (cur s) = i_uid m then drop_bit 6 mode
                   else if egid (cur s) = ucast (i_gid m) then drop_bit 3 mode else mode)
      in if i_dev m \<noteq> 0 \<and> i_nlinks m = 0 then False
         else mode' AND msk AND 7 = msk \<or> suser s)"

section \<open>Directory entries\<close>

definition de_inode :: "nat \<Rightarrow> nat \<Rightarrow> fs \<Rightarrow> u16" where
  "de_inode b off s = get_u16 (b_data (buffers s b)) off"

definition set_de_inode :: "nat \<Rightarrow> nat \<Rightarrow> u16 \<Rightarrow> fs \<Rightarrow> fs" where
  "set_de_inode b off v s = upd_bh b (\<lambda>h. h\<lparr>b_data := put_u16 off v (b_data h)\<rparr>) s"

text \<open>
  \<open>match\<close>; its callers give a length of at least 1, so the flag that \<open>repe cmpsb\<close>
  leaves alone when it compares nothing never matters.
\<close>

definition match_entry :: "nat \<Rightarrow> u32 \<Rightarrow> nat \<Rightarrow> nat \<Rightarrow> fs \<Rightarrow> bool" where
  "match_entry len name b off s \<longleftrightarrow>
     (let d = b_data (buffers s b) in
      get_u16 d off \<noteq> 0 \<and> len \<le> NAME_LEN \<and> \<not> (len < NAME_LEN \<and> d (off + 2 + len) \<noteq> 0) \<and>
      list_all (\<lambda>k. get_fs_byte (name + of_nat k) s = d (off + 2 + k)) [0..<len])"

text \<open>
  The walk over the entries: number of the entry, buffer and offset.  When a
  block is missing the source compares the entry with \<open>bh->b_data\<close> for a null \<open>bh\<close>;
  that reads the first entry of the page directory, an address below every
  buffer, so the test always succeeds and the next block is looked up.
\<close>

definition find_step ::
  "kenv \<Rightarrow> nat \<Rightarrow> u32 \<Rightarrow> nat \<Rightarrow> nat \<Rightarrow> nat \<times> nat option \<times> nat \<Rightarrow> fs
   \<Rightarrow> (fs, (nat \<times> nat option \<times> nat) + (nat \<times> nat) option) outcome" where
  "find_step E dir name len entries = (\<lambda>(i, bh, off) s.
     let check = (\<lambda>b off s. if match_entry len name b off s then Ret (Inr (Some (b, off))) s
                            else Ret (Inl (i + 1, Some b, off + 16)) s) in
     if i \<ge> entries then bindO (brelse E bh s) (\<lambda>_ s. Ret (Inr None) s)
     else case bh of
            Some b \<Rightarrow> if off < 1024 then check b off s
                      else bindO (brelse E bh s) (\<lambda>_ s.
                           bindO (file_block E dir (int (i div 64) * 1024) s) (\<lambda>r s.
                           case r of Some (Some b) \<Rightarrow> check b 0 s | _ \<Rightarrow> Ret (Inl (i + 64, None, off)) s))
          | None \<Rightarrow> bindO (file_block E dir (int (i div 64) * 1024) s) (\<lambda>r s.
                    case r of Some (Some b) \<Rightarrow> check b 0 s | _ \<Rightarrow> Ret (Inl (i + 64, None, off)) s))"

text \<open>\<open>..\<close> in a pseudo-root and over a mount point: the length and the directory to use.\<close>

definition dotdot :: "kenv \<Rightarrow> nat \<Rightarrow> u32 \<Rightarrow> nat \<Rightarrow> fs \<Rightarrow> (fs, nat \<times> nat) outcome" where
  "dotdot E dir name len s =
     (if len = 2 \<and> get_fs_byte name s = DOT \<and> get_fs_byte (name + 1) s = DOT
      then if root (cur s) = Some dir then Ret (dir, 1) s
           else if i_num (inode_table s dir) = ROOT_INO
           then bindO (get_super E (dev_of dir s) s) (\<lambda>r s.
                case r of
                  None \<Rightarrow> Undefined ''sb->s_imount''
                | Some sb \<Rightarrow>
                    if s_imount (super_table s sb) = None then Ret (dir, len) s
                    else bindO (iput E (Some dir) s) (\<lambda>_ s.
                         case s_imount (super_table s sb) of
                           None \<Rightarrow> Undefined ''(*dir)->i_count''
                         | Some d \<Rightarrow> Ret (d, len) (upd_inode d (\<lambda>m. m\<lparr>i_count := i_count m + 1\<rparr>) s)))
           else Ret (dir, len) s
      else Ret (dir, len) s)"

text \<open>The result is the entry and the directory, which \<open>..\<close> may have changed.\<close>

definition find_entry :: "kenv \<Rightarrow> nat \<Rightarrow> u32 \<Rightarrow> nat \<Rightarrow> fs \<Rightarrow> (fs, (nat \<times> nat) option \<times> nat) outcome" where
  "find_entry E dir name namelen s =
     (let len = min namelen NAME_LEN;
          entries = unat (i_size (inode_table s dir)) div 16
      in if len = 0 then Ret (None, dir) s
         else bindO (dotdot E dir name len s) (\<lambda>(dir, len) s.
              if zone_of dir 0 s = 0 then Ret (None, dir) s
              else bindO (bread E (dev_of dir s) (ucast (zone_of dir 0 s)) s) (\<lambda>r s.
                   case r of
                     None \<Rightarrow> Ret (None, dir) s
                   | Some b \<Rightarrow> bindO (loopO (find_step E dir name len entries) (0, Some b, 0) s) (\<lambda>r s. Ret (r, dir) s))))"

definition add_step ::
  "kenv \<Rightarrow> nat \<Rightarrow> u32 \<Rightarrow> nat \<Rightarrow> nat \<times> nat option \<times> nat \<Rightarrow> fs
   \<Rightarrow> (fs, (nat \<times> nat option \<times> nat) + (nat \<times> nat) option) outcome" where
  "add_step E dir name len = (\<lambda>(i, bh, off) s.
     let try_at = (\<lambda>b off s.
           let s1 = (if i * 16 \<ge> unat (i_size (inode_table s dir))
                     then upd_inode dir (\<lambda>m. m\<lparr>i_size := of_nat ((i + 1) * 16), i_dirt := 1, i_ctime := time_u32 s\<rparr>)
                            (set_de_inode b off 0 s)
                     else s)
           in if de_inode b off s1 = 0
              then let s2 = upd_inode dir (\<lambda>m. m\<lparr>i_mtime := time_u32 s1\<rparr>) s1
                   in Ret (Inr (Some (b, off)))
                        (upd_bh b (\<lambda>h. h\<lparr>b_data := (\<lambda>k. if off + 2 \<le> k \<and> k < off + 2 + NAME_LEN
                            then (if k - (off + 2) < len then get_fs_byte (name + of_nat (k - (off + 2))) s2 else 0)
                            else b_data h k), b_dirt := 1\<rparr>) s2)
              else Ret (Inl (i + 1, Some b, off + 16)) s1)
     in if bh \<noteq> None \<and> off < 1024 then try_at (the bh) off s
        else bindO (brelse E bh s) (\<lambda>_ s.
             bindO (create_block E dir (int (i div 64)) s) (\<lambda>block s.
             if block = 0 then Ret (Inr None) s
             else bindO (bread E (dev_of dir s) (of_int block) s) (\<lambda>r s.
                  case r of None \<Rightarrow> Ret (Inl (i + 64, None, off)) s | Some b \<Rightarrow> try_at b 0 s))))"

definition add_entry :: "kenv \<Rightarrow> nat \<Rightarrow> u32 \<Rightarrow> nat \<Rightarrow> fs \<Rightarrow> (fs, (nat \<times> nat) option) outcome" where
  "add_entry E dir name namelen s =
     (let len = min namelen NAME_LEN in
      if len = 0 \<or> zone_of dir 0 s = 0 then Ret None s
      else bindO (bread E (dev_of dir s) (ucast (zone_of dir 0 s)) s) (\<lambda>r s.
           case r of
             None \<Rightarrow> Ret None s
           | Some b \<Rightarrow> loopO (add_step E dir name len) (0, Some b, 0) s))"

section \<open>Walking a path\<close>

text \<open>The number of characters before the next slash or the end, and which of the two it is.\<close>

definition name_length :: "u32 \<Rightarrow> fs \<Rightarrow> (fs, nat \<times> u8) outcome" where
  "name_length p s =
     loopO (\<lambda>n s. let c = get_fs_byte (p + of_nat n) s in
              if c \<noteq> 0 \<and> c \<noteq> SLASH then Ret (Inl (n + 1)) s else Ret (Inr (n, c)) s) 0 s"

definition get_dir_step :: "kenv \<Rightarrow> nat \<times> u32 \<Rightarrow> fs \<Rightarrow> (fs, (nat \<times> u32) + nat option) outcome" where
  "get_dir_step E = (\<lambda>(i, p) s.
     if \<not> S_ISDIR (i_mode (inode_table s i)) \<or> \<not> permission i MAY_EXEC s
     then bindO (iput E (Some i) s) (\<lambda>_ s. Ret (Inr None) s)
     else bindO (name_length p s) (\<lambda>(n, c) s.
          if c = 0 then Ret (Inr (Some i)) s
          else bindO (find_entry E i p n s) (\<lambda>(r, i) s.
               case r of
                 None \<Rightarrow> bindO (iput E (Some i) s) (\<lambda>_ s. Ret (Inr None) s)
               | Some (b, off) \<Rightarrow>
                   let inr = de_inode b off s; idev = dev_of i s in
                   bindO (brelse E (Some b) s) (\<lambda>_ s.
                   bindO (iput E (Some i) s) (\<lambda>_ s.
                   bindO (iget E idev inr s) (\<lambda>i s. Ret (Inl (i, p + of_nat (n + 1))) s))))))"

definition get_dir :: "kenv \<Rightarrow> u32 \<Rightarrow> fs \<Rightarrow> (fs, nat option) outcome" where
  "get_dir E pathname s =
     (case (root (cur s), pwd (cur s)) of
        (Some r, Some w) \<Rightarrow>
          if i_count (inode_table s r) = 0 then Panic ''No root inode''
          else if i_count (inode_table s w) = 0 then Panic ''No cwd inode''
          else let c = get_fs_byte pathname s;
                   start = (\<lambda>i p. loopO (get_dir_step E) (i, p) (upd_inode i (\<lambda>m. m\<lparr>i_count := i_count m + 1\<rparr>) s))
               in if c = SLASH then start r (pathname + 1)
                  else if c \<noteq> 0 then start w pathname
                  else Ret None s
      | (None, _) \<Rightarrow> Panic ''No root inode''
      | (Some r, None) \<Rightarrow> Panic (if i_count (inode_table s r) = 0 then ''No root inode'' else ''No cwd inode''))"

text \<open>The last component: its address and length.\<close>

definition base_name :: "u32 \<Rightarrow> fs \<Rightarrow> (fs, u32 \<times> nat) outcome" where
  "base_name pathname s =
     loopO (\<lambda>(p, base) s. let c = get_fs_byte p s in
              if c = 0 then Ret (Inr (base, unat (p - base))) s
              else Ret (Inl (p + 1, if c = SLASH then p + 1 else base)) s) (pathname, pathname) s"

definition dir_namei :: "kenv \<Rightarrow> u32 \<Rightarrow> fs \<Rightarrow> (fs, (nat \<times> u32 \<times> nat) option) outcome" where
  "dir_namei E pathname s =
     bindO (get_dir E pathname s) (\<lambda>r s.
     case r of
       None \<Rightarrow> Ret None s
     | Some dir \<Rightarrow> bindO (base_name pathname s) (\<lambda>(base, len) s. Ret (Some (dir, base, len)) s))"

definition namei :: "kenv \<Rightarrow> u32 \<Rightarrow> fs \<Rightarrow> (fs, nat option) outcome" where
  "namei E pathname s =
     bindO (dir_namei E pathname s) (\<lambda>r s.
     case r of
       None \<Rightarrow> Ret None s
     | Some (dir, base, len) \<Rightarrow>
         if len = 0 then Ret (Some dir) s
         else bindO (find_entry E dir base len s) (\<lambda>(r, dir) s.
              case r of
                None \<Rightarrow> bindO (iput E (Some dir) s) (\<lambda>_ s. Ret None s)
              | Some (b, off) \<Rightarrow>
                  let inr = de_inode b off s; dev = dev_of dir s in
                  bindO (brelse E (Some b) s) (\<lambda>_ s.
                  bindO (iput E (Some dir) s) (\<lambda>_ s.
                  bindO (iget E dev inr s) (\<lambda>i s.
                  Ret (Some i) (upd_inode i (\<lambda>m. m\<lparr>i_atime := time_u32 s, i_dirt := 1\<rparr>) s))))))"

end
