(* ===== verification/Dirs.thy ===== *)
theory Dirs
  imports Namei
begin

unbundle bit_operations_syntax

text \<open>
  The system calls on directories of \<open>src/fs/namei.c\<close>: opening, creating and
  removing files, directories, device files and links.
\<close>

text \<open>The exits of these calls: release the inodes in the given order, then the buffer, then return.\<close>

definition leave :: "kenv \<Rightarrow> nat list \<Rightarrow> nat option \<Rightarrow> 'a \<Rightarrow> fs \<Rightarrow> (fs, 'a) outcome" where
  "leave E is b r s =
     bindO (eachO (\<lambda>i. iput E (Some i)) is s) (\<lambda>_ s. bindO (brelse E b s) (\<lambda>_ s. Ret r s))"

definition user_mode :: "u32 \<Rightarrow> fs \<Rightarrow> u16" where
  "user_mode mode s = ucast mode AND 0x1ff AND NOT (umask (cur s))"

section \<open>Opening\<close>

text \<open>\<open>Inl\<close> is the error, \<open>Inr\<close> the inode stored through \<open>res_inode\<close>.\<close>

definition open_create :: "kenv \<Rightarrow> u32 \<Rightarrow> u16 \<Rightarrow> nat \<Rightarrow> u32 \<Rightarrow> nat \<Rightarrow> fs \<Rightarrow> (fs, int + nat) outcome" where
  "open_create E flag mode dir base len s =
     (if flag AND O_CREAT = 0 then leave E [dir] None (Inl (- ENOENT)) s
      else if \<not> permission dir MAY_WRITE s then leave E [dir] None (Inl (- EACCES)) s
      else bindO (new_inode E (dev_of dir s) s) (\<lambda>r s.
           case r of
             None \<Rightarrow> leave E [dir] None (Inl (- ENOSPC)) s
           | Some i \<Rightarrow>
               bindO (add_entry E dir base len
                        (upd_inode i (\<lambda>m. m\<lparr>i_uid := euid (cur s), i_mode := mode, i_dirt := 1\<rparr>) s)) (\<lambda>r s.
               case r of
                 None \<Rightarrow> leave E [i, dir] None (Inl (- ENOSPC)) (upd_inode i (\<lambda>m. m\<lparr>i_nlinks := i_nlinks m - 1\<rparr>) s)
               | Some (b, off) \<Rightarrow>
                   let s1 = upd_bh b (\<lambda>h. h\<lparr>b_dirt := 1\<rparr>) (set_de_inode b off (i_num (inode_table s i)) s) in
                   bindO (brelse E (Some b) s1) (\<lambda>_ s. leave E [dir] None (Inr i) s))))"

definition open_existing :: "kenv \<Rightarrow> u32 \<Rightarrow> u32 \<Rightarrow> u16 \<Rightarrow> fs \<Rightarrow> (fs, int + nat) outcome" where
  "open_existing E flag dev inr s =
     (if flag AND O_EXCL \<noteq> 0 then Ret (Inl (- EEXIST)) s
      else bindO (iget E dev inr s) (\<lambda>i s.
           if S_ISDIR (i_mode (inode_table s i)) \<and> flag AND O_ACCMODE \<noteq> 0 \<or> \<not> permission i (ACC_MODE flag) s
           then leave E [i] None (Inl (- EPERM)) s
           else let s1 = upd_inode i (\<lambda>m. m\<lparr>i_atime := time_u32 s\<rparr>) s in
                bindO (if flag AND O_TRUNC \<noteq> 0 then truncate E i s1 else Ret () s1) (\<lambda>_ s. Ret (Inr i) s)))"

definition open_namei :: "kenv \<Rightarrow> u32 \<Rightarrow> u32 \<Rightarrow> u32 \<Rightarrow> fs \<Rightarrow> (fs, int + nat) outcome" where
  "open_namei E pathname flag0 mode0 s =
     (let flag = (if flag0 AND O_TRUNC \<noteq> 0 \<and> flag0 AND O_ACCMODE = 0 then flag0 OR O_WRONLY else flag0);
          mode = user_mode mode0 s OR S_IFREG
      in bindO (dir_namei E pathname s) (\<lambda>r s.
         case r of
           None \<Rightarrow> Ret (Inl (- ENOENT)) s
         | Some (dir, base, len) \<Rightarrow>
             if len = 0
             then if flag AND (O_ACCMODE OR O_CREAT OR O_TRUNC) = 0 then Ret (Inr dir) s
                  else leave E [dir] None (Inl (- EISDIR)) s
             else bindO (find_entry E dir base len s) (\<lambda>(r, dir) s.
                  case r of
                    None \<Rightarrow> open_create E flag mode dir base len s
                  | Some (b, off) \<Rightarrow>
                      let inr = de_inode b off s; dev = dev_of dir s in
                      bindO (brelse E (Some b) s) (\<lambda>_ s.
                      bindO (iput E (Some dir) s) (\<lambda>_ s. open_existing E flag dev inr s)))))"

section \<open>Making nodes and directories\<close>

text \<open>
  The beginning \<open>sys_mknod\<close> and \<open>sys_mkdir\<close> share: only the super user, the directory
  of the name writable, the name new, and an inode for it.
\<close>

definition make_node ::
  "kenv \<Rightarrow> u32 \<Rightarrow> (nat \<Rightarrow> nat \<Rightarrow> u32 \<Rightarrow> nat \<Rightarrow> fs \<Rightarrow> (fs, int) outcome) \<Rightarrow> fs \<Rightarrow> (fs, int) outcome" where
  "make_node E pathname cont s =
     (if \<not> suser s then Ret (- EPERM) s
      else bindO (dir_namei E pathname s) (\<lambda>r s.
           case r of
             None \<Rightarrow> Ret (- ENOENT) s
           | Some (dir, base, len) \<Rightarrow>
               if len = 0 then leave E [dir] None (- ENOENT) s
               else if \<not> permission dir MAY_WRITE s then leave E [dir] None (- EPERM) s
               else bindO (find_entry E dir base len s) (\<lambda>(r, dir) s.
                    case r of
                      Some (b, off) \<Rightarrow> bindO (brelse E (Some b) s) (\<lambda>_ s. leave E [dir] None (- EEXIST) s)
                    | None \<Rightarrow>
                        bindO (new_inode E (dev_of dir s) s) (\<lambda>r s.
                        case r of
                          None \<Rightarrow> leave E [dir] None (- ENOSPC) s
                        | Some i \<Rightarrow> cont dir i base len s))))"

definition mknod_cont :: "kenv \<Rightarrow> u32 \<Rightarrow> u32 \<Rightarrow> nat \<Rightarrow> nat \<Rightarrow> u32 \<Rightarrow> nat \<Rightarrow> fs \<Rightarrow> (fs, int) outcome" where
  "mknod_cont E mode dev dir i base len s =
     (let s1 = upd_inode i (\<lambda>m. m\<lparr>i_mode := ucast mode,
                 i_zone := (if S_ISBLK (ucast mode) \<or> S_ISCHR (ucast mode) then (i_zone m)(0 := ucast dev) else i_zone m),
                 i_mtime := time_u32 s, i_atime := time_u32 s, i_dirt := 1\<rparr>) s
      in bindO (add_entry E dir base len s1) (\<lambda>r s.
         case r of
           None \<Rightarrow> bindO (iput E (Some dir) s) (\<lambda>_ s.
                   leave E [i] None (- ENOSPC) (upd_inode i (\<lambda>m. m\<lparr>i_nlinks := 0\<rparr>) s))
         | Some (b, off) \<Rightarrow>
             leave E [dir, i] (Some b) 0
               (upd_bh b (\<lambda>h. h\<lparr>b_dirt := 1\<rparr>) (set_de_inode b off (i_num (inode_table s i)) s))))"

definition sys_mknod :: "kenv \<Rightarrow> u32 \<Rightarrow> u32 \<Rightarrow> u32 \<Rightarrow> fs \<Rightarrow> (fs, int) outcome" where
  "sys_mknod E filename mode dev s = make_node E filename (mknod_cont E mode dev) s"

text \<open>The entries \<open>.\<close> and \<open>..\<close> of a new directory.\<close>

definition put_dots :: "u16 \<Rightarrow> u16 \<Rightarrow> (nat \<Rightarrow> u8) \<Rightarrow> nat \<Rightarrow> u8" where
  "put_dots self parent d =
     (put_u16 16 parent ((put_u16 0 self d)(2 := DOT, 3 := 0)))(18 := DOT, 19 := DOT, 20 := 0)"

definition mkdir_cont :: "kenv \<Rightarrow> u32 \<Rightarrow> nat \<Rightarrow> nat \<Rightarrow> u32 \<Rightarrow> nat \<Rightarrow> fs \<Rightarrow> (fs, int) outcome" where
  "mkdir_cont E mode dir i base len s =
     (let s1 = upd_inode i (\<lambda>m. m\<lparr>i_size := 32, i_dirt := 1, i_mtime := time_u32 s, i_atime := time_u32 s\<rparr>) s;
          unlink1 = upd_inode i (\<lambda>m. m\<lparr>i_nlinks := i_nlinks m - 1\<rparr>)
      in bindO (new_block E (dev_of i s1) s1) (\<lambda>j s.
         let s2 = set_zone i 0 (of_int j) s in
         if zone_of i 0 s2 = 0 then bindO (iput E (Some dir) s2) (\<lambda>_ s. leave E [i] None (- ENOSPC) (unlink1 s))
         else let s3 = upd_inode i (\<lambda>m. m\<lparr>i_dirt := 1\<rparr>) s2 in
           bindO (bread E (dev_of i s3) (ucast (zone_of i 0 s3)) s3) (\<lambda>r s.
           case r of
             None \<Rightarrow>
               bindO (iput E (Some dir) s) (\<lambda>_ s.
               bindO (free_block E (dev_of i s) (ucast (zone_of i 0 s)) s) (\<lambda>_ s.
               leave E [i] None (- ERROR) (unlink1 s)))
           | Some blk \<Rightarrow>
               let s4 = upd_bh blk (\<lambda>h. h\<lparr>b_data := put_dots (i_num (inode_table s i)) (i_num (inode_table s dir)) (b_data h)\<rparr>) s;
                   s5 = upd_bh blk (\<lambda>h. h\<lparr>b_dirt := 1\<rparr>) (upd_inode i (\<lambda>m. m\<lparr>i_nlinks := 2\<rparr>) s4)
               in bindO (brelse E (Some blk) s5) (\<lambda>_ s.
                  bindO (add_entry E dir base len
                           (upd_inode i (\<lambda>m. m\<lparr>i_mode := S_IFDIR OR user_mode mode s, i_dirt := 1\<rparr>) s)) (\<lambda>r s.
                  case r of
                    None \<Rightarrow>
                      bindO (iput E (Some dir) s) (\<lambda>_ s.
                      bindO (free_block E (dev_of i s) (ucast (zone_of i 0 s)) s) (\<lambda>_ s.
                      leave E [i] None (- ENOSPC) (upd_inode i (\<lambda>m. m\<lparr>i_nlinks := 0\<rparr>) s)))
                  | Some (b, off) \<Rightarrow>
                      let s6 = upd_bh b (\<lambda>h. h\<lparr>b_dirt := 1\<rparr>) (set_de_inode b off (i_num (inode_table s i)) s)
                      in leave E [dir, i] (Some b) 0
                           (upd_inode dir (\<lambda>m. m\<lparr>i_nlinks := i_nlinks m + 1, i_dirt := 1\<rparr>) s6))))))"

definition sys_mkdir :: "kenv \<Rightarrow> u32 \<Rightarrow> u32 \<Rightarrow> fs \<Rightarrow> (fs, int) outcome" where
  "sys_mkdir E pathname mode s = make_node E pathname (mkdir_cont E mode) s"

section \<open>Removing\<close>

text \<open>
  \<open>empty_dir\<close>.  Where a block of the directory is missing the buffer
  of the block before has been released and is released again in the next
  round; where the first two entries are wrong it is not released at all.
\<close>

definition empty_step :: "kenv \<Rightarrow> nat \<Rightarrow> nat \<Rightarrow> nat \<times> nat \<times> nat \<Rightarrow> fs \<Rightarrow> (fs, (nat \<times> nat \<times> nat) + bool) outcome" where
  "empty_step E i len = (\<lambda>(nr, b, off) s.
     let check = (\<lambda>b off s. if de_inode b off s \<noteq> 0 then bindO (brelse E (Some b) s) (\<lambda>_ s. Ret (Inr False) s)
                            else Ret (Inl (nr + 1, b, off + 16)) s) in
     if nr \<ge> len then bindO (brelse E (Some b) s) (\<lambda>_ s. Ret (Inr True) s)
     else if off < 1024 then check b off s
     else bindO (brelse E (Some b) s) (\<lambda>_ s.
          bindO (bmap E i (int (nr div 64)) s) (\<lambda>block s.
          if block = 0 then Ret (Inl (nr + 64, b, off)) s
          else bindO (bread E (dev_of i s) (of_int block) s) (\<lambda>r s.
               case r of None \<Rightarrow> Ret (Inr False) s | Some b \<Rightarrow> check b 0 s))))"

definition empty_dir :: "kenv \<Rightarrow> nat \<Rightarrow> fs \<Rightarrow> (fs, bool) outcome" where
  "empty_dir E i s =
     (let len = unat (i_size (inode_table s i)) div 16 in
      if len < 2 \<or> zone_of i 0 s = 0 then Ret False s
      else bindO (bread E (dev_of i s) (ucast (zone_of i 0 s)) s) (\<lambda>r s.
           case r of
             None \<Rightarrow> Ret False s
           | Some b \<Rightarrow>
               let d = b_data (buffers s b) in
               if get_u16 d 0 \<noteq> i_num (inode_table s i) \<or> get_u16 d 16 = 0 \<or>
                  \<not> (d 2 = DOT \<and> d 3 = 0) \<or> \<not> (d 18 = DOT \<and> d 19 = DOT \<and> d 20 = 0)
               then Ret False s
               else loopO (empty_step E i len) (2, b, 32) s))"

text \<open>The lookup that \<open>sys_rmdir\<close> and \<open>sys_unlink\<close> share: the directory, the entry and its inode.\<close>

definition removal ::
  "kenv \<Rightarrow> u32 \<Rightarrow> (nat \<Rightarrow> nat \<Rightarrow> nat \<Rightarrow> nat \<Rightarrow> fs \<Rightarrow> (fs, int) outcome) \<Rightarrow> fs \<Rightarrow> (fs, int) outcome" where
  "removal E name cont s =
     bindO (dir_namei E name s) (\<lambda>r s.
     case r of
       None \<Rightarrow> Ret (- ENOENT) s
     | Some (dir, base, len) \<Rightarrow>
         if len = 0 then leave E [dir] None (- ENOENT) s
         else if \<not> permission dir MAY_WRITE s then leave E [dir] None (- EPERM) s
         else bindO (find_entry E dir base len s) (\<lambda>(r, dir) s.
              case r of
                None \<Rightarrow> leave E [dir] None (- ENOENT) s
              | Some (b, off) \<Rightarrow>
                  bindO (iget E (dev_of dir s) (de_inode b off s) s) (\<lambda>i s. cont dir i b off s)))"

definition clear_entry :: "nat \<Rightarrow> nat \<Rightarrow> fs \<Rightarrow> fs" where
  "clear_entry b off s = upd_bh b (\<lambda>h. h\<lparr>b_dirt := 1\<rparr>) (set_de_inode b off 0 s)"

definition rmdir_cont :: "kenv \<Rightarrow> nat \<Rightarrow> nat \<Rightarrow> nat \<Rightarrow> nat \<Rightarrow> fs \<Rightarrow> (fs, int) outcome" where
  "rmdir_cont E dir i b off s =
     (if i_mode (inode_table s dir) AND S_ISVTX \<noteq> 0 \<and> euid (cur s) \<noteq> 0 \<and> i_uid (inode_table s i) \<noteq> euid (cur s)
      then leave E [dir, i] (Some b) (- EPERM) s
      else if i_dev (inode_table s i) \<noteq> i_dev (inode_table s dir) \<or> i_count (inode_table s i) > 1
      then leave E [dir, i] (Some b) (- EPERM) s
      else if i = dir then leave E [i, dir] (Some b) (- EPERM) s
      else if \<not> S_ISDIR (i_mode (inode_table s i)) then leave E [i, dir] (Some b) (- ENOTDIR) s
      else bindO (empty_dir E i s) (\<lambda>emp s.
           if \<not> emp then leave E [i, dir] (Some b) (- ENOTEMPTY) s
           else bindO (brelse E (Some b) (clear_entry b off s)) (\<lambda>_ s.
                let s1 = upd_inode i (\<lambda>m. m\<lparr>i_nlinks := 0, i_dirt := 1\<rparr>) s;
                    s2 = upd_inode dir (\<lambda>m. m\<lparr>i_nlinks := i_nlinks m - 1, i_ctime := time_u32 s1,
                                              i_mtime := time_u32 s1, i_dirt := 1\<rparr>) s1
                in leave E [dir, i] None 0 s2)))"

definition sys_rmdir :: "kenv \<Rightarrow> u32 \<Rightarrow> fs \<Rightarrow> (fs, int) outcome" where
  "sys_rmdir E name s = (if \<not> suser s then Ret (- EPERM) s else removal E name (rmdir_cont E) s)"

definition unlink_cont :: "kenv \<Rightarrow> nat \<Rightarrow> nat \<Rightarrow> nat \<Rightarrow> nat \<Rightarrow> fs \<Rightarrow> (fs, int) outcome" where
  "unlink_cont E dir i b off s =
     (if i_mode (inode_table s dir) AND S_ISVTX \<noteq> 0 \<and> \<not> suser s \<and> euid (cur s) \<noteq> i_uid (inode_table s i) \<and>
         euid (cur s) \<noteq> i_uid (inode_table s dir)
      then leave E [dir, i] (Some b) (- EPERM) s
      else if S_ISDIR (i_mode (inode_table s i)) then leave E [i, dir] (Some b) (- EPERM) s
      else let s1 = (if i_nlinks (inode_table s i) = 0 then upd_inode i (\<lambda>m. m\<lparr>i_nlinks := 1\<rparr>) s else s) in
           bindO (brelse E (Some b) (clear_entry b off s1)) (\<lambda>_ s.
           leave E [i, dir] None 0
             (upd_inode i (\<lambda>m. m\<lparr>i_nlinks := i_nlinks m - 1, i_dirt := 1, i_ctime := time_u32 s\<rparr>) s)))"

definition sys_unlink :: "kenv \<Rightarrow> u32 \<Rightarrow> fs \<Rightarrow> (fs, int) outcome" where
  "sys_unlink E name s = removal E name (unlink_cont E) s"

section \<open>Linking\<close>

definition sys_link :: "kenv \<Rightarrow> u32 \<Rightarrow> u32 \<Rightarrow> fs \<Rightarrow> (fs, int) outcome" where
  "sys_link E oldname newname s =
     bindO (namei E oldname s) (\<lambda>r s.
     case r of
       None \<Rightarrow> Ret (- ENOENT) s
     | Some old \<Rightarrow>
         if S_ISDIR (i_mode (inode_table s old)) then leave E [old] None (- EPERM) s
         else bindO (dir_namei E newname s) (\<lambda>r s.
              case r of
                None \<Rightarrow> leave E [old] None (- EACCES) s
              | Some (dir, base, len) \<Rightarrow>
                  if len = 0 then leave E [old, dir] None (- EPERM) s
                  else if i_dev (inode_table s dir) \<noteq> i_dev (inode_table s old) then leave E [dir, old] None (- EXDEV) s
                  else if \<not> permission dir MAY_WRITE s then leave E [dir, old] None (- EACCES) s
                  else bindO (find_entry E dir base len s) (\<lambda>(r, dir) s.
                       case r of
                         Some (b, off) \<Rightarrow> bindO (brelse E (Some b) s) (\<lambda>_ s. leave E [dir, old] None (- EEXIST) s)
                       | None \<Rightarrow>
                           bindO (add_entry E dir base len s) (\<lambda>r s.
                           case r of
                             None \<Rightarrow> leave E [dir, old] None (- ENOSPC) s
                           | Some (b, off) \<Rightarrow>
                               let s1 = upd_bh b (\<lambda>h. h\<lparr>b_dirt := 1\<rparr>) (set_de_inode b off (i_num (inode_table s old)) s) in
                               bindO (brelse E (Some b) s1) (\<lambda>_ s.
                               bindO (iput E (Some dir) s) (\<lambda>_ s.
                               leave E [old] None 0
                                 (upd_inode old (\<lambda>m. m\<lparr>i_nlinks := i_nlinks m + 1, i_ctime := time_u32 s, i_dirt := 1\<rparr>) s)))))))"

end
