(* ===== verification/Open_Mount.thy ===== *)
theory Open_Mount
  imports Dirs
begin

unbundle bit_operations_syntax

text \<open>
  The system calls of \<open>src/fs/open.c\<close>, \<open>sys_stat\<close> of \<open>stat.c\<close>, and mounting,
  \<open>src/fs/super.c\<close>.
\<close>

section \<open>Attributes of files\<close>

definition sys_utime :: "kenv \<Rightarrow> u32 \<Rightarrow> u32 \<Rightarrow> fs \<Rightarrow> (fs, int) outcome" where
  "sys_utime E filename tp s =
     bindO (namei E filename s) (\<lambda>r s.
     case r of
       None \<Rightarrow> Ret (- ENOENT) s
     | Some i \<Rightarrow>
         let actime = (if tp \<noteq> 0 then get_fs_long tp s else time_u32 s);
             modtime = (if tp \<noteq> 0 then get_fs_long (tp + 4) s else time_u32 s)
         in leave E [i] None 0 (upd_inode i (\<lambda>m. m\<lparr>i_atime := actime, i_mtime := modtime, i_dirt := 1\<rparr>) s))"

text \<open>The inode is read again after it has been released.\<close>

definition sys_access :: "kenv \<Rightarrow> u32 \<Rightarrow> u32 \<Rightarrow> fs \<Rightarrow> (fs, int) outcome" where
  "sys_access E filename mode0 s =
     (let mode = mode0 AND 7 in
      bindO (namei E filename s) (\<lambda>r s.
      case r of
        None \<Rightarrow> Ret (- EACCES) s
      | Some i \<Rightarrow>
          let im = (ucast (i_mode (inode_table s i)) AND 0x1ff :: u32) in
          bindO (iput E (Some i) s) (\<lambda>_ s.
          let res = (if uid (cur s) = i_uid (inode_table s i) then drop_bit 6 im
                     else if gid (cur s) = ucast (i_gid (inode_table s i)) then drop_bit 6 im
                     else im)
          in if res AND 7 AND mode = mode then Ret 0 s
             else if uid (cur s) = 0 \<and> (mode AND 1 = 0 \<or> im AND 0x49 \<noteq> 0) then Ret 0 s
             else Ret (- EACCES) s)))"

definition change_dir :: "kenv \<Rightarrow> u32 \<Rightarrow> (fs \<Rightarrow> nat option) \<Rightarrow> (nat \<Rightarrow> task_struct \<Rightarrow> task_struct) \<Rightarrow> fs \<Rightarrow> (fs, int) outcome" where
  "change_dir E filename prev put s =
     bindO (namei E filename s) (\<lambda>r s.
     case r of
       None \<Rightarrow> Ret (- ENOENT) s
     | Some i \<Rightarrow>
         if \<not> S_ISDIR (i_mode (inode_table s i)) then leave E [i] None (- ENOTDIR) s
         else bindO (iput E (prev s) s) (\<lambda>_ s. Ret 0 (upd_cur (put i) s)))"

definition sys_chdir :: "kenv \<Rightarrow> u32 \<Rightarrow> fs \<Rightarrow> (fs, int) outcome" where
  "sys_chdir E filename s = change_dir E filename (\<lambda>s. pwd (cur s)) (\<lambda>i t. t\<lparr>pwd := Some i\<rparr>) s"

definition sys_chroot :: "kenv \<Rightarrow> u32 \<Rightarrow> fs \<Rightarrow> (fs, int) outcome" where
  "sys_chroot E filename s = change_dir E filename (\<lambda>s. root (cur s)) (\<lambda>i t. t\<lparr>root := Some i\<rparr>) s"

definition sys_chmod :: "kenv \<Rightarrow> u32 \<Rightarrow> u32 \<Rightarrow> fs \<Rightarrow> (fs, int) outcome" where
  "sys_chmod E filename mode s =
     bindO (namei E filename s) (\<lambda>r s.
     case r of
       None \<Rightarrow> Ret (- ENOENT) s
     | Some i \<Rightarrow>
         if euid (cur s) \<noteq> i_uid (inode_table s i) \<and> \<not> suser s then leave E [i] None (- EACCES) s
         else leave E [i] None 0
                (upd_inode i (\<lambda>m. m\<lparr>i_mode := (ucast mode AND 0xfff) OR (i_mode m AND NOT 0xfff), i_dirt := 1\<rparr>) s))"

definition sys_chown :: "kenv \<Rightarrow> u32 \<Rightarrow> u32 \<Rightarrow> u32 \<Rightarrow> fs \<Rightarrow> (fs, int) outcome" where
  "sys_chown E filename u g s =
     bindO (namei E filename s) (\<lambda>r s.
     case r of
       None \<Rightarrow> Ret (- ENOENT) s
     | Some i \<Rightarrow>
         if \<not> suser s then leave E [i] None (- EACCES) s
         else leave E [i] None 0 (upd_inode i (\<lambda>m. m\<lparr>i_uid := ucast u, i_gid := ucast g, i_dirt := 1\<rparr>) s))"

definition sys_stat :: "kenv \<Rightarrow> (nat \<Rightarrow> u8) \<Rightarrow> u32 \<Rightarrow> u32 \<Rightarrow> fs \<Rightarrow> (fs, int) outcome" where
  "sys_stat E junk filename statbuf s =
     bindO (namei E filename s) (\<lambda>r s.
     case r of
       None \<Rightarrow> Ret (- ENOENT) s
     | Some i \<Rightarrow> bindO (cp_stat junk i statbuf s) (\<lambda>_ s. leave E [i] None 0 s))"

section \<open>Opening files\<close>

text \<open>What \<open>sys_open\<close> does with a terminal: it may become the controlling terminal; \<open>False\<close> refuses.\<close>

definition open_tty :: "nat \<Rightarrow> fs \<Rightarrow> (fs, bool) outcome" where
  "open_tty i s =
     (let dev = (ucast (zone_of i 0 s) :: u32) in
      if \<not> S_ISCHR (i_mode (inode_table s i)) then Ret True s
      else if MAJOR dev = 4
      then if leader (cur s) \<noteq> 0 \<and> tty (cur s) < 0
           then let n = unat (MINOR dev); s1 = upd_cur (\<lambda>t. t\<lparr>tty := int n\<rparr>) s in
                if n > 2 then Undefined ''tty_table''
                else Ret True (upd_tty n (\<lambda>t. t\<lparr>t_pgrp := pgrp (cur s1)\<rparr>) s1)
           else Ret True s
      else Ret (\<not> (MAJOR dev = 5 \<and> tty (cur s) < 0)) s)"

definition sys_open :: "kenv \<Rightarrow> u32 \<Rightarrow> u32 \<Rightarrow> u32 \<Rightarrow> fs \<Rightarrow> (fs, int) outcome" where
  "sys_open E filename flag mode0 s =
     (let mode = mode0 AND 0x1ff AND NOT (ucast (umask (cur s))) in
      case List.find (\<lambda>fd. filp (cur s) fd = None) [0..<NR_OPEN] of
        None \<Rightarrow> Ret (- EINVAL) s
      | Some fd \<Rightarrow>
          let s1 = clear_cloexec fd s in
          (case List.find (\<lambda>f. f_count (file_table s1 f) = 0) [0..<NR_FILE] of
             None \<Rightarrow> Ret (- EINVAL) s1
           | Some f \<Rightarrow>
               let undo = (\<lambda>s. set_f_count f 0 (set_filp fd None s));
                   s2 = upd_file f (\<lambda>p. p\<lparr>f_count := f_count p + 1\<rparr>) (set_filp fd (Some f) s1)
               in bindO (open_namei E filename flag mode s2) (\<lambda>r s.
                  case r of
                    Inl e \<Rightarrow> Ret e (undo s)
                  | Inr i \<Rightarrow>
                      bindO (open_tty i s) (\<lambda>ok s.
                      if \<not> ok then bindO (iput E (Some i) s) (\<lambda>_ s. Ret (- EPERM) (undo s))
                      else bindO (if S_ISBLK (i_mode (inode_table s i))
                                  then check_disk_change E (ucast (zone_of i 0 s)) s else Ret () s) (\<lambda>_ s.
                           Ret (int fd) (upd_file f (\<lambda>p. \<lparr>f_mode = i_mode (inode_table s i), f_flags = ucast flag,
                             f_count = 1, f_inode = Some i, f_pos = 0\<rparr>) s))))))"

definition sys_creat :: "kenv \<Rightarrow> u32 \<Rightarrow> u32 \<Rightarrow> fs \<Rightarrow> (fs, int) outcome" where
  "sys_creat E pathname mode s = sys_open E pathname (O_CREAT OR O_TRUNC) mode s"

section \<open>Super blocks\<close>

abbreviation (input) SUPER_MAGIC :: u16 where "SUPER_MAGIC \<equiv> 0x137F"

definition get_d_super :: "(nat \<Rightarrow> u8) \<Rightarrow> super_block \<Rightarrow> super_block" where
  "get_d_super d b = b\<lparr>s_ninodes := get_u16 d 0, s_nzones := get_u16 d 2, s_imap_blocks := get_u16 d 4,
     s_zmap_blocks := get_u16 d 6, s_firstdatazone := get_u16 d 8, s_log_zone_size := get_u16 d 10,
     s_max_size := get_u32 d 12, s_magic := get_u16 d 16\<rparr>"

text \<open>One of the loops that read a bitmap: \<open>n\<close> blocks from \<open>block\<close>, stored with \<open>put\<close>; the value is the next block.\<close>

definition read_map ::
  "kenv \<Rightarrow> u32 \<Rightarrow> nat \<Rightarrow> (nat \<Rightarrow> nat option \<Rightarrow> fs \<Rightarrow> fs) \<Rightarrow> u32 \<Rightarrow> fs \<Rightarrow> (fs, u32) outcome" where
  "read_map E dev n put block s =
     loopO (\<lambda>(i, block) s.
       if i \<ge> n then Ret (Inr block) s
       else if i \<ge> 8 then Undefined ''s_imap, s_zmap''
       else bindO (bread E dev block s) (\<lambda>r s.
            let s1 = put i r s in
            if r = None then Ret (Inr block) s1 else Ret (Inl (i + 1, block + 1)) s1)) (0, block) s"

definition release_maps :: "kenv \<Rightarrow> nat \<Rightarrow> fs \<Rightarrow> (fs, unit) outcome" where
  "release_maps E k s =
     bindO (eachO (\<lambda>i s. brelse E (s_imap (super_table s k) i) s) [0..<8] s) (\<lambda>_ s.
     eachO (\<lambda>i s. brelse E (s_zmap (super_table s k) i) s) [0..<8] s)"

definition read_maps :: "kenv \<Rightarrow> u32 \<Rightarrow> nat \<Rightarrow> fs \<Rightarrow> (fs, nat option) outcome" where
  "read_maps E dev k s =
     (let s1 = upd_super k (\<lambda>b. b\<lparr>s_imap := (\<lambda>i. if i < 8 then None else s_imap b i),
                                  s_zmap := (\<lambda>i. if i < 8 then None else s_zmap b i)\<rparr>) s
      in bindO (read_map E dev (unat (s_imap_blocks (super_table s1 k)))
                  (\<lambda>i r. upd_super k (\<lambda>b. b\<lparr>s_imap := (s_imap b)(i := r)\<rparr>)) 2 s1) (\<lambda>block s.
         bindO (read_map E dev (unat (s_zmap_blocks (super_table s k)))
                  (\<lambda>i r. upd_super k (\<lambda>b. b\<lparr>s_zmap := (s_zmap b)(i := r)\<rparr>)) block s) (\<lambda>block s.
         let b = super_table s k in
         if block \<noteq> 2 + ucast (s_imap_blocks b) + ucast (s_zmap_blocks b)
         then bindO (release_maps E k s) (\<lambda>_ s. Ret None (free_super k (upd_super k (\<lambda>b. b\<lparr>s_dev := 0\<rparr>) s)))
         else case (s_imap b 0, s_zmap b 0) of
                (Some ib, Some zb) \<Rightarrow>
                  let mark = (\<lambda>x. upd_bh x (\<lambda>h. h\<lparr>b_data := (b_data h)(0 := b_data h 0 OR 1)\<rparr>))
                  in Ret (Some k) (free_super k (mark zb (mark ib s)))
              | _ \<Rightarrow> Undefined ''s_imap[0], s_zmap[0]'')))"

definition read_super :: "kenv \<Rightarrow> u32 \<Rightarrow> fs \<Rightarrow> (fs, nat option) outcome" where
  "read_super E dev s =
     (if dev = 0 then Ret None s
      else bindO (check_disk_change E dev s) (\<lambda>_ s.
           bindO (get_super E dev s) (\<lambda>r s.
           case r of
             Some k \<Rightarrow> Ret (Some k) s
           | None \<Rightarrow>
               (case List.find (\<lambda>k. s_dev (super_table s k) = 0) [0..<NR_SUPER] of
                  None \<Rightarrow> Ret None s
                | Some k \<Rightarrow>
                    let drop_it = (\<lambda>s. free_super k (upd_super k (\<lambda>b. b\<lparr>s_dev := 0\<rparr>) s));
                        s1 = upd_super k (\<lambda>b. b\<lparr>s_dev := ucast dev, s_isup := None, s_imount := None, s_time := 0,
                                                s_rd_only := 0, s_dirt := 0\<rparr>) s
                    in bindO (lock_super E k s1) (\<lambda>_ s.
                       bindO (bread E dev 1 s) (\<lambda>r s.
                       case r of
                         None \<Rightarrow> Ret None (drop_it s)
                       | Some b \<Rightarrow>
                           bindO (brelse E (Some b) (upd_super k (get_d_super (b_data (buffers s b))) s)) (\<lambda>_ s.
                           if s_magic (super_table s k) \<noteq> SUPER_MAGIC then Ret None (drop_it s)
                           else read_maps E dev k s)))))))"

section \<open>Mounting\<close>

definition sys_umount :: "kenv \<Rightarrow> u32 \<Rightarrow> fs \<Rightarrow> (fs, int) outcome" where
  "sys_umount E dev_name s =
     bindO (namei E dev_name s) (\<lambda>r s.
     case r of
       None \<Rightarrow> Ret (- ENOENT) s
     | Some i \<Rightarrow>
         let dev = (ucast (zone_of i 0 s) :: u32) in
         if \<not> S_ISBLK (i_mode (inode_table s i)) then leave E [i] None (- ENOTBLK) s
         else bindO (iput E (Some i) s) (\<lambda>_ s.
              if dev = ROOT_DEV s then Ret (- EBUSY) s
              else bindO (get_super E dev s) (\<lambda>r s.
                   case r of
                     None \<Rightarrow> Ret (- ENOENT) s
                   | Some k \<Rightarrow>
                       (case s_imount (super_table s k) of
                          None \<Rightarrow> Ret (- ENOENT) s
                        | Some mp \<Rightarrow>
                            if list_ex (\<lambda>j. dev_of j s = dev \<and> i_count (inode_table s j) \<noteq> 0) [0..<NR_INODE]
                            then Ret (- EBUSY) s
                            else bindO (iput E (Some mp) (upd_inode mp (\<lambda>m. m\<lparr>i_mount := 0\<rparr>) s)) (\<lambda>_ s.
                                 let s1 = upd_super k (\<lambda>b. b\<lparr>s_imount := None\<rparr>) s in
                                 bindO (iput E (s_isup (super_table s1 k)) s1) (\<lambda>_ s.
                                 bindO (put_super E dev (upd_super k (\<lambda>b. b\<lparr>s_isup := None\<rparr>) s)) (\<lambda>_ s.
                                 bindO (sync_dev E dev s) (\<lambda>_ s. Ret 0 s))))))))"

definition sys_mount :: "kenv \<Rightarrow> u32 \<Rightarrow> u32 \<Rightarrow> fs \<Rightarrow> (fs, int) outcome" where
  "sys_mount E dev_name dir_name s =
     bindO (namei E dev_name s) (\<lambda>r s.
     case r of
       None \<Rightarrow> Ret (- ENOENT) s
     | Some di \<Rightarrow>
         let dev = (ucast (zone_of di 0 s) :: u32) in
         if \<not> S_ISBLK (i_mode (inode_table s di)) then leave E [di] None (- EPERM) s
         else bindO (iput E (Some di) s) (\<lambda>_ s.
              bindO (namei E dir_name s) (\<lambda>r s.
              case r of
                None \<Rightarrow> Ret (- ENOENT) s
              | Some d \<Rightarrow>
                  if i_count (inode_table s d) \<noteq> 1 \<or> i_num (inode_table s d) = ROOT_INO then leave E [d] None (- EBUSY) s
                  else if \<not> S_ISDIR (i_mode (inode_table s d)) then leave E [d] None (- EPERM) s
                  else bindO (read_super E dev s) (\<lambda>r s.
                       case r of
                         None \<Rightarrow> leave E [d] None (- EBUSY) s
                       | Some k \<Rightarrow>
                           if s_imount (super_table s k) \<noteq> None then leave E [d] None (- EBUSY) s
                           else if i_mount (inode_table s d) \<noteq> 0 then leave E [d] None (- EPERM) s
                           else Ret 0 (upd_inode d (\<lambda>m. m\<lparr>i_mount := 1, i_dirt := 1\<rparr>)
                                        (upd_super k (\<lambda>b. b\<lparr>s_imount := Some d\<rparr>) s))))))"

text \<open>The clear bits among the first \<open>n\<close> of a bitmap; a missing block of it is a null pointer.\<close>

definition count_free :: "(nat \<Rightarrow> nat option) \<Rightarrow> nat \<Rightarrow> fs \<Rightarrow> (fs, nat) outcome" where
  "count_free maps n s =
     (if list_ex (\<lambda>i. maps (i div 8192) = None) [0..<n] then Undefined ''bitmap''
      else Ret (length (filter (\<lambda>i. \<not> test_bit (i mod 8192) (b_data (buffers s (the (maps (i div 8192)))))) [0..<n])) s)"

text \<open>The value is what the source prints: the numbers of free blocks and free inodes.\<close>

definition mount_root :: "kenv \<Rightarrow> fs \<Rightarrow> (fs, nat \<times> nat) outcome" where
  "mount_root E s =
     (let s1 = s\<lparr>file_table := (\<lambda>f. if f < NR_FILE then (file_table s f)\<lparr>f_count := 0\<rparr> else file_table s f)\<rparr> in
      bindO (if MAJOR (ROOT_DEV s1) = 2 then wait_for_keypress (k_env E) s1 else Ret () s1) (\<lambda>_ s.
      let s2 = s\<lparr>super_table := (\<lambda>k. if k < NR_SUPER then (super_table s k)\<lparr>s_dev := 0, s_lock := 0, s_wait := 0\<rparr>
                                      else super_table s k)\<rparr> in
      bindO (read_super E (ROOT_DEV s2) s2) (\<lambda>r s.
      case r of
        None \<Rightarrow> Panic ''Unable to mount root''
      | Some k \<Rightarrow>
          bindO (iget E (ROOT_DEV s) ROOT_INO s) (\<lambda>mi s.
          let s3 = upd_inode mi (\<lambda>m. m\<lparr>i_count := i_count m + 3\<rparr>) s;
              s4 = upd_super k (\<lambda>b. b\<lparr>s_isup := Some mi, s_imount := Some mi\<rparr>) s3;
              s5 = upd_cur (\<lambda>t. t\<lparr>pwd := Some mi, root := Some mi\<rparr>) s4
          in bindO (count_free (s_zmap (super_table s5 k)) (unat (s_nzones (super_table s5 k))) s5) (\<lambda>fb s.
             bindO (count_free (s_imap (super_table s k)) (unat (s_ninodes (super_table s k)) + 1) s) (\<lambda>fi s.
             Ret (fb, fi) s))))))"

section \<open>Loading the RAM disk\<close>

text \<open>
  \<open>rd_load\<close> of \<open>src/kernel/blk_drv/ramdisk.c\<close>: copy the image behind block 256 of the root
  floppy.  The loop variables are the offset into the RAM disk, the block and the number of blocks left.
\<close>

definition rd_load_step :: "kenv \<Rightarrow> nat \<times> u32 \<times> int \<Rightarrow> fs \<Rightarrow> (fs, (nat \<times> u32 \<times> int) + unit) outcome" where
  "rd_load_step E = (\<lambda>(cp, block, nblocks) s.
     if nblocks = 0 then Ret (Inr ()) (s\<lparr>ROOT_DEV := 0x0101\<rparr>)
     else bindO (if nblocks > 2 then breada E (ROOT_DEV s) block [block + 1, block + 2] s
                 else bread E (ROOT_DEV s) block s) (\<lambda>r s.
          case r of
            None \<Rightarrow> Ret (Inr ()) s
          | Some b \<Rightarrow>
              bindO (brelse E (Some b) (rd_write cp (b, 0) 1024 s)) (\<lambda>_ s.
              Ret (Inl (cp + 1024, block + 1, s32 (nblocks - 1))) s)))"

definition rd_load :: "kenv \<Rightarrow> fs \<Rightarrow> (fs, unit) outcome" where
  "rd_load E s =
     (if rd_length s = 0 \<or> MAJOR (ROOT_DEV s) \<noteq> 2 then Ret () s
      else bindO (breada E (ROOT_DEV s) 257 [256, 258] s) (\<lambda>r s.
        case r of
          None \<Rightarrow> Ret () s
        | Some b \<Rightarrow>
            let d = b_data (buffers s b);
                nblocks = s32 (uint (get_u16 d 2) * 2 ^ unat (get_u16 d 10))
            in bindO (brelse E (Some b) s) (\<lambda>_ s.
               if get_u16 d 16 \<noteq> SUPER_MAGIC then Ret () s
               else if nblocks > sint (rd_length s) div 1024 then Ret () s
               else loopO (rd_load_step E) (0, 256, nblocks) s)))"

end
