(* ===== verification/Fs_Frame.thy ===== *)
theory Fs_Frame
  imports Open_Mount
begin

text \<open>
  What the file system does not touch.  The locales are the contract between a
  property of the kernel state and the code below the system calls: a property that
  survives the single updates (of an inode, a super block, a request, a buffer, the state of a
  task, a word of memory, a register of the floppy controller) and that the other
  tasks and the device drivers keep, survives every operation of the buffer
  cache, of the inodes and of the directories, on every path, however often it sleeps.
  \<open>cache_frame\<close> is for properties that speak of the queues of the buffer cache,
  \<open>fs_frame\<close>, which gives it, for those that ignore buffers.
\<close>

named_theorems frame_intros \<open>rules for \<open>retains\<close>\<close>

lemma retains_bind [frame_intros]:
  "retains P m \<Longrightarrow> (\<And>a s. P s \<Longrightarrow> retains P (f a s)) \<Longrightarrow> retains P (bindO m f)"
  by (rule retains_bindO)

lemma retains_seq:
  assumes "retains P m" "\<And>s. P s \<Longrightarrow> Q s" "\<And>a s. P s \<Longrightarrow> retains Q (f a s)"
  shows "retains Q (bindO m f)"
  using assms by (cases m) simp_all

lemma retains_conj: "retains P m \<Longrightarrow> retains Q m \<Longrightarrow> retains (\<lambda>s. P s \<and> Q s) m"
  by (cases m) simp_all

lemma retains_if [frame_intros]:
  "(c \<Longrightarrow> retains P m) \<Longrightarrow> (\<not> c \<Longrightarrow> retains P n) \<Longrightarrow> retains P (if c then m else n)"
  by simp

lemma retains_option [frame_intros]:
  "(x = None \<Longrightarrow> retains P m) \<Longrightarrow> (\<And>y. x = Some y \<Longrightarrow> retains P (f y)) \<Longrightarrow>
   retains P (case x of None \<Rightarrow> m | Some y \<Rightarrow> f y)"
  by (cases x) simp_all

lemma retains_sum [frame_intros]:
  "(\<And>y. x = Inl y \<Longrightarrow> retains P (f y)) \<Longrightarrow> (\<And>y. x = Inr y \<Longrightarrow> retains P (g y)) \<Longrightarrow>
   retains P (case x of Inl y \<Rightarrow> f y | Inr y \<Rightarrow> g y)"
  by (cases x) simp_all

lemma retains_prod [frame_intros]:
  "(\<And>a b. x = (a, b) \<Longrightarrow> retains P (f a b)) \<Longrightarrow> retains P (case x of (a, b) \<Rightarrow> f a b)"
  by (cases x) simp

lemma retains_pair:
  "P (snd x) \<Longrightarrow> (\<And>a s. P s \<Longrightarrow> retains P (f a s)) \<Longrightarrow> retains P (case x of (a, s) \<Rightarrow> f a s)"
  by (cases x) simp

lemma retains_prod1 [frame_intros]:
  "(\<And>a b. x = (a, b) \<Longrightarrow> retains P (f a b s)) \<Longrightarrow> retains P ((case x of (a, b) \<Rightarrow> f a b) s)"
  by (cases x) simp

lemma retains_loop [frame_intros]:
  "P s \<Longrightarrow> (\<And>v s. P s \<Longrightarrow> retains P (f v s)) \<Longrightarrow> retains P (loopO f v s)"
  by (rule loopO_retains)

lemma retains_each [frame_intros]:
  "P s \<Longrightarrow> (\<And>x s. P s \<Longrightarrow> retains P (f x s)) \<Longrightarrow> retains P (eachO f xs s)"
  by (rule eachO_retains)

lemma retains_Ret [frame_intros]: "P s \<Longrightarrow> retains P (Ret a s)"
  by simp

lemma retains_Exits [frame_intros]: "P s \<Longrightarrow> retains P (Exits c s)"
  by simp

lemma retains_Panic [frame_intros]: "retains P (Panic m)"
  by simp

lemma retains_Undefined [frame_intros]: "retains P (Undefined m)"
  by simp

lemma retains_Blocked [frame_intros]: "retains P Blocked"
  by simp

text \<open>\<open>leads Q P m\<close>: \<open>Q\<close> where the path returns, \<open>P\<close> where it ends in an exit.\<close>

definition leads :: "('s \<Rightarrow> bool) \<Rightarrow> ('s \<Rightarrow> bool) \<Rightarrow> ('s, 'a) outcome \<Rightarrow> bool" where
  "leads Q P m \<longleftrightarrow> (\<forall>a s. m = Ret a s \<longrightarrow> Q s) \<and> (\<forall>c s. m = Exits c s \<longrightarrow> P s)"

lemma leads_retains: "retains Q m \<Longrightarrow> (\<And>s. Q s \<Longrightarrow> P s) \<Longrightarrow> leads Q P m"
  by (cases m) (simp_all add: leads_def)

lemma leads_same: "leads P P m = retains P m"
  by (cases m) (simp_all add: leads_def)

lemma leads_bind: "leads Q P m \<Longrightarrow> (\<And>a s. Q s \<Longrightarrow> leads R P (f a s)) \<Longrightarrow> leads R P (bindO m f)"
  by (cases m) (simp_all add: leads_def)

lemma leads_if: "(b \<Longrightarrow> leads Q P m) \<Longrightarrow> (\<not> b \<Longrightarrow> leads Q P n) \<Longrightarrow> leads Q P (if b then m else n)"
  by simp

text \<open>What of a buffer the hash queues and the free list depend on.\<close>

definition bkey :: "buffer_head \<Rightarrow> u16 \<times> u32 \<times> nat option \<times> nat option \<times> nat option \<times> nat option" where
  "bkey h = (b_dev h, b_blocknr h, b_prev h, b_next h, b_prev_free h, b_next_free h)"

lemma bkey_simps [simp]:
  "bkey (h\<lparr>b_data := d\<rparr>) = bkey h" "bkey (h\<lparr>b_uptodate := u\<rparr>) = bkey h" "bkey (h\<lparr>b_dirt := u\<rparr>) = bkey h"
  "bkey (h\<lparr>b_count := u\<rparr>) = bkey h" "bkey (h\<lparr>b_lock := u\<rparr>) = bkey h" "bkey (h\<lparr>b_wait := w\<rparr>) = bkey h"
  by (simp_all add: bkey_def)

text \<open>A device number fits in the 16 bits a buffer has for it.\<close>

definition small :: "u32 \<Rightarrow> bool" where
  "small dev \<longleftrightarrow> dev \<le> 0xffff"

lemma small_ucast [simp]: "small (ucast (d :: u16))"
proof -
  have "uint d < 65536" using unsigned_less [of d, where ?'a = int] by simp
  then show ?thesis by (simp add: small_def word_le_def unsigned_ucast_eq take_bit_int_eq_self)
qed

lemma find_buffer_state: "find_buffer dev block s = Ret r t \<Longrightarrow> t = s"
  unfolding find_buffer_def
  by (erule loopO_rule [where I = "\<lambda>_ u. u = s"]) (auto split: option.splits if_splits)

text \<open>\<open>base_frame\<close>: everything but the buffers.\<close>

locale base_frame =
  fixes P :: "fs \<Rightarrow> bool" and E :: kenv
  assumes keep_req: "P s \<Longrightarrow> P (upd_req r f2 s)"
    and keep_inode: "P s \<Longrightarrow> P (upd_inode i f3 s)"
    and keep_super: "P s \<Longrightarrow> P (upd_super k f4 s)"
    and keep_state: "P s \<Longrightarrow> P (upd_task p (\<lambda>t. t\<lparr>state := v\<rparr>) s)"
    and keep_current_request: "P s \<Longrightarrow> P (s\<lparr>current_request := crq\<rparr>)"
    and keep_buffer_wait: "P s \<Longrightarrow> P (s\<lparr>buffer_wait := w\<rparr>)"
    and keep_wait_for_request: "P s \<Longrightarrow> P (s\<lparr>wait_for_request := w\<rparr>)"
    and keep_last_inode: "P s \<Longrightarrow> P (s\<lparr>last_inode := n\<rparr>)"
    and keep_pmem: "P s \<Longrightarrow> P (s\<lparr>pmem := m\<rparr>)"
    and keep_mem_map: "P s \<Longrightarrow> P (s\<lparr>mem_map := mm\<rparr>)"
    and keep_moff: "P s \<Longrightarrow> P (s\<lparr>moff_timer := tm\<rparr>)"
    and keep_mon: "P s \<Longrightarrow> P (s\<lparr>mon_timer := tm\<rparr>)"
    and keep_DOR: "P s \<Longrightarrow> P (s\<lparr>current_DOR := dor\<rparr>)"
    and keep_ports: "P s \<Longrightarrow> P (s\<lparr>ports := ps\<rparr>)"
    and keep_wait_motor: "P s \<Longrightarrow> P (s\<lparr>wait_motor := wm\<rparr>)"
    and keep_select: "P s \<Longrightarrow> P (s\<lparr>wait_on_floppy_select := w\<rparr>)"
    and keep_schedule: "P s \<Longrightarrow> retains P (schedule (k_env E) s)"
    and keep_dev: "P s \<Longrightarrow> retains P (k_dev E major s)"

text \<open>
  \<open>cache_frame\<close>: a property that may speak of the queues of the buffer cache.  Buffers are
  changed without touching their place in the queues, and \<open>getblk\<close> moves a buffer only to a
  block that it did not find.
\<close>

locale cache_frame = base_frame +
  assumes keep_bh: "P s \<Longrightarrow> (\<And>h. bkey (f1 h) = bkey h) \<Longrightarrow> P (upd_bh b f1 s)"
    and keep_claim: "P s \<Longrightarrow> small dev \<Longrightarrow> find_buffer dev block s = Ret None s \<Longrightarrow> retains P (claim_buffer dev block b s)"
begin

lemmas keep = keep_bh keep_req keep_inode keep_super keep_state keep_current_request
  keep_buffer_wait keep_wait_for_request keep_last_inode keep_pmem keep_mem_map keep_schedule keep_dev
  keep_moff keep_mon keep_DOR keep_ports keep_wait_motor keep_select

lemma if_keeps: "(c \<Longrightarrow> P s) \<Longrightarrow> (\<not> c \<Longrightarrow> P t) \<Longrightarrow> P (if c then s else t)"
  by simp

lemma option_keeps:
  "(x = None \<Longrightarrow> P s) \<Longrightarrow> (\<And>y. x = Some y \<Longrightarrow> P (f y)) \<Longrightarrow> P (case x of None \<Rightarrow> s | Some y \<Rightarrow> f y)"
  by (cases x) simp_all

lemmas intros = frame_intros keep if_keeps option_keeps

lemma keep_wake_up: "P s \<Longrightarrow> P (wake_up get s)"
  unfolding wake_up_def by (intro intros; simp)

lemma keep_poke: "P s \<Longrightarrow> P (poke a v s)"
  unfolding poke_def by (intro intros; simp)

lemma keep_outb: "P s \<Longrightarrow> P (outb v p s)"
  unfolding outb_def by (intro intros; simp)

lemma keep_sleep_on: "P s \<Longrightarrow> (\<And>v s. P s \<Longrightarrow> P (put v s)) \<Longrightarrow> retains P (sleep_on (k_env E) get put s)"
  unfolding sleep_on_def sleep_enter_def sleep_leave_def Let_def by (intro intros; simp)

lemma keep_sleep_rounds:
  "P s \<Longrightarrow> (\<And>v s. P s \<Longrightarrow> P (put v s)) \<Longrightarrow> retains P (sleep_rounds n (k_env E) c get put s)"
  by (induction n arbitrary: s) (auto intro!: intros keep_sleep_on)

lemma keep_sleep_while:
  "P s \<Longrightarrow> (\<And>v s. P s \<Longrightarrow> P (put v s)) \<Longrightarrow> retains P (sleep_while (k_env E) c get put s)"
  unfolding sleep_while_def by (rule keep_sleep_rounds)

lemma keep_isleep_loop: "P s \<Longrightarrow> retains P (isleep_loop (k_env E) get s)"
proof (induction "k_env E" get s rule: isleep_loop.induct)
  case (1 get s)
  show ?case by (subst isleep_loop.simps) (intro retains_bindO intros 1; simp)
qed

lemma keep_isleep_on: "P s \<Longrightarrow> (\<And>v s. P s \<Longrightarrow> P (put v s)) \<Longrightarrow> retains P (interruptible_sleep_on (k_env E) get put s)"
  unfolding interruptible_sleep_on_def Let_def by (intro intros keep_isleep_loop)

lemma keep_isleep_rounds:
  "P s \<Longrightarrow> (\<And>v s. P s \<Longrightarrow> P (put v s)) \<Longrightarrow> retains P (isleep_rounds n (k_env E) c get put s)"
  by (induction n arbitrary: s) (auto intro!: intros keep_isleep_on)

lemma keep_isleep_while:
  "P s \<Longrightarrow> (\<And>v s. P s \<Longrightarrow> P (put v s)) \<Longrightarrow> retains P (isleep_while (k_env E) c get put s)"
  unfolding isleep_while_def by (rule keep_isleep_rounds)

section \<open>Block devices\<close>

declare keep_wake_up [frame_intros] keep_poke [frame_intros] keep_outb [frame_intros]
  keep_sleep_on [frame_intros] keep_sleep_while [frame_intros] keep_isleep_while [frame_intros]

lemma keep_put_b_wait [frame_intros]: "P s \<Longrightarrow> P (put_b_wait b p s)"
  unfolding put_b_wait_def Let_def by (intro intros frame_intros; simp)

lemma keep_wait_on_buffer [frame_intros]: "P s \<Longrightarrow> retains P (wait_on_buffer E b s)"
  unfolding wait_on_buffer_def Let_def by (intro intros frame_intros; simp)

lemma keep_lock_buffer [frame_intros]: "P s \<Longrightarrow> retains P (lock_buffer E b s)"
  unfolding lock_buffer_def Let_def by (intro intros frame_intros; simp)

lemma keep_unlock_buffer [frame_intros]: "P s \<Longrightarrow> P (unlock_buffer b s)"
  unfolding unlock_buffer_def Let_def by (intro intros frame_intros; simp)

lemma keep_add_request [frame_intros]: "P s \<Longrightarrow> retains P (add_request E major req s)"
  unfolding add_request_def Let_def by (intro intros frame_intros; simp)

lemma keep_get_request [frame_intros]: "P s \<Longrightarrow> retains P (get_request n E rw ahead s)"
  by (induction n arbitrary: s) (auto intro!: intros frame_intros)

lemma keep_fill_request [frame_intros]: "P s \<Longrightarrow> P (fill_request req rw b s)"
  unfolding fill_request_def Let_def by (intro intros frame_intros; simp)

lemma keep_make_request [frame_intros]: "P s \<Longrightarrow> retains P (make_request E major rw b s)"
  unfolding make_request_def Let_def by (intro intros frame_intros; simp)

lemma keep_ll_rw_block [frame_intros]: "P s \<Longrightarrow> retains P (ll_rw_block E rw b s)"
  unfolding ll_rw_block_def Let_def by (intro intros frame_intros; simp)

section \<open>The buffer cache\<close>

lemma keep_find_buffer [frame_intros]: "P s \<Longrightarrow> retains P (find_buffer dev block s)"
  unfolding find_buffer_def Let_def by (intro intros frame_intros; simp)

lemma keep_get_hash_table [frame_intros]: "P s \<Longrightarrow> retains P (get_hash_table E dev block s)"
  unfolding get_hash_table_def Let_def by (intro intros frame_intros; simp)

lemma keep_scan_free_list [frame_intros]: "P s \<Longrightarrow> retains P (scan_free_list s)"
  unfolding scan_free_list_def Let_def by (intro intros frame_intros; simp)

lemma keep_clean_buffer:
  assumes "P s" and sync: "\<And>dev s. P s \<Longrightarrow> retains P (sync dev s)"
  shows "retains P (clean_buffer sync E b s)"
  unfolding clean_buffer_def by (intro intros frame_intros sync assms(1); simp)

lemma keep_claim_step:
  assumes "P s" "small dev"
  shows "retains P (bindO (find_buffer dev block s) (\<lambda>r s.
     case r of Some _ \<Rightarrow> Ret (Inl ()) s | None \<Rightarrow> bindO (claim_buffer dev block b s) (\<lambda>_ s. Ret (Inr b) s)))"
proof (rule retains_bindO [OF keep_find_buffer [OF assms(1)]])
  fix r t assume t: "P t" "find_buffer dev block s = Ret r t"
  show "retains P (case r of Some _ \<Rightarrow> Ret (Inl ()) t | None \<Rightarrow> bindO (claim_buffer dev block b t) (\<lambda>_ s. Ret (Inr b) s))"
  proof (cases r)
    case None
    then have "find_buffer dev block t = Ret None t" using t(2) find_buffer_state [OF t(2)] by simp
    then show ?thesis using None by (simp add: retains_bindO keep_claim t(1) assms(2))
  qed (simp add: t(1))
qed

lemma keep_getblk_round:
  assumes "P s" "small dev" and sync: "\<And>dev s. P s \<Longrightarrow> retains P (sync dev s)"
  shows "retains P (getblk_round sync E dev block s)"
  unfolding getblk_round_def
  by (intro retains_bind retains_option retains_if keep_claim_step keep_clean_buffer sync keep_get_hash_table
      keep_scan_free_list keep_wait_on_buffer keep_sleep_on retains_Ret keep_buffer_wait assms(1,2))

lemma keep_getblk_body:
  assumes "P s" "small dev" and sync: "\<And>dev s. P s \<Longrightarrow> retains P (sync dev s)"
  shows "retains P (getblk_body sync E dev block s)"
  unfolding getblk_body_def by (intro retains_loop keep_getblk_round sync assms(1,2))

lemma keep_brelse [frame_intros]: "P s \<Longrightarrow> retains P (brelse E buf s)"
  unfolding brelse_def Let_def by (intro intros frame_intros; simp)

lemma keep_fetch [frame_intros]: "P s \<Longrightarrow> retains P (fetch E b s)"
  unfolding fetch_def Let_def by (intro intros frame_intros; simp)

lemma keep_bread_body:
  assumes "P s" "small dev" and gb: "\<And>dev block s. P s \<Longrightarrow> small dev \<Longrightarrow> retains P (gb dev block s)"
  shows "retains P (bread_body gb E dev block s)"
  unfolding bread_body_def by (intro intros frame_intros gb assms(1,2); simp)

section \<open>Writing back\<close>

lemma keep_put_s_wait [frame_intros]: "P s \<Longrightarrow> P (put_s_wait k p s)"
  unfolding put_s_wait_def Let_def by (intro intros frame_intros; simp)

lemma keep_put_i_wait [frame_intros]: "P s \<Longrightarrow> P (put_i_wait i p s)"
  unfolding put_i_wait_def Let_def by (intro intros frame_intros; simp)

lemma keep_wait_on_super [frame_intros]: "P s \<Longrightarrow> retains P (wait_on_super E k s)"
  unfolding wait_on_super_def Let_def by (intro intros frame_intros; simp)

lemma keep_lock_super [frame_intros]: "P s \<Longrightarrow> retains P (lock_super E k s)"
  unfolding lock_super_def Let_def by (intro intros frame_intros; simp)

lemma keep_free_super [frame_intros]: "P s \<Longrightarrow> P (free_super k s)"
  unfolding free_super_def Let_def by (intro intros frame_intros; simp)

lemma keep_get_super [frame_intros]: "P s \<Longrightarrow> retains P (get_super E dev s)"
  unfolding get_super_def Let_def by (intro intros frame_intros; simp)

lemma keep_wait_on_inode [frame_intros]: "P s \<Longrightarrow> retains P (wait_on_inode E i s)"
  unfolding wait_on_inode_def Let_def by (intro intros frame_intros; simp)

lemma keep_lock_inode [frame_intros]: "P s \<Longrightarrow> retains P (lock_inode E i s)"
  unfolding lock_inode_def Let_def by (intro intros frame_intros; simp)

lemma keep_unlock_inode [frame_intros]: "P s \<Longrightarrow> P (unlock_inode i s)"
  unfolding unlock_inode_def Let_def by (intro intros frame_intros; simp)

lemma keep_write_inode_body:
  assumes "P s" and gb: "\<And>dev block s. P s \<Longrightarrow> small dev \<Longrightarrow> retains P (gb dev block s)"
  shows "retains P (write_inode_body gb E i s)"
  unfolding write_inode_body_def Let_def by (intro intros frame_intros keep_bread_body gb assms(1); simp)

lemma keep_sync_inodes_body:
  assumes "P s" and gb: "\<And>dev block s. P s \<Longrightarrow> small dev \<Longrightarrow> retains P (gb dev block s)"
  shows "retains P (sync_inodes_body gb E s)"
  unfolding sync_inodes_body_def Let_def by (intro intros frame_intros keep_write_inode_body gb assms(1))

lemma keep_sync_pass [frame_intros]: "P s \<Longrightarrow> retains P (sync_pass E dev s)"
  unfolding sync_pass_def Let_def by (intro intros frame_intros; simp)

lemma keep_sync_dev_body:
  assumes "P s" and gb: "\<And>dev block s. P s \<Longrightarrow> small dev \<Longrightarrow> retains P (gb dev block s)"
  shows "retains P (sync_dev_body gb E dev s)"
  unfolding sync_dev_body_def by (intro intros frame_intros keep_sync_inodes_body gb assms(1))

lemma keep_getblk_n: "P s \<Longrightarrow> small dev \<Longrightarrow> retains P (getblk_n d E dev block s)"
proof (induction d arbitrary: dev block s)
  case (Suc d)
  then show ?case by (auto intro!: keep_getblk_body keep_sync_dev_body)
qed simp

lemma keep_getblk [frame_intros]: "P s \<Longrightarrow> small dev \<Longrightarrow> retains P (getblk E dev block s)"
  unfolding getblk_def by (rule keep_getblk_n)

lemma keep_bread [frame_intros]: "P s \<Longrightarrow> small dev \<Longrightarrow> retains P (bread E dev block s)"
  unfolding bread_def by (intro keep_bread_body keep_getblk)

lemma keep_write_inode [frame_intros]: "P s \<Longrightarrow> retains P (write_inode E i s)"
  unfolding write_inode_def by (intro keep_write_inode_body keep_getblk)

lemma keep_sync_inodes [frame_intros]: "P s \<Longrightarrow> retains P (sync_inodes E s)"
  unfolding sync_inodes_def by (intro keep_sync_inodes_body keep_getblk)

lemma keep_sync_dev [frame_intros]: "P s \<Longrightarrow> retains P (sync_dev E dev s)"
  unfolding sync_dev_def by (intro keep_sync_dev_body keep_getblk)

lemma keep_sys_sync [frame_intros]: "P s \<Longrightarrow> retains P (sys_sync E s)"
  unfolding sys_sync_def Let_def by (intro intros frame_intros; simp)

lemma keep_read_inode [frame_intros]: "P s \<Longrightarrow> retains P (read_inode E i s)"
  unfolding read_inode_def Let_def by (intro intros frame_intros; simp)

lemma keep_invalidate_buffers [frame_intros]: "P s \<Longrightarrow> retains P (invalidate_buffers E dev s)"
  unfolding invalidate_buffers_def Let_def by (intro intros frame_intros; simp)

lemma keep_invalidate_inodes [frame_intros]: "P s \<Longrightarrow> retains P (invalidate_inodes E dev s)"
  unfolding invalidate_inodes_def Let_def by (intro intros frame_intros; simp)

lemma keep_put_super [frame_intros]: "P s \<Longrightarrow> retains P (put_super E dev s)"
  unfolding put_super_def Let_def by (intro intros frame_intros; simp)

lemma keep_ticks_to_floppy_on [frame_intros]: "P s \<Longrightarrow> retains P (ticks_to_floppy_on nr s)"
  unfolding ticks_to_floppy_on_def Let_def by (intro intros frame_intros; simp)

lemma keep_floppy_on [frame_intros]: "P s \<Longrightarrow> retains P (floppy_on (k_env E) nr s)"
proof (induction "k_env E" nr s rule: floppy_on.induct)
  case (1 nr s)
  show ?case by (subst floppy_on.simps) (intro retains_bindO keep_ticks_to_floppy_on keep_sleep_on retains_if retains_Ret 1; simp add: keep)
qed

lemma keep_floppy_off [frame_intros]: "P s \<Longrightarrow> retains P (floppy_off nr s)"
  unfolding floppy_off_def by (intro intros; simp)

lemma keep_floppy_change [frame_intros]: "P s \<Longrightarrow> retains P (floppy_change E nr s)"
  unfolding floppy_change_def Let_def by (intro intros frame_intros; simp)

lemma keep_check_disk_change [frame_intros]: "P s \<Longrightarrow> retains P (check_disk_change E dev s)"
  unfolding check_disk_change_def Let_def by (intro intros frame_intros; simp)

lemma keep_breada [frame_intros]: "P s \<Longrightarrow> small dev \<Longrightarrow> retains P (breada E dev first rest s)"
  unfolding breada_def Let_def by (intro intros frame_intros; simp)

section \<open>Zones and inodes\<close>

lemma keep_clear_zone_bit [frame_intros]: "P s \<Longrightarrow> retains P (clear_zone_bit sb block s)"
  unfolding clear_zone_bit_def Let_def by (intro intros frame_intros; simp)

lemma keep_free_block [frame_intros]: "P s \<Longrightarrow> retains P (free_block E dev block s)"
  unfolding free_block_def Let_def by (intro intros frame_intros; simp)

lemma keep_take_bit_of [frame_intros]: "P s \<Longrightarrow> retains P (take_bit_of b j msg s)"
  unfolding take_bit_of_def Let_def by (intro intros frame_intros; simp)

lemma keep_new_block [frame_intros]: "P s \<Longrightarrow> small dev \<Longrightarrow> retains P (new_block E dev s)"
  unfolding new_block_def Let_def by (intro intros frame_intros; simp)

lemma keep_free_inode [frame_intros]: "P s \<Longrightarrow> retains P (free_inode E ip s)"
  unfolding free_inode_def Let_def by (intro intros frame_intros; simp)

lemma keep_set_zone [frame_intros]: "P s \<Longrightarrow> P (set_zone i z v s)"
  unfolding set_zone_def Let_def by (intro intros frame_intros; simp)

lemma keep_free_ind [frame_intros]: "P s \<Longrightarrow> small dev \<Longrightarrow> retains P (free_ind E dev block s)"
  unfolding free_ind_def Let_def by (intro intros frame_intros; simp)

lemma keep_free_dind [frame_intros]: "P s \<Longrightarrow> small dev \<Longrightarrow> retains P (free_dind E dev block s)"
  unfolding free_dind_def Let_def by (intro intros frame_intros; simp)

lemma keep_truncate [frame_intros]: "P s \<Longrightarrow> retains P (truncate E i s)"
  unfolding truncate_def Let_def by (intro intros frame_intros; simp)

lemma keep_zone_alloc [frame_intros]: "P s \<Longrightarrow> retains P (zone_alloc E create i z s)"
  unfolding zone_alloc_def Let_def by (intro intros frame_intros; simp)

lemma keep_ind_entry [frame_intros]: "P s \<Longrightarrow> retains P (ind_entry E create i b k s)"
  unfolding ind_entry_def Let_def by (intro intros frame_intros; simp)

lemma keep_bmap_indirect [frame_intros]: "P s \<Longrightarrow> retains P (bmap_indirect E create i zone k s)"
  unfolding bmap_indirect_def Let_def by (intro intros frame_intros; simp)

lemma keep_bmap_gen [frame_intros]: "P s \<Longrightarrow> retains P (bmap_gen E i block create s)"
  unfolding bmap_gen_def Let_def by (intro intros frame_intros; simp)

lemma keep_bmap [frame_intros]: "P s \<Longrightarrow> retains P (bmap E i block s)"
  unfolding bmap_def Let_def by (intro intros frame_intros; simp)

lemma keep_create_block [frame_intros]: "P s \<Longrightarrow> retains P (create_block E i block s)"
  unfolding create_block_def Let_def by (intro intros frame_intros; simp)

lemma keep_free_page [frame_intros]: "P s \<Longrightarrow> retains P (free_page a s)"
  unfolding free_page_def set_map_def Let_def by (intro intros; simp)

lemma keep_get_free_page: "P s \<Longrightarrow> P (snd (get_free_page s))"
  unfolding get_free_page_def set_map_def Let_def by (auto intro!: keep split: option.splits)

lemma keep_scan_inodes: "P s \<Longrightarrow> P (snd (scan_inodes n ip s))"
proof (induction n arbitrary: ip s)
  case (Suc n)
  note IH = Suc.IH [OF keep_last_inode [OF Suc.prems]]
  show ?case unfolding scan_inodes.simps Let_def by (auto intro: keep_last_inode Suc.prems IH)
qed simp

lemma keep_iput [frame_intros]: "P s \<Longrightarrow> retains P (iput E ip s)"
  unfolding iput_def Let_def by (intro intros frame_intros; simp)

lemma keep_get_empty_inode [frame_intros]: "P s \<Longrightarrow> retains P (get_empty_inode E s)"
  unfolding get_empty_inode_def
proof (rule retains_loop, assumption, rule retains_pair)
  fix s :: fs assume "P s"
  then show "P (snd (scan_inodes NR_INODE None s))" by (rule keep_scan_inodes)
qed (intro intros frame_intros)

lemma keep_get_pipe_inode [frame_intros]: "P s \<Longrightarrow> retains P (get_pipe_inode E s)"
  unfolding get_pipe_inode_def Let_def
  by (intro retains_pair keep_get_free_page retains_bind keep_get_empty_inode; assumption?) (intro intros frame_intros)

lemma keep_iget_found [frame_intros]: "P s \<Longrightarrow> retains P (iget_found E emp i s)"
  unfolding iget_found_def Let_def by (intro intros frame_intros; simp)

lemma keep_iget [frame_intros]: "P s \<Longrightarrow> retains P (iget E dev nr s)"
  unfolding iget_def Let_def by (intro intros frame_intros; simp)

lemma keep_new_inode [frame_intros]: "P s \<Longrightarrow> retains P (new_inode E dev s)"
  unfolding new_inode_def by (intro intros frame_intros; simp)

section \<open>Directories\<close>

lemma keep_file_block [frame_intros]: "P s \<Longrightarrow> retains P (file_block E i pos s)"
  unfolding file_block_def Let_def by (intro intros frame_intros; simp)

lemma keep_set_de_inode [frame_intros]: "P s \<Longrightarrow> P (set_de_inode b off v s)"
  unfolding set_de_inode_def by (intro intros frame_intros; simp)

lemma keep_find_step: "P s \<Longrightarrow> retains P (find_step E dir name len entries v s)"
  unfolding find_step_def Let_def by (intro intros frame_intros; simp)

lemma keep_dotdot [frame_intros]: "P s \<Longrightarrow> retains P (dotdot E dir name len s)"
  unfolding dotdot_def by (intro intros frame_intros; simp)

lemma keep_find_entry [frame_intros]: "P s \<Longrightarrow> retains P (find_entry E dir name namelen s)"
  unfolding find_entry_def Let_def by (intro intros frame_intros keep_find_step; simp)

lemma keep_add_step: "P s \<Longrightarrow> retains P (add_step E dir name len v s)"
  unfolding add_step_def Let_def by (intro intros frame_intros; simp)

lemma keep_add_entry [frame_intros]: "P s \<Longrightarrow> retains P (add_entry E dir name namelen s)"
  unfolding add_entry_def Let_def by (intro intros frame_intros keep_add_step; simp)

lemma keep_name_length [frame_intros]: "P s \<Longrightarrow> retains P (name_length p s)"
  unfolding name_length_def Let_def by (intro intros frame_intros; simp)

lemma keep_get_dir_step: "P s \<Longrightarrow> retains P (get_dir_step E v s)"
  unfolding get_dir_step_def Let_def by (intro intros frame_intros; simp)

lemma keep_get_dir [frame_intros]: "P s \<Longrightarrow> retains P (get_dir E pathname s)"
  unfolding get_dir_def Let_def by (intro intros frame_intros keep_get_dir_step)

lemma keep_base_name [frame_intros]: "P s \<Longrightarrow> retains P (base_name pathname s)"
  unfolding base_name_def Let_def by (intro intros frame_intros; simp)

lemma keep_dir_namei [frame_intros]: "P s \<Longrightarrow> retains P (dir_namei E pathname s)"
  unfolding dir_namei_def by (intro intros frame_intros; simp)

lemma keep_namei [frame_intros]: "P s \<Longrightarrow> retains P (namei E pathname s)"
  unfolding namei_def Let_def by (intro intros frame_intros; simp)

lemma keep_leave [frame_intros]: "P s \<Longrightarrow> retains P (leave E is b r s)"
  unfolding leave_def by (intro intros frame_intros; simp)

lemma keep_open_create [frame_intros]: "P s \<Longrightarrow> retains P (open_create E flag mode dir base len s)"
  unfolding open_create_def Let_def by (intro intros frame_intros; simp)

lemma keep_open_existing [frame_intros]: "P s \<Longrightarrow> retains P (open_existing E flag dev inr s)"
  unfolding open_existing_def Let_def by (intro intros frame_intros; simp)

lemma keep_open_namei [frame_intros]: "P s \<Longrightarrow> retains P (open_namei E pathname flag mode s)"
  unfolding open_namei_def Let_def by (intro intros frame_intros; simp)

end

text \<open>
  \<open>fs_frame\<close>: a property that does not depend on buffers at all.
\<close>

locale fs_frame = base_frame +
  assumes keep_any_bh: "P s \<Longrightarrow> P (upd_bh b f1 s)"
    and keep_hash: "P s \<Longrightarrow> P (s\<lparr>hash_table := h\<rparr>)"
    and keep_free_list: "P s \<Longrightarrow> P (s\<lparr>free_list := fl\<rparr>)"
begin

lemma keep_option_state:
  "(x = None \<Longrightarrow> P s) \<Longrightarrow> (\<And>y. x = Some y \<Longrightarrow> P (f y)) \<Longrightarrow> P (case x of None \<Rightarrow> s | Some y \<Rightarrow> f y)"
  by (cases x) simp_all

lemma keep_if_state: "(c \<Longrightarrow> P s) \<Longrightarrow> (\<not> c \<Longrightarrow> P t) \<Longrightarrow> P (if c then s else t)"
  by simp

lemmas queue_intros = keep_any_bh keep_hash keep_free_list keep_option_state keep_if_state keep_pmem
  retains_bind retains_Ret retains_Undefined retains_Panic retains_option retains_prod

lemma keep_unhash: "P s \<Longrightarrow> P (unhash b s)"
  unfolding unhash_def Let_def by (intro queue_intros)

lemma keep_unfree: "P s \<Longrightarrow> retains P (unfree b s)"
  unfolding unfree_def Let_def by (intro queue_intros)

lemma keep_enfree: "P s \<Longrightarrow> retains P (enfree b s)"
  unfolding enfree_def Let_def by (intro queue_intros)

lemma keep_enhash: "P s \<Longrightarrow> P (enhash b s)"
  unfolding enhash_def poke_def Let_def by (intro queue_intros)

lemma keep_claim_buffer: "P s \<Longrightarrow> retains P (claim_buffer dev block b s)"
  unfolding claim_buffer_def remove_from_queues_def insert_into_queues_def
  by (intro queue_intros keep_unfree keep_unhash keep_enfree keep_enhash)

end

sublocale fs_frame \<subseteq> cache_frame
  by unfold_locales (rule keep_any_bh keep_claim_buffer, assumption)+

text \<open>A kernel with only a RAM disk, in which no other task runs.\<close>

definition ram_kernel :: kenv where
  "ram_kernel = \<lparr>k_env = \<lambda>_ s. s, k_dev = \<lambda>_. do_rd_request\<rparr>"

end
