(* ===== verification/Descriptors.thy ===== *)
theory Descriptors
  imports Fs_Frame
begin

text \<open>
  The counts of open files.  A file structure is shared by the descriptors that
  name it, in one task or in several; \<open>f_count\<close> says how many there are, and the
  structure is free when there are none.  The calls that make and drop
  descriptors sleep in the middle, while other tasks open and close files too.
\<close>

section \<open>The invariant\<close>

text \<open>The descriptors (task slot and number) that name the file \<open>f\<close>.\<close>

definition holders :: "nat \<Rightarrow> fs \<Rightarrow> (nat \<times> nat) set" where
  "holders f s = {(i, fd). i < NR_TASKS \<and> fd < NR_OPEN \<and> task s i \<noteq> 0 \<and> filp (tstruct s (task s i)) fd = Some f}"

definition files_ok :: "fs \<Rightarrow> bool" where
  "files_ok s \<longleftrightarrow>
     inj_on (task s) {i. i < NR_TASKS \<and> task s i \<noteq> 0} \<and>
     (\<forall>i fd f. i < NR_TASKS \<longrightarrow> fd < NR_OPEN \<longrightarrow> task s i \<noteq> 0 \<longrightarrow> filp (tstruct s (task s i)) fd = Some f \<longrightarrow> f < NR_FILE) \<and>
     (\<forall>f<NR_FILE. unat (f_count (file_table s f)) = card (holders f s))"

text \<open>The task \<open>c\<close> alone has the file.\<close>

definition alone :: "u32 \<Rightarrow> nat \<Rightarrow> fs \<Rightarrow> bool" where
  "alone c f s \<longleftrightarrow> holders f s \<noteq> {} \<and> (\<forall>i fd. (i, fd) \<in> holders f s \<longrightarrow> task s i = c)"

text \<open>
  What may change from \<open>s\<close> to \<open>t\<close> while the task \<open>c\<close> does not run: the counts stay right,
  \<open>c\<close> keeps its slot and its descriptors, and no one else gets at a file that only \<open>c\<close> has.
\<close>

definition calm :: "u32 \<Rightarrow> fs \<Rightarrow> fs \<Rightarrow> bool" where
  "calm c s t \<longleftrightarrow> files_ok t \<and> (\<forall>i<NR_TASKS. task s i = c \<longrightarrow> task t i = c) \<and>
     filp (tstruct t c) = filp (tstruct s c) \<and>
     (\<forall>f<NR_FILE. alone c f s \<longrightarrow> holders f t = holders f s)"

definition rely :: "kenv \<Rightarrow> u32 \<Rightarrow> bool" where
  "rely E c \<longleftrightarrow> (\<forall>n s. files_ok s \<longrightarrow> calm c s (k_env E n s)) \<and>
     (\<forall>m s. files_ok s \<longrightarrow> retains (\<lambda>t. calm c s t \<and> current t = current s) (k_dev E m s))"

definition steady :: "kenv \<Rightarrow> u32 \<Rightarrow> fs \<Rightarrow> fs \<Rightarrow> bool" where
  "steady E c s0 s \<longleftrightarrow> rely E c \<and> current s = c \<and> calm c s0 s"

text \<open>The part of the state the invariant reads.\<close>

definition same_files :: "fs \<Rightarrow> fs \<Rightarrow> bool" where
  "same_files s t \<longleftrightarrow> task s = task t \<and> (\<forall>p. filp (tstruct s p) = filp (tstruct t p)) \<and>
     (\<forall>f. f_count (file_table s f) = f_count (file_table t f))"

lemma same_files_holders: "same_files s t \<Longrightarrow> holders f s = holders f t"
  by (simp add: same_files_def holders_def)

lemma same_files_ok: "same_files s t \<Longrightarrow> files_ok t = files_ok s"
  using same_files_holders [of s t] unfolding files_ok_def by (simp add: same_files_def)

lemma same_files_alone: "same_files s t \<Longrightarrow> alone c f t = alone c f s"
  using same_files_holders [of s t] unfolding alone_def by (simp add: same_files_def)

lemma same_files_calm: "same_files s t \<Longrightarrow> calm c s0 t = calm c s0 s"
  using same_files_holders [of s t] same_files_ok [of s t] unfolding calm_def by (simp add: same_files_def)

lemma same_files_refl [simp]: "same_files s s"
  by (simp add: same_files_def)

lemma calm_refl: "files_ok s \<Longrightarrow> calm c s s"
  by (simp add: calm_def)

lemma calm_alone: "calm c s t \<Longrightarrow> alone c f s \<Longrightarrow> f < NR_FILE \<Longrightarrow> alone c f t"
proof -
  assume c: "calm c s t" "alone c f s" "f < NR_FILE"
  then have h: "holders f t = holders f s" by (simp add: calm_def)
  have "task t i = c" if "(i, fd) \<in> holders f t" for i fd
  proof -
    have "i < NR_TASKS" "task s i = c" using that c(2) unfolding h by (auto simp: holders_def alone_def)
    then show ?thesis using c(1) by (simp add: calm_def)
  qed
  then show "alone c f t" using c(2) h by (auto simp: alone_def)
qed

lemma calm_trans: "calm c s t \<Longrightarrow> calm c t u \<Longrightarrow> calm c s u"
  using calm_alone [of c s t] by (auto simp: calm_def)

lemma steady_same: "steady E c s0 s \<Longrightarrow> same_files s t \<Longrightarrow> current t = current s \<Longrightarrow> steady E c s0 t"
  by (simp add: steady_def same_files_calm)

section \<open>Scheduling\<close>

lemma same_files_signal: "same_files s (sched_signal i s)"
  by (simp add: sched_signal_def same_files_def Let_def)

lemma same_files_trans: "same_files s t \<Longrightarrow> same_files t u \<Longrightarrow> same_files s u"
  by (simp add: same_files_def)

lemma same_files_signals: "same_files s (sched_signals s)"
proof -
  have "same_files s (foldl (\<lambda>s i. sched_signal i s) s xs)" for xs
    by (induction xs rule: rev_induct) (auto intro: same_files_trans same_files_signal)
  then show ?thesis unfolding sched_signals_def by simp
qed

lemma same_files_recalc: "same_files s (recalc s)"
proof -
  have one: "same_files s (recalc_one i s)" for s :: fs and i by (simp add: recalc_one_def same_files_def Let_def)
  have "same_files s (foldl (\<lambda>s i. recalc_one i s) s xs)" for xs
    by (induction xs rule: rev_induct) (auto intro: same_files_trans one)
  then show ?thesis unfolding recalc_def by simp
qed

lemma same_files_sched_loop: "sched_loop s = Some r \<Longrightarrow> same_files s (snd r)"
proof (rule sched_loop.raw_induct [of "\<lambda>s r. same_files s (snd r)"], goal_cases)
  case (1 f s r)
  show ?case
  proof (cases "fst (pick s) = 0")
    case True
    then have "f (recalc s) = Some r" using 1(3) by (simp add: case_prod_beta)
    from 1(2) [OF this] show ?thesis by (rule same_files_trans [OF same_files_recalc])
  qed (use 1(3) in \<open>auto simp: case_prod_beta\<close>)
qed

lemma calm_switch: "files_ok u \<Longrightarrow> rely E c \<Longrightarrow> calm c u ((k_env E n u)\<lparr>budget := k, current := v\<rparr>)"
  using same_files_calm [of "k_env E n u" "(k_env E n u)\<lparr>budget := k, current := v\<rparr>" c u]
  by (simp add: rely_def same_files_def)

lemma steady_schedule: "steady E c s0 s \<Longrightarrow> retains (steady E c s0) (schedule (k_env E) s)"
proof (cases "schedule (k_env E) s")
  case (Ret a t)
  assume st: "steady E c s0 s"
  obtain nx s1 n where s1: "sched_loop (sched_signals s) = Some (nx, s1)"
    and t: "t = (k_env E n (switch_to nx s1))\<lparr>budget := n, current := current s\<rparr>"
    using Ret by (auto simp: schedule_def split: option.splits nat.splits)
  have "same_files s (switch_to nx s1)"
    using same_files_trans [OF same_files_signals [of s] same_files_sched_loop [OF s1]]
    by (simp add: switch_to_def same_files_def)
  then have "calm c s0 (switch_to nx s1)" using st by (simp add: steady_def same_files_calm)
  moreover from this have "files_ok (switch_to nx s1)" by (simp add: calm_def)
  ultimately have "calm c s0 t"
    unfolding t by (rule calm_trans [OF _ calm_switch]) (use st in \<open>simp add: steady_def\<close>)
  then show ?thesis using Ret st t by (simp add: steady_def)
qed (auto simp: schedule_def split: option.splits nat.splits)

text \<open>The code below the calls touches neither descriptors nor counts.\<close>

lemma steady_dev: "steady E c s0 s \<Longrightarrow> retains (steady E c s0) (k_dev E m s)"
proof -
  assume st: "steady E c s0 s"
  then have "files_ok s" by (simp add: steady_def calm_def)
  then have "retains (\<lambda>t. calm c s t \<and> current t = current s) (k_dev E m s)"
    using st unfolding steady_def rely_def by blast
  then show ?thesis by (rule retains_mono) (use st calm_trans in \<open>auto simp: steady_def\<close>)
qed

interpretation held: fs_frame "steady E c s0" E for E c s0
  by unfold_locales (auto intro: steady_schedule steady_dev elim!: steady_same simp: same_files_def)

section \<open>Making and dropping a descriptor\<close>

lemma finite_holders: "finite (holders f s)" "card (holders f s) \<le> 1280"
proof -
  have sub: "holders f s \<subseteq> {..<NR_TASKS} \<times> {..<NR_OPEN}" by (auto simp: holders_def)
  then show "finite (holders f s)" by (rule finite_subset) simp
  show "card (holders f s) \<le> 1280" using card_mono [OF _ sub] by simp
qed

lemma set_filp_simps [simp]:
  "task (set_filp fd v s) = task s" "current (set_filp fd v s) = current s"
  "file_table (set_filp fd v s) = file_table s"
  "filp (tstruct (set_filp fd v s) p) = (if p = current s then (filp (tstruct s p))(fd := v) else filp (tstruct s p))"
  by (simp_all add: set_filp_def)

text \<open>The descriptor \<open>fd\<close> of the task in slot \<open>i\<close> is set to \<open>v\<close>.\<close>

lemma holders_set_filp:
  assumes "files_ok s" "task s i = current s" "i < NR_TASKS" "current s \<noteq> 0" "fd < NR_OPEN"
  shows "holders g (set_filp fd v s) = (if v = Some g then insert (i, fd) (holders g s) else holders g s - {(i, fd)})"
proof -
  have inj: "j = i" if "j < NR_TASKS" "task s j = current s" for j
  proof (rule inj_onD [of "task s" "{i. i < NR_TASKS \<and> task s i \<noteq> 0}"])
    show "inj_on (task s) {i. i < NR_TASKS \<and> task s i \<noteq> 0}" using assms(1) by (simp add: files_ok_def)
  qed (use assms that in auto)
  have mem: "(j, k) \<in> holders g (set_filp fd v s) \<longleftrightarrow>
      (if j = i \<and> k = fd then v = Some g else (j, k) \<in> holders g s)" for j k
  proof (cases "j = i")
    case True
    then show ?thesis using assms(2-5) by (simp add: holders_def)
  next
    case False
    then have "\<not> (j < NR_TASKS \<and> task s j = current s)" using inj [of j] by blast
    then show ?thesis using False by (auto simp: holders_def)
  qed
  show ?thesis by (rule set_eqI, rename_tac x, case_tac x) (auto simp: mem split: if_splits)
qed

lemma files_okI:
  assumes "files_ok s" "task t = task s"
    and "\<And>f. f < NR_FILE \<Longrightarrow> unat (f_count (file_table t f)) = card (holders f t)"
    and "\<And>i fd f. i < NR_TASKS \<Longrightarrow> fd < NR_OPEN \<Longrightarrow> task s i \<noteq> 0 \<Longrightarrow>
           filp (tstruct t (task s i)) fd = Some f \<Longrightarrow> f < NR_FILE"
  shows "files_ok t"
  using assms unfolding files_ok_def by metis

text \<open>A task in the table: the one whose path is followed.\<close>

definition seated :: "nat \<Rightarrow> fs \<Rightarrow> bool" where
  "seated i s \<longleftrightarrow> i < NR_TASKS \<and> task s i = current s \<and> current s \<noteq> 0"

definition attach :: "nat \<Rightarrow> nat \<Rightarrow> fs \<Rightarrow> fs" where
  "attach fd f s = upd_file f (\<lambda>p. p\<lparr>f_count := f_count p + 1\<rparr>) (set_filp fd (Some f) s)"

definition detach :: "nat \<Rightarrow> nat \<Rightarrow> fs \<Rightarrow> fs" where
  "detach fd f s = upd_file f (\<lambda>p. p\<lparr>f_count := f_count p - 1\<rparr>) (set_filp fd None s)"

lemma holders_upd_file [simp]: "holders g (upd_file f h s) = holders g s"
  by (simp add: holders_def)

lemma seated_keeps [simp]: "seated i (upd_file f h s) = seated i s" "seated i (set_filp fd v s) = seated i s"
  by (simp_all add: seated_def)

lemma filp_less: "files_ok s \<Longrightarrow> seated i s \<Longrightarrow> fd < NR_OPEN \<Longrightarrow> filp (cur s) fd = Some f \<Longrightarrow> f < NR_FILE"
  unfolding files_ok_def seated_def cur_def by metis

lemma attach_ok:
  assumes ok: "files_ok s" "seated i s" "fd < NR_OPEN" "f < NR_FILE" "filp (cur s) fd = None"
  shows "files_ok (attach fd f s)" "holders g (attach fd f s) = (if g = f then insert (i, fd) (holders f s) else holders g s)"
proof -
  have new: "(i, fd) \<notin> holders g s" for g
    using ok(2,5) by (auto simp: holders_def seated_def cur_def)
  show h: "holders g (attach fd f s) = (if g = f then insert (i, fd) (holders f s) else holders g s)" for g
    using ok(2,3) holders_set_filp [OF ok(1), of i fd g "Some f"] new by (auto simp: attach_def seated_def)
  have inc: "unat (f_count (file_table s f) + 1) = Suc (card (holders f s))"
    using ok(1,4) finite_holders(2) [of f s] unat_word_ariths(1) [of "f_count (file_table s f)" 1] by (simp add: files_ok_def)
  show "files_ok (attach fd f s)"
  proof (rule files_okI [OF ok(1)])
    show "task (attach fd f s) = task s" by (simp add: attach_def)
    show "unat (f_count (file_table (attach fd f s) g)) = card (holders g (attach fd f s))" if "g < NR_FILE" for g
      using that inc new ok(1) unfolding h by (simp add: attach_def files_ok_def finite_holders)
    show "g < NR_FILE" if "j < NR_TASKS" "k < NR_OPEN" "task s j \<noteq> 0" "filp (tstruct (attach fd f s) (task s j)) k = Some g" for j k g
      using that ok(1,4) by (auto simp: attach_def files_ok_def split: if_splits)
  qed
qed

lemma detach_ok:
  assumes ok: "files_ok s" "seated i s" "fd < NR_OPEN" "filp (cur s) fd = Some f"
  shows "files_ok (detach fd f s)" "holders g (detach fd f s) = (if g = f then holders f s - {(i, fd)} else holders g s)"
proof -
  have mem: "(i, fd) \<in> holders g s \<longleftrightarrow> g = f" for g
    using ok(2-4) by (auto simp: holders_def seated_def cur_def)
  have f: "f < NR_FILE" by (rule filp_less [OF ok])
  show h: "holders g (detach fd f s) = (if g = f then holders f s - {(i, fd)} else holders g s)" for g
    using ok(2,3) holders_set_filp [OF ok(1), of i fd g None] mem [of g] by (auto simp: detach_def seated_def)
  have pos: "card (holders f s) \<noteq> 0" using mem [of f] finite_holders(1) [of f s] by auto
  have cnt: "unat (f_count (file_table s f)) = card (holders f s)" using ok(1) f by (simp add: files_ok_def)
  then have "f_count (file_table s f) \<noteq> 0" using pos by auto
  then have dec: "unat (f_count (file_table s f) - 1) = card (holders f s) - 1" using cnt by (simp add: unat_minus_one)
  show "files_ok (detach fd f s)"
  proof (rule files_okI [OF ok(1)])
    show "task (detach fd f s) = task s" by (simp add: detach_def)
    show "unat (f_count (file_table (detach fd f s) g)) = card (holders g (detach fd f s))" if "g < NR_FILE" for g
      using that dec mem [of f] ok(1) unfolding h by (simp add: detach_def files_ok_def finite_holders)
    show "g < NR_FILE" if "j < NR_TASKS" "k < NR_OPEN" "task s j \<noteq> 0" "filp (tstruct (detach fd f s) (task s j)) k = Some g" for j k g
      using that ok(1) by (auto simp: detach_def files_ok_def split: if_splits)
  qed
qed

lemma attach_alone:
  assumes "files_ok s" "seated i s" "fd < NR_OPEN" "f < NR_FILE" "filp (cur s) fd = None" "f_count (file_table s f) = 0"
  shows "holders f (attach fd f s) = {(i, fd)}" "alone (current s) f (attach fd f s)"
proof -
  have "card (holders f s) = 0" using assms(1,4,6) by (auto simp: files_ok_def)
  then have "holders f s = {}" using finite_holders(1) [of f s] by simp
  then show "holders f (attach fd f s) = {(i, fd)}" using attach_ok(2) [OF assms(1-5)] by simp
  then show "alone (current s) f (attach fd f s)" using assms(2) by (simp add: alone_def attach_def seated_def)
qed

text \<open>What a call knows when it goes on after sleeping.\<close>

lemma steadyD:
  assumes "steady E c s0 s" "seated i s0" "c = current s0"
  shows "files_ok s" "seated i s" "filp (cur s) = filp (cur s0)" "current s = c"
    "f < NR_FILE \<Longrightarrow> alone c f s0 \<Longrightarrow> holders f s = holders f s0"
  using assms by (auto simp: steady_def calm_def seated_def cur_def)

lemma files_ok_count:
  "files_ok s \<Longrightarrow> f < NR_FILE \<Longrightarrow> holders f s = {h} \<Longrightarrow> f_count (file_table s f) = 1"
proof -
  assume "files_ok s" "f < NR_FILE" "holders f s = {h}"
  then have "unat (f_count (file_table s f)) = unat (1 :: u16)" by (simp add: files_ok_def)
  then show ?thesis by (simp only: word_unat_eq_iff)
qed

section \<open>The calls\<close>

lemma same_files_cloexec: "same_files s (clear_cloexec fd s)"
  by (simp add: clear_cloexec_def same_files_def)

lemma dupfd_ok: "files_ok s \<Longrightarrow> seated i s \<Longrightarrow> files_ok (snd (dupfd fd arg s))"
proof -
  assume ok: "files_ok s" "seated i s"
  have ok': "files_ok (clear_cloexec a s)" "seated i (clear_cloexec a s)" for a
    using ok same_files_ok [OF same_files_cloexec] by (auto simp: seated_def clear_cloexec_def)
  have "files_ok (attach a f (clear_cloexec a s))"
    if "fd_file fd s = Some f" "List.find (\<lambda>a. filp (cur s) a = None) [arg..<NR_OPEN] = Some a" for f a
  proof (rule attach_ok(1) [OF ok'])
    show "a < NR_OPEN" "filp (cur (clear_cloexec a s)) a = None"
      using find_upt_Some [OF that(2)] by (simp_all add: clear_cloexec_def cur_def)
    show "f < NR_FILE" using that(1) by (intro filp_less [OF ok, of fd]) (simp_all add: fd_file_def split: if_splits)
  qed
  then show ?thesis using ok(1) by (auto simp: dupfd_def attach_def split: option.splits)
qed

lemma steady_start: "files_ok s \<Longrightarrow> rely E (current s) \<Longrightarrow> steady E (current s) s s"
  by (simp add: steady_def calm_refl)

text \<open>The running task and its slot.\<close>

definition running :: "nat \<Rightarrow> u32 \<Rightarrow> fs \<Rightarrow> bool" where
  "running i c s \<longleftrightarrow> files_ok s \<and> seated i s \<and> current s = c"

lemma running_cloexec: "running i c s \<Longrightarrow> running i c (clear_cloexec fd s)"
  using same_files_ok [OF same_files_cloexec] by (auto simp: running_def seated_def clear_cloexec_def)

lemma running_detach:
  "running i c s \<Longrightarrow> fd < NR_OPEN \<Longrightarrow> filp (cur s) fd = Some f \<Longrightarrow> running i c (detach fd f s)"
  using detach_ok(1) [of s i fd f] by (simp add: running_def) (simp add: detach_def)

lemma running_step:
  assumes "running i c s" "rely E c" "\<And>s0. steady E c s0 s \<Longrightarrow> retains (steady E c s0) m"
  shows "retains (\<lambda>t. running i c t \<and> filp (cur t) = filp (cur s)) m"
proof -
  have s: "files_ok s" "seated i s" "current s = c" using assms(1) by (simp_all add: running_def)
  show ?thesis
  proof (rule retains_mono [OF assms(3) [OF steady_start [of s E, unfolded s(3)]]])
    fix t assume t: "steady E c s t"
    show "running i c t \<and> filp (cur t) = filp (cur s)"
      using steadyD(1-4) [OF t s(2)] s(3) by (simp add: running_def)
  qed (use s assms(2) in simp_all)
qed

text \<open>\<open>close\<close> empties the descriptor and leaves the others.\<close>

lemma sys_close_runs:
  assumes ok: "running i c s" "rely E c"
  shows "retains (\<lambda>t. running i c t \<and> filp (cur t) = (if fd < NR_OPEN then (filp (cur s))(fd := None) else filp (cur s)))
     (sys_close E fd s)"
proof -
  let ?s1 = "clear_cloexec fd s"
  note ok1 = running_cloexec [OF ok(1), of fd]
  have f1: "filp (cur ?s1) = filp (cur s)" by (simp add: clear_cloexec_def cur_def)
  have d: "running i c (detach fd f ?s1)" "filp (cur (detach fd f ?s1)) = (filp (cur s))(fd := None)"
    "retains (\<lambda>t. running i c t \<and> filp (cur t) = (filp (cur s))(fd := None)) (iput E ip (detach fd f ?s1))"
    if "fd < NR_OPEN" "filp (cur ?s1) fd = Some f" for f ip
  proof -
    show r: "running i c (detach fd f ?s1)" by (rule running_detach [OF ok1 that])
    show fl: "filp (cur (detach fd f ?s1)) = (filp (cur s))(fd := None)" using f1 by (simp add: detach_def cur_def)
    show "retains (\<lambda>t. running i c t \<and> filp (cur t) = (filp (cur s))(fd := None)) (iput E ip (detach fd f ?s1))"
      using running_step [OF r ok(2) held.keep_iput] unfolding fl .
  qed
  have n: "filp (cur s) fd = None \<Longrightarrow> (filp (cur s))(fd := None) = filp (cur s)" by (simp add: fun_upd_idem)
  show ?thesis unfolding sys_close_def Let_def detach_def [symmetric]
    using ok(1) ok1 f1 n d by (auto intro!: retains_bindO split: option.split)
qed

lemma sys_close_ok:
  "files_ok s \<Longrightarrow> seated i s \<Longrightarrow> rely E (current s) \<Longrightarrow> retains files_ok (sys_close E fd s)"
  using sys_close_runs [of i "current s" s E fd] by (auto simp: running_def elim: retains_mono)

lemma sys_dup2_ok:
  assumes "files_ok s" "seated i s" "rely E (current s)"
  shows "retains files_ok (sys_dup2 E oldfd newfd s)"
proof -
  have "retains files_ok (case dupfd oldfd newfd t of (r, t) \<Rightarrow> Ret r t)" if "running i (current s) t" for t
    using dupfd_ok [of t i oldfd newfd] that by (cases "dupfd oldfd newfd t") (simp add: running_def)
  moreover have "retains (running i (current s)) (sys_close E newfd s)"
    using sys_close_runs [of i "current s" s E newfd] assms by (auto simp: running_def elim: retains_mono)
  ultimately show ?thesis unfolding sys_dup2_def
    by (intro retains_seq [of "running i (current s)"]) (auto simp: running_def)
qed

lemma sys_fcntl_ok: "files_ok s \<Longrightarrow> seated i s \<Longrightarrow> files_ok (snd (sys_fcntl fd cmd arg s))"
  using dupfd_ok [of s i fd "unat arg"]
  by (auto simp: sys_fcntl_def clear_cloexec_def same_files_def split: option.splits intro!: same_files_ok [THEN iffD2, of s])

lemma steady_files_ok: "retains (steady E c s0) m \<Longrightarrow> retains files_ok m"
  by (erule retains_mono) (simp add: steady_def calm_def)

text \<open>The failures of \<open>sys_open\<close> and \<open>sys_pipe\<close> after they slept: the descriptor goes, the count is set to 0.\<close>

lemma undo_same:
  assumes "files_ok s" "f < NR_FILE" "holders f s = {h}"
  shows "same_files (detach fd f s) (set_f_count f 0 (set_filp fd None s))"
  using files_ok_count [OF assms] by (simp add: same_files_def detach_def set_f_count_def)

lemma same_files_open_tty: "retains (same_files s) (open_tty i s)"
  by (simp add: open_tty_def same_files_def Let_def upd_tty_def)

text \<open>The descriptor \<open>fd\<close> names the file \<open>f\<close>, which no one else has; the call then sleeps.\<close>

definition held_file :: "kenv \<Rightarrow> nat \<Rightarrow> nat \<Rightarrow> nat \<Rightarrow> fs \<Rightarrow> bool" where
  "held_file E i fd f s \<longleftrightarrow> rely E (current s) \<and> files_ok s \<and> seated i s \<and> fd < NR_OPEN \<and> f < NR_FILE \<and>
     filp (cur s) fd = Some f \<and> holders f s = {(i, fd)}"

lemma held_file_step:
  assumes "held_file E i fd f s" "\<And>c s0. steady E c s0 s \<Longrightarrow> retains (steady E c s0) m"
  shows "retains (held_file E i fd f) m"
proof -
  have h: "rely E (current s)" "files_ok s" "seated i s" "fd < NR_OPEN" "f < NR_FILE" "filp (cur s) fd = Some f"
    "holders f s = {(i, fd)}" using assms(1) by (simp_all add: held_file_def)
  have al: "alone (current s) f s" using h(3,7) by (simp add: alone_def seated_def)
  show ?thesis
  proof (rule retains_mono [OF assms(2) [OF steady_start [OF h(2,1)]]])
    fix t assume t: "steady E (current s) s t"
    show "held_file E i fd f t"
      using steadyD [OF t h(3) refl] h al by (simp add: held_file_def)
  qed
qed

lemma held_file_undo:
  assumes "held_file E i fd f s" shows "files_ok (set_f_count f 0 (set_filp fd None s))"
proof -
  have h: "files_ok s" "seated i s" "fd < NR_OPEN" "f < NR_FILE" "filp (cur s) fd = Some f" "holders f s = {(i, fd)}"
    using assms by (simp_all add: held_file_def)
  show ?thesis using detach_ok(1) [OF h(1-3,5)] same_files_ok [OF undo_same [OF h(1,4,6)]] by simp
qed

lemma held_file_same:
  "held_file E i fd f s \<Longrightarrow> same_files s t \<Longrightarrow> current t = current s \<Longrightarrow> held_file E i fd f t"
  using same_files_ok [of s t] same_files_holders [of s t f]
  by (simp add: held_file_def seated_def cur_def same_files_def)

lemma open_tty_held: "held_file E i fd f s \<Longrightarrow> retains (held_file E i fd f) (open_tty n s)"
  by (auto simp: open_tty_def Let_def upd_tty_def same_files_def intro!: held_file_same [of E i fd f s])

lemma held_file_files_ok: "held_file E i fd f s \<Longrightarrow> files_ok s"
  by (simp add: held_file_def)

lemma held_file_fill:
  assumes "held_file E i fd f s" "\<And>p. f_count (g p) = 1" shows "files_ok (upd_file f g s)"
proof -
  have "same_files s (upd_file f g s)"
    using assms files_ok_count [of s f "(i, fd)"] by (auto simp: same_files_def held_file_def)
  then show ?thesis using assms(1) same_files_ok by (auto simp: held_file_def)
qed

lemma attach_held:
  assumes "files_ok s" "seated i s" "rely E (current s)" "fd < NR_OPEN" "f < NR_FILE" "filp (cur s) fd = None"
    "f_count (file_table s f) = 0"
  shows "held_file E i fd f (attach fd f s)"
  using assms attach_ok(1) [OF assms(1,2,4,5,6)] attach_alone(1) [OF assms(1,2,4,5,6,7)]
  by (simp add: held_file_def) (simp add: attach_def cur_def)

lemma sys_open_ok:
  assumes ok: "files_ok s" "seated i s" "rely E (current s)"
  shows "retains files_ok (sys_open E name flag mode s)"
proof -
  have ok1: "files_ok (clear_cloexec fd s)" "seated i (clear_cloexec fd s)" "rely E (current (clear_cloexec fd s))" for fd
    using ok same_files_ok [OF same_files_cloexec] by (auto simp: seated_def clear_cloexec_def)
  have body: "retains files_ok (bindO (open_namei E name flag m (attach fd f (clear_cloexec fd s))) (\<lambda>r s.
      case r of Inl e \<Rightarrow> Ret e (set_f_count f 0 (set_filp fd None s))
      | Inr n \<Rightarrow> bindO (open_tty n s) (\<lambda>ok s.
          if \<not> ok then bindO (iput E (Some n) s) (\<lambda>_ s. Ret (- EPERM) (set_f_count f 0 (set_filp fd None s)))
          else bindO (if S_ISBLK (i_mode (inode_table s n)) then check_disk_change E (ucast (zone_of n 0 s)) s else Ret () s)
            (\<lambda>_ s. Ret (int fd) (upd_file f (\<lambda>p. \<lparr>f_mode = i_mode (inode_table s n), f_flags = ucast flag,
                             f_count = 1, f_inode = Some n, f_pos = 0\<rparr>) s)))))"
    if fd: "fd < NR_OPEN" "filp (cur (clear_cloexec fd s)) fd = None"
      and f: "f < NR_FILE" "f_count (file_table (clear_cloexec fd s) f) = 0" for fd f m
  proof -
    note start = attach_held [OF ok1 fd(1) f(1) fd(2) f(2)]
    note seq = retains_seq [of "held_file E i fd f", OF _ held_file_files_ok]
    show ?thesis
    proof (intro seq [OF held_file_step [OF start held.keep_open_namei]] retains_sum)
      fix n t assume t: "held_file E i fd f t"
      show "retains files_ok (bindO (open_tty n t) (\<lambda>ok s.
          if \<not> ok then bindO (iput E (Some n) s) (\<lambda>_ s. Ret (- EPERM) (set_f_count f 0 (set_filp fd None s)))
          else bindO (if S_ISBLK (i_mode (inode_table s n)) then check_disk_change E (ucast (zone_of n 0 s)) s else Ret () s)
            (\<lambda>_ s. Ret (int fd) (upd_file f (\<lambda>p. \<lparr>f_mode = i_mode (inode_table s n), f_flags = ucast flag,
                             f_count = 1, f_inode = Some n, f_pos = 0\<rparr>) s))))"
        by (intro seq [OF open_tty_held [OF t]] retains_if seq [OF held_file_step [OF _ held.keep_iput]] seq)
          (auto intro!: held_file_undo held_file_fill held_file_step held.keep_check_disk_change)
    qed (auto intro: held_file_undo)
  qed
  have cl: "filp (cur (clear_cloexec fd s)) = filp (cur s)" for fd by (simp add: clear_cloexec_def cur_def)
  show ?thesis
    unfolding sys_open_def Let_def attach_def [symmetric]
    by (auto simp: ok(1) ok1(1) cl split: option.splits intro!: body elim: find_upt_Some(2,3))
qed

section \<open>Pipes\<close>

lemma take2_filter:
  assumes "take 2 (filter P [0..<n]) = [a, b]"
  shows "a < n" "b < n" "a \<noteq> b" "P a" "P b"
proof -
  have "distinct (take 2 (filter P [0..<n]))" by simp
  moreover have "set (take 2 (filter P [0..<n])) \<subseteq> {i. i < n \<and> P i}"
    using set_take_subset [of 2 "filter P [0..<n]"] by auto
  ultimately show "a < n" "b < n" "a \<noteq> b" "P a" "P b" unfolding assms by auto
qed

text \<open>Both ends of the new pipe.\<close>

definition held_pipe :: "kenv \<Rightarrow> nat \<Rightarrow> nat \<Rightarrow> nat \<Rightarrow> nat \<Rightarrow> nat \<Rightarrow> fs \<Rightarrow> bool" where
  "held_pipe E i d0 f0 d1 f1 s \<longleftrightarrow> held_file E i d0 f0 s \<and> held_file E i d1 f1 s \<and> d0 \<noteq> d1 \<and> f0 \<noteq> f1"

lemma held_pipe_undo:
  assumes "held_pipe E i d0 f0 d1 f1 s"
  shows "files_ok (set_f_count f0 0 (set_f_count f1 0 (set_filp d0 None (set_filp d1 None s))))"
proof -
  have h: "held_file E i d0 f0 s" "held_file E i d1 f1 s" "d0 \<noteq> d1" "f0 \<noteq> f1" using assms by (simp_all add: held_pipe_def)
  let ?t = "detach d1 f1 s"
  have d: "files_ok s" "seated i s" "d1 < NR_OPEN" "filp (cur s) d1 = Some f1" "rely E (current s)"
    using h(2) by (simp_all add: held_file_def)
  have t: "held_file E i d0 f0 ?t"
    using h detach_ok [OF d(1-4)] by (simp add: held_file_def) (simp add: detach_def cur_def)
  have "same_files (set_f_count f0 0 (set_filp d0 None ?t))
     (set_f_count f0 0 (set_f_count f1 0 (set_filp d0 None (set_filp d1 None s))))"
    using h(3,4) files_ok_count [of s f1 "(i, d1)"] h(2)
    by (auto simp: same_files_def set_f_count_def detach_def held_file_def fun_upd_twist)
  then show ?thesis using held_file_undo [OF t] same_files_ok by blast
qed

lemma held_pipe_fill:
  assumes "held_pipe E i d0 f0 d1 f1 s" "\<And>p. f_count (g p) = f_count p" "\<And>p. f_count (h p) = f_count p"
  shows "files_ok (put_fs_long v a (put_fs_long w b (upd_file f1 g (upd_file f0 h s))))"
proof -
  have "same_files s (put_fs_long v a (put_fs_long w b (upd_file f1 g (upd_file f0 h s))))"
    using assms by (simp add: same_files_def put_fs_long_def put_fs_byte_def)
  then show ?thesis using assms(1) same_files_ok by (auto simp: held_pipe_def held_file_def)
qed

lemma pipe_start:
  assumes ok: "files_ok s" "seated i s" "rely E (current s)"
    and f: "f0 < NR_FILE" "f1 < NR_FILE" "f0 \<noteq> f1" "f_count (file_table s f0) = 0" "f_count (file_table s f1) = 0"
    and d: "d0 < NR_OPEN" "d1 < NR_OPEN" "d0 \<noteq> d1" "filp (cur s) d0 = None" "filp (cur s) d1 = None"
  shows "held_pipe E i d0 f0 d1 f1 (set_filp d1 (Some f1) (set_filp d0 (Some f0) (set_f_count f1 1 (set_f_count f0 1 s))))"
proof -
  let ?t = "attach d0 f0 s"
  let ?u = "attach d1 f1 ?t"
  note t = attach_held [OF ok d(1) f(1) d(4) f(4)]
  have ok': "files_ok ?t" "seated i ?t" "rely E (current ?t)" using t by (simp_all add: held_file_def)
  have fd: "filp (cur ?t) d1 = None" using d by (simp add: attach_def cur_def)
  have f': "f_count (file_table ?t f1) = 0" using f(3,5) by (simp add: attach_def)
  note u = attach_held [OF ok' d(2) f(2) fd f']
  have "held_file E i d0 f0 ?u"
    using t u f(3) d(3) attach_ok(2) [OF ok'(1,2) d(2) f(2) fd, of f0] by (simp add: held_file_def) (simp add: attach_def cur_def)
  moreover have "same_files ?u (set_filp d1 (Some f1) (set_filp d0 (Some f0) (set_f_count f1 1 (set_f_count f0 1 s))))"
    using f by (auto simp: same_files_def attach_def set_f_count_def)
  ultimately show ?thesis using u f(3) d(3)
    by (auto simp: held_pipe_def attach_def set_f_count_def intro: held_file_same)
qed

lemma held_pipe_step:
  assumes "held_pipe E i d0 f0 d1 f1 s" "\<And>c s0. steady E c s0 s \<Longrightarrow> retains (steady E c s0) m"
  shows "retains (held_pipe E i d0 f0 d1 f1) m"
  using assms retains_conj [OF held_file_step [of E i d0 f0 s m] held_file_step [of E i d1 f1 s m]]
  by (auto simp: held_pipe_def elim!: retains_mono)

lemma pipe_give_up:
  assumes "files_ok s" "f_count (file_table s f0) = 0" "f_count (file_table s f1) = 0"
  shows "files_ok (set_f_count f0 0 (set_f_count f1 0 (set_f_count f1 1 (set_f_count f0 1 s))))"
    "filp (cur s) d = None \<Longrightarrow>
     files_ok (set_f_count f0 0 (set_f_count f1 0 (set_filp d None (set_f_count f1 1 (set_f_count f0 1 s)))))"
    "files_ok (set_f_count f0 0 s)"
  using assms fun_upd_idem [of "filp (tstruct s (current s))" d None]
  by (auto simp: same_files_def set_f_count_def cur_def
      intro!: same_files_ok [THEN iffD2, of s] split: if_splits)

lemma take2_one: "take 2 (filter P [0..<n]) = [a] \<Longrightarrow> a < n \<and> P a"
  using set_take_subset [of 2 "filter P [0..<n]"] by auto

lemma take2_cases:
  obtains (none) "take 2 xs = []" | (one) a where "take 2 xs = [a]" | (two) a b where "take 2 xs = [a, b]"
  by (cases xs; cases "tl xs") auto

lemma sys_pipe_ok:
  assumes ok: "files_ok s" "seated i s" "rely E (current s)"
  shows "retains files_ok (sys_pipe E fildes s)"
proof -
  have cur1: "filp (cur (set_f_count f1 1 (set_f_count f0 1 s))) = filp (cur s)" for f0 f1
    by (simp add: set_f_count_def cur_def)
  have main: "retains files_ok
     (bindO (get_pipe_inode E (set_filp d1 (Some f1) (set_filp d0 (Some f0) (set_f_count f1 1 (set_f_count f0 1 s))))) (\<lambda>r s.
       case r of
         None \<Rightarrow> Ret (- 1) (set_f_count f0 0 (set_f_count f1 0 (set_filp d0 None (set_filp d1 None s))))
       | Some n \<Rightarrow> Ret 0 (put_fs_long (of_nat d1) (fildes + 4) (put_fs_long (of_nat d0) fildes
           (upd_file f1 (\<lambda>p. p\<lparr>f_inode := Some n, f_pos := 0, f_mode := 2\<rparr>)
             (upd_file f0 (\<lambda>p. p\<lparr>f_inode := Some n, f_pos := 0, f_mode := 1\<rparr>) s))))))"
    if "take 2 (filter (\<lambda>i. f_count (file_table s i) = 0) [0..<NR_FILE]) = [f0, f1]"
      "take 2 (filter (\<lambda>fd. filp (cur s) fd = None) [0..<NR_OPEN]) = [d0, d1]" for f0 f1 d0 d1
  proof (rule retains_seq [OF held_pipe_step [OF _ held.keep_get_pipe_inode]])
    show "held_pipe E i d0 f0 d1 f1 (set_filp d1 (Some f1) (set_filp d0 (Some f0) (set_f_count f1 1 (set_f_count f0 1 s))))"
      by (rule pipe_start [OF ok]) (use take2_filter [OF that(1)] take2_filter [OF that(2)] in simp_all)
  next
    fix t assume "held_pipe E i d0 f0 d1 f1 t"
    then show "files_ok t" by (simp add: held_pipe_def held_file_def)
  next
    fix r t assume t: "held_pipe E i d0 f0 d1 f1 t"
    show "retains files_ok (case r of
         None \<Rightarrow> Ret (- 1) (set_f_count f0 0 (set_f_count f1 0 (set_filp d0 None (set_filp d1 None t))))
       | Some n \<Rightarrow> Ret 0 (put_fs_long (of_nat d1) (fildes + 4) (put_fs_long (of_nat d0) fildes
           (upd_file f1 (\<lambda>p. p\<lparr>f_inode := Some n, f_pos := 0, f_mode := 2\<rparr>)
             (upd_file f0 (\<lambda>p. p\<lparr>f_inode := Some n, f_pos := 0, f_mode := 1\<rparr>) t)))))"
      by (cases r) (simp_all add: held_pipe_undo [OF t] held_pipe_fill [OF t])
  qed
  let ?files = "filter (\<lambda>i. f_count (file_table s i) = 0) [0..<NR_FILE]"
  let ?fds = "filter (\<lambda>fd. filp (cur s) fd = None) [0..<NR_OPEN]"
  show ?thesis
  proof (cases rule: take2_cases [of ?files])
    case none
    then show ?thesis using ok(1) by (simp add: sys_pipe_def)
  next
    case (one f0)
    then show ?thesis using pipe_give_up(3) [OF ok(1), of f0 f0] take2_one [OF one] by (simp add: sys_pipe_def)
  next
    case (two f0 f1)
    note give_up = pipe_give_up [OF ok(1) take2_filter(4,5) [OF two]]
    show ?thesis
    proof (cases rule: take2_cases [of ?fds])
      case none
      then show ?thesis using two give_up(1) by (simp add: sys_pipe_def Let_def cur1)
    next
      case (one d0)
      then show ?thesis using two give_up(2) [of d0] take2_one [OF one] by (simp add: sys_pipe_def Let_def cur1)
    next
      case fds: (two d0 d1)
      from main [OF two fds] show ?thesis unfolding sys_pipe_def Let_def cur1 two fds by simp
    qed
  qed
qed

end
