(* ===== verification/Fork_Props.thy ===== *)
theory Fork_Props
  imports Descriptors Process Syscalls_Props
begin

text \<open>
  What a new process shares with its parent, and what a dying one gives back: the
  counts of open files under \<open>copy_process\<close> and \<open>do_exit\<close>.
\<close>

section \<open>Memory management leaves the rest of the kernel alone\<close>

text \<open>\<open>mm_only s t\<close>: at most the page tables and the page counts differ.\<close>

abbreviation (input) mm_only :: "fs \<Rightarrow> fs \<Rightarrow> bool" where
  "mm_only s t \<equiv> mm.more t = mm.more s"

lemma fs_more:
  assumes "mm_only s t"
  shows "file_table t = file_table s" "last_pid t = last_pid s" "inode_table t = inode_table s"
    "current t = current s" "tstruct t = tstruct s" "umem t = umem s" "task t = task s"
    "fpu t = fpu s" "last_task_used_math t = last_task_used_math s"
  using assms by (cases s; cases t; simp)+

lemma free_page_more: "retains (\<lambda>t. mm.more t = mm.more s) (free_page a s)"
  by (simp add: free_page_def Let_def set_map_def)

lemma free_ptes_more: "mm.more s = m \<Longrightarrow> retains (\<lambda>t. mm.more t = m) (free_ptes n a s)"
proof (induction n arbitrary: a s)
  case (Suc n)
  show ?case unfolding free_ptes.simps
    by (rule retains_bindO [where P = "\<lambda>t. mm.more t = m"])
      (use free_page_more [of s] Suc in \<open>auto simp: poke_more\<close>)
qed simp

lemma free_dirs_more: "mm.more s = m \<Longrightarrow> retains (\<lambda>t. mm.more t = m) (free_dirs n a s)"
proof (induction n arbitrary: a s)
  case (Suc n)
  have fp: "retains (\<lambda>t. mm.more t = m) (free_page f t)" if "mm.more t = m" for t :: "'a mm_scheme" and f
    using free_page_more [of t] that by simp
  show ?case unfolding free_dirs.simps
    by (intro retains_if retains_bind [where P = "\<lambda>t. mm.more t = m"] free_ptes_more fp Suc.IH)
      (use Suc.prems in \<open>simp_all add: poke_more\<close>)
qed simp

lemma free_page_tables_more: "retains (\<lambda>t. mm.more t = mm.more s) (free_page_tables b sz s)"
  unfolding free_page_tables_def
  by (intro retains_if retains_bind [where P = "\<lambda>t. mm.more t = mm.more s"] free_dirs_more) simp_all

lemma copy_ptes_more: "mm.more s = m \<Longrightarrow> retains (\<lambda>t. mm.more t = m) (copy_ptes n a b s)"
  by (induction n arbitrary: a b s) (auto simp: Let_def set_map_def poke_more)

lemma copy_dirs_more: "mm.more s = m \<Longrightarrow> retains (\<lambda>t. mm.more t = m) (copy_dirs n b fd td s)"
proof (induction n arbitrary: fd td s)
  case (Suc n)
  have "mm.more (snd (get_free_page s)) = m" using Suc.prems get_free_page_more [of s] by (simp only: )
  then obtain pt s1 where s1: "get_free_page s = (pt, s1)" "mm.more s1 = m" by (cases "get_free_page s") auto
  show ?case unfolding copy_dirs.simps Let_def s1(1) prod.case
    by (intro retains_if retains_bind [where P = "\<lambda>t. mm.more t = m"] copy_ptes_more Suc.IH)
      (use Suc.prems s1(2) in \<open>simp_all add: poke_more\<close>)
qed simp

lemma copy_page_tables_more: "retains (\<lambda>t. mm.more t = mm.more s) (copy_page_tables a b sz s)"
  unfolding copy_page_tables_def by (intro retains_if copy_dirs_more) simp_all

section \<open>Fork\<close>

definition place :: "nat \<Rightarrow> task_struct \<Rightarrow> task_struct" where
  "place nr t = t\<lparr>start_code := of_nat nr * 0x4000000,
     ldt := (ldt t)(1 := set_base (ldt t 1) (of_nat nr * 0x4000000), 2 := set_base (ldt t 2) (of_nat nr * 0x4000000))\<rparr>"

lemma copy_mem_more: "retains (mm_only (upd_task p (place nr) s)) (copy_mem nr p s)"
proof -
  let ?s = "upd_task p (place nr) s"
  have f: "retains (mm_only ?s) (free_page_tables b sz t)" if "mm_only ?s t" for t b sz
    using free_page_tables_more [of t b sz] that by simp
  show ?thesis
    unfolding copy_mem_def Let_def place_def [symmetric]
    by (intro retains_if retains_bind [where P = "mm_only ?s"] copy_page_tables_more f) simp_all
qed

text \<open>The pages of the task structures are in use (the first task has none of the paged memory).\<close>

definition task_pages_used :: "fs \<Rightarrow> bool" where
  "task_pages_used s \<longleftrightarrow>
     (\<forall>j<NR_TASKS. task s j \<noteq> 0 \<longrightarrow> task s j < LOW_MEM \<or> mem_map s (MAP_NR (task s j)) \<noteq> 0)"

lemma get_free_page_unused:
  assumes "get_free_page s = (p, s1)" "p \<noteq> 0" "task_pages_used s" "j < NR_TASKS"
  shows "task s j \<noteq> p"
proof (cases rule: get_free_page_cases [of s])
  case full
  then show ?thesis using assms(1,2) by simp
next
  case (page n)
  then have p: "p = pg n" using assms(1) by simp
  show ?thesis
  proof
    assume e: "task s j = p"
    then have "task s j < LOW_MEM \<or> mem_map s (MAP_NR (task s j)) \<noteq> 0"
      using assms(2-4) unfolding task_pages_used_def by blast
    then show False using page(1,2) pg_props [OF page(1)] unfolding e p by (simp add: not_less [symmetric])
  qed
qed

text \<open>Counting the files of the child: every descriptor counts.\<close>

definition named_by :: "(nat \<Rightarrow> nat option) \<Rightarrow> nat \<Rightarrow> nat \<Rightarrow> nat set" where
  "named_by F n f = {fd. fd < n \<and> F fd = Some f}"

lemma named_by_simps [simp]:
  "named_by F 0 f = {}" "named_by F (Suc n) f = (if F n = Some f then insert n (named_by F n f) else named_by F n f)"
  "finite (named_by F n f)" "n \<notin> named_by F n f"
  by (auto simp: named_by_def less_Suc_eq)

lemma count_files:
  "fold (\<lambda>fd s. count_file (filp (tstruct s p) fd) s) [0..<n] s =
   s\<lparr>file_table := (\<lambda>f. (file_table s f)\<lparr>f_count := f_count (file_table s f) +
       of_nat (card (named_by (filp (tstruct s p)) n f))\<rparr>)\<rparr>"
proof (induction n)
  case 0
  then show ?case by simp
next
  case (Suc n)
  show ?case
  proof (cases "filp (tstruct s p) n")
    case None
    then show ?thesis by (simp add: Suc) (simp add: count_file_def)
  next
    case (Some g)
    then show ?thesis
      by (simp add: Suc) (auto simp: count_file_def upd_file_def fun_eq_iff intro!: fs.fold_congs)
  qed
qed

text \<open>How often a task uses an inode as its current directory, its root and its executable.\<close>

definition places :: "task_struct \<Rightarrow> nat \<Rightarrow> u16" where
  "places c i = of_bool (pwd c = Some i) + of_bool (root c = Some i) + of_bool (executable c = Some i)"

text \<open>
  The child in slot \<open>nr\<close>: its task structure, its registers, its memory and its counts.  The parent keeps its own
  structure, but \<open>fnsave\<close> takes the coprocessor from it.
\<close>

definition forked :: "nat \<Rightarrow> saved_regs \<Rightarrow> fs \<Rightarrow> fs \<Rightarrow> bool" where
  "forked nr regs s t \<longleftrightarrow>
     (let p = task t nr; c = tstruct t p in
      p \<noteq> 0 \<and> task t = (task s)(nr := p) \<and> (\<forall>j<NR_TASKS. task s j \<noteq> p) \<and> current t = current s \<and>
      (\<forall>q. q \<noteq> p \<longrightarrow> tstruct t q = tstruct s q) \<and> umem t = (umem s)(p := umem s (current s)) \<and>
      filp c = filp (cur s) \<and> pid c = last_pid s \<and> father c = pid (cur s) \<and> state c = TASK_RUNNING \<and>
      signal c = 0 \<and> start_code c = of_nat nr * 0x4000000 \<and> get_base (ldt c 1) = of_nat nr * 0x4000000 \<and>
      get_base (ldt c 2) = of_nat nr * 0x4000000 \<and> eax (tss c) = 0 \<and> eip (tss c) = r_eip regs \<and> esp (tss c) = r_esp regs \<and>
      (last_task_used_math s = current s \<longrightarrow> i387 (tss c) = fpu s) \<and>
      fpu t = (if last_task_used_math s = current s then [] else fpu s) \<and>
      (\<forall>i. inode_table t i = (inode_table s i)\<lparr>i_count := i_count (inode_table s i) + places (cur s) i\<rparr>) \<and>
      (\<forall>f. file_table t f = (file_table s f)\<lparr>f_count := f_count (file_table s f) +
         of_nat (card (named_by (filp (cur s)) NR_OPEN f))\<rparr>))"

text \<open>
  A fork that fails.  The page of the child is there when the coprocessor is saved, so only a fork that
  found no page leaves it alone.
\<close>

definition not_forked :: "fs \<Rightarrow> fs \<Rightarrow> bool" where
  "not_forked s t \<longleftrightarrow> task t = task s \<and> current t = current s \<and> file_table t = file_table s \<and>
     inode_table t = inode_table s \<and> umem t = umem s \<and>
     (\<forall>j<NR_TASKS. tstruct t (task s j) = tstruct s (task s j)) \<and>
     fpu t = (if last_task_used_math s = current s \<and> fst (get_free_page s) \<noteq> 0 then [] else fpu s)"

lemma count_inode_simps [simp]:
  "task (count_inode ip s) = task s" "tstruct (count_inode ip s) = tstruct s" "current (count_inode ip s) = current s"
  "file_table (count_inode ip s) = file_table s" "umem (count_inode ip s) = umem s"
  "last_pid (count_inode ip s) = last_pid s" "fpu (count_inode ip s) = fpu s"
  by (simp_all add: count_inode_def upd_inode_def split: option.split)

lemma count_inode_table:
  "inode_table (count_inode ip s) i = (inode_table s i)\<lparr>i_count := i_count (inode_table s i) + of_bool (ip = Some i)\<rparr>"
  by (auto simp: count_inode_def upd_inode_def split: option.split)

text \<open>The structure of the child just before its memory is copied, and after.\<close>

definition started :: "nat \<Rightarrow> u32 \<Rightarrow> saved_regs \<Rightarrow> fs \<Rightarrow> fs" where
  "started nr p regs s =
     (let s1 = s\<lparr>task := (task s)(nr := p)\<rparr> in save_fpu p (upd_task p (\<lambda>_. child_task nr p regs s1) s1))"

definition is_child :: "nat \<Rightarrow> saved_regs \<Rightarrow> fs \<Rightarrow> task_struct \<Rightarrow> bool" where
  "is_child nr regs s c \<longleftrightarrow>
     filp c = filp (cur s) \<and> pid c = last_pid s \<and> father c = pid (cur s) \<and> signal c = 0 \<and>
     start_code c = of_nat nr * 0x4000000 \<and> get_base (ldt c 1) = of_nat nr * 0x4000000 \<and>
     get_base (ldt c 2) = of_nat nr * 0x4000000 \<and> eax (tss c) = 0 \<and> eip (tss c) = r_eip regs \<and> esp (tss c) = r_esp regs \<and>
     (last_task_used_math s = current s \<longrightarrow> i387 (tss c) = fpu s)"

lemma started_facts:
  assumes "p \<noteq> current s"
  shows "task (started nr p regs s) = (task s)(nr := p)" "current (started nr p regs s) = current s"
    "file_table (started nr p regs s) = file_table s" "last_pid (started nr p regs s) = last_pid s"
    "q \<noteq> p \<Longrightarrow> tstruct (started nr p regs s) q = tstruct s q" "umem (started nr p regs s) = umem s"
    "fpu (started nr p regs s) = (if last_task_used_math s = current s then [] else fpu s)"
    "inode_table (started nr p regs s) = inode_table s"
    "is_child nr regs s (place nr (tstruct (started nr p regs s) p))"
  using assms
  by (auto simp: started_def Let_def save_fpu_def is_child_def place_def child_task_def child_tss_def cur_def upd_task_def get_set_base)

lemma copy_process_steps:
  "copy_process nr regs s = (case get_free_page s of (p, s) \<Rightarrow>
     if p = 0 then Ret (- EAGAIN) s
     else bindO (copy_mem nr p (started nr p regs s)) (\<lambda>r s.
       if r \<noteq> 0 then bindO (free_page p (s\<lparr>task := (task s)(nr := 0)\<rparr>)) (\<lambda>_ s. Ret (- EAGAIN) s)
       else let s5 = fold (\<lambda>fd s. count_file (filp (tstruct s p) fd) s) [0..<NR_OPEN] (s\<lparr>umem := (umem s)(p := umem s (current s))\<rparr>);
                s6 = count_inode (executable (cur s5)) (count_inode (root (cur s5)) (count_inode (pwd (cur s5)) s5));
                s7 = set_ldt_desc (2 * nr + FIRST_LDT_ENTRY) (p + LDT_OFFSET)
                       (set_tss_desc (2 * nr + FIRST_TSS_ENTRY) (p + TSS_OFFSET) s6)
            in Ret (last_pid s7) (upd_task p (\<lambda>t. t\<lparr>state := TASK_RUNNING\<rparr>) s7)))"
  unfolding copy_process_def started_def Let_def by (rule refl)

lemma fork_finish:
  assumes "task u = (task s)(nr := p)" "current u = current s" "file_table u = file_table s" "last_pid u = last_pid s"
    "\<And>q. q \<noteq> p \<Longrightarrow> tstruct u q = tstruct s q" "umem u = umem s"
    "fpu u = (if last_task_used_math s = current s then [] else fpu s)" "inode_table u = inode_table s"
    "is_child nr regs s (tstruct u p)" "p \<noteq> 0" "\<And>j. j < NR_TASKS \<Longrightarrow> task s j \<noteq> p"
    and s5: "s5 = fold (\<lambda>fd s. count_file (filp (tstruct s p) fd) s) [0..<NR_OPEN] (u\<lparr>umem := (umem u)(p := umem u (current u))\<rparr>)"
    and t: "t = upd_task p (\<lambda>t. t\<lparr>state := TASK_RUNNING\<rparr>) (set_ldt_desc a b (set_tss_desc d e
      (count_inode (executable (cur s5)) (count_inode (root (cur s5)) (count_inode (pwd (cur s5)) s5)))))"
    and pc: "p \<noteq> current s"
  shows "forked nr regs s t"
proof -
  have t': "task t = (task s)(nr := p)" "current t = current s" "fpu t = fpu u" "umem t = (umem s)(p := umem s (current s))"
    "tstruct t = (tstruct u)(p := (tstruct u p)\<lparr>state := TASK_RUNNING\<rparr>)"
    "file_table t f = (file_table s f)\<lparr>f_count := f_count (file_table s f) + of_nat (card (named_by (filp (tstruct u p)) NR_OPEN f))\<rparr>" for f
    unfolding t s5 count_files using assms(1-8)
    by (simp_all add: set_ldt_desc_def set_tss_desc_def upd_task_def)
  have "cur s5 = cur s" unfolding s5 count_files using assms(2,5) pc by (simp add: cur_def)
  moreover have "inode_table s5 = inode_table s" unfolding s5 count_files using assms(8) by simp
  ultimately have "inode_table t i = (inode_table s i)\<lparr>i_count := i_count (inode_table s i) + places (cur s) i\<rparr>" for i
    unfolding t by (simp add: set_ldt_desc_def set_tss_desc_def upd_task_def count_inode_table places_def ac_simps)
  then show ?thesis
    unfolding forked_def Let_def using t' assms(5-11) by (auto simp: is_child_def)
qed

lemma copy_process_cases:
  assumes r: "copy_process nr regs s = Ret r t" and used: "task_pages_used s"
    and nr: "task s nr = 0" "nr < NR_TASKS" and seat: "seated i s"
  shows "r = - EAGAIN \<and> not_forked s t \<or> r = last_pid s \<and> forked nr regs s t"
proof -
  obtain p s1 where p: "get_free_page s = (p, s1)" by (cases "get_free_page s") auto
  have m1: "mm_only s s1" using get_free_page_more [of s] p by simp
  note e1 = fs_more [OF m1]
  note r' = r [unfolded copy_process_steps p prod.case]
  show ?thesis
  proof (cases "p = 0")
    case True
    then show ?thesis using r' e1 p by (simp add: not_forked_def)
  next
    case False
    note fresh = get_free_page_unused [OF p False used]
    have pc: "p \<noteq> current s" using fresh seat by (auto simp: seated_def)
    have pc1: "p \<noteq> current s1" using pc e1 by simp
    note st = started_facts [OF pc1, where nr = nr and regs = regs, unfolded e1]
    obtain r2 u where u: "copy_mem nr p (started nr p regs s1) = Ret r2 u"
      using r' False by (auto simp: bindO_eq_Ret)
    have "mm_only (upd_task p (place nr) (started nr p regs s1)) u"
      using copy_mem_more [of p nr "started nr p regs s1"] u by simp
    note e2 = fs_more [OF this]
    have cs: "is_child nr regs s1 c = is_child nr regs s c" for c by (simp add: is_child_def cur_def e1)
    have uf: "task u = (task s)(nr := p)" "current u = current s" "file_table u = file_table s" "last_pid u = last_pid s"
      "q \<noteq> p \<Longrightarrow> tstruct u q = tstruct s q" "umem u = umem s"
      "fpu u = (if last_task_used_math s = current s then [] else fpu s)" "inode_table u = inode_table s"
      "is_child nr regs s (tstruct u p)" for q
      using st unfolding e2 cs by (simp_all add: upd_task_def)
    note r'' = r' [unfolded u bindO.simps if_not_P [OF False]]
    show ?thesis
    proof (cases "r2 = 0")
      case True
      then show ?thesis using r'' fork_finish [OF uf False fresh refl refl pc] uf(4)
        by (auto simp: Let_def set_ldt_desc_def set_tss_desc_def count_files)
    next
      case bad: False
      obtain v where v: "free_page p (u\<lparr>task := (task u)(nr := 0)\<rparr>) = Ret () v" "t = v" "r = - EAGAIN"
        using r'' bad by (auto simp: bindO_eq_Ret)
      have "mm_only (u\<lparr>task := (task u)(nr := 0)\<rparr>) v" using free_page_more [of "u\<lparr>task := (task u)(nr := 0)\<rparr>" p] v(1) by simp
      note e3 = fs_more [OF this]
      have "task t = task s" using e3 uf(1) nr(1) v(2) by (auto simp: fun_eq_iff)
      then have "not_forked s t" using e3 uf fresh v(2) p False by (simp add: not_forked_def)
      then show ?thesis using v(3) by simp
    qed
  qed
qed

lemma not_forked_ok: "files_ok s \<Longrightarrow> not_forked s t \<Longrightarrow> files_ok t"
proof -
  assume a: "files_ok s" "not_forked s t"
  have "holders f t = holders f s" for f using a(2) by (auto simp: holders_def not_forked_def)
  then show ?thesis using a unfolding files_ok_def by (simp add: not_forked_def)
qed

lemma forked_ok:
  assumes ok: "files_ok s" and f: "forked nr regs s t" and nr: "task s nr = 0" "nr < NR_TASKS" and seat: "seated i s"
  shows "files_ok t"
proof -
  define p where "p = task t nr"
  have t: "p \<noteq> 0" "task t = (task s)(nr := p)" "\<And>j. j < NR_TASKS \<Longrightarrow> task s j \<noteq> p"
    "\<And>q. q \<noteq> p \<Longrightarrow> tstruct t q = tstruct s q" "filp (tstruct t p) = filp (cur s)"
    using f unfolding forked_def Let_def p_def by blast+
  have t6: "f_count (file_table t f) = f_count (file_table s f) + of_nat (card (named_by (filp (cur s)) NR_OPEN f))" for f
    using f unfolding forked_def Let_def by simp
  have mem: "(j, fd) \<in> holders f t \<longleftrightarrow> (j, fd) \<in> holders f s \<or> j = nr \<and> fd \<in> named_by (filp (cur s)) NR_OPEN f" for j fd f
    using t(1-5) nr by (cases "j = nr") (auto simp: holders_def named_by_def)
  then have h: "holders f t = holders f s \<union> Pair nr ` named_by (filp (cur s)) NR_OPEN f" for f by auto
  have dis: "holders f s \<inter> Pair nr ` named_by (filp (cur s)) NR_OPEN f = {}" for f
    using nr(1) by (auto simp: holders_def)
  have c: "card (holders f t) = card (holders f s) + card (named_by (filp (cur s)) NR_OPEN f)" for f
    unfolding h by (subst card_Un_disjoint [OF finite_holders(1) _ dis]) (simp_all add: card_image inj_on_def)
  show ?thesis unfolding files_ok_def
  proof (intro conjI allI impI)
    show "inj_on (task t) {i. i < NR_TASKS \<and> task t i \<noteq> 0}"
      using ok t(1-3) nr unfolding files_ok_def inj_on_def by auto
    show "g < NR_FILE" if "j < NR_TASKS" "fd < NR_OPEN" "task t j \<noteq> 0" "filp (tstruct t (task t j)) fd = Some g" for j fd g
    proof (cases "j = nr")
      case True
      then show ?thesis using that t(2,5) filp_less [OF ok seat that(2)] by simp
    next
      case False
      then have j: "task s j \<noteq> 0" "filp (tstruct s (task s j)) fd = Some g" using that t(2-4) by simp_all
      have "\<And>i fd f. i < NR_TASKS \<Longrightarrow> fd < NR_OPEN \<Longrightarrow> task s i \<noteq> 0 \<Longrightarrow> filp (tstruct s (task s i)) fd = Some f \<Longrightarrow> f < NR_FILE"
        using ok unfolding files_ok_def by blast
      from this [OF that(1,2) j] show ?thesis .
    qed
    show "unat (f_count (file_table t g)) = card (holders g t)" if "g < NR_FILE" for g
      using that ok finite_holders(2) [of g t] unat_word_ariths(1) unfolding c t6 files_ok_def
      by (simp add: unat_word_ariths unat_of_nat)
  qed
qed

end
