(* ===== verification/Exit_Props.thy ===== *)
theory Exit_Props
  imports Fork_Props Blk_Props
begin

text \<open>
  The counts of open files through the whole life of a process: \<open>do_exit\<close>, and the
  properties of all the calls that make and drop descriptors.
\<close>

section \<open>Exit\<close>

lemma running_same:
  assumes "running i c s" "same_files s t" "current t = current s"
  shows "running i c t" "filp (cur t) = filp (cur s)"
  using assms same_files_ok [OF assms(2)] by (auto simp: running_def seated_def cur_def same_files_def)

lemma running_mm:
  assumes "running i c s" "mm_only s t"
  shows "running i c t"
proof (rule running_same(1) [OF assms(1)])
  show "same_files s t" "current t = current s" using fs_more [OF assms(2)] by (simp_all add: same_files_def)
qed

lemma running_free_tables: "running i c s \<Longrightarrow> retains (running i c) (free_page_tables b sz s)"
  by (rule retains_mono [OF free_page_tables_more]) (rule running_mm)

lemma same_files_orphan: "same_files s (orphan j s) \<and> current (orphan j s) = current s"
  by (simp add: orphan_def send_sig_def same_files_def Let_def)

lemma running_orphans: "running i c s \<Longrightarrow> running i c (fold orphan js s)"
proof (induction js arbitrary: s)
  case (Cons j js)
  have "running i c (orphan j s)" using running_same(1) [OF Cons.prems] same_files_orphan by blast
  then show ?case using Cons.IH by simp
qed simp

text \<open>The descriptors below \<open>n\<close> are closed.\<close>

definition closed :: "nat \<Rightarrow> u32 \<Rightarrow> nat \<Rightarrow> fs \<Rightarrow> bool" where
  "closed i c n s \<longleftrightarrow> running i c s \<and> (\<forall>fd<n. filp (cur s) fd = None)"

lemma close_step:
  assumes "closed i c n s" "rely E c" "n < NR_OPEN"
  shows "retains (closed i c (Suc n))
    (if filp (cur s) n \<noteq> None then bindO (sys_close E n s) (\<lambda>_ s. Ret () s) else Ret () s)"
proof (cases "filp (cur s) n = None")
  case True
  then show ?thesis using assms(1) by (simp add: closed_def less_Suc_eq)
next
  case False
  have r: "running i c s" using assms(1) by (simp add: closed_def)
  have "retains (closed i c (Suc n)) (sys_close E n s)"
    by (rule retains_mono [OF sys_close_runs [OF r assms(2), of n]])
      (use assms(1,3) in \<open>auto simp: closed_def less_Suc_eq\<close>)
  then show ?thesis using False by (simp add: retains_bindO)
qed

lemma closed_mono: "closed i c n s \<Longrightarrow> m \<le> n \<Longrightarrow> closed i c m s"
  by (auto simp: closed_def)

lemma closed_files_ok: "closed i c n s \<Longrightarrow> files_ok s"
  by (simp add: closed_def running_def)

lemma close_all:
  assumes "rely E c" "m + k \<le> NR_OPEN"
  shows "closed i c m s \<Longrightarrow> leads (closed i c (m + k)) files_ok
     (eachO (\<lambda>fd s. if filp (cur s) fd \<noteq> None then bindO (sys_close E fd s) (\<lambda>_ s. Ret () s) else Ret () s) [m..<m + k] s)"
  using assms(2)
proof (induction k arbitrary: m s)
  case 0
  then show ?case by (simp add: leads_def)
next
  case (Suc k)
  have m: "[m..<m + Suc k] = m # [Suc m..<Suc m + k]" by (simp add: upt_conv_Cons)
  have st: "leads (closed i c (Suc m)) files_ok
     (if filp (cur s) m \<noteq> None then bindO (sys_close E m s) (\<lambda>_ s. Ret () s) else Ret () s)"
    by (rule leads_retains [OF close_step [OF Suc.prems(1) assms(1)] closed_files_ok]) (use Suc.prems(2) in auto)
  show ?case unfolding m eachO.simps
    by (rule leads_bind [OF st]) (use Suc.IH [of "Suc m"] Suc.prems(2) in simp)
qed

lemma closed_step:
  assumes "closed i c n s" "rely E c" "\<And>s0. steady E c s0 s \<Longrightarrow> retains (steady E c s0) m"
  shows "leads (closed i c n) files_ok m"
proof -
  have "running i c s" using assms(1) by (simp add: closed_def)
  from running_step [OF this assms(2,3)] have "retains (closed i c n) m"
    by (rule retains_mono) (use assms(1) in \<open>auto simp: closed_def\<close>)
  then show ?thesis by (rule leads_retains) (rule closed_files_ok)
qed

lemma closed_same: "closed i c n s \<Longrightarrow> same_files s t \<Longrightarrow> current t = current s \<Longrightarrow> closed i c n t"
  using running_same [of i c s t] by (auto simp: closed_def)

lemma iput_closed: "closed i c n s \<Longrightarrow> rely E c \<Longrightarrow> leads (closed i c n) files_ok (iput E ip s)"
  by (erule closed_step, assumption) (rule held.keep_iput)

lemma put_dirs_closed:
  assumes "closed i c n s" "rely E c"
  shows "leads (closed i c n) files_ok (put_dirs E s)"
proof -
  have same: "closed i c n t \<Longrightarrow> closed i c n (upd_cur (\<lambda>t. t\<lparr>pwd := None\<rparr>) t)"
    "closed i c n t \<Longrightarrow> closed i c n (upd_cur (\<lambda>t. t\<lparr>root := None\<rparr>) t)"
    "closed i c n t \<Longrightarrow> closed i c n (upd_cur (\<lambda>t. t\<lparr>executable := None\<rparr>) t)" for t
    by (auto simp: same_files_def elim!: closed_same)
  show ?thesis unfolding put_dirs_def Let_def
    by (intro leads_bind [where Q = "closed i c n"] iput_closed assms same; assumption?) (simp add: leads_def same)
qed

lemma same_files_kill: "same_files s (kill_session s) \<and> current (kill_session s) = current s"
proof -
  have "same_files s (fold (\<lambda>i s. if task s i \<noteq> 0 \<and> session (tstruct s (task s i)) = session (cur s)
                 then upd_task (task s i) (\<lambda>t. t\<lparr>signal := signal t OR sigbit SIGHUP\<rparr>) s else s) js s) \<and>
    current (fold (\<lambda>i s. if task s i \<noteq> 0 \<and> session (tstruct s (task s i)) = session (cur s)
                 then upd_task (task s i) (\<lambda>t. t\<lparr>signal := signal t OR sigbit SIGHUP\<rparr>) s else s) js s) = current s" for js
    by (induction js arbitrary: s) (auto simp: same_files_def)
  then show ?thesis by (simp add: kill_session_def)
qed

text \<open>The slot of a task without descriptors can be given up.\<close>

lemma release_closed:
  assumes "closed i c NR_OPEN s" "rely E c"
  shows "retains files_ok (release E c s)"
proof (cases "c = 0 \<or> List.find (\<lambda>i. task s i = c) [1..<NR_TASKS] = None")
  case True
  then show ?thesis using assms(1) by (auto simp: release_def closed_def running_def)
next
  case False
  then obtain j where j: "List.find (\<lambda>i. task s i = c) [1..<NR_TASKS] = Some j" and c: "c \<noteq> 0" by auto
  let ?s = "s\<lparr>task := (task s)(j := 0)\<rparr>"
  have ok: "files_ok s" "current s = c" "\<And>fd. fd < NR_OPEN \<Longrightarrow> filp (tstruct s c) fd = None"
    using assms(1) by (auto simp: closed_def running_def cur_def)
  have h: "holders f ?s = holders f s" for f
    using ok(3) find_upt_Some(3) [OF j] by (auto simp: holders_def split: if_splits)
  have "files_ok ?s" unfolding files_ok_def h
  proof (intro conjI)
    have "inj_on (task s) {i. i < NR_TASKS \<and> task s i \<noteq> 0}" using ok(1) by (simp add: files_ok_def)
    then show "inj_on (task ?s) {i. i < NR_TASKS \<and> task ?s i \<noteq> 0}" by (simp add: inj_on_def)
  qed (use ok(1) in \<open>simp_all add: files_ok_def\<close>)
  then have "files_ok t" "current t = c" if "mm_only ?s t" for t
    using fs_more [OF that] same_files_ok [of ?s t] ok(2) by (auto simp: same_files_def)
  then have "retains (steady E c t) (schedule (k_env E) t)" if "mm_only ?s t" for t
    using that assms(2) by (intro steady_schedule) (simp add: steady_def calm_refl)
  then have "retains files_ok (schedule (k_env E) t)" if "mm_only ?s t" for t
    using that steady_files_ok by blast
  moreover have "retains (mm_only ?s) (free_page c ?s)" by (rule free_page_more)
  ultimately have "retains files_ok (bindO (free_page c ?s) (\<lambda>_. schedule (k_env E)))"
    using \<open>\<And>t. mm_only ?s t \<Longrightarrow> files_ok t\<close> by (intro retains_seq [of "mm_only ?s"])
  then show ?thesis using c j by (simp add: release_def)
qed

lemma tell_father_ok:
  assumes "closed i c NR_OPEN s" "rely E c"
  shows "retains files_ok (tell_father E ppid s)"
proof -
  have "files_ok (upd_task p (\<lambda>t. t\<lparr>signal := v t\<rparr>) s)" for p v
    using closed_files_ok [OF assms(1)] same_files_ok [of s "upd_task p (\<lambda>t. t\<lparr>signal := v t\<rparr>) s"]
    by (simp add: same_files_def)
  moreover have "current s = c" using assms(1) by (simp add: closed_def running_def)
  ultimately show ?thesis using release_closed [OF assms] by (auto simp: tell_father_def split: option.split)
qed

text \<open>The end of \<open>do_exit\<close>, when all is closed.\<close>

lemma exit_tail:
  assumes "closed i c NR_OPEN s" "rely E c"
    and "s1 = (if last_task_used_math s = current s then s\<lparr>last_task_used_math := 0\<rparr> else s)"
    and "s2 = (if leader (cur s1) \<noteq> 0 then kill_session s1 else s1)"
    and "s3 = upd_cur (\<lambda>t. t\<lparr>state := TASK_ZOMBIE, exit_code := code\<rparr>) s2"
  shows "retains files_ok (bindO (tell_father E ppid s3) (\<lambda>_ s. Exits code s))"
proof -
  have "same_files s s1 \<and> current s1 = current s" by (simp add: assms(3) same_files_def)
  moreover have "same_files s1 s2 \<and> current s2 = current s1" using same_files_kill [of s1] by (simp add: assms(4))
  moreover have "same_files s2 s3 \<and> current s3 = current s2" by (simp add: assms(5) same_files_def)
  ultimately have "closed i c NR_OPEN s3" using assms(1) same_files_trans by (metis closed_same)
  from tell_father_ok [OF this assms(2)] show ?thesis by (rule retains_bindO) simp
qed

lemma do_exit_ok:
  assumes ok: "files_ok s" "seated i s" "rely E (current s)"
  shows "retains files_ok (do_exit E code s)"
proof -
  let ?c = "current s"
  have run: "running i ?c s" using ok(1,2) by (simp add: running_def)
  have tab: "leads (running i ?c) files_ok (free_page_tables b sz t)" if "running i ?c t" for t b sz
    by (rule leads_retains [OF running_free_tables [OF that]]) (simp add: running_def)
  have close: "leads (closed i ?c NR_OPEN) files_ok
      (eachO (\<lambda>fd s. if filp (cur s) fd \<noteq> None then bindO (sys_close E fd s) (\<lambda>_ s. Ret () s) else Ret () s)
              [0..<NR_OPEN] (fold orphan [0..<NR_TASKS] t))" if "running i ?c t" for t
    using close_all [OF ok(3), of 0 NR_OPEN] running_orphans [OF that] by (simp add: closed_def)
  have tt: "leads (closed i ?c NR_OPEN) files_ok
     (if leader (cur t) \<noteq> 0 \<and> tty (cur t) \<ge> 0
      then if tty (cur t) > 2 then Undefined ''tty_table''
           else Ret () (upd_tty (nat (tty (cur t))) (\<lambda>t. t\<lparr>t_pgrp := 0\<rparr>) t)
      else Ret () t)" if "closed i ?c NR_OPEN t" for t
    using that closed_same [OF that, of "upd_tty (nat (tty (cur t))) (\<lambda>t. t\<lparr>t_pgrp := 0\<rparr>) t"]
    by (simp add: leads_def same_files_def upd_tty_def)
  show ?thesis unfolding do_exit_def leads_same [symmetric]
    by (intro leads_bind [OF tab] leads_bind [OF close] leads_bind [OF put_dirs_closed [OF _ ok(3)]] leads_bind [OF tt] run; assumption?)
      (unfold Let_def leads_same, rule exit_tail [OF _ ok(3) refl refl refl])
qed

section \<open>Fork does not end in an exit\<close>

abbreviation (input) comes_back :: "('s, 'a) outcome \<Rightarrow> bool" where
  "comes_back \<equiv> leads (\<lambda>_. True) (\<lambda>_. False)"

lemma comes_back_simps [simp]: "comes_back (Ret a s)" "comes_back (Panic m)" "comes_back (Undefined m)"
  by (simp_all add: leads_def)

lemma free_page_back: "comes_back (free_page a s)"
  by (simp add: free_page_def Let_def)

lemma free_ptes_back: "comes_back (free_ptes n a s)"
  by (induction n arbitrary: a s) (auto intro!: leads_bind free_page_back)

lemma free_dirs_back: "comes_back (free_dirs n a s)"
  by (induction n arbitrary: a s) (auto intro!: leads_bind free_page_back free_ptes_back)

lemma free_page_tables_back: "comes_back (free_page_tables b sz s)"
  unfolding free_page_tables_def by (intro leads_if leads_bind [OF free_dirs_back]) simp_all

lemma copy_ptes_back: "comes_back (copy_ptes n a b s)"
  by (induction n arbitrary: a b s) (simp_all add: Let_def)

lemma copy_dirs_back: "comes_back (copy_dirs n b fd td s)"
  by (induction n arbitrary: fd td s) (auto simp: Let_def intro!: leads_bind copy_ptes_back split: prod.split)

lemma copy_page_tables_back: "comes_back (copy_page_tables a b sz s)"
  unfolding copy_page_tables_def by (intro leads_if copy_dirs_back) simp

lemma copy_mem_back: "comes_back (copy_mem nr p s)"
  unfolding copy_mem_def Let_def
  by (intro leads_if leads_bind [OF copy_page_tables_back] leads_bind [OF free_page_tables_back]) simp_all

lemma copy_process_back: "comes_back (copy_process nr regs s)"
  unfolding copy_process_def
  by (cases "get_free_page s")
    (auto simp: Let_def intro!: leads_bind [OF copy_mem_back] leads_bind [OF free_page_back])

lemma copy_process_ok:
  assumes "files_ok s" "seated i s" "task_pages_used s" "task s nr = 0" "nr < NR_TASKS"
  shows "retains files_ok (copy_process nr regs s)"
proof -
  have "files_ok t" if "copy_process nr regs s = Ret r t" for r t
    using copy_process_cases [OF that assms(3-5,2)] not_forked_ok [OF assms(1)] forked_ok [OF assms(1) _ assms(4,5,2)] by blast
  then show ?thesis using copy_process_back [of nr regs s] by (cases "copy_process nr regs s") (auto simp: leads_def)
qed

section \<open>A kernel with a RAM disk\<close>

definition files_kept :: "fs \<Rightarrow> fs \<Rightarrow> bool" where
  "files_kept s t \<longleftrightarrow> same_files s t \<and> current t = current s"

lemma files_kept_end_request: "files_kept s0 s \<Longrightarrow> retains (files_kept s0) (end_request m (\<lambda>_ s. Ret () s) u s)"
  by (auto simp: end_request_def Let_def files_kept_def same_files_def unlock_buffer_def wake_up_def split: option.split)

lemma files_kept_rd: "files_kept s0 s \<Longrightarrow> retains (files_kept s0) (rd_transfer r s)"
proof -
  assume "files_kept s0 s"
  moreover have "files_kept s0 (rd_write o' q n s)" "files_kept s0 (rd_read q o' n s)" for o' q n
    using calculation by (simp_all add: rd_write_def rd_read_def files_kept_def same_files_def)
  ultimately show ?thesis by (simp add: rd_transfer_def Let_def files_kept_end_request)
qed

lemma files_kept_rd_loop: "files_kept s0 s \<Longrightarrow> retains (files_kept s0) (do_rd_request_loop n s)"
proof (induction n arbitrary: s)
  case (Suc n)
  have "retains (files_kept s0) (INIT_REQUEST 1 s)" using Suc.prems by (simp add: INIT_REQUEST_def split: option.split)
  then show ?case
    by (auto intro!: retains_bindO files_kept_rd Suc.IH split: option.split)
qed simp

lemma ram_kernel_rely: "rely ram_kernel c"
proof -
  have "retains (\<lambda>t. calm c s t \<and> current t = current s) (do_rd_request s)" if "files_ok s" for s
    unfolding do_rd_request_def
    by (rule retains_mono [OF files_kept_rd_loop [of s]])
      (use calm_refl [OF that] same_files_calm in \<open>auto simp: files_kept_def\<close>)
  then show ?thesis by (simp add: rely_def ram_kernel_def calm_refl)
qed

text \<open>One task whose descriptors 0 and 1 share the file 3.\<close>

definition demo_files :: fs where
  "demo_files = (undefined :: fs)\<lparr>current := 4096, task := (\<lambda>i. if i = 0 then 4096 else 0),
     mem_map := (\<lambda>_. 0),
     tstruct := (\<lambda>p. (undefined :: task_struct)\<lparr>filp := (\<lambda>fd. if fd < 2 then Some 3 else None)\<rparr>),
     file_table := (\<lambda>f. (undefined :: file_struct)\<lparr>f_count := (if f = 3 then 2 else 0)\<rparr>)\<rparr>"

lemma demo_files_ok: "files_ok demo_files" "seated 0 demo_files" "task_pages_used demo_files"
proof -
  have h: "holders f demo_files = (if f = 3 then {(0, 0), (0, 1)} else {})" for f
    by (auto simp: holders_def demo_files_def split: if_splits)
  show "files_ok demo_files" unfolding files_ok_def h
    by (auto simp: demo_files_def inj_on_def split: if_splits)
  show "seated 0 demo_files" "task_pages_used demo_files"
    by (auto simp: seated_def demo_files_def task_pages_used_def)
qed

section \<open>The properties\<close>

text \<open>C22: In every state the kernel hands on, the count of each open file is the number of
  descriptors that name it, over all tasks, and every descriptor names a slot of the
  file table.  \<open>open\<close>, \<open>creat\<close>, \<open>close\<close>, \<open>dup\<close>, \<open>dup2\<close>, \<open>fcntl\<close>, \<open>pipe\<close>, \<open>fork\<close> and \<open>exit\<close> keep this, on success and on
  every error path, although most of them sleep with a half-opened file while other tasks,
  which keep the counts right too, run.\<close>

theorem descriptors_counted:
  assumes "files_ok s" "seated i s" "rely E (current s)"
    and "task_pages_used s" "task s nr = 0" "nr < NR_TASKS"
  shows "retains files_ok (sys_open E name flag mode s) \<and> retains files_ok (sys_creat E name mode s) \<and>
    retains files_ok (sys_close E fd s) \<and> files_ok (snd (sys_dup fd s)) \<and> retains files_ok (sys_dup2 E fd fd2 s) \<and>
    files_ok (snd (sys_fcntl fd cmd arg s)) \<and> retains files_ok (sys_pipe E fildes s) \<and>
    retains files_ok (copy_process nr regs s) \<and> retains files_ok (sys_exit E code s)"
  using sys_open_ok [OF assms(1-3)] sys_close_ok [OF assms(1-3)] dupfd_ok [OF assms(1,2)] sys_dup2_ok [OF assms(1-3)]
    sys_fcntl_ok [OF assms(1,2)] sys_pipe_ok [OF assms(1-3)] do_exit_ok [OF assms(1-3)] copy_process_ok [OF assms(1,2,4-6)]
  by (simp add: sys_creat_def sys_dup_def sys_exit_def)

theorem descriptors_counted_witness:
  "retains files_ok (sys_open ram_kernel 0 0x42 0x1ff demo_files) \<and> retains files_ok (sys_creat ram_kernel 0 0x1ff demo_files) \<and>
    retains files_ok (sys_close ram_kernel 1 demo_files) \<and> files_ok (snd (sys_dup 1 demo_files)) \<and>
    retains files_ok (sys_dup2 ram_kernel 1 5 demo_files) \<and> files_ok (snd (sys_fcntl 1 0 7 demo_files)) \<and>
    retains files_ok (sys_pipe ram_kernel 0x1000 demo_files) \<and>
    retains files_ok (copy_process 1 (undefined :: saved_regs) demo_files) \<and> retains files_ok (sys_exit ram_kernel 0 demo_files)"
  by (rule descriptors_counted [OF demo_files_ok(1,2) ram_kernel_rely demo_files_ok(3)]) (simp_all add: demo_files_def)

text \<open>The same task with an empty address space and free memory.\<close>

definition demo_fork :: fs where
  "demo_fork = demo_files\<lparr>pmem := (\<lambda>_. 0), last_pid := 5,
     tstruct := (\<lambda>p. (tstruct demo_files p)\<lparr>ldt := (\<lambda>_. (0, 0))\<rparr>)\<rparr>"

lemma demo_fork_ready: "task_pages_used demo_fork" "task demo_fork 1 = 0" "seated 0 demo_fork" "last_pid demo_fork = 5"
  using demo_files_ok(2,3) by (simp_all add: demo_fork_def task_pages_used_def seated_def demo_files_def)

lemma demo_copy_mem:
  assumes "ldt (cur s) = (\<lambda>_. (0, 0))" "pmem s = (\<lambda>_. 0)"
  shows "\<exists>t. copy_mem 1 p s = Ret 0 t \<and> last_pid t = last_pid s"
  using assms by (simp add: copy_mem_def Let_def get_limit_def get_base_def copy_page_tables_def upd_task_def)

lemma demo_fork_returns: "\<exists>t. copy_process 1 regs demo_fork = Ret 5 t"
proof (cases rule: get_free_page_cases [of demo_fork])
  case full
  then have "mem_map demo_fork 0 \<noteq> 0" by simp
  then show ?thesis by (simp add: demo_fork_def demo_files_def)
next
  case (page n)
  let ?s = "started 1 (pg n) regs (snd (get_free_page demo_fork))"
  have s1: "current (snd (get_free_page demo_fork)) = 4096" "pmem (snd (get_free_page demo_fork)) = (\<lambda>_. 0)"
    "last_pid (snd (get_free_page demo_fork)) = 5" "ldt (tstruct (snd (get_free_page demo_fork)) p) = (\<lambda>_. (0, 0))" for p
    using page(3) by (auto simp: demo_fork_def demo_files_def)
  have p: "pg n \<noteq> 4096" "pg n \<noteq> 0" using pg_props(3,4) [OF page(1)] by (auto simp: word_le_nat_alt)
  have "ldt (cur ?s) = (\<lambda>_. (0, 0))" "pmem ?s = (\<lambda>_. 0)" "last_pid ?s = 5"
    using s1 p(1) by (simp_all add: started_def Let_def save_fpu_def cur_def upd_task_def)
  then obtain t where "copy_mem 1 (pg n) ?s = Ret 0 t" "last_pid t = 5" using demo_copy_mem [of ?s "pg n"] by auto
  then show ?thesis using page(3) p(2)
    by (simp add: copy_process_steps Let_def count_files set_ldt_desc_def set_tss_desc_def)
qed

text \<open>C23: A fork that returns either fails with \<open>-EAGAIN\<close> and leaves the task table, every task structure, every
  byte of user memory and the counts of all files and inodes as they were, or puts a new task in the given slot: its number is the one that was
  searched for, its father the caller, it has no pending signals, returns 0 at the caller's address, runs
  in its own 64 MB of the address space, and sees a copy of the caller's memory.  It shares every descriptor of the caller, and its current
  directory, its root and its executable; each of these, and nothing else, is counted, and no other task structure changes.  A caller that has used the
  coprocessor loses its contents, also to a fork that fails, unless that found no page for the task structure.\<close>

theorem copy_process_child:
  assumes "copy_process nr regs s = Ret r t" "task_pages_used s" "task s nr = 0" "nr < NR_TASKS" "seated i s"
  shows "r = - EAGAIN \<and> not_forked s t \<or> r = last_pid s \<and> forked nr regs s t"
  by (rule copy_process_cases [OF assms])

definition regs0 :: saved_regs where
  "regs0 = \<lparr>r_ebp = 0, r_edi = 0, r_esi = 0, r_gs = 0, r_ebx = 0, r_ecx = 0, r_edx = 0, r_fs = 0x17, r_es = 0x17,
     r_ds = 0x17, r_eip = 0x100, r_cs = 0x0f, r_eflags = 0x202, r_esp = 0x3ffff00, r_ss = 0x17\<rparr>"

theorem copy_process_child_witness: "\<exists>t. copy_process 1 regs0 demo_fork = Ret 5 t \<and> forked 1 regs0 demo_fork t"
proof -
  obtain t where t: "copy_process 1 regs0 demo_fork = Ret 5 t" using demo_fork_returns by blast
  show ?thesis using copy_process_child [OF t demo_fork_ready(1,2) _ demo_fork_ready(3)] t by auto
qed

end
