(* ===== verification/Fs_Calls.thy ===== *)
theory Fs_Calls
  imports Fs_Frame
begin

text \<open>
  The frame of the system calls on files.  \<open>call_frame\<close> extends the contract of \<open>cache_frame\<close> by what a whole call
  writes besides inodes and buffers: open files, the calling task, user memory and the terminals.  A property
  with this contract survives every call on files, directories, devices, pipes and file systems.
\<close>

locale call_frame = cache_frame +
  assumes keep_files: "P s \<Longrightarrow> P (s\<lparr>file_table := ft\<rparr>)"
    and keep_supers: "P s \<Longrightarrow> P (s\<lparr>super_table := st\<rparr>)"
    and keep_task: "P s \<Longrightarrow> P (upd_task p g s)"
    and keep_umem: "P s \<Longrightarrow> P (s\<lparr>umem := um\<rparr>)"
    and keep_tty: "P s \<Longrightarrow> P (upd_tty n g2 s)"
    and keep_con: "P s \<Longrightarrow> P (upd_con g3 s)"
    and keep_beep: "P s \<Longrightarrow> P (s\<lparr>beepcount := bc\<rparr>)"
    and keep_cr_flag: "P s \<Longrightarrow> P (s\<lparr>cr_flag := cf\<rparr>)"
    and keep_spin: "P s \<Longrightarrow> retains P (spin (k_env E) s)"
begin

section \<open>Directories and file systems\<close>

lemma keep_mknod_cont: "P s \<Longrightarrow> retains P (mknod_cont E mode dev dir i base len s)"
  unfolding mknod_cont_def Let_def by (intro intros frame_intros; simp)

lemma keep_make_node:
  "P s \<Longrightarrow> (\<And>dir i base len s. P s \<Longrightarrow> retains P (cont dir i base len s)) \<Longrightarrow> retains P (make_node E pathname cont s)"
  unfolding make_node_def Let_def by (intro intros frame_intros; simp)

lemma keep_sys_mknod: "P s \<Longrightarrow> retains P (sys_mknod E name mode dev s)"
  unfolding sys_mknod_def by (intro keep_make_node keep_mknod_cont)

lemma keep_mkdir_cont: "P s \<Longrightarrow> retains P (mkdir_cont E mode dir i base len s)"
  unfolding mkdir_cont_def Let_def by (intro intros frame_intros; simp)

lemma keep_sys_mkdir: "P s \<Longrightarrow> retains P (sys_mkdir E name mode s)"
  unfolding sys_mkdir_def by (intro keep_make_node keep_mkdir_cont)

lemma keep_empty_dir: "P s \<Longrightarrow> retains P (empty_dir E i s)"
  unfolding empty_dir_def empty_step_def Let_def by (intro intros frame_intros; simp)

lemma keep_removal:
  "P s \<Longrightarrow> (\<And>dir i b off s. P s \<Longrightarrow> retains P (cont dir i b off s)) \<Longrightarrow> retains P (removal E name cont s)"
  unfolding removal_def Let_def by (intro intros frame_intros; simp)

lemma keep_clear_entry: "P s \<Longrightarrow> P (clear_entry b off s)"
  unfolding clear_entry_def by (intro intros frame_intros; simp)

lemma keep_rmdir_cont: "P s \<Longrightarrow> retains P (rmdir_cont E dir i b off s)"
  unfolding rmdir_cont_def Let_def by (intro intros frame_intros keep_empty_dir keep_clear_entry; simp)

lemma keep_sys_rmdir: "P s \<Longrightarrow> retains P (sys_rmdir E name s)"
  unfolding sys_rmdir_def by (intro retains_if retains_Ret keep_removal keep_rmdir_cont)

lemma keep_unlink_cont: "P s \<Longrightarrow> retains P (unlink_cont E dir i b off s)"
  unfolding unlink_cont_def Let_def by (intro intros frame_intros keep_clear_entry; simp)

lemma keep_sys_unlink: "P s \<Longrightarrow> retains P (sys_unlink E name s)"
  unfolding sys_unlink_def by (intro keep_removal keep_unlink_cont)

lemma keep_sys_link: "P s \<Longrightarrow> retains P (sys_link E old new s)"
  unfolding sys_link_def Let_def by (intro intros frame_intros; simp)

lemma keep_read_map:
  "P s \<Longrightarrow> small dev \<Longrightarrow> (\<And>i r s. P s \<Longrightarrow> P (put i r s)) \<Longrightarrow> retains P (read_map E dev n put block s)"
  unfolding read_map_def Let_def by (intro intros frame_intros; simp)

lemma keep_release_maps: "P s \<Longrightarrow> retains P (release_maps E k s)"
  unfolding release_maps_def by (intro intros frame_intros; simp)

lemma keep_read_maps: "P s \<Longrightarrow> small dev \<Longrightarrow> retains P (read_maps E dev k s)"
  unfolding read_maps_def Let_def by (intro intros frame_intros keep_read_map keep_release_maps; simp)

lemma keep_read_super: "P s \<Longrightarrow> small dev \<Longrightarrow> retains P (read_super E dev s)"
  unfolding read_super_def Let_def by (intro intros frame_intros keep_read_maps; simp)

lemma keep_sys_umount: "P s \<Longrightarrow> retains P (sys_umount E name s)"
  unfolding sys_umount_def Let_def by (intro intros frame_intros; simp)

lemma keep_sys_mount: "P s \<Longrightarrow> retains P (sys_mount E name dir s)"
  unfolding sys_mount_def Let_def by (intro intros frame_intros keep_read_super; simp)

section \<open>User memory and pages\<close>

lemma keep_put_fs_byte: "P s \<Longrightarrow> P (put_fs_byte v a s)"
  unfolding put_fs_byte_def by (rule keep_umem)

lemma keep_put_fs_bytes: "P s \<Longrightarrow> P (put_fs_bytes bs a s)"
  unfolding put_fs_bytes_def
proof (induction bs arbitrary: s rule: rev_induct)
  case (snoc b bs)
  show ?case using keep_put_fs_byte [OF snoc.IH [OF snoc.prems]] by (simp add: enumerate_append_eq)
qed simp

lemma keep_put_fs_long: "P s \<Longrightarrow> P (put_fs_long v a s)"
  unfolding put_fs_long_def by (intro keep_put_fs_byte)

lemma keep_copy_page: "P s \<Longrightarrow> P (copy_page f t s)"
  unfolding copy_page_def by (rule keep_pmem)

lemma keep_set_map: "P s \<Longrightarrow> P (set_map n v s)"
  unfolding set_map_def by (rule keep_mem_map)

lemma keep_un_wp_page: "P s \<Longrightarrow> retains P (un_wp_page e s)"
  unfolding un_wp_page_def Let_def
  by (intro retains_if retains_pair retains_Ret retains_Undefined retains_Exits keep_copy_page keep_poke if_keeps keep_set_map
      keep_get_free_page; assumption)

lemma keep_write_verify: "P s \<Longrightarrow> retains P (write_verify a s)"
  unfolding write_verify_def Let_def by (intro retains_if retains_Ret keep_un_wp_page)

lemma keep_verify_loop: "P s \<Longrightarrow> retains P (verify_loop sz a s)"
proof (induction sz a s rule: verify_loop.induct)
  case (1 sz a s)
  show ?case by (subst verify_loop.simps) (intro retains_if retains_bindO keep_write_verify retains_Ret 1; assumption)
qed

lemma keep_verify_area: "P s \<Longrightarrow> retains P (verify_area a n s)"
  unfolding verify_area_def by (rule keep_verify_loop)

lemmas user_intros = keep_files keep_supers keep_task keep_umem keep_tty keep_con keep_beep keep_cr_flag keep_spin
  keep_put_fs_byte keep_put_fs_bytes keep_put_fs_long keep_verify_area

section \<open>Terminals\<close>

lemma keep_put_write: "P s \<Longrightarrow> P (put_write n c s)"
  unfolding put_write_def by (rule keep_tty)

lemma keep_tty_intr: "P s \<Longrightarrow> P (tty_intr n m s)"
proof -
  have "P s \<Longrightarrow> P (fold (tty_intr_one g m) xs s)" for g xs
    by (induction xs arbitrary: s) (simp_all add: tty_intr_one_def keep_task)
  then show "P s \<Longrightarrow> P (tty_intr n m s)" by (simp add: tty_intr_def Let_def)
qed

lemma keep_con_plain: "P s \<Longrightarrow> P (con_plain n b s)"
  unfolding con_plain_def sysbeep_def Let_def by (intro if_keeps keep_con keep_beep keep_outb)

lemma keep_con_char:
  assumes "P s" "\<And>n s. P s \<Longrightarrow> retains P (cooked n s)"
  shows "retains P (con_char cooked n b s)"
  unfolding con_char_def con_esc_def respond_def Let_def
  by (intro retains_if retains_Ret keep_con_plain keep_con keep_tty assms)

lemma keep_con_write:
  assumes "P s" "\<And>n s. P s \<Longrightarrow> retains P (cooked n s)"
  shows "retains P (con_write cooked n s)"
proof -
  have loop: "P s \<Longrightarrow> retains P (con_loop k cooked n s)" for k s
    by (induction k arbitrary: s)
      (auto simp: case_prod_beta intro!: retains_bind keep_con_char assms(2) keep_tty)
  show ?thesis unfolding con_write_def by (intro retains_bind retains_Ret keep_con loop assms(1))
qed

lemma keep_echo_erase:
  assumes "P s" "\<And>n s. P s \<Longrightarrow> retains P (wr n s)"
  shows "retains P (echo_erase wr n c s)"
  unfolding echo_erase_def by (intro retains_if retains_Ret assms(2) if_keeps keep_put_write assms(1))

lemma keep_erase_last:
  "P s \<Longrightarrow> (\<And>n s. P s \<Longrightarrow> retains P (wr n s)) \<Longrightarrow> retains P (erase_last wr n s)"
  unfolding erase_last_def by (intro retains_bind retains_Ret keep_echo_erase keep_tty)

lemma keep_kill_line:
  "P s \<Longrightarrow> (\<And>n s. P s \<Longrightarrow> retains P (wr n s)) \<Longrightarrow> retains P (kill_line k wr n s)"
  by (induction k arbitrary: s) (auto intro!: retains_bind keep_erase_last)

lemma keep_echo_char:
  "P s \<Longrightarrow> (\<And>n s. P s \<Longrightarrow> retains P (wr n s)) \<Longrightarrow> retains P (echo_char wr n c s)"
  unfolding echo_char_def by (intro retains_if retains_Ret if_keeps keep_put_write; simp add: keep_put_write)

lemma keep_cook_char:
  "P s \<Longrightarrow> (\<And>n s. P s \<Longrightarrow> retains P (wr n s)) \<Longrightarrow> retains P (cook_char k wr n c s)"
  unfolding cook_char_def Let_def
  by (intro retains_if retains_bind retains_Ret if_keeps keep_kill_line keep_erase_last keep_echo_char keep_tty keep_tty_intr)

lemma keep_cooked_loop:
  "P s \<Longrightarrow> (\<And>n s. P s \<Longrightarrow> retains P (wr n s)) \<Longrightarrow> retains P (cooked_loop k wr n s)"
  by (induction k arbitrary: s)
    (auto simp: case_prod_beta Let_def split: option.splits if_splits intro!: retains_bind keep_cook_char keep_tty)

lemma keep_copy_to_cooked:
  "P s \<Longrightarrow> (\<And>n s. P s \<Longrightarrow> retains P (wr n s)) \<Longrightarrow> retains P (copy_to_cooked wr n s)"
  unfolding copy_to_cooked_def by (intro retains_bind retains_Ret keep_cooked_loop keep_wake_up)

lemma keep_tty_out: "P s \<Longrightarrow> retains P (tty_out d n s)"
proof (induction d arbitrary: n s)
  case (Suc d)
  show ?case using Suc
    by (auto simp: rs_write_def Let_def split: write_fn.split intro!: keep_con_write keep_copy_to_cooked keep_outb)
qed simp

lemma keep_put_proc: "P s \<Longrightarrow> P (put_proc n u p s)"
  unfolding put_proc_def by (rule keep_tty)

lemma keep_sleep_if_empty: "P s \<Longrightarrow> retains P (sleep_if_empty (k_env E) n s)"
  unfolding sleep_if_empty_def by (intro keep_isleep_while keep_put_proc)

lemma keep_sleep_if_full: "P s \<Longrightarrow> retains P (sleep_if_full (k_env E) n s)"
  unfolding sleep_if_full_def by (intro retains_if retains_Ret keep_isleep_while keep_put_proc)

lemma keep_read_chars: "P s \<Longrightarrow> P (snd (read_chars nr n buf b s))"
proof (induction nr arbitrary: b s)
  case (Suc nr)
  have t: "P (upd_tty n g s)" "P (upd_tty n h (upd_tty n g s))" for g h by (intro keep_tty Suc.prems)+
  show ?case by (auto simp: case_prod_beta Let_def intro!: t keep_put_fs_byte Suc.IH)
qed simp

lemma keep_tty_read_loop: "P s \<Longrightarrow> retains P (tty_read_loop k (k_env E) n buf oa ti mi nr b fl s)"
proof (induction k arbitrary: mi nr b fl s)
  case (Suc k)
  show ?case unfolding tty_read_loop.simps Let_def
    by (intro retains_if retains_Ret retains_bind retains_pair retains_sum retains_prod keep_sleep_if_empty keep_spin Suc.IH keep_task
        if_keeps keep_read_chars Suc.prems; assumption)
qed simp

lemma keep_tty_read: "P s \<Longrightarrow> retains P (tty_read (k_env E) n buf nr s)"
  unfolding tty_read_def Let_def
  by (intro retains_if retains_bind retains_sum retains_Ret keep_tty_read_loop keep_task if_keeps; simp)

lemma keep_write_chars: "P s \<Longrightarrow> retains P (write_chars nr n buf b s)"
proof (induction "2 * nr + of_bool (\<not> cr_flag s)" arbitrary: nr b s rule: less_induct)
  case less
  have w: "P (put_write n c (s\<lparr>cr_flag := f\<rparr>))" "P ((put_write n c s)\<lparr>cr_flag := f\<rparr>)" for c f
    by (intro keep_put_write keep_cr_flag less(2))+
  have f: "cr_flag (put_write n c t) = cr_flag t" for c and t :: fs by (simp add: put_write_def upd_tty_def)
  show ?case
    by (subst write_chars.simps, unfold Let_def)
      (intro retains_if retains_Ret retains_option retains_Undefined less(1) w less(2); auto simp: f)
qed

lemma keep_tty_write_loop: "P s \<Longrightarrow> retains P (tty_write_loop k (k_env E) n buf b nr s)"
  by (induction k arbitrary: b nr s)
    (auto intro!: retains_bind keep_sleep_if_full keep_write_chars keep_tty_out keep_schedule)

lemma keep_tty_write: "P s \<Longrightarrow> retains P (tty_write (k_env E) n buf nr s)"
  unfolding tty_write_def by (intro retains_if retains_bind retains_Ret keep_tty_write_loop)

lemma keep_tty_ioctl: "P s \<Longrightarrow> retains P (tty_ioctl dev cmd arg s)"
  unfolding tty_ioctl_def ioctl_cmd_def get_termios_def get_termio_def set_termios_def set_termio_def put_user_long_def
    flush_read_def flush_write_def change_speed_def Let_def
  by (intro retains_if retains_bind retains_Ret retains_Undefined retains_Panic keep_verify_area keep_put_fs_bytes keep_put_fs_long
      keep_tty keep_outb if_keeps)

section \<open>Reading and writing\<close>

lemmas steps = retains_bind retains_if retains_option retains_sum retains_prod retains_Ret retains_Undefined retains_Panic if_keeps
  option_keeps

lemma keep_upd_file: "P s \<Longrightarrow> P (upd_file f g s)"
  unfolding upd_file_def by (rule keep_files)

lemma keep_add_pos: "P s \<Longrightarrow> P (add_pos f n s)"
  unfolding add_pos_def by (rule keep_upd_file)

lemma keep_buf_to_user: "P s \<Longrightarrow> P (buf_to_user b c n a s)"
  unfolding buf_to_user_def by (rule keep_put_fs_bytes)

lemma keep_user_to_buf: "P s \<Longrightarrow> P (user_to_buf a b c n s)"
  unfolding user_to_buf_def by (rule keep_bh) simp_all

lemma keep_dirty: "P s \<Longrightarrow> P (upd_bh b (\<lambda>h. h\<lparr>b_dirt := d\<rparr>) s)"
  by (rule keep_bh) simp_all

lemma small_dev [simp]: "small (ucast (i_dev m :: u16))" "small (ucast (i_zone m 0 :: u16))"
  by (rule small_ucast)+

lemma keep_file_read: "P s \<Longrightarrow> retains P (file_read E i f buf count s)"
  unfolding file_read_def file_read_step_def Let_def
  by (intro retains_loop retains_prod1 steps keep_file_block keep_brelse keep_buf_to_user keep_add_pos keep_put_fs_bytes keep_inode)

lemma keep_file_write: "P s \<Longrightarrow> retains P (file_write E i f buf count s)"
  unfolding file_write_def file_write_step_def Let_def
  by (intro retains_loop retains_prod1 steps keep_create_block keep_bread keep_brelse keep_user_to_buf keep_dirty keep_upd_file
      keep_inode small_ucast)

lemma keep_block_write: "P s \<Longrightarrow> small dev \<Longrightarrow> retains P (block_write E dev f buf count s)"
  unfolding block_write_def block_write_step_def Let_def
  by (intro retains_loop retains_prod1 steps keep_getblk keep_breada keep_brelse keep_user_to_buf keep_add_pos keep_dirty)

lemma keep_block_read: "P s \<Longrightarrow> small dev \<Longrightarrow> retains P (block_read E dev f buf count s)"
  unfolding block_read_def block_read_step_def Let_def
  by (intro retains_loop retains_prod1 steps keep_breada keep_brelse keep_buf_to_user keep_add_pos)

lemma keep_sleep_inode: "P s \<Longrightarrow> retains P (sleep_inode E i s)"
  unfolding sleep_inode_def by (intro keep_sleep_on keep_put_i_wait)

lemma keep_wake_inode: "P s \<Longrightarrow> P (wake_inode i s)"
  unfolding wake_inode_def by (rule keep_wake_up)

lemma keep_adv_pipe: "P s \<Longrightarrow> P (adv_pipe i z n s)"
  unfolding adv_pipe_def by (rule keep_set_zone)

lemma keep_read_pipe: "P s \<Longrightarrow> retains P (read_pipe E i buf count s)"
  unfolding read_pipe_def read_pipe_step_def Let_def
  by (intro retains_loop retains_prod1 steps keep_sleep_inode keep_wake_inode keep_adv_pipe keep_put_fs_bytes)

lemma keep_put_pbyte: "P s \<Longrightarrow> P (put_pbyte v a s)"
  unfolding put_pbyte_def Let_def by (rule keep_poke)

lemma keep_put_pbytes: "P s \<Longrightarrow> P (foldl (\<lambda>t k. put_pbyte (v t k) (a t k) t) s ks)"
  by (induction ks arbitrary: s) (simp_all add: keep_put_pbyte)

lemma keep_write_pipe: "P s \<Longrightarrow> retains P (write_pipe E i buf count s)"
  unfolding write_pipe_def write_pipe_step_def Let_def
  by (intro retains_loop retains_prod1 steps keep_sleep_inode keep_wake_inode keep_adv_pipe keep_task keep_put_pbytes)

lemma keep_rw_port: "P s \<Longrightarrow> retains P (rw_port rw buf count f s)"
proof -
  have l: "P s \<Longrightarrow> P (snd (rw_port_loop n rw buf i s))" for n i
    by (induction n arbitrary: buf i s) (auto intro: keep_put_fs_byte keep_outb)
  assume "P s"
  then show ?thesis unfolding rw_port_def Let_def by (intro retains_pair l retains_Ret keep_add_pos)
qed

lemma keep_rw_char: "P s \<Longrightarrow> retains P (rw_char E rw dev buf count f s)"
  unfolding rw_char_def rw_memory_def rw_tty_def rw_ttyx_def Let_def
  by (intro retains_if retains_Ret keep_rw_port keep_tty_read keep_tty_write)

lemma keep_sys_read: "P s \<Longrightarrow> retains P (sys_read E fd buf count s)"
  unfolding sys_read_def Let_def
  by (intro steps keep_verify_area keep_read_pipe keep_rw_char keep_block_read keep_file_read small_ucast)

lemma keep_sys_write: "P s \<Longrightarrow> retains P (sys_write E fd buf count s)"
  unfolding sys_write_def Let_def
  by (intro steps keep_write_pipe keep_rw_char keep_block_write keep_file_write small_ucast)

section \<open>Descriptors\<close>

lemma keep_set_filp: "P s \<Longrightarrow> P (set_filp fd f s)"
  unfolding set_filp_def by (rule keep_task)

lemma keep_set_f_count: "P s \<Longrightarrow> P (set_f_count f n s)"
  unfolding set_f_count_def by (rule keep_upd_file)

lemma keep_clear_cloexec: "P s \<Longrightarrow> P (clear_cloexec fd s)"
  unfolding clear_cloexec_def by (rule keep_task)

lemma retains_two:
  "(xs = [] \<Longrightarrow> retains P m) \<Longrightarrow> (\<And>a. xs = [a] \<Longrightarrow> retains P (f a)) \<Longrightarrow>
   (\<And>a b. xs = [a, b] \<Longrightarrow> retains P (g a b)) \<Longrightarrow> retains P m' \<Longrightarrow>
   retains P (case xs of [] \<Rightarrow> m | [a] \<Rightarrow> f a | [a, b] \<Rightarrow> g a b | a # b # c # u \<Rightarrow> m')"
  by (auto split: list.split)

lemma keep_sys_pipe: "P s \<Longrightarrow> retains P (sys_pipe E fildes s)"
  unfolding sys_pipe_def Let_def
  by (intro retains_two steps keep_get_pipe_inode keep_set_filp keep_set_f_count keep_upd_file keep_put_fs_long)

lemma keep_dupfd: "P s \<Longrightarrow> P (snd (dupfd fd arg s))"
  by (auto simp: dupfd_def split: option.split intro!: keep_upd_file keep_set_filp keep_clear_cloexec)

lemma keep_sys_close: "P s \<Longrightarrow> retains P (sys_close E fd s)"
  unfolding sys_close_def Let_def by (intro steps keep_iput keep_upd_file keep_set_filp keep_clear_cloexec)

lemma keep_sys_dup2: "P s \<Longrightarrow> retains P (sys_dup2 E fd fd' s)"
  unfolding sys_dup2_def by (intro retains_bind retains_pair keep_sys_close keep_dupfd retains_Ret)

lemma keep_open_tty: "P s \<Longrightarrow> retains P (open_tty i s)"
  unfolding open_tty_def Let_def by (intro steps keep_tty keep_task)

lemma keep_sys_open: "P s \<Longrightarrow> retains P (sys_open E name flag mode s)"
  unfolding sys_open_def Let_def
  by (intro steps keep_open_namei keep_open_tty keep_iput keep_check_disk_change keep_upd_file keep_set_filp keep_clear_cloexec
      keep_set_f_count)

lemma keep_sys_creat: "P s \<Longrightarrow> retains P (sys_creat E name mode s)"
  unfolding sys_creat_def by (rule keep_sys_open)

section \<open>Attributes\<close>

lemma keep_cp_stat: "P s \<Longrightarrow> retains P (cp_stat junk i buf s)"
  unfolding cp_stat_def by (intro steps keep_verify_area keep_put_fs_bytes)

lemma keep_sys_stat: "P s \<Longrightarrow> retains P (sys_stat E junk name buf s)"
  unfolding sys_stat_def by (intro steps keep_namei keep_cp_stat keep_leave)

lemma keep_sys_fstat: "P s \<Longrightarrow> retains P (sys_fstat junk fd buf s)"
  unfolding sys_fstat_def by (intro steps keep_cp_stat)

lemma keep_sys_ioctl: "P s \<Longrightarrow> retains P (sys_ioctl fd cmd arg s)"
  unfolding sys_ioctl_def Let_def by (intro steps keep_tty_ioctl)

lemma keep_sys_utime: "P s \<Longrightarrow> retains P (sys_utime E name tp s)"
  unfolding sys_utime_def Let_def by (intro steps keep_namei keep_leave keep_inode)

lemma keep_sys_access: "P s \<Longrightarrow> retains P (sys_access E name mode s)"
  unfolding sys_access_def Let_def by (intro steps keep_namei keep_iput)

lemma keep_change_dir: "P s \<Longrightarrow> retains P (change_dir E name prev put s)"
  unfolding change_dir_def by (intro steps keep_namei keep_leave keep_iput keep_task)

lemma keep_sys_chdir: "P s \<Longrightarrow> retains P (sys_chdir E name s)"
  unfolding sys_chdir_def by (rule keep_change_dir)

lemma keep_sys_chroot: "P s \<Longrightarrow> retains P (sys_chroot E name s)"
  unfolding sys_chroot_def by (rule keep_change_dir)

lemma keep_sys_chmod: "P s \<Longrightarrow> retains P (sys_chmod E name mode s)"
  unfolding sys_chmod_def Let_def by (intro steps keep_namei keep_leave keep_inode)

lemma keep_sys_chown: "P s \<Longrightarrow> retains P (sys_chown E name u g s)"
  unfolding sys_chown_def Let_def by (intro steps keep_namei keep_leave keep_inode)

end

end
