(* ===== verification/Cache_Props.thy ===== *)
theory Cache_Props
  imports Fs_Calls
begin

text \<open>
  The hash queues of the buffer cache.  However often \<open>getblk\<close> and the operations
  above it sleep, the queues stay doubly linked lists that hold every buffer with a device exactly
  once, in the queue its block hashes to, and no two buffers stand for the same block.
\<close>

section \<open>Doubly linked lists\<close>

text \<open>\<open>seg s m p xs m' p'\<close>: from pointer \<open>p\<close>, before which comes \<open>m\<close>, the buffers \<open>xs\<close> follow, then \<open>p'\<close> after \<open>m'\<close>.\<close>

primrec seg :: "fs \<Rightarrow> nat option \<Rightarrow> nat option \<Rightarrow> nat list \<Rightarrow> nat option \<Rightarrow> nat option \<Rightarrow> bool" where
  "seg s m p [] m' p' \<longleftrightarrow> m' = m \<and> p' = p"
| "seg s m p (b # bs) m' p' \<longleftrightarrow>
     p = Some b \<and> b_prev (buffers s b) = m \<and> seg s (Some b) (b_next (buffers s b)) bs m' p'"

lemma seg_append: "seg s m p (xs @ ys) m' p' \<longleftrightarrow> (\<exists>n q. seg s m p xs n q \<and> seg s n q ys m' p')"
  by (induction xs arbitrary: m p) auto

lemma seg_cong:
  "(\<And>b. b \<in> set xs \<Longrightarrow> b_prev (buffers t b) = b_prev (buffers s b) \<and> b_next (buffers t b) = b_next (buffers s b)) \<Longrightarrow>
   seg t m p xs m' p' = seg s m p xs m' p'"
  by (induction xs arbitrary: m p) auto

text \<open>A list whose successor changes, and one whose predecessor changes.\<close>

lemma seg_set_next:
  assumes "seg s None h xs m p" "distinct xs"
    and "\<And>b. b \<in> set xs \<Longrightarrow> b_prev (buffers t b) = b_prev (buffers s b)"
    and "\<And>b. b \<in> set xs \<Longrightarrow> Some b \<noteq> m \<Longrightarrow> b_next (buffers t b) = b_next (buffers s b)"
    and "\<And>b. m = Some b \<Longrightarrow> b_next (buffers t b) = q"
  shows "seg t None (if xs = [] then q else h) xs m q"
proof (cases xs rule: rev_cases)
  case Nil
  then show ?thesis using assms(1) by simp
next
  case (snoc ys b)
  then obtain n where n: "seg s None h ys n (Some b)" "b_prev (buffers s b) = n" "m = Some b"
    using assms(1) by (auto simp: seg_append)
  have "seg t None h ys n (Some b)"
    using n(1) by (subst seg_cong [of ys t s]) (use assms(2-4) n(3) snoc in auto)
  then show ?thesis using snoc n assms(3,5) by (auto simp: seg_append)
qed

lemma seg_set_prev:
  assumes "seg s m p xs l None" "distinct xs"
    and "\<And>b. b \<in> set xs \<Longrightarrow> b_next (buffers t b) = b_next (buffers s b)"
    and "\<And>b. b \<in> set xs \<Longrightarrow> Some b \<noteq> p \<Longrightarrow> b_prev (buffers t b) = b_prev (buffers s b)"
    and "\<And>b. p = Some b \<Longrightarrow> b_prev (buffers t b) = n"
  shows "\<exists>l'. seg t n p xs l' None"
proof (cases xs)
  case Nil
  then show ?thesis using assms(1) by simp
next
  case (Cons b bs)
  then have b: "p = Some b" "seg s (Some b) (b_next (buffers s b)) bs l None" using assms(1) by auto
  have "seg t (Some b) (b_next (buffers s b)) bs l None"
    using b(2) by (subst seg_cong [of bs t s]) (use assms(2-4) Cons b(1) in auto)
  then show ?thesis using Cons b(1) assms(3,5) by (auto simp: Cons)
qed

section \<open>The invariant\<close>

text \<open>The buffers of \<open>A\<close> are in the queues \<open>Q\<close>, the others in none.\<close>

definition queued :: "nat set \<Rightarrow> (nat \<Rightarrow> nat list) \<Rightarrow> fs \<Rightarrow> bool" where
  "queued A Q s \<longleftrightarrow>
     (\<forall>k<NR_HASH. distinct (Q k) \<and> (\<exists>l. seg s None (hash_table s k) (Q k) l None) \<and>
        set (Q k) = {b \<in> A. hash_of (buffers s b) = k})"

definition no_twins :: "nat set \<Rightarrow> fs \<Rightarrow> bool" where
  "no_twins A s \<longleftrightarrow> (\<forall>b\<in>A. \<forall>c\<in>A. b_dev (buffers s b) = b_dev (buffers s c) \<longrightarrow>
     b_blocknr (buffers s b) = b_blocknr (buffers s c) \<longrightarrow> b = c)"

definition cache_ok :: "fs \<Rightarrow> bool" where
  "cache_ok s \<longleftrightarrow>
     (let A = {b. b_dev (buffers s b) \<noteq> 0} in
      (\<exists>Q. queued A Q s) \<and> no_twins A s \<and>
      (\<forall>b. b \<notin> A \<longrightarrow> b_prev (buffers s b) = None \<and> b_next (buffers s b) = None))"

lemma hash_less: "hashfn dev block < NR_HASH"
  by (simp add: hashfn_def)

lemma queued_at:
  assumes "queued A Q s"
  shows "distinct (Q (hashfn dev block))" "\<exists>l. seg s None (hash_table s (hashfn dev block)) (Q (hashfn dev block)) l None"
    "set (Q (hashfn dev block)) = {b \<in> A. hash_of (buffers s b) = hashfn dev block}"
  using assms hash_less [of dev block] unfolding queued_def by blast+

lemma queued_key:
  assumes "queued A Q s" "hash_table t = hash_table s"
    and "\<And>b. b \<in> A \<Longrightarrow> b_prev (buffers t b) = b_prev (buffers s b) \<and> b_next (buffers t b) = b_next (buffers s b) \<and>
       hash_of (buffers t b) = hash_of (buffers s b)"
  shows "queued A Q t"
proof -
  have "seg t None h (Q k) l None = seg s None h (Q k) l None" if "k < NR_HASH" for h k l
    by (rule seg_cong) (use assms(1,3) that in \<open>auto simp: queued_def\<close>)
  moreover have "{b \<in> A. hash_of (buffers t b) = k} = {b \<in> A. hash_of (buffers s b) = k}" for k
    using assms(3) by auto
  ultimately show ?thesis using assms(1) unfolding queued_def assms(2) by simp
qed

section \<open>Taking a buffer out of its queue\<close>

lemma unhash_fields:
  assumes "b_next (buffers s b) \<noteq> Some b" "b_prev (buffers s b) \<noteq> Some b"
  shows "b_prev (buffers (unhash b s) c) = (if b_next (buffers s b) = Some c then b_prev (buffers s b) else b_prev (buffers s c))"
    "b_next (buffers (unhash b s) c) = (if b_prev (buffers s b) = Some c then b_next (buffers s b) else b_next (buffers s c))"
    "b_dev (buffers (unhash b s) c) = b_dev (buffers s c)" "b_blocknr (buffers (unhash b s) c) = b_blocknr (buffers s c)"
    "hash_table (unhash b s) = (let k = hash_of (buffers s b) in
       if hash_table s k = Some b then (hash_table s)(k := b_next (buffers s b)) else hash_table s)"
  using assms by (auto simp: unhash_def Let_def split: option.split)

lemma seg_first: "seg s m p xs l None \<Longrightarrow> p = (case xs of [] \<Rightarrow> None | b # _ \<Rightarrow> Some b)"
  by (cases xs) auto

lemma seg_last: "seg s None p xs m q \<Longrightarrow> m = (if xs = [] then None else Some (last xs))"
  by (cases xs rule: rev_cases) (auto simp: seg_append)

lemma queue_head:
  assumes "queued A Q s" "hash_table s (hashfn dev block) = Some c"
  shows "c \<in> A"
proof -
  obtain l where "seg s None (Some c) (Q (hashfn dev block)) l None" using queued_at(2) [OF assms(1), of dev block] assms(2) by auto
  then have "c \<in> set (Q (hashfn dev block))" by (cases "Q (hashfn dev block)") auto
  then show ?thesis using queued_at(3) [OF assms(1), of dev block] by blast
qed

text \<open>Where the buffer stands in its queue.\<close>

lemma queuedD:
  assumes "queued A Q s" "b \<in> A"
  obtains xs ys h l where "Q (hash_of (buffers s b)) = xs @ b # ys" "distinct (xs @ b # ys)"
    "seg s None (hash_table s (hash_of (buffers s b))) xs (b_prev (buffers s b)) (Some b)"
    "seg s (Some b) (b_next (buffers s b)) ys l None"
    "b_prev (buffers s b) = (if xs = [] then None else Some (last xs))"
    "b_next (buffers s b) = (case ys of [] \<Rightarrow> None | c # _ \<Rightarrow> Some c)"
proof -
  let ?k = "hash_of (buffers s b)"
  have q: "distinct (Q ?k)" "b \<in> set (Q ?k)" and "\<exists>l. seg s None (hash_table s ?k) (Q ?k) l None"
    using assms hash_less [of "ucast (b_dev (buffers s b))" "b_blocknr (buffers s b)"] by (auto simp: queued_def)
  then obtain l where l: "seg s None (hash_table s ?k) (Q ?k) l None" by blast
  obtain xs ys where xy: "Q ?k = xs @ b # ys" using q(2) by (meson split_list)
  have sg: "seg s None (hash_table s ?k) xs (b_prev (buffers s b)) (Some b)" "seg s (Some b) (b_next (buffers s b)) ys l None"
    using l unfolding xy by (auto simp: seg_append)
  show thesis using that [OF xy _ sg seg_last [OF sg(1)] seg_first [OF sg(2)]] q(1) xy by simp
qed

lemma unhash_queued:
  assumes A: "queued A Q s" "b \<in> A"
  shows "queued (A - {b}) (\<lambda>k. remove1 b (Q k)) (unhash b s)"
proof -
  let ?t = "unhash b s" and ?k = "hash_of (buffers s b)"
  obtain xs ys l where xy: "Q ?k = xs @ b # ys" "distinct (xs @ b # ys)"
    and sx: "seg s None (hash_table s ?k) xs (b_prev (buffers s b)) (Some b)"
    and sy: "seg s (Some b) (b_next (buffers s b)) ys l None"
    and pn: "b_prev (buffers s b) = (if xs = [] then None else Some (last xs))"
      "b_next (buffers s b) = (case ys of [] \<Rightarrow> None | c # _ \<Rightarrow> Some c)"
    by (rule queuedD [OF A])
  have nb: "b_next (buffers s b) \<noteq> Some b" "b_prev (buffers s b) \<noteq> Some b"
    using pn xy(2) by (auto split: list.splits if_splits)
  note f = unhash_fields [OF nb]
  have out: "b_prev (buffers ?t c) = b_prev (buffers s c) \<and> b_next (buffers ?t c) = b_next (buffers s c)"
    if "c \<notin> set xs" "c \<notin> set ys" for c
    using that pn unfolding f by (auto split: list.splits if_splits)
  have d: "distinct xs" "distinct ys" "set xs \<inter> set ys = {}" "b \<notin> set xs" "b \<notin> set ys" using xy(2) by auto
  have h: "hash_table ?t ?k = (if xs = [] then b_next (buffers s b) else hash_table s ?k)"
    using sx d(4) unfolding f Let_def by (cases xs) auto
  have x: "seg ?t None (hash_table ?t ?k) xs (b_prev (buffers s b)) (b_next (buffers s b))"
    unfolding h by (rule seg_set_next [OF sx d(1)]) (use pn d f in \<open>auto split: list.splits if_splits\<close>)
  have ly: "xs \<noteq> [] \<Longrightarrow> last xs \<notin> set ys" using d(3) last_in_set [of xs] by blast
  have "\<exists>l'. seg ?t (b_prev (buffers s b)) (b_next (buffers s b)) ys l' None"
    by (rule seg_set_prev [OF sy d(2)]) (use pn d f ly in \<open>auto split: list.splits if_splits\<close>)
  then obtain l' where y: "seg ?t (b_prev (buffers s b)) (b_next (buffers s b)) ys l' None" by blast
  show ?thesis unfolding queued_def
  proof (intro allI impI)
    fix k :: nat assume k: "k < NR_HASH"
    have Qk: "distinct (Q k)" "\<exists>l. seg s None (hash_table s k) (Q k) l None" "set (Q k) = {c \<in> A. hash_of (buffers s c) = k}"
      using A(1) k by (auto simp: queued_def)
    have st: "set (remove1 b (Q k)) = {c \<in> A - {b}. hash_of (buffers ?t c) = k}" unfolding f using Qk(1,3) by auto
    have "\<exists>l. seg ?t None (hash_table ?t k) (remove1 b (Q k)) l None"
    proof (cases "k = ?k")
      case True
      have "remove1 b (Q ?k) = xs @ ys" using xy(1) d(4) by (simp add: remove1_append)
      then show ?thesis unfolding True using x y by (auto simp: seg_append)
    next
      case False
      have "set (Q k) \<inter> set (Q ?k) = {}" "b \<notin> set (Q k)" using Qk(3) A k False hash_less by (auto simp: queued_def)
      then have "c \<notin> set xs \<and> c \<notin> set ys" if "c \<in> set (Q k)" for c using that xy(1) by auto
      then have "seg ?t None h (Q k) l None = seg s None h (Q k) l None" for h l by (intro seg_cong out) auto
      moreover have "hash_table ?t k = hash_table s k" unfolding f Let_def using False by simp
      ultimately show ?thesis using Qk(2) \<open>b \<notin> set (Q k)\<close> by (simp add: remove1_idem)
    qed
    then show "distinct (remove1 b (Q k)) \<and> (\<exists>l. seg ?t None (hash_table ?t k) (remove1 b (Q k)) l None) \<and>
        set (remove1 b (Q k)) = {c \<in> A - {b}. hash_of (buffers ?t c) = k}" using st Qk(1) by simp
  qed
qed

section \<open>Putting a buffer into its queue\<close>

lemma enhash_fields:
  assumes "hash_table s (hash_of (buffers s b)) \<noteq> Some b" "b_dev (buffers s b) \<noteq> 0"
  defines "q \<equiv> hash_table s (hash_of (buffers s b))"
  shows "b_prev (buffers (enhash b s) c) = (if c = b then None else if q = Some c then Some b else b_prev (buffers s c))"
    "b_next (buffers (enhash b s) c) = (if c = b then q else b_next (buffers s c))"
    "b_dev (buffers (enhash b s) c) = b_dev (buffers s c)" "b_blocknr (buffers (enhash b s) c) = b_blocknr (buffers s c)"
    "hash_table (enhash b s) = (hash_table s)(hash_of (buffers s b) := Some b)"
  using assms by (auto simp: enhash_def Let_def poke_def split: option.split)

lemma enhash_queued:
  assumes A: "queued A Q s" "b \<notin> A" "b_dev (buffers s b) \<noteq> 0"
  shows "queued (insert b A) (Q(hash_of (buffers s b) := b # Q (hash_of (buffers s b)))) (enhash b s)"
proof -
  let ?t = "enhash b s" and ?k = "hash_of (buffers s b)"
  obtain l where k: "distinct (Q ?k)" "seg s None (hash_table s ?k) (Q ?k) l None" "b \<notin> set (Q ?k)"
    using queued_at [OF A(1), of "ucast (b_dev (buffers s b))" "b_blocknr (buffers s b)"] A(2) by blast
  note q = seg_first [OF k(2)]
  have nb: "hash_table s ?k \<noteq> Some b" using k(3) q by (auto split: list.splits)
  note f = enhash_fields [OF nb A(3)]
  have "\<exists>l'. seg ?t (Some b) (hash_table s ?k) (Q ?k) l' None"
    by (rule seg_set_prev [OF k(2,1)]) (use f k(3) nb in auto)
  then have new: "\<exists>l. seg ?t None (hash_table ?t ?k) (b # Q ?k) l None" unfolding f by (simp add: f)
  show ?thesis unfolding queued_def
  proof (intro allI impI)
    fix j :: nat assume j: "j < NR_HASH"
    let ?Q = "Q(?k := b # Q ?k)"
    have Qj: "distinct (Q j)" "\<exists>l. seg s None (hash_table s j) (Q j) l None" "set (Q j) = {c \<in> A. hash_of (buffers s c) = j}"
      using A(1) j by (auto simp: queued_def)
    have st: "set (?Q j) = {c \<in> insert b A. hash_of (buffers ?t c) = j}" unfolding f using Qj(3) A(2) by auto
    have "distinct (?Q j)" using Qj(1) k(1,3) by simp
    moreover have "\<exists>l. seg ?t None (hash_table ?t j) (?Q j) l None"
    proof (cases "j = ?k")
      case False
      have out: "b_prev (buffers ?t c) = b_prev (buffers s c) \<and> b_next (buffers ?t c) = b_next (buffers s c)" if "c \<in> set (Q j)" for c
      proof -
        have "c \<noteq> b" "c \<notin> set (Q ?k)" using that Qj(3) A False hash_less by (auto simp: queued_def)
        then show ?thesis using q unfolding f by (auto split: list.splits)
      qed
      have "seg ?t None h (Q j) l None = seg s None h (Q j) l None" for h l by (rule seg_cong) (rule out)
      then show ?thesis using Qj(2) False unfolding f by simp
    qed (use new in simp)
    ultimately show "distinct (?Q j) \<and> (\<exists>l. seg ?t None (hash_table ?t j) (?Q j) l None) \<and>
       set (?Q j) = {c \<in> insert b A. hash_of (buffers ?t c) = j}" using st by simp
  qed
qed

section \<open>Looking a block up\<close>

lemma find_buffer_list:
  assumes "seg s m p xs l None"
  shows "loopO (\<lambda>tmp s. case tmp of
              None \<Rightarrow> Ret (Inr None) s
            | Some b \<Rightarrow> if holds dev block (buffers s b) then Ret (Inr (Some b)) s
                        else Ret (Inl (b_next (buffers s b))) s) p s = Ret (List.find (\<lambda>b. holds dev block (buffers s b)) xs) s"
  using assms
  by (induction xs arbitrary: m p) (subst loopO_unfold; auto)+

lemma ucast_dev_eq: "(ucast (a :: u16) :: u32) = ucast b \<longleftrightarrow> a = b"
proof
  assume "(ucast a :: u32) = ucast b"
  then have "(ucast (ucast a :: u32) :: u16) = ucast (ucast b :: u32)" by simp
  then show "a = b" by (simp add: unsigned_ucast_eq take_bit_word_eq_self)
qed simp

lemma find_buffer_cache:
  assumes "cache_ok s" "dev \<noteq> 0"
  shows "\<exists>r. find_buffer dev block s = Ret r s \<and> (\<forall>b. r = Some b \<longleftrightarrow> holds dev block (buffers s b))"
proof -
  let ?A = "{b. b_dev (buffers s b) \<noteq> 0}" and ?k = "hashfn dev block"
  obtain Q where Q: "queued ?A Q s" and tw: "no_twins ?A s" using assms(1) by (auto simp: cache_ok_def Let_def)
  obtain l where l: "seg s None (hash_table s ?k) (Q ?k) l None" and st: "set (Q ?k) = {b \<in> ?A. hash_of (buffers s b) = ?k}"
    using queued_at [OF Q, of dev block] by blast
  have in_q: "b \<in> set (Q ?k)" if "holds dev block (buffers s b)" for b
    using that assms(2) unfolding st by (auto simp: holds_def)
  have one: "b = c" if "holds dev block (buffers s b)" "holds dev block (buffers s c)" for b c
  proof -
    have "(ucast (b_dev (buffers s b)) :: u32) = ucast (b_dev (buffers s c))" using that by (simp add: holds_def)
    then have "b_dev (buffers s b) = b_dev (buffers s c)" by (simp add: ucast_dev_eq)
    moreover have "b_dev (buffers s b) \<noteq> 0" "b_dev (buffers s c) \<noteq> 0" using that assms(2) by (auto simp: holds_def)
    ultimately show ?thesis using tw that unfolding no_twins_def holds_def by auto
  qed
  define r where "r = List.find (\<lambda>b. holds dev block (buffers s b)) (Q ?k)"
  have "r = Some b \<longleftrightarrow> holds dev block (buffers s b)" for b
  proof (cases r)
    case None
    then have "\<not> holds dev block (buffers s b)" using in_q [of b] unfolding r_def by (auto simp: find_None_iff)
    then show ?thesis using None by simp
  next
    case (Some c)
    then have "holds dev block (buffers s c)" unfolding r_def by (auto simp: find_Some_iff)
    then show ?thesis using Some one [of c b] by auto
  qed
  then show ?thesis unfolding find_buffer_def find_buffer_list [OF l] r_def by blast
qed

section \<open>Claiming a buffer\<close>

text \<open>What the hash queues see of a buffer.\<close>

definition hkey :: "buffer_head \<Rightarrow> u16 \<times> u32 \<times> nat option \<times> nat option" where
  "hkey h = (b_dev h, b_blocknr h, b_prev h, b_next h)"

definition hash_same :: "fs \<Rightarrow> fs \<Rightarrow> bool" where
  "hash_same s t \<longleftrightarrow> hash_table t = hash_table s \<and> (\<forall>b. hkey (buffers t b) = hkey (buffers s b))"

lemma hash_same_fields:
  assumes "hash_same s t"
  shows "hash_table t = hash_table s" "b_dev (buffers t b) = b_dev (buffers s b)"
    "b_blocknr (buffers t b) = b_blocknr (buffers s b)" "b_prev (buffers t b) = b_prev (buffers s b)"
    "b_next (buffers t b) = b_next (buffers s b)"
  using assms by (simp_all add: hash_same_def hkey_def)

lemma hash_same_queued: "hash_same s t \<Longrightarrow> queued A Q s \<Longrightarrow> queued A Q t"
  by (rule queued_key) (simp_all add: hash_same_fields)

lemma hash_same_cache: "hash_same s t \<Longrightarrow> cache_ok s \<Longrightarrow> cache_ok t"
  using hash_same_queued [of s t] unfolding cache_ok_def no_twins_def Let_def by (auto simp: hash_same_fields)

lemma unfree_hash: "leads (hash_same s) (\<lambda>_. False) (unfree b s)"
  by (simp add: unfree_def leads_def hash_same_def hkey_def Let_def split: option.split)

lemma enfree_hash: "leads (hash_same s) (\<lambda>_. False) (enfree b s)"
  by (simp add: enfree_def leads_def hash_same_def hkey_def Let_def split: option.split)

text \<open>All buffers but \<open>b\<close> are as they should be, and \<open>b\<close> is in no queue.\<close>

definition cache_but :: "nat \<Rightarrow> fs \<Rightarrow> bool" where
  "cache_but b s \<longleftrightarrow>
     (let A = {c. c \<noteq> b \<and> b_dev (buffers s c) \<noteq> 0} in
      (\<exists>Q. queued A Q s) \<and> no_twins A s \<and>
      (\<forall>c. c \<notin> A \<longrightarrow> c \<noteq> b \<longrightarrow> b_prev (buffers s c) = None \<and> b_next (buffers s c) = None))"

lemma cache_but_cong:
  assumes "cache_but b s" "hash_table t = hash_table s" "\<And>c. c \<noteq> b \<Longrightarrow> hkey (buffers t c) = hkey (buffers s c)"
  shows "cache_but b t"
proof -
  have e: "b_dev (buffers t c) = b_dev (buffers s c)" "b_blocknr (buffers t c) = b_blocknr (buffers s c)"
    "b_prev (buffers t c) = b_prev (buffers s c)" "b_next (buffers t c) = b_next (buffers s c)" if "c \<noteq> b" for c
    using assms(3) [OF that] by (simp_all add: hkey_def)
  let ?A = "{c. c \<noteq> b \<and> b_dev (buffers s c) \<noteq> 0}"
  have A: "{c. c \<noteq> b \<and> b_dev (buffers t c) \<noteq> 0} = ?A" using e by auto
  obtain Q where Q: "queued ?A Q s" using assms(1) by (auto simp: cache_but_def Let_def)
  have "queued ?A Q t" by (rule queued_key [OF Q assms(2)]) (use e in simp)
  moreover have "no_twins ?A t" using assms(1) e by (auto simp: cache_but_def Let_def no_twins_def)
  moreover have "\<forall>c. c \<notin> ?A \<longrightarrow> c \<noteq> b \<longrightarrow> b_prev (buffers t c) = None \<and> b_next (buffers t c) = None"
    using assms(1) e by (auto simp: cache_but_def Let_def)
  ultimately show ?thesis unfolding cache_but_def A Let_def by blast
qed

lemma unhash_but:
  assumes "cache_ok s"
  shows "cache_but b (unhash b s)"
proof -
  let ?A = "{c. b_dev (buffers s c) \<noteq> 0}"
  obtain Q where Q: "queued ?A Q s" and tw: "no_twins ?A s"
    and nul: "\<And>c. b_dev (buffers s c) = 0 \<Longrightarrow> b_prev (buffers s c) = None \<and> b_next (buffers s c) = None"
    using assms by (auto simp: cache_ok_def Let_def)
  have tk: "b_next (buffers s b) \<noteq> Some b" "b_prev (buffers s b) \<noteq> Some b"
    "b_next (buffers s b) = Some c \<Longrightarrow> c \<in> ?A" "b_prev (buffers s b) = Some c \<Longrightarrow> c \<in> ?A"
    if "b_dev (buffers s b) \<noteq> 0" for c
  proof -
    have "b \<in> ?A" using that by simp
    from queuedD [OF Q this] obtain xs ys where xy: "Q (hash_of (buffers s b)) = xs @ b # ys" "distinct (xs @ b # ys)"
      "b_prev (buffers s b) = (if xs = [] then None else Some (last xs))"
      "b_next (buffers s b) = (case ys of [] \<Rightarrow> None | c # _ \<Rightarrow> Some c)" by metis
    have "set (xs @ b # ys) \<subseteq> ?A"
      using queued_at(3) [OF Q, of "ucast (b_dev (buffers s b))" "b_blocknr (buffers s b)"] xy(1) by auto
    moreover from this have "last xs \<in> ?A" if "xs \<noteq> []"
    proof -
      have "last xs \<in> set (xs @ b # ys)" using last_in_set [OF that] by simp
      then show ?thesis using calculation by (rule rev_subsetD)
    qed
    ultimately show "b_next (buffers s b) \<noteq> Some b" "b_prev (buffers s b) \<noteq> Some b"
      "b_next (buffers s b) = Some c \<Longrightarrow> c \<in> ?A" "b_prev (buffers s b) = Some c \<Longrightarrow> c \<in> ?A"
      using xy(2-4) last_in_set [of xs] by (auto split: list.splits if_splits)
  qed
  have own: "b_next (buffers s b) \<noteq> Some b" "b_prev (buffers s b) \<noteq> Some b"
    using tk(1,2) nul [of b] by (cases "b_dev (buffers s b) = 0"; simp)+
  note f = unhash_fields [OF own]
  have A: "{c. c \<noteq> b \<and> b_dev (buffers (unhash b s) c) \<noteq> 0} = ?A - {b}" unfolding f by auto
  have "\<exists>Q. queued (?A - {b}) Q (unhash b s)"
  proof (cases "b_dev (buffers s b) = 0")
    case True
    have "hash_table s (hash_of (buffers s b)) \<noteq> Some b"
      using queue_head [OF Q] True by blast
    then have "queued ?A Q (unhash b s)" by (intro queued_key [OF Q]) (use nul [OF True] in \<open>simp_all add: f Let_def\<close>)
    moreover have "?A - {b} = ?A" using True by auto
    ultimately show ?thesis by auto
  qed (use unhash_queued [OF Q] in auto)
  moreover have "no_twins (?A - {b}) (unhash b s)" using tw unfolding no_twins_def f by auto
  moreover have "b_prev (buffers (unhash b s) c) = None \<and> b_next (buffers (unhash b s) c) = None"
    if "c \<notin> ?A - {b}" "c \<noteq> b" for c
    using that nul [of c] nul [of b] tk(3,4) [of c] unfolding f by (cases "b_dev (buffers s b) = 0") auto
  ultimately show ?thesis unfolding cache_but_def A Let_def by blast
qed

lemma enhash_cache:
  assumes "cache_but b s" "\<And>c. c \<noteq> b \<Longrightarrow> b_dev (buffers s c) = b_dev (buffers s b) \<Longrightarrow>
     b_blocknr (buffers s c) = b_blocknr (buffers s b) \<Longrightarrow> b_dev (buffers s b) = 0"
  shows "cache_ok (enhash b s)"
proof -
  let ?A = "{c. c \<noteq> b \<and> b_dev (buffers s c) \<noteq> 0}"
  obtain Q where Q: "queued ?A Q s" and tw: "no_twins ?A s"
    and nul: "\<And>c. c \<noteq> b \<Longrightarrow> b_dev (buffers s c) = 0 \<Longrightarrow> b_prev (buffers s c) = None \<and> b_next (buffers s c) = None"
    using assms(1) by (auto simp: cache_but_def Let_def)
  show ?thesis
  proof (cases "b_dev (buffers s b) = 0")
    case True
    then have e: "enhash b s = upd_bh b (\<lambda>h. h\<lparr>b_prev := None, b_next := None\<rparr>) s" by (simp add: enhash_def Let_def)
    have A: "{c. b_dev (buffers (enhash b s) c) \<noteq> 0} = ?A" unfolding e using True by auto
    have "queued ?A Q (enhash b s)" by (rule queued_key [OF Q]) (auto simp: e)
    moreover have "no_twins ?A (enhash b s)" using tw unfolding no_twins_def by (simp add: e)
    moreover have "b_prev (buffers (enhash b s) c) = None \<and> b_next (buffers (enhash b s) c) = None" if "c \<notin> ?A" for c
      using that nul [of c] by (auto simp: e)
    ultimately show ?thesis unfolding cache_ok_def A Let_def by blast
  next
    case False
    have hd: "hash_table s (hash_of (buffers s b)) \<noteq> Some b"
      using queue_head [OF Q] by blast
    note f = enhash_fields [OF hd False]
    have hq: "c \<in> ?A" if "hash_table s (hash_of (buffers s b)) = Some c" for c
      using queue_head [OF Q that] .
    have A: "{c. b_dev (buffers (enhash b s) c) \<noteq> 0} = insert b ?A" unfolding f using False by auto
    have "queued (insert b ?A) (Q(hash_of (buffers s b) := b # Q (hash_of (buffers s b)))) (enhash b s)"
      by (rule enhash_queued [OF Q _ False]) simp
    moreover have "no_twins (insert b ?A) (enhash b s)"
      unfolding no_twins_def f
    proof (intro ballI impI)
      fix c d assume cd: "c \<in> insert b ?A" "d \<in> insert b ?A" "b_dev (buffers s c) = b_dev (buffers s d)"
        "b_blocknr (buffers s c) = b_blocknr (buffers s d)"
      have nt: "e = b" if "e \<in> insert b ?A" "b_dev (buffers s e) = b_dev (buffers s b)"
        "b_blocknr (buffers s e) = b_blocknr (buffers s b)" for e
      proof (rule ccontr)
        assume "e \<noteq> b"
        from assms(2) [OF this that(2,3)] show False using False by simp
      qed
      show "c = d"
      proof (cases "c = b \<or> d = b")
        case True
        then show ?thesis using cd nt [of c] nt [of d] by metis
      next
        case no: False
        then have "c \<in> ?A" "d \<in> ?A" using cd(1,2) by blast+
        then show ?thesis using tw cd(3,4) unfolding no_twins_def by blast
      qed
    qed
    moreover have "b_prev (buffers (enhash b s) c) = None \<and> b_next (buffers (enhash b s) c) = None" if "c \<notin> insert b ?A" for c
    proof -
      have c: "c \<noteq> b" "b_dev (buffers s c) = 0" using that by auto
      have "hash_table s (hash_of (buffers s b)) \<noteq> Some c"
      proof
        assume "hash_table s (hash_of (buffers s b)) = Some c"
        from hq [OF this] show False using c(2) by simp
      qed
      then show ?thesis using nul [OF c] c by (simp add: f)
    qed
    ultimately show ?thesis unfolding cache_ok_def A Let_def by blast
  qed
qed

lemma ucast_small: "small dev \<Longrightarrow> (ucast (ucast dev :: u16) :: u32) = dev"
proof -
  assume "small dev"
  then have "uint dev < 65536" by (simp add: small_def word_le_def)
  then show ?thesis by (simp add: word_uint_eq_iff unsigned_ucast_eq unsigned_take_bit_eq take_bit_int_eq_self)
qed

lemma claim_cache:
  assumes "cache_ok s" "small dev" "find_buffer dev block s = Ret None s"
  shows "retains cache_ok (claim_buffer dev block b s)"
proof -
  let ?s1 = "upd_bh b (\<lambda>h. h\<lparr>b_count := 1, b_dirt := 0, b_uptodate := 0\<rparr>) s"
  have none: "\<not> holds dev block (buffers s c)" if "dev \<noteq> 0" for c
    using find_buffer_cache [OF assms(1) that, of block] assms(3) by auto
  have d: "(ucast (ucast dev :: u16) :: u32) = dev" by (rule ucast_small [OF assms(2)])
  have "cache_ok ?s1" by (rule hash_same_cache [OF _ assms(1)]) (simp add: hash_same_def hkey_def)
  then have b2: "cache_but b (unhash b ?s1)" by (rule unhash_but)
  have k2: "b_dev (buffers (unhash b ?s1) c) = b_dev (buffers s c)" "b_blocknr (buffers (unhash b ?s1) c) = b_blocknr (buffers s c)" for c
    by (simp_all add: unhash_def Let_def split: option.split)
  have last: "cache_ok (enhash b v)"
    if u: "hash_same (unhash b ?s1) u" and v: "hash_same (upd_bh b (\<lambda>h. h\<lparr>b_dev := ucast dev, b_blocknr := block\<rparr>) u) v" for u v
  proof (rule enhash_cache)
    have "cache_but b u" by (rule cache_but_cong [OF b2]) (use u in \<open>simp_all add: hash_same_def\<close>)
    then show "cache_but b v" by (rule cache_but_cong) (use v in \<open>simp_all add: hash_same_def\<close>)
    fix c assume c: "c \<noteq> b" "b_dev (buffers v c) = b_dev (buffers v b)" "b_blocknr (buffers v c) = b_blocknr (buffers v b)"
    have "b_dev (buffers v b) = ucast dev" "b_blocknr (buffers v b) = block"
      "b_dev (buffers v c) = b_dev (buffers s c)" "b_blocknr (buffers v c) = b_blocknr (buffers s c)"
      using hash_same_fields [OF v] hash_same_fields [OF u] k2 c(1) by simp_all
    then show "b_dev (buffers v b) = 0" using none [of c] c(2,3) d by (cases "dev = 0") (auto simp: holds_def)
  qed
  show ?thesis
  proof -
    have "leads cache_ok (\<lambda>_. False) (claim_buffer dev block b s)"
      unfolding claim_buffer_def remove_from_queues_def insert_into_queues_def
      by (rule leads_bind [OF unfree_hash], rule leads_bind [OF enfree_hash]) (simp add: leads_def last)
    then show ?thesis by (cases "claim_buffer dev block b s") (simp_all add: leads_def)
  qed
qed

section \<open>The whole file system\<close>

text \<open>Other tasks and the devices keep the queues in order too.\<close>

definition cache_rely :: "kenv \<Rightarrow> bool" where
  "cache_rely E \<longleftrightarrow> (\<forall>n s. cache_ok s \<longrightarrow> cache_ok (k_env E n s)) \<and> (\<forall>m s. cache_ok s \<longrightarrow> retains cache_ok (k_dev E m s))"

definition cached :: "kenv \<Rightarrow> fs \<Rightarrow> bool" where
  "cached E s \<longleftrightarrow> cache_rely E \<and> cache_ok s"

lemma cached_same: "cached E s \<Longrightarrow> hash_table t = hash_table s \<Longrightarrow> (\<And>b. hkey (buffers t b) = hkey (buffers s b)) \<Longrightarrow> cached E t"
  using hash_same_cache [of s t] by (auto simp: cached_def hash_same_def)

lemma same_buffers_signals: "buffers (sched_signals s) = buffers s" "hash_table (sched_signals s) = hash_table s"
  unfolding sched_signals_def by (rule foldl_keeps, simp add: sched_signal_def Let_def)+

lemma same_buffers_recalc: "buffers (recalc s) = buffers s" "hash_table (recalc s) = hash_table s"
  unfolding recalc_def by (rule foldl_keeps, simp add: recalc_one_def Let_def)+

lemma same_buffers_loop:
  "sched_loop s = Some r \<Longrightarrow> buffers (snd r) = buffers s \<and> hash_table (snd r) = hash_table s"
proof (rule sched_loop.raw_induct [of "\<lambda>s r. buffers (snd r) = buffers s \<and> hash_table (snd r) = hash_table s"], goal_cases)
  case (1 f s r)
  show ?case
  proof (cases "fst (pick s) = 0")
    case True
    then have "f (recalc s) = Some r" using 1(3) by (simp add: case_prod_beta)
    from 1(2) [OF this] show ?thesis by (simp add: same_buffers_recalc)
  qed (use 1(3) in \<open>auto simp: case_prod_beta\<close>)
qed

lemma cached_schedule: "cached E s \<Longrightarrow> retains (cached E) (schedule (k_env E) s)"
proof (cases "schedule (k_env E) s")
  case (Ret a t)
  assume c: "cached E s"
  obtain nx s1 n where s1: "sched_loop (sched_signals s) = Some (nx, s1)"
    and t: "t = (k_env E n (switch_to nx s1))\<lparr>budget := n, current := current s\<rparr>"
    using Ret by (auto simp: schedule_def split: option.splits nat.splits)
  have "buffers (switch_to nx s1) = buffers s" "hash_table (switch_to nx s1) = hash_table s"
    using same_buffers_loop [OF s1] by (simp_all add: same_buffers_signals switch_to_def)
  then have "cached E (switch_to nx s1)" using cached_same [OF c] by simp
  then have "cached E (k_env E n (switch_to nx s1))" by (simp add: cached_def cache_rely_def)
  then have "cached E t" unfolding t by (rule cached_same) simp_all
  then show ?thesis using Ret by simp
qed (auto simp: schedule_def split: option.splits nat.splits)

lemma cached_spin: "cached E s \<Longrightarrow> retains (cached E) (spin (k_env E) s)"
proof (cases "budget s")
  case (Suc n)
  assume "cached E s"
  then have "cached E (k_env E n s)" by (simp add: cached_def cache_rely_def)
  then have "cached E ((k_env E n s)\<lparr>budget := n, current := current s\<rparr>)" by (rule cached_same) simp_all
  then show ?thesis using Suc by (simp add: spin_def)
qed (simp add: spin_def)

lemma bkey_hkey: "bkey (f h) = bkey h \<Longrightarrow> hkey (f h) = hkey h"
  by (simp add: hkey_def bkey_def)

lemma cached_dev: "cached E s \<Longrightarrow> retains (cached E) (k_dev E m s)"
proof -
  assume "cached E s"
  then have "retains cache_ok (k_dev E m s)" "cache_rely E" by (simp_all add: cached_def cache_rely_def)
  then show ?thesis by (auto simp: cached_def elim: retains_mono)
qed

lemma cached_claim:
  "cached E s \<Longrightarrow> small dev \<Longrightarrow> find_buffer dev block s = Ret None s \<Longrightarrow> retains (cached E) (claim_buffer dev block b s)"
  using claim_cache [of s dev block b] by (auto simp: cached_def elim: retains_mono)

interpretation hashed: call_frame "cached E" E for E
  by unfold_locales (auto intro: cached_schedule cached_spin cached_dev cached_claim bkey_hkey simp: upd_tty_def upd_con_def
    elim!: cached_same)

section \<open>What \<open>getblk\<close> returns\<close>

lemma wait_on_buffer_post: "wait_on_buffer E b s = Ret u t \<Longrightarrow> b_lock (buffers t b) = 0"
  unfolding wait_on_buffer_def by (drule sleep_while_post) simp

lemma get_hash_table_post:
  assumes "get_hash_table E dev block s = Ret (Some b) t"
  shows "holds dev block (buffers t b) \<and> b_lock (buffers t b) = 0"
proof -
  let ?Q = "\<lambda>r t. \<forall>b. r = Some b \<longrightarrow> holds dev block (buffers t b) \<and> b_lock (buffers t b) = 0"
  have "?Q (Some b) t"
    by (rule loopO_rule [OF assms [unfolded get_hash_table_def], of "\<lambda>_ _. True"])
      (auto simp: bindO_eq_Ret split: option.splits if_splits dest: wait_on_buffer_post)
  then show ?thesis by simp
qed

lemma claim_post:
  assumes "claim_buffer dev block b s = Ret u t" "small dev"
  shows "holds dev block (buffers t b) \<and> b_lock (buffers t b) = b_lock (buffers s b) \<and> b_count (buffers t b) = 1 \<and> b_uptodate (buffers t b) = 0"
proof -
  have d: "(ucast (ucast dev :: u16) :: u32) = dev" by (rule ucast_small [OF assms(2)])
  define g where "g h = (b_lock h, b_count h, b_uptodate h)" for h :: buffer_head
  have un: "leads (\<lambda>t. g (buffers t b) = g (buffers v b)) (\<lambda>_. False) (unfree b v)" for v
    by (simp add: unfree_def leads_def g_def Let_def split: option.split)
  have en: "leads (\<lambda>t. g (buffers t b) = g (buffers v b) \<and> hash_same v t) (\<lambda>_. False) (enfree b v)" for v
    by (simp add: enfree_def leads_def g_def hash_same_def hkey_def Let_def split: option.split)
  have uh: "g (buffers (unhash b v) b) = g (buffers v b)" for v
    by (simp add: unhash_def g_def Let_def split: option.split)
  have eh: "g (buffers (enhash b v) b) = g (buffers v b)" "b_dev (buffers (enhash b v) b) = b_dev (buffers v b)"
    "b_blocknr (buffers (enhash b v) b) = b_blocknr (buffers v b)" for v
    by (simp_all add: enhash_def g_def Let_def poke_def split: option.split)
  have "leads (\<lambda>t. holds dev block (buffers t b) \<and> g (buffers t b) = (b_lock (buffers s b), 1, 0)) (\<lambda>_. False) (claim_buffer dev block b s)"
    unfolding claim_buffer_def remove_from_queues_def insert_into_queues_def
    by (rule leads_bind [OF un], rule leads_bind [OF en])
      (auto simp: leads_def eh uh holds_def hash_same_fields d, (simp add: g_def)+)
  then show ?thesis using assms(1) by (auto simp: leads_def g_def)
qed

lemma clean_buffer_post:
  assumes "clean_buffer sync E b s = Ret False t" "b_lock (buffers s b) = 0"
  shows "b_lock (buffers t b) = 0 \<and> b_dirt (buffers t b) = 0"
proof -
  let ?Q = "\<lambda>r t. r = False \<longrightarrow> b_lock (buffers t b) = 0 \<and> b_dirt (buffers t b) = 0"
  have "?Q False t"
    by (rule loopO_rule [OF assms(1) [unfolded clean_buffer_def], of "\<lambda>_ s. b_lock (buffers s b) = 0"])
      (auto simp: bindO_eq_Ret assms(2) split: if_splits dest: wait_on_buffer_post)
  then show ?thesis by simp
qed

lemma getblk_round_post:
  assumes "getblk_round sync E dev block s = Ret (Inr b) t" "small dev"
  shows "holds dev block (buffers t b) \<and> b_lock (buffers t b) = 0"
proof -
  have "holds dev block (buffers t b) \<and> b_lock (buffers t b) = 0"
    if "wait_on_buffer E b u = Ret () v" "clean_buffer sync E b v = Ret False w" "find_buffer dev block w = Ret None x"
      "claim_buffer dev block b x = Ret () t" for u v w x
    using clean_buffer_post [OF that(2) wait_on_buffer_post [OF that(1)]] find_buffer_state [OF that(3)]
      claim_post [OF that(4) assms(2)] by simp
  then show ?thesis using assms(1)
    by (auto simp: getblk_round_def bindO_eq_Ret split: option.splits if_splits dest: get_hash_table_post)
qed

lemma getblk_post:
  assumes "getblk E dev block s = Ret b t" "small dev"
  shows "holds dev block (buffers t b) \<and> b_lock (buffers t b) = 0"
proof -
  have "getblk_n (Suc 63) E dev block s = Ret b t" using assms(1) by (simp add: getblk_def)
  then show ?thesis unfolding getblk_n.simps(2) getblk_body_def
    by (rule loopO_rule [where I = "\<lambda>_ _. True"]) (simp_all add: getblk_round_post assms(2))
qed

section \<open>The cache at boot\<close>

lemma leads_loop:
  assumes "I v s" "\<And>v s w t. I v s \<Longrightarrow> f v s = Ret (Inl w) t \<Longrightarrow> I w t"
    "\<And>v s a t. I v s \<Longrightarrow> f v s = Ret (Inr a) t \<Longrightarrow> Q t" "\<And>v s c t. I v s \<Longrightarrow> f v s = Exits c t \<Longrightarrow> X t"
  shows "leads Q X (loopO f v s)"
  using loop_opt_rule [of f v s _ I "\<lambda>_. Q" X] assms
  by (cases "loop_opt f v s") (auto simp: loopO_def leads_def)

text \<open>A head in no queue.\<close>

definition idle :: "buffer_head \<Rightarrow> bool" where
  "idle h \<longleftrightarrow> b_dev h = 0 \<and> b_prev h = None \<and> b_next h = None"

lemma idle_cache: "(\<And>b. idle (buffers s b)) \<Longrightarrow> (\<And>k. k < NR_HASH \<Longrightarrow> hash_table s k = None) \<Longrightarrow> cache_ok s"
  unfolding idle_def cache_ok_def Let_def no_twins_def
  by (auto simp: queued_def intro!: exI [of _ "\<lambda>_. []"])

lemma buffer_init_cache:
  assumes "nr_buffers s = 0" "buffer_init buffer_end s = Ret u t" "\<And>b. nr_buffers t \<le> b \<Longrightarrow> idle (buffers s b)"
  shows "cache_ok t"
proof -
  define I where "I = (\<lambda>(b :: u32, n) (t :: fs). nr_buffers t = n \<and> (\<forall>c<n. idle (buffers t c)) \<and> (\<forall>c\<ge>n. buffers t c = buffers s c))"
  define J where "J = (\<lambda>(t :: fs). \<forall>c. idle (buffers t c) \<or> (nr_buffers t \<le> c \<and> buffers t c = buffers s c))"
  have J: "J w" if "I v w" for v w using that unfolding I_def J_def by (cases v) (simp, metis not_less)
  have st: "I (b', Suc n) ((upd_bh n (init_bh d n) w)\<lparr>nr_buffers := Suc (nr_buffers w)\<rparr>)" if "I (b, n) w" for b b' d n w
    using that by (auto simp: I_def init_bh_def idle_def less_Suc_eq)
  have "leads (\<lambda>t. (\<forall>b. nr_buffers t \<le> b \<longrightarrow> idle (buffers s b)) \<longrightarrow> cache_ok t) (\<lambda>_. True) (buffer_init buffer_end s)"
    unfolding buffer_init_def
  proof (rule leads_bind)
    show "leads J (\<lambda>_. True) (loopO (\<lambda>(b, n) s.
              let b = b - 1024 in
              if b \<ge> start_buffer s + 36 * (of_nat n + 1)
              then Ret (Inl (if b = 0x100000 then 0xA0000 else b, n + 1))
                     ((upd_bh n (init_bh b n) s)\<lparr>nr_buffers := nr_buffers s + 1\<rparr>)
              else Ret (Inr n) s)
            (if buffer_end = 0x100000 then 640 * 1024 else buffer_end, 0) s)"
      by (rule leads_loop [where I = I]) (simp add: I_def assms(1), auto simp: Let_def intro: st J split: if_splits)
    fix n v assume v: "J v"
    have ok: "idle (buffers v b)" if "\<forall>b. nr_buffers v \<le> b \<longrightarrow> idle (buffers s b)" for b
      using v that unfolding J_def by metis
    have links: "idle (h\<lparr>b_prev_free := x\<rparr>) = idle h" "idle (h\<lparr>b_next_free := x\<rparr>) = idle h" for h x
      by (simp_all add: idle_def)
    show "leads (\<lambda>t. (\<forall>b. nr_buffers t \<le> b \<longrightarrow> idle (buffers s b)) \<longrightarrow> cache_ok t) (\<lambda>_. True)
      (if n = 0 then Undefined ''no buffers''
       else let s1 = upd_bh 0 (\<lambda>h. h\<lparr>b_prev_free := Some (n - 1)\<rparr>) (v\<lparr>free_list := Some 0\<rparr>);
                s2 = upd_bh (n - 1) (\<lambda>h. h\<lparr>b_next_free := Some 0\<rparr>) s1
            in Ret () (s2\<lparr>hash_table := (\<lambda>k. if k < NR_HASH then None else hash_table s2 k)\<rparr>))"
      by (auto simp: leads_def Let_def links intro!: idle_cache ok)
  qed
  then show ?thesis using assms(2,3) by (simp add: leads_def)
qed

section \<open>A kernel with a RAM disk\<close>

lemma hash_same_end_request:
  "hash_same s0 s \<Longrightarrow> retains (hash_same s0) (end_request m (\<lambda>_ s. Ret () s) u s)"
  by (auto simp: end_request_def Let_def hash_same_def hkey_def unlock_buffer_def split: option.split)

lemma hash_same_rd: "hash_same s0 s \<Longrightarrow> retains (hash_same s0) (rd_transfer r s)"
proof -
  assume a: "hash_same s0 s"
  have "hash_same s0 (rd_write o' q n s)" "hash_same s0 (rd_read q o' n s)" for o' q n
    using a by (simp_all add: rd_write_def rd_read_def hash_same_def hkey_def)
  then show ?thesis using a by (simp add: rd_transfer_def Let_def hash_same_end_request)
qed

lemma hash_same_rd_loop: "hash_same s0 s \<Longrightarrow> retains (hash_same s0) (do_rd_request_loop n s)"
proof (induction n arbitrary: s)
  case (Suc n)
  have "retains (hash_same s0) (INIT_REQUEST 1 s)" using Suc.prems by (simp add: INIT_REQUEST_def split: option.split)
  then show ?case by (auto intro!: retains_bindO hash_same_rd Suc.IH split: option.split)
qed simp

lemma ram_kernel_cache: "cache_rely ram_kernel"
proof -
  have "retains cache_ok (do_rd_request s)" if "cache_ok s" for s
    unfolding do_rd_request_def
    by (rule retains_mono [OF hash_same_rd_loop [of s]]) (use that in \<open>auto simp: hash_same_def elim: hash_same_cache [rotated]\<close>)
  then show ?thesis by (simp add: cache_rely_def ram_kernel_def)
qed

text \<open>One buffer, for block 7 of the RAM disk.\<close>

definition demo_cache :: fs where
  "demo_cache = (undefined :: fs)\<lparr>
     buffers := (\<lambda>b. \<lparr>b_addr = 0, b_data = (\<lambda>i. 0), b_blocknr = 7, b_dev = (if b = 0 then 0x101 else 0), b_uptodate = 1, b_dirt = 0,
       b_count = 0, b_lock = 0, b_wait = 0, b_prev = None, b_next = None, b_prev_free = Some b, b_next_free = Some b\<rparr>),
     hash_table := (\<lambda>k. if k = hashfn 0x101 7 then Some 0 else None), free_list := Some 0\<rparr>"

lemma demo_cache_ok: "cache_ok demo_cache"
proof -
  have A: "{b. b_dev (buffers demo_cache b) \<noteq> 0} = {0}" by (auto simp: demo_cache_def)
  have "queued {0} (\<lambda>k. if k = hashfn 0x101 7 then [0] else []) demo_cache"
    by (auto simp: queued_def demo_cache_def)
  then show ?thesis unfolding cache_ok_def A Let_def by (auto simp: no_twins_def demo_cache_def)
qed

lemma demo_getblk: "\<exists>t. getblk ram_kernel 0x101 7 demo_cache = Ret 0 t"
proof -
  have f: "find_buffer 0x101 7 demo_cache = Ret (Some 0) demo_cache"
    unfolding find_buffer_def by (rule loopO_done) (simp add: demo_cache_def holds_def)
  let ?t = "upd_bh 0 (\<lambda>h. h\<lparr>b_count := b_count h + 1\<rparr>) demo_cache"
  have "get_hash_table ram_kernel 0x101 7 demo_cache = Ret (Some 0) ?t"
    unfolding get_hash_table_def
    by (rule loopO_done) (simp add: f wait_on_buffer_def, simp add: demo_cache_def holds_def)
  then have "getblk_n (Suc 63) ram_kernel 0x101 7 demo_cache = Ret 0 ?t"
    unfolding getblk_n.simps(2) getblk_body_def by (intro loopO_done) (simp add: getblk_round_def)
  then show ?thesis by (auto simp: getblk_def)
qed

section \<open>The properties\<close>

text \<open>C24: However often \<open>getblk\<close> sleeps, waits for locks and writes dirty buffers out while other tasks
  use the cache, the buffer it returns stands for the block asked for, is not
  locked, and is the only buffer for that block; every later lookup finds it.\<close>

theorem getblk_unique:
  assumes "cache_ok s" "cache_rely E" "dev \<noteq> 0" "dev \<le> 0xffff" "getblk E dev block s = Ret b t"
  shows "holds dev block (buffers t b) \<and> b_lock (buffers t b) = 0 \<and>
    (\<forall>c. holds dev block (buffers t c) \<longrightarrow> c = b) \<and> find_buffer dev block t = Ret (Some b) t \<and> cache_ok t"
proof -
  have sm: "small dev" using assms(4) by (simp add: small_def)
  have "retains (cached E) (getblk E dev block s)"
    by (rule hashed.keep_getblk) (use assms(1,2) sm in \<open>simp_all add: cached_def\<close>)
  then have ok: "cache_ok t" using assms(5) by (simp add: cached_def)
  note post = getblk_post [OF assms(5) sm]
  obtain r where "find_buffer dev block t = Ret r t" "\<And>c. r = Some c \<longleftrightarrow> holds dev block (buffers t c)"
    using find_buffer_cache [OF ok assms(3)] by blast
  then show ?thesis using post ok by (metis option.inject)
qed

theorem getblk_unique_witness:
  "\<exists>t. getblk ram_kernel 0x101 7 demo_cache = Ret 0 t \<and> holds 0x101 7 (buffers t 0) \<and> b_lock (buffers t 0) = 0 \<and>
    (\<forall>c. holds 0x101 7 (buffers t c) \<longrightarrow> c = 0) \<and> find_buffer 0x101 7 t = Ret (Some 0) t \<and> cache_ok t"
proof -
  obtain t where t: "getblk ram_kernel 0x101 7 demo_cache = Ret 0 t" using demo_getblk by blast
  show ?thesis using getblk_unique [OF demo_cache_ok ram_kernel_cache _ _ t] t by auto
qed

text \<open>A cache about to be set up: two heads with arbitrary contents, and no others.\<close>

definition demo_heads :: fs where
  "demo_heads = demo_cache\<lparr>start_buffer := 0x200000, nr_buffers := 0,
     buffers := (\<lambda>b. (buffers demo_cache 1)\<lparr>b_dev := (if b < 2 then 0x101 else 0), b_next := (if b < 2 then Some 1 else None)\<rparr>)\<rparr>"

lemma demo_heads_init:
  "\<exists>t. buffer_init 0x200C00 demo_heads = Ret () t \<and> nr_buffers t = 2"
  by (simp add: buffer_init_def demo_heads_def loopO_unfold Let_def)

section \<open>The operations\<close>

text \<open>C25: The hash queues of the buffer cache are doubly linked lists that hold every buffer with a
  device once, in the queue of its block, and no block has two buffers.  Initialisation establishes this whatever
  the heads it makes held before, and it is kept, whatever they wait for, by reading a block, with or without read-ahead, releasing a
  buffer, writing the caches back, noticing a changed disk, allocating and freeing the blocks of a
  file, releasing, fetching and allocating inodes, directory lookup and insertion, and by the system calls that open, close,
  duplicate, read, write and control descriptors, make pipes, nodes, directories and links, remove them, tell and change the
  attributes of a file, change the directories of a process, and mount and unmount.\<close>

theorem cache_kept:
  assumes "cache_ok s" "cache_rely E" "dev \<le> 0xffff"
    and "nr_buffers s0 = 0" "buffer_init buffer_end s0 = Ret () t0" "\<And>b. nr_buffers t0 \<le> b \<Longrightarrow> idle (buffers s0 b)"
  shows "cache_ok t0 \<and> retains cache_ok (bread E dev block s) \<and> retains cache_ok (breada E dev block blocks s) \<and>
    retains cache_ok (brelse E buf s) \<and> retains cache_ok (sync_dev E dev s) \<and> retains cache_ok (sys_sync E s) \<and>
    retains cache_ok (check_disk_change E dev s) \<and> retains cache_ok (create_block E i nr s) \<and> retains cache_ok (truncate E i s) \<and>
    retains cache_ok (iput E ip s) \<and> retains cache_ok (iget E dev ino s) \<and> retains cache_ok (new_inode E dev s) \<and>
    retains cache_ok (find_entry E i name len s) \<and> retains cache_ok (add_entry E i name len s) \<and>
    retains cache_ok (namei E path s) \<and> retains cache_ok (sys_open E path flag mode s) \<and>
    retains cache_ok (sys_creat E path mode s) \<and> retains cache_ok (sys_close E fd s) \<and> retains cache_ok (sys_dup2 E fd fd' s) \<and>
    retains cache_ok (sys_pipe E buffer s) \<and> retains cache_ok (sys_read E fd buffer count s) \<and>
    retains cache_ok (sys_write E fd buffer count s) \<and> retains cache_ok (sys_ioctl fd cmd arg s) \<and>
    retains cache_ok (sys_mknod E path mode node s) \<and> retains cache_ok (sys_mkdir E path mode s) \<and>
    retains cache_ok (sys_rmdir E path s) \<and> retains cache_ok (sys_unlink E path s) \<and> retains cache_ok (sys_link E path path' s) \<and>
    retains cache_ok (sys_stat E junk path buffer s) \<and> retains cache_ok (sys_fstat junk fd buffer s) \<and>
    retains cache_ok (sys_utime E path tp s) \<and> retains cache_ok (sys_access E path mode s) \<and>
    retains cache_ok (sys_chdir E path s) \<and> retains cache_ok (sys_chroot E path s) \<and> retains cache_ok (sys_chmod E path mode s) \<and>
    retains cache_ok (sys_chown E path u g s) \<and> retains cache_ok (sys_mount E path path' s) \<and> retains cache_ok (sys_umount E path s)"
proof -
  have sm: "small dev" using assms(3) by (simp add: small_def)
  have c: "cached E s" using assms(1,2) by (simp add: cached_def)
  have k: "retains (cached E) m \<Longrightarrow> retains cache_ok m" for m :: "(fs, 'x) outcome"
    by (erule retains_mono) (simp add: cached_def)
  show ?thesis
    by (intro conjI buffer_init_cache [OF assms(4-6)]
        k [OF hashed.keep_bread] k [OF hashed.keep_breada] k [OF hashed.keep_brelse] k [OF hashed.keep_sync_dev] k [OF hashed.keep_sys_sync]
        k [OF hashed.keep_check_disk_change] k [OF hashed.keep_create_block] k [OF hashed.keep_truncate] k [OF hashed.keep_iput]
        k [OF hashed.keep_iget] k [OF hashed.keep_new_inode] k [OF hashed.keep_find_entry] k [OF hashed.keep_add_entry] k [OF hashed.keep_namei]
        k [OF hashed.keep_sys_open] k [OF hashed.keep_sys_creat] k [OF hashed.keep_sys_close] k [OF hashed.keep_sys_dup2]
        k [OF hashed.keep_sys_pipe] k [OF hashed.keep_sys_read] k [OF hashed.keep_sys_write] k [OF hashed.keep_sys_ioctl]
        k [OF hashed.keep_sys_mknod] k [OF hashed.keep_sys_mkdir] k [OF hashed.keep_sys_rmdir] k [OF hashed.keep_sys_unlink]
        k [OF hashed.keep_sys_link] k [OF hashed.keep_sys_stat] k [OF hashed.keep_sys_fstat] k [OF hashed.keep_sys_utime]
        k [OF hashed.keep_sys_access] k [OF hashed.keep_sys_chdir] k [OF hashed.keep_sys_chroot] k [OF hashed.keep_sys_chmod]
        k [OF hashed.keep_sys_chown] k [OF hashed.keep_sys_mount] k [OF hashed.keep_sys_umount] c sm)
qed

theorem cache_kept_witness:
  "\<exists>t. buffer_init 0x200C00 demo_heads = Ret () t \<and>
    cache_ok t \<and> retains cache_ok (bread ram_kernel 0x101 7 demo_cache) \<and>
    retains cache_ok (breada ram_kernel 0x101 7 [8] demo_cache) \<and> retains cache_ok (brelse ram_kernel (Some 0) demo_cache) \<and>
    retains cache_ok (sync_dev ram_kernel 0x101 demo_cache) \<and> retains cache_ok (sys_sync ram_kernel demo_cache) \<and>
    retains cache_ok (check_disk_change ram_kernel 0x101 demo_cache) \<and> retains cache_ok (create_block ram_kernel 0 0 demo_cache) \<and>
    retains cache_ok (truncate ram_kernel 0 demo_cache) \<and> retains cache_ok (iput ram_kernel (Some 0) demo_cache) \<and>
    retains cache_ok (iget ram_kernel 0x101 1 demo_cache) \<and> retains cache_ok (new_inode ram_kernel 0x101 demo_cache) \<and>
    retains cache_ok (find_entry ram_kernel 0 0 5 demo_cache) \<and> retains cache_ok (add_entry ram_kernel 0 0 5 demo_cache) \<and>
    retains cache_ok (namei ram_kernel 0 demo_cache) \<and> retains cache_ok (sys_open ram_kernel 0 0x42 0x1ff demo_cache) \<and>
    retains cache_ok (sys_creat ram_kernel 0 0x1ff demo_cache) \<and> retains cache_ok (sys_close ram_kernel 0 demo_cache) \<and>
    retains cache_ok (sys_dup2 ram_kernel 0 1 demo_cache) \<and> retains cache_ok (sys_pipe ram_kernel 0 demo_cache) \<and>
    retains cache_ok (sys_read ram_kernel 0 0 5 demo_cache) \<and> retains cache_ok (sys_write ram_kernel 0 0 5 demo_cache) \<and>
    retains cache_ok (sys_ioctl 0 0x5401 0 demo_cache) \<and> retains cache_ok (sys_mknod ram_kernel 0 0x1ff 0x101 demo_cache) \<and>
    retains cache_ok (sys_mkdir ram_kernel 0 0x1ff demo_cache) \<and> retains cache_ok (sys_rmdir ram_kernel 0 demo_cache) \<and>
    retains cache_ok (sys_unlink ram_kernel 0 demo_cache) \<and> retains cache_ok (sys_link ram_kernel 0 8 demo_cache) \<and>
    retains cache_ok (sys_stat ram_kernel (\<lambda>i. 0) 0 0 demo_cache) \<and>
    retains cache_ok (sys_fstat (\<lambda>i. 0) 0 0 demo_cache) \<and> retains cache_ok (sys_utime ram_kernel 0 0 demo_cache) \<and>
    retains cache_ok (sys_access ram_kernel 0 0x1ff demo_cache) \<and> retains cache_ok (sys_chdir ram_kernel 0 demo_cache) \<and>
    retains cache_ok (sys_chroot ram_kernel 0 demo_cache) \<and> retains cache_ok (sys_chmod ram_kernel 0 0x1ff demo_cache) \<and>
    retains cache_ok (sys_chown ram_kernel 0 1 1 demo_cache) \<and> retains cache_ok (sys_mount ram_kernel 0 8 demo_cache) \<and>
    retains cache_ok (sys_umount ram_kernel 0 demo_cache)"
proof -
  obtain t where t: "buffer_init 0x200C00 demo_heads = Ret () t" "nr_buffers t = 2" using demo_heads_init by blast
  show ?thesis
    by (rule exI [of _ t], rule conjI [OF t(1)], rule cache_kept [OF demo_cache_ok ram_kernel_cache _ _ t(1)])
      (simp_all add: t(2) demo_heads_def idle_def demo_cache_def)
qed

end
