(* ===== verification/Phys_Bytes.thy ===== *)
theory Phys_Bytes
  imports Fs_Data
begin

unbundle bit_operations_syntax

text \<open>
  Bytes of physical memory: what a byte store changes.
\<close>

lemma split_address: "(a :: u32) AND NOT 3 = b AND NOT 3 \<Longrightarrow> a AND 3 = b AND 3 \<Longrightarrow> a = b"
  by (metis bit.conj_cancel_right bit.conj_disj_distrib bit.disj_cancel_right word_bw_same(1) and.right_neutral)

lemma byte_index: "unat ((a :: u32) AND 3) < 4"
proof -
  have "a AND 3 = take_bit 2 a" by (simp add: take_bit_eq_mask mask_eq_exp_minus_1)
  then have "unat (a AND 3) = take_bit 2 (unat a)" by (simp only: unsigned_take_bit_eq)
  then show ?thesis using take_bit_nat_less_exp [of 2 "unat a"] by simp
qed

lemma byte_of_put:
  assumes "j < 4" "k < 4"
  shows "byte_of ((w AND NOT (push_bit (8 * k) 0xff)) OR push_bit (8 * k) (ucast (v :: u8))) j = (if j = k then v else byte_of w j)"
proof (rule bit_word_eqI)
  fix n assume "n < LENGTH(8)"
  then have n: "n < 8" by simp
  have m: "(0xff :: u32) = mask 8" by (simp add: mask_eq_exp_minus_1)
  show "bit (byte_of ((w AND NOT (push_bit (8 * k) 0xff)) OR push_bit (8 * k) (ucast v)) j) n = bit (if j = k then v else byte_of w j) n"
    unfolding m using n assms by (auto simp: byte_of_def bit_simps dest: bit_imp_le_length)
qed

lemma get_put_pbyte: "get_pbyte a (put_pbyte v b s) = (if a = b then v else get_pbyte a s)"
proof (cases "a AND NOT 3 = b AND NOT 3")
  case True
  have e: "unat (a AND 3) = unat (b AND 3) \<longleftrightarrow> a = b" using split_address [OF True] word_unat_eq_iff [of "a AND 3" "b AND 3"] by auto
  have "get_pbyte a (put_pbyte v b s) = byte_of ((pmem s (b AND NOT 3) AND NOT (push_bit (8 * unat (b AND 3)) 0xff)) OR
      push_bit (8 * unat (b AND 3)) (ucast v)) (unat (a AND 3))"
    unfolding get_pbyte_def put_pbyte_def Let_def poke_def True by simp
  also have "\<dots> = (if a = b then v else byte_of (pmem s (b AND NOT 3)) (unat (a AND 3)))"
    by (simp only: byte_of_put [OF byte_index byte_index] e)
  finally show ?thesis unfolding get_pbyte_def True .
next
  case False
  then show ?thesis by (auto simp: get_pbyte_def put_pbyte_def poke_def Let_def)
qed

lemma put_pbyte_keeps [simp]:
  "inode_table (put_pbyte v a s) = inode_table s" "umem (put_pbyte v a s) = umem s" "current (put_pbyte v a s) = current s"
  "tstruct (put_pbyte v a s) = tstruct s" "get_fs_byte c (put_pbyte v a s) = get_fs_byte c s" for s :: fs
  by (simp_all add: put_pbyte_def poke_def Let_def get_fs_byte_def)

end
