(* ===== verification/Pipe_Props.thy ===== *)
theory Pipe_Props
  imports Fs_Frame Phys_Bytes
begin

unbundle bit_operations_syntax

text \<open>
  A pipe is a queue of bytes: the circular buffer of \<open>src/fs/pipe.c\<close>, in a page of
  physical memory, refines it.
\<close>

section \<open>The queue\<close>

definition pipe_bytes :: "nat \<Rightarrow> fs \<Rightarrow> u8 list" where
  "pipe_bytes i s =
     (let m = inode_table s i in
      map (\<lambda>k. get_pbyte (i_size m + of_nat ((unat (i_zone m 1) + k) mod 4096)) s) [0..<nat (PIPE_SIZE m)])"

text \<open>Head and tail are offsets into the page.\<close>

definition pipe_ok :: "nat \<Rightarrow> fs \<Rightarrow> bool" where
  "pipe_ok i s \<longleftrightarrow> unat (zone_of i 0 s) < 4096 \<and> unat (zone_of i 1 s) < 4096"

lemma length_pipe_bytes [simp]: "length (pipe_bytes i s) = nat (PIPE_SIZE (inode_table s i))"
  by (simp add: pipe_bytes_def Let_def)

lemma pipe_size_range: "0 \<le> PIPE_SIZE m" "PIPE_SIZE m < 4096"
  by (simp_all add: PIPE_SIZE_def)

lemma pipe_addr_inj:
  "j < 4096 \<Longrightarrow> k < 4096 \<Longrightarrow> (p :: u32) + of_nat j = p + of_nat k \<longleftrightarrow> j = k"
proof -
  assume a: "j < 4096" "k < 4096"
  have u: "unat (of_nat x :: u32) = x" if "x < 4096" for x using that by (simp add: unat_of_nat)
  have "(of_nat j :: u32) = of_nat k \<longleftrightarrow> j = k" using u [OF a(1)] u [OF a(2)] by metis
  then show ?thesis by simp
qed

section \<open>Writing\<close>

definition pipe_store :: "nat \<Rightarrow> u32 \<Rightarrow> u16 \<Rightarrow> nat \<Rightarrow> fs \<Rightarrow> fs" where
  "pipe_store i buf h n s = foldl (\<lambda>s k. put_pbyte (get_fs_byte (buf + of_nat k) s)
     (i_size (inode_table s i) + ucast h + of_nat k) s) s [0..<n]"

lemma pipe_store_keeps [simp]:
  "inode_table (pipe_store i buf h n s) = inode_table s" "umem (pipe_store i buf h n s) = umem s"
  "current (pipe_store i buf h n s) = current s" "tstruct (pipe_store i buf h n s) = tstruct s"
  "get_fs_byte c (pipe_store i buf h n s) = get_fs_byte c s"
  by (induction n) (simp_all add: pipe_store_def)

lemma pipe_store_byte:
  assumes "unat h + n \<le> 4096" "j < 4096"
  shows "get_pbyte (i_size (inode_table s i) + of_nat j) (pipe_store i buf h n s) =
    (if unat h \<le> j \<and> j < unat h + n then get_fs_byte (buf + of_nat (j - unat h)) s
     else get_pbyte (i_size (inode_table s i) + of_nat j) s)"
  using assms(1)
proof (induction n)
  case 0
  then show ?case by (auto simp: pipe_store_def)
next
  case (Suc n)
  have st: "pipe_store i buf h (Suc n) s = put_pbyte (get_fs_byte (buf + of_nat n) s)
      (i_size (inode_table s i) + of_nat (unat h + n)) (pipe_store i buf h n s)"
    using pipe_store_keeps(1,5) [where i = i and buf = buf and h = h and n = n and s = s] by (simp add: pipe_store_def add.assoc)
  show ?case
    unfolding st get_put_pbyte using Suc pipe_addr_inj [of j "unat h + n"] assms(2) by auto
qed

lemma page_mod: "(a :: nat) < 8192 \<Longrightarrow> a mod 4096 = (if a < 4096 then a else a - 4096)"
  by (auto simp: le_mod_geq)

lemma unat_16_add:
  assumes "unat (z :: u16) < 4096" "n \<le> 4096"
  shows "unat ((z + of_nat n) AND 0xfff) = (unat z + n) mod 4096"
proof -
  have m: "(0xfff :: u16) = mask 12" by (simp add: mask_eq_exp_minus_1)
  have "unat (z + of_nat n) = unat z + n"
    using assms by (simp add: unat_word_ariths unat_of_nat)
  then show ?thesis unfolding m take_bit_eq_mask [symmetric] unsigned_take_bit_eq by (simp add: take_bit_nat_def)
qed

lemma upt_shift: "[0..<z + n] = [0..<z] @ map (\<lambda>j. z + j) [0..<n]"
  by (induction n) simp_all

text \<open>Positions in the page: head \<open>h\<close>, tail \<open>l\<close> and the number \<open>z\<close> of bytes between them.\<close>

definition span :: "nat \<Rightarrow> nat \<Rightarrow> nat" where
  "span h l = (if l \<le> h then h - l else h + 4096 - l)"

lemma span_mod:
  assumes "h < 4096" "l < 4096"
  shows "nat ((int h - int l) mod 4096) = span h l"
proof (cases "l \<le> h")
  case True
  then have "(int h - int l) mod 4096 = int (h - l)" using assms by (subst mod_pos_pos_trivial) (simp_all add: of_nat_diff)
  then show ?thesis using True by (simp add: span_def)
next
  case False
  have "(int h - int l) mod 4096 = (int h - int l + 4096) mod 4096" by simp
  also have "int h - int l + 4096 = int (h + 4096 - l)" using assms by (simp add: of_nat_diff)
  also have "int (h + 4096 - l) mod 4096 = int (h + 4096 - l)" using assms False by (intro mod_pos_pos_trivial) simp_all
  finally show ?thesis using False by (simp add: span_def)
qed

lemma span_less: "h < 4096 \<Longrightarrow> l < 4096 \<Longrightarrow> span h l < 4096"
  by (auto simp: span_def)

lemma span_write:
  assumes "h < 4096" "l < 4096" "h + n \<le> 4096" "span h l + n \<le> 4095"
  shows "span ((h + n) mod 4096) l = span h l + n"
    "k < span h l \<Longrightarrow> \<not> (h \<le> (l + k) mod 4096 \<and> (l + k) mod 4096 < h + n)"
    "j < n \<Longrightarrow> (l + (span h l + j)) mod 4096 = h + j"
  using assms page_mod [of "h + n"] page_mod [of "l + k"] page_mod [of "l + (span h l + j)"]
  by (auto simp: span_def split: if_splits)

lemma span_read:
  assumes "h < 4096" "l < 4096" "l + n \<le> 4096" "n \<le> span h l"
  shows "span h ((l + n) mod 4096) = span h l - n" "k < span h l - n \<Longrightarrow> ((l + n) mod 4096 + k) mod 4096 = (l + (n + k)) mod 4096"
    "j < n \<Longrightarrow> (l + j) mod 4096 = l + j"
  using assms page_mod [of "l + n"] page_mod [of "(l + n) mod 4096 + k"] page_mod [of "l + (n + k)"]
  by (auto simp: span_def split: if_splits)

lemma pipe_size_span: "pipe_ok i s \<Longrightarrow> nat (PIPE_SIZE (inode_table s i)) = span (unat (zone_of i 0 s)) (unat (zone_of i 1 s))"
  using span_mod [of "unat (zone_of i 0 s)" "unat (zone_of i 1 s)"] by (simp add: pipe_ok_def PIPE_SIZE_def)

text \<open>One round of \<open>write_pipe\<close> appends the bytes it has room for up to the end of the page.\<close>

lemma write_round:
  assumes ok: "pipe_ok i s" and n: "unat (zone_of i 0 s) + n \<le> 4096" "nat (PIPE_SIZE (inode_table s i)) + n \<le> 4095"
    and t: "t = pipe_store i buf (zone_of i 0 s) n (adv_pipe i 0 (int n) s)"
  shows "pipe_ok i t" "pipe_bytes i t = pipe_bytes i s @ get_fs_bytes n buf s"
    "i_size (inode_table t i) = i_size (inode_table s i)" "get_fs_byte c t = get_fs_byte c s"
proof -
  let ?h = "unat (zone_of i 0 s)" and ?l = "unat (zone_of i 1 s)" and ?z = "nat (PIPE_SIZE (inode_table s i))"
  let ?pg = "i_size (inode_table s i)"
  have r: "?h < 4096" "?l < 4096" using ok by (simp_all add: pipe_ok_def)
  have adv: "unat (zone_of i 0 (adv_pipe i 0 (int n) s)) = (?h + n) mod 4096" "zone_of i 1 (adv_pipe i 0 (int n) s) = zone_of i 1 s"
    using unat_16_add [OF r(1), of n] n by (simp_all add: adv_pipe_def set_zone_def)
  have it: "inode_table t = inode_table (adv_pipe i 0 (int n) s)" by (simp add: t)
  show pk: "pipe_ok i t" using adv r by (simp add: pipe_ok_def it)
  show sz: "i_size (inode_table t i) = ?pg" by (simp add: it adv_pipe_def set_zone_def)
  show "get_fs_byte c t = get_fs_byte c s" by (simp add: t adv_pipe_def set_zone_def get_fs_byte_def)
  note zc = pipe_size_span [OF ok]
  note sw = span_write [OF r n(1) n(2) [unfolded zc]]
  have z: "nat (PIPE_SIZE (inode_table t i)) = ?z + n" using pipe_size_span [OF pk] zc adv sw(1) by (simp add: it)
  have mem: "get_pbyte (?pg + of_nat j) t = (if ?h \<le> j \<and> j < ?h + n then get_fs_byte (buf + of_nat (j - ?h)) s
      else get_pbyte (?pg + of_nat j) s)" if "j < 4096" for j
    using pipe_store_byte [OF n(1) that, of "adv_pipe i 0 (int n) s" i buf]
    by (simp add: t adv_pipe_def set_zone_def get_fs_byte_def get_pbyte_def upd_inode_def)
  have old: "get_pbyte (?pg + of_nat ((?l + k) mod 4096)) t = get_pbyte (?pg + of_nat ((?l + k) mod 4096)) s" if "k < ?z" for k
  proof -
    have "\<not> (?h \<le> (?l + k) mod 4096 \<and> (?l + k) mod 4096 < ?h + n)" using sw(2) that zc by simp
    then show ?thesis using mem [of "(?l + k) mod 4096"] by auto
  qed
  have new: "get_pbyte (?pg + of_nat ((?l + (?z + j)) mod 4096)) t = get_fs_byte (buf + of_nat j) s" if "j < n" for j
  proof -
    have "(?l + (?z + j)) mod 4096 = ?h + j" using sw(3) [OF that] zc by simp
    then show ?thesis using mem [of "?h + j"] that n by simp
  qed
  have "pipe_bytes i t = map (\<lambda>k. get_pbyte (?pg + of_nat ((?l + k) mod 4096)) t) [0..<?z + n]"
    unfolding pipe_bytes_def Let_def z sz using adv(2) by (simp add: it)
  also have "\<dots> = map (\<lambda>k. get_pbyte (?pg + of_nat ((?l + k) mod 4096)) t) [0..<?z] @
      map (\<lambda>j. get_pbyte (?pg + of_nat ((?l + (?z + j)) mod 4096)) t) [0..<n]"
    unfolding upt_shift map_append map_map o_def ..
  also have "\<dots> = pipe_bytes i s @ get_fs_bytes n buf s"
    using old new by (simp add: pipe_bytes_def get_fs_bytes_def Let_def)
  finally show "pipe_bytes i t = pipe_bytes i s @ get_fs_bytes n buf s" .
qed

section \<open>Reading\<close>

definition pipe_fetch :: "nat \<Rightarrow> u16 \<Rightarrow> nat \<Rightarrow> fs \<Rightarrow> u8 list" where
  "pipe_fetch i l n s = map (\<lambda>k. get_pbyte (i_size (inode_table s i) + ucast l + of_nat k) s) [0..<n]"

lemma put_fs_bytes_keeps [simp]:
  "inode_table (put_fs_bytes bs a s) = inode_table s" "pmem (put_fs_bytes bs a s) = pmem s"
  "current (put_fs_bytes bs a s) = current s" for s :: fs
proof -
  have "inode_table (fold (\<lambda>(i, b) s. put_fs_byte b (a + of_nat i) s) xs s) = inode_table s \<and>
    pmem (fold (\<lambda>(i, b) s. put_fs_byte b (a + of_nat i) s) xs s) = pmem s \<and>
    current (fold (\<lambda>(i, b) s. put_fs_byte b (a + of_nat i) s) xs s) = current s" for xs
    by (induction xs arbitrary: s) (auto simp: put_fs_byte_def)
  then show "inode_table (put_fs_bytes bs a s) = inode_table s" "pmem (put_fs_bytes bs a s) = pmem s"
    "current (put_fs_bytes bs a s) = current s" by (simp_all add: put_fs_bytes_def)
qed

lemma read_round:
  assumes ok: "pipe_ok i s" and n: "unat (zone_of i 1 s) + n \<le> 4096" "n \<le> nat (PIPE_SIZE (inode_table s i))"
    and t: "t = put_fs_bytes bs buf (adv_pipe i 1 (int n) s)"
  shows "pipe_ok i t" "pipe_bytes i t = drop n (pipe_bytes i s)" "pipe_fetch i (zone_of i 1 s) n (adv_pipe i 1 (int n) s) = take n (pipe_bytes i s)"
proof -
  let ?h = "unat (zone_of i 0 s)" and ?l = "unat (zone_of i 1 s)" and ?z = "nat (PIPE_SIZE (inode_table s i))"
  let ?pg = "i_size (inode_table s i)"
  have r: "?h < 4096" "?l < 4096" using ok by (simp_all add: pipe_ok_def)
  have adv: "unat (zone_of i 1 (adv_pipe i 1 (int n) s)) = (?l + n) mod 4096" "zone_of i 0 (adv_pipe i 1 (int n) s) = zone_of i 0 s"
    using unat_16_add [OF r(2), of n] n by (simp_all add: adv_pipe_def set_zone_def)
  have it: "inode_table t = inode_table (adv_pipe i 1 (int n) s)" by (simp add: t)
  have ia: "i_size (inode_table (adv_pipe i 1 (int n) s) i) = ?pg" "get_pbyte a (adv_pipe i 1 (int n) s) = get_pbyte a s"
    "get_pbyte a t = get_pbyte a s" for a
    by (simp_all add: t adv_pipe_def set_zone_def get_pbyte_def)
  show pk: "pipe_ok i t" using adv r by (simp add: pipe_ok_def it)
  note zc = pipe_size_span [OF ok]
  note sr = span_read [OF r n(1) n(2) [unfolded zc]]
  have z: "nat (PIPE_SIZE (inode_table t i)) = ?z - n" using pipe_size_span [OF pk] zc adv sr(1) by (simp add: it)
  show "pipe_bytes i t = drop n (pipe_bytes i s)"
  proof (rule nth_equalityI)
    fix k assume "k < length (pipe_bytes i t)"
    then have k: "k < ?z - n" using z by simp
    then have "n + k < ?z" using n(2) by linarith
    then show "pipe_bytes i t ! k = drop n (pipe_bytes i s) ! k"
      using k sr(2) [OF k [unfolded zc]] z n(2) by (simp add: pipe_bytes_def Let_def it ia adv(1) del: One_nat_def)
  qed (use z in simp)
  show "pipe_fetch i (zone_of i 1 s) n (adv_pipe i 1 (int n) s) = take n (pipe_bytes i s)"
  proof (rule nth_equalityI)
    fix j assume "j < length (pipe_fetch i (zone_of i 1 s) n (adv_pipe i 1 (int n) s))"
    then have j: "j < n" by (simp add: pipe_fetch_def)
    then have "(?l + j) mod 4096 = ?l + j" by (rule sr(3))
    then show "pipe_fetch i (zone_of i 1 s) n (adv_pipe i 1 (int n) s) ! j = take n (pipe_bytes i s) ! j"
      using j n(2) by (simp add: pipe_fetch_def pipe_bytes_def Let_def ia add.assoc del: One_nat_def)
  qed (use n(2) in \<open>simp add: pipe_fetch_def\<close>)
qed

section \<open>The loops\<close>

lemma wake_inode_pipe [simp]:
  "pipe_ok i (wake_inode i s) = pipe_ok i s" "pipe_bytes i (wake_inode i s) = pipe_bytes i s"
  "get_fs_byte c (wake_inode i s) = get_fs_byte c s" "inode_table (wake_inode i s) = inode_table s"
  by (simp_all add: wake_inode_def pipe_ok_def pipe_bytes_def Let_def get_pbyte_def get_fs_byte_def)

lemma get_fs_bytes_split: "n \<le> c \<Longrightarrow> get_fs_bytes c buf s = get_fs_bytes n buf s @ get_fs_bytes (c - n) (buf + of_nat n) s"
  using upt_shift [of n "c - n"] by (simp add: get_fs_bytes_def o_def add.assoc)

lemma get_fs_bytes_cong: "(\<And>a. get_fs_byte a t = get_fs_byte a s) \<Longrightarrow> get_fs_bytes n buf t = get_fs_bytes n buf s"
  by (simp add: get_fs_bytes_def)

lemma pipe_chars_nat:
  assumes "unat p < 4096" "int c \<le> room"
  shows "pipe_chars p (int c) room = int (min (4096 - unat p) c)"
proof -
  have "4096 - uint p = int (4096 - unat p)" using assms(1) by (simp add: of_nat_diff)
  then show ?thesis using assms(2) by (simp add: pipe_chars_def)
qed

lemma write_loop:
  assumes "pipe_ok i s" "c + length (pipe_bytes i s) \<le> 4095"
  shows "\<exists>t. loopO (write_pipe_step E i) (int c, buf, w) s = Ret (w + int c) t \<and> pipe_ok i t \<and>
    pipe_bytes i t = pipe_bytes i s @ get_fs_bytes c buf s \<and> (\<forall>a. get_fs_byte a t = get_fs_byte a s)"
  using assms
proof (induction c arbitrary: buf w s rule: less_induct)
  case (less c)
  show ?case
  proof (cases "c = 0")
    case True
    have "loopO (write_pipe_step E i) (int c, buf, w) s = Ret w (wake_inode i s)"
      by (rule loopO_done) (simp add: write_pipe_step_def True)
    then show ?thesis using less.prems(1) True by (simp add: get_fs_bytes_def)
  next
    case False
    let ?h = "unat (zone_of i 0 s)" and ?z = "PIPE_SIZE (inode_table s i)"
    define n where "n = min (4096 - ?h) c"
    have h: "?h < 4096" using less.prems(1) by (simp add: pipe_ok_def)
    have z: "nat ?z + c \<le> 4095" "0 \<le> ?z" using less.prems(2) pipe_size_range by (simp_all add: add.commute)
    have n: "?h + n \<le> 4096" "nat ?z + n \<le> 4095" "0 < n" "n \<le> c" using h z(1) False by (auto simp: n_def)
    have ch: "pipe_chars (zone_of i 0 s) (int c) (4095 - ?z) = int n"
      unfolding n_def by (rule pipe_chars_nat [OF h]) (use z in linarith)
    define t where "t = pipe_store i buf (zone_of i 0 s) n (adv_pipe i 0 (int n) s)"
    note wr = write_round [OF less.prems(1) n(1,2) t_def]
    have sz: "4095 - ?z \<noteq> 0" using z False by linarith
    have "write_pipe_step E i (int c, buf, w) s = Ret (Inl (int c - int n, buf + of_nat n, w + int n)) t"
      unfolding write_pipe_step_def prod.case Let_def ch t_def pipe_store_def using False sz by simp
    then have "loopO (write_pipe_step E i) (int c, buf, w) s = loopO (write_pipe_step E i) (int (c - n), buf + of_nat n, w + int n) t"
      using n(4) by (simp add: loopO_again of_nat_diff)
    moreover have "pipe_ok i t" "c - n + length (pipe_bytes i t) \<le> 4095" "c - n < c"
      using wr(1,2) n less.prems(2) by (simp_all add: get_fs_bytes_def)
    note less.IH [OF this(3,1,2), of "buf + of_nat n" "w + int n"]
    ultimately show ?thesis using wr(2,4) n(4) get_fs_bytes_split [OF n(4), of buf s] get_fs_bytes_cong [of t s]
      by (auto simp: of_nat_diff)
  qed
qed

lemma get_put_fs_bytes:
  assumes "length bs \<le> 4096"
  shows "j < length bs \<Longrightarrow> get_fs_byte (a + of_nat j) (put_fs_bytes bs a s) = bs ! j"
    "(\<And>j. j < length bs \<Longrightarrow> x \<noteq> a + of_nat j) \<Longrightarrow> get_fs_byte x (put_fs_bytes bs a s) = get_fs_byte x s"
proof -
  have gp: "get_fs_byte x (put_fs_byte v b s) = (if x = b then v else get_fs_byte x s)" for x v b and s :: "'z sched_scheme"
    by (simp add: get_fs_byte_def put_fs_byte_def)
  have st: "put_fs_bytes (bs @ [v]) a s = put_fs_byte v (a + of_nat (length bs)) (put_fs_bytes bs a s)" for bs v
    by (simp add: put_fs_bytes_def enumerate_append_eq)
  have "(\<forall>j<length bs. get_fs_byte (a + of_nat j) (put_fs_bytes bs a s) = bs ! j) \<and>
    (\<forall>x. (\<forall>j<length bs. x \<noteq> a + of_nat j) \<longrightarrow> get_fs_byte x (put_fs_bytes bs a s) = get_fs_byte x s)"
    using assms
  proof (induction bs rule: rev_induct)
    case Nil
    then show ?case by (simp add: put_fs_bytes_def)
  next
    case (snoc v bs)
    have ne: "a + of_nat j \<noteq> a + of_nat (length bs)" if "j < length bs" for j
      using that snoc.prems pipe_addr_inj [of j "length bs" a] by simp
    show ?case using snoc ne by (auto simp: st gp nth_append less_Suc_eq)
  qed
  then show "j < length bs \<Longrightarrow> get_fs_byte (a + of_nat j) (put_fs_bytes bs a s) = bs ! j"
    "(\<And>j. j < length bs \<Longrightarrow> x \<noteq> a + of_nat j) \<Longrightarrow> get_fs_byte x (put_fs_bytes bs a s) = get_fs_byte x s" by auto
qed

lemma read_loop:
  assumes "pipe_ok i s" "c \<le> length (pipe_bytes i s)"
  shows "\<exists>t. loopO (read_pipe_step E i) (int c, buf, w) s = Ret (w + int c) t \<and> pipe_ok i t \<and>
    pipe_bytes i t = drop c (pipe_bytes i s) \<and> get_fs_bytes c buf t = take c (pipe_bytes i s) \<and>
    (\<forall>a. (\<forall>j<c. a \<noteq> buf + of_nat j) \<longrightarrow> get_fs_byte a t = get_fs_byte a s)"
  using assms
proof (induction c arbitrary: buf w s rule: less_induct)
  case (less c)
  show ?case
  proof (cases "c = 0")
    case True
    have "loopO (read_pipe_step E i) (int c, buf, w) s = Ret w (wake_inode i s)"
      by (rule loopO_done) (simp add: read_pipe_step_def True)
    then show ?thesis using less.prems(1) True by (simp add: get_fs_bytes_def)
  next
    case False
    let ?l = "unat (zone_of i 1 s)" and ?z = "PIPE_SIZE (inode_table s i)"
    define n where "n = min (4096 - ?l) c"
    have l: "?l < 4096" using less.prems(1) by (simp add: pipe_ok_def)
    have z: "c \<le> nat ?z" "0 \<le> ?z" "?z < 4096" using less.prems(2) pipe_size_range by simp_all
    have n: "?l + n \<le> 4096" "n \<le> nat ?z" "0 < n" "n \<le> c" using l z(1) False by (auto simp: n_def)
    have ch: "pipe_chars (zone_of i 1 s) (int c) ?z = int n"
      unfolding n_def by (rule pipe_chars_nat [OF l]) (use z in linarith)
    define bs where "bs = pipe_fetch i (zone_of i 1 s) n (adv_pipe i 1 (int n) s)"
    define t where "t = put_fs_bytes bs buf (adv_pipe i 1 (int n) s)"
    note rd = read_round [OF less.prems(1) n(1,2) t_def]
    have bs: "bs = take n (pipe_bytes i s)" "length bs = n" using rd(3) n(2) by (simp_all add: bs_def)
    have sz: "?z \<noteq> 0" using z False by linarith
    have "read_pipe_step E i (int c, buf, w) s = Ret (Inl (int c - int n, buf + of_nat n, w + int n)) t"
      unfolding read_pipe_step_def prod.case Let_def ch t_def bs_def pipe_fetch_def using False sz by simp
    then have lp: "loopO (read_pipe_step E i) (int c, buf, w) s = loopO (read_pipe_step E i) (int (c - n), buf + of_nat n, w + int n) t"
      using n(4) by (simp add: loopO_again of_nat_diff)
    have "pipe_ok i t" "c - n \<le> length (pipe_bytes i t)" "c - n < c"
      using rd(1,2) n less.prems(2) by simp_all
    from less.IH [OF this(3,1,2), of "buf + of_nat n" "w + int n"] obtain u where
      u: "loopO (read_pipe_step E i) (int (c - n), buf + of_nat n, w + int n) t = Ret (w + int c) u" "pipe_ok i u"
        "pipe_bytes i u = drop (c - n) (pipe_bytes i t)" "get_fs_bytes (c - n) (buf + of_nat n) u = take (c - n) (pipe_bytes i t)"
        "\<forall>a. (\<forall>j<c - n. a \<noteq> buf + of_nat n + of_nat j) \<longrightarrow> get_fs_byte a u = get_fs_byte a t"
      using n(4) by (auto simp: of_nat_diff)
    have c4: "c < 4096" using z by linarith
    have fresh: "buf + of_nat j \<noteq> buf + of_nat n + of_nat k" if "j < n" "k < c - n" for j k
      using that c4 pipe_addr_inj [of j "n + k" buf] by (simp add: add.assoc)
    have first: "get_fs_byte (buf + of_nat j) u = bs ! j" if "j < n" for j
      using u(5) fresh [OF that] get_put_fs_bytes(1) [of bs j buf] that bs(2) n l by (simp add: t_def)
    have g: "get_fs_bytes n buf u = bs" using first bs(2) by (intro nth_equalityI) (simp_all add: get_fs_bytes_def)
    have "get_fs_byte a u = get_fs_byte a s" if a: "\<forall>j<c. a \<noteq> buf + of_nat j" for a
    proof -
      have "a \<noteq> buf + of_nat n + of_nat k" if "k < c - n" for k
        using a [rule_format, of "n + k"] that by (simp add: add.assoc)
      moreover have "get_fs_byte a t = get_fs_byte a (adv_pipe i 1 (int n) s)"
        unfolding t_def by (rule get_put_fs_bytes(2)) (use a n bs(2) l in auto)
      ultimately show ?thesis using u(5) by (simp add: adv_pipe_def set_zone_def get_fs_byte_def)
    qed
    moreover have "get_fs_bytes c buf u = take c (pipe_bytes i s)"
      unfolding get_fs_bytes_split [OF n(4)] g u(4) bs(1) rd(2) using n(4) by (simp add: take_drop [symmetric] take_add [symmetric])
    moreover have "pipe_bytes i u = drop c (pipe_bytes i s)" using u(3) rd(2) n(4) by simp
    ultimately show ?thesis using lp u(1,2) by auto
  qed
qed

text \<open>C27: A pipe is a queue of at most 4095 bytes.  A write that fits returns at once with the count asked for and
  appends exactly the bytes of the user's buffer; a read of bytes that are there returns at once, takes
  them from the front in order, across the end of the page, and changes no other byte of
  the user's memory; a read of an empty pipe that has no writer returns 0, and a write to a full
  pipe that has no reader fails and raises \<open>SIGPIPE\<close>.\<close>

theorem pipe_is_queue:
  assumes "pipe_ok i s"
  shows "(c + length (pipe_bytes i s) \<le> 4095 \<longrightarrow>
      (\<exists>t. write_pipe E i buf (int c) s = Ret (int c) t \<and> pipe_ok i t \<and>
         pipe_bytes i t = pipe_bytes i s @ get_fs_bytes c buf s \<and> (\<forall>a. get_fs_byte a t = get_fs_byte a s))) \<and>
    (c \<le> length (pipe_bytes i s) \<longrightarrow>
      (\<exists>t. read_pipe E i buf (int c) s = Ret (int c) t \<and> pipe_ok i t \<and>
         pipe_bytes i s = get_fs_bytes c buf t @ pipe_bytes i t \<and>
         (\<forall>a. (\<forall>j<c. a \<noteq> buf + of_nat j) \<longrightarrow> get_fs_byte a t = get_fs_byte a s))) \<and>
    (0 < c \<and> i_count (inode_table s i) \<noteq> 2 \<longrightarrow>
      (pipe_bytes i s = [] \<longrightarrow> (\<exists>t. read_pipe E i buf (int c) s = Ret 0 t \<and> pipe_bytes i t = [])) \<and>
      (length (pipe_bytes i s) = 4095 \<longrightarrow>
        (\<exists>t. write_pipe E i buf (int c) s = Ret (- 1) t \<and> pipe_bytes i t = pipe_bytes i s \<and> bit (signal (cur t)) (SIGPIPE - 1))))"
proof (intro conjI impI)
  show "\<exists>t. write_pipe E i buf (int c) s = Ret (int c) t \<and> pipe_ok i t \<and>
      pipe_bytes i t = pipe_bytes i s @ get_fs_bytes c buf s \<and> (\<forall>a. get_fs_byte a t = get_fs_byte a s)"
    if "c + length (pipe_bytes i s) \<le> 4095"
    using write_loop [OF assms that, of E buf 0] by (simp add: write_pipe_def)
  show "\<exists>t. read_pipe E i buf (int c) s = Ret (int c) t \<and> pipe_ok i t \<and> pipe_bytes i s = get_fs_bytes c buf t @ pipe_bytes i t \<and>
      (\<forall>a. (\<forall>j<c. a \<noteq> buf + of_nat j) \<longrightarrow> get_fs_byte a t = get_fs_byte a s)" if "c \<le> length (pipe_bytes i s)"
    using read_loop [OF assms that, of E buf 0] by (auto simp: read_pipe_def)
  assume c: "0 < c \<and> i_count (inode_table s i) \<noteq> 2"
  show "\<exists>t. read_pipe E i buf (int c) s = Ret 0 t \<and> pipe_bytes i t = []" if "pipe_bytes i s = []"
  proof -
    have "PIPE_SIZE (inode_table s i) = 0" using that length_pipe_bytes [of i s] pipe_size_range(1) [of "inode_table s i"] by simp
    then have "read_pipe E i buf (int c) s = Ret 0 (wake_inode i s)"
      unfolding read_pipe_def by (intro loopO_done) (use c in \<open>simp add: read_pipe_step_def\<close>)
    then show ?thesis using that by simp
  qed
  show "\<exists>t. write_pipe E i buf (int c) s = Ret (- 1) t \<and> pipe_bytes i t = pipe_bytes i s \<and> bit (signal (cur t)) (SIGPIPE - 1)"
    if "length (pipe_bytes i s) = 4095"
  proof -
    let ?t = "upd_cur (\<lambda>t. t\<lparr>signal := signal t OR sigbit SIGPIPE\<rparr>) (wake_inode i s)"
    have "PIPE_SIZE (inode_table s i) = 4095" using that length_pipe_bytes [of i s] by simp
    then have "write_pipe E i buf (int c) s = Ret (- 1) ?t"
      unfolding write_pipe_def by (intro loopO_done) (use c in \<open>simp add: write_pipe_step_def Let_def\<close>)
    moreover have "pipe_bytes i ?t = pipe_bytes i (wake_inode i s)" by (simp add: pipe_bytes_def Let_def get_pbyte_def)
    moreover have "bit (signal (cur ?t)) (SIGPIPE - 1)" by (simp add: cur_def sigbit_def bit_simps)
    ultimately show ?thesis by auto
  qed
qed

text \<open>An empty pipe whose next byte is the last but one of its page.\<close>

definition demo_pipe :: fs where
  "demo_pipe = (undefined :: fs)\<lparr>inode_table := (\<lambda>i. (undefined :: m_inode)\<lparr>i_size := 0x200000, i_count := 2, i_zone := (\<lambda>_. 4094)\<rparr>)\<rparr>"

theorem pipe_is_queue_witness:
  "\<exists>t u. write_pipe ram_kernel 7 0x1000 3 demo_pipe = Ret 3 t \<and> pipe_bytes 7 t = get_fs_bytes 3 0x1000 demo_pipe \<and>
     read_pipe ram_kernel 7 0x2000 3 t = Ret 3 u \<and> get_fs_bytes 3 0x2000 u = get_fs_bytes 3 0x1000 demo_pipe"
proof -
  have d: "pipe_ok 7 demo_pipe" "pipe_bytes 7 demo_pipe = []"
    by (simp_all add: pipe_ok_def pipe_bytes_def demo_pipe_def PIPE_SIZE_def Let_def)
  obtain t where t: "write_pipe ram_kernel 7 0x1000 3 demo_pipe = Ret 3 t" "pipe_ok 7 t"
    "pipe_bytes 7 t = get_fs_bytes 3 0x1000 demo_pipe"
    using pipe_is_queue [OF d(1), where c = 3 and E = ram_kernel and buf = "0x1000"] d(2) by auto
  have l: "length (pipe_bytes 7 t) = 3" unfolding t(3) by (simp add: get_fs_bytes_def)
  have "\<exists>u. read_pipe ram_kernel 7 0x2000 3 t = Ret 3 u \<and> pipe_bytes 7 t = get_fs_bytes 3 0x2000 u @ pipe_bytes 7 u"
    using pipe_is_queue [OF t(2), where c = 3 and E = ram_kernel and buf = "0x2000"] l by auto
  then obtain u where u: "read_pipe ram_kernel 7 0x2000 3 t = Ret 3 u" "pipe_bytes 7 t = get_fs_bytes 3 0x2000 u @ pipe_bytes 7 u"
    by blast
  have "length (pipe_bytes 7 u) = 0" using arg_cong [OF u(2), of length] l by (simp add: get_fs_bytes_def)
  then have "pipe_bytes 7 u = []" by (simp only: length_0_conv)
  then show ?thesis using t u by auto
qed

end
