(* ===== verification/File_Props.thy ===== *)
theory File_Props
  imports Namei
begin

unbundle bit_operations_syntax

text \<open>
  Seeking, the layout of inodes on the disk, and permissions.
\<close>

section \<open>Seeking\<close>

lemma s32_sum:
  assumes "0 \<le> p" "in_s32 p" "in_s32 d" "0 \<le> s32 (p + d)"
  shows "s32 (p + d) = p + d"
proof (cases "p + d < 2147483648")
  case True
  then show ?thesis using assms by (intro s32_id) (simp add: in_s32_def)
next
  case False
  have "(p + d + 2147483648) mod 4294967296 = (p + d + 2147483648 - 4294967296) mod 4294967296"
    by (rule minus_mod_self2 [symmetric])
  also have "\<dots> = p + d + 2147483648 - 4294967296"
    using False assms(2,3) by (intro mod_pos_pos_trivial) (simp_all add: in_s32_def)
  finally have "s32 (p + d) = p + d - 4294967296" by (simp add: s32_def)
  then show ?thesis using assms by (simp add: in_s32_def)
qed

definition demo_seek :: fs where
  "demo_seek = (undefined :: fs)\<lparr>current := 4096,
     tstruct := (\<lambda>p. (undefined :: task_struct)\<lparr>filp := (\<lambda>fd. if fd = 3 then Some 9 else None)\<rparr>),
     file_table := (\<lambda>f. (undefined :: file_struct)\<lparr>f_inode := Some 4, f_pos := 100\<rparr>),
     inode_table := (\<lambda>i. (undefined :: m_inode)\<lparr>i_dev := 0x301, i_pipe := 0, i_size := 2000\<rparr>)\<rparr>"

text \<open>A seek leaves the position of the file between 0 and the largest \<open>long\<close>: it returns the new position,
  which is the offset or, counted from the old position, exactly the sum, and changes nothing but
  that position; or it returns an error and changes nothing, also when the sum overflows.\<close>

theorem sys_lseek_bounds:
  assumes "in_s32 offset" "\<And>f. fd_file fd s = Some f \<Longrightarrow> 0 \<le> pos_of f s \<and> in_s32 (pos_of f s)"
  shows "case sys_lseek fd offset whence s of (r, t) \<Rightarrow>
    if 0 \<le> r then r < 2 ^ 31 \<and> (\<exists>f. fd_file fd s = Some f \<and> t = upd_file f (\<lambda>h. h\<lparr>f_pos := r\<rparr>) s \<and>
       (whence = 0 \<and> r = offset \<or> whence = 1 \<and> r = pos_of f s + offset \<or> whence = 2))
    else r \<in> {- EBADF, - ESPIPE, - EINVAL} \<and> t = s"
proof (cases "fd_file fd s")
  case None
  then show ?thesis by (simp add: sys_lseek_def)
next
  case (Some f)
  have p: "0 \<le> pos_of f s" "in_s32 (pos_of f s)" using assms(2) [OF Some] by simp_all
  have "s32 x < 2 ^ 31" for x using in_s32_s32 [of x] by (simp add: in_s32_def)
  moreover have "s32 (pos_of f s + offset) = pos_of f s + offset" if "0 \<le> s32 (pos_of f s + offset)"
    by (rule s32_sum [OF p assms(1) that])
  ultimately show ?thesis
    using Some assms(1) by (auto simp: sys_lseek_def Let_def in_s32_def split: option.split)
qed

theorem sys_lseek_bounds_witness:
  "case sys_lseek 3 (- 60) 1 demo_seek of (r, t) \<Rightarrow>
    if 0 \<le> r then r < 2 ^ 31 \<and> (\<exists>f. fd_file 3 demo_seek = Some f \<and> t = upd_file f (\<lambda>h. h\<lparr>f_pos := r\<rparr>) demo_seek \<and>
       ((1 :: int) = 0 \<and> r = - 60 \<or> (1 :: int) = 1 \<and> r = pos_of f demo_seek + - 60 \<or> (1 :: int) = 2))
    else r \<in> {- EBADF, - ESPIPE, - EINVAL} \<and> t = demo_seek"
  by (rule sys_lseek_bounds) (simp_all add: in_s32_def demo_seek_def)

section \<open>Inodes on the disk\<close>

text \<open>The bytes a record occupies, one word at a time.\<close>

lemma put_u16_other: "j \<noteq> k \<Longrightarrow> j \<noteq> k + 1 \<Longrightarrow> put_u16 k v d j = d j"
  by (simp add: put_u16_def)

lemma put_u32_other: "j < k \<or> k + 3 < j \<Longrightarrow> put_u32 k v d j = d j"
  by (auto simp: put_u32_def put_u16_def)

lemma get_u16_cong: "d k = e k \<Longrightarrow> d (k + 1) = e (k + 1) \<Longrightarrow> get_u16 d k = get_u16 e k"
  by (simp add: get_u16_def)

lemma get_u32_cong: "(\<And>j. k \<le> j \<Longrightarrow> j < k + 4 \<Longrightarrow> d j = e j) \<Longrightarrow> get_u32 d k = get_u32 e k"
  by (simp add: get_u32_def get_u16_def)

definition put_zones :: "nat \<Rightarrow> nat \<Rightarrow> m_inode \<Rightarrow> (nat \<Rightarrow> u8) \<Rightarrow> nat \<Rightarrow> u8" where
  "put_zones n k m d = foldl (\<lambda>d z. put_u16 (k + 14 + 2 * z) (i_zone m z) d) d [0..<n]"

lemma put_zones_other: "j < k + 14 \<or> k + 14 + 2 * n \<le> j \<Longrightarrow> put_zones n k m d j = d j"
  by (induction n) (auto simp: put_zones_def put_u16_def)

lemma put_zones_get: "z < n \<Longrightarrow> get_u16 (put_zones n k m d) (k + 14 + 2 * z) = i_zone m z"
proof (induction n)
  case (Suc n)
  have st: "put_zones (Suc n) k m d = put_u16 (k + 14 + 2 * n) (i_zone m n) (put_zones n k m d)"
    by (simp add: put_zones_def)
  show ?case
  proof (cases "z = n")
    case True
    then show ?thesis unfolding st by (simp add: get_put_u16)
  next
    case False
    then have "z < n" using Suc.prems by simp
    then show ?thesis unfolding st by (subst get_put_u16_other) (use Suc.IH in auto)
  qed
qed simp

lemma put_d_inode_zones:
  "put_d_inode k m d = put_zones 9 k m ((put_u32 (k + 8) (i_mtime m) (put_u32 (k + 4) (i_size m)
           (put_u16 (k + 2) (i_uid m) (put_u16 k (i_mode m) d))))(k + 12 := i_gid m, k + 13 := i_nlinks m))"
  by (simp add: put_d_inode_def put_zones_def)

lemma put_d_inode_outside: "j < k \<or> k + 32 \<le> j \<Longrightarrow> put_d_inode k m d j = d j"
  unfolding put_d_inode_zones by (subst put_zones_other) (auto simp: put_u32_other put_u16_other)

lemma put_d_inode_head:
  assumes "j < k + 14"
  shows "put_d_inode k m d j = ((put_u32 (k + 8) (i_mtime m) (put_u32 (k + 4) (i_size m)
           (put_u16 (k + 2) (i_uid m) (put_u16 k (i_mode m) d))))(k + 12 := i_gid m, k + 13 := i_nlinks m)) j"
  unfolding put_d_inode_zones by (rule put_zones_other) (use assms in simp)

lemma d_inode_fields:
  shows "get_u16 (put_d_inode k m d) k = i_mode m" "get_u16 (put_d_inode k m d) (k + 2) = i_uid m"
    "get_u32 (put_d_inode k m d) (k + 4) = i_size m" "get_u32 (put_d_inode k m d) (k + 8) = i_mtime m"
    "put_d_inode k m d (k + 12) = i_gid m" "put_d_inode k m d (k + 13) = i_nlinks m"
    "z < 9 \<Longrightarrow> get_u16 (put_d_inode k m d) (k + 14 + 2 * z) = i_zone m z"
proof -
  note h = put_d_inode_head
  have "get_u16 (put_d_inode k m d) k = get_u16 (put_u16 k (i_mode m) d) k"
    by (rule get_u16_cong) (simp_all add: h put_u32_other put_u16_other)
  then show "get_u16 (put_d_inode k m d) k = i_mode m" by (simp add: get_put_u16)
  have "get_u16 (put_d_inode k m d) (k + 2) = get_u16 (put_u16 (k + 2) (i_uid m) (put_u16 k (i_mode m) d)) (k + 2)"
    by (rule get_u16_cong) (simp_all add: h put_u32_other)
  then show "get_u16 (put_d_inode k m d) (k + 2) = i_uid m" by (simp add: get_put_u16)
  have "get_u32 (put_d_inode k m d) (k + 4) = get_u32 (put_u32 (k + 4) (i_size m) (put_u16 (k + 2) (i_uid m) (put_u16 k (i_mode m) d))) (k + 4)"
    by (rule get_u32_cong) (simp add: h put_u32_other [of _ "k + 8"])
  then show "get_u32 (put_d_inode k m d) (k + 4) = i_size m" by (simp add: get_put_u32)
  have "get_u32 (put_d_inode k m d) (k + 8) = get_u32 (put_u32 (k + 8) (i_mtime m) (put_u32 (k + 4) (i_size m)
           (put_u16 (k + 2) (i_uid m) (put_u16 k (i_mode m) d)))) (k + 8)"
    by (rule get_u32_cong) (simp add: h)
  then show "get_u32 (put_d_inode k m d) (k + 8) = i_mtime m" by (simp add: get_put_u32)
  show "put_d_inode k m d (k + 12) = i_gid m" "put_d_inode k m d (k + 13) = i_nlinks m" by (simp_all add: h)
  show "z < 9 \<Longrightarrow> get_u16 (put_d_inode k m d) (k + 14 + 2 * z) = i_zone m z"
    unfolding put_d_inode_zones by (rule put_zones_get)
qed

text \<open>Writing an inode into its 32 bytes of a block and reading it back gives all of its stored fields, and the
  other records of the block are not touched.\<close>

theorem d_inode_roundtrip:
  assumes "j + 32 \<le> k \<or> k + 32 \<le> j"
  shows "get_d_inode (put_d_inode k m d) k x = x\<lparr>i_mode := i_mode m, i_uid := i_uid m, i_size := i_size m, i_mtime := i_mtime m,
      i_gid := i_gid m, i_nlinks := i_nlinks m, i_zone := (\<lambda>z. if z < 9 then i_zone m z else i_zone x z)\<rparr> \<and>
    get_d_inode (put_d_inode k m d) j x = get_d_inode d j x"
proof
  show "get_d_inode (put_d_inode k m d) k x = x\<lparr>i_mode := i_mode m, i_uid := i_uid m, i_size := i_size m, i_mtime := i_mtime m,
      i_gid := i_gid m, i_nlinks := i_nlinks m, i_zone := (\<lambda>z. if z < 9 then i_zone m z else i_zone x z)\<rparr>"
    unfolding get_d_inode_def d_inode_fields by (simp add: d_inode_fields(7) cong: if_cong)
  have b: "put_d_inode k m d i = d i" if "j \<le> i" "i < j + 32" for i
    using assms that by (intro put_d_inode_outside) auto
  have w: "get_u16 (put_d_inode k m d) (j + 14 + 2 * z) = get_u16 d (j + 14 + 2 * z)" if "z < 9" for z
    using that by (intro get_u16_cong b) auto
  have "get_u16 (put_d_inode k m d) j = get_u16 d j" "get_u16 (put_d_inode k m d) (j + 2) = get_u16 d (j + 2)"
    by (intro get_u16_cong b; simp)+
  moreover have "get_u32 (put_d_inode k m d) (j + 4) = get_u32 d (j + 4)" "get_u32 (put_d_inode k m d) (j + 8) = get_u32 d (j + 8)"
    by (intro get_u32_cong b; simp)+
  moreover have "put_d_inode k m d (j + 12) = d (j + 12)" "put_d_inode k m d (j + 13) = d (j + 13)" by (simp_all add: b)
  ultimately show "get_d_inode (put_d_inode k m d) j x = get_d_inode d j x"
    unfolding get_d_inode_def by (simp add: w cong: if_cong)
qed

definition demo_inode :: m_inode where
  "demo_inode = zero_inode\<lparr>i_mode := 0x81a4, i_size := 77, i_nlinks := 1, i_zone := (\<lambda>z. of_nat (z + 5))\<rparr>"

theorem d_inode_roundtrip_witness:
  "get_d_inode (put_d_inode 64 demo_inode (\<lambda>_. 0)) 64 zero_inode =
     zero_inode\<lparr>i_mode := i_mode demo_inode, i_uid := i_uid demo_inode, i_size := i_size demo_inode, i_mtime := i_mtime demo_inode,
      i_gid := i_gid demo_inode, i_nlinks := i_nlinks demo_inode, i_zone := (\<lambda>z. if z < 9 then i_zone demo_inode z else i_zone zero_inode z)\<rparr> \<and>
    get_d_inode (put_d_inode 64 demo_inode (\<lambda>_. 0)) 96 zero_inode = get_d_inode (\<lambda>_. 0) 96 zero_inode"
  by (rule d_inode_roundtrip) simp

section \<open>Permissions\<close>

text \<open>Which three bits of the mode count: the owner's, the group's or the others'.\<close>

definition class_shift :: "nat \<Rightarrow> fs \<Rightarrow> nat" where
  "class_shift i s = (if euid (cur s) = i_uid (inode_table s i) then 6
     else if egid (cur s) = ucast (i_gid (inode_table s i)) then 3 else 0)"

text \<open>A task gets the kinds of access it asks for exactly when it is the super user or all of their bits are set in the mode for
  the one class it belongs to, the owner before the group before the others; a file that
  has been deleted gives no one access.\<close>

theorem permission_classes:
  assumes "msk \<le> 7"
  shows "permission i msk s \<longleftrightarrow>
    \<not> (i_dev (inode_table s i) \<noteq> 0 \<and> i_nlinks (inode_table s i) = 0) \<and>
    (suser s \<or> (\<forall>k<3. bit msk k \<longrightarrow> bit (i_mode (inode_table s i)) (class_shift i s + k)))"
proof -
  have m7: "(7 :: u32) = mask 3" by (simp add: mask_eq_exp_minus_1)
  have "unat msk < 2 ^ 3" using assms by (simp add: word_le_nat_alt)
  then have t: "take_bit 3 msk = msk" by (simp add: word_unat_eq_iff unsigned_take_bit_eq take_bit_nat_eq_self)
  have "x AND msk AND 7 = msk \<longleftrightarrow> (\<forall>k<3. bit msk k \<longrightarrow> bit x k)" for x :: u32
  proof -
    have "x AND msk AND 7 = x AND msk" using t unfolding m7 by (simp add: and.assoc take_bit_eq_mask)
    moreover have "x AND msk = msk \<longleftrightarrow> (\<forall>k<3. bit msk k \<longrightarrow> bit x k)"
    proof
      assume e: "x AND msk = msk"
      show "\<forall>k<3. bit msk k \<longrightarrow> bit x k" using arg_cong [OF e, of "\<lambda>w. bit w k" for k] by (auto simp: bit_simps)
    next
      assume a: "\<forall>k<3. bit msk k \<longrightarrow> bit x k"
      have "k < 3" if "bit msk k" for k using arg_cong [OF t, of "\<lambda>w. bit w k"] that by (simp add: bit_simps)
      then show "x AND msk = msk" using a by (auto intro!: bit_eqI simp: bit_simps)
    qed
    ultimately show ?thesis by simp
  qed
  moreover have "bit (drop_bit n (ucast (i_mode (inode_table s i)) :: u32)) k = bit (i_mode (inode_table s i)) (n + k)"
    if "n \<le> 6" "k < 3" for n k using that by (simp add: bit_simps)
  ultimately show ?thesis
    by (auto simp: permission_def class_shift_def Let_def bit_simps)
qed

definition demo_perm :: fs where
  "demo_perm = (undefined :: fs)\<lparr>tstruct := (\<lambda>p. (undefined :: task_struct)\<lparr>euid := 7, egid := 3\<rparr>),
     inode_table := (\<lambda>i. zero_inode\<lparr>i_mode := 0x1a4, i_uid := 9, i_gid := 3, i_nlinks := 1, i_dev := 0x301\<rparr>)\<rparr>"

theorem permission_classes_witness:
  "permission 2 MAY_READ demo_perm \<and> \<not> permission 2 MAY_WRITE demo_perm"
  using permission_classes [of MAY_READ 2 demo_perm] permission_classes [of MAY_WRITE 2 demo_perm]
  by (auto simp: demo_perm_def class_shift_def cur_def suser_def zero_inode_def bit_simps bit_numeral_rec less_Suc_eq numeral_3_eq_3 bit_1_iff)

end
