(* ===== verification/Demand.thy ===== *)
theory Demand
  imports Inode Syscalls
begin

unbundle bit_operations_syntax

text \<open>
  Demand loading, the rest of \<open>src/mm/memory.c\<close>: sharing a page with another process
  that runs the same program, and loading it from the executable file.
\<close>

text \<open>The slots from \<open>LAST_TASK\<close> down.\<close>

primrec share_with :: "nat list \<Rightarrow> u32 \<Rightarrow> fs \<Rightarrow> (fs, int) outcome" where
  "share_with [] address s = Ret 0 s"
| "share_with (i # is) address s =
     (if task s i = 0 \<or> task s i = current s \<or> executable (tstruct s (task s i)) \<noteq> executable (cur s)
      then share_with is address s
      else bindO (try_to_share address (start_code (tstruct s (task s i))) (start_code (cur s)) s) (\<lambda>r s.
           if r \<noteq> 0 then Ret 1 s else share_with is address s))"

definition share_page :: "u32 \<Rightarrow> fs \<Rightarrow> (fs, int) outcome" where
  "share_page address s =
     (case executable (cur s) of
        None \<Rightarrow> Ret 0 s
      | Some i \<Rightarrow> if i_count (inode_table s i) < 2 then Ret 0 s
                  else share_with (rev [1..<NR_TASKS]) address s)"

primrec bmaps :: "kenv \<Rightarrow> nat \<Rightarrow> int \<Rightarrow> nat \<Rightarrow> fs \<Rightarrow> (fs, u32 list) outcome" where
  "bmaps E i block 0 s = Ret [] s"
| "bmaps E i block (Suc n) s =
     bindO (bmap E i block s) (\<lambda>z s. bindO (bmaps E i (block + 1) n s) (\<lambda>zs s. Ret (of_int z # zs) s))"

text \<open>The bytes of the page from its end downwards; none when the count is not positive.\<close>

definition clear_tail :: "u32 \<Rightarrow> int \<Rightarrow> fs \<Rightarrow> fs" where
  "clear_tail page n s = foldl (\<lambda>s k. put_pbyte 0 (page + 4096 - of_nat k) s) s [1..<nat n + 1]"

definition do_no_page :: "kenv \<Rightarrow> u32 \<Rightarrow> u32 \<Rightarrow> fs \<Rightarrow> (fs, unit) outcome" where
  "do_no_page E error_code address0 s =
     (let address = address0 AND 0xfffff000;
          tmp = address - start_code (cur s)
      in case executable (cur s) of
           None \<Rightarrow> get_empty_page address s
         | Some x \<Rightarrow>
             if tmp \<ge> end_data (cur s) then get_empty_page address s
             else bindO (share_page tmp s) (\<lambda>r s.
               if r \<noteq> 0 then Ret () s
               else case get_free_page s of
                      (page, s) \<Rightarrow>
                        if page = 0 then Exits (int SIGSEGV) s
                        else case executable (cur s) of
                               None \<Rightarrow> Undefined ''current->executable''
                             | Some x \<Rightarrow>
                                 bindO (bmaps E x (1 + uint (tmp div 1024)) 4 s) (\<lambda>nr s.
                                 bindO (bread_page E page (dev_of x s) nr s) (\<lambda>_ s.
                                 bindO (put_page page address
                                          (clear_tail page (sint (tmp + 4096 - end_data (cur s))) s)) (\<lambda>r s.
                                 if r \<noteq> 0 then Ret () s
                                 else bindO (free_page page s) (\<lambda>_ s. Exits (int SIGSEGV) s))))))"

end
