(* ===== verification/Demand_Props.thy ===== *)
theory Demand_Props
  imports Demand Fs_Frame Syscalls_Props
begin

unbundle bit_operations_syntax

text \<open>
  Faults on addresses behind the data of the image: the heap, the stack and, in a task without
  an executable, everything.
\<close>

lemma frame_entry: "dirno (frame a) = dirno a" "pteno (frame a) = pteno a"
proof -
  have u: "unat (frame a) div 4096 = unat a div 4096" by (simp add: unat_frame)
  show "pteno (frame a) = pteno a" by (simp add: pteno_def u)
  have "unat x div 4194304 = unat x div 4096 div 1024" for x :: u32 by (simp add: div_mult2_eq [symmetric])
  then show "dirno (frame a) = dirno a" by (simp add: dirno_def u)
qed

lemma frame_user: "0x4000000 \<le> a \<Longrightarrow> 0x4000000 \<le> frame a"
proof -
  assume "0x4000000 \<le> a"
  then have "0x4000000 \<le> unat a" by (simp add: word_le_nat_alt)
  then have "0x4000000 \<le> 4096 * (unat a div 4096)" by simp
  then show ?thesis by (simp add: word_le_nat_alt unat_frame)
qed

lemma get_empty_page_more: "retains (\<lambda>t. mm.more t = mm.more s) (get_empty_page a s)"
proof -
  have g: "mm.more u' = mm.more u" if "get_free_page u = (x, u')" for x and u u' :: "'a mm_scheme"
    using get_free_page_more [of u] that by simp
  have f: "retains (\<lambda>t. mm.more t = mm.more s) (free_page p u)" if "mm.more u = mm.more s" for p and u :: "'a mm_scheme"
    using that by (simp add: free_page_def Let_def set_map_def)
  have p: "retains (\<lambda>t. mm.more t = mm.more s) (put_page p b u)" if "mm.more u = mm.more s" for p b and u :: "'a mm_scheme"
    using that g [of u] by (auto simp: put_page_def Let_def poke_more split: prod.split)
  have x: "retains (\<lambda>t. mm.more t = mm.more s) (bindO (free_page p u) (\<lambda>_ s. Exits c s) :: ('a mm_scheme, unit) outcome)"
    if "mm.more u = mm.more s" for p c and u :: "'a mm_scheme"
    by (rule retains_bindO [OF f [OF that]]) simp
  show ?thesis
    unfolding get_empty_page_def Let_def using g [of s] x
    by (auto split: prod.split intro!: retains_bindO [OF p])
qed

text \<open>The page tables as the user sees them: every other page is mapped as before, and to the same contents.\<close>

lemma sole_new_lookup:
  assumes inv: "mm_inv held s" and n: "sole_new i j s s'" and i: "i \<in> user_dirs" "j < 1024"
    and e: "present (de s' i)" "pte s' i j = v" "present v" and d: "d \<in> user_dirs" "l < 1024"
  shows "lookup s' d l = (if (d, l) = (i, j) then Some (frame v) else lookup s d l)"
proof (cases "(d, l) = (i, j)")
  case True
  then show ?thesis using e by (simp add: lookup_def)
next
  case False
  show ?thesis
  proof (cases "present (de s d)")
    case True
    then have "pte s' d l = pte s d l" using n d False by (simp add: sole_new_def)
    moreover have "present (de s' d)" using n e(1) user_dir_less [OF d(1)] True by (cases "d = i") (auto simp: sole_new_def)
    ultimately show ?thesis using False True by (auto simp: lookup_def)
  next
    case np: False
    show ?thesis
    proof (cases "d = i")
      case True
      then have "pte s' d l = 0" using n np False d(2) by (simp add: sole_new_def)
      then show ?thesis using False np by (simp add: lookup_def)
    next
      case ne: False
      then have "de s' d = de s d" using n user_dir_less [OF d(1)] by (simp add: sole_new_def)
      then show ?thesis using False np by (simp add: lookup_def)
    qed
  qed
qed

lemma sole_new_contents:
  assumes inv: "mm_inv held s" and n: "sole_new i j s s'" and i: "i \<in> user_dirs"
    and d: "d \<in> user_dirs" "l < 1024" "lookup s d l = Some p" "LOW_MEM \<le> p" and b: "frame b = p"
  shows "pmem s' b = pmem s b"
proof -
  have p: "present (de s d)" "present (pte s d l)" "frame (pte s d l) = p" using d(3) by (auto simp: lookup_def split: if_splits)
  have "p \<noteq> 0" using d(4) by auto
  moreover have "p \<noteq> tbl s i" if "present (de s i)"
    using pte_not_table [OF inv i d(1) that p(1) d(2) p(2)] p(3) by simp
  moreover have "p \<noteq> pg k" if k: "k < PAGING_PAGES" "mem_map s k = 0" for k
  proof
    assume e: "p = pg k"
    have "1 \<le> tcount s d (pg k)" by (rule tcount_ge [OF d(2)]) (use p e in \<open>simp add: maps_def\<close>)
    then have "1 \<le> dcount s d (pg k)" using p(1) by (simp add: dcount_def)
    then show False using refs_ge [OF d(1), of s "pg k"] mm_invD(2) [OF inv k(1)] k(2) by simp
  qed
  ultimately show ?thesis using n b unfolding sole_new_def by blast
qed

definition zero_mapped :: "u32 \<Rightarrow> fs \<Rightarrow> fs \<Rightarrow> bool" where
  "zero_mapped address s s' \<longleftrightarrow>
     (\<exists>n<PAGING_PAGES. mem_map s n = 0 \<and> mem_map s' n = 1 \<and> writable s' (dirno address) (pteno address) \<and>
       (\<forall>b. frame b = pg n \<longrightarrow> pmem s' b = 0) \<and>
       (\<forall>d\<in>user_dirs. \<forall>l<1024. lookup s' d l =
          (if (d, l) = (dirno address, pteno address) then Some (pg n) else lookup s d l))) \<and>
     (\<forall>d\<in>user_dirs. \<forall>l<1024. \<forall>p. lookup s d l = Some p \<longrightarrow> LOW_MEM \<le> p \<longrightarrow> (\<forall>b. frame b = p \<longrightarrow> pmem s' b = pmem s b))"

definition unmapped_still :: "fs \<Rightarrow> fs \<Rightarrow> bool" where
  "unmapped_still s s' \<longleftrightarrow> mem_map s' = mem_map s \<and> (\<forall>d\<in>user_dirs. \<forall>l<1024. lookup s' d l = lookup s d l)"

text \<open>C11: A page fault on an unmapped user address behind the data of the image (or in a task that has none) kills the task
  with \<open>SIGSEGV\<close> exactly when there is no free page for it, or only one and the page table is missing too; then every page taken
  has been given back.  Otherwise the address is mapped, writable, to a page that was free, has this one user and is zero throughout, while
  every other user address is mapped as before, to the same bytes, and nothing but memory and the page counts changes.\<close>

theorem do_no_page_zero:
  assumes "mm_inv held s" "0x4000000 \<le> address" "lookup s (dirno address) (pteno address) = None"
    and "executable (cur s) = None \<or> end_data (cur s) \<le> (address AND 0xfffff000) - start_code (cur s)"
  shows "if free_pages s < (if present (de s (dirno address)) then 1 else 2)
    then \<exists>s'. do_no_page E code address s = Exits 11 s' \<and> mm_inv held s' \<and> mm.more s' = mm.more s \<and> unmapped_still s s'
    else \<exists>s'. do_no_page E code address s = Ret () s' \<and> mm_inv held s' \<and> mm.more s' = mm.more s \<and> zero_mapped address s s'"
proof -
  let ?i = "dirno address" and ?j = "pteno address"
  have fr: "address AND 0xfffff000 = frame address" unfolding frame_def by (rule and.commute)
  have g: "do_no_page E code address s = get_empty_page (frame address) s"
    using assms(4) unfolding do_no_page_def Let_def fr by (auto split: option.split)
  have np: "\<not> (present (de s ?i) \<and> present (pte s ?i ?j))" using assms(3) by (auto simp: lookup_def split: if_splits)
  note i = user_address [OF assms(2)] and j = pteno_less [of address]
  note more = get_empty_page_more [of s "frame address"]
  show ?thesis
  proof (rule get_empty_page_ok [OF assms(1) frame_user [OF assms(2)], unfolded frame_entry, OF np])
    fix n s'
    assume r: "get_empty_page (frame address) s = Ret () s'" and inv': "mm_inv held s'" and n: "n < PAGING_PAGES" "mem_map s n = 0" "mem_map s' n = 1"
      and e: "present (de s' ?i)" "pte s' ?i ?j = pg n OR 7" and z: "\<And>b. frame b = pg n \<Longrightarrow> pmem s' b = 0"
      and sn: "sole_new ?i ?j s s'" and enough: "(if present (de s ?i) then 1 else 2) \<le> free_pages s"
    note v = frame_present_or7 [OF pg_props(1) [OF n(1)]]
    have "lookup s' d l = (if (d, l) = (?i, ?j) then Some (pg n) else lookup s d l)" if "d \<in> user_dirs" "l < 1024" for d l
      using sole_new_lookup [OF assms(1) sn i j e] v that by simp
    moreover have "writable s' ?i ?j" using e(2) bit_or_1 by (simp add: writable_def)
    ultimately have "zero_mapped address s s'"
      unfolding zero_mapped_def using n z sole_new_contents [OF assms(1) sn i] by blast
    then show ?thesis using enough r inv' more unfolding g by (auto simp: not_less)
  next
    fix s'
    assume r: "get_empty_page (frame address) s = Exits 11 s'" and inv': "mm_inv held s'" and m: "mem_map s' = mem_map s"
      and e: "\<And>d. d < 1024 \<Longrightarrow> de s' d = de s d"
        "\<And>d l. d \<in> user_dirs \<Longrightarrow> present (de s d) \<Longrightarrow> l < 1024 \<Longrightarrow> pte s' d l = pte s d l"
      and few: "free_pages s < (if present (de s ?i) then 1 else 2)"
    have "lookup s' d l = lookup s d l" if "d \<in> user_dirs" "l < 1024" for d l
      using e(1) [OF user_dir_less [OF that(1)]] e(2) [OF that(1) _ that(2)] by (auto simp: lookup_def)
    then show ?thesis using few r inv' more m unfolding g by (simp add: unmapped_still_def)
  qed
qed

text \<open>A task without an executable in an empty address space.\<close>

definition demo_fault :: fs where
  "demo_fault = (undefined :: fs)\<lparr>pmem := pmem empty_mm, mem_map := mem_map empty_mm, HIGH_MEMORY := HIGH_MEMORY empty_mm,
     tstruct := (\<lambda>_. (undefined :: task_struct)\<lparr>executable := None\<rparr>)\<rparr>"

lemma demo_fault_ok:
  "mm_inv (\<lambda>_. 0) demo_fault" "lookup demo_fault 16 j = None" "executable (cur demo_fault) = None" "2 \<le> free_pages demo_fault"
proof -
  have e: "de demo_fault d = de empty_mm d" for d by (simp add: de_def demo_fault_def)
  then have t: "tbl demo_fault d = tbl empty_mm d" for d by (simp add: tbl_def)
  then have p: "pte demo_fault d l = pte empty_mm d l" for d l by (simp add: pte_def demo_fault_def)
  have "refs demo_fault q = refs empty_mm q" for q by (simp add: refs_def dcount_def tcount_def e t p cong: if_cong)
  then have "mm_inv h demo_fault = mm_inv h empty_mm" for h
    unfolding mm_inv_def e t p by (simp add: demo_fault_def)
  then show "mm_inv (\<lambda>_. 0) demo_fault" using empty_mm_inv by simp
  show "lookup demo_fault 16 j = None" "executable (cur demo_fault) = None"
    by (simp_all add: lookup_def de_def cur_def demo_fault_def empty_mm_def)
  have "{0, 1} \<subseteq> {n. n < PAGING_PAGES \<and> mem_map demo_fault n = 0}" by (simp add: demo_fault_def empty_mm_def)
  then show "2 \<le> free_pages demo_fault"
    using card_mono [of "{n. n < PAGING_PAGES \<and> mem_map demo_fault n = 0}" "{0, 1}"] by (simp add: free_pages_def)
qed

theorem do_no_page_zero_witness:
  "\<exists>s'. do_no_page ram_kernel 4 0x4000123 demo_fault = Ret () s' \<and> mm_inv (\<lambda>_. 0) s' \<and> zero_mapped 0x4000123 demo_fault s'"
proof -
  have d: "dirno 0x4000123 = 16" by (simp add: dirno_def)
  then show ?thesis
    using do_no_page_zero [OF demo_fault_ok(1), of "0x4000123" ram_kernel 4] demo_fault_ok(2-4) by (auto split: if_splits)
qed

end
