(* ===== verification/Malloc.thy ===== *)
theory Malloc
  imports Paging Loops
begin

unbundle bit_operations_syntax

text \<open>
  The memory allocator of the kernel, \<open>src/lib/malloc.c\<close>.

  A page from the page allocator (a bucket) holds objects of one size, a power
  of two from 16 to 4096; its free objects are linked through their first
  words.  A descriptor of 16 bytes (\<open>struct bucket_desc\<close>: page, next, freeptr,
  refcnt and size) keeps the list and the number of objects in use;
  \<open>bucket_dir\<close> has a chain of descriptors per size, and unused descriptors are on
  a list of their own.  Descriptors and objects are words of physical memory,
  as in \<open>Memory\<close>; the state adds the heads of the lists.

  \<open>malloc\<close> runs with interrupts disabled, \<open>free_s\<close> from the moment it has found
  the descriptor on.  The parameter \<open>intr\<close> of \<open>free_s\<close> is what interrupt routines
  do just before that moment.
\<close>

record kheap = mm +
  bd_chain :: "nat \<Rightarrow> u32"
  free_bucket_desc :: u32

text \<open>The sizes of \<open>bucket_dir\<close>; the end marker is the end of the list.\<close>

definition bucket_dir :: "nat list" where
  "bucket_dir = [16, 32, 64, 128, 256, 512, 1024, 2048, 4096]"

abbreviation (input) NR_DIR :: nat where "NR_DIR \<equiv> 9"

definition bd_page :: "'z mm_scheme \<Rightarrow> u32 \<Rightarrow> u32" where "bd_page s b = pmem s b"
definition bd_next :: "'z mm_scheme \<Rightarrow> u32 \<Rightarrow> u32" where "bd_next s b = pmem s (b + 4)"
definition bd_freeptr :: "'z mm_scheme \<Rightarrow> u32 \<Rightarrow> u32" where "bd_freeptr s b = pmem s (b + 8)"

text \<open>\<open>refcnt\<close> and \<open>bucket_size\<close> are the two halves of the last word.\<close>

definition bd_refcnt :: "'z mm_scheme \<Rightarrow> u32 \<Rightarrow> u16" where
  "bd_refcnt s b = ucast (pmem s (b + 12))"

definition set_refcnt :: "u32 \<Rightarrow> u16 \<Rightarrow> 'z mm_scheme \<Rightarrow> 'z mm_scheme" where
  "set_refcnt b v s = poke (b + 12) ((pmem s (b + 12) AND 0xffff0000) OR ucast v) s"

definition set_bucket_size :: "u32 \<Rightarrow> u16 \<Rightarrow> 'z mm_scheme \<Rightarrow> 'z mm_scheme" where
  "set_bucket_size b v s = poke (b + 12) ((pmem s (b + 12) AND 0xffff) OR push_bit 16 (ucast v)) s"

section \<open>Allocation\<close>

text \<open>\<open>n\<close> rounds of the loop that links the descriptors of a fresh page.\<close>

primrec link_descs :: "nat \<Rightarrow> u32 \<Rightarrow> kheap \<Rightarrow> u32 \<times> kheap" where
  "link_descs 0 b s = (b, s)"
| "link_descs (Suc n) b s = link_descs n (b + 16) (poke (b + 4) (b + 16) s)"

definition init_bucket_desc :: "kheap \<Rightarrow> (kheap, unit) outcome" where
  "init_bucket_desc s =
     (case get_free_page s of
        (first, s) \<Rightarrow>
          if first = 0 then Panic ''Out of memory in init_bucket_desc()''
          else case link_descs (4096 div 16 - 1) first s of
                 (b, s) \<Rightarrow> Ret () ((poke (b + 4) (free_bucket_desc s) s)\<lparr>free_bucket_desc := first\<rparr>))"

text \<open>\<open>n\<close> rounds of the loop that links the objects of a fresh page.\<close>

primrec link_objs :: "nat \<Rightarrow> u32 \<Rightarrow> u32 \<Rightarrow> kheap \<Rightarrow> u32 \<times> kheap" where
  "link_objs 0 sz cp s = (cp, s)"
| "link_objs (Suc n) sz cp s = link_objs n sz (cp + sz) (poke cp (cp + sz) s)"

definition new_bucket :: "nat \<Rightarrow> kheap \<Rightarrow> (kheap, u32) outcome" where
  "new_bucket k s =
     bindO (if free_bucket_desc s = 0 then init_bucket_desc s else Ret () s) (\<lambda>_ s.
     let sz = bucket_dir ! k;
         b = free_bucket_desc s;
         s = s\<lparr>free_bucket_desc := bd_next s b\<rparr>;
         s = set_bucket_size b (of_nat sz) (set_refcnt b 0 s)
     in case get_free_page s of
          (cp, s) \<Rightarrow>
            let s = poke b cp (poke (b + 8) cp s) in
            if cp = 0 then Panic ''Out of memory in kernel malloc()''
            else case link_objs (4096 div sz - 1) (of_nat sz) cp s of
                   (cp, s) \<Rightarrow>
                     let s = poke (b + 4) (bd_chain s k) (poke cp 0 s)
                     in Ret b (s\<lparr>bd_chain := (bd_chain s)(k := b)\<rparr>))"

text \<open>The first descriptor from \<open>p\<close> on with a free object, or 0.\<close>

definition find_bucket :: "u32 \<Rightarrow> kheap \<Rightarrow> (kheap, u32) outcome" where
  "find_bucket =
     loopO (\<lambda>b s. if b = 0 \<or> bd_freeptr s b \<noteq> 0 then Ret (Inr b) s else Ret (Inl (bd_next s b)) s)"

definition malloc :: "u32 \<Rightarrow> kheap \<Rightarrow> (kheap, u32) outcome" where
  "malloc len s =
     (case List.find (\<lambda>k. len \<le> of_nat (bucket_dir ! k)) [0..<NR_DIR] of
        None \<Rightarrow> Panic ''malloc: bad arg''
      | Some k \<Rightarrow>
          bindO (find_bucket (bd_chain s k) s) (\<lambda>b s.
          bindO (if b = 0 then new_bucket k s else Ret b s) (\<lambda>b s.
          let retval = bd_freeptr s b;
              s = poke (b + 8) (pmem s retval) s
          in Ret retval (set_refcnt b (bd_refcnt s b + 1) s))))"

section \<open>Release\<close>

text \<open>The descriptor of \<open>page\<close> on a chain, and the one before it (0 if it is the first).\<close>

definition search_chain :: "u32 \<Rightarrow> u32 \<Rightarrow> kheap \<Rightarrow> (kheap, (u32 \<times> u32) option) outcome" where
  "search_chain page p =
     loopO (\<lambda>(prev, b) s. if b = 0 then Ret (Inr None) s
                          else if bd_page s b = page then Ret (Inr (Some (prev, b))) s
                          else Ret (Inl (b, bd_next s b)) s) (0, p)"

primrec search_dir :: "nat list \<Rightarrow> u32 \<Rightarrow> int \<Rightarrow> kheap \<Rightarrow> (kheap, nat \<times> u32 \<times> u32) outcome" where
  "search_dir [] page sz s = Panic ''Bad address passed to kernel free_s()''"
| "search_dir (k # ks) page sz s =
     (if int (bucket_dir ! k) < sz then search_dir ks page sz s
      else bindO (search_chain page (bd_chain s k) s) (\<lambda>r s.
           case r of Some (prev, b) \<Rightarrow> Ret (k, prev, b) s | None \<Rightarrow> search_dir ks page sz s))"

text \<open>\<open>prev\<close> is looked for again when it is out of date.\<close>

definition current_prev :: "nat \<Rightarrow> u32 \<Rightarrow> u32 \<Rightarrow> kheap \<Rightarrow> (kheap, u32) outcome" where
  "current_prev k prev b s =
     (if prev \<noteq> 0 \<and> bd_next s prev \<noteq> b \<or> prev = 0 \<and> bd_chain s k \<noteq> b
      then loopO (\<lambda>p s. if p = 0 \<or> bd_next s p = b then Ret (Inr p) s else Ret (Inl (bd_next s p)) s) (bd_chain s k) s
      else Ret prev s)"

definition release_bucket :: "nat \<Rightarrow> u32 \<Rightarrow> u32 \<Rightarrow> kheap \<Rightarrow> (kheap, unit) outcome" where
  "release_bucket k prev b s =
     bindO (current_prev k prev b s) (\<lambda>prev s.
     bindO (if prev \<noteq> 0 then Ret () (poke (prev + 4) (bd_next s b) s)
            else if bd_chain s k \<noteq> b then Panic ''malloc bucket chains corrupted''
            else Ret () (s\<lparr>bd_chain := (bd_chain s)(k := bd_next s b)\<rparr>)) (\<lambda>_ s.
     bindO (free_page (bd_page s b) s) (\<lambda>_ s.
     Ret () ((poke (b + 4) (free_bucket_desc s) s)\<lparr>free_bucket_desc := b\<rparr>))))"

definition free_s :: "(kheap \<Rightarrow> kheap) \<Rightarrow> u32 \<Rightarrow> int \<Rightarrow> kheap \<Rightarrow> (kheap, unit) outcome" where
  "free_s intr obj sz s =
     bindO (search_dir [0..<NR_DIR] (obj AND 0xfffff000) sz s) (\<lambda>(k, prev, b) s.
     let s = intr s;
         s = poke obj (bd_freeptr s b) s;
         s = poke (b + 8) obj s;
         s = set_refcnt b (bd_refcnt s b - 1) s
     in if bd_refcnt s b = 0 then release_bucket k prev b s else Ret () s)"

end
