(* ===== verification/Malloc_Inv.thy ===== *)
theory Malloc_Inv
  imports Malloc
begin

unbundle bit_operations_syntax

text \<open>
  The invariant of the kernel allocator: the chains of descriptors, the free
  objects of every bucket and the pages they lie in.  Each of the four changes the
  allocator makes (taking an object, putting it back, a new bucket or page of descriptors, the end of
  a bucket) keeps it, adds or removes at most one block, and leaves the words of the blocks in use alone.
\<close>

section \<open>Lists linked through memory\<close>

primrec lseg :: "(u32 \<Rightarrow> u32) \<Rightarrow> u32 \<Rightarrow> u32 list \<Rightarrow> bool" where
  "lseg nx p [] \<longleftrightarrow> p = 0"
| "lseg nx p (x # xs) \<longleftrightarrow> p = x \<and> x \<noteq> 0 \<and> lseg nx (nx x) xs"

lemma lseg_unique: "lseg nx p xs \<Longrightarrow> lseg nx p ys \<Longrightarrow> xs = ys"
proof (induction xs arbitrary: p ys)
  case Nil
  then show ?case by (cases ys) auto
next
  case (Cons x xs)
  then show ?case by (cases ys) auto
qed

lemma lseg_cong: "(\<And>x. x \<in> set xs \<Longrightarrow> ny x = nx x) \<Longrightarrow> lseg ny p xs \<longleftrightarrow> lseg nx p xs"
  by (induction xs arbitrary: p) auto

lemma lseg_suffix: "lseg nx p (xs @ x # ys) \<Longrightarrow> lseg nx x (x # ys)"
  by (induction xs arbitrary: p) auto

lemma lseg_distinct: "lseg nx p xs \<Longrightarrow> distinct xs"
proof (rule ccontr)
  assume a: "lseg nx p xs" "\<not> distinct xs"
  then obtain us x vs ws where "xs = us @ [x] @ vs @ [x] @ ws" using not_distinct_decomp by blast
  then have "lseg nx x (x # vs @ x # ws)" "lseg nx x (x # ws)"
    using a(1) lseg_suffix [of nx p us x "vs @ x # ws"] lseg_suffix [of nx p "us @ x # vs" x ws] by simp_all
  then have "x # vs @ x # ws = x # ws" by (rule lseg_unique)
  then show False by simp
qed

lemma lseg_nonzero: "lseg nx p xs \<Longrightarrow> x \<in> set xs \<Longrightarrow> x \<noteq> 0"
  by (induction xs arbitrary: p) auto

lemma lseg_zero [simp]: "lseg nx 0 xs \<longleftrightarrow> xs = []"
  by (cases xs) auto

text \<open>The element behind which \<open>b\<close> comes, and the list without \<open>b\<close>.\<close>

lemma lseg_remove_head: "lseg nx p (b # ys) \<Longrightarrow> lseg nx (nx b) ys"
  by simp

lemma lseg_remove:
  "lseg nx p (xs @ q # b # ys) \<Longrightarrow> lseg (nx(q := nx b)) p (xs @ q # ys)"
proof (induction xs arbitrary: p)
  case Nil
  then have "q \<notin> set ys" "lseg nx (nx b) ys" using lseg_distinct [of nx p "q # b # ys"] by auto
  then have "lseg (nx(q := nx b)) (nx b) ys" by (subst lseg_cong [of ys _ nx]) auto
  then show ?case using Nil by (simp add: fun_upd_def)
next
  case (Cons x xs)
  then have "x \<noteq> q" using lseg_distinct [OF Cons.prems] by auto
  then show ?case using Cons by simp
qed

lemma lseg_next: "lseg nx p (xs @ q # b # ys) \<Longrightarrow> nx q = b"
  by (induction xs arbitrary: p) auto

lemma lseg_prev:
  assumes "lseg nx p zs" "q \<in> set zs" "nx q = b" "b \<noteq> 0"
  shows "\<exists>xs ys. zs = xs @ q # b # ys"
  using assms(1,2)
proof (induction zs arbitrary: p)
  case (Cons z zs)
  show ?case
  proof (cases "q = z")
    case True
    then have "lseg nx b zs" using Cons.prems assms(3) by simp
    then obtain ys where "zs = b # ys" using assms(4) by (cases zs) auto
    then have "z # zs = [] @ q # b # ys" using True by simp
    then show ?thesis by blast
  next
    case False
    then obtain xs ys where "zs = xs @ q # b # ys" using Cons.IH [of "nx z"] Cons.prems by auto
    then have "z # zs = (z # xs) @ q # b # ys" by simp
    then show ?thesis by blast
  qed
qed simp

section \<open>Places in a page\<close>

abbreviation sz :: "nat \<Rightarrow> nat" where "sz k \<equiv> bucket_dir ! k"

definition nobj :: "nat \<Rightarrow> nat" where
  "nobj k = 4096 div sz k"

definition obj_at :: "nat \<Rightarrow> u32 \<Rightarrow> nat \<Rightarrow> u32" where
  "obj_at k page j = page + of_nat (j * sz k)"

definition objs :: "nat \<Rightarrow> u32 \<Rightarrow> u32 set" where
  "objs k page = obj_at k page ` {..<nobj k}"

lemma dir_cases:
  assumes "k < NR_DIR"
  obtains "k = 0" | "k = 1" | "k = 2" | "k = 3" | "k = 4" | "k = 5" | "k = 6" | "k = 7" | "k = 8"
  using assms by linarith

lemma sz_props:
  assumes "k < NR_DIR"
  shows "sz k * nobj k = 4096" "16 \<le> sz k" "sz k \<le> 4096" "1 \<le> nobj k" "nobj k \<le> 256" "16 dvd sz k" "sz k = 16 * 2 ^ k"
  using assms by (cases rule: dir_cases; simp add: bucket_dir_def nobj_def)+

lemma page_offset:
  assumes "frame p = p" "i < 4096"
  shows "unat (p + of_nat i) = unat p + i" "frame (p + of_nat i) = p"
proof -
  obtain q where q: "unat p = 4096 * q" "q < 1048576" using assms(1) by (rule alignedE)
  have "unat p + i < 2 ^ 32" using q assms(2) by simp
  moreover have "p + of_nat i = of_nat (unat p + i)" by simp
  ultimately show u: "unat (p + of_nat i) = unat p + i" by (simp only: unat_of_nat) simp
  have "(4096 * q + i) div 4096 = q" using assms(2) by (intro div_nat_eqI) simp_all
  then show "frame (p + of_nat i) = p" by (simp add: word_unat_eq_iff unat_frame u q)
qed

lemma obj_offset: "k < NR_DIR \<Longrightarrow> j < nobj k \<Longrightarrow> j * sz k + sz k \<le> 4096"
  using mult_le_mono2 [of "Suc j" "nobj k" "sz k"] sz_props(1) [of k] by (simp add: mult.commute)

lemma obj_at_props:
  assumes "frame p = p" "k < NR_DIR" "j < nobj k"
  shows "unat (obj_at k p j) = unat p + j * sz k" "frame (obj_at k p j) = p"
  using page_offset [OF assms(1), of "j * sz k"] obj_offset [OF assms(2,3)] sz_props(2) [OF assms(2)]
  by (simp_all add: obj_at_def)

lemma obj_at_inj: "frame p = p \<Longrightarrow> k < NR_DIR \<Longrightarrow> inj_on (obj_at k p) {..<nobj k}"
  using sz_props(2) [of k] obj_at_props(1) [of p k] by (intro inj_onI) (metis add_left_cancel lessThan_iff mult_cancel2 not_numeral_le_zero)

lemma card_objs: "frame p = p \<Longrightarrow> k < NR_DIR \<Longrightarrow> card (objs k p) = nobj k" and finite_objs [simp]: "finite (objs k p)"
  using obj_at_inj by (simp_all add: objs_def card_image)

lemma objs_frame: "frame p = p \<Longrightarrow> k < NR_DIR \<Longrightarrow> a \<in> objs k p \<Longrightarrow> frame a = p"
  by (auto simp: objs_def obj_at_props)

text \<open>The words of a descriptor.\<close>

lemma desc_word:
  assumes "16 dvd unat (b :: u32)" "i < (16 :: nat)"
  shows "unat (b + of_nat i) = unat b + i" "frame (b + of_nat i) = frame b"
proof -
  obtain q where q: "unat b = 16 * q" using assms(1) by (rule dvdE)
  have m: "b = frame b + of_nat (unat b mod 4096)"
  proof -
    have "unat (frame b) + unat b mod 4096 = unat b" by (simp add: unat_frame)
    then have "(of_nat (unat (frame b) + unat b mod 4096) :: u32) = of_nat (unat b)" by (rule arg_cong)
    then show ?thesis by simp
  qed
  have "unat b mod 4096 = 16 * (q mod 256)" using q by (simp add: mult_mod_right)
  then have l: "unat b mod 4096 + i < 4096" using assms(2) by simp
  have e: "b + of_nat i = frame b + of_nat (unat b mod 4096 + i)" by (subst m) simp
  show "frame (b + of_nat i) = frame b" unfolding e using page_offset(2) [OF _ l, of "frame b"] by simp
  show "unat (b + of_nat i) = unat b + i" unfolding e using page_offset(1) [OF _ l, of "frame b"] by (simp add: unat_frame)
qed

lemmas desc_words [simp] =
  desc_word(2) [of _ 4, simplified] desc_word(2) [of _ 8, simplified] desc_word(2) [of _ 12, simplified]

lemma desc_word_eq:
  assumes "16 dvd unat (b :: u32)" "16 dvd unat (d :: u32)" "i < 16" "j < 16" "b + of_nat i = d + of_nat j"
  shows "b = d \<and> i = j"
proof -
  have "unat b + i = unat d + j" using desc_word(1) [OF assms(1,3)] desc_word(1) [OF assms(2,4)] assms(5) by simp
  moreover obtain x y where "unat b = 16 * x" "unat d = 16 * y" using assms(1,2) by (auto elim!: dvdE)
  ultimately have s: "16 * x + i = 16 * y + j" by simp
  then have "(16 * x + i) div 16 = (16 * y + j) div 16" by simp
  then have "x = y" using assms(3,4) by simp
  then have "unat b = unat d" "i = j" using s \<open>unat b = 16 * x\<close> \<open>unat d = 16 * y\<close> by simp_all
  then show ?thesis by (simp add: word_unat_eq_iff)
qed


text \<open>Distinct words of descriptors.\<close>

lemma desc_neq:
  assumes "16 dvd unat (b :: u32)" "16 dvd unat (d :: u32)"
  shows "d \<noteq> b + 4" "d \<noteq> b + 8" "d \<noteq> b + 12" "d + 4 \<noteq> b" "d + 4 \<noteq> b + 8" "d + 4 \<noteq> b + 12"
    "d + 8 \<noteq> b" "d + 8 \<noteq> b + 4" "d + 8 \<noteq> b + 12" "d + 12 \<noteq> b" "d + 12 \<noteq> b + 4" "d + 12 \<noteq> b + 8"
proof -
  have w: "d + of_nat i \<noteq> b + of_nat j" if "i \<noteq> j" "i < 16" "j < 16" for i j
    using desc_word_eq [OF assms(2,1) that(2,3)] that(1) by blast
  show "d \<noteq> b + 4" "d \<noteq> b + 8" "d \<noteq> b + 12" "d + 4 \<noteq> b" "d + 4 \<noteq> b + 8" "d + 4 \<noteq> b + 12"
    using w [of 0 4] w [of 0 8] w [of 0 12] w [of 4 0] w [of 4 8] w [of 4 12] by simp_all
  show "d + 8 \<noteq> b" "d + 8 \<noteq> b + 4" "d + 8 \<noteq> b + 12" "d + 12 \<noteq> b" "d + 12 \<noteq> b + 4" "d + 12 \<noteq> b + 8"
    using w [of 8 0] w [of 8 4] w [of 8 12] w [of 12 0] w [of 12 4] w [of 12 8] by simp_all
qed

section \<open>The invariant\<close>

text \<open>
  \<open>C k\<close> are the descriptors of size \<open>k\<close>, \<open>F\<close> the unused ones, \<open>free b\<close> the free
  objects of the bucket of descriptor \<open>b\<close>.  Every page involved is used once, by the allocator.
\<close>

definition bucket_ok :: "kheap \<Rightarrow> nat \<Rightarrow> u32 \<Rightarrow> u32 list \<Rightarrow> bool" where
  "bucket_ok s k b os \<longleftrightarrow>
     page_users s (bd_page s b) = 1 \<and> lseg (pmem s) (bd_freeptr s b) os \<and>
     set os \<subseteq> objs k (bd_page s b) \<and> unat (bd_refcnt s b) + length os = nobj k"

definition used :: "(nat \<Rightarrow> u32 list) \<Rightarrow> u32 set" where
  "used C = (\<Union>k<NR_DIR. set (C k))"

definition heap_inv :: "(nat \<Rightarrow> u32 list) \<Rightarrow> u32 list \<Rightarrow> (u32 \<Rightarrow> u32 list) \<Rightarrow> kheap \<Rightarrow> bool" where
  "heap_inv C F free s \<longleftrightarrow>
     map_ok s \<and>
     (\<forall>k<NR_DIR. lseg (bd_next s) (bd_chain s k) (C k)) \<and> lseg (bd_next s) (free_bucket_desc s) F \<and>
     (\<forall>j<NR_DIR. \<forall>k<NR_DIR. j \<noteq> k \<longrightarrow> set (C j) \<inter> set (C k) = {}) \<and> used C \<inter> set F = {} \<and>
     (\<forall>d\<in>used C \<union> set F. 16 dvd unat d \<and> page_users s (frame d) = 1) \<and>
     (\<forall>k<NR_DIR. \<forall>b\<in>set (C k). bucket_ok s k b (free b)) \<and>
     inj_on (bd_page s) (used C) \<and>
     (\<forall>b\<in>used C. \<forall>d\<in>used C \<union> set F. bd_page s b \<noteq> frame d)"

lemma heap_invD:
  assumes "heap_inv C F free s"
  shows "map_ok s"
    "\<And>k. k < NR_DIR \<Longrightarrow> lseg (bd_next s) (bd_chain s k) (C k)" "lseg (bd_next s) (free_bucket_desc s) F"
    "\<And>j k b. j < NR_DIR \<Longrightarrow> k < NR_DIR \<Longrightarrow> b \<in> set (C j) \<Longrightarrow> b \<in> set (C k) \<Longrightarrow> j = k"
    "used C \<inter> set F = {}"
    "\<And>d. d \<in> used C \<union> set F \<Longrightarrow> 16 dvd unat d" "\<And>d. d \<in> used C \<union> set F \<Longrightarrow> page_users s (frame d) = 1"
    "\<And>k b. k < NR_DIR \<Longrightarrow> b \<in> set (C k) \<Longrightarrow> bucket_ok s k b (free b)"
    "inj_on (bd_page s) (used C)"
    "\<And>b d. b \<in> used C \<Longrightarrow> d \<in> used C \<union> set F \<Longrightarrow> bd_page s b \<noteq> frame d"
  using assms unfolding heap_inv_def by blast+

lemma heap_invI:
  assumes "map_ok s"
    "\<And>k. k < NR_DIR \<Longrightarrow> lseg (bd_next s) (bd_chain s k) (C k)" "lseg (bd_next s) (free_bucket_desc s) F"
    "\<And>j k b. j < NR_DIR \<Longrightarrow> k < NR_DIR \<Longrightarrow> b \<in> set (C j) \<Longrightarrow> b \<in> set (C k) \<Longrightarrow> j = k"
    "used C \<inter> set F = {}"
    "\<And>d. d \<in> used C \<union> set F \<Longrightarrow> 16 dvd unat d" "\<And>d. d \<in> used C \<union> set F \<Longrightarrow> page_users s (frame d) = 1"
    "\<And>k b. k < NR_DIR \<Longrightarrow> b \<in> set (C k) \<Longrightarrow> bucket_ok s k b (free b)"
    "inj_on (bd_page s) (used C)"
    "\<And>b d. b \<in> used C \<Longrightarrow> d \<in> used C \<union> set F \<Longrightarrow> bd_page s b \<noteq> frame d"
  shows "heap_inv C F free s"
  using assms unfolding heap_inv_def by (auto simp: disjoint_iff)

lemma usedI [intro]: "k < NR_DIR \<Longrightarrow> b \<in> set (C k) \<Longrightarrow> b \<in> used C"
  by (auto simp: used_def)

lemma page_users_frame: "page_users s p \<noteq> 0 \<Longrightarrow> frame p = p \<and> LOW_MEM \<le> p \<and> p < HIGH_MEMORY s"
  by (auto simp: page_users_def split: if_splits)

lemma bucket_users:
  assumes "heap_inv C F free s" "b \<in> used C"
  shows "page_users s (bd_page s b) = 1"
proof -
  obtain k where "k < NR_DIR" "b \<in> set (C k)" using assms(2) by (auto simp: used_def)
  then show ?thesis using heap_invD(8) [OF assms(1)] by (simp add: bucket_ok_def)
qed

lemma bucket_page: "heap_inv C F free s \<Longrightarrow> b \<in> used C \<Longrightarrow> frame (bd_page s b) = bd_page s b"
  using page_users_frame [of s "bd_page s b"] bucket_users by simp

lemma bucket_ok_cong:
  assumes "bucket_ok s k b os" "k < NR_DIR"
    "pmem t b = pmem s b" "pmem t (b + 8) = pmem s (b + 8)" "pmem t (b + 12) = pmem s (b + 12)"
    "\<And>a. a \<in> set os \<Longrightarrow> pmem t a = pmem s a"
    "page_users t (bd_page s b) = 1"
  shows "bucket_ok t k b os"
  using assms lseg_cong [of os "pmem t" "pmem s"]
  by (simp add: bucket_ok_def bd_page_def bd_freeptr_def bd_refcnt_def)

text \<open>A bucket whose descriptor and page are left alone stays as it is.\<close>

lemma bucket_ok_elsewhere:
  assumes inv: "heap_inv C F free s" and d: "j < NR_DIR" "d \<in> set (C j)"
    and w: "\<And>i. i < 16 \<Longrightarrow> i \<noteq> 4 \<Longrightarrow> pmem t (d + of_nat i) = pmem s (d + of_nat i)"
    and pm: "\<And>a. frame a = bd_page s d \<Longrightarrow> pmem t a = pmem s a"
    and pu: "page_users t (bd_page s d) = page_users s (bd_page s d)"
  shows "bucket_ok t j d (free d)"
proof -
  note od = heap_invD(8) [OF inv d]
  show ?thesis
  proof (rule bucket_ok_cong [OF od d(1)])
    show "pmem t a = pmem s a" if "a \<in> set (free d)" for a
    proof (rule pm, rule objs_frame [OF bucket_page [OF inv] d(1)])
      show "d \<in> used C" using d by blast
      show "a \<in> objs j (bd_page s d)" using od that by (auto simp: bucket_ok_def)
    qed
  qed (use w [of 0] w [of 8] w [of 12] pu od in \<open>simp_all add: bucket_ok_def\<close>)
qed

text \<open>
  A change inside one bucket: to the list and the count in the descriptor \<open>b\<close>, and to the page
  (which holds no descriptor).
\<close>

lemma heap_inv_local:
  assumes inv: "heap_inv C F free s" and b: "k < NR_DIR" "b \<in> set (C k)"
    and eq: "HIGH_MEMORY t = HIGH_MEMORY s" "mem_map t = mem_map s" "bd_chain t = bd_chain s" "free_bucket_desc t = free_bucket_desc s"
    and out: "\<And>a. a \<noteq> b + 8 \<Longrightarrow> a \<noteq> b + 12 \<Longrightarrow> frame a \<noteq> bd_page s b \<Longrightarrow> pmem t a = pmem s a"
    and ok: "bucket_ok t k b os"
  shows "heap_inv C F (free(b := os)) t"
proof (rule heap_invI)
  note D = heap_invD [OF inv]
  have bu: "b \<in> used C" using b by blast
  have pu: "page_users t = page_users s" using eq by (simp add: page_users_def fun_eq_iff)
  show "map_ok t" using D(1) eq by (simp add: map_ok_def)
  have w: "pmem t (d + of_nat i) = pmem s (d + of_nat i)"
    if "d \<in> used C \<union> set F" "i < 16" "d \<noteq> b \<or> (i \<noteq> 8 \<and> i \<noteq> 12)" for d i
  proof (rule out)
    have al: "16 dvd unat d" "16 dvd unat b" using D(6) that(1) bu by blast+
    show "d + of_nat i \<noteq> b + 8" using desc_word_eq [OF al that(2), of 8] that(3) by auto
    show "d + of_nat i \<noteq> b + 12" using desc_word_eq [OF al that(2), of 12] that(3) by auto
    show "frame (d + of_nat i) \<noteq> bd_page s b" using D(10) [OF bu that(1)] desc_word(2) [OF al(1) that(2)] by simp
  qed
  have p: "bd_page t d = bd_page s d" if "d \<in> used C \<union> set F" for d using w [OF that, of 0] by (simp add: bd_page_def)
  have n: "bd_next t d = bd_next s d" if "d \<in> used C \<union> set F" for d using w [OF that, of 4] by (simp add: bd_next_def)
  show "lseg (bd_next t) (bd_chain t j) (C j)" if "j < NR_DIR" for j
    using D(2) [OF that] lseg_cong [of "C j" "bd_next t" "bd_next s"] n that by (auto simp: eq)
  show "lseg (bd_next t) (free_bucket_desc t) F"
    using D(3) lseg_cong [of F "bd_next t" "bd_next s"] n by (auto simp: eq)
  show "page_users t (frame d) = 1" if "d \<in> used C \<union> set F" for d using D(7) [OF that] by (simp add: pu)
  show "inj_on (bd_page t) (used C)" using D(9) p by (simp add: inj_on_def)
  show "bd_page t b' \<noteq> frame d" if "b' \<in> used C" "d \<in> used C \<union> set F" for b' d using D(10) [OF that] p that(1) by simp
  show "bucket_ok t j d ((free(b := os)) d)" if "j < NR_DIR" "d \<in> set (C j)" for j d
  proof (cases "d = b")
    case True
    then show ?thesis using ok D(4) [OF b(1) that(1) b(2)] that by simp
  next
    case False
    have du: "d \<in> used C" using that by blast
    have pg: "bd_page s d \<noteq> bd_page s b" using D(9) du bu False by (auto simp: inj_on_def)
    have "bucket_ok t j d (free d)"
    proof (rule bucket_ok_elsewhere [OF inv that])
      show "pmem t a = pmem s a" if "frame a = bd_page s d" for a
      proof (rule out)
        have al: "16 dvd unat b" using D(6) bu by blast
        have "frame a \<noteq> frame b" using that D(10) [OF du, of b] bu by simp
        then show "a \<noteq> b + 8" "a \<noteq> b + 12" using desc_words(2,3) [OF al] by metis+
      qed (use that pg in simp)
    qed (use w [of d] du False pu in simp_all)
    then show ?thesis using False by simp
  qed
qed (use heap_invD(4-6) [OF inv] in blast)+


section \<open>Blocks in use\<close>

text \<open>Address and size of the objects that are on no free list.\<close>

definition live :: "kheap \<Rightarrow> (u32 \<times> nat) set" where
  "live s = {(p, sz k) |p k. k < NR_DIR \<and> (\<exists>bs b os.
     lseg (bd_next s) (bd_chain s k) bs \<and> b \<in> set bs \<and> lseg (pmem s) (bd_freeptr s b) os \<and>
     p \<in> objs k (bd_page s b) \<and> p \<notin> set os)}"

definition heap_ok :: "kheap \<Rightarrow> bool" where
  "heap_ok s \<longleftrightarrow> (\<exists>C F free. heap_inv C F free s \<and> (\<forall>b\<in>used C. bd_refcnt s b \<noteq> 0))"

lemma live_iff:
  assumes "heap_inv C F free s"
  shows "(p, n) \<in> live s \<longleftrightarrow>
    (\<exists>k b. k < NR_DIR \<and> n = sz k \<and> b \<in> set (C k) \<and> p \<in> objs k (bd_page s b) \<and> p \<notin> set (free b))"
proof
  assume "(p, n) \<in> live s"
  then obtain k bs b os where k: "n = sz k" "k < NR_DIR" "lseg (bd_next s) (bd_chain s k) bs" "b \<in> set bs"
    "lseg (pmem s) (bd_freeptr s b) os" "p \<in> objs k (bd_page s b)" "p \<notin> set os" by (auto simp: live_def)
  have bs: "bs = C k" using k(3) heap_invD(2) [OF assms k(2)] by (rule lseg_unique)
  then have "lseg (pmem s) (bd_freeptr s b) (free b)" using heap_invD(8) [OF assms k(2)] k(4) by (simp add: bucket_ok_def)
  then have "os = free b" using k(5) by (rule lseg_unique [rotated])
  then show "\<exists>k b. k < NR_DIR \<and> n = sz k \<and> b \<in> set (C k) \<and> p \<in> objs k (bd_page s b) \<and> p \<notin> set (free b)"
    using k bs by blast
next
  assume "\<exists>k b. k < NR_DIR \<and> n = sz k \<and> b \<in> set (C k) \<and> p \<in> objs k (bd_page s b) \<and> p \<notin> set (free b)"
  then obtain k b where k: "k < NR_DIR" "n = sz k" "b \<in> set (C k)" "p \<in> objs k (bd_page s b)" "p \<notin> set (free b)" by blast
  moreover have "lseg (bd_next s) (bd_chain s k) (C k)" by (rule heap_invD(2) [OF assms k(1)])
  moreover have "lseg (pmem s) (bd_freeptr s b) (free b)" using heap_invD(8) [OF assms k(1,3)] by (simp add: bucket_ok_def)
  ultimately show "(p, n) \<in> live s" unfolding live_def by blast
qed

lemma live_eqI: "(\<And>p n. (p, n) \<in> A \<longleftrightarrow> (p, n) \<in> B) \<Longrightarrow> A = (B :: (u32 \<times> nat) set)"
  by auto

text \<open>Two blocks overlap only if they are the same.\<close>

definition apart :: "u32 \<times> nat \<Rightarrow> u32 \<times> nat \<Rightarrow> bool" where
  "apart x y \<longleftrightarrow> unat (fst x) + snd x \<le> unat (fst y) \<or> unat (fst y) + snd y \<le> unat (fst x)"

lemma objs_apart:
  assumes "frame p = p" "frame q = q" "j < NR_DIR" "k < NR_DIR" "x \<in> objs j p" "y \<in> objs k q"
    "p \<noteq> q \<or> j = k \<and> x \<noteq> y"
  shows "apart (x, sz j) (y, sz k)"
proof -
  obtain m n where mn: "x = obj_at j p m" "m < nobj j" "y = obj_at k q n" "n < nobj k" using assms(5,6) by (auto simp: objs_def)
  note u = obj_at_props(1) [OF assms(1,3) mn(2)] obj_at_props(1) [OF assms(2,4) mn(4)]
  note o = obj_offset [OF assms(3) mn(2)] obj_offset [OF assms(4) mn(4)]
  show ?thesis
  proof (cases "p = q")
    case False
    obtain a b where ab: "unat p = 4096 * a" "unat q = 4096 * b" using assms(1,2) by (metis alignedE)
    then have "a \<noteq> b" using False by (auto simp: word_unat_eq_iff)
    then have "4096 * a + 4096 \<le> 4096 * b \<or> 4096 * b + 4096 \<le> 4096 * a" by linarith
    then show ?thesis using u o ab mn by (auto simp: apart_def)
  next
    case True
    then have jk: "j = k" "m \<noteq> n" using assms(7) mn by auto
    have "m * sz k + sz k \<le> n * sz k \<or> n * sz k + sz k \<le> m * sz k"
      using jk(2) mult_le_mono1 [of "Suc m" n "sz k"] mult_le_mono1 [of "Suc n" m "sz k"] by (cases "m < n") auto
    then show ?thesis using u mn jk True by (auto simp: apart_def)
  qed
qed

lemma live_apart:
  assumes inv: "heap_inv C F free s" and "(p, m) \<in> live s" "(q, n) \<in> live s" "(p, m) \<noteq> (q, n)"
  shows "apart (p, m) (q, n)"
proof -
  obtain j b where j: "j < NR_DIR" "m = sz j" "b \<in> set (C j)" "p \<in> objs j (bd_page s b)" using assms(2) live_iff [OF inv] by blast
  obtain k d where k: "k < NR_DIR" "n = sz k" "d \<in> set (C k)" "q \<in> objs k (bd_page s d)" using assms(3) live_iff [OF inv] by blast
  have u: "b \<in> used C" "d \<in> used C" using j k by blast+
  have "bd_page s b \<noteq> bd_page s d \<or> j = k \<and> p \<noteq> q"
    using heap_invD(9) [OF inv] heap_invD(4) [OF inv j(1) k(1)] u j k assms(4) by (metis inj_onD)
  then show ?thesis
    unfolding j(2) k(2) using bucket_page [OF inv u(1)] bucket_page [OF inv u(2)] j k by (intro objs_apart) auto
qed

lemma refcnt_set [simp]: "bd_refcnt (set_refcnt b v s) b = v"
proof -
  have m: "(0xffff0000 :: u32) = push_bit 16 (mask 16)" by (simp add: mask_eq_exp_minus_1 push_bit_eq_mult)
  show ?thesis
    by (rule bit_word_eqI) (auto simp: bd_refcnt_def set_refcnt_def m bit_simps)
qed

lemma set_refcnt_simps [simp]:
  "mem_map (set_refcnt b v s) = mem_map s" "HIGH_MEMORY (set_refcnt b v s) = HIGH_MEMORY s"
  "bd_chain (set_refcnt b v h) = bd_chain h" "free_bucket_desc (set_refcnt b v h) = free_bucket_desc h"
  "bd_chain (poke a w h) = bd_chain h" "free_bucket_desc (poke a w h) = free_bucket_desc h"
  "a \<noteq> b + 12 \<Longrightarrow> pmem (set_refcnt b v s) a = pmem s a"
  by (simp_all add: set_refcnt_def poke_def)


text \<open>An operation leaves the words of a block alone.\<close>

definition same_block :: "u32 \<times> nat \<Rightarrow> kheap \<Rightarrow> kheap \<Rightarrow> bool" where
  "same_block x s t \<longleftrightarrow> (\<forall>a. unat (fst x) \<le> unat a \<longrightarrow> unat a < unat (fst x) + snd x \<longrightarrow> pmem t a = pmem s a)"

lemma word_in_obj:
  assumes "frame p = p" "k < NR_DIR" "x \<in> objs k p" "unat x \<le> unat a" "unat a < unat x + sz k"
  shows "frame a = p"
proof -
  obtain m where m: "x = obj_at k p m" "m < nobj k" using assms(3) by (auto simp: objs_def)
  have "unat a = unat p + (m * sz k + (unat a - unat x))"
    using obj_at_props(1) [OF assms(1,2) m(2)] assms(4) m(1) by simp
  moreover have l: "m * sz k + (unat a - unat x) < 4096" using obj_offset [OF assms(2) m(2)] assms(4,5) by simp
  ultimately have "a = p + of_nat (m * sz k + (unat a - unat x))"
    using page_offset(1) [OF assms(1) l] by (simp add: word_unat_eq_iff)
  then show ?thesis using page_offset(2) [OF assms(1) l] by metis
qed

lemma same_blockI:
  assumes inv: "heap_inv C F free s" and x: "(q, n) \<in> live s"
    and out: "\<And>a. pmem t a \<noteq> pmem s a \<Longrightarrow>
      (\<exists>d\<in>used C \<union> set F. frame a = frame d) \<or> a \<in> W \<or> page_users s (frame a) = 0"
    and W: "\<And>a. a \<in> W \<Longrightarrow> unat q \<le> unat a \<Longrightarrow> unat a < unat q + n \<Longrightarrow> False"
  shows "same_block (q, n) s t"
  unfolding same_block_def
proof (intro allI impI, rule ccontr)
  fix a assume a: "unat (fst (q, n)) \<le> unat a" "unat a < unat (fst (q, n)) + snd (q, n)" "pmem t a \<noteq> pmem s a"
  obtain k b where k: "k < NR_DIR" "n = sz k" "b \<in> set (C k)" "q \<in> objs k (bd_page s b)" using x live_iff [OF inv] by blast
  have u: "b \<in> used C" using k by blast
  have f: "frame a = bd_page s b" using word_in_obj [OF bucket_page [OF inv u] k(1,4)] a k(2) by simp
  have "page_users s (bd_page s b) = 1" using heap_invD(8) [OF inv k(1,3)] by (simp add: bucket_ok_def)
  then show False using out [OF a(3)] heap_invD(10) [OF inv u] W [of a] a f by auto
qed

lemma page_users_cong: "mem_map t = mem_map s \<Longrightarrow> HIGH_MEMORY t = HIGH_MEMORY s \<Longrightarrow> page_users t = page_users s"
  by (simp add: page_users_def fun_eq_iff)

lemma live_in_bucket:
  assumes inv: "heap_inv C F free s" and b: "k < NR_DIR" "b \<in> set (C k)" "p \<in> objs k (bd_page s b)"
  shows "(p, n) \<in> live s \<longleftrightarrow> n = sz k \<and> p \<notin> set (free b)"
proof
  assume "(p, n) \<in> live s"
  then obtain j d where j: "j < NR_DIR" "n = sz j" "d \<in> set (C j)" "p \<in> objs j (bd_page s d)" "p \<notin> set (free d)"
    using live_iff [OF inv] by blast
  have u: "d \<in> used C" "b \<in> used C" using j b by blast+
  have "bd_page s d = bd_page s b"
    using objs_frame [OF bucket_page [OF inv u(1)] j(1,4)] objs_frame [OF bucket_page [OF inv u(2)] b(1,3)] by simp
  then have "d = b" using heap_invD(9) [OF inv] u by (simp add: inj_on_def)
  then show "n = sz k \<and> p \<notin> set (free b)" using j heap_invD(4) [OF inv j(1) b(1)] b by auto
next
  assume "n = sz k \<and> p \<notin> set (free b)"
  then show "(p, n) \<in> live s" using live_iff [OF inv] b by blast
qed

text \<open>One object more on the free list is one block less in use.\<close>

lemma live_local:
  assumes inv: "heap_inv C F free s" and inv': "heap_inv C F (free(b := os)) t" and b: "k < NR_DIR" "b \<in> set (C k)"
    and f: "set (free b) = insert p (set os)" "p \<notin> set os"
    and pgs: "\<And>d. d \<in> used C \<Longrightarrow> bd_page t d = bd_page s d"
  shows "live t = insert (p, sz k) (live s)" "(p, sz k) \<notin> live s"
proof -
  have p: "p \<in> objs k (bd_page s b)" using heap_invD(8) [OF inv b] f by (auto simp: bucket_ok_def)
  show "(p, sz k) \<notin> live s" using live_in_bucket [OF inv b p] f by simp
  show "live t = insert (p, sz k) (live s)"
  proof (rule live_eqI)
    fix q n
    show "(q, n) \<in> live t \<longleftrightarrow> (q, n) \<in> insert (p, sz k) (live s)"
    proof (cases "q = p")
      case True
      have "bd_page t b = bd_page s b" using pgs b by blast
      then show ?thesis using live_in_bucket [OF inv b p, of n] live_in_bucket [OF inv' b, of p n] p f True by simp
    next
      case False
      then have "q \<notin> set ((free(b := os)) d) \<longleftrightarrow> q \<notin> set (free d)" for d using f by simp
      then have "(q, n) \<in> live t \<longleftrightarrow> (q, n) \<in> live s"
        unfolding live_iff [OF inv'] live_iff [OF inv] by (intro iff_exI conj_cong refl) (simp_all add: pgs [OF usedI])
      then show ?thesis using False by simp
    qed
  qed
qed

lemma take_obj:
  assumes inv: "heap_inv C F free s" and b: "k < NR_DIR" "b \<in> set (C k)" and f: "free b = p # os"
  defines "t \<equiv> set_refcnt b (bd_refcnt s b + 1) (poke (b + 8) (pmem s p) s)"
  shows "bd_freeptr s b = p" "heap_inv C F (free(b := os)) t" "unat (bd_refcnt t b) = unat (bd_refcnt s b) + 1"
    "live t = insert (p, sz k) (live s)" "(p, sz k) \<notin> live s"
    "(q, n) \<in> live s \<Longrightarrow> same_block (q, n) s t" "d \<in> used C \<Longrightarrow> bd_page t d = bd_page s d"
    "d \<in> used C \<Longrightarrow> d \<noteq> b \<Longrightarrow> bd_refcnt t d = bd_refcnt s d"
proof -
  note D = heap_invD [OF inv]
  have bu: "b \<in> used C" using b by blast
  have ok: "bucket_ok s k b (p # os)" using D(8) [OF b] f by simp
  then show fp: "bd_freeptr s b = p" by (simp add: bucket_ok_def)
  have al: "16 dvd unat b" using D(6) bu by blast
  have pgb: "frame (bd_page s b) = bd_page s b" by (rule bucket_page [OF inv bu])
  have ne: "b + 8 \<noteq> b + 12" "b \<noteq> b + 8" "b \<noteq> b + 12"
    using desc_neq [OF al al] by auto
  show pgs: "bd_page t d = bd_page s d" if "d \<in> used C" for d
    using desc_neq(2,3) [OF al D(6), of d] that by (simp add: t_def bd_page_def)
  show "bd_refcnt t d = bd_refcnt s d" if "d \<in> used C" "d \<noteq> b"
    using desc_neq(12) [OF al D(6), of d] that by (simp add: t_def bd_refcnt_def)
  have ps: "p \<in> objs k (bd_page s b)" "set os \<subseteq> objs k (bd_page s b)" "lseg (pmem s) (pmem s p) os" "p \<notin> set os"
    using ok lseg_distinct [of "pmem s" _ "p # os"] by (auto simp: bucket_ok_def)
  have "pmem t x = pmem s x" if "x \<in> set os" for x
  proof -
    have "frame x = bd_page s b" by (rule objs_frame [OF pgb b(1)]) (use ps that in blast)
    then have "frame x \<noteq> frame b" using D(10) [OF bu, of b] bu by simp
    then have "x \<noteq> b + 8" "x \<noteq> b + 12" using desc_words(2,3) [OF al] by metis+
    then show ?thesis by (simp add: t_def)
  qed
  then have ls: "lseg (pmem t) (pmem s p) os" using ps(3) lseg_cong [of os "pmem t" "pmem s"] by simp
  have cnt: "unat (bd_refcnt s b) + length os + 1 = nobj k" using ok by (simp add: bucket_ok_def)
  then have "unat (bd_refcnt s b) < 256" using sz_props(5) [OF b(1)] by simp
  then show rc: "unat (bd_refcnt t b) = unat (bd_refcnt s b) + 1" by (simp add: t_def unat_word_ariths)
  have "page_users t = page_users s" by (rule page_users_cong) (simp_all add: t_def)
  moreover have "bd_freeptr t b = pmem s p" using ne by (simp add: t_def bd_freeptr_def)
  ultimately have okt: "bucket_ok t k b os" using ok ps cnt rc ls by (simp add: bucket_ok_def pgs [OF bu])
  show inv': "heap_inv C F (free(b := os)) t"
    by (rule heap_inv_local [OF inv b _ _ _ _ _ okt]) (simp_all add: t_def)
  have fb: "set (free b) = insert p (set os)" by (simp add: f)
  show "live t = insert (p, sz k) (live s)" "(p, sz k) \<notin> live s"
    using live_local [OF inv inv' b fb ps(4) pgs] by simp_all
  show "same_block (q, n) s t" if "(q, n) \<in> live s"
    by (rule same_blockI [OF inv that, where W = "{}"]) (use bu al in \<open>auto simp: t_def set_refcnt_def split: if_splits intro!: bexI [of _ b]\<close>)
qed


lemma put_obj:
  assumes inv: "heap_inv C F free s" and b: "k < NR_DIR" "b \<in> set (C k)" and p: "p \<in> objs k (bd_page s b)" "p \<notin> set (free b)"
  defines "t \<equiv> set_refcnt b (bd_refcnt s b - 1) (poke (b + 8) p (poke p (bd_freeptr s b) s))"
  shows "heap_inv C F (free(b := p # free b)) t" "unat (bd_refcnt t b) = unat (bd_refcnt s b) - 1" "0 < unat (bd_refcnt s b)"
    "live s = insert (p, sz k) (live t)" "(p, sz k) \<notin> live t"
    "(q, n) \<in> live t \<Longrightarrow> same_block (q, n) s t" "d \<in> used C \<Longrightarrow> bd_page t d = bd_page s d"
    "d \<in> used C \<Longrightarrow> d \<noteq> b \<Longrightarrow> bd_refcnt t d = bd_refcnt s d" "bd_refcnt (poke (b + 8) p (poke p (bd_freeptr s b) s)) b = bd_refcnt s b"
proof -
  note D = heap_invD [OF inv]
  have bu: "b \<in> used C" using b by blast
  have ok: "bucket_ok s k b (free b)" by (rule D(8) [OF b])
  have al: "16 dvd unat b" using D(6) bu by blast
  have pgb: "frame (bd_page s b) = bd_page s b" by (rule bucket_page [OF inv bu])
  have fp: "frame p = bd_page s b" by (rule objs_frame [OF pgb b(1) p(1)])
  have pne: "p \<noteq> d" "p \<noteq> d + 8" "p \<noteq> d + 12" if "d \<in> used C" for d
    using that fp D(10) [OF bu, of d] desc_words(2,3) [OF D(6), of d] by (metis UnI1)+
  show pgs: "bd_page t d = bd_page s d" if "d \<in> used C" for d
    using desc_neq(2,3) [OF al D(6), of d] pne [OF that] that by (simp add: t_def bd_page_def)
  show "bd_refcnt t d = bd_refcnt s d" if "d \<in> used C" "d \<noteq> b"
    using desc_neq(12) [OF al D(6), of d] pne [OF that(1)] that by (simp add: t_def bd_refcnt_def)
  show "bd_refcnt (poke (b + 8) p (poke p (bd_freeptr s b) s)) b = bd_refcnt s b"
    using pne [OF bu] by (simp add: bd_refcnt_def)
  have "pmem t x = pmem s x" if "x \<in> set (free b)" for x
  proof -
    have "x \<in> objs k (bd_page s b)" using ok that by (auto simp: bucket_ok_def)
    then have "frame x \<noteq> frame b" using objs_frame [OF pgb b(1)] D(10) [OF bu, of b] bu by simp
    then have "x \<noteq> b + 8" "x \<noteq> b + 12" using desc_words(2,3) [OF al] by metis+
    then show ?thesis using that p(2) by (auto simp: t_def)
  qed
  then have ls: "lseg (pmem t) (bd_freeptr s b) (free b)" using ok lseg_cong [of "free b" "pmem t" "pmem s"] by (simp add: bucket_ok_def)
  have pw: "pmem t p = bd_freeptr s b" "bd_freeptr t b = p" using pne [OF bu] by (simp_all add: t_def bd_freeptr_def)
  have nz: "p \<noteq> 0" using fp ok page_users_frame [of s "bd_page s b"] frame_0 by (auto simp: bucket_ok_def)
  have d: "distinct (p # free b)" using ls p(2) lseg_distinct by auto
  have "card (set (p # free b)) \<le> card (objs k (bd_page s b))" using p ok by (intro card_mono) (auto simp: bucket_ok_def)
  then have le: "Suc (length (free b)) \<le> nobj k" using d card_objs [OF pgb b(1)] distinct_card [OF d] by simp
  then show pos: "0 < unat (bd_refcnt s b)" using ok by (auto simp: bucket_ok_def)
  then show rc: "unat (bd_refcnt t b) = unat (bd_refcnt s b) - 1" using unat_minus_one [of "bd_refcnt s b"] by (cases "bd_refcnt s b = 0") (simp_all add: t_def)
  have "page_users t = page_users s" by (rule page_users_cong) (simp_all add: t_def)
  then have okt: "bucket_ok t k b (p # free b)" using ok p pos rc ls pw nz by (simp add: bucket_ok_def pgs [OF bu])
  show inv': "heap_inv C F (free(b := p # free b)) t"
    by (rule heap_inv_local [OF inv b _ _ _ _ _ okt]) (use fp in \<open>auto simp: t_def\<close>)
  have e: "(free(b := p # free b))(b := free b) = free" by simp
  show "live s = insert (p, sz k) (live t)" "(p, sz k) \<notin> live t"
    using live_local [OF inv', of b "free b" s k p] inv b p pgs unfolding e by auto
  show "same_block (q, n) s t" if l: "(q, n) \<in> live t"
  proof (rule same_blockI [OF inv, where W = "{p}"])
    show ls: "(q, n) \<in> live s" using l \<open>live s = insert (p, sz k) (live t)\<close> by simp
    have "(p, sz k) \<in> live s" "(q, n) \<noteq> (p, sz k)" using l \<open>(p, sz k) \<notin> live t\<close> \<open>live s = insert (p, sz k) (live t)\<close> by auto
    then have "apart (q, n) (p, sz k)" using live_apart [OF inv ls] by auto
    then show "False" if "a \<in> {p}" "unat q \<le> unat a" "unat a < unat q + n" for a
      using that sz_props(2) [OF b(1)] by (auto simp: apart_def)
  qed (use bu al in \<open>auto simp: t_def set_refcnt_def split: if_splits intro!: bexI [of _ b]\<close>)
qed

section \<open>Searching\<close>

lemma find_bucket_ok:
  "lseg (bd_next s) p bs \<Longrightarrow>
   \<exists>r. find_bucket p s = Ret r s \<and> (r = 0 \<and> (\<forall>b\<in>set bs. bd_freeptr s b = 0) \<or> r \<in> set bs \<and> bd_freeptr s r \<noteq> 0)"
proof (induction bs arbitrary: p)
  case Nil
  then show ?case by (simp add: find_bucket_def loopO_done)
next
  case (Cons b bs)
  show ?case
  proof (cases "bd_freeptr s b = 0")
    case True
    then have "find_bucket p s = find_bucket (bd_next s b) s"
      unfolding find_bucket_def using Cons.prems by (intro loopO_again) simp
    then show ?thesis using Cons.IH [of "bd_next s b"] Cons.prems True by auto
  next
    case False
    then have "find_bucket p s = Ret b s"
      unfolding find_bucket_def by (intro loopO_done) (use Cons.prems in simp)
    then show ?thesis using False by auto
  qed
qed

definition chain_step :: "u32 \<Rightarrow> u32 \<times> u32 \<Rightarrow> kheap \<Rightarrow> (kheap, (u32 \<times> u32) + (u32 \<times> u32) option) outcome" where
  "chain_step page = (\<lambda>(prev, b) s. if b = 0 then Ret (Inr None) s
     else if bd_page s b = page then Ret (Inr (Some (prev, b))) s else Ret (Inl (b, bd_next s b)) s)"

lemma chain_none:
  "lseg (bd_next s) p bs \<Longrightarrow> (\<And>b. b \<in> set bs \<Longrightarrow> bd_page s b \<noteq> page) \<Longrightarrow> loopO (chain_step page) (prev, p) s = Ret None s"
proof (induction bs arbitrary: p prev)
  case Nil
  then show ?case by (simp add: chain_step_def loopO_done)
next
  case (Cons b bs)
  then have "loopO (chain_step page) (prev, p) s = loopO (chain_step page) (b, bd_next s b) s"
    by (intro loopO_again) (auto simp: chain_step_def)
  then show ?case using Cons by simp
qed

lemma chain_some:
  "lseg (bd_next s) p (xs @ b # ys) \<Longrightarrow> (\<And>d. d \<in> set xs \<Longrightarrow> bd_page s d \<noteq> bd_page s b) \<Longrightarrow>
   loopO (chain_step (bd_page s b)) (prev, p) s = Ret (Some (if xs = [] then prev else last xs, b)) s"
proof (induction xs arbitrary: p prev)
  case Nil
  then show ?case by (simp add: chain_step_def loopO_done)
next
  case (Cons x xs)
  then have "loopO (chain_step (bd_page s b)) (prev, p) s = loopO (chain_step (bd_page s b)) (x, bd_next s x) s"
    by (intro loopO_again) (auto simp: chain_step_def)
  then show ?case using Cons by simp
qed

lemma search_chain_step: "search_chain page p s = loopO (chain_step page) (0, p) s"
  by (simp add: search_chain_def chain_step_def)

lemma search_dir_ok:
  assumes inv: "heap_inv C F free s" and k: "k < NR_DIR" "C k = xs @ b # ys" and n: "n \<le> int (sz k)"
    and ks: "distinct ks" "set ks \<subseteq> {..<NR_DIR}" "k \<in> set ks"
  shows "search_dir ks (bd_page s b) n s = Ret (k, if xs = [] then 0 else last xs, b) s"
  using ks
proof (induction ks)
  case (Cons j js)
  note D = heap_invD [OF inv]
  have bk: "b \<in> set (C k)" using k by simp
  have other: "bd_page s d \<noteq> bd_page s b" if "d \<in> set (C i)" "i < NR_DIR" "d \<noteq> b" for d i
    using D(9) that bk k(1) usedI [of i d C] usedI [of k b C] by (auto simp: inj_on_def)
  show ?case
  proof (cases "j = k")
    case True
    have "loopO (chain_step (bd_page s b)) (0, bd_chain s k) s = Ret (Some (if xs = [] then 0 else last xs, b)) s"
    proof (rule chain_some)
      show "lseg (bd_next s) (bd_chain s k) (xs @ b # ys)" using D(2) [OF k(1)] k(2) by simp
      then have "b \<notin> set xs" using lseg_distinct by fastforce
      then show "bd_page s d \<noteq> bd_page s b" if "d \<in> set xs" for d using other [of d k] that k by auto
    qed
    then show ?thesis using True n by (simp add: search_chain_step)
  next
    case False
    have jl: "j < NR_DIR" using Cons.prems by simp
    have "loopO (chain_step (bd_page s b)) (0, bd_chain s j) s = Ret None s"
      by (rule chain_none [OF D(2) [OF jl]]) (use other [OF _ jl] D(4) [OF jl k(1) _ bk] False in blast)
    then show ?thesis using Cons False by (simp add: search_chain_step)
  qed
qed simp


section \<open>A bucket that becomes empty\<close>

lemma prev_loop:
  assumes "lseg (bd_next s) p (xs @ b # ys)"
  shows "loopO (\<lambda>p s. if p = 0 \<or> bd_next s p = b then Ret (Inr p) s else Ret (Inl (bd_next s p)) s) p s
    = Ret (if xs = [] then 0 else last xs) s" (is "loopO ?f p s = _")
proof -
  have none: "lseg (bd_next s) q zs \<Longrightarrow> b \<notin> set (tl zs) \<Longrightarrow> b \<noteq> 0 \<Longrightarrow> loopO ?f q s = Ret 0 s" for q zs
  proof (induction zs arbitrary: q)
    case Nil
    then show ?case by (simp add: loopO_done)
  next
    case (Cons z zs)
    then have "bd_next s z \<noteq> b" by (cases zs) auto
    then have "loopO ?f q s = loopO ?f (bd_next s z) s" using Cons.prems by (intro loopO_again) auto
    then show ?case using Cons by (cases zs) auto
  qed
  show ?thesis
    using assms
  proof (induction xs arbitrary: p)
    case Nil
    then show ?case using none [of p "b # ys"] lseg_distinct [OF Nil] lseg_nonzero [OF Nil, of b] by simp
  next
    case (Cons x xs)
    show ?case
    proof (cases xs)
      case Nil
      then show ?thesis using Cons.prems by (intro trans [OF loopO_done]) auto
    next
      case (Cons y zs)
      have "b \<notin> set xs" using lseg_distinct [OF Cons.prems] by auto
      then have "bd_next s x \<noteq> b" using Cons.prems \<open>xs = y # zs\<close> by auto
      then have "loopO ?f p s = loopO ?f (bd_next s x) s" using Cons.prems by (intro loopO_again) auto
      then show ?thesis using Cons.IH [of "bd_next s x"] Cons.prems \<open>xs = y # zs\<close> by simp
    qed
  qed
qed

lemma current_prev_ok:
  assumes inv: "heap_inv C F free s" and k: "k < NR_DIR" "C k = xs @ b # ys" and p: "prev = 0 \<or> prev \<in> used C \<union> set F"
  shows "current_prev k prev b s = Ret (if xs = [] then 0 else last xs) s"
proof (cases "prev \<noteq> 0 \<and> bd_next s prev \<noteq> b \<or> prev = 0 \<and> bd_chain s k \<noteq> b")
  case True
  then show ?thesis using prev_loop [of s "bd_chain s k" xs b ys] heap_invD(2) [OF inv k(1)] k(2) by (simp add: current_prev_def)
next
  case False
  note D = heap_invD [OF inv]
  have bk: "b \<in> set (C k)" and ls: "lseg (bd_next s) (bd_chain s k) (xs @ b # ys)" using k D(2) [OF k(1)] by simp_all
  have bz: "b \<noteq> 0" using lseg_nonzero [OF D(2) [OF k(1)] bk] .
  have dist: "distinct (xs @ b # ys)" using ls by (rule lseg_distinct)
  have "prev = (if xs = [] then 0 else last xs)"
  proof (cases "prev = 0")
    case True
    then have "xs = []" using False ls dist by (cases xs) auto
    then show ?thesis using True by simp
  next
    case nz: False
    then have nx: "bd_next s prev = b" using False by simp
    have "prev \<notin> set F" using lseg_prev [OF D(3) _ nx bz] D(5) usedI [of k b C] k(1) bk by auto
    then obtain j where j: "j < NR_DIR" "prev \<in> set (C j)" using p nz by (auto simp: used_def)
    obtain us vs where uv: "C j = us @ prev # b # vs" using lseg_prev [OF D(2) [OF j(1)] j(2) nx bz] by blast
    then have "j = k" using D(4) [OF j(1) k(1), of b] bk by simp
    then have "(us @ [prev]) @ b # vs = xs @ b # ys" using uv k(2) by simp
    moreover have "b \<notin> set (us @ [prev])" "b \<notin> set xs" "b \<notin> set vs" using dist lseg_distinct [OF D(2) [OF j(1)]] uv by auto
    ultimately have "xs = us @ [prev]" using append_Cons_eq_iff [of b "us @ [prev]" vs xs ys] by simp
    then show ?thesis by simp
  qed
  then show ?thesis using False by (auto simp: current_prev_def)
qed

lemma unlink_inv:
  assumes inv: "heap_inv C F free s" and k: "k < NR_DIR" "C k = xs @ b # ys"
    and t: "map_ok t" "page_users t = (page_users s)(bd_page s b := 0)"
      "bd_chain t = (if xs = [] then (bd_chain s)(k := bd_next s b) else bd_chain s)" "free_bucket_desc t = b"
      "pmem t = (if xs = [] then pmem s else (pmem s)(last xs + 4 := bd_next s b))(b + 4 := free_bucket_desc s)"
  shows "heap_inv (C(k := xs @ ys)) (b # F) free t" "d \<in> used C \<Longrightarrow> bd_page t d = bd_page s d"
    "d \<in> used C \<Longrightarrow> bd_refcnt t d = bd_refcnt s d"
    "set (free b) = objs k (bd_page s b) \<Longrightarrow> live t = live s" "(q, n) \<in> live s \<Longrightarrow> same_block (q, n) s t"
proof -
  note D = heap_invD [OF inv]
  let ?C = "C(k := xs @ ys)"
  have ls: "lseg (bd_next s) (bd_chain s k) (xs @ b # ys)" using D(2) [OF k(1)] k(2) by simp
  have dist: "distinct (xs @ b # ys)" using ls by (rule lseg_distinct)
  have bk: "b \<in> set (C k)" and xk: "set xs \<subseteq> set (C k)" using k(2) by auto
  have lk: "xs \<noteq> [] \<Longrightarrow> last xs \<in> set (C k)" using xk by auto
  have mem: "d \<in> set (?C j) \<longleftrightarrow> d \<in> set (C j) \<and> d \<noteq> b" if "j < NR_DIR" for d j
    using k(2) dist D(4) [OF that k(1), of b] bk by (cases "j = k") auto
  have "\<And>d. d \<in> used ?C \<longleftrightarrow> d \<in> used C \<and> d \<noteq> b" unfolding used_def UN_iff Bex_def lessThan_iff using mem by blast
  then have uC: "used ?C = used C - {b}" by blast
  have sub: "used ?C \<subseteq> used C" "b \<in> used C" "b \<notin> used ?C" using uC k(1) bk by blast+
  have un: "used C \<union> set F = used ?C \<union> set (b # F)" using uC sub(2) by auto
  have al: "16 dvd unat d" if "d \<in> used C \<union> set F" for d using D(6) that .
  have lu: "xs \<noteq> [] \<Longrightarrow> last xs \<in> used C \<union> set F" using lk k(1) by blast
  have w: "pmem t (d + of_nat i) = pmem s (d + of_nat i)" if "d \<in> used C \<union> set F" "i < 16" "i \<noteq> 4" for d i
    using that desc_word_eq [OF al [OF that(1)] al [of b] that(2), of 4] sub(2)
      desc_word_eq [OF al [OF that(1)] al [OF lu] that(2), of 4] by (auto simp: t(5))
  have pgs: "bd_page t d = bd_page s d" if "d \<in> used C \<union> set F" for d using w [OF that, of 0] by (simp add: bd_page_def)
  then show "d \<in> used C \<Longrightarrow> bd_page t d = bd_page s d" by blast
  show rc: "bd_refcnt t d = bd_refcnt s d" if "d \<in> used C" for d using w [of d 12] that by (simp add: bd_refcnt_def)
  have nx: "bd_next t d = (if d = b then free_bucket_desc s else if xs \<noteq> [] \<and> d = last xs then bd_next s b else bd_next s d)"
    for d by (simp add: bd_next_def t(5))
  have pm: "pmem t a = pmem s a" if "frame a \<noteq> frame b" "xs \<noteq> [] \<Longrightarrow> frame a \<noteq> frame (last xs)" for a
  proof -
    have "a \<noteq> b + 4" using that(1) desc_words(1) [OF al [of b]] sub(2) by auto
    moreover have "xs \<noteq> [] \<Longrightarrow> a \<noteq> last xs + 4" using that(2) desc_words(1) [OF al [OF lu]] by auto
    ultimately show ?thesis by (simp add: t(5))
  qed
  show inv': "heap_inv ?C (b # F) free t"
  proof (rule heap_invI)
    show "lseg (bd_next t) (bd_chain t j) (?C j)" if "j < NR_DIR" for j
    proof (cases "j = k")
      case False
      then have "bd_next t d = bd_next s d" if "d \<in> set (C j)" for d
        using D(4) [OF \<open>j < NR_DIR\<close> k(1) that] bk lk by (auto simp: nx)
      then show ?thesis using False D(2) [OF that] lseg_cong [of "C j" "bd_next t" "bd_next s"] t(3) by simp
    next
      case True
      show ?thesis
      proof (cases xs rule: rev_cases)
        case Nil
        then have "lseg (bd_next t) (bd_next s b) ys = lseg (bd_next s) (bd_next s b) ys"
          using dist by (intro lseg_cong) (auto simp: nx)
        then show ?thesis using True Nil ls t(3) by simp
      next
        case (snoc zs q)
        have "lseg (bd_next t) (bd_chain s k) (zs @ q # ys) = lseg ((bd_next s)(q := bd_next s b)) (bd_chain s k) (zs @ q # ys)"
          using dist snoc by (intro lseg_cong) (auto simp: nx)
        then show ?thesis using True snoc ls t(3) lseg_remove [of "bd_next s" "bd_chain s k" zs q b ys] by simp
      qed
    qed
    have "lseg (bd_next t) (free_bucket_desc s) F = lseg (bd_next s) (free_bucket_desc s) F"
      using D(5) sub(2) lu lk k(1) by (intro lseg_cong) (auto simp: nx)
    then show "lseg (bd_next t) (free_bucket_desc t) (b # F)" using D(3) lseg_nonzero [OF ls, of b] by (simp add: t(4) nx)
    show "i = j" if "i < NR_DIR" "j < NR_DIR" "d \<in> set (?C i)" "d \<in> set (?C j)" for i j d
      using D(4) [OF that(1,2), of d] that(3,4) k(2) by (auto split: if_splits)
    show "used ?C \<inter> set (b # F) = {}" using sub D(5) by auto
    show "16 dvd unat d" if "d \<in> used ?C \<union> set (b # F)" for d using al that un by blast
    show "page_users t (frame d) = 1" if "d \<in> used ?C \<union> set (b # F)" for d
      using D(7) [of d] D(10) [OF sub(2), of d] that un t(2) by auto
    show "bucket_ok t j d (free d)" if "j < NR_DIR" "d \<in> set (?C j)" for j d
    proof -
      have dj: "d \<in> set (C j)" "d \<noteq> b" "d \<in> used C" using that k dist sub usedI [of j d ?C] by (auto split: if_splits)
      have "bd_page s d \<noteq> bd_page s b" using D(9) dj sub(2) by (auto simp: inj_on_def)
      then show ?thesis
        using pm D(10) [OF dj(3)] sub(2) lu w [of d] dj(3) t(2) by (intro bucket_ok_elsewhere [OF inv that(1) dj(1)]) auto
    qed
    have "inj_on (bd_page t) (used ?C) = inj_on (bd_page s) (used ?C)" using sub(1) by (intro inj_on_cong pgs) auto
    then show "inj_on (bd_page t) (used ?C)" using inj_on_subset [OF D(9) sub(1)] by simp
    show "bd_page t b' \<noteq> frame d" if "b' \<in> used ?C" "d \<in> used ?C \<union> set (b # F)" for b' d
      using D(10) [OF subsetD [OF sub(1) that(1)], of d] pgs [of b'] that unfolding un by simp
  qed (rule t(1))
  show "live t = live s" if full: "set (free b) = objs k (bd_page s b)"
  proof (rule live_eqI)
    fix q n
    have "(\<exists>d. d \<in> set (?C j) \<and> q \<in> objs j (bd_page t d) \<and> q \<notin> set (free d)) \<longleftrightarrow>
      (\<exists>d. d \<in> set (C j) \<and> q \<in> objs j (bd_page s d) \<and> q \<notin> set (free d))" if j: "j < NR_DIR" for j
    proof (rule iff_exI)
      fix d
      show "d \<in> set (?C j) \<and> q \<in> objs j (bd_page t d) \<and> q \<notin> set (free d) \<longleftrightarrow>
        d \<in> set (C j) \<and> q \<in> objs j (bd_page s d) \<and> q \<notin> set (free d)"
        unfolding mem [OF j] using full pgs [of d] usedI [of j d C] D(4) [OF j k(1) _ bk] j by auto
    qed
    then show "(q, n) \<in> live t \<longleftrightarrow> (q, n) \<in> live s" unfolding live_iff [OF inv] live_iff [OF inv'] by blast
  qed
  show "same_block (q, n) s t" if "(q, n) \<in> live s"
  proof (rule same_blockI [OF inv that, where W = "{}"])
    show "(\<exists>d\<in>used C \<union> set F. frame a = frame d) \<or> a \<in> {} \<or> page_users s (frame a) = 0" if "pmem t a \<noteq> pmem s a" for a
      using pm [of a] that sub(2) lu by auto
  qed simp
qed


section \<open>A new bucket\<close>

text \<open>The loops that link the parts of a fresh page store, at \<open>a\<close>, the address one stride behind it.\<close>

definition lay :: "u32 \<Rightarrow> u32 \<Rightarrow> nat \<Rightarrow> u32 \<Rightarrow> kheap \<Rightarrow> u32 \<Rightarrow> u32" where
  "lay off st n cp s = (\<lambda>a. if \<exists>j<n. a = cp + of_nat j * st + off then a - off + st else pmem s a)"

lemma lay_Suc: "lay off st n (cp + st) (poke (cp + off) (cp + st) s) = lay off st (Suc n) cp s"
proof
  fix a
  have "(\<exists>j<Suc n. a = cp + of_nat j * st + off) \<longleftrightarrow> a = cp + off \<or> (\<exists>j<n. a = cp + st + of_nat j * st + off)"
    by (simp add: Nat.Ex_less_Suc2 algebra_simps)
  then show "lay off st n (cp + st) (poke (cp + off) (cp + st) s) a = lay off st (Suc n) cp s a"
    by (auto simp: lay_def)
qed

lemma link_objs_lay: "link_objs n st cp s = (cp + of_nat n * st, s\<lparr>pmem := lay 0 st n cp s\<rparr>)"
proof (induction n arbitrary: cp s)
  case 0
  then show ?case by (simp add: lay_def)
next
  case (Suc n)
  then show ?case using lay_Suc [of 0 st n cp s] by (simp add: poke_def algebra_simps)
qed

lemma link_descs_lay: "link_descs n cp s = (cp + of_nat n * 16, s\<lparr>pmem := lay 4 16 n cp s\<rparr>)"
proof (induction n arbitrary: cp s)
  case 0
  then show ?case by (simp add: lay_def)
next
  case (Suc n)
  then show ?case using lay_Suc [of 4 16 n cp s] by (simp add: poke_def algebra_simps)
qed

lemma lseg_map:
  assumes "\<And>j. j < n \<Longrightarrow> nx (f j) = f (Suc j)" "nx (f n) = 0" "\<And>j. j \<le> n \<Longrightarrow> f j \<noteq> 0"
  shows "i \<le> n \<Longrightarrow> lseg nx (f i) (map f [i..<Suc n])"
proof (induction "n - i" arbitrary: i)
  case 0
  then have "[i..<Suc n] = [n]" "i = n" by simp_all
  then show ?case using assms by simp
next
  case (Suc m)
  then have i: "i < n" by simp
  have "lseg nx (f (Suc i)) (map f [Suc i..<Suc n])" by (rule Suc.hyps(1)) (use Suc.hyps(2) i in simp_all)
  then show ?case using assms i by (simp add: upt_conv_Cons del: upt_Suc)
qed

text \<open>A fresh page of descriptors.\<close>

lemma desc_page:
  assumes "frame p = p" "j < 256"
  shows "unat (p + of_nat j * 16) = unat p + 16 * j" "frame (p + of_nat j * 16) = p" "16 dvd unat (p + of_nat j * 16)"
proof -
  have e: "p + of_nat j * 16 = p + of_nat (16 * j)" by (simp add: mult.commute)
  show u: "unat (p + of_nat j * 16) = unat p + 16 * j" "frame (p + of_nat j * 16) = p"
    unfolding e using page_offset [OF assms(1), of "16 * j"] assms(2) by simp_all
  obtain q where "unat p = 4096 * q" using assms(1) by (rule alignedE)
  then show "16 dvd unat (p + of_nat j * 16)" unfolding u(1) by (simp add: dvd_add dvd_mult2)
qed

lemma alloc_frame:
  assumes ok: "map_ok (s :: kheap)" and al: "get_free_page s = (p, t)" and nz: "p \<noteq> 0"
  shows "frame p = p" "page_users s p = 0" "page_users t = (page_users s)(p := 1)" "map_ok t"
    "pmem t = (\<lambda>a. if frame a = p then 0 else pmem s a)"
    "bd_chain t = bd_chain s" "free_bucket_desc t = free_bucket_desc s"
proof -
  show u: "page_users s p = 0" "page_users t = (page_users s)(p := 1)" "map_ok t" using frames.alloc_page [OF ok al nz] by simp_all
  have "page_users t p = 1" using u by simp
  then show "frame p = p" using page_users_frame [of t p] by simp
  show "pmem t = (\<lambda>a. if frame a = p then 0 else pmem s a)" "bd_chain t = bd_chain s" "free_bucket_desc t = free_bucket_desc s"
    using al nz by (cases rule: get_free_page_cases [of s]; auto)+
qed


lemma new_descs_inv:
  assumes inv: "heap_inv C F free s" and p: "page_users s p = 0"
    and t: "map_ok t" "page_users t = (page_users s)(p := 1)" "bd_chain t = bd_chain s" "\<And>a. frame a \<noteq> p \<Longrightarrow> pmem t a = pmem s a"
    and G: "lseg (bd_next t) (free_bucket_desc t) G" "\<And>d. d \<in> set G \<Longrightarrow> 16 dvd unat d \<and> frame d = p"
  shows "heap_inv C G free t" "d \<in> used C \<Longrightarrow> bd_page t d = bd_page s d" "d \<in> used C \<Longrightarrow> bd_refcnt t d = bd_refcnt s d"
    "live t = live s" "(q, n) \<in> live s \<Longrightarrow> same_block (q, n) s t"
proof -
  note D = heap_invD [OF inv]
  have ne: "frame d \<noteq> p" if "d \<in> used C" for d using D(7) [of d] p that by auto
  have w: "pmem t (d + of_nat i) = pmem s (d + of_nat i)" if "d \<in> used C" "i < 16" for d i
    using ne [OF that(1)] desc_word(2) [OF D(6) that(2), of d] that(1) by (intro t(4)) simp
  show pgs: "bd_page t d = bd_page s d" if "d \<in> used C" for d using w [OF that, of 0] by (simp add: bd_page_def)
  show "bd_refcnt t d = bd_refcnt s d" if "d \<in> used C" using w [OF that, of 12] by (simp add: bd_refcnt_def)
  have pg: "bd_page s d \<noteq> p" if "d \<in> used C" for d
    using bucket_users [OF inv that] p by auto
  show inv': "heap_inv C G free t"
  proof (rule heap_invI)
    show "lseg (bd_next t) (bd_chain t j) (C j)" if "j < NR_DIR" for j
    proof -
      have "bd_next t d = bd_next s d" if "d \<in> set (C j)" for d
        using w [of d 4] usedI [of j d C] that \<open>j < NR_DIR\<close> by (simp add: bd_next_def)
      then show ?thesis using D(2) [OF that] lseg_cong [of "C j" "bd_next t" "bd_next s"] t(3) by simp
    qed
    show "used C \<inter> set G = {}" using ne G(2) by blast
    show "16 dvd unat d" if "d \<in> used C \<union> set G" for d using that G(2) D(6) by auto
    show "page_users t (frame d) = 1" if "d \<in> used C \<union> set G" for d using that G(2) D(7) t(2) by auto
    show "bucket_ok t j d (free d)" if "j < NR_DIR" "d \<in> set (C j)" for j d
    proof (rule bucket_ok_elsewhere [OF inv that])
      have "d \<in> used C" using that by blast
      then show "pmem t a = pmem s a" if "frame a = bd_page s d" for a using t(4) pg that by simp
      show "pmem t (d + of_nat i) = pmem s (d + of_nat i)" if "i < 16" for i using w [OF \<open>d \<in> used C\<close> that] .
      show "page_users t (bd_page s d) = page_users s (bd_page s d)" using t(2) pg [OF \<open>d \<in> used C\<close>] by simp
    qed
    have "inj_on (bd_page t) (used C) = inj_on (bd_page s) (used C)" by (intro inj_on_cong pgs)
    then show "inj_on (bd_page t) (used C)" using D(9) by simp
    show "bd_page t b \<noteq> frame d" if "b \<in> used C" "d \<in> used C \<union> set G" for b d
      using that pgs [OF that(1)] pg [OF that(1)] D(10) [OF that(1), of d] G(2) [of d] by auto
  qed (use t(1) D(4) G(1) in blast)+
  show "live t = live s"
    by (rule live_eqI) (unfold live_iff [OF inv] live_iff [OF inv'], intro iff_exI conj_cong refl, simp_all add: pgs [OF usedI])
  show "same_block (q, n) s t" if "(q, n) \<in> live s"
  proof (rule same_blockI [OF inv that, where W = "{}"])
    fix a assume "pmem t a \<noteq> pmem s a"
    then have "frame a = p" using t(4) by blast
    then show "(\<exists>d\<in>used C \<union> set F. frame a = frame d) \<or> a \<in> {} \<or> page_users s (frame a) = 0" using p by simp
  qed simp
qed

lemma new_bucket_inv:
  assumes inv: "heap_inv C (b # F) free s" and k: "k < NR_DIR" and p: "page_users s p = 0" "frame p = p"
    and t: "map_ok t" "page_users t = (page_users s)(p := 1)" "bd_chain t = (bd_chain s)(k := b)" "free_bucket_desc t = bd_next s b"
      "\<And>a. frame a \<noteq> p \<Longrightarrow> a \<notin> {b, b + 4, b + 8, b + 12} \<Longrightarrow> pmem t a = pmem s a"
    and b: "bd_page t b = p" "bd_next t b = bd_chain s k" "bd_freeptr t b = p" "bd_refcnt t b = 0"
    and os: "lseg (pmem t) p os" "set os = objs k p" "length os = nobj k"
  shows "heap_inv (C(k := b # C k)) F (free(b := os)) t" "d \<in> used C \<Longrightarrow> bd_page t d = bd_page s d"
    "d \<in> used C \<Longrightarrow> bd_refcnt t d = bd_refcnt s d"
    "live t = live s" "(q, n) \<in> live s \<Longrightarrow> same_block (q, n) s t"
proof -
  note D = heap_invD [OF inv]
  let ?C = "C(k := b # C k)"
  have bz: "b \<noteq> 0" "lseg (bd_next s) (bd_next s b) F" "b \<notin> set F" using D(3) lseg_distinct [OF D(3)] by auto
  have bu: "b \<notin> used C" using D(5) by auto
  have mem: "d \<in> set (?C j) \<longleftrightarrow> d \<in> set (C j) \<or> j = k \<and> d = b" for d j by auto
  have uC: "used ?C = insert b (used C)" unfolding used_def using k by (auto split: if_splits)
  have un: "used ?C \<union> set F = used C \<union> set (b # F)" using uC by auto
  have ne: "frame d \<noteq> p" if "d \<in> used C \<union> set (b # F)" for d using D(7) [OF that] p by auto
  have w: "pmem t (d + of_nat i) = pmem s (d + of_nat i)" if "d \<in> used C \<union> set F" "i < 16" for d i
  proof (rule t(5))
    have al: "16 dvd unat d" "16 dvd unat b" using D(6) that(1) by auto
    have db: "d \<noteq> b" using that(1) bu bz(3) by auto
    show "frame (d + of_nat i) \<noteq> p" using ne that desc_word(2) [OF al(1) that(2)] by auto
    show "d + of_nat i \<notin> {b, b + 4, b + 8, b + 12}"
      using desc_word_eq [OF al that(2), of 0] desc_word_eq [OF al that(2), of 4]
        desc_word_eq [OF al that(2), of 8] desc_word_eq [OF al that(2), of 12] db by auto
  qed
  show pgs: "bd_page t d = bd_page s d" if "d \<in> used C" for d using w [of d 0] that by (simp add: bd_page_def)
  show "bd_refcnt t d = bd_refcnt s d" if "d \<in> used C" using w [of d 12] that by (simp add: bd_refcnt_def)
  have nx: "bd_next t d = bd_next s d" if "d \<in> used C \<union> set F" for d using w [OF that, of 4] by (simp add: bd_next_def)
  have pg: "bd_page s d \<noteq> p" if "d \<in> used C" for d
    using bucket_users [OF inv that] p by auto
  have pm: "pmem t a = pmem s a" if "frame a \<noteq> p" "frame a \<noteq> frame b" for a
  proof (rule t(5) [OF that(1)])
    have "16 dvd unat b" using D(6) by auto
    then show "a \<notin> {b, b + 4, b + 8, b + 12}" using that(2) by auto
  qed
  show inv': "heap_inv ?C F (free(b := os)) t"
  proof (rule heap_invI)
    have old: "lseg (bd_next t) (bd_chain s j) (C j)" if "j < NR_DIR" for j
      using D(2) [OF that] lseg_cong [of "C j" "bd_next t" "bd_next s"] nx usedI [of j _ C] that by blast
    then show "lseg (bd_next t) (bd_chain t j) (?C j)" if "j < NR_DIR" for j using that bz b t(3) by simp
    show "lseg (bd_next t) (free_bucket_desc t) F" using bz(2) lseg_cong [of F "bd_next t" "bd_next s"] nx t(4) by simp
    show "i = j" if "i < NR_DIR" "j < NR_DIR" "d \<in> set (?C i)" "d \<in> set (?C j)" for i j d
      using that D(4) [of i j d] bu usedI [of i d C] usedI [of j d C] unfolding mem by blast
    show "used ?C \<inter> set F = {}" using uC D(5) bz(3) by auto
    show "16 dvd unat d" if "d \<in> used ?C \<union> set F" for d using D(6) that un by blast
    show "page_users t (frame d) = 1" if "d \<in> used ?C \<union> set F" for d using D(7) [of d] ne [of d] that un t(2) by simp
    show "bucket_ok t j d ((free(b := os)) d)" if "j < NR_DIR" "d \<in> set (?C j)" for j d
    proof (cases "d = b")
      case True
      then have "j = k" using that mem bu usedI [of j b C] by auto
      then show ?thesis using True b os t(2) by (simp add: bucket_ok_def)
    next
      case False
      then have dj: "d \<in> set (C j)" using that mem by auto
      then have du: "d \<in> used C" using that(1) by blast
      have "bucket_ok t j d (free d)"
      proof (rule bucket_ok_elsewhere [OF inv that(1) dj])
        show "pmem t a = pmem s a" if "frame a = bd_page s d" for a using pm [of a] that pg [OF du] D(10) [OF du, of b] by simp
        show "pmem t (d + of_nat i) = pmem s (d + of_nat i)" if "i < 16" for i using w that du by blast
      qed (use t(2) pg [OF du] in simp)
      then show ?thesis using False by simp
    qed
    have "inj_on (bd_page t) (used C) = inj_on (bd_page s) (used C)" by (intro inj_on_cong pgs)
    moreover have "p \<notin> bd_page t ` used C" using pg pgs by auto
    ultimately show "inj_on (bd_page t) (used ?C)" using D(9) b(1) bu by (simp add: uC)
    show "bd_page t c \<noteq> frame d" if "c \<in> used ?C" "d \<in> used ?C \<union> set F" for c d
      using that ne [of d] b(1) pgs [of c] D(10) [of c d] unfolding un uC by auto
  qed (rule t(1))
  show "live t = live s"
  proof (rule live_eqI)
    fix q n
    have "(\<exists>d. d \<in> set (?C j) \<and> q \<in> objs j (bd_page t d) \<and> q \<notin> set ((free(b := os)) d)) \<longleftrightarrow>
      (\<exists>d. d \<in> set (C j) \<and> q \<in> objs j (bd_page s d) \<and> q \<notin> set (free d))" if "j < NR_DIR" for j
      using mem [of _ j] os(2) b(1) pgs usedI [of j _ C] bu that by (intro iff_exI) auto
    then show "(q, n) \<in> live t \<longleftrightarrow> (q, n) \<in> live s" unfolding live_iff [OF inv] live_iff [OF inv'] by blast
  qed
  show "same_block (q, n) s t" if "(q, n) \<in> live s"
  proof (rule same_blockI [OF inv that, where W = "{}"])
    fix a assume "pmem t a \<noteq> pmem s a"
    then have "frame a = p \<or> frame a = frame b" using pm by blast
    then show "(\<exists>d\<in>used C \<union> set (b # F). frame a = frame d) \<or> a \<in> {} \<or> page_users s (frame a) = 0" using p by auto
  qed simp
qed

end
