(* ===== verification/Malloc_Props.thy ===== *)
theory Malloc_Props
  imports Malloc_Inv
begin

unbundle bit_operations_syntax

text \<open>
  The kernel allocator as a store of disjoint blocks: what \<open>malloc\<close> hands out
  overlaps no block in use, \<open>free_s\<close> takes back exactly the block it is given, and
  neither touches the contents of the others.
\<close>

section \<open>Allocation\<close>

text \<open>Descriptors stay descriptors, and buckets stay where they are.\<close>

definition grows :: "(nat \<Rightarrow> u32 list) \<Rightarrow> u32 list \<Rightarrow> kheap \<Rightarrow> (nat \<Rightarrow> u32 list) \<Rightarrow> u32 list \<Rightarrow> kheap \<Rightarrow> bool" where
  "grows C F s D G t \<longleftrightarrow> used C \<union> set F \<subseteq> used D \<union> set G \<and> (\<forall>j<NR_DIR. set (C j) \<subseteq> set (D j)) \<and>
     (\<forall>d\<in>used C. bd_page t d = bd_page s d)"

lemma used_split: "k < NR_DIR \<Longrightarrow> used C = set (C k) \<union> (\<Union>j\<in>{..<NR_DIR} - {k}. set (C j))"
  by (auto simp: used_def)

lemma used_upd: "k < NR_DIR \<Longrightarrow> used (C(k := zs)) = set zs \<union> (\<Union>j\<in>{..<NR_DIR} - {k}. set (C j))"
  by (auto simp: used_split [of k])

lemma used_mono: "(\<forall>j<NR_DIR. set (C j) \<subseteq> set (D j)) \<Longrightarrow> used C \<subseteq> used D"
  unfolding used_def by blast

lemma grows_trans:
  assumes a: "grows C F s D G t" and b: "grows D G t D' G' u"
  shows "grows C F s D' G' u"
proof -
  have "used C \<subseteq> used D" using a used_mono by (auto simp: grows_def)
  then have "bd_page u d = bd_page s d" if "d \<in> used C" for d using a b that by (auto simp: grows_def)
  moreover have "set (C j) \<subseteq> set (D' j)" if "j < NR_DIR" for j
    using a b that order_trans [of "set (C j)" "set (D j)" "set (D' j)"] by (simp add: grows_def)
  moreover have "used C \<union> set F \<subseteq> used D' \<union> set G'"
    using a b order_trans [of "used C \<union> set F" "used D \<union> set G" "used D' \<union> set G'"] by (simp add: grows_def)
  ultimately show ?thesis by (simp add: grows_def)
qed

lemma same_block_trans: "same_block x s t \<Longrightarrow> same_block x t u \<Longrightarrow> same_block x s u"
  by (simp add: same_block_def)

lemma map_ok_cong: "mem_map t = mem_map s \<Longrightarrow> HIGH_MEMORY t = HIGH_MEMORY s \<Longrightarrow> map_ok t = map_ok s"
  by (simp add: map_ok_def)

text \<open>Too few free pages for a new bucket: its own, and one for descriptors when none is unused.\<close>

definition short :: "kheap \<Rightarrow> bool" where
  "short s \<longleftrightarrow> free_pages s < (if free_bucket_desc s = 0 then 2 else 1)"

text \<open>With too few pages \<open>new_bucket\<close> panics.\<close>

lemma init_bucket_desc_short:
  "free_pages s < 2 \<Longrightarrow> (\<exists>m. init_bucket_desc s = Panic m) \<or>
    (\<exists>t. init_bucket_desc s = Ret () t \<and> free_pages t = 0 \<and> free_bucket_desc t \<noteq> 0)"
proof (cases rule: get_free_page_cases [of s])
  case full
  then show ?thesis by (simp add: init_bucket_desc_def)
next
  case (page m)
  assume "free_pages s < 2"
  moreover have "free_pages s = Suc (free_pages (snd (get_free_page s)))" by (rule free_pages_taken [OF page(1,2)]) (simp add: page(3))
  ultimately have "free_pages (snd (get_free_page s)) = 0" by simp
  moreover have "free_pages t = free_pages u" if "mem_map t = mem_map u" for t u :: kheap using that by (simp add: free_pages_def)
  ultimately show ?thesis using page(3) pg_props(4) [OF page(1)]
    by (auto simp: init_bucket_desc_def link_descs_lay free_pages_def)
qed

lemma new_bucket_full:
  assumes "free_bucket_desc s \<noteq> 0" "free_pages s = 0"
  shows "\<exists>m. new_bucket k s = Panic m"
proof -
  have "get_free_page u = (0, u)" if "mem_map u = mem_map s" for u :: kheap
    by (cases rule: get_free_page_cases [of u]) (use assms(2) that in \<open>auto simp: free_pages_0\<close>)
  then have "get_free_page (set_bucket_size b x (set_refcnt c y (s\<lparr>free_bucket_desc := d\<rparr>))) =
    (0, set_bucket_size b x (set_refcnt c y (s\<lparr>free_bucket_desc := d\<rparr>)))" for b c d x y
    by (simp add: set_bucket_size_def set_refcnt_def)
  then show ?thesis using assms(1) by (simp add: new_bucket_def Let_def)
qed

lemma new_bucket_short: "short s \<Longrightarrow> \<exists>m. new_bucket k s = Panic m"
proof (cases "free_bucket_desc s = 0")
  case True
  assume "short s"
  then have "free_pages s < 2" using True by (simp add: short_def)
  from init_bucket_desc_short [OF this] show ?thesis
  proof (elim disjE exE conjE)
    fix t assume t: "init_bucket_desc s = Ret () t" "free_pages t = 0" "free_bucket_desc t \<noteq> 0"
    then have "new_bucket k s = new_bucket k t" using True by (simp add: new_bucket_def)
    then show ?thesis using new_bucket_full [OF t(3,2)] by simp
  qed (simp add: new_bucket_def True)
qed (simp add: short_def new_bucket_full)

lemma init_bucket_desc_ok:
  assumes inv: "heap_inv C [] free s"
  shows "(\<exists>m. init_bucket_desc s = Panic m) \<and> (\<forall>n<PAGING_PAGES. mem_map s n \<noteq> 0) \<or>
    (\<exists>t F. init_bucket_desc s = Ret () t \<and> heap_inv C F free t \<and> F \<noteq> [] \<and> live t = live s \<and>
       (\<forall>x\<in>live s. same_block x s t) \<and> grows C [] s C F t \<and> (\<forall>d\<in>used C. bd_refcnt t d = bd_refcnt s d) \<and>
       (\<exists>m. mem_map t = (mem_map s)(m := 1)))"
proof (cases rule: get_free_page_cases [of s])
  case full
  then show ?thesis by (simp add: init_bucket_desc_def)
next
  case (page m)
  let ?p = "pg m"
  obtain s1 where al: "get_free_page s = (?p, s1)" and m1: "mem_map s1 = (mem_map s)(m := 1)" using page by simp
  have nz: "?p \<noteq> 0" using page pg_props by simp
  note A = alloc_frame [OF heap_invD(1) [OF inv] al nz]
  define t where "t = (poke (?p + 255 * 16 + 4) 0 (s1\<lparr>pmem := lay 4 16 255 ?p s1\<rparr>))\<lparr>free_bucket_desc := ?p\<rparr>"
  have f0: "free_bucket_desc s = 0" using heap_invD(3) [OF inv] by simp
  have t: "init_bucket_desc s = Ret () t"
    using al nz A(7) f0 by (simp add: init_bucket_desc_def t_def link_descs_lay split: prod.splits)
  let ?F = "map (\<lambda>j. ?p + of_nat j * 16) [0..<256]"
  have nx: "bd_next t (?p + of_nat j * 16) = (if j < 255 then ?p + of_nat (Suc j) * 16 else 0)" if "j < 256" for j
  proof -
    have "?p + of_nat j * 16 = ?p + of_nat 255 * 16 \<longleftrightarrow> j = 255"
      unfolding word_unat_eq_iff using desc_page(1) [OF A(1) that] desc_page(1) [OF A(1), of 255] by simp
    then have "?p + of_nat j * 16 + 4 = ?p + 255 * 16 + 4 \<longleftrightarrow> j = 255" by simp
    then show ?thesis using that by (auto simp: bd_next_def t_def lay_def algebra_simps)
  qed
  have "lseg (bd_next t) (?p + of_nat 0 * 16) (map (\<lambda>j. ?p + of_nat j * 16) [0..<Suc 255])"
  proof (rule lseg_map)
    show "?p + of_nat j * 16 \<noteq> 0" if "j \<le> 255" for j
      using desc_page(2) [OF A(1), of j] that nz frame_0 by (cases "?p + of_nat j * 16 = 0") simp_all
  qed (use nx nx [of 255] in simp_all)
  then have ls: "lseg (bd_next t) ?p ?F" by simp
  have fr: "pmem t a = pmem s a" if "frame a \<noteq> ?p" for a
  proof -
    have "frame (?p + of_nat j * 16 + 4) = ?p" if "j < 256" for j
      using desc_words(1) [OF desc_page(3) [OF A(1) that]] desc_page(2) [OF A(1) that] by simp
    then have na: "a \<noteq> ?p + of_nat j * 16 + 4" if "j < 256" for j using \<open>frame a \<noteq> ?p\<close> that by blast
    then have "\<not> (\<exists>j<255. a = ?p + of_nat j * 16 + 4)" "a \<noteq> ?p + of_nat 255 * 16 + 4" using na [of 255] by simp_all
    then show ?thesis using that A(5) by (auto simp: t_def lay_def)
  qed
  have "page_users t = page_users s1" "map_ok t = map_ok s1"
    by (intro page_users_cong map_ok_cong, simp_all add: t_def)+
  then have mt: "map_ok t" "page_users t = (page_users s)(?p := 1)" "bd_chain t = bd_chain s"
    using A(3,4,6) by (simp_all add: t_def)
  have ft: "lseg (bd_next t) (free_bucket_desc t) ?F" using ls by (simp add: t_def)
  have fd: "16 dvd unat d \<and> frame d = ?p" if "d \<in> set ?F" for d using that desc_page [OF A(1)] by auto
  note N = new_descs_inv [OF inv A(2) mt fr ft fd]
  have "heap_inv C ?F free t \<and> live t = live s \<and> (\<forall>x\<in>live s. same_block x s t) \<and>
      (\<forall>d\<in>used C. bd_page t d = bd_page s d \<and> bd_refcnt t d = bd_refcnt s d)"
    using N by (simp add: Ball_def split_paired_All)
  moreover have "mem_map t = (mem_map s)(m := 1)" using m1 by (simp add: t_def)
  ultimately show ?thesis using t by (intro disjI2 exI [of _ t] exI [of _ ?F]) (auto simp: grows_def)
qed


text \<open>The rest of \<open>new_bucket\<close>, once there is a descriptor.\<close>

lemma new_bucket_alloc:
  assumes inv: "heap_inv C (b # F) free s" and k: "k < NR_DIR"
  shows "(\<exists>m. new_bucket k s = Panic m) \<and> (\<forall>n<PAGING_PAGES. mem_map s n \<noteq> 0) \<or>
    (\<exists>t os. new_bucket k s = Ret b t \<and> heap_inv (C(k := b # C k)) F (free(b := os)) t \<and> os \<noteq> [] \<and> live t = live s \<and>
       (\<forall>x\<in>live s. same_block x s t) \<and> grows C (b # F) s (C(k := b # C k)) F t \<and>
       (\<forall>d\<in>used (C(k := b # C k)) - {b}. d \<in> used C \<and> bd_refcnt t d = bd_refcnt s d))"
proof -
  note D = heap_invD [OF inv]
  have uC: "used (C(k := b # C k)) = insert b (used C)" unfolding used_def using k by (auto split: if_splits)
  have b: "free_bucket_desc s = b" "b \<noteq> 0" "16 dvd unat b" using D(3,6) by auto
  define s1 where "s1 = set_bucket_size b (of_nat (sz k)) (set_refcnt b 0 (s\<lparr>free_bucket_desc := bd_next s b\<rparr>))"
  have s1: "mem_map s1 = mem_map s" "HIGH_MEMORY s1 = HIGH_MEMORY s" "bd_chain s1 = bd_chain s" "free_bucket_desc s1 = bd_next s b"
    "\<And>a. a \<noteq> b + 12 \<Longrightarrow> pmem s1 a = pmem s a" by (simp_all add: s1_def set_bucket_size_def set_refcnt_def)
  have rc1: "bd_refcnt s1 b = 0"
  proof -
    have m: "(0xffff0000 :: u32) = push_bit 16 (mask 16)" "(0xffff :: u32) = mask 16" by (simp_all add: mask_eq_exp_minus_1 push_bit_eq_mult)
    show ?thesis by (rule bit_word_eqI) (auto simp: bd_refcnt_def s1_def set_bucket_size_def set_refcnt_def m bit_simps)
  qed
  have e: "new_bucket k s = (case get_free_page s1 of (cp, s) \<Rightarrow>
     let s = poke b cp (poke (b + 8) cp s) in if cp = 0 then Panic ''Out of memory in kernel malloc()''
     else case link_objs (4096 div sz k - 1) (of_nat (sz k)) cp s of (cp, s) \<Rightarrow>
       let s = poke (b + 4) (bd_chain s k) (poke cp 0 s) in Ret b (s\<lparr>bd_chain := (bd_chain s)(k := b)\<rparr>))"
    using b by (simp add: new_bucket_def s1_def Let_def split: prod.split)
  have ok1: "map_ok s1" "page_users s1 = page_users s" using D(1) s1 by (auto simp: map_ok_def page_users_def)
  show ?thesis
  proof (cases rule: get_free_page_cases [of s1])
    case full
    then show ?thesis by (simp add: e s1)
  next
    case (page m)
    let ?p = "pg m" and ?n = "nobj k - 1"
    obtain s2 where al: "get_free_page s1 = (?p, s2)" using page by simp
    have nz: "?p \<noteq> 0" using page pg_props by simp
    note A = alloc_frame [OF ok1(1) al nz]
    define s3 where "s3 = poke b ?p (poke (b + 8) ?p s2)"
    define t where "t = (poke (b + 4) (bd_chain s k) (poke (?p + of_nat ?n * of_nat (sz k)) 0
        (s3\<lparr>pmem := lay 0 (of_nat (sz k)) ?n ?p s3\<rparr>)))\<lparr>bd_chain := (bd_chain s)(k := b)\<rparr>"
    have t: "new_bucket k s = Ret b t"
      using al nz A(6) s1(3) by (simp add: e link_objs_lay t_def s3_def Let_def nobj_def [symmetric])
    have ob: "?p + of_nat j * of_nat (sz k) = obj_at k ?p j" for j by (simp add: obj_at_def)
    have bp: "frame b \<noteq> ?p" "frame (b + 4) \<noteq> ?p" "frame (b + 8) \<noteq> ?p" "frame (b + 12) \<noteq> ?p"
      using D(7) [of b] A(2) ok1(2) b(3) by auto
    have fo: "frame (obj_at k ?p j) = ?p" if "j \<le> ?n" for j
      using obj_at_props(2) [OF A(1) k, of j] that sz_props(4) [OF k] by simp
    have ne: "obj_at k ?p j \<noteq> b" "obj_at k ?p j \<noteq> b + 4" "obj_at k ?p j \<noteq> b + 8" "obj_at k ?p j \<noteq> b + 12" if "j \<le> ?n" for j
      using fo [OF that] bp by auto
    define L where "L = obj_at k ?p ` {..<?n}"
    have "lay 0 (of_nat (sz k)) ?n ?p s3 a = (if a \<in> L then a + of_nat (sz k) else pmem s3 a)" for a
      by (auto simp: lay_def ob L_def)
    then have pt: "pmem t a = (if a = b + 4 then bd_chain s k else if a = obj_at k ?p ?n then 0
        else if a \<in> L then a + of_nat (sz k)
        else if a = b \<or> a = b + 8 then ?p else if frame a = ?p then 0 else pmem s1 a)" for a
      by (simp add: t_def ob s3_def A(5))
    have nL: "b \<notin> L" "b + 4 \<notin> L" "b + 8 \<notin> L" "b + 12 \<notin> L" and fL: "\<And>a. a \<in> L \<Longrightarrow> frame a = ?p"
      using fo bp by (auto simp: L_def dest: less_imp_le)
    have "bd_page t b = ?p" "bd_next t b = bd_chain s k" "bd_freeptr t b = ?p" "bd_refcnt t b = 0"
      using nL bp desc_neq [OF b(3,3)] rc1 ne [of ?n]
      by (simp_all add: bd_page_def bd_next_def bd_freeptr_def bd_refcnt_def pt)
    moreover have "pmem t a = pmem s a" if "frame a \<noteq> ?p" "a \<notin> {b, b + 4, b + 8, b + 12}" for a
      using that fo [of ?n] fL s1(5) [of a] by (auto simp: pt)
    moreover have "lseg (pmem t) ?p (map (obj_at k ?p) [0..<nobj k])"
    proof -
      have inj: "obj_at k ?p i = obj_at k ?p j \<longleftrightarrow> i = j" if "i \<le> ?n" "j \<le> ?n" for i j
        using inj_on_eq_iff [OF obj_at_inj [OF A(1) k]] that sz_props(4) [OF k] by auto
      have "lseg (pmem t) (obj_at k ?p 0) (map (obj_at k ?p) [0..<Suc ?n])"
      proof (rule lseg_map)
        show "pmem t (obj_at k ?p j) = obj_at k ?p (Suc j)" if "j < ?n" for j
        proof -
          have "pmem t (obj_at k ?p j) = obj_at k ?p j + of_nat (sz k)" using ne [of j] inj [of j ?n] that by (auto simp: pt L_def)
          then show ?thesis by (simp add: obj_at_def algebra_simps)
        qed
        show "obj_at k ?p j \<noteq> 0" if "j \<le> ?n" for j using fo [OF that] nz frame_0 by (cases "obj_at k ?p j = 0") simp_all
      qed (use ne [of ?n] in \<open>simp_all add: pt\<close>)
      moreover have "Suc ?n = nobj k" "obj_at k ?p 0 = ?p" using sz_props(4) [OF k] by (simp_all add: obj_at_def)
      ultimately show ?thesis by simp
    qed
    moreover have "set (map (obj_at k ?p) [0..<nobj k]) = objs k ?p" by (auto simp: objs_def)
    moreover have "page_users t = page_users s2" "map_ok t = map_ok s2"
      by (intro page_users_cong map_ok_cong, simp_all add: t_def s3_def)+
    then have "map_ok t" "page_users t = (page_users s)(?p := 1)" using A(3,4) ok1 by simp_all
    moreover have "bd_chain t = (bd_chain s)(k := b)" "free_bucket_desc t = bd_next s b" using A(7) s1 by (simp_all add: t_def s3_def)
    moreover have "page_users s ?p = 0" using A(2) ok1 by simp
    ultimately have "heap_inv (C(k := b # C k)) F (free(b := map (obj_at k ?p) [0..<nobj k])) t \<and> live t = live s \<and>
      (\<forall>x\<in>live s. same_block x s t) \<and> (\<forall>d\<in>used C. bd_page t d = bd_page s d \<and> bd_refcnt t d = bd_refcnt s d)"
      using new_bucket_inv [OF inv k _ A(1), of t "map (obj_at k ?p) [0..<nobj k]"] by auto
    then show ?thesis
      using t sz_props(4) [OF k] uC
      by (intro disjI2 exI [of _ t] exI [of _ "map (obj_at k ?p) [0..<nobj k]"] conjI) (auto simp: grows_def)
  qed
qed

lemma new_bucket_ok:
  assumes inv: "heap_inv C F free s" and k: "k < NR_DIR"
  shows "(\<exists>m. new_bucket k s = Panic m) \<and> short s \<or>
    (\<exists>b t D G free'. new_bucket k s = Ret b t \<and> heap_inv D G free' t \<and> b \<in> set (D k) \<and> free' b \<noteq> [] \<and> live t = live s \<and>
       (\<forall>x\<in>live s. same_block x s t) \<and> grows C F s D G t \<and>
       (\<forall>d\<in>used D - {b}. d \<in> used C \<and> bd_refcnt t d = bd_refcnt s d))"
proof (cases F)
  case Nil
  then have z: "free_bucket_desc s = 0" using heap_invD(3) [OF inv] by simp
  have inv0: "heap_inv C [] free s" using inv Nil by simp
  show ?thesis
    using init_bucket_desc_ok [OF inv0]
  proof (elim disjE exE conjE)
    fix m assume "init_bucket_desc s = Panic m" "\<forall>n<PAGING_PAGES. mem_map s n \<noteq> 0"
    then show ?thesis using z by (simp add: new_bucket_def short_def free_pages_0 [symmetric])
  next
    fix s1 F1 m
    assume s1: "init_bucket_desc s = Ret () s1" and inv1: "heap_inv C F1 free s1" and "F1 \<noteq> []" and l1: "live s1 = live s"
      "\<forall>x\<in>live s. same_block x s s1" and g1: "grows C [] s C F1 s1" and rc1: "\<forall>d\<in>used C. bd_refcnt s1 d = bd_refcnt s d"
      and m1: "mem_map s1 = (mem_map s)(m := 1)"
    obtain b G where F1: "F1 = b # G" using \<open>F1 \<noteq> []\<close> by (cases F1) auto
    have "free_bucket_desc s1 \<noteq> 0" using heap_invD(3) [OF inv1] F1 by auto
    then have e: "new_bucket k s = new_bucket k s1" using z s1 by (simp add: new_bucket_def)
    have sc: "short s" if "\<forall>n<PAGING_PAGES. mem_map s1 n \<noteq> 0"
    proof -
      have "{n. n < PAGING_PAGES \<and> mem_map s n = 0} \<subseteq> {m}"
      proof
        fix x assume "x \<in> {n. n < PAGING_PAGES \<and> mem_map s n = 0}"
        then show "x \<in> {m}" using that [rule_format, of x] m1 by (cases "x = m") simp_all
      qed
      then have "free_pages s \<le> 1" using card_mono [of "{m}"] by (simp add: free_pages_def)
      then show ?thesis using z by (simp add: short_def)
    qed
    show ?thesis
      using new_bucket_alloc [OF inv1 [unfolded F1] k]
    proof (elim disjE exE conjE)
      fix x assume "new_bucket k s1 = Panic x" "\<forall>n<PAGING_PAGES. mem_map s1 n \<noteq> 0"
      then show ?thesis using e sc by simp
    next
      fix t os
      assume t: "new_bucket k s1 = Ret b t" "heap_inv (C(k := b # C k)) G (free(b := os)) t" "os \<noteq> []" "live t = live s1"
        "\<forall>x\<in>live s1. same_block x s1 t" "grows C (b # G) s1 (C(k := b # C k)) G t"
        "\<forall>d\<in>used (C(k := b # C k)) - {b}. d \<in> used C \<and> bd_refcnt t d = bd_refcnt s1 d"
      have "grows C F s (C(k := b # C k)) G t" using grows_trans [OF g1 [unfolded F1] t(6)] Nil by simp
      moreover have "\<forall>x\<in>live s. same_block x s t" using same_block_trans l1 t(5) by blast
      ultimately show ?thesis
        using t e l1 rc1
        by (intro disjI2 exI [of _ b] exI [of _ t] exI [of _ "C(k := b # C k)"] exI [of _ G] exI [of _ "free(b := os)"] conjI) auto
    qed
  qed
next
  case (Cons b G)
  show ?thesis
    using new_bucket_alloc [OF inv [unfolded Cons] k]
  proof (elim disjE exE conjE)
    fix t os
    assume "new_bucket k s = Ret b t" "heap_inv (C(k := b # C k)) G (free(b := os)) t" "os \<noteq> []" "live t = live s"
      "\<forall>x\<in>live s. same_block x s t" "grows C (b # G) s (C(k := b # C k)) G t"
      "\<forall>d\<in>used (C(k := b # C k)) - {b}. d \<in> used C \<and> bd_refcnt t d = bd_refcnt s d"
    then show ?thesis
      by (intro disjI2 exI [of _ b] exI [of _ t] exI [of _ "C(k := b # C k)"] exI [of _ G] exI [of _ "free(b := os)"] conjI) (auto simp: Cons)
  qed (use heap_invD(3) [OF inv] Cons in \<open>auto simp: short_def free_pages_0 [symmetric]\<close>)
qed

text \<open>The smallest size that is large enough.\<close>

definition size_of :: "nat \<Rightarrow> nat" where
  "size_of len = (case List.find ((\<le>) len) bucket_dir of Some n \<Rightarrow> n | None \<Rightarrow> 0)"

lemma find_size:
  fixes len :: u32
  shows
  "unat len \<le> 4096 \<Longrightarrow> \<exists>k<NR_DIR. List.find (\<lambda>k. len \<le> of_nat (sz k)) [0..<NR_DIR] = Some k \<and> sz k = size_of (unat len) \<and> unat len \<le> sz k"
  "4096 < unat len \<Longrightarrow> List.find (\<lambda>k. len \<le> of_nat (sz k)) [0..<NR_DIR] = None"
proof -
  have le: "len \<le> of_nat (sz k) \<longleftrightarrow> unat len \<le> sz k" if "k < NR_DIR" for k
  proof -
    have "unat (of_nat (sz k) :: u32) = sz k" using sz_props(3) [OF that] by (simp add: unat_of_nat)
    then show ?thesis by (simp only: word_le_nat_alt)
  qed
  show "\<exists>k<NR_DIR. List.find (\<lambda>k. len \<le> of_nat (sz k)) [0..<NR_DIR] = Some k \<and> sz k = size_of (unat len) \<and> unat len \<le> sz k"
    if "unat len \<le> 4096"
  proof -
    have 8: "unat len \<le> sz 8" using that by (simp add: bucket_dir_def)
    obtain k where k: "k \<le> 8" "\<And>j. j < k \<Longrightarrow> \<not> unat len \<le> sz j" "unat len \<le> sz k"
      using ex_least_nat_le [of "\<lambda>k. unat len \<le> sz k", OF 8] by blast
    have "List.find (\<lambda>k. len \<le> of_nat (sz k)) [0..<NR_DIR] = Some k"
      by (rule find_upt_first) (use k in \<open>simp_all add: le\<close>)
    moreover have "List.find ((\<le>) (unat len)) bucket_dir = Some (sz k)"
      unfolding find_Some_iff using k by (intro exI [of _ k]) (simp add: bucket_dir_def)
    ultimately show ?thesis using k by (intro exI [of _ k]) (simp add: size_of_def)
  qed
  show "List.find (\<lambda>k. len \<le> of_nat (sz k)) [0..<NR_DIR] = None" if "4096 < unat len"
  proof -
    have "\<not> len \<le> of_nat (sz i)" if "i < NR_DIR" for i
      unfolding le [OF that] using sz_props(3) [OF that] \<open>4096 < unat len\<close> by linarith
    then show ?thesis by (simp only: find_upt_None) blast
  qed
qed

text \<open>
  Room for one more block of \<open>n\<close> bytes in a page that has some: \<open>r\<close>, a multiple of \<open>n\<close> in the
  page of a block of this size, is not in use.
\<close>

definition roomy :: "nat \<Rightarrow> kheap \<Rightarrow> bool" where
  "roomy n s \<longleftrightarrow> (\<exists>q r. (q, n) \<in> live s \<and> frame r = frame q \<and> n dvd unat r \<and> (r, n) \<notin> live s)"

lemma objs_iff:
  assumes "frame p = p" "k < NR_DIR"
  shows "a \<in> objs k p \<longleftrightarrow> frame a = p \<and> sz k dvd unat a"
proof
  note z = sz_props [OF assms(2)]
  assume "a \<in> objs k p"
  then obtain j where j: "j < nobj k" "a = obj_at k p j" by (auto simp: objs_def)
  obtain q where "unat p = 4096 * q" using assms(1) by (rule alignedE)
  then have "unat p = sz k * (nobj k * q)" using z(1) by (simp add: mult.assoc [symmetric])
  then show "frame a = p \<and> sz k dvd unat a" using obj_at_props [OF assms j(1)] j(2) by simp
next
  note z = sz_props [OF assms(2)]
  assume a: "frame a = p \<and> sz k dvd unat a"
  then have u: "unat a = unat p + unat a mod 4096" using unat_frame [of a] by simp
  have "sz k dvd 4096" using z(1) by (metis dvd_triv_left)
  then have "sz k dvd unat a mod 4096" using a by (simp add: dvd_mod)
  then obtain j where j: "unat a mod 4096 = j * sz k" by (auto simp: dvd_def mult.commute)
  then have "j * sz k < nobj k * sz k" using z(1) mod_less_divisor [of 4096 "unat a"] by (simp add: mult.commute)
  then have "j < nobj k" by simp
  moreover have "a = obj_at k p j"
  proof -
    have "of_nat (unat a) = (of_nat (unat p + j * sz k) :: u32)" using u j by simp
    then show ?thesis by (simp add: obj_at_def)
  qed
  ultimately show "a \<in> objs k p" by (auto simp: objs_def)
qed

lemma roomy_iff:
  assumes inv: "heap_inv C F free s" and nz: "\<forall>b\<in>used C. bd_refcnt s b \<noteq> 0" and k: "k < NR_DIR"
  shows "roomy (sz k) s \<longleftrightarrow> (\<exists>b\<in>set (C k). bd_freeptr s b \<noteq> 0)"
proof
  have sz_eq: "j = k" if "j < NR_DIR" "sz k = sz j" for j using that sz_props(7) [OF k] sz_props(7) [OF that(1)] by simp
  have pg: "frame (bd_page s b) = bd_page s b" if "b \<in> set (C k)" for b using bucket_page [OF inv] usedI [of k b C] k that by blast
  assume "roomy (sz k) s"
  then obtain q r where q: "(q, sz k) \<in> live s" "frame r = frame q" "sz k dvd unat r" "(r, sz k) \<notin> live s"
    by (auto simp: roomy_def)
  obtain b where b: "b \<in> set (C k)" "q \<in> objs k (bd_page s b)" using q(1) sz_eq unfolding live_iff [OF inv] by blast
  have "r \<in> objs k (bd_page s b)" using q(2,3) b objs_iff [OF pg [OF b(1)] k] by simp
  then have "r \<in> set (free b)" using q(4) b(1) k unfolding live_iff [OF inv] by blast
  then have "bd_freeptr s b \<noteq> 0" using heap_invD(8) [OF inv k b(1)] by (auto simp: bucket_ok_def)
  then show "\<exists>b\<in>set (C k). bd_freeptr s b \<noteq> 0" using b(1) by blast
next
  have sz_eq: "j = k" if "j < NR_DIR" "sz k = sz j" for j using that sz_props(7) [OF k] sz_props(7) [OF that(1)] by simp
  assume "\<exists>b\<in>set (C k). bd_freeptr s b \<noteq> 0"
  then obtain b where b: "b \<in> set (C k)" "bd_freeptr s b \<noteq> 0" by blast
  then have u: "b \<in> used C" using k by blast
  have pg: "frame (bd_page s b) = bd_page s b" by (rule bucket_page [OF inv u])
  note B = heap_invD(8) [OF inv k b(1), unfolded bucket_ok_def]
  obtain r os where r: "free b = r # os" using B b(2) by (cases "free b") auto
  have ro: "r \<in> objs k (bd_page s b)" using B r by auto
  have "length (free b) < nobj k" using B nz u by (metis add_cancel_right_left le_add2 le_neq_implies_less unat_eq_zero)
  then have "card (set (free b)) < card (objs k (bd_page s b))" using card_length [of "free b"] card_objs [OF pg k] by simp
  then obtain q where q: "q \<in> objs k (bd_page s b)" "q \<notin> set (free b)" using B by (metis card_mono finite_set not_less subsetI)
  have "(r, sz k) \<notin> live s"
  proof
    assume "(r, sz k) \<in> live s"
    then obtain c where c: "c \<in> set (C k)" "r \<in> objs k (bd_page s c)" "r \<notin> set (free c)"
      using sz_eq unfolding live_iff [OF inv] by blast
    then have cu: "c \<in> used C" using k by blast
    have "bd_page s c = bd_page s b"
      by (rule trans [OF objs_frame [OF bucket_page [OF inv cu] k c(2), symmetric] objs_frame [OF pg k ro]])
    then have "c = b" by (rule inj_onD [OF heap_invD(9) [OF inv] _ cu u])
    then show False using c(3) r by simp
  qed
  moreover have "(q, sz k) \<in> live s" using q b(1) k unfolding live_iff [OF inv] by blast
  moreover have "frame r = frame q" by (rule trans [OF objs_frame [OF pg k ro] objs_frame [OF pg k q(1), symmetric]])
  moreover have "sz k dvd unat r" using ro objs_iff [OF pg k] by blast
  ultimately show "roomy (sz k) s" unfolding roomy_def by blast
qed

lemma malloc_ok:
  assumes inv: "heap_inv C F free s" and nz: "\<forall>b\<in>used C. bd_refcnt s b \<noteq> 0" and len: "unat len \<le> 4096"
  shows "(\<exists>m. malloc len s = Panic m) \<and> short s \<and> \<not> roomy (size_of (unat len)) s \<or>
    (\<exists>p t D G free'. malloc len s = Ret p t \<and> heap_inv D G free' t \<and> (\<forall>b\<in>used D. bd_refcnt t b \<noteq> 0) \<and>
       live t = insert (p, size_of (unat len)) (live s) \<and> (p, size_of (unat len)) \<notin> live s \<and> unat len \<le> size_of (unat len) \<and>
       (\<forall>x\<in>live s. same_block x s t) \<and> grows C F s D G t)"
proof -
  obtain k where k: "k < NR_DIR" "List.find (\<lambda>k. len \<le> of_nat (sz k)) [0..<NR_DIR] = Some k"
      "size_of (unat len) = sz k" "unat len \<le> sz k"
    using find_size(1) [OF len] by metis
  obtain r where r: "find_bucket (bd_chain s k) s = Ret r s"
      "r = 0 \<and> (\<forall>b\<in>set (C k). bd_freeptr s b = 0) \<or> r \<in> set (C k) \<and> bd_freeptr s r \<noteq> 0"
    using find_bucket_ok [OF heap_invD(2) [OF inv k(1)]] by blast
  have z: "0 \<notin> set (C k)" using lseg_nonzero [OF heap_invD(2) [OF inv k(1)]] by blast
  have room: "roomy (sz k) s \<longleftrightarrow> r \<noteq> 0" using roomy_iff [OF inv nz k(1)] r(2) z by auto
  have "(\<exists>m. (if r = 0 then new_bucket k s else Ret r s) = Panic m) \<and> short s \<or>
    (\<exists>b t D G free'. (if r = 0 then new_bucket k s else Ret r s) = Ret b t \<and> heap_inv D G free' t \<and> b \<in> set (D k) \<and>
       free' b \<noteq> [] \<and> live t = live s \<and> (\<forall>x\<in>live s. same_block x s t) \<and> grows C F s D G t \<and>
       (\<forall>d\<in>used D - {b}. d \<in> used C \<and> bd_refcnt t d = bd_refcnt s d))"
  proof (cases "r = 0")
    case False
    then have rk: "r \<in> set (C k)" "bd_freeptr s r \<noteq> 0" using r(2) by auto
    then have "free r \<noteq> []" using heap_invD(8) [OF inv k(1) rk(1)] by (auto simp: bucket_ok_def)
    then show ?thesis
      using False rk inv by (intro disjI2 exI [of _ r] exI [of _ s] exI [of _ C] exI [of _ F] exI [of _ free]) (auto simp: grows_def same_block_def)
  qed (use new_bucket_ok [OF inv k(1)] in simp)
  then show ?thesis
  proof (elim disjE exE conjE)
    fix m assume "(if r = 0 then new_bucket k s else Ret r s) = Panic m" "short s"
    then show ?thesis using r k room by (intro disjI1) (auto simp: malloc_def split: if_splits)
  next
    fix b t D G free'
    assume m: "(if r = 0 then new_bucket k s else Ret r s) = Ret b t" and inv': "heap_inv D G free' t" "b \<in> set (D k)" "free' b \<noteq> []"
      and l: "live t = live s" "\<forall>x\<in>live s. same_block x s t" and g: "grows C F s D G t"
      and rc: "\<forall>d\<in>used D - {b}. d \<in> used C \<and> bd_refcnt t d = bd_refcnt s d"
    obtain p os where f: "free' b = p # os" using inv'(3) by (cases "free' b") auto
    note T = take_obj [OF inv'(1) k(1) inv'(2) f]
    let ?u = "set_refcnt b (bd_refcnt t b + 1) (poke (b + 8) (pmem t p) t)"
    have al: "16 dvd unat b" using heap_invD(6) [OF inv'(1)] usedI [of k b D] k(1) inv'(2) by blast
    have "bd_refcnt (poke (b + 8) (pmem t p) t) b = bd_refcnt t b" by (simp add: bd_refcnt_def)
    then have m1: "malloc len s = Ret p ?u" using r k m T(1) by (simp add: malloc_def)
    have nz1: "\<forall>d\<in>used D. bd_refcnt ?u d \<noteq> 0"
    proof
      fix d assume d: "d \<in> used D"
      show "bd_refcnt ?u d \<noteq> 0"
      proof (cases "d = b")
        case True
        then show ?thesis using T(3) by auto
      next
        case False
        then show ?thesis using T(8) [OF d False] rc d nz by auto
      qed
    qed
    have "grows D G t D G ?u" using T(7) by (simp add: grows_def)
    then have g1: "grows C F s D G ?u" by (rule grows_trans [OF g])
    have sb: "\<forall>x\<in>live s. same_block x s ?u"
    proof
      fix x assume x: "x \<in> live s"
      then have "same_block x t ?u" using T(6) [of "fst x" "snd x"] l(1) by simp
      then show "same_block x s ?u" using same_block_trans l(2) x by blast
    qed
    have lv: "live ?u = insert (p, sz k) (live s)" "(p, sz k) \<notin> live s" using T(4,5) l(1) by simp_all
    show ?thesis unfolding k(3) using m1 T(2) nz1 lv k(4) sb g1 by blast
  qed
qed


text \<open>Without room, and with too few pages, \<open>malloc\<close> panics.\<close>

lemma malloc_short:
  assumes inv: "heap_inv C F free s" "\<forall>b\<in>used C. bd_refcnt s b \<noteq> 0" and len: "unat len \<le> 4096"
    and "short s" "\<not> roomy (size_of (unat len)) s"
  shows "\<exists>m. malloc len s = Panic m"
proof -
  obtain k where k: "k < NR_DIR" "List.find (\<lambda>k. len \<le> of_nat (sz k)) [0..<NR_DIR] = Some k" "size_of (unat len) = sz k"
    using find_size(1) [OF len] by metis
  have "\<forall>b\<in>set (C k). bd_freeptr s b = 0" using roomy_iff [OF inv k(1)] assms(5) k(3) by auto
  then have "find_bucket (bd_chain s k) s = Ret 0 s" using find_bucket_ok [OF heap_invD(2) [OF inv(1) k(1)]] by blast
  then show ?thesis using new_bucket_short [OF assms(4), of k] k(2) by (auto simp: malloc_def)
qed

section \<open>Release\<close>

text \<open>Descriptors stay descriptors, and a bucket with a block in use stays where it is.\<close>

definition moves :: "(nat \<Rightarrow> u32 list) \<Rightarrow> u32 list \<Rightarrow> kheap \<Rightarrow> (nat \<Rightarrow> u32 list) \<Rightarrow> u32 list \<Rightarrow> kheap \<Rightarrow> bool" where
  "moves C F s D G t \<longleftrightarrow> used C \<union> set F \<subseteq> used D \<union> set G \<and>
     (\<forall>j<NR_DIR. \<forall>d\<in>set (C j). (\<exists>q\<in>objs j (bd_page s d). (q, sz j) \<in> live t) \<longrightarrow> d \<in> set (D j) \<and> bd_page t d = bd_page s d)"

lemma grows_moves: "grows C F s D G t \<Longrightarrow> moves C F s D G t"
  using usedI by (fastforce simp: grows_def moves_def)

lemma release_bucket_ok:
  assumes inv: "heap_inv C F free s" and k: "k < NR_DIR" "b \<in> set (C k)" and p: "prev = 0 \<or> prev \<in> used C \<union> set F"
    and z: "bd_refcnt s b = 0"
  shows "\<exists>t D. release_bucket k prev b s = Ret () t \<and> heap_inv D (b # F) free t \<and> (\<forall>d. d \<in> used D \<longleftrightarrow> d \<in> used C \<and> d \<noteq> b) \<and>
    live t = live s \<and> (\<forall>x\<in>live s. same_block x s t) \<and> moves C F s D (b # F) t \<and> page_users t (bd_page s b) = 0 \<and>
    (\<forall>d\<in>used C. bd_refcnt t d = bd_refcnt s d)"
proof -
  note D = heap_invD [OF inv]
  obtain xs ys where C: "C k = xs @ b # ys" using k(2) by (meson split_list)
  have ls: "lseg (bd_next s) (bd_chain s k) (xs @ b # ys)" using D(2) [OF k(1)] C by simp
  have bu: "b \<in> used C" using k by blast
  let ?q = "if xs = [] then 0 else last xs"
  have q0: "?q = 0 \<longleftrightarrow> xs = []" using lseg_nonzero [OF ls, of "last xs"] by auto
  define s1 where "s1 = (if xs = [] then s\<lparr>bd_chain := (bd_chain s)(k := bd_next s b)\<rparr> else poke (last xs + 4) (bd_next s b) s)"
  have al: "16 dvd unat d" if "d \<in> used C" for d using D(6) that by blast
  have lu: "xs \<noteq> [] \<Longrightarrow> last xs \<in> used C" using usedI [of k "last xs" C] k(1) C by simp
  have pg: "bd_page s1 b = bd_page s b"
    using desc_neq(1) [OF al [OF lu] al [OF bu]] by (auto simp: s1_def bd_page_def)
  have m1: "mem_map s1 = mem_map s" "HIGH_MEMORY s1 = HIGH_MEMORY s" "free_bucket_desc s1 = free_bucket_desc s" by (simp_all add: s1_def)
  have pu: "page_users s1 = page_users s" "map_ok s1" using m1 D(1) page_users_cong map_ok_cong by blast+
  obtain s2 where s2: "free_page (bd_page s b) s1 = Ret () s2" "page_users s2 = (page_users s)(bd_page s b := 0)" "map_ok s2"
    using frames.release_page [OF pu(2), of "bd_page s b"] bucket_users [OF inv bu] pu(1) by auto
  have s2': "pmem s2 = pmem s1 \<and> bd_chain s2 = bd_chain s1 \<and> free_bucket_desc s2 = free_bucket_desc s1"
    using s2(1) by (auto simp: free_page_def Let_def set_map_def split: if_splits)
  define t where "t = (poke (b + 4) (free_bucket_desc s2) s2)\<lparr>free_bucket_desc := b\<rparr>"
  have t: "release_bucket k prev b s = Ret () t"
  proof -
    have "bd_chain s k = b" if "xs = []" using ls that by simp
    then show ?thesis
      using current_prev_ok [OF inv k(1) C p] q0 s2(1) pg by (auto simp: release_bucket_def t_def s1_def)
  qed
  have tm: "map_ok t" "page_users t = (page_users s)(bd_page s b := 0)"
      "bd_chain t = (if xs = [] then (bd_chain s)(k := bd_next s b) else bd_chain s)" "free_bucket_desc t = b"
      "pmem t = (if xs = [] then pmem s else (pmem s)(last xs + 4 := bd_next s b))(b + 4 := free_bucket_desc s)"
    using s2(3) s2(2) page_users_cong [of t s2] map_ok_cong [of t s2] s2' m1(3) by (simp_all add: t_def s1_def)
  note U = unlink_inv [OF inv k(1) C tm]
  have full: "set (free b) = objs k (bd_page s b)"
  proof -
    have "bucket_ok s k b (free b)" by (rule D(8) [OF k])
    then have "set (free b) \<subseteq> objs k (bd_page s b)" "card (set (free b)) = card (objs k (bd_page s b))"
      using z lseg_distinct distinct_card card_objs [OF bucket_page [OF inv bu] k(1)] by (fastforce simp: bucket_ok_def)+
    then show ?thesis by (simp add: card_subset_eq)
  qed
  have uD: "d \<in> used (C(k := xs @ ys)) \<longleftrightarrow> d \<in> used C \<and> d \<noteq> b" for d
  proof -
    have "b \<notin> used (C(k := xs @ ys))" using heap_invD(5) [OF U(1)] by auto
    moreover have "used C = insert b (used (C(k := xs @ ys)))" unfolding used_split [OF k(1), of C] used_upd [OF k(1)] C by auto
    ultimately show ?thesis by blast
  qed
  have "moves C F s (C(k := xs @ ys)) (b # F) t"
    unfolding moves_def
  proof (intro conjI allI impI ballI)
    show "used C \<union> set F \<subseteq> used (C(k := xs @ ys)) \<union> set (b # F)" using uD by auto
    fix j d assume j: "j < NR_DIR" "d \<in> set (C j)" and q: "\<exists>q\<in>objs j (bd_page s d). (q, sz j) \<in> live t"
    have "d \<noteq> b" using q full live_in_bucket [OF inv j] U(4) [OF full] D(4) [OF j(1) k(1) _ k(2)] j by auto
    then show "d \<in> set ((C(k := xs @ ys)) j)" using j(2) C by auto
    show "bd_page t d = bd_page s d" using U(2) usedI [of j d C] j by blast
  qed
  then show ?thesis
    using t U(1) U(3) U(4) [OF full] U(5) tm(2) uD
    by (intro exI [of _ t] exI [of _ "C(k := xs @ ys)"]) auto
qed


text \<open>\<open>free_s\<close> from the point where interrupts are off.\<close>

definition free_found :: "u32 \<Rightarrow> nat \<Rightarrow> u32 \<Rightarrow> u32 \<Rightarrow> kheap \<Rightarrow> (kheap, unit) outcome" where
  "free_found obj k prev b s =
     (let s = poke obj (bd_freeptr s b) s;
          s = poke (b + 8) obj s;
          s = set_refcnt b (bd_refcnt s b - 1) s
      in if bd_refcnt s b = 0 then release_bucket k prev b s else Ret () s)"

lemma free_s_found:
  "free_s intr obj n s = bindO (search_dir [0..<NR_DIR] (frame obj) n s) (\<lambda>(k, prev, b) s. free_found obj k prev b (intr s))"
  by (simp add: free_s_def free_found_def Let_def)

lemma free_found_ok:
  assumes inv: "heap_inv C F free s" and nz: "\<forall>b\<in>used C. bd_refcnt s b \<noteq> 0"
    and k: "k < NR_DIR" "b \<in> set (C k)" and obj: "obj \<in> objs k (bd_page s b)" "(obj, sz k) \<in> live s"
    and p: "prev = 0 \<or> prev \<in> used C \<union> set F"
  shows "\<exists>t D G free'. free_found obj k prev b s = Ret () t \<and> heap_inv D G free' t \<and> (\<forall>b\<in>used D. bd_refcnt t b \<noteq> 0) \<and>
    live t = live s - {(obj, sz k)} \<and> (\<forall>x\<in>live t. same_block x s t) \<and> moves C F s D G t \<and>
    ((\<forall>(q, n)\<in>live t. frame q \<noteq> frame obj) \<longrightarrow> page_users t (frame obj) = 0)"
proof -
  have nf: "obj \<notin> set (free b)" using live_in_bucket [OF inv k obj(1)] obj(2) by simp
  note P = put_obj [OF inv k obj(1) nf]
  let ?u = "set_refcnt b (bd_refcnt s b - 1) (poke (b + 8) obj (poke obj (bd_freeptr s b) s))"
  have bu: "b \<in> used C" using k by blast
  have e: "free_found obj k prev b s = (if bd_refcnt ?u b = 0 then release_bucket k prev b ?u else Ret () ?u)"
    using P(9) by (simp add: free_found_def Let_def)
  have lu: "live ?u = live s - {(obj, sz k)}" using P(4,5) by auto
  have sb: "\<forall>x\<in>live ?u. same_block x s ?u" using P(6) by auto
  have fo: "frame obj = bd_page s b" by (rule objs_frame [OF bucket_page [OF inv bu] k(1) obj(1)])
  show ?thesis
  proof (cases "bd_refcnt ?u b = 0")
    case False
    have "\<forall>d\<in>used C. bd_refcnt ?u d \<noteq> 0" using nz P(8) False by metis
    moreover have "moves C F s C F ?u" using P(7) usedI by (fastforce simp: moves_def)
    moreover have "\<exists>(q, n)\<in>live ?u. frame q = frame obj"
    proof -
      have "unat (bd_refcnt ?u b) \<noteq> 0" using False by (simp add: unat_eq_0)
      moreover have ok: "bucket_ok ?u k b (obj # free b)" using heap_invD(8) [OF P(1) k] by simp
      ultimately have "card (set (obj # free b)) < card (objs k (bd_page ?u b))"
        using card_length [of "obj # free b"] card_objs [OF bucket_page [OF P(1) bu] k(1)] by (simp add: bucket_ok_def)
      then obtain q where q: "q \<in> objs k (bd_page ?u b)" "q \<notin> set (obj # free b)"
        by (metis card_mono finite_set linorder_not_le subsetI)
      then have "(q, sz k) \<in> live ?u" using live_in_bucket [OF P(1) k] by simp
      moreover have "frame q = frame obj" using objs_frame [OF bucket_page [OF P(1) bu] k(1) q(1)] P(7) [OF bu] fo by simp
      ultimately show ?thesis by blast
    qed
    ultimately show ?thesis using False e P(1) lu sb by (intro exI [of _ ?u] exI [of _ C] exI [of _ F] exI) auto
  next
    case True
    obtain t D where t: "release_bucket k prev b ?u = Ret () t" "heap_inv D (b # F) (free(b := obj # free b)) t"
      "\<forall>d. d \<in> used D \<longleftrightarrow> d \<in> used C \<and> d \<noteq> b" "live t = live ?u" "\<forall>x\<in>live ?u. same_block x ?u t" "moves C F ?u D (b # F) t"
      "page_users t (bd_page ?u b) = 0" "\<forall>d\<in>used C. bd_refcnt t d = bd_refcnt ?u d"
      using release_bucket_ok [OF P(1) k p True] by blast
    have "\<forall>d\<in>used D. bd_refcnt t d \<noteq> 0" using t(3,8) nz P(8) by simp
    moreover have "moves C F s D (b # F) t" using t(6) P(7) usedI unfolding moves_def by metis
    moreover have "\<forall>x\<in>live t. same_block x s t" using t(4,5) sb same_block_trans by blast
    ultimately show ?thesis
      using True e t(1,2,4,7) lu fo P(7) [OF bu]
      by (intro exI [of _ t] exI [of _ D] exI [of _ "b # F"] exI [of _ "free(b := obj # free b)"]) simp
  qed
qed


text \<open>The user of a block writes to it.\<close>

definition in_block :: "u32 \<Rightarrow> u32 \<times> nat \<Rightarrow> bool" where
  "in_block a x \<longleftrightarrow> unat (fst x) \<le> unat a \<and> unat a < unat (fst x) + snd x"

lemma write_ok:
  assumes inv: "heap_inv C F free s" and nz: "\<forall>b\<in>used C. bd_refcnt s b \<noteq> 0" and x: "x \<in> live s" "in_block a x"
  shows "heap_inv C F free (poke a v s)" "\<forall>b\<in>used C. bd_refcnt (poke a v s) b \<noteq> 0" "live (poke a v s) = live s"
    "d \<in> used C \<Longrightarrow> bd_page (poke a v s) d = bd_page s d" "y \<in> live s \<Longrightarrow> y \<noteq> x \<Longrightarrow> same_block y s (poke a v s)"
proof -
  note D = heap_invD [OF inv]
  obtain q n where qn: "x = (q, n)" by force
  obtain k b where k: "k < NR_DIR" "n = sz k" "b \<in> set (C k)" "q \<in> objs k (bd_page s b)" "q \<notin> set (free b)"
    using x(1) qn live_iff [OF inv] by blast
  have bu: "b \<in> used C" using k by blast
  have pgb: "frame (bd_page s b) = bd_page s b" by (rule bucket_page [OF inv bu])
  have fa: "frame a = bd_page s b" using word_in_obj [OF pgb k(1,4)] x(2) qn k(2) by (simp add: in_block_def)
  have ne: "a \<noteq> d" "a \<noteq> d + 12" if "d \<in> used C" for d
    using fa D(10) [OF bu, of d] desc_words(3) [OF D(6), of d] that by auto
  have ok: "bucket_ok s k b (free b)" by (rule D(8) [OF k(1,3)])
  have "bucket_ok (poke a v s) k b (free b)"
  proof (rule bucket_ok_cong [OF ok k(1)])
    show "pmem (poke a v s) y = pmem s y" if "y \<in> set (free b)" for y
    proof -
      have "y \<in> objs k (bd_page s b)" "y \<noteq> q" using ok that k(5) by (auto simp: bucket_ok_def)
      then have "apart (q, sz k) (y, sz k)" using objs_apart [OF pgb pgb k(1,1,4)] by blast
      then have "y \<noteq> a" using x(2) qn k(2) by (auto simp: apart_def in_block_def)
      then show ?thesis by simp
    qed
    have "a \<noteq> b + 8" using fa D(10) [OF bu, of b] bu desc_words(2) [OF D(6), of b] by auto
    then show "pmem (poke a v s) (b + 8) = pmem s (b + 8)" by simp
    show "page_users (poke a v s) (bd_page s b) = 1" using bucket_users [OF inv bu] page_users_cong [of "poke a v s" s] by simp
  qed (use ne [OF bu] in simp_all)
  then have "heap_inv C F (free(b := free b)) (poke a v s)"
    by (intro heap_inv_local [OF inv k(1,3)]) (use fa in auto)
  then show inv': "heap_inv C F free (poke a v s)" by simp
  show pgs: "bd_page (poke a v s) d = bd_page s d" if "d \<in> used C" for d using ne [OF that] by (simp add: bd_page_def)
  show "\<forall>b\<in>used C. bd_refcnt (poke a v s) b \<noteq> 0" using nz ne(2) by (auto simp: bd_refcnt_def)
  show "live (poke a v s) = live s"
    by (rule live_eqI) (unfold live_iff [OF inv] live_iff [OF inv'], intro iff_exI conj_cong refl, simp_all add: pgs [OF usedI])
  show "same_block y s (poke a v s)" if "y \<in> live s" "y \<noteq> x"
    using live_apart [OF inv, of "fst y" "snd y" q n] that x qn
    by (auto simp: same_block_def in_block_def apart_def)
qed

section \<open>Interrupts\<close>

text \<open>What interrupt routines may do while \<open>free_s\<close> is about to release \<open>obj\<close>: allocate, write to blocks, release other blocks.\<close>

inductive interrupted :: "u32 \<Rightarrow> kheap \<Rightarrow> kheap \<Rightarrow> bool" for obj where
  quiet: "interrupted obj s s"
| alloc: "interrupted obj s t \<Longrightarrow> malloc len t = Ret p u \<Longrightarrow> interrupted obj s u"
| store: "interrupted obj s t \<Longrightarrow> x \<in> live t \<Longrightarrow> in_block a x \<Longrightarrow> interrupted obj s (poke a v t)"
| release: "interrupted obj s t \<Longrightarrow> (q, n) \<in> live t \<Longrightarrow> q \<noteq> obj \<Longrightarrow> m \<le> int n \<Longrightarrow>
    free_s (\<lambda>s. s) q m t = Ret () u \<Longrightarrow> interrupted obj s u"

definition kept :: "u32 \<Rightarrow> nat \<Rightarrow> u32 \<Rightarrow> u32 \<Rightarrow> u32 set \<Rightarrow> kheap \<Rightarrow> bool" where
  "kept obj k b P A t \<longleftrightarrow> (\<exists>D G free'. heap_inv D G free' t \<and> (\<forall>d\<in>used D. bd_refcnt t d \<noteq> 0) \<and> A \<subseteq> used D \<union> set G \<and>
     b \<in> set (D k) \<and> bd_page t b = P \<and> obj \<in> objs k P \<and> (obj, sz k) \<in> live t)"

lemma free_s_ok:
  assumes inv: "heap_inv C F free s" and k: "k < NR_DIR" "b \<in> set (C k)" and m: "m \<le> int (sz k)"
    and obj: "frame obj = bd_page s b" and t: "kept obj k b (bd_page s b) (used C \<union> set F) (intr s)"
  shows "\<exists>t. free_s intr obj m s = Ret () t \<and> live t = live (intr s) - {(obj, sz k)} \<and> (\<forall>x\<in>live t. same_block x (intr s) t) \<and>
    ((\<forall>(q, n)\<in>live t. frame q \<noteq> frame obj) \<longrightarrow> page_users t (frame obj) = 0) \<and>
    (\<exists>D G free'. heap_inv D G free' t \<and> (\<forall>d\<in>used D. bd_refcnt t d \<noteq> 0) \<and>
       (\<forall>D' G' free''. heap_inv D' G' free'' (intr s) \<longrightarrow> moves D' G' (intr s) D G t))"
proof -
  obtain xs ys where C: "C k = xs @ b # ys" using k(2) by (meson split_list)
  let ?prev = "if xs = [] then 0 else last xs"
  have sd: "search_dir [0..<NR_DIR] (frame obj) m s = Ret (k, ?prev, b) s"
    unfolding obj by (rule search_dir_ok [OF inv k(1) C m]) (use k in auto)
  have pv: "?prev = 0 \<or> ?prev \<in> used C \<union> set F" using usedI [of k "last xs" C] k(1) C by auto
  obtain D G free' where t: "heap_inv D G free' (intr s)" "\<forall>d\<in>used D. bd_refcnt (intr s) d \<noteq> 0" "used C \<union> set F \<subseteq> used D \<union> set G"
      "b \<in> set (D k)" "bd_page (intr s) b = bd_page s b" "obj \<in> objs k (bd_page s b)" "(obj, sz k) \<in> live (intr s)"
    using t unfolding kept_def by blast
  have pD: "?prev = 0 \<or> ?prev \<in> used D \<union> set G" using pv t(3) by blast
  have o: "obj \<in> objs k (bd_page (intr s) b)" using t(5,6) by simp
  obtain u D1 G1 free1 where u: "free_found obj k ?prev b (intr s) = Ret () u" "heap_inv D1 G1 free1 u" "\<forall>b\<in>used D1. bd_refcnt u b \<noteq> 0"
    "live u = live (intr s) - {(obj, sz k)}" "\<forall>x\<in>live u. same_block x (intr s) u" "moves D G (intr s) D1 G1 u"
    "(\<forall>(q, n)\<in>live u. frame q \<noteq> frame obj) \<longrightarrow> page_users u (frame obj) = 0"
    using free_found_ok [OF t(1,2) k(1) t(4) o t(7) pD] by (elim exE conjE) (rule that)
  have mv: "moves D' G' (intr s) D1 G1 u" if "heap_inv D' G' free'' (intr s)" for D' G' free''
  proof -
    have "D' j = D j" if j: "j < NR_DIR" for j
      using lseg_unique [OF heap_invD(2) [OF \<open>heap_inv D' G' free'' (intr s)\<close> j] heap_invD(2) [OF t(1) j]] .
    moreover have "G' = G" using lseg_unique [OF heap_invD(3) [OF that] heap_invD(3) [OF t(1)]] .
    ultimately show ?thesis using u(6) by (simp add: moves_def used_def)
  qed
  have fs: "free_s intr obj m s = Ret () u" using sd u(1) by (simp add: free_s_found)
  show ?thesis by (intro exI conjI) (fact fs, fact u(4), fact u(5), fact u(7), fact u(2), fact u(3), use mv in blast)
qed


lemma heap_okE:
  assumes "heap_ok s"
  obtains C F free where "heap_inv C F free s" "\<forall>b\<in>used C. bd_refcnt s b \<noteq> 0"
  using assms unfolding heap_ok_def by blast

text \<open>Releasing a block with no interrupt in between.\<close>

lemma free_quiet:
  assumes inv: "heap_inv C F free s" "\<forall>b\<in>used C. bd_refcnt s b \<noteq> 0" and q: "(q, n) \<in> live s" "m \<le> int n"
  shows "\<exists>t D G free'. free_s (\<lambda>s. s) q m s = Ret () t \<and> live t = live s - {(q, n)} \<and> (\<forall>x\<in>live t. same_block x s t) \<and>
    ((\<forall>(p, j)\<in>live t. frame p \<noteq> frame q) \<longrightarrow> page_users t (frame q) = 0) \<and>
    heap_inv D G free' t \<and> (\<forall>d\<in>used D. bd_refcnt t d \<noteq> 0) \<and> moves C F s D G t"
proof -
  obtain k b where k: "k < NR_DIR" "n = sz k" "b \<in> set (C k)" "q \<in> objs k (bd_page s b)" using q(1) live_iff [OF inv(1)] by blast
  have kp: "kept q k b (bd_page s b) (used C \<union> set F) ((\<lambda>s. s) s)" unfolding kept_def using inv k q by blast
  have fq: "frame q = bd_page s b" using objs_frame [OF bucket_page [OF inv(1)] k(1,4)] k by blast
  have mk: "m \<le> int (sz k)" using q(2) k(2) by simp
  obtain t D G free' where t: "free_s (\<lambda>s. s) q m s = Ret () t" "live t = live s - {(q, sz k)}" "\<forall>x\<in>live t. same_block x s t"
      "(\<forall>(p, j)\<in>live t. frame p \<noteq> frame q) \<longrightarrow> page_users t (frame q) = 0" "heap_inv D G free' t" "\<forall>d\<in>used D. bd_refcnt t d \<noteq> 0"
      "\<forall>D' G' free''. heap_inv D' G' free'' s \<longrightarrow> moves D' G' s D G t"
    using free_s_ok [where intr = "\<lambda>s. s", OF inv(1) k(1,3) mk fq kp] by (elim exE conjE) (rule that)
  have "moves C F s D G t" using t(7) inv(1) by blast
  then show ?thesis unfolding k(2) using t(1-6) by blast
qed

lemma interrupted_kept:
  assumes "interrupted obj s t" "kept obj k b P A s" "k < NR_DIR"
  shows "kept obj k b P A t"
  using assms(1,2)
proof (induction rule: interrupted.induct)
  case (alloc s t len p u)
  obtain D G free' where t: "heap_inv D G free' t" "\<forall>d\<in>used D. bd_refcnt t d \<noteq> 0" "A \<subseteq> used D \<union> set G" "b \<in> set (D k)"
      "bd_page t b = P" "obj \<in> objs k P" "(obj, sz k) \<in> live t" using alloc unfolding kept_def by blast
  have len: "unat len \<le> 4096" using alloc.hyps(2) find_size(2) [of len] by (cases "4096 < unat len") (auto simp: malloc_def)
  have "\<exists>D' G' free''. heap_inv D' G' free'' u \<and> (\<forall>b\<in>used D'. bd_refcnt u b \<noteq> 0) \<and> live t \<subseteq> live u \<and> grows D G t D' G' u"
    using malloc_ok [OF t(1,2) len] unfolding alloc.hyps(2)
  proof (elim disjE exE conjE)
    fix p' t' D' G' f assume "Ret p u = Ret p' t'" "heap_inv D' G' f t'" "\<forall>b\<in>used D'. bd_refcnt t' b \<noteq> 0"
      "live t' = insert (p', size_of (unat len)) (live t)" "grows D G t D' G' t'"
    then show ?thesis by (intro exI [of _ D'] exI [of _ G'] exI [of _ f]) auto
  qed simp
  then obtain D' G' free'' where u: "heap_inv D' G' free'' u" "\<forall>b\<in>used D'. bd_refcnt u b \<noteq> 0" "live t \<subseteq> live u" "grows D G t D' G' u" by blast
  have "A \<subseteq> used D' \<union> set G'" "b \<in> set (D' k)" "bd_page u b = P" "(obj, sz k) \<in> live u"
    using u(3,4) t usedI [of k b D] assms(3) by (auto simp: grows_def)
  then show ?case unfolding kept_def using u t(6) by blast
next
  case (store s t x a v)
  obtain D G free' where t: "heap_inv D G free' t" "\<forall>d\<in>used D. bd_refcnt t d \<noteq> 0" "A \<subseteq> used D \<union> set G" "b \<in> set (D k)"
      "bd_page t b = P" "obj \<in> objs k P" "(obj, sz k) \<in> live t" using store unfolding kept_def by blast
  note W = write_ok [OF t(1,2) store.hyps(2,3), where v = v]
  have "bd_page (poke a v t) b = P" using W(4) usedI [of k b D] assms(3) t(4,5) by simp
  then show ?case unfolding kept_def using W(1-3) t by blast
next
  case (release s t q n m u)
  obtain D G free' where t: "heap_inv D G free' t" "\<forall>d\<in>used D. bd_refcnt t d \<noteq> 0" "A \<subseteq> used D \<union> set G" "b \<in> set (D k)"
      "bd_page t b = P" "obj \<in> objs k P" "(obj, sz k) \<in> live t" using release unfolding kept_def by blast
  obtain D' G' free'' where u: "live u = live t - {(q, n)}" "heap_inv D' G' free'' u" "\<forall>d\<in>used D'. bd_refcnt u d \<noteq> 0" "moves D G t D' G' u"
    using free_quiet [OF t(1,2) release.hyps(2,4)] unfolding release.hyps(5) by blast
  have l: "(obj, sz k) \<in> live u" using u(1) t(7) release.hyps(3) by simp
  then have "b \<in> set (D' k)" "bd_page u b = P" using u(4) t(4-6) assms(3) unfolding moves_def by blast+
  moreover have "A \<subseteq> used D' \<union> set G'" using t(3) u(4) unfolding moves_def by blast
  ultimately show ?case unfolding kept_def using u(2,3) t(6) l by blast
qed


section \<open>The interface of the allocator\<close>

text \<open>
  What a user of \<open>malloc\<close> and \<open>free_s\<close> relies on: the blocks in use do not overlap; a new block is as large
  as asked for and was not in use; nobody but its owner changes it.
\<close>

locale allocator =
  fixes alloc :: "u32 \<Rightarrow> 's \<Rightarrow> ('s, u32) outcome"
    and release :: "u32 \<Rightarrow> 's \<Rightarrow> ('s, unit) outcome"
    and put_word :: "u32 \<Rightarrow> u32 \<Rightarrow> 's \<Rightarrow> 's"
    and word_at :: "'s \<Rightarrow> u32 \<Rightarrow> u32"
    and blocks :: "'s \<Rightarrow> (u32 \<times> nat) set"
    and ok :: "'s \<Rightarrow> bool"
  assumes blocks_apart: "ok s \<Longrightarrow> x \<in> blocks s \<Longrightarrow> y \<in> blocks s \<Longrightarrow> x \<noteq> y \<Longrightarrow> apart x y"
    and alloc_block: "ok s \<Longrightarrow> alloc len s = Ret p t \<Longrightarrow> ok t \<and> (\<exists>n. unat len \<le> n \<and> blocks t = insert (p, n) (blocks s) \<and> (p, n) \<notin> blocks s)"
    and alloc_frame: "ok s \<Longrightarrow> alloc len s = Ret p t \<Longrightarrow> x \<in> blocks s \<Longrightarrow> in_block a x \<Longrightarrow> word_at t a = word_at s a"
    and release_block: "ok s \<Longrightarrow> (p, n) \<in> blocks s \<Longrightarrow> \<exists>t. release p s = Ret () t \<and> ok t \<and> blocks t = blocks s - {(p, n)} \<and>
      (\<forall>x a. x \<in> blocks t \<longrightarrow> in_block a x \<longrightarrow> word_at t a = word_at s a)"
    and write_block: "ok s \<Longrightarrow> x \<in> blocks s \<Longrightarrow> in_block a x \<Longrightarrow> ok (put_word a v s) \<and> blocks (put_word a v s) = blocks s \<and>
      word_at (put_word a v s) = (word_at s)(a := v)"
begin

text \<open>Any use of the allocator by others; \<open>x\<close> is the block of the observer.\<close>

inductive others :: "u32 \<times> nat \<Rightarrow> 's \<Rightarrow> 's \<Rightarrow> bool" for x where
  start: "others x s s"
| more: "others x s t \<Longrightarrow> alloc len t = Ret p u \<Longrightarrow> others x s u"
| less: "others x s t \<Longrightarrow> (p, n) \<in> blocks t \<Longrightarrow> (p, n) \<noteq> x \<Longrightarrow> release p t = Ret () u \<Longrightarrow> others x s u"
| touch: "others x s t \<Longrightarrow> y \<in> blocks t \<Longrightarrow> y \<noteq> x \<Longrightarrow> in_block a y \<Longrightarrow> others x s (put_word a v t)"

lemma others_keep:
  assumes "others x s t" "ok s" "x \<in> blocks s"
  shows "ok t \<and> x \<in> blocks t \<and> (\<forall>a. in_block a x \<longrightarrow> word_at t a = word_at s a)"
  using assms
proof (induction rule: others.induct)
  case (more s t len p u)
  then show ?case using alloc_block [of t len p u] alloc_frame [of t len p u x] by auto
next
  case (less s t p n u)
  then have t: "ok t" "x \<in> blocks t" "\<forall>a. in_block a x \<longrightarrow> word_at t a = word_at s a" by blast+
  have u: "ok u" "blocks u = blocks t - {(p, n)}" "\<forall>x a. x \<in> blocks u \<longrightarrow> in_block a x \<longrightarrow> word_at u a = word_at t a"
    using release_block [OF t(1) less.hyps(2)] less.hyps(4) by auto
  have "x \<in> blocks u" using u(2) t(2) less.hyps(3) by blast
  then have "word_at u a = word_at t a" if "in_block a x" for a using u(3) that by blast
  then show ?case using u(1) t(3) \<open>x \<in> blocks u\<close> by simp
next
  case (touch s t y a v)
  have "apart x y" using blocks_apart [of t x y] touch by auto
  then have "\<not> in_block a x" using touch.hyps by (auto simp: apart_def in_block_def)
  then show ?case using touch write_block [of t y a v] by auto
qed simp

lemma alloc_release:
  assumes "ok s" "alloc len s = Ret p t"
  shows "\<exists>u. release p t = Ret () u \<and> ok u \<and> blocks u = blocks s \<and> (\<forall>x\<in>blocks s. \<forall>a. in_block a x \<longrightarrow> word_at u a = word_at s a)"
proof -
  obtain n where n: "ok t" "blocks t = insert (p, n) (blocks s)" "(p, n) \<notin> blocks s" using alloc_block [OF assms] by blast
  then obtain u where u: "release p t = Ret () u" "ok u" "blocks u = blocks t - {(p, n)}"
    "\<forall>x a. x \<in> blocks u \<longrightarrow> in_block a x \<longrightarrow> word_at u a = word_at t a" using release_block [of t p n] by blast
  have "blocks u = blocks s" using n u by auto
  then show ?thesis using u alloc_frame [OF assms] by auto
qed

end

lemma same_block_in: "same_block x s t \<longleftrightarrow> (\<forall>a. in_block a x \<longrightarrow> pmem t a = pmem s a)"
  by (auto simp: same_block_def in_block_def)

lemma malloc_Ret:
  assumes "heap_ok s" "malloc len s = Ret p t"
  shows "heap_ok t \<and> unat len \<le> size_of (unat len) \<and> live t = insert (p, size_of (unat len)) (live s) \<and>
    (p, size_of (unat len)) \<notin> live s \<and> (\<forall>x\<in>live s. same_block x s t)"
proof -
  obtain C F free where inv: "heap_inv C F free s" "\<forall>b\<in>used C. bd_refcnt s b \<noteq> 0" using assms(1) by (rule heap_okE)
  have len: "unat len \<le> 4096" using assms(2) find_size(2) [of len] by (cases "4096 < unat len") (auto simp: malloc_def)
  show ?thesis
    using malloc_ok [OF inv len] unfolding assms(2)
  proof (elim disjE exE conjE)
    fix p' t' D' G' f assume "Ret p t = Ret p' t'" "heap_inv D' G' f t'" "\<forall>b\<in>used D'. bd_refcnt t' b \<noteq> 0"
      "live t' = insert (p', size_of (unat len)) (live s)" "(p', size_of (unat len)) \<notin> live s" "unat len \<le> size_of (unat len)"
      "\<forall>x\<in>live s. same_block x s t'"
    moreover have "heap_ok t'" unfolding heap_ok_def using calculation(2,3) by blast
    ultimately show ?thesis by simp
  qed simp
qed

lemma free_Ret:
  assumes "heap_ok s" "(q, n) \<in> live s" "m \<le> int n"
  shows "\<exists>t. free_s (\<lambda>s. s) q m s = Ret () t \<and> heap_ok t \<and> live t = live s - {(q, n)} \<and> (\<forall>x\<in>live t. same_block x s t)"
proof -
  obtain C F free where inv: "heap_inv C F free s" "\<forall>b\<in>used C. bd_refcnt s b \<noteq> 0" using assms(1) by (rule heap_okE)
  show ?thesis using free_quiet [OF inv assms(2,3)] unfolding heap_ok_def by blast
qed

interpretation kernel: allocator malloc "\<lambda>p. free_s (\<lambda>s. s) p 0" poke pmem live heap_ok
proof unfold_locales
  fix s x y assume "heap_ok s" and x: "x \<in> live s" "y \<in> live s" "x \<noteq> y"
  then show "apart x y" using live_apart [of _ _ _ s "fst x" "snd x" "fst y" "snd y"] by (auto elim!: heap_okE)
next
  fix s len p t assume a: "heap_ok s" "malloc len s = Ret p t"
  show "heap_ok t \<and> (\<exists>n. unat len \<le> n \<and> live t = insert (p, n) (live s) \<and> (p, n) \<notin> live s)" using malloc_Ret [OF a] by blast
  show "pmem t c = pmem s c" if "x \<in> live s" "in_block c x" for x c using malloc_Ret [OF a] that by (auto simp: same_block_in)
next
  fix s p n assume a: "heap_ok s" "(p, n) \<in> live s"
  show "\<exists>t. free_s (\<lambda>s. s) p 0 s = Ret () t \<and> heap_ok t \<and> live t = live s - {(p, n)} \<and>
    (\<forall>x a. x \<in> live t \<longrightarrow> in_block a x \<longrightarrow> pmem t a = pmem s a)"
    using free_Ret [OF a, of 0] unfolding same_block_in by force
next
  fix s x a v assume x: "heap_ok s" "x \<in> live s" "in_block a x"
  obtain C F free where inv: "heap_inv C F free s" "\<forall>b\<in>used C. bd_refcnt s b \<noteq> 0" using x(1) by (rule heap_okE)
  note W = write_ok [OF inv x(2,3), where v = v]
  have "heap_ok (poke a v s)" unfolding heap_ok_def using W(1,2) by blast
  then show "heap_ok (poke a v s) \<and> live (poke a v s) = live s \<and> pmem (poke a v s) = (pmem s)(a := v)" using W(3) by simp
qed


section \<open>The theorems\<close>

text \<open>C28: On a heap in order, \<open>malloc\<close> panics for a request above 4096 bytes, and when there is no room in the pages that
  hold blocks of the smallest of the nine sizes that is large enough and no free page for another, nor, when no descriptor is
  unused, one more for descriptors.  In every other case it returns a block of this size.
  The block overlaps no block in use, these keep their contents, and the heap is in order again.\<close>

theorem malloc_blocks:
  assumes "heap_ok s"
  shows "if 4096 < unat len then malloc len s = Panic ''malloc: bad arg''
    else if \<not> roomy (size_of (unat len)) s \<and> free_pages s < (if free_bucket_desc s = 0 then 2 else 1)
    then \<exists>m. malloc len s = Panic m
    else \<exists>p t. malloc len s = Ret p t \<and> heap_ok t \<and> unat len \<le> size_of (unat len) \<and> live t = insert (p, size_of (unat len)) (live s) \<and>
        (\<forall>x\<in>live s. apart (p, size_of (unat len)) x \<and> same_block x s t)"
proof (cases "4096 < unat len")
  case True
  then show ?thesis using find_size(2) [OF True] by (simp add: malloc_def)
next
  case False
  obtain C F free where inv: "heap_inv C F free s" "\<forall>b\<in>used C. bd_refcnt s b \<noteq> 0" using assms by (rule heap_okE)
  have len: "unat len \<le> 4096" using False by simp
  have "(\<exists>m. malloc len s = Panic m) \<and> short s \<and> \<not> roomy (size_of (unat len)) s \<or> (\<exists>p t. malloc len s = Ret p t)"
    using malloc_ok [OF inv len] by meson
  moreover have "\<exists>m. malloc len s = Panic m" if "short s" "\<not> roomy (size_of (unat len)) s"
    by (rule malloc_short [OF inv len that])
  moreover have "heap_ok t \<and> unat len \<le> size_of (unat len) \<and> live t = insert (p, size_of (unat len)) (live s) \<and>
      (\<forall>x\<in>live s. apart (p, size_of (unat len)) x \<and> same_block x s t)" if m: "malloc len s = Ret p t" for p t
  proof -
    note M = malloc_Ret [OF assms m]
    then have "apart (p, size_of (unat len)) x" if "x \<in> live s" for x using kernel.blocks_apart [of t _ x] that by blast
    then show ?thesis using M by blast
  qed
  ultimately show ?thesis using False unfolding short_def [symmetric] by auto
qed

text \<open>A heap nothing has been taken from.\<close>

definition fresh_heap :: kheap where
  "fresh_heap = mm.extend empty_mm \<lparr>bd_chain = \<lambda>_. 0, free_bucket_desc = 0\<rparr>"

lemma fresh_heap_ok: "heap_ok fresh_heap" "live fresh_heap = {}" "\<not> short fresh_heap"
proof -
  have f: "bd_chain fresh_heap k = 0" "free_bucket_desc fresh_heap = 0" "HIGH_MEMORY fresh_heap = HIGH_MEMORY empty_mm"
    "mem_map fresh_heap = mem_map empty_mm" for k by (simp_all add: fresh_heap_def mm.defs)
  have u: "used (\<lambda>_. []) = {}" by (simp add: used_def)
  have m: "map_ok fresh_heap" using pg_props(5) by (auto simp: map_ok_def f empty_mm_def not_le [symmetric])
  have inv: "heap_inv (\<lambda>_. []) [] (\<lambda>_. []) fresh_heap" by (rule heap_invI) (use m in \<open>simp_all add: f u\<close>)
  then show "heap_ok fresh_heap" unfolding heap_ok_def using u by blast
  show "live fresh_heap = {}" using live_iff [OF inv] by auto
  have "{0, 1} \<subseteq> {n. n < PAGING_PAGES \<and> mem_map fresh_heap n = 0}" by (simp add: f empty_mm_def)
  then have "2 \<le> free_pages fresh_heap" using card_mono [of "{n. n < PAGING_PAGES \<and> mem_map fresh_heap n = 0}" "{0, 1}"]
    by (simp add: free_pages_def)
  then show "\<not> short fresh_heap" by (simp add: short_def)
qed

lemma fresh_malloc: "\<exists>p t. malloc 100 fresh_heap = Ret p t \<and> heap_ok t \<and> live t = {(p, 128)}"
proof -
  obtain C F free where inv: "heap_inv C F free fresh_heap" "\<forall>b\<in>used C. bd_refcnt fresh_heap b \<noteq> 0"
    using fresh_heap_ok(1) by (rule heap_okE)
  have "size_of (unat (100 :: u32)) = 128" by (simp add: size_of_def bucket_dir_def)
  moreover obtain p t where "malloc 100 fresh_heap = Ret p t" using malloc_ok [OF inv, of 100] fresh_heap_ok(3) by auto
  ultimately show ?thesis using malloc_Ret [OF fresh_heap_ok(1), of 100 p t] fresh_heap_ok(2) by simp
qed

theorem malloc_blocks_witness:
  "malloc 5000 fresh_heap = Panic ''malloc: bad arg'' \<and> (\<exists>p t. malloc 3000 fresh_heap = Ret p t \<and> heap_ok t \<and> live t = {(p, 4096)})"
proof -
  have "size_of (unat (3000 :: u32)) = 4096" by (simp add: size_of_def bucket_dir_def)
  then show ?thesis
    using malloc_blocks [OF fresh_heap_ok(1), of 3000] malloc_blocks [OF fresh_heap_ok(1), of 5000] fresh_heap_ok(2,3)
    by (auto simp: short_def)
qed

text \<open>C29: \<open>free_s\<close> of a block in use never panics, whatever interrupt routines have allocated, written or released since
  it looked for the descriptor (short of releasing the same block): the block is no longer in use,
  every other block is, with its contents, the heap is in order, and when no block of the page is left
  the page has gone back to the page allocator.\<close>

theorem free_s_interrupted:
  assumes "heap_ok s" "(obj, n) \<in> live s" "m \<le> int n" "interrupted obj s (intr s)"
  shows "\<exists>t. free_s intr obj m s = Ret () t \<and> heap_ok t \<and> live t = live (intr s) - {(obj, n)} \<and>
    (\<forall>x\<in>live t. same_block x (intr s) t) \<and> ((\<forall>(q, j)\<in>live t. frame q \<noteq> frame obj) \<longrightarrow> page_users t (frame obj) = 0)"
proof -
  obtain C F free where inv: "heap_inv C F free s" "\<forall>b\<in>used C. bd_refcnt s b \<noteq> 0" using assms(1) by (rule heap_okE)
  obtain k b where k: "k < NR_DIR" "n = sz k" "b \<in> set (C k)" "obj \<in> objs k (bd_page s b)" using assms(2) live_iff [OF inv(1)] by blast
  have "kept obj k b (bd_page s b) (used C \<union> set F) s" unfolding kept_def using inv k assms(2) by blast
  then have kp: "kept obj k b (bd_page s b) (used C \<union> set F) (intr s)" by (rule interrupted_kept [OF assms(4) _ k(1)])
  have fq: "frame obj = bd_page s b" using objs_frame [OF bucket_page [OF inv(1)] k(1,4)] k by blast
  have mk: "m \<le> int (sz k)" using assms(3) k(2) by simp
  show ?thesis using free_s_ok [where intr = intr, OF inv(1) k(1,3) mk fq kp] unfolding k(2) heap_ok_def by blast
qed

theorem free_s_interrupted_witness:
  "\<exists>p t u. malloc 100 fresh_heap = Ret p t \<and> free_s (poke p 7) p 100 t = Ret () u \<and> live u = {} \<and> page_users u (frame p) = 0"
proof -
  obtain p t where t: "malloc 100 fresh_heap = Ret p t" "heap_ok t" "live t = {(p, 128)}" using fresh_malloc by blast
  have "interrupted p t (poke p 7 t)"
    by (rule interrupted.store [OF interrupted.quiet, of "(p, 128)"]) (simp_all add: t in_block_def)
  then have "live (poke p 7 t) = {(p, 128)}" using kernel.write_block [OF t(2), of "(p, 128)" p 7] t by (simp add: in_block_def)
  then show ?thesis
    using free_s_interrupted [OF t(2), of p 128 100 "poke p 7"] \<open>interrupted p t (poke p 7 t)\<close> t by auto
qed

end
