(* ===== verification/Hd.thy ===== *)
theory Hd
  imports Open_Mount
begin

unbundle bit_operations_syntax

text \<open>
  The hard disk driver, \<open>src/kernel/blk_drv/hd.c\<close>: programming of the controller, the interrupt
  routines and the strategy routine \<open>do_hd_request\<close> (the \<open>k_dev\<close> of major number 3), and the system
  call \<open>setup\<close> that reads the partition tables.

  A read of a port of the controller takes the next value of its stream; a byte
  written to a port is appended to \<open>ports\<close>, a word written to the data port as its two bytes.
  An interrupt is a call of \<open>hd_interrupt\<close>.  Messages are left out.
\<close>

abbreviation (input) HD_DATA :: u16 where "HD_DATA \<equiv> 0x1f0"
abbreviation (input) HD_ERROR :: u16 where "HD_ERROR \<equiv> 0x1f1"
abbreviation (input) HD_STATUS :: u16 where "HD_STATUS \<equiv> 0x1f7"
abbreviation (input) HD_CMD :: u16 where "HD_CMD \<equiv> 0x3f6"
abbreviation (input) DRQ_STAT :: u8 where "DRQ_STAT \<equiv> 0x08"
abbreviation (input) SEEK_STAT :: u8 where "SEEK_STAT \<equiv> 0x10"
abbreviation (input) READY_STAT :: u8 where "READY_STAT \<equiv> 0x40"
abbreviation (input) BUSY_STAT :: u8 where "BUSY_STAT \<equiv> 0x80"
abbreviation (input) WIN_RESTORE :: u8 where "WIN_RESTORE \<equiv> 0x10"
abbreviation (input) WIN_READ :: u8 where "WIN_READ \<equiv> 0x20"
abbreviation (input) WIN_WRITE :: u8 where "WIN_WRITE \<equiv> 0x30"
abbreviation (input) WIN_SPECIFY :: u8 where "WIN_SPECIFY \<equiv> 0x91"
abbreviation (input) MAX_ERRORS :: int where "MAX_ERRORS \<equiv> 7"

definition upd_hd :: "(hd_driver \<Rightarrow> hd_driver) \<Rightarrow> fs \<Rightarrow> fs" where
  "upd_hd f s = s\<lparr>hdd := f (hdd s)\<rparr>"

definition inw :: "u16 \<Rightarrow> fs \<Rightarrow> u16 \<times> fs" where
  "inw port s =
     (port_in (hdd s) port (port_pos (hdd s) port),
      upd_hd (\<lambda>d. d\<lparr>port_pos := (port_pos d)(port := port_pos d port + 1)\<rparr>) s)"

definition inb :: "u16 \<Rightarrow> fs \<Rightarrow> u8 \<times> fs" where
  "inb port s = (case inw port s of (v, s) \<Rightarrow> (ucast v, s))"

text \<open>\<open>insw\<close> and \<open>outsw\<close> with a count of 256: a sector to or from a buffer.\<close>

definition port_words :: "u16 \<Rightarrow> fs \<Rightarrow> nat \<Rightarrow> u16" where
  "port_words port s k = port_in (hdd s) port (port_pos (hdd s) port + k)"

definition port_read :: "u16 \<Rightarrow> nat \<times> nat \<Rightarrow> fs \<Rightarrow> (fs, unit) outcome" where
  "port_read port p s =
     (if snd p + 512 > BLOCK_SIZE then Undefined ''insw past the end of the buffer''
      else Ret () (upd_hd (\<lambda>d. d\<lparr>port_pos := (port_pos d)(port := port_pos d port + 256)\<rparr>)
             (upd_bh (fst p) (\<lambda>h. h\<lparr>b_data := (\<lambda>i. if snd p \<le> i \<and> i < snd p + 512
                then ucast (drop_bit (8 * ((i - snd p) mod 2)) (port_words port s ((i - snd p) div 2)))
                else b_data h i)\<rparr>) s)))"

definition port_write :: "u16 \<Rightarrow> nat \<times> nat \<Rightarrow> fs \<Rightarrow> (fs, unit) outcome" where
  "port_write port p s =
     (if snd p + 512 > BLOCK_SIZE then Undefined ''outsw past the end of the buffer''
      else Ret () (s\<lparr>ports := ports s @ map (\<lambda>i. (port, b_data (buffers s (fst p)) (snd p + i))) [0..<512]\<rparr>))"

section \<open>The controller\<close>

text \<open>\<open>while (--retries && (inb_p(HD_STATUS)&0xc0)!=0x40)\<close>, from \<open>retries = n\<close>.\<close>

primrec ready_poll :: "nat \<Rightarrow> fs \<Rightarrow> nat \<times> fs" where
  "ready_poll 0 s = (0, s)"
| "ready_poll (Suc n) s =
     (if n = 0 then (0, s)
      else case inb HD_STATUS s of (v, s) \<Rightarrow> if v AND 0xc0 \<noteq> 0x40 then ready_poll n s else (n, s))"

definition controller_ready :: "fs \<Rightarrow> nat \<times> fs" where
  "controller_ready s = ready_poll 10000 s"

definition win_result :: "fs \<Rightarrow> bool \<times> fs" where
  "win_result s =
     (case inb HD_STATUS s of
        (i, s) \<Rightarrow> if i AND 0xf1 = READY_STAT OR SEEK_STAT then (False, s)
                  else if i AND 1 \<noteq> 0 then (True, snd (inb HD_ERROR s)) else (True, s))"

definition hd_out :: "u32 \<Rightarrow> u32 \<Rightarrow> u32 \<Rightarrow> u32 \<Rightarrow> u32 \<Rightarrow> u8 \<Rightarrow> hd_handler \<Rightarrow> fs \<Rightarrow> (fs, unit) outcome" where
  "hd_out drive nsect sec hed cy cmd intr_addr s =
     (if drive > 1 \<or> hed > 15 then Panic ''Trying to write bad sector''
      else case controller_ready s of
        (r, s) \<Rightarrow>
          if r = 0 then Panic ''HD controller not ready''
          else let s = upd_hd (\<lambda>d. d\<lparr>do_hd := intr_addr\<rparr>) s;
                   i = hd_info (hdd s) (unat drive);
                   s = outb (of_int (ctl i)) HD_CMD s;
                   s = outb (of_int (wpcom i div 4)) 0x1f1 s;
                   s = outb (ucast nsect) 0x1f2 s;
                   s = outb (ucast sec) 0x1f3 s;
                   s = outb (ucast cy) 0x1f4 s;
                   s = outb (ucast (drop_bit 8 cy)) 0x1f5 s;
                   s = outb (ucast (0xA0 OR push_bit 4 drive OR hed)) 0x1f6 s
               in Ret () (outb cmd 0x1f7 s))"

primrec busy_poll :: "nat \<Rightarrow> fs \<Rightarrow> fs" where
  "busy_poll 0 s = s"
| "busy_poll (Suc n) s =
     (case inb HD_STATUS s of (v, s) \<Rightarrow> if READY_STAT = v AND (BUSY_STAT OR READY_STAT) then s else busy_poll n s)"

text \<open>\<open>i == READY_STAT | SEEK_STAT\<close> is the bitwise or of a comparison and a constant.\<close>

definition drive_busy :: "fs \<Rightarrow> bool \<times> fs" where
  "drive_busy s =
     (case inb HD_STATUS (busy_poll 10000 s) of
        (i, s) \<Rightarrow>
          let i = i AND (BUSY_STAT OR READY_STAT OR SEEK_STAT)
          in if of_bool (i = READY_STAT) OR SEEK_STAT \<noteq> 0 then (False, s) else (True, s))"

definition reset_controller :: "fs \<Rightarrow> fs" where
  "reset_controller s =
     (let s = outb 4 HD_CMD s;
          s = outb (of_int (ctl (hd_info (hdd s) 0)) AND 0x0f) HD_CMD s;
          (_, s) = drive_busy s;
          (_, s) = inb HD_ERROR s
      in s)"

definition reset_hd :: "u32 \<Rightarrow> fs \<Rightarrow> (fs, unit) outcome" where
  "reset_hd nr s =
     (let s = reset_controller s;
          i = hd_info (hdd s) (unat nr)
      in hd_out nr (of_int (sect i)) (of_int (sect i)) (of_int (head i - 1)) (of_int (cyl i)) WIN_SPECIFY recal_intr_handler s)"

section \<open>Requests and interrupts\<close>

definition end_hd :: "u8 \<Rightarrow> fs \<Rightarrow> (fs, unit) outcome" where
  "end_hd = end_request 3 (\<lambda>_ s. Ret () s)"

text \<open>
  The second use of \<open>CURRENT\<close> may come after the last request has been ended: then it is the null pointer,
  and \<open>errors\<close> is the word at address 8, entry 2 of the page directory.
\<close>

definition bad_rw_intr :: "fs \<Rightarrow> (fs, unit) outcome" where
  "bad_rw_intr s =
     (case current_request s 3 of
        None \<Rightarrow> Undefined ''++CURRENT->errors''
      | Some c \<Rightarrow>
          let s = upd_req c (\<lambda>r. r\<lparr>r_errors := s32 (r_errors r + 1)\<rparr>) s in
          bindO (if r_errors (request_tab s c) \<ge> MAX_ERRORS then end_hd 0 s else Ret () s) (\<lambda>_ s.
          let e = (case current_request s 3 of Some c \<Rightarrow> r_errors (request_tab s c) | None \<Rightarrow> sint (pmem s 8))
          in Ret () (if e > MAX_ERRORS div 2 then upd_hd (\<lambda>d. d\<lparr>hd_reset := True\<rparr>) s else s)))"

text \<open>\<open>for(i=0 ; i<3000 && !(r=inb_p(HD_STATUS)&DRQ_STAT) ; i++)\<close>: whether the controller wants data.\<close>

primrec drq_poll :: "nat \<Rightarrow> fs \<Rightarrow> bool \<times> fs" where
  "drq_poll 0 s = (False, s)"
| "drq_poll (Suc n) s =
     (case inb HD_STATUS s of (v, s) \<Rightarrow> if v AND DRQ_STAT \<noteq> 0 then (True, s) else drq_poll n s)"

text \<open>Sector, head and cylinder of a block, by two \<open>divl\<close> instructions; a divisor of 0 is a divide error.\<close>

definition chs :: "u32 \<Rightarrow> hd_i_struct \<Rightarrow> (u32 \<times> u32 \<times> u32) option" where
  "chs block i =
     (let st = of_int (sect i); hs = of_int (head i) in
      if st = 0 \<or> hs = 0 then None
      else Some (block mod st + 1, block div st mod hs, block div st div hs))"

definition start_command :: "nat \<Rightarrow> u32 \<Rightarrow> u32 \<Rightarrow> u32 \<Rightarrow> u32 \<Rightarrow> fs \<Rightarrow> (fs, unit + unit) outcome" where
  "start_command c dev sec hed cy s =
     (let r = request_tab s c; nsect = r_nr_sectors r in
      if hd_reset (hdd s)
      then bindO (reset_hd (MINOR (of_int (r_dev r)) div 5) (upd_hd (\<lambda>d. d\<lparr>hd_reset := False, recalibrate := True\<rparr>) s))
             (\<lambda>_ s. Ret (Inr ()) s)
      else if recalibrate (hdd s)
      then bindO (hd_out dev (of_int (sect (hd_info (hdd s) (unat (MINOR (of_int (r_dev r)) div 5))))) 0 0 0 WIN_RESTORE recal_intr_handler
                    (upd_hd (\<lambda>d. d\<lparr>recalibrate := False\<rparr>) s)) (\<lambda>_ s. Ret (Inr ()) s)
      else if r_cmd r = WRITE
      then bindO (hd_out dev nsect sec hed cy WIN_WRITE write_intr_handler s) (\<lambda>_ s.
           case drq_poll 3000 s of
             (ready, s) \<Rightarrow>
               if \<not> ready then bindO (bad_rw_intr s) (\<lambda>_ s. Ret (Inl ()) s)
               else bindO (port_write HD_DATA (r_buffer (request_tab s c)) s) (\<lambda>_ s. Ret (Inr ()) s))
      else if r_cmd r = READ
      then bindO (hd_out dev nsect sec hed cy WIN_READ read_intr_handler s) (\<lambda>_ s. Ret (Inr ()) s)
      else Panic ''unknown hd-command'')"

definition hd_round :: "unit \<Rightarrow> fs \<Rightarrow> (fs, unit + unit) outcome" where
  "hd_round = (\<lambda>_ s.
     bindO (INIT_REQUEST 3 s) (\<lambda>c s.
     case c of
       None \<Rightarrow> Ret (Inr ()) s
     | Some c \<Rightarrow>
         let r = request_tab s c;
             dev = MINOR (of_int (r_dev r));
             block = r_sector r;
             part = hd_tab (hdd s) (unat dev)
         in if dev \<ge> of_nat (5 * NR_HD (hdd s)) \<or> block + 2 > of_int (nr_sects part)
            then bindO (end_hd 0 s) (\<lambda>_ s. Ret (Inl ()) s)
            else case chs (block + of_int (start_sect part)) (hd_info (hdd s) (unat (dev div 5))) of
                   None \<Rightarrow> Undefined ''divl''
                 | Some (sec, hed, cy) \<Rightarrow> start_command c (dev div 5) sec hed cy s))"

definition do_hd_request :: "fs \<Rightarrow> (fs, unit) outcome" where
  "do_hd_request = loopO hd_round ()"

definition read_intr :: "fs \<Rightarrow> (fs, unit) outcome" where
  "read_intr s =
     (case win_result s of
        (bad, s) \<Rightarrow>
          if bad then bindO (bad_rw_intr s) (\<lambda>_ s. do_hd_request s)
          else case current_request s 3 of
                 None \<Rightarrow> Undefined ''CURRENT->buffer''
               | Some c \<Rightarrow>
                   bindO (port_read HD_DATA (r_buffer (request_tab s c)) s) (\<lambda>_ s.
                   let s = upd_req c (\<lambda>r. r\<lparr>r_errors := 0, r_buffer := (fst (r_buffer r), snd (r_buffer r) + 512),
                             r_sector := r_sector r + 1, r_nr_sectors := r_nr_sectors r - 1\<rparr>) s
                   in if r_nr_sectors (request_tab s c) \<noteq> 0
                      then Ret () (upd_hd (\<lambda>d. d\<lparr>do_hd := read_intr_handler\<rparr>) s)
                      else bindO (end_hd 1 s) (\<lambda>_ s. do_hd_request s)))"

definition write_intr :: "fs \<Rightarrow> (fs, unit) outcome" where
  "write_intr s =
     (case win_result s of
        (bad, s) \<Rightarrow>
          if bad then bindO (bad_rw_intr s) (\<lambda>_ s. do_hd_request s)
          else case current_request s 3 of
                 None \<Rightarrow> Undefined ''--CURRENT->nr_sectors''
               | Some c \<Rightarrow>
                   let s = upd_req c (\<lambda>r. r\<lparr>r_nr_sectors := r_nr_sectors r - 1\<rparr>) s
                   in if r_nr_sectors (request_tab s c) \<noteq> 0
                      then let s = upd_req c (\<lambda>r. r\<lparr>r_sector := r_sector r + 1,
                                     r_buffer := (fst (r_buffer r), snd (r_buffer r) + 512)\<rparr>) s;
                               s = upd_hd (\<lambda>d. d\<lparr>do_hd := write_intr_handler\<rparr>) s
                           in port_write HD_DATA (r_buffer (request_tab s c)) s
                      else bindO (end_hd 1 s) (\<lambda>_ s. do_hd_request s))"

definition recal_intr :: "fs \<Rightarrow> (fs, unit) outcome" where
  "recal_intr s =
     (case win_result s of
        (bad, s) \<Rightarrow> bindO (if bad then bad_rw_intr s else Ret () s) (\<lambda>_ s. do_hd_request s))"

text \<open>
  \<open>_hd_interrupt\<close> of \<open>src/kernel/system_call.s\<close>: end-of-interrupt to both interrupt controllers around fetching and
  clearing \<open>do_hd\<close>; without a routine \<open>unexpected_hd_interrupt\<close> prints a message.
\<close>

definition hd_interrupt :: "fs \<Rightarrow> (fs, unit) outcome" where
  "hd_interrupt s =
     (let h = do_hd (hdd s);
          s = outb 0x20 0x20 (upd_hd (\<lambda>d. d\<lparr>do_hd := no_handler\<rparr>) (outb 0x20 0xA0 s))
      in case h of
           no_handler \<Rightarrow> Ret () s
         | read_intr_handler \<Rightarrow> read_intr s
         | write_intr_handler \<Rightarrow> write_intr s
         | recal_intr_handler \<Rightarrow> recal_intr s)"

section \<open>Initialisation\<close>

definition hd_init :: "fs \<Rightarrow> fs" where
  "hd_init s =
     (let s = s\<lparr>request_fn := (request_fn s)(3 := True)\<rparr>;
          s = outb (inb_val s 0x21 AND 0xfb) 0x21 s
      in outb (inb_val s 0xA1 AND 0xbf) 0xA1 s)"

definition get_pshort :: "u32 \<Rightarrow> fs \<Rightarrow> u16" where
  "get_pshort a s = ucast (get_pbyte a s) OR push_bit 8 (ucast (get_pbyte (a + 1) s))"

text \<open>An entry of the drive table the BIOS left behind.\<close>

definition bios_drive :: "u32 \<Rightarrow> fs \<Rightarrow> hd_i_struct" where
  "bios_drive a s = \<lparr>head = uint (get_pbyte (a + 2) s), sect = uint (get_pbyte (a + 14) s), cyl = uint (get_pshort a s),
     wpcom = uint (get_pshort (a + 5) s), lzone = uint (get_pshort (a + 12) s), ctl = uint (get_pbyte (a + 8) s)\<rparr>"

definition drive_table :: "u32 \<Rightarrow> fs \<Rightarrow> fs" where
  "drive_table BIOS s =
     (let info = (hd_info (hdd s))(0 := bios_drive BIOS s, 1 := bios_drive (BIOS + 16) s);
          n = (if cyl (info 1) \<noteq> 0 then 2 else 1);
          whole = (\<lambda>i. \<lparr>start_sect = 0, nr_sects = s32 (s32 (head (info i) * sect (info i)) * cyl (info i))\<rparr>);
          cmos = inb_val s 0x71;
          m = (if cmos AND 0xf0 \<noteq> 0 then if cmos AND 0x0f \<noteq> 0 then 2 else 1 else 0);
          t1 = fold (\<lambda>i t. t(5 * i := whole i)) [0..<n] (hd_tab (hdd s));
          t2 = fold (\<lambda>i t. t(5 * i := \<lparr>start_sect = 0, nr_sects = 0\<rparr>)) [m..<2] t1
      in upd_hd (\<lambda>d. d\<lparr>hd_info := info, NR_HD := m, hd_tab := t2\<rparr>) (outb 0x92 0x70 s))"

definition read_partitions :: "kenv \<Rightarrow> nat \<Rightarrow> fs \<Rightarrow> (fs, unit) outcome" where
  "read_partitions E drive s =
     bindO (bread E (0x300 + of_nat drive * 5) 0 s) (\<lambda>r s.
     case r of
       None \<Rightarrow> Panic ''''
     | Some b \<Rightarrow>
         let d = b_data (buffers s b) in
         if d 510 \<noteq> 0x55 \<or> d 511 \<noteq> 0xAA then Panic ''''
         else let s = upd_hd (\<lambda>h. h\<lparr>hd_tab := fold (\<lambda>i t. t(i + 5 * drive :=
                        \<lparr>start_sect = sint (get_u32 d (0x1BE + 16 * (i - 1) + 8)), nr_sects = sint (get_u32 d (0x1BE + 16 * (i - 1) + 12))\<rparr>))
                        [1..<5] (hd_tab h)\<rparr>) s
              in brelse E (Some b) s)"

definition sys_setup :: "kenv \<Rightarrow> u32 \<Rightarrow> fs \<Rightarrow> (fs, int) outcome" where
  "sys_setup E BIOS s =
     (if \<not> callable (hdd s) then Ret (- 1) s
      else let s = drive_table BIOS (upd_hd (\<lambda>d. d\<lparr>callable := False\<rparr>) s) in
           bindO (eachO (read_partitions E) [0..<NR_HD (hdd s)] s) (\<lambda>_ s.
           bindO (rd_load E s) (\<lambda>_ s.
           bindO (mount_root E s) (\<lambda>_ s. Ret 0 s))))"

end
