(* ===== verification/Hd_Props.thy ===== *)
theory Hd_Props
  imports Hd Blk_Props
begin

unbundle bit_operations_syntax

text \<open>
  The hard disk driver between interrupts: the state it keeps well-typed, where its commands
  go on the disk, and that a read brings the data of the controller into the buffer.
\<close>

section \<open>What the controller code leaves alone\<close>

text \<open>At most flags, the interrupt routine and the positions of the port streams differ.\<close>

definition hd_only :: "fs \<Rightarrow> fs \<Rightarrow> bool" where
  "hd_only s t \<longleftrightarrow> request_tab t = request_tab s \<and> buffers t = buffers s \<and> current_request t = current_request s \<and> pmem t = pmem s \<and>
     hd_info (hdd t) = hd_info (hdd s) \<and> hd_tab (hdd t) = hd_tab (hdd s) \<and> NR_HD (hdd t) = NR_HD (hdd s) \<and>
     port_in (hdd t) = port_in (hdd s)"

lemma hd_only_refl [simp]: "hd_only s s"
  by (simp add: hd_only_def)

lemma hd_only_trans: "hd_only s t \<Longrightarrow> hd_only t u \<Longrightarrow> hd_only s u"
  by (simp add: hd_only_def)

lemma upd_hd_simps [simp]:
  "hdd (upd_hd f s) = f (hdd s)" "request_tab (upd_hd f s) = request_tab s" "buffers (upd_hd f s) = buffers s"
  "current_request (upd_hd f s) = current_request s" "pmem (upd_hd f s) = pmem s" "ports (upd_hd f s) = ports s"
  by (simp_all add: upd_hd_def)

lemma outb_simps [simp]:
  "hdd (outb v p s) = hdd s" "request_tab (outb v p s) = request_tab s" "buffers (outb v p s) = buffers s"
  "current_request (outb v p s) = current_request s" "pmem (outb v p s) = pmem s" "ports (outb v p s) = ports s @ [(p, v)]"
  for s :: fs
  by (simp_all add: outb_def)

lemma ports_simps [simp]:
  "ports (upd_bh b g s) = ports s" "ports (upd_req c h s) = ports s" "ports (wake_up get s) = ports s" for s :: fs
  by (simp_all add: upd_bh_def upd_req_def wake_up_def upd_task_def)

lemma inb_only:
  "inb p s = (v, t) \<Longrightarrow> hd_only s t \<and> do_hd (hdd t) = do_hd (hdd s) \<and> hd_reset (hdd t) = hd_reset (hdd s) \<and>
     recalibrate (hdd t) = recalibrate (hdd s) \<and> ports t = ports s \<and> v = ucast (port_in (hdd s) p (port_pos (hdd s) p))"
  by (auto simp: inb_def inw_def hd_only_def)

text \<open>Polling keeps all of this.\<close>

definition polled :: "fs \<Rightarrow> fs \<Rightarrow> bool" where
  "polled s t \<longleftrightarrow> hd_only s t \<and> do_hd (hdd t) = do_hd (hdd s) \<and> hd_reset (hdd t) = hd_reset (hdd s) \<and>
     recalibrate (hdd t) = recalibrate (hdd s) \<and> ports t = ports s"

lemma polled_refl [simp]: "polled s s"
  by (simp add: polled_def)

lemma polled_trans: "polled s t \<Longrightarrow> polled t u \<Longrightarrow> polled s u"
  by (auto simp: polled_def intro: hd_only_trans)

lemma inb_polled: "inb p s = (v, t) \<Longrightarrow> polled s t"
  using inb_only by (simp add: polled_def)

lemma snd_inb_polled: "polled s (snd (inb p s))"
  by (cases "inb p s") (simp add: inb_polled)

lemma ready_poll_polled: "ready_poll n s = (r, t) \<Longrightarrow> polled s t"
proof (induction n arbitrary: s)
  case (Suc n)
  obtain v u where u: "inb HD_STATUS s = (v, u)" by force
  then show ?case using Suc inb_polled [OF u] by (auto split: if_splits intro: polled_trans)
qed simp

lemma busy_poll_polled: "polled s (busy_poll n s)"
proof (induction n arbitrary: s)
  case (Suc n)
  obtain v u where u: "inb HD_STATUS s = (v, u)" by force
  then show ?case using Suc [of u] inb_polled [OF u] by (auto intro: polled_trans)
qed simp

lemma drq_poll_polled: "drq_poll n s = (r, t) \<Longrightarrow> polled s t"
proof (induction n arbitrary: s)
  case (Suc n)
  obtain v u where u: "inb HD_STATUS s = (v, u)" by force
  then show ?case using Suc inb_polled [OF u] by (auto split: if_splits intro: polled_trans)
qed simp

lemma win_result_polled: "win_result s = (b, t) \<Longrightarrow> polled s t"
  using inb_polled [of HD_STATUS s] polled_trans [OF _ snd_inb_polled]
  by (auto simp: win_result_def split: prod.splits if_splits)

text \<open>A command: the registers it writes and the routine its interrupt will call.\<close>

definition registers :: "hd_i_struct \<Rightarrow> u32 \<Rightarrow> u32 \<Rightarrow> u32 \<Rightarrow> u32 \<Rightarrow> u32 \<Rightarrow> u8 \<Rightarrow> (u16 \<times> u8) list" where
  "registers i drive nsect sec hed cy cmd =
     [(HD_CMD, of_int (ctl i)), (0x1f1, of_int (wpcom i div 4)), (0x1f2, ucast nsect), (0x1f3, ucast sec), (0x1f4, ucast cy),
      (0x1f5, ucast (drop_bit 8 cy)), (0x1f6, ucast (0xA0 OR push_bit 4 drive OR hed)), (0x1f7, cmd)]"

lemma hd_out_cases:
  assumes "drive \<le> 1" "hed \<le> 15"
  shows "hd_out drive nsect sec hed cy cmd h s = Panic ''HD controller not ready'' \<or>
    (\<exists>t. hd_out drive nsect sec hed cy cmd h s = Ret () t \<and> hd_only s t \<and> do_hd (hdd t) = h \<and>
       hd_reset (hdd t) = hd_reset (hdd s) \<and> recalibrate (hdd t) = recalibrate (hdd s) \<and>
       ports t = ports s @ registers (hd_info (hdd s) (unat drive)) drive nsect sec hed cy cmd)"
proof -
  obtain r u where u: "ready_poll 10000 s = (r, u)" by force
  then show ?thesis
    using ready_poll_polled [OF u] assms
    by (auto simp: hd_out_def controller_ready_def registers_def Let_def hd_only_def polled_def simp del: ready_poll.simps)
qed

lemma reset_controller_only: "hd_only s (reset_controller s)"
proof -
  have "polled u v" if "drive_busy u = (b, v)" for u b v
    using that inb_polled busy_poll_polled [of u 10000]
    by (auto simp: drive_busy_def Let_def split: prod.splits if_splits intro: polled_trans simp del: busy_poll.simps)
  then show ?thesis
    using inb_polled by (auto simp: reset_controller_def Let_def polled_def hd_only_def split: prod.splits simp del: busy_poll.simps)
qed


section \<open>The state between interrupts\<close>

text \<open>Two drives at most, with a geometry the registers can hold, and partitions inside their disk.\<close>

definition disks_ok :: "hd_driver \<Rightarrow> bool" where
  "disks_ok d \<longleftrightarrow> NR_HD d \<le> 2 \<and>
     (\<forall>k<NR_HD d. let i = hd_info d k in 0 < sect i \<and> sect i < 256 \<and> 0 < head i \<and> head i \<le> 16 \<and> 0 < cyl i \<and> cyl i < 65536) \<and>
     (\<forall>m<5 * NR_HD d. let i = hd_info d (m div 5); p = hd_tab d m in
        0 \<le> start_sect p \<and> 0 \<le> nr_sects p \<and> start_sect p + nr_sects p \<le> head i * sect i * cyl i)"

text \<open>A request for two sectors, the second of which may be still to do.\<close>

definition hd_req_ok :: "fs \<Rightarrow> nat \<Rightarrow> bool" where
  "hd_req_ok s c \<longleftrightarrow>
     (let r = request_tab s c in
      0 \<le> r_dev r \<and> MAJOR (of_int (r_dev r)) = 3 \<and> (r_cmd r = READ \<or> r_cmd r = WRITE) \<and> 0 \<le> r_errors r \<and> r_errors r < MAX_ERRORS \<and>
      (\<exists>b. r_bh r = Some b \<and> b_lock (buffers s b) \<noteq> 0 \<and>
         (r_nr_sectors r = 2 \<and> r_buffer r = (b, 0) \<or> r_nr_sectors r = 1 \<and> r_buffer r = (b, 512))))"

definition hd_queue_ok :: "nat list \<Rightarrow> fs \<Rightarrow> bool" where
  "hd_queue_ok cs s \<longleftrightarrow> linked s (current_request s 3) cs \<and> distinct cs \<and> set cs \<subseteq> {..<NR_REQUEST} \<and> distinct (map (\<lambda>c. r_bh (request_tab s c)) cs) \<and>
     (\<forall>c\<in>set cs. hd_req_ok s c)"

text \<open>The routine of the next interrupt fits the request in service, and there is one as long as there are requests.\<close>

definition handler_ok :: "fs \<Rightarrow> bool" where
  "handler_ok s \<longleftrightarrow>
     (case current_request s 3 of
        None \<Rightarrow> do_hd (hdd s) = no_handler
      | Some c \<Rightarrow> do_hd (hdd s) = recal_intr_handler \<or>
                  do_hd (hdd s) = (if r_cmd (request_tab s c) = READ then read_intr_handler else write_intr_handler))"

definition hd_ok :: "fs \<Rightarrow> bool" where
  "hd_ok s \<longleftrightarrow> disks_ok (hdd s) \<and> (\<exists>cs. hd_queue_ok cs s) \<and> handler_ok s"

text \<open>
  What may be left behind instead when a write is given up: an empty queue, and the routine of the write that never
  came to be.
\<close>

definition hd_stale :: "fs \<Rightarrow> bool" where
  "hd_stale s \<longleftrightarrow> disks_ok (hdd s) \<and> current_request s 3 = None \<and> do_hd (hdd s) = write_intr_handler"

definition settles :: "(fs, 'a) outcome \<Rightarrow> bool" where
  "settles m \<longleftrightarrow> (\<exists>a t. m = Ret a t \<and> (hd_ok t \<or> hd_stale t)) \<or> m = Panic ''HD controller not ready''"

lemma disks_ok_only: "hd_only s t \<Longrightarrow> disks_ok (hdd t) = disks_ok (hdd s)"
  by (simp add: hd_only_def disks_ok_def)

lemma queue_only: "hd_only s t \<Longrightarrow> hd_queue_ok cs t = hd_queue_ok cs s"
  using linked_cong [of cs t s] by (simp add: hd_only_def hd_queue_ok_def hd_req_ok_def)

text \<open>The end of the request in service.\<close>

lemma end_hd_queue:
  assumes ln: "linked s (current_request s 3) (c # cs)" and nr: "set cs \<subseteq> {..<NR_REQUEST}" and ds: "distinct (c # cs)" "distinct (map (\<lambda>c. r_bh (request_tab s c)) (c # cs))"
    and ok: "\<And>x. x \<in> set cs \<Longrightarrow> hd_req_ok s x" and b: "r_bh (request_tab s c) = Some b"
  shows "\<exists>t. end_hd u s = Ret () t \<and> hd_queue_ok cs t \<and> hdd t = hdd s \<and> ports t = ports s \<and>
    (\<forall>x\<in>set cs. request_tab t x = request_tab s x) \<and> r_dev (request_tab t c) = - 1 \<and>
    buffers t = (buffers s)(b := (buffers s b)\<lparr>b_uptodate := u, b_lock := 0\<rparr>)"
proof -
  have cr: "current_request s 3 = Some c" and ls: "linked s (r_next (request_tab s c)) cs" and cn: "c \<notin> set cs"
    using ln ds by auto
  define t where "t = (let s1 = wake_up wait_for_request (wake_up (\<lambda>s. r_waiting (request_tab s c)) (unlock_buffer b (upd_bh b (\<lambda>h. h\<lparr>b_uptodate := u\<rparr>) s)));
      s4 = upd_req c (\<lambda>r. r\<lparr>r_dev := - 1\<rparr>) s1
    in s4\<lparr>current_request := (current_request s4)(3 := r_next (request_tab s4 c))\<rparr>)"
  have e: "end_hd u s = Ret () t" using cr b by (simp add: end_hd_def end_request_def t_def Let_def unlock_buffer_def)
  have f: "request_tab t = (request_tab s)(c := (request_tab s c)\<lparr>r_dev := - 1\<rparr>)" "hdd t = hdd s" "ports t = ports s"
    "buffers t = (buffers s)(b := (buffers s b)\<lparr>b_uptodate := u, b_lock := 0\<rparr>)" "current_request t 3 = r_next (request_tab s c)"
    by (simp_all add: t_def Let_def unlock_buffer_def)
  have nb: "r_bh (request_tab s x) \<noteq> Some b" if "x \<in> set cs" for x using ds b that by force
  have "hd_req_ok t x" if x: "x \<in> set cs" for x
  proof -
    have "hd_req_ok s x" "x \<noteq> c" using ok x cn by auto
    then show ?thesis using nb [OF x] f(1,4) by (fastforce simp: hd_req_ok_def Let_def)
  qed
  moreover have "linked t (current_request t 3) cs"
    using ls cn f(1) by (subst linked_cong [of cs t s]) (auto simp: f(5))
  moreover have "map (\<lambda>c. r_bh (request_tab t c)) cs = map (\<lambda>c. r_bh (request_tab s c)) cs" using f(1) by simp
  then have "distinct (map (\<lambda>c. r_bh (request_tab t c)) cs)" using ds(2) by (simp only: list.map distinct.simps)
  ultimately have "hd_queue_ok cs t" using ds(1) nr unfolding hd_queue_ok_def by simp
  then show ?thesis using e f cn b by (intro exI [of _ t]) auto
qed

text \<open>How much the requests of a queue may still fail.\<close>

definition patience :: "nat list \<Rightarrow> fs \<Rightarrow> nat" where
  "patience cs s = (\<Sum>c\<leftarrow>cs. nat (8 - r_errors (request_tab s c)))"

lemma bad_rw_intr_queue:
  assumes q: "hd_queue_ok (c # cs) s" and d: "disks_ok (hdd s)"
  shows "\<exists>t ds. bad_rw_intr s = Ret () t \<and> hd_queue_ok ds t \<and> disks_ok (hdd t) \<and> patience ds t < patience (c # cs) s \<and>
    do_hd (hdd t) = do_hd (hdd s) \<and> ports t = ports s"
proof -
  let ?r = "request_tab s c"
  have cr: "current_request s 3 = Some c" using q by (auto simp: hd_queue_ok_def)
  have er: "0 \<le> r_errors ?r" "r_errors ?r < MAX_ERRORS" using q by (auto simp: hd_queue_ok_def hd_req_ok_def Let_def)
  define s1 where "s1 = upd_req c (\<lambda>r. r\<lparr>r_errors := s32 (r_errors r + 1)\<rparr>) s"
  have e1: "r_errors (request_tab s1 c) = r_errors ?r + 1" using er by (simp add: s1_def s32_small)
  have rq: "hd_req_ok s1 x \<or> x = c \<and> r_errors ?r = 6" if "x \<in> set (c # cs)" for x
    using q er that e1 by (auto simp: hd_queue_ok_def hd_req_ok_def Let_def s1_def)
  have ln: "linked s1 (current_request s1 3) (c # cs)"
    using q by (subst linked_cong [of "c # cs" s1 s]) (auto simp: s1_def hd_queue_ok_def)
  have ds: "distinct (map (\<lambda>c. r_bh (request_tab s1 c)) (c # cs))"
  proof -
    have "map (\<lambda>c. r_bh (request_tab s1 c)) (c # cs) = map (\<lambda>c. r_bh (request_tab s c)) (c # cs)" by (simp add: s1_def)
    then show ?thesis using q by (simp only: hd_queue_ok_def)
  qed
  have fin: "\<exists>t. Ret () (if e > MAX_ERRORS div 2 then upd_hd (\<lambda>d. d\<lparr>hd_reset := True\<rparr>) u else u) = Ret () t \<and> hd_queue_ok xs t \<and>
      disks_ok (hdd t) \<and> patience xs t = patience xs u \<and> do_hd (hdd t) = do_hd (hdd u) \<and> ports t = ports u"
    if "hd_queue_ok xs u" "disks_ok (hdd u)" for u xs e
    using that queue_only [of u "upd_hd (\<lambda>d. d\<lparr>hd_reset := True\<rparr>) u" xs]
    by (auto simp: hd_only_def disks_ok_def patience_def)
  have cn: "c \<notin> set cs" "distinct cs" and nr: "set (c # cs) \<subseteq> {..<NR_REQUEST}" using q by (simp_all add: hd_queue_ok_def)
  show ?thesis
  proof (cases "r_errors ?r = 6")
    case False
    then have q1: "hd_queue_ok (c # cs) s1" using rq ln ds cn nr by (auto simp: hd_queue_ok_def)
    have b: "bad_rw_intr s = Ret () (if r_errors ?r + 1 > MAX_ERRORS div 2 then upd_hd (\<lambda>d. d\<lparr>hd_reset := True\<rparr>) s1 else s1)"
      using cr er e1 False by (auto simp: bad_rw_intr_def s1_def Let_def)
    have p: "patience (c # cs) s1 < patience (c # cs) s"
    proof -
      have "(\<Sum>x\<leftarrow>cs. nat (8 - r_errors (request_tab s1 x))) = (\<Sum>x\<leftarrow>cs. nat (8 - r_errors (request_tab s x)))"
        using cn by (intro arg_cong [where f = sum_list] map_cong) (auto simp: s1_def)
      then show ?thesis using e1 er by (simp add: patience_def)
    qed
    have h1: "hdd s1 = hdd s" "ports s1 = ports s" by (simp_all add: s1_def)
    obtain t where "bad_rw_intr s = Ret () t" "hd_queue_ok (c # cs) t" "disks_ok (hdd t)" "patience (c # cs) t = patience (c # cs) s1"
      "do_hd (hdd t) = do_hd (hdd s1)" "ports t = ports s1" using fin [OF q1, of "r_errors ?r + 1"] d b h1 by auto
    then show ?thesis using p h1 by (intro exI [of _ t] exI [of _ "c # cs"]) simp
  next
    case True
    obtain b where b: "r_bh (request_tab s1 c) = Some b" using q by (auto simp: hd_queue_ok_def hd_req_ok_def Let_def s1_def)
    have "hd_req_ok s1 x" if "x \<in> set cs" for x using rq [of x] that cn by auto
    then obtain s2 where s2: "end_hd 0 s1 = Ret () s2" "hd_queue_ok cs s2" "hdd s2 = hdd s" "\<forall>x\<in>set cs. request_tab s2 x = request_tab s x"
      "ports s2 = ports s"
      using end_hd_queue [OF ln _ _ ds _ b, of 0] cn nr by (auto simp: s1_def)
    define e where "e = (case current_request s2 3 of Some c \<Rightarrow> r_errors (request_tab s2 c) | None \<Rightarrow> sint (pmem s2 8))"
    have bd: "bad_rw_intr s = Ret () (if e > MAX_ERRORS div 2 then upd_hd (\<lambda>d. d\<lparr>hd_reset := True\<rparr>) s2 else s2)"
      using cr e1 True s2(1) by (simp add: bad_rw_intr_def s1_def [symmetric] Let_def e_def)
    have "(\<Sum>x\<leftarrow>cs. nat (8 - r_errors (request_tab s2 x))) = (\<Sum>x\<leftarrow>cs. nat (8 - r_errors (request_tab s x)))"
      using s2(4) by (intro arg_cong [where f = sum_list] map_cong) auto
    then have "patience cs s2 < patience (c # cs) s" using True by (simp add: patience_def)
    moreover obtain t where "bad_rw_intr s = Ret () t" "hd_queue_ok cs t" "disks_ok (hdd t)" "patience cs t = patience cs s2"
      "do_hd (hdd t) = do_hd (hdd s2)" "ports t = ports s2" using fin [OF s2(2), of e] d bd s2(3) by auto
    ultimately show ?thesis using s2(3,5) by (intro exI [of _ t] exI [of _ cs]) simp
  qed
qed


section \<open>The strategy routine\<close>

lemma unat_of_int_small: "0 \<le> k \<Longrightarrow> k < 2 ^ 32 \<Longrightarrow> unat (of_int k :: u32) = nat k"
  by (simp add: unsigned_of_int take_bit_int_eq_self)

lemma chs_fits:
  assumes i: "0 < sect i" "sect i < 256" "0 < head i" "head i \<le> 16"
  shows "\<exists>sec hed cy. chs block i = Some (sec, hed, cy) \<and> hed \<le> 15 \<and>
    unat sec = unat block mod nat (sect i) + 1 \<and> unat hed = unat block div nat (sect i) mod nat (head i) \<and>
    unat cy = unat block div nat (sect i) div nat (head i)"
proof -
  define st hs :: u32 where "st = of_int (sect i)" and "hs = of_int (head i)"
  have u: "unat st = nat (sect i)" "unat hs = nat (head i)" using i by (simp_all add: st_def hs_def unat_of_int_small)
  then have nz: "st \<noteq> 0" "hs \<noteq> 0" using i by (auto simp: unat_eq_0 [symmetric] simp del: unat_eq_0)
  have h: "unat (block div st mod hs) = unat block div nat (sect i) mod nat (head i)" by (simp add: unat_mod unat_div u)
  also have "\<dots> < nat (head i)" using i by simp
  finally have "block div st mod hs \<le> 15" using i by (simp add: word_le_nat_alt)
  moreover have "unat (block mod st + 1) = unat block mod nat (sect i) + 1"
  proof -
    have "unat block mod nat (sect i) < nat (sect i)" using i by simp
    then have "unat block mod nat (sect i) < 256" using i by linarith
    then show ?thesis by (subst unat_add_lem [THEN iffD1]) (simp_all add: unat_mod u)
  qed
  ultimately show ?thesis using nz h by (auto simp: chs_def Let_def st_def [symmetric] hs_def [symmetric] unat_mod unat_div u)
qed

lemma drive_bound:
  assumes "disks_ok d" "\<not> dev \<ge> of_nat (5 * NR_HD d)"
  shows "unat dev < 5 * NR_HD d" "unat (dev div 5) < NR_HD d" "dev div 5 \<le> (1 :: u32)" "unat (dev div 5) = unat dev div 5"
proof -
  have n: "NR_HD d \<le> 2" using assms by (simp add: disks_ok_def)
  have "unat (of_nat (5 * NR_HD d) :: u32) = 5 * NR_HD d" using n by (simp add: unat_of_nat take_bit_nat_eq_self del: of_nat_mult)
  then show a: "unat dev < 5 * NR_HD d" using assms(2) by (simp add: not_le word_less_nat_alt del: of_nat_mult)
  show q: "unat (dev div 5) = unat dev div 5" by (simp add: unat_div)
  then show b: "unat (dev div 5) < NR_HD d" using a by linarith
  then show "dev div 5 \<le> 1" using n by (simp add: word_le_nat_alt)
qed


text \<open>What the loop of \<open>do_hd_request\<close> keeps: a routine is left from an interrupt that cannot come, or from a write given up.\<close>

definition between :: "nat list \<Rightarrow> fs \<Rightarrow> bool" where
  "between cs s \<longleftrightarrow> disks_ok (hdd s) \<and> hd_queue_ok cs s \<and> (do_hd (hdd s) = no_handler \<or> do_hd (hdd s) = write_intr_handler)"

definition hd_step :: "nat list \<Rightarrow> fs \<Rightarrow> (fs, unit + unit) outcome \<Rightarrow> bool" where
  "hd_step cs s m \<longleftrightarrow> m = Panic ''HD controller not ready'' \<or> (\<exists>t. m = Ret (Inr ()) t \<and> (hd_ok t \<or> hd_stale t)) \<or>
     (\<exists>t ds. m = Ret (Inl ()) t \<and> between ds t \<and> patience ds t < patience cs s)"

lemma hd_ok_started:
  assumes "disks_ok (hdd s)" "hd_queue_ok (c # cs) s" "hd_only s t"
    and "do_hd (hdd t) = recal_intr_handler \<or> do_hd (hdd t) = (if r_cmd (request_tab s c) = READ then read_intr_handler else write_intr_handler)"
  shows "hd_ok t"
proof -
  have "current_request t 3 = Some c" "request_tab t = request_tab s" using assms(2,3) by (auto simp: hd_queue_ok_def hd_only_def)
  then have "handler_ok t" using assms(4) by (auto simp: handler_ok_def)
  then show ?thesis using assms(1-3) disks_ok_only queue_only unfolding hd_ok_def by blast
qed

lemma hd_out_step:
  assumes "drive \<le> 1" "hed \<le> 15" "disks_ok (hdd s)" "hd_queue_ok (c # cs) s"
    and "hd_only s u" "h = recal_intr_handler \<or> h = (if r_cmd (request_tab s c) = READ then read_intr_handler else write_intr_handler)"
  shows "hd_step xs x (bindO (hd_out drive nsect sec hed cy cmd h u) (\<lambda>_ s. Ret (Inr ()) s))"
  using hd_out_cases [OF assms(1,2), of nsect sec cy cmd h u]
proof (elim disjE exE conjE)
  fix t assume t: "hd_out drive nsect sec hed cy cmd h u = Ret () t" "hd_only u t" "do_hd (hdd t) = h"
  have "hd_ok t" by (rule hd_ok_started [OF assms(3,4) hd_only_trans [OF assms(5) t(2)]]) (use t(3) assms(6) in simp)
  then show ?thesis using t(1) by (simp add: hd_step_def)
qed (simp add: hd_step_def)

lemma reset_hd_step:
  assumes d: "disks_ok (hdd s)" "hd_queue_ok (c # cs) s" "hd_only s u" and k: "unat nr < NR_HD (hdd s)" "nr \<le> 1"
  shows "hd_step xs x (bindO (reset_hd nr u) (\<lambda>_ s. Ret (Inr ()) s))"
proof -
  let ?i = "hd_info (hdd (reset_controller u)) (unat nr)"
  have o: "hd_only s (reset_controller u)" by (rule hd_only_trans [OF d(3) reset_controller_only])
  then have "?i = hd_info (hdd s) (unat nr)" by (simp add: hd_only_def)
  then have "0 < head ?i" "head ?i \<le> 16" using d(1) k(1) by (simp_all add: disks_ok_def Let_def)
  then have "of_int (head ?i - 1) \<le> (15 :: u32)" by (simp add: word_le_nat_alt unat_of_int_small del: of_int_diff)
  then show ?thesis unfolding reset_hd_def Let_def by (intro hd_out_step [OF k(2) _ d(1,2) o]) simp_all
qed

lemma write_step:
  assumes d: "disks_ok (hdd s)" "hd_queue_ok (c # cs) s" and k: "dev \<le> 1" "hed \<le> 15" and w: "r_cmd (request_tab s c) = WRITE"
  shows "hd_step (c # cs) s (bindO (hd_out dev nsect sec hed cy WIN_WRITE write_intr_handler s) (\<lambda>_ s.
           case drq_poll 3000 s of
             (ready, s) \<Rightarrow>
               if \<not> ready then bindO (bad_rw_intr s) (\<lambda>_ s. Ret (Inl ()) s)
               else bindO (port_write HD_DATA (r_buffer (request_tab s c)) s) (\<lambda>_ s. Ret (Inr ()) s)))"
  using hd_out_cases [OF k, of nsect sec cy WIN_WRITE write_intr_handler s]
proof (elim disjE exE conjE)
  fix t assume t: "hd_out dev nsect sec hed cy WIN_WRITE write_intr_handler s = Ret () t" "hd_only s t" "do_hd (hdd t) = write_intr_handler"
  obtain r u where u: "drq_poll 3000 t = (r, u)" by force
  then have p: "hd_only s u" "do_hd (hdd u) = write_intr_handler"
    using drq_poll_polled [OF u] t(2,3) by (auto simp: polled_def intro: hd_only_trans)
  have q: "hd_queue_ok (c # cs) u" "disks_ok (hdd u)" using d p(1) queue_only disks_ok_only by blast+
  have pt: "patience (c # cs) u = patience (c # cs) s" using p(1) by (simp add: patience_def hd_only_def)
  show ?thesis
  proof (cases r)
    case True
    have "hd_ok u" by (rule hd_ok_started [OF d p(1)]) (simp add: p(2) w)
    define v where "v = u\<lparr>ports := ports u @ map (\<lambda>i. (HD_DATA, b_data (buffers u (fst (r_buffer (request_tab u c)))) (snd (r_buffer (request_tab u c)) + i))) [0..<512]\<rparr>"
    have "snd (r_buffer (request_tab u c)) + 512 \<le> BLOCK_SIZE" using q(1) by (auto simp: hd_queue_ok_def hd_req_ok_def Let_def)
    then have "port_write HD_DATA (r_buffer (request_tab u c)) u = Ret () v" by (simp add: port_write_def v_def)
    moreover have "hd_ok v"
      by (rule hd_ok_started [OF d, of v]) (use p w in \<open>simp_all add: v_def hd_only_def\<close>)
    ultimately show ?thesis using t(1) u True by (simp add: hd_step_def del: drq_poll.simps)
  next
    case False
    obtain v ds where v: "bad_rw_intr u = Ret () v" "hd_queue_ok ds v" "disks_ok (hdd v)" "patience ds v < patience (c # cs) u"
      "do_hd (hdd v) = do_hd (hdd u)" using bad_rw_intr_queue [OF q] by blast
    then have "between ds v" "patience ds v < patience (c # cs) s" using p(2) pt by (simp_all add: between_def)
    then show ?thesis using t(1) u False v(1) by (auto simp: hd_step_def simp del: drq_poll.simps)
  qed
qed (simp add: hd_step_def)


lemma start_command_step:
  assumes d: "disks_ok (hdd s)" "hd_queue_ok (c # cs) s" and k: "dev \<le> 1" "hed \<le> 15"
    and m: "dev = MINOR (of_int (r_dev (request_tab s c))) div 5" "unat dev < NR_HD (hdd s)"
  shows "hd_step (c # cs) s (start_command c dev sec hed cy s)"
proof -
  have c: "r_cmd (request_tab s c) = READ \<or> r_cmd (request_tab s c) = WRITE"
    using d(2) by (auto simp: hd_queue_ok_def hd_req_ok_def Let_def)
  have up: "hd_only s (upd_hd f s)" if "f = (\<lambda>d. d\<lparr>hd_reset := False, recalibrate := True\<rparr>) \<or> f = (\<lambda>d. d\<lparr>recalibrate := False\<rparr>)" for f
    using that by (auto simp: hd_only_def)
  show ?thesis
    unfolding start_command_def Let_def m(1) [symmetric]
    using c write_step [OF d k] reset_hd_step [OF d up m(2) k(1)] hd_out_step [OF k(1) _ d up]
      hd_out_step [OF k d hd_only_refl, of read_intr_handler]
    by (auto simp del: drq_poll.simps)
qed

lemma hd_round_step:
  assumes b: "between cs s"
  shows "hd_step cs s (hd_round () s)"
proof (cases cs)
  case Nil
  then have "current_request s 3 = None" using b by (auto simp: between_def hd_queue_ok_def)
  then show ?thesis using b Nil by (auto simp: hd_round_def INIT_REQUEST_def hd_step_def hd_ok_def hd_stale_def between_def handler_ok_def)
next
  case (Cons c ds)
  have q: "hd_queue_ok (c # ds) s" and d: "disks_ok (hdd s)" using b Cons by (simp_all add: between_def)
  have ini: "INIT_REQUEST 3 s = Ret (Some c) s" using q by (auto simp: hd_queue_ok_def hd_req_ok_def INIT_REQUEST_def Let_def)
  let ?r = "request_tab s c"
  let ?dev = "MINOR (of_int (r_dev ?r))"
  let ?p = "hd_tab (hdd s) (unat ?dev)"
  show ?thesis
  proof (cases "?dev \<ge> of_nat (5 * NR_HD (hdd s)) \<or> r_sector ?r + 2 > of_int (nr_sects ?p)")
    case True
    obtain b where rb: "r_bh ?r = Some b" using q by (auto simp: hd_queue_ok_def hd_req_ok_def Let_def)
    obtain t where t: "end_hd 0 s = Ret () t" "hd_queue_ok ds t" "hdd t = hdd s" "\<forall>x\<in>set ds. request_tab t x = request_tab s x"
      using end_hd_queue [OF _ _ _ _ _ rb, of ds 0] q unfolding hd_queue_ok_def by (auto simp del: distinct.simps)
    have "(\<Sum>x\<leftarrow>ds. nat (8 - r_errors (request_tab t x))) = (\<Sum>x\<leftarrow>ds. nat (8 - r_errors (request_tab s x)))"
      using t(4) by (intro arg_cong [where f = sum_list] map_cong) auto
    moreover have "r_errors ?r < 7" using q by (simp add: hd_queue_ok_def hd_req_ok_def Let_def)
    ultimately have "patience ds t < patience cs s" by (simp add: patience_def Cons)
    moreover have "between ds t" using t(2,3) b by (simp add: between_def)
    moreover have "hd_round () s = Ret (Inl ()) t" using True ini t(1) unfolding hd_round_def by (simp add: Let_def)
    ultimately show ?thesis by (auto simp: hd_step_def)
  next
    case False
    note k = drive_bound [OF d, of ?dev]
    let ?i = "hd_info (hdd s) (unat (?dev div 5))"
    have "0 < sect ?i" "sect ?i < 256" "0 < head ?i" "head ?i \<le> 16" using k False d by (simp_all add: disks_ok_def Let_def)
    from chs_fits [OF this, of "r_sector ?r + of_int (start_sect ?p)"] obtain sec hed cy
      where x: "chs (r_sector ?r + of_int (start_sect ?p)) ?i = Some (sec, hed, cy)" "hed \<le> 15" by blast
    have "hd_round () s = start_command c (?dev div 5) sec hed cy s" using False ini x(1) unfolding hd_round_def by (simp add: Let_def)
    then show ?thesis using start_command_step [OF d q _ x(2), of "?dev div 5"] k False Cons by simp
  qed
qed

lemma do_hd_request_settles: "between cs s \<Longrightarrow> settles (do_hd_request s)"
proof (induction "patience cs s" arbitrary: cs s rule: less_induct)
  case less
  show ?case
    using hd_round_step [OF less.prems] unfolding hd_step_def do_hd_request_def
  proof (elim disjE exE conjE)
    fix t ds assume t: "hd_round () s = Ret (Inl ()) t" "between ds t" "patience ds t < patience cs s"
    show "settles (loopO hd_round () s)"
      using less.hyps [OF t(3,2)] loopO_again [of hd_round "()" s, OF t(1)] unfolding do_hd_request_def by simp
  qed (simp_all add: settles_def loopO_unfold)
qed


section \<open>Interrupts\<close>

lemma bad_interrupt:
  assumes "hd_queue_ok (c # cs) s" "disks_ok (hdd s)" "do_hd (hdd s) = no_handler"
  shows "settles (bindO (bad_rw_intr s) (\<lambda>_ s. do_hd_request s))"
proof -
  obtain t ds where "bad_rw_intr s = Ret () t" "between ds t"
    using bad_rw_intr_queue [OF assms(1,2)] assms(3) by (auto simp: between_def)
  then show ?thesis using do_hd_request_settles by simp
qed

lemma request_ends:
  assumes q: "hd_queue_ok (c # cs) s" and t: "current_request t = current_request s" "request_tab t = (request_tab s)(c := r)"
      "r_bh r = r_bh (request_tab s c)" "r_next r = r_next (request_tab s c)" "\<And>b. b_lock (buffers t b) = b_lock (buffers s b)"
  shows "\<exists>v b. end_hd u t = Ret () v \<and> hd_queue_ok cs v \<and> hdd v = hdd t \<and> r_dev (request_tab v c) = - 1 \<and> r_bh (request_tab s c) = Some b \<and>
    buffers v = (buffers t)(b := (buffers t b)\<lparr>b_uptodate := u, b_lock := 0\<rparr>)"
proof -
  obtain b where b: "r_bh (request_tab s c) = Some b" using q by (auto simp: hd_queue_ok_def hd_req_ok_def Let_def)
  then have rb: "r_bh (request_tab t c) = Some b" using t by simp
  have cn: "c \<notin> set cs" using q by (simp add: hd_queue_ok_def)
  have "map (\<lambda>c. r_bh (request_tab t c)) (c # cs) = map (\<lambda>c. r_bh (request_tab s c)) (c # cs)" using t cn by simp
  then have ds: "distinct (map (\<lambda>c. r_bh (request_tab t c)) (c # cs))" using q by (simp only: hd_queue_ok_def)
  have ln: "linked t (current_request t 3) (c # cs)"
    using q t by (subst linked_cong [of "c # cs" t s]) (auto simp: hd_queue_ok_def)
  have ok: "hd_req_ok t x" if "x \<in> set cs" for x
  proof -
    have "request_tab t x = request_tab s x" using that cn t(2) by auto
    then show ?thesis using q t(5) that by (simp add: hd_queue_ok_def hd_req_ok_def)
  qed
  have nr: "set cs \<subseteq> {..<NR_REQUEST}" "distinct (c # cs)" using q by (simp_all add: hd_queue_ok_def)
  show ?thesis using end_hd_queue [OF ln nr ds ok rb, of u] b by blast
qed

lemma request_done:
  assumes "hd_queue_ok (c # cs) s" "disks_ok (hdd s)" "do_hd (hdd s) = no_handler"
    and t: "current_request t = current_request s" "request_tab t = (request_tab s)(c := r)" "r_bh r = r_bh (request_tab s c)"
      "r_next r = r_next (request_tab s c)" "\<And>b. b_lock (buffers t b) = b_lock (buffers s b)" "hdd t = (hdd s)\<lparr>port_pos := p\<rparr>"
  shows "settles (bindO (end_hd u t) (\<lambda>_ s. do_hd_request s))"
proof -
  obtain v where "end_hd u t = Ret () v" "hd_queue_ok cs v" "hdd v = hdd t" using request_ends [OF assms(1) t(1-5), of u] by blast
  moreover from this have "between cs v" using assms(2,3) t(6) by (simp add: between_def disks_ok_def)
  ultimately show ?thesis using do_hd_request_settles by simp
qed

lemma request_continues:
  assumes "hd_queue_ok (c # cs) s" "disks_ok (hdd s)"
    and t: "current_request t = current_request s" "request_tab t = (request_tab s)(c := r)"
      "r_bh r = r_bh (request_tab s c)" "r_next r = r_next (request_tab s c)" "r_dev r = r_dev (request_tab s c)" "r_cmd r = r_cmd (request_tab s c)"
      "0 \<le> r_errors r" "r_errors r < MAX_ERRORS"
      "r_nr_sectors r = 1" "r_buffer r = (the (r_bh r), 512)" "hdd t = (hdd s)\<lparr>port_pos := p, do_hd := h\<rparr>"
      "\<And>b. b_lock (buffers t b) = b_lock (buffers s b)"
    and h: "h = (if r_cmd r = READ then read_intr_handler else write_intr_handler)"
  shows "hd_ok t"
proof -
  have cn: "c \<notin> set cs" using assms(1) by (simp add: hd_queue_ok_def)
  have "map (\<lambda>c. r_bh (request_tab t c)) (c # cs) = map (\<lambda>c. r_bh (request_tab s c)) (c # cs)" using t cn by simp
  then have ds: "distinct (map (\<lambda>c. r_bh (request_tab t c)) (c # cs))" using assms(1) by (simp only: hd_queue_ok_def)
  have ln: "linked t (current_request t 3) (c # cs)"
    using assms(1) t by (subst linked_cong [of "c # cs" t s]) (auto simp: hd_queue_ok_def)
  have "hd_req_ok t x" if "x \<in> set (c # cs)" for x
  proof (cases "x = c")
    case True
    have "hd_req_ok s c" using assms(1) by (simp add: hd_queue_ok_def)
    then show ?thesis using True t by (auto simp: hd_req_ok_def Let_def)
  next
    case False
    then show ?thesis using assms(1) t(2,12) that by (simp add: hd_queue_ok_def hd_req_ok_def)
  qed
  then have "hd_queue_ok (c # cs) t" using ln ds assms(1) by (auto simp: hd_queue_ok_def)
  moreover have "handler_ok t" using ln t(2,11) h by (simp add: handler_ok_def)
  ultimately show ?thesis using assms(2) t(11) by (auto simp: hd_ok_def disks_ok_def)
qed


lemma win_result_queue:
  assumes "hd_queue_ok cs s" "disks_ok (hdd s)" "do_hd (hdd s) = no_handler"
  obtains bad t where "win_result s = (bad, t)" "hd_queue_ok cs t" "disks_ok (hdd t)" "do_hd (hdd t) = no_handler" "request_tab t = request_tab s"
proof -
  obtain bad t where t: "win_result s = (bad, t)" by force
  have p: "polled s t" by (rule win_result_polled [OF t])
  then have o: "hd_only s t" by (simp add: polled_def)
  show thesis
    by (rule that [OF t]) (use assms p o queue_only [OF o] disks_ok_only [OF o] in \<open>simp_all add: polled_def hd_only_def\<close>)
qed

text \<open>A sector comes in: the state behind \<open>--CURRENT->nr_sectors\<close>.\<close>

definition sector_read :: "nat \<Rightarrow> fs \<Rightarrow> fs" where
  "sector_read c s =
     (let off = snd (r_buffer (request_tab s c)) in
      upd_req c (\<lambda>r. r\<lparr>r_errors := 0, r_buffer := (fst (r_buffer r), snd (r_buffer r) + 512),
          r_sector := r_sector r + 1, r_nr_sectors := r_nr_sectors r - 1\<rparr>)
        (upd_hd (\<lambda>d. d\<lparr>port_pos := (port_pos d)(HD_DATA := port_pos d HD_DATA + 256)\<rparr>)
          (upd_bh (fst (r_buffer (request_tab s c))) (\<lambda>h. h\<lparr>b_data := (\<lambda>i. if off \<le> i \<and> i < off + 512
             then ucast (drop_bit (8 * ((i - off) mod 2)) (port_words HD_DATA s ((i - off) div 2))) else b_data h i)\<rparr>) s)))"

lemma read_intr_good:
  assumes "win_result s = (False, t)" "current_request t 3 = Some c" "snd (r_buffer (request_tab t c)) + 512 \<le> BLOCK_SIZE"
  shows "read_intr s = (if r_nr_sectors (request_tab t c) \<noteq> 1 then Ret () (upd_hd (\<lambda>d. d\<lparr>do_hd := read_intr_handler\<rparr>) (sector_read c t))
     else bindO (end_hd 1 (sector_read c t)) (\<lambda>_ s. do_hd_request s))"
  using assms by (simp add: read_intr_def port_read_def sector_read_def Let_def)

lemma sector_read_simps [simp]:
  "current_request (sector_read c s) = current_request s"
  "request_tab (sector_read c s) = (request_tab s)(c := (request_tab s c)\<lparr>r_errors := 0,
     r_buffer := (fst (r_buffer (request_tab s c)), snd (r_buffer (request_tab s c)) + 512),
     r_sector := r_sector (request_tab s c) + 1, r_nr_sectors := r_nr_sectors (request_tab s c) - 1\<rparr>)"
  "hdd (sector_read c s) = (hdd s)\<lparr>port_pos := (port_pos (hdd s))(HD_DATA := port_pos (hdd s) HD_DATA + 256)\<rparr>"
  "b_lock (buffers (sector_read c s) b) = b_lock (buffers s b)"
  by (simp_all add: sector_read_def Let_def)

lemma read_intr_settles:
  assumes q: "hd_queue_ok (c # cs) s" "disks_ok (hdd s)" "do_hd (hdd s) = no_handler" and c: "r_cmd (request_tab s c) = READ"
  shows "settles (read_intr s)"
proof -
  obtain bad t where t: "win_result s = (bad, t)" "hd_queue_ok (c # cs) t" "disks_ok (hdd t)" "do_hd (hdd t) = no_handler" "request_tab t = request_tab s"
    by (rule win_result_queue [OF q])
  let ?r = "request_tab t c"
  have cr: "current_request t 3 = Some c" using t(2) by (simp add: hd_queue_ok_def)
  obtain b where b: "r_bh ?r = Some b" "r_nr_sectors ?r = 2 \<and> r_buffer ?r = (b, 0) \<or> r_nr_sectors ?r = 1 \<and> r_buffer ?r = (b, 512)"
    using t(2) by (auto simp: hd_queue_ok_def hd_req_ok_def Let_def)
  show ?thesis
  proof (cases bad)
    case True
    then show ?thesis using t(1) bad_interrupt [OF t(2-4)] by (simp add: read_intr_def)
  next
    case good: False
    define v where "v = sector_read c t"
    have e: "read_intr s = (if r_nr_sectors ?r \<noteq> 1 then Ret () (upd_hd (\<lambda>d. d\<lparr>do_hd := read_intr_handler\<rparr>) v)
        else bindO (end_hd 1 v) (\<lambda>_ s. do_hd_request s))"
      using read_intr_good [of s t c] t(1) good cr b(2) unfolding v_def by auto
    show ?thesis
    proof (cases "r_nr_sectors ?r = 2")
      case True
      then have "hd_ok (upd_hd (\<lambda>d. d\<lparr>do_hd := read_intr_handler\<rparr>) v)"
        using b by (intro request_continues [OF t(2,3), where r = "request_tab v c" and h = read_intr_handler])
          (use c t(5) in \<open>simp_all add: v_def\<close>)
      then show ?thesis using e True by (simp add: settles_def)
    next
      case False
      have "settles (bindO (end_hd 1 v) (\<lambda>_ s. do_hd_request s))"
        by (rule request_done [OF t(2-4), where r = "request_tab v c"]) (simp_all add: v_def)
      then show ?thesis using e False b(2) by simp
    qed
  qed
qed

lemma write_intr_settles:
  assumes q: "hd_queue_ok (c # cs) s" "disks_ok (hdd s)" "do_hd (hdd s) = no_handler" and c: "r_cmd (request_tab s c) = WRITE"
  shows "settles (write_intr s)"
proof -
  obtain bad t where t: "win_result s = (bad, t)" "hd_queue_ok (c # cs) t" "disks_ok (hdd t)" "do_hd (hdd t) = no_handler" "request_tab t = request_tab s"
    by (rule win_result_queue [OF q])
  let ?r = "request_tab t c"
  have cr: "current_request t 3 = Some c" using t(2) by (simp add: hd_queue_ok_def)
  obtain b where b: "r_bh ?r = Some b" "r_nr_sectors ?r = 2 \<and> r_buffer ?r = (b, 0) \<or> r_nr_sectors ?r = 1 \<and> r_buffer ?r = (b, 512)"
    "0 \<le> r_errors ?r" "r_errors ?r < MAX_ERRORS"
    using t(2) by (auto simp: hd_queue_ok_def hd_req_ok_def Let_def)
  show ?thesis
  proof (cases bad)
    case True
    then show ?thesis using t(1) bad_interrupt [OF t(2-4)] by (simp add: write_intr_def)
  next
    case False
    define v where "v = upd_req c (\<lambda>r. r\<lparr>r_nr_sectors := r_nr_sectors r - 1\<rparr>) t"
    show ?thesis
    proof (cases "r_nr_sectors ?r = 2")
      case True
      then have rb: "r_buffer ?r = (b, 0)" using b(2) by auto
      define w where "w = upd_hd (\<lambda>d. d\<lparr>do_hd := write_intr_handler\<rparr>)
        (upd_req c (\<lambda>r. r\<lparr>r_sector := r_sector r + 1, r_buffer := (fst (r_buffer r), snd (r_buffer r) + 512)\<rparr>) v)"
      define x where "x = w\<lparr>ports := ports w @ map (\<lambda>i. (HD_DATA, b_data (buffers w b) (512 + i))) [0..<512]\<rparr>"
      have wb: "r_buffer (request_tab w c) = (b, 512)" using rb by (simp add: w_def v_def)
      have "hd_ok x"
        by (intro request_continues [OF t(2,3), where r = "?r\<lparr>r_nr_sectors := 1, r_sector := r_sector ?r + 1, r_buffer := (b, 512)\<rparr>"
              and p = "port_pos (hdd t)" and h = write_intr_handler])
          (use b c True rb t(5) in \<open>simp_all add: x_def w_def v_def\<close>)
      moreover have "write_intr s = Ret () x"
        using t(1) False cr True rb wb unfolding write_intr_def by (simp add: v_def [symmetric] w_def [symmetric] Let_def port_write_def x_def) (simp add: v_def)
      ultimately show ?thesis by (simp add: settles_def)
    next
      case nr: False
      have "settles (bindO (end_hd 1 v) (\<lambda>_ s. do_hd_request s))"
        by (rule request_done [OF t(2-4), where r = "?r\<lparr>r_nr_sectors := r_nr_sectors ?r - 1\<rparr>" and p = "port_pos (hdd t)"]) (simp_all add: v_def)
      moreover have "write_intr s = bindO (end_hd 1 v) (\<lambda>_ s. do_hd_request s)"
        using t(1) False cr nr b(2) unfolding write_intr_def by (simp add: v_def)
      ultimately show ?thesis by simp
    qed
  qed
qed


lemma hd_interrupt_settles:
  assumes "hd_ok s"
  shows "settles (hd_interrupt s)"
proof -
  define t where "t = outb 0x20 0x20 (upd_hd (\<lambda>d. d\<lparr>do_hd := no_handler\<rparr>) (outb 0x20 0xA0 s))"
  have o: "hd_only s t" "do_hd (hdd t) = no_handler" by (simp_all add: t_def hd_only_def)
  obtain cs where cs: "hd_queue_ok cs t" "disks_ok (hdd t)" and h: "handler_ok s"
    using assms o(1) queue_only disks_ok_only unfolding hd_ok_def by blast
  show ?thesis
  proof (cases cs)
    case Nil
    then have n: "current_request s 3 = None" using cs(1) o(1) by (simp add: hd_queue_ok_def hd_only_def)
    then have "hd_ok t" using cs o by (auto simp: hd_ok_def handler_ok_def hd_only_def)
    moreover have "hd_interrupt s = Ret () t" using h n by (simp add: hd_interrupt_def handler_ok_def t_def Let_def)
    ultimately show ?thesis by (simp add: settles_def)
  next
    case (Cons c ds)
    have q: "hd_queue_ok (c # ds) t" using cs(1) Cons by simp
    have c: "current_request s 3 = Some c" "r_cmd (request_tab t c) = READ \<or> r_cmd (request_tab t c) = WRITE" "request_tab t = request_tab s"
      using q o(1) by (auto simp: hd_queue_ok_def hd_req_ok_def hd_only_def Let_def)
    have "settles (recal_intr t)"
    proof -
      obtain bad u where u: "win_result t = (bad, u)" "hd_queue_ok (c # ds) u" "disks_ok (hdd u)" "do_hd (hdd u) = no_handler" "request_tab u = request_tab t"
        by (rule win_result_queue [OF q cs(2) o(2)])
      then show ?thesis
        using bad_interrupt [OF u(2-4)] do_hd_request_settles [of "c # ds" u] by (auto simp: recal_intr_def between_def)
    qed
    then show ?thesis
      using h c read_intr_settles [OF q cs(2) o(2)] write_intr_settles [OF q cs(2) o(2)]
      by (auto simp: hd_interrupt_def handler_ok_def t_def [symmetric] Let_def split: if_splits)
  qed
qed

text \<open>The interrupt of a write that was given up finds no request.\<close>

lemma stale_interrupt:
  assumes "hd_stale s"
  shows "\<exists>m. hd_interrupt s = Undefined m"
proof -
  define t where "t = outb 0x20 0x20 (upd_hd (\<lambda>d. d\<lparr>do_hd := no_handler\<rparr>) (outb 0x20 0xA0 s))"
  obtain bad u where u: "win_result t = (bad, u)" by force
  have "current_request u 3 = None" using win_result_polled [OF u] assms by (simp add: polled_def hd_only_def t_def hd_stale_def)
  then show ?thesis using assms u by (cases bad) (simp_all add: hd_interrupt_def hd_stale_def t_def [symmetric] Let_def write_intr_def bad_rw_intr_def)
qed


section \<open>New requests\<close>

text \<open>A free request for a buffer of a hard disk that is locked and not in the queue.\<close>

definition may_submit :: "nat \<Rightarrow> int \<Rightarrow> nat \<Rightarrow> fs \<Rightarrow> bool" where
  "may_submit req rw b s \<longleftrightarrow> req < NR_REQUEST \<and> r_dev (request_tab s req) < 0 \<and> (rw = READ \<or> rw = WRITE) \<and>
     MAJOR (ucast (b_dev (buffers s b))) = (3 :: u32) \<and> b_lock (buffers s b) \<noteq> 0 \<and>
     (\<forall>c<NR_REQUEST. 0 \<le> r_dev (request_tab s c) \<longrightarrow> r_bh (request_tab s c) \<noteq> Some b)"

lemma filled_request:
  assumes "may_submit req rw b s"
  shows "hd_req_ok (fill_request req rw b s) req"
proof -
  have "of_int (uint (b_dev (buffers s b))) = (ucast (b_dev (buffers s b)) :: u32)" by simp
  then show ?thesis using assms by (simp add: may_submit_def fill_request_def hd_req_ok_def Let_def)
qed

lemma add_request_settles:
  assumes E: "k_dev E 3 = do_hd_request" and ok: "hd_ok s \<or> hd_stale s" and m: "may_submit req rw b s"
  shows "settles (add_request E 3 req (fill_request req rw b s))"
proof -
  define f where "f = upd_bh b (\<lambda>h. h\<lparr>b_dirt := 0\<rparr>) (upd_req req (\<lambda>r. r\<lparr>r_next := None\<rparr>) (fill_request req rw b s))"
  have f: "request_tab f = (request_tab s)(req := request_tab (fill_request req rw b s) req)" "hdd f = hdd s" "current_request f = current_request s"
    "b_lock (buffers f x) = b_lock (buffers s x)" for x
    by (simp_all add: f_def fill_request_def)
  have rf: "r_bh (request_tab f req) = Some b" "r_next (request_tab f req) = None" "r_cmd (request_tab f req) = rw"
    by (simp_all add: f_def fill_request_def)
  have rq: "hd_req_ok f req" using filled_request [OF m] f(1,4) by (simp add: hd_req_ok_def f_def fill_request_def Let_def)
  have rn: "req < NR_REQUEST" using m by (simp add: may_submit_def)
  have bf: "r_bh (request_tab (fill_request req rw b s) req) = Some b" by (simp add: fill_request_def)
  obtain cs where q: "hd_queue_ok cs s" and d: "disks_ok (hdd s)"
    using ok by (auto simp: hd_ok_def hd_stale_def hd_queue_ok_def intro: that [of "[]"])
  have free: "req \<notin> set cs" using q m by (auto simp: hd_queue_ok_def hd_req_ok_def may_submit_def Let_def)
  have nb: "r_bh (request_tab s c) \<noteq> Some b" if "c \<in> set cs" for c
    using q m that by (auto simp: hd_queue_ok_def hd_req_ok_def may_submit_def Let_def)
  show ?thesis
  proof (cases cs)
    case Nil
    define t where "t = f\<lparr>current_request := (current_request f)(3 := Some req)\<rparr>"
    have c: "current_request s 3 = None" using q Nil by (simp add: hd_queue_ok_def)
    then have "add_request E 3 req (fill_request req rw b s) = do_hd_request t"
      using E bf f(3) by (simp add: add_request_def t_def f_def Let_def)
    moreover have "between [req] t"
    proof -
      have "hd_queue_ok [req] t" using rq rf rn by (simp add: t_def hd_queue_ok_def hd_req_ok_def Let_def)
      moreover have "do_hd (hdd t) = no_handler \<or> do_hd (hdd t) = write_intr_handler"
        using ok c f(2) by (auto simp: hd_ok_def hd_stale_def handler_ok_def t_def)
      ultimately show ?thesis using d f(2) by (simp add: between_def t_def)
    qed
    ultimately show ?thesis using do_hd_request_settles by simp
  next
    case (Cons c ds)
    have c: "current_request f 3 = Some c" using q Cons f(3) by (simp add: hd_queue_ok_def)
    have hk: "handler_ok s" using ok c f(3) by (auto simp: hd_ok_def hd_stale_def)
    have lf: "linked f (Some c) cs"
      using q c f free by (subst linked_cong [of cs f s]) (auto simp: hd_queue_ok_def)
    have "length cs \<le> NR_REQUEST + 1" using card_queue [of cs NR_REQUEST] q by (simp add: hd_queue_ok_def)
    from elevator_elevate [OF lf this, of req] obtain A p B where
      e: "cs = A @ p # B" "elevator (NR_REQUEST + 1) c req f = Some p" by blast
    define t where "t = upd_req p (\<lambda>r. r\<lparr>r_next := Some req\<rparr>) (upd_req req (\<lambda>r. r\<lparr>r_next := r_next (request_tab f p)\<rparr>) f)"
    have a: "add_request E 3 req (fill_request req rw b s) = Ret () t"
      using bf c e(2) by (simp add: add_request_def f_def [symmetric] t_def Let_def)
    have pr: "p \<noteq> req" using free e(1) by auto
    have lt: "linked t (current_request t 3) (A @ p # req # B)"
      by (rule linked_insert [of f]) (use lf e(1) c q free pr in \<open>auto simp: t_def hd_queue_ok_def\<close>)
    have same: "hd_req_ok t x = hd_req_ok f x" for x by (auto simp: t_def hd_req_ok_def Let_def)
    have fs: "hd_req_ok f x" if "x \<in> set cs" for x
      using q that free f(1,4) by (auto simp: hd_queue_ok_def hd_req_ok_def Let_def)
    have "hd_queue_ok (A @ p # req # B) t"
    proof -
      have bh: "r_bh (request_tab t x) = (if x = req then Some b else r_bh (request_tab s x))" for x
        using rf(1) f(1) by (simp add: t_def)
      have "distinct (A @ p # req # B)" "set (A @ p # req # B) \<subseteq> {..<NR_REQUEST}" using q free e(1) rn by (auto simp: hd_queue_ok_def)
      moreover have "\<forall>x\<in>set (A @ p # req # B). hd_req_ok t x" using same fs rq e(1) by auto
      moreover have "distinct (map (\<lambda>c. r_bh (request_tab t c)) (A @ p # req # B))"
      proof -
        have "inj_on (\<lambda>c. r_bh (request_tab s c)) (set cs)" using q by (simp add: hd_queue_ok_def distinct_map)
        then have "inj_on (\<lambda>c. r_bh (request_tab t c)) (set cs)" using free by (simp add: inj_on_def bh)
        moreover have "Some b \<notin> (\<lambda>c. r_bh (request_tab t c)) ` set cs" using nb free by (auto simp: bh split: if_splits) metis
        ultimately have "inj_on (\<lambda>c. r_bh (request_tab t c)) (insert req (set cs))" using free by (simp add: bh)
        moreover have "set (A @ p # req # B) = insert req (set cs)" using e(1) by auto
        ultimately show ?thesis using \<open>distinct (A @ p # req # B)\<close> by (simp only: distinct_map) 
      qed
      ultimately show ?thesis using lt unfolding hd_queue_ok_def by blast
    qed
    moreover have "handler_ok t"
    proof -
      have "c \<noteq> req" using free Cons by auto
      then have "r_cmd (request_tab t c) = r_cmd (request_tab s c)" "current_request t 3 = current_request s 3" "do_hd (hdd t) = do_hd (hdd s)"
        using f(1-3) by (simp_all add: t_def)
      then show ?thesis using hk c f(3) by (simp add: handler_ok_def)
    qed
    moreover have "disks_ok (hdd t)" using d f(2) by (simp add: t_def)
    ultimately show ?thesis using a unfolding settles_def hd_ok_def by blast
  qed
qed


section \<open>Runs of the driver\<close>

text \<open>
  The driver after its initialisation: requests arrive, interrupts happen, and other code
  changes anything but the driver, the requests and the locks.
\<close>

inductive hd_reach :: "kenv \<Rightarrow> fs \<Rightarrow> bool" for E :: kenv where
  idle: "disks_ok (hdd s) \<Longrightarrow> current_request s 3 = None \<Longrightarrow> do_hd (hdd s) = no_handler \<Longrightarrow> hd_reach E s"
| request: "hd_reach E s \<Longrightarrow> may_submit req rw b s \<Longrightarrow> add_request E 3 req (fill_request req rw b s) = Ret () t \<Longrightarrow> hd_reach E t"
| interrupt: "hd_reach E s \<Longrightarrow> hd_interrupt s = Ret () t \<Longrightarrow> hd_reach E t"
| elsewhere: "hd_reach E s \<Longrightarrow> hdd t = hdd s \<Longrightarrow> request_tab t = request_tab s \<Longrightarrow> current_request t = current_request s \<Longrightarrow>
    (\<And>b. b_lock (buffers s b) \<noteq> 0 \<Longrightarrow> b_lock (buffers t b) \<noteq> 0) \<Longrightarrow> hd_reach E t"

lemma elsewhere_ok:
  assumes "hdd t = hdd s" "request_tab t = request_tab s" "current_request t = current_request s"
    "\<And>b. b_lock (buffers s b) \<noteq> 0 \<Longrightarrow> b_lock (buffers t b) \<noteq> 0" "hd_ok s \<or> hd_stale s"
  shows "hd_ok t \<or> hd_stale t"
proof -
  have "hd_queue_ok cs t" if "hd_queue_ok cs s" for cs
    using that assms(1-4) linked_cong [of cs t s] by (auto simp: hd_queue_ok_def hd_req_ok_def Let_def)
  moreover have "handler_ok t = handler_ok s" by (simp only: handler_ok_def assms(1-3))
  ultimately show ?thesis using assms(1,3,5) by (auto simp: hd_ok_def hd_stale_def)
qed

lemma hd_reach_ok: "hd_reach E s \<Longrightarrow> k_dev E 3 = do_hd_request \<Longrightarrow> hd_ok s \<or> hd_stale s"
proof (induction rule: hd_reach.induct)
  case (idle s)
  then have "hd_queue_ok [] s" by (simp add: hd_queue_ok_def)
  then show ?case using idle by (auto simp: hd_ok_def handler_ok_def)
next
  case (request s req rw b t)
  then show ?case using add_request_settles [of E s req rw b] by (simp add: settles_def)
next
  case (interrupt s t)
  then show ?case using hd_interrupt_settles [of s] stale_interrupt [of s] by (auto simp: settles_def)
next
  case (elsewhere s t)
  then show ?case using elsewhere_ok [of t s] by blast
qed

text \<open>C30: The hard disk driver is type safe between interrupts.  In every state it reaches from its initialisation by
  new requests, interrupts and activity elsewhere, either all is well: the queue is linked without cycles, its requests are read
  or write commands for two sectors of a locked buffer or the second of them, and the routine of the next interrupt is the one of the
  command in service; then an interrupt is served without a null or wild pointer and without looping forever, whatever the
  controller answers, and so is a new request, which leaves the driver in such a state, unless the controller stays busy and the kernel stops with
  the one panic that says so.  Or a write was given up for want of a data request
  and no other is queued: then the routine of the write has been left behind, and an interrupt would follow the null pointer.\<close>

theorem hd_type_safe:
  assumes "hd_reach E s" "k_dev E 3 = do_hd_request"
  shows "(may_submit req rw b s \<longrightarrow> settles (add_request E 3 req (fill_request req rw b s))) \<and>
    (hd_ok s \<and> settles (hd_interrupt s) \<or> hd_stale s \<and> (\<exists>m. hd_interrupt s = Undefined m))"
  using hd_reach_ok [OF assms] add_request_settles [OF assms(2)] hd_interrupt_settles stale_interrupt by blast


definition demo_hd :: fs where
  "demo_hd = (undefined :: fs)\<lparr>current_request := (\<lambda>_. None), request_tab := (\<lambda>_. \<lparr>r_dev = - 1, r_cmd = READ, r_errors = 0,
       r_sector = 0, r_nr_sectors = 0, r_buffer = (0, 0), r_waiting = 0, r_bh = None, r_next = None\<rparr>), ports := [],
     buffers := (\<lambda>b. \<lparr>b_addr = 0, b_data = (\<lambda>_. 0), b_blocknr = 100, b_dev = 0x301, b_uptodate = 0,
       b_dirt = 0, b_count = 1, b_lock = 1, b_wait = 0, b_prev = None, b_next = None, b_prev_free = None, b_next_free = None\<rparr>),
     hdd := \<lparr>callable = False, recalibrate = False, hd_reset = False, NR_HD = 1,
       hd_info = (\<lambda>_. \<lparr>head = 4, sect = 17, cyl = 615, wpcom = 300, lzone = 615, ctl = 8\<rparr>),
       hd_tab = (\<lambda>m. if m = 0 then \<lparr>start_sect = 0, nr_sects = 41820\<rparr> else \<lparr>start_sect = 2, nr_sects = 41818\<rparr>),
       do_hd = no_handler, port_in = (\<lambda>p k. if p = HD_STATUS then 0x50 else of_nat k), port_pos = (\<lambda>_. 0)\<rparr>\<rparr>"

lemma demo_hd_ok: "disks_ok (hdd demo_hd)" "hd_reach E demo_hd"
proof -
  show d: "disks_ok (hdd demo_hd)" by (simp add: demo_hd_def disks_ok_def Let_def)
  show "hd_reach E demo_hd" by (rule hd_reach.idle) (use d in \<open>simp_all add: demo_hd_def\<close>)
qed

theorem hd_type_safe_witness:
  "settles (add_request \<lparr>k_env = \<lambda>_ s. s, k_dev = \<lambda>_. do_hd_request\<rparr> 3 0 (fill_request 0 READ 7 demo_hd)) \<and>
   settles (hd_interrupt demo_hd)"
proof -
  have "may_submit 0 READ 7 demo_hd" by (simp add: may_submit_def demo_hd_def MAJOR_def)
  moreover have "\<not> hd_stale demo_hd" by (simp add: hd_stale_def demo_hd_def)
  ultimately show ?thesis
    using hd_type_safe [OF demo_hd_ok(2), of "\<lparr>k_env = \<lambda>_ s. s, k_dev = \<lambda>_. do_hd_request\<rparr>" 0 READ 7] by simp
qed


section \<open>Where a command goes\<close>

text \<open>The sector the registers of a controller with the geometry \<open>i\<close> stand for, and the drive they select.\<close>

definition reg :: "(u16 \<times> u8) list \<Rightarrow> u16 \<Rightarrow> nat" where
  "reg l p = unat (the (map_of l p))"

definition lba :: "hd_i_struct \<Rightarrow> (u16 \<times> u8) list \<Rightarrow> nat" where
  "lba i l = ((reg l 0x1f5 * 256 + reg l 0x1f4) * nat (head i) + reg l 0x1f6 mod 16) * nat (sect i) + (reg l 0x1f3 - 1)"

lemma drive_head_register:
  assumes "drive \<le> 1" "hed \<le> 15"
  shows "unat (ucast (0xA0 OR push_bit 4 drive OR hed :: u32) :: u8) = 160 + 16 * unat drive + unat hed"
proof -
  have all: "\<forall>d\<in>set [0..<2]. \<forall>k\<in>set [0..<16]. unat (ucast (0xA0 OR push_bit 4 (of_nat d) OR of_nat k :: u32) :: u8) = 160 + 16 * d + k"
    by (simp add: upt_rec)
  have "unat drive \<in> set [0..<2]" "unat hed \<in> set [0..<16]" using assms by (simp_all add: word_le_nat_alt)
  then have "unat (ucast (0xA0 OR push_bit 4 (of_nat (unat drive)) OR of_nat (unat hed) :: u32) :: u8) = 160 + 16 * unat drive + unat hed"
    using all by blast
  then show ?thesis by simp
qed

lemma registers_lba:
  fixes block :: u32
  assumes i: "0 < sect i" "sect i < 256" "0 < head i" "head i \<le> 16" "unat block < nat (head i * sect i * cyl i)" "cyl i < 65536" "0 < cyl i"
    and c: "chs block i = Some (sec, hed, cy)" and d: "drive \<le> 1"
  shows "lba i (registers i drive nsect sec hed cy cmd) = unat block"
    "reg (registers i drive nsect sec hed cy cmd) 0x1f6 = 160 + 16 * unat drive + unat hed"
    "unat hed < nat (head i)" "unat cy < nat (cyl i)" "unat sec \<le> nat (sect i)" "0 < unat sec"
proof -
  obtain sec' hed' cy' where "chs block i = Some (sec', hed', cy')" "hed' \<le> 15"
    "unat sec' = unat block mod nat (sect i) + 1" "unat hed' = unat block div nat (sect i) mod nat (head i)"
    "unat cy' = unat block div nat (sect i) div nat (head i)" using chs_fits [OF i(1-4)] by blast
  then have k: "hed \<le> 15" "unat sec = unat block mod nat (sect i) + 1" "unat hed = unat block div nat (sect i) mod nat (head i)"
    "unat cy = unat block div nat (sect i) div nat (head i)" using c by auto
  show h: "unat hed < nat (head i)" "0 < unat sec" using k(2,3) i by simp_all
  have s: "unat block mod nat (sect i) < nat (sect i)" using i by simp
  then show sl: "unat sec \<le> nat (sect i)" using k(2) by simp
  have "unat block < nat (sect i) * (nat (head i) * nat (cyl i))"
    using i by (simp add: nat_mult_distrib mult.assoc mult.left_commute)
  then show cl: "unat cy < nat (cyl i)" by (simp add: k(4) div_mult2_eq [symmetric] less_mult_imp_div_less mult.commute mult.left_commute)
  have cu: "unat cy < 65536" using cl i by linarith
  have r3: "reg (registers i drive nsect sec hed cy cmd) 0x1f3 = unat sec"
    using sl i by (simp add: reg_def registers_def unsigned_ucast_eq take_bit_eq_mod)
  have r45: "reg (registers i drive nsect sec hed cy cmd) 0x1f5 * 256 + reg (registers i drive nsect sec hed cy cmd) 0x1f4 = unat cy"
  proof -
    have "unat cy div 256 < 256" using cu by linarith
    then show ?thesis by (simp add: reg_def registers_def unsigned_ucast_eq take_bit_eq_mod unsigned_drop_bit_eq drop_bit_eq_div unat_div)
  qed
  show r6: "reg (registers i drive nsect sec hed cy cmd) 0x1f6 = 160 + 16 * unat drive + unat hed"
    using drive_head_register [OF d k(1)] by (simp add: reg_def registers_def)
  have "160 + 16 * unat drive + unat hed = unat hed + 16 * (10 + unat drive)" by simp
  moreover have "unat hed < 16" using k(1) by (simp add: word_le_nat_alt)
  ultimately have "reg (registers i drive nsect sec hed cy cmd) 0x1f6 mod 16 = unat hed" unfolding r6 by (metis mod_less mod_mult_self2)
  then show "lba i (registers i drive nsect sec hed cy cmd) = unat block"
    unfolding lba_def r45 r3 using k by (simp add: mult.commute)
qed


text \<open>The partition test: in the absence of wrap-around, exactly the requests whose two sectors lie in the partition pass.\<close>

definition in_partition :: "fs \<Rightarrow> nat \<Rightarrow> bool" where
  "in_partition s c \<longleftrightarrow> (let r = request_tab s c; m = unat (MINOR (of_int (r_dev r)) :: u32) in
     m < 5 * NR_HD (hdd s) \<and> unat (r_sector r) + 2 \<le> nat (nr_sects (hd_tab (hdd s) m)))"

lemma small_disk:
  assumes "disks_ok d" "m < 5 * NR_HD d"
  shows "nr_sects (hd_tab d m) < 2 ^ 32" "start_sect (hd_tab d m) + nr_sects (hd_tab d m) < 2 ^ 32" "0 \<le> nr_sects (hd_tab d m)" "0 \<le> start_sect (hd_tab d m)"
proof -
  let ?i = "hd_info d (m div 5)"
  have "m div 5 < NR_HD d" using assms(2) by linarith
  then have i: "0 < sect ?i" "sect ?i < 256" "0 < head ?i" "head ?i \<le> 16" "0 < cyl ?i" "cyl ?i < 65536"
    using assms(1) by (simp_all add: disks_ok_def Let_def)
  have "head ?i * sect ?i * cyl ?i \<le> 16 * 255 * 65535" using i by (intro mult_mono) simp_all
  moreover show "0 \<le> nr_sects (hd_tab d m)" "0 \<le> start_sect (hd_tab d m)" using assms by (simp_all add: disks_ok_def Let_def)
  moreover have "start_sect (hd_tab d m) + nr_sects (hd_tab d m) \<le> head ?i * sect ?i * cyl ?i" using assms by (simp add: disks_ok_def Let_def)
  ultimately show "nr_sects (hd_tab d m) < 2 ^ 32" "start_sect (hd_tab d m) + nr_sects (hd_tab d m) < 2 ^ 32" by simp_all
qed

lemma partition_test:
  assumes d: "disks_ok (hdd s)" and w: "unat (r_sector (request_tab s c)) + 2 < 2 ^ 32"
  shows "(MINOR (of_int (r_dev (request_tab s c))) \<ge> (of_nat (5 * NR_HD (hdd s)) :: u32) \<or>
     r_sector (request_tab s c) + 2 > of_int (nr_sects (hd_tab (hdd s) (unat (MINOR (of_int (r_dev (request_tab s c))) :: u32))))) \<longleftrightarrow> \<not> in_partition s c"
proof -
  let ?m = "MINOR (of_int (r_dev (request_tab s c))) :: u32"
  have "NR_HD (hdd s) \<le> 2" using d by (simp add: disks_ok_def)
  then have "unat (of_nat (5 * NR_HD (hdd s)) :: u32) = 5 * NR_HD (hdd s)" by (simp add: unat_of_nat take_bit_nat_eq_self del: of_nat_mult)
  then have 1: "?m \<ge> of_nat (5 * NR_HD (hdd s)) \<longleftrightarrow> \<not> unat ?m < 5 * NR_HD (hdd s)" by (simp add: word_le_nat_alt not_less del: of_nat_mult)
  have a: "unat (r_sector (request_tab s c) + 2) = unat (r_sector (request_tab s c)) + 2"
    using w by (subst unat_add_lem [THEN iffD1]) simp_all
  have 2: "r_sector (request_tab s c) + 2 > of_int (nr_sects (hd_tab (hdd s) (unat ?m))) \<longleftrightarrow>
      \<not> unat (r_sector (request_tab s c)) + 2 \<le> nat (nr_sects (hd_tab (hdd s) (unat ?m)))" if "unat ?m < 5 * NR_HD (hdd s)"
    using small_disk [OF d that] by (simp add: word_less_nat_alt a unat_of_int_small not_le)
  show ?thesis using 1 2 unfolding in_partition_def Let_def by blast
qed


text \<open>The bytes a command sends: its registers, and the first sector of a write when the controller wants it.\<close>

definition sends :: "fs \<Rightarrow> nat \<Rightarrow> (u16 \<times> u8) list \<Rightarrow> bool" where
  "sends s c out \<longleftrightarrow> (let r = request_tab s c; m = MINOR (of_int (r_dev r)) :: u32; i = hd_info (hdd s) (unat m div 5); p = hd_tab (hdd s) (unat m) in
     \<exists>regs data. out = regs @ data \<and> length regs = 8 \<and>
       lba i regs = nat (start_sect p) + unat (r_sector r) \<and> nat (start_sect p) \<le> lba i regs \<and>
       lba i regs + reg regs 0x1f2 \<le> nat (start_sect p) + nat (nr_sects p) \<and>
       reg regs 0x1f6 div 16 = 10 + unat m div 5 \<and> reg regs 0x1f2 = unat (r_nr_sectors r) \<and>
       reg regs 0x1f7 = unat (if r_cmd r = READ then WIN_READ else WIN_WRITE) \<and>
       (data = [] \<or> r_cmd r = WRITE \<and> data = map (\<lambda>k. (HD_DATA, b_data (buffers s (fst (r_buffer r))) (snd (r_buffer r) + k))) [0..<512]))"

lemma sends_registers:
  assumes d: "disks_ok (hdd s)" and q: "hd_queue_ok (c # cs) s" and p: "in_partition s c"
    and x: "chs (r_sector (request_tab s c) + of_int (start_sect (hd_tab (hdd s) (unat (MINOR (of_int (r_dev (request_tab s c))) :: u32)))))
              (hd_info (hdd s) (unat (MINOR (of_int (r_dev (request_tab s c))) div 5 :: u32))) = Some (sec, hed, cy)"
    and cmd: "cmd = (if r_cmd (request_tab s c) = READ then WIN_READ else WIN_WRITE)"
    and data: "data = [] \<or> r_cmd (request_tab s c) = WRITE \<and> data = map (\<lambda>k. (HD_DATA, b_data (buffers s (fst (r_buffer (request_tab s c)))) (snd (r_buffer (request_tab s c)) + k))) [0..<512]"
  shows "sends s c (registers (hd_info (hdd s) (unat (MINOR (of_int (r_dev (request_tab s c))) div 5 :: u32)))
    (MINOR (of_int (r_dev (request_tab s c))) div 5) (r_nr_sectors (request_tab s c)) sec hed cy cmd @ data)"
proof -
  let ?r = "request_tab s c"
  let ?m = "MINOR (of_int (r_dev ?r)) :: u32"
  let ?i = "hd_info (hdd s) (unat (?m div 5))"
  let ?p = "hd_tab (hdd s) (unat ?m)"
  let ?regs = "registers ?i (?m div 5) (r_nr_sectors ?r) sec hed cy cmd"
  have m: "unat ?m < 5 * NR_HD (hdd s)" and sz: "unat (r_sector ?r) + 2 \<le> nat (nr_sects ?p)"
    using p by (simp_all add: in_partition_def Let_def)
  have q5: "unat (?m div 5) = unat ?m div 5" by (simp add: unat_div)
  then have dn: "unat (?m div 5) < NR_HD (hdd s)" using m by linarith
  then have dv: "?m div 5 \<le> 1" using d by (simp add: disks_ok_def word_le_nat_alt)
  have i: "0 < sect ?i" "sect ?i < 256" "0 < head ?i" "head ?i \<le> 16" "0 < cyl ?i" "cyl ?i < 65536"
    using dn d by (simp_all add: disks_ok_def Let_def)
  note sm = small_disk [OF d m]
  have fit: "start_sect ?p + nr_sects ?p \<le> head ?i * sect ?i * cyl ?i" using d m by (simp add: disks_ok_def Let_def q5)
  define blk where "blk = r_sector ?r + of_int (start_sect ?p)"
  have ub: "unat blk = nat (start_sect ?p) + unat (r_sector ?r)"
  proof -
    have o: "unat (of_int (start_sect ?p) :: u32) = nat (start_sect ?p)" using sm by (simp add: unat_of_int_small)
    have "nat (start_sect ?p) + nat (nr_sects ?p) < 2 ^ 32" using sm by (simp add: nat_add_distrib [symmetric] nat_less_iff)
    then have "unat (r_sector ?r) + unat (of_int (start_sect ?p) :: u32) < 2 ^ 32" using o sz by linarith
    then show ?thesis unfolding blk_def using o by (subst unat_add_lem [THEN iffD1]) simp_all
  qed
  then have "unat blk < nat (head ?i * sect ?i * cyl ?i)" using fit sz sm by linarith
  note l = registers_lba [OF i(1-4) this i(6,5) x [folded blk_def] dv]
  have nr: "r_nr_sectors ?r = 1 \<or> r_nr_sectors ?r = 2" using q by (auto simp: hd_queue_ok_def hd_req_ok_def Let_def)
  then have r2: "reg ?regs 0x1f2 = unat (r_nr_sectors ?r)" by (auto simp: reg_def registers_def)
  have "unat hed < 16" using l(3) i by linarith
  then have "(160 + 16 * unat (?m div 5) + unat hed) div 16 = 10 + unat (?m div 5)" by linarith
  then have "reg ?regs 0x1f6 div 16 = 10 + unat (?m div 5)" by (simp only: l(2))
  moreover have "reg ?regs 0x1f7 = unat (if r_cmd ?r = READ then WIN_READ else WIN_WRITE)" by (simp add: reg_def registers_def cmd)
  moreover have "unat (r_nr_sectors ?r) \<le> 2" using nr by auto
  ultimately show ?thesis
    unfolding sends_def Let_def q5 [symmetric] using l(1) ub r2 sz sm data
    by (intro exI [of _ ?regs] exI [of _ data]) (simp add: registers_def)
qed


lemma round_in_partition:
  assumes d: "disks_ok (hdd s)" and q: "hd_queue_ok (c # cs) s" and p: "in_partition s c" and w: "unat (r_sector (request_tab s c)) + 2 < 2 ^ 32"
  obtains sec hed cy where "chs (r_sector (request_tab s c) + of_int (start_sect (hd_tab (hdd s) (unat (MINOR (of_int (r_dev (request_tab s c))) :: u32)))))
      (hd_info (hdd s) (unat (MINOR (of_int (r_dev (request_tab s c))) div 5 :: u32))) = Some (sec, hed, cy)" "hed \<le> 15"
    "MINOR (of_int (r_dev (request_tab s c))) div 5 \<le> (1 :: u32)"
    "hd_round () s = start_command c (MINOR (of_int (r_dev (request_tab s c))) div 5) sec hed cy s"
proof -
  let ?r = "request_tab s c"
  let ?m = "MINOR (of_int (r_dev ?r)) :: u32"
  let ?i = "hd_info (hdd s) (unat (?m div 5))"
  have ini: "INIT_REQUEST 3 s = Ret (Some c) s" using q by (auto simp: hd_queue_ok_def hd_req_ok_def INIT_REQUEST_def Let_def)
  note test = partition_test [OF d w]
  have "\<not> ?m \<ge> of_nat (5 * NR_HD (hdd s))" using p test by blast
  note k = drive_bound [OF d this]
  have "0 < sect ?i" "sect ?i < 256" "0 < head ?i" "head ?i \<le> 16" using k d by (simp_all add: disks_ok_def Let_def)
  from chs_fits [OF this, of "r_sector ?r + of_int (start_sect (hd_tab (hdd s) (unat ?m)))"] obtain sec hed cy
    where x: "chs (r_sector ?r + of_int (start_sect (hd_tab (hdd s) (unat ?m)))) ?i = Some (sec, hed, cy)" "hed \<le> 15" by blast
  have "hd_round () s = start_command c (?m div 5) sec hed cy s" using p test ini x(1) unfolding hd_round_def by (simp add: Let_def)
  then show thesis using that x k(3) by blast
qed

lemma write_sends:
  assumes d: "disks_ok (hdd s)" "hd_queue_ok (c # cs) s" and t: "hd_only s t" "ports t = ports s @ regs" and w: "r_cmd (request_tab s c) = WRITE"
    and snd: "\<And>data. data = [] \<or> data = map (\<lambda>k. (HD_DATA, b_data (buffers s (fst (r_buffer (request_tab s c)))) (snd (r_buffer (request_tab s c)) + k))) [0..<512] \<Longrightarrow>
      sends s c (regs @ data)"
  shows "\<exists>r v out. (case drq_poll 3000 t of
             (ready, s) \<Rightarrow>
               if \<not> ready then bindO (bad_rw_intr s) (\<lambda>_ s. Ret (Inl ()) s)
               else bindO (port_write HD_DATA (r_buffer (request_tab s c)) s) (\<lambda>_ s. Ret (Inr ()) s)) = Ret r v \<and>
     ports v = ports s @ out \<and> sends s c out"
proof -
  obtain z u where u: "drq_poll 3000 t = (z, u)" by force
  then have p: "hd_only s u" "ports u = ports s @ regs"
    using drq_poll_polled [OF u] t by (auto simp: polled_def intro: hd_only_trans)
  let ?r = "request_tab s c"
  let ?data = "map (\<lambda>k. (HD_DATA, b_data (buffers s (fst (r_buffer ?r))) (snd (r_buffer ?r) + k))) [0..<512]"
  show ?thesis
  proof (cases z)
    case z: True
    have "snd (r_buffer ?r) + 512 \<le> BLOCK_SIZE" using d(2) by (auto simp: hd_queue_ok_def hd_req_ok_def Let_def)
    then have "port_write HD_DATA (r_buffer (request_tab u c)) u = Ret () (u\<lparr>ports := ports u @ ?data\<rparr>)"
      using p(1) by (simp add: port_write_def hd_only_def)
    moreover have "sends s c (regs @ ?data)" by (rule snd) simp
    ultimately show ?thesis using u z p(2)
      by (intro exI [of _ "Inr ()"] exI [of _ "u\<lparr>ports := ports u @ ?data\<rparr>"] exI [of _ "regs @ ?data"]) (simp del: drq_poll.simps)
  next
    case z: False
    have "hd_queue_ok (c # cs) u" "disks_ok (hdd u)" using d p(1) queue_only disks_ok_only by blast+
    then obtain v where v: "bad_rw_intr u = Ret () v" "ports v = ports u" using bad_rw_intr_queue by blast
    have "sends s c regs" using snd [of "[]"] by simp
    then show ?thesis using u z p(2) v
      by (intro exI [of _ "Inl ()"] exI [of _ v] exI [of _ regs]) (simp del: drq_poll.simps)
  qed
qed

lemma command_sends:
  assumes d: "disks_ok (hdd s)" "hd_queue_ok (c # cs) s" and f: "\<not> hd_reset (hdd s)" "\<not> recalibrate (hdd s)" and p: "in_partition s c"
    and w: "unat (r_sector (request_tab s c)) + 2 < 2 ^ 32"
  shows "hd_round () s = Panic ''HD controller not ready'' \<or> (\<exists>r t out. hd_round () s = Ret r t \<and> ports t = ports s @ out \<and> sends s c out)"
proof -
  let ?r = "request_tab s c"
  let ?m = "MINOR (of_int (r_dev ?r)) :: u32"
  let ?i = "hd_info (hdd s) (unat (?m div 5))"
  obtain sec hed cy where x: "chs (r_sector ?r + of_int (start_sect (hd_tab (hdd s) (unat ?m)))) ?i = Some (sec, hed, cy)" "hed \<le> 15" "?m div 5 \<le> 1"
    "hd_round () s = start_command c (?m div 5) sec hed cy s" by (rule round_in_partition [OF d p w])
  define cmd where "cmd = (if r_cmd ?r = READ then WIN_READ else WIN_WRITE)"
  define h where "h = (if r_cmd ?r = READ then read_intr_handler else write_intr_handler)"
  let ?regs = "registers ?i (?m div 5) (r_nr_sectors ?r) sec hed cy cmd"
  note snd = sends_registers [OF d p x(1) cmd_def]
  have rw: "r_cmd ?r = READ \<or> r_cmd ?r = WRITE" using d(2) by (auto simp: hd_queue_ok_def hd_req_ok_def Let_def)
  consider "hd_out (?m div 5) (r_nr_sectors ?r) sec hed cy cmd h s = Panic ''HD controller not ready''"
    | t where "hd_out (?m div 5) (r_nr_sectors ?r) sec hed cy cmd h s = Ret () t" "hd_only s t" "ports t = ports s @ ?regs"
    using hd_out_cases [OF x(3,2), of "r_nr_sectors ?r" sec cy cmd h s] by blast
  then show ?thesis
  proof cases
    case 1
    then show ?thesis using x(4) rw f by (auto simp: start_command_def cmd_def h_def Let_def)
  next
    case (2 t)
    have "hd_round () s = (if r_cmd ?r = READ then Ret (Inr ()) t else case drq_poll 3000 t of
             (ready, s) \<Rightarrow>
               if \<not> ready then bindO (bad_rw_intr s) (\<lambda>_ s. Ret (Inl ()) s)
               else bindO (port_write HD_DATA (r_buffer (request_tab s c)) s) (\<lambda>_ s. Ret (Inr ()) s))"
      using x(4) 2(1) f rw by (auto simp: start_command_def cmd_def h_def Let_def simp del: drq_poll.simps)
    moreover have "sends s c ?regs" using snd [of "[]"] by simp
    moreover note write_sends [OF d 2(2,3)]
    ultimately show ?thesis using rw 2(3) snd by (cases "r_cmd ?r = READ") (simp_all del: drq_poll.simps)
  qed
qed

text \<open>C31: Commands stay inside their partition.  With no reset or recalibration pending, a round of the strategy routine
  for a request whose two sectors lie in its partition programs the controller with registers that stand for exactly the sector of the disk
  at the start of the partition plus the sector of the request, on the drive of the minor number and with the number of sectors still
  to do, none of them beyond the end of the partition; a write sends the right half of the buffer after that.  A request that
  reaches beyond its partition or names a drive that is not there sends nothing: it is taken off the queue with its buffer unlocked
  and not up to date.  (The test adds 2 to an unsigned sector number, so it is asked here not to wrap around.)\<close>

theorem hd_command_in_partition:
  assumes "disks_ok (hdd s)" "hd_queue_ok (c # cs) s" "\<not> hd_reset (hdd s)" "\<not> recalibrate (hdd s)"
    "unat (r_sector (request_tab s c)) + 2 < 2 ^ 32"
  shows "if in_partition s c
    then hd_round () s = Panic ''HD controller not ready'' \<or> (\<exists>r t out. hd_round () s = Ret r t \<and> ports t = ports s @ out \<and> sends s c out)
    else \<exists>t b. hd_round () s = Ret (Inl ()) t \<and> ports t = ports s \<and> hd_queue_ok cs t \<and>
      r_bh (request_tab s c) = Some b \<and> b_uptodate (buffers t b) = 0 \<and> b_lock (buffers t b) = 0"
proof (cases "in_partition s c")
  case True
  then show ?thesis using command_sends [OF assms(1-4) _ assms(5)] by simp
next
  case False
  have ini: "INIT_REQUEST 3 s = Ret (Some c) s" using assms(2) by (auto simp: hd_queue_ok_def hd_req_ok_def INIT_REQUEST_def Let_def)
  obtain b where b: "r_bh (request_tab s c) = Some b" using assms(2) by (auto simp: hd_queue_ok_def hd_req_ok_def Let_def)
  obtain t where "end_hd 0 s = Ret () t" "hd_queue_ok cs t" "ports t = ports s" "buffers t = (buffers s)(b := (buffers s b)\<lparr>b_uptodate := 0, b_lock := 0\<rparr>)"
    using end_hd_queue [OF _ _ _ _ _ b, of cs 0] assms(2) unfolding hd_queue_ok_def by (auto simp del: distinct.simps)
  then show ?thesis using False partition_test [OF assms(1,5)] ini b unfolding hd_round_def by (auto simp: Let_def)
qed


definition demo_hd_busy :: fs where
  "demo_hd_busy = demo_hd\<lparr>current_request := (\<lambda>m. if m = 3 then Some 5 else None),
     request_tab := (\<lambda>_. \<lparr>r_dev = 0x301, r_cmd = READ, r_errors = 0, r_sector = 200, r_nr_sectors = 2, r_buffer = (7, 0), r_waiting = 0,
       r_bh = Some 7, r_next = None\<rparr>),
     hdd := (hdd demo_hd)\<lparr>do_hd := read_intr_handler\<rparr>\<rparr>"

lemma demo_hd_busy_ok: "disks_ok (hdd demo_hd_busy)" "hd_queue_ok [5] demo_hd_busy" "hd_ok demo_hd_busy"
proof -
  show d: "disks_ok (hdd demo_hd_busy)" by (simp add: demo_hd_busy_def demo_hd_def disks_ok_def Let_def)
  show q: "hd_queue_ok [5] demo_hd_busy" by (simp add: demo_hd_busy_def demo_hd_def hd_queue_ok_def hd_req_ok_def MAJOR_def)
  show "hd_ok demo_hd_busy" using d q by (auto simp: hd_ok_def handler_ok_def demo_hd_busy_def)
qed

theorem hd_command_in_partition_witness:
  "in_partition demo_hd_busy 5 \<and> (hd_round () demo_hd_busy = Panic ''HD controller not ready'' \<or>
     (\<exists>r t out. hd_round () demo_hd_busy = Ret r t \<and> ports t = ports demo_hd_busy @ out \<and> sends demo_hd_busy 5 out))"
proof -
  have "in_partition demo_hd_busy 5" by (simp add: in_partition_def demo_hd_busy_def demo_hd_def MINOR_def)
  then show ?thesis
    using hd_command_in_partition [OF demo_hd_busy_ok(1,2)] by (simp add: demo_hd_busy_def demo_hd_def)
qed

section \<open>Reading a block\<close>

lemma win_result_good:
  assumes "ucast (port_in (hdd s) HD_STATUS (port_pos (hdd s) HD_STATUS)) AND 0xf1 = READY_STAT OR SEEK_STAT"
  shows "win_result s = (False, upd_hd (\<lambda>d. d\<lparr>port_pos := (port_pos d)(HD_STATUS := port_pos d HD_STATUS + 1)\<rparr>) s)"
  using assms by (simp add: win_result_def inb_def inw_def)


text \<open>The state in which an interrupt routine runs, and behind the status it has read.\<close>

definition served :: "fs \<Rightarrow> fs" where
  "served s = upd_hd (\<lambda>d. d\<lparr>port_pos := (port_pos d)(HD_STATUS := port_pos d HD_STATUS + 1)\<rparr>)
     (outb 0x20 0x20 (upd_hd (\<lambda>d. d\<lparr>do_hd := no_handler\<rparr>) (outb 0x20 0xA0 s)))"

lemma served_simps [simp]:
  "request_tab (served s) = request_tab s" "buffers (served s) = buffers s" "current_request (served s) = current_request s"
  "hdd (served s) = (hdd s)\<lparr>do_hd := no_handler, port_pos := (port_pos (hdd s))(HD_STATUS := port_pos (hdd s) HD_STATUS + 1)\<rparr>"
  by (simp_all add: served_def)

lemma interrupt_good:
  assumes "do_hd (hdd s) = read_intr_handler" "ucast (port_words HD_STATUS s 0) AND 0xf1 = READY_STAT OR SEEK_STAT"
    "current_request s 3 = Some c" "snd (r_buffer (request_tab s c)) + 512 \<le> BLOCK_SIZE"
  shows "hd_interrupt s = (if r_nr_sectors (request_tab s c) \<noteq> 1 then Ret () (upd_hd (\<lambda>d. d\<lparr>do_hd := read_intr_handler\<rparr>) (sector_read c (served s)))
     else bindO (end_hd 1 (sector_read c (served s))) (\<lambda>_ s. do_hd_request s))"
proof -
  have "win_result (outb 0x20 0x20 (upd_hd (\<lambda>d. d\<lparr>do_hd := no_handler\<rparr>) (outb 0x20 0xA0 s))) = (False, served s)"
    unfolding served_def by (rule win_result_good) (use assms(2) in \<open>simp add: port_words_def\<close>)
  then show ?thesis using read_intr_good [of _ "served s" c] assms(1,3,4) by (simp add: hd_interrupt_def Let_def)
qed

lemma sector_read_buffers:
  "r_buffer (request_tab s c) = (b, off) \<Longrightarrow> buffers (sector_read c s) = (buffers s)(b := (buffers s b)\<lparr>b_data := (\<lambda>i. if off \<le> i \<and> i < off + 512
     then ucast (drop_bit (8 * ((i - off) mod 2)) (port_words HD_DATA s ((i - off) div 2))) else b_data (buffers s b) i)\<rparr>)"
  by (simp add: sector_read_def Let_def)

lemma two_sectors:
  assumes "r_buffer (request_tab s c) = (b, 0)"
  shows "buffers (sector_read c (served (upd_hd (\<lambda>d. d\<lparr>do_hd := read_intr_handler\<rparr>) (sector_read c (served s))))) =
    (buffers s)(b := (buffers s b)\<lparr>b_data :=
      (\<lambda>i. if i < BLOCK_SIZE then ucast (drop_bit (8 * (i mod 2)) (port_words HD_DATA s (i div 2))) else b_data (buffers s b) i)\<rparr>)"
proof -
  have odd: "(i - 512) mod 2 = i mod 2" "256 + (i - 512) div 2 = i div 2" if "512 \<le> i" for i :: nat
  proof -
    define j where "j = i - 512"
    have j: "i = j + 256 * 2" using that by (simp add: j_def)
    have "(j + 256 * 2) mod 2 = j mod 2" "(j + 256 * 2) div 2 = 256 + j div 2" by (simp_all only: mod_mult_self1 div_mult_self1 zero_neq_numeral not_False_eq_True)
    then show "(i - 512) mod 2 = i mod 2" "256 + (i - 512) div 2 = i div 2" unfolding j_def [symmetric] j by simp_all
  qed
  define t where "t = upd_hd (\<lambda>d. d\<lparr>do_hd := read_intr_handler\<rparr>) (sector_read c (served s))"
  have d0: "buffers t = (buffers s)(b := (buffers s b)\<lparr>b_data := (\<lambda>i. if i < 512
      then ucast (drop_bit (8 * (i mod 2)) (port_words HD_DATA s (i div 2))) else b_data (buffers s b) i)\<rparr>)"
    using sector_read_buffers [of "served s" c b 0] assms by (simp add: t_def port_words_def cong: if_cong)
  have d1: "buffers (sector_read c (served t)) = (buffers t)(b := (buffers t b)\<lparr>b_data := (\<lambda>i. if 512 \<le> i \<and> i < 1024
      then ucast (drop_bit (8 * ((i - 512) mod 2)) (port_words HD_DATA s (256 + (i - 512) div 2))) else b_data (buffers t b) i)\<rparr>)"
    using sector_read_buffers [of "served t" c b 512] assms by (simp add: t_def port_words_def add.assoc cong: if_cong)
  have "(\<lambda>i. if 512 \<le> i \<and> i < 1024 then ucast (drop_bit (8 * ((i - 512) mod 2)) (port_words HD_DATA s (256 + (i - 512) div 2))) else b_data (buffers t b) i) =
     (\<lambda>i. if i < BLOCK_SIZE then ucast (drop_bit (8 * (i mod 2)) (port_words HD_DATA s (i div 2))) else b_data (buffers s b) i)"
    unfolding d0 by (rule ext) (simp add: odd)
  then show ?thesis unfolding t_def [symmetric] d1 by (simp only:) (simp add: d0)
qed

text \<open>C32: A block is read by two interrupts.  When the controller reports success twice, the first interrupt stores 512 bytes of its
  data port into the first half of the buffer of the request in service and asks for another interrupt, the second stores the next 512 into the second
  half; then the buffer, and no other, holds the 1024 bytes in the order the port delivered them, low byte of each word first, it is up to date and unlocked,
  the request is free again and the queue holds the others; the strategy routine goes on with them, with no routine
  left behind.\<close>

theorem hd_read_block:
  assumes "disks_ok (hdd s)" "hd_queue_ok (c # cs) s" "do_hd (hdd s) = read_intr_handler" "r_cmd (request_tab s c) = READ"
    "r_nr_sectors (request_tab s c) = 2" "r_bh (request_tab s c) = Some b"
    "ucast (port_words HD_STATUS s 0) AND 0xf1 = READY_STAT OR SEEK_STAT" "ucast (port_words HD_STATUS s 1) AND 0xf1 = READY_STAT OR SEEK_STAT"
  shows "\<exists>s1 s2. hd_interrupt s = Ret () s1 \<and> hd_interrupt s1 = do_hd_request s2 \<and> settles (do_hd_request s2) \<and>
    hd_queue_ok cs s2 \<and> do_hd (hdd s2) = no_handler \<and> r_dev (request_tab s2 c) = - 1 \<and>
    buffers s2 = (buffers s)(b := (buffers s b)\<lparr>b_data := (\<lambda>i. if i < BLOCK_SIZE
      then ucast (drop_bit (8 * (i mod 2)) (port_words HD_DATA s (i div 2))) else b_data (buffers s b) i), b_uptodate := 1, b_lock := 0\<rparr>)"
proof -
  have rb: "r_buffer (request_tab s c) = (b, 0)" and cr: "current_request s 3 = Some c"
    using assms(2,5,6) by (auto simp: hd_queue_ok_def hd_req_ok_def Let_def)
  define s1 where "s1 = upd_hd (\<lambda>d. d\<lparr>do_hd := read_intr_handler\<rparr>) (sector_read c (served s))"
  define v where "v = sector_read c (served s1)"
  have i1: "hd_interrupt s = Ret () s1" using interrupt_good [OF assms(3,7) cr] rb assms(5) by (simp add: s1_def)
  have i2: "hd_interrupt s1 = bindO (end_hd 1 v) (\<lambda>_ s. do_hd_request s)"
    using interrupt_good [of s1 c] assms(5,8) cr rb by (simp add: s1_def v_def port_words_def)
  have bv: "buffers v = (buffers s)(b := (buffers s b)\<lparr>b_data :=
      (\<lambda>i. if i < BLOCK_SIZE then ucast (drop_bit (8 * (i mod 2)) (port_words HD_DATA s (i div 2))) else b_data (buffers s b) i)\<rparr>)"
    using two_sectors [OF rb] by (simp add: v_def s1_def)
  have "\<exists>s2. end_hd 1 v = Ret () s2 \<and> hd_queue_ok cs s2 \<and> hdd s2 = hdd v \<and> r_dev (request_tab s2 c) = - 1 \<and>
    buffers s2 = (buffers v)(b := (buffers v b)\<lparr>b_uptodate := 1, b_lock := 0\<rparr>)"
    using request_ends [OF assms(2), of v "request_tab v c" 1] assms(6) by (auto simp: v_def s1_def)
  then obtain s2 where s2: "end_hd 1 v = Ret () s2" "hd_queue_ok cs s2" "hdd s2 = hdd v" "r_dev (request_tab s2 c) = - 1"
    "buffers s2 = (buffers v)(b := (buffers v b)\<lparr>b_uptodate := 1, b_lock := 0\<rparr>)" by blast
  have h: "do_hd (hdd s2) = no_handler" "disks_ok (hdd s2)" using s2(3) assms(1) by (simp_all add: v_def s1_def disks_ok_def)
  then have "between cs s2" using s2(2) by (simp add: between_def)
  then have "settles (do_hd_request s2)" by (rule do_hd_request_settles)
  moreover have "hd_interrupt s1 = do_hd_request s2" using i2 s2(1) by simp
  moreover have "buffers s2 = (buffers s)(b := (buffers s b)\<lparr>b_data := (\<lambda>i. if i < BLOCK_SIZE
      then ucast (drop_bit (8 * (i mod 2)) (port_words HD_DATA s (i div 2))) else b_data (buffers s b) i), b_uptodate := 1, b_lock := 0\<rparr>)"
    unfolding s2(5) bv by simp
  ultimately show ?thesis using i1 s2(2,4) h(1) by blast
qed


theorem hd_read_block_witness:
  "\<exists>s1 s2. hd_interrupt demo_hd_busy = Ret () s1 \<and> hd_interrupt s1 = do_hd_request s2 \<and> settles (do_hd_request s2) \<and>
    hd_queue_ok [] s2 \<and> do_hd (hdd s2) = no_handler \<and> r_dev (request_tab s2 5) = - 1 \<and>
    buffers s2 = (buffers demo_hd_busy)(7 := (buffers demo_hd_busy 7)\<lparr>b_data := (\<lambda>i. if i < BLOCK_SIZE
      then ucast (drop_bit (8 * (i mod 2)) (port_words HD_DATA demo_hd_busy (i div 2))) else b_data (buffers demo_hd_busy 7) i), b_uptodate := 1, b_lock := 0\<rparr>)"
  by (rule hd_read_block [OF demo_hd_busy_ok(1,2)]) (simp_all add: demo_hd_busy_def demo_hd_def port_words_def)

end
