(* ===== verification/Exec.thy ===== *)
theory Exec
  imports Process Namei
begin

unbundle bit_operations_syntax

text \<open>
  Loading a program, \<open>src/fs/exec.c\<close>.

  The pages for the arguments are physical memory (\<open>pmem\<close>), found through the array \<open>page\<close>; the strings
  come from the memory of the task or, with \<open>from_kmem\<close>, from the kernel.  When the old memory has been released, the memory
  of the task (\<open>umem\<close>) is what its page tables show: the pages of the arguments, and elsewhere \<open>img\<close>,
  the bytes page faults will bring in (the text and data of the program and zeros).
\<close>

abbreviation (input) MAX_ARG_PAGES :: nat where "MAX_ARG_PAGES \<equiv> 32"
abbreviation (input) ZMAGIC :: u32 where "ZMAGIC \<equiv> 0x10b"
abbreviation (input) S_ISUID :: u16 where "S_ISUID \<equiv> 0x800"
abbreviation (input) S_ISGID :: u16 where "S_ISGID \<equiv> 0x400"

section \<open>The tables of arguments\<close>

text \<open>\<open>while (get_fs_byte(p++))\<close>: the address behind the next zero byte.\<close>

definition skip_string :: "u32 \<Rightarrow> fs \<Rightarrow> (fs, u32) outcome" where
  "skip_string p s = loopO (\<lambda>p s. if get_fs_byte p s \<noteq> 0 then Ret (Inl (p + 1)) s else Ret (Inr (p + 1)) s) p s"

text \<open>One of the two loops of \<open>create_tables\<close>: \<open>n\<close> pointers from \<open>tab\<close> on, and the null pointer behind them.\<close>

primrec fill_table :: "nat \<Rightarrow> u32 \<Rightarrow> u32 \<Rightarrow> fs \<Rightarrow> (fs, u32) outcome" where
  "fill_table 0 p tab s = Ret p (put_fs_long 0 tab s)"
| "fill_table (Suc n) p tab s =
     bindO (skip_string p (put_fs_long p tab s)) (\<lambda>p s. fill_table n p (tab + 4) s)"

definition create_tables :: "u32 \<Rightarrow> int \<Rightarrow> int \<Rightarrow> fs \<Rightarrow> (fs, u32) outcome" where
  "create_tables p argc envc s =
     (let sp = 0xfffffffc AND p;
          envp = sp - 4 * of_int (envc + 1);
          argv = envp - 4 * of_int (argc + 1);
          s = put_fs_long envp (argv - 4) s;
          s = put_fs_long argv (argv - 8) s;
          s = put_fs_long (of_int argc) (argv - 12) s
      in bindO (fill_table (nat argc) p argv s) (\<lambda>p s.
         bindO (fill_table (nat envc) p envp s) (\<lambda>_ s. Ret (argv - 12) s)))"

definition count :: "u32 \<Rightarrow> fs \<Rightarrow> (fs, int) outcome" where
  "count argv s =
     (if argv = 0 then Ret 0 s
      else loopO (\<lambda>i s. if get_fs_long (argv + 4 * of_int i) s \<noteq> 0 then Ret (Inl (s32 (i + 1))) s else Ret (Inr i) s) 0 s)"

section \<open>Copying strings\<close>

text \<open>
  The three values of \<open>from_kmem\<close>: array and strings of the user; an array of the kernel holding one pointer of the
  user; an array of the kernel holding one string of the kernel.
\<close>

datatype arg_array = User_array u32 | Kernel_array u32 | Kernel_strings "u8 list"

datatype str_ptr = User_string u32 | Kernel_string "u8 list"

definition arg_ptr :: "arg_array \<Rightarrow> nat \<Rightarrow> fs \<Rightarrow> str_ptr" where
  "arg_ptr a i s =
     (case a of
        User_array argv \<Rightarrow> User_string (get_fs_long (argv + 4 * of_nat i) s)
      | Kernel_array p \<Rightarrow> User_string p
      | Kernel_strings bs \<Rightarrow> Kernel_string bs)"

definition str_byte :: "str_ptr \<Rightarrow> nat \<Rightarrow> fs \<Rightarrow> u8" where
  "str_byte q k s =
     (case q of
        User_string p \<Rightarrow> get_fs_byte (p + of_nat k) s
      | Kernel_string bs \<Rightarrow> if k < length bs then bs ! k else 0)"

definition str_length :: "str_ptr \<Rightarrow> fs \<Rightarrow> (fs, nat) outcome" where
  "str_length q s = loopO (\<lambda>len s. if str_byte q len s \<noteq> 0 then Ret (Inl (len + 1)) s else Ret (Inr (len + 1)) s) 0 s"

text \<open>The variables of \<open>copy_strings\<close> that live through its loops.\<close>

record copier =
  c_p :: u32
  c_pag :: u32
  c_offset :: int
  c_page :: "nat \<Rightarrow> u32"

text \<open>
  The inner loop, from the last byte of a string down; \<open>False\<close> when there is no page left.  An index
  beyond the array is undefined: the test for it before the loop compares an unsigned difference with 0.
\<close>

definition next_page :: "copier \<Rightarrow> fs \<Rightarrow> (fs, bool \<times> copier) outcome" where
  "next_page c s =
     (let i = unat (c_p c div 4096); c = c\<lparr>c_offset := int (unat (c_p c mod 4096))\<rparr> in
      if i \<ge> MAX_ARG_PAGES then Undefined ''page[p/PAGE_SIZE]''
      else if c_page c i \<noteq> 0 then Ret (True, c\<lparr>c_pag := c_page c i\<rparr>) s
      else case get_free_page s of
             (g, s) \<Rightarrow> Ret (g \<noteq> 0, c\<lparr>c_pag := g, c_page := (c_page c)(i := g)\<rparr>) s)"

primrec copy_bytes :: "nat \<Rightarrow> str_ptr \<Rightarrow> copier \<Rightarrow> fs \<Rightarrow> (fs, bool \<times> copier) outcome" where
  "copy_bytes 0 q c s = Ret (True, c) s"
| "copy_bytes (Suc len) q c s =
     (let c = c\<lparr>c_p := c_p c - 1, c_offset := c_offset c - 1\<rparr> in
      bindO (if c_offset c < 0 then next_page c s else Ret (True, c) s) (\<lambda>(ok, c) s.
      if \<not> ok then Ret (False, c) s
      else copy_bytes len q c (put_pbyte (str_byte q len s) (c_pag c + of_int (c_offset c)) s)))"

primrec copy_loop :: "nat \<Rightarrow> arg_array \<Rightarrow> copier \<Rightarrow> fs \<Rightarrow> (fs, bool \<times> copier) outcome" where
  "copy_loop 0 a c s = Ret (True, c) s"
| "copy_loop (Suc argc) a c s =
     (let q = arg_ptr a argc s in
      if q = User_string 0 then Panic ''argc is wrong''
      else bindO (str_length q s) (\<lambda>len s.
           bindO (copy_bytes len q c s) (\<lambda>(ok, c) s.
           if ok then copy_loop argc a c s else Ret (False, c) s)))"

definition copy_strings :: "int \<Rightarrow> arg_array \<Rightarrow> (nat \<Rightarrow> u32) \<Rightarrow> u32 \<Rightarrow> fs \<Rightarrow> (fs, u32 \<times> (nat \<Rightarrow> u32)) outcome" where
  "copy_strings argc a page p s =
     (if p = 0 then Ret (0, page) s
      else bindO (copy_loop (nat argc) a \<lparr>c_p = p, c_pag = 0, c_offset = 0, c_page = page\<rparr> s) (\<lambda>(ok, c) s.
           Ret (if ok then c_p c else 0, c_page c) s))"

section \<open>The new memory\<close>

text \<open>What the processor reads at \<open>a\<close> in a segment that starts at \<open>base\<close>.\<close>

definition mapped_byte :: "(u32 \<Rightarrow> u8) \<Rightarrow> u32 \<Rightarrow> fs \<Rightarrow> u32 \<Rightarrow> u8" where
  "mapped_byte img base s a =
     (let dir = pmem s (drop_bit 20 (base + a) AND 0xffc);
          pte = pmem s (frame dir + 4 * (drop_bit 12 (base + a) AND 0x3ff))
      in if present dir \<and> present pte then get_pbyte (frame pte OR ((base + a) AND 0xfff)) s else img a)"

definition put_arg_pages :: "(nat \<Rightarrow> u32) \<Rightarrow> u32 \<Rightarrow> fs \<Rightarrow> (fs, unit) outcome" where
  "put_arg_pages page data_end s =
     eachO (\<lambda>i s. if page i \<noteq> 0 then bindO (put_page (page i) (data_end - of_nat (MAX_ARG_PAGES - i) * 4096) s) (\<lambda>_ s. Ret () s)
                  else Ret () s) (rev [0..<MAX_ARG_PAGES]) s"

definition change_ldt :: "(u32 \<Rightarrow> u8) \<Rightarrow> u32 \<Rightarrow> (nat \<Rightarrow> u32) \<Rightarrow> fs \<Rightarrow> (fs, u32) outcome" where
  "change_ldt img text_size page s =
     (let code_limit = (text_size + 4096 - 1) AND 0xFFFFF000;
          data_limit = 0x4000000;
          code_base = get_base (ldt (cur s) 1);
          s = upd_cur (\<lambda>t. t\<lparr>ldt := (ldt t)(1 := set_limit (set_base (ldt t 1) code_base) code_limit,
                                            2 := set_limit (set_base (ldt t 2) code_base) data_limit)\<rparr>) s
      in bindO (put_arg_pages page (code_base + data_limit) s) (\<lambda>_ s.
         Ret data_limit (s\<lparr>umem := (umem s)(current s := mapped_byte img code_base s)\<rparr>)))"

section \<open>Scripts\<close>

text \<open>
  The first line of a script behind \<open>#!\<close>: the path of the interpreter, its last component, and the rest of the line
  when there is one.  \<open>strncpy\<close> stops at a zero byte; without a newline or a name there is no interpreter.
\<close>

definition blank :: "u8 \<Rightarrow> bool" where
  "blank b \<longleftrightarrow> b = 32 \<or> b = 9"

definition last_component :: "u8 list \<Rightarrow> u8 list" where
  "last_component bs = rev (takeWhile (\<lambda>b. b \<noteq> 47) (rev bs))"

definition parse_interp :: "(nat \<Rightarrow> u8) \<Rightarrow> (u8 list \<times> u8 list \<times> u8 list option) option" where
  "parse_interp d =
     (let buf = takeWhile (\<lambda>b. b \<noteq> 0) (map (\<lambda>k. d (k + 2)) [0..<1022]) in
      if 10 \<notin> set buf then None
      else let line = dropWhile blank (takeWhile (\<lambda>b. b \<noteq> 10) buf);
               name = takeWhile (\<lambda>b. \<not> blank b) line;
               rest = dropWhile (\<lambda>b. \<not> blank b) line
           in if line = [] then None
              else Some (name, last_component name, if rest = [] then None else Some (tl rest)))"

text \<open>\<open>namei\<close> of a name in the kernel: \<open>fs\<close> is set to the segment of the kernel meanwhile.\<close>

definition kernel_namei :: "kenv \<Rightarrow> u8 list \<Rightarrow> fs \<Rightarrow> (fs, nat option) outcome" where
  "kernel_namei E name s =
     bindO (namei E 0 (s\<lparr>umem := (umem s)(current s := (\<lambda>a. if unat a < length name then name ! unat a else 0))\<rparr>))
       (\<lambda>r t. Ret r (t\<lparr>umem := (umem t)(current s := umem s (current s))\<rparr>))"

text \<open>The three strings spliced in for a script, last one first; returns the new \<open>argc\<close> too.\<close>

definition splice_args :: "int \<Rightarrow> int \<Rightarrow> u32 \<Rightarrow> u32 \<Rightarrow> u32 \<Rightarrow> u8 list \<Rightarrow> u8 list option \<Rightarrow> (nat \<Rightarrow> u32) \<Rightarrow> u32 \<Rightarrow> fs \<Rightarrow>
    (fs, u32 \<times> (nat \<Rightarrow> u32) \<times> int) outcome" where
  "splice_args argc envc filename argv envp i_name i_arg page p s =
     bindO (copy_strings envc (User_array envp) page p s) (\<lambda>(p, page) s.
     bindO (copy_strings (argc - 1) (User_array (argv + 4)) page p s) (\<lambda>(p, page) s.
     bindO (copy_strings 1 (Kernel_array filename) page p s) (\<lambda>(p, page) s.
     bindO (case i_arg of
              Some x \<Rightarrow> bindO (copy_strings 1 (Kernel_strings x) page p s) (\<lambda>(p, page) s. Ret (p, page, argc + 1) s)
            | None \<Rightarrow> Ret (p, page, argc) s) (\<lambda>(p, page, argc) s.
     bindO (copy_strings 1 (Kernel_strings i_name) page p s) (\<lambda>(p, page) s.
     Ret (p, page, argc + 1) s)))))"

section \<open>Executing a program\<close>

record exec =
  a_magic :: u32
  a_text :: u32
  a_data :: u32
  a_bss :: u32
  a_syms :: u32
  a_entry :: u32
  a_trsize :: u32
  a_drsize :: u32

definition exec_header :: "(nat \<Rightarrow> u8) \<Rightarrow> exec" where
  "exec_header d = \<lparr>a_magic = get_u32 d 0, a_text = get_u32 d 4, a_data = get_u32 d 8, a_bss = get_u32 d 12,
     a_syms = get_u32 d 16, a_entry = get_u32 d 20, a_trsize = get_u32 d 24, a_drsize = get_u32 d 28\<rparr>"

definition N_TXTOFF :: "exec \<Rightarrow> u32" where
  "N_TXTOFF ex = (if a_magic ex = ZMAGIC then (1024 - 32) + 32 else 32)"

definition bad_header :: "exec \<Rightarrow> u32 \<Rightarrow> bool" where
  "bad_header ex size_of \<longleftrightarrow> a_magic ex \<noteq> ZMAGIC \<or> a_trsize ex \<noteq> 0 \<or> a_drsize ex \<noteq> 0 \<or>
     a_text ex + a_data ex + a_bss ex > 0x3000000 \<or> size_of < a_text ex + a_data ex + a_syms ex + N_TXTOFF ex"

definition exec_error1 :: "(nat \<Rightarrow> u32) \<Rightarrow> int \<Rightarrow> fs \<Rightarrow> (fs, int) outcome" where
  "exec_error1 page retval s = bindO (eachO (\<lambda>i s. free_page (page i) s) [0..<MAX_ARG_PAGES] s) (\<lambda>_ s. Ret retval s)"

definition exec_error2 :: "kenv \<Rightarrow> nat \<Rightarrow> (nat \<Rightarrow> u32) \<Rightarrow> int \<Rightarrow> fs \<Rightarrow> (fs, int) outcome" where
  "exec_error2 E inode page retval s = bindO (iput E (Some inode) s) (\<lambda>_ s. exec_error1 page retval s)"

text \<open>The permission to execute, and the identity the program will have.\<close>

definition may_exec :: "nat \<Rightarrow> fs \<Rightarrow> bool" where
  "may_exec inode s \<longleftrightarrow>
     (let m = i_mode (inode_table s inode);
          i = (if euid (cur s) = i_uid (inode_table s inode) then drop_bit 6 m
               else if egid (cur s) = ucast (i_gid (inode_table s inode)) then drop_bit 3 m else m)
      in i AND 1 \<noteq> 0 \<or> m AND 0x49 \<noteq> 0 \<and> suser s)"

definition exec_ids :: "nat \<Rightarrow> fs \<Rightarrow> u16 \<times> u16" where
  "exec_ids inode s =
     (let m = i_mode (inode_table s inode) in
      (if m AND S_ISUID \<noteq> 0 then i_uid (inode_table s inode) else euid (cur s),
       if m AND S_ISGID \<noteq> 0 then ucast (i_gid (inode_table s inode)) else egid (cur s)))"

text \<open>Behind the point of no return.\<close>

definition drop_old :: "kenv \<Rightarrow> nat \<Rightarrow> fs \<Rightarrow> (fs, unit) outcome" where
  "drop_old E inode s =
     bindO (case executable (cur s) of Some x \<Rightarrow> iput E (Some x) s | None \<Rightarrow> Ret () s) (\<lambda>_ s.
     let s = upd_cur (\<lambda>t. t\<lparr>executable := Some inode,
               sigactions := (\<lambda>i. if i < 32 then (sigactions t i)\<lparr>sa_handler := 0\<rparr> else sigactions t i)\<rparr>) s in
     bindO (eachO (\<lambda>i s. if bit (close_on_exec (cur s)) i then bindO (sys_close E i s) (\<lambda>_ s. Ret () s) else Ret () s)
              [0..<NR_OPEN] s) (\<lambda>_ s.
     let s = upd_cur (\<lambda>t. t\<lparr>close_on_exec := 0\<rparr>) s in
     bindO (free_page_tables (get_base (ldt (cur s) 1)) (get_limit (ldt (cur s) 1)) s) (\<lambda>_ s.
     bindO (free_page_tables (get_base (ldt (cur s) 2)) (get_limit (ldt (cur s) 2)) s) (\<lambda>_ s.
     let s = (if last_task_used_math s = current s then s\<lparr>last_task_used_math := 0\<rparr> else s)
     in Ret () (upd_cur (\<lambda>t. t\<lparr>used_math := 0\<rparr>) s)))))"

definition clear_bss :: "u32 \<Rightarrow> fs \<Rightarrow> fs" where
  "clear_bss i s = foldl (\<lambda>s k. put_fs_byte 0 (i + of_nat k) s) s [0..<unat ((- i) AND 0xfff)]"

definition start_program :: "kenv \<Rightarrow> (u32 \<Rightarrow> u8) \<Rightarrow> nat \<Rightarrow> exec \<Rightarrow> u16 \<times> u16 \<Rightarrow> int \<Rightarrow> int \<Rightarrow> (nat \<Rightarrow> u32) \<Rightarrow> u32 \<Rightarrow>
    (nat \<Rightarrow> u32) \<Rightarrow> fs \<Rightarrow> (fs, int \<times> (nat \<Rightarrow> u32)) outcome" where
  "start_program E img inode ex ids argc envc page p regs s =
     bindO (drop_old E inode s) (\<lambda>_ s.
     bindO (change_ldt img (a_text ex) page s) (\<lambda>limit s.
     bindO (create_tables (p + (limit - of_nat MAX_ARG_PAGES * 4096)) argc envc s) (\<lambda>p s.
     let s = upd_cur (\<lambda>t. t\<lparr>end_code := a_text ex, end_data := a_data ex + a_text ex, brk := a_bss ex + (a_data ex + a_text ex),
               start_stack := p AND 0xfffff000, euid := fst ids, egid := snd ids\<rparr>) s;
         s = clear_bss (a_text ex + a_data ex) s
     in Ret (0, regs(0 := a_entry ex, 3 := p)) s)))"

text \<open>
  From \<open>restart_interp\<close> on, with \<open>sh_bang\<close> as an argument; a script restarts it once.  The program text it reads is in
  \<open>img\<close>, which depends on the file that is run.
\<close>

definition run_file :: "kenv \<Rightarrow> (nat \<Rightarrow> u32) \<Rightarrow> (nat \<Rightarrow> exec \<Rightarrow> u16 \<times> u16 \<Rightarrow> (nat \<Rightarrow> u8) \<Rightarrow> fs \<Rightarrow> (fs, int \<times> (nat \<Rightarrow> u32)) outcome) \<Rightarrow>
    nat \<Rightarrow> (nat \<Rightarrow> u32) \<Rightarrow> fs \<Rightarrow> (fs, int \<times> (nat \<Rightarrow> u32)) outcome" where
  "run_file E regs go inode page s =
     (let fail = (\<lambda>e s. bindO (exec_error2 E inode page e s) (\<lambda>r s. Ret (r, regs) s)) in
      if \<not> S_ISREG (i_mode (inode_table s inode)) then fail (- EACCES) s
      else let ids = exec_ids inode s in
           if \<not> may_exec inode s then fail (- ENOEXEC) s
           else bindO (bread E (dev_of inode s) (ucast (zone_of inode 0 s)) s) (\<lambda>r s.
                case r of
                  None \<Rightarrow> fail (- EACCES) s
                | Some b \<Rightarrow> let d = b_data (buffers s b) in
                    bindO (brelse E (Some b) s) (\<lambda>_ s. go inode (exec_header d) ids d s)))"

definition run_binary :: "kenv \<Rightarrow> (nat \<Rightarrow> u32 \<Rightarrow> u8) \<Rightarrow> (nat \<Rightarrow> u32) \<Rightarrow> u32 \<Rightarrow> u32 \<Rightarrow> bool \<Rightarrow> int \<Rightarrow> int \<Rightarrow> (nat \<Rightarrow> u32) \<Rightarrow> u32 \<Rightarrow>
    nat \<Rightarrow> exec \<Rightarrow> u16 \<times> u16 \<Rightarrow> fs \<Rightarrow> (fs, int \<times> (nat \<Rightarrow> u32)) outcome" where
  "run_binary E img regs argv envp sh_bang argc envc page p inode ex ids s =
     (let fail = (\<lambda>page e s. bindO (exec_error2 E inode page e s) (\<lambda>r s. Ret (r, regs) s)) in
      if bad_header ex (i_size (inode_table s inode)) then fail page (- ENOEXEC) s
      else if N_TXTOFF ex \<noteq> of_nat BLOCK_SIZE then fail page (- ENOEXEC) s
      else if sh_bang then start_program E (img inode) inode ex ids argc envc page p regs s
      else bindO (copy_strings envc (User_array envp) page p s) (\<lambda>(p, page) s.
           bindO (copy_strings argc (User_array argv) page p s) (\<lambda>(p, page) s.
           if p = 0 then fail page (- ENOMEM) s
           else start_program E (img inode) inode ex ids argc envc page p regs s)))"

definition run_script :: "kenv \<Rightarrow> (nat \<Rightarrow> u32 \<Rightarrow> u8) \<Rightarrow> (nat \<Rightarrow> u32) \<Rightarrow> u32 \<Rightarrow> u32 \<Rightarrow> u32 \<Rightarrow> int \<Rightarrow> int \<Rightarrow> (nat \<Rightarrow> u32) \<Rightarrow> u32 \<Rightarrow>
    nat \<Rightarrow> (nat \<Rightarrow> u8) \<Rightarrow> fs \<Rightarrow> (fs, int \<times> (nat \<Rightarrow> u32)) outcome" where
  "run_script E img regs filename argv envp argc envc page p inode d s =
     bindO (iput E (Some inode) s) (\<lambda>_ s.
     let fail = (\<lambda>page e s. bindO (exec_error1 page e s) (\<lambda>r s. Ret (r, regs) s)) in
     case parse_interp d of
       None \<Rightarrow> fail page (- ENOEXEC) s
     | Some (interp, i_name, i_arg) \<Rightarrow>
         bindO (splice_args argc envc filename argv envp i_name i_arg page p s) (\<lambda>(p, page, argc) s.
         if p = 0 then fail page (- ENOMEM) s
         else bindO (kernel_namei E interp s) (\<lambda>r s.
              case r of
                None \<Rightarrow> fail page (- ENOENT) s
              | Some inode \<Rightarrow>
                  run_file E regs (\<lambda>inode ex ids d s. run_binary E img regs argv envp True argc envc page p inode ex ids s)
                    inode page s)))"

definition do_execve :: "kenv \<Rightarrow> (nat \<Rightarrow> u32 \<Rightarrow> u8) \<Rightarrow> (nat \<Rightarrow> u32) \<Rightarrow> u32 \<Rightarrow> u32 \<Rightarrow> u32 \<Rightarrow> fs \<Rightarrow> (fs, int \<times> (nat \<Rightarrow> u32)) outcome" where
  "do_execve E img regs filename argv envp s =
     (if 0xffff AND regs 1 \<noteq> 0x000f then Panic ''execve called from supervisor mode''
      else bindO (namei E filename s) (\<lambda>r s.
           case r of
             None \<Rightarrow> Ret (- ENOENT, regs) s
           | Some inode \<Rightarrow>
               bindO (count argv s) (\<lambda>argc s.
               bindO (count envp s) (\<lambda>envc s.
               let page = (\<lambda>_. 0); p = 4096 * of_nat MAX_ARG_PAGES - 4 in
               run_file E regs (\<lambda>inode ex ids d s.
                   if d 0 = 35 \<and> d 1 = 33 then run_script E img regs filename argv envp argc envc page p inode d s
                   else run_binary E img regs argv envp False argc envc page p inode ex ids s)
                 inode page s))))"

end
