(* ===== verification/Exec_Props.thy ===== *)
theory Exec_Props
  imports Exec Phys_Bytes Syscalls_Props
begin

unbundle bit_operations_syntax

text \<open>
  Arguments and environment of a program: the strings of the caller arrive in the memory of the new program,
  with tables of pointers to them on its stack.
\<close>

section \<open>The pages of the arguments\<close>

abbreviation (input) ARG_BYTES :: nat where "ARG_BYTES \<equiv> 0x20000"

definition arg_byte :: "(nat \<Rightarrow> u32) \<Rightarrow> fs \<Rightarrow> nat \<Rightarrow> u8" where
  "arg_byte page s k = get_pbyte (page (k div 4096) + of_nat (k mod 4096)) s"

definition pages_ok :: "(nat \<Rightarrow> u32) \<Rightarrow> fs \<Rightarrow> bool" where
  "pages_ok page s \<longleftrightarrow>
     (\<forall>i<MAX_ARG_PAGES. page i \<noteq> 0 \<longrightarrow> (\<exists>n<PAGING_PAGES. page i = pg n \<and> mem_map s n \<noteq> 0)) \<and>
     (\<forall>i<MAX_ARG_PAGES. \<forall>j<MAX_ARG_PAGES. i \<noteq> j \<longrightarrow> page i \<noteq> 0 \<longrightarrow> page i \<noteq> page j)"

text \<open>Only pages were added, and the bytes from \<open>m\<close> on are kept.\<close>

definition mm_only :: "fs \<Rightarrow> fs \<Rightarrow> bool" where
  "mm_only s t \<longleftrightarrow> t = s\<lparr>mem_map := mem_map t, pmem := pmem t\<rparr>"

definition arg_step :: "nat \<Rightarrow> (nat \<Rightarrow> u32) \<Rightarrow> fs \<Rightarrow> (nat \<Rightarrow> u32) \<Rightarrow> fs \<Rightarrow> bool" where
  "arg_step m page s page' t \<longleftrightarrow> mm_only s t \<and> pages_ok page' t \<and> (\<forall>i. page i \<noteq> 0 \<longrightarrow> page' i = page i) \<and>
     (\<forall>k. m \<le> k \<longrightarrow> k < ARG_BYTES \<longrightarrow> page (k div 4096) \<noteq> 0 \<longrightarrow> arg_byte page' t k = arg_byte page s k)"

lemma mm_only_trans:
  assumes "mm_only s t" "mm_only t u"
  shows "mm_only s u"
proof -
  have "t\<lparr>mem_map := a, pmem := b\<rparr> = s\<lparr>mem_map := mem_map t, pmem := pmem t, mem_map := a, pmem := b\<rparr>" for a b
    by (rule arg_cong [where f = "\<lambda>x. x\<lparr>mem_map := a, pmem := b\<rparr>"]) (use assms(1) in \<open>simp only: mm_only_def\<close>)
  then have "t\<lparr>mem_map := a, pmem := b\<rparr> = s\<lparr>mem_map := a, pmem := b\<rparr>" for a b by simp
  then show ?thesis using assms(2) unfolding mm_only_def by simp
qed

lemma mm_only_user:
  assumes "mm_only s t"
  shows "umem t = umem s" "current t = current s" "tstruct t = tstruct s"
proof -
  have "umem t = umem (s\<lparr>mem_map := mem_map t, pmem := pmem t\<rparr>)" "current t = current (s\<lparr>mem_map := mem_map t, pmem := pmem t\<rparr>)"
    "tstruct t = tstruct (s\<lparr>mem_map := mem_map t, pmem := pmem t\<rparr>)" using assms unfolding mm_only_def by metis+
  then show "umem t = umem s" "current t = current s" "tstruct t = tstruct s" by simp_all
qed

lemma arg_stepD:
  "arg_step m page s page' t \<Longrightarrow> m \<le> k \<Longrightarrow> k < ARG_BYTES \<Longrightarrow> page (k div 4096) \<noteq> 0 \<Longrightarrow>
     page' (k div 4096) \<noteq> 0 \<and> arg_byte page' t k = arg_byte page s k"
  by (simp add: arg_step_def)

lemma arg_step_refl: "pages_ok page s \<Longrightarrow> arg_step m page s page s"
  by (simp add: arg_step_def mm_only_def)

lemma arg_step_trans:
  assumes "arg_step m p0 s p1 t" "arg_step n p1 t p2 u" "n \<le> m"
  shows "arg_step m p0 s p2 u"
  using assms mm_only_trans by (auto simp: arg_step_def)

lemma frame_offset:
  assumes "frame p = p" "k < 4096"
  shows "frame (p + of_nat k) = p" "unat (p + of_nat k) = unat p + k"
proof -
  obtain q where q: "unat p = 4096 * q" "q < 1048576" using assms(1) by (rule alignedE)
  have e: "p + of_nat k = of_nat (unat p + k)" by simp
  have "unat p + k < 2 ^ 32" using q assms(2) by simp
  then have "unat (of_nat (unat p + k) :: u32) = unat p + k" by (simp add: unat_of_nat del: of_nat_add)
  then show u: "unat (p + of_nat k) = unat p + k" by (simp only: e)
  have "(4096 * q + k) div 4096 = q" using assms(2) by (intro div_nat_eqI) simp_all
  then show "frame (p + of_nat k) = p" by (simp add: word_unat_eq_iff unat_frame u q)
qed

lemma frame_word: "frame (a AND NOT 3) = frame a"
proof -
  have "frame (a AND NOT (mask 2)) = frame a" by (intro bit_word_eqI) (auto simp: frame_def page_mask bit_simps)
  then show ?thesis by (simp add: mask_eq_exp_minus_1)
qed

lemma get_pbyte_cong: "(\<And>b. frame b = frame a \<Longrightarrow> pmem t b = pmem s b) \<Longrightarrow> get_pbyte a t = get_pbyte a s"
  unfolding get_pbyte_def by (simp only: frame_word)

lemma pages_inj:
  assumes "pages_ok page s" "i < MAX_ARG_PAGES" "j < MAX_ARG_PAGES" "page i \<noteq> 0" "page i = page j"
  shows "i = j"
proof (rule ccontr)
  assume "i \<noteq> j"
  then have "page i \<noteq> page j" using assms(1-4) unfolding pages_ok_def by blast
  then show False using assms(5) by simp
qed

lemma page_addr:
  assumes "pages_ok page s" "j < ARG_BYTES" "k < ARG_BYTES" "page (j div 4096) \<noteq> 0" "page (k div 4096) \<noteq> 0"
  shows "page (j div 4096) + of_nat (j mod 4096) = page (k div 4096) + of_nat (k mod 4096) \<longleftrightarrow> j = k"
    "frame (page (j div 4096) + of_nat (j mod 4096)) = page (j div 4096)"
proof -
  have i: "j div 4096 < MAX_ARG_PAGES" "k div 4096 < MAX_ARG_PAGES" using assms(2,3) by (simp_all add: div_less_iff_less_mult)
  have f: "frame (page (j div 4096)) = page (j div 4096)" "frame (page (k div 4096)) = page (k div 4096)"
    using assms(1,4,5) i pg_props(1) by (auto simp: pages_ok_def)
  have l: "j mod 4096 < 4096" "k mod 4096 < 4096" by simp_all
  note fj = frame_offset [OF f(1) l(1)] and fk = frame_offset [OF f(2) l(2)]
  show "frame (page (j div 4096) + of_nat (j mod 4096)) = page (j div 4096)" by (rule fj)
  show "page (j div 4096) + of_nat (j mod 4096) = page (k div 4096) + of_nat (k mod 4096) \<longleftrightarrow> j = k"
  proof
    assume e: "page (j div 4096) + of_nat (j mod 4096) = page (k div 4096) + of_nat (k mod 4096)"
    then have "page (j div 4096) = page (k div 4096)" using fj(1) fk(1) by (simp only:)
    then have d: "j div 4096 = k div 4096" by (rule pages_inj [OF assms(1) i assms(4)])
    have "unat (page (j div 4096)) + j mod 4096 = unat (page (k div 4096)) + k mod 4096"
      unfolding fj(2) [symmetric] fk(2) [symmetric] by (simp only: e)
    then have "j mod 4096 = k mod 4096" by (simp only: d add_left_cancel)
    then have "j div 4096 * 4096 + j mod 4096 = k div 4096 * 4096 + k mod 4096" by (simp only: d)
    then show "j = k" by (simp only: div_mult_mod_eq)
  qed simp
qed


lemma arg_byte_put:
  assumes "pages_ok page s" "j < ARG_BYTES" "k < ARG_BYTES" "page (j div 4096) \<noteq> 0" "page (k div 4096) \<noteq> 0"
  shows "arg_byte page (put_pbyte v (page (j div 4096) + of_nat (j mod 4096)) s) k = (if k = j then v else arg_byte page s k)"
  using page_addr(1) [OF assms(1,3,2,5,4)] by (simp add: arg_byte_def get_put_pbyte)

text \<open>A new page is none of those in use, and its allocation changes no byte of them.\<close>

lemma fresh_page:
  assumes ok: "pages_ok page s" and i: "i < MAX_ARG_PAGES" "page i = 0"
    and g: "get_free_page s = (g, t)" "g \<noteq> 0"
  shows "pages_ok (page(i := g)) t" "mm_only s t"
    "\<And>k. k < ARG_BYTES \<Longrightarrow> page (k div 4096) \<noteq> 0 \<Longrightarrow> arg_byte (page(i := g)) t k = arg_byte page s k"
proof -
  obtain n where n: "n < PAGING_PAGES" "mem_map s n = 0" "g = pg n"
    "t = s\<lparr>mem_map := (mem_map s)(n := 1), pmem := (\<lambda>a. if frame a = pg n then 0 else pmem s a)\<rparr>"
    using g by (cases rule: get_free_page_cases [of s]) auto
  show "mm_only s t" by (simp add: mm_only_def n(4))
  have new: "page j \<noteq> g" if j: "j < MAX_ARG_PAGES" "page j \<noteq> 0" for j
  proof -
    obtain m where "m < PAGING_PAGES" "page j = pg m" "mem_map s m \<noteq> 0" using ok j unfolding pages_ok_def by blast
    then show ?thesis using n pg_eq_iff by auto
  qed
  show "pages_ok (page(i := g)) t" unfolding pages_ok_def
  proof (intro conjI allI impI)
    fix j assume j: "j < MAX_ARG_PAGES" "(page(i := g)) j \<noteq> 0"
    show "\<exists>m<PAGING_PAGES. (page(i := g)) j = pg m \<and> mem_map t m \<noteq> 0"
    proof (cases "j = i")
      case False
      then obtain m where "m < PAGING_PAGES" "page j = pg m" "mem_map s m \<noteq> 0" using ok j unfolding pages_ok_def by auto
      then show ?thesis using False n by auto
    qed (use n in auto)
  next
    fix a b assume ab: "a < MAX_ARG_PAGES" "b < MAX_ARG_PAGES" "a \<noteq> b" "(page(i := g)) a \<noteq> 0"
    show "(page(i := g)) a \<noteq> (page(i := g)) b"
    proof (cases "a = i \<or> b = i")
      case True
      then show ?thesis using ab new [of a] new [of b] g(2) by (cases "page b = 0"; cases "page a = 0") auto
    next
      case False
      then show ?thesis using ab pages_inj [OF ok ab(1,2)] by auto
    qed
  qed
  fix k assume k: "k < ARG_BYTES" "page (k div 4096) \<noteq> 0"
  then have k': "k div 4096 < MAX_ARG_PAGES" by (simp add: div_less_iff_less_mult)
  then have ne: "k div 4096 \<noteq> i" "page (k div 4096) \<noteq> g" using k i new by auto
  have "frame (page (k div 4096) + of_nat (k mod 4096)) \<noteq> g" using page_addr(2) [OF ok k(1,1,2,2)] ne by simp
  then show "arg_byte (page(i := g)) t k = arg_byte page s k"
    using ne by (simp add: arg_byte_def n(3,4)) (intro get_pbyte_cong, simp)
qed


section \<open>Copying\<close>

definition full :: "fs \<Rightarrow> bool" where
  "full s \<longleftrightarrow> (\<forall>n<PAGING_PAGES. mem_map s n \<noteq> 0)"

text \<open>The offset is either spent or that of the position in the page at hand.\<close>

definition copier_ok :: "copier \<Rightarrow> fs \<Rightarrow> bool" where
  "copier_ok c s \<longleftrightarrow> pages_ok (c_page c) s \<and> unat (c_p c) \<le> ARG_BYTES \<and>
     (c_offset c = 0 \<or> 0 < c_offset c \<and> c_offset c = int (unat (c_p c) mod 4096) \<and>
        c_pag c = c_page c (unat (c_p c) div 4096) \<and> c_pag c \<noteq> 0)"

definition placed :: "copier \<Rightarrow> bool" where
  "placed c \<longleftrightarrow> c_offset c = int (unat (c_p c) mod 4096) \<and> c_pag c = c_page c (unat (c_p c) div 4096) \<and> c_pag c \<noteq> 0"

lemma placed_ok: "placed c \<Longrightarrow> pages_ok (c_page c) s \<Longrightarrow> unat (c_p c) \<le> ARG_BYTES \<Longrightarrow> copier_ok c s"
  by (auto simp: placed_def copier_ok_def)

lemma next_page_ok:
  assumes ok: "pages_ok (c_page c) s" and p: "unat (c_p c) < ARG_BYTES"
  shows "\<exists>b c' t. next_page c s = Ret (b, c') t \<and> arg_step 0 (c_page c) s (c_page c') t \<and> c_p c' = c_p c \<and> (if b then placed c' else full t)"
proof -
  let ?i = "unat (c_p c) div 4096"
  have d: "unat (c_p c div 4096) = ?i" "unat (c_p c mod 4096) = unat (c_p c) mod 4096" by (simp_all add: unat_div unat_mod)
  have i: "?i < MAX_ARG_PAGES" using p by (simp add: div_less_iff_less_mult)
  show ?thesis
  proof (cases "c_page c ?i = 0")
    case False
    then show ?thesis using i arg_step_refl [OF ok] by (intro exI [of _ True]) (simp add: next_page_def d Let_def placed_def not_le)
  next
    case True
    obtain g t where g: "get_free_page s = (g, t)" by force
    show ?thesis
    proof (cases "g = 0")
      case True
      have "t = s \<and> full s"
        using g True pg_props(4) by (cases rule: get_free_page_cases [of s]) (auto simp: full_def)
      moreover have "(c_page c)(?i := 0) = c_page c" using \<open>c_page c ?i = 0\<close> by auto
      ultimately show ?thesis using \<open>c_page c ?i = 0\<close> i g True arg_step_refl [OF ok] by (intro exI [of _ False]) (simp add: next_page_def d Let_def)
    next
      case new: False
      note f = fresh_page [OF ok i True g new]
      have "arg_step 0 (c_page c) s ((c_page c)(?i := g)) t" using f True by (auto simp: arg_step_def)
      then show ?thesis using True i g new by (intro exI [of _ True]) (simp add: next_page_def d Let_def placed_def)
    qed
  qed
qed

lemma advance_ok:
  assumes ok: "copier_ok c s" and p: "0 < unat (c_p c)"
  defines "c1 \<equiv> c\<lparr>c_p := c_p c - 1, c_offset := c_offset c - 1\<rparr>"
  shows "\<exists>b c' t. (if c_offset c1 < 0 then next_page c1 s else Ret (True, c1) s) = Ret (b, c') t \<and>
    arg_step 0 (c_page c) s (c_page c') t \<and> unat (c_p c') = unat (c_p c) - 1 \<and> (if b then placed c' else full t)"
proof -
  have u: "unat (c_p c - 1) = unat (c_p c) - 1" using p by (simp add: unat_sub word_le_nat_alt)
  have pg: "pages_ok (c_page c1) s" "unat (c_p c1) < ARG_BYTES" using ok p u by (auto simp: copier_ok_def c1_def)
  show ?thesis
  proof (cases "c_offset c = 0")
    case True
    then have "c_offset c1 < 0" by (simp add: c1_def)
    moreover obtain b c' t where "next_page c1 s = Ret (b, c') t" "arg_step 0 (c_page c1) s (c_page c') t" "c_p c' = c_p c1"
      "if b then placed c' else full t" using next_page_ok [OF pg] by blast
    ultimately show ?thesis using u by (intro exI [of _ b] exI [of _ c'] exI [of _ t]) (simp add: c1_def)
  next
    case False
    then have f: "0 < c_offset c" "c_offset c = int (unat (c_p c) mod 4096)" "c_pag c = c_page c (unat (c_p c) div 4096)" "c_pag c \<noteq> 0"
      using ok by (auto simp: copier_ok_def)
    obtain q where q: "unat (c_p c) = Suc q" using p by (cases "unat (c_p c)") auto
    have m: "Suc q mod 4096 \<noteq> 0" using f q by auto
    then have "Suc q mod 4096 = Suc (q mod 4096)" "Suc q div 4096 = q div 4096" by (simp_all add: mod_Suc div_Suc split: if_splits)
    then have "placed c1" "\<not> c_offset c1 < 0" using f q u by (simp_all add: placed_def c1_def)
    then show ?thesis using arg_step_refl [of "c_page c" s] ok u by (auto simp: copier_ok_def c1_def)
  qed
qed

lemma put_placed:
  assumes "placed c" "pages_ok (c_page c) s" "unat (c_p c) < ARG_BYTES"
  shows "arg_step (Suc (unat (c_p c))) (c_page c) s (c_page c) (put_pbyte v (c_pag c + of_int (c_offset c)) s)"
    "arg_byte (c_page c) (put_pbyte v (c_pag c + of_int (c_offset c)) s) (unat (c_p c)) = v"
proof -
  let ?j = "unat (c_p c)"
  let ?t = "put_pbyte v (c_pag c + of_int (c_offset c)) s"
  have a: "c_pag c + of_int (c_offset c) = c_page c (?j div 4096) + of_nat (?j mod 4096)" "c_page c (?j div 4096) \<noteq> 0"
    using assms(1) by (auto simp: placed_def)
  note put = arg_byte_put [OF assms(2,3) _ a(2), of _ v, folded a(1)]
  have "mm_only s ?t" "pages_ok (c_page c) ?t"
    using assms(2) by (simp_all add: mm_only_def put_pbyte_def poke_def Let_def pages_ok_def)
  then show "arg_step (Suc ?j) (c_page c) s (c_page c) ?t" using put by (auto simp: arg_step_def)
  show "arg_byte (c_page c) ?t ?j = v" using put [OF assms(3) a(2)] by simp
qed


lemma arg_step_mono: "arg_step m p s p' t \<Longrightarrow> m \<le> n \<Longrightarrow> arg_step n p s p' t"
  by (auto simp: arg_step_def)

lemma str_byte_mm: "mm_only s t \<Longrightarrow> str_byte q k t = str_byte q k s"
  using mm_only_user [of s t] by (simp add: str_byte_def get_fs_byte_def split: str_ptr.splits)

lemma copy_bytes_ok:
  assumes "copier_ok c s" "len \<le> unat (c_p c)"
  shows "\<exists>b c' t. copy_bytes len q c s = Ret (b, c') t \<and> arg_step (unat (c_p c)) (c_page c) s (c_page c') t \<and>
    (if b then copier_ok c' t \<and> unat (c_p c') = unat (c_p c) - len \<and>
       (\<forall>k<len. c_page c' ((unat (c_p c) - len + k) div 4096) \<noteq> 0 \<and> arg_byte (c_page c') t (unat (c_p c) - len + k) = str_byte q k s)
     else full t)"
  using assms
proof (induction len arbitrary: c s)
  case 0
  then show ?case using arg_step_refl by (intro exI [of _ True] exI [of _ c] exI [of _ s]) (simp add: copier_ok_def)
next
  case (Suc len)
  define P where "P = unat (c_p c)"
  define c1 where "c1 = c\<lparr>c_p := c_p c - 1, c_offset := c_offset c - 1\<rparr>"
  have P: "0 < P" "P \<le> ARG_BYTES" using Suc.prems by (simp_all add: P_def copier_ok_def)
  obtain b c2 t where t: "(if c_offset c1 < 0 then next_page c1 s else Ret (True, c1) s) = Ret (b, c2) t"
    "arg_step 0 (c_page c) s (c_page c2) t" "unat (c_p c2) = P - 1" "if b then placed c2 else full t"
    using advance_ok [OF Suc.prems(1)] P(1) unfolding c1_def P_def by blast
  show ?case
  proof (cases b)
    case False
    have "copy_bytes (Suc len) q c s = Ret (False, c2) t" using t(1) False by (simp add: c1_def [symmetric] Let_def)
    moreover have "arg_step (unat (c_p c)) (c_page c) s (c_page c2) t" by (rule arg_step_mono [OF t(2)]) simp
    ultimately show ?thesis using t(4) False by (intro exI [of _ False] exI [of _ c2] exI [of _ t]) (simp del: copy_bytes.simps)
  next
    case True
    define u where "u = put_pbyte (str_byte q len t) (c_pag c2 + of_int (c_offset c2)) t"
    have pl: "placed c2" "pages_ok (c_page c2) t" "unat (c_p c2) < ARG_BYTES" using t True P by (simp_all add: arg_step_def)
    note put = put_placed [OF pl, of "str_byte q len t", folded u_def]
    have s1: "arg_step P (c_page c) s (c_page c2) u"
      using arg_step_trans [OF arg_step_mono [OF t(2)] put(1), of P] t(3) P by simp
    have mm: "mm_only s t" "mm_only s u" using t(2) s1 by (simp_all add: arg_step_def)
    have cok: "copier_ok c2 u" by (rule placed_ok [OF pl(1)]) (use s1 pl(3) in \<open>simp_all add: arg_step_def\<close>)
    have "len \<le> unat (c_p c2)" using Suc.prems(2) t(3) P_def by simp
    from Suc.IH [OF cok this, unfolded t(3)] obtain b' c' v where v: "copy_bytes len q c2 u = Ret (b', c') v" "arg_step (P - 1) (c_page c2) u (c_page c') v"
      "if b' then copier_ok c' v \<and> unat (c_p c') = P - 1 - len \<and>
       (\<forall>k<len. c_page c' ((P - 1 - len + k) div 4096) \<noteq> 0 \<and> arg_byte (c_page c') v (P - 1 - len + k) = str_byte q k u) else full v"
      by blast
    have cp: "copy_bytes (Suc len) q c s = Ret (b', c') v" using t(1) True v(1) by (simp add: c1_def [symmetric] u_def Let_def)
    have st: "arg_step P (c_page c) s (c_page c') v" by (rule arg_step_trans [OF s1 v(2)]) simp
    have last: "c_page c' ((P - 1) div 4096) \<noteq> 0 \<and> arg_byte (c_page c') v (P - 1) = str_byte q len s"
    proof -
      have "c_page c2 ((P - 1) div 4096) \<noteq> 0" using pl(1) t(3) by (auto simp: placed_def)
      moreover have "P - 1 < ARG_BYTES" using P by linarith
      ultimately have "c_page c' ((P - 1) div 4096) \<noteq> 0 \<and> arg_byte (c_page c') v (P - 1) = arg_byte (c_page c2) u (P - 1)"
        using arg_stepD [OF v(2) order.refl] by blast
      then show ?thesis using put(2) t(3) str_byte_mm [OF mm(1)] by (simp only:) simp
    qed
    have byt: "c_page c' ((P - Suc len + k) div 4096) \<noteq> 0 \<and> arg_byte (c_page c') v (P - Suc len + k) = str_byte q k s" if "k < Suc len" "b'" for k
    proof (cases "k = len")
      case True
      have "P - Suc len + len = P - 1" using Suc.prems(2) P_def by simp
      then show ?thesis using last True by simp
    next
      case False
      then show ?thesis using v(3) that str_byte_mm [OF mm(2)] by simp
    qed
    have fin: "if b' then copier_ok c' v \<and> unat (c_p c') = P - Suc len \<and>
       (\<forall>k<Suc len. c_page c' ((P - Suc len + k) div 4096) \<noteq> 0 \<and> arg_byte (c_page c') v (P - Suc len + k) = str_byte q k s) else full v"
      using v(3) byt by (cases b') (simp_all only: if_True if_False, simp)
    show ?thesis unfolding P_def [symmetric] by (intro exI conjI) (rule cp, rule st, rule fin)
  qed
qed


section \<open>Strings\<close>

definition str_is :: "str_ptr \<Rightarrow> u8 list \<Rightarrow> fs \<Rightarrow> bool" where
  "str_is q x s \<longleftrightarrow> 0 \<notin> set x \<and> (\<forall>k<length x. str_byte q k s = x ! k) \<and> str_byte q (length x) s = 0"

text \<open>The strings \<open>xs\<close> one behind the other, with their zero bytes.\<close>

abbreviation flat :: "u8 list list \<Rightarrow> u8 list" where
  "flat xs \<equiv> concat (map (\<lambda>x. x @ [0]) xs)"

definition in_area :: "nat \<Rightarrow> u8 list \<Rightarrow> (nat \<Rightarrow> u32) \<Rightarrow> fs \<Rightarrow> bool" where
  "in_area m bs page s \<longleftrightarrow> (\<forall>k<length bs. page ((m + k) div 4096) \<noteq> 0 \<and> arg_byte page s (m + k) = bs ! k)"

lemma in_area_append:
  "in_area m bs page s \<Longrightarrow> in_area (m + length bs) cs page s \<Longrightarrow> in_area m (bs @ cs) page s"
  unfolding in_area_def
proof (intro allI impI)
  fix k
  assume a: "\<forall>k<length bs. page ((m + k) div 4096) \<noteq> 0 \<and> arg_byte page s (m + k) = bs ! k"
    "\<forall>k<length cs. page ((m + length bs + k) div 4096) \<noteq> 0 \<and> arg_byte page s (m + length bs + k) = cs ! k"
    "k < length (bs @ cs)"
  show "page ((m + k) div 4096) \<noteq> 0 \<and> arg_byte page s (m + k) = (bs @ cs) ! k"
  proof (cases "k < length bs")
    case False
    then have "k - length bs < length cs" "m + length bs + (k - length bs) = m + k" using a(3) by simp_all
    then show ?thesis using a(2) False by (metis nth_append)
  qed (use a in \<open>simp add: nth_append\<close>)
qed

lemma in_area_step:
  assumes "in_area n bs page s" "arg_step m page s page' t" "m \<le> n" "n + length bs \<le> ARG_BYTES"
  shows "in_area n bs page' t"
  using assms(1,3,4) arg_stepD [OF assms(2)] by (simp add: in_area_def)

lemma str_is_nth: "str_is q x s \<longleftrightarrow> 0 \<notin> set x \<and> (\<forall>k<length (x @ [0]). str_byte q k s = (x @ [0]) ! k)"
  by (auto simp: str_is_def nth_append less_Suc_eq)

lemma str_length_ok:
  assumes "str_is q x s"
  shows "str_length q s = Ret (length x + 1) s"
proof -
  define body where "body = (\<lambda>len s. if str_byte q len s \<noteq> 0 then Ret (Inl (len + 1)) s else Ret (Inr (len + 1)) s :: (fs, nat + nat) outcome)"
  have "loopO body (length x - d) s = Ret (length x + 1) s" if "d \<le> length x" for d
    using that
  proof (induction d)
    case 0
    then show ?case using assms by (simp add: loopO_done body_def str_is_def)
  next
    case (Suc d)
    have "x ! (length x - Suc d) \<in> set x" using Suc.prems by simp
    then have "x ! (length x - Suc d) \<noteq> 0" using assms by (metis str_is_def)
    then have "str_byte q (length x - Suc d) s \<noteq> 0" using assms Suc.prems by (simp add: str_is_def)
    then have "loopO body (length x - Suc d) s = loopO body (length x - d) s"
      using Suc.prems by (subst loopO_again [where w = "length x - d"]) (simp_all add: body_def Suc_diff_Suc)
    then show ?case using Suc by simp
  qed
  from this [of "length x"] show ?thesis by (simp add: str_length_def body_def)
qed

lemma str_is_mm: "mm_only s t \<Longrightarrow> str_is q x t = str_is q x s"
  by (simp add: str_is_def str_byte_mm)

lemma arg_ptr_mm: "mm_only s t \<Longrightarrow> arg_ptr a i t = arg_ptr a i s"
  using mm_only_user [of s t] get_fs_long_cong [of t s] by (simp add: arg_ptr_def split: arg_array.splits)

definition strings_at :: "arg_array \<Rightarrow> u8 list list \<Rightarrow> fs \<Rightarrow> bool" where
  "strings_at a xs s \<longleftrightarrow> (\<forall>i<length xs. arg_ptr a i s \<noteq> User_string 0 \<and> str_is (arg_ptr a i s) (xs ! i) s)"

lemma strings_at_mm: "mm_only s t \<Longrightarrow> strings_at a xs t = strings_at a xs s"
  by (simp add: strings_at_def str_is_mm arg_ptr_mm)

lemma strings_at_snoc:
  "strings_at a (xs @ [x]) s \<longleftrightarrow> strings_at a xs s \<and> arg_ptr a (length xs) s \<noteq> User_string 0 \<and> str_is (arg_ptr a (length xs) s) x s"
  by (auto simp: strings_at_def nth_append less_Suc_eq)

lemma copy_loop_ok:
  assumes "copier_ok c s" "strings_at a xs s" "length (flat xs) \<le> unat (c_p c)"
  shows "\<exists>b c' t. copy_loop (length xs) a c s = Ret (b, c') t \<and> arg_step (unat (c_p c)) (c_page c) s (c_page c') t \<and>
    (if b then copier_ok c' t \<and> unat (c_p c') = unat (c_p c) - length (flat xs) \<and>
       in_area (unat (c_p c) - length (flat xs)) (flat xs) (c_page c') t
     else full t)"
  using assms
proof (induction xs arbitrary: c s rule: rev_induct)
  case Nil
  then show ?case using arg_step_refl by (intro exI [of _ True] exI [of _ c] exI [of _ s]) (simp add: copier_ok_def in_area_def)
next
  case (snoc x xs)
  define P where "P = unat (c_p c)"
  let ?q = "arg_ptr a (length xs) s"
  let ?n = "length x + 1"
  have q: "?q \<noteq> User_string 0" "str_is ?q x s" "strings_at a xs s" using snoc.prems(2) by (simp_all add: strings_at_snoc)
  have P: "P \<le> ARG_BYTES" "length (flat xs) + ?n \<le> P" using snoc.prems by (simp_all add: P_def copier_ok_def)
  then have "?n \<le> unat (c_p c)" by (simp add: P_def)
  from copy_bytes_ok [OF snoc.prems(1) this, of ?q, folded P_def] obtain b c2 t where t: "copy_bytes ?n ?q c s = Ret (b, c2) t"
    "arg_step P (c_page c) s (c_page c2) t"
    "if b then copier_ok c2 t \<and> unat (c_p c2) = P - ?n \<and>
       (\<forall>k<?n. c_page c2 ((P - ?n + k) div 4096) \<noteq> 0 \<and> arg_byte (c_page c2) t (P - ?n + k) = str_byte ?q k s) else full t" by blast
  have step: "copy_loop (length (xs @ [x])) a c s = (if b then copy_loop (length xs) a c2 t else Ret (False, c2) t)"
    using q(1) t(1) str_length_ok [OF q(2)] by simp
  show ?case
  proof (cases b)
    case False
    then show ?thesis using step t unfolding P_def [symmetric] by (intro exI [of _ False] exI [of _ c2] exI [of _ t]) simp
  next
    case True
    have c2: "copier_ok c2 t" "unat (c_p c2) = P - ?n" and mm: "mm_only s t" using t(2,3) True by (simp_all add: arg_step_def)
    have xa: "in_area (P - ?n) (x @ [0]) (c_page c2) t" using t(3) True q(2) unfolding str_is_nth in_area_def by simp
    have "length (flat xs) \<le> unat (c_p c2)" using P c2(2) by simp
    from snoc.IH [OF c2(1) _ this] obtain b' c' u where u: "copy_loop (length xs) a c2 t = Ret (b', c') u" "arg_step (P - ?n) (c_page c2) t (c_page c') u"
      "if b' then copier_ok c' u \<and> unat (c_p c') = P - ?n - length (flat xs) \<and>
         in_area (P - ?n - length (flat xs)) (flat xs) (c_page c') u else full u"
      using q(3) strings_at_mm [OF mm] unfolding c2(2) by blast
    have st: "arg_step P (c_page c) s (c_page c') u" by (rule arg_step_trans [OF t(2) u(2)]) simp
    have "in_area (P - ?n) (x @ [0]) (c_page c') u" by (rule in_area_step [OF xa u(2)]) (use P in simp_all)
    moreover have e: "P - ?n - length (flat xs) = P - length (flat (xs @ [x]))" "P - length (flat (xs @ [x])) + length (flat xs) = P - ?n" using P by simp_all
    ultimately have "in_area (P - length (flat (xs @ [x]))) (flat (xs @ [x])) (c_page c') u" if b'
      using u(3) that in_area_append [of "P - length (flat (xs @ [x]))" "flat xs" "c_page c'" u "x @ [0]"] by simp
    then have fin: "if b' then copier_ok c' u \<and> unat (c_p c') = P - length (flat (xs @ [x])) \<and>
         in_area (P - length (flat (xs @ [x]))) (flat (xs @ [x])) (c_page c') u else full u"
      using u(3) e(1) by simp
    have "copy_loop (length (xs @ [x])) a c s = Ret (b', c') u" using step True u(1) by simp
    then show ?thesis unfolding P_def [symmetric] by (intro exI conjI) (assumption, rule st, rule fin)
  qed
qed


lemma copy_strings_ok:
  assumes "pages_ok page s" "unat p \<le> ARG_BYTES" "strings_at a xs s" "length (flat xs) < unat p"
  shows "\<exists>p' page' t. copy_strings (int (length xs)) a page p s = Ret (p', page') t \<and> arg_step (unat p) page s page' t \<and>
    (p' = 0 \<and> full t \<or> unat p' = unat p - length (flat xs) \<and> in_area (unat p') (flat xs) page' t)"
proof -
  let ?c = "\<lparr>c_p = p, c_pag = 0, c_offset = 0, c_page = page\<rparr>"
  have l: "copier_ok ?c s" "length (flat xs) \<le> unat (c_p ?c)" using assms by (simp_all add: copier_ok_def)
  from copy_loop_ok [OF l(1) assms(3) l(2), unfolded copier.select_convs] obtain b c t where t: "copy_loop (length xs) a ?c s = Ret (b, c) t" "arg_step (unat p) page s (c_page c) t"
    "if b then copier_ok c t \<and> unat (c_p c) = unat p - length (flat xs) \<and> in_area (unat p - length (flat xs)) (flat xs) (c_page c) t else full t"
    by blast
  have "p \<noteq> 0" using assms(4) by auto
  then have "copy_strings (int (length xs)) a page p s = Ret (if b then c_p c else 0, c_page c) t" using t(1) by (simp add: copy_strings_def)
  then show ?thesis using t(2,3) by (cases b) auto
qed

section \<open>The tables\<close>

text \<open>Bytes of user memory, and a table of pointers to strings ended by a null pointer.\<close>

definition user_bytes :: "u32 \<Rightarrow> u8 list \<Rightarrow> fs \<Rightarrow> bool" where
  "user_bytes p bs s \<longleftrightarrow> (\<forall>k<length bs. get_fs_byte (p + of_nat k) s = bs ! k)"

definition vector_at :: "u32 \<Rightarrow> u8 list list \<Rightarrow> fs \<Rightarrow> bool" where
  "vector_at v xs s \<longleftrightarrow> strings_at (User_array v) xs s \<and> get_fs_long (v + 4 * of_nat (length xs)) s = 0"

lemma user_bytes_append: "user_bytes p (xs @ ys) s \<longleftrightarrow> user_bytes p xs s \<and> user_bytes (p + of_nat (length xs)) ys s"
proof
  assume a: "user_bytes p (xs @ ys) s"
  have "get_fs_byte (p + of_nat (length xs) + of_nat k) s = ys ! k" if "k < length ys" for k
    using a [unfolded user_bytes_def, rule_format, of "length xs + k"] that by (simp add: add.assoc nth_append)
  moreover have "get_fs_byte (p + of_nat k) s = xs ! k" if "k < length xs" for k
    using a [unfolded user_bytes_def, rule_format, of k] that by (simp add: nth_append)
  ultimately show "user_bytes p xs s \<and> user_bytes (p + of_nat (length xs)) ys s" by (simp add: user_bytes_def)
next
  assume a: "user_bytes p xs s \<and> user_bytes (p + of_nat (length xs)) ys s"
  show "user_bytes p (xs @ ys) s" unfolding user_bytes_def
  proof (intro allI impI)
    fix k assume k: "k < length (xs @ ys)"
    show "get_fs_byte (p + of_nat k) s = (xs @ ys) ! k"
    proof (cases "k < length xs")
      case False
      then have "p + of_nat k = p + of_nat (length xs) + of_nat (k - length xs)" by (simp add: add.assoc of_nat_add [symmetric] del: of_nat_add)
      moreover have "get_fs_byte (p + of_nat (length xs) + of_nat (k - length xs)) s = ys ! (k - length xs)"
        using a k False by (simp add: user_bytes_def del: of_nat_diff)
      ultimately show ?thesis using False by (simp only: nth_append if_False)
    qed (use a in \<open>simp add: user_bytes_def nth_append\<close>)
  qed
qed

lemma user_bytes_str: "0 \<notin> set x \<Longrightarrow> user_bytes p (x @ [0]) s \<Longrightarrow> str_is (User_string p) x s"
  by (simp add: str_is_nth user_bytes_def str_byte_def)

lemma skip_string_ok:
  assumes "str_is (User_string p) x s"
  shows "skip_string p s = Ret (p + of_nat (length x + 1)) s"
proof -
  define body where "body = (\<lambda>p s. if get_fs_byte p s \<noteq> 0 then Ret (Inl (p + 1)) s else Ret (Inr (p + 1)) s :: (fs, u32 + u32) outcome)"
  have "loopO body (p + of_nat (length x - d)) s = Ret (p + of_nat (length x + 1)) s" if "d \<le> length x" for d
    using that
  proof (induction d)
    case 0
    then show ?case using assms by (simp add: loopO_done body_def str_is_def str_byte_def)
  next
    case (Suc d)
    have "x ! (length x - Suc d) \<in> set x" using Suc.prems by simp
    then have "x ! (length x - Suc d) \<noteq> 0" using assms by (metis str_is_def)
    then have "get_fs_byte (p + of_nat (length x - Suc d)) s \<noteq> 0" using assms Suc.prems by (simp add: str_is_def str_byte_def del: of_nat_diff)
    moreover have "p + of_nat (length x - Suc d) + 1 = p + of_nat (Suc (length x - Suc d))" by simp
    then have "p + of_nat (length x - Suc d) + 1 = p + of_nat (length x - d)" using Suc.prems by (simp only: Suc_diff_Suc Suc_le_eq)
    ultimately have "loopO body (p + of_nat (length x - Suc d)) s = loopO body (p + of_nat (length x - d)) s"
      by (subst loopO_again [where w = "p + of_nat (length x - d)"]) (simp_all add: body_def del: of_nat_diff)
    then show ?case using Suc by (simp del: of_nat_diff)
  qed
  from this [of "length x"] show ?thesis by (simp add: skip_string_def body_def)
qed


text \<open>User memory changes at most from \<open>lo\<close> up to \<open>hi\<close>.\<close>

definition writes :: "nat \<Rightarrow> nat \<Rightarrow> fs \<Rightarrow> fs \<Rightarrow> bool" where
  "writes lo hi s t \<longleftrightarrow> (\<forall>a :: u32. unat a < lo \<or> hi \<le> unat a \<longrightarrow> get_fs_byte a t = get_fs_byte a s)"

lemma unat_add_small: "unat (a :: u32) + k < 2 ^ 32 \<Longrightarrow> unat (a + of_nat k) = unat a + k"
proof -
  assume l: "unat a + k < 2 ^ 32"
  have e: "a + of_nat k = of_nat (unat a + k)" by simp
  have "unat (of_nat (unat a + k) :: u32) = unat a + k" using l by (simp add: unat_of_nat del: of_nat_add)
  then show ?thesis by (simp only: e)
qed

lemma writes_mono: "writes lo hi s t \<Longrightarrow> lo' \<le> lo \<Longrightarrow> hi \<le> hi' \<Longrightarrow> writes lo' hi' s t"
  by (auto simp: writes_def)

lemma writes_trans: "writes lo hi s t \<Longrightarrow> writes lo hi t u \<Longrightarrow> writes lo hi s u"
  by (simp add: writes_def)

lemma put_long_writes:
  assumes "unat a + 4 \<le> hi" "hi < 2 ^ 32"
  shows "writes (unat a) hi s (put_fs_long v a s)"
  unfolding writes_def
proof (intro allI impI)
  fix b :: u32 assume b: "unat b < unat a \<or> hi \<le> unat b"
  have "unat (a + of_nat k) = unat a + k" if "k < 4" for k using assms that by (intro unat_add_small) simp
  from this [of 1] this [of 2] this [of 3] have "b \<noteq> a \<and> b \<noteq> a + 1 \<and> b \<noteq> a + 2 \<and> b \<noteq> a + 3" using assms b by auto
  then show "get_fs_byte b (put_fs_long v a s) = get_fs_byte b s" by (simp add: put_fs_long_def)
qed

lemma user_bytes_writes:
  assumes "user_bytes p bs s" "writes lo hi s t" "hi \<le> unat p" "unat p + length bs < 2 ^ 32"
  shows "user_bytes p bs t"
  unfolding user_bytes_def
proof (intro allI impI)
  fix k assume k: "k < length bs"
  have "unat (p + of_nat k) = unat p + k" using assms(4) k by (intro unat_add_small) simp
  then have "get_fs_byte (p + of_nat k) t = get_fs_byte (p + of_nat k) s" using assms(2,3) by (simp add: writes_def)
  then show "get_fs_byte (p + of_nat k) t = bs ! k" using assms(1) k by (simp add: user_bytes_def)
qed

lemma long_writes:
  assumes "writes lo hi s t" "unat a + 4 \<le> lo \<or> hi \<le> unat a" "unat a + 4 \<le> 2 ^ 32"
  shows "get_fs_long a t = get_fs_long a s"
proof -
  have "get_fs_byte (a + of_nat k) t = get_fs_byte (a + of_nat k) s" if "k < 4" for k
  proof -
    have "unat (a + of_nat k) = unat a + k" using assms(3) that by (intro unat_add_small) simp
    then show ?thesis using assms(1,2) that by (auto simp: writes_def)
  qed
  from this [of 0] this [of 1] this [of 2] this [of 3] show ?thesis by (simp add: get_fs_long_def)
qed

lemma vector_Cons:
  assumes "get_fs_long v s = p" "p \<noteq> 0" "str_is (User_string p) x s" "vector_at (v + 4) xs s"
  shows "vector_at v (x # xs) s"
proof -
  have "arg_ptr (User_array v) i s \<noteq> User_string 0 \<and> str_is (arg_ptr (User_array v) i s) ((x # xs) ! i) s" if "i < length (x # xs)" for i
  proof (cases i)
    case 0
    then show ?thesis using assms(1-3) by (simp add: arg_ptr_def)
  next
    case (Suc j)
    have "arg_ptr (User_array v) i s = arg_ptr (User_array (v + 4)) j s" by (simp add: arg_ptr_def Suc algebra_simps)
    then show ?thesis using assms(4) that Suc by (simp add: vector_at_def strings_at_def)
  qed
  moreover have "get_fs_long (v + 4 * of_nat (length (x # xs))) s = 0" using assms(4) by (simp add: vector_at_def algebra_simps)
  ultimately show ?thesis by (simp add: vector_at_def strings_at_def)
qed

text \<open>The strings of a table lie between \<open>lo\<close> and \<open>hi\<close>.\<close>

definition strings_in :: "nat \<Rightarrow> nat \<Rightarrow> u32 \<Rightarrow> u8 list list \<Rightarrow> fs \<Rightarrow> bool" where
  "strings_in lo hi v xs s \<longleftrightarrow> (\<forall>i<length xs. lo \<le> unat (get_fs_long (v + 4 * of_nat i) s) \<and>
     unat (get_fs_long (v + 4 * of_nat i) s) + length (xs ! i) + 1 \<le> hi)"

lemma strings_in_mono: "strings_in lo hi v xs s \<Longrightarrow> hi \<le> hi' \<Longrightarrow> strings_in lo hi' v xs s"
  by (force simp: strings_in_def)

lemma strings_in_Cons:
  assumes "lo \<le> unat (get_fs_long v s)" "unat (get_fs_long v s) + length x + 1 \<le> hi" "strings_in lo' hi (v + 4) xs s" "lo \<le> lo'"
  shows "strings_in lo hi v (x # xs) s"
  unfolding strings_in_def
proof (intro allI impI)
  fix i assume i: "i < length (x # xs)"
  show "lo \<le> unat (get_fs_long (v + 4 * of_nat i) s) \<and> unat (get_fs_long (v + 4 * of_nat i) s) + length ((x # xs) ! i) + 1 \<le> hi"
  proof (cases i)
    case (Suc j)
    then have "v + 4 * of_nat i = v + 4 + 4 * of_nat j" by (simp add: algebra_simps)
    moreover have "lo' \<le> unat (get_fs_long (v + 4 + 4 * of_nat j) s) \<and> unat (get_fs_long (v + 4 + 4 * of_nat j) s) + length (xs ! j) + 1 \<le> hi"
      using assms(3) i Suc by (simp add: strings_in_def)
    ultimately show ?thesis using assms(4) Suc by (simp add: add.assoc)
  qed (use assms in simp)
qed

lemma fill_table_ok:
  assumes "user_bytes p (flat xs) s" "\<forall>x\<in>set xs. 0 \<notin> set x" "unat tab + 4 * (length xs + 1) \<le> unat p" "unat p + length (flat xs) < 2 ^ 32"
  shows "\<exists>t. fill_table (length xs) p tab s = Ret (p + of_nat (length (flat xs))) t \<and>
    writes (unat tab) (unat tab + 4 * (length xs + 1)) s t \<and> vector_at tab xs t \<and>
    strings_in (unat p) (unat p + length (flat xs)) tab xs t"
  using assms
proof (induction xs arbitrary: p tab s)
  case Nil
  have "writes (unat tab) (unat tab + 4) s (put_fs_long 0 tab s)" using Nil.prems unat_u32 [of p] by (intro put_long_writes) simp_all
  then show ?case by (intro exI [of _ "put_fs_long 0 tab s"]) (simp add: vector_at_def strings_at_def strings_in_def get_put_long)
next
  case (Cons x xs)
  let ?s1 = "put_fs_long p tab s"
  let ?q = "p + of_nat (length x + 1)"
  have lt: "unat p < 2 ^ 32" using unat_u32 [of p] by simp
  have w1: "writes (unat tab) (unat tab + 4) s ?s1" using Cons.prems(3) lt by (intro put_long_writes) simp_all
  have u1: "user_bytes p (flat (x # xs)) ?s1" by (rule user_bytes_writes [OF Cons.prems(1) w1]) (use Cons.prems in simp_all)
  then have ub: "user_bytes p (x @ [0]) ?s1" "user_bytes ?q (flat xs) ?s1"
    using user_bytes_append [of p "x @ [0]" "flat xs" ?s1] by simp_all
  have q: "unat ?q = unat p + (length x + 1)" using Cons.prems(4) by (intro unat_add_small) simp
  have t4: "unat (tab + 4) = unat tab + 4" using unat_add_small [of tab 4] Cons.prems(3) lt by simp
  have "skip_string p ?s1 = Ret ?q ?s1" using skip_string_ok user_bytes_str [OF _ ub(1)] Cons.prems(2) by simp
  moreover obtain t where t: "fill_table (length xs) ?q (tab + 4) ?s1 = Ret (?q + of_nat (length (flat xs))) t"
    "writes (unat tab + 4) (unat tab + 4 + 4 * (length xs + 1)) ?s1 t" "vector_at (tab + 4) xs t"
    "strings_in (unat p + (length x + 1)) (unat p + (length x + 1) + length (flat xs)) (tab + 4) xs t"
    using Cons.IH [OF ub(2), of "tab + 4"] Cons.prems q t4 by auto
  ultimately have "fill_table (length (x # xs)) p tab s = Ret (p + of_nat (length (flat (x # xs)))) t" by (simp add: add.assoc)
  moreover have "writes (unat tab) (unat tab + 4 * (length (x # xs) + 1)) s t"
    by (rule writes_trans [OF writes_mono [OF w1] writes_mono [OF t(2)]]) simp_all
  moreover have tp: "get_fs_long tab t = p" using long_writes [OF t(2), of tab] get_put_long [of tab p s] Cons.prems(3) lt by simp
  moreover have "strings_in (unat p) (unat p + length (flat (x # xs))) tab (x # xs) t"
    by (rule strings_in_Cons [OF _ _ t(4)[THEN strings_in_mono]]) (simp_all add: tp)
  moreover have "vector_at tab (x # xs) t"
  proof (rule vector_Cons [OF tp _ _ t(3)])
    show "p \<noteq> 0" using Cons.prems(3) by auto
    have "user_bytes p (x @ [0]) t" by (rule user_bytes_writes [OF ub(1) t(2)]) (use Cons.prems(3,4) in simp_all)
    then show "str_is (User_string p) x t" using user_bytes_str Cons.prems(2) by simp
  qed
  ultimately show ?case by blast
qed


text \<open>What a program finds at its stack pointer: \<open>argc\<close>, \<open>argv\<close> and \<open>envp\<close>.\<close>

definition program_args :: "u32 \<Rightarrow> u8 list list \<Rightarrow> u8 list list \<Rightarrow> fs \<Rightarrow> bool" where
  "program_args sp as es s \<longleftrightarrow> get_fs_long sp s = of_nat (length as) \<and>
     vector_at (get_fs_long (sp + 4) s) as s \<and> vector_at (get_fs_long (sp + 8) s) es s"

lemma unat_sub_small: "k \<le> unat (a :: u32) \<Longrightarrow> unat (a - of_nat k) = unat a - k"
proof -
  assume k: "k \<le> unat a"
  then have "unat (of_nat k :: u32) = k" using unat_u32 [of a] by (simp add: unat_of_nat)
  then show ?thesis using k by (simp add: unat_sub word_le_nat_alt)
qed

lemma vector_writes:
  assumes v: "vector_at v xs s" and w: "writes lo hi s t"
    and tab: "unat v + 4 * (length xs + 1) \<le> lo \<or> hi \<le> unat v" "unat v + 4 * (length xs + 1) < 2 ^ 32"
    and strs: "strings_in lo' hi' v xs s" "hi \<le> lo'" "hi' < 2 ^ 32"
  shows "vector_at v xs t"
proof -
  have l: "get_fs_long (v + 4 * of_nat i) t = get_fs_long (v + 4 * of_nat i) s" if "i \<le> length xs" for i
  proof -
    have "unat (v + of_nat (4 * i)) = unat v + 4 * i" using tab(2) that by (intro unat_add_small) simp
    then show ?thesis using tab that by (intro long_writes [OF w]) auto
  qed
  have "arg_ptr (User_array v) i t \<noteq> User_string 0 \<and> str_is (arg_ptr (User_array v) i t) (xs ! i) t" if "i < length xs" for i
  proof -
    let ?p = "get_fs_long (v + 4 * of_nat i) s"
    have "str_is (User_string ?p) (xs ! i) s" using v that by (auto simp: vector_at_def strings_at_def arg_ptr_def)
    moreover have "user_bytes ?p (xs ! i @ [0]) t" if "user_bytes ?p (xs ! i @ [0]) s"
      by (rule user_bytes_writes [OF that w]) (use strs \<open>i < length xs\<close> in \<open>auto simp: strings_in_def\<close>)
    ultimately have "str_is (User_string ?p) (xs ! i) t" by (simp add: str_is_nth user_bytes_def str_byte_def)
    moreover have "?p \<noteq> 0" using v that by (auto simp: vector_at_def strings_at_def arg_ptr_def)
    ultimately show ?thesis using l that by (simp add: arg_ptr_def)
  qed
  then show ?thesis using v l by (simp add: vector_at_def strings_at_def)
qed


lemma align_down: "unat (0xfffffffc AND p :: u32) \<le> unat p" "unat p \<le> unat (0xfffffffc AND p) + 3"
proof -
  have m: "(0xfffffffc :: u32) = NOT (mask 2)" by (simp add: mask_eq_exp_minus_1)
  have "NOT (mask 2) AND p = push_bit 2 (drop_bit 2 p)" by (intro bit_word_eqI) (auto simp: bit_simps add_2_eq_Suc [symmetric] simp del: add_2_eq_Suc add_2_eq_Suc')
  then have e: "0xfffffffc AND p = 4 * drop_bit 2 p" unfolding m by (simp add: push_bit_eq_mult mult.commute)
  have "4 * (unat p div 4) < 2 ^ 32" using unat_u32 [of p] by simp
  then have "unat (4 * drop_bit 2 p) = 4 * (unat p div 4)" by (simp add: unat_word_ariths unat_drop_div)
  then show "unat (0xfffffffc AND p) \<le> unat p" "unat p \<le> unat (0xfffffffc AND p) + 3" unfolding e by simp_all
qed

lemma create_tables_ok:
  assumes ub: "user_bytes p (flat as @ flat es) s" and nz: "\<forall>x\<in>set (as @ es). 0 \<notin> set x"
    and room: "4 * (length as + length es + 5) + 3 \<le> unat p" "unat p + length (flat as @ flat es) < 2 ^ 32"
  shows "\<exists>sp t. create_tables p (int (length as)) (int (length es)) s = Ret sp t \<and> program_args sp as es t"
proof -
  define sp where "sp = 0xfffffffc AND p"
  let ?n = "length as" and ?m = "length es"
  define envp where "envp = sp - of_nat (4 * (?m + 1))"
  define argv where "argv = envp - of_nat (4 * (?n + 1))"
  have sp: "unat sp \<le> unat p" "4 * (?n + ?m + 5) \<le> unat sp" using align_down [of p] room(1) by (simp_all add: sp_def)
  have env: "unat envp = unat sp - 4 * (?m + 1)" unfolding envp_def using sp by (intro unat_sub_small) simp
  have arg: "unat argv = unat sp - 4 * (?n + ?m + 2)" unfolding argv_def using sp env by (subst unat_sub_small) simp_all
  have a4: "unat (argv - 4) = unat argv - 4" "unat (argv - 8) = unat argv - 8" "unat (argv - 12) = unat argv - 12"
    using unat_sub_small [of 4 argv] unat_sub_small [of 8 argv] unat_sub_small [of 12 argv] arg sp by simp_all
  then have add: "unat (argv - 4) + 4 = unat argv" "unat (argv - 8) + 8 = unat argv" "unat (argv - 12) + 12 = unat argv"
    using arg sp by simp_all
  have lt: "unat p < 2 ^ 32" "unat argv \<le> unat p" using unat_u32 [of p] arg sp(1) by simp_all
  define s1 where "s1 = put_fs_long envp (argv - 4) s"
  define s2 where "s2 = put_fs_long argv (argv - 8) s1"
  define s3 where "s3 = put_fs_long (of_nat ?n) (argv - 12) s2"
  define q where "q = p + of_nat (length (flat as))"
  have q: "unat q = unat p + length (flat as)" unfolding q_def using room(2) by (intro unat_add_small) simp
  have w: "writes (unat (argv - 4)) (unat argv) s s1" "writes (unat (argv - 8)) (unat argv - 4) s1 s2" "writes (unat (argv - 12)) (unat argv - 8) s2 s3"
    unfolding s1_def s2_def s3_def by (rule put_long_writes; use a4 arg sp lt in simp)+
  have w3: "writes (unat argv - 12) (unat argv) s s3"
    by (rule writes_trans [OF writes_trans [OF writes_mono [OF w(1)] writes_mono [OF w(2)]] writes_mono [OF w(3)]]) (use a4 arg sp in simp_all)
  have u3: "user_bytes p (flat as @ flat es) s3" by (rule user_bytes_writes [OF ub w3]) (use arg sp room in simp_all)
  have f1: "user_bytes p (flat as) s3" "\<forall>x\<in>set as. 0 \<notin> set x" "unat argv + 4 * (?n + 1) \<le> unat p" "unat p + length (flat as) < 2 ^ 32"
    using u3 nz arg sp room(2) by (simp_all add: user_bytes_append)
  obtain t where t: "fill_table ?n p argv s3 = Ret q t" "writes (unat argv) (unat argv + 4 * (?n + 1)) s3 t" "vector_at argv as t"
    "strings_in (unat p) (unat p + length (flat as)) argv as t"
    using fill_table_ok [OF f1] unfolding q_def by blast
  have f2: "user_bytes q (flat es) t" "\<forall>x\<in>set es. 0 \<notin> set x" "unat envp + 4 * (?m + 1) \<le> unat q" "unat q + length (flat es) < 2 ^ 32"
    using user_bytes_writes [OF _ t(2), of q "flat es"] u3 nz q arg env sp room(2) by (simp_all add: user_bytes_append q_def)
  from fill_table_ok [OF f2] obtain v where v: "fill_table ?m q envp t = Ret (q + of_nat (length (flat es))) v" "writes (unat envp) (unat envp + 4 * (?m + 1)) t v" "vector_at envp es v"
    by blast
  have "vector_at argv as v"
    by (rule vector_writes [OF t(3) v(2) _ _ t(4)]) (use arg env sp lt room(2) in simp_all)
  moreover have "get_fs_long (argv - 12) v = of_nat ?n" "get_fs_long (argv - 12 + 4) v = argv" "get_fs_long (argv - 12 + 8) v = envp"
  proof -
    have k: "get_fs_long (argv - of_nat d) v = get_fs_long (argv - of_nat d) s3" if "4 \<le> d" "d \<le> 12" for d
    proof -
      have "unat (argv - of_nat d) = unat argv - d" using that arg sp by (intro unat_sub_small) simp
      then have u: "unat (argv - of_nat d) + d = unat argv" "unat argv + 4 * (?n + ?m + 2) = unat sp" "unat envp + 4 * (?m + 1) = unat sp"
        using that arg env sp by simp_all
      have "get_fs_long (argv - of_nat d) v = get_fs_long (argv - of_nat d) t" by (rule long_writes [OF v(2)], rule disjI1) (use u that sp(1) lt in simp_all)
      also have "\<dots> = get_fs_long (argv - of_nat d) s3" by (rule long_writes [OF t(2)], rule disjI1) (use u that sp(1) lt in simp_all)
      finally show ?thesis .
    qed
    have "get_fs_long (argv - 8) s3 = get_fs_long (argv - 8) s2" "get_fs_long (argv - 4) s3 = get_fs_long (argv - 4) s2"
      by (rule long_writes [OF w(3)]; use add lt in linarith)+
    moreover have "get_fs_long (argv - 4) s2 = get_fs_long (argv - 4) s1" by (rule long_writes [OF w(2)]) (use add lt in linarith)+
    ultimately have "get_fs_long (argv - 12) s3 = of_nat ?n" "get_fs_long (argv - 8) s3 = argv" "get_fs_long (argv - 4) s3 = envp"
      unfolding s1_def s2_def s3_def by (simp_all only: get_put_long)
    then show "get_fs_long (argv - 12) v = of_nat ?n" "get_fs_long (argv - 12 + 4) v = argv" "get_fs_long (argv - 12 + 8) v = envp"
      using k [of 12] k [of 8] k [of 4] by simp_all
  qed
  ultimately have "program_args (argv - 12) as es v" using v(3) by (simp add: program_args_def)
  moreover have "create_tables p (int ?n) (int ?m) s = Ret (argv - 12) v"
  proof -
    have e: "(0xfffffffc AND p) - 4 * of_int (int ?m + 1) = envp" "envp - 4 * of_int (int ?n + 1) = argv"
      by (simp_all add: envp_def argv_def sp_def algebra_simps)
    show ?thesis using t(1) v(1) unfolding create_tables_def Let_def e by (simp add: s1_def s2_def s3_def)
  qed
  ultimately show ?thesis by blast
qed


section \<open>Mapping the pages\<close>

text \<open>The last 128 kB of the 64 MB of task \<open>nr\<close>: one page table, entries 992 to 1023.\<close>

definition arg_addr :: "nat \<Rightarrow> nat \<Rightarrow> u32" where
  "arg_addr nr k = of_nat (nr * 0x4000000 + 0x3fe0000 + k)"

lemma arg_addr_parts:
  assumes "nr < 64" "k < ARG_BYTES"
  shows "unat (arg_addr nr k) = nr * 0x4000000 + 0x3fe0000 + k" "dirno (arg_addr nr k) = 16 * nr + 15" "pteno (arg_addr nr k) = 992 + k div 4096"
proof -
  have l: "nr * 0x4000000 + 0x3fe0000 + k < 2 ^ 32" using assms by simp
  show u: "unat (arg_addr nr k) = nr * 0x4000000 + 0x3fe0000 + k"
    unfolding arg_addr_def using l by (simp add: unat_of_nat del: of_nat_add of_nat_mult)
  have q: "k div 4096 < 32" using assms(2) by (simp add: div_less_iff_less_mult)
  show "dirno (arg_addr nr k) = 16 * nr + 15" unfolding dirno_def u by (rule div_nat_eqI) (use assms(2) in simp_all)
  have e: "nr * 0x4000000 + 0x3fe0000 + k = k + (nr * 16384 + 16352) * 4096" by simp
  have "(k + (nr * 16384 + 16352) * 4096) div 4096 = nr * 16384 + 16352 + k div 4096" by (rule div_mult_self1) simp
  also have "\<dots> = 992 + k div 4096 + (16 * nr + 15) * 1024" by simp
  finally have "pteno (arg_addr nr k) = (992 + k div 4096 + (16 * nr + 15) * 1024) mod 1024" unfolding pteno_def u e by (simp only:)
  also have "\<dots> = 992 + k div 4096" using q by (subst mod_mult_self1) simp
  finally show "pteno (arg_addr nr k) = 992 + k div 4096" .
qed

definition arg_dir :: "nat \<Rightarrow> fs \<Rightarrow> u32" where
  "arg_dir nr s = pmem s (slot 0 (16 * nr + 15))"

text \<open>The page table, with the entries of the pages \<open>S\<close> in place; or none yet, and a page for it.\<close>

definition tabled :: "nat \<Rightarrow> (nat \<Rightarrow> u32) \<Rightarrow> nat set \<Rightarrow> u32 \<Rightarrow> fs \<Rightarrow> bool" where
  "tabled nr page S T s \<longleftrightarrow> present (arg_dir nr s) \<and> frame (arg_dir nr s) = T \<and> frame T = T \<and> LOW_MEM \<le> T \<and> (\<forall>i<MAX_ARG_PAGES. page i \<noteq> T) \<and>
     (\<forall>i\<in>S. page i \<noteq> 0 \<longrightarrow> pmem s (slot T (992 + i)) = page i OR 7)"

definition ready :: "nat \<Rightarrow> (nat \<Rightarrow> u32) \<Rightarrow> nat set \<Rightarrow> fs \<Rightarrow> bool" where
  "ready nr page S s \<longleftrightarrow> pages_ok page s \<and>
     ((\<forall>i\<in>S. page i = 0) \<and> \<not> present (arg_dir nr s) \<and> \<not> full s \<or> (\<exists>T. tabled nr page S T s))"

definition same_bytes :: "(nat \<Rightarrow> u32) \<Rightarrow> fs \<Rightarrow> fs \<Rightarrow> bool" where
  "same_bytes page s t \<longleftrightarrow> mm_only s t \<and> (\<forall>k<ARG_BYTES. page (k div 4096) \<noteq> 0 \<longrightarrow> arg_byte page t k = arg_byte page s k)"

lemma same_bytes_trans: "same_bytes page s t \<Longrightarrow> same_bytes page t u \<Longrightarrow> same_bytes page s u"
  using mm_only_trans by (auto simp: same_bytes_def)

lemma poke_same_bytes:
  assumes "pages_ok page s" "\<And>i. i < MAX_ARG_PAGES \<Longrightarrow> page i \<noteq> 0 \<Longrightarrow> page i \<noteq> frame a"
  shows "same_bytes page s (poke a v s)" "pages_ok page (poke a v s)"
proof -
  show "pages_ok page (poke a v s)" using assms(1) by (simp add: pages_ok_def poke_def)
  have "arg_byte page (poke a v s) k = arg_byte page s k" if k: "k < ARG_BYTES" "page (k div 4096) \<noteq> 0" for k
  proof -
    have "frame (page (k div 4096) + of_nat (k mod 4096)) = page (k div 4096)" by (rule page_addr(2) [OF assms(1) k(1,1,2,2)])
    moreover have "k div 4096 < MAX_ARG_PAGES" using k(1) by (simp add: div_less_iff_less_mult)
    ultimately have "frame a \<noteq> frame (page (k div 4096) + of_nat (k mod 4096))" using assms(2) k(2) by metis
    then show ?thesis unfolding arg_byte_def by (intro get_pbyte_cong) (auto simp: poke_def)
  qed
  then show "same_bytes page s (poke a v s)" by (simp add: same_bytes_def mm_only_def poke_def)
qed

lemma page_high:
  assumes "pages_ok page s" "i < MAX_ARG_PAGES" "page i \<noteq> 0"
  shows "frame (page i) = page i" "LOW_MEM \<le> page i" "MAP_NR (page i) < PAGING_PAGES"
proof -
  obtain n where "n < PAGING_PAGES" "page i = pg n" using assms unfolding pages_ok_def by blast
  then show "frame (page i) = page i" "LOW_MEM \<le> page i" "MAP_NR (page i) < PAGING_PAGES" using pg_props [of n] by simp_all
qed


lemma fresh_table:
  assumes ok: "pages_ok page s" and nf: "\<not> full s"
  obtains g t where "get_free_page s = (g, t)" "g \<noteq> 0" "frame g = g" "LOW_MEM \<le> g" "\<forall>i<MAX_ARG_PAGES. page i \<noteq> g"
    "pages_ok page t" "same_bytes page s t" "\<And>a. frame a \<noteq> g \<Longrightarrow> pmem t a = pmem s a"
proof (cases rule: get_free_page_cases [of s])
  case full
  then show thesis using nf by (simp add: full_def)
next
  case (page n)
  let ?t = "s\<lparr>mem_map := (mem_map s)(n := 1), pmem := (\<lambda>a. if frame a = pg n then 0 else pmem s a)\<rparr>"
  note p = pg_props [OF page(1)]
  have new: "page i \<noteq> pg n" if i: "i < MAX_ARG_PAGES" for i
  proof
    assume e: "page i = pg n"
    then obtain m where "m < PAGING_PAGES" "page i = pg m" "mem_map s m \<noteq> 0" using ok i p(4) unfolding pages_ok_def by metis
    then show False using page e pg_eq_iff by metis
  qed
  have k: "pages_ok page ?t" using ok by (auto simp: pages_ok_def)
  have "arg_byte page ?t k = arg_byte page s k" if k: "k < ARG_BYTES" "page (k div 4096) \<noteq> 0" for k
  proof -
    have "frame (page (k div 4096) + of_nat (k mod 4096)) = page (k div 4096)" by (rule page_addr(2) [OF ok k(1,1,2,2)])
    moreover have "k div 4096 < MAX_ARG_PAGES" using k(1) by (simp add: div_less_iff_less_mult)
    ultimately have "frame (page (k div 4096) + of_nat (k mod 4096)) \<noteq> pg n" using new by metis
    then show ?thesis unfolding arg_byte_def by (intro get_pbyte_cong) simp
  qed
  then have "same_bytes page s ?t" by (simp add: same_bytes_def mm_only_def)
  then show thesis by (intro that [of "pg n" ?t]) (use page(3) p k new in auto)
qed

lemma slot_not_dir:
  assumes "frame T = T" "LOW_MEM \<le> T" "j < 1024" "d < 1024"
  shows "slot T j \<noteq> slot 0 d"
proof -
  have "T \<noteq> 0" using assms(2) by auto
  then show ?thesis using slot_eq_iff [OF assms(1) frame_0 assms(3,4)] by simp
qed

lemma tabled_poke:
  assumes ok: "pages_ok page s" and t: "tabled nr page S T s" and nr: "nr < 64" and i: "i < MAX_ARG_PAGES" and S: "S \<subseteq> {..<MAX_ARG_PAGES}"
  defines "u \<equiv> poke (slot T (992 + i)) (page i OR 7) s"
  shows "tabled nr page (insert i S) T u" "same_bytes page s u" "pages_ok page u"
proof -
  have T: "frame T = T" "LOW_MEM \<le> T" "\<forall>i<MAX_ARG_PAGES. page i \<noteq> T" using t by (simp_all add: tabled_def)
  have f: "frame (slot T (992 + i)) = T" using frame_slot [OF T(1), of "992 + i"] i by simp
  show "same_bytes page s u" "pages_ok page u" unfolding u_def by (rule poke_same_bytes [OF ok]; use T(3) f in simp)+
  have "slot T (992 + i) \<noteq> slot 0 (16 * nr + 15)" using nr i by (intro slot_not_dir [OF T(1,2)]) simp_all
  then have d: "arg_dir nr u = arg_dir nr s" by (simp add: arg_dir_def u_def)
  have "pmem u (slot T (992 + j)) = page j OR 7" if "j \<in> insert i S" "page j \<noteq> 0" for j
  proof (cases "j = i")
    case False
    then have "slot T (992 + j) \<noteq> slot T (992 + i)" using slot_eq_iff [OF T(1,1), of "992 + j" "992 + i"] that i S by auto
    then show ?thesis using t that False by (simp add: u_def tabled_def)
  qed (simp add: u_def)
  then show "tabled nr page (insert i S) T u" using t d by (simp add: tabled_def)
qed

lemma put_arg_page:
  assumes r: "ready nr page S s" and nr: "nr < 64" and i: "i < MAX_ARG_PAGES" and S: "S \<subseteq> {..<MAX_ARG_PAGES}"
  shows "\<exists>t. (if page i \<noteq> 0 then bindO (put_page (page i) (arg_addr nr (i * 4096)) s) (\<lambda>_ s. Ret () s) else Ret () s) = Ret () t \<and>
    ready nr page (insert i S) t \<and> same_bytes page s t"
proof (cases "page i = 0")
  case True
  have "same_bytes page s s" by (simp add: same_bytes_def mm_only_def)
  moreover have "ready nr page (insert i S) s" using r True by (auto simp: ready_def tabled_def)
  ultimately show ?thesis using True by simp
next
  case False
  have ok: "pages_ok page s" using r by (simp add: ready_def)
  have "i * 4096 < ARG_BYTES" using i by simp
  note a = arg_addr_parts [OF nr this]
  have ds: "drop_bit 20 (arg_addr nr (i * 4096)) AND 0xffc = slot 0 (16 * nr + 15)" by (simp only: dir_slot a)
  have ps: "T + 4 * (drop_bit 12 (arg_addr nr (i * 4096)) AND 0x3ff) = slot T (992 + i)" for T
    unfolding pte_slot a by simp
  have mn: "\<not> MAP_NR (page i) \<ge> PAGING_PAGES" using page_high(3) [OF ok i False] by simp
  consider T where "tabled nr page S T s" | "\<forall>i\<in>S. page i = 0" "\<not> present (arg_dir nr s)" "\<not> full s"
    using r by (auto simp: ready_def)
  then show ?thesis
  proof cases
    case (1 T)
    note k = tabled_poke [OF ok 1 nr i S]
    have "put_page (page i) (arg_addr nr (i * 4096)) s = Ret (page i) (poke (slot T (992 + i)) (page i OR 7) s)"
      using 1 mn unfolding put_page_def Let_def ds ps by (simp add: tabled_def arg_dir_def)
    then show ?thesis using False k by (auto simp: ready_def)
  next
    case 2
    obtain g t where g: "get_free_page s = (g, t)" "g \<noteq> 0" "frame g = g" "LOW_MEM \<le> g" "\<forall>i<MAX_ARG_PAGES. page i \<noteq> g"
      "pages_ok page t" "same_bytes page s t" by (rule fresh_table [OF ok 2(3)])
    define u where "u = poke (slot 0 (16 * nr + 15)) (g OR 7) t"
    have "frame (slot 0 (16 * nr + 15)) = 0" using frame_slot [OF frame_0, of "16 * nr + 15"] nr by simp
    then have u: "same_bytes page t u" "pages_ok page u" unfolding u_def by (rule_tac poke_same_bytes [OF g(6)]; simp)+
    have "tabled nr page S g u" using g(3-5) 2(1) frame_present_or7 [OF g(3)] by (simp add: tabled_def arg_dir_def u_def)
    note k = tabled_poke [OF u(2) this nr i S]
    have "put_page (page i) (arg_addr nr (i * 4096)) s = Ret (page i) (poke (slot g (992 + i)) (page i OR 7) u)"
      using 2(2) g(1,2) mn unfolding put_page_def Let_def ds ps by (simp add: arg_dir_def u_def)
    moreover have "same_bytes page s (poke (slot g (992 + i)) (page i OR 7) u)"
      by (rule same_bytes_trans [OF g(7) same_bytes_trans [OF u(1) k(2)]])
    ultimately show ?thesis using False k(1,3) by (auto simp: ready_def)
  qed
qed


lemma eachO_cong: "(\<And>x s. x \<in> set xs \<Longrightarrow> f x s = g x s) \<Longrightarrow> eachO f xs s = eachO g xs s"
  by (induction xs arbitrary: s) simp_all

definition put_arg :: "nat \<Rightarrow> (nat \<Rightarrow> u32) \<Rightarrow> nat \<Rightarrow> fs \<Rightarrow> (fs, unit) outcome" where
  "put_arg nr page i s =
     (if page i \<noteq> 0 then bindO (put_page (page i) (arg_addr nr (i * 4096)) s) (\<lambda>_ s. Ret () s) else Ret () s)"

lemma put_arg_list:
  assumes "ready nr page S s" "nr < 64" "set xs \<subseteq> {..<MAX_ARG_PAGES}" "S \<subseteq> {..<MAX_ARG_PAGES}"
  shows "\<exists>t. eachO (put_arg nr page) xs s = Ret () t \<and> ready nr page (S \<union> set xs) t \<and> same_bytes page s t"
  using assms
proof (induction xs arbitrary: S s)
  case Nil
  then show ?case by (simp add: same_bytes_def mm_only_def)
next
  case (Cons i xs)
  have i: "i < MAX_ARG_PAGES" "insert i S \<subseteq> {..<MAX_ARG_PAGES}" "set xs \<subseteq> {..<MAX_ARG_PAGES}" using Cons.prems(3,4) by simp_all
  obtain t where t: "put_arg nr page i s = Ret () t" "ready nr page (insert i S) t" "same_bytes page s t"
    using put_arg_page [OF Cons.prems(1,2) i(1) Cons.prems(4)] unfolding put_arg_def by blast
  obtain u where u: "eachO (put_arg nr page) xs t = Ret () u" "ready nr page (insert i S \<union> set xs) u" "same_bytes page t u"
    using Cons.IH [OF t(2) Cons.prems(2) i(3,2)] by blast
  have "eachO (put_arg nr page) (i # xs) s = Ret () u" using t(1) u(1) by simp
  moreover have "insert i S \<union> set xs = S \<union> set (i # xs)" by simp
  ultimately show ?case using u(2) same_bytes_trans [OF t(3) u(3)] by metis
qed

lemma put_arg_pages_ok:
  assumes "ready nr page {} s" "nr < 64"
  shows "\<exists>t. put_arg_pages page (of_nat (nr * 0x4000000) + 0x4000000) s = Ret () t \<and>
    ready nr page {..<MAX_ARG_PAGES} t \<and> same_bytes page s t"
proof -
  have "of_nat (nr * 0x4000000) + 0x4000000 - of_nat (MAX_ARG_PAGES - i) * 4096 = arg_addr nr (i * 4096)" if "i < MAX_ARG_PAGES" for i
  proof -
    have "of_nat (MAX_ARG_PAGES - i) = (32 :: u32) - of_nat i" using that by (simp add: of_nat_diff)
    then show ?thesis by (simp only: arg_addr_def) (simp add: algebra_simps)
  qed
  then have e: "put_arg_pages page (of_nat (nr * 0x4000000) + 0x4000000) s = eachO (put_arg nr page) (rev [0..<MAX_ARG_PAGES]) s"
    unfolding put_arg_pages_def by (intro eachO_cong) (simp add: put_arg_def)
  have "{} \<union> set (rev [0..<MAX_ARG_PAGES]) = {..<MAX_ARG_PAGES}" by auto
  then show ?thesis using put_arg_list [OF assms, of "rev [0..<MAX_ARG_PAGES]"] unfolding e by simp
qed

text \<open>The new memory shows the area at its top.\<close>

lemma low_or: "frame p = p \<Longrightarrow> k < 4096 \<Longrightarrow> p OR of_nat k = (p :: u32) + of_nat k"
proof -
  assume a: "frame p = p" "k < 4096"
  have "p AND of_nat k = frame p AND take_bit 12 (of_nat k)" using a by (simp add: take_bit_of_nat take_bit_nat_eq_self)
  also have "\<dots> = 0" by (intro bit_word_eqI) (auto simp: frame_def page_mask bit_simps)
  finally show ?thesis by (simp add: disjunctive_add_eq_or)
qed

lemma mapped_arg_byte:
  assumes r: "ready nr page {..<MAX_ARG_PAGES} s" "nr < 64" and k: "k < ARG_BYTES" "page (k div 4096) \<noteq> 0"
  shows "mapped_byte img (of_nat (nr * 0x4000000)) s (of_nat (0x3fe0000 + k)) = arg_byte page s k"
proof -
  have i: "k div 4096 < MAX_ARG_PAGES" using k(1) by (simp add: div_less_iff_less_mult)
  have ok: "pages_ok page s" using r(1) by (simp add: ready_def)
  obtain T where T: "tabled nr page {..<MAX_ARG_PAGES} T s" using r(1) i k(2) by (auto simp: ready_def)
  have sum: "of_nat (nr * 0x4000000) + of_nat (0x3fe0000 + k) = arg_addr nr k" by (simp add: arg_addr_def)
  note a = arg_addr_parts [OF r(2) k(1)]
  have d: "drop_bit 20 (arg_addr nr k) AND 0xffc = slot 0 (16 * nr + 15)" by (simp only: dir_slot a)
  have p: "T + 4 * (drop_bit 12 (arg_addr nr k) AND 0x3ff) = slot T (992 + k div 4096)" unfolding pte_slot a by simp
  have pe: "pmem s (slot T (992 + k div 4096)) = page (k div 4096) OR 7" using T i k(2) by (simp add: tabled_def)
  have "arg_addr nr k AND 0xfff = of_nat (k mod 4096)"
  proof -
    have m: "(0xfff :: u32) = mask 12" "(2 :: nat) ^ 12 = 4096" by (simp_all add: mask_eq_exp_minus_1)
    have "nr * 0x4000000 + 0x3fe0000 + k = k + (nr * 16384 + 16352) * 4096" by simp
    then have "unat (arg_addr nr k AND 0xfff) = (k + (nr * 16384 + 16352) * 4096) mod 4096" unfolding m(1) unat_and_mask a(1) m(2) by (simp only:)
    also have "\<dots> = k mod 4096" by (rule mod_mult_self1)
    finally have "unat (arg_addr nr k AND 0xfff) = unat (of_nat (k mod 4096) :: u32)" by (simp add: unat_of_nat)
    then show ?thesis by (simp only: word_unat_eq_iff)
  qed
  then have low: "page (k div 4096) OR (arg_addr nr k AND 0xfff) = page (k div 4096) + of_nat (k mod 4096)"
    using low_or page_high(1) [OF ok i k(2)] by simp
  show ?thesis
    using T frame_present_or7 [OF page_high(1) [OF ok i k(2)]]
    unfolding mapped_byte_def Let_def sum d tabled_def arg_dir_def by (simp add: p pe low arg_byte_def)
qed


lemma change_ldt_ok:
  assumes b: "get_base (ldt (cur u) 1) = of_nat (nr * 0x4000000)" "nr < 64" and r: "ready nr page {} u"
    and a: "in_area m bs page u" "m + length bs \<le> ARG_BYTES"
  shows "\<exists>v. change_ldt img text_size page u = Ret 0x4000000 v \<and> user_bytes (of_nat (0x3fe0000 + m)) bs v"
proof -
  define u1 where "u1 = upd_cur (\<lambda>t. t\<lparr>ldt := (ldt t)(1 := set_limit (set_base (ldt t 1) (of_nat (nr * 0x4000000))) ((text_size + 4096 - 1) AND 0xFFFFF000),
      2 := set_limit (set_base (ldt t 2) (of_nat (nr * 0x4000000))) 0x4000000)\<rparr>) u"
  have f: "pmem u1 = pmem u" "mem_map u1 = mem_map u" by (simp_all add: u1_def upd_task_def)
  then have "ready nr page {} u1" using r by (simp add: ready_def pages_ok_def full_def tabled_def arg_dir_def)
  then obtain t where t: "put_arg_pages page (of_nat (nr * 0x4000000) + 0x4000000) u1 = Ret () t" "ready nr page {..<MAX_ARG_PAGES} t" "same_bytes page u1 t"
    using put_arg_pages_ok [OF _ b(2)] by blast
  define v where "v = t\<lparr>umem := (umem t)(current t := mapped_byte img (of_nat (nr * 0x4000000)) t)\<rparr>"
  have "change_ldt img text_size page u = Ret 0x4000000 v"
    using t(1) unfolding change_ldt_def Let_def b(1) u1_def by (simp add: v_def)
  moreover have "get_fs_byte (of_nat (0x3fe0000 + m) + of_nat k) v = bs ! k" if k: "k < length bs" for k
  proof -
    have mk: "m + k < ARG_BYTES" "page ((m + k) div 4096) \<noteq> 0" "arg_byte page u (m + k) = bs ! k" using a k by (simp_all add: in_area_def)
    have e: "of_nat (0x3fe0000 + m) + of_nat k = (of_nat (0x3fe0000 + (m + k)) :: u32)" by simp
    have "arg_byte page t (m + k) = arg_byte page u1 (m + k)" using t(3) mk by (simp add: same_bytes_def)
    also have "\<dots> = bs ! k" using mk(3) f by (simp add: arg_byte_def get_pbyte_def)
    finally have "mapped_byte img (of_nat (nr * 0x4000000)) t (of_nat (0x3fe0000 + (m + k))) = bs ! k"
      using mapped_arg_byte [OF t(2) b(2) mk(1,2)] by simp
    then show ?thesis unfolding e by (simp add: v_def get_fs_byte_def)
  qed
  ultimately show ?thesis by (auto simp: user_bytes_def)
qed

section \<open>From caller to program\<close>

lemma count_ok:
  assumes "vector_at v xs s" "v \<noteq> 0 \<or> xs = []" "length xs < 2 ^ 31"
  shows "count v s = Ret (int (length xs)) s"
proof (cases "v = 0")
  case False
  define body where "body = (\<lambda>i s. if get_fs_long (v + 4 * of_int i) s \<noteq> 0 then Ret (Inl (s32 (i + 1))) s else Ret (Inr i) s :: (fs, int + int) outcome)"
  have "loopO body (int (length xs - d)) s = Ret (int (length xs)) s" if "d \<le> length xs" for d
    using that
  proof (induction d)
    case 0
    then show ?case using assms(1) by (simp add: loopO_done body_def vector_at_def)
  next
    case (Suc d)
    then have l: "length xs - Suc d < length xs" by simp
    have "get_fs_long (v + 4 * of_int (int (length xs - Suc d))) s \<noteq> 0"
      using assms(1) l by (auto simp: vector_at_def strings_at_def arg_ptr_def simp del: of_nat_diff)
    moreover have "s32 (int (length xs - Suc d) + 1) = int (length xs - d)" using assms(3) Suc.prems by (simp add: s32_small)
    ultimately have "loopO body (int (length xs - Suc d)) s = loopO body (int (length xs - d)) s"
      by (subst loopO_again [where w = "int (length xs - d)"]) (simp_all add: body_def del: of_nat_diff)
    then show ?case using Suc by simp
  qed
  from this [of "length xs"] show ?thesis using False by (simp add: count_def body_def)
qed (use assms(2) in \<open>simp add: count_def\<close>)

lemma length_flat: "length xs \<le> length (flat xs)"
  by (induction xs) simp_all

lemma strings_at_nonzero: "strings_at a xs s \<Longrightarrow> \<forall>x\<in>set xs. 0 \<notin> set x"
  by (metis strings_at_def str_is_def in_set_conv_nth)

text \<open>The state behind the point of no return: the pages are still those of the arguments, and the top of the address space is empty.\<close>

definition ready_to_map :: "nat \<Rightarrow> (nat \<Rightarrow> u32) \<Rightarrow> fs \<Rightarrow> fs \<Rightarrow> bool" where
  "ready_to_map nr page s u \<longleftrightarrow> nr < 64 \<and> get_base (ldt (cur u) 1) = of_nat (nr * 0x4000000) \<and> pages_ok page u \<and>
     (\<forall>k<ARG_BYTES. page (k div 4096) \<noteq> 0 \<longrightarrow> arg_byte page u k = arg_byte page s k) \<and> \<not> present (arg_dir nr u) \<and> \<not> full u"

lemma start_args:
  assumes area: "in_area (unat p) (flat as @ flat es) page s" "unat p + length (flat as @ flat es) = 0x1fffc" and u: "ready_to_map nr page s u"
    and nz: "\<forall>x\<in>set (as @ es). 0 \<notin> set x" "p \<noteq> 0"
  shows "\<exists>v sp w. change_ldt img text_size page u = Ret 0x4000000 v \<and>
    create_tables (p + (0x4000000 - of_nat MAX_ARG_PAGES * 4096)) (int (length as)) (int (length es)) v = Ret sp w \<and> program_args sp as es w"
proof -
  have l: "unat p + length (flat as @ flat es) \<le> ARG_BYTES" using area(2) by simp
  have "in_area (unat p) (flat as @ flat es) page u" using area(1) u l by (auto simp: in_area_def ready_to_map_def)
  moreover have "ready nr page {} u" using u by (simp add: ready_def ready_to_map_def)
  ultimately obtain v where v: "change_ldt img text_size page u = Ret 0x4000000 v" "user_bytes (of_nat (0x3fe0000 + unat p)) (flat as @ flat es) v"
    using change_ldt_ok [of u nr page "unat p" "flat as @ flat es" img text_size] u l by (auto simp: ready_to_map_def)
  have q: "of_nat (0x3fe0000 + unat p) = p + (0x4000000 - of_nat MAX_ARG_PAGES * 4096)" by simp
  have "unat (of_nat (0x3fe0000 + unat p) :: u32) = 0x3fe0000 + unat p" using area(2) by (subst unat_of_nat) simp
  then have up: "unat (p + (0x4000000 - of_nat MAX_ARG_PAGES * 4096)) = 0x3fe0000 + unat p" unfolding q .
  have "length as + length es \<le> 0x1fffc" using length_flat [of as] length_flat [of es] area(2) by simp
  then have "4 * (length as + length es + 5) + 3 \<le> unat (p + (0x4000000 - of_nat MAX_ARG_PAGES * 4096))" unfolding up by simp
  moreover have "unat (p + (0x4000000 - of_nat MAX_ARG_PAGES * 4096)) + length (flat as @ flat es) < 2 ^ 32" unfolding up using area(2) by simp
  ultimately show ?thesis using create_tables_ok [OF v(2) [unfolded q] nz(1)] v(1) by blast
qed


lemma copy_both:
  assumes st: "strings_at (User_array argv) as s" "strings_at (User_array envp) es s"
    and l: "length (flat as) + length (flat es) < 0x1fffc"
  shows "\<exists>p1 page1 s1 p2 page2 s2. copy_strings (int (length es)) (User_array envp) (\<lambda>_. 0) (4096 * of_nat MAX_ARG_PAGES - 4) s = Ret (p1, page1) s1 \<and>
    copy_strings (int (length as)) (User_array argv) page1 p1 s1 = Ret (p2, page2) s2 \<and>
    (p2 = 0 \<and> full s2 \<or> p2 \<noteq> 0 \<and> pages_ok page2 s2 \<and> in_area (unat p2) (flat as @ flat es) page2 s2 \<and>
       unat p2 + length (flat as @ flat es) = 0x1fffc)"
proof -
  have ok: "pages_ok (\<lambda>_. 0) s" by (simp add: pages_ok_def)
  have P: "unat (4096 * of_nat MAX_ARG_PAGES - 4 :: u32) = 0x1fffc" by simp
  obtain p1 page1 s1 where c1: "copy_strings (int (length es)) (User_array envp) (\<lambda>_. 0) (4096 * of_nat MAX_ARG_PAGES - 4) s = Ret (p1, page1) s1"
    "arg_step 0x1fffc (\<lambda>_. 0) s page1 s1"
    "p1 = 0 \<and> full s1 \<or> unat p1 = 0x1fffc - length (flat es) \<and> in_area (unat p1) (flat es) page1 s1"
    using copy_strings_ok [OF ok _ st(2), of "4096 * of_nat MAX_ARG_PAGES - 4", unfolded P] l by auto
  show ?thesis
    using c1(3)
  proof (elim disjE conjE)
    assume f: "p1 = 0" "full s1"
    then have "copy_strings (int (length as)) (User_array argv) page1 p1 s1 = Ret (0, page1) s1" by (simp add: copy_strings_def)
    then show ?thesis using c1(1) f(2) by blast
  next
    assume a: "unat p1 = 0x1fffc - length (flat es)" "in_area (unat p1) (flat es) page1 s1"
    have ok1: "pages_ok page1 s1" and mm: "mm_only s s1" using c1(2) by (simp_all add: arg_step_def)
    have l1: "unat p1 \<le> ARG_BYTES" "length (flat as) < unat p1" using a(1) l by simp_all
    have "strings_at (User_array argv) as s1" using st(1) strings_at_mm [OF mm] by simp
    from copy_strings_ok [OF ok1 l1(1) this l1(2)] obtain p2 page2 s2 where
      c2: "copy_strings (int (length as)) (User_array argv) page1 p1 s1 = Ret (p2, page2) s2" "arg_step (unat p1) page1 s1 page2 s2"
        "p2 = 0 \<and> full s2 \<or> unat p2 = unat p1 - length (flat as) \<and> in_area (unat p2) (flat as) page2 s2" by blast
    have "in_area (unat p1) (flat es) page2 s2" by (rule in_area_step [OF a(2) c2(2)]) (use a(1) l in simp_all)
    then have "p2 \<noteq> 0 \<and> in_area (unat p2) (flat as @ flat es) page2 s2 \<and> unat p2 + length (flat as @ flat es) = 0x1fffc"
      if "unat p2 = unat p1 - length (flat as)" "in_area (unat p2) (flat as) page2 s2"
      using that l1(2) a(1) l by (auto intro!: in_area_append)
    moreover have "pages_ok page2 s2" using c2(2) by (simp add: arg_step_def)
    ultimately show ?thesis using c1(1) c2(1,3) by metis
  qed
qed

text \<open>C33: A program gets its arguments and its environment.  For null-terminated vectors of strings in the memory of the caller that fit into
  the 128 kB of the argument pages, \<open>count\<close> finds their lengths and the two calls of \<open>copy_strings\<close> end; unless memory is used up, the strings are then
  in pages of physical memory, and for the state \<open>u\<close> behind the point of no return, in which these pages are untouched and the top of the address space is
  empty, \<open>change_ldt\<close> maps them there and \<open>create_tables\<close> builds the stack of the program: at its stack pointer it finds \<open>argc\<close> and two vectors, null-terminated
  again, whose strings are the arguments and the environment of the caller, byte for byte.\<close>

theorem execve_arguments:
  assumes "vector_at argv as s" "vector_at envp es s" "argv \<noteq> 0 \<or> as = []" "envp \<noteq> 0 \<or> es = []"
    "length (flat as) + length (flat es) < 0x1fffc"
  shows "count argv s = Ret (int (length as)) s \<and> count envp s = Ret (int (length es)) s \<and>
    (\<exists>p1 page1 s1 p2 page2 s2. copy_strings (int (length es)) (User_array envp) (\<lambda>_. 0) (4096 * of_nat MAX_ARG_PAGES - 4) s = Ret (p1, page1) s1 \<and>
       copy_strings (int (length as)) (User_array argv) page1 p1 s1 = Ret (p2, page2) s2 \<and>
       (p2 = 0 \<and> full s2 \<or> p2 \<noteq> 0 \<and> pages_ok page2 s2 \<and>
          (\<forall>nr u img text_size. ready_to_map nr page2 s2 u \<longrightarrow>
             (\<exists>v sp w. change_ldt img text_size page2 u = Ret 0x4000000 v \<and>
                create_tables (p2 + (0x4000000 - of_nat MAX_ARG_PAGES * 4096)) (int (length as)) (int (length es)) v = Ret sp w \<and>
                program_args sp as es w))))"
proof (intro conjI)
  have n: "length as < 2 ^ 31" "length es < 2 ^ 31" using length_flat [of as] length_flat [of es] assms(5) by simp_all
  show "count argv s = Ret (int (length as)) s" "count envp s = Ret (int (length es)) s" using assms(1-4) n by (simp_all add: count_ok)
  have st: "strings_at (User_array argv) as s" "strings_at (User_array envp) es s" using assms(1,2) by (simp_all add: vector_at_def)
  have nz: "\<forall>x\<in>set (as @ es). 0 \<notin> set x" using strings_at_nonzero [OF st(1)] strings_at_nonzero [OF st(2)] by auto
  show "\<exists>p1 page1 s1 p2 page2 s2. copy_strings (int (length es)) (User_array envp) (\<lambda>_. 0) (4096 * of_nat MAX_ARG_PAGES - 4) s = Ret (p1, page1) s1 \<and>
       copy_strings (int (length as)) (User_array argv) page1 p1 s1 = Ret (p2, page2) s2 \<and>
       (p2 = 0 \<and> full s2 \<or> p2 \<noteq> 0 \<and> pages_ok page2 s2 \<and>
          (\<forall>nr u img text_size. ready_to_map nr page2 s2 u \<longrightarrow>
             (\<exists>v sp w. change_ldt img text_size page2 u = Ret 0x4000000 v \<and>
                create_tables (p2 + (0x4000000 - of_nat MAX_ARG_PAGES * 4096)) (int (length as)) (int (length es)) v = Ret sp w \<and>
                program_args sp as es w)))"
    using copy_both [OF st assms(5)] start_args [OF _ _ _ nz] by metis
qed

text \<open>Task 1 runs a program with the one argument \<open>a\<close> and no environment.\<close>

definition demo_exec :: fs where
  "demo_exec = (undefined :: fs)\<lparr>current := 0, tstruct := (\<lambda>_. (undefined :: task_struct)\<lparr>ldt := (\<lambda>_. set_base (0, 0) 0x4000000)\<rparr>),
     umem := (\<lambda>_ a. if a = 0x101 then 2 else if a = 0x200 then 97 else 0), mem_map := (\<lambda>_. 0), pmem := (\<lambda>_. 0)\<rparr>"

lemma demo_vectors: "vector_at 0x100 [[97]] demo_exec" "vector_at 0 [] demo_exec"
  by (simp_all add: vector_at_def strings_at_def str_is_def str_byte_def arg_ptr_def get_fs_long_def get_fs_byte_def demo_exec_def)

lemma demo_copied:
  "\<exists>s. copy_strings 0 (User_array 0) (\<lambda>_. 0) (4096 * of_nat MAX_ARG_PAGES - 4) demo_exec = Ret (0x1fffc, \<lambda>_. 0) demo_exec \<and>
     copy_strings 1 (User_array 0x100) (\<lambda>_. 0) 0x1fffc demo_exec = Ret (0x1fffa, (\<lambda>_. 0)(31 := pg 3839)) s \<and>
     cur s = cur demo_exec \<and> \<not> present (arg_dir 1 s) \<and> \<not> full s"
proof -
  have q: "arg_ptr (User_array 0x100) 0 s = User_string 0x200" "str_length (User_string 0x200) s = Ret 2 s" if "umem s = umem demo_exec" "current s = 0" for s
  proof -
    show "arg_ptr (User_array 0x100) 0 s = User_string 0x200"
      using that by (simp add: arg_ptr_def get_fs_long_def get_fs_byte_def demo_exec_def)
    have "str_is (User_string 0x200) [97] s" using that by (simp add: str_is_def str_byte_def get_fs_byte_def demo_exec_def)
    from str_length_ok [OF this] show "str_length (User_string 0x200) s = Ret 2 s" by simp
  qed
  define s0 where "s0 = demo_exec\<lparr>mem_map := (mem_map demo_exec)(3839 := 1), pmem := (\<lambda>a. if frame a = pg 3839 then 0 else pmem demo_exec a)\<rparr>"
  have d: "mem_map demo_exec = (\<lambda>_. 0)" "pmem demo_exec = (\<lambda>_. 0)" "current demo_exec = 0" by (simp_all add: demo_exec_def)
  have g: "get_free_page demo_exec = (pg 3839, s0)"
    by (simp add: get_free_page_def scan_free_top d(1) s0_def pg_def)
  have f: "umem s0 = umem demo_exec" "current s0 = 0" "tstruct s0 = tstruct demo_exec" "mem_map s0 = (\<lambda>_. 0)(3839 := 1)" "pmem s0 = (\<lambda>_. 0)"
    using d by (simp_all add: s0_def cong: if_cong)
  have p: "pg 3839 = 0xfff000" by (simp add: pg_def)
  define s where "s = put_pbyte 97 0xfffffa (put_pbyte 0 0xfffffb s0)"
  have b: "str_byte (User_string 0x200) 1 s0 = 0" "str_byte (User_string 0x200) 0 s0 = 97"
    using f by (simp_all add: str_byte_def get_fs_byte_def demo_exec_def)
  have "copy_bytes 2 (User_string 0x200) \<lparr>c_p = 0x1fffc, c_pag = 0, c_offset = 0, c_page = \<lambda>_. 0\<rparr> demo_exec =
    Ret (True, \<lparr>c_p = 0x1fffa, c_pag = pg 3839, c_offset = 0xffa, c_page = (\<lambda>_. 0)(31 := pg 3839)\<rparr>) s"
  proof -
    have 2: "(2 :: nat) = Suc (Suc 0)" by simp
    show ?thesis using g b unfolding 2 by (simp add: next_page_def Let_def s_def p str_byte_def)
  qed
  then have "copy_strings 1 (User_array 0x100) (\<lambda>_. 0) 0x1fffc demo_exec = Ret (0x1fffa, (\<lambda>_. 0)(31 := pg 3839)) s"
    using q [OF refl d(3)] by (simp add: copy_strings_def)
  moreover have "copy_strings 0 (User_array 0) (\<lambda>_. 0) (4096 * of_nat MAX_ARG_PAGES - 4) demo_exec = Ret (0x1fffc, \<lambda>_. 0) demo_exec"
    by (simp add: copy_strings_def)
  moreover have "cur s = cur demo_exec" using f d(3) by (simp add: cur_def s_def)
  moreover have "mem_map s 0 = 0" using f(4) by (simp add: s_def put_pbyte_def poke_def Let_def)
  then have "\<not> full s" unfolding full_def by (intro notI) (drule spec [of _ 0], simp)
  moreover have "\<not> present (arg_dir 1 s)"
    using f(5) by (simp add: s_def put_pbyte_def Let_def poke_def arg_dir_def slot_def present_def)
  ultimately show ?thesis by blast
qed


theorem execve_arguments_witness:
  "\<exists>p2 page2 s2 v sp w. copy_strings 1 (User_array 0x100) (\<lambda>_. 0) 0x1fffc demo_exec = Ret (p2, page2) s2 \<and>
     change_ldt (\<lambda>_. 0) 4096 page2 s2 = Ret 0x4000000 v \<and>
     create_tables (p2 + (0x4000000 - of_nat MAX_ARG_PAGES * 4096)) 1 0 v = Ret sp w \<and> program_args sp [[97]] [] w"
proof -
  obtain s where s: "copy_strings 0 (User_array 0) (\<lambda>_. 0) (4096 * of_nat MAX_ARG_PAGES - 4) demo_exec = Ret (0x1fffc, \<lambda>_. 0) demo_exec"
    "copy_strings 1 (User_array 0x100) (\<lambda>_. 0) 0x1fffc demo_exec = Ret (0x1fffa, (\<lambda>_. 0)(31 := pg 3839)) s"
    "cur s = cur demo_exec" "\<not> present (arg_dir 1 s)" "\<not> full s" using demo_copied by blast
  let ?page = "(\<lambda>_. 0)(31 := pg 3839)"
  have a: "pages_ok ?page s" "\<And>nr u img text_size. ready_to_map nr ?page s u \<Longrightarrow>
      \<exists>v sp w. change_ldt img text_size ?page u = Ret 0x4000000 v \<and>
        create_tables (0x1fffa + (0x4000000 - of_nat MAX_ARG_PAGES * 4096)) 1 0 v = Ret sp w \<and> program_args sp [[97]] [] w"
    using execve_arguments [OF demo_vectors] s(1,2) by auto
  have "ready_to_map 1 ?page s s" using a(1) s(3-5) by (simp add: ready_to_map_def cur_def demo_exec_def get_set_base)
  from a(2) [OF this] s(2) show ?thesis by blast
qed

end
