(* ===== verification/Floppy.thy ===== *)
theory Floppy
  imports Hd
begin

unbundle bit_operations_syntax

text \<open>
  The floppy driver, \<open>src/kernel/blk_drv/floppy.c\<close>: the commands to the controller and to the DMA chip,
  the routines called by interrupts and timers, and the strategy routine \<open>do_fd_request\<close> (the
  \<open>k_dev\<close> of major number 2).  The motors are in \<open>Sched\<close>, \<open>floppy_change\<close> is in \<open>Buffer_Sync\<close>.

  Ports are read as in \<open>Hd\<close>.  The transfer itself is done by hardware between the last command byte and the interrupt: it
  writes the bytes at the address given to the DMA chip, or reads them.  The routines call
  \<open>do_fd_request\<close> and are called by it; they take it as the argument \<open>req\<close>.
\<close>

abbreviation (input) FD_STATUS :: u16 where "FD_STATUS \<equiv> 0x3f4"
abbreviation (input) FD_DATA :: u16 where "FD_DATA \<equiv> 0x3f5"
abbreviation (input) FD_DCR :: u16 where "FD_DCR \<equiv> 0x3f7"
abbreviation (input) STATUS_BUSY :: u8 where "STATUS_BUSY \<equiv> 0x10"
abbreviation (input) STATUS_DIR :: u8 where "STATUS_DIR \<equiv> 0x40"
abbreviation (input) STATUS_READY :: u8 where "STATUS_READY \<equiv> 0x80"
abbreviation (input) FD_RECALIBRATE :: u8 where "FD_RECALIBRATE \<equiv> 0x07"
abbreviation (input) FD_SEEK :: u8 where "FD_SEEK \<equiv> 0x0F"
abbreviation (input) FD_READ :: u8 where "FD_READ \<equiv> 0xE6"
abbreviation (input) FD_WRITE :: u8 where "FD_WRITE \<equiv> 0xC5"
abbreviation (input) FD_SENSEI :: u8 where "FD_SENSEI \<equiv> 0x08"
abbreviation (input) FD_SPECIFY :: u8 where "FD_SPECIFY \<equiv> 0x03"
abbreviation (input) DMA_READ :: u8 where "DMA_READ \<equiv> 0x46"
abbreviation (input) DMA_WRITE :: u8 where "DMA_WRITE \<equiv> 0x4A"
abbreviation (input) MAX_REPLIES :: nat where "MAX_REPLIES \<equiv> 7"
abbreviation (input) FD_MAX_ERRORS :: int where "FD_MAX_ERRORS \<equiv> 8"

definition upd_fd :: "(fd_driver \<Rightarrow> fd_driver) \<Rightarrow> fs \<Rightarrow> fs" where
  "upd_fd f s = s\<lparr>fdd := f (fdd s)\<rparr>"

record floppy_struct =
  f_size :: u32
  f_sect :: u32
  f_head :: u32
  f_track :: u32
  f_stretch :: u32
  f_gap :: u8
  f_rate :: u8
  f_spec1 :: u8

definition floppy_type :: "floppy_struct list" where
  "floppy_type =
    [\<lparr>f_size = 0, f_sect = 0, f_head = 0, f_track = 0, f_stretch = 0, f_gap = 0x00, f_rate = 0x00, f_spec1 = 0x00\<rparr>,
     \<lparr>f_size = 720, f_sect = 9, f_head = 2, f_track = 40, f_stretch = 0, f_gap = 0x2A, f_rate = 0x02, f_spec1 = 0xDF\<rparr>,
     \<lparr>f_size = 2400, f_sect = 15, f_head = 2, f_track = 80, f_stretch = 0, f_gap = 0x1B, f_rate = 0x00, f_spec1 = 0xDF\<rparr>,
     \<lparr>f_size = 720, f_sect = 9, f_head = 2, f_track = 40, f_stretch = 1, f_gap = 0x2A, f_rate = 0x02, f_spec1 = 0xDF\<rparr>,
     \<lparr>f_size = 1440, f_sect = 9, f_head = 2, f_track = 80, f_stretch = 0, f_gap = 0x2A, f_rate = 0x02, f_spec1 = 0xDF\<rparr>,
     \<lparr>f_size = 720, f_sect = 9, f_head = 2, f_track = 40, f_stretch = 1, f_gap = 0x23, f_rate = 0x01, f_spec1 = 0xDF\<rparr>,
     \<lparr>f_size = 1440, f_sect = 9, f_head = 2, f_track = 80, f_stretch = 0, f_gap = 0x23, f_rate = 0x01, f_spec1 = 0xDF\<rparr>,
     \<lparr>f_size = 2880, f_sect = 18, f_head = 2, f_track = 80, f_stretch = 0, f_gap = 0x1B, f_rate = 0x00, f_spec1 = 0xCF\<rparr>]"

text \<open>A read through the pointer \<open>floppy\<close>, which may stand behind the table.\<close>

definition with_type :: "fs \<Rightarrow> (floppy_struct \<Rightarrow> (fs, 'a) outcome) \<Rightarrow> (fs, 'a) outcome" where
  "with_type s f =
     (if floppy (fdd s) < length floppy_type then f (floppy_type ! floppy (fdd s)) else Undefined ''floppy->'')"

definition floppy_deselect :: "u32 \<Rightarrow> fs \<Rightarrow> fs" where
  "floppy_deselect nr s = wake_up wait_on_floppy_select (s\<lparr>selected := 0\<rparr>)"

section \<open>The controller\<close>

text \<open>The address of the buffer, or of \<open>tmp_floppy_area\<close> at \<open>0x5000\<close> for what the chip cannot reach.\<close>

definition setup_DMA :: "fs \<Rightarrow> (fs, unit) outcome" where
  "setup_DMA s =
     (case current_request s 2 of
        None \<Rightarrow> Undefined ''CURRENT->buffer''
      | Some c \<Rightarrow>
          let p = r_buffer (request_tab s c);
              addr = b_addr (buffers s (fst p)) + of_nat (snd p);
              high = (0x100000 \<le> sint addr)
          in if high \<and> fd_command (fdd s) = FD_WRITE \<and> snd p \<noteq> 0 then Undefined ''copy past the end of the buffer''
             else let s = (if high \<and> fd_command (fdd s) = FD_WRITE
                           then upd_fd (\<lambda>d. d\<lparr>tmp_floppy_area := (\<lambda>i. if i < BLOCK_SIZE then b_data (buffers s (fst p)) i else tmp_floppy_area d i)\<rparr>) s
                           else s);
                      addr = (if high then 0x5000 else addr);
                      mode = (if fd_command (fdd s) = FD_READ then DMA_READ else DMA_WRITE);
                      s = outb 6 10 s;
                      s = outb mode 11 (outb mode 12 s);
                      s = outb (ucast addr) 4 s;
                      s = outb (ucast (drop_bit 8 addr)) 4 s;
                      s = outb (ucast (drop_bit 16 addr)) 0x81 s;
                      s = outb 0xff 5 s;
                      s = outb 3 5 s
                  in Ret () (outb 2 10 s))"

primrec send_poll :: "nat \<Rightarrow> u8 \<Rightarrow> fs \<Rightarrow> fs" where
  "send_poll 0 byte s = upd_fd (\<lambda>d. d\<lparr>fd_reset := True\<rparr>) s"
| "send_poll (Suc n) byte s =
     (case inb FD_STATUS s of
        (status, s) \<Rightarrow> if status AND (STATUS_READY OR STATUS_DIR) = STATUS_READY then outb byte FD_DATA s else send_poll n byte s)"

definition output_byte :: "u8 \<Rightarrow> fs \<Rightarrow> fs" where
  "output_byte byte s = (if fd_reset (fdd s) then s else send_poll 10000 byte s)"

text \<open>The replies received so far are counted by \<open>i\<close>.\<close>

primrec reply_poll :: "nat \<Rightarrow> nat \<Rightarrow> fs \<Rightarrow> int \<times> fs" where
  "reply_poll 0 i s = (- 1, upd_fd (\<lambda>d. d\<lparr>fd_reset := True\<rparr>) s)"
| "reply_poll (Suc n) i s =
     (case inb FD_STATUS s of
        (status, s) \<Rightarrow>
          let status = status AND (STATUS_DIR OR STATUS_READY OR STATUS_BUSY) in
          if status = STATUS_READY then (int i, s)
          else if status = STATUS_DIR OR STATUS_READY OR STATUS_BUSY
          then if i \<ge> MAX_REPLIES then (- 1, upd_fd (\<lambda>d. d\<lparr>fd_reset := True\<rparr>) s)
               else (case inb FD_DATA s of
                       (v, s) \<Rightarrow> reply_poll n (i + 1) (upd_fd (\<lambda>d. d\<lparr>reply_buffer := (reply_buffer d)(i := v)\<rparr>) s))
          else reply_poll n i s)"

definition fd_result :: "fs \<Rightarrow> int \<times> fs" where
  "fd_result s = (if fd_reset (fdd s) then (- 1, s) else reply_poll 10000 0 s)"

section \<open>Errors\<close>

definition end_fd :: "u8 \<Rightarrow> fs \<Rightarrow> (fs, unit) outcome" where
  "end_fd = end_request 2 (\<lambda>dev s. floppy_off (unat (of_int dev AND 3 :: u32)) s)"

text \<open>As in \<open>bad_rw_intr\<close>, \<open>CURRENT\<close> may be the null pointer in its last use.\<close>

definition bad_flp_intr :: "fs \<Rightarrow> (fs, unit) outcome" where
  "bad_flp_intr s =
     (case current_request s 2 of
        None \<Rightarrow> Undefined ''CURRENT->errors++''
      | Some c \<Rightarrow>
          let s = upd_req c (\<lambda>r. r\<lparr>r_errors := s32 (r_errors r + 1)\<rparr>) s in
          bindO (if r_errors (request_tab s c) > FD_MAX_ERRORS then end_fd 0 (floppy_deselect (ucast (current_drive (fdd s))) s) else Ret () s) (\<lambda>_ s.
          let e = (case current_request s 2 of Some c \<Rightarrow> r_errors (request_tab s c) | None \<Rightarrow> sint (pmem s 8))
          in Ret () (if e > FD_MAX_ERRORS div 2 then upd_fd (\<lambda>d. d\<lparr>fd_reset := True\<rparr>) s
                     else upd_fd (\<lambda>d. d\<lparr>fd_recalibrate := True\<rparr>) s)))"

section \<open>Transfers\<close>

definition rw_interrupt :: "(fs \<Rightarrow> (fs, unit) outcome) \<Rightarrow> fs \<Rightarrow> (fs, unit) outcome" where
  "rw_interrupt req s =
     (case fd_result s of
        (n, s) \<Rightarrow>
          let st = reply_buffer (fdd s); drive = current_drive (fdd s) in
          if n \<noteq> 7 \<or> st 0 AND 0xf8 \<noteq> 0 \<or> st 1 AND 0xbf \<noteq> 0 \<or> st 2 AND 0x73 \<noteq> 0
          then bindO (if st 1 AND 0x02 \<noteq> 0 then end_fd 0 (floppy_deselect (ucast drive) s) else bad_flp_intr s) (\<lambda>_ s. req s)
          else case current_request s 2 of
                 None \<Rightarrow> if fd_command (fdd s) = FD_READ then Undefined ''CURRENT->buffer''
                         else bindO (end_fd 1 (floppy_deselect (ucast drive) s)) (\<lambda>_ s. req s)
               | Some c \<Rightarrow>
                   let p = r_buffer (request_tab s c);
                       copy = (fd_command (fdd s) = FD_READ \<and> 0x100000 \<le> b_addr (buffers s (fst p)) + of_nat (snd p))
                   in if copy \<and> snd p \<noteq> 0 then Undefined ''copy past the end of the buffer''
                      else let s = (if copy
                                    then upd_bh (fst p) (\<lambda>h. h\<lparr>b_data := (\<lambda>i. if i < BLOCK_SIZE then tmp_floppy_area (fdd s) i else b_data h i)\<rparr>) s
                                    else s)
                           in bindO (end_fd 1 (floppy_deselect (ucast drive) s)) (\<lambda>_ s. req s))"

definition head_drive :: "fd_driver \<Rightarrow> u8" where
  "head_drive d = ucast (push_bit 2 (ucast (fd_head d)) OR ucast (current_drive d) :: u32)"

definition setup_rw_floppy :: "(fs \<Rightarrow> (fs, unit) outcome) \<Rightarrow> fs \<Rightarrow> (fs, unit) outcome" where
  "setup_rw_floppy req s =
     bindO (setup_DMA s) (\<lambda>_ s.
     let s = upd_fd (\<lambda>d. d\<lparr>do_floppy := rw_interrupt_handler\<rparr>) s;
         s = output_byte (fd_command (fdd s)) s;
         s = output_byte (head_drive (fdd s)) s;
         s = output_byte (fd_track (fdd s)) s;
         s = output_byte (fd_head (fdd s)) s;
         s = output_byte (fd_sector (fdd s)) s;
         s = output_byte 2 s
     in with_type s (\<lambda>f.
        let s = output_byte (ucast (f_sect f)) s;
            s = output_byte (f_gap f) s;
            s = output_byte 0xFF s
        in if fd_reset (fdd s) then req s else Ret () s))"

definition seek_interrupt :: "(fs \<Rightarrow> (fs, unit) outcome) \<Rightarrow> fs \<Rightarrow> (fs, unit) outcome" where
  "seek_interrupt req s =
     (case fd_result (output_byte FD_SENSEI s) of
        (n, s) \<Rightarrow>
          let st = reply_buffer (fdd s) in
          if n \<noteq> 2 \<or> st 0 AND 0xF8 \<noteq> 0x20 \<or> st 1 \<noteq> seek_track (fdd s)
          then bindO (bad_flp_intr s) (\<lambda>_ s. req s)
          else setup_rw_floppy req (upd_fd (\<lambda>d. d\<lparr>current_track := st 1\<rparr>) s))"

definition transfer :: "(fs \<Rightarrow> (fs, unit) outcome) \<Rightarrow> fs \<Rightarrow> (fs, unit) outcome" where
  "transfer req s =
     with_type s (\<lambda>f.
       let s = (if cur_spec1 (fdd s) \<noteq> uint (f_spec1 f)
                then let s = upd_fd (\<lambda>d. d\<lparr>cur_spec1 := uint (f_spec1 f)\<rparr>) s;
                         s = output_byte FD_SPECIFY s;
                         s = output_byte (of_int (cur_spec1 (fdd s))) s
                     in output_byte 6 s
                else s);
           s = (if cur_rate (fdd s) \<noteq> uint (f_rate f)
                then outb (f_rate f) FD_DCR (upd_fd (\<lambda>d. d\<lparr>cur_rate := uint (f_rate f)\<rparr>) s)
                else s)
       in if fd_reset (fdd s) then req s
          else if \<not> fd_seek (fdd s) then setup_rw_floppy req s
          else let s = upd_fd (\<lambda>d. d\<lparr>do_floppy := seek_interrupt_handler\<rparr>) s;
                   s = (if seek_track (fdd s) \<noteq> 0
                        then output_byte (seek_track (fdd s)) (output_byte (head_drive (fdd s)) (output_byte FD_SEEK s))
                        else output_byte (head_drive (fdd s)) (output_byte FD_RECALIBRATE s))
               in if fd_reset (fdd s) then req s else Ret () s)"

section \<open>Recalibration and reset\<close>

text \<open>What the interrupts of a recalibration, of a reset and of nothing expected find out.\<close>

definition sense_ok :: "fs \<Rightarrow> bool \<times> fs" where
  "sense_ok s =
     (case fd_result (output_byte FD_SENSEI s) of
        (n, s) \<Rightarrow> (\<not> (n \<noteq> 2 \<or> reply_buffer (fdd s) 0 AND 0xE0 = 0x60), s))"

definition recal_interrupt :: "(fs \<Rightarrow> (fs, unit) outcome) \<Rightarrow> fs \<Rightarrow> (fs, unit) outcome" where
  "recal_interrupt req s =
     (case sense_ok s of
        (good, s) \<Rightarrow> req (if \<not> good then upd_fd (\<lambda>d. d\<lparr>fd_reset := True\<rparr>) s else upd_fd (\<lambda>d. d\<lparr>fd_recalibrate := False\<rparr>) s))"

definition unexpected_floppy_interrupt :: "fs \<Rightarrow> fs" where
  "unexpected_floppy_interrupt s =
     (case sense_ok s of
        (good, s) \<Rightarrow> if \<not> good then upd_fd (\<lambda>d. d\<lparr>fd_reset := True\<rparr>) s else upd_fd (\<lambda>d. d\<lparr>fd_recalibrate := True\<rparr>) s)"

definition recalibrate_floppy :: "(fs \<Rightarrow> (fs, unit) outcome) \<Rightarrow> fs \<Rightarrow> (fs, unit) outcome" where
  "recalibrate_floppy req s =
     (let s = upd_fd (\<lambda>d. d\<lparr>fd_recalibrate := False, current_track := 0, do_floppy := recal_interrupt_handler\<rparr>) s;
          s = output_byte FD_RECALIBRATE s;
          s = output_byte (head_drive (fdd s)) s
      in if fd_reset (fdd s) then req s else Ret () s)"

definition reset_interrupt :: "(fs \<Rightarrow> (fs, unit) outcome) \<Rightarrow> fs \<Rightarrow> (fs, unit) outcome" where
  "reset_interrupt req s =
     (let s = snd (fd_result (output_byte FD_SENSEI s));
          s = output_byte FD_SPECIFY s;
          s = output_byte (of_int (cur_spec1 (fdd s))) s
      in req (output_byte 6 s))"

definition reset_floppy :: "fs \<Rightarrow> fs" where
  "reset_floppy s =
     (let s = upd_fd (\<lambda>d. d\<lparr>fd_reset := False, cur_spec1 := - 1, cur_rate := - 1, fd_recalibrate := True, do_floppy := reset_interrupt_handler\<rparr>) s
      in outb (current_DOR s) FD_DOR (outb (current_DOR s AND NOT 0x04) FD_DOR s))"

section \<open>Requests\<close>

text \<open>The routines a timer can call, and the numbers that stand for their addresses.\<close>

abbreviation (input) FLOPPY_ON_INTERRUPT :: nat where "FLOPPY_ON_INTERRUPT \<equiv> 1"
abbreviation (input) TRANSFER :: nat where "TRANSFER \<equiv> 2"

definition floppy_on_interrupt :: "(fs \<Rightarrow> (fs, unit) outcome) \<Rightarrow> fs \<Rightarrow> (fs, unit) outcome" where
  "floppy_on_interrupt req s =
     (let s = s\<lparr>selected := 1\<rparr> in
      if current_drive (fdd s) \<noteq> current_DOR s AND 3
      then let s = s\<lparr>current_DOR := (current_DOR s AND 0xFC) OR current_drive (fdd s)\<rparr>
           in add_timer (\<lambda>_. transfer req) 2 TRANSFER (outb (current_DOR s) FD_DOR s)
      else transfer req s)"

text \<open>
  Sector, head and track of a request on a disk of type \<open>f\<close>, and the track to seek; a divisor of 0 is a
  divide error.
\<close>

definition fd_position :: "u32 \<Rightarrow> floppy_struct \<Rightarrow> fd_driver \<Rightarrow> fd_driver option" where
  "fd_position block f d =
     (if f_sect f = 0 \<or> f_head f = 0 then None
      else let d = d\<lparr>fd_sector := ucast (block mod f_sect f)\<rparr>;
               block = block div f_sect f;
               d = d\<lparr>fd_head := ucast (block mod f_head f), fd_track := ucast (block div f_head f)\<rparr>;
               d = d\<lparr>seek_track := ucast (push_bit (unat (f_stretch f)) (ucast (fd_track d)) :: u32)\<rparr>;
               d = (if seek_track d \<noteq> current_track d then d\<lparr>fd_seek := True\<rparr> else d)
           in Some (d\<lparr>fd_sector := fd_sector d + 1\<rparr>))"

definition fd_select :: "u32 \<Rightarrow> fd_driver \<Rightarrow> fd_driver" where
  "fd_select dev d =
     (let d = d\<lparr>floppy := unat (drop_bit 2 (MINOR dev))\<rparr>;
          d = (if ucast (current_drive d) \<noteq> dev AND 3 then d\<lparr>fd_seek := True\<rparr> else d)
      in d\<lparr>current_drive := ucast (dev AND 3)\<rparr>)"

definition fd_start :: "(fs \<Rightarrow> (fs, unit) outcome) \<Rightarrow> nat \<Rightarrow> fs \<Rightarrow> (fs, unit + unit) outcome" where
  "fd_start req c s =
     (let r = request_tab s c;
          s = upd_fd (fd_select (of_int (r_dev r))) s
      in with_type s (\<lambda>f.
         if r_sector r + 2 > f_size f then bindO (end_fd 0 s) (\<lambda>_ s. Ret (Inl ()) s)
         else case fd_position (r_sector r) f (fdd s) of
                None \<Rightarrow> Undefined ''divl''
              | Some d \<Rightarrow>
                  let s = s\<lparr>fdd := d\<rparr> in
                  if r_cmd r \<noteq> READ \<and> r_cmd r \<noteq> WRITE then Panic ''do_fd_request: unknown command''
                  else let s = upd_fd (\<lambda>d. d\<lparr>fd_command := (if r_cmd r = READ then FD_READ else FD_WRITE)\<rparr>) s
                       in bindO (ticks_to_floppy_on (unat (current_drive (fdd s))) s) (\<lambda>ticks s.
                          bindO (add_timer (\<lambda>_. floppy_on_interrupt req) ticks FLOPPY_ON_INTERRUPT s) (\<lambda>_ s.
                          Ret (Inr ()) s))))"

definition fd_round :: "(fs \<Rightarrow> (fs, unit) outcome) \<Rightarrow> unit \<Rightarrow> fs \<Rightarrow> (fs, unit + unit) outcome" where
  "fd_round req = (\<lambda>_ s.
     bindO (INIT_REQUEST 2 s) (\<lambda>c s.
     case c of
       None \<Rightarrow> Ret (Inr ()) s
     | Some c \<Rightarrow> fd_start req c s))"

text \<open>
  \<open>do_fd_request\<close> with at most \<open>n\<close> calls inside each other.  Those from its own routines happen when \<open>reset\<close> is set, and then the
  inner call only resets the controller: the nesting is at most 2 deep (\<open>fd_request_deep\<close>).
\<close>

primrec fd_request :: "nat \<Rightarrow> fs \<Rightarrow> (fs, unit) outcome" where
  "fd_request 0 s = Blocked"
| "fd_request (Suc n) s =
     (let s = upd_fd (\<lambda>d. d\<lparr>fd_seek := False\<rparr>) s in
      if fd_reset (fdd s) then Ret () (reset_floppy s)
      else if fd_recalibrate (fdd s) then recalibrate_floppy (fd_request n) s
      else loopO (fd_round (fd_request n)) () s)"

definition do_fd_request :: "fs \<Rightarrow> (fs, unit) outcome" where
  "do_fd_request = fd_request 2"

definition fd_timer :: "nat \<Rightarrow> fs \<Rightarrow> (fs, unit) outcome" where
  "fd_timer fn =
     (if fn = FLOPPY_ON_INTERRUPT then floppy_on_interrupt do_fd_request
      else if fn = TRANSFER then transfer do_fd_request
      else (\<lambda>_. Undefined ''timer''))"

text \<open>\<open>_floppy_interrupt\<close> of \<open>src/kernel/system_call.s\<close>.\<close>

definition floppy_interrupt :: "fs \<Rightarrow> (fs, unit) outcome" where
  "floppy_interrupt s =
     (let h = do_floppy (fdd s);
          s = upd_fd (\<lambda>d. d\<lparr>do_floppy := no_floppy_handler\<rparr>) (outb 0x20 0x20 s)
      in case h of
           no_floppy_handler \<Rightarrow> Ret () (unexpected_floppy_interrupt s)
         | rw_interrupt_handler \<Rightarrow> rw_interrupt do_fd_request s
         | seek_interrupt_handler \<Rightarrow> seek_interrupt do_fd_request s
         | recal_interrupt_handler \<Rightarrow> recal_interrupt do_fd_request s
         | reset_interrupt_handler \<Rightarrow> reset_interrupt do_fd_request s)"

definition floppy_init :: "fs \<Rightarrow> fs" where
  "floppy_init s =
     (let s = s\<lparr>request_fn := (request_fn s)(2 := True)\<rparr>
      in outb (inb_val s 0x21 AND NOT 0x40) 0x21 s)"

end
