(* ===== verification/Floppy_Props.thy ===== *)
theory Floppy_Props
  imports Floppy Hd_Props Sched_Props Fs_Frame
begin

unbundle bit_operations_syntax

text \<open>
  The floppy driver: calls of \<open>do_fd_request\<close> inside each other, that a request always waits for an interrupt or a timer,
  and that a read brings the block asked for into its buffer.
\<close>

section \<open>Nested calls\<close>

text \<open>Two continuations that agree where \<open>reset\<close> is set.\<close>

definition agree :: "(fs \<Rightarrow> (fs, unit) outcome) \<Rightarrow> (fs \<Rightarrow> (fs, unit) outcome) \<Rightarrow> bool" where
  "agree f g \<longleftrightarrow> (\<forall>s. fd_reset (fdd s) \<longrightarrow> f s = g s)"

lemma agreeD: "agree f g \<Longrightarrow> fd_reset (fdd s) \<Longrightarrow> f s = g s"
  by (simp add: agree_def)

lemma setup_rw_agree: "agree f g \<Longrightarrow> setup_rw_floppy f s = setup_rw_floppy g s"
  unfolding setup_rw_floppy_def Let_def with_type_def by (intro arg_cong [where f = "bindO (setup_DMA s)"] ext) (simp add: agreeD)

lemma transfer_agree: "agree f g \<Longrightarrow> transfer f s = transfer g s"
  unfolding transfer_def Let_def with_type_def by (simp add: agreeD setup_rw_agree)

lemma recalibrate_agree: "agree f g \<Longrightarrow> recalibrate_floppy f s = recalibrate_floppy g s"
  unfolding recalibrate_floppy_def Let_def by (simp add: agreeD)

lemma fd_round_agree:
  assumes "agree f g"
  shows "fd_round f = fd_round g"
proof -
  have "transfer f = transfer g" using transfer_agree [OF assms] by blast
  then have o: "floppy_on_interrupt f = floppy_on_interrupt g" by (intro ext) (simp add: floppy_on_interrupt_def Let_def)
  show ?thesis unfolding fd_round_def fd_start_def o by (rule refl)
qed

lemma fd_request_agree: "agree (fd_request (Suc n)) (fd_request (Suc m))"
  by (simp add: agree_def upd_fd_def Let_def)

text \<open>More nesting than two does not happen.\<close>

lemma fd_request_deep: "fd_request (n + 2) s = do_fd_request s"
proof -
  have "fd_request (Suc (Suc n)) s = fd_request (Suc (Suc 0)) s"
    using recalibrate_agree [OF fd_request_agree [of n 0]] fd_round_agree [OF fd_request_agree [of n 0]]
    by (subst (1 2) fd_request.simps(2)) (simp only: Let_def)
  then show ?thesis by (simp add: do_fd_request_def numeral_2_eq_2 del: fd_request.simps)
qed

lemma do_fd_request_unfold:
  "do_fd_request s =
     (let s = upd_fd (\<lambda>d. d\<lparr>fd_seek := False\<rparr>) s in
      if fd_reset (fdd s) then Ret () (reset_floppy s)
      else if fd_recalibrate (fdd s) then recalibrate_floppy do_fd_request s
      else loopO (fd_round do_fd_request) () s)"
proof -
  have a: "agree (fd_request (Suc 0)) (fd_request (Suc (Suc 0)))" by (rule fd_request_agree)
  have e: "do_fd_request = fd_request (Suc (Suc 0))" by (simp only: do_fd_request_def numeral_2_eq_2)
  show ?thesis unfolding e
    using recalibrate_agree [OF a] fd_round_agree [OF a] by (subst (1) fd_request.simps(2)) (simp only: Let_def)
qed


section \<open>A request never waits for nothing\<close>

text \<open>Where a path that returns may end.\<close>

definition ends :: "('s \<Rightarrow> bool) \<Rightarrow> ('s, 'a) outcome \<Rightarrow> bool" where
  "ends P m \<longleftrightarrow> (\<forall>a t. m = Ret a t \<longrightarrow> P t)"

lemma ends_simps [simp]:
  "ends P (Ret a s) = P s" "ends P (Panic x)" "ends P (Undefined x)" "ends P Blocked" "ends P (Exits c s)"
  by (simp_all add: ends_def)

lemma ends_bind: "ends P m \<Longrightarrow> (\<And>a s. P s \<Longrightarrow> ends Q (f a s)) \<Longrightarrow> ends Q (bindO m f)"
  by (cases m) simp_all

lemma ends_if: "(c \<Longrightarrow> ends P m) \<Longrightarrow> (\<not> c \<Longrightarrow> ends P n) \<Longrightarrow> ends P (if c then m else n)"
  by simp

lemma ends_option: "(x = None \<Longrightarrow> ends P m) \<Longrightarrow> (\<And>y. x = Some y \<Longrightarrow> ends P (f y)) \<Longrightarrow> ends P (case x of None \<Rightarrow> m | Some y \<Rightarrow> f y)"
  by (cases x) simp_all

lemma ends_pair: "(\<And>a s. x = (a, s) \<Longrightarrow> ends P (f a s)) \<Longrightarrow> ends P (case x of (a, s) \<Rightarrow> f a s)"
  by (cases x) simp

lemma ends_Let: "(\<And>x. x = v \<Longrightarrow> ends P (f x)) \<Longrightarrow> ends P (let x = v in f x)"
  by simp

lemma ends_with_type: "(\<And>t. t \<in> set floppy_type \<Longrightarrow> ends P (f t)) \<Longrightarrow> ends P (with_type s f)"
  by (simp add: with_type_def)


text \<open>The timer list is in order and the motor timers are in the range of their type.\<close>

definition orderly :: "fs \<Rightarrow> bool" where
  "orderly s \<longleftrightarrow> (\<exists>ps. timers_ok s ps) \<and> (\<forall>k. mon_timer s k < 2 ^ 31)"

text \<open>The driver has no request, or waits for an interrupt with a routine, or one of its timers is on the list.\<close>

definition awaits :: "fs \<Rightarrow> bool" where
  "awaits s \<longleftrightarrow> current_request s 2 = None \<or> do_floppy (fdd s) \<noteq> no_floppy_handler \<or>
     (\<exists>p<TIME_REQUESTS. t_fn (timer_list s p) = FLOPPY_ON_INTERRUPT \<or> t_fn (timer_list s p) = TRANSFER)"

definition armed :: "fs \<Rightarrow> bool" where
  "armed s \<longleftrightarrow> orderly s \<and> awaits s"

lemma armed_orderly: "armed s \<Longrightarrow> orderly s"
  by (simp add: armed_def)

text \<open>What the code of the controller leaves alone.\<close>

definition quiet :: "fs \<Rightarrow> fs \<Rightarrow> bool" where
  "quiet s t \<longleftrightarrow> timer_list t = timer_list s \<and> next_timer t = next_timer s \<and> mon_timer t = mon_timer s \<and>
     current_request t = current_request s \<and> do_floppy (fdd t) = do_floppy (fdd s)"

lemma quiet_refl [simp]: "quiet s s"
  by (simp add: quiet_def)

lemma quiet_trans: "quiet s t \<Longrightarrow> quiet t u \<Longrightarrow> quiet s u"
  by (simp add: quiet_def)

lemma timers_ok_cong: "timer_list t = timer_list s \<Longrightarrow> next_timer t = next_timer s \<Longrightarrow> timers_ok t ps = timers_ok s ps"
  by (simp add: timers_ok_def)

lemma orderly_cong: "timer_list t = timer_list s \<Longrightarrow> next_timer t = next_timer s \<Longrightarrow> mon_timer t = mon_timer s \<Longrightarrow> orderly t = orderly s"
  using timers_ok_cong [of t s] by (simp add: orderly_def)

lemma quiet_orderly: "quiet s t \<Longrightarrow> orderly t = orderly s"
  by (rule orderly_cong) (simp_all add: quiet_def)

lemma quiet_armed: "quiet s t \<Longrightarrow> armed t = armed s"
  using quiet_orderly [of s t] by (simp only: armed_def quiet_def awaits_def)

lemma upd_fd_simps [simp]:
  "fdd (upd_fd f s) = f (fdd s)" "hdd (upd_fd f s) = hdd s" "request_tab (upd_fd f s) = request_tab s" "buffers (upd_fd f s) = buffers s"
  "current_request (upd_fd f s) = current_request s" "pmem (upd_fd f s) = pmem s" "ports (upd_fd f s) = ports s"
  "timer_list (upd_fd f s) = timer_list s" "next_timer (upd_fd f s) = next_timer s" "mon_timer (upd_fd f s) = mon_timer s"
  "current_DOR (upd_fd f s) = current_DOR s" "selected (upd_fd f s) = selected s" "moff_timer (upd_fd f s) = moff_timer s"
  by (simp_all add: upd_fd_def)

lemma outb_timers [simp]:
  "timer_list (outb v p s) = timer_list s" "next_timer (outb v p s) = next_timer s" "mon_timer (outb v p s) = mon_timer s"
  "fdd (outb v p s) = fdd s" "current_DOR (outb v p s) = current_DOR s" "selected (outb v p s) = selected s" "moff_timer (outb v p s) = moff_timer s"
  for s :: fs
  by (simp_all add: outb_def)

lemma upd_hd_timers [simp]:
  "timer_list (upd_hd g s) = timer_list s" "next_timer (upd_hd g s) = next_timer s" "mon_timer (upd_hd g s) = mon_timer s" "fdd (upd_hd g s) = fdd s"
  "current_DOR (upd_hd g s) = current_DOR s" "selected (upd_hd g s) = selected s" "moff_timer (upd_hd g s) = moff_timer s"
  by (simp_all add: upd_hd_def)

lemma wake_up_timers [simp]:
  "timer_list (wake_up get s) = timer_list s" "next_timer (wake_up get s) = next_timer s" "mon_timer (wake_up get s) = mon_timer s"
  "current_DOR (wake_up get s) = current_DOR s" "selected (wake_up get s) = selected s" "moff_timer (wake_up get s) = moff_timer s"
  for s :: fs
  by (simp_all add: wake_up_def upd_task_def)

lemma upd_timers [simp]:
  "timer_list (upd_bh b h s) = timer_list s" "next_timer (upd_bh b h s) = next_timer s" "mon_timer (upd_bh b h s) = mon_timer s"
  "timer_list (upd_req c k s) = timer_list s" "next_timer (upd_req c k s) = next_timer s" "mon_timer (upd_req c k s) = mon_timer s"
  by (simp_all add: upd_bh_def upd_req_def)

lemma inb_quiet: "inb p s = (v, t) \<Longrightarrow> quiet s t"
  by (auto simp: inb_def inw_def quiet_def)

lemma send_poll_quiet: "quiet s (send_poll n byte s)"
proof (induction n arbitrary: s)
  case (Suc n)
  obtain v u where u: "inb FD_STATUS s = (v, u)" by force
  have "quiet u (outb byte FD_DATA u)" by (simp add: quiet_def)
  then show ?case using Suc [of u] inb_quiet [OF u] u by (auto intro: quiet_trans)
qed (simp add: quiet_def)

lemma output_byte_quiet [simp]: "quiet s (output_byte byte s)"
  by (simp add: output_byte_def send_poll_quiet del: send_poll.simps)

lemma reply_poll_quiet: "quiet s (snd (reply_poll n i s))"
proof (induction n arbitrary: i s)
  case (Suc n)
  obtain v u where u: "inb FD_STATUS s = (v, u)" by force
  obtain w x where x: "inb FD_DATA u = (w, x)" by force
  define y where "y = upd_fd (\<lambda>d. d\<lparr>reply_buffer := (reply_buffer d)(i := w)\<rparr>) x"
  have "quiet s u" "quiet u x" "quiet x y" "quiet u (upd_fd (\<lambda>d. d\<lparr>fd_reset := True\<rparr>) u)"
    using inb_quiet [OF u] inb_quiet [OF x] by (simp_all add: y_def quiet_def)
  then show ?case using quiet_trans [OF _ Suc [of u i]] quiet_trans [OF _ Suc [of y "i + 1"]] u x
    by (auto simp: Let_def y_def intro: quiet_trans)
qed (simp add: quiet_def)

lemma fd_result_quiet: "fd_result s = (n, t) \<Longrightarrow> quiet s t"
  using reply_poll_quiet [of s 10000 0] by (auto simp: fd_result_def split: if_splits simp del: reply_poll.simps)


lemma insert_delta_set: "fst ` set (insert_delta J f ds) \<subseteq> {0..} \<and> snd ` set (insert_delta J f ds) = insert f (snd ` set ds)"
  if "\<forall>x\<in>set ds. 0 \<le> fst x" "0 \<le> J"
  using that by (induction J f ds rule: insert_delta.induct) auto

lemma timer_insert_mon: "timer_insert n p s = Ret () t \<Longrightarrow> mon_timer t = mon_timer s" for s :: fs
proof (induction n arbitrary: p s)
  case (Suc n)
  have k: "mon_timer (set_timer q u s) = mon_timer s" for q u and s :: fs by (simp add: set_timer_def)
  show ?case using Suc by (fastforce simp: k Let_def split: option.splits if_splits)
qed simp

lemma add_timer_armed:
  assumes c: "orderly s" and fn: "fn = FLOPPY_ON_INTERRUPT \<or> fn = TRANSFER" and J: "J < 2 ^ 31"
    and run: "J \<le> 0 \<Longrightarrow> ends armed (run fn s)"
  shows "ends armed (add_timer run J fn s)"
proof -
  obtain ps where ps: "timers_ok s ps" and mon: "\<forall>k. mon_timer s k < 2 ^ 31" using c by (auto simp: orderly_def)
  show ?thesis
  proof (cases "J \<le> 0")
    case True
    then show ?thesis using fn run by (auto simp: add_timer_def)
  next
    case pos: False
    show ?thesis
    proof (cases "free_timer s")
      case None
      then show ?thesis using pos fn by (auto simp: add_timer_def)
    next
      case (Some p)
      let ?s = "(set_timer p \<lparr>t_jiffies = J, t_fn = fn, t_next = next_timer s\<rparr> s)\<lparr>next_timer := Some p\<rparr>"
      have p: "t_fn (timer_list s p) = 0" "p < TIME_REQUESTS"
        using find_Some_set [OF Some [unfolded free_timer_def]] by auto
      then have np: "p \<notin> set ps" using ps by (auto simp: timers_ok_def)
      have T: "timer_list ?s = (timer_list s)(p := \<lparr>t_jiffies = J, t_fn = fn, t_next = next_timer s\<rparr>)"
        by (simp add: set_timer_def)
      have ch: "tchain (timer_list s) (next_timer s) ps" "distinct ps" "set ps \<subseteq> {..<TIME_REQUESTS}"
        and nn: "\<And>q. q \<in> set ps \<Longrightarrow> 0 \<le> t_jiffies (timer_list s q)"
        and fns: "\<And>q. q < TIME_REQUESTS \<Longrightarrow> t_fn (timer_list s q) \<noteq> 0 \<longleftrightarrow> q \<in> set ps"
        using ps by (auto simp: timers_ok_def)
      have nn': "0 \<le> t_jiffies (timer_list ?s q)" if "q \<in> set ps" for q using nn [OF that] pos by (auto simp: T)
      obtain t where t: "timer_insert (TIME_REQUESTS + 1) p ?s = Ret () t" "next_timer t = Some p" "tchain (timer_list t) (Some p) (p # ps)"
        "deltas (timer_list t) (p # ps) = insert_delta J fn (deltas (timer_list s) ps)"
        "\<forall>q. q \<notin> set (p # ps) \<longrightarrow> timer_list t q = timer_list ?s q"
        using timer_insert_ok [of ?s p ps "TIME_REQUESTS + 1"] nn' ch np pos J timers_length [OF ps]
        by (auto simp: T tchain_upd deltas_upd)
      have d: "\<forall>x\<in>set (deltas (timer_list s) ps). 0 \<le> fst x" using nn by (auto simp: deltas_def)
      have g: "fst ` set (deltas (timer_list t) (p # ps)) \<subseteq> {0..}"
        "snd ` set (deltas (timer_list t) (p # ps)) = insert fn (snd ` set (deltas (timer_list s) ps))"
        using insert_delta_set [OF d, of J fn] pos t(4) by simp_all
      then have tj: "0 \<le> t_jiffies (timer_list t q)" if "q \<in> set (p # ps)" for q using that by (force simp: deltas_def)
      have tf: "(\<lambda>q. t_fn (timer_list t q)) ` set (p # ps) = insert fn ((\<lambda>q. t_fn (timer_list s q)) ` set ps)"
        using g(2) by (simp add: deltas_def image_image)
      have nz: "t_fn (timer_list t q) \<noteq> 0 \<longleftrightarrow> q \<in> set (p # ps)" if "q < TIME_REQUESTS" for q
      proof (cases "q \<in> set (p # ps)")
        case True
        then have "t_fn (timer_list t q) \<in> insert fn ((\<lambda>q. t_fn (timer_list s q)) ` set ps)" using tf by blast
        moreover have "t_fn (timer_list s r) \<noteq> 0" if "r \<in> set ps" for r using fns ch(3) that by auto
        ultimately show ?thesis using fn True by auto
      next
        case False
        then show ?thesis using t(5) T fns [OF that] by auto
      qed
      have "timers_ok t (p # ps)"
        unfolding timers_ok_def using t(2,3) ch np p tj nz by auto
      moreover have "mon_timer t = mon_timer s" using timer_insert_mon [OF t(1)] by (simp add: set_timer_def)
      ultimately have "orderly t" using mon unfolding orderly_def by (metis (no_types))
      moreover have "awaits t"
      proof -
        obtain q where q: "q \<in> set (p # ps)" "t_fn (timer_list t q) = fn" using tf by (metis (no_types, lifting) imageE insertI1)
        then have "q < TIME_REQUESTS" using p(2) ch(3) by auto
        then show ?thesis using fn q(2) unfolding awaits_def by blast
      qed
      moreover have "add_timer run J fn s = Ret () t" using pos fn Some t(1) by (auto simp: add_timer_def)
      ultimately show ?thesis by (simp add: armed_def)
    qed
  qed
qed


section \<open>The routines\<close>

lemma orderly_fields [simp]:
  "orderly (upd_fd f s) = orderly s" "orderly (outb v p s) = orderly s" "orderly (wake_up get s) = orderly s" "orderly (upd_bh b h s) = orderly s"
  "orderly (upd_req c k s) = orderly s" "orderly (s\<lparr>current_DOR := dor\<rparr>) = orderly s" "orderly (s\<lparr>selected := sel\<rparr>) = orderly s"
  "orderly (s\<lparr>fdd := d\<rparr>) = orderly s" "orderly (s\<lparr>moff_timer := m\<rparr>) = orderly s" "orderly (s\<lparr>current_request := crq\<rparr>) = orderly s"
  by (rule orderly_cong; simp)+

lemma orderly_output_byte [simp]: "orderly (output_byte b s) = orderly s"
  by (rule quiet_orderly) simp

lemma orderly_floppy_deselect [simp]: "orderly (floppy_deselect nr s) = orderly s"
  by (simp add: floppy_deselect_def)

lemma orderly_result: "fd_result s = (n, t) \<Longrightarrow> orderly t = orderly s"
  by (rule quiet_orderly) (rule fd_result_quiet)

lemma end_fd_orderly: "orderly s \<Longrightarrow> ends orderly (end_fd u s)"
  by (auto simp: end_fd_def end_request_def floppy_off_def unlock_buffer_def Let_def split: option.split)

lemma bad_flp_intr_orderly: "orderly s \<Longrightarrow> ends orderly (bad_flp_intr s)"
  unfolding bad_flp_intr_def Let_def
  by (intro ends_option ends_bind [where P = orderly] ends_if end_fd_orderly) simp_all

lemma setup_DMA_orderly: "orderly s \<Longrightarrow> ends orderly (setup_DMA s)"
  unfolding setup_DMA_def Let_def by (intro ends_option ends_if) simp_all

text \<open>A continuation that leaves the driver armed.\<close>

definition arms :: "(fs \<Rightarrow> (fs, unit) outcome) \<Rightarrow> bool" where
  "arms f \<longleftrightarrow> (\<forall>s. orderly s \<longrightarrow> ends armed (f s))"

lemma armsD: "arms f \<Longrightarrow> orderly s \<Longrightarrow> ends armed (f s)"
  by (simp add: arms_def)

lemma arms_then: "arms f \<Longrightarrow> ends orderly m \<Longrightarrow> ends armed (bindO m (\<lambda>_ s. f s))"
  by (cases m) (simp_all add: arms_def)

lemma handler_armed: "orderly s \<Longrightarrow> do_floppy (fdd s) \<noteq> no_floppy_handler \<Longrightarrow> armed s"
  unfolding armed_def awaits_def by blast

lemma output_byte_handler [simp]: "do_floppy (fdd (output_byte b s)) = do_floppy (fdd s)"
  using output_byte_quiet [of s b] unfolding quiet_def by blast

lemma setup_rw_arms: "arms req \<Longrightarrow> arms (setup_rw_floppy req)"
  unfolding arms_def setup_rw_floppy_def Let_def
  by (intro allI impI ends_bind [OF setup_DMA_orderly] ends_with_type ends_if) (simp_all add: handler_armed)

lemma rw_interrupt_arms: "arms req \<Longrightarrow> arms (rw_interrupt req)"
  unfolding arms_def [of "rw_interrupt req"] rw_interrupt_def Let_def
  by (intro allI impI ends_pair ends_if arms_then end_fd_orderly bad_flp_intr_orderly ends_option)
    (simp_all add: orderly_result)

lemma seek_interrupt_arms: "arms req \<Longrightarrow> arms (seek_interrupt req)"
  unfolding arms_def [of "seek_interrupt req"] seek_interrupt_def Let_def
  by (intro allI impI ends_pair ends_if arms_then bad_flp_intr_orderly armsD [OF setup_rw_arms]) (simp_all add: orderly_result)

lemma transfer_arms:
  assumes "arms req"
  shows "arms (transfer req)"
proof -
  have "ends armed (transfer req s)" if c: "orderly s" for s
    unfolding transfer_def
  proof (intro ends_with_type ends_Let)
    fix f t u
    assume t: "t = (if cur_spec1 (fdd s) \<noteq> uint (f_spec1 f)
                then let s = upd_fd (\<lambda>d. d\<lparr>cur_spec1 := uint (f_spec1 f)\<rparr>) s;
                         s = output_byte FD_SPECIFY s;
                         s = output_byte (of_int (cur_spec1 (fdd s))) s
                     in output_byte 6 s
                else s)"
      and u: "u = (if cur_rate (fdd t) \<noteq> uint (f_rate f)
                then outb (f_rate f) FD_DCR (upd_fd (\<lambda>d. d\<lparr>cur_rate := uint (f_rate f)\<rparr>) t) else t)"
    have "orderly t" using c by (simp add: t Let_def)
    then have u: "orderly u" by (simp add: u)
    define v where "v = upd_fd (\<lambda>d. d\<lparr>do_floppy := seek_interrupt_handler\<rparr>) u"
    define w where "w = (if seek_track (fdd v) \<noteq> 0
                        then output_byte (seek_track (fdd v)) (output_byte (head_drive (fdd v)) (output_byte FD_SEEK v))
                        else output_byte (head_drive (fdd v)) (output_byte FD_RECALIBRATE v))"
    have "orderly w" "do_floppy (fdd w) = seek_interrupt_handler" using u by (simp_all add: w_def v_def)
    show "ends armed (if fd_reset (fdd u) then req u
          else if \<not> fd_seek (fdd u) then setup_rw_floppy req u
          else let s = upd_fd (\<lambda>d. d\<lparr>do_floppy := seek_interrupt_handler\<rparr>) u;
                   s = (if seek_track (fdd s) \<noteq> 0
                        then output_byte (seek_track (fdd s)) (output_byte (head_drive (fdd s)) (output_byte FD_SEEK s))
                        else output_byte (head_drive (fdd s)) (output_byte FD_RECALIBRATE s))
               in if fd_reset (fdd s) then req s else Ret () s)"
      unfolding Let_def v_def [symmetric] w_def [symmetric]
      using assms u \<open>orderly w\<close> \<open>do_floppy (fdd w) = seek_interrupt_handler\<close>
      by (intro ends_if armsD [OF setup_rw_arms] armsD [where f = req]) (simp_all add: handler_armed)
  qed
  then show ?thesis by (simp add: arms_def)
qed

lemma sense_ok_orderly: "sense_ok s = (g, t) \<Longrightarrow> orderly t = orderly s"
  by (auto simp: sense_ok_def orderly_result split: prod.splits)

lemma recal_interrupt_arms: "arms req \<Longrightarrow> arms (recal_interrupt req)"
  unfolding arms_def [of "recal_interrupt req"] recal_interrupt_def
  by (intro allI impI ends_pair armsD) (simp_all add: sense_ok_orderly)

lemma recalibrate_floppy_arms: "arms req \<Longrightarrow> arms (recalibrate_floppy req)"
  unfolding arms_def [of "recalibrate_floppy req"] recalibrate_floppy_def Let_def
  by (intro allI impI ends_if armsD [where f = req]) (simp_all add: handler_armed)

lemma reset_interrupt_arms: "arms req \<Longrightarrow> arms (reset_interrupt req)"
  unfolding arms_def [of "reset_interrupt req"] reset_interrupt_def Let_def
  by (intro allI impI armsD) (auto simp: orderly_result [OF prod.collapse [symmetric]])

lemma reset_floppy_armed: "orderly s \<Longrightarrow> armed (reset_floppy s)"
  unfolding reset_floppy_def Let_def by (rule handler_armed) simp_all

lemma floppy_on_interrupt_arms: "arms req \<Longrightarrow> arms (floppy_on_interrupt req)"
  unfolding arms_def [of "floppy_on_interrupt req"] floppy_on_interrupt_def Let_def
  by (intro allI impI ends_if add_timer_armed armsD [OF transfer_arms]) simp_all


lemma ticks_orderly: "orderly s \<Longrightarrow> ticks_to_floppy_on n s = Ret k t \<Longrightarrow> orderly t \<and> k < 2 ^ 31"
proof -
  assume c: "orderly s" and t: "ticks_to_floppy_on n s = Ret k t"
  have "timer_list t = timer_list s \<and> next_timer t = next_timer s \<and> k = mon_timer t n \<and> (\<forall>i. mon_timer t i < 2 ^ 31)"
    using c t by (auto simp: ticks_to_floppy_on_def Let_def orderly_def split: if_splits)
  then show ?thesis using c timers_ok_cong [of t s] by (auto simp: orderly_def)
qed

lemma INIT_REQUEST_state: "INIT_REQUEST m s = Ret c t \<Longrightarrow> t = s \<and> c = current_request s m"
  by (auto simp: INIT_REQUEST_def split: option.splits if_splits)

lemma fd_round_ends:
  assumes "arms req" "orderly s"
  shows "fd_round req () s = Ret (Inl ()) t \<Longrightarrow> orderly t" "fd_round req () s = Ret (Inr ()) t \<Longrightarrow> armed t"
proof -
  have "(\<forall>x t. fd_round req () s = Ret x t \<longrightarrow> (case x of Inl _ \<Rightarrow> orderly t | Inr _ \<Rightarrow> armed t))"
  proof (cases "INIT_REQUEST 2 s")
    case (Ret c u)
    have u: "u = s" "c = current_request s 2" using INIT_REQUEST_state [OF Ret] by auto
    show ?thesis
    proof (cases c)
      case None
      then have "armed s" using assms(2) u unfolding armed_def awaits_def by simp
      then show ?thesis using Ret None u by (simp add: fd_round_def)
    next
      case (Some k)
      define r v where "r = request_tab s k" and "v = upd_fd (fd_select (of_int (r_dev r))) s"
      have v: "orderly v" using assms(2) by (simp add: v_def)
      let ?body = "\<lambda>f. if r_sector r + 2 > f_size f then bindO (end_fd 0 v) (\<lambda>_ s. Ret (Inl ()) s)
            else case fd_position (r_sector r) f (fdd v) of
                   None \<Rightarrow> Undefined ''divl''
                 | Some d \<Rightarrow>
                     let s = v\<lparr>fdd := d\<rparr> in
                     if r_cmd r \<noteq> READ \<and> r_cmd r \<noteq> WRITE then Panic ''do_fd_request: unknown command''
                     else let s = upd_fd (\<lambda>d. d\<lparr>fd_command := (if r_cmd r = READ then FD_READ else FD_WRITE)\<rparr>) s
                          in bindO (ticks_to_floppy_on (unat (current_drive (fdd s))) s) (\<lambda>ticks s.
                             bindO (add_timer (\<lambda>_. floppy_on_interrupt req) ticks FLOPPY_ON_INTERRUPT s) (\<lambda>_ s.
                             Ret (Inr ()) s))"
      have "fd_start req k s = with_type v ?body" by (simp only: fd_start_def Let_def r_def v_def)
      then have e: "fd_round req () s = with_type v ?body" using Ret Some u by (simp add: fd_round_def)
      have b: "\<forall>x t. ?body f = Ret x t \<longrightarrow> (case x of Inl _ \<Rightarrow> orderly t | Inr _ \<Rightarrow> armed t)" for f
      proof (cases "r_sector r + 2 > f_size f")
        case True
        then show ?thesis using end_fd_orderly [OF v, of 0] by (cases "end_fd 0 v") auto
      next
        case False
        show ?thesis
        proof (cases "fd_position (r_sector r) f (fdd v)")
          case (Some d)
          define w where "w = upd_fd (\<lambda>d. d\<lparr>fd_command := (if r_cmd r = READ then FD_READ else FD_WRITE)\<rparr>) (v\<lparr>fdd := d\<rparr>)"
          have w: "orderly w" using v by (simp add: w_def)
          define m where "m n = bindO (ticks_to_floppy_on n w) (\<lambda>ticks s.
               bindO (add_timer (\<lambda>_. floppy_on_interrupt req) ticks FLOPPY_ON_INTERRUPT s) (\<lambda>_ s. Ret (Inr () :: unit + unit) s))" for n
          have m: "ends armed (m n)" for n
          proof (cases "ticks_to_floppy_on n w")
            case (Ret ticks x)
            then have x: "orderly x" "ticks < 2 ^ 31" using ticks_orderly [OF w] by auto
            have "ends armed (add_timer (\<lambda>_. floppy_on_interrupt req) ticks FLOPPY_ON_INTERRUPT x)"
              by (rule add_timer_armed) (use x armsD [OF floppy_on_interrupt_arms [OF assms(1)] x(1)] in simp_all)
            then show ?thesis using Ret by (cases "add_timer (\<lambda>_. floppy_on_interrupt req) ticks FLOPPY_ON_INTERRUPT x") (simp_all add: m_def)
          qed (simp_all add: m_def)
          have x: "m n = Ret x t \<Longrightarrow> x = Inr ()" for n x t by (auto simp: m_def bindO_eq_Ret)
          have "?body f = (if r_cmd r \<noteq> READ \<and> r_cmd r \<noteq> WRITE then Panic ''do_fd_request: unknown command'' else m (unat (current_drive (fdd w))))"
            by (simp only: Let_def w_def m_def Some option.case False if_False)
          then show ?thesis using m x unfolding ends_def by (metis (no_types, lifting) outcome.distinct(1) sum.case(2))
        qed (use False in simp)
      qed
      show ?thesis using b unfolding e with_type_def by simp
    qed
  qed (simp_all add: fd_round_def)
  then show "fd_round req () s = Ret (Inl ()) t \<Longrightarrow> orderly t" "fd_round req () s = Ret (Inr ()) t \<Longrightarrow> armed t" by auto
qed

lemma loop_arms:
  assumes "arms req" "orderly s"
  shows "ends armed (loopO (fd_round req) () s)"
  unfolding ends_def
proof (intro allI impI)
  fix a t assume "loopO (fd_round req) () s = Ret a t"
  then show "armed t" 
  proof (rule loopO_rule [where I = "\<lambda>_. orderly" and Q = "\<lambda>_. armed"])
    show "orderly s" by (rule assms(2))
  next
    fix v s w t assume "orderly s" "fd_round req v s = Ret (Inl w) t"
    then show "orderly t" using fd_round_ends(1) [OF assms(1)] by simp
  next
    fix v s a t assume "orderly s" "fd_round req v s = Ret (Inr a) t"
    then show "armed t" using fd_round_ends(2) [OF assms(1)] by simp
  qed
qed

lemma fd_request_arms: "arms (fd_request n)"
proof (induction n)
  case 0
  then show ?case by (simp add: arms_def)
next
  case (Suc n)
  have "ends armed (fd_request (Suc n) s)" if "orderly s" for s
  proof -
    define t where "t = upd_fd (\<lambda>d. d\<lparr>fd_seek := False\<rparr>) s"
    have c: "orderly t" using that by (simp add: t_def)
    show ?thesis
      unfolding fd_request.simps Let_def t_def [symmetric]
      by (intro ends_if armsD [OF recalibrate_floppy_arms [OF Suc] c] loop_arms [OF Suc c]) (simp add: reset_floppy_armed c)
  qed
  then show ?case by (simp add: arms_def)
qed

lemma do_fd_request_arms: "arms do_fd_request"
  unfolding do_fd_request_def by (rule fd_request_arms)

lemma fd_timer_arms: "arms (fd_timer fn)"
  using floppy_on_interrupt_arms [OF do_fd_request_arms] transfer_arms [OF do_fd_request_arms]
  by (simp add: fd_timer_def arms_def)

lemma unexpected_armed:
  assumes "armed s" "do_floppy (fdd s) = no_floppy_handler"
  shows "armed (unexpected_floppy_interrupt s)"
proof -
  obtain g t where t: "sense_ok s = (g, t)" by force
  then have "quiet s t"
    by (auto simp: sense_ok_def split: prod.splits intro: quiet_trans [OF output_byte_quiet fd_result_quiet])
  then have "quiet s (unexpected_floppy_interrupt s)" using t by (simp add: unexpected_floppy_interrupt_def quiet_def)
  then show ?thesis using assms(1) quiet_armed by blast
qed

lemma floppy_interrupt_armed:
  assumes "armed s"
  shows "ends armed (floppy_interrupt s)"
proof -
  define t where "t = upd_fd (\<lambda>d. d\<lparr>do_floppy := no_floppy_handler\<rparr>) (outb 0x20 0x20 s)"
  have c: "orderly t" using assms by (simp add: t_def armed_def)
  note r = armsD [OF _ c]
  show ?thesis
  proof (cases "do_floppy (fdd s)")
    case no_floppy_handler
    then have "quiet s t" by (simp add: t_def quiet_def)
    then have "armed t" using assms quiet_armed by blast
    then have "armed (unexpected_floppy_interrupt t)" by (rule unexpected_armed) (simp add: t_def)
    then show ?thesis using no_floppy_handler by (simp add: floppy_interrupt_def t_def Let_def)
  qed (use r [OF rw_interrupt_arms] r [OF seek_interrupt_arms] r [OF recal_interrupt_arms] r [OF reset_interrupt_arms] do_fd_request_arms
    in \<open>simp_all add: floppy_interrupt_def t_def Let_def\<close>)
qed

lemma fd_add_request_armed:
  assumes "k_dev E 2 = do_fd_request" "armed s"
  shows "ends armed (add_request E 2 req s)"
proof -
  have c: "orderly s" using assms(2) by (rule armed_orderly)
  show ?thesis
  proof -
    define t where "t = (let s1 = upd_req req (\<lambda>r. r\<lparr>r_next := None\<rparr>) s
      in case r_bh (request_tab s1 req) of Some b \<Rightarrow> upd_bh b (\<lambda>h. h\<lparr>b_dirt := 0\<rparr>) s1 | None \<Rightarrow> s1)"
    have q: "quiet s t" by (auto simp: t_def quiet_def Let_def split: option.split)
    then have a: "armed t" "orderly t" using assms(2) quiet_armed armed_orderly by blast+
    have "quiet t (upd_req p f (upd_req r g t))" for p f r g by (simp add: quiet_def)
    then have "armed (upd_req p f (upd_req r g t))" for p f r g using a(1) quiet_armed by blast
    moreover have "ends armed (do_fd_request (t\<lparr>current_request := c\<rparr>))" for c
      by (rule armsD [OF do_fd_request_arms]) (use a(2) in simp)
    moreover have "add_request E 2 req s = (case current_request t 2 of
           None \<Rightarrow> do_fd_request (t\<lparr>current_request := (current_request t)(2 := Some req)\<rparr>)
         | Some tmp \<Rightarrow> (case elevator (NR_REQUEST + 1) tmp req t of
                None \<Rightarrow> Blocked
              | Some p \<Rightarrow> Ret () (upd_req p (\<lambda>r. r\<lparr>r_next := Some req\<rparr>) (upd_req req (\<lambda>r. r\<lparr>r_next := r_next (request_tab t p)\<rparr>) t))))"
      by (simp only: add_request_def t_def Let_def assms(1))
    ultimately show ?thesis by (simp split: option.split)
  qed
qed


section \<open>Timers\<close>

lemma tchain_head: "timers_ok s ps \<Longrightarrow> next_timer s = Some p \<Longrightarrow> \<exists>qs. ps = p # qs"
  by (cases ps) (auto simp: timers_ok_def)

text \<open>The timer at the head of the list is taken off, whatever it has become.\<close>

lemma take_timer:
  assumes "timers_ok s (p # ps)" "t_fn T = 0"
  shows "timers_ok ((set_timer p T s)\<lparr>next_timer := t_next (timer_list s p)\<rparr>) ps"
  using assms by (auto simp: timers_ok_def set_timer_def tchain_upd)

lemma orderly_head:
  assumes "orderly s" "next_timer s = Some p"
  obtains ps where "timers_ok s (p # ps)" "\<forall>k. mon_timer s k < 2 ^ 31"
  using assms tchain_head [OF _ assms(2)] by (auto simp: orderly_def)

lemma run_timers_due:
  assumes "orderly s" "next_timer s = Some p" "t_next T = t_next (timer_list s p)" "t_jiffies T \<le> 0"
    and IH: "\<And>s. armed s \<Longrightarrow> ends armed (run_timers fuel fd_timer s)"
  shows "ends armed (run_timers (Suc fuel) fd_timer (set_timer p T s))"
proof -
  obtain ps where ps: "timers_ok s (p # ps)" "\<forall>k. mon_timer s k < 2 ^ 31" by (rule orderly_head [OF assms(1,2)])
  define t where "t = (set_timer p (T\<lparr>t_fn := 0\<rparr>) s)\<lparr>next_timer := t_next (timer_list s p)\<rparr>"
  have "mon_timer t = mon_timer s" by (simp add: t_def set_timer_def)
  moreover have "timers_ok t ps" unfolding t_def by (rule take_timer [OF ps(1)]) simp
  ultimately have c: "orderly t" using ps(2) unfolding orderly_def by auto
  have n: "next_timer (set_timer p T s) = Some p" "timer_list (set_timer p T s) p = T" using assms(2) by (simp_all add: set_timer_def)
  have "(set_timer p (T\<lparr>t_fn := 0\<rparr>) (set_timer p T s))\<lparr>next_timer := t_next T\<rparr> = t"
    using assms(3) by (simp add: t_def set_timer_def)
  then have "run_timers (Suc fuel) fd_timer (set_timer p T s) = bindO (fd_timer (t_fn T) t) (\<lambda>_ s. run_timers fuel fd_timer s)"
    using n assms(4) by (simp add: Let_def)
  moreover have "ends armed (bindO (fd_timer (t_fn T) t) (\<lambda>_ s. run_timers fuel fd_timer s))"
    by (rule ends_bind [OF armsD [OF fd_timer_arms c]]) (rule IH)
  ultimately show ?thesis by simp
qed

lemma run_timers_armed: "armed s \<Longrightarrow> ends armed (run_timers fuel fd_timer s)"
proof (induction fuel arbitrary: s)
  case (Suc fuel)
  show ?case
  proof (cases "next_timer s")
    case (Some p)
    have "set_timer p (timer_list s p) s = s" by (simp add: set_timer_def)
    then show ?thesis
      using run_timers_due [OF armed_orderly [OF Suc.prems] Some, of "timer_list s p" fuel] Suc Some
      by (cases "t_jiffies (timer_list s p) \<le> 0") (simp_all add: Let_def)
  qed (use Suc.prems in simp)
qed simp

text \<open>A tick: the head of the list has one tick less.\<close>

lemma tick_armed:
  assumes "armed s" "next_timer s = Some p"
  shows "ends armed (run_timers fuel fd_timer (set_timer p ((timer_list s p)\<lparr>t_jiffies := s32 (t_jiffies (timer_list s p) - 1)\<rparr>) s))"
proof (cases fuel)
  case (Suc k)
  let ?T = "(timer_list s p)\<lparr>t_jiffies := s32 (t_jiffies (timer_list s p) - 1)\<rparr>"
  let ?t = "set_timer p ?T s"
  show ?thesis
  proof (cases "t_jiffies ?T \<le> 0")
    case True
    then show ?thesis
      unfolding Suc by (intro run_timers_due [OF armed_orderly [OF assms(1)] assms(2)] run_timers_armed) simp_all
  next
    case False
    obtain ps where ps: "timers_ok s (p # ps)" "\<forall>k. mon_timer s k < 2 ^ 31" by (rule orderly_head [OF armed_orderly [OF assms(1)] assms(2)])
    have "timers_ok ?t (p # ps)" using ps(1) False by (auto simp: timers_ok_def set_timer_def tchain_upd)
    moreover have "mon_timer ?t = mon_timer s" by (simp add: set_timer_def)
    ultimately have "orderly ?t" using ps(2) unfolding orderly_def by auto
    moreover have "awaits ?t"
    proof -
      have "t_fn (timer_list ?t q) = t_fn (timer_list s q)" for q by (simp add: set_timer_def)
      moreover have "current_request ?t = current_request s" "fdd ?t = fdd s" by (simp_all add: set_timer_def)
      ultimately show ?thesis using assms(1) unfolding armed_def awaits_def by simp
    qed
    ultimately show ?thesis using run_timers_armed unfolding armed_def by blast
  qed
qed simp

text \<open>The scheduler touches tasks only.\<close>

definition driver_part where
  "driver_part s = (timer_list s, next_timer s, mon_timer s, current_request s, fdd s)" for s :: fs

lemma driver_part_armed: "driver_part t = driver_part s \<Longrightarrow> armed t = armed s"
  by (rule quiet_armed) (simp add: driver_part_def quiet_def)

lemma driver_part_upd_task [simp]: "driver_part (upd_task p f s) = driver_part s"
  by (simp add: driver_part_def upd_task_def)

lemma driver_part_signals [simp]: "driver_part (sched_signals s) = driver_part s"
  unfolding sched_signals_def by (rule foldl_keeps) (simp add: sched_signal_def Let_def)

lemma driver_part_recalc [simp]: "driver_part (recalc s) = driver_part s"
  unfolding recalc_def by (rule foldl_keeps) (simp add: recalc_one_def Let_def)

lemma driver_part_loop: "sched_loop s = Some r \<Longrightarrow> driver_part (snd r) = driver_part s"
proof (rule sched_loop.raw_induct [of "\<lambda>s r. driver_part (snd r) = driver_part s"], goal_cases)
  case (1 f s r)
  show ?case
  proof (cases "fst (pick s) = 0")
    case True
    then have "f (recalc s) = Some r" using 1(3) by (simp add: case_prod_beta)
    from 1(2) [OF this] show ?thesis by simp
  qed (use 1(3) in \<open>auto simp: case_prod_beta\<close>)
qed

lemma schedule_armed:
  assumes "armed s" "\<And>n s. armed s \<Longrightarrow> armed (env n s)"
  shows "ends armed (schedule env s)"
  unfolding ends_def
proof (intro allI impI)
  fix a t assume "schedule env s = Ret a t"
  then obtain nx u n where u: "sched_loop (sched_signals s) = Some (nx, u)" "t = (env n (switch_to nx u))\<lparr>budget := n, current := current s\<rparr>"
    by (auto simp: schedule_def split: option.splits nat.splits)
  have "driver_part (switch_to nx u) = driver_part u" by (simp add: switch_to_def driver_part_def)
  then have "driver_part (switch_to nx u) = driver_part s" using driver_part_loop [OF u(1)] by simp
  then have "armed (env n (switch_to nx u))" using assms driver_part_armed by blast
  moreover have "driver_part t = driver_part (env n (switch_to nx u))" using u(2) by (simp add: driver_part_def)
  ultimately show "armed t" using driver_part_armed by blast
qed

lemma motor_orderly: "orderly s \<Longrightarrow> orderly (floppy_timer_one i s) \<and> timer_list (floppy_timer_one i s) = timer_list s \<and>
    current_request (floppy_timer_one i s) = current_request s \<and> fdd (floppy_timer_one i s) = fdd s" for s :: fs
proof -
  assume o: "orderly s"
  let ?t = "floppy_timer_one i s"
  have k: "timer_list ?t = timer_list s" "next_timer ?t = next_timer s" "current_request ?t = current_request s" "fdd ?t = fdd s"
    by (simp_all add: floppy_timer_one_def Let_def)
  have "mon_timer ?t k < 2 ^ 31" for k
    using o in_s32_s32 [of "mon_timer s i - 1"] by (auto simp: floppy_timer_one_def Let_def orderly_def in_s32_def)
  then show ?thesis using o k timers_ok_cong [OF k(1,2)] by (simp add: orderly_def)
qed

lemma do_floppy_timer_armed: "armed s \<Longrightarrow> armed (do_floppy_timer s)"
proof -
  assume a: "armed s"
  have "orderly (foldl (\<lambda>s i. floppy_timer_one i s) s xs) \<and> timer_list (foldl (\<lambda>s i. floppy_timer_one i s) s xs) = timer_list s \<and>
    current_request (foldl (\<lambda>s i. floppy_timer_one i s) s xs) = current_request s \<and> fdd (foldl (\<lambda>s i. floppy_timer_one i s) s xs) = fdd s"
    if "orderly s" for xs and s :: fs
    using that by (induction xs arbitrary: s) (simp_all add: motor_orderly)
  from this [OF armed_orderly [OF a], of "[0..<4]"] show ?thesis
    using a by (simp only: armed_def awaits_def do_floppy_timer_def simp_thms)
qed

lemma do_timer_armed:
  assumes "armed s" "\<And>n s. armed s \<Longrightarrow> armed (env n s)"
  shows "ends armed (do_timer fd_timer fuel env cpl s)"
proof -
  define s1 where "s1 = (if beepcount s \<noteq> 0
                then let s1 = s\<lparr>beepcount := s32 (beepcount s - 1)\<rparr>
                     in if beepcount s1 = 0 then sysbeepstop s1 else s1
                else s)"
  define s2 where "s2 = (if cpl \<noteq> 0 then upd_cur (\<lambda>t. t\<lparr>utime := s32 (utime t + 1)\<rparr>) s1
                else upd_cur (\<lambda>t. t\<lparr>stime := s32 (stime t + 1)\<rparr>) s1)"
  have "driver_part s1 = driver_part s" by (simp add: s1_def sysbeepstop_def driver_part_def outb_def Let_def)
  then have "driver_part s2 = driver_part s" by (simp add: s2_def)
  then have a2: "armed s2" using assms(1) driver_part_armed by blast
  let ?m = "case next_timer s2 of None \<Rightarrow> Ret () s2
     | Some p \<Rightarrow> run_timers fuel fd_timer (set_timer p ((timer_list s2 p)\<lparr>t_jiffies := s32 (t_jiffies (timer_list s2 p) - 1)\<rparr>) s2)"
  have m: "ends armed ?m" using tick_armed [OF a2] a2 by (simp split: option.split)
  define rest where "rest = (\<lambda>(_ :: unit) s3.
             let s4 = (if current_DOR s3 AND 0xf0 \<noteq> 0 then do_floppy_timer s3 else s3);
                 s5 = upd_cur (\<lambda>t. t\<lparr>counter := s32 (counter t - 1)\<rparr>) s4
             in if counter (cur s5) > 0 then Ret () s5
                else let s6 = upd_cur (\<lambda>t. t\<lparr>counter := 0\<rparr>) s5
                     in if cpl = 0 then Ret () s6 else schedule env s6)"
  have r: "ends armed (rest u s3)" if a3: "armed s3" for u s3
  proof -
    define s4 where "s4 = (if current_DOR s3 AND 0xf0 \<noteq> 0 then do_floppy_timer s3 else s3)"
    have "armed s4" using a3 do_floppy_timer_armed by (simp add: s4_def)
    moreover have "driver_part (upd_task p f s4) = driver_part s4" "driver_part (upd_task q g (upd_task p f s4)) = driver_part s4" for p q f g by simp_all
    ultimately have "armed (upd_task p f s4)" "armed (upd_task q g (upd_task p f s4))" for p q f g using driver_part_armed by blast+
    then show ?thesis unfolding rest_def Let_def s4_def [symmetric] by (simp add: schedule_armed assms(2))
  qed
  have "do_timer fd_timer fuel env cpl s = bindO ?m rest"
    by (simp only: do_timer_def Let_def s1_def s2_def rest_def)
  then show ?thesis by (simp only:) (rule ends_bind [OF m r])
qed


text \<open>C34: A floppy request never waits for nothing.  As long as there is a request, the driver either has a routine for the next
  interrupt or a timer of its own on the timer list, and the timer list is in order.  This is kept by a new request, by an interrupt, expected or not,
  whatever the controller answers, and by every tick of the clock, which runs the timers that are due, turns the motors and may switch
  to other tasks: the driver cannot forget its queue.\<close>

theorem fd_never_stalls:
  assumes "armed s" "k_dev E 2 = do_fd_request" "\<And>n s. armed s \<Longrightarrow> armed (k_env E n s)"
  shows "ends armed (add_request E 2 req s) \<and> ends armed (floppy_interrupt s) \<and> ends armed (do_timer fd_timer fuel (k_env E) cpl s)"
  using assms by (simp add: fd_add_request_armed floppy_interrupt_armed do_timer_armed)

text \<open>A request is in service, and its timer is on the list.\<close>

definition demo_armed :: fs where
  "demo_armed = (undefined :: fs)\<lparr>current_request := (\<lambda>_. Some 0), mon_timer := (\<lambda>_. 0), next_timer := Some 3,
     timer_list := (\<lambda>p. \<lparr>t_jiffies = 50, t_fn = (if p = 3 then FLOPPY_ON_INTERRUPT else 0), t_next = None\<rparr>),
     fdd := (undefined :: fd_driver)\<lparr>do_floppy := no_floppy_handler\<rparr>\<rparr>"

lemma demo_armed: "armed demo_armed" "current_request demo_armed 2 = Some 0"
proof -
  have "timers_ok demo_armed [3]" by (auto simp: timers_ok_def demo_armed_def)
  moreover have "mon_timer demo_armed = (\<lambda>_. 0)" by (simp add: demo_armed_def)
  ultimately have "orderly demo_armed" by (auto simp: orderly_def)
  moreover have "t_fn (timer_list demo_armed 3) = FLOPPY_ON_INTERRUPT" by (simp add: demo_armed_def)
  then have "awaits demo_armed" unfolding awaits_def by (intro disjI2 exI [of _ 3]) simp
  ultimately show "armed demo_armed" by (simp add: armed_def)
  show "current_request demo_armed 2 = Some 0" by (simp add: demo_armed_def)
qed

theorem fd_never_stalls_witness:
  "armed demo_armed \<and> current_request demo_armed 2 = Some 0 \<and> ends armed (floppy_interrupt demo_armed) \<and>
   ends armed (do_timer fd_timer 10 (\<lambda>_ s. s) 3 demo_armed)"
  using fd_never_stalls [OF demo_armed(1), of "\<lparr>k_env = \<lambda>_ s. s, k_dev = \<lambda>_. do_fd_request\<rparr>" 0 10 3] demo_armed by simp

end
