(* ===== verification/Floppy_Read.thy ===== *)
theory Floppy_Read
  imports Floppy_Props
begin

unbundle bit_operations_syntax

text \<open>
  A read from a floppy disk from the request to the interrupt: the position on the disk, the bytes sent to the DMA chip and
  to the controller, the result, and the buffer.
\<close>

section \<open>Where a request lies on the disk\<close>

text \<open>The types that can be read: all but the first have 2 heads, and their sectors, heads and tracks fit in a byte.\<close>

definition readable :: "floppy_struct \<Rightarrow> bool" where
  "readable f \<longleftrightarrow> f \<in> set (tl floppy_type)"

lemma readable_fields:
  assumes "readable f"
  shows "f_head f = 2" "unat (f_sect f) \<in> {9, 15, 18}" "unat (f_size f) = unat (f_sect f) * 2 * unat (f_track f)" "unat (f_track f) \<le> 80"
    "f_stretch f = 0 \<or> f_stretch f = 1 \<and> unat (f_track f) = 40" "f_sect f \<noteq> 0"
  using assms by (auto simp: readable_def floppy_type_def)

lemma unat_ucast8: "unat (x :: u32) < 256 \<Longrightarrow> unat (ucast x :: u8) = unat x"
  by (simp add: unsigned_ucast_eq take_bit_nat_eq_self)

lemma position_spec:
  assumes f: "readable f" and b: "unat block + 2 \<le> unat (f_size f)"
  obtains e where "fd_position block f d = Some e" "fd_sector e \<noteq> 0" "unat (fd_sector e) \<le> unat (f_sect f)" "unat (fd_head e) < 2"
    "unat (fd_track e) < unat (f_track f)" "(unat (fd_track e) * 2 + unat (fd_head e)) * unat (f_sect f) + (unat (fd_sector e) - 1) = unat block"
    "unat (seek_track e) = unat (fd_track e) * 2 ^ unat (f_stretch f)"
    "e = d\<lparr>fd_sector := fd_sector e, fd_head := fd_head e, fd_track := fd_track e, seek_track := seek_track e,
           fd_seek := (fd_seek d \<or> seek_track e \<noteq> current_track d)\<rparr>"
proof -
  note r = readable_fields [OF f]
  let ?n = "unat (f_sect f)"
  define k where "k = block div f_sect f"
  have k: "unat k = unat block div ?n" by (simp add: k_def unat_div)
  have n: "0 < ?n" "?n < 256" using r(2) by auto
  have m: "unat (block mod f_sect f) = unat block mod ?n" by (simp add: unat_mod)
  have lt: "unat block mod ?n < ?n" using n by simp
  have hd: "unat (k mod 2) = unat k mod 2" "unat (k div 2) = unat k div 2" by (simp_all add: unat_mod unat_div)
  have "unat block < ?n * (2 * unat (f_track f))" using b r(3) by (simp add: mult.assoc)
  then have "unat k < 2 * unat (f_track f)" using n unfolding k by (simp add: less_mult_imp_div_less mult.commute)
  then have tr: "unat k div 2 < unat (f_track f)" by linarith
  define sec where "sec = (ucast (block mod f_sect f) :: u8)"
  define tk where "tk = (ucast (k div 2) :: u8)"
  have s: "unat sec = unat block mod ?n" using m order.strict_trans [OF lt n(2)] by (simp add: sec_def unat_ucast8)
  then have s1: "unat (sec + 1) = unat block mod ?n + 1" using lt r(2) by (intro trans [OF unat_u8_inc]) auto
  have h: "unat (ucast (k mod 2) :: u8) = unat k mod 2" using hd by (simp add: unat_ucast8)
  have t: "unat tk = unat k div 2" using hd tr r(4) by (simp add: tk_def unat_ucast8)
  define st where "st = (ucast (push_bit (unat (f_stretch f)) (ucast tk :: u32)) :: u8)"
  have st: "unat st = unat tk * 2 ^ unat (f_stretch f)"
  proof -
    have lk: "unat tk < 80" using t tr r(4) by linarith
    then have u: "unat (ucast tk :: u32) = unat tk" by (simp add: unsigned_ucast_eq take_bit_nat_eq_self)
    have "unat (push_bit 1 (ucast tk :: u32)) = unat tk * 2" using lk u by (simp add: push_bit_eq_mult unat_word_ariths)
    then have "unat (push_bit (unat (f_stretch f)) (ucast tk :: u32)) = unat tk * 2 ^ unat (f_stretch f)"
      using r(5) u by auto
    moreover have "unat tk * 2 ^ unat (f_stretch f) < 256" using r(4,5) t tr by auto
    ultimately show ?thesis by (simp add: st_def unat_ucast8)
  qed
  define e where "e = d\<lparr>fd_sector := sec + 1, fd_head := ucast (k mod 2), fd_track := tk, seek_track := st, fd_seek := (fd_seek d \<or> st \<noteq> current_track d)\<rparr>"
  have p: "fd_position block f d = Some e"
    using r(1,6) by (simp add: fd_position_def Let_def e_def sec_def tk_def st_def k_def)
  have blk: "(unat tk * 2 + unat k mod 2) * ?n + unat block mod ?n = unat block"
    using t k by (simp add: div_mult_mod_eq)
  show thesis
    by (rule that [OF p]) (use s1 lt h t tr blk st in \<open>auto simp: e_def unat_eq_0 [symmetric]\<close>)
qed


section \<open>Commands\<close>

text \<open>The controller takes the next \<open>n\<close> bytes.\<close>

definition accepts :: "nat \<Rightarrow> fs \<Rightarrow> bool" where
  "accepts n s \<longleftrightarrow> \<not> fd_reset (fdd s) \<and>
     (\<forall>k<n. (ucast (port_in (hdd s) FD_STATUS (port_pos (hdd s) FD_STATUS + k)) :: u8) AND 0xC0 = 0x80)"

definition sent :: "u8 list \<Rightarrow> fs \<Rightarrow> fs" where
  "sent vs s = s\<lparr>ports := ports s @ map (Pair FD_DATA) vs,
     hdd := (hdd s)\<lparr>port_pos := (port_pos (hdd s))(FD_STATUS := port_pos (hdd s) FD_STATUS + length vs)\<rparr>\<rparr>"

lemma sent_sent [simp]: "sent ws (sent vs s) = sent (vs @ ws) s"
  by (simp add: sent_def add.assoc)

lemma sent_fdd [simp]: "fdd (sent vs s) = fdd s"
  by (simp add: sent_def)

lemma accepts_sent [simp]: "accepts (n + length vs) s \<Longrightarrow> accepts n (sent vs s)"
  by (simp add: accepts_def sent_def add.assoc)

lemma output_byte_sent: "accepts (Suc n) s \<Longrightarrow> output_byte v s = sent [v] s"
proof -
  assume a: "accepts (Suc n) s"
  define m where "m = (9999 :: nat)"
  have e: "(10000 :: nat) = Suc m" by (simp add: m_def)
  have "output_byte v s = send_poll (Suc m) v s" using a unfolding output_byte_def e by (simp add: accepts_def del: send_poll.simps)
  moreover have "ucast (port_in (hdd s) FD_STATUS (port_pos (hdd s) FD_STATUS)) AND 0xC0 = (0x80 :: u8)"
    using a by (auto simp: accepts_def dest: spec [of _ 0])
  ultimately show ?thesis by (simp add: inb_def inw_def upd_hd_def sent_def outb_def)
qed

definition dma_read :: "u32 \<Rightarrow> (u16 \<times> u8) list" where
  "dma_read addr = [(10, 6), (12, DMA_READ), (11, DMA_READ), (4, ucast addr), (4, ucast (drop_bit 8 addr)), (0x81, ucast (drop_bit 16 addr)),
     (5, 0xff), (5, 3), (10, 2)]"

definition rw_command :: "floppy_struct \<Rightarrow> fd_driver \<Rightarrow> u8 list" where
  "rw_command f d = [fd_command d, head_drive d, fd_track d, fd_head d, fd_sector d, 2, ucast (f_sect f), f_gap f, 0xFF]"

text \<open>The address given to the DMA chip.\<close>

definition dma_addr :: "u32 \<Rightarrow> u32" where
  "dma_addr addr = (if 0x100000 \<le> sint addr then 0x5000 else addr)"

lemma setup_rw_reads:
  assumes "current_request s 2 = Some c" "r_buffer (request_tab s c) = (b, 0)" "fd_command (fdd s) = FD_READ"
    and k: "floppy (fdd s) < length floppy_type" and a: "accepts 9 s"
  shows "setup_rw_floppy req s = Ret () (sent (rw_command (floppy_type ! floppy (fdd s)) (fdd s))
    (upd_fd (\<lambda>d. d\<lparr>do_floppy := rw_interrupt_handler\<rparr>) (s\<lparr>ports := ports s @ dma_read (dma_addr (b_addr (buffers s b)))\<rparr>)))"
proof -
  define t where "t = upd_fd (\<lambda>d. d\<lparr>do_floppy := rw_interrupt_handler\<rparr>) (s\<lparr>ports := ports s @ dma_read (dma_addr (b_addr (buffers s b)))\<rparr>)"
  have d: "setup_DMA s = Ret () (s\<lparr>ports := ports s @ dma_read (dma_addr (b_addr (buffers s b)))\<rparr>)"
    using assms(1-3) by (simp add: setup_DMA_def dma_read_def dma_addr_def Let_def outb_def)
  have at: "accepts 9 t" and ft: "fdd t = (fdd s)\<lparr>do_floppy := rw_interrupt_handler\<rparr>" using a by (simp_all add: t_def accepts_def upd_fd_def)
  have o: "output_byte v (sent vs t) = sent (vs @ [v]) t" if "length vs < 9" for v vs
  proof -
    have "9 - length vs = Suc (8 - length vs)" using that by linarith
    moreover have "accepts (9 - length vs) (sent vs t)" using at that by simp
    ultimately show ?thesis using output_byte_sent [of "8 - length vs" "sent vs t" v] by (simp only: sent_sent)
  qed
  have o0: "output_byte v t = sent [v] t" for v using output_byte_sent [of 8 t v] at by simp
  have r: "\<not> fd_reset (fdd t)" using a ft by (simp add: accepts_def)
  show ?thesis
    unfolding setup_rw_floppy_def d bindO.simps t_def [symmetric] Let_def
    using k r by (simp add: with_type_def o o0 ft rw_command_def head_drive_def)
qed

section \<open>Results\<close>

text \<open>The controller has the seven bytes of a result, and they report success.\<close>

definition reply_status :: "fs \<Rightarrow> nat \<Rightarrow> u8" where
  "reply_status s k = ucast (port_in (hdd s) FD_STATUS (port_pos (hdd s) FD_STATUS + k)) AND 0xD0"

definition reply :: "fs \<Rightarrow> nat \<Rightarrow> u8" where
  "reply s k = ucast (port_in (hdd s) FD_DATA (port_pos (hdd s) FD_DATA + k))"

definition succeeds :: "fs \<Rightarrow> bool" where
  "succeeds s \<longleftrightarrow> (\<forall>k<7. reply_status s k = 0xD0) \<and> reply_status s 7 = 0x80 \<and>
     reply s 0 AND 0xf8 = 0 \<and> reply s 1 AND 0xbf = 0 \<and> reply s 2 AND 0x73 = 0"

lemma reply_poll_gets:
  assumes "\<And>k. k < m \<Longrightarrow> reply_status s k = 0xD0" "reply_status s m = 0x80" "i + m \<le> 7"
  shows "\<exists>h. reply_poll (Suc (m + n)) i s = (int (i + m), s\<lparr>hdd := h,
     fdd := (fdd s)\<lparr>reply_buffer := (\<lambda>j. if i \<le> j \<and> j < i + m then reply s (j - i) else reply_buffer (fdd s) j)\<rparr>\<rparr>)"
  using assms
proof (induction m arbitrary: i s)
  case 0
  have "(\<lambda>j. if i \<le> j \<and> j < i then reply s (j - i) else reply_buffer (fdd s) j) = reply_buffer (fdd s)" by (rule ext) auto
  moreover have "reply_poll (Suc (0 + n)) i s = (int i, upd_hd (\<lambda>d. d\<lparr>port_pos := (port_pos d)(FD_STATUS := port_pos d FD_STATUS + 1)\<rparr>) s)"
    using 0(2) by (simp add: inb_def inw_def reply_status_def upd_hd_def)
  ultimately show ?case by (simp add: upd_hd_def) (rule exI, rule refl)
next
  case (Suc m)
  define h where "h = (hdd s)\<lparr>port_pos := (port_pos (hdd s))(FD_STATUS := port_pos (hdd s) FD_STATUS + 1, FD_DATA := port_pos (hdd s) FD_DATA + 1)\<rparr>"
  define t where "t = s\<lparr>hdd := h, fdd := (fdd s)\<lparr>reply_buffer := (reply_buffer (fdd s))(i := reply s 0)\<rparr>\<rparr>"
  have st: "reply_status t k = reply_status s (Suc k)" "reply t k = reply s (Suc k)" for k
    by (simp_all add: t_def h_def reply_status_def reply_def)
  have "reply_poll (Suc (Suc m + n)) i s = reply_poll (Suc (m + n)) (Suc i) t"
    using Suc.prems(1) [of 0] Suc.prems(3)
    by (simp add: inb_def inw_def reply_status_def reply_def upd_hd_def upd_fd_def t_def h_def Let_def)
  moreover obtain h' where "reply_poll (Suc (m + n)) (Suc i) t = (int (Suc i + m), t\<lparr>hdd := h',
     fdd := (fdd t)\<lparr>reply_buffer := (\<lambda>j. if Suc i \<le> j \<and> j < Suc i + m then reply t (j - Suc i) else reply_buffer (fdd t) j)\<rparr>\<rparr>)"
    using Suc.IH [of t "Suc i"] Suc.prems st by auto
  moreover have "(\<lambda>j. if Suc i \<le> j \<and> j < Suc i + m then reply t (j - Suc i) else reply_buffer (fdd t) j) =
    (\<lambda>j. if i \<le> j \<and> j < i + Suc m then reply s (j - i) else reply_buffer (fdd s) j)"
    using st(2) by (auto simp: t_def fun_eq_iff Suc_diff_le) (metis Suc_diff_Suc Suc_le_lessD)+
  ultimately show ?case by (auto simp: t_def)
qed


section \<open>Reading a block\<close>

text \<open>A request to read, with nothing behind it.\<close>

definition asks_read :: "nat \<Rightarrow> nat \<Rightarrow> fs \<Rightarrow> bool" where
  "asks_read c b s \<longleftrightarrow>
     (let r = request_tab s c in
      current_request s 2 = Some c \<and> MAJOR (of_int (r_dev r)) = 2 \<and> r_cmd r = READ \<and> r_buffer r = (b, 0) \<and> r_bh r = Some b \<and>
      r_next r = None \<and> b_lock (buffers s b) \<noteq> 0 \<and> b_addr (buffers s b) < 0x80000000)"

text \<open>
  The drive of the device \<open>dev\<close> is selected and turns, its disk has the type \<open>f\<close>, the controller knows the type, and the head stands on
  the track of the block.
\<close>

definition on_track :: "u32 \<Rightarrow> u32 \<Rightarrow> floppy_struct \<Rightarrow> fs \<Rightarrow> bool" where
  "on_track dev block f s \<longleftrightarrow>
     (let d = fdd s; nr = unat (dev AND 3); k = unat (drop_bit 2 (MINOR dev)) in
      0 < k \<and> k < length floppy_type \<and> floppy_type ! k = f \<and> unat block + 2 \<le> unat (f_size f) \<and>
      \<not> fd_recalibrate d \<and> current_drive d = ucast (dev AND 3) \<and> current_DOR s AND 3 = current_drive d \<and>
      push_bit nr 0x10 OR current_DOR s = current_DOR s \<and> mon_timer s nr \<le> 0 \<and>
      cur_spec1 d = uint (f_spec1 f) \<and> cur_rate d = uint (f_rate f) \<and>
      unat (current_track d) = unat block div (2 * unat (f_sect f)) * 2 ^ unat (f_stretch f))"

text \<open>What the hardware does with the bytes of the disk: they go to the buffer, or to the memory in its place.\<close>

definition dma_done :: "nat \<Rightarrow> (nat \<Rightarrow> u8) \<Rightarrow> fs \<Rightarrow> fs" where
  "dma_done b d s =
     (if 0x100000 \<le> b_addr (buffers s b) then upd_fd (\<lambda>x. x\<lparr>tmp_floppy_area := (\<lambda>i. if i < BLOCK_SIZE then d i else tmp_floppy_area x i)\<rparr>) s
      else upd_bh b (\<lambda>h. h\<lparr>b_data := (\<lambda>i. if i < BLOCK_SIZE then d i else b_data h i)\<rparr>) s)"

lemma ticks_running:
  assumes "nr \<le> 3" "push_bit nr 0x10 OR current_DOR s = current_DOR s" "current_DOR s AND 3 = of_nat nr"
  shows "ticks_to_floppy_on nr s = Ret (mon_timer s nr) (s\<lparr>moff_timer := (moff_timer s)(nr := 10000)\<rparr>)"
proof -
  have "(x AND 0xFC) OR (x AND 3) = x" for x :: u8
  proof -
    have "(x AND 0xFC) OR (x AND 3) = x AND (0xFC OR 3)" by (simp only: bit.conj_disj_distrib)
    also have "(0xFC OR 3 :: u8) = - 1" by simp
    finally show ?thesis by simp
  qed
  from this [of "current_DOR s"] have "(current_DOR s AND 0xFC) OR of_nat nr = current_DOR s" using assms(3) by simp
  then show ?thesis using assms(1,2) by (simp add: ticks_to_floppy_on_def Let_def)
qed

lemma transfer_on_track:
  assumes k: "floppy (fdd s) < length floppy_type" "floppy_type ! floppy (fdd s) = f" and "cur_spec1 (fdd s) = uint (f_spec1 f)"
    "cur_rate (fdd s) = uint (f_rate f)" "\<not> fd_reset (fdd s)" "\<not> fd_seek (fdd s)"
  shows "transfer req s = setup_rw_floppy req s"
  using assms by (simp add: transfer_def with_type_def)

lemma fd_start_reads:
  assumes q: "asks_read c b s" and o: "on_track (of_int (r_dev (request_tab s c))) (r_sector (request_tab s c)) f s"
    and a: "accepts 9 s" and ns: "\<not> fd_seek (fdd s)"
  obtains e t where "fd_start req c s = Ret (Inr ()) t"
    "unat (fd_track e) < unat (f_track f)" "unat (fd_head e) < 2" "1 \<le> unat (fd_sector e)" "unat (fd_sector e) \<le> unat (f_sect f)"
    "(unat (fd_track e) * 2 + unat (fd_head e)) * unat (f_sect f) + (unat (fd_sector e) - 1) = unat (r_sector (request_tab s c))"
    "fd_command e = FD_READ" "current_drive e = current_drive (fdd s)" "\<not> fd_reset e" "\<not> fd_recalibrate e"
    "t = sent (rw_command f e) (s\<lparr>moff_timer := moff_timer t, selected := 1,
       ports := ports s @ dma_read (dma_addr (b_addr (buffers s b))), fdd := e\<lparr>do_floppy := rw_interrupt_handler\<rparr>\<rparr>)"
proof -
  let ?r = "request_tab s c"
  let ?dev = "of_int (r_dev ?r) :: u32"
  let ?nr = "unat (?dev AND 3)"
  define k where "k = unat (drop_bit 2 (MINOR ?dev))"
  note o = o [unfolded on_track_def Let_def k_def [symmetric]]
  have kl: "0 < k" "k < length floppy_type" "floppy_type ! k = f" using o by simp_all
  then have "tl floppy_type ! (k - 1) = f" "k - 1 < length (tl floppy_type)" by (simp_all add: nth_tl)
  then have f: "readable f" unfolding readable_def by (metis nth_mem)
  define d where "d = (fdd s)\<lparr>floppy := k\<rparr>"
  have sel: "fd_select ?dev (fdd s) = d"
  proof -
    have "ucast (ucast (x AND 3) :: u8) = x AND 3" for x :: u32
    proof (rule bit_word_eqI)
      fix n assume "n < LENGTH(32)"
      have "bit (3 :: u32) n \<longleftrightarrow> n < 2" using bit_mask_iff [of 2 n, where 'a = u32] by (auto simp: mask_eq_exp_minus_1)
      then show "bit (ucast (ucast (x AND 3) :: u8) :: u32) n = bit (x AND 3) n" by (auto simp: bit_simps)
    qed
    then show ?thesis using o by (simp add: fd_select_def d_def k_def Let_def)
  qed
  have le: "unat (r_sector ?r) + 2 \<le> unat (f_size f)" using o by simp
  obtain e where e: "fd_position (r_sector ?r) f d = Some e" "fd_sector e \<noteq> 0" "unat (fd_sector e) \<le> unat (f_sect f)" "unat (fd_head e) < 2"
    "unat (fd_track e) < unat (f_track f)" "(unat (fd_track e) * 2 + unat (fd_head e)) * unat (f_sect f) + (unat (fd_sector e) - 1) = unat (r_sector ?r)"
    "unat (seek_track e) = unat (fd_track e) * 2 ^ unat (f_stretch f)"
    "e = d\<lparr>fd_sector := fd_sector e, fd_head := fd_head e, fd_track := fd_track e, seek_track := seek_track e,
           fd_seek := (fd_seek d \<or> seek_track e \<noteq> current_track d)\<rparr>"
    using position_spec [OF f le, of d] by blast
  have sect: "0 < unat (f_sect f)" using readable_fields [OF f] by auto
  have tr: "unat (fd_track e) = unat (r_sector ?r) div (2 * unat (f_sect f))"
  proof -
    have "unat (fd_sector e) - 1 < unat (f_sect f)" using e(3) sect by linarith
    then have "unat (r_sector ?r) div unat (f_sect f) = unat (fd_track e) * 2 + unat (fd_head e)" using sect e(6) by (metis div_mult_self3 div_less add.right_neutral not_less_zero)
    then have "unat (r_sector ?r) div unat (f_sect f) div 2 = unat (fd_track e)" using e(4) by simp
    then show ?thesis by (metis div_mult2_eq mult.commute)
  qed
  have "seek_track e = current_track (fdd s)"
    using o e(7) tr by (simp add: word_unat_eq_iff)
  then have ee: "e = d\<lparr>fd_sector := fd_sector e, fd_head := fd_head e, fd_track := fd_track e, seek_track := seek_track e, fd_seek := False\<rparr>"
    using e(8) ns by (simp add: d_def)
  define e1 where "e1 = e\<lparr>fd_command := FD_READ\<rparr>"
  define s1 where "s1 = s\<lparr>fdd := e1\<rparr>"
  define s2 where "s2 = s1\<lparr>moff_timer := (moff_timer s1)(?nr := 10000)\<rparr>"
  define s3 where "s3 = s2\<lparr>selected := 1\<rparr>"
  have f1: "floppy e1 = k" "current_drive e1 = current_drive (fdd s)" "cur_spec1 e1 = uint (f_spec1 f)" "cur_rate e1 = uint (f_rate f)"
    "\<not> fd_seek e1" "\<not> fd_reset e1" "\<not> fd_recalibrate e1" "fd_command e1 = FD_READ"
    using a o unfolding e1_def by (subst ee; simp add: d_def accepts_def)+
  have mon: "mon_timer s ?nr \<le> 0" and run: "push_bit ?nr 0x10 OR current_DOR s = current_DOR s"
    and drv: "current_DOR s AND 3 = current_drive (fdd s)" "current_drive (fdd s) = ucast (?dev AND 3)" using o by blast+
  have nr: "?nr \<le> 3" using word_and_le1 [of ?dev 3] by (simp add: word_le_nat_alt)
  have cd: "unat (current_drive (fdd s)) = ?nr" "current_DOR s AND 3 = of_nat ?nr"
  proof -
    have "?nr < 256" using nr by linarith
    then have "unat (ucast (?dev AND 3) :: u8) = ?nr" by (rule unat_ucast8)
    then show c: "unat (current_drive (fdd s)) = ?nr" using drv(2) by simp
    have "of_nat (unat (current_drive (fdd s))) = current_drive (fdd s)" by simp
    then have "of_nat ?nr = current_drive (fdd s)" by (simp only: c)
    then show "current_DOR s AND 3 = of_nat ?nr" using drv(1) by simp
  qed
  have tk: "ticks_to_floppy_on ?nr s1 = Ret (mon_timer s ?nr) s2"
  proof -
    have "current_DOR s1 = current_DOR s" "mon_timer s1 = mon_timer s" by (simp_all add: s1_def)
    then show ?thesis using ticks_running [OF nr, of s1] run cd(2) unfolding s2_def by (simp only:)
  qed
  have tm: "add_timer (\<lambda>_. floppy_on_interrupt req) (mon_timer s ?nr) FLOPPY_ON_INTERRUPT s2 = floppy_on_interrupt req s2"
    using mon by (simp add: add_timer_def)
  have s3: "fdd s3 = e1" "request_tab s3 = request_tab s" "buffers s3 = buffers s" "current_request s3 = current_request s" "ports s3 = ports s" "hdd s3 = hdd s"
    "current_DOR s2 = current_DOR s" "fdd s2 = e1" "moff_timer s3 = (moff_timer s)(?nr := 10000)"
    by (simp_all add: s3_def s2_def s1_def)
  have "floppy_on_interrupt req s2 = transfer req s3"
    using drv(1) f1(2) s3(7,8) by (simp add: floppy_on_interrupt_def s3_def)
  also have "\<dots> = setup_rw_floppy req s3"
    by (rule transfer_on_track [where f = f]) (use f1 kl s3(1) in simp_all)
  also have "\<dots> = Ret () (sent (rw_command f e1) (upd_fd (\<lambda>d. d\<lparr>do_floppy := rw_interrupt_handler\<rparr>)
      (s3\<lparr>ports := ports s3 @ dma_read (dma_addr (b_addr (buffers s3 b)))\<rparr>)))"
    using setup_rw_reads [of s3 c b req] q a f1 kl by (simp add: asks_read_def Let_def s3 accepts_def)
  finally have fin: "floppy_on_interrupt req s2 = Ret () (sent (rw_command f e1) (upd_fd (\<lambda>d. d\<lparr>do_floppy := rw_interrupt_handler\<rparr>)
      (s3\<lparr>ports := ports s3 @ dma_read (dma_addr (b_addr (buffers s3 b)))\<rparr>)))" .
  define t where "t = sent (rw_command f e1) (s\<lparr>moff_timer := (moff_timer s)(?nr := 10000), selected := 1,
       ports := ports s @ dma_read (dma_addr (b_addr (buffers s b))), fdd := e1\<lparr>do_floppy := rw_interrupt_handler\<rparr>\<rparr>)"
  have t: "floppy_on_interrupt req s2 = Ret () t"
    unfolding fin t_def by (simp add: s3_def s2_def s1_def upd_fd_def)
  have rs: "\<not> r_sector ?r + 2 > f_size f"
  proof -
    have "unat (r_sector ?r + 2) = unat (r_sector ?r) + 2"
      by (subst unat_add_lem [THEN iffD1]) (use le unsigned_less [of "f_size f", where ?'a = nat] in simp_all)
    then show ?thesis using le by (simp add: not_less word_le_nat_alt)
  qed
  have r0: "r_cmd ?r = READ" using q by (simp add: asks_read_def Let_def)
  have wt: "with_type (upd_fd (fd_select ?dev) s) g = g f" for g :: "floppy_struct \<Rightarrow> (fs, unit + unit) outcome"
    using sel kl by (simp add: with_type_def upd_fd_def d_def)
  have st: "fd_start req c s = Ret (Inr ()) t"
  proof -
    have sl: "upd_fd (fd_select ?dev) s = s\<lparr>fdd := d\<rparr>" using sel by (simp add: upd_fd_def)
    have "upd_fd (\<lambda>d. d\<lparr>fd_command := FD_READ\<rparr>) (s\<lparr>fdd := d, fdd := e\<rparr>) = s1" by (simp add: upd_fd_def s1_def e1_def)
    moreover have "unat (current_drive (fdd s1)) = ?nr" using f1(2) cd(1) by (simp add: s1_def)
    ultimately show ?thesis
      unfolding fd_start_def Let_def wt using rs e(1) r0 tk tm t by (simp add: sl)
  qed
  show thesis
    by (rule that [OF st, of e1]) (use e(2-6) f1 in \<open>simp_all add: e1_def t_def sent_def unat_gt_0 Suc_le_eq\<close>)
qed


lemma do_fd_request_idle:
  assumes "current_request s 2 = None" "\<not> fd_reset (fdd s)" "\<not> fd_recalibrate (fdd s)"
  shows "do_fd_request s = Ret () (upd_fd (\<lambda>d. d\<lparr>fd_seek := False\<rparr>) s)"
  using assms by (simp add: do_fd_request_unfold Let_def loopO_done fd_round_def INIT_REQUEST_def)

lemma fd_result_gets:
  assumes "succeeds s" "\<not> fd_reset (fdd s)"
  obtains h where "fd_result s = (7, s\<lparr>hdd := h, fdd := (fdd s)\<lparr>reply_buffer := (\<lambda>j. if j < 7 then reply s j else reply_buffer (fdd s) j)\<rparr>\<rparr>)"
proof -
  define n where "n = (9992 :: nat)"
  have e: "(10000 :: nat) = Suc (7 + n)" by (simp add: n_def)
  obtain h where "reply_poll (Suc (7 + n)) 0 s = (int (0 + 7), s\<lparr>hdd := h,
     fdd := (fdd s)\<lparr>reply_buffer := (\<lambda>j. if 0 \<le> j \<and> j < 0 + 7 then reply s (j - 0) else reply_buffer (fdd s) j)\<rparr>\<rparr>)"
    using reply_poll_gets [of 7 s 0 n] assms(1) by (auto simp: succeeds_def simp del: reply_poll.simps)
  moreover have "(\<lambda>j. if 0 \<le> j \<and> j < 0 + 7 then reply s (j - 0) else reply_buffer (fdd s) j) = (\<lambda>j. if j < 7 then reply s j else reply_buffer (fdd s) j)"
    by (rule ext) simp
  ultimately have "fd_result s = (7, s\<lparr>hdd := h, fdd := (fdd s)\<lparr>reply_buffer := (\<lambda>j. if j < 7 then reply s j else reply_buffer (fdd s) j)\<rparr>\<rparr>)"
    using assms(2) unfolding fd_result_def e by (simp only: if_False of_nat_numeral add_0)
  then show thesis by (rule that)
qed

lemma end_fd_last:
  assumes "current_request s 2 = Some c" "r_bh (request_tab s c) = Some b" "r_next (request_tab s c) = None"
  obtains v where "end_fd u s = Ret () v" "current_request v 2 = None" "fdd v = fdd s" "r_dev (request_tab v c) = - 1"
    "buffers v = (buffers s)(b := (buffers s b)\<lparr>b_uptodate := u, b_lock := 0\<rparr>)"
proof -
  let ?nr = "unat (of_int (r_dev (request_tab s c)) AND 3 :: u32)"
  have "?nr \<le> 3" using word_and_le1 [of "of_int (r_dev (request_tab s c)) :: u32" 3] by (simp add: word_le_nat_alt)
  then have f: "floppy_off ?nr s = Ret () (s\<lparr>moff_timer := (moff_timer s)(?nr := 3 * HZ)\<rparr>)" by (simp add: floppy_off_def)
  define v where "v = (let s1 = wake_up wait_for_request (wake_up (\<lambda>x. r_waiting (request_tab x c)) (unlock_buffer b
      (upd_bh b (\<lambda>h. h\<lparr>b_uptodate := u\<rparr>) (s\<lparr>moff_timer := (moff_timer s)(?nr := 3 * HZ)\<rparr>))));
      s4 = upd_req c (\<lambda>r. r\<lparr>r_dev := - 1\<rparr>) s1
    in s4\<lparr>current_request := (current_request s4)(2 := r_next (request_tab s4 c))\<rparr>)"
  have "end_fd u s = Ret () v" using assms(1,2) f by (simp add: end_fd_def end_request_def v_def Let_def unlock_buffer_def)
  moreover have "current_request v 2 = None" "fdd v = fdd s" "r_dev (request_tab v c) = - 1"
    "buffers v = (buffers s)(b := (buffers s b)\<lparr>b_uptodate := u, b_lock := 0\<rparr>)"
    using assms(3) by (simp_all add: v_def Let_def unlock_buffer_def)
  ultimately show thesis by (rule that)
qed

lemma interrupt_reads:
  assumes q: "asks_read c b u" and ok: "succeeds u" and h: "do_floppy (fdd u) = rw_interrupt_handler" "fd_command (fdd u) = FD_READ"
    "\<not> fd_reset (fdd u)" "\<not> fd_recalibrate (fdd u)"
  shows "\<exists>v. floppy_interrupt u = Ret () v \<and>
    (\<forall>i<BLOCK_SIZE. b_data (buffers v b) i = (if 0x100000 \<le> b_addr (buffers u b) then tmp_floppy_area (fdd u) i else b_data (buffers u b) i)) \<and>
    b_uptodate (buffers v b) = 1 \<and> b_lock (buffers v b) = 0 \<and> r_dev (request_tab v c) = - 1 \<and> current_request v 2 = None"
proof -
  define s where "s = upd_fd (\<lambda>d. d\<lparr>do_floppy := no_floppy_handler\<rparr>) (outb 0x20 0x20 u)"
  have s: "fdd s = (fdd u)\<lparr>do_floppy := no_floppy_handler\<rparr>" "hdd s = hdd u" "buffers s = buffers u" "request_tab s = request_tab u" "current_request s = current_request u"
    by (simp_all add: s_def)
  have rs: "reply s = reply u" "reply_status s = reply_status u" by (simp_all add: fun_eq_iff reply_def reply_status_def s)
  have "succeeds s" using ok by (simp add: succeeds_def rs)
  then obtain hd' where res: "fd_result s = (7, s\<lparr>hdd := hd', fdd := (fdd s)\<lparr>reply_buffer := (\<lambda>j. if j < 7 then reply s j else reply_buffer (fdd s) j)\<rparr>\<rparr>)"
    using fd_result_gets [of s] h(3) s(1) by auto
  define t where "t = s\<lparr>hdd := hd', fdd := (fdd s)\<lparr>reply_buffer := (\<lambda>j. if j < 7 then reply s j else reply_buffer (fdd s) j)\<rparr>\<rparr>"
  have r: "current_request u 2 = Some c" "r_buffer (request_tab u c) = (b, 0)" "r_bh (request_tab u c) = Some b" "r_next (request_tab u c) = None"
    using q by (simp_all add: asks_read_def Let_def)
  have st: "reply_buffer (fdd t) 0 AND 0xf8 = 0" "reply_buffer (fdd t) 1 AND 0xbf = 0" "reply_buffer (fdd t) 2 AND 0x73 = 0"
    using ok by (simp_all add: t_def succeeds_def rs)
  define w where "w = floppy_deselect (ucast (current_drive (fdd t))) (if 0x100000 \<le> b_addr (buffers u b)
      then upd_bh b (\<lambda>h. h\<lparr>b_data := (\<lambda>i. if i < BLOCK_SIZE then tmp_floppy_area (fdd t) i else b_data h i)\<rparr>) t else t)"
  have "rw_interrupt do_fd_request s = bindO (end_fd 1 w) (\<lambda>_ s. do_fd_request s)"
    using st r h(2) unfolding rw_interrupt_def res t_def [symmetric]
    by (simp add: Let_def w_def) (simp add: t_def s)
  moreover have w: "current_request w 2 = Some c" "r_bh (request_tab w c) = Some b" "r_next (request_tab w c) = None" "fdd w = fdd t"
    "buffers w b = (buffers u b)\<lparr>b_data := b_data (buffers w b)\<rparr>"
    "i < BLOCK_SIZE \<Longrightarrow> b_data (buffers w b) i = (if 0x100000 \<le> b_addr (buffers u b) then tmp_floppy_area (fdd u) i else b_data (buffers u b) i)" for i
    using r by (simp_all add: w_def floppy_deselect_def t_def s)
  moreover obtain v where v: "end_fd 1 w = Ret () v" "current_request v 2 = None" "fdd v = fdd w" "r_dev (request_tab v c) = - 1"
    "buffers v = (buffers w)(b := (buffers w b)\<lparr>b_uptodate := 1, b_lock := 0\<rparr>)"
    by (rule end_fd_last [OF w(1-3)])
  moreover have "do_fd_request v = Ret () (upd_fd (\<lambda>d. d\<lparr>fd_seek := False\<rparr>) v)"
    by (rule do_fd_request_idle) (use v w(4) h(3,4) in \<open>simp_all add: t_def s\<close>)
  ultimately have "floppy_interrupt u = Ret () (upd_fd (\<lambda>d. d\<lparr>fd_seek := False\<rparr>) v)"
    using h(1) by (simp add: floppy_interrupt_def s_def Let_def)
  then show ?thesis using v w(6) by (intro exI [of _ "upd_fd (\<lambda>d. d\<lparr>fd_seek := False\<rparr>) v"]) simp
qed


lemma dma_done_simps [simp]:
  "current_request (dma_done b d s) = current_request s" "request_tab (dma_done b d s) = request_tab s" "hdd (dma_done b d s) = hdd s"
  "do_floppy (fdd (dma_done b d s)) = do_floppy (fdd s)" "fd_command (fdd (dma_done b d s)) = fd_command (fdd s)"
  "fd_reset (fdd (dma_done b d s)) = fd_reset (fdd s)" "fd_recalibrate (fdd (dma_done b d s)) = fd_recalibrate (fdd s)"
  "b_addr (buffers (dma_done b d s) x) = b_addr (buffers s x)" "b_lock (buffers (dma_done b d s) x) = b_lock (buffers s x)"
  by (simp_all add: dma_done_def)

lemma asks_read_cong:
  assumes "current_request t 2 = current_request s 2" "request_tab t = request_tab s" "b_lock (buffers t b) = b_lock (buffers s b)" "b_addr (buffers t b) = b_addr (buffers s b)"
  shows "asks_read c b t = asks_read c b s"
  using assms by (simp add: asks_read_def)

text \<open>C35: Reading a block from a floppy disk.  The motor turns, the head stands on the track and nothing went wrong before: then
  \<open>do_fd_request\<close> returns after it has programmed the DMA chip with the address of the buffer, or of the memory below 1 MB that stands in for
  it, and has sent the nine bytes of a read command whose drive is the one of the device and whose track, head and sector are on the disk and stand for exactly the sector
  of the request.  If the hardware then delivers any 1024 bytes and a result without errors, the interrupt leaves these bytes in
  the buffer, marks it valid and unlocks it, and frees the request.\<close>

theorem fd_read_block:
  assumes "asks_read c b s" "on_track (of_int (r_dev (request_tab s c))) (r_sector (request_tab s c)) f s" "accepts 9 s"
  shows "\<exists>t e. do_fd_request s = Ret () t \<and>
    ports t = ports s @ dma_read (dma_addr (b_addr (buffers s b))) @ map (Pair FD_DATA) (rw_command f e) \<and>
    hdd t = (hdd s)\<lparr>port_pos := (port_pos (hdd s))(FD_STATUS := port_pos (hdd s) FD_STATUS + 9)\<rparr> \<and>
    fd_command e = FD_READ \<and> current_drive e = ucast (of_int (r_dev (request_tab s c)) AND 3 :: u32) \<and>
    unat (fd_track e) < unat (f_track f) \<and> unat (fd_head e) < 2 \<and> 1 \<le> unat (fd_sector e) \<and> unat (fd_sector e) \<le> unat (f_sect f) \<and>
    (unat (fd_track e) * 2 + unat (fd_head e)) * unat (f_sect f) + (unat (fd_sector e) - 1) = unat (r_sector (request_tab s c)) \<and>
    (succeeds t \<longrightarrow> (\<forall>d. \<exists>v. floppy_interrupt (dma_done b d t) = Ret () v \<and> (\<forall>i<BLOCK_SIZE. b_data (buffers v b) i = d i) \<and>
       b_uptodate (buffers v b) = 1 \<and> b_lock (buffers v b) = 0 \<and> r_dev (request_tab v c) = - 1 \<and> current_request v 2 = None))"
proof -
  define s0 where "s0 = upd_fd (\<lambda>d. d\<lparr>fd_seek := False\<rparr>) s"
  have q0: "asks_read c b s0" using assms(1) by (simp add: asks_read_def s0_def)
  have o0: "on_track (of_int (r_dev (request_tab s0 c))) (r_sector (request_tab s0 c)) f s0"
    using assms(2) by (simp add: on_track_def s0_def Let_def)
  have a0: "accepts 9 s0" using assms(3) by (simp add: accepts_def s0_def)
  obtain e t where t: "fd_start do_fd_request c s0 = Ret (Inr ()) t"
    "unat (fd_track e) < unat (f_track f)" "unat (fd_head e) < 2" "1 \<le> unat (fd_sector e)" "unat (fd_sector e) \<le> unat (f_sect f)"
    "(unat (fd_track e) * 2 + unat (fd_head e)) * unat (f_sect f) + (unat (fd_sector e) - 1) = unat (r_sector (request_tab s0 c))"
    "fd_command e = FD_READ" "current_drive e = current_drive (fdd s0)" "\<not> fd_reset e" "\<not> fd_recalibrate e"
    and te: "t = sent (rw_command f e) (s0\<lparr>moff_timer := moff_timer t, selected := 1,
       ports := ports s0 @ dma_read (dma_addr (b_addr (buffers s0 b))), fdd := e\<lparr>do_floppy := rw_interrupt_handler\<rparr>\<rparr>)"
    by (rule fd_start_reads [OF q0 o0 a0, of do_fd_request]) (simp add: s0_def)
  have ini: "INIT_REQUEST 2 s0 = Ret (Some c) s0" using q0 by (simp add: asks_read_def INIT_REQUEST_def Let_def)
  have nr: "\<not> fd_reset (fdd s)" "\<not> fd_recalibrate (fdd s)" using assms(2,3) by (simp_all add: accepts_def on_track_def Let_def)
  have "fd_round do_fd_request () s0 = Ret (Inr ()) t" using ini t(1) by (simp add: fd_round_def)
  then have "do_fd_request s = Ret () t"
    using nr by (simp add: do_fd_request_unfold s0_def [symmetric] Let_def loopO_done) (simp add: s0_def)
  moreover have f: "fdd t = e\<lparr>do_floppy := rw_interrupt_handler\<rparr>" "current_request t = current_request s" "request_tab t = request_tab s"
    "buffers t = buffers s"
    by (subst te; simp add: sent_def s0_def)+
  moreover have "ports t = ports s @ dma_read (dma_addr (b_addr (buffers s b))) @ map (Pair FD_DATA) (rw_command f e)"
    by (subst te; simp add: sent_def s0_def)
  moreover have
    "hdd t = (hdd s)\<lparr>port_pos := (port_pos (hdd s))(FD_STATUS := port_pos (hdd s) FD_STATUS + 9)\<rparr>"
  proof -
    have "length (rw_command f e) = 9" by (simp add: rw_command_def)
    then show ?thesis by (subst te) (simp add: sent_def s0_def)
  qed
  moreover have "current_drive e = ucast (of_int (r_dev (request_tab s c)) AND 3 :: u32)"
    using t(8) assms(2) by (simp add: s0_def on_track_def Let_def)
  moreover have "\<exists>v. floppy_interrupt (dma_done b d t) = Ret () v \<and> (\<forall>i<BLOCK_SIZE. b_data (buffers v b) i = d i) \<and>
       b_uptodate (buffers v b) = 1 \<and> b_lock (buffers v b) = 0 \<and> r_dev (request_tab v c) = - 1 \<and> current_request v 2 = None" if ok: "succeeds t" for d
  proof -
    have "asks_read c b (dma_done b d t)" using assms(1) f by (subst asks_read_cong [of _ s]) simp_all
    moreover have "succeeds (dma_done b d t)" using ok by (simp add: succeeds_def reply_status_def reply_def)
    ultimately obtain v where v: "floppy_interrupt (dma_done b d t) = Ret () v" "b_uptodate (buffers v b) = 1" "b_lock (buffers v b) = 0" "r_dev (request_tab v c) = - 1"
      "current_request v 2 = None"
      "\<forall>i<BLOCK_SIZE. b_data (buffers v b) i = (if 0x100000 \<le> b_addr (buffers t b) then tmp_floppy_area (fdd (dma_done b d t)) i else b_data (buffers (dma_done b d t) b) i)"
      using interrupt_reads [of c b "dma_done b d t"] f(1) t(7,9,10) by auto
    then show ?thesis by (intro exI [of _ v]) (simp add: dma_done_def)
  qed
  ultimately show ?thesis using t(2-7) by (intro exI [of _ t] exI [of _ e]) (simp add: s0_def)
qed

text \<open>A block of a 1.44 MB disk in drive 0, for a buffer above 1 MB.\<close>

definition demo_fd :: fs where
  "demo_fd = (undefined :: fs)\<lparr>mon_timer := (\<lambda>_. 0), moff_timer := (\<lambda>_. 0), current_DOR := 0x1c, selected := 1, ports := [],
     current_request := (\<lambda>_. Some 0), request_tab := (\<lambda>_. \<lparr>r_dev = 0x21c, r_cmd = READ, r_errors = 0,
       r_sector = 40, r_nr_sectors = 2, r_buffer = (7, 0), r_waiting = 0, r_bh = Some 7, r_next = None\<rparr>),
     buffers := (\<lambda>b. \<lparr>b_addr = 0x200000, b_data = (\<lambda>_. 0), b_blocknr = 20, b_dev = 0x21c, b_uptodate = 0,
       b_dirt = 0, b_count = 1, b_lock = 1, b_wait = 0, b_prev = None, b_next = None, b_prev_free = None, b_next_free = None\<rparr>),
     hdd := (undefined :: hd_driver)\<lparr>port_in := (\<lambda>p k. if p = FD_DATA then 0 else if k < 9 \<or> k = 16 then 0x80 else 0xd0), port_pos := (\<lambda>_. 0)\<rparr>,
     fdd := (undefined :: fd_driver)\<lparr>fd_recalibrate := False, fd_reset := False, current_drive := 0, cur_spec1 := 0xcf, cur_rate := 0, current_track := 1\<rparr>\<rparr>"

theorem fd_read_block_witness:
  "asks_read 0 7 demo_fd \<and> accepts 9 demo_fd \<and> on_track 0x21c 40 (floppy_type ! 7) demo_fd \<and>
   (\<exists>t v. do_fd_request demo_fd = Ret () t \<and> length (ports t) = 18 \<and> succeeds t \<and>
      floppy_interrupt (dma_done 7 (\<lambda>i. of_nat i) t) = Ret () v \<and> b_data (buffers v 7) 200 = 200 \<and> b_uptodate (buffers v 7) = 1)"
proof -
  have q: "asks_read 0 7 demo_fd" by (simp add: asks_read_def demo_fd_def MAJOR_def)
  have a: "accepts 9 demo_fd" by (simp add: accepts_def demo_fd_def)
  have o: "on_track 0x21c 40 (floppy_type ! 7) demo_fd" by (simp add: on_track_def demo_fd_def MINOR_def floppy_type_def)
  have r: "of_int (r_dev (request_tab demo_fd 0)) = (0x21c :: u32)" "r_sector (request_tab demo_fd 0) = 40" "ports demo_fd = []"
    by (simp_all add: demo_fd_def)
  obtain t e where t: "do_fd_request demo_fd = Ret () t"
    "ports t = ports demo_fd @ dma_read (dma_addr (b_addr (buffers demo_fd 7))) @ map (Pair FD_DATA) (rw_command (floppy_type ! 7) e)"
    "hdd t = (hdd demo_fd)\<lparr>port_pos := (port_pos (hdd demo_fd))(FD_STATUS := port_pos (hdd demo_fd) FD_STATUS + 9)\<rparr>"
    and v: "succeeds t \<longrightarrow> (\<forall>d. \<exists>v. floppy_interrupt (dma_done 7 d t) = Ret () v \<and> (\<forall>i<BLOCK_SIZE. b_data (buffers v 7) i = d i) \<and>
       b_uptodate (buffers v 7) = 1 \<and> b_lock (buffers v 7) = 0 \<and> r_dev (request_tab v 0) = - 1 \<and> current_request v 2 = None)"
    using fd_read_block [OF q, of "floppy_type ! 7"] a o unfolding r by blast
  have ok: "succeeds t" using t(3) by (simp add: succeeds_def reply_status_def reply_def demo_fd_def)
  obtain v where "floppy_interrupt (dma_done 7 (\<lambda>i. of_nat i) t) = Ret () v" "\<forall>i<BLOCK_SIZE. b_data (buffers v 7) i = of_nat i" "b_uptodate (buffers v 7) = 1"
    using v ok by blast
  moreover from this(2) have "b_data (buffers v 7) 200 = of_nat 200" by simp
  moreover have "length (ports t) = 18" using t(2) by (simp add: r dma_read_def rw_command_def)
  ultimately show ?thesis using q a o t(1) ok by (intro conjI exI [of _ t] exI [of _ v]) simp_all
qed

end
