(* ===== verification/Str_Asm.thy ===== *)
theory Str_Asm
  imports Loops
begin

unbundle bit_operations_syntax

text \<open>
  The string functions of \<open>src/include/string.h\<close>, which are written with the string instructions of the processor.  The state is the
  memory, a byte for every address; addresses and counts are words and wrap around.  A loop that never finds what ends it, for instance a copy that
  overwrites the end of its own source, is \<open>Blocked\<close>.  \<open>strtok\<close> takes the variable \<open>___strtok\<close> as an argument and
  returns its new value with its result.
\<close>

type_synonym bytes = "u32 \<Rightarrow> u8"

section \<open>String instructions\<close>

text \<open>\<open>repne scasb\<close>: the count, the address and the zero flag it leaves; with a count of 0 the flag is the old one.\<close>

function repne_scasb :: "bytes \<Rightarrow> u8 \<Rightarrow> u32 \<Rightarrow> u32 \<Rightarrow> bool \<Rightarrow> u32 \<times> u32 \<times> bool" where
  "repne_scasb m al ecx edi zf =
     (if ecx = 0 then (ecx, edi, zf)
      else if m edi = al then (ecx - 1, edi + 1, True)
      else repne_scasb m al (ecx - 1) (edi + 1) False)"
  by auto
termination
  by (relation "measure (\<lambda>(_, _, ecx, _). unat ecx)") (auto simp: unat_minus_one unat_gt_0)

declare repne_scasb.simps [simp del]

text \<open>\<open>repe cmpsb\<close>: the addresses and the zero flag it leaves.\<close>

function repe_cmpsb :: "bytes \<Rightarrow> u32 \<Rightarrow> u32 \<Rightarrow> u32 \<Rightarrow> bool \<Rightarrow> u32 \<times> u32 \<times> bool" where
  "repe_cmpsb m ecx esi edi zf =
     (if ecx = 0 then (esi, edi, zf)
      else if m esi \<noteq> m edi then (esi + 1, edi + 1, False)
      else repe_cmpsb m (ecx - 1) (esi + 1) (edi + 1) True)"
  by auto
termination
  by (relation "measure (\<lambda>(_, ecx, _). unat ecx)") (auto simp: unat_minus_one unat_gt_0)

declare repe_cmpsb.simps [simp del]

text \<open>\<open>rep movsb\<close>, upwards for \<open>step\<close> 1 and downwards for \<open>step\<close> \<open>-1\<close>.\<close>

function rep_movsb :: "u32 \<Rightarrow> u32 \<Rightarrow> u32 \<Rightarrow> u32 \<Rightarrow> bytes \<Rightarrow> bytes" where
  "rep_movsb step ecx esi edi m =
     (if ecx = 0 then m else rep_movsb step (ecx - 1) (esi + step) (edi + step) (m(edi := m esi)))"
  by auto
termination
  by (relation "measure (\<lambda>(_, ecx, _). unat ecx)") (auto simp: unat_minus_one unat_gt_0)

declare rep_movsb.simps [simp del]

function rep_stosb :: "u8 \<Rightarrow> u32 \<Rightarrow> u32 \<Rightarrow> bytes \<Rightarrow> bytes" where
  "rep_stosb al ecx edi m = (if ecx = 0 then m else rep_stosb al (ecx - 1) (edi + 1) (m(edi := al)))"
  by auto
termination
  by (relation "measure (\<lambda>(_, ecx, _). unat ecx)") (auto simp: unat_minus_one unat_gt_0)

declare rep_stosb.simps [simp del]

section \<open>Copying\<close>

text \<open>\<open>lodsb; stosb; testb; jne\<close>; the value is the address behind the copy.\<close>

definition copy_until_nul :: "u32 \<Rightarrow> u32 \<Rightarrow> bytes \<Rightarrow> (bytes, u32) outcome" where
  "copy_until_nul si di m =
     loopO (\<lambda>(si, di) m. let al = m si in if al \<noteq> 0 then Ret (Inl (si + 1, di + 1)) (m(di := al)) else Ret (Inr (di + 1)) (m(di := al))) (si, di) m"

definition strcpy :: "u32 \<Rightarrow> u32 \<Rightarrow> bytes \<Rightarrow> (bytes, u32) outcome" where
  "strcpy dest src m = bindO (copy_until_nul src dest m) (\<lambda>_ m. Ret dest m)"

text \<open>
  The same with \<open>decl count; js\<close> in front: the result is the count and the address behind the copy, and whether the end of
  the source was met.
\<close>

definition copy_counted :: "u32 \<Rightarrow> u32 \<Rightarrow> u32 \<Rightarrow> bytes \<Rightarrow> (bytes, u32 \<times> u32 \<times> bool) outcome" where
  "copy_counted si di cx m =
     loopO (\<lambda>(si, di, cx) m.
       let cx = cx - 1 in
       if sint cx < 0 then Ret (Inr (cx, di, False)) m
       else let al = m si in
            if al \<noteq> 0 then Ret (Inl (si + 1, di + 1, cx)) (m(di := al)) else Ret (Inr (cx, di + 1, True)) (m(di := al))) (si, di, cx) m"

definition strncpy :: "u32 \<Rightarrow> u32 \<Rightarrow> u32 \<Rightarrow> bytes \<Rightarrow> (bytes, u32) outcome" where
  "strncpy dest src cnt m =
     bindO (copy_counted src dest cnt m) (\<lambda>(cx, di, nul) m. Ret dest (if nul then rep_stosb 0 cx di m else m))"

text \<open>\<open>repne scasb\<close> for the end of a string, and its length.\<close>

definition find_nul :: "u32 \<Rightarrow> bytes \<Rightarrow> u32" where
  "find_nul s m = (case repne_scasb m 0 0xffffffff s False of (cx, di, zf) \<Rightarrow> di - 1)"

definition strlen :: "u32 \<Rightarrow> bytes \<Rightarrow> u32" where
  "strlen s m = (case repne_scasb m 0 0xffffffff s False of (cx, di, zf) \<Rightarrow> NOT cx - 1)"

definition strcat :: "u32 \<Rightarrow> u32 \<Rightarrow> bytes \<Rightarrow> (bytes, u32) outcome" where
  "strcat dest src m = bindO (copy_until_nul src (find_nul dest m) m) (\<lambda>_ m. Ret dest m)"

text \<open>Behind the loop \<open>strncat\<close> stores a null byte also when the loop has stored one.\<close>

definition strncat :: "u32 \<Rightarrow> u32 \<Rightarrow> u32 \<Rightarrow> bytes \<Rightarrow> (bytes, u32) outcome" where
  "strncat dest src cnt m =
     bindO (copy_counted src (find_nul dest m) cnt m) (\<lambda>(cx, di, nul) m. Ret dest (m(di := 0)))"

section \<open>Comparing\<close>

text \<open>\<open>movl $1,%eax; jl; negl %eax\<close>: the flags are those of the byte of \<open>ct\<close> less the byte of \<open>cs\<close>.\<close>

definition sign_of :: "u8 \<Rightarrow> u8 \<Rightarrow> int" where
  "sign_of t s = (if sint t < sint s then 1 else - 1)"

definition strcmp :: "u32 \<Rightarrow> u32 \<Rightarrow> bytes \<Rightarrow> (bytes, int) outcome" where
  "strcmp cs ct m =
     loopO (\<lambda>(di, si) m.
       let al = m si in
       if al \<noteq> m di then Ret (Inr (sign_of al (m di))) m
       else if al \<noteq> 0 then Ret (Inl (di + 1, si + 1)) m
       else Ret (Inr 0) m) (cs, ct) m"

definition strncmp :: "u32 \<Rightarrow> u32 \<Rightarrow> u32 \<Rightarrow> bytes \<Rightarrow> (bytes, int) outcome" where
  "strncmp cs ct cnt m =
     loopO (\<lambda>(di, si, cx) m.
       let cx = cx - 1; al = m si in
       if sint cx < 0 then Ret (Inr 0) m
       else if al \<noteq> m di then Ret (Inr (sign_of al (m di))) m
       else if al \<noteq> 0 then Ret (Inl (di + 1, si + 1, cx)) m
       else Ret (Inr 0) m) (cs, ct, cnt) m"

section \<open>Searching\<close>

definition strchr :: "u32 \<Rightarrow> u8 \<Rightarrow> bytes \<Rightarrow> (bytes, u32) outcome" where
  "strchr s c m =
     bindO (loopO (\<lambda>si m.
       let al = m si; si = si + 1 in
       if al = c then Ret (Inr si) m else if al \<noteq> 0 then Ret (Inl si) m else Ret (Inr 1) m) s m)
     (\<lambda>si m. Ret (si - 1) m)"

definition strrchr :: "u32 \<Rightarrow> u8 \<Rightarrow> bytes \<Rightarrow> (bytes, u32) outcome" where
  "strrchr s c m =
     loopO (\<lambda>(si, res) m.
       let al = m si; si = si + 1;
           res = (if al = c then si - 1 else res)
       in if al \<noteq> 0 then Ret (Inl (si, res)) m else Ret (Inr res) m) (s, 0) m"

text \<open>
  \<open>lodsb\<close> until the end of the string or until a byte whose presence among the \<open>len\<close> bytes at \<open>ct\<close> is not
  \<open>inside\<close>; the result is the address behind that byte, and whether it was not the end.
\<close>

definition among :: "bytes \<Rightarrow> u32 \<Rightarrow> u32 \<Rightarrow> u8 \<Rightarrow> bool" where
  "among m ct len al = (case repne_scasb m al len ct False of (_, _, zf) \<Rightarrow> zf)"

definition span_loop :: "bool \<Rightarrow> u32 \<Rightarrow> u32 \<Rightarrow> u32 \<Rightarrow> bytes \<Rightarrow> (bytes, u32 \<times> bool) outcome" where
  "span_loop inside ct len si m =
     loopO (\<lambda>si m.
       let al = m si; si = si + 1 in
       if al = 0 then Ret (Inr (si, False)) m
       else if among m ct len al = inside then Ret (Inl si) m
       else Ret (Inr (si, True)) m) si m"

definition strspn :: "u32 \<Rightarrow> u32 \<Rightarrow> bytes \<Rightarrow> (bytes, u32) outcome" where
  "strspn cs ct m = bindO (span_loop True ct (strlen ct m) cs m) (\<lambda>(si, _) m. Ret (si - 1 - cs) m)"

definition strcspn :: "u32 \<Rightarrow> u32 \<Rightarrow> bytes \<Rightarrow> (bytes, u32) outcome" where
  "strcspn cs ct m = bindO (span_loop False ct (strlen ct m) cs m) (\<lambda>(si, _) m. Ret (si - 1 - cs) m)"

definition strpbrk :: "u32 \<Rightarrow> u32 \<Rightarrow> bytes \<Rightarrow> (bytes, u32) outcome" where
  "strpbrk cs ct m = bindO (span_loop False ct (strlen ct m) cs m) (\<lambda>(si, found) m. Ret (if found then si - 1 else 0) m)"

text \<open>The zero flag of \<open>decl %ecx\<close> decides the first comparison when the string to find is empty.\<close>

definition strstr :: "u32 \<Rightarrow> u32 \<Rightarrow> bytes \<Rightarrow> (bytes, u32) outcome" where
  "strstr cs ct m =
     (let len = strlen ct m in
      loopO (\<lambda>(si, zf) m.
        case repe_cmpsb m len si ct zf of
          (ax, _, zf) \<Rightarrow>
            if zf then Ret (Inr si) m
            else if m (ax - 1) \<noteq> 0 then Ret (Inl (si + 1, False)) m
            else Ret (Inr 0) m) (cs, len = 0) m)"

section \<open>Splitting\<close>

text \<open>
  The registers \<open>ebx\<close> and \<open>esi\<close> at the end are the result and the new \<open>___strtok\<close>; they are set to 0
  together (labels 7 and 8).
\<close>

definition strtok_end :: "u32 \<Rightarrow> u32 \<Rightarrow> bytes \<Rightarrow> (bytes, u32 \<times> u32) outcome" where
  "strtok_end bx si m =
     (let bx = (if m bx \<noteq> 0 then bx else 0) in Ret (bx, if bx = 0 then 0 else si) m)"

definition strtok :: "u32 \<Rightarrow> u32 \<Rightarrow> u32 \<Rightarrow> bytes \<Rightarrow> (bytes, u32 \<times> u32) outcome" where
  "strtok s ct strtok_ptr m =
     (if s = 0 \<and> strtok_ptr = 0 then Ret (strtok_ptr, s) m
      else let si = (if s = 0 then strtok_ptr else s); len = strlen ct m in
           if len = 0 then Ret (0, 0) m
           else bindO (span_loop True ct len si m) (\<lambda>(si, found) m.
                if \<not> found \<or> m (si - 1) = 0 then Ret (0, 0) m
                else let bx = si - 1 in
                     bindO (span_loop False ct len bx m) (\<lambda>(si, found) m.
                     if \<not> found \<or> m (si - 1) = 0 then strtok_end bx 0 m
                     else strtok_end bx si (m(si - 1 := 0)))))"

section \<open>Memory\<close>

definition memcpy :: "u32 \<Rightarrow> u32 \<Rightarrow> u32 \<Rightarrow> bytes \<Rightarrow> u32 \<times> bytes" where
  "memcpy dest src n m = (dest, rep_movsb 1 n src dest m)"

text \<open>Nothing clears the direction flag after the copy downwards.\<close>

definition memmove :: "u32 \<Rightarrow> u32 \<Rightarrow> u32 \<Rightarrow> bytes \<Rightarrow> u32 \<times> bytes" where
  "memmove dest src n m =
     (dest, if dest < src then rep_movsb 1 n src dest m else rep_movsb (- 1) n (src + n - 1) (dest + n - 1) m)"

text \<open>With a count of 0 the jump depends on flags nobody has set.\<close>

definition memcmp :: "u32 \<Rightarrow> u32 \<Rightarrow> u32 \<Rightarrow> bytes \<Rightarrow> (bytes, int) outcome" where
  "memcmp cs ct cnt m =
     (if cnt = 0 then Undefined ''je''
      else case repe_cmpsb m cnt ct cs True of
             (si, di, zf) \<Rightarrow> Ret (if zf then 0 else sign_of (m (si - 1)) (m (di - 1))) m)"

definition memchr :: "u32 \<Rightarrow> u8 \<Rightarrow> u32 \<Rightarrow> bytes \<Rightarrow> u32" where
  "memchr cs c cnt m =
     (if cnt = 0 then 0
      else case repne_scasb m c cnt cs False of (_, di, zf) \<Rightarrow> (if zf then di else 1) - 1)"

definition memset :: "u32 \<Rightarrow> u8 \<Rightarrow> u32 \<Rightarrow> bytes \<Rightarrow> u32 \<times> bytes" where
  "memset s c cnt m = (s, rep_stosb c cnt s m)"

end
