(* ===== verification/Str_Props.thy ===== *)
theory Str_Props
  imports Str_Asm
begin

unbundle bit_operations_syntax

text \<open>
  The string functions on strings: \<open>cstr m a xs\<close> says that the bytes of \<open>xs\<close>, none of them 0, and a final 0 stand at the address
  \<open>a\<close>.
\<close>

section \<open>Strings in memory\<close>

definition bytes_at :: "bytes \<Rightarrow> u32 \<Rightarrow> u8 list \<Rightarrow> bool" where
  "bytes_at m a xs \<longleftrightarrow> (\<forall>i<length xs. m (a + of_nat i) = xs ! i)"

definition cstr :: "bytes \<Rightarrow> u32 \<Rightarrow> u8 list \<Rightarrow> bool" where
  "cstr m a xs \<longleftrightarrow> bytes_at m a (xs @ [0]) \<and> 0 \<notin> set xs \<and> length xs < 2 ^ 32 - 1"

lemma bytes_at_Nil [simp]: "bytes_at m a []"
  by (simp add: bytes_at_def)

lemma bytes_at_Cons [simp]: "bytes_at m a (x # xs) \<longleftrightarrow> m a = x \<and> bytes_at m (a + 1) xs"
  by (auto simp: bytes_at_def less_Suc_eq_0_disj add.assoc)

lemma bytes_at_append: "bytes_at m a (xs @ ys) \<longleftrightarrow> bytes_at m a xs \<and> bytes_at m (a + of_nat (length xs)) ys"
  by (induction xs arbitrary: a) (auto simp: add.assoc add.commute [of 1])

lemma cstr_Nil: "cstr m a [] \<longleftrightarrow> m a = 0"
  by (simp add: cstr_def)

lemma cstr_Cons: "cstr m a (x # xs) \<Longrightarrow> m a = x \<and> x \<noteq> 0 \<and> cstr m (a + 1) xs"
  by (auto simp: cstr_def)

lemma cstr_suffix: "cstr m a (xs @ ys) \<Longrightarrow> cstr m (a + of_nat (length xs)) ys"
  by (auto simp: cstr_def bytes_at_append)

lemma repne_scasb_hit:
  assumes "bytes_at m a xs" "c \<notin> set xs" "m (a + of_nat (length xs)) = c" "length xs < unat n"
  shows "repne_scasb m c n a zf = (n - of_nat (length xs) - 1, a + of_nat (length xs) + 1, True)"
  using assms
proof (induction xs arbitrary: a n zf)
  case Nil
  then show ?case by (subst repne_scasb.simps) (auto simp: unat_gt_0)
next
  case (Cons x xs)
  have n: "n \<noteq> 0" using Cons.prems(4) by auto
  note n = n unat_minus_one [OF n]
  have "repne_scasb m c n a zf = repne_scasb m c (n - 1) (a + 1) False"
    using Cons.prems n by (subst repne_scasb.simps) auto
  also have "\<dots> = (n - 1 - of_nat (length xs) - 1, a + 1 + of_nat (length xs) + 1, True)"
    using Cons.prems n by (intro Cons.IH) (auto simp: add.assoc)
  finally show ?case by (simp add: algebra_simps)
qed

lemma repne_scasb_miss:
  assumes "bytes_at m a xs" "c \<notin> set xs" "length xs = unat n"
  shows "\<exists>b. repne_scasb m c n a zf = (0, b, if xs = [] then zf else False)"
  using assms
proof (induction xs arbitrary: a n zf)
  case Nil
  then have "n = 0" by (simp add: unat_eq_0)
  then show ?case by (subst repne_scasb.simps) simp
next
  case (Cons x xs)
  then have n: "n \<noteq> 0" by auto
  note n = n unat_minus_one [OF n]
  have "repne_scasb m c n a zf = repne_scasb m c (n - 1) (a + 1) False"
    using Cons.prems n by (subst repne_scasb.simps) auto
  then show ?case using Cons.IH [of "a + 1" "n - 1" False] Cons.prems n by auto
qed

lemma strlen_cstr: "cstr m a xs \<Longrightarrow> strlen a m = of_nat (length xs)"
proof -
  assume c: "cstr m a xs"
  then have "repne_scasb m 0 0xffffffff a False = (0xffffffff - of_nat (length xs) - 1, a + of_nat (length xs) + 1, True)"
    by (intro repne_scasb_hit) (auto simp: cstr_def bytes_at_append)
  moreover have "NOT (0xffffffff - w - 1) - 1 = (w :: u32)" for w by (simp add: not_eq_complement)
  ultimately show ?thesis by (simp add: strlen_def)
qed

lemma find_nul_cstr: "cstr m a xs \<Longrightarrow> find_nul a m = a + of_nat (length xs)"
proof -
  assume c: "cstr m a xs"
  then have "repne_scasb m 0 0xffffffff a False = (0xffffffff - of_nat (length xs) - 1, a + of_nat (length xs) + 1, True)"
    by (intro repne_scasb_hit) (auto simp: cstr_def bytes_at_append)
  then show ?thesis by (simp add: find_nul_def)
qed

lemma among_cstr:
  assumes "cstr m ct ds"
  shows "among m ct (of_nat (length ds)) c \<longleftrightarrow> c \<in> set ds"
proof (cases "c \<in> set ds")
  case True
  then obtain ys zs where ds: "ds = ys @ c # zs" "c \<notin> set ys" by (metis split_list_first)
  have "length ds < 2 ^ 32" using assms by (simp add: cstr_def)
  then have "unat (of_nat (length ds) :: u32) = length ds" by (simp add: unat_of_nat take_bit_nat_eq_self)
  then have "repne_scasb m c (of_nat (length ds)) ct False = (of_nat (length ds) - of_nat (length ys) - 1, ct + of_nat (length ys) + 1, True)"
    using assms ds by (intro repne_scasb_hit) (auto simp: cstr_def bytes_at_append)
  then show ?thesis using True by (simp add: among_def)
next
  case False
  have "length ds < 2 ^ 32" using assms by (simp add: cstr_def)
  then have "unat (of_nat (length ds) :: u32) = length ds" by (simp add: unat_of_nat take_bit_nat_eq_self)
  then obtain b where "repne_scasb m c (of_nat (length ds)) ct False = (0, b, if ds = [] then False else False)"
    using repne_scasb_miss [of m ct ds c "of_nat (length ds)" False] assms False by (auto simp: cstr_def bytes_at_append)
  then show ?thesis using False by (simp add: among_def)
qed


section \<open>Spans\<close>

lemma span_loop_cstr:
  assumes "cstr m ct ds" "cstr m a xs"
  shows "span_loop inside ct (of_nat (length ds)) a m =
    Ret (a + of_nat (length (takeWhile (\<lambda>c. (c \<in> set ds) = inside) xs)) + 1, dropWhile (\<lambda>c. (c \<in> set ds) = inside) xs \<noteq> []) m"
  using assms(2)
proof (induction xs arbitrary: a)
  case Nil
  then show ?case by (simp add: span_loop_def cstr_Nil loopO_done)
next
  case (Cons x xs)
  have x: "m a = x" "x \<noteq> 0" "cstr m (a + 1) xs" using cstr_Cons [OF Cons.prems] by auto
  show ?case
  proof (cases "(x \<in> set ds) = inside")
    case True
    then have "span_loop inside ct (of_nat (length ds)) a m = span_loop inside ct (of_nat (length ds)) (a + 1) m"
      using x among_cstr [OF assms(1), of x] unfolding span_loop_def by (intro loopO_again) simp
    then show ?thesis using Cons.IH [OF x(3)] True by (simp add: algebra_simps)
  next
    case False
    then have "span_loop inside ct (of_nat (length ds)) a m = Ret (a + 1, True) m"
      using x among_cstr [OF assms(1), of x] unfolding span_loop_def by (intro loopO_done) simp
    then show ?thesis using False by simp
  qed
qed

lemma strspn_cstr:
  "cstr m ct ds \<Longrightarrow> cstr m cs xs \<Longrightarrow> strspn cs ct m = Ret (of_nat (length (takeWhile (\<lambda>c. c \<in> set ds) xs))) m"
  by (simp add: strspn_def strlen_cstr span_loop_cstr)

lemma strcspn_cstr:
  "cstr m ct ds \<Longrightarrow> cstr m cs xs \<Longrightarrow> strcspn cs ct m = Ret (of_nat (length (takeWhile (\<lambda>c. c \<notin> set ds) xs))) m"
  by (simp add: strcspn_def strlen_cstr span_loop_cstr)

lemma strpbrk_cstr:
  "cstr m ct ds \<Longrightarrow> cstr m cs xs \<Longrightarrow>
   strpbrk cs ct m = Ret (if set ds \<inter> set xs = {} then 0 else cs + of_nat (length (takeWhile (\<lambda>c. c \<notin> set ds) xs))) m"
  by (auto simp: strpbrk_def strlen_cstr span_loop_cstr dropWhile_eq_Nil_conv)

section \<open>Splitting a string\<close>

text \<open>The pieces between the delimiters, those at the ends and between neighbours being empty.\<close>

fun pieces :: "u8 set \<Rightarrow> u8 list \<Rightarrow> u8 list list" where
  "pieces D [] = [[]]"
| "pieces D (x # xs) = (if x \<in> D then [] # pieces D xs else (x # hd (pieces D xs)) # tl (pieces D xs))"

definition tokens :: "u8 set \<Rightarrow> u8 list \<Rightarrow> u8 list list" where
  "tokens D xs = filter (\<lambda>t. t \<noteq> []) (pieces D xs)"

lemma pieces_ne [simp]: "pieces D xs \<noteq> []"
  by (induction xs) auto

lemma tokens_skip: "tokens D (dropWhile (\<lambda>c. c \<in> D) xs) = tokens D xs"
  by (induction xs) (auto simp: tokens_def)

lemma pieces_run: "\<forall>c\<in>set t. c \<notin> D \<Longrightarrow> pieces D (t @ xs) = (t @ hd (pieces D xs)) # tl (pieces D xs)"
  by (induction t) auto

lemma tokens_run:
  assumes "t \<noteq> []" "\<forall>c\<in>set t. c \<notin> D" "rest = [] \<or> hd rest \<in> D"
  shows "tokens D (t @ rest) = t # (if rest = [] then [] else tokens D (tl rest))"
proof (cases rest)
  case (Cons x xs)
  then show ?thesis using assms pieces_run [of t D rest] by (simp add: tokens_def)
qed (use assms pieces_run [of t D "[]"] in \<open>simp add: tokens_def\<close>)

lemma tokens_step:
  fixes D xs
  defines "ys \<equiv> dropWhile (\<lambda>c. c \<in> D) xs"
  defines "t \<equiv> takeWhile (\<lambda>c. c \<notin> D) ys" and "rest \<equiv> dropWhile (\<lambda>c. c \<notin> D) ys"
  shows "tokens D xs = (if ys = [] then [] else t # (if rest = [] then [] else tokens D (tl rest)))"
proof (cases ys)
  case Nil
  then have "tokens D xs = tokens D []" using tokens_skip [of D xs] unfolding ys_def [symmetric] by (simp only: Nil)
  then show ?thesis using Nil by (simp add: tokens_def)
next
  case (Cons y zs)
  have "y \<notin> D" using hd_dropWhile [of "\<lambda>c. c \<in> D" xs] Cons unfolding ys_def [symmetric] by simp
  then have "t \<noteq> []" using Cons by (simp add: t_def)
  moreover have "\<forall>c\<in>set t. c \<notin> D" unfolding t_def by (auto dest: set_takeWhileD)
  moreover have "rest = [] \<or> hd rest \<in> D" unfolding rest_def using hd_dropWhile [of "\<lambda>c. c \<notin> D" ys] by blast
  moreover have "ys = t @ rest" by (simp add: t_def rest_def)
  ultimately have "tokens D ys = t # (if rest = [] then [] else tokens D (tl rest))" using tokens_run by metis
  then show ?thesis using Cons tokens_skip [of D xs] by (simp add: ys_def [symmetric])
qed


text \<open>Addresses inside a string that does not wrap around.\<close>

lemma unat_neq: "unat a \<noteq> unat b \<Longrightarrow> a \<noteq> b"
  by blast

lemma unat_plus_len: "unat a + n < 2 ^ 32 \<Longrightarrow> unat (a + of_nat n :: u32) = unat a + n"
proof -
  assume l: "unat a + n < 2 ^ 32"
  then have "unat (of_nat n :: u32) = n" by (simp add: unat_of_nat take_bit_nat_eq_self)
  then show ?thesis using l unat_add_lem [of a "of_nat n"] by simp
qed

lemma cstr_nth: "cstr m a xs \<Longrightarrow> i < length xs \<Longrightarrow> m (a + of_nat i) = xs ! i \<and> xs ! i \<noteq> 0"
proof -
  assume c: "cstr m a xs" and i: "i < length xs"
  then have "xs ! i \<noteq> 0" using nth_mem [OF i] by (metis cstr_def)
  then show ?thesis using c i by (auto simp: cstr_def bytes_at_append) (auto simp: bytes_at_def)
qed

text \<open>One call of \<open>strtok\<close>.\<close>

definition strtok_call :: "u8 set \<Rightarrow> u32 \<Rightarrow> u8 list \<Rightarrow> bytes \<Rightarrow> (bytes, u32 \<times> u32) outcome" where
  "strtok_call D a xs m =
     (let ys = dropWhile (\<lambda>c. c \<in> D) xs; r = a + of_nat (length (takeWhile (\<lambda>c. c \<in> D) xs));
          t = takeWhile (\<lambda>c. c \<notin> D) ys; e = r + of_nat (length t) in
      if ys = [] then Ret (0, 0) m
      else if dropWhile (\<lambda>c. c \<notin> D) ys = [] then Ret (r, 0) m
      else Ret (r, e + 1) (m(e := 0)))"

lemma strtok_cstr:
  assumes ct: "cstr m ct ds" "ds \<noteq> []" and c: "cstr m a xs" and a: "a = (if s = 0 then p else s)" "a \<noteq> 0" "unat a + length xs < 2 ^ 32"
  shows "strtok s ct p m = strtok_call (set ds) a xs m"
proof -
  let ?D = "set ds"
  define pre ys where "pre = takeWhile (\<lambda>c. c \<in> ?D) xs" and "ys = dropWhile (\<lambda>c. c \<in> ?D) xs"
  define t rest where "t = takeWhile (\<lambda>c. c \<notin> ?D) ys" and "rest = dropWhile (\<lambda>c. c \<notin> ?D) ys"
  define r where "r = a + of_nat (length pre)"
  have xs: "xs = pre @ ys" "ys = t @ rest" by (simp_all add: pre_def ys_def t_def rest_def)
  have len: "of_nat (length ds) \<noteq> (0 :: u32)"
  proof -
    have "length ds < 2 ^ 32" using ct(1) by (simp add: cstr_def)
    then have "unat (of_nat (length ds) :: u32) = length ds" by (simp add: unat_of_nat take_bit_nat_eq_self)
    then show ?thesis using ct(2) by (metis length_0_conv unat_0)
  qed
  have cy: "cstr m r ys" unfolding r_def by (rule cstr_suffix) (use c xs(1) in simp)
  have ur: "unat r = unat a + length pre" unfolding r_def by (rule unat_plus_len) (use a(3) xs(1) in simp)
  then have r0: "r \<noteq> 0" using a(2) by (auto simp: unat_eq_0 [symmetric] simp del: unat_eq_0)
  have l1: "span_loop True ct (of_nat (length ds)) a m = Ret (r + 1, ys \<noteq> []) m"
    using span_loop_cstr [OF ct(1) c, of True] by (simp add: r_def pre_def ys_def)
  have l2: "span_loop False ct (of_nat (length ds)) r m = Ret (r + of_nat (length t) + 1, rest \<noteq> []) m"
    using span_loop_cstr [OF ct(1) cy, of False] by (simp add: t_def rest_def)
  have sl: "\<not> (s = 0 \<and> p = 0)" "(if s = 0 then p else s) = a" using a by auto
  show ?thesis
  proof (cases "ys = []")
    case True
    then have "strtok s ct p m = Ret (0, 0) m"
      unfolding strtok_def if_not_P [OF sl(1)] sl(2) using len l1 by (simp add: strlen_cstr [OF ct(1)] Let_def)
    then show ?thesis using True by (simp add: strtok_call_def ys_def [symmetric])
  next
    case False
    have h: "m r = ys ! 0" "ys ! 0 \<noteq> 0" using cstr_nth [OF cy, of 0] False by auto
    have st: "strtok s ct p m = (if rest = [] then strtok_end r 0 m
        else if m (r + of_nat (length t)) = 0 then strtok_end r 0 m else strtok_end r (r + of_nat (length t) + 1) (m(r + of_nat (length t) := 0)))"
      unfolding strtok_def if_not_P [OF sl(1)] sl(2) using len l1 l2 False h by (simp add: strlen_cstr [OF ct(1)] Let_def)
    have call: "strtok_call ?D a xs m = (if rest = [] then Ret (r, 0) m else Ret (r, r + of_nat (length t) + 1) (m(r + of_nat (length t) := 0)))"
      using False by (simp add: strtok_call_def Let_def ys_def [symmetric] t_def [symmetric] rest_def [symmetric] pre_def [symmetric] r_def [symmetric])
    show ?thesis
    proof (cases "rest = []")
      case True
      then show ?thesis using st call h r0 by (simp add: strtok_end_def)
    next
      case rest: False
      have e: "m (r + of_nat (length t)) \<noteq> 0" using cstr_nth [OF cy, of "length t"] rest xs(2) by auto
      have "t \<noteq> []" using False hd_dropWhile [of "\<lambda>c. c \<in> ?D" xs] unfolding t_def ys_def [symmetric] by (cases ys) auto
      moreover have "unat (r + of_nat (length t)) = unat r + length t" using ur a(3) xs by (intro unat_plus_len) simp
      ultimately have "r + of_nat (length t) \<noteq> r" by (metis add_cancel_right_right length_0_conv)
      then show ?thesis using st call h r0 e rest by (simp add: strtok_end_def)
    qed
  qed
qed


lemma cstr_frame: "cstr m a xs \<Longrightarrow> (\<And>i. i \<le> length xs \<Longrightarrow> m' (a + of_nat i) = m (a + of_nat i)) \<Longrightarrow> cstr m' a xs"
  by (simp add: cstr_def bytes_at_def)

text \<open>The usual loop of a client: the first call has the string, the others a null pointer; the pieces are collected.\<close>

definition strtok_round :: "u32 \<Rightarrow> u32 \<times> u32 \<times> u32 list \<Rightarrow> bytes \<Rightarrow> (bytes, u32 \<times> u32 \<times> u32 list + u32 list) outcome" where
  "strtok_round ct = (\<lambda>(s, p, rs) m.
     bindO (strtok s ct p m) (\<lambda>(r, p) m. if r = 0 then Ret (Inr rs) m else Ret (Inl (0, p, rs @ [r])) m))"

definition split_string :: "u32 \<Rightarrow> u32 \<Rightarrow> u32 \<Rightarrow> bytes \<Rightarrow> (bytes, u32 list) outcome" where
  "split_string s ct p = loopO (strtok_round ct) (s, p, [])"

definition apart :: "u32 \<Rightarrow> nat \<Rightarrow> u32 \<Rightarrow> nat \<Rightarrow> bool" where
  "apart a n b k \<longleftrightarrow> (\<forall>i\<le>n. \<forall>j\<le>k. a + of_nat i \<noteq> b + of_nat j)"

lemma split_loop:
  assumes ct: "cstr m ct ds" "ds \<noteq> []" and c: "cstr m a xs" and a: "a = (if s = 0 then p else s)" "a \<noteq> 0" "unat a + length xs < 2 ^ 32"
    and ap: "apart a (length xs) ct (length ds)"
  shows "\<exists>qs m'. loopO (strtok_round ct) (s, p, rs) m = Ret (rs @ qs) m' \<and> list_all2 (cstr m') qs (tokens (set ds) xs) \<and>
    (\<forall>b. (\<forall>i<length xs. b \<noteq> a + of_nat i) \<longrightarrow> m' b = m b)"
  using assms
proof (induction "length xs" arbitrary: xs a s p m rs rule: less_induct)
  case less
  note ct = less.prems(1,2) and c = less.prems(3) and a = less.prems(4-6) and ap = less.prems(7)
  let ?D = "set ds"
  define pre ys where "pre = takeWhile (\<lambda>c. c \<in> ?D) xs" and "ys = dropWhile (\<lambda>c. c \<in> ?D) xs"
  define t rest where "t = takeWhile (\<lambda>c. c \<notin> ?D) ys" and "rest = dropWhile (\<lambda>c. c \<notin> ?D) ys"
  define r e where "r = a + of_nat (length pre)" and "e = r + of_nat (length t)"
  have xs: "xs = pre @ t @ rest" "ys = t @ rest" by (simp_all add: pre_def ys_def t_def rest_def)
  have call: "strtok s ct p m = (if ys = [] then Ret (0, 0) m else if rest = [] then Ret (r, 0) m else Ret (r, e + 1) (m(e := 0)))"
    using strtok_cstr [OF ct c a] unfolding strtok_call_def Let_def pre_def [symmetric] ys_def [symmetric] t_def [symmetric] rest_def [symmetric] r_def [symmetric] e_def [symmetric] .
  have tok: "tokens ?D xs = (if ys = [] then [] else t # (if rest = [] then [] else tokens ?D (tl rest)))"
    using tokens_step [of ?D xs] unfolding ys_def [symmetric] t_def [symmetric] rest_def [symmetric] .
  have cr: "cstr m r (t @ rest)" unfolding r_def by (rule cstr_suffix) (use c xs(1) in simp)
  have ur: "unat r = unat a + length pre" unfolding r_def by (rule unat_plus_len) (use a(3) xs(1) in simp)
  then have r0: "r \<noteq> 0" using a(2) by (auto simp: unat_eq_0 [symmetric] simp del: unat_eq_0)
  show ?case
  proof (cases "ys = []")
    case True
    then have "strtok_round ct (s, p, rs) m = Ret (Inr rs) m" using call by (simp add: strtok_round_def)
    then show ?thesis using tok True by (intro exI [of _ "[]"] exI [of _ m]) (simp add: loopO_done)
  next
    case ne: False
    show ?thesis
    proof (cases "rest = []")
      case True
      then have "strtok_round ct (s, p, rs) m = Ret (Inl (0, 0, rs @ [r])) m" using call ne r0 by (simp add: strtok_round_def)
      moreover have "strtok_round ct (0, 0, rs @ [r]) m = Ret (Inr (rs @ [r])) m" by (simp add: strtok_round_def strtok_def)
      ultimately have "loopO (strtok_round ct) (s, p, rs) m = Ret (rs @ [r]) m" by (simp add: loopO_again loopO_done)
      then show ?thesis using tok True ne cr by (intro exI [of _ "[r]"] exI [of _ m]) simp
    next
      case rest: False
      define m1 where "m1 = m(e := 0)"
      have le: "length rest = Suc (length (tl rest))" using rest by simp
      have len: "length xs = length pre + length t + 1 + length (tl rest)" using xs(1) le by simp
      have ue: "unat e = unat a + length pre + length t" unfolding e_def using ur a(3) len by (subst unat_plus_len) simp_all
      then have ue1: "unat (e + 1) = unat e + 1" using unat_plus_len [of e 1] a(3) len by simp
      have e1: "e + 1 \<noteq> 0" using ue1 by auto
      have round: "strtok_round ct (s, p, rs) m = Ret (Inl (0, e + 1, rs @ [r])) m1" using call ne rest r0 by (simp add: strtok_round_def m1_def)
      have off: "e + 1 + of_nat i = a + of_nat (length pre + length t + 1 + i)" for i by (simp add: e_def r_def)
      have c0: "cstr m (e + 1) (tl rest)"
      proof -
        have "cstr m e rest" unfolding e_def by (rule cstr_suffix) (rule cr)
        then show ?thesis using rest cstr_Cons [of m e "hd rest" "tl rest"] by simp
      qed
      have e2: "e + 1 + of_nat i \<noteq> e" if "i \<le> length (tl rest)" for i
      proof -
        have "unat (e + 1 + of_nat i) = unat e + 1 + i" using unat_plus_len [of "e + 1" i] ue1 ue that a(3) len by simp
        then have "unat (e + 1 + of_nat i) \<noteq> unat e" by linarith
        then show ?thesis by (rule unat_neq)
      qed
      have c1: "cstr m1 (e + 1) (tl rest)"
        by (rule cstr_frame [OF c0]) (unfold m1_def, rule fun_upd_other, rule e2)
      have "ct + of_nat j \<noteq> e" if "j \<le> length ds" for j
      proof -
        have pl: "length pre + length t \<le> length xs" and ea: "e = a + of_nat (length pre + length t)" using len by (simp_all add: e_def r_def)
        show ?thesis unfolding ea by (rule not_sym) (rule ap [unfolded apart_def, rule_format, OF pl that])
      qed
      then have d1: "cstr m1 ct ds" by (intro cstr_frame [OF ct(1)]) (unfold m1_def, rule fun_upd_other)
      have ap1: "apart (e + 1) (length (tl rest)) ct (length ds)"
        unfolding apart_def off
      proof (intro allI impI)
        fix i j assume "i \<le> length (tl rest)" "j \<le> length ds"
        then show "a + of_nat (length pre + length t + 1 + i) \<noteq> ct + of_nat j"
          by (intro ap [unfolded apart_def, rule_format]) (use len in simp_all)
      qed
      have sh: "length (tl rest) < length xs" "unat (e + 1) + length (tl rest) < 2 ^ 32" using ue1 ue a(3) len by simp_all
      obtain qs m' where q: "loopO (strtok_round ct) (0, e + 1, rs @ [r]) m1 = Ret ((rs @ [r]) @ qs) m'"
        "list_all2 (cstr m') qs (tokens ?D (tl rest))" "\<forall>b. (\<forall>i<length (tl rest). b \<noteq> e + 1 + of_nat i) \<longrightarrow> m' b = m1 b"
        using less.hyps [OF sh(1) d1 ct(2) c1 _ e1 sh(2) ap1, of 0 "e + 1" "rs @ [r]"] by auto
      have fr: "m' b = m1 b" if "unat b \<le> unat e" for b
      proof -
        have "b \<noteq> e + 1 + of_nat i" if "i < length (tl rest)" for i
        proof -
          have "unat (e + 1 + of_nat i) = unat e + 1 + i" using unat_plus_len [of "e + 1" i] ue1 ue that a(3) len by simp
          then show ?thesis using \<open>unat b \<le> unat e\<close> by auto
        qed
        then show ?thesis using q(3) by simp
      qed
      have ui: "unat (r + of_nat i) = unat r + i" if "i \<le> length t" for i using unat_plus_len [of r i] that ur a(3) len by simp
      have mr: "m' (r + of_nat i) = (if i = length t then 0 else m (r + of_nat i))" if "i \<le> length t" for i
      proof -
        have "unat (r + of_nat i) \<le> unat e" using ui [OF that] ue ur that by simp
        then have "m' (r + of_nat i) = m1 (r + of_nat i)" by (rule fr)
        moreover have "r + of_nat i = e \<longleftrightarrow> i = length t"
        proof
          assume "r + of_nat i = e"
          then have "unat (r + of_nat i) = unat (r + of_nat (length t))" by (simp only: e_def)
          then show "i = length t" using ui [OF that] ui [OF le_refl] by linarith
        qed (simp only: e_def)
        ultimately show ?thesis by (simp add: m1_def)
      qed
      have "cstr m' r t"
      proof -
        have "bytes_at m r t" "0 \<notin> set t" "length t < 2 ^ 32 - 1" using cr by (auto simp: cstr_def bytes_at_append)
        moreover from this(1) have "bytes_at m' r t" using mr by (simp add: bytes_at_def)
        moreover have "m' (r + of_nat (length t)) = 0" using mr [of "length t"] by simp
        ultimately show ?thesis by (simp add: cstr_def bytes_at_append)
      qed
      moreover have "m' b = m b" if "\<forall>i<length xs. b \<noteq> a + of_nat i" for b
      proof -
        have ea: "e = a + of_nat (length pre + length t)" by (simp add: e_def r_def)
        have "b \<noteq> e" unfolding ea by (rule that [rule_format]) (use len in simp)
        moreover have "b \<noteq> e + 1 + of_nat i" if "i < length (tl rest)" for i
          unfolding off by (rule \<open>\<forall>i<length xs. b \<noteq> a + of_nat i\<close> [rule_format]) (use that len in simp)
        ultimately show ?thesis using q(3) by (simp add: m1_def)
      qed
      moreover have "loopO (strtok_round ct) (s, p, rs) m = Ret (rs @ (r # qs)) m'" using loopO_again [of "strtok_round ct" "(s, p, rs)" m, OF round] q(1) by simp
      ultimately show ?thesis using tok ne rest q(2) by (intro exI [of _ "r # qs"] exI [of _ m']) simp
    qed
  qed
qed


text \<open>C36: Splitting with \<open>strtok\<close>, at any of the characters of a second string that is not empty and does not overlap the first.  The first string, passed to \<open>strtok\<close> once and then continued with null
  pointers until the result is null, comes back in exactly its tokens: the non-empty pieces between the delimiters, in order, each a string of
  its own at the end.  The calls return, and no memory outside the string has changed.\<close>

theorem strtok_tokens:
  assumes "cstr m ct ds" "ds \<noteq> []" "cstr m s xs" "s \<noteq> 0" "unat s + length xs < 2 ^ 32" "apart s (length xs) ct (length ds)"
  shows "\<exists>rs m'. split_string s ct p m = Ret rs m' \<and> list_all2 (cstr m') rs (tokens (set ds) xs) \<and>
    (\<forall>b. (\<forall>i<length xs. b \<noteq> s + of_nat i) \<longrightarrow> m' b = m b)"
  using split_loop [of m ct ds s xs s p "[]"] assms by (simp add: split_string_def)

text \<open>The string \<open>/usr//bin\<close> at address 1000 and the delimiter \<open>/\<close> at address 2000.\<close>

definition demo_path :: "u8 list" where
  "demo_path = [47, 117, 115, 114, 47, 47, 98, 105, 110]"

definition demo_mem :: bytes where
  "demo_mem a = (if a = 2000 then 47 else if 1000 \<le> a \<and> a < 1009 then demo_path ! unat (a - 1000) else 0)"

theorem strtok_tokens_witness:
  "\<exists>r1 r2 m'. split_string 1000 2000 0 demo_mem = Ret [r1, r2] m' \<and> cstr m' r1 [117, 115, 114] \<and> cstr m' r2 [98, 105, 110]"
proof -
  have c: "cstr demo_mem 2000 [47]" "cstr demo_mem 1000 demo_path" by (simp_all add: cstr_def demo_mem_def demo_path_def)
  have l: "length demo_path = 9" by (simp add: demo_path_def)
  have "apart 1000 9 2000 1"
    unfolding apart_def
  proof (intro allI impI)
    fix i j :: nat assume "i \<le> 9" "j \<le> 1"
    then have "unat (1000 + of_nat i :: u32) = 1000 + i" "unat (2000 + of_nat j :: u32) = 2000 + j"
      using unat_plus_len [of 1000 i] unat_plus_len [of 2000 j] by simp_all
    then have "unat (1000 + of_nat i :: u32) < unat (2000 + of_nat j :: u32)" using \<open>i \<le> 9\<close> by linarith
    then have "unat (1000 + of_nat i :: u32) \<noteq> unat (2000 + of_nat j :: u32)" by linarith
    then show "1000 + of_nat i \<noteq> (2000 + of_nat j :: u32)" by (rule unat_neq)
  qed
  then obtain rs m' where r: "split_string 1000 2000 0 demo_mem = Ret rs m'" "list_all2 (cstr m') rs (tokens {47} demo_path)"
    using strtok_tokens [OF c(1) _ c(2), of 0] l by auto
  have "tokens {47} demo_path = [[117, 115, 114], [98, 105, 110]]" by (simp add: tokens_def demo_path_def)
  then show ?thesis using r by (auto simp: list_all2_Cons2)
qed


section \<open>Copies\<close>

text \<open>The bytes \<open>xs\<close> stored one after the other at \<open>a\<close>.\<close>

fun put_bytes :: "u32 \<Rightarrow> u8 list \<Rightarrow> bytes \<Rightarrow> bytes" where
  "put_bytes a [] m = m"
| "put_bytes a (x # xs) m = put_bytes (a + 1) xs (m(a := x))"

lemma put_bytes_append: "put_bytes a (xs @ ys) m = put_bytes (a + of_nat (length xs)) ys (put_bytes a xs m)"
  by (induction xs arbitrary: a m) (simp_all add: algebra_simps)

lemma put_bytes_other: "(\<And>i. i < length xs \<Longrightarrow> b \<noteq> a + of_nat i) \<Longrightarrow> put_bytes a xs m b = m b"
proof (induction xs arbitrary: a m)
  case (Cons x xs)
  have "b \<noteq> a" using Cons.prems [of 0] by simp
  moreover have "b \<noteq> a + 1 + of_nat i" if "i < length xs" for i using Cons.prems [of "Suc i"] that by (simp add: algebra_simps)
  ultimately show ?case using Cons.IH [of "a + 1" "m(a := x)"] by (simp add: fun_upd_def)
qed simp

lemma apart_Suc: "apart a (Suc n) b (Suc k) \<Longrightarrow> apart (a + 1) n (b + 1) k"
  unfolding apart_def
proof (intro allI impI)
  fix i j assume h: "\<forall>i\<le>Suc n. \<forall>j\<le>Suc k. a + of_nat i \<noteq> b + of_nat j" and ij: "i \<le> n" "j \<le> k"
  then show "a + 1 + of_nat i \<noteq> b + 1 + of_nat j" using h [rule_format, of "Suc i" "Suc j"] by (simp add: algebra_simps)
qed

lemma cstr_upd:
  assumes "cstr m a xs" "apart a (length xs) b 0"
  shows "cstr (m(b := v)) a xs"
  by (rule cstr_frame [OF assms(1)]) (use assms(2) in \<open>simp add: apart_def\<close>)

lemma apart_sub: "apart a n b k \<Longrightarrow> n' \<le> n \<Longrightarrow> k' \<le> k \<Longrightarrow> apart a n' b k'"
  by (simp add: apart_def)

lemma apart_head: "apart a (Suc n) b k \<Longrightarrow> apart (a + 1) n b k"
  unfolding apart_def
proof (intro allI impI)
  fix i j assume h: "\<forall>i\<le>Suc n. \<forall>j\<le>k. a + of_nat i \<noteq> b + of_nat j" and ij: "i \<le> n" "j \<le> k"
  then show "a + 1 + of_nat i \<noteq> b + of_nat j" using h [rule_format, of "Suc i" j] by (simp add: algebra_simps)
qed

lemma apart_first: "apart a (Suc n) b (Suc k) \<Longrightarrow> apart (a + 1) n b 0"
  using apart_sub [OF apart_head, of a n b "Suc k" n 0] by simp

lemma copy_until_nul_cstr:
  assumes "cstr m si xs" "apart si (length xs) di (length xs)"
  shows "copy_until_nul si di m = Ret (di + of_nat (length xs) + 1) (put_bytes di (xs @ [0]) m)"
  using assms
proof (induction xs arbitrary: si di m)
  case Nil
  then show ?case by (simp add: copy_until_nul_def cstr_Nil loopO_done Let_def fun_upd_def)
next
  case (Cons x xs)
  have x: "m si = x" "x \<noteq> 0" "cstr m (si + 1) xs" using cstr_Cons [OF Cons.prems(1)] by auto
  have "cstr (m(di := x)) (si + 1) xs"
    using x(3) apart_first [of si "length xs" di "length xs"] Cons.prems(2) by (simp add: cstr_upd)
  moreover have "apart (si + 1) (length xs) (di + 1) (length xs)" by (rule apart_Suc) (use Cons.prems(2) in simp)
  ultimately have "copy_until_nul (si + 1) (di + 1) (m(di := x)) = Ret (di + 1 + of_nat (length xs) + 1) (put_bytes (di + 1) (xs @ [0]) (m(di := x)))"
    by (rule Cons.IH)
  moreover have "copy_until_nul si di m = copy_until_nul (si + 1) (di + 1) (m(di := x))"
    using x unfolding copy_until_nul_def by (intro loopO_again) (simp add: Let_def)
  ultimately show ?case by (simp add: algebra_simps)
qed

lemma strcpy_cstr:
  "cstr m src xs \<Longrightarrow> apart src (length xs) dest (length xs) \<Longrightarrow> strcpy dest src m = Ret dest (put_bytes dest (xs @ [0]) m)"
  by (simp add: strcpy_def copy_until_nul_cstr)

lemma strcat_cstr:
  assumes "cstr m dest xs" "cstr m src ys" "apart src (length ys) (dest + of_nat (length xs)) (length ys)"
  shows "strcat dest src m = Ret dest (put_bytes (dest + of_nat (length xs)) (ys @ [0]) m)"
  using assms by (simp add: strcat_def find_nul_cstr copy_until_nul_cstr)

text \<open>\<open>strncat\<close> of a string shorter than the count stores two null bytes: the second lies behind the result.\<close>

lemma sint_dec: "0 < sint (c :: u32) \<Longrightarrow> sint (c - 1) = sint c - 1"
  using sint_ge [of c] sint_lt [of c] by (simp add: sint_word_ariths(2) signed_take_bit_int_eq_self)

lemma copy_counted_cstr:
  assumes "cstr m si xs" "apart si (length xs) di (length xs)" "int (length xs) < sint cx"
  shows "copy_counted si di cx m = Ret (cx - of_nat (length xs) - 1, di + of_nat (length xs) + 1, True) (put_bytes di (xs @ [0]) m)"
  using assms
proof (induction xs arbitrary: si di cx m)
  case Nil
  then show ?case by (simp add: copy_counted_def cstr_Nil loopO_done Let_def sint_dec fun_upd_def)
next
  case (Cons x xs)
  have x: "m si = x" "x \<noteq> 0" "cstr m (si + 1) xs" using cstr_Cons [OF Cons.prems(1)] by auto
  have "cstr (m(di := x)) (si + 1) xs"
    using x(3) apart_first [of si "length xs" di "length xs"] Cons.prems(2) by (simp add: cstr_upd)
  moreover have "apart (si + 1) (length xs) (di + 1) (length xs)" by (rule apart_Suc) (use Cons.prems(2) in simp)
  moreover have c: "sint (cx - 1) = sint cx - 1" using Cons.prems(3) by (intro sint_dec) simp
  ultimately have "copy_counted (si + 1) (di + 1) (cx - 1) (m(di := x)) =
      Ret (cx - 1 - of_nat (length xs) - 1, di + 1 + of_nat (length xs) + 1, True) (put_bytes (di + 1) (xs @ [0]) (m(di := x)))"
    using Cons.prems(3) by (intro Cons.IH) (simp_all del: fun_upd_apply)
  moreover have "copy_counted si di cx m = copy_counted (si + 1) (di + 1) (cx - 1) (m(di := x))"
    using x c Cons.prems(3) unfolding copy_counted_def by (intro loopO_again) (simp add: Let_def)
  ultimately show ?case by (simp add: algebra_simps)
qed

lemma strncat_extra_nul:
  assumes "cstr m dest xs" "cstr m src ys" "apart src (length ys) (dest + of_nat (length xs)) (length ys)" "int (length ys) < sint cnt"
  shows "strncat dest src cnt m = Ret dest (put_bytes (dest + of_nat (length xs)) (ys @ [0, 0]) m)"
proof -
  have "ys @ [0, 0] = (ys @ [0]) @ [0]" by simp
  then have "put_bytes a (ys @ [0, 0]) m = (put_bytes a (ys @ [0]) m)(a + of_nat (length ys) + 1 := 0)" for a
    by (simp only: put_bytes_append) (simp add: ac_simps)
  then show ?thesis using assms by (simp add: strncat_def find_nul_cstr copy_counted_cstr)
qed

section \<open>Comparisons\<close>

text \<open>The sign of the first difference of two strings, with bytes read as signed characters.\<close>

fun lex_sign :: "u8 list \<Rightarrow> u8 list \<Rightarrow> int" where
  "lex_sign (x # xs) (y # ys) = (if x = y then lex_sign xs ys else if sint y < sint x then 1 else - 1)"
| "lex_sign _ _ = 0"

lemma strcmp_cstr:
  "cstr m cs xs \<Longrightarrow> cstr m ct ys \<Longrightarrow> strcmp cs ct m = Ret (lex_sign (xs @ [0]) (ys @ [0])) m"
proof (induction xs arbitrary: cs ct ys)
  case Nil
  then show ?case
    by (cases ys) (auto simp: strcmp_def cstr_Nil loopO_done Let_def sign_of_def dest: cstr_Cons)
next
  case (Cons x xs)
  have x: "m cs = x" "x \<noteq> 0" "cstr m (cs + 1) xs" using cstr_Cons [OF Cons.prems(1)] by auto
  show ?case
  proof (cases ys)
    case Nil
    then show ?thesis using x Cons.prems(2) by (auto simp: strcmp_def cstr_Nil loopO_done Let_def sign_of_def)
  next
    case y: (Cons y zs)
    have z: "m ct = y" "y \<noteq> 0" "cstr m (ct + 1) zs" using cstr_Cons Cons.prems(2) y by auto
    show ?thesis
    proof (cases "x = y")
      case True
      then have "strcmp cs ct m = strcmp (cs + 1) (ct + 1) m"
        using x z unfolding strcmp_def by (intro loopO_again) (simp add: Let_def)
      then show ?thesis using Cons.IH [OF x(3) z(3)] True y by simp
    next
      case False
      then show ?thesis using x z y by (auto simp: strcmp_def loopO_done Let_def sign_of_def)
    qed
  qed
qed

end
