(* ===== verification/Traps.thy ===== *)
theory Traps
  imports Vsprintf Process
begin

unbundle bit_operations_syntax

text \<open>
  Messages, faults and the interrupt table: \<open>src/kernel/printk.c\<close>, \<open>panic.c\<close>, \<open>traps.c\<close>, \<open>math/math_emulate.c\<close>, the gate macros
  of \<open>src/include/asm/system.h\<close> and the entries of \<open>src/kernel/asm.s\<close>, which save the registers and call the C functions.

  A function that prints writes to the terminal and may sleep there.  \<open>die\<close> does not come back: it ends in \<open>do_exit\<close>.
\<close>

section \<open>Messages\<close>

text \<open>
  \<open>printk\<close> points \<open>fs\<close> at the kernel while \<open>tty_write\<close> fetches the characters from \<open>buf\<close>, here at address 0.
  Text beyond the 1024 bytes of \<open>buf\<close> is undefined, like a missing argument.
\<close>

definition kernel_buf :: "string \<Rightarrow> u32 \<Rightarrow> u8" where
  "kernel_buf text a = (if unat a < length text then of_char (text ! unat a) else 0)"

definition printk :: "kenv \<Rightarrow> string \<Rightarrow> varg list \<Rightarrow> fs \<Rightarrow> (fs, int) outcome" where
  "printk E fmt as s =
     (case vsprintf fmt as of
        None \<Rightarrow> Undefined ''va_arg''
      | Some (text, i, _) \<Rightarrow>
          if length text \<ge> 1024 then Undefined ''buf''
          else bindO (tty_write (k_env E) 0 0 i (s\<lparr>umem := (umem s)(current s := kernel_buf text)\<rparr>)) (\<lambda>_ t.
               Ret i (t\<lparr>umem := (umem t)(current t := umem s (current t))\<rparr>)))"

text \<open>After its message \<open>panic\<close> syncs, except in task 0, and loops for ever: the outcome \<open>Panic\<close>.\<close>

definition panic :: "kenv \<Rightarrow> string \<Rightarrow> fs \<Rightarrow> (fs, unit) outcome" where
  "panic E msg s =
     bindO (printk E (''Kernel panic: %s'' @ [CHR 0x0A, CHR 0x0D]) [Str msg] s) (\<lambda>_ s.
     bindO (if current s = task s 0 then printk E (''In swapper task - not syncing'' @ [CHR 0x0A, CHR 0x0D]) [] s else sys_sync E s) (\<lambda>_ s.
     Panic msg))"

section \<open>Faults\<close>

text \<open>The byte at an address of the code segment of a fault: the kernel's segments map all memory, the others are those of the task.\<close>

definition get_seg_byte :: "u32 \<Rightarrow> u32 \<Rightarrow> fs \<Rightarrow> u8" where
  "get_seg_byte seg a s = (if seg AND 0xfff8 = 8 \<or> seg AND 0xfff8 = 0x10 then get_pbyte a s else get_fs_byte a s)"

text \<open>\<open>str(i)\<close>: the number of the task whose segment the task register holds.\<close>

definition task_nr :: "fs \<Rightarrow> u32" where
  "task_nr s = (case List.find (\<lambda>i. task s i = current s) [0..<NR_TASKS] of Some i \<Rightarrow> of_nat i | None \<Rightarrow> 0)"

text \<open>A message: its format and its arguments.  \<open>stk\<close> holds the longs of the stack the fault left behind: \<open>eip\<close>, \<open>cs\<close>, \<open>eflags\<close>, \<open>esp\<close>, \<open>ss\<close>.\<close>

type_synonym message = "string \<times> varg list"

abbreviation nl :: string where "nl \<equiv> [CHR 0x0A]"
abbreviation tab :: string where "tab \<equiv> [CHR 0x09]"
abbreviation nl_cr :: string where "nl_cr \<equiv> [CHR 0x0A, CHR 0x0D]"

definition die_messages :: "string \<Rightarrow> (nat \<Rightarrow> u32) \<Rightarrow> u32 \<Rightarrow> fs \<Rightarrow> message list" where
  "die_messages name stk nr s =
     [(''%s: %04x'' @ nl_cr, [Str name, Long (nr AND 0xffff)]),
      (''EIP:'' @ tab @ ''%04x:%p'' @ nl @ ''EFLAGS:'' @ tab @ ''%p'' @ nl @ ''ESP:'' @ tab @ ''%04x:%p'' @ nl,
       [Long (stk 1), Long (stk 0), Long (stk 2), Long (stk 4), Long (stk 3)]),
      (''fs: %04x'' @ nl, [Long 0x10]),
      (''base: %p, limit: %p'' @ nl, [Long (get_base (ldt (cur s) 1)), Long (get_limit (ldt (cur s) 2))])] @
     (if stk 4 = 0x17
      then [(''Stack: '', [])] @ map (\<lambda>i. (''%p '', [Long (get_fs_long (stk 3 + 4 * of_nat i) s)])) [0..<4] @ [(nl, [])]
      else []) @
     [(''Pid: %d, process nr: %d'' @ nl_cr, [Long (of_int (pid (cur s))), Long (0xffff AND task_nr s)])] @
     map (\<lambda>i. (''%02x '', [Long (0xff AND ucast (get_seg_byte (stk 1) (stk 0 + of_nat i) s))])) [0..<10] @
     [(nl_cr, [])]"

definition print_all :: "kenv \<Rightarrow> message list \<Rightarrow> fs \<Rightarrow> (fs, unit) outcome" where
  "print_all E ms s = eachO (\<lambda>(fmt, as) s. bindO (printk E fmt as s) (\<lambda>_ s. Ret () s)) ms s"

definition die :: "string \<Rightarrow> kenv \<Rightarrow> (nat \<Rightarrow> u32) \<Rightarrow> u32 \<Rightarrow> fs \<Rightarrow> (fs, unit) outcome" where
  "die name E stk nr s = bindO (print_all E (die_messages name stk nr s) s) (\<lambda>_ s. do_exit E 11 s)"

definition do_double_fault :: "kenv \<Rightarrow> (nat \<Rightarrow> u32) \<Rightarrow> u32 \<Rightarrow> fs \<Rightarrow> (fs, unit) outcome" where
  "do_double_fault = die ''double fault''"

definition do_general_protection :: "kenv \<Rightarrow> (nat \<Rightarrow> u32) \<Rightarrow> u32 \<Rightarrow> fs \<Rightarrow> (fs, unit) outcome" where
  "do_general_protection = die ''general protection''"

definition do_divide_error :: "kenv \<Rightarrow> (nat \<Rightarrow> u32) \<Rightarrow> u32 \<Rightarrow> fs \<Rightarrow> (fs, unit) outcome" where
  "do_divide_error = die ''divide error''"

definition do_nmi :: "kenv \<Rightarrow> (nat \<Rightarrow> u32) \<Rightarrow> u32 \<Rightarrow> fs \<Rightarrow> (fs, unit) outcome" where
  "do_nmi = die ''nmi''"

definition do_debug :: "kenv \<Rightarrow> (nat \<Rightarrow> u32) \<Rightarrow> u32 \<Rightarrow> fs \<Rightarrow> (fs, unit) outcome" where
  "do_debug = die ''debug''"

definition do_overflow :: "kenv \<Rightarrow> (nat \<Rightarrow> u32) \<Rightarrow> u32 \<Rightarrow> fs \<Rightarrow> (fs, unit) outcome" where
  "do_overflow = die ''overflow''"

definition do_bounds :: "kenv \<Rightarrow> (nat \<Rightarrow> u32) \<Rightarrow> u32 \<Rightarrow> fs \<Rightarrow> (fs, unit) outcome" where
  "do_bounds = die ''bounds''"

definition do_invalid_op :: "kenv \<Rightarrow> (nat \<Rightarrow> u32) \<Rightarrow> u32 \<Rightarrow> fs \<Rightarrow> (fs, unit) outcome" where
  "do_invalid_op = die ''invalid operand''"

definition do_device_not_available :: "kenv \<Rightarrow> (nat \<Rightarrow> u32) \<Rightarrow> u32 \<Rightarrow> fs \<Rightarrow> (fs, unit) outcome" where
  "do_device_not_available = die ''device not available''"

definition do_coprocessor_segment_overrun :: "kenv \<Rightarrow> (nat \<Rightarrow> u32) \<Rightarrow> u32 \<Rightarrow> fs \<Rightarrow> (fs, unit) outcome" where
  "do_coprocessor_segment_overrun = die ''coprocessor segment overrun''"

definition do_invalid_TSS :: "kenv \<Rightarrow> (nat \<Rightarrow> u32) \<Rightarrow> u32 \<Rightarrow> fs \<Rightarrow> (fs, unit) outcome" where
  "do_invalid_TSS = die ''invalid TSS''"

definition do_segment_not_present :: "kenv \<Rightarrow> (nat \<Rightarrow> u32) \<Rightarrow> u32 \<Rightarrow> fs \<Rightarrow> (fs, unit) outcome" where
  "do_segment_not_present = die ''segment not present''"

definition do_stack_segment :: "kenv \<Rightarrow> (nat \<Rightarrow> u32) \<Rightarrow> u32 \<Rightarrow> fs \<Rightarrow> (fs, unit) outcome" where
  "do_stack_segment = die ''stack segment''"

definition do_coprocessor_error :: "kenv \<Rightarrow> (nat \<Rightarrow> u32) \<Rightarrow> u32 \<Rightarrow> fs \<Rightarrow> (fs, unit) outcome" where
  "do_coprocessor_error E stk nr s =
     (if last_task_used_math s \<noteq> current s then Ret () s else die ''coprocessor error'' E stk nr s)"

definition do_reserved :: "kenv \<Rightarrow> (nat \<Rightarrow> u32) \<Rightarrow> u32 \<Rightarrow> fs \<Rightarrow> (fs, unit) outcome" where
  "do_reserved = die ''reserved (15,17-47) error''"

text \<open>
  \<open>do_int3\<close> only prints the registers the entry has saved and comes back; \<open>stack\<close> is its first argument, the address of the
  longs \<open>stk\<close>.
\<close>

record int3_regs =
  i_stack :: u32
  i_fs :: u32
  i_es :: u32
  i_ds :: u32
  i_ebp :: u32
  i_esi :: u32
  i_edi :: u32
  i_edx :: u32
  i_ecx :: u32
  i_ebx :: u32
  i_eax :: u32

definition int3_messages :: "(nat \<Rightarrow> u32) \<Rightarrow> int3_regs \<Rightarrow> fs \<Rightarrow> message list" where
  "int3_messages stk r s =
     [(''eax'' @ tab @ tab @ ''ebx'' @ tab @ tab @ ''ecx'' @ tab @ tab @ ''edx'' @ nl_cr @ ''%8x'' @ tab @ ''%8x'' @ tab @ ''%8x'' @ tab @ ''%8x'' @ nl_cr,
       [Long (i_eax r), Long (i_ebx r), Long (i_ecx r), Long (i_edx r)]),
      (''esi'' @ tab @ tab @ ''edi'' @ tab @ tab @ ''ebp'' @ tab @ tab @ ''esp'' @ nl_cr @ ''%8x'' @ tab @ ''%8x'' @ tab @ ''%8x'' @ tab @ ''%8x'' @ nl_cr,
       [Long (i_esi r), Long (i_edi r), Long (i_ebp r), Long (i_stack r)]),
      (nl_cr @ ''ds'' @ tab @ ''es'' @ tab @ ''fs'' @ tab @ ''tr'' @ nl_cr @ ''%4x'' @ tab @ ''%4x'' @ tab @ ''%4x'' @ tab @ ''%4x'' @ nl_cr,
       [Long (i_ds r), Long (i_es r), Long (i_fs r), Long (push_bit 4 (task_nr s) + 0x20)]),
      (''EIP: %8x   CS: %4x  EFLAGS: %8x'' @ nl_cr, [Long (stk 0), Long (stk 1), Long (stk 2)])]"

definition do_int3 :: "kenv \<Rightarrow> (nat \<Rightarrow> u32) \<Rightarrow> int3_regs \<Rightarrow> fs \<Rightarrow> (fs, unit) outcome" where
  "do_int3 E stk r s = print_all E (int3_messages stk r s) s"

section \<open>The coprocessor\<close>

text \<open>
  \<open>math_emulate\<close> has no emulator: it steps over two bytes of the instruction and sends \<open>SIGFPE\<close>.  Its result is the
  program counter.
\<close>

abbreviation (input) SIGFPE :: nat where "SIGFPE \<equiv> 8"

definition math_emulate :: "kenv \<Rightarrow> u32 \<Rightarrow> u16 \<Rightarrow> fs \<Rightarrow> (fs, u32) outcome" where
  "math_emulate E pc seg s =
     (if seg \<noteq> 0x0F
      then bindO (printk E (''math_emulate: %04x:%08x'' @ nl_cr) [Long (ucast seg), Long pc] s) (\<lambda>_ s.
           bindO (panic E ''Math emulation needed in kernel'' s) (\<lambda>_ s. Ret pc s))
      else bindO (printk E (''%04x:%08x %02x %02x'' @ nl_cr)
                   [Long (ucast seg), Long pc, Long (ucast (get_fs_byte pc s)), Long (ucast (get_fs_byte (pc + 1) s))] s) (\<lambda>_ s.
           Ret (pc + 2) (upd_cur (\<lambda>t. t\<lparr>signal := signal t OR sigbit SIGFPE\<rparr>) s)))"

definition math_error :: "fs \<Rightarrow> fs" where
  "math_error s =
     (if last_task_used_math s \<noteq> 0
      then upd_task (last_task_used_math s) (\<lambda>t. t\<lparr>signal := signal t OR sigbit SIGFPE\<rparr>) s else s)"

section \<open>The interrupt table\<close>

text \<open>
  The routines a gate can lead to.  \<open>ignore_int\<close> is what \<open>head.s\<close> has put into all gates; the addresses are the linker's and a parameter.
\<close>

datatype handler = ignore_int | divide_error | debug | nmi | int3 | overflow | bounds | invalid_op | device_not_available | double_fault
  | coprocessor_segment_overrun | invalid_TSS | segment_not_present | stack_segment | general_protection | page_fault | reserved
  | coprocessor_error | irq13 | parallel_interrupt | rs1_interrupt | rs2_interrupt | keyboard_interrupt | timer_interrupt | system_call
  | hd_interrupt_entry | floppy_interrupt_entry

type_synonym idt = "nat \<Rightarrow> desc"

text \<open>
  The table \<open>setup_idt\<close> of \<open>src/boot/head.s\<close> leaves: 256 gates for \<open>ignore_int\<close>, stored by a loop that counts \<open>ecx\<close> down.
\<close>

primrec rp_sidt :: "nat \<Rightarrow> nat \<Rightarrow> u32 \<Rightarrow> u32 \<Rightarrow> idt \<Rightarrow> idt" where
  "rp_sidt 0 di ax dx idt = idt"
| "rp_sidt (Suc cx) di ax dx idt = rp_sidt cx (di + 1) ax dx (idt(di := (ax, dx)))"

definition setup_idt :: "(handler \<Rightarrow> u32) \<Rightarrow> idt \<Rightarrow> idt" where
  "setup_idt at idt =
     (let dx = at ignore_int;
          ax = (0x00080000 AND 0xffff0000) OR (dx AND 0xffff);
          dx = (dx AND 0xffff0000) OR 0x8E00
      in rp_sidt 256 0 ax dx idt)"

definition ignore_int_entry :: "kenv \<Rightarrow> fs \<Rightarrow> (fs, unit) outcome" where
  "ignore_int_entry E s = print_all E [(''Unknown interrupt'' @ nl_cr, [])] s"

definition set_gate :: "nat \<Rightarrow> u32 \<Rightarrow> u32 \<Rightarrow> u32 \<Rightarrow> idt \<Rightarrow> idt" where
  "set_gate n typ dpl addr idt =
     idt(n := (0x00080000 OR (addr AND 0xffff), (addr AND 0xffff0000) OR ((0x8000 + push_bit 13 dpl + push_bit 8 typ) AND 0xffff)))"

definition set_intr_gate :: "nat \<Rightarrow> u32 \<Rightarrow> idt \<Rightarrow> idt" where
  "set_intr_gate n addr = set_gate n 14 0 addr"

definition set_trap_gate :: "nat \<Rightarrow> u32 \<Rightarrow> idt \<Rightarrow> idt" where
  "set_trap_gate n addr = set_gate n 15 0 addr"

definition set_system_gate :: "nat \<Rightarrow> u32 \<Rightarrow> idt \<Rightarrow> idt" where
  "set_system_gate n addr = set_gate n 15 3 addr"

text \<open>\<open>trap_init\<close>: the gates, and the bytes sent to the interrupt controllers.\<close>

definition trap_gates :: "(handler \<Rightarrow> u32) \<Rightarrow> idt \<Rightarrow> idt" where
  "trap_gates at idt =
     (let idt = set_trap_gate 0 (at divide_error) idt;
          idt = set_trap_gate 1 (at debug) idt;
          idt = set_trap_gate 2 (at nmi) idt;
          idt = set_system_gate 3 (at int3) idt;
          idt = set_system_gate 4 (at overflow) idt;
          idt = set_system_gate 5 (at bounds) idt;
          idt = set_trap_gate 6 (at invalid_op) idt;
          idt = set_trap_gate 7 (at device_not_available) idt;
          idt = set_trap_gate 8 (at double_fault) idt;
          idt = set_trap_gate 9 (at coprocessor_segment_overrun) idt;
          idt = set_trap_gate 10 (at invalid_TSS) idt;
          idt = set_trap_gate 11 (at segment_not_present) idt;
          idt = set_trap_gate 12 (at stack_segment) idt;
          idt = set_trap_gate 13 (at general_protection) idt;
          idt = set_trap_gate 14 (at page_fault) idt;
          idt = set_trap_gate 15 (at reserved) idt;
          idt = set_trap_gate 16 (at coprocessor_error) idt;
          idt = fold (\<lambda>i. set_trap_gate i (at reserved)) [17..<48] idt;
          idt = set_trap_gate 45 (at irq13) idt
      in set_trap_gate 39 (at parallel_interrupt) idt)"

definition trap_ports :: "'z sched_scheme \<Rightarrow> 'z sched_scheme" where
  "trap_ports s =
     (let s = outb (inb_val s 0x21 AND 0xfb) 0x21 s
      in outb (inb_val s 0xA1 AND 0xdf) 0xA1 s)"

text \<open>The gates the other initialisation routines set, in the order in which \<open>main\<close> calls these.\<close>

definition rs_gates :: "(handler \<Rightarrow> u32) \<Rightarrow> idt \<Rightarrow> idt" where
  "rs_gates at idt = set_intr_gate 0x23 (at rs2_interrupt) (set_intr_gate 0x24 (at rs1_interrupt) idt)"

definition con_gates :: "(handler \<Rightarrow> u32) \<Rightarrow> idt \<Rightarrow> idt" where
  "con_gates at idt = set_trap_gate 0x21 (at keyboard_interrupt) idt"

definition sched_gates :: "(handler \<Rightarrow> u32) \<Rightarrow> idt \<Rightarrow> idt" where
  "sched_gates at idt = set_system_gate 0x80 (at system_call) (set_intr_gate 0x20 (at timer_interrupt) idt)"

definition hd_gates :: "(handler \<Rightarrow> u32) \<Rightarrow> idt \<Rightarrow> idt" where
  "hd_gates at idt = set_intr_gate 0x2E (at hd_interrupt_entry) idt"

definition floppy_gates :: "(handler \<Rightarrow> u32) \<Rightarrow> idt \<Rightarrow> idt" where
  "floppy_gates at idt = set_trap_gate 0x26 (at floppy_interrupt_entry) idt"

definition boot_gates :: "(handler \<Rightarrow> u32) \<Rightarrow> idt \<Rightarrow> idt" where
  "boot_gates at idt = floppy_gates at (hd_gates at (sched_gates at (con_gates at (rs_gates at (trap_gates at idt)))))"

end
