(* ===== verification/Startup.thy ===== *)
theory Startup
  imports Mktime Traps Hd Floppy
begin

unbundle bit_operations_syntax

text \<open>
  \<open>src/init/main.c\<close> up to the switch to user mode: the parameters the boot code left in memory, the sizes of the buffer and of main
  memory, the clock, and the initialisation of all parts in the order of \<open>main\<close>.  The interrupt gates these routines set are in
  \<open>Traps\<close>.

  The clock chip is a parameter: \<open>cmos k r\<close> is the byte it gives for the register number \<open>r\<close> when \<open>k\<close> bytes have been sent to ports
  before, so that it may change between two readings.
\<close>

section \<open>The clock\<close>

definition CMOS_READ :: "(nat \<Rightarrow> u8 \<Rightarrow> u8) \<Rightarrow> u8 \<Rightarrow> 'z sched_scheme \<Rightarrow> int \<times> 'z sched_scheme" where
  "CMOS_READ cmos addr s = (uint (cmos (length (ports s)) (0x80 OR addr)), outb (0x80 OR addr) 0x70 s)"

definition BCD_TO_BIN :: "int \<Rightarrow> int" where
  "BCD_TO_BIN val = (val AND 15) + drop_bit 4 val * 10"

text \<open>The body of the loop and the reading in its condition.\<close>

definition read_clock :: "(nat \<Rightarrow> u8 \<Rightarrow> u8) \<Rightarrow> 'z sched_scheme \<Rightarrow> tm \<times> int \<times> 'z sched_scheme" where
  "read_clock cmos s =
     (let (s0, s) = CMOS_READ cmos 0 s;
          (m, s) = CMOS_READ cmos 2 s;
          (h, s) = CMOS_READ cmos 4 s;
          (d, s) = CMOS_READ cmos 7 s;
          (mo, s) = CMOS_READ cmos 8 s;
          (y, s) = CMOS_READ cmos 9 s;
          (s1, s) = CMOS_READ cmos 0 s
      in (\<lparr>tm_sec = s0, tm_min = m, tm_hour = h, tm_mday = d, tm_mon = mo, tm_year = y\<rparr>, s1, s))"

definition tm_to_bin :: "tm \<Rightarrow> tm" where
  "tm_to_bin t = \<lparr>tm_sec = BCD_TO_BIN (tm_sec t), tm_min = BCD_TO_BIN (tm_min t), tm_hour = BCD_TO_BIN (tm_hour t),
     tm_mday = BCD_TO_BIN (tm_mday t), tm_mon = BCD_TO_BIN (tm_mon t) - 1, tm_year = BCD_TO_BIN (tm_year t)\<rparr>"

definition time_init :: "(nat \<Rightarrow> u8 \<Rightarrow> u8) \<Rightarrow> 'z sched_scheme \<Rightarrow> ('z sched_scheme, unit) outcome" where
  "time_init cmos s =
     bindO (loopO (\<lambda>_ s. case read_clock cmos s of (t, s1, s) \<Rightarrow> Ret (if tm_sec t \<noteq> s1 then Inl () else Inr t) s) () s) (\<lambda>t s.
     case kernel_mktime (tm_to_bin t) of
       None \<Rightarrow> Undefined ''month''
     | Some v \<Rightarrow> Ret () (s\<lparr>startup_time := v\<rparr>))"

section \<open>The size of memory\<close>

definition memory_end :: "u16 \<Rightarrow> int" where
  "memory_end ext_mem_k =
     (let m = (2 ^ 20 + uint ext_mem_k * 2 ^ 10) AND 0xfffff000 in if m > 16 * 2 ^ 20 then 16 * 2 ^ 20 else m)"

definition buffer_memory_end :: "int \<Rightarrow> int" where
  "buffer_memory_end m_end =
     (if m_end > 12 * 2 ^ 20 then 4 * 2 ^ 20 else if m_end > 6 * 2 ^ 20 then 2 * 2 ^ 20 else 1 * 2 ^ 20)"

text \<open>\<open>RAMDISK\<close> is the size of the RAM disk in kB when it is defined.\<close>

definition place_ramdisk :: "nat option \<Rightarrow> int \<Rightarrow> fs \<Rightarrow> int \<times> fs" where
  "place_ramdisk RAMDISK start s =
     (case RAMDISK of
        None \<Rightarrow> (start, s)
      | Some kb \<Rightarrow> let (len, s) = rd_init (of_int start) (of_nat (kb * 1024)) s in (start + sint len, s))"

section \<open>\<open>main\<close>\<close>

abbreviation EXT_MEM_K :: "fs \<Rightarrow> u16" where "EXT_MEM_K \<equiv> get_pshort 0x90002"
abbreviation ORIG_ROOT_DEV :: "fs \<Rightarrow> u16" where "ORIG_ROOT_DEV \<equiv> get_pshort 0x901FC"

text \<open>\<open>drive_info = DRIVE_INFO\<close>, for the address the linker gives \<open>drive_info\<close>.\<close>

definition copy_drive_info :: "u32 \<Rightarrow> fs \<Rightarrow> fs" where
  "copy_drive_info info s = fold (\<lambda>i s. put_pbyte (get_pbyte (0x90080 + of_nat i) s) (info + of_nat i) s) [0..<32] s"

definition boot_params :: "u32 \<Rightarrow> fs \<Rightarrow> fs" where
  "boot_params info s = copy_drive_info info (s\<lparr>ROOT_DEV := ucast (ORIG_ROOT_DEV s)\<rparr>)"

definition kernel_main :: "(nat \<Rightarrow> u8 \<Rightarrow> u8) \<Rightarrow> boot_video \<Rightarrow> nat option \<Rightarrow> u32 \<Rightarrow> fs \<Rightarrow> (fs, unit) outcome" where
  "kernel_main cmos video RAMDISK info s =
     (let s = boot_params info s;
          m_end = memory_end (EXT_MEM_K s);
          b_end = buffer_memory_end m_end;
          (main_start, s) = place_ramdisk RAMDISK b_end s
      in bindO (mem_init main_start m_end s) (\<lambda>_ s.
         bindO (time_init cmos (tty_init video (blk_dev_init (trap_ports s)))) (\<lambda>_ s.
         bindO (buffer_init (of_int b_end) (sched_init s)) (\<lambda>_ s.
         Ret () (floppy_init (hd_init s))))))"

end
