(* ===== verification/Startup_Props.thy ===== *)
theory Startup_Props
  imports Startup Memory_Inv
begin

unbundle bit_operations_syntax

text \<open>
  Booting.  The clock: the seven readings of a round belong to one second although it may change between any two of them.
  The memory: main memory, the RAM disk, and the blocks and heads of the buffer cache share no byte.
\<close>

section \<open>Reading the clock\<close>

definition bcd :: "nat \<Rightarrow> u8" where
  "bcd n = of_nat (16 * (n div 10) + n mod 10)"

lemma BCD_TO_BIN_bcd:
  assumes "n < 100"
  shows "BCD_TO_BIN (uint (bcd n)) = int n"
proof -
  have u: "uint (bcd n) = int (16 * (n div 10) + n mod 10)"
    using assms unfolding bcd_def uint_nat unat_of_nat by simp
  have "(15 :: int) = mask 4" by (simp add: mask_eq_exp_minus_1)
  then have "BCD_TO_BIN i = i mod 16 + i div 16 * 10" for i :: int
    by (simp only: BCD_TO_BIN_def take_bit_eq_mask [symmetric] drop_bit_eq_div take_bit_eq_mod) simp
  moreover have digit: "(16 * (n div 10) + n mod 10) mod 16 = n mod 10" "(16 * (n div 10) + n mod 10) div 16 = n div 10"
    "n mod 10 + n div 10 * 10 = n"
    using order.strict_trans [of "n mod 10" 10 16] by simp_all
  ultimately have "BCD_TO_BIN (int (16 * (n div 10) + n mod 10)) = int ((16 * (n div 10) + n mod 10) mod 16 + (16 * (n div 10) + n mod 10) div 16 * 10)"
    by (simp add: zmod_int zdiv_int)
  then show ?thesis unfolding u digit .
qed

text \<open>
  A clock: when \<open>k\<close> bytes have been sent it is the second \<open>T k\<close> since 1970, time does not go back, at most one second ends during
  14 readings in a row, and the registers show the date of that second in decimal digits.
\<close>

definition shows_date :: "(u8 \<Rightarrow> u8) \<Rightarrow> nat \<Rightarrow> nat \<times> nat \<times> nat \<times> nat \<times> nat \<times> nat \<Rightarrow> bool" where
  "shows_date reg t date \<longleftrightarrow>
     (case date of (y, mo, d, h, m, sec) \<Rightarrow>
        y < 30 \<and> mo < 12 \<and> 1 \<le> d \<and> d \<le> 31 \<and> h < 24 \<and> m < 60 \<and> sec < 60 \<and> epoch_seconds y mo d h m sec = t \<and>
        reg 0x80 = bcd sec \<and> reg 0x82 = bcd m \<and> reg 0x84 = bcd h \<and> reg 0x87 = bcd d \<and> reg 0x88 = bcd (mo + 1) \<and> reg 0x89 = bcd (70 + y))"

definition rtc :: "(nat \<Rightarrow> u8 \<Rightarrow> u8) \<Rightarrow> (nat \<Rightarrow> nat) \<Rightarrow> (nat \<Rightarrow> nat \<times> nat \<times> nat \<times> nat \<times> nat \<times> nat) \<Rightarrow> bool" where
  "rtc cmos T calendar \<longleftrightarrow> mono T \<and> (\<forall>k. T (k + 13) \<le> T k + 1) \<and> (\<forall>k. shows_date (cmos k) (T k) (calendar (T k)))"

lemma mod_step: "a \<le> b \<Longrightarrow> b \<le> a + 1 \<Longrightarrow> a mod 60 = b mod 60 \<Longrightarrow> b = (a :: nat)"
  by (cases "b = Suc a") (auto simp: mod_Suc split: if_splits)

lemma epoch_seconds_mod: "sec < 60 \<Longrightarrow> epoch_seconds y mo d h m sec mod 60 = sec"
proof -
  define x where "x = days_to_year y + days_to_month (1970 + y) mo + (d - 1)"
  have "epoch_seconds y mo d h m sec = sec + (1440 * x + 60 * h + m) * 60" unfolding epoch_seconds_def x_def [symmetric] by simp
  then show "sec < 60 \<Longrightarrow> ?thesis" by (simp only: mod_mult_self1) simp
qed

lemma shows_date_sec:
  assumes "shows_date reg t date"
  shows "BCD_TO_BIN (uint (reg 0x80)) = int (t mod 60)"
proof -
  obtain y mo d h m sec where d: "date = (y, mo, d, h, m, sec)" by (cases date) auto
  then have "t mod 60 = sec" "sec < 100" "reg 0x80 = bcd sec"
    using assms epoch_seconds_mod [of sec y mo d h m] by (auto simp: shows_date_def)
  then show ?thesis using BCD_TO_BIN_bcd [of sec] by simp
qed

text \<open>A round of readings, the \<open>k\<close>-th byte sent being its first.\<close>

definition round_tm :: "(nat \<Rightarrow> u8 \<Rightarrow> u8) \<Rightarrow> nat \<Rightarrow> tm" where
  "round_tm cmos k = \<lparr>tm_sec = uint (cmos k 0x80), tm_min = uint (cmos (k + 1) 0x82), tm_hour = uint (cmos (k + 2) 0x84),
     tm_mday = uint (cmos (k + 3) 0x87), tm_mon = uint (cmos (k + 4) 0x88), tm_year = uint (cmos (k + 5) 0x89)\<rparr>"

lemma read_clock_round:
  "\<exists>l. length l = 7 \<and> read_clock cmos s = (round_tm cmos (length (ports s)), uint (cmos (length (ports s) + 6) 0x80), s\<lparr>ports := ports s @ l\<rparr>)"
  by (rule exI [of _ "[(0x70, 0x80), (0x70, 0x82), (0x70, 0x84), (0x70, 0x87), (0x70, 0x88), (0x70, 0x89), (0x70, 0x80)]"])
     (simp add: read_clock_def CMOS_READ_def outb_def round_tm_def numeral_eq_Suc)

lemma mktime_round:
  assumes "rtc cmos T cal" "T (k + 6) = T k"
  shows "kernel_mktime (tm_to_bin (round_tm cmos k)) = Some (int (T k))"
proof -
  have "T (k + i) = T k" if "i \<le> 6" for i
    using assms that monoD [of T k "k + i"] monoD [of T "k + i" "k + 6"] by (simp add: rtc_def)
  then have sd: "shows_date (cmos (k + i)) (T k) (cal (T k))" if "i \<le> 6" for i
    using assms(1) that by (metis rtc_def)
  obtain y mo d h m sec where d: "cal (T k) = (y, mo, d, h, m, sec)" by (cases "cal (T k)") auto
  note r = sd [unfolded shows_date_def d split_conv]
  have v: "y < 30" "mo < 12" "1 \<le> d" "d \<le> 31" "h < 24" "m < 60" "sec < 60" "epoch_seconds y mo d h m sec = T k" using r [of 0] by simp_all
  have "cmos k 0x80 = bcd sec" "cmos (k + 1) 0x82 = bcd m" "cmos (k + 2) 0x84 = bcd h" "cmos (k + 3) 0x87 = bcd d"
    "cmos (k + 4) 0x88 = bcd (mo + 1)" "cmos (k + 5) 0x89 = bcd (70 + y)"
    using r [of 0] r [of 1] r [of 2] r [of 3] r [of 4] r [of 5] by simp_all
  then have "tm_to_bin (round_tm cmos k) =
      \<lparr>tm_sec = int sec, tm_min = int m, tm_hour = int h, tm_mday = int d, tm_mon = int mo, tm_year = 70 + int y\<rparr>"
    using v by (simp add: tm_to_bin_def round_tm_def BCD_TO_BIN_bcd)
  then show ?thesis using kernel_mktime_date [of y mo d h m sec] v by simp
qed

lemma time_init_ret:
  assumes "rtc cmos T cal"
  shows "\<exists>l k. time_init cmos s = Ret () (s\<lparr>ports := ports s @ l, startup_time := int (T k)\<rparr>) \<and>
    length (ports s) \<le> k \<and> k < length (ports s) + length l \<and> length l \<le> 14"
proof -
  define f where "f = (\<lambda>(_ :: unit) s :: 'a sched_scheme. case read_clock cmos s of (t, s1, s) \<Rightarrow> Ret (if tm_sec t \<noteq> s1 then Inl () else Inr t) s)"
  define p where "p = length (ports s)"
  have T: "T k \<le> T (k + 6)" "T (k + 6) \<le> T (k + 7)" "T (k + 7) \<le> T (k + 13)" "T (k + 13) \<le> T k + 1" for k
    using assms by (auto simp: rtc_def intro: monoD)
  have sec: "BCD_TO_BIN (uint (cmos k 0x80)) = int (T k mod 60)" for k
    using assms by (intro shows_date_sec) (auto simp: rtc_def)
  have eq: "cmos k 0x80 = cmos (k + 6) 0x80 \<longleftrightarrow> T (k + 6) = T k" for k
  proof
    assume "cmos k 0x80 = cmos (k + 6) 0x80"
    then have e: "T k mod 60 = T (k + 6) mod 60" using sec [of k] sec [of "k + 6"] by simp
    have "T (k + 6) \<le> T k + 1" by (rule order_trans [OF T(2) order_trans [OF T(3) T(4)]])
    then show "T (k + 6) = T k" by (rule mod_step [OF T(1) _ e])
  next
    assume "T (k + 6) = T k"
    then have "shows_date (cmos k) (T k) (cal (T k))" "shows_date (cmos (k + 6)) (T k) (cal (T k))"
      using assms unfolding rtc_def by metis+
    then show "cmos k 0x80 = cmos (k + 6) 0x80" by (cases "cal (T k)") (simp add: shows_date_def)
  qed
  have one: "\<exists>l'. length l' = 7 \<and> f () (s\<lparr>ports := ports s @ l\<rparr>) =
      Ret (if T (p + length l + 6) = T (p + length l) then Inr (round_tm cmos (p + length l)) else Inl ()) (s\<lparr>ports := ports s @ l @ l'\<rparr>)" for l
  proof -
    obtain l' where r: "length l' = 7" "read_clock cmos (s\<lparr>ports := ports s @ l\<rparr>) =
        (round_tm cmos (p + length l), uint (cmos (p + length l + 6) 0x80), s\<lparr>ports := ports s @ l @ l'\<rparr>)"
      using read_clock_round [of cmos "s\<lparr>ports := ports s @ l\<rparr>"] by (auto simp: p_def)
    then show ?thesis using eq [of "p + length l"] by (intro exI [of _ l']) (simp add: f_def round_tm_def word_uint_eq_iff)
  qed
  have "\<exists>l k. loopO f () s = Ret (round_tm cmos k) (s\<lparr>ports := ports s @ l\<rparr>) \<and> p \<le> k \<and> k < p + length l \<and> length l \<le> 14 \<and> T (k + 6) = T k"
  proof -
    obtain l1 where l1: "length l1 = 7" "f () s = Ret (if T (p + 6) = T p then Inr (round_tm cmos p) else Inl ()) (s\<lparr>ports := ports s @ l1\<rparr>)"
      using one [of "[]"] by auto
    obtain l2 where l2: "length l2 = 7" "f () (s\<lparr>ports := ports s @ l1\<rparr>) =
        Ret (if T (p + 7 + 6) = T (p + 7) then Inr (round_tm cmos (p + 7)) else Inl ()) (s\<lparr>ports := ports s @ l1 @ l2\<rparr>)"
      using one [of l1] unfolding l1(1) by blast
    show ?thesis
    proof (cases "T (p + 6) = T p")
      case True
      then show ?thesis using l1 loopO_done [of f "()" s] by (intro exI [of _ l1] exI [of _ p]) simp
    next
      case False
      have e: "p + 7 + 6 = p + 13" by simp
      have 7: "T (p + 7 + 6) = T (p + 7)" unfolding e using False T [of p] by linarith
      have "loopO f () s = loopO f () (s\<lparr>ports := ports s @ l1\<rparr>)" by (rule loopO_again) (simp only: l1(2) False if_False)
      also have "\<dots> = Ret (round_tm cmos (p + 7)) (s\<lparr>ports := ports s @ l1 @ l2\<rparr>)" by (rule loopO_done) (simp only: l2(2) 7 simp_thms if_True)
      finally have "loopO f () s = Ret (round_tm cmos (p + 7)) (s\<lparr>ports := ports s @ l1 @ l2\<rparr>)" .
      then show ?thesis using 7 l1(1) l2(1) by (intro exI [of _ "l1 @ l2"] exI [of _ "p + 7"]) simp
    qed
  qed
  then obtain l k where q: "loopO f () s = Ret (round_tm cmos k) (s\<lparr>ports := ports s @ l\<rparr>)" "p \<le> k" "k < p + length l" "length l \<le> 14" "T (k + 6) = T k"
    by blast
  have "time_init cmos s = Ret () (s\<lparr>ports := ports s @ l, startup_time := int (T k)\<rparr>)"
    unfolding time_init_def f_def [symmetric] q(1) using mktime_round [OF assms q(5)] by simp
  then show ?thesis using q(2-4) by (auto simp: p_def)
qed

text \<open>C39: \<open>time_init\<close> with a running clock.  The loop ends after at most a few rounds, and the time the kernel starts with is the second
  the clock showed at one moment of the last round; no field belongs to an earlier or later second.\<close>

theorem time_init_moment:
  assumes "rtc cmos T cal"
  shows "\<exists>l k. time_init cmos s = Ret () (s\<lparr>ports := ports s @ l, startup_time := int (T k)\<rparr>) \<and>
    length (ports s) \<le> k \<and> k < length (ports s) + length l \<and> length l \<le> 14"
  using assms by (rule time_init_ret)

text \<open>A clock that goes from midnight to the first second of 1992 between two readings of a round.\<close>

definition demo_T :: "nat \<Rightarrow> nat" where
  "demo_T k = 694224000 + (if k < 5 then 0 else 1)"

definition demo_calendar :: "nat \<Rightarrow> nat \<times> nat \<times> nat \<times> nat \<times> nat \<times> nat" where
  "demo_calendar t = (22, 0, 1, 0, 0, t - 694224000)"

definition demo_cmos :: "nat \<Rightarrow> u8 \<Rightarrow> u8" where
  "demo_cmos k r = (if r = 0x80 then (if k < 5 then 0 else 1) else if r = 0x87 \<or> r = 0x88 then 1 else if r = 0x89 then 0x92 else 0)"

lemma demo_rtc: "rtc demo_cmos demo_T demo_calendar"
proof -
  have "days_to_year 22 = 8035" by (simp add: days_to_year_closed)
  then have "shows_date (demo_cmos k) (demo_T k) (demo_calendar (demo_T k))" for k
    by (simp add: shows_date_def demo_cmos_def demo_T_def demo_calendar_def epoch_seconds_def bcd_def)
  then show ?thesis by (simp add: rtc_def monoI demo_T_def)
qed

theorem time_init_moment_witness:
  "rtc demo_cmos demo_T demo_calendar \<and>
   (\<forall>s :: fs. \<exists>l t. time_init demo_cmos s = Ret () (s\<lparr>ports := ports s @ l, startup_time := t\<rparr>) \<and> t \<in> {694224000, 694224001})"
proof (intro conjI allI demo_rtc)
  fix s :: fs
  obtain l k where "time_init demo_cmos s = Ret () (s\<lparr>ports := ports s @ l, startup_time := int (demo_T k)\<rparr>)"
    using time_init_moment [OF demo_rtc, of s] by blast
  then show "\<exists>l t. time_init demo_cmos s = Ret () (s\<lparr>ports := ports s @ l, startup_time := t\<rparr>) \<and> t \<in> {694224000, 694224001}"
    by (intro exI [of _ l] exI [of _ "int (demo_T k)"]) (simp add: demo_T_def)
qed

section \<open>Main memory\<close>

lemma clear_map_ret:
  "0 \<le> i \<Longrightarrow> n = 0 \<or> i + int n \<le> int PAGING_PAGES \<Longrightarrow>
   clear_map n i s = Ret () (s\<lparr>mem_map := (\<lambda>j. if i \<le> int j \<and> int j < i + int n then 0 else mem_map s j)\<rparr>)"
proof (induction n arbitrary: i s)
  case (Suc n)
  have e: "(\<lambda>j. if i + 1 \<le> int j \<and> int j < i + 1 + int n then 0 else mem_map (set_map (nat i) 0 s) j) =
      (\<lambda>j. if i \<le> int j \<and> int j < i + int (Suc n) then 0 else mem_map s j)"
    using Suc.prems(1) by (intro ext) (auto simp: set_map_def)
  have "clear_map (Suc n) i s = clear_map n (i + 1) (set_map (nat i) 0 s)" using Suc.prems by simp
  also have "\<dots> = Ret () ((set_map (nat i) 0 s)\<lparr>mem_map := (\<lambda>j. if i \<le> int j \<and> int j < i + int (Suc n) then 0 else mem_map s j)\<rparr>)"
    unfolding e [symmetric] by (rule Suc.IH) (use Suc.prems in simp_all)
  finally show ?case by (simp add: set_map_def)
next
  case 0
  have "(\<lambda>j. if i \<le> int j \<and> int j < i + int 0 then 0 else mem_map s j) = mem_map s" by (intro ext) auto
  then show ?case by simp
qed

lemma mem_init_ret:
  assumes "0x100000 \<le> start" "start < 2 ^ 30" "0x100000 \<le> fin" "fin \<le> 0x1000000" "4096 dvd start" "4096 dvd fin"
  shows "mem_init start fin s = Ret () (s\<lparr>HIGH_MEMORY := of_int fin,
    mem_map := (\<lambda>i. if i < PAGING_PAGES then if start \<le> 0x100000 + 4096 * int i \<and> 0x100000 + 4096 * int i < fin then 0 else USED else mem_map s i)\<rparr>)"
proof -
  obtain a b where a: "start = 4096 * a" and b: "fin = 4096 * b" using assms(5,6) by (auto elim!: dvdE)
  have r: "256 \<le> a" "256 \<le> b" "b \<le> 4096" using assms a b by simp_all
  have i: "s32 (start - 0x100000) div 2 ^ 12 = a - 256"
    using s32_small [of "start - 0x100000"] assms(1,2) unfolding a by simp
  have n: "nat (s32 (fin - start) div 2 ^ 12) = nat (b - a)"
  proof -
    have "s32 (fin - start) = fin - start" using assms(1-4) by (intro s32_id) (simp add: in_s32_def)
    also have "\<dots> = (b - a) * 4096" by (simp add: a b)
    finally have "s32 (fin - start) div 2 ^ 12 = b - a" by simp
    then show ?thesis by (rule arg_cong)
  qed
  have "a - 256 \<le> int j \<and> int j < a - 256 + int (nat (b - a)) \<longleftrightarrow> start \<le> 0x100000 + 4096 * int j \<and> 0x100000 + 4096 * int j < fin" for j
    unfolding a b by auto
  moreover have "int j < a - 256 + int (nat (b - a)) \<Longrightarrow> a - 256 \<le> int j \<Longrightarrow> j < PAGING_PAGES" for j using r by (simp split: if_splits)
  ultimately have m: "(\<lambda>j. if a - 256 \<le> int j \<and> int j < a - 256 + int (nat (b - a)) then 0 else if j < PAGING_PAGES then USED else mem_map s j) =
      (\<lambda>i. if i < PAGING_PAGES then if start \<le> 0x100000 + 4096 * int i \<and> 0x100000 + 4096 * int i < fin then 0 else USED else mem_map s i)"
    by (intro ext) (auto split: if_splits)
  define t where "t = s\<lparr>HIGH_MEMORY := of_int fin, mem_map := (\<lambda>i. if i < PAGING_PAGES then USED else mem_map s i)\<rparr>"
  have "clear_map (nat (b - a)) (a - 256) t = Ret () (t\<lparr>mem_map := (\<lambda>j. if a - 256 \<le> int j \<and> int j < a - 256 + int (nat (b - a)) then 0 else mem_map t j)\<rparr>)"
    by (rule clear_map_ret) (use r in \<open>auto simp: nat_eq_iff\<close>)
  moreover have "mem_map t = (\<lambda>i. if i < PAGING_PAGES then USED else mem_map s i)" by (simp add: t_def)
  ultimately show ?thesis unfolding mem_init_def Let_def i n t_def [symmetric] m [symmetric] by (simp only:) (simp only: t_def, simp)
qed

section \<open>The place of the buffers\<close>

text \<open>
  A block lies below the video memory or between 1 MB and the end of the buffer.  In the loop, \<open>n\<close> heads have been made, each block lies
  below the one before it, and the last is above the heads.
\<close>

definition in_buffer :: "nat \<Rightarrow> nat \<Rightarrow> bool" where
  "in_buffer b_end a \<longleftrightarrow> a + 1024 \<le> 0xA0000 \<or> 0x100000 \<le> a \<and> a + 1024 \<le> b_end"

definition blocks_placed :: "nat \<Rightarrow> nat \<Rightarrow> nat \<Rightarrow> (nat \<Rightarrow> nat) \<Rightarrow> bool" where
  "blocks_placed heads b_end n at \<longleftrightarrow>
     (\<forall>i<n. heads \<le> at i \<and> in_buffer b_end (at i)) \<and> (\<forall>i j. i < j \<and> j < n \<longrightarrow> at j + 1024 \<le> at i)"

lemma blocks_placed_Suc:
  assumes "blocks_placed h b_end n at" "h \<le> h'" "h' \<le> a" "in_buffer b_end a" "\<And>i. i < n \<Longrightarrow> a + 1024 \<le> at i" "\<And>i. i < n \<Longrightarrow> at' i = at i" "at' n = a"
  shows "blocks_placed h' b_end (Suc n) at'"
  unfolding blocks_placed_def
proof (intro conjI allI impI)
  fix i assume "i < Suc n"
  then show "h' \<le> at' i" "in_buffer b_end (at' i)"
    using assms(1,3-7) by (auto simp: less_Suc_eq blocks_placed_def) (metis add_leD1 assms(3) order_trans)
next
  fix i j assume "i < j \<and> j < Suc n"
  then show "at' j + 1024 \<le> at' i" using assms(1,5-7) by (auto simp: less_Suc_eq blocks_placed_def)
qed

abbreviation block_at :: "fs \<Rightarrow> nat \<Rightarrow> nat" where
  "block_at s n \<equiv> unat (b_addr (buffers s n))"

lemma heads_addr:
  assumes "n \<le> 4096" "unat (start :: u32) < 0xA0000"
  shows "unat (start + 36 * (of_nat n + 1)) = unat start + 36 * (n + 1)"
proof -
  have "start + 36 * (of_nat n + 1) = of_nat (unat start + 36 * (n + 1))" by simp
  also have "unat \<dots> = unat start + 36 * (n + 1)" unfolding unat_of_nat using assms by simp
  finally show ?thesis .
qed

definition buffer_step :: "u32 \<times> nat \<Rightarrow> fs \<Rightarrow> (fs, (u32 \<times> nat) + nat) outcome" where
  "buffer_step = (\<lambda>(b, n) s.
     let b = b - 1024 in
     if b \<ge> start_buffer s + 36 * (of_nat n + 1)
     then Ret (Inl (if b = 0x100000 then 0xA0000 else b, n + 1)) ((upd_bh n (init_bh b n) s)\<lparr>nr_buffers := nr_buffers s + 1\<rparr>)
     else Ret (Inr n) s)"

definition buffer_inv :: "nat \<Rightarrow> fs \<Rightarrow> u32 \<times> nat \<Rightarrow> fs \<Rightarrow> bool" where
  "buffer_inv b_end s v t \<longleftrightarrow>
     (case v of (b, n) \<Rightarrow>
        t = s\<lparr>nr_buffers := n, buffers := buffers t\<rparr> \<and> blocks_placed (unat (start_buffer s) + 36 * n) b_end n (block_at t) \<and>
        (\<forall>i<n. unat b \<le> block_at t i) \<and> (unat b \<le> 0xA0000 \<or> 0x100000 < unat b \<and> unat b \<le> b_end) \<and> 1024 dvd unat b \<and>
        unat (start_buffer s) + 36 * n \<le> unat b \<and> unat b + 1024 * n \<le> 0x400000 \<and> (n = 0 \<longrightarrow> 0xA0000 \<le> unat b))"

lemma buffer_step_inv:
  assumes "1024 \<le> unat (start_buffer s)" "unat (start_buffer s) \<le> 0x70000" "buffer_inv b_end s (b, n) t"
  shows "\<exists>r u. buffer_step (b, n) t = Ret r u \<and>
    (case r of Inl w \<Rightarrow> buffer_inv b_end s w u \<and> unat (fst w) < unat b | Inr m \<Rightarrow> m = n \<and> 0 < n \<and> u = t)"
proof -
  note i = assms(3) [unfolded buffer_inv_def split_conv]
  have t: "t = s\<lparr>nr_buffers := n, buffers := buffers t\<rparr>" using i by simp
  have st: "start_buffer t = start_buffer s" "nr_buffers t = n" by (subst t, simp)+
  have n: "n \<le> 4095" "1024 \<le> unat b" using i assms(1) by auto
  have h: "unat (start_buffer s + 36 * (of_nat n + 1)) = unat (start_buffer s) + 36 * (n + 1)"
    using n assms(2) by (intro heads_addr) simp_all
  have b: "unat (b - 1024) = unat b - 1024" using n(2) by (simp add: unat_sub word_le_nat_alt)
  have c: "b - 1024 \<ge> start_buffer t + 36 * (of_nat n + 1) \<longleftrightarrow> unat (start_buffer s) + 36 * (n + 1) \<le> unat b - 1024"
    unfolding st word_le_nat_alt h b ..
  show ?thesis
  proof (cases "unat (start_buffer s) + 36 * (n + 1) \<le> unat b - 1024")
    case True
    define a where "a = b - 1024"
    define w where "w = (if a = 0x100000 then 0xA0000 else a)"
    define u where "u = (upd_bh n (init_bh a n) t)\<lparr>nr_buffers := nr_buffers t + 1\<rparr>"
    have a: "unat a + 1024 = unat b" using b n(2) by (simp add: a_def)
    have at: "block_at u n = unat a" "\<And>i. i < n \<Longrightarrow> block_at u i = block_at t i"
      by (simp_all add: u_def init_bh_def upd_bh_def)
    obtain q where q: "unat b = 1024 * q" using i by (auto elim: dvdE)
    have in_b: "in_buffer b_end (unat a)" using i a q unfolding in_buffer_def by auto
    have w1: "unat w \<le> unat a" "1024 dvd unat w" "unat w \<le> 0xA0000 \<or> 0x100000 < unat w \<and> unat w \<le> b_end"
      "unat (start_buffer s) + 36 * (n + 1) \<le> unat w"
    proof -
      have w: "unat w = (if unat a = 0x100000 then 0xA0000 else unat a)" by (simp add: w_def word_unat_eq_iff)
      then show "unat w \<le> unat a" by simp
      have "unat a = 1024 * (q - 1)" using a q by (simp add: right_diff_distrib')
      then show "1024 dvd unat w" unfolding w by simp
      have "unat b \<le> 0xA0000 \<or> 0x100000 < unat b \<and> unat b \<le> b_end" using i by blast
      then show "unat w \<le> 0xA0000 \<or> 0x100000 < unat w \<and> unat w \<le> b_end" unfolding w using a q by auto
      show "unat (start_buffer s) + 36 * (n + 1) \<le> unat w" unfolding w using a True n(1) assms(2) by auto
    qed
    have bp: "blocks_placed (unat (start_buffer s) + 36 * (n + 1)) b_end (Suc n) (block_at u)"
      by (rule blocks_placed_Suc [of "unat (start_buffer s) + 36 * n" b_end n "block_at t" _ "unat a"])
         (use i a at in_b True in \<open>auto simp: init_bh_def\<close>)
    have "buffer_inv b_end s (w, n + 1) u"
      unfolding buffer_inv_def split_conv
    proof (intro conjI)
      show "u = s\<lparr>nr_buffers := n + 1, buffers := buffers u\<rparr>" unfolding u_def st upd_bh_def by (subst (1) t) simp
      show "\<forall>i<n + 1. unat w \<le> block_at u i" using i a at w1(1) by (auto simp: less_Suc_eq)
      show "unat w + 1024 * (n + 1) \<le> 0x400000" using i a w1(1) by auto
    qed (use bp w1 in simp_all)
    moreover have "buffer_step (b, n) t = Ret (Inl (w, n + 1)) u"
      unfolding buffer_step_def split_conv Let_def using True c by (simp add: a_def w_def u_def)
    ultimately show ?thesis using w1(1) a by (intro exI [of _ "Inl (w, n + 1)"] exI [of _ u]) simp
  next
    case False
    then have "buffer_step (b, n) t = Ret (Inr n) t" unfolding buffer_step_def split_conv Let_def using c by simp
    moreover have "0 < n" using False i assms(2) by (cases n) auto
    ultimately show ?thesis by (intro exI [of _ "Inr n"] exI [of _ t]) simp
  qed
qed

lemma buffer_init_layout:
  assumes "1024 \<le> unat (start_buffer s)" "unat (start_buffer s) \<le> 0x70000" "nr_buffers s = 0" "b_end \<in> {0x100000, 0x200000, 0x400000}"
  shows "\<exists>t. buffer_init b_end s = Ret () t \<and> 0 < nr_buffers t \<and> nr_buffers t \<le> 4096 \<and>
    blocks_placed (unat (start_buffer s) + 36 * nr_buffers t) (unat b_end) (nr_buffers t) (block_at t) \<and>
    t = s\<lparr>nr_buffers := nr_buffers t, buffers := buffers t, free_list := free_list t, hash_table := hash_table t\<rparr>"
proof -
  define b0 where "b0 = (if b_end = 0x100000 then 640 * 1024 else b_end)"
  have "buffer_inv (unat b_end) s (b0, 0) s"
    using assms by (auto simp: buffer_inv_def blocks_placed_def b0_def)
  then have "\<exists>n t. loopO buffer_step (b0, 0) s = Ret n t \<and> 0 < n \<and> (\<exists>b. buffer_inv (unat b_end) s (b, n) t)"
  proof (rule loopO_total [where m = "\<lambda>v _. unat (fst v)" and I = "buffer_inv (unat b_end) s"])
    fix v t assume i: "buffer_inv (unat b_end) s v t"
    obtain b n where v: "v = (b, n)" by force
    obtain r u where r: "buffer_step (b, n) t = Ret r u"
        "case r of Inl w \<Rightarrow> buffer_inv (unat b_end) s w u \<and> unat (fst w) < unat b | Inr m \<Rightarrow> m = n \<and> 0 < n \<and> u = t"
      using buffer_step_inv [OF assms(1,2) i [unfolded v]] by blast
    then show "\<exists>r u. buffer_step v t = Ret r u \<and> (case r of Inl w \<Rightarrow> buffer_inv (unat b_end) s w u \<and> unat (fst w) < unat (fst v)
        | Inr n \<Rightarrow> 0 < n \<and> (\<exists>b. buffer_inv (unat b_end) s (b, n) u))"
      using i unfolding v by (intro exI [of _ r] exI [of _ u]) (auto split: sum.splits)
  qed
  then obtain n t b where l: "loopO buffer_step (b0, 0) s = Ret n t" "0 < n" "buffer_inv (unat b_end) s (b, n) t" by blast
  define s1 where "s1 = upd_bh (n - 1) (\<lambda>h. h\<lparr>b_next_free := Some 0\<rparr>) (upd_bh 0 (\<lambda>h. h\<lparr>b_prev_free := Some (n - 1)\<rparr>) (t\<lparr>free_list := Some 0\<rparr>))"
  define u where "u = s1\<lparr>hash_table := (\<lambda>k. if k < NR_HASH then None else hash_table s1 k)\<rparr>"
  have r: "buffer_init b_end s = Ret () u"
    unfolding u_def s1_def buffer_init_def buffer_step_def [symmetric] b0_def [symmetric] l(1)
    by (simp only: bindO.simps Let_def if_not_P [OF less_not_refl2 [OF l(2)]])
  have t: "t = s\<lparr>nr_buffers := n, buffers := buffers t\<rparr>" using l(3) by (simp add: buffer_inv_def)
  have "block_at u = block_at t" by (auto simp: u_def s1_def upd_bh_def)
  moreover have "nr_buffers u = n" unfolding u_def s1_def upd_bh_def by (subst t) simp
  moreover have "u = s\<lparr>nr_buffers := n, buffers := buffers u, free_list := free_list u, hash_table := hash_table u\<rparr>"
    unfolding u_def s1_def upd_bh_def by (subst (1) t) simp
  ultimately show ?thesis using r l(2,3) by (intro exI [of _ u]) (simp add: buffer_inv_def)
qed

section \<open>Booting as a whole\<close>

text \<open>What the other initialisation routines leave alone.\<close>

definition boot_same :: "fs \<Rightarrow> fs \<Rightarrow> bool" where
  "boot_same s t \<longleftrightarrow> mem_map t = mem_map s \<and> start_buffer t = start_buffer s \<and> nr_buffers t = nr_buffers s \<and> buffers t = buffers s \<and>
     startup_time t = startup_time s \<and> rd_start t = rd_start s \<and> rd_length t = rd_length s"

lemma boot_same_trans: "boot_same s t \<Longrightarrow> boot_same t u \<Longrightarrow> boot_same s u"
  by (simp add: boot_same_def)

lemma boot_same_init:
  "boot_same s (sched_init s)" "boot_same s (hd_init s)" "boot_same s (floppy_init s)" "boot_same s (blk_dev_init s)"
  "boot_same s (trap_ports s)" "boot_same s (tty_init video s)"
  by (simp_all add: boot_same_def sched_init_def hd_init_def floppy_init_def blk_dev_init_def trap_ports_def tty_init_def con_init_def
      rs_init_def rs_init_port_def outb_def upd_con_def set_tss_desc_def set_ldt_desc_def Let_def)

lemma boot_same_drive_info: "boot_same s (copy_drive_info info s)"
proof -
  have p: "mem_map (put_pbyte v a s) = mem_map s" "start_buffer (put_pbyte v a s) = start_buffer s" "nr_buffers (put_pbyte v a s) = nr_buffers s"
    "buffers (put_pbyte v a s) = buffers s" "startup_time (put_pbyte v a s) = startup_time s" "rd_start (put_pbyte v a s) = rd_start s"
    "rd_length (put_pbyte v a s) = rd_length s" for v a and s :: fs
    by (simp_all add: put_pbyte_def poke_def Let_def)
  have "boot_same s (fold (\<lambda>i s. put_pbyte (get_pbyte (0x90080 + of_nat i) s) (info + of_nat i) s) xs s)" for xs
    by (induction xs arbitrary: s) (simp_all add: boot_same_def p)
  then show ?thesis unfolding copy_drive_info_def .
qed

lemma int_page_mask: "(i :: int) AND 0xfffff000 = (i div 4096) mod 2 ^ 20 * 4096"
proof -
  have "(0xfffff000 :: int) = push_bit 12 (mask 20)" by (simp add: mask_eq_exp_minus_1 push_bit_eq_mult)
  moreover have "i AND push_bit 12 (mask 20) = push_bit 12 (take_bit 20 (drop_bit 12 i))"
    by (rule bit_eqI) (auto simp: bit_simps)
  ultimately show ?thesis by (simp add: push_bit_eq_mult take_bit_eq_mod drop_bit_eq_div)
qed

lemma memory_end_props:
  "0x100000 \<le> memory_end k" "memory_end k \<le> 0x1000000" "4096 dvd memory_end k" "buffer_memory_end (memory_end k) \<le> memory_end k"
  "buffer_memory_end (memory_end k) \<in> {0x100000, 0x200000, 0x400000}"
proof -
  define m where "m = (2 ^ 20 + uint k * 2 ^ 10) AND 0xfffff000"
  have u: "0 \<le> uint k" "uint k < 2 ^ 16" using unsigned_less [of k] by simp_all
  have d: "m = (2 ^ 20 + uint k * 2 ^ 10) div 4096 * 4096"
  proof -
    have "0 \<le> (2 ^ 20 + uint k * 2 ^ 10) div 4096" using u(1) by (simp add: pos_imp_zdiv_nonneg_iff del: uint_ge_0)
    moreover have "(2 ^ 20 + uint k * 2 ^ 10) div 4096 < 2 ^ 20" using u(2) by simp
    ultimately show ?thesis unfolding m_def int_page_mask by (subst mod_pos_pos_trivial) simp_all
  qed
  have "(0x100000 :: int) div 4096 \<le> (2 ^ 20 + uint k * 2 ^ 10) div 4096" by (rule zdiv_mono1) simp_all
  then have m: "0x100000 \<le> m" "4096 dvd m" unfolding d by simp_all
  have e: "memory_end k = (if m > 0x1000000 then 0x1000000 else m)" by (simp add: memory_end_def m_def)
  show "0x100000 \<le> memory_end k" "memory_end k \<le> 0x1000000" "4096 dvd memory_end k" using m unfolding e by simp_all
  then show "buffer_memory_end (memory_end k) \<le> memory_end k" "buffer_memory_end (memory_end k) \<in> {0x100000, 0x200000, 0x400000}"
    by (simp_all add: buffer_memory_end_def)
qed

lemma place_ramdisk_same:
  assumes "0x100000 \<le> start" "start \<le> 0x400000" "\<And>kb. RAMDISK = Some kb \<Longrightarrow> kb \<le> 16384"
  shows "\<exists>t. place_ramdisk RAMDISK start s = (start + 1024 * int (case RAMDISK of None \<Rightarrow> 0 | Some kb \<Rightarrow> kb), t) \<and>
    mem_map t = mem_map s \<and> start_buffer t = start_buffer s \<and> nr_buffers t = nr_buffers s \<and> buffers t = buffers s \<and>
    (\<forall>kb. RAMDISK = Some kb \<longrightarrow> unat (rd_start t) = nat start \<and> unat (rd_length t) = 1024 * kb)"
proof (cases RAMDISK)
  case (Some kb)
  have kb: "kb * 1024 < 2 ^ 31" using assms(3) [OF Some] by simp
  have "unat (of_nat n :: u32) = n" "sint (of_nat n :: u32) = int n" if "n < 2 ^ 31" for n
    using that unfolding unat_of_nat signed_of_nat by (simp_all add: signed_take_bit_int_eq_self)
  note n = this [OF kb]
  have "uint (of_int start :: u32) = start" using assms(1,2) unfolding unsigned_of_int by (simp add: take_bit_int_eq_self)
  then have "unat (of_int start :: u32) = nat start" by (simp add: nat_uint_eq [symmetric] del: nat_uint_eq)
  then show ?thesis using Some n by (simp add: place_ramdisk_def rd_init_def mult.commute del: of_nat_mult)
qed (simp add: place_ramdisk_def)

definition free_bytes :: "'z mm_scheme \<Rightarrow> nat set" where
  "free_bytes s = {a. \<exists>i<PAGING_PAGES. mem_map s i = 0 \<and> 0x100000 + 4096 * i \<le> a \<and> a < 0x100000 + 4096 * (i + 1)}"

definition cache_bytes :: "fs \<Rightarrow> nat set" where
  "cache_bytes s = {unat (start_buffer s) ..< unat (start_buffer s) + 36 * nr_buffers s} \<union>
     (\<Union>i<nr_buffers s. {block_at s i ..< block_at s i + 1024})"

definition disk_bytes :: "nat option \<Rightarrow> fs \<Rightarrow> nat set" where
  "disk_bytes RAMDISK s =
     (if RAMDISK = None then {} else {unat (rd_start s) ..< unat (rd_start s) + unat (rd_length s)})"

lemma free_bytes_init:
  assumes "mem_map t = (\<lambda>i. if i < PAGING_PAGES then if start \<le> 0x100000 + 4096 * int i \<and> 0x100000 + 4096 * int i < fin then 0 else USED else m i)"
    "0x100000 \<le> start" "4096 dvd start" "4096 dvd fin" "fin \<le> 0x1000000" "0 \<le> fin"
  shows "free_bytes t = {nat start ..< nat fin}"
proof -
  obtain p q where p: "start = 4096 * p" and q: "fin = 4096 * q" using assms(3,4) by (auto elim!: dvdE)
  have r: "256 \<le> p" "q \<le> 4096" using assms(2,5) p q by simp_all
  have "a \<in> free_bytes t \<longleftrightarrow> start \<le> int a \<and> int a < fin" for a
  proof
    assume "a \<in> free_bytes t"
    then obtain i where i: "i < PAGING_PAGES" "start \<le> 0x100000 + 4096 * int i" "0x100000 + 4096 * int i < fin" "0x100000 + 4096 * i \<le> a" "a < 0x100000 + 4096 * (i + 1)"
      by (auto simp: free_bytes_def assms(1) split: if_splits)
    have "257 + int i \<le> q" using i(3) q by simp
    then have "4096 * (257 + int i) \<le> fin" unfolding q by simp
    moreover have "int a < 4096 * (257 + int i)" using i(5) by simp
    ultimately have "int a < fin" by (rule order.strict_trans2 [rotated])
    moreover have "start \<le> int a" using i(2,4) by linarith
    ultimately show "start \<le> int a \<and> int a < fin" by simp
  next
    assume a: "start \<le> int a \<and> int a < fin"
    define i where "i = a div 4096 - 256"
    have "4096 * (a div 4096) \<le> a" "a < 4096 * (a div 4096) + 4096" by simp_all
    moreover have "256 \<le> a div 4096" proof -
      have "0x100000 div 4096 \<le> a div 4096" by (rule div_le_mono) (use a assms(2) in linarith)
      then show ?thesis by simp
    qed
    ultimately have i: "0x100000 + 4096 * i \<le> a" "a < 0x100000 + 4096 * (i + 1)" unfolding i_def by simp_all
    moreover have "start \<le> 0x100000 + 4096 * int i"
    proof -
      have "int a < 4096 * (257 + int i)" using i(2) by simp
      then have "4096 * p < 4096 * (257 + int i)" using a [THEN conjunct1] unfolding p by (rule order.strict_trans1 [rotated])
      then have "p \<le> 256 + int i" by simp
      then show ?thesis unfolding p by simp
    qed
    moreover have "0x100000 + 4096 * int i < fin" using a i(1) by simp
    moreover have "i < PAGING_PAGES" using a i assms(5) by simp
    ultimately show "a \<in> free_bytes t" unfolding free_bytes_def assms(1) by auto
  qed
  then show ?thesis by (intro set_eqI) (simp only: atLeastLessThan_iff nat_le_iff zless_nat_eq_int_zless)
qed

lemma free_page_bytes:
  assumes "fst (get_free_page t) \<noteq> 0"
  shows "{unat (fst (get_free_page t)) ..< unat (fst (get_free_page t)) + 4096} \<subseteq> free_bytes t"
proof (cases rule: get_free_page_cases [of t])
  case (page n)
  then have "unat (pg n) = 0x100000 + 4096 * n" by (simp add: unat_pg)
  then show ?thesis using page by (auto simp: free_bytes_def)
qed (use assms in simp)

lemma cache_in_buffer:
  assumes "blocks_placed (unat (start_buffer t) + 36 * nr_buffers t) b_end (nr_buffers t) (block_at t)"
    "unat (start_buffer t) + 36 * nr_buffers t \<le> 0xA0000" "0x100000 \<le> b_end"
  shows "cache_bytes t \<subseteq> {a. a < 0xA0000 \<or> 0x100000 \<le> a} \<inter> {..<b_end}"
  using assms by (fastforce simp: cache_bytes_def blocks_placed_def in_buffer_def)

text \<open>The part of \<open>main\<close> behind \<open>mem_init\<close>.\<close>

lemma boot_rest:
  assumes "rtc cmos T cal" "nr_buffers s = 0" "1024 \<le> unat (start_buffer s)" "unat (start_buffer s) \<le> 0x70000" "b_end \<in> {0x100000, 0x200000, 0x400000}"
  shows "\<exists>t k. bindO (time_init cmos (tty_init video (blk_dev_init (trap_ports s)))) (\<lambda>_ s.
      bindO (buffer_init (of_int b_end) (sched_init s)) (\<lambda>_ s. Ret () (floppy_init (hd_init s)))) = Ret () t \<and>
    mem_map t = mem_map s \<and> start_buffer t = start_buffer s \<and> startup_time t = int (T k) \<and> rd_start t = rd_start s \<and> rd_length t = rd_length s \<and>
    0 < nr_buffers t \<and> nr_buffers t \<le> 4096 \<and> blocks_placed (unat (start_buffer s) + 36 * nr_buffers t) (nat b_end) (nr_buffers t) (block_at t)"
proof -
  define s3 where "s3 = tty_init video (blk_dev_init (trap_ports s))"
  have b3: "boot_same s s3" unfolding s3_def by (rule boot_same_trans [OF boot_same_trans [OF boot_same_init(5) boot_same_init(4)] boot_same_init(6)])
  obtain l k where s4: "time_init cmos s3 = Ret () (s3\<lparr>ports := ports s3 @ l, startup_time := int (T k)\<rparr>)"
    using time_init_ret [OF assms(1)] by blast
  define s5 where "s5 = sched_init (s3\<lparr>ports := ports s3 @ l, startup_time := int (T k)\<rparr>)"
  have s5: "mem_map s5 = mem_map s" "start_buffer s5 = start_buffer s" "nr_buffers s5 = 0" "rd_start s5 = rd_start s" "rd_length s5 = rd_length s" "startup_time s5 = int (T k)"
    using boot_same_init(1) [of "s3\<lparr>ports := ports s3 @ l, startup_time := int (T k)\<rparr>"] b3 assms(2) by (simp_all add: boot_same_def s5_def)
  have e: "(of_int b_end :: u32) \<in> {0x100000, 0x200000, 0x400000}" "unat (of_int b_end :: u32) = nat b_end" using assms(5) by auto
  obtain s6 where s6: "buffer_init (of_int b_end) s5 = Ret () s6" "0 < nr_buffers s6" "nr_buffers s6 \<le> 4096"
    "blocks_placed (unat (start_buffer s) + 36 * nr_buffers s6) (nat b_end) (nr_buffers s6) (block_at s6)"
    "s6 = s5\<lparr>nr_buffers := nr_buffers s6, buffers := buffers s6, free_list := free_list s6, hash_table := hash_table s6\<rparr>"
    using buffer_init_layout [of s5 "of_int b_end", unfolded s5(2,3) e(2), OF assms(3,4) refl e(1)] by blast
  define t where "t = floppy_init (hd_init s6)"
  have t: "boot_same s6 t" unfolding t_def by (rule boot_same_trans [OF boot_same_init(2,3)])
  have "mem_map s6 = mem_map s5" "start_buffer s6 = start_buffer s5" "startup_time s6 = startup_time s5" "rd_start s6 = rd_start s5" "rd_length s6 = rd_length s5"
    by (subst s6(5), simp)+
  then have "mem_map t = mem_map s" "start_buffer t = start_buffer s" "startup_time t = int (T k)" "rd_start t = rd_start s" "rd_length t = rd_length s"
    "nr_buffers t = nr_buffers s6" "buffers t = buffers s6"
    using t s5 by (simp_all add: boot_same_def)
  moreover have "bindO (time_init cmos s3) (\<lambda>_ s. bindO (buffer_init (of_int b_end) (sched_init s)) (\<lambda>_ s. Ret () (floppy_init (hd_init s)))) = Ret () t"
    unfolding s4 bindO.simps s5_def [symmetric] s6(1) t_def ..
  ultimately show ?thesis using s6(2-4) unfolding s3_def by (intro exI [of _ t] exI [of _ k]) simp
qed

text \<open>C38: Booting divides the memory.  With a RAM disk of a multiple of 4 kB, or none, and a running clock the initialisation routines all
  return, and the time is one the clock has shown.
  The heads and the blocks of the buffer cache, the RAM disk and the pages of main memory then share no byte, nor do two blocks, and
  the cache keeps clear of the video memory.  All memory between the RAM disk and the end of memory is free, and \<open>get_free_page\<close> takes its pages there.\<close>

theorem main_memory_partition:
  assumes "rtc cmos T cal" "nr_buffers s = 0" "1024 \<le> unat (start_buffer s)" "unat (start_buffer s) \<le> 0x70000"
    "\<forall>kb. RAMDISK = Some kb \<longrightarrow> 4 dvd kb \<and> kb \<le> 16384"
  shows "\<exists>t k. kernel_main cmos video RAMDISK info s = Ret () t \<and> startup_time t = int (T k) \<and> 0 < nr_buffers t \<and>
    (let m_end = memory_end (EXT_MEM_K (boot_params info s)); b_end = buffer_memory_end m_end;
         size = (case RAMDISK of None \<Rightarrow> 0 | Some kb \<Rightarrow> 1024 * kb) in
     cache_bytes t \<subseteq> {a. a < 0xA0000 \<or> 0x100000 \<le> a} \<inter> {..<nat b_end} \<and>
     disk_bytes RAMDISK t = {nat b_end ..< nat b_end + size} \<and> free_bytes t = {nat b_end + size ..< nat m_end} \<and>
     (\<forall>i j. i < j \<and> j < nr_buffers t \<longrightarrow> block_at t j + 1024 \<le> block_at t i) \<and>
     (\<forall>i<nr_buffers t. unat (start_buffer t) + 36 * nr_buffers t \<le> block_at t i) \<and>
     (fst (get_free_page t) \<noteq> 0 \<longrightarrow> {unat (fst (get_free_page t)) ..< unat (fst (get_free_page t)) + 4096} \<subseteq> free_bytes t))"
proof -
  define s0 where "s0 = boot_params info s"
  define m_end where "m_end = memory_end (EXT_MEM_K s0)"
  define b_end where "b_end = buffer_memory_end m_end"
  define kb where "kb = (case RAMDISK of None \<Rightarrow> 0 | Some kb \<Rightarrow> kb)"
  have m: "0x100000 \<le> m_end" "m_end \<le> 0x1000000" "4096 dvd m_end" "b_end \<in> {0x100000, 0x200000, 0x400000}"
    unfolding m_end_def b_end_def by (rule memory_end_props)+
  have kb: "4 dvd kb" "kb \<le> 16384" using assms(5) by (auto simp: kb_def split: option.splits)
  have s0: "start_buffer s0 = start_buffer s" "nr_buffers s0 = 0"
    using boot_same_drive_info [of "s\<lparr>ROOT_DEV := ucast (ORIG_ROOT_DEV s)\<rparr>" info] assms(2) by (simp_all add: s0_def boot_params_def boot_same_def)
  obtain s1 where s1: "place_ramdisk RAMDISK b_end s0 = (b_end + 1024 * int kb, s1)" "start_buffer s1 = start_buffer s" "nr_buffers s1 = 0"
    "\<forall>kb. RAMDISK = Some kb \<longrightarrow> unat (rd_start s1) = nat b_end \<and> unat (rd_length s1) = 1024 * kb"
    using place_ramdisk_same [of b_end RAMDISK s0] m(4) assms(5) s0 unfolding kb_def by auto
  define start where "start = b_end + 1024 * int kb"
  obtain c where c: "kb = 4 * c" using kb(1) by (elim dvdE)
  have st: "0x100000 \<le> start" "start < 2 ^ 30" "4096 dvd start" using m(4) kb(2) unfolding start_def c by auto
  obtain s2 where s2: "mem_init start m_end s1 = Ret () s2" "start_buffer s2 = start_buffer s" "nr_buffers s2 = 0" "rd_start s2 = rd_start s1" "rd_length s2 = rd_length s1"
    "mem_map s2 = (\<lambda>i. if i < PAGING_PAGES then if start \<le> 0x100000 + 4096 * int i \<and> 0x100000 + 4096 * int i < m_end then 0 else USED else mem_map s1 i)"
    using mem_init_ret [OF st(1,2) m(1,2) st(3) m(3), of s1] s1 by simp
  obtain t k where t: "bindO (time_init cmos (tty_init video (blk_dev_init (trap_ports s2)))) (\<lambda>_ s.
      bindO (buffer_init (of_int b_end) (sched_init s)) (\<lambda>_ s. Ret () (floppy_init (hd_init s)))) = Ret () t"
    "mem_map t = mem_map s2" "start_buffer t = start_buffer s" "startup_time t = int (T k)" "rd_start t = rd_start s1" "rd_length t = rd_length s1"
    "0 < nr_buffers t" "nr_buffers t \<le> 4096" "blocks_placed (unat (start_buffer t) + 36 * nr_buffers t) (nat b_end) (nr_buffers t) (block_at t)"
    using boot_rest [OF assms(1), of s2 b_end video] assms(3,4) s2 m(4) by auto
  have run: "kernel_main cmos video RAMDISK info s = Ret () t"
    unfolding kernel_main_def Let_def s0_def [symmetric] m_end_def [symmetric] b_end_def [symmetric] s1(1) split_conv start_def [symmetric] s2(1) bindO.simps
    by (rule t(1))
  have few: "unat (start_buffer t) + 36 * nr_buffers t \<le> 0xA0000" using t(3,8) assms(4) by simp
  have size: "(case RAMDISK of None \<Rightarrow> 0 | Some kb \<Rightarrow> 1024 * kb) = 1024 * kb" by (simp add: kb_def split: option.split)
  have free: "free_bytes t = {nat b_end + 1024 * kb ..< nat m_end}"
  proof -
    have "free_bytes t = {nat start ..< nat m_end}"
      by (rule free_bytes_init [of t start m_end "mem_map s1"]) (use t(2) s2(6) st m in simp_all)
    moreover have "nat start = nat b_end + 1024 * kb" using m(4) unfolding start_def by auto
    ultimately show ?thesis by simp
  qed
  have disk: "disk_bytes RAMDISK t = {nat b_end ..< nat b_end + 1024 * kb}"
    using s1(4) t(5,6) by (cases RAMDISK) (simp_all add: disk_bytes_def kb_def)
  have cache: "cache_bytes t \<subseteq> {a. a < 0xA0000 \<or> 0x100000 \<le> a} \<inter> {..<nat b_end}"
    by (rule cache_in_buffer [OF t(9) few]) (use m(4) in auto)
  show ?thesis
    by (rule exI [of _ t], rule exI [of _ k], unfold s0_def [symmetric] m_end_def [symmetric] Let_def b_end_def [symmetric] size, intro conjI)
       (use run t(4,7,9) cache disk free free_page_bytes [of t] in \<open>simp_all add: blocks_placed_def\<close>)
qed

definition demo_machine :: fs where
  "demo_machine = (undefined :: fs)\<lparr>start_buffer := 0x20000, nr_buffers := 0\<rparr>"

lemma ranges_apart:
  fixes c d f :: "nat set"
  assumes "c \<subseteq> {..<b}" "d = {b ..< b + 1024 * 512}" "f = {b + 1024 * 512 ..< m}"
  shows "c \<inter> f = {} \<and> c \<inter> d = {} \<and> d \<inter> f = {} \<and> d \<noteq> {}"
  using assms(1) unfolding assms(2,3) by auto

theorem main_memory_partition_witness:
  "\<exists>t. kernel_main demo_cmos undefined (Some 512) 0x1000 demo_machine = Ret () t \<and> startup_time t \<in> {694224000, 694224001} \<and>
     cache_bytes t \<inter> free_bytes t = {} \<and> cache_bytes t \<inter> disk_bytes (Some 512) t = {} \<and> disk_bytes (Some 512) t \<inter> free_bytes t = {} \<and>
     disk_bytes (Some 512) t \<noteq> {}"
proof -
  have h: "nr_buffers demo_machine = 0" "1024 \<le> unat (start_buffer demo_machine)" "unat (start_buffer demo_machine) \<le> 0x70000"
    by (simp_all add: demo_machine_def)
  obtain t k where t: "kernel_main demo_cmos undefined (Some 512) 0x1000 demo_machine = Ret () t" "startup_time t = int (demo_T k)"
    "cache_bytes t \<subseteq> {..<nat (buffer_memory_end (memory_end (EXT_MEM_K (boot_params 0x1000 demo_machine))))}"
    "disk_bytes (Some 512) t = {nat (buffer_memory_end (memory_end (EXT_MEM_K (boot_params 0x1000 demo_machine)))) ..<
        nat (buffer_memory_end (memory_end (EXT_MEM_K (boot_params 0x1000 demo_machine)))) + 1024 * 512}"
    "free_bytes t = {nat (buffer_memory_end (memory_end (EXT_MEM_K (boot_params 0x1000 demo_machine)))) + 1024 * 512 ..<
        nat (memory_end (EXT_MEM_K (boot_params 0x1000 demo_machine)))}"
    using main_memory_partition [OF demo_rtc h, of "Some 512" undefined "0x1000"] unfolding Let_def by auto
  have "startup_time t \<in> {694224000, 694224001}" unfolding t(2) by (simp add: demo_T_def)
  then show ?thesis using t(1) ranges_apart [OF t(3-5)] by blast
qed

end
