(* ===== verification/Entry.thy ===== *)
theory Entry
  imports Traps Exec Floppy
begin

unbundle bit_operations_syntax

text \<open>
  The entries into the kernel: \<open>src/kernel/system_call.s\<close>, the entries of \<open>src/kernel/asm.s\<close>, and the table of system calls of
  \<open>src/include/linux/sys.h\<close>.  The frame an entry leaves on the stack of the task is the registers of the program, \<open>user_regs\<close>; what the routines change
  in it is what the program finds when it goes on.

  Where \<open>do_signal\<close> ends the task, \<open>do_exit\<close> is called with the code it gives.
\<close>

record user_regs = saved_regs +
  r_eax :: u32

section \<open>System calls\<close>

definition sys_fork :: "kenv \<Rightarrow> saved_regs \<Rightarrow> fs \<Rightarrow> (fs, int) outcome" where
  "sys_fork E regs s = bindO (find_empty_process s) (\<lambda>nr s. if nr < 0 then Ret nr s else copy_process (nat nr) regs s)"

text \<open>\<open>execve\<close> is given the address of the program counter in the frame: the longs from there are \<open>eip\<close>, \<open>cs\<close>, \<open>eflags\<close>, \<open>esp\<close>, \<open>ss\<close>.\<close>

definition eip_array :: "user_regs \<Rightarrow> nat \<Rightarrow> u32" where
  "eip_array r k = [r_eip r, r_cs r, r_eflags r, r_esp r, r_ss r] ! k"

definition sys_execve :: "kenv \<Rightarrow> (nat \<Rightarrow> u32 \<Rightarrow> u8) \<Rightarrow> user_regs \<Rightarrow> fs \<Rightarrow> (fs, int \<times> user_regs) outcome" where
  "sys_execve E img r s =
     bindO (do_execve E img (eip_array r) (r_ebx r) (r_ecx r) (r_edx r) s) (\<lambda>(v, a) s.
     Ret (v, r\<lparr>r_eip := a 0, r_esp := a 3\<rparr>) s)"

text \<open>
  The table: each call takes its arguments from \<open>ebx\<close>, \<open>ecx\<close> and \<open>edx\<close> in the type C declares, and leaves the frame alone, except
  \<open>execve\<close>.  \<open>junk\<close> is the uninitialised part of the structure \<open>stat\<close> and \<open>img\<close> the bytes of executable files that page faults bring in.
\<close>

definition plain :: "user_regs \<Rightarrow> (fs, int) outcome \<Rightarrow> (fs, int \<times> user_regs) outcome" where
  "plain r m = bindO m (\<lambda>v s. Ret (v, r) s)"

definition sys_call_table :: "kenv \<Rightarrow> (nat \<Rightarrow> u8) \<Rightarrow> (nat \<Rightarrow> u32 \<Rightarrow> u8) \<Rightarrow> user_regs \<Rightarrow> (fs \<Rightarrow> (fs, int \<times> user_regs) outcome) list" where
  "sys_call_table E junk img r =
     (let b = r_ebx r; c = r_ecx r; d = r_edx r;
          bi = sint b; ci = sint c; di = sint d; bn = unat b; cn = unat c;
          call = (\<lambda>f s. plain r (f s));
          step = (\<lambda>f s. plain r (case f s of (v, s) \<Rightarrow> Ret v s));
          query = (\<lambda>f s. plain r (Ret (f s) s));
          none = (\<lambda>s. plain r (Ret not_implemented s))
      in [call (sys_setup E b), (\<lambda>s. plain r (bindO (sys_exit E bi s) (\<lambda>_ s. Ret 0 s))), call (sys_fork E (saved_regs.truncate r)), call (sys_read E bn c di),
          call (sys_write E bn c di), call (sys_open E b c d), call (sys_close E bn), call (sys_waitpid E bi c d), call (sys_creat E b c), call (sys_link E b c),
          call (sys_unlink E b), sys_execve E img r, call (sys_chdir E b), call (sys_time b), call (sys_mknod E b c d), call (sys_chmod E b c),
          call (sys_chown E b c d), none, call (sys_stat E junk b c), step (sys_lseek bn ci di), query sys_getpid, call (sys_mount E b c),
          call (sys_umount E b), step (sys_setuid bi), query sys_getuid, step (sys_stime b), none, step (sys_alarm bi),
          call (sys_fstat junk bn c), call (sys_pause (k_env E)), call (sys_utime E b c), none, none, call (sys_access E b c),
          step (sys_nice bi), none, call (sys_sync E), step (sys_kill bi ci), none, call (sys_mkdir E b c),
          call (sys_rmdir E b), step (sys_dup bn), call (sys_pipe E b), call (sys_times b), none, step (sys_brk b), step (sys_setgid bi),
          query sys_getgid, step (sys_signal bi c d), query sys_geteuid, query sys_getegid, none, none,
          none, call (sys_ioctl bn c d), step (sys_fcntl bn cn d), none, step (sys_setpgid bi ci), none,
          call (sys_uname b), step (sys_umask b), call (sys_chroot E b), none, call (sys_dup2 E bn cn), query sys_getppid,
          query sys_getpgrp, step sys_setsid, call (sys_sigaction bi c d), query sys_sgetmask, step (sys_ssetmask b),
          step (sys_setreuid bi ci), step (sys_setregid bi ci)])"

section \<open>The way back\<close>

text \<open>Signals are delivered to programs only: not to task 0, nor when kernel code was interrupted.\<close>

definition frame_of :: "user_regs \<Rightarrow> trapframe" where
  "frame_of r = \<lparr>f_eax = r_eax r, f_ecx = r_ecx r, f_edx = r_edx r, f_eip = r_eip r, f_eflags = r_eflags r, f_esp = r_esp r\<rparr>"

definition deliver :: "kenv \<Rightarrow> nat \<Rightarrow> user_regs \<Rightarrow> fs \<Rightarrow> (fs, user_regs) outcome" where
  "deliver E signr r s =
     (case do_signal signr (frame_of r) s of
        Ret fr t \<Rightarrow> Ret (r\<lparr>r_eip := f_eip fr, r_esp := f_esp fr\<rparr>) t
      | Exits code t \<Rightarrow> bindO (do_exit E code t) (\<lambda>_ t. Ret r t)
      | Panic m \<Rightarrow> Panic m
      | Undefined m \<Rightarrow> Undefined m
      | Blocked \<Rightarrow> Blocked)"

definition ret_from_sys_call :: "kenv \<Rightarrow> user_regs \<Rightarrow> fs \<Rightarrow> (fs, user_regs) outcome" where
  "ret_from_sys_call E r s =
     (if current s = task s 0 \<or> r_cs r AND 0xffff \<noteq> 0x0f \<or> r_ss r AND 0xffff \<noteq> 0x17 then Ret r s
      else case bsfl (NOT (blocked (cur s)) AND signal (cur s)) of
             None \<Rightarrow> Ret r s
           | Some j \<Rightarrow> deliver E (j + 1) r (upd_cur (\<lambda>t. t\<lparr>signal := unset_bit j (signal t)\<rparr>) s))"

text \<open>The number of a call is compared without sign.\<close>

definition system_call :: "kenv \<Rightarrow> (nat \<Rightarrow> u8) \<Rightarrow> (nat \<Rightarrow> u32 \<Rightarrow> u8) \<Rightarrow> user_regs \<Rightarrow> fs \<Rightarrow> (fs, user_regs) outcome" where
  "system_call E junk img r s =
     (if r_eax r > 71 then Ret (r\<lparr>r_eax := - 1\<rparr>) s
      else bindO ((sys_call_table E junk img r ! unat (r_eax r)) s) (\<lambda>(v, r) s.
           bindO (if state (cur s) \<noteq> 0 \<or> counter (cur s) = 0 then schedule (k_env E) s else Ret () s) (\<lambda>_ s.
           ret_from_sys_call E (r\<lparr>r_eax := of_int v\<rparr>) s)))"

text \<open>What a program's stub for a system call (\<open>_syscall0\<close>, \<open>unistd.h\<close>) makes of \<open>eax\<close>: the result, and the new \<open>errno\<close>.\<close>

definition stub_result :: "u32 \<Rightarrow> int \<Rightarrow> int \<times> int" where
  "stub_result res errno = (if sint res \<ge> 0 then (sint res, errno) else (- 1, sint (- res)))"

section \<open>Interrupts and faults\<close>

text \<open>\<open>fuel\<close> bounds the timers that expire at one tick.\<close>

definition timer_interrupt_entry :: "kenv \<Rightarrow> nat \<Rightarrow> user_regs \<Rightarrow> fs \<Rightarrow> (fs, user_regs) outcome" where
  "timer_interrupt_entry E fuel r s =
     bindO (do_timer fd_timer fuel (k_env E) (uint (r_cs r AND 3)) (outb 0x20 0x20 (s\<lparr>jiffies := s32 (jiffies s + 1)\<rparr>))) (\<lambda>_ s.
     ret_from_sys_call E r s)"

text \<open>\<open>em\<close> is the bit of \<open>cr0\<close> that says there is no coprocessor.\<close>

definition device_not_available_entry :: "kenv \<Rightarrow> bool \<Rightarrow> user_regs \<Rightarrow> fs \<Rightarrow> (fs, user_regs) outcome" where
  "device_not_available_entry E em r s =
     (if \<not> em then ret_from_sys_call E r (math_state_restore s)
      else bindO (math_emulate E (r_eip r) (ucast (r_cs r)) s) (\<lambda>pc s. ret_from_sys_call E (r\<lparr>r_eip := pc\<rparr>) s))"

definition coprocessor_error_entry :: "kenv \<Rightarrow> user_regs \<Rightarrow> fs \<Rightarrow> (fs, user_regs) outcome" where
  "coprocessor_error_entry E r s = ret_from_sys_call E r (math_error s)"

definition irq13_entry :: "kenv \<Rightarrow> user_regs \<Rightarrow> fs \<Rightarrow> (fs, user_regs) outcome" where
  "irq13_entry E r s = coprocessor_error_entry E r (outb 0x20 0xA0 (outb 0x20 0x20 (outb 0 0xF0 s)))"

definition parallel_interrupt_entry :: "fs \<Rightarrow> fs" where
  "parallel_interrupt_entry s = outb 0x20 0x20 s"

text \<open>
  The faults of \<open>asm.s\<close>: the address pushed first is the C routine; without an error code from the processor it is 0.  The vector of \<open>debug\<close>
  leads to \<open>do_int3\<close>.
\<close>

definition fault_entry :: "handler \<Rightarrow> kenv \<Rightarrow> (nat \<Rightarrow> u32) \<Rightarrow> u32 \<Rightarrow> int3_regs \<Rightarrow> fs \<Rightarrow> (fs, unit) outcome" where
  "fault_entry h E stk nr regs s =
     (case h of
        handler.divide_error \<Rightarrow> do_divide_error E stk 0 s
      | handler.debug \<Rightarrow> do_int3 E stk regs s
      | handler.nmi \<Rightarrow> do_nmi E stk 0 s
      | handler.int3 \<Rightarrow> do_int3 E stk regs s
      | handler.overflow \<Rightarrow> do_overflow E stk 0 s
      | handler.bounds \<Rightarrow> do_bounds E stk 0 s
      | handler.invalid_op \<Rightarrow> do_invalid_op E stk 0 s
      | handler.coprocessor_segment_overrun \<Rightarrow> do_coprocessor_segment_overrun E stk 0 s
      | handler.reserved \<Rightarrow> do_reserved E stk 0 s
      | handler.double_fault \<Rightarrow> do_double_fault E stk nr s
      | handler.invalid_TSS \<Rightarrow> do_invalid_TSS E stk nr s
      | handler.segment_not_present \<Rightarrow> do_segment_not_present E stk nr s
      | handler.stack_segment \<Rightarrow> do_stack_segment E stk nr s
      | handler.general_protection \<Rightarrow> do_general_protection E stk nr s
      | _ \<Rightarrow> Ret () s)"

end
