(* ===== verification/Traps_Props.thy ===== *)
theory Traps_Props
  imports Traps
begin

unbundle bit_operations_syntax

text \<open>
  The interrupt table as the processor reads it, and what it allows: only four vectors can be raised by an \<open>int\<close> instruction of
  a program, and every vector leads to the routine meant for it in the kernel's code segment.  The messages of a fault end the task.
\<close>

section \<open>Reading a gate\<close>

definition gate_dpl :: "desc \<Rightarrow> u32" where
  "gate_dpl d = drop_bit 13 (snd d) AND 3"

definition gate_type :: "desc \<Rightarrow> u32" where
  "gate_type d = drop_bit 8 (snd d) AND 15"

definition gate_present :: "desc \<Rightarrow> bool" where
  "gate_present d \<longleftrightarrow> bit (snd d) 15"

definition gate_selector :: "desc \<Rightarrow> u32" where
  "gate_selector d = drop_bit 16 (fst d)"

definition gate_offset :: "desc \<Rightarrow> u32" where
  "gate_offset d = (fst d AND 0xffff) OR (snd d AND 0xffff0000)"

lemma high_half: "(0xffff0000 :: u32) = NOT (mask 16)" "(0xffff :: u32) = mask 16"
  by (simp_all add: mask_eq_exp_minus_1)

lemma high_half_drop: "k + j \<le> 16 \<Longrightarrow> drop_bit k ((a :: u32) AND 0xffff0000) AND mask j = 0"
  unfolding high_half by (rule bit_word_eqI) (auto simp: bit_simps)

lemma low_half_drop: "drop_bit 16 ((a :: u32) AND 0xffff) = 0"
  unfolding high_half by (rule bit_word_eqI) (auto simp: bit_simps)

lemma gate_word_fields:
  fixes a c :: u32
  shows "drop_bit 13 ((a AND 0xffff0000) OR c) AND 3 = drop_bit 13 c AND 3"
    "drop_bit 8 ((a AND 0xffff0000) OR c) AND 15 = drop_bit 8 c AND 15"
    "bit ((a AND 0xffff0000) OR c) 15 = bit c 15"
proof -
  have m: "(3 :: u32) = mask 2" "(15 :: u32) = mask 4" by (simp_all add: mask_eq_exp_minus_1)
  show "drop_bit 13 ((a AND 0xffff0000) OR c) AND 3 = drop_bit 13 c AND 3"
    using high_half_drop [of 13 2 a] by (simp add: m drop_bit_or bit.conj_disj_distrib2)
  show "drop_bit 8 ((a AND 0xffff0000) OR c) AND 15 = drop_bit 8 c AND 15"
    using high_half_drop [of 8 4 a] by (simp add: m drop_bit_or bit.conj_disj_distrib2)
  show "bit ((a AND 0xffff0000) OR c) 15 = bit c 15"
    unfolding high_half by (simp add: bit_simps)
qed

lemma gate_halves: "((0x00080000 OR (a AND 0xffff)) AND 0xffff) OR (((a AND 0xffff0000) OR (c AND 0xffff)) AND 0xffff0000) = (a :: u32)"
proof -
  have sh: "(0x00080000 :: u32) = push_bit 19 1" by simp
  show ?thesis unfolding high_half sh by (rule bit_word_eqI) (auto simp: bit_simps simp del: push_bit_of_1)
qed

lemma gate_high: "drop_bit 16 (0x00080000 OR ((a :: u32) AND 0xffff)) = 8"
  by (simp add: drop_bit_or low_half_drop)

text \<open>What the processor reads in a gate that \<open>set_gate\<close> has written.\<close>

lemma gate_raw:
  "gate_dpl (set_gate n typ dpl a idt n) = drop_bit 13 ((0x8000 + push_bit 13 dpl + push_bit 8 typ) AND 0xffff) AND 3"
  "gate_type (set_gate n typ dpl a idt n) = drop_bit 8 ((0x8000 + push_bit 13 dpl + push_bit 8 typ) AND 0xffff) AND 15"
  "gate_present (set_gate n typ dpl a idt n) \<longleftrightarrow> bit ((0x8000 + push_bit 13 dpl + push_bit 8 typ) AND 0xffff :: u32) 15"
  "gate_selector (set_gate n typ dpl a idt n) = 8" "gate_offset (set_gate n typ dpl a idt n) = a"
  unfolding gate_dpl_def gate_type_def gate_present_def gate_selector_def gate_offset_def set_gate_def fun_upd_same fst_conv snd_conv
  by (rule gate_word_fields gate_high gate_halves)+

lemma gate_fields:
  assumes "typ \<in> {14, 15}" "dpl \<in> {0, 3}"
  shows "gate_dpl (set_gate n typ dpl a idt n) = dpl" "gate_type (set_gate n typ dpl a idt n) = typ"
    "gate_present (set_gate n typ dpl a idt n)" "gate_selector (set_gate n typ dpl a idt n) = 8"
    "gate_offset (set_gate n typ dpl a idt n) = a"
  using assms by (auto simp: gate_raw)

lemma set_gate_other: "m \<noteq> n \<Longrightarrow> set_gate n typ dpl a idt m = idt m"
  by (simp add: set_gate_def)

lemma set_gate_here: "set_gate n typ dpl a idt n = set_gate n typ dpl a i n"
  by (simp add: set_gate_def)

lemmas gates = set_intr_gate_def set_trap_gate_def set_system_gate_def

section \<open>The table after booting\<close>

text \<open>The routine meant for each of the first 48 vectors and for system calls, the type of its gate and who may raise it.\<close>

definition vector_handler :: "nat \<Rightarrow> handler" where
  "vector_handler n =
     (if n < 17 then [divide_error, debug, nmi, int3, overflow, bounds, invalid_op, device_not_available, double_fault,
        coprocessor_segment_overrun, invalid_TSS, segment_not_present, stack_segment, general_protection, page_fault, reserved,
        coprocessor_error] ! n
      else if n = 0x20 then timer_interrupt else if n = 0x21 then keyboard_interrupt else if n = 0x23 then rs2_interrupt
      else if n = 0x24 then rs1_interrupt else if n = 0x26 then floppy_interrupt_entry else if n = 0x27 then parallel_interrupt
      else if n = 0x2D then irq13 else if n = 0x2E then hd_interrupt_entry else if n = 0x80 then system_call else reserved)"

definition vector_type :: "nat \<Rightarrow> u32" where
  "vector_type n = (if n \<in> {0x20, 0x23, 0x24, 0x2E} then 14 else 15)"

definition vector_dpl :: "nat \<Rightarrow> u32" where
  "vector_dpl n = (if n \<in> {3, 4, 5, 0x80} then 3 else 0)"

lemma fold_gates: "fold (\<lambda>i. set_trap_gate i a) xs idt n = (if n \<in> set xs then set_gate n 15 0 a idt n else idt n)"
  by (induction xs arbitrary: idt) (auto simp: gates set_gate_def)

definition gate_value :: "u32 \<Rightarrow> u32 \<Rightarrow> u32 \<Rightarrow> desc" where
  "gate_value typ dpl a = set_gate 0 typ dpl a (\<lambda>_. (0, 0)) 0"

lemma set_gate_value: "set_gate n typ dpl a idt m = (if m = n then gate_value typ dpl a else idt m)"
  by (simp add: gate_value_def set_gate_def)

lemma reserved_gates:
  "fold (\<lambda>i. set_trap_gate i a) [17..<48] idt n = (if 17 \<le> n \<and> n < 48 then gate_value 15 0 a else idt n)"
  unfolding fold_gates by (simp only: set_upt atLeastLessThan_iff set_gate_value) simp

lemmas boot_steps = boot_gates_def floppy_gates_def hd_gates_def sched_gates_def con_gates_def rs_gates_def trap_gates_def Let_def gates
  set_gate_value reserved_gates [unfolded gates]

lemma boot_gates_other: "48 \<le> n \<Longrightarrow> n \<noteq> 0x80 \<Longrightarrow> boot_gates at idt n = idt n"
  by (simp add: boot_steps del: upt_rec_numeral)

lemma boot_gates_value:
  assumes "n < 48 \<or> n = 0x80"
  shows "boot_gates at idt n = gate_value (vector_type n) (vector_dpl n) (at (vector_handler n))"
proof -
  have "n \<in> {0, 1, 2, 3, 4, 5, 6, 7, 8, 9, 10, 11, 12, 13, 14, 15, 16, 0x20, 0x21, 0x23, 0x24, 0x26, 0x27, 0x2D, 0x2E, 0x80} \<or>
      17 \<le> n \<and> n < 48 \<and> n \<notin> {0x20, 0x21, 0x23, 0x24, 0x26, 0x27, 0x2D, 0x2E}"
    using assms by (simp only: insert_iff empty_iff) presburger
  then show ?thesis
  proof
    assume "n \<in> {0, 1, 2, 3, 4, 5, 6, 7, 8, 9, 10, 11, 12, 13, 14, 15, 16, 0x20, 0x21, 0x23, 0x24, 0x26, 0x27, 0x2D, 0x2E, 0x80}"
    then show ?thesis
      by (elim insertE emptyE) (simp_all add: boot_steps vector_handler_def vector_type_def vector_dpl_def del: upt_rec_numeral)
  next
    assume "17 \<le> n \<and> n < 48 \<and> n \<notin> {0x20, 0x21, 0x23, 0x24, 0x26, 0x27, 0x2D, 0x2E}"
    then show ?thesis by (simp add: boot_steps vector_handler_def vector_type_def vector_dpl_def del: upt_rec_numeral)
  qed
qed

lemma gate_value_fields:
  assumes "typ \<in> {14, 15}" "dpl \<in> {0, 3}"
  shows "gate_dpl (gate_value typ dpl a) = dpl" "gate_type (gate_value typ dpl a) = typ"
    "gate_present (gate_value typ dpl a)" "gate_selector (gate_value typ dpl a) = 8" "gate_offset (gate_value typ dpl a) = a"
  using assms unfolding gate_value_def by (rule gate_fields)+

lemma rp_sidt_all: "rp_sidt k i ax dx idt n = (if i \<le> n \<and> n < i + k then (ax, dx) else idt n)"
  by (induction k arbitrary: i idt) auto

lemma setup_idt_value: "n < 256 \<Longrightarrow> setup_idt at idt n = gate_value 14 0 (at ignore_int)"
  by (simp add: setup_idt_def Let_def rp_sidt_all gate_value_def set_gate_def del: rp_sidt.simps)

text \<open>C40: The interrupt table after booting, from \<open>setup_idt\<close> to the last initialisation of the kernel.  Of all 256 vectors programs can
  raise only 3, 4, 5 and the system call by an \<open>int\<close> instruction.  Each of the vectors 0 to 47 and the system call leads to
  the routine meant for it and every other one to \<open>ignore_int\<close>, in the kernel's code segment; interrupts stay enabled only in the
  routines of the vectors 0 to 47 apart from the timer, the serial ports and the hard disk, and in system calls.\<close>

theorem boot_gates_entries:
  assumes "n < 256"
  shows "let gate = boot_gates at (setup_idt at idt) n in
    gate_dpl gate = (if n \<in> {3, 4, 5, 0x80} then 3 else 0) \<and> gate_present gate \<and> gate_selector gate = 8 \<and>
    gate_offset gate = at (if n < 48 \<or> n = 0x80 then vector_handler n else ignore_int) \<and>
    gate_type gate = (if (n < 48 \<or> n = 0x80) \<and> n \<notin> {0x20, 0x23, 0x24, 0x2E} then 15 else 14)"
proof (cases "n < 48 \<or> n = 0x80")
  case True
  have v: "vector_type n \<in> {14, 15}" "vector_dpl n \<in> {0, 3}" by (auto simp: vector_type_def vector_dpl_def)
  show ?thesis
    using True gate_value_fields(3) [OF v, of "at (vector_handler n)"]
    unfolding Let_def boot_gates_value [OF True] gate_value_fields(1,2,4,5) [OF v] by (auto simp: vector_type_def vector_dpl_def)
next
  case False
  then have "boot_gates at (setup_idt at idt) n = gate_value 14 0 (at ignore_int)"
    using setup_idt_value [OF assms] boot_gates_other [of n] by simp
  then show ?thesis using False gate_value_fields [of 14 0 "at ignore_int"] by (auto simp: Let_def)
qed

theorem boot_gates_entries_witness:
  "gate_dpl (boot_gates (\<lambda>_. 0x1234) (setup_idt (\<lambda>_. 0x1234) (\<lambda>_. (0, 0))) 0x80) = 3 \<and>
   gate_dpl (boot_gates (\<lambda>_. 0x1234) (setup_idt (\<lambda>_. 0x1234) (\<lambda>_. (0, 0))) 0xff) = 0"
  using boot_gates_entries [of "0x80" "\<lambda>_. 0x1234" "\<lambda>_. (0, 0)"] boot_gates_entries [of "0xff" "\<lambda>_. 0x1234" "\<lambda>_. (0, 0)"] by (simp add: Let_def)

section \<open>Faults end the task\<close>

text \<open>Whatever the terminal does with the messages, a task does not come back from \<open>die\<close>.\<close>

lemma do_exit_no_return: "do_exit E code s \<noteq> Ret a t"
proof -
  have b: "bindO r f \<noteq> Ret a t" if "\<And>x u. f x u \<noteq> Ret a t" for r :: "(fs, 'x) outcome" and f
    using that by (cases r) auto
  show ?thesis unfolding do_exit_def Let_def by (intro b) simp
qed

lemma die_no_return: "die name E stk nr s \<noteq> Ret a t"
proof (cases "print_all E (die_messages name stk nr s) s")
  case (Ret x u)
  then show ?thesis by (simp add: die_def do_exit_no_return)
qed (simp_all add: die_def)

end
