(* ===== verification/Entry_Props.thy ===== *)
theory Entry_Props
  imports Entry Traps_Props Syscalls_Props
begin

unbundle bit_operations_syntax

text \<open>
  The way back to a program: which signal is taken, what becomes of the others, and what the program finds.  The table of system calls.
\<close>

section \<open>The table\<close>

lemma sys_call_table_length: "length (sys_call_table E junk img r) = 72"
  by (simp add: sys_call_table_def Let_def)

lemma system_call_bad: "unat (r_eax r) \<ge> 72 \<Longrightarrow> system_call E junk img r s = Ret (r\<lparr>r_eax := - 1\<rparr>) s"
  by (simp add: system_call_def word_less_nat_alt)

section \<open>Signals on the way back\<close>

text \<open>The signals (by their bits) that may be taken, and the state in which the bit \<open>j\<close> has been cleared.\<close>

definition deliverable :: "fs \<Rightarrow> nat set" where
  "deliverable s = {j. j < 32 \<and> bit (signal (cur s)) j \<and> \<not> bit (blocked (cur s)) j}"

definition taken :: "nat \<Rightarrow> fs \<Rightarrow> fs" where
  "taken j s = upd_cur (\<lambda>t. t\<lparr>signal := unset_bit j (signal t)\<rparr>) s"

lemma bsfl_deliverable:
  "bsfl (NOT (blocked (cur s)) AND signal (cur s)) = (if deliverable s = {} then None else Some (Min (deliverable s)))"
proof (cases "bsfl (NOT (blocked (cur s)) AND signal (cur s))")
  case None
  then have "\<not> bit (NOT (blocked (cur s)) AND signal (cur s)) j" if "j < 32" for j using bsfl_None that by blast
  then have "deliverable s = {}" by (auto simp: deliverable_def bit_simps)
  then show ?thesis using None by simp
next
  case (Some j)
  from bsfl_Some [OF Some] have j: "j \<in> deliverable s" "\<And>i. i < j \<Longrightarrow> i \<notin> deliverable s"
    by (auto simp: deliverable_def bit_simps)
  have "finite (deliverable s)" by (rule finite_subset [of _ "{..<32}"]) (auto simp: deliverable_def)
  then have "Min (deliverable s) = j" using j by (intro Min_eqI) (auto simp: not_less [symmetric])
  then show ?thesis using Some j(1) by auto
qed

lemma taken_simps [simp]:
  "current (taken j s) = current s" "cur (taken j s) = (cur s)\<lparr>signal := unset_bit j (signal (cur s))\<rparr>"
  "mem_map (taken j s) = mem_map s" "HIGH_MEMORY (taken j s) = HIGH_MEMORY s" "pmem (taken j s) = pmem s"
  by (simp_all add: taken_def upd_task_def cur_def)

definition from_user :: "user_regs \<Rightarrow> fs \<Rightarrow> bool" where
  "from_user r s \<longleftrightarrow> current s \<noteq> task s 0 \<and> r_cs r AND 0xffff = 0x0f \<and> r_ss r AND 0xffff = 0x17"

lemma ret_from_sys_call_user:
  "from_user r s \<Longrightarrow> ret_from_sys_call E r s =
     (if deliverable s = {} then Ret r s else deliver E (Min (deliverable s) + 1) r (taken (Min (deliverable s)) s))"
  by (simp add: from_user_def ret_from_sys_call_def bsfl_deliverable taken_def)

lemma deliverable_bound: "deliverable s \<noteq> {} \<Longrightarrow> Min (deliverable s) < 32"
  using Min_in [of "deliverable s"] finite_subset [of "deliverable s" "{..<32}"] by (auto simp: deliverable_def)

text \<open>What a handler finds above its stack pointer.\<close>

abbreviation handler_frame :: "sigaction \<Rightarrow> nat \<Rightarrow> user_regs \<Rightarrow> u32 \<Rightarrow> u32 list" where
  "handler_frame sa signr r old_mask \<equiv> signal_frame sa signr (frame_of r) old_mask"

text \<open>The three ways a signal can go.\<close>

lemma deliver_ignored:
  assumes "sa = sigactions (cur s) j" "j < 32" "sa_handler sa = 1 \<or> sa_handler sa = 0 \<and> j + 1 = SIGCHLD"
  shows "deliver E (j + 1) r s = Ret r s"
proof -
  have "do_signal (j + 1) (frame_of r) s = Ret (frame_of r) s" using assms unfolding do_signal_def Let_def by auto
  then show ?thesis unfolding deliver_def by (simp add: frame_of_def)
qed

lemma deliver_default:
  assumes "sa = sigactions (cur s) j" "j < 32" "sa_handler sa = 0" "j + 1 \<noteq> SIGCHLD"
  shows "deliver E (j + 1) r s = bindO (do_exit E (sint (sigbit (j + 1))) s) (\<lambda>_ t. Ret r t)" "deliver E (j + 1) r s \<noteq> Ret r' t"
proof -
  have "do_signal (j + 1) (frame_of r) s = Exits (sint (sigbit (j + 1))) s" using assms unfolding do_signal_def Let_def by simp
  then show e: "deliver E (j + 1) r s = bindO (do_exit E (sint (sigbit (j + 1))) s) (\<lambda>_ t. Ret r t)" unfolding deliver_def by simp
  show "deliver E (j + 1) r s \<noteq> Ret r' t"
    unfolding e using do_exit_no_return [of E "sint (sigbit (j + 1))" s] by (cases "do_exit E (sint (sigbit (j + 1))) s") auto
qed

lemma signal_frame_below: "m \<le> 8 \<Longrightarrow> 32 \<le> unat e \<Longrightarrow> unat (e - 4 * of_nat m :: u32) \<le> unat e"
proof -
  assume m: "m \<le> 8" "32 \<le> unat e"
  have "unat (4 * of_nat m :: u32) = 4 * m" using m(1) unat_of_nat [of "4 * m", where ?'a = 32] by simp
  then have "unat (e - 4 * of_nat m) = unat e - 4 * m" using m by (simp add: unat_sub word_le_nat_alt)
  then show ?thesis by simp
qed

lemma deliver_caught:
  fixes s :: fs
  assumes "sa = sigactions (cur s) j" "j < 32" "sa_handler sa \<notin> {0, 1}" "sp = r_esp r - 4 * of_nat (length (handler_frame sa (j + 1) r 0))"
    and "mm_inv held s" "0x4000000 \<le> get_base (ldt (cur s) 2)" "get_base (ldt (cur s) 2) AND 0xfff = 0"
    and "32 \<le> unat (r_esp r)" "int (unat (get_base (ldt (cur s) 2))) + int (unat (r_esp r)) + 32 \<le> 0xfffff000"
  shows "(\<exists>t. deliver E (j + 1) r s = Ret (r\<lparr>r_eip := sa_handler sa, r_esp := sp\<rparr>) t \<and>
        (\<forall>k<length (handler_frame sa (j + 1) r (blocked (cur s))).
           get_fs_long (sp + 4 * of_nat k) t = handler_frame sa (j + 1) r (blocked (cur s)) ! k) \<and>
        signal (cur t) = signal (cur s) \<and> blocked (cur t) = blocked (cur s) OR sa_mask sa) \<or>
      (\<exists>t. deliver E (j + 1) r s = bindO (do_exit E 11 t) (\<lambda>_ t. Ret r t))"
proof -
  have "unat sp \<le> unat (r_esp r)" unfolding assms(4) by (rule signal_frame_below) (use assms(8) in \<open>simp_all add: signal_frame_def\<close>)
  then have "int (unat sp) \<le> int (unat (r_esp r))" by (simp only: of_nat_le_iff)
  then have b: "int (unat (get_base (ldt (cur s) 2))) + int (unat sp) + 32 \<le> 0xfffff000" using assms(9) by linarith
  have h: "1 \<le> j + 1" "j + 1 \<le> 32" "sa = sigactions (cur s) (j + 1 - 1)" "sp = f_esp (frame_of r) - 4 * of_nat (length (handler_frame sa (j + 1) r 0))"
    using assms(1,2,4) by (simp_all add: frame_of_def)
  show ?thesis
    using do_signal_returns [OF assms(5-7) h(1,2) assms(3) h(3,4) b]
  proof (elim disjE exE conjE)
    fix t assume "do_signal (j + 1) (frame_of r) s = Ret (frame_of r\<lparr>f_eip := sa_handler sa, f_esp := sp\<rparr>) t"
    then have "deliver E (j + 1) r s = Ret (r\<lparr>r_eip := sa_handler sa, r_esp := sp\<rparr>) t" unfolding deliver_def by simp
    moreover assume "\<forall>k<length (handler_frame sa (j + 1) r (blocked (cur s))). get_fs_long (sp + 4 * of_nat k) t = handler_frame sa (j + 1) r (blocked (cur s)) ! k"
      "blocked (cur t) = blocked (cur s) OR sa_mask sa" "signal (cur t) = signal (cur s)"
    ultimately show ?thesis by blast
  next
    fix t assume "do_signal (j + 1) (frame_of r) s = Exits 11 t"
    then show ?thesis unfolding deliver_def by (intro disjI2 exI [of _ t]) simp
  qed
qed

text \<open>C37: The way back to a program, for any entry.  Without a pending signal that is not blocked nothing changes.  Otherwise the lowest such signal is
  taken off the pending ones, and only this one.  If it is ignored the program just goes on; if its action is the default the task ends with the
  bit of the signal as its code and never goes on; and with a handler the program goes on in the handler, on a stack that holds the
  return frame, the mask of the handler added to the blocked signals, unless the stack cannot be unshared for lack of memory, which
  ends the task.\<close>

theorem ret_from_sys_call_signal:
  fixes s :: fs
  assumes "from_user r s" "mm_inv held s" "0x4000000 \<le> get_base (ldt (cur s) 2)" "get_base (ldt (cur s) 2) AND 0xfff = 0"
    and "32 \<le> unat (r_esp r)" "int (unat (get_base (ldt (cur s) 2))) + int (unat (r_esp r)) + 32 \<le> 0xfffff000"
  shows "if deliverable s = {} then ret_from_sys_call E r s = Ret r s
    else let j = Min (deliverable s); sa = sigactions (cur s) j in
      if sa_handler sa = 1 \<or> sa_handler sa = 0 \<and> j + 1 = SIGCHLD then ret_from_sys_call E r s = Ret r (taken j s)
      else if sa_handler sa = 0
      then ret_from_sys_call E r s = bindO (do_exit E (sint (sigbit (j + 1))) (taken j s)) (\<lambda>_ t. Ret r t) \<and> (\<forall>r' t. ret_from_sys_call E r s \<noteq> Ret r' t)
      else (\<exists>t sp. ret_from_sys_call E r s = Ret (r\<lparr>r_eip := sa_handler sa, r_esp := sp\<rparr>) t \<and>
              (\<forall>k<length (handler_frame sa (j + 1) r (blocked (cur s))).
                 get_fs_long (sp + 4 * of_nat k) t = handler_frame sa (j + 1) r (blocked (cur s)) ! k) \<and>
              sp = r_esp r - 4 * of_nat (length (handler_frame sa (j + 1) r 0)) \<and>
              signal (cur t) = unset_bit j (signal (cur s)) \<and> blocked (cur t) = blocked (cur s) OR sa_mask sa) \<or>
           (\<exists>t. ret_from_sys_call E r s = bindO (do_exit E 11 t) (\<lambda>_ t. Ret r t))"
proof (cases "deliverable s = {}")
  case True
  then show ?thesis using ret_from_sys_call_user [OF assms(1)] by simp
next
  case False
  define j where "j = Min (deliverable s)"
  define sa where "sa = sigactions (cur s) j"
  have j: "j < 32" using deliverable_bound [OF False] by (simp add: j_def)
  have ret: "ret_from_sys_call E r s = deliver E (j + 1) r (taken j s)"
    using ret_from_sys_call_user [OF assms(1)] False by (simp add: j_def)
  have sa': "sa = sigactions (cur (taken j s)) j" by (simp add: sa_def)
  note goal = if_not_P [OF False] Let_def j_def [symmetric] sa_def [symmetric] ret
  consider (ignore) "sa_handler sa = 1 \<or> sa_handler sa = 0 \<and> j + 1 = SIGCHLD" | (default) "sa_handler sa = 0" "j + 1 \<noteq> SIGCHLD"
    | (handler) "sa_handler sa \<notin> {0, 1}" by auto
  then show ?thesis
  proof cases
    case ignore
    then show ?thesis unfolding goal using deliver_ignored [OF sa' j ignore] by simp
  next
    case default
    then show ?thesis unfolding goal using deliver_default [OF sa' j default] by simp
  next
    case handler
    have i: "mm_inv held (taken j s)" using assms(2) by (subst mm_inv_cong [of _ s]) simp_all
    have c: "ldt (cur (taken j s)) = ldt (cur s)" "blocked (cur (taken j s)) = blocked (cur s)" "signal (cur (taken j s)) = unset_bit j (signal (cur s))"
      by simp_all
    have "\<not> (sa_handler sa = 1 \<or> sa_handler sa = 0 \<and> j + 1 = SIGCHLD)" "sa_handler sa \<noteq> 0" using handler by auto
    then show ?thesis
      using deliver_caught [OF sa' j handler refl i, unfolded c, OF assms(3-6), of E] unfolding goal by (simp only: if_False) blast
  qed
qed

text \<open>A program interrupted with the signals 2 and 5 pending, with a handler for the lower one.\<close>

definition demo_signals :: fs where
  "demo_signals = (undefined :: fs)\<lparr>mem_map := mem_map demo_mm, HIGH_MEMORY := HIGH_MEMORY demo_mm, pmem := pmem demo_mm,
    task := (\<lambda>i. if i = 0 then 0x1000 else 0xfff000), current := 0xfff000,
    tstruct := (\<lambda>_. undefined\<lparr>ldt := (\<lambda>_. set_base (0, 0) 0x4000000), signal := 0x12, blocked := 0,
      sigactions := (\<lambda>_. \<lparr>sa_handler = 0x100, sa_mask = 2, sa_flags = 0xc0000000, sa_restorer = 0x200\<rparr>)\<rparr>)\<rparr>"

definition demo_regs :: user_regs where
  "demo_regs = undefined\<lparr>r_cs := 0x0f, r_ss := 0x17, r_esp := 0x800, r_eip := 0x1234\<rparr>"

theorem ret_from_sys_call_signal_witness:
  "\<forall>E. (\<exists>t. ret_from_sys_call E demo_regs demo_signals = Ret (demo_regs\<lparr>r_eip := 0x100, r_esp := 0x7e4\<rparr>) t \<and>
        get_fs_long (0x7e4 + 4 * 6) t = 0x1234 \<and> signal (cur t) = 0x10) \<or>
      (\<exists>t. ret_from_sys_call E demo_regs demo_signals = bindO (do_exit E 11 t) (\<lambda>_ t. Ret demo_regs t))"
proof
  fix E
  let ?sa = "\<lparr>sa_handler = 0x100, sa_mask = 2, sa_flags = 0xc0000000, sa_restorer = 0x200\<rparr>"
  have c: "cur demo_signals = undefined\<lparr>ldt := (\<lambda>_. set_base (0, 0) 0x4000000), signal := 0x12, blocked := 0, sigactions := (\<lambda>_. ?sa)\<rparr>"
    by (simp add: demo_signals_def cur_def)
  have b: "get_base (ldt (cur demo_signals) 2) = 0x4000000" by (simp add: c get_set_base)
  have i: "mm_inv (\<lambda>_. 0) demo_signals" using demo_mm_facts(1) by (subst mm_inv_cong [of _ demo_mm]) (simp_all add: demo_signals_def)
  have u: "from_user demo_regs demo_signals" by (simp add: from_user_def demo_signals_def demo_regs_def)
  have h: "0x4000000 \<le> get_base (ldt (cur demo_signals) 2)" "get_base (ldt (cur demo_signals) 2) AND 0xfff = 0" "32 \<le> unat (r_esp demo_regs)"
    "int (unat (get_base (ldt (cur demo_signals) 2))) + int (unat (r_esp demo_regs)) + 32 \<le> 0xfffff000"
    unfolding b by (simp_all add: demo_regs_def)
  have d: "deliverable demo_signals = {1, 4}"
  proof -
    have "(0x12 :: u32) = push_bit 1 1 OR push_bit 4 1" by simp
    then have "bit (0x12 :: u32) j \<longleftrightarrow> j = 1 \<or> j = 4" if "j < 32" for j
      using that by (simp only: bit_or_iff bit_push_bit_iff bit_1_iff possible_bit_word) auto
    then show ?thesis by (auto simp: deliverable_def c)
  qed
  have f: "length (handler_frame ?sa (1 + 1) demo_regs m) = 7" "handler_frame ?sa (1 + 1) demo_regs m ! 6 = 0x1234" for m
    by (simp_all add: signal_frame_def frame_of_def demo_regs_def)
  have e: "deliverable demo_signals \<noteq> {}" "Min (deliverable demo_signals) = 1" "sigactions (cur demo_signals) 1 = ?sa" "signal (cur demo_signals) = 0x12"
    by (simp_all add: d c)
  have n: "\<not> ((0x100 :: u32) = 1 \<or> (0x100 :: u32) = 0 \<and> 1 + 1 = SIGCHLD)" "(0x100 :: u32) \<noteq> 0" by simp_all
  show "(\<exists>t. ret_from_sys_call E demo_regs demo_signals = Ret (demo_regs\<lparr>r_eip := 0x100, r_esp := 0x7e4\<rparr>) t \<and>
        get_fs_long (0x7e4 + 4 * 6) t = 0x1234 \<and> signal (cur t) = 0x10) \<or>
      (\<exists>t. ret_from_sys_call E demo_regs demo_signals = bindO (do_exit E 11 t) (\<lambda>_ t. Ret demo_regs t))"
    using ret_from_sys_call_signal [OF u i h, of E]
    unfolding if_not_P [OF e(1)] Let_def e(2,3) sigaction.simps if_not_P [OF n(1)] if_not_P [OF n(2)]
  proof (elim conjE disjE exE)
    fix t sp assume r: "ret_from_sys_call E demo_regs demo_signals = Ret (demo_regs\<lparr>r_eip := 0x100, r_esp := sp\<rparr>) t"
      and g: "\<forall>k<length (handler_frame ?sa (1 + 1) demo_regs (blocked (cur demo_signals))).
         get_fs_long (sp + 4 * of_nat k) t = handler_frame ?sa (1 + 1) demo_regs (blocked (cur demo_signals)) ! k"
      and sp: "sp = r_esp demo_regs - 4 * of_nat (length (handler_frame ?sa (1 + 1) demo_regs 0))"
      and sg: "signal (cur t) = unset_bit 1 (signal (cur demo_signals))"
    have e7: "sp = 0x7e4" using sp unfolding f(1) by (simp add: demo_regs_def)
    have "get_fs_long (sp + 4 * of_nat 6) t = 0x1234" using g [rule_format, of 6] unfolding f by simp
    moreover have "unset_bit 1 (0x12 :: u32) = 0x10" by (simp add: unset_bit_eq_and_not)
    ultimately show ?thesis using r sg unfolding e7 e(4) by (intro disjI1 exI [of _ t]) simp
  qed blast
qed

end
