(* ===== verification/Build_Image.thy ===== *)
theory Build_Image
  imports Startup
begin

unbundle bit_operations_syntax

text \<open>
  \<open>src/tools/build.c\<close>, the program of the build that joins the boot sector, \<open>setup\<close> and the kernel to a disk image: its checks of the
  three headers, the root device it stores in the boot sector, the padding of \<open>setup\<close> to the sectors the boot sector loads.  Every run
  that ends well writes one image, and the root device \<open>main\<close> reads from the loaded boot sector is the one asked for.

  A computation writes to the standard output, a list of bytes, and ends in a value or in the message of \<open>die\<close>.  The host is a
  parameter: \<open>files f\<close> is the content of the file \<open>f\<close> if it can be opened, \<open>rdev f\<close> the device number of \<open>f\<close> if \<open>stat\<close> succeeds, and
  \<open>wr got bs\<close> the number of bytes of \<open>bs\<close> a \<open>write\<close> takes.  A \<open>long\<close> has 32 bits and the lowest byte first, as on the machine the
  image is for.  The messages about a run that goes on are left out.
\<close>

section \<open>The program\<close>

type_synonym 'a build = "u8 list \<Rightarrow> (string + 'a) \<times> u8 list"
type_synonym writer = "u8 list \<Rightarrow> u8 list \<Rightarrow> nat"

definition done_with :: "'a \<Rightarrow> 'a build" where
  "done_with x got = (Inr x, got)"

definition build_die :: "string \<Rightarrow> 'a build" where
  "build_die m got = (Inl m, got)"

definition andthen :: "'a build \<Rightarrow> ('a \<Rightarrow> 'b build) \<Rightarrow> 'b build" where
  "andthen p q got = (case p got of (Inl m, got) \<Rightarrow> (Inl m, got) | (Inr x, got) \<Rightarrow> q x got)"

definition die_if :: "bool \<Rightarrow> string \<Rightarrow> unit build" where
  "die_if b m = (if b then build_die m else done_with ())"

definition build_usage :: "'a build" where
  "build_usage = build_die ''Usage: build bootsect setup system [rootdev] [> image]''"

definition write_all :: "writer \<Rightarrow> u8 list \<Rightarrow> unit build" where
  "write_all wr bs got =
     (let n = wr got bs; got = got @ take n bs in die_if (n \<noteq> length bs) ''Write call failed'' got)"

text \<open>\<open>'boot'\<close>, with its quotes.\<close>

definition quoted :: "string \<Rightarrow> string" where
  "quoted f = CHR 0x27 # f @ [CHR 0x27]"

definition open_file :: "(string \<Rightarrow> u8 list option) \<Rightarrow> string \<Rightarrow> string \<Rightarrow> u8 list build" where
  "open_file files f what = (case files f of None \<Rightarrow> build_die (''Unable to open '' @ quoted what) | Some bs \<Rightarrow> done_with bs)"

text \<open>The long number \<open>k\<close> of a buffer.\<close>

definition long_at :: "u8 list \<Rightarrow> nat \<Rightarrow> u32" where
  "long_at buf k = foldr (\<lambda>b w. ucast b + 256 * w) (take 4 (drop (4 * k) buf)) 0"

text \<open>The checks of a Minix header, which both \<open>bootsect\<close> and \<open>setup\<close> go through; the result is what follows the header.\<close>

definition minix_file :: "string \<Rightarrow> u8 list \<Rightarrow> u8 list build" where
  "minix_file what bs =
     (let buf = take 32 bs in
      andthen (die_if (length buf \<noteq> 32) (''Unable to read header of '' @ quoted what)) (\<lambda>_.
      andthen (die_if (long_at buf 0 \<noteq> 0x04100301) (''Non-Minix header of '' @ quoted what)) (\<lambda>_.
      andthen (die_if (long_at buf 1 \<noteq> 32) (''Non-Minix header of '' @ quoted what)) (\<lambda>_.
      andthen (die_if (long_at buf 3 \<noteq> 0) (''Illegal data segment in '' @ quoted what)) (\<lambda>_.
      andthen (die_if (long_at buf 4 \<noteq> 0) (''Illegal bss in '' @ quoted what)) (\<lambda>_.
      andthen (die_if (long_at buf 5 \<noteq> 0) (''Non-Minix header of '' @ quoted what)) (\<lambda>_.
      andthen (die_if (long_at buf 7 \<noteq> 0) (''Illegal symbol table in '' @ quoted what)) (\<lambda>_.
      done_with (drop 32 bs)))))))))"

text \<open>The loop that copies the rest of a file in pieces of \<open>sizeof buf\<close>, counting bytes.\<close>

fun copy_file :: "writer \<Rightarrow> u8 list \<Rightarrow> int \<Rightarrow> int build" where
  "copy_file wr rest i =
     (if rest = [] then done_with i
      else let buf = take 1024 rest in
        andthen (write_all wr buf) (\<lambda>_. copy_file wr (drop 1024 rest) (s32 (i + int (length buf)))))"

function pad_setup :: "writer \<Rightarrow> int \<Rightarrow> unit build" where
  "pad_setup wr i =
     (if i < 4 * 512 then
        let c = 4 * 512 - i; c = (if c > 1024 then 1024 else c) in
        andthen (write_all wr (replicate (nat c) 0)) (\<lambda>_. pad_setup wr (i + c))
      else done_with ())"
  by pat_completeness auto
termination by (relation "measure (\<lambda>(wr, i). nat (2048 - i))") auto

declare copy_file.simps [simp del] pad_setup.simps [simp del]

definition write_boot :: "writer \<Rightarrow> u8 \<Rightarrow> u8 \<Rightarrow> u8 list \<Rightarrow> unit build" where
  "write_boot wr major minor bs =
     andthen (minix_file ''boot'' bs) (\<lambda>rest.
     let buf = take 1024 rest in
     andthen (die_if (length buf \<noteq> 512) ''Boot block must be exactly 512 bytes'') (\<lambda>_.
     andthen (die_if ((ucast (buf ! 510) OR push_bit 8 (ucast (buf ! 511)) :: u16) \<noteq> 0xAA55)
       ''Boot block hasn't got boot flag (0xAA55)'') (\<lambda>_.
     write_all wr (buf[508 := minor, 509 := major]))))"

definition write_setup :: "writer \<Rightarrow> u8 list \<Rightarrow> unit build" where
  "write_setup wr bs =
     andthen (minix_file ''setup'' bs) (\<lambda>rest.
     andthen (copy_file wr rest 0) (\<lambda>i.
     andthen (die_if (i > 4 * 512) ''Setup exceeds 4 sectors - rewrite build/boot/setup'') (\<lambda>_.
     pad_setup wr i)))"

definition write_system :: "writer \<Rightarrow> u8 list \<Rightarrow> unit build" where
  "write_system wr bs =
     (let buf = take 1024 bs in
      andthen (die_if (length buf \<noteq> 1024) (''Unable to read header of '' @ quoted ''system'')) (\<lambda>_.
      andthen (die_if (long_at buf 5 \<noteq> 0) (''Non-GCC header of '' @ quoted ''system'')) (\<lambda>_.
      andthen (copy_file wr (drop 1024 bs) 0) (\<lambda>i.
      die_if (i > 0x2000 * 16) ''System is too big''))))"

text \<open>The major and minor number of the root device, kept in a \<open>char\<close> each.\<close>

definition root_device :: "(string \<Rightarrow> u32 option) \<Rightarrow> string list \<Rightarrow> (u8 \<times> u8) build" where
  "root_device rdev argv =
     (if length argv = 4 then
        if argv ! 3 \<noteq> ''FLOPPY'' then
          case rdev (argv ! 3) of
            None \<Rightarrow> build_die ''Couldn't stat root device.''
          | Some d \<Rightarrow> done_with (ucast (drop_bit 8 d), ucast (d AND 0xff))
        else done_with (0, 0)
      else done_with (3, 6))"

definition build_main ::
    "writer \<Rightarrow> (string \<Rightarrow> u8 list option) \<Rightarrow> (string \<Rightarrow> u32 option) \<Rightarrow> string list \<Rightarrow> unit build" where
  "build_main wr files rdev argv =
     (if length argv \<noteq> 3 \<and> length argv \<noteq> 4 then build_usage
      else
        andthen (root_device rdev argv) (\<lambda>(major, minor).
        andthen (die_if (major \<noteq> 2 \<and> major \<noteq> 3 \<and> major \<noteq> 0) ''Bad root device --- major #'') (\<lambda>_.
        andthen (open_file files (argv ! 0) ''boot'') (\<lambda>b.
        andthen (write_boot wr major minor b) (\<lambda>_.
        andthen (open_file files (argv ! 1) ''setup'') (\<lambda>s.
        andthen (write_setup wr s) (\<lambda>_.
        andthen (open_file files (argv ! 2) ''system'') (\<lambda>k.
        write_system wr k))))))))"

section \<open>The image\<close>

definition good_header :: "u8 list \<Rightarrow> bool" where
  "good_header bs \<longleftrightarrow> 32 \<le> length bs \<and> long_at bs 0 = 0x04100301 \<and> long_at bs 1 = 32 \<and> (\<forall>k \<in> {3, 4, 5, 7}. long_at bs k = 0)"

definition good_boot :: "u8 list \<Rightarrow> bool" where
  "good_boot bs \<longleftrightarrow> good_header bs \<and> length bs = 544 \<and> bs ! 542 = 0x55 \<and> bs ! 543 = 0xAA"

definition good_setup :: "u8 list \<Rightarrow> bool" where
  "good_setup bs \<longleftrightarrow> good_header bs \<and> length bs \<le> 32 + 2048"

definition good_system :: "u8 list \<Rightarrow> bool" where
  "good_system bs \<longleftrightarrow> 1024 \<le> length bs \<and> long_at bs 5 = 0 \<and> length bs \<le> 1024 + 0x20000"

definition boot_sector :: "u8 \<Rightarrow> u8 \<Rightarrow> u8 list \<Rightarrow> u8 list" where
  "boot_sector major minor bs = (drop 32 bs)[508 := minor, 509 := major]"

definition padded :: "nat \<Rightarrow> u8 list \<Rightarrow> u8 list" where
  "padded n bs = bs @ replicate (n - length bs) 0"

definition boot_image :: "u8 \<Rightarrow> u8 \<Rightarrow> u8 list \<Rightarrow> u8 list \<Rightarrow> u8 list \<Rightarrow> u8 list" where
  "boot_image major minor b s k = boot_sector major minor b @ padded 2048 (drop 32 s) @ drop 1024 k"

section \<open>Runs that end well\<close>

lemma andthen_Inr: "andthen p q got = (Inr y, w) \<longleftrightarrow> (\<exists>x m. p got = (Inr x, m) \<and> q x m = (Inr y, w))"
  by (auto simp: andthen_def split: prod.splits sum.splits)

lemma die_if_Inr: "die_if b m got = (Inr u, w) \<longleftrightarrow> \<not> b \<and> w = got"
  by (auto simp: die_if_def build_die_def done_with_def)

lemma done_with_Inr: "done_with x got = (Inr y, w) \<longleftrightarrow> y = x \<and> w = got"
  by (auto simp: done_with_def)

lemma build_die_Inr: "build_die m got \<noteq> (Inr y, w)"
  by (simp add: build_die_def)

lemma open_file_Inr: "open_file files f what got = (Inr bs, w) \<longleftrightarrow> files f = Some bs \<and> w = got"
  by (auto simp: open_file_def build_die_def done_with_def split: option.splits)

lemma write_all_Inr: "write_all wr bs got = (Inr u, w) \<longleftrightarrow> wr got bs = length bs \<and> w = got @ bs"
  by (auto simp: write_all_def die_if_Inr Let_def)

lemmas build_Inr = andthen_Inr die_if_Inr done_with_Inr build_die_Inr open_file_Inr write_all_Inr

lemma long_at_take: "k < 8 \<Longrightarrow> long_at (take 32 bs) k = long_at bs k"
  by (simp add: long_at_def drop_take)

lemma long_at_take_1024: "k < 256 \<Longrightarrow> long_at (take 1024 bs) k = long_at bs k"
  by (simp add: long_at_def drop_take)

lemma minix_file_Inr: "minix_file what bs got = (Inr r, w) \<longleftrightarrow> good_header bs \<and> r = drop 32 bs \<and> w = got"
  by (auto simp: minix_file_def Let_def build_Inr good_header_def long_at_take)

lemma copy_file_Inr:
  assumes "0 \<le> i" "i + int (length rest) < 2 ^ 31" "copy_file wr rest i got = (Inr n, w)"
  shows "n = i + int (length rest) \<and> w = got @ rest"
  using assms
proof (induction wr rest i arbitrary: got rule: copy_file.induct)
  case (1 wr rest i)
  show ?case
  proof (cases "rest = []")
    case True then show ?thesis using 1(4) by (simp add: copy_file.simps [of wr "[]"] done_with_Inr)
  next
    case False
    let ?j = "i + int (length (take 1024 rest))"
    have j: "s32 ?j = ?j" using 1(2,3) by (intro s32_id) (auto simp: in_s32_def)
    have c: "copy_file wr (drop 1024 rest) (s32 ?j) (got @ take 1024 rest) = (Inr n, w)"
      using 1(4) False by (subst (asm) copy_file.simps) (simp add: Let_def build_Inr)
    have "n = s32 ?j + int (length (drop 1024 rest)) \<and> w = (got @ take 1024 rest) @ drop 1024 rest"
      by (rule 1(1) [OF False refl _ _ c]) (unfold j, use 1(2,3) in auto)
    then show ?thesis unfolding j using False by (auto simp: min_def)
  qed
qed

lemma pad_setup_Inr: "0 \<le> i \<Longrightarrow> pad_setup wr i got = (Inr u, w) \<Longrightarrow> w = got @ replicate (nat (2048 - i)) 0"
proof (induction wr i arbitrary: got rule: pad_setup.induct)
  case (1 wr i)
  let ?c = "if 2048 - i > 1024 then 1024 else 2048 - i"
  show ?case
  proof (cases "i < 2048")
    case True
    then have step: "pad_setup wr (i + ?c) (got @ replicate (nat ?c) 0) = (Inr u, w)"
      using 1(3) by (subst (asm) pad_setup.simps) (simp add: Let_def build_Inr split: if_splits)
    have "w = (got @ replicate (nat ?c) 0) @ replicate (nat (2048 - (i + ?c))) 0"
      by (rule 1(1) [of "2048 - i" ?c]) (use True 1(2) step in auto)
    also have "\<dots> = got @ replicate (nat ?c + nat (2048 - (i + ?c))) 0" by (simp add: replicate_add)
    also have "nat ?c + nat (2048 - (i + ?c)) = nat (2048 - i)" using True by auto
    finally show ?thesis .
  next
    case False then show ?thesis using 1(3) by (subst (asm) pad_setup.simps) (simp add: build_Inr)
  qed
qed

lemma low_byte: "(ucast (ucast (l :: u8) OR push_bit 8 (ucast (h :: u8)) :: u16) :: u8) = l"
  by (rule bit_word_eqI) (auto simp: bit_simps)

lemma high_byte: "(ucast (drop_bit 8 (ucast (l :: u8) OR push_bit 8 (ucast (h :: u8)) :: u16)) :: u8) = h"
  by (rule bit_word_eqI) (auto simp: bit_simps dest: bit_imp_le_length)

lemma word_of_bytes: "uint (ucast (l :: u8) OR push_bit 8 (ucast (h :: u8)) :: u16) = uint h * 256 + uint l"
proof -
  have d: "(ucast l :: u16) AND push_bit 8 (ucast h) = 0"
    by (rule bit_word_eqI) (auto simp: bit_simps dest: bit_imp_le_length)
  have "(ucast l OR push_bit 8 (ucast h) :: u16) = ucast l + ucast h * 256"
    using d by (simp add: disjunctive_add_eq_or push_bit_eq_mult)
  moreover have "uint l < 256" "uint h < 256" using uint_lt2p [of l] uint_lt2p [of h] by simp_all
  moreover from this have "take_bit 16 (uint l) = uint l" "take_bit 16 (uint h) = uint h" by (simp_all add: take_bit_int_eq_self)
  ultimately show ?thesis by (simp add: uint_word_ariths unsigned_ucast_eq)
qed

lemma boot_flag: "(ucast (l :: u8) OR push_bit 8 (ucast (h :: u8)) :: u16) = 0xAA55 \<longleftrightarrow> l = 0x55 \<and> h = 0xAA"
proof
  assume w: "(ucast l OR push_bit 8 (ucast h) :: u16) = 0xAA55"
  show "l = 0x55 \<and> h = 0xAA" using low_byte [of l h] high_byte [of l h] unfolding w by simp
qed simp

text \<open>A run that ends well has read three correct files and written exactly the image.\<close>

lemma write_boot_Inr:
  "write_boot wr major minor b got = (Inr u, w) \<Longrightarrow> good_boot b \<and> w = got @ boot_sector major minor b"
proof -
  assume a: "write_boot wr major minor b got = (Inr u, w)"
  let ?r = "drop 32 b"
  have h: "good_header b" and l: "length (take 1024 ?r) = 512"
    and m: "(ucast (take 1024 ?r ! 510) OR push_bit 8 (ucast (take 1024 ?r ! 511)) :: u16) = 0xAA55"
    and w: "w = got @ (take 1024 ?r)[508 := minor, 509 := major]"
    using a by (auto simp: write_boot_def build_Inr minix_file_Inr Let_def)
  have len: "length b = 544" using l h by (auto simp: good_header_def min_def split: if_splits)
  have "(ucast (b ! 542) OR push_bit 8 (ucast (b ! 543)) :: u16) = 0xAA55" using m len by simp
  then show ?thesis using h len w by (simp add: good_boot_def boot_sector_def boot_flag)
qed

lemma write_setup_Inr:
  "length s < 2 ^ 31 \<Longrightarrow> write_setup wr s got = (Inr u, w) \<Longrightarrow> good_setup s \<and> w = got @ padded 2048 (drop 32 s)"
proof -
  assume l: "length s < 2 ^ 31" and a: "write_setup wr s got = (Inr u, w)"
  obtain n m where h: "good_header s" and c: "copy_file wr (drop 32 s) 0 got = (Inr n, m)" and n: "n \<le> 2048"
    and p: "pad_setup wr n m = (Inr u, w)"
    using a by (auto simp: write_setup_def build_Inr minix_file_Inr)
  have "n = int (length (drop 32 s)) \<and> m = got @ drop 32 s" using copy_file_Inr [OF _ _ c] l by simp
  moreover from this have "w = m @ replicate (nat (2048 - n)) 0" using pad_setup_Inr [OF _ p] by simp
  ultimately show ?thesis using h n by (auto simp: good_setup_def padded_def nat_diff_distrib)
qed

lemma write_system_Inr:
  "length k < 2 ^ 31 \<Longrightarrow> write_system wr k got = (Inr u, w) \<Longrightarrow> good_system k \<and> w = got @ drop 1024 k"
proof -
  assume l: "length k < 2 ^ 31" and a: "write_system wr k got = (Inr u, w)"
  obtain n where h: "1024 \<le> length k" "long_at k 5 = 0" and c: "copy_file wr (drop 1024 k) 0 got = (Inr n, w)" and n: "n \<le> 0x20000"
    using a by (auto simp: write_system_def Let_def build_Inr long_at_take_1024 min_def split: if_splits)
  show ?thesis using copy_file_Inr [OF _ _ c] l h n by (auto simp: good_system_def)
qed

lemma build_image:
  assumes "build_main wr files rdev argv [] = (Inr u, w)" "\<And>f bs. files f = Some bs \<Longrightarrow> length bs < 2 ^ 31"
  shows "\<exists>b s k major minor. files (argv ! 0) = Some b \<and> files (argv ! 1) = Some s \<and> files (argv ! 2) = Some k \<and>
    root_device rdev argv [] = (Inr (major, minor), []) \<and> major \<in> {0, 2, 3} \<and>
    good_boot b \<and> good_setup s \<and> good_system k \<and> w = boot_image major minor b s k"
proof -
  obtain major minor m0 b m1 s m2 k where
    r: "root_device rdev argv [] = (Inr (major, minor), m0)" and mj: "major \<in> {0, 2, 3}"
    and f: "files (argv ! 0) = Some b" "files (argv ! 1) = Some s" "files (argv ! 2) = Some k"
    and w: "write_boot wr major minor b m0 = (Inr (), m1)" "write_setup wr s m1 = (Inr (), m2)" "write_system wr k m2 = (Inr u, w)"
    using assms(1) by (auto simp: build_main_def build_usage_def build_Inr split: if_splits)
  have m0: "m0 = []" using r by (auto simp: root_device_def build_Inr split: if_splits option.splits)
  note b = write_boot_Inr [OF w(1)] and s = write_setup_Inr [OF assms(2) [OF f(2)] w(2)]
    and k = write_system_Inr [OF assms(2) [OF f(3)] w(3)]
  show ?thesis using r mj f b s k m0 by (auto simp: boot_image_def)
qed

text \<open>The loader finds each part at its place: the boot sector first, \<open>setup\<close> in the next four sectors, then the system.\<close>

lemma boot_image_layout:
  assumes "good_boot b" "good_setup s"
  shows "length (boot_sector major minor b) = 512"
    and "take 512 (boot_image major minor b s k) = boot_sector major minor b"
    and "take 2048 (drop 512 (boot_image major minor b s k)) = padded 2048 (drop 32 s)"
    and "drop 2560 (boot_image major minor b s k) = drop 1024 k"
proof -
  show l: "length (boot_sector major minor b) = 512" using assms(1) by (simp add: good_boot_def boot_sector_def)
  have p: "length (padded 2048 (drop 32 s)) = 2048" using assms(2) by (auto simp: good_setup_def padded_def)
  show "take 512 (boot_image major minor b s k) = boot_sector major minor b"
    "take 2048 (drop 512 (boot_image major minor b s k)) = padded 2048 (drop 32 s)"
    "drop 2560 (boot_image major minor b s k) = drop 1024 k" by (simp_all add: boot_image_def l p)
qed

text \<open>The root device put into the boot sector is the one \<open>main\<close> takes from it, once the sector is at \<open>0x90000\<close>.\<close>

lemma boot_sector_root:
  "good_boot b \<Longrightarrow> boot_sector major minor b ! 508 = minor \<and> boot_sector major minor b ! 509 = major"
  by (simp add: good_boot_def boot_sector_def)

lemma root_dev_of_image:
  assumes "good_boot b" "good_setup st"
    and "\<And>i. i < 512 \<Longrightarrow> get_pbyte (0x90000 + of_nat i) s = boot_image major minor b st k ! i"
  shows "uint (ORIG_ROOT_DEV s) = uint major * 256 + uint minor"
proof -
  have at: "boot_image major minor b st k ! i = boot_sector major minor b ! i" if "i < 512" for i
    using that boot_image_layout(1) [OF assms(1,2), of major minor] by (simp add: boot_image_def nth_append)
  have "get_pbyte 0x901FC s = minor" "get_pbyte 0x901FD s = major"
    using assms(3) [of 508] assms(3) [of 509] at boot_sector_root [OF assms(1)] by simp_all
  then show ?thesis by (simp add: get_pshort_def word_of_bytes)
qed

section \<open>An image is made whenever the three files are correct\<close>

lemma build_run [simp]:
  "andthen (done_with x) q = q x" "andthen (die_if False m) r = r ()" "die_if False m = done_with ()"
  by (auto simp: andthen_def done_with_def die_if_def fun_eq_iff)

lemma andthen_run: "p got = (Inr x, m) \<Longrightarrow> andthen p q got = q x m"
  by (simp add: andthen_def)

lemma write_all_run: "wr got bs = length bs \<Longrightarrow> write_all wr bs got = (Inr (), got @ bs)"
  by (simp add: write_all_Inr)

lemma copy_file_run:
  assumes "\<And>got bs. wr got bs = length bs"
  shows "0 \<le> i \<Longrightarrow> i + int (length rest) < 2 ^ 31 \<Longrightarrow> copy_file wr rest i got = (Inr (i + int (length rest)), got @ rest)"
proof (induction "length rest" arbitrary: rest i got rule: less_induct)
  case less
  show ?case
  proof (cases "rest = []")
    case True then show ?thesis by (simp add: copy_file.simps [of wr "[]"] done_with_def)
  next
    case False
    let ?j = "i + int (length (take 1024 rest))"
    have j: "s32 ?j = ?j" using less.prems by (intro s32_id) (auto simp: in_s32_def)
    have "copy_file wr rest i got = copy_file wr (drop 1024 rest) (s32 ?j) (got @ take 1024 rest)"
      using False by (subst copy_file.simps) (simp add: Let_def andthen_run [OF write_all_run [OF assms]])
    also have "\<dots> = (Inr (?j + int (length (drop 1024 rest))), (got @ take 1024 rest) @ drop 1024 rest)"
      unfolding j by (rule less.hyps) (use less.prems False in auto)
    finally show ?thesis by (auto simp: min_def)
  qed
qed

lemma pad_setup_run: "(\<And>got bs. wr got bs = length bs) \<Longrightarrow> fst (pad_setup wr i got) = Inr ()"
proof (induction wr i arbitrary: got rule: pad_setup.induct)
  case (1 wr i)
  let ?c = "if 2048 - i > 1024 then 1024 else 2048 - i"
  show ?case
  proof (cases "i < 2048")
    case True
    then have "pad_setup wr i got = pad_setup wr (i + ?c) (got @ replicate (nat ?c) 0)"
      by (subst pad_setup.simps) (simp add: Let_def andthen_run [OF write_all_run [OF 1(2)]])
    moreover have "fst (pad_setup wr (i + ?c) (got @ replicate (nat ?c) 0)) = Inr ()"
      by (rule 1(1) [of "2048 - i" ?c]) (use True 1(2) in auto)
    ultimately show ?thesis by simp
  next
    case False then show ?thesis by (subst pad_setup.simps) (simp add: done_with_def)
  qed
qed

lemma minix_file_run: "good_header bs \<Longrightarrow> minix_file what bs = done_with (drop 32 bs)"
  by (simp add: fun_eq_iff done_with_def minix_file_Inr)

lemma image_made:
  assumes wr: "\<And>got bs. wr got bs = length bs" and argv: "length argv = 3 \<or> length argv = 4"
    and root: "root_device rdev argv [] = (Inr (major, minor), [])" "major \<in> {0, 2, 3}"
    and f: "files (argv ! 0) = Some b" "files (argv ! 1) = Some s" "files (argv ! 2) = Some k"
    and good: "good_boot b" "good_setup s" "good_system k"
  shows "build_main wr files rdev argv [] = (Inr (), boot_image major minor b s k)"
proof -
  have "(ucast (b ! 542) OR push_bit 8 (ucast (b ! 543)) :: u16) = 0xAA55" and b: "good_header b" "length b = 544"
    using good(1) by (auto simp: good_boot_def)
  then have wb: "write_boot wr major minor b got = (Inr (), got @ boot_sector major minor b)" for got
    by (simp add: write_boot_def minix_file_run Let_def write_all_Inr wr boot_sector_def)
  have s: "good_header s" "length s \<le> 2080" using good(2) by (simp_all add: good_setup_def)
  then have c: "copy_file wr (drop 32 s) 0 got = (Inr (int (length (drop 32 s))), got @ drop 32 s)" for got
    using copy_file_run [OF wr, where i = 0 and rest = "drop 32 s"] by simp
  have fits: "(2048 < length s - 32) = False" using s(2) by auto
  have "write_setup wr s got = pad_setup wr (int (length (drop 32 s))) (got @ drop 32 s)" for got
    unfolding write_setup_def minix_file_run [OF s(1)] build_run by (simp add: andthen_run [where p = "copy_file wr (drop 32 s) 0", OF c] fits)
  then have ws: "fst (write_setup wr s got) = Inr ()" for got by (simp only: pad_setup_run [OF wr])
  have k: "1024 \<le> length k" "long_at k 5 = 0" "length k \<le> 1024 + 0x20000" using good(3) by (simp_all add: good_system_def)
  have ck: "copy_file wr (drop 1024 k) 0 got = (Inr (int (length k - 1024)), got @ drop 1024 k)" for got
    using copy_file_run [OF wr, where i = 0 and rest = "drop 1024 k"] k by simp
  have wk: "write_system wr k got = (Inr (), got @ drop 1024 k)" for got
    using k by (simp add: write_system_def Let_def long_at_take_1024) (simp add: andthen_run [where p = "copy_file wr (drop 1024 k) 0", OF ck] done_with_def)
  obtain m where m: "write_setup wr s (boot_sector major minor b) = (Inr (), m)" using ws by (cases "write_setup wr s (boot_sector major minor b)") (metis fst_conv)
  have "m = boot_sector major minor b @ padded 2048 (drop 32 s)" using write_setup_Inr [OF _ m] s(2) by simp
  moreover have mj: "(major \<noteq> 2 \<and> major \<noteq> 3 \<and> major \<noteq> 0) = False" using root(2) by auto
  ultimately show ?thesis
    using argv m by (auto simp: build_main_def mj andthen_run [where p = "root_device rdev argv", OF root(1)] open_file_def f [simplified] andthen_run [where p = "write_boot wr major minor b", OF wb] andthen_run [where p = "write_setup wr s", OF m] wk boot_image_def)
qed

end
