(* ===== verification/Spec2Isabelle.thy ===== *)
theory Spec2Isabelle
  imports Paging Mktime Vsprintf Wait_Queue Syscalls_Props Tty_Props Tty_Edit Blk_Live Process_Props Exit_Props Cache_Props Pipe_Props File_Props Demand_Props Malloc_Props Hd_Props Exec_Props Floppy_Read Str_Props Startup_Props Entry_Props Build_Image
begin

text \<open>
  Verification of the Linux 0.11 kernel.

  \<^bold>\<open>The program.\<close>  The kernel is a set of C files that work on shared global tables: physical pages and page
  tables (\<open>src/mm\<close>), the tasks with their signals, timers and descriptors (\<open>src/kernel\<close>), the terminals and the
  screen (\<open>src/kernel/chr_drv\<close>), requests to block devices and their drivers (\<open>src/kernel/blk_drv\<close>), and the file
  system from buffers to path names (\<open>src/fs\<close>).  A system call runs until it returns or sleeps; while it sleeps, other tasks
  run kernel code on the same tables, and interrupt routines run between instructions.

  \<^bold>\<open>How it is modelled.\<close>  Every C function is a function of the same name on an explicit state.  The states are records that
  extend each other: \<open>mm\<close> (physical memory, \<open>mem_map\<close>; theory \<open>Memory\<close>), \<open>sched\<close> (tasks, timers, segment tables, ports; \<open>Tasks\<close>),
  \<open>chr\<close> with its consoles and queues for the terminals (\<open>Tty\<close>, \<open>Console\<close>), and \<open>fs\<close> (buffers, inodes, files, super blocks, requests, the
  drivers of the hard disk and of floppies as the records \<open>hd_driver\<close> and \<open>fd_driver\<close>; \<open>Fs_Data\<close>).  A function that can only return is an ordinary function; one that can fail or sleep has an
  \<open>outcome\<close> (\<open>Kernel_Prelude\<close>): it returns a value and a state (\<open>Ret\<close>), calls \<open>panic\<close>, does something C leaves undefined (a null or
  wild pointer, an index outside an array, a division by 0), ends the task (\<open>Exits\<close>), or never comes back (\<open>Blocked\<close>).  Statements
  are sequenced by \<open>bindO\<close>.  Registers, flags and addresses are words of their width, with their wrap-around; counted C integers are
  integers wrapped by \<open>s32\<close> after every operation that can leave the range.  A loop that may run forever is \<open>loopO\<close>
  (\<open>Loops\<close>): it has no fuel, and a run that never ends is \<open>Blocked\<close>.  A \<open>for\<close> loop is \<open>fold\<close> or \<open>eachO\<close>.

  \<^bold>\<open>What is outside.\<close>  Code that runs while a path sleeps is a parameter: \<open>k_env\<close> of the record \<open>kenv\<close> says what other tasks and interrupts
  do to the state from one call of \<open>schedule\<close> to the next, \<open>k_dev\<close> is the strategy routine of a block device.  Theorems about paths that sleep hold
  for every environment that keeps the property in question (for instance \<open>rely\<close> in \<open>Descriptors\<close>), and their witnesses use a
  concrete one.  The user memory of a task is a map from addresses to bytes (\<open>umem\<close>), which hides page faults except in the functions that
  handle them; \<open>do_execve\<close> takes the bytes page faults will bring in as the parameter \<open>img\<close>.  What a device answers is a stream of values per
  port (\<open>port_in\<close>), and what is sent to it is appended to \<open>ports\<close>.
\<close>

text \<open>
  \<^bold>\<open>Theories and sources.\<close>

  \<^item> Prelude: \<open>Kernel_Prelude\<close> (words, outcomes, error numbers), \<open>Loops\<close> (loops and searches), \<open>Phys_Bytes\<close> (bytes of physical memory).
  \<^item> Memory: \<open>Memory\<close> is \<open>src/mm/memory.c\<close> without demand loading, which needs inodes and is in \<open>Demand\<close>, with \<open>Demand_Props\<close>; \<open>Memory_Inv\<close>, \<open>Memory_Free\<close>,
    \<open>Memory_Fault\<close> and \<open>Paging\<close> hold the invariant \<open>mm_inv\<close> (every page is counted once for each page-table entry and each other
    user of it), that allocation, copying, freeing and faults keep it, and the properties.
  \<^item> Tasks: \<open>Tasks\<close> (\<open>sched.h\<close>, \<open>system.h\<close>, \<open>segment.h\<close>), \<open>Sched\<close> and \<open>Wait\<close> (\<open>sched.c\<close>), \<open>Syscalls\<close> (\<open>signal.c\<close>, \<open>sys.c\<close>, \<open>verify_area\<close> of
    \<open>fork.c\<close>), \<open>Process\<close> (\<open>fork.c\<close>, \<open>exit.c\<close>), \<open>Exec\<close> (\<open>src/fs/exec.c\<close>), with properties in \<open>Sched_Props\<close>, \<open>Wait_Queue\<close>, \<open>Syscalls_Props\<close>,
    \<open>Process_Props\<close>, \<open>Fork_Props\<close>, \<open>Exit_Props\<close>, \<open>Exec_Props\<close>.
  \<^item> Library code of the kernel: \<open>Mktime\<close> (\<open>mktime.c\<close>), \<open>Vsprintf\<close> (\<open>vsprintf.c\<close>), \<open>Malloc\<close> (\<open>src/lib/malloc.c\<close>) with \<open>Malloc_Inv\<close> and \<open>Malloc_Props\<close>,
    \<open>Str_Asm\<close> (the string instructions and functions of \<open>src/include/string.h\<close>, on a memory of bytes) with \<open>Str_Props\<close>.
  \<^item> Entries and booting: \<open>Traps\<close> (\<open>printk.c\<close>, \<open>panic.c\<close>, \<open>traps.c\<close>, \<open>math_emulate.c\<close> and the interrupt table, as \<open>setup_idt\<close> of \<open>head.s\<close> fills it and with every gate any part sets) with
    \<open>Traps_Props\<close>; \<open>Entry\<close> (\<open>system_call.s\<close>, \<open>asm.s\<close>, the table of \<open>sys.h\<close>), which joins the calls of all theories to the function \<open>system_call\<close> from the registers of a
    program to those it goes on with, with \<open>Entry_Props\<close>; \<open>Startup\<close> (\<open>src/init/main.c\<close>), which runs the initialisation of all parts, with \<open>Startup_Props\<close>;
    \<open>Build_Image\<close> (\<open>src/tools/build.c\<close>), which joins the parts of the boot image: every run that ends well writes boot sector, padded \<open>setup\<close> and system
    of correct files, and the root device asked for is the one \<open>main\<close> reads.
  \<^item> Terminals: \<open>Tty_Queue\<close> (\<open>tty.h\<close>), \<open>Console\<close> (\<open>console.c\<close>), \<open>Tty\<close> (\<open>tty_io.c\<close>, \<open>tty_ioctl.c\<close>, \<open>serial.c\<close> and \<open>con_write\<close>), with
    \<open>Console_Props\<close>, \<open>Tty_Props\<close>, \<open>Tty_Edit\<close>.
  \<^item> Block devices: \<open>Blk_Dev\<close> (\<open>ll_rw_blk.c\<close>, \<open>blk.h\<close>, \<open>ramdisk.c\<close>) with \<open>Blk_Props\<close> and \<open>Blk_Live\<close>; \<open>Hd\<close> (\<open>hd.c\<close> and its interrupt entry) with
    \<open>Hd_Props\<close>; \<open>Floppy\<close> (\<open>floppy.c\<close> and its interrupt entry; the change of disks is in \<open>Buffer_Sync\<close>, the motors are in \<open>Sched\<close>) with \<open>Floppy_Props\<close> and \<open>Floppy_Read\<close>.
  \<^item> File system: \<open>Fs_Data\<close> (\<open>fs.h\<close>), \<open>Buffer\<close> and \<open>Buffer_Sync\<close> (\<open>buffer.c\<close>, \<open>super.c\<close>), \<open>Bitmap\<close> (\<open>bitmap.c\<close>), \<open>Inode\<close> (\<open>inode.c\<close>,
    \<open>truncate.c\<close>), \<open>Files\<close> (\<open>read_write.c\<close>, \<open>file_dev.c\<close>, \<open>block_dev.c\<close>, \<open>pipe.c\<close>, \<open>char_dev.c\<close>, \<open>fcntl.c\<close>, \<open>ioctl.c\<close>), \<open>Namei\<close> and
    \<open>Dirs\<close> (\<open>namei.c\<close>), \<open>Open_Mount\<close> (\<open>open.c\<close>, \<open>stat.c\<close>, mounting); properties in \<open>Cache_Props\<close>, \<open>Descriptors\<close>, \<open>Pipe_Props\<close>, \<open>File_Props\<close>.
    \<open>getblk\<close> may sync a device, which writes inodes, which reads blocks through \<open>getblk\<close> again; \<open>getblk_n\<close> bounds this nesting by 64, by which time the
    kernel stack of one page would have overflowed.
\<close>

text \<open>
  \<^bold>\<open>Interfaces.\<close>  Where one part relies on another, the contract is a locale, interpreted on the code.

  \<^item> \<open>page_pool\<close> (\<open>Paging\<close>): pages handed out are unused and zero, and counts follow; \<open>frames\<close> shows it of \<open>get_free_page\<close> and \<open>free_page\<close>.
  \<^item> \<open>bounded_fifo\<close> (\<open>Tty_Queue\<close>): a queue with a limit whose last element can be taken back; \<open>ring\<close> shows it of the macros of \<open>tty.h\<close>.
  \<^item> \<open>base_frame\<close>, \<open>cache_frame\<close>, \<open>fs_frame\<close> (\<open>Fs_Frame\<close>): a property that survives the single updates of the file system and what other tasks
    and drivers do, survives every operation, on every path, however often it sleeps.  \<open>call_frame\<close> (\<open>Fs_Calls\<close>) extends
    \<open>cache_frame\<close> from these operations to whole system calls on files, devices and terminals.  \<open>held\<close> (\<open>Descriptors\<close>) uses \<open>fs_frame\<close> for the counts of open files,
    \<open>hashed\<close> (\<open>Cache_Props\<close>) uses \<open>call_frame\<close> for the hash queues of the buffer cache.
  \<^item> \<open>wait_queue\<close> (\<open>Wait_Queue\<close>): the head of a queue of sleeping tasks as a variable of its own; \<open>motor\<close>, \<open>buf\<close>, \<open>inode\<close>, \<open>super\<close>, \<open>free_buf\<close> and
    \<open>req\<close> show it of the queues of the kernel.
  \<^item> \<open>line_echo\<close> (\<open>Tty_Edit\<close>): what the line discipline relies on in the routine that writes the echo; \<open>tty\<close> shows it of \<open>tty_out\<close>.
  \<^item> \<open>allocator\<close> (\<open>Malloc_Props\<close>): blocks in use are disjoint and keep their contents whatever the other users do; \<open>kernel\<close> shows it of \<open>malloc\<close> and \<open>free_s\<close>.

  \<^bold>\<open>What is shown.\<close>  Paging: fork shares every page copy-on-write and the counts stay exact, faults make private or zero pages or end the task for lack of memory, freeing restores the state before.
  Scheduling: the best task is picked, timers fire after the time asked for, sleepers are named by a queue or a task that wakes them, and are woken.  System calls: buffers verified are writable,
  on the way back to a program the right signal is taken, with a complete frame for its handler, \<open>kill\<close> signals exactly whom it may, process numbers are found.  Terminals: output stays inside the
  screen whatever is written, scrolling and line editing, with its echo, meet their specifications, the queues are queues.  Block devices: the elevator keeps two sorted
  sweeps, the RAM disk stores and serves every request, the hard disk driver is well-typed in every state it reaches, its commands stay inside
  their partition, and a read delivers the sectors in order; the floppy driver, whose next step always hangs on an interrupt or a timer, never stalls, and a read
  reaches the buffer of its request.  File system: a block is cached once, descriptors are counted, pipes are queues, seeks stay in
  bounds, inodes survive the disk, permissions mean what their bits say.  Programs: \<open>malloc\<close> hands out disjoint blocks even when interrupted; a program started
  by \<open>execve\<close> finds the arguments and the environment of its caller; \<open>strtok\<close> yields the tokens of its string.
  Booting: memory is divided without overlap among buffers, RAM disk and free pages, the clock is read consistently although it runs, and
  programs can enter the kernel through four gates only.

  \<^bold>\<open>Bounds.\<close>  The waits for a lock or a request count down \<open>budget\<close>, the number of times the processor may still be given away; a path that uses it up is
  \<open>Blocked\<close>, and the theorems hold for every budget.  The search of the elevator and \<open>do_rd_request\<close> have 33 rounds for the 32 requests of the table.  The polling loops of the
  disk controllers have the counts of the source, 10000 and 3000.  \<open>cooked_loop\<close> has 1024 rounds, one for each of the at most 1023 characters of the read queue.  \<open>do_timer\<close> takes a bound on the timers that expire at one tick, of which there are 64, and its theorems hold for
  every bound.  All other loops either follow the data or are \<open>loopO\<close>.

  \<^bold>\<open>Not modelled.\<close>  The program of process 1 at the end of \<open>src/init/main.c\<close> and the stubs in \<open>src/lib\<close>, which run in user mode and reach the kernel by the system
  calls modelled here.  The boot sector, \<open>setup.s\<close> and, but for the interrupt table, \<open>head.s\<close>, which run before the kernel.  Interrupts between the insertion
  of a request and the call of the driver in \<open>add_request\<close>: the two are one step.  The assembly of the keyboard and of the serial ports: characters
  appear in the queues by what interrupts may do; of the page fault entry \<open>page.s\<close> only the routines it calls.  The transfer by the DMA chip and the
  answers of devices are parameters.  Outside \<open>Traps\<close> the text of messages is left out and a call of \<open>panic\<close> is the outcome \<open>Panic\<close>.
\<close>

end
